(* ===== verification/Prelude.thy ===== *)
theory Prelude
  imports Main "HOL-Library.Word"
begin

text \<open>
  Shared vocabulary of the development: bytes, the characters the protocol parsers
  compare against, character classes written the way the C code writes them, C
  enumerations kept in an integer field, and the generic list and word lemmas that the
  component proofs use.
\<close>

unbundle bit_operations_syntax

named_theorems byte_class \<open>definitions of the character classes\<close>

type_synonym byte = "8 word"

section \<open>Characters\<close>

abbreviation NUL :: byte where "NUL \<equiv> 0x00"
abbreviation HT :: byte where "HT \<equiv> 0x09"
abbreviation LF :: byte where "LF \<equiv> 0x0a"
abbreviation CR :: byte where "CR \<equiv> 0x0d"
abbreviation ch_space :: byte where "ch_space \<equiv> 0x20"
abbreviation ch_hash :: byte where "ch_hash \<equiv> 0x23"
abbreviation ch_percent :: byte where "ch_percent \<equiv> 0x25"
abbreviation ch_amp :: byte where "ch_amp \<equiv> 0x26"
abbreviation ch_plus :: byte where "ch_plus \<equiv> 0x2b"
abbreviation ch_comma :: byte where "ch_comma \<equiv> 0x2c"
abbreviation ch_minus :: byte where "ch_minus \<equiv> 0x2d"
abbreviation ch_dot :: byte where "ch_dot \<equiv> 0x2e"
abbreviation ch_slash :: byte where "ch_slash \<equiv> 0x2f"
abbreviation ch_0 :: byte where "ch_0 \<equiv> 0x30"
abbreviation ch_1 :: byte where "ch_1 \<equiv> 0x31"
abbreviation ch_9 :: byte where "ch_9 \<equiv> 0x39"
abbreviation ch_colon :: byte where "ch_colon \<equiv> 0x3a"
abbreviation ch_semicolon :: byte where "ch_semicolon \<equiv> 0x3b"
abbreviation ch_equals :: byte where "ch_equals \<equiv> 0x3d"
abbreviation ch_question :: byte where "ch_question \<equiv> 0x3f"
abbreviation ch_A :: byte where "ch_A \<equiv> 0x41"
abbreviation ch_H :: byte where "ch_H \<equiv> 0x48"
abbreviation ch_O :: byte where "ch_O \<equiv> 0x4f"
abbreviation ch_P :: byte where "ch_P \<equiv> 0x50"
abbreviation ch_T :: byte where "ch_T \<equiv> 0x54"
abbreviation ch_Z :: byte where "ch_Z \<equiv> 0x5a"
abbreviation ch_lbracket :: byte where "ch_lbracket \<equiv> 0x5b"
abbreviation ch_rbracket :: byte where "ch_rbracket \<equiv> 0x5d"
abbreviation ch_underscore :: byte where "ch_underscore \<equiv> 0x5f"
abbreviation ch_a :: byte where "ch_a \<equiv> 0x61"
abbreviation ch_f :: byte where "ch_f \<equiv> 0x66"
abbreviation ch_z :: byte where "ch_z \<equiv> 0x7a"
abbreviation ch_tilde :: byte where "ch_tilde \<equiv> 0x7e"
abbreviation DEL :: byte where "DEL \<equiv> 0x7f"

text \<open>A string literal as the bytes the C compiler stores for it.\<close>

definition bytes :: "string \<Rightarrow> byte list" where
  "bytes s = map of_char s"

lemma bytes_simps [simp]:
  "bytes [] = []"
  "bytes (c # s) = of_char c # bytes s"
  by (simp_all add: bytes_def)

text \<open>\<open>c = (u_char) (ch | 0x20)\<close>, the case folding every parser uses.\<close>

definition lower :: "byte \<Rightarrow> byte" where
  "lower ch = ch OR 0x20"

definition is_digit :: "byte \<Rightarrow> bool" where
  [byte_class]: "is_digit ch \<longleftrightarrow> ch_0 \<le> ch \<and> ch \<le> ch_9"

definition is_alpha :: "byte \<Rightarrow> bool" where
  [byte_class]: "is_alpha ch \<longleftrightarrow> ch_a \<le> lower ch \<and> lower ch \<le> ch_z"

definition is_hex_alpha :: "byte \<Rightarrow> bool" where
  [byte_class]: "is_hex_alpha ch \<longleftrightarrow> ch_a \<le> lower ch \<and> lower ch \<le> ch_f"

text \<open>\<open>ch - '0'\<close> and \<open>(ch | 0x20) - 'a' + 10\<close> as numbers.\<close>

definition digit_val :: "byte \<Rightarrow> nat" where
  "digit_val ch = unat (ch - ch_0)"

definition hex_alpha_val :: "byte \<Rightarrow> nat" where
  "hex_alpha_val ch = unat (lower ch - ch_a) + 10"

text \<open>The value of a hexadecimal digit of either case.\<close>

definition hex_value :: "byte \<Rightarrow> nat option" where
  "hex_value ch =
     (if is_digit ch then Some (digit_val ch)
      else if is_hex_alpha ch then Some (hex_alpha_val ch)
      else None)"

section \<open>Deciding a predicate on all bytes\<close>

lemma all_byte: "(\<forall>ch::byte. P ch) \<longleftrightarrow> (\<forall>n\<in>set [0..<256]. P (word_of_nat n))"
proof
  assume all: "\<forall>n\<in>set [0..<256]. P (word_of_nat n)"
  show "\<forall>ch::byte. P ch"
  proof
    fix ch :: byte
    have "unat ch \<in> set [0..<256]"
      using unsigned_less [of ch, where 'a = nat] by simp
    with all have "P (word_of_nat (unat ch))" by blast
    then show "P ch" by simp
  qed
qed simp

lemma digit_val_less: "is_digit ch \<Longrightarrow> digit_val ch < 10"
  unfolding byte_class digit_val_def by unat_arith

lemma hex_alpha_val_bounds: "is_hex_alpha ch \<Longrightarrow> 10 \<le> hex_alpha_val ch \<and> hex_alpha_val ch < 16"
proof -
  assume "is_hex_alpha ch"
  then have "lower ch - ch_a < 6" unfolding byte_class by unat_arith
  then show ?thesis by (simp add: hex_alpha_val_def word_less_nat_alt)
qed

text \<open>The number that decimal digits spell.\<close>

definition decimal :: "byte list \<Rightarrow> nat" where
  "decimal ds = foldl (\<lambda>n d. n * 10 + digit_val d) 0 ds"

lemma decimal_snoc: "decimal (ds @ [d]) = decimal ds * 10 + digit_val d"
  by (simp add: decimal_def)

lemma decimal_less: "\<forall>d\<in>set ds. is_digit d \<Longrightarrow> decimal ds < 10 ^ length ds"
proof (induction ds rule: rev_induct)
  case (snoc d ds)
  then show ?case using digit_val_less [of d] by (simp add: decimal_snoc)
qed (simp add: decimal_def)

section \<open>Words\<close>

lemma and_push_bit_1: "(w :: 'a::len word) AND push_bit n 1 \<noteq> 0 \<longleftrightarrow> bit w n"
  by (metis (no_types) and_exp_eq_0_iff_not_bit push_bit_of_1)

lemma unat_high3: "unat (drop_bit 5 (ch :: byte)) = unat ch div 32"
  by (simp add: drop_bit_eq_div unat_div)

lemma unat_low5: "unat ((ch :: byte) AND 0x1f) = unat ch mod 32"
proof -
  have "ch AND 0x1f = take_bit 5 ch" by (simp add: take_bit_eq_mask mask_eq_exp_minus_1)
  then show ?thesis by (simp add: take_bit_eq_mod unat_mod)
qed

lemma unat_ucast_byte16 [simp]: "unat (ucast (b :: byte) :: 16 word) = unat b"
proof -
  have "unat b < 2 ^ 16" using unsigned_less [of b, where 'a = nat] by simp
  then show ?thesis by (simp add: unsigned_ucast_eq take_bit_nat_eq_self)
qed

lemma unat_digit: "ch_0 \<le> ch \<Longrightarrow> unat (ch - ch_0) = unat ch - 48"
  by (simp add: unat_sub word_le_nat_alt)

section \<open>Runs of bytes in a buffer\<close>

text \<open>\<open>segment a b xs\<close> are the bytes from offset \<open>a\<close> up to, not including, \<open>b\<close>.\<close>

definition segment :: "nat \<Rightarrow> nat \<Rightarrow> 'a list \<Rightarrow> 'a list" where
  "segment a b xs = take (b - a) (drop a xs)"

definition all_in :: "'a list \<Rightarrow> nat \<Rightarrow> nat \<Rightarrow> ('a \<Rightarrow> bool) \<Rightarrow> bool" where
  "all_in xs a b P \<longleftrightarrow> (\<forall>i. a \<le> i \<and> i < b \<longrightarrow> P (xs ! i))"

lemma all_in_Suc [simp]: "all_in xs a (Suc p) P \<longleftrightarrow> all_in xs a p P \<and> (a \<le> p \<longrightarrow> P (xs ! p))"
  by (auto simp: all_in_def less_Suc_eq)

lemma all_in_empty [simp]: "b \<le> a \<Longrightarrow> all_in xs a b P"
  by (auto simp: all_in_def)

lemma all_inD: "all_in xs a b P \<Longrightarrow> a \<le> i \<Longrightarrow> i < b \<Longrightarrow> P (xs ! i)"
  by (simp add: all_in_def)

lemma length_segment [simp]: "length (segment a b xs) = min (b - a) (length xs - a)"
  by (simp add: segment_def min.commute)

lemma nth_segment: "i < b - a \<Longrightarrow> a + i < length xs \<Longrightarrow> segment a b xs ! i = xs ! (a + i)"
  by (simp add: segment_def)

lemma segment_eq_map: "b \<le> length xs \<Longrightarrow> segment a b xs = map (\<lambda>i. xs ! (a + i)) [0..<b - a]"
  by (rule nth_equalityI) (auto simp: nth_segment)

lemma all_in_segment: "b \<le> length xs \<Longrightarrow> all_in xs a b P \<longleftrightarrow> (\<forall>x\<in>set (segment a b xs). P x)"
proof -
  assume b: "b \<le> length xs"
  have "(\<forall>x\<in>set (segment a b xs). P x) \<longleftrightarrow> (\<forall>i<b - a. P (xs ! (a + i)))"
    using b by (auto simp: segment_eq_map)
  also have "\<dots> \<longleftrightarrow> all_in xs a b P"
    unfolding all_in_def by (metis add.commute add_diff_cancel_right' diff_less_mono le_add2 le_add_diff_inverse less_diff_conv)
  finally show ?thesis by simp
qed

lemma segment_append: "b \<le> length xs \<Longrightarrow> segment a b (xs @ ys) = segment a b xs"
  by (cases "a \<le> b") (auto simp: segment_def)

lemma segment_Suc: "a \<le> p \<Longrightarrow> p < length xs \<Longrightarrow> segment a (Suc p) xs = segment a p xs @ [xs ! p]"
  by (simp add: segment_def Suc_diff_le take_Suc_conv_app_nth)

lemma segment_empty [simp]: "b \<le> a \<Longrightarrow> segment a b xs = []"
  by (simp add: segment_def)

lemma all_in_mono: "all_in xs a b P \<Longrightarrow> (\<And>x. P x \<Longrightarrow> Q x) \<Longrightarrow> all_in xs a b Q"
  by (auto simp: all_in_def)

lemma segment_Cons: "a < b \<Longrightarrow> a < length xs \<Longrightarrow> segment a b xs = xs ! a # segment (Suc a) b xs"
  by (simp add: segment_def Cons_nth_drop_Suc [symmetric] take_Cons')

lemma segment_eq_Cons:
  assumes "segment a b xs = c # cs" and "b \<le> length xs"
  shows "a < b" and "xs ! a = c" and "segment (Suc a) b xs = cs"
proof -
  show ab: "a < b" using assms(1) by (cases "a < b") auto
  with assms segment_Cons [of a b xs] show "xs ! a = c" and "segment (Suc a) b xs = cs" by simp_all
qed

lemma segment_eq_Nil: "segment a b xs = [] \<Longrightarrow> b \<le> length xs \<Longrightarrow> b \<le> a"
  by (auto simp: segment_def)

lemma segment_split: "a \<le> p \<Longrightarrow> p \<le> b \<Longrightarrow> segment a b xs = segment a p xs @ segment p b xs"
proof -
  assume "a \<le> p" "p \<le> b"
  then have "b - a = (p - a) + (b - p)" and "p = (p - a) + a" by simp_all
  then show ?thesis unfolding segment_def by (metis drop_drop take_add)
qed

lemma segment_take: "b \<le> n \<Longrightarrow> segment a b (take n xs) = segment a b xs"
  by (simp add: segment_def drop_take min_def)

lemma drop_append_at: "drop p xs = ys @ zs \<Longrightarrow> drop (p + length ys) xs = zs"
  by (metis add.commute append_eq_conv_conj drop_drop)

lemma drop_Cons_at:
  assumes "drop p xs = c # cs"
  shows "xs ! p = c" and "p < length xs" and "drop (Suc p) xs = cs"
proof -
  show "p < length xs" using assms by (auto intro: ccontr)
  then show "xs ! p = c" and "drop (Suc p) xs = cs"
    using assms by (simp_all add: Cons_nth_drop_Suc [symmetric])
qed

lemma all_in_drop:
  assumes "drop p xs = ys @ zs" and "\<forall>x\<in>set ys. P x"
  shows "all_in xs p (p + length ys) P"
  unfolding all_in_def
proof (intro allI impI)
  fix i assume i: "p \<le> i \<and> i < p + length ys"
  then have "xs ! i = drop p xs ! (i - p)"
    using assms(1) by (metis le_add_diff_inverse nth_drop nat_le_linear drop_all append_is_Nil_conv
        length_0_conv add_0_right not_le)
  also have "\<dots> = ys ! (i - p)" using i assms(1) by (auto simp: nth_append)
  finally show "P (xs ! i)" using i assms(2) by (auto simp: less_diff_conv2)
qed

section \<open>Splitting at a separator\<close>

text \<open>The pieces of a list between separators.\<close>

fun split_on :: "'a \<Rightarrow> 'a list \<Rightarrow> 'a list list" where
  "split_on s [] = [[]]"
| "split_on s (x # xs) =
     (if x = s then [] # split_on s xs else (x # hd (split_on s xs)) # tl (split_on s xs))"

lemma split_on_append:
  "s \<notin> set ys \<Longrightarrow> split_on s (ys @ s # zs) = ys # split_on s zs"
  "s \<notin> set ys \<Longrightarrow> split_on s ys = [ys]"
  by (induction ys) auto

section \<open>C enumerations stored in an integer\<close>

text \<open>
  The parsers keep their state in an \<open>ngx_uint_t\<close> field between calls. \<open>enum_code\<close>
  is the number of an enumerator, \<open>enum_of\<close> the enumerator of a number, \<open>None\<close> when
  no \<open>case\<close> label of the \<open>switch\<close> matches.
\<close>

definition enum_of :: "'a list \<Rightarrow> nat \<Rightarrow> 'a option" where
  "enum_of es n = (if n < length es then Some (es ! n) else None)"

definition enum_code :: "'a list \<Rightarrow> 'a \<Rightarrow> nat" where
  "enum_code es e = length (takeWhile (\<lambda>x. x \<noteq> e) es)"

lemma enum_of_code: "e \<in> set es \<Longrightarrow> enum_of es (enum_code es e) = Some e"
  by (induction es) (auto simp: enum_of_def enum_code_def split: if_splits)

end
