(* ===== verification/Byte_Machine.thy ===== *)
theory Byte_Machine
  imports Prelude
begin

text \<open>
  The shape shared by the byte-driven parsers: a loop over the bytes of a buffer whose
  body is one big \<open>switch\<close> on a state variable. \<open>run\<close> is that loop, and the
  locales below state what the body promises (it reads no byte past the current one; it
  keeps an invariant) and what follows for the loop (parsing can be suspended at the end
  of the available bytes and resumed, the invariant holds wherever the loop stops).
\<close>

section \<open>The loop\<close>

text \<open>
  One execution of the loop body: \<open>Cont\<close> for \<open>break\<close> out of the \<open>switch\<close>,
  \<open>Exit\<close> for \<open>return\<close> or a \<open>goto\<close> out of the loop.
\<close>

datatype ('s, 'r) step = Cont 's | Exit 'r 's

text \<open>
  What the loop does: it runs out of bytes, or its body leaves it at offset \<open>p\<close>.
\<close>

datatype ('s, 'r) outcome = Suspend 's | Stop nat 'r 's

text \<open>\<open>for (p = pos; p < last; p++) { ch = *p; switch (state) ... }\<close>\<close>

function run ::
  "(byte list \<Rightarrow> nat \<Rightarrow> 's \<Rightarrow> ('s, 'r) step) \<Rightarrow> byte list \<Rightarrow> nat \<Rightarrow> 's \<Rightarrow> ('s, 'r) outcome"
where
  "run step xs p s =
     (if p < length xs
      then (case step xs p s of
              Cont s' \<Rightarrow> run step xs (Suc p) s'
            | Exit r s' \<Rightarrow> Stop p r s')
      else Suspend s)"
  by pat_completeness auto
termination
  by (relation "measure (\<lambda>(step, xs, p, s). length xs - p)") auto

declare run.simps [simp del]

lemma run_end [simp]: "length xs \<le> p \<Longrightarrow> run step xs p s = Suspend s"
  by (simp add: run.simps)

lemma run_Cont: "p < length xs \<Longrightarrow> step xs p s = Cont s' \<Longrightarrow> run step xs p s = run step xs (Suc p) s'"
  by (subst run.simps) simp

lemma run_Exit: "p < length xs \<Longrightarrow> step xs p s = Exit r s' \<Longrightarrow> run step xs p s = Stop p r s'"
  by (subst run.simps) simp

lemma run_Cont_at:
  "step xs p s = Cont s' \<Longrightarrow> p < length xs \<Longrightarrow> q = Suc p \<Longrightarrow> run step xs p s = run step xs q s'"
  by (simp add: run_Cont)

text \<open>A block of bytes on each of which the body breaks: the loop crosses the block.\<close>

lemma run_block:
  assumes "p \<le> q" and "q \<le> length xs"
    and "\<And>i. p \<le> i \<Longrightarrow> i < q \<Longrightarrow> step xs i (f i) = Cont (f (Suc i))"
  shows "run step xs p (f p) = run step xs q (f q)"
  using assms
proof (induction "q - p" arbitrary: p)
  case 0
  then show ?case by simp
next
  case (Suc n)
  then have "run step xs p (f p) = run step xs (Suc p) (f (Suc p))"
    by (intro run_Cont) auto
  also have "\<dots> = run step xs q (f q)"
    using Suc.hyps(2) Suc.prems by (intro Suc.hyps(1)) auto
  finally show ?case .
qed

lemma run_block_same:
  assumes "p \<le> q" and "q \<le> length xs"
    and "\<And>i. p \<le> i \<Longrightarrow> i < q \<Longrightarrow> step xs i s = Cont s"
  shows "run step xs p s = run step xs q s"
  using run_block [of p q xs step "\<lambda>_. s"] assms by simp

text \<open>A fixed sequence of turns.\<close>

lemma run_path:
  assumes "p + n \<le> length xs" and "\<And>i. i < n \<Longrightarrow> step xs (p + i) (f i) = Cont (f (Suc i))"
  shows "run step xs p (f 0) = run step xs (p + n) (f n)"
  using run_block [of p "p + n" xs step "\<lambda>i. f (i - p)"] assms
  by (simp add: Suc_diff_le) (metis le_add_diff_inverse less_diff_conv2 add.commute)

lemma run_Stop_bounds: "run step xs p s = Stop q r s' \<Longrightarrow> p \<le> q \<and> q < length xs"
proof (induction step xs p s rule: run.induct)
  case (1 step xs p s)
  show ?case
  proof (cases "p < length xs")
    case True
    with 1 show ?thesis
      by (cases "step xs p s") (auto simp: run_Cont run_Exit)
  next
    case False
    with "1.prems" show ?thesis by simp
  qed
qed

text \<open>The byte at which the loop stopped made the body leave it.\<close>

lemma run_Stop_Exit: "run step xs p s = Stop q r s' \<Longrightarrow> \<exists>t. step xs q t = Exit r s'"
proof (induction step xs p s rule: run.induct)
  case (1 step xs p s)
  then show ?case
    by (cases "p < length xs"; cases "step xs p s") (auto simp: run_Cont run_Exit)
qed

section \<open>Bodies that look no further than the current byte\<close>

locale byte_machine =
  fixes step :: "byte list \<Rightarrow> nat \<Rightarrow> 's \<Rightarrow> ('s, 'r) step"
  assumes step_append: "p < length xs \<Longrightarrow> step (xs @ ys) p s = step xs p s"
begin

text \<open>
  Running over \<open>xs @ ys\<close> is running over \<open>xs\<close> and, when that run ends for want of
  bytes, going on from where it was suspended.
\<close>

lemma run_append:
  "p \<le> length xs \<Longrightarrow>
   run step (xs @ ys) p s =
     (case run step xs p s of
        Suspend s' \<Rightarrow> run step (xs @ ys) (length xs) s'
      | Stop q r s' \<Rightarrow> Stop q r s')"
proof (induction "length xs - p" arbitrary: p s)
  case 0
  then show ?case by simp
next
  case (Suc n)
  then have p: "p < length xs" by simp
  show ?case
  proof (cases "step xs p s")
    case (Cont s')
    with p Suc show ?thesis
      by (simp add: run_Cont step_append)
  next
    case (Exit r s')
    with p show ?thesis
      by (simp add: run_Exit step_append)
  qed
qed

end

section \<open>Bodies that keep an invariant\<close>

locale byte_machine_inv =
  fixes step :: "byte list \<Rightarrow> nat \<Rightarrow> 's \<Rightarrow> ('s, 'r) step"
    and inv :: "byte list \<Rightarrow> nat \<Rightarrow> 's \<Rightarrow> bool"
  assumes inv_step:
    "inv xs p s \<Longrightarrow> p < length xs \<Longrightarrow> step xs p s = Cont s' \<Longrightarrow> inv xs (Suc p) s'"
begin

lemma run_Suspend_inv:
  "inv xs p s \<Longrightarrow> p \<le> length xs \<Longrightarrow> run step xs p s = Suspend s' \<Longrightarrow> inv xs (length xs) s'"
proof (induction "length xs - p" arbitrary: p s)
  case 0
  then show ?case by simp
next
  case (Suc n)
  then have p: "p < length xs" by simp
  have n: "n = length xs - Suc p" using Suc.hyps(2) by simp
  show ?case
  proof (cases "step xs p s")
    case (Cont t)
    with Suc.prems p have "inv xs (Suc p) t" and "run step xs (Suc p) t = Suspend s'"
      by (auto simp: run_Cont intro: inv_step)
    with p show ?thesis by (intro Suc.hyps(1) [OF n]) auto
  next
    case (Exit r' t)
    with Suc.prems p show ?thesis by (auto simp: run_Exit)
  qed
qed

lemma run_Stop_inv:
  "inv xs p s \<Longrightarrow> run step xs p s = Stop q r s' \<Longrightarrow>
   \<exists>t. q < length xs \<and> inv xs q t \<and> step xs q t = Exit r s'"
proof (induction "length xs - p" arbitrary: p s)
  case 0
  then show ?case by simp
next
  case (Suc n)
  then have p: "p < length xs" by simp
  have n: "n = length xs - Suc p" using Suc.hyps(2) by simp
  show ?case
  proof (cases "step xs p s")
    case (Cont t)
    with Suc.prems p have "inv xs (Suc p) t" and "run step xs (Suc p) t = Stop q r s'"
      by (auto simp: run_Cont intro: inv_step)
    with p show ?thesis by (intro Suc.hyps(1) [OF n]) auto
  next
    case (Exit r' t)
    with Suc.prems p show ?thesis by (auto simp: run_Exit)
  qed
qed

end

end
