(* ===== verification/Http_Types.thy ===== *)
theory Http_Types
  imports Byte_Machine
begin

text \<open>
  The data shared by the HTTP/1.1 parsers of \<open>ngx_http_parse.c\<close>: return codes, the
  parsing fields of \<open>ngx_http_request_t\<close>, buffers, and the table of characters that
  need no special treatment in a URI.

  A pointer into the input buffer is the offset from the start of the buffer, and NULL is
  \<open>None\<close>. The non-Windows configuration (\<open>NGX_WIN32\<close> undefined) is modelled.
\<close>

section \<open>Return codes and methods\<close>

datatype ngx_rc =
    NGX_OK | NGX_ERROR | NGX_AGAIN | NGX_DECLINED | NGX_DONE
  | NGX_HTTP_PARSE_HEADER_DONE
  | NGX_HTTP_PARSE_INVALID_METHOD
  | NGX_HTTP_PARSE_INVALID_REQUEST
  | NGX_HTTP_PARSE_INVALID_VERSION
  | NGX_HTTP_PARSE_INVALID_09_METHOD
  | NGX_HTTP_PARSE_INVALID_HEADER

datatype http_method =
    NGX_HTTP_UNKNOWN | NGX_HTTP_GET | NGX_HTTP_HEAD | NGX_HTTP_POST | NGX_HTTP_PUT
  | NGX_HTTP_DELETE | NGX_HTTP_MKCOL | NGX_HTTP_COPY | NGX_HTTP_MOVE | NGX_HTTP_OPTIONS
  | NGX_HTTP_PROPFIND | NGX_HTTP_PROPPATCH | NGX_HTTP_LOCK | NGX_HTTP_UNLOCK
  | NGX_HTTP_PATCH | NGX_HTTP_TRACE | NGX_HTTP_CONNECT

section \<open>Strings, buffers and the request\<close>

type_synonym ptr = "nat option"

record ngx_str =
  str_data :: ptr
  str_len :: nat

text \<open>\<open>buf_data\<close> holds the bytes from \<open>b->start\<close> to \<open>b->last\<close>.\<close>

record ngx_buf =
  buf_data :: "byte list"
  buf_pos :: nat

text \<open>
  The fields of \<open>ngx_http_request_t\<close> that the parsers read or write. \<open>r->uri\<close> and
  \<open>r->exten\<close>, which may lie in memory of their own, are the bytes they denote; the other
  strings lie in the input buffer.
\<close>

record ngx_http_request =
  r_upstream :: bool
  r_method :: http_method
  r_http_version :: nat
  r_uri :: "byte list"
  r_args :: ngx_str
  r_exten :: "byte list"
  r_unparsed_uri :: ngx_str
  r_valid_unparsed_uri :: bool
  r_http_protocol_data :: ptr
  r_complex_uri :: bool
  r_quoted_uri :: bool
  r_plus_in_uri :: bool
  r_empty_path_in_uri :: bool
  r_invalid_header :: bool
  r_state :: nat
  r_header_hash :: "64 word"
  r_lowcase_index :: nat
  r_lowcase_header :: "byte list"
  r_header_name_start :: ptr
  r_header_name_end :: ptr
  r_header_start :: ptr
  r_header_end :: ptr
  r_uri_start :: ptr
  r_uri_end :: ptr
  r_uri_ext :: ptr
  r_args_start :: ptr
  r_request_start :: ptr
  r_request_end :: ptr
  r_method_end :: ptr
  r_schema_start :: ptr
  r_schema_end :: ptr
  r_host_start :: ptr
  r_host_end :: ptr
  r_port_end :: ptr
  r_http_minor :: "16 word"
  r_http_major :: "16 word"

definition NGX_HTTP_LC_HEADER_LEN :: nat where
  "NGX_HTTP_LC_HEADER_LEN = 32"

text \<open>A zeroed request, as \<open>ngx_pcalloc\<close> leaves it.\<close>

definition fresh_request :: ngx_http_request where
  "fresh_request =
     \<lparr> r_upstream = False, r_method = NGX_HTTP_UNKNOWN, r_http_version = 0, r_uri = [],
       r_args = \<lparr> str_data = None, str_len = 0 \<rparr>, r_exten = [],
       r_unparsed_uri = \<lparr> str_data = None, str_len = 0 \<rparr>, r_valid_unparsed_uri = False,
       r_http_protocol_data = None, r_complex_uri = False, r_quoted_uri = False,
       r_plus_in_uri = False, r_empty_path_in_uri = False, r_invalid_header = False,
       r_state = 0, r_header_hash = 0, r_lowcase_index = 0,
       r_lowcase_header = replicate NGX_HTTP_LC_HEADER_LEN 0,
       r_header_name_start = None, r_header_name_end = None, r_header_start = None,
       r_header_end = None, r_uri_start = None, r_uri_end = None, r_uri_ext = None,
       r_args_start = None, r_request_start = None, r_request_end = None,
       r_method_end = None, r_schema_start = None, r_schema_end = None,
       r_host_start = None, r_host_end = None, r_port_end = None,
       r_http_minor = 0, r_http_major = 0 \<rparr>"

lemma fresh_request_simps [simp]:
  "r_state fresh_request = 0" "\<not> r_upstream fresh_request" "\<not> r_empty_path_in_uri fresh_request"
  "r_args_start fresh_request = None" "\<not> r_complex_uri fresh_request" "\<not> r_quoted_uri fresh_request"
  "length (r_lowcase_header fresh_request) = NGX_HTTP_LC_HEADER_LEN"
  by (simp_all add: fresh_request_def)

section \<open>The table of usual URI characters\<close>

definition usual :: "32 word list" where
  "usual =
     [0x00000000, 0x7fff37d6, 0xffffffff, 0x7fffffff,
      0xffffffff, 0xffffffff, 0xffffffff, 0xffffffff]"

text \<open>\<open>usual[ch >> 5] & (1U << (ch & 0x1f))\<close>\<close>

definition is_usual :: "byte \<Rightarrow> bool" where
  "is_usual ch \<longleftrightarrow> (usual ! unat (drop_bit 5 ch)) AND push_bit (unat (ch AND 0x1f)) 1 \<noteq> 0"

text \<open>
  The table read back. Each row is a 32-bit word, decided bit by bit; the rows together
  say that everything above space is usual but \<open># % + . / ?\<close> and DEL.
\<close>

lemma usual_rows:
  "r < 32 \<Longrightarrow> bit (0x7fff37d6 :: 32 word) r \<longleftrightarrow> r \<notin> {0, 3, 5, 11, 14, 15, 31}"
  "r < 32 \<Longrightarrow> bit (0x7fffffff :: 32 word) r \<longleftrightarrow> r \<noteq> 31"
  "r < 32 \<Longrightarrow> bit (0xffffffff :: 32 word) r"
proof -
  have "list_all (\<lambda>r. bit (0x7fff37d6 :: 32 word) r \<longleftrightarrow> r \<notin> {0, 3, 5, 11, 14, 15, 31}) [0..<32]"
    and "list_all (\<lambda>r. bit (0x7fffffff :: 32 word) r \<longleftrightarrow> r \<noteq> 31) [0..<32]"
    and "list_all (bit (0xffffffff :: 32 word)) [0..<32]"
    by (simp_all add: upt_conv_Cons)
  then show
    "r < 32 \<Longrightarrow> bit (0x7fff37d6 :: 32 word) r \<longleftrightarrow> r \<notin> {0, 3, 5, 11, 14, 15, 31}"
    "r < 32 \<Longrightarrow> bit (0x7fffffff :: 32 word) r \<longleftrightarrow> r \<noteq> 31"
    "r < 32 \<Longrightarrow> bit (0xffffffff :: 32 word) r"
    by (simp_all add: list_all_iff)
qed

lemma usual_table:
  assumes "q < 8" and "r < 32"
  shows "bit (usual ! q) r \<longleftrightarrow>
    32 < 32 * q + r \<and> 32 * q + r \<notin> {0x23, 0x25, 0x2b, 0x2e, 0x2f, 0x3f, 0x7f}"
proof -
  from assms(1) consider
    "q = 0" | "q = 1" | "q = 2" | "q = 3" | "q = 4" | "q = 5" | "q = 6" | "q = 7"
    by linarith
  then show ?thesis
    using assms(2) usual_rows [OF assms(2)] by cases (auto simp: usual_def)
qed

lemma is_usual_iff:
  "is_usual ch \<longleftrightarrow>
     ch_space < ch \<and> ch \<notin> {ch_hash, ch_percent, ch_plus, ch_dot, ch_slash, ch_question, DEL}"
proof -
  have "unat ch < 256" using unsigned_less [of ch, where 'a = nat] by simp
  then have "bit (usual ! (unat ch div 32)) (unat ch mod 32) \<longleftrightarrow>
    32 < unat ch \<and> unat ch \<notin> {0x23, 0x25, 0x2b, 0x2e, 0x2f, 0x3f, 0x7f}"
    using usual_table [of "unat ch div 32" "unat ch mod 32"] by simp
  then show ?thesis
    unfolding is_usual_def unat_high3 unat_low5 and_push_bit_1
    by (simp add: word_less_nat_alt word_unat_eq_iff)
qed

section \<open>Parsers that can be suspended and resumed\<close>

text \<open>
  The caller's loop (\<open>ngx_http_process_request_line\<close>, \<open>ngx_http_process_request_headers\<close>):
  as long as the parser answers \<open>NGX_AGAIN\<close>, the next piece of input is appended to the
  buffer and the parser is called again with the request it has filled so far.
\<close>

fun feed ::
  "('c \<Rightarrow> ngx_buf \<Rightarrow> ngx_rc \<times> 'c \<times> ngx_buf) \<Rightarrow> 'c \<Rightarrow> ngx_buf \<Rightarrow> byte list list \<Rightarrow> ngx_rc \<times> 'c \<times> ngx_buf"
where
  "feed parse c b [] = parse c b"
| "feed parse c b (f # fs) =
     (case parse c b of
        (rc, c', b') \<Rightarrow>
          if rc = NGX_AGAIN
          then feed parse c' (b'\<lparr>buf_data := buf_data b' @ f\<rparr>) fs
          else (rc, c', b'\<lparr>buf_data := buf_data b' @ f @ concat fs\<rparr>))"

text \<open>
  The contract of a resumable parser: more bytes behind the ones it has seen change
  nothing once it has answered, and answering \<open>NGX_AGAIN\<close> loses nothing. \<open>obs\<close> is
  the part of an answer the contract is about (some fields of the request are only
  written when the parser suspends and are stale after an error), \<open>ok\<close> the contexts that
  the parser may be called with.
\<close>

locale resumable_parser =
  fixes parse :: "'c \<Rightarrow> ngx_buf \<Rightarrow> ngx_rc \<times> 'c \<times> ngx_buf"
    and obs :: "ngx_rc \<times> 'c \<times> ngx_buf \<Rightarrow> 'o"
    and ok :: "'c \<Rightarrow> bool"
  assumes parse_append:
    "buf_pos b \<le> length (buf_data b) \<Longrightarrow> ok c \<Longrightarrow> parse c b = (rc, c', b') \<Longrightarrow>
     obs (parse c (b\<lparr>buf_data := buf_data b @ ys\<rparr>)) =
       obs (if rc = NGX_AGAIN then parse c' (b'\<lparr>buf_data := buf_data b @ ys\<rparr>)
            else (rc, c', b'\<lparr>buf_data := buf_data b @ ys\<rparr>))"
    and parse_frame:
    "buf_pos b \<le> length (buf_data b) \<Longrightarrow> ok c \<Longrightarrow> parse c b = (rc, c', b') \<Longrightarrow>
     buf_data b' = buf_data b \<and> buf_pos b' \<le> length (buf_data b') \<and> (rc = NGX_AGAIN \<longrightarrow> ok c')"
begin

text \<open>Any split of the input into pieces is observably the same as one piece.\<close>

lemma feed_concat:
  "buf_pos b \<le> length (buf_data b) \<Longrightarrow> ok c \<Longrightarrow>
   obs (feed parse c b fs) = obs (parse c (b\<lparr>buf_data := buf_data b @ concat fs\<rparr>))"
proof (induction fs arbitrary: c b)
  case Nil
  then show ?case by simp
next
  case (Cons f fs)
  obtain rc c' b' where eq: "parse c b = (rc, c', b')" by (cases "parse c b") auto
  note frame = parse_frame [OF Cons.prems eq]
  note app = parse_append [OF Cons.prems eq, of "f @ concat fs"]
  show ?case
  proof (cases "rc = NGX_AGAIN")
    case True
    have "obs (feed parse c' (b'\<lparr>buf_data := buf_data b' @ f\<rparr>) fs) =
            obs (parse c' (b'\<lparr>buf_data := buf_data b' @ f @ concat fs\<rparr>))"
      using frame True by (subst Cons.IH) auto
    then show ?thesis
      using True eq frame app by simp
  next
    case False
    then show ?thesis
      using eq frame app by simp
  qed
qed

end

lemma buf_update [simp]:
  "b\<lparr>buf_pos := buf_pos b\<rparr> = (b :: ngx_buf)"
  "b\<lparr>buf_pos := k, buf_data := ys\<rparr> = (b :: ngx_buf)\<lparr>buf_data := ys, buf_pos := k\<rparr>"
  by simp_all

section \<open>Resumable parsers from byte machines\<close>

text \<open>
  How the parsers are built from a loop body: \<open>enter\<close> loads the local variables from
  the request (\<open>None\<close> when the stored number is no enumerator of the state), \<open>save\<close>
  stores them back when the bytes run out, \<open>finish\<close> is the code after the loop. The
  fields that \<open>save\<close> writes are otherwise left alone by the body: \<open>frame t s\<close> is
  \<open>s\<close> with these fields as \<open>save t\<close> leaves them.
\<close>

locale suspendable_parser = byte_machine step
  for step :: "byte list \<Rightarrow> nat \<Rightarrow> 's \<Rightarrow> ('s, 'r) step" +
  fixes enter :: "'c \<Rightarrow> 's option"
    and save :: "'s \<Rightarrow> 'c"
    and finish :: "nat \<Rightarrow> 'r \<Rightarrow> 's \<Rightarrow> ngx_buf \<Rightarrow> ngx_rc \<times> 'c \<times> ngx_buf"
    and frame :: "'s \<Rightarrow> 's \<Rightarrow> 's"
    and parse :: "'c \<Rightarrow> ngx_buf \<Rightarrow> ngx_rc \<times> 'c \<times> ngx_buf"
    and obs :: "ngx_rc \<times> 'c \<times> ngx_buf \<Rightarrow> 'o"
  assumes parse_eq:
    "parse c b =
       (case enter c of
          None \<Rightarrow> (NGX_AGAIN, c, b\<lparr>buf_pos := max (buf_pos b) (length (buf_data b))\<rparr>)
        | Some s \<Rightarrow>
            (case run step (buf_data b) (buf_pos b) s of
               Suspend s' \<Rightarrow>
                 (NGX_AGAIN, save s', b\<lparr>buf_pos := max (buf_pos b) (length (buf_data b))\<rparr>)
             | Stop q e s' \<Rightarrow> finish q e s' b))"
    and enter_save: "enter (save s) = Some (frame s s)"
    and step_frame: "step xs p (frame t s) = map_step (frame t) id (step xs p s)"
    and save_frame: "save (frame t s) = save s"
    and finish_again: "step xs q s = Exit e s' \<Longrightarrow> fst (finish q e s' b) \<noteq> NGX_AGAIN"
    and finish_frame:
      "step xs q s = Exit e s' \<Longrightarrow>
       obs (finish q e (frame t s') (b\<lparr>buf_pos := k\<rparr>)) = obs (finish q e s' b)"
    and finish_data:
      "finish q e s' (b\<lparr>buf_data := ys\<rparr>) =
         map_prod id (map_prod id (\<lambda>b'. b'\<lparr>buf_data := ys\<rparr>)) (finish q e s' b)"
    and finish_pos:
      "finish q e s' b = (rc, c', b') \<Longrightarrow>
       buf_data b' = buf_data b \<and> (buf_pos b' = buf_pos b \<or> buf_pos b' = q + 1)"
begin

lemma run_frame: "run step xs p (frame t s) = map_outcome (frame t) id (run step xs p s)"
proof (induction "length xs - p" arbitrary: p s)
  case 0
  then show ?case by simp
next
  case (Suc n)
  then have p: "p < length xs" by simp
  show ?case
    using p Suc by (cases "step xs p s") (simp_all add: run_Cont run_Exit step_frame)
qed

lemma obs_finish_pos:
  "step xs q s = Exit e s' \<Longrightarrow> obs (finish q e s' (b\<lparr>buf_pos := k\<rparr>)) = obs (finish q e s' b)"
  using finish_frame [where b = "b\<lparr>buf_pos := k\<rparr>" and k = "buf_pos b"]
    finish_frame [where b = b and k = "buf_pos b"] by simp

text \<open>Going on from a saved state is going on from the state.\<close>

lemma parse_saved:
  assumes "buf_pos b \<le> length (buf_data b)"
  shows "obs (parse (save s) b) =
    (case run step (buf_data b) (buf_pos b) s of
       Suspend s' \<Rightarrow> obs (NGX_AGAIN, save s', b\<lparr>buf_pos := length (buf_data b)\<rparr>)
     | Stop q e s' \<Rightarrow> obs (finish q e s' b))"
proof (cases "run step (buf_data b) (buf_pos b) s")
  case (Suspend s')
  with assms show ?thesis
    by (simp add: parse_eq enter_save run_frame save_frame max_absorb2)
next
  case (Stop q e s')
  from run_Stop_Exit [OF Stop] obtain t where "step (buf_data b) q t = Exit e s'" by blast
  from finish_frame [OF this, where b = b and k = "buf_pos b"] Stop assms show ?thesis
    by (simp add: parse_eq enter_save run_frame)
qed

lemma parse_append_obs:
  assumes pos: "buf_pos b \<le> length (buf_data b)" and parse: "parse c b = (rc, c', b')"
  shows "obs (parse c (b\<lparr>buf_data := buf_data b @ ys\<rparr>)) =
    obs (if rc = NGX_AGAIN then parse c' (b'\<lparr>buf_data := buf_data b @ ys\<rparr>)
         else (rc, c', b'\<lparr>buf_data := buf_data b @ ys\<rparr>))"
proof (cases "enter c")
  case None
  then show ?thesis
    using assms by (auto simp: parse_eq)
next
  case (Some s)
  note app = run_append [OF pos, of ys s]
  show ?thesis
  proof (cases "run step (buf_data b) (buf_pos b) s")
    case (Stop q e s')
    from run_Stop_Exit [OF Stop] obtain t where "step (buf_data b) q t = Exit e s'" by blast
    from finish_again [OF this, of b] Stop Some app parse show ?thesis
      by (auto simp: parse_eq finish_data)
  next
    case (Suspend s')
    let ?b = "b\<lparr>buf_data := buf_data b @ ys, buf_pos := length (buf_data b)\<rparr>"
    have again: "rc = NGX_AGAIN" "c' = save s'" "b' = b\<lparr>buf_pos := length (buf_data b)\<rparr>"
      using Suspend Some parse pos by (auto simp: parse_eq max_absorb2)
    have "obs (parse c' ?b) = obs (parse c (b\<lparr>buf_data := buf_data b @ ys\<rparr>))"
    proof (cases "run step (buf_data b @ ys) (length (buf_data b)) s'")
      case (Suspend s'')
      with \<open>run step (buf_data b) (buf_pos b) s = _\<close> app Some pos show ?thesis
        by (simp add: again parse_saved) (simp add: parse_eq max_absorb2)
    next
      case (Stop q e s'')
      from run_Stop_Exit [OF Stop] obtain t where "step (buf_data b @ ys) q t = Exit e s''"
        by blast
      from obs_finish_pos [OF this, where b = "b\<lparr>buf_data := buf_data b @ ys\<rparr>"]
      have "obs (finish q e s'' ?b) = obs (finish q e s'' (b\<lparr>buf_data := buf_data b @ ys\<rparr>))"
        by simp
      with Stop \<open>run step (buf_data b) (buf_pos b) s = _\<close> app Some pos show ?thesis
        by (simp add: again parse_saved) (simp add: parse_eq)
    qed
    then show ?thesis by (simp add: again)
  qed
qed

lemma parse_buf:
  assumes "buf_pos b \<le> length (buf_data b)" and "parse c b = (rc, c', b')"
  shows "buf_data b' = buf_data b \<and> buf_pos b' \<le> length (buf_data b')"
proof (cases "enter c")
  case None
  with assms show ?thesis by (auto simp: parse_eq)
next
  case (Some s)
  show ?thesis
  proof (cases "run step (buf_data b) (buf_pos b) s")
    case (Suspend s')
    with Some assms show ?thesis by (auto simp: parse_eq)
  next
    case (Stop q e s')
    from run_Stop_bounds [OF Stop] Stop Some assms show ?thesis
      by (auto simp: parse_eq dest: finish_pos)
  qed
qed

end

sublocale suspendable_parser \<subseteq> resumable_parser parse obs "\<lambda>_. True"
proof (unfold_locales, goal_cases)
  case (1 b c rc c' b' ys)
  show ?case by (rule parse_append_obs [OF 1(1,3)])
next
  case (2 b c rc c' b')
  show ?case using parse_buf [OF 2(1,3)] by auto
qed

context suspendable_parser
begin

lemma feed_whole:
  "buf_pos b \<le> length (buf_data b) \<Longrightarrow>
   obs (feed parse c b fs) = obs (parse c (b\<lparr>buf_data := buf_data b @ concat fs\<rparr>))"
  by (rule feed_concat) simp_all

end

end
