(* ===== verification/Http_Request_Line.thy ===== *)
theory Http_Request_Line
  imports Http_Types
begin

text \<open>
  \<open>ngx_http_parse_request_line\<close>: the state machine for
  \<open>METHOD SP URI [SP HTTP/x.y] (CR LF | LF)\<close>. One definition per \<open>case\<close> label of the
  \<open>switch\<close>; \<open>rl_step\<close> is the \<open>switch\<close>, and the loop around it is \<open>run\<close>.
\<close>

section \<open>Comparing a method name\<close>

text \<open>
  The byte-wise variants of the comparison macros. \<open>cs\<close> lists the characters
  \<open>c0, c1, ...\<close> of a macro call, \<open>m\<close> is the offset of the name in the buffer.
\<close>

definition ngx_str3_cmp :: "byte list \<Rightarrow> nat \<Rightarrow> byte list \<Rightarrow> bool" where
  "ngx_str3_cmp xs m cs \<longleftrightarrow>
     xs ! m = cs ! 0 \<and> xs ! (m + 1) = cs ! 1 \<and> xs ! (m + 2) = cs ! 2"

definition ngx_str3Ocmp :: "byte list \<Rightarrow> nat \<Rightarrow> byte list \<Rightarrow> bool" where
  "ngx_str3Ocmp xs m cs \<longleftrightarrow>
     xs ! m = cs ! 0 \<and> xs ! (m + 2) = cs ! 2 \<and> xs ! (m + 3) = cs ! 3"

definition ngx_str4cmp :: "byte list \<Rightarrow> nat \<Rightarrow> byte list \<Rightarrow> bool" where
  "ngx_str4cmp xs m cs \<longleftrightarrow>
     xs ! m = cs ! 0 \<and> xs ! (m + 1) = cs ! 1 \<and> xs ! (m + 2) = cs ! 2 \<and> xs ! (m + 3) = cs ! 3"

definition ngx_str5cmp :: "byte list \<Rightarrow> nat \<Rightarrow> byte list \<Rightarrow> bool" where
  "ngx_str5cmp xs m cs \<longleftrightarrow>
     xs ! m = cs ! 0 \<and> xs ! (m + 1) = cs ! 1 \<and> xs ! (m + 2) = cs ! 2 \<and> xs ! (m + 3) = cs ! 3
     \<and> xs ! (m + 4) = cs ! 4"

definition ngx_str6cmp :: "byte list \<Rightarrow> nat \<Rightarrow> byte list \<Rightarrow> bool" where
  "ngx_str6cmp xs m cs \<longleftrightarrow>
     xs ! m = cs ! 0 \<and> xs ! (m + 1) = cs ! 1 \<and> xs ! (m + 2) = cs ! 2 \<and> xs ! (m + 3) = cs ! 3
     \<and> xs ! (m + 4) = cs ! 4 \<and> xs ! (m + 5) = cs ! 5"

definition ngx_str7_cmp :: "byte list \<Rightarrow> nat \<Rightarrow> byte list \<Rightarrow> bool" where
  "ngx_str7_cmp xs m cs \<longleftrightarrow>
     xs ! m = cs ! 0 \<and> xs ! (m + 1) = cs ! 1 \<and> xs ! (m + 2) = cs ! 2 \<and> xs ! (m + 3) = cs ! 3
     \<and> xs ! (m + 4) = cs ! 4 \<and> xs ! (m + 5) = cs ! 5 \<and> xs ! (m + 6) = cs ! 6"

definition ngx_str8cmp :: "byte list \<Rightarrow> nat \<Rightarrow> byte list \<Rightarrow> bool" where
  "ngx_str8cmp xs m cs \<longleftrightarrow>
     xs ! m = cs ! 0 \<and> xs ! (m + 1) = cs ! 1 \<and> xs ! (m + 2) = cs ! 2 \<and> xs ! (m + 3) = cs ! 3
     \<and> xs ! (m + 4) = cs ! 4 \<and> xs ! (m + 5) = cs ! 5 \<and> xs ! (m + 6) = cs ! 6
     \<and> xs ! (m + 7) = cs ! 7"

definition ngx_str9cmp :: "byte list \<Rightarrow> nat \<Rightarrow> byte list \<Rightarrow> bool" where
  "ngx_str9cmp xs m cs \<longleftrightarrow>
     xs ! m = cs ! 0 \<and> xs ! (m + 1) = cs ! 1 \<and> xs ! (m + 2) = cs ! 2 \<and> xs ! (m + 3) = cs ! 3
     \<and> xs ! (m + 4) = cs ! 4 \<and> xs ! (m + 5) = cs ! 5 \<and> xs ! (m + 6) = cs ! 6
     \<and> xs ! (m + 7) = cs ! 7 \<and> xs ! (m + 8) = cs ! 8"

lemmas ngx_strcmp_defs =
  ngx_str3_cmp_def ngx_str3Ocmp_def ngx_str4cmp_def ngx_str5cmp_def ngx_str6cmp_def
  ngx_str7_cmp_def ngx_str8cmp_def ngx_str9cmp_def

text \<open>
  The variants for little-endian machines with unaligned access: up to two 32-bit loads.
\<close>

definition load32 :: "byte list \<Rightarrow> nat \<Rightarrow> 32 word" where
  "load32 xs m =
     (push_bit 24 (ucast (xs ! (m + 3))) OR push_bit 16 (ucast (xs ! (m + 2)))
      OR push_bit 8 (ucast (xs ! (m + 1)))) OR ucast (xs ! m)"

text \<open>\<open>((c3 << 24) | (c2 << 16) | (c1 << 8) | c0)\<close> is \<open>load32\<close> of the characters themselves.\<close>

definition ngx_str3_cmp_le :: "byte list \<Rightarrow> nat \<Rightarrow> byte list \<Rightarrow> bool" where
  "ngx_str3_cmp_le xs m cs \<longleftrightarrow> load32 xs m = load32 cs 0"

definition ngx_str3Ocmp_le :: "byte list \<Rightarrow> nat \<Rightarrow> byte list \<Rightarrow> bool" where
  "ngx_str3Ocmp_le xs m cs \<longleftrightarrow> load32 xs m = load32 cs 0"

definition ngx_str4cmp_le :: "byte list \<Rightarrow> nat \<Rightarrow> byte list \<Rightarrow> bool" where
  "ngx_str4cmp_le xs m cs \<longleftrightarrow> load32 xs m = load32 cs 0"

definition ngx_str5cmp_le :: "byte list \<Rightarrow> nat \<Rightarrow> byte list \<Rightarrow> bool" where
  "ngx_str5cmp_le xs m cs \<longleftrightarrow> load32 xs m = load32 cs 0 \<and> xs ! (m + 4) = cs ! 4"

definition ngx_str6cmp_le :: "byte list \<Rightarrow> nat \<Rightarrow> byte list \<Rightarrow> bool" where
  "ngx_str6cmp_le xs m cs \<longleftrightarrow>
     load32 xs m = load32 cs 0
     \<and> load32 xs (m + 4) AND 0xffff = push_bit 8 (ucast (cs ! 5)) OR ucast (cs ! 4)"

definition ngx_str7_cmp_le :: "byte list \<Rightarrow> nat \<Rightarrow> byte list \<Rightarrow> bool" where
  "ngx_str7_cmp_le xs m cs \<longleftrightarrow>
     load32 xs m = load32 cs 0 \<and> load32 xs (m + 4) = load32 cs 4"

definition ngx_str8cmp_le :: "byte list \<Rightarrow> nat \<Rightarrow> byte list \<Rightarrow> bool" where
  "ngx_str8cmp_le xs m cs \<longleftrightarrow>
     load32 xs m = load32 cs 0 \<and> load32 xs (m + 4) = load32 cs 4"

definition ngx_str9cmp_le :: "byte list \<Rightarrow> nat \<Rightarrow> byte list \<Rightarrow> bool" where
  "ngx_str9cmp_le xs m cs \<longleftrightarrow>
     load32 xs m = load32 cs 0 \<and> load32 xs (m + 4) = load32 cs 4 \<and> xs ! (m + 8) = cs ! 8"

lemmas ngx_strcmp_le_defs =
  ngx_str3_cmp_le_def ngx_str3Ocmp_le_def ngx_str4cmp_le_def ngx_str5cmp_le_def
  ngx_str6cmp_le_def ngx_str7_cmp_le_def ngx_str8cmp_le_def ngx_str9cmp_le_def

text \<open>\<open>switch (p - m)\<close>: the method named by the \<open>n\<close> bytes at \<open>m\<close>, else the old value.\<close>

definition rl_lookup_method :: "byte list \<Rightarrow> nat \<Rightarrow> nat \<Rightarrow> http_method \<Rightarrow> http_method" where
  "rl_lookup_method xs m n old =
     (if n = 3 then
        (if ngx_str3_cmp xs m (bytes ''GET '') then NGX_HTTP_GET
         else if ngx_str3_cmp xs m (bytes ''PUT '') then NGX_HTTP_PUT
         else old)
      else if n = 4 then
        (if xs ! (m + 1) = ch_O then
           (if ngx_str3Ocmp xs m (bytes ''POST'') then NGX_HTTP_POST
            else if ngx_str3Ocmp xs m (bytes ''COPY'') then NGX_HTTP_COPY
            else if ngx_str3Ocmp xs m (bytes ''MOVE'') then NGX_HTTP_MOVE
            else if ngx_str3Ocmp xs m (bytes ''LOCK'') then NGX_HTTP_LOCK
            else old)
         else
           (if ngx_str4cmp xs m (bytes ''HEAD'') then NGX_HTTP_HEAD else old))
      else if n = 5 then
        (if ngx_str5cmp xs m (bytes ''MKCOL'') then NGX_HTTP_MKCOL
         else if ngx_str5cmp xs m (bytes ''PATCH'') then NGX_HTTP_PATCH
         else if ngx_str5cmp xs m (bytes ''TRACE'') then NGX_HTTP_TRACE
         else old)
      else if n = 6 then
        (if ngx_str6cmp xs m (bytes ''DELETE'') then NGX_HTTP_DELETE
         else if ngx_str6cmp xs m (bytes ''UNLOCK'') then NGX_HTTP_UNLOCK
         else old)
      else if n = 7 then
        (if ngx_str7_cmp xs m (bytes ''CONNECT '') then NGX_HTTP_CONNECT
         else if ngx_str7_cmp xs m (bytes ''OPTIONS '') then NGX_HTTP_OPTIONS
         else old)
      else if n = 8 then
        (if ngx_str8cmp xs m (bytes ''PROPFIND'') then NGX_HTTP_PROPFIND else old)
      else if n = 9 then
        (if ngx_str9cmp xs m (bytes ''PROPPATCH'') then NGX_HTTP_PROPPATCH else old)
      else old)"

text \<open>The same \<open>switch\<close> with the word-sized comparisons.\<close>

definition rl_lookup_method_le :: "byte list \<Rightarrow> nat \<Rightarrow> nat \<Rightarrow> http_method \<Rightarrow> http_method" where
  "rl_lookup_method_le xs m n old =
     (if n = 3 then
        (if ngx_str3_cmp_le xs m (bytes ''GET '') then NGX_HTTP_GET
         else if ngx_str3_cmp_le xs m (bytes ''PUT '') then NGX_HTTP_PUT
         else old)
      else if n = 4 then
        (if xs ! (m + 1) = ch_O then
           (if ngx_str3Ocmp_le xs m (bytes ''POST'') then NGX_HTTP_POST
            else if ngx_str3Ocmp_le xs m (bytes ''COPY'') then NGX_HTTP_COPY
            else if ngx_str3Ocmp_le xs m (bytes ''MOVE'') then NGX_HTTP_MOVE
            else if ngx_str3Ocmp_le xs m (bytes ''LOCK'') then NGX_HTTP_LOCK
            else old)
         else
           (if ngx_str4cmp_le xs m (bytes ''HEAD'') then NGX_HTTP_HEAD else old))
      else if n = 5 then
        (if ngx_str5cmp_le xs m (bytes ''MKCOL'') then NGX_HTTP_MKCOL
         else if ngx_str5cmp_le xs m (bytes ''PATCH'') then NGX_HTTP_PATCH
         else if ngx_str5cmp_le xs m (bytes ''TRACE'') then NGX_HTTP_TRACE
         else old)
      else if n = 6 then
        (if ngx_str6cmp_le xs m (bytes ''DELETE'') then NGX_HTTP_DELETE
         else if ngx_str6cmp_le xs m (bytes ''UNLOCK'') then NGX_HTTP_UNLOCK
         else old)
      else if n = 7 then
        (if ngx_str7_cmp_le xs m (bytes ''CONNECT '') then NGX_HTTP_CONNECT
         else if ngx_str7_cmp_le xs m (bytes ''OPTIONS '') then NGX_HTTP_OPTIONS
         else old)
      else if n = 8 then
        (if ngx_str8cmp_le xs m (bytes ''PROPFIND'') then NGX_HTTP_PROPFIND else old)
      else if n = 9 then
        (if ngx_str9cmp_le xs m (bytes ''PROPPATCH'') then NGX_HTTP_PROPPATCH else old)
      else old)"

section \<open>States and exits\<close>

datatype rl_state =
    rl_sw_start | rl_sw_method | rl_sw_spaces_before_uri | rl_sw_schema
  | rl_sw_schema_slash | rl_sw_schema_slash_slash | rl_sw_host_start | rl_sw_host
  | rl_sw_host_end | rl_sw_host_ip_literal | rl_sw_port | rl_sw_after_slash_in_uri
  | rl_sw_check_uri | rl_sw_uri | rl_sw_http_09 | rl_sw_http_H | rl_sw_http_HT
  | rl_sw_http_HTT | rl_sw_http_HTTP | rl_sw_first_major_digit | rl_sw_major_digit
  | rl_sw_first_minor_digit | rl_sw_minor_digit | rl_sw_spaces_after_digit
  | rl_sw_almost_done

definition rl_states :: "rl_state list" where
  "rl_states =
     [rl_sw_start, rl_sw_method, rl_sw_spaces_before_uri, rl_sw_schema,
      rl_sw_schema_slash, rl_sw_schema_slash_slash, rl_sw_host_start, rl_sw_host,
      rl_sw_host_end, rl_sw_host_ip_literal, rl_sw_port, rl_sw_after_slash_in_uri,
      rl_sw_check_uri, rl_sw_uri, rl_sw_http_09, rl_sw_http_H, rl_sw_http_HT,
      rl_sw_http_HTT, rl_sw_http_HTTP, rl_sw_first_major_digit, rl_sw_major_digit,
      rl_sw_first_minor_digit, rl_sw_minor_digit, rl_sw_spaces_after_digit,
      rl_sw_almost_done]"

text \<open>The ways out of the loop: \<open>goto done\<close>, or \<open>return\<close> of an error code.\<close>

datatype rl_exit = rl_done | rl_return ngx_rc

type_synonym rl_config = "rl_state \<times> ngx_http_request"
type_synonym rl_result = "(rl_config, rl_exit) step"

abbreviation (input) rl_goto :: "rl_state \<Rightarrow> ngx_http_request \<Rightarrow> rl_result" where
  "rl_goto st r \<equiv> Cont (st, r)"

abbreviation (input) rl_invalid :: "rl_state \<Rightarrow> ngx_http_request \<Rightarrow> rl_result" where
  "rl_invalid st r \<equiv> Exit (rl_return NGX_HTTP_PARSE_INVALID_REQUEST) (st, r)"

section \<open>One definition per \<open>case\<close>\<close>

definition is_method_char :: "byte \<Rightarrow> bool" where
  [byte_class]: "is_method_char ch \<longleftrightarrow>
     \<not> ((ch < ch_A \<or> ch > ch_Z) \<and> ch \<noteq> ch_underscore \<and> ch \<noteq> ch_minus)"

definition rl_start :: "nat \<Rightarrow> byte \<Rightarrow> ngx_http_request \<Rightarrow> rl_result" where
  "rl_start p ch r =
     (let r = r\<lparr>r_request_start := Some p\<rparr> in
      if ch = CR \<or> ch = LF then rl_goto rl_sw_start r
      else if \<not> is_method_char ch
      then Exit (rl_return NGX_HTTP_PARSE_INVALID_METHOD) (rl_sw_start, r)
      else rl_goto rl_sw_method r)"

definition rl_method :: "byte list \<Rightarrow> nat \<Rightarrow> byte \<Rightarrow> ngx_http_request \<Rightarrow> rl_result" where
  "rl_method xs p ch r =
     (if ch = ch_space then
        (let r = r\<lparr>r_method_end := Some (p - 1)\<rparr>;
             r = (case r_request_start r of
                    None \<Rightarrow> r
                  | Some m \<Rightarrow> r\<lparr>r_method := rl_lookup_method xs m (p - m) (r_method r)\<rparr>)
         in rl_goto rl_sw_spaces_before_uri r)
      else if \<not> is_method_char ch
      then Exit (rl_return NGX_HTTP_PARSE_INVALID_METHOD) (rl_sw_method, r)
      else rl_goto rl_sw_method r)"

definition rl_spaces_before_uri :: "nat \<Rightarrow> byte \<Rightarrow> ngx_http_request \<Rightarrow> rl_result" where
  "rl_spaces_before_uri p ch r =
     (if ch = ch_slash then rl_goto rl_sw_after_slash_in_uri (r\<lparr>r_uri_start := Some p\<rparr>)
      else if is_alpha ch then rl_goto rl_sw_schema (r\<lparr>r_schema_start := Some p\<rparr>)
      else if ch = ch_space then rl_goto rl_sw_spaces_before_uri r
      else rl_invalid rl_sw_spaces_before_uri r)"

definition rl_schema :: "nat \<Rightarrow> byte \<Rightarrow> ngx_http_request \<Rightarrow> rl_result" where
  "rl_schema p ch r =
     (if is_alpha ch then rl_goto rl_sw_schema r
      else if is_digit ch \<or> ch = ch_plus \<or> ch = ch_minus \<or> ch = ch_dot
      then rl_goto rl_sw_schema r
      else if ch = ch_colon then rl_goto rl_sw_schema_slash (r\<lparr>r_schema_end := Some p\<rparr>)
      else rl_invalid rl_sw_schema r)"

definition rl_schema_slash :: "byte \<Rightarrow> ngx_http_request \<Rightarrow> rl_result" where
  "rl_schema_slash ch r =
     (if ch = ch_slash then rl_goto rl_sw_schema_slash_slash r
      else rl_invalid rl_sw_schema_slash r)"

definition rl_schema_slash_slash :: "byte \<Rightarrow> ngx_http_request \<Rightarrow> rl_result" where
  "rl_schema_slash_slash ch r =
     (if ch = ch_slash then rl_goto rl_sw_host_start r
      else rl_invalid rl_sw_schema_slash_slash r)"

text \<open>
  \<open>sw_host_start\<close> falls through to \<open>sw_host\<close>, which falls through to \<open>sw_host_end\<close>.
\<close>

definition rl_host_end :: "nat \<Rightarrow> byte \<Rightarrow> rl_state \<Rightarrow> ngx_http_request \<Rightarrow> rl_result" where
  "rl_host_end p ch st r =
     (let r = r\<lparr>r_host_end := Some p\<rparr> in
      if ch = ch_colon then rl_goto rl_sw_port r
      else if ch = ch_slash then rl_goto rl_sw_after_slash_in_uri (r\<lparr>r_uri_start := Some p\<rparr>)
      else if ch = ch_question then
        rl_goto rl_sw_uri
          (r\<lparr>r_uri_start := Some p, r_args_start := Some (p + 1), r_empty_path_in_uri := True\<rparr>)
      else if ch = ch_space then
        rl_goto rl_sw_http_09
          (r\<lparr>r_uri_start := map_option (\<lambda>e. e + 1) (r_schema_end r),
             r_uri_end := map_option (\<lambda>e. e + 2) (r_schema_end r)\<rparr>)
      else rl_invalid st r)"

definition rl_host :: "nat \<Rightarrow> byte \<Rightarrow> ngx_http_request \<Rightarrow> rl_result" where
  "rl_host p ch r =
     (if is_alpha ch then rl_goto rl_sw_host r
      else if is_digit ch \<or> ch = ch_dot \<or> ch = ch_minus then rl_goto rl_sw_host r
      else rl_host_end p ch rl_sw_host r)"

definition rl_host_start :: "nat \<Rightarrow> byte \<Rightarrow> ngx_http_request \<Rightarrow> rl_result" where
  "rl_host_start p ch r =
     (let r = r\<lparr>r_host_start := Some p\<rparr> in
      if ch = ch_lbracket then rl_goto rl_sw_host_ip_literal r
      else rl_host p ch r)"

definition rl_host_ip_literal :: "byte \<Rightarrow> ngx_http_request \<Rightarrow> rl_result" where
  "rl_host_ip_literal ch r =
     (if is_digit ch then rl_goto rl_sw_host_ip_literal r
      else if is_alpha ch then rl_goto rl_sw_host_ip_literal r
      else if ch = ch_colon then rl_goto rl_sw_host_ip_literal r
      else if ch = ch_rbracket then rl_goto rl_sw_host_end r
      else if ch \<in> set (bytes ''-._~'') then rl_goto rl_sw_host_ip_literal r
      else if ch \<in> set (bytes [CHR ''!'', CHR ''$'', CHR ''&'', CHR 0x27, CHR ''('', CHR '')'',
                               CHR ''*'', CHR ''+'', CHR '','', CHR '';'', CHR ''=''])
      then rl_goto rl_sw_host_ip_literal r
      else rl_invalid rl_sw_host_ip_literal r)"

definition rl_port :: "nat \<Rightarrow> byte \<Rightarrow> ngx_http_request \<Rightarrow> rl_result" where
  "rl_port p ch r =
     (if is_digit ch then rl_goto rl_sw_port r
      else if ch = ch_slash then
        rl_goto rl_sw_after_slash_in_uri (r\<lparr>r_port_end := Some p, r_uri_start := Some p\<rparr>)
      else if ch = ch_question then
        rl_goto rl_sw_uri
          (r\<lparr>r_port_end := Some p, r_uri_start := Some p, r_args_start := Some (p + 1),
             r_empty_path_in_uri := True\<rparr>)
      else if ch = ch_space then
        rl_goto rl_sw_http_09
          (r\<lparr>r_port_end := Some p,
             r_uri_start := map_option (\<lambda>e. e + 1) (r_schema_end r),
             r_uri_end := map_option (\<lambda>e. e + 2) (r_schema_end r)\<rparr>)
      else rl_invalid rl_sw_port r)"

definition rl_after_slash_in_uri :: "nat \<Rightarrow> byte \<Rightarrow> ngx_http_request \<Rightarrow> rl_result" where
  "rl_after_slash_in_uri p ch r =
     (if is_usual ch then rl_goto rl_sw_check_uri r
      else if ch = ch_space then rl_goto rl_sw_http_09 (r\<lparr>r_uri_end := Some p\<rparr>)
      else if ch = CR then rl_goto rl_sw_almost_done (r\<lparr>r_uri_end := Some p, r_http_minor := 9\<rparr>)
      else if ch = LF then
        Exit rl_done (rl_sw_after_slash_in_uri, r\<lparr>r_uri_end := Some p, r_http_minor := 9\<rparr>)
      else if ch = ch_dot then rl_goto rl_sw_uri (r\<lparr>r_complex_uri := True\<rparr>)
      else if ch = ch_percent then rl_goto rl_sw_uri (r\<lparr>r_quoted_uri := True\<rparr>)
      else if ch = ch_slash then rl_goto rl_sw_uri (r\<lparr>r_complex_uri := True\<rparr>)
      else if ch = ch_question then rl_goto rl_sw_uri (r\<lparr>r_args_start := Some (p + 1)\<rparr>)
      else if ch = ch_hash then rl_goto rl_sw_uri (r\<lparr>r_complex_uri := True\<rparr>)
      else if ch = ch_plus then rl_goto rl_sw_after_slash_in_uri (r\<lparr>r_plus_in_uri := True\<rparr>)
      else if ch < 0x20 \<or> ch = 0x7f then rl_invalid rl_sw_after_slash_in_uri r
      else rl_goto rl_sw_check_uri r)"

definition rl_check_uri :: "nat \<Rightarrow> byte \<Rightarrow> ngx_http_request \<Rightarrow> rl_result" where
  "rl_check_uri p ch r =
     (if is_usual ch then rl_goto rl_sw_check_uri r
      else if ch = ch_slash then rl_goto rl_sw_after_slash_in_uri (r\<lparr>r_uri_ext := None\<rparr>)
      else if ch = ch_dot then rl_goto rl_sw_check_uri (r\<lparr>r_uri_ext := Some (p + 1)\<rparr>)
      else if ch = ch_space then rl_goto rl_sw_http_09 (r\<lparr>r_uri_end := Some p\<rparr>)
      else if ch = CR then rl_goto rl_sw_almost_done (r\<lparr>r_uri_end := Some p, r_http_minor := 9\<rparr>)
      else if ch = LF then
        Exit rl_done (rl_sw_check_uri, r\<lparr>r_uri_end := Some p, r_http_minor := 9\<rparr>)
      else if ch = ch_percent then rl_goto rl_sw_uri (r\<lparr>r_quoted_uri := True\<rparr>)
      else if ch = ch_question then rl_goto rl_sw_uri (r\<lparr>r_args_start := Some (p + 1)\<rparr>)
      else if ch = ch_hash then rl_goto rl_sw_uri (r\<lparr>r_complex_uri := True\<rparr>)
      else if ch = ch_plus then rl_goto rl_sw_check_uri (r\<lparr>r_plus_in_uri := True\<rparr>)
      else if ch < 0x20 \<or> ch = 0x7f then rl_invalid rl_sw_check_uri r
      else rl_goto rl_sw_check_uri r)"

definition rl_uri :: "nat \<Rightarrow> byte \<Rightarrow> ngx_http_request \<Rightarrow> rl_result" where
  "rl_uri p ch r =
     (if is_usual ch then rl_goto rl_sw_uri r
      else if ch = ch_space then rl_goto rl_sw_http_09 (r\<lparr>r_uri_end := Some p\<rparr>)
      else if ch = CR then rl_goto rl_sw_almost_done (r\<lparr>r_uri_end := Some p, r_http_minor := 9\<rparr>)
      else if ch = LF then
        Exit rl_done (rl_sw_uri, r\<lparr>r_uri_end := Some p, r_http_minor := 9\<rparr>)
      else if ch = ch_hash then rl_goto rl_sw_uri (r\<lparr>r_complex_uri := True\<rparr>)
      else if ch < 0x20 \<or> ch = 0x7f then rl_invalid rl_sw_uri r
      else rl_goto rl_sw_uri r)"

definition rl_http_09 :: "nat \<Rightarrow> byte \<Rightarrow> ngx_http_request \<Rightarrow> rl_result" where
  "rl_http_09 p ch r =
     (if ch = ch_space then rl_goto rl_sw_http_09 r
      else if ch = CR then rl_goto rl_sw_almost_done (r\<lparr>r_http_minor := 9\<rparr>)
      else if ch = LF then Exit rl_done (rl_sw_http_09, r\<lparr>r_http_minor := 9\<rparr>)
      else if ch = ch_H then rl_goto rl_sw_http_H (r\<lparr>r_http_protocol_data := Some p\<rparr>)
      else rl_invalid rl_sw_http_09 r)"

text \<open>\<open>sw_http_H\<close> to \<open>sw_http_HTTP\<close>: one expected byte, one next state.\<close>

definition rl_expect :: "rl_state \<Rightarrow> byte \<Rightarrow> rl_state \<Rightarrow> byte \<Rightarrow> ngx_http_request \<Rightarrow> rl_result" where
  "rl_expect st want nxt ch r = (if ch = want then rl_goto nxt r else rl_invalid st r)"

definition rl_first_major_digit :: "byte \<Rightarrow> ngx_http_request \<Rightarrow> rl_result" where
  "rl_first_major_digit ch r =
     (if ch < ch_1 \<or> ch > ch_9 then rl_invalid rl_sw_first_major_digit r
      else
        (let r = r\<lparr>r_http_major := ucast (ch - ch_0)\<rparr> in
         if r_http_major r > 1
         then Exit (rl_return NGX_HTTP_PARSE_INVALID_VERSION) (rl_sw_first_major_digit, r)
         else rl_goto rl_sw_major_digit r))"

definition rl_major_digit :: "byte \<Rightarrow> ngx_http_request \<Rightarrow> rl_result" where
  "rl_major_digit ch r =
     (if ch = ch_dot then rl_goto rl_sw_first_minor_digit r
      else if ch < ch_0 \<or> ch > ch_9 then rl_invalid rl_sw_major_digit r
      else
        (let r = r\<lparr>r_http_major := r_http_major r * 10 + ucast (ch - ch_0)\<rparr> in
         if r_http_major r > 1
         then Exit (rl_return NGX_HTTP_PARSE_INVALID_VERSION) (rl_sw_major_digit, r)
         else rl_goto rl_sw_major_digit r))"

definition rl_first_minor_digit :: "byte \<Rightarrow> ngx_http_request \<Rightarrow> rl_result" where
  "rl_first_minor_digit ch r =
     (if ch < ch_0 \<or> ch > ch_9 then rl_invalid rl_sw_first_minor_digit r
      else rl_goto rl_sw_minor_digit (r\<lparr>r_http_minor := ucast (ch - ch_0)\<rparr>))"

definition rl_minor_digit :: "byte \<Rightarrow> ngx_http_request \<Rightarrow> rl_result" where
  "rl_minor_digit ch r =
     (if ch = CR then rl_goto rl_sw_almost_done r
      else if ch = LF then Exit rl_done (rl_sw_minor_digit, r)
      else if ch = ch_space then rl_goto rl_sw_spaces_after_digit r
      else if ch < ch_0 \<or> ch > ch_9 then rl_invalid rl_sw_minor_digit r
      else if r_http_minor r > 99 then rl_invalid rl_sw_minor_digit r
      else rl_goto rl_sw_minor_digit
             (r\<lparr>r_http_minor := r_http_minor r * 10 + ucast (ch - ch_0)\<rparr>))"

definition rl_spaces_after_digit :: "byte \<Rightarrow> ngx_http_request \<Rightarrow> rl_result" where
  "rl_spaces_after_digit ch r =
     (if ch = ch_space then rl_goto rl_sw_spaces_after_digit r
      else if ch = CR then rl_goto rl_sw_almost_done r
      else if ch = LF then Exit rl_done (rl_sw_spaces_after_digit, r)
      else rl_invalid rl_sw_spaces_after_digit r)"

definition rl_almost_done :: "nat \<Rightarrow> byte \<Rightarrow> ngx_http_request \<Rightarrow> rl_result" where
  "rl_almost_done p ch r =
     (let r = r\<lparr>r_request_end := Some (p - 1)\<rparr> in
      if ch = LF then Exit rl_done (rl_sw_almost_done, r) else rl_invalid rl_sw_almost_done r)"

section \<open>The \<open>switch\<close>, the loop and the epilogue\<close>

definition rl_step :: "byte list \<Rightarrow> nat \<Rightarrow> rl_config \<Rightarrow> rl_result" where
  "rl_step xs p c =
     (case c of (st, r) \<Rightarrow>
        let ch = xs ! p in
        case st of
          rl_sw_start \<Rightarrow> rl_start p ch r
        | rl_sw_method \<Rightarrow> rl_method xs p ch r
        | rl_sw_spaces_before_uri \<Rightarrow> rl_spaces_before_uri p ch r
        | rl_sw_schema \<Rightarrow> rl_schema p ch r
        | rl_sw_schema_slash \<Rightarrow> rl_schema_slash ch r
        | rl_sw_schema_slash_slash \<Rightarrow> rl_schema_slash_slash ch r
        | rl_sw_host_start \<Rightarrow> rl_host_start p ch r
        | rl_sw_host \<Rightarrow> rl_host p ch r
        | rl_sw_host_end \<Rightarrow> rl_host_end p ch rl_sw_host_end r
        | rl_sw_host_ip_literal \<Rightarrow> rl_host_ip_literal ch r
        | rl_sw_port \<Rightarrow> rl_port p ch r
        | rl_sw_after_slash_in_uri \<Rightarrow> rl_after_slash_in_uri p ch r
        | rl_sw_check_uri \<Rightarrow> rl_check_uri p ch r
        | rl_sw_uri \<Rightarrow> rl_uri p ch r
        | rl_sw_http_09 \<Rightarrow> rl_http_09 p ch r
        | rl_sw_http_H \<Rightarrow> rl_expect rl_sw_http_H ch_T rl_sw_http_HT ch r
        | rl_sw_http_HT \<Rightarrow> rl_expect rl_sw_http_HT ch_T rl_sw_http_HTT ch r
        | rl_sw_http_HTT \<Rightarrow> rl_expect rl_sw_http_HTT ch_P rl_sw_http_HTTP ch r
        | rl_sw_http_HTTP \<Rightarrow> rl_expect rl_sw_http_HTTP ch_slash rl_sw_first_major_digit ch r
        | rl_sw_first_major_digit \<Rightarrow> rl_first_major_digit ch r
        | rl_sw_major_digit \<Rightarrow> rl_major_digit ch r
        | rl_sw_first_minor_digit \<Rightarrow> rl_first_minor_digit ch r
        | rl_sw_minor_digit \<Rightarrow> rl_minor_digit ch r
        | rl_sw_spaces_after_digit \<Rightarrow> rl_spaces_after_digit ch r
        | rl_sw_almost_done \<Rightarrow> rl_almost_done p ch r)"

text \<open>The code after the label \<open>done\<close>.\<close>

definition rl_finish ::
  "nat \<Rightarrow> ngx_http_request \<Rightarrow> ngx_buf \<Rightarrow> ngx_rc \<times> ngx_http_request \<times> ngx_buf"
where
  "rl_finish p r b =
     (let b = b\<lparr>buf_pos := p + 1\<rparr>;
          r = (if r_request_end r = None then r\<lparr>r_request_end := Some p\<rparr> else r);
          r = r\<lparr>r_http_version := unat (r_http_major r) * 1000 + unat (r_http_minor r)\<rparr>;
          r = r\<lparr>r_state := enum_code rl_states rl_sw_start\<rparr>
      in if r_http_version r = 9 \<and> r_method r \<noteq> NGX_HTTP_GET
         then (NGX_HTTP_PARSE_INVALID_09_METHOD, r, b)
         else (NGX_OK, r, b))"

definition ngx_http_parse_request_line ::
  "ngx_http_request \<Rightarrow> ngx_buf \<Rightarrow> ngx_rc \<times> ngx_http_request \<times> ngx_buf"
where
  "ngx_http_parse_request_line r b =
     (case enum_of rl_states (r_state r) of
        None \<Rightarrow> (NGX_AGAIN, r, b\<lparr>buf_pos := max (buf_pos b) (length (buf_data b))\<rparr>)
      | Some st \<Rightarrow>
          (case run rl_step (buf_data b) (buf_pos b) (st, r) of
             Suspend (st', r') \<Rightarrow>
               (NGX_AGAIN, r'\<lparr>r_state := enum_code rl_states st'\<rparr>,
                b\<lparr>buf_pos := max (buf_pos b) (length (buf_data b))\<rparr>)
           | Stop p (rl_return rc) (st', r') \<Rightarrow> (rc, r', b)
           | Stop p rl_done (st', r') \<Rightarrow> rl_finish p r' b))"

section \<open>The machine reads nothing past the current byte\<close>

lemma set_rl_states: "st \<in> set rl_states"
  by (cases st) (simp_all add: rl_states_def)

lemma ngx_strcmp_append:
  "m + 3 \<le> length xs \<Longrightarrow> ngx_str3_cmp (xs @ ys) m cs = ngx_str3_cmp xs m cs"
  "m + 4 \<le> length xs \<Longrightarrow> ngx_str3Ocmp (xs @ ys) m cs = ngx_str3Ocmp xs m cs"
  "m + 4 \<le> length xs \<Longrightarrow> ngx_str4cmp (xs @ ys) m cs = ngx_str4cmp xs m cs"
  "m + 5 \<le> length xs \<Longrightarrow> ngx_str5cmp (xs @ ys) m cs = ngx_str5cmp xs m cs"
  "m + 6 \<le> length xs \<Longrightarrow> ngx_str6cmp (xs @ ys) m cs = ngx_str6cmp xs m cs"
  "m + 7 \<le> length xs \<Longrightarrow> ngx_str7_cmp (xs @ ys) m cs = ngx_str7_cmp xs m cs"
  "m + 8 \<le> length xs \<Longrightarrow> ngx_str8cmp (xs @ ys) m cs = ngx_str8cmp xs m cs"
  "m + 9 \<le> length xs \<Longrightarrow> ngx_str9cmp (xs @ ys) m cs = ngx_str9cmp xs m cs"
  by (simp_all add: ngx_strcmp_defs nth_append)

lemma method_length_cases:
  fixes n :: nat
  obtains "n = 3" | "n = 4" | "n = 5" | "n = 6" | "n = 7" | "n = 8" | "n = 9"
    | "n \<noteq> 3" "n \<noteq> 4" "n \<noteq> 5" "n \<noteq> 6" "n \<noteq> 7" "n \<noteq> 8" "n \<noteq> 9"
  by auto

lemma rl_lookup_method_append:
  assumes "m + n \<le> length xs \<or> n = 0"
  shows "rl_lookup_method (xs @ ys) m n old = rl_lookup_method xs m n old"
  using assms
  by (cases n rule: method_length_cases)
     (simp_all add: rl_lookup_method_def ngx_strcmp_append nth_append
       del: bytes_simps split del: if_split cong: if_cong)

lemma rl_method_append: "p < length xs \<Longrightarrow> rl_method (xs @ ys) p ch r = rl_method xs p ch r"
proof -
  assume p: "p < length xs"
  then have "rl_lookup_method (xs @ ys) m (p - m) = rl_lookup_method xs m (p - m)" for m 
    by (intro ext rl_lookup_method_append) arith
  then show ?thesis by (simp add: rl_method_def Let_def split: option.split)
qed

lemma rl_step_append: "p < length xs \<Longrightarrow> rl_step (xs @ ys) p c = rl_step xs p c"
  by (cases c; cases "fst c") (simp_all add: rl_step_def rl_method_append nth_append)

lemmas rl_case_defs =
  rl_start_def rl_method_def rl_spaces_before_uri_def rl_schema_def rl_schema_slash_def
  rl_schema_slash_slash_def rl_host_end_def rl_host_def rl_host_start_def
  rl_host_ip_literal_def rl_port_def rl_after_slash_in_uri_def rl_check_uri_def rl_uri_def
  rl_http_09_def rl_expect_def rl_first_major_digit_def rl_major_digit_def
  rl_first_minor_digit_def rl_minor_digit_def rl_spaces_after_digit_def rl_almost_done_def

text \<open>The machine neither reads nor writes \<open>r->state\<close>: only the prologue and epilogue do.\<close>

definition rl_set_state :: "nat \<Rightarrow> rl_config \<Rightarrow> rl_config" where
  "rl_set_state n = map_prod id (\<lambda>r. r\<lparr>r_state := n\<rparr>)"

lemma rl_step_frame: "rl_step xs p (rl_set_state n c) = map_step (rl_set_state n) id (rl_step xs p c)"
proof (cases c)
  case (Pair st r)
  show ?thesis
    unfolding Pair
    by (cases st; simp only: rl_set_state_def rl_step_def map_prod_simp prod.case rl_state.case
          Let_def id_apply; simp add: rl_case_defs Let_def split: option.split)
qed

section \<open>The word-sized comparisons\<close>

lemma byte_of_load32:
  "(ucast (load32 xs m) :: byte) = xs ! m"
  "(ucast (drop_bit 8 (load32 xs m)) :: byte) = xs ! (m + 1)"
  "(ucast (drop_bit 16 (load32 xs m)) :: byte) = xs ! (m + 2)"
  "(ucast (drop_bit 24 (load32 xs m)) :: byte) = xs ! (m + 3)"
  by (rule bit_eqI, force simp: load32_def bit_simps dest: bit_imp_le_length)+

lemma load32_eq_iff:
  "load32 xs m = load32 ys k \<longleftrightarrow>
     xs ! m = ys ! k \<and> xs ! (m + 1) = ys ! (k + 1) \<and> xs ! (m + 2) = ys ! (k + 2)
     \<and> xs ! (m + 3) = ys ! (k + 3)"
  by (metis byte_of_load32 load32_def)

lemma low16_eq_iff:
  fixes a b c d :: byte
  shows "(push_bit 8 (ucast a) OR ucast b :: 32 word) = push_bit 8 (ucast c) OR ucast d
    \<longleftrightarrow> a = c \<and> b = d"
proof -
  have hi: "(ucast (drop_bit 8 (push_bit 8 (ucast a) OR ucast b :: 32 word)) :: byte) = a"
    and lo: "(ucast (push_bit 8 (ucast a) OR ucast b :: 32 word) :: byte) = b" for a b :: byte
    by (rule bit_eqI, force simp: bit_simps dest: bit_imp_le_length)+
  show ?thesis by (metis hi lo)
qed

lemma load32_low16: "load32 xs m AND 0xffff = push_bit 8 (ucast (xs ! (m + 1))) OR ucast (xs ! m)"
proof -
  have m: "(0xffff :: 32 word) = mask 16" by (simp add: mask_eq_exp_minus_1)
  show ?thesis unfolding m
    by (rule bit_eqI) (auto simp: load32_def bit_simps dest: bit_imp_le_length)
qed

lemma ngx_strcmp_le:
  "xs ! (m + 3) = cs ! 3 \<Longrightarrow> ngx_str3_cmp_le xs m cs = ngx_str3_cmp xs m cs"
  "xs ! (m + 1) = cs ! 1 \<Longrightarrow> ngx_str3Ocmp_le xs m cs = ngx_str3Ocmp xs m cs"
  "ngx_str4cmp_le xs m cs = ngx_str4cmp xs m cs"
  "ngx_str5cmp_le xs m cs = ngx_str5cmp xs m cs"
  "ngx_str6cmp_le xs m cs = ngx_str6cmp xs m cs"
  "xs ! (m + 7) = cs ! 7 \<Longrightarrow> ngx_str7_cmp_le xs m cs = ngx_str7_cmp xs m cs"
  "ngx_str8cmp_le xs m cs = ngx_str8cmp xs m cs"
  "ngx_str9cmp_le xs m cs = ngx_str9cmp xs m cs"
  unfolding ngx_strcmp_le_defs ngx_strcmp_defs load32_eq_iff load32_low16 low16_eq_iff
  by (auto simp: numeral_eq_Suc)

lemma rl_lookup_method_le_eq:
  assumes "xs ! (m + n) = ch_space"
  shows "rl_lookup_method_le xs m n old = rl_lookup_method xs m n old"
  using assms
  by (cases n rule: method_length_cases)
     (simp_all add: rl_lookup_method_le_def rl_lookup_method_def ngx_strcmp_le)

section \<open>Method recognition is a table lookup\<close>

definition method_table :: "(byte list \<times> http_method) list" where
  "method_table =
     [(bytes ''GET'', NGX_HTTP_GET), (bytes ''PUT'', NGX_HTTP_PUT),
      (bytes ''POST'', NGX_HTTP_POST), (bytes ''COPY'', NGX_HTTP_COPY),
      (bytes ''MOVE'', NGX_HTTP_MOVE), (bytes ''LOCK'', NGX_HTTP_LOCK),
      (bytes ''HEAD'', NGX_HTTP_HEAD), (bytes ''MKCOL'', NGX_HTTP_MKCOL),
      (bytes ''PATCH'', NGX_HTTP_PATCH), (bytes ''TRACE'', NGX_HTTP_TRACE),
      (bytes ''DELETE'', NGX_HTTP_DELETE), (bytes ''UNLOCK'', NGX_HTTP_UNLOCK),
      (bytes ''OPTIONS'', NGX_HTTP_OPTIONS), (bytes ''CONNECT'', NGX_HTTP_CONNECT),
      (bytes ''PROPFIND'', NGX_HTTP_PROPFIND), (bytes ''PROPPATCH'', NGX_HTTP_PROPPATCH)]"

definition method_named :: "byte list \<Rightarrow> http_method" where
  "method_named name =
     (case map_of method_table name of Some m \<Rightarrow> m | None \<Rightarrow> NGX_HTTP_UNKNOWN)"

lemma method_named_length: "method_named name \<noteq> NGX_HTTP_UNKNOWN \<Longrightarrow> length name \<in> {3, 4, 5, 6, 7, 8, 9}"
  by (auto simp: method_named_def method_table_def split: if_splits)

lemma rl_lookup_method_segment:
  assumes "m + n \<le> length xs"
  shows "rl_lookup_method xs m n old = rl_lookup_method (segment m (m + n) xs) 0 n old"
  using assms
  by (cases n rule: method_length_cases)
     (simp_all add: rl_lookup_method_def ngx_strcmp_defs nth_segment
       split del: if_split cong: if_cong)

lemma length_eq_cases:
  "length w = 3 \<Longrightarrow> \<exists>a b c. w = [a, b, c]"
  "length w = 4 \<Longrightarrow> \<exists>a b c d. w = [a, b, c, d]"
  "length w = 5 \<Longrightarrow> \<exists>a b c d e. w = [a, b, c, d, e]"
  "length w = 6 \<Longrightarrow> \<exists>a b c d e f. w = [a, b, c, d, e, f]"
  "length w = 7 \<Longrightarrow> \<exists>a b c d e f g. w = [a, b, c, d, e, f, g]"
  "length w = 8 \<Longrightarrow> \<exists>a b c d e f g h. w = [a, b, c, d, e, f, g, h]"
  "length w = 9 \<Longrightarrow> \<exists>a b c d e f g h i. w = [a, b, c, d, e, f, g, h, i]"
  by (simp_all add: numeral_eq_Suc length_Suc_conv, blast+)

lemma rl_lookup_method_named: "rl_lookup_method w 0 (length w) NGX_HTTP_UNKNOWN = method_named w"
proof (cases "length w" rule: method_length_cases)
  case 8
  then have "method_named w = NGX_HTTP_UNKNOWN"
    using method_named_length [of w] by auto
  with 8 show ?thesis by (simp add: rl_lookup_method_def)
qed (drule length_eq_cases, elim exE, simp add: rl_lookup_method_def ngx_strcmp_defs
       method_named_def method_table_def)+

lemma rl_lookup_method_table:
  assumes "m + n \<le> length xs"
  shows "rl_lookup_method xs m n NGX_HTTP_UNKNOWN = method_named (segment m (m + n) xs)"
  using assms rl_lookup_method_named [of "segment m (m + n) xs"]
  by (subst rl_lookup_method_segment) simp_all

section \<open>What the machine knows about its pointers\<close>

text \<open>The bytes a request URI may hold: neither controls nor space nor DEL.\<close>

definition uri_char :: "byte \<Rightarrow> bool" where
  "uri_char ch \<longleftrightarrow> 0x20 < ch \<and> ch \<noteq> DEL"

lemma usual_uri_char: "is_usual ch \<Longrightarrow> uri_char ch"
  by (simp add: is_usual_iff uri_char_def)

text \<open>The method name lies before \<open>p\<close>, ends at a space, and \<open>r->method\<close> is what it names.\<close>

definition rl_method_ok :: "byte list \<Rightarrow> nat \<Rightarrow> ngx_http_request \<Rightarrow> bool" where
  "rl_method_ok xs p r \<longleftrightarrow>
     (\<exists>rs me. r_request_start r = Some rs \<and> r_method_end r = Some me \<and> rs \<le> me \<and> me + 1 < p
        \<and> xs ! (me + 1) = ch_space \<and> all_in xs rs (me + 1) is_method_char
        \<and> r_method r = method_named (segment rs (me + 1) xs))"

text \<open>An absolute URI: \<open>://\<close> after the schema, of which \<open>n\<close> bytes have been read.\<close>

definition rl_schema_ok :: "byte list \<Rightarrow> nat \<Rightarrow> nat \<Rightarrow> ngx_http_request \<Rightarrow> bool" where
  "rl_schema_ok xs p n r \<longleftrightarrow>
     (\<exists>me se. r_method_end r = Some me \<and> r_schema_end r = Some se \<and> me < se \<and> se + n \<le> p
        \<and> (n < 3 \<longrightarrow> p = se + n) \<and> (1 < n \<longrightarrow> xs ! (se + 1) = ch_slash))"

definition rl_uri_open :: "byte list \<Rightarrow> nat \<Rightarrow> ngx_http_request \<Rightarrow> bool" where
  "rl_uri_open xs p r \<longleftrightarrow>
     (\<exists>me us. r_method_end r = Some me \<and> r_uri_start r = Some us \<and> me < us \<and> us < p
        \<and> all_in xs us p uri_char)"

definition rl_uri_closed :: "byte list \<Rightarrow> nat \<Rightarrow> ngx_http_request \<Rightarrow> bool" where
  "rl_uri_closed xs p r \<longleftrightarrow>
     (\<exists>me us ue. r_method_end r = Some me \<and> r_uri_start r = Some us \<and> r_uri_end r = Some ue
        \<and> me < us \<and> us < ue \<and> ue < p \<and> all_in xs us ue uri_char)"

text \<open>The pointer invariant, state by state, with \<open>p\<close> the next byte to read.\<close>

fun rl_ptr_inv :: "byte list \<Rightarrow> nat \<Rightarrow> rl_config \<Rightarrow> bool" where
  "rl_ptr_inv xs p (st, r) =
     (r_request_end r = None \<and>
      (case st of
         rl_sw_start \<Rightarrow> r_method r = NGX_HTTP_UNKNOWN
       | rl_sw_method \<Rightarrow>
           r_method r = NGX_HTTP_UNKNOWN \<and>
           (\<exists>rs. r_request_start r = Some rs \<and> rs < p \<and> all_in xs rs p is_method_char)
       | rl_sw_spaces_before_uri \<Rightarrow> rl_method_ok xs p r
       | rl_sw_schema \<Rightarrow> rl_method_ok xs p r
       | rl_sw_schema_slash \<Rightarrow> rl_method_ok xs p r \<and> rl_schema_ok xs p 1 r
       | rl_sw_schema_slash_slash \<Rightarrow> rl_method_ok xs p r \<and> rl_schema_ok xs p 2 r
       | rl_sw_host_start \<Rightarrow> rl_method_ok xs p r \<and> rl_schema_ok xs p 3 r
       | rl_sw_host \<Rightarrow> rl_method_ok xs p r \<and> rl_schema_ok xs p 3 r
       | rl_sw_host_end \<Rightarrow> rl_method_ok xs p r \<and> rl_schema_ok xs p 3 r
       | rl_sw_host_ip_literal \<Rightarrow> rl_method_ok xs p r \<and> rl_schema_ok xs p 3 r
       | rl_sw_port \<Rightarrow> rl_method_ok xs p r \<and> rl_schema_ok xs p 3 r
       | rl_sw_after_slash_in_uri \<Rightarrow> rl_method_ok xs p r \<and> rl_uri_open xs p r
       | rl_sw_check_uri \<Rightarrow> rl_method_ok xs p r \<and> rl_uri_open xs p r
       | rl_sw_uri \<Rightarrow> rl_method_ok xs p r \<and> rl_uri_open xs p r
       | _ \<Rightarrow> rl_method_ok xs p r \<and> rl_uri_closed xs p r))"

lemma not_usual_uri_char: "\<not> (ch < 0x20 \<or> ch = 0x7f) \<Longrightarrow> ch \<noteq> ch_space \<Longrightarrow> uri_char ch"
  by (auto simp: uri_char_def)

lemma rl_method_ok_mono [elim!]: "rl_method_ok xs p r \<Longrightarrow> rl_method_ok xs (Suc p) r"
  by (auto simp: rl_method_ok_def)

lemmas rl_ptr_defs = rl_method_ok_def rl_schema_ok_def rl_uri_open_def rl_uri_closed_def

lemma rl_ptr_inv_method:
  assumes inv: "rl_ptr_inv xs p (rl_sw_method, r)" and p: "p < length xs"
    and step: "rl_step xs p (rl_sw_method, r) = Cont s'"
  shows "rl_ptr_inv xs (Suc p) s'"
proof (cases "xs ! p = ch_space")
  case True
  from inv obtain rs where rs: "r_request_start r = Some rs" "rs < p"
    and chars: "all_in xs rs p is_method_char" and old: "r_method r = NGX_HTTP_UNKNOWN"
    and fresh: "r_request_end r = None"
    by auto
  let ?r = "r\<lparr>r_method_end := Some (p - 1), r_method := method_named (segment rs p xs)\<rparr>"
  have "rl_lookup_method xs rs (p - rs) NGX_HTTP_UNKNOWN = method_named (segment rs p xs)"
    using rl_lookup_method_table [of rs "p - rs" xs] rs p by simp
  then have "s' = (rl_sw_spaces_before_uri, ?r)"
    using step True rs old by (simp add: rl_step_def rl_method_def Let_def)
  moreover have "rl_method_ok xs (Suc p) ?r"
    using rs chars True by (auto simp: rl_method_ok_def simp del: all_in_Suc)
  ultimately show ?thesis using fresh by simp
next
  case False
  with assms show ?thesis
    by (auto simp: rl_step_def rl_method_def split: if_splits)
qed

lemma rl_ptr_inv_uri:
  assumes inv: "rl_ptr_inv xs p (st, r)" and p: "p < length xs"
    and step: "rl_step xs p (st, r) = Cont s'"
    and st: "st \<in> {rl_sw_after_slash_in_uri, rl_sw_check_uri, rl_sw_uri}"
  shows "rl_ptr_inv xs (Suc p) s'"
  using st
proof (elim insertE emptyE)
  assume "st = rl_sw_after_slash_in_uri"
  with inv step show ?thesis
    by (auto simp: rl_step_def rl_after_slash_in_uri_def Let_def rl_ptr_defs uri_char_def usual_uri_char [unfolded uri_char_def]
        split: if_splits)
next
  assume "st = rl_sw_check_uri"
  with inv step show ?thesis
    by (auto simp: rl_step_def rl_check_uri_def Let_def rl_ptr_defs uri_char_def usual_uri_char [unfolded uri_char_def]
        split: if_splits)
next
  assume "st = rl_sw_uri"
  with inv step show ?thesis
    by (auto simp: rl_step_def rl_uri_def Let_def rl_ptr_defs uri_char_def usual_uri_char [unfolded uri_char_def]
        split: if_splits)
qed

lemma rl_ptr_inv_host:
  assumes inv: "rl_ptr_inv xs p (st, r)" and p: "p < length xs"
    and step: "rl_step xs p (st, r) = Cont s'"
    and st: "st \<in> {rl_sw_host_start, rl_sw_host, rl_sw_host_end, rl_sw_host_ip_literal, rl_sw_port}"
  shows "rl_ptr_inv xs (Suc p) s'"
  using st inv step
  by (elim insertE emptyE; auto simp: rl_step_def rl_host_start_def rl_host_def rl_host_end_def
      rl_host_ip_literal_def rl_port_def Let_def rl_ptr_defs uri_char_def split: if_splits)

lemma rl_ptr_inv_step:
  assumes "rl_ptr_inv xs p s" and "p < length xs" and "rl_step xs p s = Cont s'"
  shows "rl_ptr_inv xs (Suc p) s'"
proof -
  obtain st r where s: "s = (st, r)" by (cases s)
  consider "st = rl_sw_method"
    | "st \<in> {rl_sw_after_slash_in_uri, rl_sw_check_uri, rl_sw_uri}"
    | "st \<in> {rl_sw_host_start, rl_sw_host, rl_sw_host_end, rl_sw_host_ip_literal, rl_sw_port}"
    | "st \<in> {rl_sw_start, rl_sw_spaces_before_uri, rl_sw_schema, rl_sw_schema_slash,
             rl_sw_schema_slash_slash}"
    | "st \<in> {rl_sw_http_09, rl_sw_http_H, rl_sw_http_HT, rl_sw_http_HTT, rl_sw_http_HTTP}"
    | "st \<in> {rl_sw_first_major_digit, rl_sw_major_digit, rl_sw_first_minor_digit,
             rl_sw_minor_digit, rl_sw_spaces_after_digit, rl_sw_almost_done}"
    by (cases st) auto
  then show ?thesis
  proof cases
    case 1
    with assms show ?thesis unfolding s by (blast intro: rl_ptr_inv_method)
  next
    case 2
    with assms show ?thesis unfolding s by (blast intro: rl_ptr_inv_uri)
  next
    case 3
    with assms show ?thesis unfolding s by (blast intro: rl_ptr_inv_host)
  next
    case 4
    with assms(1,3) show ?thesis unfolding s
      by (elim insertE emptyE; auto simp: rl_step_def rl_start_def rl_spaces_before_uri_def
          rl_schema_def rl_schema_slash_def rl_schema_slash_slash_def Let_def rl_ptr_defs
          uri_char_def split: if_splits)
  next
    case 5
    with assms(1,3) show ?thesis unfolding s
      by (elim insertE emptyE; auto simp: rl_step_def rl_http_09_def rl_expect_def Let_def
          rl_ptr_defs split: if_splits)
  next
    case 6
    with assms(1,3) show ?thesis unfolding s
      by (elim insertE emptyE; auto simp: rl_step_def rl_first_major_digit_def
          rl_major_digit_def rl_first_minor_digit_def rl_minor_digit_def
          rl_spaces_after_digit_def rl_almost_done_def Let_def rl_ptr_defs split: if_splits)
  qed
qed

text \<open>The version numbers, state by state.\<close>

fun rl_version_inv :: "rl_config \<Rightarrow> bool" where
  "rl_version_inv (st, r) =
     (case st of
        rl_sw_major_digit \<Rightarrow> r_http_major r = 1
      | rl_sw_first_minor_digit \<Rightarrow> r_http_major r = 1
      | rl_sw_minor_digit \<Rightarrow> r_http_major r = 1 \<and> r_http_minor r \<le> 999
      | rl_sw_spaces_after_digit \<Rightarrow> r_http_major r = 1 \<and> r_http_minor r \<le> 999
      | rl_sw_almost_done \<Rightarrow>
          r_http_major r = 0 \<and> r_http_minor r = 9 \<or> r_http_major r = 1 \<and> r_http_minor r \<le> 999
      | _ \<Rightarrow> r_http_major r = 0)"

lemma ucast_digit_le:
  "\<not> (ch < ch_0 \<or> ch > ch_9) \<Longrightarrow> (ucast (ch - ch_0) :: 16 word) \<le> 9"
  by (auto simp: word_le_nat_alt not_less unat_digit)

lemma minor_digit_le: "(m :: 16 word) \<le> 99 \<Longrightarrow> d \<le> 9 \<Longrightarrow> m * 10 + d \<le> 999"
  by (simp add: word_le_nat_alt unat_word_ariths)

lemma major_digit_gt: "(d :: 16 word) \<le> 9 \<Longrightarrow> 10 + d > 1"
  by (simp add: word_le_nat_alt word_less_nat_alt unat_word_ariths)

lemma first_major_digit_eq:
  assumes "ch_1 \<le> ch" and "(ucast (ch - ch_0) :: 16 word) \<le> 1"
  shows "(ucast (ch - ch_0) :: 16 word) = 1"
proof -
  have "ch_0 \<le> ch" using assms(1) by (simp add: word_le_nat_alt)
  then show ?thesis
    using assms by (simp add: word_le_nat_alt word_unat_eq_iff unat_digit)
qed

lemma rl_version_inv_step:
  assumes "rl_version_inv s" and "rl_step xs p s = Cont s'"
  shows "rl_version_inv s'"
proof -
  obtain st r where s: "s = (st, r)" by (cases s)
  show ?thesis
  proof (cases st)
    case rl_sw_first_major_digit
    with assms show ?thesis unfolding s
      by (auto simp: rl_step_def rl_first_major_digit_def Let_def not_less split: if_splits
          intro!: first_major_digit_eq)
  next
    case rl_sw_major_digit
    with assms show ?thesis unfolding s
      using ucast_digit_le [of "xs ! p"] major_digit_gt
      by (auto simp: rl_step_def rl_major_digit_def Let_def split: if_splits)
  next
    case rl_sw_first_minor_digit
    with assms show ?thesis unfolding s
      using ucast_digit_le [of "xs ! p"] order_trans [of _ 9 "999 :: 16 word"]
      by (auto simp: rl_step_def rl_first_minor_digit_def Let_def split: if_splits)
  next
    case rl_sw_minor_digit
    with assms show ?thesis unfolding s
      using ucast_digit_le [of "xs ! p"]
      by (auto simp: rl_step_def rl_minor_digit_def Let_def not_less split: if_splits
          intro!: minor_digit_le)
  qed (use assms s in \<open>auto simp: rl_step_def rl_case_defs Let_def split: if_splits option.splits\<close>)
qed

section \<open>The contracts of the machine\<close>

text \<open>An error exit is never \<open>NGX_OK\<close> or \<open>NGX_AGAIN\<close>.\<close>

lemma rl_step_return:
  "rl_step xs p s = Exit (rl_return rc) s' \<Longrightarrow>
   rc \<in> {NGX_HTTP_PARSE_INVALID_METHOD, NGX_HTTP_PARSE_INVALID_REQUEST, NGX_HTTP_PARSE_INVALID_VERSION}"
  by (cases s; cases "fst s")
     (auto simp: rl_step_def rl_case_defs Let_def split: if_splits option.splits)

text \<open>
  The prologue, the code behind the loop when the bytes run out, and the code behind the
  loop when the body has left it.
\<close>

definition rl_enter :: "ngx_http_request \<Rightarrow> rl_config option" where
  "rl_enter r = map_option (\<lambda>st. (st, r)) (enum_of rl_states (r_state r))"

definition rl_save :: "rl_config \<Rightarrow> ngx_http_request" where
  "rl_save c = (snd c)\<lparr>r_state := enum_code rl_states (fst c)\<rparr>"

definition rl_leave ::
  "nat \<Rightarrow> rl_exit \<Rightarrow> rl_config \<Rightarrow> ngx_buf \<Rightarrow> ngx_rc \<times> ngx_http_request \<times> ngx_buf"
where
  "rl_leave q e c b =
     (case e of rl_done \<Rightarrow> rl_finish q (snd c) b | rl_return rc \<Rightarrow> (rc, snd c, b))"

text \<open>
  What a caller can rely on: \<open>r->state\<close> and \<open>b->pos\<close> are written on suspension and
  on success; after an error they are whatever the last suspension left.
\<close>

definition rl_obs ::
  "ngx_rc \<times> ngx_http_request \<times> ngx_buf \<Rightarrow> ngx_rc \<times> ngx_http_request \<times> ngx_buf"
where
  "rl_obs a =
     (case a of (rc, r, b) \<Rightarrow>
        if rc \<in> {NGX_OK, NGX_AGAIN, NGX_HTTP_PARSE_INVALID_09_METHOD} then (rc, r, b)
        else (rc, r\<lparr>r_state := 0\<rparr>, b\<lparr>buf_pos := 0\<rparr>))"

interpretation rl: suspendable_parser rl_step rl_enter rl_save rl_leave
  "\<lambda>t. rl_set_state (enum_code rl_states (fst t))" ngx_http_parse_request_line rl_obs
proof (unfold_locales, goal_cases)
  case (1 p xs ys s)
  then show ?case by (rule rl_step_append)
next
  case (2 r b)
  show ?case
    by (simp add: ngx_http_parse_request_line_def rl_enter_def rl_save_def rl_leave_def
        split: option.split outcome.split rl_exit.split)
next
  case (3 s)
  show ?case
    by (cases s) (simp add: rl_enter_def rl_save_def rl_set_state_def enum_of_code set_rl_states)
next
  case (4 xs p t s)
  show ?case by (rule rl_step_frame)
next
  case (5 t s)
  show ?case by (cases s) (simp add: rl_save_def rl_set_state_def)
next
  case (6 xs q s e s' b)
  then show ?case
    by (cases e) (auto simp: rl_leave_def rl_finish_def Let_def dest: rl_step_return)
next
  case (7 xs q s e s' t b k)
  then show ?case
    by (cases e; cases s')
       (auto simp: rl_leave_def rl_finish_def rl_obs_def rl_set_state_def Let_def
         dest: rl_step_return)
next
  case (8 q e s' b ys)
  show ?case by (cases e) (simp_all add: rl_leave_def rl_finish_def Let_def)
next
  case (9 q e s' b rc c' b')
  then show ?case
    by (cases e) (auto simp: rl_leave_def rl_finish_def Let_def split: if_splits)
qed

interpretation rl_ptr: byte_machine_inv rl_step rl_ptr_inv
  by unfold_locales (rule rl_ptr_inv_step)

interpretation rl_version: byte_machine_inv rl_step "\<lambda>_ _. rl_version_inv"
  by unfold_locales (rule rl_version_inv_step)

section \<open>What a parsed request line guarantees\<close>

definition rl_fresh :: "ngx_http_request \<Rightarrow> bool" where
  "rl_fresh r \<longleftrightarrow>
     r_state r = 0 \<and> r_method r = NGX_HTTP_UNKNOWN \<and> r_request_end r = None \<and> r_http_major r = 0"

lemma rl_fresh_request: "rl_fresh fresh_request"
  by (simp add: rl_fresh_def fresh_request_def)

lemma rl_step_done:
  assumes "rl_ptr_inv xs p (st, r)" and "rl_step xs p (st, r) = Exit rl_done (st', r')"
  shows "xs ! p = LF \<and> rl_method_ok xs p r' \<and>
    (\<exists>me us ue. r_method_end r' = Some me \<and> r_uri_start r' = Some us \<and> r_uri_end r' = Some ue
        \<and> me < us \<and> us < ue \<and> all_in xs us ue uri_char
        \<and> ue \<le> p \<and> (r_request_end r' = None \<or> r_request_end r' = Some (p - 1) \<and> ue \<le> p - 1))"
  using assms
  by (cases st)
     (auto simp: rl_step_def rl_case_defs Let_def rl_ptr_defs split: if_splits option.splits)

lemma rl_parse_OK:
  assumes "ngx_http_parse_request_line r b = (NGX_OK, r', b')" and "rl_fresh r"
  obtains q st r0 where "run rl_step (buf_data b) (buf_pos b) (rl_sw_start, r) = Stop q rl_done (st, r0)"
    and "rl_finish q r0 b = (NGX_OK, r', b')"
proof -
  have "enum_of rl_states (r_state r) = Some rl_sw_start"
    using assms(2) by (simp add: rl_fresh_def enum_of_def rl_states_def)
  with assms(1) that show ?thesis
    by (auto simp: ngx_http_parse_request_line_def split: outcome.splits rl_exit.splits
        dest!: run_Stop_Exit rl_step_return)
qed

lemma rl_parse_pointers:
  assumes "ngx_http_parse_request_line r b = (NGX_OK, r', b')" and "rl_fresh r"
  shows "\<exists>rs me us ue re.
    r_request_start r' = Some rs \<and> r_method_end r' = Some me \<and> r_uri_start r' = Some us
    \<and> r_uri_end r' = Some ue \<and> r_request_end r' = Some re
    \<and> rs \<le> me \<and> me < us \<and> us < ue \<and> ue \<le> re \<and> re < buf_pos b' \<and> buf_pos b' \<le> length (buf_data b)
    \<and> buf_data b ! (buf_pos b' - 1) = LF
    \<and> (\<forall>ch\<in>set (segment rs (me + 1) (buf_data b)). is_method_char ch)
    \<and> (\<forall>ch\<in>set (segment us ue (buf_data b)). uri_char ch)
    \<and> r_method r' = method_named (segment rs (me + 1) (buf_data b))"
proof -
  let ?xs = "buf_data b"
  from rl_parse_OK [OF assms] obtain q st r0
    where run: "run rl_step ?xs (buf_pos b) (rl_sw_start, r) = Stop q rl_done (st, r0)"
      and fin: "rl_finish q r0 b = (NGX_OK, r', b')" by blast
  have "rl_ptr_inv ?xs (buf_pos b) (rl_sw_start, r)"
    using assms(2) by (simp add: rl_fresh_def)
  from rl_ptr.run_Stop_inv [OF this run] obtain s
    where q: "q < length ?xs" and inv: "rl_ptr_inv ?xs q s"
      and step: "rl_step ?xs q s = Exit rl_done (st, r0)" by blast
  obtain st1 r1 where s: "s = (st1, r1)" by (cases s)
  note fin_facts = rl_step_done [OF inv [unfolded s] step [unfolded s]]
  from fin_facts obtain rs me us ue where
    ptr: "r_request_start r0 = Some rs" "r_method_end r0 = Some me" "r_uri_start r0 = Some us"
      "r_uri_end r0 = Some ue"
    and le: "rs \<le> me" "me < us" "us < ue" "ue \<le> q" "me + 1 < q"
    and chars: "all_in ?xs rs (me + 1) is_method_char" "all_in ?xs us ue uri_char"
    and meth: "r_method r0 = method_named (segment rs (me + 1) ?xs)"
    and lf: "?xs ! q = LF"
    and re: "r_request_end r0 = None \<or> r_request_end r0 = Some (q - 1) \<and> ue \<le> q - 1"
    by (auto simp: rl_method_ok_def simp del: all_in_Suc)
  have "\<forall>ch\<in>set (segment rs (me + 1) ?xs). is_method_char ch"
    and "\<forall>ch\<in>set (segment us ue ?xs). uri_char ch"
    using chars le q by (auto simp flip: all_in_segment)
  with ptr le meth lf re fin q show ?thesis
    by (auto simp: rl_finish_def Let_def split: if_splits)
qed

lemma rl_step_done_version:
  assumes "rl_version_inv (st, r)" and "rl_step xs p (st, r) = Exit rl_done (st', r')"
  shows "r_http_major r' = 0 \<and> r_http_minor r' = 9 \<or> r_http_major r' = 1 \<and> r_http_minor r' \<le> 999"
  using assms
  by (cases st) (auto simp: rl_step_def rl_case_defs Let_def split: if_splits option.splits)

lemma rl_parse_version:
  assumes "ngx_http_parse_request_line r b = (NGX_OK, r', b')" and "rl_fresh r"
  shows "r_http_version r' = 9 \<and> r_method r' = NGX_HTTP_GET \<or>
    1000 \<le> r_http_version r' \<and> r_http_version r' \<le> 1999"
proof -
  from rl_parse_OK [OF assms] obtain q st r0
    where run: "run rl_step (buf_data b) (buf_pos b) (rl_sw_start, r) = Stop q rl_done (st, r0)"
      and fin: "rl_finish q r0 b = (NGX_OK, r', b')" by blast
  have "rl_version_inv (rl_sw_start, r)"
    using assms(2) by (simp add: rl_fresh_def)
  from rl_version.run_Stop_inv [OF this run] obtain s
    where "rl_version_inv s" and "rl_step (buf_data b) q s = Exit rl_done (st, r0)" by blast
  then have "r_http_major r0 = 0 \<and> r_http_minor r0 = 9 \<or> r_http_major r0 = 1 \<and> r_http_minor r0 \<le> 999"
    by (metis prod.exhaust rl_step_done_version)
  with fin show ?thesis
    by (auto simp: rl_finish_def Let_def word_le_nat_alt split: if_splits)
qed

section \<open>A canonical request line is parsed back\<close>

definition canonical_request :: "byte list \<Rightarrow> byte list \<Rightarrow> byte list" where
  "canonical_request name path =
     name @ ch_space # ch_slash # path @ bytes '' HTTP/1.1'' @ [CR, LF]"

lemma is_method_char_not: "is_method_char ch \<Longrightarrow> ch \<noteq> ch_space \<and> ch \<noteq> CR \<and> ch \<noteq> LF"
  by (auto simp: is_method_char_def)

lemma rl_run_usual_path:
  assumes "drop p xs = path @ rest" and "\<forall>ch\<in>set path. is_usual ch"
  shows "run rl_step xs p (rl_sw_after_slash_in_uri, r) =
    run rl_step xs (p + length path)
      (if path = [] then rl_sw_after_slash_in_uri else rl_sw_check_uri, r)"
proof (cases path)
  case Nil
  then show ?thesis by simp
next
  case (Cons c cs)
  have len: "p + length path \<le> length xs"
    using arg_cong [OF assms(1), of length] Cons by simp
  have usual: "is_usual (xs ! i)" if "p \<le> i" "i < p + length path" for i
    using all_inD [OF all_in_drop [OF assms]] that by blast
  have "run rl_step xs p (rl_sw_after_slash_in_uri, r) = run rl_step xs (Suc p) (rl_sw_check_uri, r)"
    using usual len Cons by (intro run_Cont) (auto simp: rl_step_def rl_after_slash_in_uri_def)
  also have "\<dots> = run rl_step xs (p + length path) (rl_sw_check_uri, r)"
    using usual len Cons by (intro run_block_same) (auto simp: rl_step_def rl_check_uri_def)
  finally show ?thesis using Cons by simp
qed

text \<open>From the first byte after the URI: \<open>HTTP/1.1\<close> and the end of the line.\<close>

lemma rl_run_http11:
  assumes d: "drop p xs = bytes ''HTTP/1.1'' @ CR # LF # rest"
  shows "run rl_step xs p (rl_sw_http_09, r) =
    Stop (p + 9) rl_done (rl_sw_almost_done,
      r\<lparr>r_http_protocol_data := Some p, r_http_major := 1, r_http_minor := 1,
        r_request_end := Some (p + 8)\<rparr>)"
proof -
  define r1 where "r1 = r\<lparr>r_http_protocol_data := Some p\<rparr>"
  define r2 where "r2 = r1\<lparr>r_http_major := 1\<rparr>"
  define r3 where "r3 = r2\<lparr>r_http_minor := 1\<rparr>"
  have len: "p + 9 < length xs"
    using arg_cong [OF d, of length] by simp
  have "xs ! (p + i) = (bytes ''HTTP/1.1'' @ CR # LF # rest) ! i" for i
    using nth_drop [of p xs i] len d by simp
  note at = this [of 0] this [of 1] this [of 2] this [of 3] this [of 4] this [of 5] this [of 6]
    this [of 7] this [of 8] this [of 9]
  have step: "rl_step xs p (rl_sw_http_09, r) = Cont (rl_sw_http_H, r1)"
    "rl_step xs (p + 1) (rl_sw_http_H, r1) = Cont (rl_sw_http_HT, r1)"
    "rl_step xs (p + 2) (rl_sw_http_HT, r1) = Cont (rl_sw_http_HTT, r1)"
    "rl_step xs (p + 3) (rl_sw_http_HTT, r1) = Cont (rl_sw_http_HTTP, r1)"
    "rl_step xs (p + 4) (rl_sw_http_HTTP, r1) = Cont (rl_sw_first_major_digit, r1)"
    "rl_step xs (p + 5) (rl_sw_first_major_digit, r1) = Cont (rl_sw_major_digit, r2)"
    "rl_step xs (p + 6) (rl_sw_major_digit, r2) = Cont (rl_sw_first_minor_digit, r2)"
    "rl_step xs (p + 7) (rl_sw_first_minor_digit, r2) = Cont (rl_sw_minor_digit, r3)"
    "rl_step xs (p + 8) (rl_sw_minor_digit, r3) = Cont (rl_sw_almost_done, r3)"
    "rl_step xs (p + 9) (rl_sw_almost_done, r3) =
      Exit rl_done (rl_sw_almost_done, r3\<lparr>r_request_end := Some (p + 8)\<rparr>)"
    using at
    by (simp_all add: rl_step_def rl_http_09_def rl_expect_def rl_first_major_digit_def
        rl_major_digit_def rl_first_minor_digit_def rl_minor_digit_def rl_almost_done_def
        Let_def r1_def r2_def r3_def)
  have "run rl_step xs p (rl_sw_http_09, r) = run rl_step xs (p + 1) (rl_sw_http_H, r1)"
    using len step(1) by (intro run_Cont_at) simp_all
  also have "\<dots> = run rl_step xs (p + 2) (rl_sw_http_HT, r1)"
    using len step(2) by (intro run_Cont_at) simp_all
  also have "\<dots> = run rl_step xs (p + 3) (rl_sw_http_HTT, r1)"
    using len step(3) by (intro run_Cont_at) simp_all
  also have "\<dots> = run rl_step xs (p + 4) (rl_sw_http_HTTP, r1)"
    using len step(4) by (intro run_Cont_at) simp_all
  also have "\<dots> = run rl_step xs (p + 5) (rl_sw_first_major_digit, r1)"
    using len step(5) by (intro run_Cont_at) simp_all
  also have "\<dots> = run rl_step xs (p + 6) (rl_sw_major_digit, r2)"
    using len step(6) by (intro run_Cont_at) simp_all
  also have "\<dots> = run rl_step xs (p + 7) (rl_sw_first_minor_digit, r2)"
    using len step(7) by (intro run_Cont_at) simp_all
  also have "\<dots> = run rl_step xs (p + 8) (rl_sw_minor_digit, r3)"
    using len step(8) by (intro run_Cont_at) simp_all
  also have "\<dots> = run rl_step xs (p + 9) (rl_sw_almost_done, r3)"
    using len step(9) by (intro run_Cont_at) simp_all
  also have "\<dots> = Stop (p + 9) rl_done (rl_sw_almost_done, r3\<lparr>r_request_end := Some (p + 8)\<rparr>)"
    using len step(10) by (intro run_Exit) simp_all
  finally show ?thesis by (simp add: r1_def r2_def r3_def)
qed

text \<open>A method name and a path of usual characters, up to the space behind the path.\<close>

lemma rl_run_target:
  assumes d: "drop p xs = name @ ch_space # ch_slash # path @ ch_space # rest"
    and name: "name \<noteq> []" "\<forall>ch\<in>set name. is_method_char ch"
    and path: "\<forall>ch\<in>set path. is_usual ch"
    and r: "r_method r = NGX_HTTP_UNKNOWN"
  defines "e \<equiv> p + length name" and "u \<equiv> p + length name + 2 + length path"
  shows "run rl_step xs p (rl_sw_start, r) =
    run rl_step xs (u + 1) (rl_sw_http_09,
      r\<lparr>r_request_start := Some p, r_method_end := Some (e - 1), r_method := method_named name,
        r_uri_start := Some (e + 1), r_uri_end := Some u\<rparr>)"
proof -
  define r1 where "r1 = r\<lparr>r_request_start := Some p\<rparr>"
  define r2 where "r2 = r1\<lparr>r_method_end := Some (e - 1), r_method := method_named name\<rparr>"
  define r3 where "r3 = r2\<lparr>r_uri_start := Some (e + 1)\<rparr>"
  have d1: "drop e xs = ch_space # ch_slash # path @ ch_space # rest"
    unfolding e_def by (rule drop_append_at [OF d])
  have d2: "drop (e + 2) xs = path @ ch_space # rest"
    using drop_append_at [of e xs "[ch_space, ch_slash]"] d1 by simp
  have d3: "drop u xs = ch_space # rest"
    using drop_append_at [OF d2] by (simp add: u_def e_def)
  have len: "u < length xs" by (rule drop_Cons_at(2) [OF d3])
  have names: "xs ! i \<noteq> ch_space \<and> xs ! i \<noteq> CR \<and> xs ! i \<noteq> LF \<and> is_method_char (xs ! i)"
    if "p \<le> i" "i < e" for i
    using all_inD [OF all_in_drop [OF d name(2)] that(1)] that(2) is_method_char_not
    by (auto simp: e_def)
  have lookup: "rl_lookup_method xs p (e - p) NGX_HTTP_UNKNOWN = method_named name"
    using rl_lookup_method_table [of p "e - p" xs] len d
    by (simp add: e_def u_def segment_def)
  have "run rl_step xs p (rl_sw_start, r) = run rl_step xs (Suc p) (rl_sw_method, r1)"
    using names [of p] len name(1)
    by (intro run_Cont) (auto simp: rl_step_def rl_start_def r1_def e_def u_def Let_def)
  also have "\<dots> = run rl_step xs e (rl_sw_method, r1)"
    using names len name(1)
    by (intro run_block_same) (auto simp: rl_step_def rl_method_def e_def u_def Suc_le_eq)
  also have "\<dots> = run rl_step xs (e + 1) (rl_sw_spaces_before_uri, r2)"
    using len lookup r drop_Cons_at(1) [OF d1]
    by (subst run_Cont) (auto simp: rl_step_def rl_method_def r1_def r2_def e_def u_def Let_def)
  also have "\<dots> = run rl_step xs (e + 2) (rl_sw_after_slash_in_uri, r3)"
    using len drop_Cons_at(1) [OF drop_Cons_at(3) [OF d1]]
    by (subst run_Cont) (auto simp: rl_step_def rl_spaces_before_uri_def r3_def u_def e_def)
  also have "\<dots> = run rl_step xs u
      (if path = [] then rl_sw_after_slash_in_uri else rl_sw_check_uri, r3)"
    using rl_run_usual_path [OF d2 path] by (simp add: u_def e_def)
  also have "\<dots> = run rl_step xs (u + 1) (rl_sw_http_09, r3\<lparr>r_uri_end := Some u\<rparr>)"
    using len drop_Cons_at(1) [OF d3]
    by (subst run_Cont) (auto simp: rl_step_def rl_after_slash_in_uri_def rl_check_uri_def is_usual_iff)
  finally show ?thesis by (simp add: r1_def r2_def r3_def)
qed

lemma rl_parse_canonical:
  assumes name: "name \<noteq> []" "\<forall>ch\<in>set name. is_method_char ch"
    and path: "\<forall>ch\<in>set path. is_usual ch"
    and r: "rl_fresh r"
    and b: "drop (buf_pos b) (buf_data b) = canonical_request name path @ rest"
  defines "e \<equiv> buf_pos b + length name" and "u \<equiv> buf_pos b + length name + 2 + length path"
  shows "ngx_http_parse_request_line r b =
    (NGX_OK,
     r\<lparr>r_request_start := Some (buf_pos b), r_method_end := Some (e - 1),
       r_method := method_named name, r_uri_start := Some (e + 1), r_uri_end := Some u,
       r_http_protocol_data := Some (u + 1), r_http_major := 1, r_http_minor := 1,
       r_request_end := Some (u + 9), r_http_version := 1001, r_state := 0\<rparr>,
     b\<lparr>buf_pos := u + 11\<rparr>)"
proof -
  have d: "drop (buf_pos b) (buf_data b) =
      name @ ch_space # ch_slash # path @ ch_space # bytes ''HTTP/1.1'' @ CR # LF # rest"
    using b by (simp add: canonical_request_def)
  have d': "drop (u + 1) (buf_data b) = bytes ''HTTP/1.1'' @ CR # LF # rest"
    using drop_append_at [of "buf_pos b" "buf_data b" "name @ ch_space # ch_slash # path @ [ch_space]"
        "bytes ''HTTP/1.1'' @ CR # LF # rest"] d
    by (simp add: u_def add.assoc)
  have start: "enum_of rl_states (r_state r) = Some rl_sw_start" "enum_code rl_states rl_sw_start = 0"
    using r by (simp_all add: rl_fresh_def enum_of_def enum_code_def rl_states_def)
  have "r_method r = NGX_HTTP_UNKNOWN" using r by (simp add: rl_fresh_def)
  note run = rl_run_target [OF d name path this, folded e_def u_def, unfolded rl_run_http11 [OF d']]
  show ?thesis
    using start r by (simp add: ngx_http_parse_request_line_def run rl_finish_def rl_fresh_def Let_def)
qed

section \<open>Properties\<close>

lemma rl_feed_OK:
  assumes "feed ngx_http_parse_request_line r b fs = (NGX_OK, r', b')"
    and "buf_pos b \<le> length (buf_data b)"
  shows "ngx_http_parse_request_line r (b\<lparr>buf_data := buf_data b @ concat fs\<rparr>) = (NGX_OK, r', b')"
  using rl.feed_whole [OF assms(2), of r fs] assms(1)
  by (auto simp: rl_obs_def split: prod.splits if_splits)

text \<open>C6: However the bytes of a request line arrive, in one read or cut into pieces at any
  places, the caller's loop around \<open>ngx_http_parse_request_line\<close> ends with the same
  return code, the same request fields and the same buffer position as one call on all the
  bytes. After an error the stored state number and buffer position are excepted.\<close>

theorem request_line_resumable:
  "buf_pos b \<le> length (buf_data b) \<Longrightarrow>
   rl_obs (feed ngx_http_parse_request_line r b fs) =
   rl_obs (ngx_http_parse_request_line r (b\<lparr>buf_data := buf_data b @ concat fs\<rparr>))"
  by (rule rl.feed_whole)

lemma canonical_GET:
  "\<exists>r' b'. ngx_http_parse_request_line fresh_request
     \<lparr>buf_data = bytes ''GET /a HTTP/1.1'' @ [CR, LF], buf_pos = 0\<rparr> = (NGX_OK, r', b')"
  using rl_parse_canonical [of "bytes ''GET''" "bytes ''a''" fresh_request
      "\<lparr>buf_data = bytes ''GET /a HTTP/1.1'' @ [CR, LF], buf_pos = 0\<rparr>" "[]"]
  by (simp add: rl_fresh_request canonical_request_def is_method_char_def is_usual_iff)

theorem request_line_resumable_witness:
  "fst (feed ngx_http_parse_request_line fresh_request \<lparr>buf_data = [], buf_pos = 0\<rparr>
       [bytes ''GE'', bytes ''T /a HTT'', bytes ''P/1.1'' @ [CR], [LF]]) = NGX_OK"
proof -
  obtain r' b' where whole: "ngx_http_parse_request_line fresh_request
     \<lparr>buf_data = bytes ''GET /a HTTP/1.1'' @ [CR, LF], buf_pos = 0\<rparr> = (NGX_OK, r', b')"
    using canonical_GET by blast
  have "rl_obs (feed ngx_http_parse_request_line fresh_request \<lparr>buf_data = [], buf_pos = 0\<rparr>
       [bytes ''GE'', bytes ''T /a HTT'', bytes ''P/1.1'' @ [CR], [LF]]) = rl_obs (NGX_OK, r', b')"
    using request_line_resumable [of "\<lparr>buf_data = [], buf_pos = 0\<rparr>" fresh_request
        "[bytes ''GE'', bytes ''T /a HTT'', bytes ''P/1.1'' @ [CR], [LF]]"] whole
    by (simp del: feed.simps)
  then show ?thesis
    by (auto simp: rl_obs_def simp del: feed.simps split: prod.splits if_splits)
qed

text \<open>When a request line has been accepted, the pointers the caller slices with are all set
  and ordered inside the bytes received: method, URI and end of line follow each other
  and end before the new buffer position, which is just behind a line feed. The method
  name consists of the admitted characters, and no control character, space or DEL is
  part of the URI.\<close>

theorem request_line_pointers:
  assumes "feed ngx_http_parse_request_line r b fs = (NGX_OK, r', b')"
    and "rl_fresh r" and "buf_pos b \<le> length (buf_data b)"
  defines "xs \<equiv> buf_data b @ concat fs"
  shows "\<exists>rs me us ue re.
    r_request_start r' = Some rs \<and> r_method_end r' = Some me \<and> r_uri_start r' = Some us
    \<and> r_uri_end r' = Some ue \<and> r_request_end r' = Some re
    \<and> rs \<le> me \<and> me < us \<and> us < ue \<and> ue \<le> re \<and> re < buf_pos b' \<and> buf_pos b' \<le> length xs
    \<and> xs ! (buf_pos b' - 1) = LF
    \<and> (\<forall>ch\<in>set (segment rs (me + 1) xs). is_method_char ch)
    \<and> (\<forall>ch\<in>set (segment us ue xs). uri_char ch)"
  using rl_parse_pointers [OF rl_feed_OK [OF assms(1,3)] assms(2)] by (fastforce simp: xs_def)

theorem request_line_pointers_witness:
  "\<exists>r' b' us ue. feed ngx_http_parse_request_line fresh_request
     \<lparr>buf_data = bytes ''GET /a HTTP/1.1'' @ [CR, LF], buf_pos = 0\<rparr> [] = (NGX_OK, r', b')
   \<and> r_uri_start r' = Some us \<and> r_uri_end r' = Some ue \<and> us < ue"
proof -
  obtain r' b' where f: "feed ngx_http_parse_request_line fresh_request
     \<lparr>buf_data = bytes ''GET /a HTTP/1.1'' @ [CR, LF], buf_pos = 0\<rparr> [] = (NGX_OK, r', b')"
    using canonical_GET by auto
  show ?thesis
    using request_line_pointers [OF f rl_fresh_request] f by auto
qed

text \<open>C18: The method of an accepted request line is the one whose name stands there, looked up
  in the table of known methods; a name that is not in the table leaves the method
  unknown. The length-indexed comparisons of the parser are that table lookup.\<close>

theorem request_line_method:
  assumes "feed ngx_http_parse_request_line r b fs = (NGX_OK, r', b')"
    and "rl_fresh r" and "buf_pos b \<le> length (buf_data b)"
  shows "\<exists>rs me. r_request_start r' = Some rs \<and> r_method_end r' = Some me \<and>
    r_method r' = method_named (segment rs (me + 1) (buf_data b @ concat fs))"
  using rl_parse_pointers [OF rl_feed_OK [OF assms(1,3)] assms(2)] by auto

theorem request_line_method_witness:
  "\<exists>r' b' rs me. feed ngx_http_parse_request_line fresh_request
     \<lparr>buf_data = bytes ''GET /a HTTP/1.1'' @ [CR, LF], buf_pos = 0\<rparr> [] = (NGX_OK, r', b')
   \<and> r_request_start r' = Some rs \<and> r_method_end r' = Some me \<and>
     r_method r' = method_named (segment rs (me + 1) (bytes ''GET /a HTTP/1.1'' @ [CR, LF]))"
proof -
  obtain r' b' where f: "feed ngx_http_parse_request_line fresh_request
     \<lparr>buf_data = bytes ''GET /a HTTP/1.1'' @ [CR, LF], buf_pos = 0\<rparr> [] = (NGX_OK, r', b')"
    using canonical_GET by auto
  show ?thesis
    using request_line_method [OF f rl_fresh_request] f by auto
qed

text \<open>An accepted request is either HTTP/0.9, and then its method is GET, or HTTP/1.x with at
  most three digits of minor version: the version arithmetic on 16-bit fields never wraps
  and no other major version gets through.\<close>

theorem request_line_version:
  assumes "feed ngx_http_parse_request_line r b fs = (NGX_OK, r', b')"
    and "rl_fresh r" and "buf_pos b \<le> length (buf_data b)"
  shows "r_http_version r' = 9 \<and> r_method r' = NGX_HTTP_GET \<or>
    1000 \<le> r_http_version r' \<and> r_http_version r' \<le> 1999"
  by (rule rl_parse_version [OF rl_feed_OK [OF assms(1,3)] assms(2)])

theorem request_line_version_witness:
  "\<exists>r' b'. feed ngx_http_parse_request_line fresh_request
     \<lparr>buf_data = bytes ''GET /a HTTP/1.1'' @ [CR, LF], buf_pos = 0\<rparr> [] = (NGX_OK, r', b')
   \<and> (r_http_version r' = 9 \<and> r_method r' = NGX_HTTP_GET \<or>
      1000 \<le> r_http_version r' \<and> r_http_version r' \<le> 1999)"
proof -
  obtain r' b' where f: "feed ngx_http_parse_request_line fresh_request
     \<lparr>buf_data = bytes ''GET /a HTTP/1.1'' @ [CR, LF], buf_pos = 0\<rparr> [] = (NGX_OK, r', b')"
    using canonical_GET by auto
  show ?thesis
    using request_line_version [OF f rl_fresh_request] f by auto
qed

text \<open>A well-formed HTTP/1.1 request line is accepted and taken apart exactly: for every
  non-empty method name and every path of usual characters, the parser finds the method,
  the URI, the protocol and the end of the line where they were put, sets the version to
  1.1, consumes the line and nothing behind it, and touches no other field.\<close>

theorem request_line_canonical:
  assumes "name \<noteq> []" and "\<forall>ch\<in>set name. is_method_char ch" and "\<forall>ch\<in>set path. is_usual ch"
    and "rl_fresh r"
    and "drop (buf_pos b) (buf_data b) = canonical_request name path @ rest"
  defines "e \<equiv> buf_pos b + length name" and "u \<equiv> buf_pos b + length name + 2 + length path"
  shows "ngx_http_parse_request_line r b =
    (NGX_OK,
     r\<lparr>r_request_start := Some (buf_pos b), r_method_end := Some (e - 1),
       r_method := method_named name, r_uri_start := Some (e + 1), r_uri_end := Some u,
       r_http_protocol_data := Some (u + 1), r_http_major := 1, r_http_minor := 1,
       r_request_end := Some (u + 9), r_http_version := 1001, r_state := 0\<rparr>,
     b\<lparr>buf_pos := u + 11\<rparr>)"
  unfolding e_def u_def by (rule rl_parse_canonical [OF assms(1-5)])

theorem request_line_canonical_witness:
  "ngx_http_parse_request_line fresh_request
     \<lparr>buf_data = bytes ''PUT /index HTTP/1.1'' @ [CR, LF] @ bytes ''Host'', buf_pos = 0\<rparr> =
    (NGX_OK,
     fresh_request\<lparr>r_request_start := Some 0, r_method_end := Some 2,
       r_method := NGX_HTTP_PUT, r_uri_start := Some 4, r_uri_end := Some 10,
       r_http_protocol_data := Some 11, r_http_major := 1, r_http_minor := 1,
       r_request_end := Some 19, r_http_version := 1001, r_state := 0\<rparr>,
     \<lparr>buf_data = bytes ''PUT /index HTTP/1.1'' @ [CR, LF] @ bytes ''Host'', buf_pos = 21\<rparr>)"
proof -
  have m: "method_named [0x50, 0x55, 0x54] = NGX_HTTP_PUT"
    by (simp add: method_named_def method_table_def)
  show ?thesis
    using request_line_canonical [of "bytes ''PUT''" "bytes ''index''" fresh_request
        "\<lparr>buf_data = bytes ''PUT /index HTTP/1.1'' @ [CR, LF] @ bytes ''Host'', buf_pos = 0\<rparr>"
        "bytes ''Host''"]
    by (simp add: rl_fresh_request canonical_request_def is_method_char_def is_usual_iff m)
qed

text \<open>The two builds of the parser agree: the comparisons by one or two 32-bit loads, used on
  little-endian machines with unaligned access, select the same method as the byte-wise
  comparisons, for every name that is followed by a space, which is when they are made.\<close>

theorem request_line_word_compare:
  assumes "xs ! p = ch_space" and "m \<le> p"
  shows "rl_lookup_method_le xs m (p - m) old = rl_lookup_method xs m (p - m) old"
  using assms by (simp add: rl_lookup_method_le_eq)

theorem request_line_word_compare_witness:
  "rl_lookup_method_le (bytes ''CONNECT a'') 0 7 NGX_HTTP_UNKNOWN = NGX_HTTP_CONNECT"
  using request_line_word_compare [of "bytes ''CONNECT a''" 7 0 NGX_HTTP_UNKNOWN]
  by (simp add: rl_lookup_method_def ngx_strcmp_defs)

end
