(* ===== verification/Http_Header_Line.thy ===== *)
theory Http_Header_Line
  imports Http_Types
begin

text \<open>
  \<open>ngx_http_parse_header_line\<close>: the state machine for \<open>name ":" SP* value SP* (CR* LF)\<close>
  and for the empty line that ends a header. While it reads the name it keeps a running
  hash and the last 32 bytes of the lower-case name, which the caller looks known headers
  up with. \<open>ngx_hash\<close> is a macro of another file and a parameter here.
\<close>

section \<open>Lower case of header name characters\<close>

definition lowcase :: "byte list" where
  "lowcase =
     replicate 32 0
     @ replicate 13 0 @ bytes ''-'' @ replicate 2 0 @ bytes ''0123456789'' @ replicate 6 0
     @ 0 # bytes ''abcdefghijklmnopqrstuvwxyz'' @ replicate 5 0
     @ 0 # bytes ''abcdefghijklmnopqrstuvwxyz'' @ replicate 5 0
     @ replicate 32 0 @ replicate 32 0 @ replicate 32 0 @ replicate 32 0"

section \<open>States and exits\<close>

datatype hl_state =
    hl_sw_start | hl_sw_name | hl_sw_space_before_value | hl_sw_value
  | hl_sw_space_after_value | hl_sw_ignore_line | hl_sw_almost_done
  | hl_sw_header_almost_done

definition hl_states :: "hl_state list" where
  "hl_states =
     [hl_sw_start, hl_sw_name, hl_sw_space_before_value, hl_sw_value,
      hl_sw_space_after_value, hl_sw_ignore_line, hl_sw_almost_done,
      hl_sw_header_almost_done]"

text \<open>\<open>goto done\<close>, \<open>goto header_done\<close>, or \<open>return\<close> of the one error code.\<close>

datatype hl_exit = hl_done | hl_header_done | hl_invalid

text \<open>The local variables \<open>state\<close>, \<open>hash\<close> and \<open>i\<close>, and the request.\<close>

record hl_config =
  hl_state :: hl_state
  hl_hash :: "64 word"
  hl_i :: nat
  hl_r :: ngx_http_request

type_synonym hl_result = "(hl_config, hl_exit) step"
type_synonym hash_fun = "64 word \<Rightarrow> byte \<Rightarrow> 64 word"

section \<open>One definition per \<open>case\<close>\<close>

text \<open>A character of the name that counts: into the hash and into the lower-case name.\<close>

definition hl_first_char :: "hash_fun \<Rightarrow> byte \<Rightarrow> hl_config \<Rightarrow> hl_config" where
  "hl_first_char ngx_hash c s =
     s\<lparr>hl_hash := ngx_hash 0 c, hl_i := 1,
       hl_r := (hl_r s)\<lparr>r_lowcase_header := (r_lowcase_header (hl_r s))[0 := c]\<rparr>\<rparr>"

text \<open>\<open>i &= (NGX_HTTP_LC_HEADER_LEN - 1)\<close> on a word that holds \<open>i + 1\<close>.\<close>

definition hl_next_char :: "hash_fun \<Rightarrow> byte \<Rightarrow> hl_config \<Rightarrow> hl_config" where
  "hl_next_char ngx_hash c s =
     s\<lparr>hl_hash := ngx_hash (hl_hash s) c,
       hl_i := (hl_i s + 1) AND (NGX_HTTP_LC_HEADER_LEN - 1),
       hl_r := (hl_r s)\<lparr>r_lowcase_header := (r_lowcase_header (hl_r s))[hl_i s := c]\<rparr>\<rparr>"

definition hl_start :: "hash_fun \<Rightarrow> bool \<Rightarrow> nat \<Rightarrow> byte \<Rightarrow> hl_config \<Rightarrow> hl_result" where
  "hl_start ngx_hash allow_underscores p ch s =
     (let r = (hl_r s)\<lparr>r_header_name_start := Some p, r_invalid_header := False\<rparr>;
          s = s\<lparr>hl_r := r\<rparr>
      in if ch = CR then
           Cont (s\<lparr>hl_state := hl_sw_header_almost_done, hl_r := r\<lparr>r_header_end := Some p\<rparr>\<rparr>)
         else if ch = LF then
           Exit hl_header_done (s\<lparr>hl_r := r\<lparr>r_header_end := Some p\<rparr>\<rparr>)
         else
           (let s = s\<lparr>hl_state := hl_sw_name\<rparr>; c = lowcase ! unat ch in
            if c \<noteq> 0 then Cont (hl_first_char ngx_hash c s)
            else if ch = ch_underscore then
              (if allow_underscores then Cont (hl_first_char ngx_hash ch s)
               else Cont (s\<lparr>hl_hash := 0, hl_i := 0, hl_r := r\<lparr>r_invalid_header := True\<rparr>\<rparr>))
            else if ch \<le> 0x20 \<or> ch = 0x7f \<or> ch = ch_colon then
              Exit hl_invalid (s\<lparr>hl_r := r\<lparr>r_header_end := Some p\<rparr>\<rparr>)
            else Cont (s\<lparr>hl_hash := 0, hl_i := 0, hl_r := r\<lparr>r_invalid_header := True\<rparr>\<rparr>)))"

text \<open>The test for a second status line that some upstream servers send.\<close>

definition hl_duplicate_status :: "byte list \<Rightarrow> nat \<Rightarrow> ngx_http_request \<Rightarrow> bool" where
  "hl_duplicate_status xs p r \<longleftrightarrow>
     r_upstream r \<and>
     (case r_header_name_start r of
        None \<Rightarrow> False
      | Some n \<Rightarrow> p = n + 4 \<and> segment n p xs = bytes ''HTTP'')"

definition hl_name :: "hash_fun \<Rightarrow> bool \<Rightarrow> byte list \<Rightarrow> nat \<Rightarrow> byte \<Rightarrow> hl_config \<Rightarrow> hl_result" where
  "hl_name ngx_hash allow_underscores xs p ch s =
     (let r = hl_r s; c = lowcase ! unat ch in
      if c \<noteq> 0 then Cont (hl_next_char ngx_hash c s)
      else if ch = ch_underscore then
        (if allow_underscores then Cont (hl_next_char ngx_hash ch s)
         else Cont (s\<lparr>hl_r := r\<lparr>r_invalid_header := True\<rparr>\<rparr>))
      else if ch = ch_colon then
        Cont (s\<lparr>hl_state := hl_sw_space_before_value, hl_r := r\<lparr>r_header_name_end := Some p\<rparr>\<rparr>)
      else if ch = CR then
        Cont (s\<lparr>hl_state := hl_sw_almost_done,
                hl_r := r\<lparr>r_header_name_end := Some p, r_header_start := Some p,
                          r_header_end := Some p\<rparr>\<rparr>)
      else if ch = LF then
        Exit hl_done (s\<lparr>hl_r := r\<lparr>r_header_name_end := Some p, r_header_start := Some p,
                                  r_header_end := Some p\<rparr>\<rparr>)
      else if ch = ch_slash \<and> hl_duplicate_status xs p r then
        Cont (s\<lparr>hl_state := hl_sw_ignore_line\<rparr>)
      else if ch \<le> 0x20 \<or> ch = 0x7f then
        Exit hl_invalid (s\<lparr>hl_r := r\<lparr>r_header_end := Some p\<rparr>\<rparr>)
      else Cont (s\<lparr>hl_r := r\<lparr>r_invalid_header := True\<rparr>\<rparr>))"

definition hl_space_before_value :: "nat \<Rightarrow> byte \<Rightarrow> hl_config \<Rightarrow> hl_result" where
  "hl_space_before_value p ch s =
     (let r = hl_r s in
      if ch = ch_space then Cont s
      else if ch = CR then
        Cont (s\<lparr>hl_state := hl_sw_almost_done,
                hl_r := r\<lparr>r_header_start := Some p, r_header_end := Some p\<rparr>\<rparr>)
      else if ch = LF then
        Exit hl_done (s\<lparr>hl_r := r\<lparr>r_header_start := Some p, r_header_end := Some p\<rparr>\<rparr>)
      else if ch = NUL then Exit hl_invalid (s\<lparr>hl_r := r\<lparr>r_header_end := Some p\<rparr>\<rparr>)
      else Cont (s\<lparr>hl_state := hl_sw_value, hl_r := r\<lparr>r_header_start := Some p\<rparr>\<rparr>))"

definition hl_value :: "nat \<Rightarrow> byte \<Rightarrow> hl_config \<Rightarrow> hl_result" where
  "hl_value p ch s =
     (let r = (hl_r s)\<lparr>r_header_end := Some p\<rparr> in
      if ch = ch_space then Cont (s\<lparr>hl_state := hl_sw_space_after_value, hl_r := r\<rparr>)
      else if ch = CR then Cont (s\<lparr>hl_state := hl_sw_almost_done, hl_r := r\<rparr>)
      else if ch = LF then Exit hl_done (s\<lparr>hl_r := r\<rparr>)
      else if ch = NUL then Exit hl_invalid (s\<lparr>hl_r := r\<rparr>)
      else Cont s)"

definition hl_space_after_value :: "nat \<Rightarrow> byte \<Rightarrow> hl_config \<Rightarrow> hl_result" where
  "hl_space_after_value p ch s =
     (if ch = ch_space then Cont s
      else if ch = CR then Cont (s\<lparr>hl_state := hl_sw_almost_done\<rparr>)
      else if ch = LF then Exit hl_done s
      else if ch = NUL then Exit hl_invalid (s\<lparr>hl_r := (hl_r s)\<lparr>r_header_end := Some p\<rparr>\<rparr>)
      else Cont (s\<lparr>hl_state := hl_sw_value\<rparr>))"

definition hl_ignore_line :: "byte \<Rightarrow> hl_config \<Rightarrow> hl_result" where
  "hl_ignore_line ch s = (if ch = LF then Cont (s\<lparr>hl_state := hl_sw_start\<rparr>) else Cont s)"

definition hl_almost_done :: "byte \<Rightarrow> hl_config \<Rightarrow> hl_result" where
  "hl_almost_done ch s =
     (if ch = LF then Exit hl_done s else if ch = CR then Cont s else Exit hl_invalid s)"

definition hl_header_almost_done :: "byte \<Rightarrow> hl_config \<Rightarrow> hl_result" where
  "hl_header_almost_done ch s = (if ch = LF then Exit hl_header_done s else Exit hl_invalid s)"

section \<open>The \<open>switch\<close>, the loop and the epilogues\<close>

definition hl_step :: "hash_fun \<Rightarrow> bool \<Rightarrow> byte list \<Rightarrow> nat \<Rightarrow> hl_config \<Rightarrow> hl_result" where
  "hl_step ngx_hash allow_underscores xs p s =
     (let ch = xs ! p in
      case hl_state s of
        hl_sw_start \<Rightarrow> hl_start ngx_hash allow_underscores p ch s
      | hl_sw_name \<Rightarrow> hl_name ngx_hash allow_underscores xs p ch s
      | hl_sw_space_before_value \<Rightarrow> hl_space_before_value p ch s
      | hl_sw_value \<Rightarrow> hl_value p ch s
      | hl_sw_space_after_value \<Rightarrow> hl_space_after_value p ch s
      | hl_sw_ignore_line \<Rightarrow> hl_ignore_line ch s
      | hl_sw_almost_done \<Rightarrow> hl_almost_done ch s
      | hl_sw_header_almost_done \<Rightarrow> hl_header_almost_done ch s)"

definition hl_enter :: "ngx_http_request \<Rightarrow> hl_config option" where
  "hl_enter r =
     map_option
       (\<lambda>st. \<lparr>hl_state = st, hl_hash = r_header_hash r, hl_i = r_lowcase_index r, hl_r = r\<rparr>)
       (enum_of hl_states (r_state r))"

definition hl_save :: "hl_config \<Rightarrow> ngx_http_request" where
  "hl_save s =
     (hl_r s)\<lparr>r_state := enum_code hl_states (hl_state s), r_header_hash := hl_hash s,
              r_lowcase_index := hl_i s\<rparr>"

text \<open>The code after the labels \<open>done\<close> and \<open>header_done\<close>, and \<open>return\<close> of an error.\<close>

definition hl_leave ::
  "nat \<Rightarrow> hl_exit \<Rightarrow> hl_config \<Rightarrow> ngx_buf \<Rightarrow> ngx_rc \<times> ngx_http_request \<times> ngx_buf"
where
  "hl_leave p e s b =
     (case e of
        hl_done \<Rightarrow>
          (NGX_OK, (hl_r s)\<lparr>r_state := enum_code hl_states hl_sw_start,
             r_header_hash := hl_hash s, r_lowcase_index := hl_i s\<rparr>, b\<lparr>buf_pos := p + 1\<rparr>)
      | hl_header_done \<Rightarrow>
          (NGX_HTTP_PARSE_HEADER_DONE,
           (hl_r s)\<lparr>r_state := enum_code hl_states hl_sw_start\<rparr>, b\<lparr>buf_pos := p + 1\<rparr>)
      | hl_invalid \<Rightarrow> (NGX_HTTP_PARSE_INVALID_HEADER, hl_r s, b))"

definition ngx_http_parse_header_line ::
  "hash_fun \<Rightarrow> ngx_http_request \<Rightarrow> ngx_buf \<Rightarrow> bool \<Rightarrow> ngx_rc \<times> ngx_http_request \<times> ngx_buf"
where
  "ngx_http_parse_header_line ngx_hash r b allow_underscores =
     (case hl_enter r of
        None \<Rightarrow> (NGX_AGAIN, r, b\<lparr>buf_pos := max (buf_pos b) (length (buf_data b))\<rparr>)
      | Some s \<Rightarrow>
          (case run (hl_step ngx_hash allow_underscores) (buf_data b) (buf_pos b) s of
             Suspend s' \<Rightarrow>
               (NGX_AGAIN, hl_save s', b\<lparr>buf_pos := max (buf_pos b) (length (buf_data b))\<rparr>)
           | Stop p e s' \<Rightarrow> hl_leave p e s' b))"

section \<open>The lower-case table\<close>

definition lowcase_int :: "int \<Rightarrow> int" where
  "lowcase_int n =
     (if n = 45 \<or> 48 \<le> n \<and> n < 58 \<or> 97 \<le> n \<and> n < 123 then n
      else if 65 \<le> n \<and> n < 91 then n + 32 else 0)"

lemma lowcase_table: "map uint lowcase = map lowcase_int [0..255]"
  by code_simp

lemma length_lowcase: "length lowcase = 256"
  using arg_cong [OF lowcase_table, of length] by simp

lemma uint_lowcase: "uint (lowcase ! unat ch) = lowcase_int (uint (ch :: byte))"
proof -
  have n: "unat ch < 256" using unsigned_less [of ch, where 'a = nat] by simp
  have "uint (lowcase ! unat ch) = map uint lowcase ! unat ch"
    using n length_lowcase by (intro nth_map [symmetric]) simp
  also have "\<dots> = lowcase_int (int (unat ch))"
    using n nth_upto [of 0 "unat ch" 255] by (simp add: lowcase_table del: int_nat_eq of_nat_unat)
  finally show ?thesis by simp
qed

lemma lowcase_0: "lowcase ! unat ch = 0" if "ch \<le> 0x20 \<or> ch \<in> {0x7f, ch_colon, ch_underscore, ch_slash}"
proof -
  from that have "lowcase_int (uint ch) = 0"
    by (auto simp: lowcase_int_def word_le_def)
  then show ?thesis by (simp add: uint_lowcase [symmetric] unsigned_eq_0_iff)
qed

section \<open>What the machine keeps of a header name\<close>

text \<open>The characters a name may hold, and those of them that go into the lower-case name.\<close>

definition name_char :: "byte \<Rightarrow> bool" where
  "name_char ch \<longleftrightarrow> \<not> (ch \<le> 0x20 \<or> ch = DEL \<or> ch = ch_colon)"

definition counted_char :: "bool \<Rightarrow> byte \<Rightarrow> bool" where
  "counted_char au ch \<longleftrightarrow> lowcase ! unat ch \<noteq> 0 \<or> ch = ch_underscore \<and> au"

definition lowcase_name :: "bool \<Rightarrow> byte list \<Rightarrow> byte list" where
  "lowcase_name au name =
     map (\<lambda>ch. if ch = ch_underscore then ch else lowcase ! unat ch) (filter (counted_char au) name)"

text \<open>\<open>buf\<close> holds the last 32 bytes of \<open>l\<close>, byte \<open>k\<close> of \<open>l\<close> at index \<open>k mod 32\<close>.\<close>

definition ring_holds :: "byte list \<Rightarrow> byte list \<Rightarrow> bool" where
  "ring_holds buf l \<longleftrightarrow>
     length buf = NGX_HTTP_LC_HEADER_LEN \<and>
     (\<forall>k<length l. length l \<le> k + NGX_HTTP_LC_HEADER_LEN \<longrightarrow>
        buf ! (k mod NGX_HTTP_LC_HEADER_LEN) = l ! k)"

lemma ring_holds_Nil [simp]: "ring_holds buf [] \<longleftrightarrow> length buf = NGX_HTTP_LC_HEADER_LEN"
  by (simp add: ring_holds_def)

lemma ring_holds_snoc:
  assumes "ring_holds buf l"
  shows "ring_holds (buf[length l mod NGX_HTTP_LC_HEADER_LEN := c]) (l @ [c])"
  unfolding ring_holds_def
proof (intro conjI allI impI)
  show "length (buf[length l mod NGX_HTTP_LC_HEADER_LEN := c]) = NGX_HTTP_LC_HEADER_LEN"
    using assms by (simp add: ring_holds_def)
next
  fix k
  assume k: "k < length (l @ [c])" and "length (l @ [c]) \<le> k + NGX_HTTP_LC_HEADER_LEN"
  then have "k < length l \<Longrightarrow> k mod NGX_HTTP_LC_HEADER_LEN \<noteq> length l mod NGX_HTTP_LC_HEADER_LEN"
    by (auto simp: mod_eq_dvd_iff_nat [of k "length l"] eq_commute [of "k mod _"] dest: dvd_imp_le)
  with k assms \<open>length (l @ [c]) \<le> k + NGX_HTTP_LC_HEADER_LEN\<close>
  show "buf[length l mod NGX_HTTP_LC_HEADER_LEN := c] ! (k mod NGX_HTTP_LC_HEADER_LEN) = (l @ [c]) ! k"
    by (cases "k < length l")
       (auto simp: ring_holds_def nth_append less_Suc_eq NGX_HTTP_LC_HEADER_LEN_def)
qed

lemma ring_holds_take: "ring_holds buf l \<Longrightarrow> length l \<le> NGX_HTTP_LC_HEADER_LEN \<Longrightarrow> take (length l) buf = l"
  by (rule nth_equalityI) (auto simp: ring_holds_def NGX_HTTP_LC_HEADER_LEN_def)

lemma and_LC_HEADER_LEN: "n AND (NGX_HTTP_LC_HEADER_LEN - 1) = n mod NGX_HTTP_LC_HEADER_LEN"
proof -
  have "n AND mask 5 = n mod 2 ^ 5" by (simp add: take_bit_eq_mask [symmetric] take_bit_eq_mod)
  then show ?thesis by (simp add: NGX_HTTP_LC_HEADER_LEN_def mask_eq_exp_minus_1)
qed

lemma lowcase_name_simps [simp]:
  "lowcase_name au [] = []"
  "lowcase_name au (xs @ ys) = lowcase_name au xs @ lowcase_name au ys"
  "lowcase ! unat ch \<noteq> 0 \<Longrightarrow> lowcase_name au [ch] = [lowcase ! unat ch]"
  "lowcase_name True [ch_underscore] = [ch_underscore]"
  "\<not> counted_char au ch \<Longrightarrow> lowcase_name au [ch] = []"
  using lowcase_0 [of ch_underscore] by (auto simp: lowcase_name_def counted_char_def)

text \<open>The name read so far, \<open>name\<close>, and what hash, index and lower-case buffer say of it.\<close>

definition hl_named :: "hash_fun \<Rightarrow> bool \<Rightarrow> byte list \<Rightarrow> hl_config \<Rightarrow> bool" where
  "hl_named ngx_hash au name s \<longleftrightarrow>
     hl_hash s = foldl ngx_hash 0 (lowcase_name au name)
     \<and> hl_i s = length (lowcase_name au name) mod NGX_HTTP_LC_HEADER_LEN
     \<and> ring_holds (r_lowcase_header (hl_r s)) (lowcase_name au name)
     \<and> (r_invalid_header (hl_r s) \<longleftrightarrow> (\<exists>ch\<in>set name. \<not> counted_char au ch))"

lemma hl_named_next:
  assumes "hl_named ngx_hash au name s"
  shows "lowcase ! unat ch \<noteq> 0 \<Longrightarrow>
      hl_named ngx_hash au (name @ [ch]) (hl_next_char ngx_hash (lowcase ! unat ch) s)"
    and "au \<Longrightarrow> hl_named ngx_hash au (name @ [ch_underscore]) (hl_next_char ngx_hash ch_underscore s)"
    and "\<not> counted_char au ch \<Longrightarrow>
      hl_named ngx_hash au (name @ [ch]) (s\<lparr>hl_r := (hl_r s)\<lparr>r_invalid_header := True\<rparr>\<rparr>)"
  using assms ring_holds_snoc [of "r_lowcase_header (hl_r s)" "lowcase_name au name"]
  by (auto simp: hl_named_def hl_next_char_def and_LC_HEADER_LEN [simplified] mod_Suc_eq
      counted_char_def)

lemma hl_named_first:
  assumes "length (r_lowcase_header (hl_r s)) = NGX_HTTP_LC_HEADER_LEN"
    and "\<not> r_invalid_header (hl_r s)"
  shows "lowcase ! unat ch \<noteq> 0 \<Longrightarrow> hl_named ngx_hash au [ch] (hl_first_char ngx_hash (lowcase ! unat ch) s)"
    and "au \<Longrightarrow> hl_named ngx_hash au [ch_underscore] (hl_first_char ngx_hash ch_underscore s)"
  using assms ring_holds_snoc [of "r_lowcase_header (hl_r s)" "[]"]
  by (auto simp: hl_named_def hl_first_char_def counted_char_def NGX_HTTP_LC_HEADER_LEN_def)

lemma hl_named_invalid:
  "\<not> counted_char au ch \<Longrightarrow> hl_hash s = 0 \<Longrightarrow> hl_i s = 0 \<Longrightarrow> r_invalid_header (hl_r s) \<Longrightarrow>
   length (r_lowcase_header (hl_r s)) = NGX_HTTP_LC_HEADER_LEN \<Longrightarrow> hl_named ngx_hash au [ch] s"
  by (simp add: hl_named_def)

lemma hl_named_frame [simp]:
  "hl_named ngx_hash au name (s\<lparr>hl_state := st, hl_r := r\<rparr>) = hl_named ngx_hash au name (s\<lparr>hl_r := r\<rparr>)"
  "hl_named ngx_hash au name (s\<lparr>hl_state := st\<rparr>) = hl_named ngx_hash au name s"
  "hl_named ngx_hash au name (s\<lparr>hl_r := r\<lparr>r_header_name_end := x\<rparr>\<rparr>) = hl_named ngx_hash au name (s\<lparr>hl_r := r\<rparr>)"
  "hl_named ngx_hash au name (s\<lparr>hl_r := r\<lparr>r_header_start := x\<rparr>\<rparr>) = hl_named ngx_hash au name (s\<lparr>hl_r := r\<rparr>)"
  "hl_named ngx_hash au name (s\<lparr>hl_r := r\<lparr>r_header_end := x\<rparr>\<rparr>) = hl_named ngx_hash au name (s\<lparr>hl_r := r\<rparr>)"
  "hl_named ngx_hash au name (s\<lparr>hl_r := hl_r s\<rparr>) = hl_named ngx_hash au name s"
  by (simp_all add: hl_named_def)

section \<open>The invariant of the machine\<close>

definition value_char :: "byte \<Rightarrow> bool" where
  "value_char ch \<longleftrightarrow> ch \<noteq> NUL \<and> ch \<noteq> CR \<and> ch \<noteq> LF"

text \<open>A value: no NUL, CR or LF in it, and no space at either end.\<close>

definition value_at :: "byte list \<Rightarrow> nat \<Rightarrow> nat \<Rightarrow> bool" where
  "value_at xs hs he \<longleftrightarrow>
     hs \<le> he \<and> all_in xs hs he value_char
     \<and> (hs < he \<longrightarrow> xs ! hs \<noteq> ch_space \<and> xs ! (he - 1) \<noteq> ch_space)"

text \<open>The name is complete: it ends at \<open>ne\<close>, in front of byte \<open>p\<close>.\<close>

definition hl_name_at :: "hash_fun \<Rightarrow> bool \<Rightarrow> byte list \<Rightarrow> nat \<Rightarrow> nat \<Rightarrow> hl_config \<Rightarrow> bool" where
  "hl_name_at ngx_hash au xs ns ne s \<longleftrightarrow>
     r_header_name_start (hl_r s) = Some ns \<and> ns < ne
     \<and> all_in xs ns ne name_char \<and> hl_named ngx_hash au (segment ns ne xs) s"

definition hl_colon_at :: "hash_fun \<Rightarrow> bool \<Rightarrow> byte list \<Rightarrow> nat \<Rightarrow> nat \<Rightarrow> hl_config \<Rightarrow> bool" where
  "hl_colon_at ngx_hash au xs ns p s \<longleftrightarrow>
     (\<exists>ne. r_header_name_end (hl_r s) = Some ne \<and> hl_name_at ngx_hash au xs ns ne s
        \<and> ne < p \<and> xs ! ne = ch_colon \<and> all_in xs (ne + 1) p (\<lambda>ch. ch = ch_space))"

definition hl_line_at :: "hash_fun \<Rightarrow> bool \<Rightarrow> byte list \<Rightarrow> nat \<Rightarrow> hl_config \<Rightarrow> bool" where
  "hl_line_at ngx_hash au xs p s \<longleftrightarrow>
     (\<exists>ns ne hs he. r_header_name_end (hl_r s) = Some ne \<and> r_header_start (hl_r s) = Some hs
        \<and> r_header_end (hl_r s) = Some he
        \<and> hl_name_at ngx_hash au xs ns ne s
        \<and> (ne = hs \<and> hs = he \<or> hl_colon_at ngx_hash au xs ns hs s \<and> value_at xs hs he)
        \<and> he \<le> p \<and> all_in xs he p (\<lambda>ch. ch = ch_space \<or> ch = CR))"

definition hl_inv :: "hash_fun \<Rightarrow> bool \<Rightarrow> byte list \<Rightarrow> nat \<Rightarrow> hl_config \<Rightarrow> bool" where
  "hl_inv ngx_hash au xs p s \<longleftrightarrow>
     length (r_lowcase_header (hl_r s)) = NGX_HTTP_LC_HEADER_LEN \<and>
     (case hl_state s of
        hl_sw_start \<Rightarrow> True
      | hl_sw_name \<Rightarrow> \<exists>ns. hl_name_at ngx_hash au xs ns p s
      | hl_sw_space_before_value \<Rightarrow> \<exists>ns. hl_colon_at ngx_hash au xs ns p s
      | hl_sw_value \<Rightarrow>
          \<exists>ns hs. hl_colon_at ngx_hash au xs ns hs s \<and> r_header_start (hl_r s) = Some hs
            \<and> hs < p \<and> value_at xs hs p
      | hl_sw_space_after_value \<Rightarrow>
          (\<exists>ns hs he. hl_colon_at ngx_hash au xs ns hs s \<and> r_header_start (hl_r s) = Some hs
            \<and> r_header_end (hl_r s) = Some he \<and> hs < he \<and> he < p \<and> value_at xs hs he
            \<and> all_in xs hs p value_char \<and> all_in xs he p (\<lambda>ch. ch = ch_space))
      | hl_sw_ignore_line \<Rightarrow> True
      | hl_sw_almost_done \<Rightarrow> hl_line_at ngx_hash au xs p s
      | hl_sw_header_almost_done \<Rightarrow> True)"

lemma hl_char_length [simp]:
  "length (r_lowcase_header (hl_r (hl_first_char ngx_hash c s))) = length (r_lowcase_header (hl_r s))"
  "length (r_lowcase_header (hl_r (hl_next_char ngx_hash c s))) = length (r_lowcase_header (hl_r s))"
  by (simp_all add: hl_first_char_def hl_next_char_def)

lemma hl_char_frame [simp]:
  "hl_state (hl_first_char ngx_hash c s) = hl_state s"
  "hl_state (hl_next_char ngx_hash c s) = hl_state s"
  "r_header_name_start (hl_r (hl_first_char ngx_hash c s)) = r_header_name_start (hl_r s)"
  "r_header_name_start (hl_r (hl_next_char ngx_hash c s)) = r_header_name_start (hl_r s)"
  by (simp_all add: hl_first_char_def hl_next_char_def)

lemma lowcase_name_char: "lowcase ! unat ch \<noteq> 0 \<Longrightarrow> name_char ch"
  using lowcase_0 [of ch] by (auto simp: name_char_def)

lemma hl_inv_start:
  assumes "hl_inv ngx_hash au xs p s" and "hl_state s = hl_sw_start" and "p < length xs"
    and "hl_step ngx_hash au xs p s = Cont s'"
  shows "hl_inv ngx_hash au xs (Suc p) s'"
proof -
  have "segment p (Suc p) xs = [xs ! p]" using assms(3) by (simp add: segment_Suc)
  then show ?thesis
    using assms lowcase_name_char [of "xs ! p"]
    by (auto simp: hl_step_def hl_start_def Let_def hl_inv_def hl_name_at_def name_char_def
        counted_char_def split: if_splits intro!: hl_named_first hl_named_invalid)
qed

lemma hl_inv_name:
  assumes "hl_inv ngx_hash au xs p s" and "hl_state s = hl_sw_name" and "p < length xs"
    and "hl_step ngx_hash au xs p s = Cont s'"
  shows "hl_inv ngx_hash au xs (Suc p) s'"
proof -
  from assms(1,2) obtain ns where name: "hl_name_at ngx_hash au xs ns p s"
    and len: "length (r_lowcase_header (hl_r s)) = NGX_HTTP_LC_HEADER_LEN"
    by (auto simp: hl_inv_def)
  then have seg: "segment ns (Suc p) xs = segment ns p xs @ [xs ! p]"
    using assms(3) by (simp add: segment_Suc hl_name_at_def)
  show ?thesis
    using assms(2-4) name len seg lowcase_name_char [of "xs ! p"]
    by (auto simp: hl_step_def hl_name_def Let_def hl_inv_def hl_name_at_def name_char_def
        hl_colon_at_def hl_line_at_def value_at_def
        counted_char_def split: if_splits intro!: hl_named_next)
qed

lemma hl_inv_value:
  assumes "hl_inv ngx_hash au xs p s" and "p < length xs"
    and "hl_state s \<in> {hl_sw_space_before_value, hl_sw_value, hl_sw_space_after_value}"
    and "hl_step ngx_hash au xs p s = Cont s'"
  shows "hl_inv ngx_hash au xs (Suc p) s'"
  using assms(3,1,4)
proof (elim insertE emptyE)
  assume "hl_state s = hl_sw_space_before_value"
  with assms show ?thesis
    by (auto simp: hl_step_def hl_space_before_value_def Let_def hl_inv_def hl_name_at_def
        hl_colon_at_def hl_line_at_def value_at_def value_char_def
        split: if_splits)
next
  assume "hl_state s = hl_sw_value"
  with assms show ?thesis
    by (auto simp: hl_step_def hl_value_def Let_def hl_inv_def hl_name_at_def
        hl_colon_at_def hl_line_at_def value_at_def value_char_def
        split: if_splits)
next
  assume "hl_state s = hl_sw_space_after_value"
  with assms show ?thesis
    by (auto simp: hl_step_def hl_space_after_value_def Let_def hl_inv_def hl_name_at_def
        hl_colon_at_def hl_line_at_def value_at_def value_char_def
        split: if_splits elim: all_in_mono)
qed

lemma hl_inv_step:
  assumes "hl_inv ngx_hash au xs p s" and "p < length xs"
    and "hl_step ngx_hash au xs p s = Cont s'"
  shows "hl_inv ngx_hash au xs (Suc p) s'"
proof (cases "hl_state s")
  case hl_sw_start
  with assms show ?thesis by (auto intro: hl_inv_start)
next
  case hl_sw_name
  with assms show ?thesis by (auto intro: hl_inv_name)
next
  case hl_sw_ignore_line
  with assms show ?thesis
    by (auto simp: hl_step_def Let_def hl_ignore_line_def hl_inv_def split: if_splits)
next
  case hl_sw_almost_done
  with assms show ?thesis
    by (auto simp: hl_step_def Let_def hl_almost_done_def hl_inv_def hl_line_at_def split: if_splits)
next
  case hl_sw_header_almost_done
  with assms show ?thesis
    by (auto simp: hl_step_def Let_def hl_header_almost_done_def split: if_splits)
qed (use assms hl_inv_value in blast)+

lemma hl_step_done:
  assumes "hl_inv ngx_hash au xs p s" and "hl_step ngx_hash au xs p s = Exit hl_done s'"
  shows "xs ! p = LF \<and> hl_line_at ngx_hash au xs p s'"
  using assms
  by (cases "hl_state s")
     (auto simp: hl_step_def hl_start_def hl_name_def hl_space_before_value_def hl_value_def
       hl_space_after_value_def hl_ignore_line_def hl_almost_done_def hl_header_almost_done_def
       hl_inv_def hl_line_at_def hl_name_at_def hl_colon_at_def value_at_def Let_def
       split: if_splits elim: all_in_mono)

section \<open>The contracts of the machine\<close>

lemma hl_step_append: "p < length xs \<Longrightarrow> hl_step ngx_hash au (xs @ ys) p s = hl_step ngx_hash au xs p s"
proof -
  assume p: "p < length xs"
  then have "hl_duplicate_status (xs @ ys) p = hl_duplicate_status xs p"
    by (intro ext) (simp add: hl_duplicate_status_def segment_append split: option.split)
  then show ?thesis
    using p by (cases "hl_state s") (simp_all add: hl_step_def hl_name_def Let_def nth_append)
qed

text \<open>
  The fields of the request that hold \<open>state\<close>, \<open>hash\<close> and \<open>i\<close> between two calls are
  neither read nor written by the loop body.
\<close>

definition hl_set_saved :: "hl_config \<Rightarrow> hl_config \<Rightarrow> hl_config" where
  "hl_set_saved t s =
     s\<lparr>hl_r := (hl_r s)\<lparr>r_state := enum_code hl_states (hl_state t), r_header_hash := hl_hash t,
                        r_lowcase_index := hl_i t\<rparr>\<rparr>"

lemma hl_set_saved_state [simp]: "hl_state (hl_set_saved t s) = hl_state s"
  by (simp add: hl_set_saved_def)

lemma hl_case_frame:
  "hl_start ngx_hash au p ch (hl_set_saved t s) = map_step (hl_set_saved t) id (hl_start ngx_hash au p ch s)"
  "hl_name ngx_hash au xs p ch (hl_set_saved t s) = map_step (hl_set_saved t) id (hl_name ngx_hash au xs p ch s)"
  "hl_space_before_value p ch (hl_set_saved t s) = map_step (hl_set_saved t) id (hl_space_before_value p ch s)"
  "hl_value p ch (hl_set_saved t s) = map_step (hl_set_saved t) id (hl_value p ch s)"
  "hl_space_after_value p ch (hl_set_saved t s) = map_step (hl_set_saved t) id (hl_space_after_value p ch s)"
  "hl_ignore_line ch (hl_set_saved t s) = map_step (hl_set_saved t) id (hl_ignore_line ch s)"
  "hl_almost_done ch (hl_set_saved t s) = map_step (hl_set_saved t) id (hl_almost_done ch s)"
  "hl_header_almost_done ch (hl_set_saved t s) = map_step (hl_set_saved t) id (hl_header_almost_done ch s)"
  subgoal by (simp add: hl_start_def hl_first_char_def Let_def hl_set_saved_def)
  subgoal by (simp add: hl_name_def hl_duplicate_status_def hl_next_char_def Let_def hl_set_saved_def)
  subgoal by (simp add: hl_space_before_value_def Let_def hl_set_saved_def)
  subgoal by (simp add: hl_value_def Let_def hl_set_saved_def)
  subgoal by (simp add: hl_space_after_value_def Let_def hl_set_saved_def)
  subgoal by (simp add: hl_ignore_line_def Let_def hl_set_saved_def)
  subgoal by (simp add: hl_almost_done_def Let_def hl_set_saved_def)
  subgoal by (simp add: hl_header_almost_done_def Let_def hl_set_saved_def)
  done

lemma hl_step_frame:
  "hl_step ngx_hash au xs p (hl_set_saved t s) = map_step (hl_set_saved t) id (hl_step ngx_hash au xs p s)"
  by (cases "hl_state s") (simp_all add: hl_step_def hl_case_frame)

lemma set_hl_states: "st \<in> set hl_states"
  by (cases st) (simp_all add: hl_states_def)

text \<open>
  What a caller can rely on. The index and the hash belong to a header name: they are
  stale after the empty line, and after an error, when state and position are stale too.
\<close>

definition hl_obs ::
  "ngx_rc \<times> ngx_http_request \<times> ngx_buf \<Rightarrow> ngx_rc \<times> ngx_http_request \<times> ngx_buf"
where
  "hl_obs a =
     (case a of (rc, r, b) \<Rightarrow>
        if rc \<in> {NGX_OK, NGX_AGAIN} then (rc, r, b)
        else if rc = NGX_HTTP_PARSE_HEADER_DONE
        then (rc, r\<lparr>r_header_hash := 0, r_lowcase_index := 0\<rparr>, b)
        else (rc, r\<lparr>r_state := 0, r_header_hash := 0, r_lowcase_index := 0\<rparr>, b\<lparr>buf_pos := 0\<rparr>))"

interpretation hl: suspendable_parser "hl_step ngx_hash au" hl_enter hl_save hl_leave
  hl_set_saved "\<lambda>r b. ngx_http_parse_header_line ngx_hash r b au" hl_obs
  for ngx_hash :: hash_fun and au :: bool
proof (unfold_locales, goal_cases)
  case (1 p xs ys s)
  then show ?case by (rule hl_step_append)
next
  case (2 r b)
  show ?case
    by (simp add: ngx_http_parse_header_line_def split: option.split outcome.split)
next
  case (3 s)
  show ?case
    by (simp add: hl_enter_def hl_save_def hl_set_saved_def enum_of_code set_hl_states)
next
  case (4 xs p t s)
  show ?case by (rule hl_step_frame)
next
  case (5 t s)
  show ?case by (simp add: hl_save_def hl_set_saved_def)
next
  case (6 xs q s e s' b)
  show ?case by (cases e) (simp_all add: hl_leave_def)
next
  case (7 xs q s e s' t b k)
  show ?case by (cases e) (simp_all add: hl_leave_def hl_obs_def hl_set_saved_def)
next
  case (8 q e s' b ys)
  show ?case by (cases e) (simp_all add: hl_leave_def)
next
  case (9 q e s' b rc c' b')
  then show ?case by (cases e) (auto simp: hl_leave_def)
qed

interpretation hl_line: byte_machine_inv "hl_step ngx_hash au" "hl_inv ngx_hash au"
  for ngx_hash :: hash_fun and au :: bool
  by unfold_locales (rule hl_inv_step)

section \<open>What a parsed header line guarantees\<close>

text \<open>The bytes \<open>name ":" SP* value (SP|CR)* LF\<close>, or \<open>name CR* LF\<close> without a colon, the line feed at \<open>q\<close>.\<close>

definition header_shape :: "byte list \<Rightarrow> nat \<Rightarrow> nat \<Rightarrow> nat \<Rightarrow> nat \<Rightarrow> nat \<Rightarrow> bool" where
  "header_shape xs ns ne hs he q \<longleftrightarrow>
     ns < ne \<and> ne \<le> hs \<and> hs \<le> he \<and> he \<le> q \<and> q < length xs \<and> xs ! q = LF
     \<and> (\<forall>ch\<in>set (segment ns ne xs). name_char ch)
     \<and> (\<forall>ch\<in>set (segment hs he xs). value_char ch)
     \<and> (hs < he \<longrightarrow> xs ! hs \<noteq> ch_space \<and> xs ! (he - 1) \<noteq> ch_space)
     \<and> (ne = hs \<and> hs = he \<or>
        xs ! ne = ch_colon \<and> ne < hs \<and> (\<forall>ch\<in>set (segment (ne + 1) hs xs). ch = ch_space))
     \<and> (\<forall>ch\<in>set (segment he q xs). ch = ch_space \<or> ch = CR)"

lemma hl_line_shape:
  assumes "hl_line_at ngx_hash au xs q s" and "q < length xs" and "xs ! q = LF"
  shows "\<exists>ns ne hs he. r_header_name_start (hl_r s) = Some ns \<and> r_header_name_end (hl_r s) = Some ne
    \<and> r_header_start (hl_r s) = Some hs \<and> r_header_end (hl_r s) = Some he
    \<and> header_shape xs ns ne hs he q \<and> hl_named ngx_hash au (segment ns ne xs) s"
proof -
  from assms(1) obtain ns ne hs he where
    ptr: "r_header_name_end (hl_r s) = Some ne" "r_header_start (hl_r s) = Some hs"
      "r_header_end (hl_r s) = Some he"
    and name: "hl_name_at ngx_hash au xs ns ne s"
    and val: "ne = hs \<and> hs = he \<or> hl_colon_at ngx_hash au xs ns hs s \<and> value_at xs hs he"
    and tail: "he \<le> q" "all_in xs he q (\<lambda>ch. ch = ch_space \<or> ch = CR)"
    unfolding hl_line_at_def by blast
  have le: "ne \<le> hs" "hs \<le> he" using val ptr by (auto simp: hl_colon_at_def value_at_def)
  have v: "all_in xs hs he value_char" using val by (auto simp: value_at_def)
  have "header_shape xs ns ne hs he q"
    using name val tail le v assms(2,3) ptr
    by (auto simp: header_shape_def hl_name_at_def hl_colon_at_def value_at_def
        simp flip: all_in_segment)
  then show ?thesis using ptr name by (auto simp: hl_name_at_def)
qed

lemma hl_parse_OK:
  assumes "ngx_http_parse_header_line ngx_hash r b au = (NGX_OK, r', b')"
    and "r_state r = 0" and "length (r_lowcase_header r) = NGX_HTTP_LC_HEADER_LEN"
  shows "\<exists>ns ne hs he. r_header_name_start r' = Some ns \<and> r_header_name_end r' = Some ne
    \<and> r_header_start r' = Some hs \<and> r_header_end r' = Some he
    \<and> header_shape (buf_data b) ns ne hs he (buf_pos b' - 1)
    \<and> (\<exists>s. hl_named ngx_hash au (segment ns ne (buf_data b)) s \<and> hl_hash s = r_header_hash r'
         \<and> hl_i s = r_lowcase_index r' \<and> r_lowcase_header (hl_r s) = r_lowcase_header r'
         \<and> r_invalid_header (hl_r s) = r_invalid_header r')"
proof -
  let ?s = "\<lparr>hl_state = hl_sw_start, hl_hash = r_header_hash r, hl_i = r_lowcase_index r, hl_r = r\<rparr>"
  have "hl_enter r = Some ?s"
    using assms(2) by (simp add: hl_enter_def enum_of_def hl_states_def)
  with assms(1) obtain q s' where
    run: "run (hl_step ngx_hash au) (buf_data b) (buf_pos b) ?s = Stop q hl_done s'"
    and r': "r' = (hl_r s')\<lparr>r_state := enum_code hl_states hl_sw_start,
             r_header_hash := hl_hash s', r_lowcase_index := hl_i s'\<rparr>"
    and b': "b' = b\<lparr>buf_pos := q + 1\<rparr>"
    by (auto simp: ngx_http_parse_header_line_def hl_leave_def
        split: outcome.splits hl_exit.splits)
  have "hl_inv ngx_hash au (buf_data b) (buf_pos b) ?s"
    using assms(3) by (simp add: hl_inv_def)
  from hl_line.run_Stop_inv [OF this run] obtain t where q: "q < length (buf_data b)"
    and "hl_inv ngx_hash au (buf_data b) q t" "hl_step ngx_hash au (buf_data b) q t = Exit hl_done s'"
    by blast
  from hl_line_shape [OF _ q] hl_step_done [OF this(2,3)] r' b' show ?thesis
    by fastforce
qed

lemma hl_feed_OK:
  assumes "feed (\<lambda>r b. ngx_http_parse_header_line ngx_hash r b au) r b fs = (NGX_OK, r', b')"
    and "buf_pos b \<le> length (buf_data b)"
  shows "ngx_http_parse_header_line ngx_hash r (b\<lparr>buf_data := buf_data b @ concat fs\<rparr>) au = (NGX_OK, r', b')"
proof -
  obtain rc2 r2 b2 where eq: "ngx_http_parse_header_line ngx_hash r
      (b\<lparr>buf_data := buf_data b @ concat fs\<rparr>) au = (rc2, r2, b2)"
    by (cases "ngx_http_parse_header_line ngx_hash r (b\<lparr>buf_data := buf_data b @ concat fs\<rparr>) au") auto
  have "hl_obs (NGX_OK, r', b') = hl_obs (rc2, r2, b2)"
    using hl.feed_whole [OF assms(2), of ngx_hash au r fs] unfolding assms(1) eq .
  then show ?thesis unfolding eq by (cases rc2) (simp_all add: hl_obs_def)
qed

section \<open>A canonical header line is parsed back\<close>

definition canonical_header :: "byte list \<Rightarrow> byte list \<Rightarrow> byte list" where
  "canonical_header name val = name @ [ch_colon, ch_space] @ val @ [CR, LF]"

text \<open>The request fields that reading a name leaves alone, seen from its first byte on.\<close>

definition hl_in_name :: "nat \<Rightarrow> ngx_http_request \<Rightarrow> hl_config \<Rightarrow> bool" where
  "hl_in_name ns r s \<longleftrightarrow>
     hl_state s = hl_sw_name \<and> r_header_name_start (hl_r s) = Some ns \<and> r_upstream (hl_r s) = r_upstream r"

lemma hl_step_name_char:
  assumes "hl_in_name ns r s" and "\<not> r_upstream r" and "name_char (xs ! p)"
  shows "\<exists>s'. hl_step ngx_hash au xs p s = Cont s' \<and> hl_in_name ns r s'"
  using assms
  by (auto simp: hl_step_def hl_in_name_def hl_name_def hl_next_char_def Let_def name_char_def
      hl_duplicate_status_def)

lemma hl_step_first_char:
  assumes "hl_state s = hl_sw_start" and "name_char (xs ! p)"
  shows "\<exists>s'. hl_step ngx_hash au xs p s = Cont s' \<and> hl_in_name p (hl_r s) s'"
proof -
  have "xs ! p \<noteq> CR" "xs ! p \<noteq> LF" using assms(2) by (auto simp: name_char_def)
  with assms show ?thesis
    by (auto simp: hl_step_def hl_start_def hl_in_name_def hl_first_char_def name_char_def Let_def)
qed

lemma hl_run_name:
  assumes "drop p xs = name @ rest" and "\<forall>ch\<in>set name. name_char ch"
    and "hl_in_name ns r s" and "\<not> r_upstream r"
  shows "\<exists>s'. run (hl_step ngx_hash au) xs p s = run (hl_step ngx_hash au) xs (p + length name) s'
    \<and> hl_in_name ns r s'"
  using assms
proof (induction name arbitrary: p s)
  case Nil
  then show ?case by auto
next
  case (Cons c name)
  then have d: "drop p xs = c # name @ rest" by simp
  from hl_step_name_char [of ns r s xs p ngx_hash au] Cons.prems drop_Cons_at [OF d]
  obtain s1 where "hl_step ngx_hash au xs p s = Cont s1" "hl_in_name ns r s1" by auto
  with drop_Cons_at [OF d] Cons.IH [of "Suc p" s1] Cons.prems show ?case
    by (auto simp: run_Cont)
qed

definition hl_in_value :: "nat \<Rightarrow> nat \<Rightarrow> nat \<Rightarrow> hl_config \<Rightarrow> bool" where
  "hl_in_value ns ne hs s \<longleftrightarrow>
     (hl_state s = hl_sw_value \<or> hl_state s = hl_sw_space_after_value)
     \<and> r_header_name_start (hl_r s) = Some ns \<and> r_header_name_end (hl_r s) = Some ne
     \<and> r_header_start (hl_r s) = Some hs"

lemma hl_step_value_char:
  assumes "hl_in_value ns ne hs s" and "value_char (xs ! p)"
  shows "\<exists>s'. hl_step ngx_hash au xs p s = Cont s' \<and> hl_in_value ns ne hs s'
    \<and> (hl_state s' = hl_sw_value \<longleftrightarrow> xs ! p \<noteq> ch_space)"
  using assms
  by (cases "xs ! p = ch_space")
     (auto simp: hl_step_def hl_in_value_def hl_value_def hl_space_after_value_def value_char_def Let_def)

lemma hl_run_value:
  assumes "drop p xs = val @ rest" and "\<forall>ch\<in>set val. value_char ch" and "hl_in_value ns ne hs s"
  shows "\<exists>s'. run (hl_step ngx_hash au) xs p s = run (hl_step ngx_hash au) xs (p + length val) s'
    \<and> hl_in_value ns ne hs s'
    \<and> (if val = [] then hl_state s' = hl_state s else hl_state s' = hl_sw_value \<longleftrightarrow> last val \<noteq> ch_space)"
  using assms
proof (induction val arbitrary: p s)
  case Nil
  then show ?case by auto
next
  case (Cons c val)
  then have d: "drop p xs = c # val @ rest" by simp
  note at = drop_Cons_at [OF d]
  from hl_step_value_char [of ns ne hs s xs p ngx_hash au] Cons.prems at obtain s1
    where s1: "hl_step ngx_hash au xs p s = Cont s1" "hl_in_value ns ne hs s1"
      "hl_state s1 = hl_sw_value \<longleftrightarrow> c \<noteq> ch_space" by auto
  from Cons.IH [OF at(3) _ s1(2)] Cons.prems(2) obtain s' where
    "run (hl_step ngx_hash au) xs (Suc p) s1 = run (hl_step ngx_hash au) xs (Suc p + length val) s'"
    "hl_in_value ns ne hs s'"
    "if val = [] then hl_state s' = hl_state s1 else hl_state s' = hl_sw_value \<longleftrightarrow> last val \<noteq> ch_space"
    by auto
  with s1 at show ?case by (intro exI [of _ s']) (auto simp: run_Cont split: if_splits)
qed

text \<open>The end of the line, from the CR behind an empty or a non-empty value.\<close>

lemma hl_run_line_end:
  assumes d: "drop p xs = CR # LF # rest"
    and s: "hl_state s = hl_sw_space_before_value \<or> hl_in_value ns ne hs s \<and> hl_state s = hl_sw_value"
  shows "\<exists>s'. run (hl_step ngx_hash au) xs p s = Stop (p + 1) hl_done s'
    \<and> hl_r s' = (if hl_state s = hl_sw_space_before_value then (hl_r s)\<lparr>r_header_start := Some p, r_header_end := Some p\<rparr>
        else (hl_r s)\<lparr>r_header_end := Some p\<rparr>)"
proof -
  note at = drop_Cons_at [OF d] drop_Cons_at [OF drop_Cons_at(3) [OF d]]
  let ?s = "s\<lparr>hl_state := hl_sw_almost_done, hl_r :=
      (if hl_state s = hl_sw_space_before_value then (hl_r s)\<lparr>r_header_start := Some p, r_header_end := Some p\<rparr>
       else (hl_r s)\<lparr>r_header_end := Some p\<rparr>)\<rparr>"
  have "hl_step ngx_hash au xs p s = Cont ?s"
    using s at by (auto simp: hl_step_def hl_space_before_value_def hl_value_def Let_def)
  moreover have "hl_step ngx_hash au xs (Suc p) ?s = Exit hl_done ?s"
    using at by (simp add: hl_step_def hl_almost_done_def)
  ultimately show ?thesis using at by (auto simp: run_Cont run_Exit)
qed

text \<open>From behind \<open>": "\<close> to the end of the line.\<close>

lemma hl_run_rest:
  assumes d: "drop p xs = val @ CR # LF # rest" and val: "\<forall>ch\<in>set val. value_char ch"
    and ends: "val \<noteq> [] \<longrightarrow> hd val \<noteq> ch_space \<and> last val \<noteq> ch_space"
    and s: "hl_state s = hl_sw_space_before_value" "r_header_name_start (hl_r s) = Some ns"
      "r_header_name_end (hl_r s) = Some ne"
  shows "\<exists>s'. run (hl_step ngx_hash au) xs p s = Stop (p + length val + 1) hl_done s'
    \<and> r_header_name_start (hl_r s') = Some ns \<and> r_header_name_end (hl_r s') = Some ne
    \<and> r_header_start (hl_r s') = Some p \<and> r_header_end (hl_r s') = Some (p + length val)"
proof (cases val)
  case Nil
  then show ?thesis
    using hl_run_line_end [of p xs rest s ns ne p ngx_hash au] d s by auto
next
  case (Cons c cs)
  then have d1: "drop p xs = c # cs @ CR # LF # rest" using d by simp
  note at = drop_Cons_at [OF d1]
  define s1 where "s1 = s\<lparr>hl_state := hl_sw_value, hl_r := (hl_r s)\<lparr>r_header_start := Some p\<rparr>\<rparr>"
  have step: "hl_step ngx_hash au xs p s = Cont s1"
    using s at Cons ends val by (simp add: hl_step_def hl_space_before_value_def s1_def Let_def value_char_def)
  have "hl_in_value ns ne p s1" using s by (simp add: hl_in_value_def s1_def)
  from hl_run_value [OF at(3) _ this, of ngx_hash au] val Cons obtain s2 where
    s2: "run (hl_step ngx_hash au) xs (Suc p) s1 = run (hl_step ngx_hash au) xs (Suc p + length cs) s2"
    "hl_in_value ns ne p s2"
    "if cs = [] then hl_state s2 = hl_state s1 else hl_state s2 = hl_sw_value \<longleftrightarrow> last cs \<noteq> ch_space"
    by auto
  have "hl_state s2 = hl_sw_value" using s2(3) ends Cons by (auto simp: s1_def split: if_splits)
  moreover have "drop (Suc p + length cs) xs = CR # LF # rest"
    by (rule drop_append_at [OF at(3)])
  ultimately show ?thesis
    using hl_run_line_end [of "Suc p + length cs" xs rest s2 ns ne p ngx_hash au] s2(1,2) step at Cons
    by (auto simp: run_Cont hl_in_value_def)
qed

lemma hl_parse_canonical:
  assumes name: "name \<noteq> []" "\<forall>ch\<in>set name. name_char ch"
    and val: "\<forall>ch\<in>set val. value_char ch"
    and ends: "val \<noteq> [] \<longrightarrow> hd val \<noteq> ch_space \<and> last val \<noteq> ch_space"
    and r: "r_state r = 0" "\<not> r_upstream r"
    and b: "drop (buf_pos b) (buf_data b) = canonical_header name val @ rest"
  defines "p \<equiv> buf_pos b" and "v \<equiv> buf_pos b + length name + 2"
  shows "\<exists>r'. ngx_http_parse_header_line ngx_hash r b au =
      (NGX_OK, r', b\<lparr>buf_pos := v + length val + 2\<rparr>)
    \<and> r_header_name_start r' = Some p \<and> r_header_name_end r' = Some (p + length name)
    \<and> r_header_start r' = Some v \<and> r_header_end r' = Some (v + length val)"
proof -
  let ?xs = "buf_data b" and ?run = "run (hl_step ngx_hash au) (buf_data b)"
  obtain c cs where cs: "name = c # cs" using name(1) by (cases name) auto
  define s0 where "s0 = \<lparr>hl_state = hl_sw_start, hl_hash = r_header_hash r, hl_i = r_lowcase_index r, hl_r = r\<rparr>"
  have enter: "hl_enter r = Some s0"
    using r by (simp add: hl_enter_def enum_of_def hl_states_def s0_def)
  have d0: "drop p ?xs = c # cs @ ch_colon # ch_space # val @ CR # LF # rest"
    using b cs by (simp add: canonical_header_def p_def)
  note at0 = drop_Cons_at [OF d0]
  have "name_char c" using name cs by simp
  then obtain s1 where s1: "hl_step ngx_hash au ?xs p s0 = Cont s1" "hl_in_name p r s1"
    using at0 hl_step_first_char [of s0 ?xs p ngx_hash au] by (auto simp: s0_def)
  from hl_run_name [OF at0(3) _ s1(2) r(2), of ngx_hash au] name(2) cs obtain s2 where
    s2: "?run (Suc p) s1 = ?run (Suc p + length cs) s2" "hl_in_name p r s2" by auto
  have d2: "drop (Suc p + length cs) ?xs = ch_colon # ch_space # val @ CR # LF # rest"
    by (rule drop_append_at [OF at0(3)])
  note at2 = drop_Cons_at [OF d2] drop_Cons_at [OF drop_Cons_at(3) [OF d2]]
  define s3 where "s3 = s2\<lparr>hl_state := hl_sw_space_before_value,
      hl_r := (hl_r s2)\<lparr>r_header_name_end := Some (Suc p + length cs)\<rparr>\<rparr>"
  have "hl_step ngx_hash au ?xs (Suc p + length cs) s2 = Cont s3"
    using at2 s2(2) lowcase_0 [of ch_colon]
    by (simp add: hl_step_def hl_name_def hl_in_name_def s3_def Let_def)
  moreover have "hl_step ngx_hash au ?xs (Suc (Suc p + length cs)) s3 = Cont s3"
    using at2 by (simp add: hl_step_def hl_space_before_value_def s3_def)
  ultimately have "?run p s0 = ?run (Suc (Suc (Suc p + length cs))) s3"
    using at0 at2 s1 s2 by (simp add: run_Cont)
  moreover have "Suc (Suc (Suc p + length cs)) = v" by (simp add: v_def p_def cs)
  ultimately have run: "?run p s0 = ?run v s3" and dv: "drop v ?xs = val @ CR # LF # rest"
    using at2 by simp_all
  from hl_run_rest [OF dv val ends, of s3 p "p + length name" ngx_hash au] s2(2) obtain s4 where
    "?run v s3 = Stop (v + length val + 1) hl_done s4"
    "r_header_name_start (hl_r s4) = Some p" "r_header_name_end (hl_r s4) = Some (p + length name)"
    "r_header_start (hl_r s4) = Some v" "r_header_end (hl_r s4) = Some (v + length val)"
    by (auto simp: s3_def hl_in_name_def cs)
  with run enter show ?thesis
    by (simp add: ngx_http_parse_header_line_def hl_leave_def p_def)
qed


section \<open>Properties\<close>

text \<open>C19: Header lines too may arrive in pieces: cutting the bytes anywhere and calling
  \<open>ngx_http_parse_header_line\<close> again with each piece gives the same return code, request
  and buffer position as one call, for every hash function and both settings of
  \<open>underscores_in_headers\<close>. Excepted are, after an error, the saved state, hash, index and
  position, and after the empty line the hash and index, which then belong to no name.\<close>

theorem header_line_resumable:
  "buf_pos b \<le> length (buf_data b) \<Longrightarrow>
   hl_obs (feed (\<lambda>r b. ngx_http_parse_header_line ngx_hash r b au) r b fs) =
   hl_obs (ngx_http_parse_header_line ngx_hash r (b\<lparr>buf_data := buf_data b @ concat fs\<rparr>) au)"
  by (rule hl.feed_whole)

lemma canonical_Host:
  "\<exists>r' b'. ngx_http_parse_header_line ngx_hash fresh_request
     \<lparr>buf_data = bytes ''Host: a b'' @ [CR, LF], buf_pos = 0\<rparr> au = (NGX_OK, r', b')
     \<and> r_header_name_start r' = Some 0 \<and> r_header_name_end r' = Some 4"
  using hl_parse_canonical [of "bytes ''Host''" "bytes ''a b''" fresh_request
      "\<lparr>buf_data = bytes ''Host: a b'' @ [CR, LF], buf_pos = 0\<rparr>" "[]" ngx_hash au]
  by (auto simp: fresh_request_def canonical_header_def name_char_def value_char_def)

theorem header_line_resumable_witness:
  "fst (feed (\<lambda>r b. ngx_http_parse_header_line (\<lambda>h c. 31 * h + ucast c) r b False) fresh_request
       \<lparr>buf_data = [], buf_pos = 0\<rparr> [bytes ''Ho'', bytes ''st: '', bytes ''a b'', [CR], [LF]]) = NGX_OK"
proof -
  let ?parse = "\<lambda>r b. ngx_http_parse_header_line (\<lambda>h c. 31 * h + ucast c) r b False"
  let ?fs = "[bytes ''Ho'', bytes ''st: '', bytes ''a b'', [CR], [LF]]"
  obtain r' b' where whole: "?parse fresh_request
     \<lparr>buf_data = bytes ''Host: a b'' @ [CR, LF], buf_pos = 0\<rparr> = (NGX_OK, r', b')"
    using canonical_Host by blast
  have "hl_obs (feed ?parse fresh_request \<lparr>buf_data = [], buf_pos = 0\<rparr> ?fs) = hl_obs (NGX_OK, r', b')"
    using header_line_resumable [of "\<lparr>buf_data = [], buf_pos = 0\<rparr>" "\<lambda>h c. 31 * h + ucast c" False
        fresh_request ?fs] whole
    by (simp del: feed.simps)
  then show ?thesis
    by (cases "feed ?parse fresh_request \<lparr>buf_data = [], buf_pos = 0\<rparr> ?fs")
       (auto simp: hl_obs_def simp del: feed.simps split: if_splits)
qed

text \<open>What an accepted header line is. The pointers are set and ordered inside the bytes
  received; the name is not empty and has no control character, space or colon in it; the
  value has no NUL, CR or LF in it and no space at either end; between them there is one
  colon and then spaces only (or neither colon nor value); behind the value there are
  only spaces and CRs up to the LF in front of the new buffer position.\<close>

theorem header_line_shape:
  assumes "feed (\<lambda>r b. ngx_http_parse_header_line ngx_hash r b au) r b fs = (NGX_OK, r', b')"
    and "buf_pos b \<le> length (buf_data b)" and "r_state r = 0"
    and "length (r_lowcase_header r) = NGX_HTTP_LC_HEADER_LEN"
  shows "\<exists>ns ne hs he. r_header_name_start r' = Some ns \<and> r_header_name_end r' = Some ne
    \<and> r_header_start r' = Some hs \<and> r_header_end r' = Some he
    \<and> header_shape (buf_data b @ concat fs) ns ne hs he (buf_pos b' - 1)"
  using hl_parse_OK [OF hl_feed_OK [OF assms(1,2)] assms(3,4)] by auto

theorem header_line_shape_witness:
  "\<exists>r' b' ns ne. feed (\<lambda>r b. ngx_http_parse_header_line (\<lambda>h c. 31 * h + ucast c) r b False) fresh_request
       \<lparr>buf_data = bytes ''Host: a b'' @ [CR, LF], buf_pos = 0\<rparr> [] = (NGX_OK, r', b')
   \<and> r_header_name_start r' = Some ns \<and> r_header_name_end r' = Some ne \<and> ns < ne"
proof -
  obtain r' b' where f: "feed (\<lambda>r b. ngx_http_parse_header_line (\<lambda>h c. 31 * h + ucast c) r b False)
     fresh_request \<lparr>buf_data = bytes ''Host: a b'' @ [CR, LF], buf_pos = 0\<rparr> [] = (NGX_OK, r', b')"
    and n: "r_header_name_start r' = Some 0" "r_header_name_end r' = Some 4"
    using canonical_Host unfolding feed.simps by blast
  show ?thesis
    using header_line_shape [OF f] f by (auto simp: fresh_request_def header_shape_def)
qed

text \<open>C20: The lookup key of an accepted header is a function of its name alone: the hash is
  \<open>ngx_hash\<close> folded over the lower-case name, where characters other than letters, digits,
  \<open>-\<close> and (if allowed) \<open>_\<close> are left out; \<open>lowcase_index\<close> is its length modulo 32; the
  buffer holds it whole when it has at most 32 bytes; and the header is marked invalid
  exactly when some character was left out.\<close>

theorem header_line_lookup_key:
  assumes "feed (\<lambda>r b. ngx_http_parse_header_line ngx_hash r b au) r b fs = (NGX_OK, r', b')"
    and "buf_pos b \<le> length (buf_data b)" and "r_state r = 0"
    and "length (r_lowcase_header r) = NGX_HTTP_LC_HEADER_LEN"
  shows "\<exists>ns ne. r_header_name_start r' = Some ns \<and> r_header_name_end r' = Some ne
    \<and> (let name = segment ns ne (buf_data b @ concat fs); lc = lowcase_name au name in
       r_header_hash r' = foldl ngx_hash 0 lc
       \<and> r_lowcase_index r' = length lc mod NGX_HTTP_LC_HEADER_LEN
       \<and> (length lc \<le> NGX_HTTP_LC_HEADER_LEN \<longrightarrow> take (length lc) (r_lowcase_header r') = lc)
       \<and> (r_invalid_header r' \<longleftrightarrow> (\<exists>ch\<in>set name. \<not> counted_char au ch)))"
  using hl_parse_OK [OF hl_feed_OK [OF assms(1,2)] assms(3,4)]
  by (auto simp: hl_named_def Let_def intro: ring_holds_take)

theorem header_line_lookup_key_witness:
  "\<exists>r' b'. feed (\<lambda>r b. ngx_http_parse_header_line (\<lambda>h c. 31 * h + ucast c) r b False) fresh_request
       \<lparr>buf_data = bytes ''Host: a b'' @ [CR, LF], buf_pos = 0\<rparr> [] = (NGX_OK, r', b')
   \<and> r_header_hash r' = foldl (\<lambda>h c. 31 * h + ucast c) 0 (bytes ''host'')
   \<and> take (length (bytes ''host'')) (r_lowcase_header r') = bytes ''host'' \<and> \<not> r_invalid_header r'"
proof -
  obtain r' b' where f: "feed (\<lambda>r b. ngx_http_parse_header_line (\<lambda>h c. 31 * h + ucast c) r b False)
     fresh_request \<lparr>buf_data = bytes ''Host: a b'' @ [CR, LF], buf_pos = 0\<rparr> [] = (NGX_OK, r', b')"
    and n: "r_header_name_start r' = Some 0" "r_header_name_end r' = Some 4"
    using canonical_Host unfolding feed.simps by blast
  have seg: "segment 0 4 (bytes ''Host: a b'' @ [CR, LF]) = bytes ''Host''"
    by (simp add: segment_def)
  have lc: "lowcase_name False (bytes ''Host'') = bytes ''host''"
    and all: "\<forall>ch\<in>set (bytes ''Host''). counted_char False ch"
    by code_simp+
  show ?thesis
    using header_line_lookup_key [OF f] f lc all
    by (simp add: n seg Let_def del: bytes_simps)
       (simp add: fresh_request_def NGX_HTTP_LC_HEADER_LEN_def)
qed

text \<open>A header line \<open>name: value CR LF\<close> is accepted and taken apart exactly where name and
  value were put, for every non-empty name without controls, spaces and colons and every
  value without NUL, CR and LF and without spaces at its ends.\<close>

theorem header_line_canonical:
  assumes "name \<noteq> []" and "\<forall>ch\<in>set name. name_char ch" and "\<forall>ch\<in>set val. value_char ch"
    and "val \<noteq> [] \<longrightarrow> hd val \<noteq> ch_space \<and> last val \<noteq> ch_space"
    and "r_state r = 0" and "\<not> r_upstream r"
    and "drop (buf_pos b) (buf_data b) = canonical_header name val @ rest"
  defines "p \<equiv> buf_pos b" and "v \<equiv> buf_pos b + length name + 2"
  shows "\<exists>r'. ngx_http_parse_header_line ngx_hash r b au =
      (NGX_OK, r', b\<lparr>buf_pos := v + length val + 2\<rparr>)
    \<and> r_header_name_start r' = Some p \<and> r_header_name_end r' = Some (p + length name)
    \<and> r_header_start r' = Some v \<and> r_header_end r' = Some (v + length val)"
  unfolding p_def v_def by (rule hl_parse_canonical [OF assms(1-7)])

theorem header_line_canonical_witness:
  "\<exists>r'. ngx_http_parse_header_line (\<lambda>h c. 31 * h + ucast c) fresh_request
      \<lparr>buf_data = bytes ''Via: x y'' @ [CR, LF, CR, LF], buf_pos = 0\<rparr> False =
      (NGX_OK, r', \<lparr>buf_data = bytes ''Via: x y'' @ [CR, LF, CR, LF], buf_pos = 10\<rparr>)
    \<and> r_header_start r' = Some 5"
  using header_line_canonical [of "bytes ''Via''" "bytes ''x y''" fresh_request
      "\<lparr>buf_data = bytes ''Via: x y'' @ [CR, LF, CR, LF], buf_pos = 0\<rparr>" "[CR, LF]"
      "\<lambda>h c. 31 * h + ucast c" False]
  by (auto simp: fresh_request_def canonical_header_def name_char_def value_char_def)

end
