(* ===== verification/Http_Uri.thy ===== *)
theory Http_Uri
  imports Http_Types
begin

text \<open>
  Request URIs: \<open>ngx_http_parse_uri\<close>, the scan that decides whether a URI needs
  rewriting, \<open>ngx_http_parse_complex_uri\<close>, which decodes \<open>%xx\<close> and resolves \<open>.\<close>,
  \<open>..\<close> and \<open>//\<close> while it copies, and \<open>ngx_http_process_request_uri\<close>, which chooses
  between the copy and the URI as it stands in the buffer.
\<close>

section \<open>\<open>ngx_http_parse_uri\<close>\<close>

datatype pu_state = pu_sw_start | pu_sw_after_slash_in_uri | pu_sw_check_uri | pu_sw_uri

type_synonym pu_config = "pu_state \<times> ngx_http_request"
type_synonym pu_result = "(pu_config, ngx_rc) step"

definition pu_start :: "byte \<Rightarrow> ngx_http_request \<Rightarrow> pu_result" where
  "pu_start ch r =
     (if ch \<noteq> ch_slash then Exit NGX_ERROR (pu_sw_start, r)
      else Cont (pu_sw_after_slash_in_uri, r))"

definition pu_after_slash_in_uri :: "nat \<Rightarrow> byte \<Rightarrow> ngx_http_request \<Rightarrow> pu_result" where
  "pu_after_slash_in_uri p ch r =
     (if is_usual ch then Cont (pu_sw_check_uri, r)
      else if ch = ch_dot then Cont (pu_sw_uri, r\<lparr>r_complex_uri := True\<rparr>)
      else if ch = ch_percent then Cont (pu_sw_uri, r\<lparr>r_quoted_uri := True\<rparr>)
      else if ch = ch_slash then Cont (pu_sw_uri, r\<lparr>r_complex_uri := True\<rparr>)
      else if ch = ch_question then Cont (pu_sw_uri, r\<lparr>r_args_start := Some (p + 1)\<rparr>)
      else if ch = ch_hash then Cont (pu_sw_uri, r\<lparr>r_complex_uri := True\<rparr>)
      else if ch = ch_plus then Cont (pu_sw_after_slash_in_uri, r\<lparr>r_plus_in_uri := True\<rparr>)
      else if ch \<le> 0x20 \<or> ch = 0x7f then Exit NGX_ERROR (pu_sw_after_slash_in_uri, r)
      else Cont (pu_sw_check_uri, r))"

definition pu_check_uri :: "nat \<Rightarrow> byte \<Rightarrow> ngx_http_request \<Rightarrow> pu_result" where
  "pu_check_uri p ch r =
     (if is_usual ch then Cont (pu_sw_check_uri, r)
      else if ch = ch_slash then Cont (pu_sw_after_slash_in_uri, r\<lparr>r_uri_ext := None\<rparr>)
      else if ch = ch_dot then Cont (pu_sw_check_uri, r\<lparr>r_uri_ext := Some (p + 1)\<rparr>)
      else if ch = ch_percent then Cont (pu_sw_uri, r\<lparr>r_quoted_uri := True\<rparr>)
      else if ch = ch_question then Cont (pu_sw_uri, r\<lparr>r_args_start := Some (p + 1)\<rparr>)
      else if ch = ch_hash then Cont (pu_sw_uri, r\<lparr>r_complex_uri := True\<rparr>)
      else if ch = ch_plus then Cont (pu_sw_check_uri, r\<lparr>r_plus_in_uri := True\<rparr>)
      else if ch \<le> 0x20 \<or> ch = 0x7f then Exit NGX_ERROR (pu_sw_check_uri, r)
      else Cont (pu_sw_check_uri, r))"

definition pu_uri :: "byte \<Rightarrow> ngx_http_request \<Rightarrow> pu_result" where
  "pu_uri ch r =
     (if is_usual ch then Cont (pu_sw_uri, r)
      else if ch = ch_hash then Cont (pu_sw_uri, r\<lparr>r_complex_uri := True\<rparr>)
      else if ch \<le> 0x20 \<or> ch = 0x7f then Exit NGX_ERROR (pu_sw_uri, r)
      else Cont (pu_sw_uri, r))"

definition pu_step :: "byte list \<Rightarrow> nat \<Rightarrow> pu_config \<Rightarrow> pu_result" where
  "pu_step xs p c =
     (case c of (st, r) \<Rightarrow>
        let ch = xs ! p in
        case st of
          pu_sw_start \<Rightarrow> pu_start ch r
        | pu_sw_after_slash_in_uri \<Rightarrow> pu_after_slash_in_uri p ch r
        | pu_sw_check_uri \<Rightarrow> pu_check_uri p ch r
        | pu_sw_uri \<Rightarrow> pu_uri ch r)"

text \<open>The loop runs from \<open>r->uri_start\<close> to \<open>r->uri_end\<close>, here \<open>us\<close> and \<open>ue\<close>.\<close>

definition ngx_http_parse_uri ::
  "byte list \<Rightarrow> nat \<Rightarrow> nat \<Rightarrow> ngx_http_request \<Rightarrow> ngx_rc \<times> ngx_http_request"
where
  "ngx_http_parse_uri xs us ue r =
     (case run pu_step (take ue xs) us (pu_sw_start, r) of
        Suspend (st, r') \<Rightarrow> (NGX_OK, r')
      | Stop p rc (st, r') \<Rightarrow> (rc, r'))"

section \<open>\<open>ngx_http_parse_complex_uri\<close>\<close>

datatype cu_state =
  cu_sw_usual | cu_sw_slash | cu_sw_dot | cu_sw_dot_dot | cu_sw_quoted | cu_sw_quoted_second

text \<open>
  The local variables. \<open>cu_u\<close> are the bytes from \<open>r->uri.data\<close> to \<open>u\<close>, so that
  \<open>*u++ = ch\<close> appends and \<open>u--\<close> drops the last byte; \<open>r_uri_ext\<close> is an offset into them.
\<close>

record cu_config =
  cu_state :: cu_state
  cu_quoted_state :: cu_state
  cu_decoded :: byte
  cu_ch :: byte
  cu_p :: nat
  cu_u :: "byte list"
  cu_r :: ngx_http_request

text \<open>\<open>goto args\<close>, \<open>goto done\<close>, the end of the loop, and the one error code.\<close>

datatype cu_exit = cu_args | cu_done | cu_end | cu_invalid

type_synonym cu_result = "(cu_config, cu_exit) step"

text \<open>\<open>ch = *p++\<close> and \<open>*u++ = ch\<close>\<close>

definition cu_next :: "byte list \<Rightarrow> cu_config \<Rightarrow> cu_config" where
  "cu_next xs s = s\<lparr>cu_ch := xs ! cu_p s, cu_p := cu_p s + 1\<rparr>"

definition cu_put :: "byte \<Rightarrow> cu_config \<Rightarrow> cu_config" where
  "cu_put ch s = s\<lparr>cu_u := cu_u s @ [ch]\<rparr>"

definition cu_goto :: "cu_state \<Rightarrow> cu_config \<Rightarrow> cu_config" where
  "cu_goto st s = s\<lparr>cu_state := st\<rparr>"

definition cu_quote :: "cu_config \<Rightarrow> cu_config" where
  "cu_quote s = s\<lparr>cu_quoted_state := cu_state s, cu_state := cu_sw_quoted\<rparr>"

definition cu_to_args :: "cu_config \<Rightarrow> cu_config" where
  "cu_to_args s = s\<lparr>cu_r := (cu_r s)\<lparr>r_args_start := Some (cu_p s)\<rparr>\<rparr>"

definition cu_plus :: "cu_config \<Rightarrow> cu_config" where
  "cu_plus s =
     (if cu_ch s = ch_plus then s\<lparr>cu_r := (cu_r s)\<lparr>r_plus_in_uri := True\<rparr>\<rparr> else s)"

text \<open>
  \<open>u -= 4; for ( ;; ) ...\<close>: back to behind the last slash among the first \<open>k\<close> bytes.
\<close>

fun cu_rewind :: "byte list \<Rightarrow> nat \<Rightarrow> byte list option" where
  "cu_rewind u 0 = None"
| "cu_rewind u (Suc k) = (if u ! k = ch_slash then Some (take (Suc k) u) else cu_rewind u k)"

definition cu_back :: "byte list \<Rightarrow> byte list option" where
  "cu_back u = cu_rewind u (length u - 3)"

definition cu_usual :: "byte list \<Rightarrow> cu_config \<Rightarrow> cu_result" where
  "cu_usual xs s =
     (let ch = cu_ch s in
      if is_usual ch then Cont (cu_next xs (cu_put ch s))
      else if ch = ch_slash then
        Cont (cu_next xs (cu_put ch (cu_goto cu_sw_slash
          (s\<lparr>cu_r := (cu_r s)\<lparr>r_uri_ext := None\<rparr>\<rparr>))))
      else if ch = ch_percent then Cont (cu_next xs (cu_quote s))
      else if ch = ch_question then Exit cu_args (cu_to_args s)
      else if ch = ch_hash then Exit cu_done s
      else if ch = ch_dot then
        Cont (cu_next xs (cu_put ch
          (s\<lparr>cu_r := (cu_r s)\<lparr>r_uri_ext := Some (length (cu_u s) + 1)\<rparr>\<rparr>)))
      else Cont (cu_next xs (cu_put ch (cu_plus s))))"

definition cu_slash :: "bool \<Rightarrow> byte list \<Rightarrow> cu_config \<Rightarrow> cu_result" where
  "cu_slash merge_slashes xs s =
     (let ch = cu_ch s in
      if is_usual ch then Cont (cu_next xs (cu_put ch (cu_goto cu_sw_usual s)))
      else if ch = ch_slash then Cont (cu_next xs (if merge_slashes then s else cu_put ch s))
      else if ch = ch_dot then Cont (cu_next xs (cu_put ch (cu_goto cu_sw_dot s)))
      else if ch = ch_percent then Cont (cu_next xs (cu_quote s))
      else if ch = ch_question then Exit cu_args (cu_to_args s)
      else if ch = ch_hash then Exit cu_done s
      else Cont (cu_next xs (cu_put ch (cu_goto cu_sw_usual (cu_plus s)))))"

definition cu_dot :: "byte list \<Rightarrow> cu_config \<Rightarrow> cu_result" where
  "cu_dot xs s =
     (let ch = cu_ch s in
      if is_usual ch then Cont (cu_next xs (cu_put ch (cu_goto cu_sw_usual s)))
      else if ch = ch_slash then
        Cont (cu_next xs (cu_goto cu_sw_slash (s\<lparr>cu_u := butlast (cu_u s)\<rparr>)))
      else if ch = ch_dot then Cont (cu_next xs (cu_put ch (cu_goto cu_sw_dot_dot s)))
      else if ch = ch_percent then Cont (cu_next xs (cu_quote s))
      else if ch = ch_question then
        Exit cu_args (cu_to_args (s\<lparr>cu_u := butlast (cu_u s)\<rparr>))
      else if ch = ch_hash then Exit cu_done (s\<lparr>cu_u := butlast (cu_u s)\<rparr>)
      else Cont (cu_next xs (cu_put ch (cu_goto cu_sw_usual (cu_plus s)))))"

definition cu_dot_dot :: "byte list \<Rightarrow> cu_config \<Rightarrow> cu_result" where
  "cu_dot_dot xs s =
     (let ch = cu_ch s in
      if is_usual ch then Cont (cu_next xs (cu_put ch (cu_goto cu_sw_usual s)))
      else if ch = ch_slash \<or> ch = ch_question \<or> ch = ch_hash then
        (case cu_back (cu_u s) of
           None \<Rightarrow> Exit cu_invalid s
         | Some u \<Rightarrow>
             (let s = s\<lparr>cu_u := u\<rparr> in
              if ch = ch_question then Exit cu_args (cu_to_args s)
              else if ch = ch_hash then Exit cu_done s
              else Cont (cu_next xs (cu_goto cu_sw_slash s))))
      else if ch = ch_percent then Cont (cu_next xs (cu_quote s))
      else Cont (cu_next xs (cu_put ch (cu_goto cu_sw_usual (cu_plus s)))))"

definition cu_quoted :: "byte list \<Rightarrow> cu_config \<Rightarrow> cu_result" where
  "cu_quoted xs s =
     (let ch = cu_ch s; s = s\<lparr>cu_r := (cu_r s)\<lparr>r_quoted_uri := True\<rparr>\<rparr> in
      if is_digit ch then
        Cont (cu_next xs (cu_goto cu_sw_quoted_second (s\<lparr>cu_decoded := ch - ch_0\<rparr>)))
      else if is_hex_alpha ch then
        Cont (cu_next xs (cu_goto cu_sw_quoted_second (s\<lparr>cu_decoded := lower ch - ch_a + 10\<rparr>)))
      else Exit cu_invalid s)"

text \<open>Behind the second digit the decoded byte goes through the state before the \<open>%\<close>.\<close>

definition cu_quoted_second :: "byte list \<Rightarrow> cu_config \<Rightarrow> cu_result" where
  "cu_quoted_second xs s =
     (let ch = cu_ch s in
      if is_digit ch then
        (let ch = push_bit 4 (cu_decoded s) + (ch - ch_0) in
         if ch = ch_percent \<or> ch = ch_hash then
           Cont (cu_next xs (cu_put ch (cu_goto cu_sw_usual s)))
         else if ch = NUL then Exit cu_invalid s
         else Cont (cu_goto (cu_quoted_state s) (s\<lparr>cu_ch := ch\<rparr>)))
      else if is_hex_alpha ch then
        (let ch = push_bit 4 (cu_decoded s) + (lower ch - ch_a) + 10 in
         if ch = ch_question then
           Cont (cu_next xs (cu_put ch (cu_goto cu_sw_usual s)))
         else Cont (cu_goto (cu_quoted_state s) (cu_plus (s\<lparr>cu_ch := ch\<rparr>))))
      else Exit cu_invalid s)"

definition cu_step :: "bool \<Rightarrow> byte list \<Rightarrow> cu_config \<Rightarrow> cu_result" where
  "cu_step merge_slashes xs s =
     (case cu_state s of
        cu_sw_usual \<Rightarrow> cu_usual xs s
      | cu_sw_slash \<Rightarrow> cu_slash merge_slashes xs s
      | cu_sw_dot \<Rightarrow> cu_dot xs s
      | cu_sw_dot_dot \<Rightarrow> cu_dot_dot xs s
      | cu_sw_quoted \<Rightarrow> cu_quoted xs s
      | cu_sw_quoted_second \<Rightarrow> cu_quoted_second xs s)"

text \<open>
  \<open>while (p <= r->uri_end)\<close>. Not every turn advances \<open>p\<close>, so that the loop is a partial
  function: \<open>None\<close> means that it never ends.
\<close>

partial_function (option) cu_loop ::
  "bool \<Rightarrow> byte list \<Rightarrow> nat \<Rightarrow> cu_config \<Rightarrow> (cu_exit \<times> cu_config) option"
where
  [code]: "cu_loop merge_slashes xs ue s =
     (if cu_p s \<le> ue
      then (case cu_step merge_slashes xs s of
              Cont s' \<Rightarrow> cu_loop merge_slashes xs ue s'
            | Exit e s' \<Rightarrow> Some (e, s'))
      else Some (cu_end, s))"

text \<open>
  \<open>state = sw_usual; ... ch = *p++;\<close> and the slash that stands for an empty path.
\<close>

definition cu_init :: "byte list \<Rightarrow> nat \<Rightarrow> ngx_http_request \<Rightarrow> cu_config" where
  "cu_init xs us r =
     cu_next xs
       \<lparr> cu_state = cu_sw_usual, cu_quoted_state = cu_sw_usual, cu_decoded = 0, cu_ch = 0,
         cu_p = us, cu_u = (if r_empty_path_in_uri r then [ch_slash] else []),
         cu_r = r\<lparr>r_uri_ext := None, r_args_start := None\<rparr> \<rparr>"

text \<open>The code between the loop and the label \<open>done\<close>: \<open>None\<close> for the error return.\<close>

definition cu_tail :: "cu_config \<Rightarrow> cu_config option" where
  "cu_tail s =
     (if cu_state s = cu_sw_quoted \<or> cu_state s = cu_sw_quoted_second then None
      else if cu_state s = cu_sw_dot then Some (s\<lparr>cu_u := butlast (cu_u s)\<rparr>)
      else if cu_state s = cu_sw_dot_dot then
        map_option (\<lambda>u. s\<lparr>cu_u := u\<rparr>) (cu_back (cu_u s))
      else Some s)"

text \<open>\<open>r->uri.len = u - r->uri.data\<close> and the extension, on both ways to \<open>NGX_OK\<close>.\<close>

definition cu_finish :: "cu_config \<Rightarrow> ngx_http_request" where
  "cu_finish s =
     (let r = (cu_r s)\<lparr>r_uri := cu_u s\<rparr>;
          r = (case r_uri_ext r of None \<Rightarrow> r | Some e \<Rightarrow> r\<lparr>r_exten := drop e (cu_u s)\<rparr>)
      in r\<lparr>r_uri_ext := None\<rparr>)"

text \<open>The loop after the label \<open>args\<close>: the offset of the first \<open>#\<close> in the arguments.\<close>

function cu_find_hash :: "byte list \<Rightarrow> nat \<Rightarrow> nat \<Rightarrow> nat option" where
  "cu_find_hash xs p ue =
     (if p < ue then (if xs ! p \<noteq> ch_hash then cu_find_hash xs (p + 1) ue else Some p) else None)"
  by pat_completeness auto
termination
  by (relation "measure (\<lambda>(xs, p, ue). ue - p)") auto

declare cu_find_hash.simps [simp del]

definition cu_args_end :: "byte list \<Rightarrow> nat \<Rightarrow> cu_config \<Rightarrow> cu_config" where
  "cu_args_end xs ue s =
     (case (cu_find_hash xs (cu_p s) ue, r_args_start (cu_r s)) of
        (Some h, Some a) \<Rightarrow>
          s\<lparr>cu_r := (cu_r s)\<lparr>r_args := \<lparr>str_data = Some a, str_len = h - a\<rparr>, r_args_start := None\<rparr>\<rparr>
      | _ \<Rightarrow> s)"

definition ngx_http_parse_complex_uri ::
  "byte list \<Rightarrow> nat \<Rightarrow> nat \<Rightarrow> ngx_http_request \<Rightarrow> bool \<Rightarrow> (ngx_rc \<times> ngx_http_request) option"
where
  "ngx_http_parse_complex_uri xs us ue r merge_slashes =
     map_option
       (\<lambda>(e, s).
          case e of
            cu_args \<Rightarrow> (NGX_OK, cu_finish (cu_args_end xs ue s))
          | cu_done \<Rightarrow> (NGX_OK, cu_finish s)
          | cu_end \<Rightarrow>
              (case cu_tail s of
                 None \<Rightarrow> (NGX_HTTP_PARSE_INVALID_REQUEST, cu_r s)
               | Some s' \<Rightarrow> (NGX_OK, cu_finish s'))
          | cu_invalid \<Rightarrow> (NGX_HTTP_PARSE_INVALID_REQUEST, cu_r s))
       (cu_loop merge_slashes xs ue (cu_init xs us r))"

section \<open>\<open>ngx_http_process_request_uri\<close>\<close>

text \<open>
  What the caller sees: success, or a request that has been closed or finalized with a
  status. \<open>alloc_ok\<close> tells whether \<open>ngx_pnalloc\<close> succeeds.
\<close>

datatype uri_verdict = uri_ok | uri_closed nat | uri_finalized nat

abbreviation NGX_HTTP_BAD_REQUEST :: nat where "NGX_HTTP_BAD_REQUEST \<equiv> 400"
abbreviation NGX_HTTP_INTERNAL_SERVER_ERROR :: nat where "NGX_HTTP_INTERNAL_SERVER_ERROR \<equiv> 500"

text \<open>\<open>r->uri.len\<close>, also the size of the memory the rewritten URI is copied into.\<close>

definition request_uri_len :: "nat \<Rightarrow> nat \<Rightarrow> ngx_http_request \<Rightarrow> nat" where
  "request_uri_len us ue r = (case r_args_start r of Some a \<Rightarrow> a - 1 - us | None \<Rightarrow> ue - us)"

definition request_uri_alloc :: "nat \<Rightarrow> nat \<Rightarrow> ngx_http_request \<Rightarrow> nat" where
  "request_uri_alloc us ue r =
     (if r_empty_path_in_uri r then request_uri_len us ue r + 1 else request_uri_len us ue r)"

text \<open>The statements behind the choice: unparsed URI, extension and arguments.\<close>

definition request_uri_rest ::
  "byte list \<Rightarrow> nat \<Rightarrow> nat \<Rightarrow> ngx_http_request \<Rightarrow> ngx_http_request"
where
  "request_uri_rest xs us ue r =
     (let r = r\<lparr>r_unparsed_uri := \<lparr>str_data = Some us, str_len = ue - us\<rparr>,
                r_valid_unparsed_uri := \<not> r_empty_path_in_uri r\<rparr>;
          r = (case r_uri_ext r of
                 None \<Rightarrow> r
               | Some x \<Rightarrow>
                   r\<lparr>r_exten := segment x (case r_args_start r of Some a \<Rightarrow> a - 1 | None \<Rightarrow> ue) xs\<rparr>);
          r = (case r_args_start r of
                 None \<Rightarrow> r
               | Some a \<Rightarrow>
                   if ue > a then r\<lparr>r_args := \<lparr>str_data = Some a, str_len = ue - a\<rparr>\<rparr> else r)
      in r)"

definition ngx_http_process_request_uri ::
  "byte list \<Rightarrow> nat \<Rightarrow> nat \<Rightarrow> ngx_http_request \<Rightarrow> bool \<Rightarrow> bool
   \<Rightarrow> (uri_verdict \<times> ngx_http_request) option"
where
  "ngx_http_process_request_uri xs us ue r merge_slashes alloc_ok =
     (if r_complex_uri r \<or> r_quoted_uri r \<or> r_empty_path_in_uri r then
        (if \<not> alloc_ok then Some (uri_closed NGX_HTTP_INTERNAL_SERVER_ERROR, r)
         else
           map_option
             (\<lambda>(rc, r').
                if rc \<noteq> NGX_OK then (uri_finalized NGX_HTTP_BAD_REQUEST, r'\<lparr>r_uri := []\<rparr>)
                else (uri_ok, request_uri_rest xs us ue r'))
             (ngx_http_parse_complex_uri xs us ue r merge_slashes))
      else
        Some (uri_ok,
              request_uri_rest xs us ue
                (r\<lparr>r_uri := segment us (us + request_uri_len us ue r) xs\<rparr>)))"

section \<open>The abstract meaning of a path\<close>

text \<open>
  Percent decoding up to the first raw \<open>?\<close> or \<open>#\<close>: the decoded path and the bytes from
  there on. \<open>None\<close> for a malformed escape and for an encoded NUL.
\<close>

definition escaped_byte :: "byte \<Rightarrow> byte \<Rightarrow> byte option" where
  "escaped_byte h l =
     (case (hex_value h, hex_value l) of
        (Some a, Some b) \<Rightarrow> if 16 * a + b = 0 then None else Some (word_of_nat (16 * a + b))
      | _ \<Rightarrow> None)"

fun decode_path :: "byte list \<Rightarrow> (byte list \<times> byte list) option" where
  "decode_path [] = Some ([], [])"
| "decode_path (c # cs) =
     (if c = ch_question \<or> c = ch_hash then Some ([], c # cs)
      else if c = ch_percent then
        (case cs of
           h # l # cs' \<Rightarrow>
             (case escaped_byte h l of
                None \<Rightarrow> None
              | Some d \<Rightarrow> map_option (map_prod (Cons d) id) (decode_path cs'))
         | _ \<Rightarrow> None)
      else map_option (map_prod (Cons c) id) (decode_path cs))"

text \<open>
  A path as complete segments and the segment being read. A slash completes it: \<open>.\<close>
  vanishes, \<open>..\<close> takes the segment before it away, an empty one is dropped if slashes are
  merged. \<open>None\<close> when \<open>..\<close> would leave the root.
\<close>

type_synonym path = "byte list list \<times> byte list"

definition render_path :: "path \<Rightarrow> byte list" where
  "render_path q = concat (map (Cons ch_slash) (fst q)) @ ch_slash # snd q"

definition path_slash :: "bool \<Rightarrow> path \<Rightarrow> path option" where
  "path_slash merge q =
     (case q of (segs, cur) \<Rightarrow>
        if cur = [ch_dot] then Some (segs, [])
        else if cur = [ch_dot, ch_dot] then (if segs = [] then None else Some (butlast segs, []))
        else if cur = [] \<and> merge then Some (segs, [])
        else Some (segs @ [cur], []))"

definition path_char :: "bool \<Rightarrow> byte \<Rightarrow> path \<Rightarrow> path option" where
  "path_char merge c q = (if c = ch_slash then path_slash merge q else Some (fst q, snd q @ [c]))"

fun path_chars :: "bool \<Rightarrow> byte list \<Rightarrow> path \<Rightarrow> path option" where
  "path_chars merge [] q = Some q"
| "path_chars merge (c # cs) q =
     (case path_char merge c q of None \<Rightarrow> None | Some q' \<Rightarrow> path_chars merge cs q')"

definition path_end :: "path \<Rightarrow> path option" where
  "path_end q =
     (case q of (segs, cur) \<Rightarrow>
        if cur = [ch_dot] then Some (segs, [])
        else if cur = [ch_dot, ch_dot] then (if segs = [] then None else Some (butlast segs, []))
        else Some q)"

text \<open>The normal form of the path that follows the leading slash.\<close>

definition normalize_path :: "bool \<Rightarrow> byte list \<Rightarrow> byte list option" where
  "normalize_path merge cs =
     (case decode_path cs of
        None \<Rightarrow> None
      | Some (ds, rest) \<Rightarrow>
          (case path_chars merge ds ([], []) of
             None \<Rightarrow> None
           | Some q \<Rightarrow> map_option render_path (path_end q)))"

section \<open>The copy loop computes the normal form\<close>

definition seg_state :: "byte list \<Rightarrow> cu_state" where
  "seg_state cur =
     (if cur = [] then cu_sw_slash else if cur = [ch_dot] then cu_sw_dot
      else if cur = [ch_dot, ch_dot] then cu_sw_dot_dot else cu_sw_usual)"

definition path_ok :: "path \<Rightarrow> bool" where
  "path_ok q \<longleftrightarrow> (\<forall>seg\<in>set (fst q). ch_slash \<notin> set seg)"

lemma path_ok_char: "path_char merge c q = Some q' \<Longrightarrow> path_ok q \<Longrightarrow> ch_slash \<notin> set (snd q) \<Longrightarrow>
    path_ok q' \<and> ch_slash \<notin> set (snd q')"
  by (cases q)
     (auto simp: path_char_def path_slash_def path_ok_def dest!: in_set_butlastD split: if_splits)

lemma cu_rewind_seg:
  "ch_slash \<notin> set seg \<Longrightarrow> k \<le> length seg \<Longrightarrow>
   cu_rewind (a @ ch_slash # seg @ b) (Suc (length a + k)) = Some (a @ [ch_slash])"
proof (induction k)
  case 0
  then show ?case by simp
next
  case (Suc k)
  then have "(a @ ch_slash # seg @ b) ! Suc (length a + k) = seg ! k"
    by (simp add: nth_append)
  moreover have "seg ! k \<noteq> ch_slash"
    using Suc.prems by (metis Suc_le_lessD nth_mem)
  ultimately show ?case using Suc by simp
qed

lemma render_path_snoc:
  "render_path (segs @ [seg], cur) = render_path (segs, seg) @ ch_slash # cur"
  by (simp add: render_path_def)

lemma cu_back_render:
  assumes "path_ok (segs, cur)"
  shows "cu_back (render_path (segs, [ch_dot, ch_dot])) =
    (if segs = [] then None else Some (render_path (butlast segs, [])))"
proof (cases segs rule: rev_cases)
  case Nil
  then show ?thesis by (simp add: cu_back_def render_path_def)
next
  case (snoc ss seg)
  let ?a = "concat (map (Cons ch_slash) ss)"
  have "ch_slash \<notin> set seg" using assms snoc by (simp add: path_ok_def)
  then have "cu_rewind (?a @ ch_slash # seg @ [ch_slash, ch_dot, ch_dot]) (Suc (length ?a + length seg))
    = Some (?a @ [ch_slash])"
    by (rule cu_rewind_seg) simp
  then show ?thesis by (simp add: cu_back_def snoc render_path_def)
qed

text \<open>
  The loop is at the path \<open>q\<close>, with the byte at offset \<open>i\<close>, possibly decoded, in \<open>ch\<close>.
\<close>

definition cu_sim :: "nat \<Rightarrow> path \<Rightarrow> cu_config \<Rightarrow> bool" where
  "cu_sim i q s \<longleftrightarrow>
     cu_u s = render_path q \<and> cu_state s = seg_state (snd q) \<and> path_ok q
     \<and> ch_slash \<notin> set (snd q) \<and> cu_p s = Suc i"

lemmas cu_act_defs = cu_next_def cu_put_def cu_goto_def cu_plus_def cu_to_args_def cu_quote_def

lemma render_path_put: "render_path (segs, cur) @ [c] = render_path (segs, cur @ [c])"
  by (simp add: render_path_def)

lemma butlast_render: "butlast (render_path (segs, [ch_dot])) = render_path (segs, [])"
  by (simp add: render_path_def butlast_append)

lemma seg_state_snoc:
  "seg_state (cur @ [c]) =
     (if c = ch_dot \<and> cur = [] then cu_sw_dot else if c = ch_dot \<and> cur = [ch_dot] then cu_sw_dot_dot
      else cu_sw_usual)"
  by (auto simp: seg_state_def append_eq_Cons_conv)

lemma not_usual [simp]:
  "\<not> is_usual ch_slash" "\<not> is_usual ch_dot" "\<not> is_usual ch_percent" "\<not> is_usual ch_question"
  "\<not> is_usual ch_hash" "\<not> is_usual ch_plus"
  by (simp_all add: is_usual_iff)

lemma seg_state_cases:
  obtains "cur = []" "seg_state cur = cu_sw_slash" | "cur = [ch_dot]" "seg_state cur = cu_sw_dot"
  | "cur = [ch_dot, ch_dot]" "seg_state cur = cu_sw_dot_dot"
  | "cur \<noteq> []" "cur \<noteq> [ch_dot]" "cur \<noteq> [ch_dot, ch_dot]" "seg_state cur = cu_sw_usual"
  by (auto simp: seg_state_def split: if_splits)

lemma cu_step_plain:
  assumes sim: "cu_sim i (segs, cur) s"
    and plain: "cu_ch s \<noteq> ch_question" "cu_ch s \<noteq> ch_hash" "cu_ch s \<noteq> ch_percent" "cu_ch s \<noteq> ch_slash"
  shows "\<exists>s'. cu_step merge xs s = Cont s' \<and> cu_sim (Suc i) (segs, cur @ [cu_ch s]) s'
    \<and> cu_ch s' = xs ! Suc i"
  using sim plain
  by (cases cur rule: seg_state_cases)
     (auto simp: cu_step_def cu_slash_def cu_dot_def cu_dot_dot_def cu_usual_def cu_sim_def cu_act_defs
       Let_def path_ok_def seg_state_def render_path_put)

lemma cu_step_slash:
  assumes sim: "cu_sim i q s" and slash: "cu_ch s = ch_slash"
  shows "case path_slash merge q of
      None \<Rightarrow> \<exists>s'. cu_step merge xs s = Exit cu_invalid s'
    | Some q' \<Rightarrow> \<exists>s'. cu_step merge xs s = Cont s' \<and> cu_sim (Suc i) q' s' \<and> cu_ch s' = xs ! Suc i"
proof -
  obtain segs cur where q: "q = (segs, cur)" by (cases q)
  have ok: "path_ok (segs, cur)" using sim q by (simp add: cu_sim_def)
  note rewind = cu_back_render [OF ok]
  have butl: "path_ok (butlast segs, [])" using ok by (auto simp: path_ok_def dest!: in_set_butlastD)
  show ?thesis
    using sim slash rewind butl unfolding q
    by (cases cur rule: seg_state_cases)
       (auto simp: cu_step_def cu_slash_def cu_dot_def cu_dot_dot_def cu_usual_def cu_sim_def
         cu_act_defs path_slash_def seg_state_def Let_def path_ok_def butlast_render
         render_path_snoc)
qed

lemma cu_loop_Cont: "cu_p s \<le> ue \<Longrightarrow> cu_step merge xs s = Cont s' \<Longrightarrow> cu_loop merge xs ue s = cu_loop merge xs ue s'"
  by (subst cu_loop.simps) simp

lemma cu_loop_Exit: "cu_p s \<le> ue \<Longrightarrow> cu_step merge xs s = Exit e s' \<Longrightarrow> cu_loop merge xs ue s = Some (e, s')"
  by (subst cu_loop.simps) simp

lemma cu_loop_end: "ue < cu_p s \<Longrightarrow> cu_loop merge xs ue s = Some (cu_end, s)"
  by (subst cu_loop.simps) simp

text \<open>A hexadecimal digit as the code computes it.\<close>

definition hex_word :: "byte \<Rightarrow> byte" where
  "hex_word ch = (if is_digit ch then ch - ch_0 else lower ch - ch_a + 10)"

lemma hex_value_word:
  assumes "hex_value ch = Some n"
  shows "n < 16" and "word_of_nat n = hex_word ch" and "is_digit ch \<longleftrightarrow> n < 10"
proof -
  have "lower ch - ch_a < 6" if "is_hex_alpha ch"
    using that unfolding byte_class by unat_arith
  then have "unat (lower ch - ch_a) < 6" if "is_hex_alpha ch"
    using that by (simp add: word_less_nat_alt)
  then show "n < 16" and "word_of_nat n = hex_word ch" and "is_digit ch \<longleftrightarrow> n < 10"
    using assms digit_val_less [of ch]
    by (auto simp: hex_value_def hex_word_def digit_val_def hex_alpha_val_def split: if_splits)
qed

lemma escaped_byte_Some:
  assumes "escaped_byte h l = Some d"
  shows "d = push_bit 4 (hex_word h) + hex_word l" and "d \<noteq> 0"
    and "hex_value h \<noteq> None" and "hex_value l \<noteq> None"
    and "d = ch_percent \<or> d = ch_hash \<Longrightarrow> is_digit l" and "d = ch_question \<Longrightarrow> \<not> is_digit l"
proof -
  from assms obtain a b where hv: "hex_value h = Some a" "hex_value l = Some b"
    and d: "d = word_of_nat (16 * a + b)" and nz: "16 * a + b \<noteq> 0"
    by (auto simp: escaped_byte_def split: option.splits if_splits)
  note a = hex_value_word [OF hv(1)] and b = hex_value_word [OF hv(2)]
  have "16 * a + b < 256" using a(1) b(1) by simp
  then have un: "unat d = 16 * a + b"
    unfolding d by (simp add: unat_of_nat del: of_nat_add of_nat_mult)
  show "d = push_bit 4 (hex_word h) + hex_word l"
    using a(2) b(2) d by (simp add: push_bit_eq_mult)
  show "d \<noteq> 0" using un nz by auto
  show "hex_value h \<noteq> None" "hex_value l \<noteq> None" using hv by simp_all
  show "d = ch_percent \<or> d = ch_hash \<Longrightarrow> is_digit l"
    using un b(1) unfolding b(3) by (elim disjE) (simp_all, presburger+)
  show "d = ch_question \<Longrightarrow> \<not> is_digit l"
    using un unfolding b(3) by simp presburger
qed

lemma escaped_byte_None:
  "escaped_byte h l = None \<Longrightarrow>
   hex_value h = None \<or> hex_value l = None \<or> push_bit 4 (hex_word h) + hex_word l = 0 \<and> is_digit l"
proof -
  assume none: "escaped_byte h l = None"
  show ?thesis
  proof (cases "hex_value h"; cases "hex_value l")
    fix a b assume hv: "hex_value h = Some a" "hex_value l = Some b"
    with none have "a = 0" "b = 0" by (auto simp: escaped_byte_def split: if_splits)
    then show ?thesis
      using hex_value_word [OF hv(1)] hex_value_word [OF hv(2)] by auto
  qed auto
qed

lemma hex_value_None: "hex_value ch = None \<longleftrightarrow> \<not> is_digit ch \<and> \<not> is_hex_alpha ch"
  by (auto simp: hex_value_def)


lemma cu_quoted_second_eq:
  defines "d s \<equiv> push_bit 4 (cu_decoded s) + hex_word (cu_ch s)"
  shows "cu_quoted_second xs s =
    (if is_digit (cu_ch s) then
       (if d s = ch_percent \<or> d s = ch_hash then Cont (cu_next xs (cu_put (d s) (cu_goto cu_sw_usual s)))
        else if d s = NUL then Exit cu_invalid s
        else Cont (cu_goto (cu_quoted_state s) (s\<lparr>cu_ch := d s\<rparr>)))
     else if is_hex_alpha (cu_ch s) then
       (if d s = ch_question then Cont (cu_next xs (cu_put (d s) (cu_goto cu_sw_usual s)))
        else Cont (cu_goto (cu_quoted_state s) (cu_plus (s\<lparr>cu_ch := d s\<rparr>))))
     else Exit cu_invalid s)"
proof -
  have alpha: "push_bit 4 (cu_decoded s) + (lower (cu_ch s) - ch_a) + 10 = d s"
    if "\<not> is_digit (cu_ch s)"
    using that by (simp only: d_def hex_word_def if_False add.assoc)
  have digit: "push_bit 4 (cu_decoded s) + (cu_ch s - ch_0) = d s" if "is_digit (cu_ch s)"
    using that by (simp only: d_def hex_word_def if_True)
  show ?thesis
  proof (cases "is_digit (cu_ch s)")
    case True
    show ?thesis by (simp only: cu_quoted_second_def Let_def digit [OF True] True if_True)
  next
    case False
    show ?thesis by (simp only: cu_quoted_second_def Let_def alpha [OF False] False if_False)
  qed
qed

lemma cu_loop_escape:
  assumes sim: "cu_sim i (segs, cur) s" and pc: "cu_ch s = ch_percent" and ue: "i + 2 < ue"
  shows "case escaped_byte (xs ! (i + 1)) (xs ! (i + 2)) of
      None \<Rightarrow> \<exists>s'. cu_loop merge xs ue s = Some (cu_invalid, s')
    | Some d \<Rightarrow>
        \<exists>s'. cu_loop merge xs ue s = cu_loop merge xs ue s' \<and>
          (if d \<in> {ch_percent, ch_hash, ch_question}
           then cu_sim (i + 3) (segs, cur @ [d]) s' \<and> cu_ch s' = xs ! (i + 3)
           else cu_sim (i + 2) (segs, cur) s' \<and> cu_ch s' = d)"
proof -
  let ?h = "xs ! (i + 1)" and ?l = "xs ! (i + 2)"
  define s1 where "s1 = s\<lparr>cu_quoted_state := cu_state s, cu_state := cu_sw_quoted, cu_ch := ?h, cu_p := i + 2\<rparr>"
  have "cu_step merge xs s = Cont s1"
    using sim pc
    by (cases cur rule: seg_state_cases)
       (auto simp: cu_sim_def cu_step_def cu_slash_def cu_dot_def cu_dot_dot_def cu_usual_def
         cu_act_defs Let_def s1_def)
  then have l1: "cu_loop merge xs ue s = cu_loop merge xs ue s1"
    using sim ue by (intro cu_loop_Cont) (auto simp: cu_sim_def)
  define s2 where "s2 = s1\<lparr>cu_r := (cu_r s1)\<lparr>r_quoted_uri := True\<rparr>, cu_decoded := hex_word ?h,
      cu_state := cu_sw_quoted_second, cu_ch := ?l, cu_p := i + 3\<rparr>"
  have step1: "cu_step merge xs s1 = (if hex_value ?h = None
      then Exit cu_invalid (s1\<lparr>cu_r := (cu_r s1)\<lparr>r_quoted_uri := True\<rparr>\<rparr>) else Cont s2)"
    by (auto simp: cu_step_def s1_def s2_def cu_quoted_def hex_value_None hex_word_def cu_act_defs Let_def)
  have p1: "cu_p s1 \<le> ue" "cu_p s2 \<le> ue" using ue by (simp_all add: s1_def s2_def)
  have l2: "cu_loop merge xs ue s = cu_loop merge xs ue s2" if "hex_value ?h \<noteq> None"
    using l1 cu_loop_Cont [OF p1(1)] step1 that by simp
  show ?thesis
  proof (cases "escaped_byte ?h ?l")
    case None
    have "\<exists>s'. cu_loop merge xs ue s = Some (cu_invalid, s')"
    proof (cases "hex_value ?h = None")
      case True
      then show ?thesis unfolding l1 using step1 by (auto intro: cu_loop_Exit [OF p1(1)])
    next
      case False
      with escaped_byte_None [OF None]
      have "hex_value ?l = None \<or> push_bit 4 (hex_word ?h) + hex_word ?l = 0 \<and> is_digit ?l" by blast
      then have "\<exists>s'. cu_step merge xs s2 = Exit cu_invalid s'"
        by (auto simp: cu_step_def s2_def cu_quoted_second_eq hex_value_None)
      then show ?thesis unfolding l2 [OF False] by (auto intro: cu_loop_Exit [OF p1(2)])
    qed
    with None show ?thesis by simp
  next
    case (Some d)
    note esc = escaped_byte_Some [OF Some]
    define s3 where "s3 = (if d \<in> {ch_percent, ch_hash, ch_question}
        then cu_next xs (cu_put d (cu_goto cu_sw_usual s2))
        else cu_goto (cu_state s) (if is_digit ?l then s2\<lparr>cu_ch := d\<rparr> else cu_plus (s2\<lparr>cu_ch := d\<rparr>)))"
    have dd: "push_bit 4 (cu_decoded s2) + hex_word ?l = d"
      using esc(1) by (simp add: s2_def)
    have s2: "cu_ch s2 = ?l" "cu_quoted_state s2 = cu_state s"
      by (simp_all add: s2_def s1_def)
    have "cu_step merge xs s2 = cu_quoted_second xs s2"
      by (simp add: cu_step_def s2_def)
    also have "\<dots> = Cont s3"
      unfolding cu_quoted_second_eq s2 dd
      using esc(2,4-6) by (auto simp: s3_def hex_value_None)
    finally have "cu_loop merge xs ue s = cu_loop merge xs ue s3"
      using l2 esc(3) cu_loop_Cont [OF p1(2)] by simp
    moreover have "if d \<in> {ch_percent, ch_hash, ch_question}
           then cu_sim (i + 3) (segs, cur @ [d]) s3 \<and> cu_ch s3 = xs ! (i + 3)
           else cu_sim (i + 2) (segs, cur) s3 \<and> cu_ch s3 = d"
      using sim
      by (auto simp: s3_def s2_def s1_def cu_sim_def cu_act_defs path_ok_def render_path_put seg_state_snoc)
    ultimately show ?thesis using Some by auto
  qed
qed

text \<open>What the loop leaves behind: the bytes written, or nothing after an error.\<close>

fun cu_output :: "cu_exit \<times> cu_config \<Rightarrow> byte list option" where
  "cu_output (cu_args, s) = Some (cu_u s)"
| "cu_output (cu_done, s) = Some (cu_u s)"
| "cu_output (cu_end, s) = map_option cu_u (cu_tail s)"
| "cu_output (cu_invalid, s) = None"

definition normalize_from :: "bool \<Rightarrow> byte list \<Rightarrow> path \<Rightarrow> byte list option" where
  "normalize_from merge cs q =
     (case decode_path cs of
        None \<Rightarrow> None
      | Some (ds, rest) \<Rightarrow>
          (case path_chars merge ds q of None \<Rightarrow> None | Some q' \<Rightarrow> map_option render_path (path_end q')))"

lemma normalize_from_end:
  "normalize_from merge [] q = map_option render_path (path_end q)"
  "c = ch_question \<or> c = ch_hash \<Longrightarrow> normalize_from merge (c # cs) q = map_option render_path (path_end q)"
  by (auto simp: normalize_from_def)

lemma normalize_from_plain:
  "c \<noteq> ch_question \<Longrightarrow> c \<noteq> ch_hash \<Longrightarrow> c \<noteq> ch_percent \<Longrightarrow>
   normalize_from merge (c # cs) q =
     (case path_char merge c q of None \<Rightarrow> None | Some q' \<Rightarrow> normalize_from merge cs q')"
  by (auto simp: normalize_from_def split: option.split)

lemma normalize_from_escape:
  "normalize_from merge (ch_percent # h # l # cs) q =
     (case escaped_byte h l of
        None \<Rightarrow> None
      | Some d \<Rightarrow> (case path_char merge d q of None \<Rightarrow> None | Some q' \<Rightarrow> normalize_from merge cs q'))"
  "normalize_from merge [ch_percent] q = None"
  "normalize_from merge [ch_percent, h] q = None"
  by (auto simp: normalize_from_def split: option.split)

lemma cu_loop_escape_short:
  assumes sim: "cu_sim i (segs, cur) s" and pc: "cu_ch s = ch_percent" and ue: "i < ue" "ue \<le> i + 2"
  shows "\<exists>e s'. cu_loop merge xs ue s = Some (e, s') \<and> cu_output (e, s') = None"
proof -
  define s1 where "s1 = s\<lparr>cu_quoted_state := cu_state s, cu_state := cu_sw_quoted, cu_ch := xs ! (i + 1), cu_p := i + 2\<rparr>"
  have "cu_step merge xs s = Cont s1"
    using sim pc
    by (cases cur rule: seg_state_cases)
       (auto simp: cu_sim_def cu_step_def cu_slash_def cu_dot_def cu_dot_dot_def cu_usual_def
         cu_act_defs Let_def s1_def)
  then have l1: "cu_loop merge xs ue s = cu_loop merge xs ue s1"
    using sim ue by (intro cu_loop_Cont) (auto simp: cu_sim_def)
  show ?thesis
  proof (cases "ue < i + 2")
    case True
    then have "cu_loop merge xs ue s1 = Some (cu_end, s1)" by (intro cu_loop_end) (simp add: s1_def)
    then show ?thesis using l1 by (simp add: cu_tail_def s1_def)
  next
    case False
    have "(\<exists>s2. cu_step merge xs s1 = Exit cu_invalid s2) \<or>
      (\<exists>s2. cu_step merge xs s1 = Cont s2 \<and> cu_state s2 = cu_sw_quoted_second \<and> ue < cu_p s2)"
      using ue by (auto simp: cu_step_def s1_def cu_quoted_def cu_act_defs Let_def)
    moreover have "cu_p s1 \<le> ue" using False by (simp add: s1_def)
    ultimately show ?thesis
      unfolding l1 by (auto simp: cu_loop_Exit cu_loop_Cont cu_loop_end cu_tail_def)
  qed
qed

lemma cu_loop_stop:
  assumes sim: "cu_sim i q s" and stop: "ue \<le> i \<or> i < ue \<and> (cu_ch s = ch_question \<or> cu_ch s = ch_hash)"
  shows "\<exists>e s'. cu_loop merge xs ue s = Some (e, s') \<and> cu_output (e, s') = map_option render_path (path_end q)"
proof -
  obtain segs cur where q: "q = (segs, cur)" by (cases q)
  note rewind = cu_back_render [of segs cur]
  show ?thesis
  proof (cases "ue \<le> i")
    case True
    then have "cu_loop merge xs ue s = Some (cu_end, s)"
      using sim by (intro cu_loop_end) (simp add: cu_sim_def)
    then show ?thesis
      using sim rewind unfolding q
      by (cases cur rule: seg_state_cases)
         (auto simp: cu_sim_def cu_tail_def path_end_def butlast_render)
  next
    case False
    then have "cu_p s \<le> ue" using sim stop by (simp add: cu_sim_def)
    note exit = cu_loop_Exit [OF this]
    have "\<exists>e s'. cu_step merge xs s = Exit e s' \<and> cu_output (e, s') = map_option render_path (path_end q)"
      using sim stop rewind False unfolding q
      by (cases cur rule: seg_state_cases)
         (auto simp: cu_sim_def cu_step_def cu_slash_def cu_dot_def cu_dot_dot_def cu_usual_def
           cu_act_defs Let_def path_end_def butlast_render)
    then show ?thesis using exit by blast
  qed
qed

text \<open>What happens to one decoded character, whether it stood there or was escaped.\<close>

definition cu_takes :: "bool \<Rightarrow> byte list \<Rightarrow> nat \<Rightarrow> cu_config \<Rightarrow> byte \<Rightarrow> path \<Rightarrow> nat \<Rightarrow> bool" where
  "cu_takes merge xs ue s c q j \<longleftrightarrow>
     (case path_char merge c q of
        None \<Rightarrow> \<exists>s'. cu_loop merge xs ue s = Some (cu_invalid, s')
      | Some q' \<Rightarrow>
          \<exists>s'. cu_loop merge xs ue s = cu_loop merge xs ue s' \<and> cu_sim j q' s' \<and> cu_ch s' = xs ! j)"

lemma cu_takes_char:
  assumes sim: "cu_sim i q s" and ue: "i < ue"
    and c: "cu_ch s \<notin> {ch_question, ch_hash, ch_percent}"
  shows "cu_takes merge xs ue s (cu_ch s) q (Suc i)"
proof -
  have p: "cu_p s \<le> ue" using sim ue by (simp add: cu_sim_def)
  show ?thesis
  proof (cases "cu_ch s = ch_slash")
    case True
    then show ?thesis
      using cu_step_slash [OF sim True, of merge xs] cu_loop_Exit [OF p] cu_loop_Cont [OF p]
      by (fastforce simp: path_char_def cu_takes_def split: option.splits)
  next
    case False
    obtain segs cur where q: "q = (segs, cur)" by (cases q)
    from cu_step_plain [OF sim [unfolded q]] c False obtain s'
      where "cu_step merge xs s = Cont s'" "cu_sim (Suc i) (segs, cur @ [cu_ch s]) s'" "cu_ch s' = xs ! Suc i"
      by blast
    with False show ?thesis
      using cu_loop_Cont [OF p] by (fastforce simp: path_char_def cu_takes_def q)
  qed
qed

lemma cu_takes_escape:
  assumes sim: "cu_sim i q s" and pc: "cu_ch s = ch_percent" and ue: "i + 2 < ue"
    and d: "escaped_byte (xs ! (i + 1)) (xs ! (i + 2)) = Some d"
  shows "cu_takes merge xs ue s d q (i + 3)"
proof -
  obtain segs cur where q: "q = (segs, cur)" by (cases q)
  from cu_loop_escape [OF sim [unfolded q] pc ue, where xs = xs and merge = merge, unfolded d option.case]
  obtain s1 where
    l1: "cu_loop merge xs ue s = cu_loop merge xs ue s1" and
    s1: "if d \<in> {ch_percent, ch_hash, ch_question}
         then cu_sim (i + 3) (segs, cur @ [d]) s1 \<and> cu_ch s1 = xs ! (i + 3)
         else cu_sim (i + 2) (segs, cur) s1 \<and> cu_ch s1 = d" by blast
  show ?thesis
  proof (cases "d \<in> {ch_percent, ch_hash, ch_question}")
    case True
    then have "path_char merge d q = Some (segs, cur @ [d])" by (auto simp: path_char_def q)
    with True s1 show ?thesis by (auto simp: cu_takes_def l1)
  next
    case False
    have "Suc (i + 2) = i + 3" by simp
    from cu_takes_char [of "i + 2" q s1 ue merge xs, unfolded this] s1 False ue
    have "cu_takes merge xs ue s1 d q (i + 3)" by (auto simp: q)
    then show ?thesis unfolding cu_takes_def l1 .
  qed
qed

lemma cu_loop_sim:
  assumes "cu_sim i q s" and "cu_ch s = xs ! i" and "segment i ue xs = cs" and "ue \<le> length xs"
  shows "\<exists>e s'. cu_loop merge xs ue s = Some (e, s') \<and> cu_output (e, s') = normalize_from merge cs q"
  using assms
proof (induction "length cs" arbitrary: i q s cs rule: less_induct)
  case less
  note sim = less.prems(1)
  have takes: ?case if c: "cu_takes merge xs ue s c q j" and cs1: "segment j ue xs = cs1" "length cs1 < length cs"
    and n: "normalize_from merge cs q =
      (case path_char merge c q of None \<Rightarrow> None | Some q' \<Rightarrow> normalize_from merge cs1 q')" for c j cs1
  proof (cases "path_char merge c q")
    case None
    with c n show ?thesis by (auto simp: cu_takes_def)
  next
    case (Some q')
    with c obtain s' where "cu_loop merge xs ue s = cu_loop merge xs ue s'" "cu_sim j q' s'" "cu_ch s' = xs ! j"
      by (auto simp: cu_takes_def)
    with less.hyps [OF cs1(2) _ _ cs1(1) less.prems(4)] n Some show ?thesis by simp
  qed
  show ?case
  proof (cases cs)
    case Nil
    then have "ue \<le> i" using less.prems segment_eq_Nil by blast
    then show ?thesis using cu_loop_stop [OF sim] by (simp add: Nil normalize_from_end)
  next
    case (Cons c cs1)
    note seg = segment_eq_Cons [OF less.prems(3) [unfolded Cons] less.prems(4)]
    have ch: "cu_ch s = c" using seg less.prems(2) by simp
    consider "c = ch_question \<or> c = ch_hash" | "c \<notin> {ch_question, ch_hash, ch_percent}"
      | "c = ch_percent" "ue \<le> i + 2" | "c = ch_percent" "i + 2 < ue" by fastforce
    then show ?thesis
    proof cases
      case 1
      then show ?thesis using cu_loop_stop [OF sim] seg(1) ch by (simp add: Cons normalize_from_end)
    next
      case 2
      then show ?thesis
        using takes [OF cu_takes_char [OF sim seg(1)] seg(3)] ch by (simp add: Cons normalize_from_plain)
    next
      case 3
      then have "length cs1 < 2" using seg(1) by (simp flip: seg(3))
      then have "normalize_from merge cs q = None"
        by (cases cs1; cases "tl cs1") (auto simp: Cons 3 normalize_from_escape)
      then show ?thesis
        using cu_loop_escape_short [of i "fst q" "snd q" s] sim ch 3 seg(1) by simp
    next
      case 4
      have cs: "cs = ch_percent # xs ! (i + 1) # xs ! (i + 2) # segment (i + 3) ue xs"
        using Cons 4 seg(3) less.prems(4)
          segment_Cons [of "Suc i" ue xs] segment_Cons [of "Suc (Suc i)" ue xs]
        by (simp add: numeral_3_eq_3)
      show ?thesis
      proof (cases "escaped_byte (xs ! (i + 1)) (xs ! (i + 2))")
        case None
        with cu_loop_escape [where i = i and segs = "fst q" and cur = "snd q" and s = s and ue = ue and xs = xs and merge = merge] sim ch 4 show ?thesis
          by (auto simp: cs normalize_from_escape)
      next
        case (Some d)
        show ?thesis
          using takes [OF cu_takes_escape [OF sim ch [unfolded 4(1)] 4(2) Some] refl]
          by (simp add: cs normalize_from_escape Some [simplified])
      qed
    qed
  qed
qed

section \<open>Normal forms\<close>

lemma split_render:
  "\<forall>seg\<in>set segs. ch_slash \<notin> set seg \<Longrightarrow> ch_slash \<notin> set cur \<Longrightarrow>
   split_on ch_slash (render_path (segs, cur)) = [] # segs @ [cur]"
proof (induction segs)
  case Nil
  then show ?case by (simp add: render_path_def split_on_append)
next
  case (Cons seg segs)
  obtain t where t: "render_path (segs, cur) = ch_slash # t"
    by (cases segs) (auto simp: render_path_def)
  have "render_path (seg # segs, cur) = ch_slash # seg @ render_path (segs, cur)"
    by (simp add: render_path_def)
  then show ?case using Cons split_on_append(1) [of ch_slash seg t] by (simp add: t)
qed

text \<open>A path whose segments are final.\<close>

definition path_normal :: "bool \<Rightarrow> path \<Rightarrow> bool" where
  "path_normal merge q \<longleftrightarrow>
     path_ok q \<and> ch_slash \<notin> set (snd q)
     \<and> (\<forall>seg\<in>set (fst q). seg \<noteq> [ch_dot] \<and> seg \<noteq> [ch_dot, ch_dot] \<and> (merge \<longrightarrow> seg \<noteq> []))"

lemma path_char_normal: "path_char merge c q = Some q' \<Longrightarrow> path_normal merge q \<Longrightarrow> path_normal merge q'"
  by (cases q)
     (auto simp: path_char_def path_slash_def path_normal_def path_ok_def dest!: in_set_butlastD
       split: if_splits)

lemma path_chars_normal: "path_chars merge cs q = Some q' \<Longrightarrow> path_normal merge q \<Longrightarrow> path_normal merge q'"
  by (induction merge cs q rule: path_chars.induct) (auto split: option.splits intro: path_char_normal)

lemma path_end_normal:
  "path_end q = Some q' \<Longrightarrow> path_normal merge q \<Longrightarrow>
   path_normal merge q' \<and> snd q' \<noteq> [ch_dot] \<and> snd q' \<noteq> [ch_dot, ch_dot]"
  by (cases q)
     (auto simp: path_end_def path_normal_def path_ok_def dest!: in_set_butlastD split: if_splits)

lemma normalize_path_normal:
  assumes "normalize_path merge cs = Some out"
  shows "\<exists>segs. split_on ch_slash out = [] # segs \<and> segs \<noteq> []
    \<and> (\<forall>seg\<in>set segs. seg \<noteq> [ch_dot] \<and> seg \<noteq> [ch_dot, ch_dot])
    \<and> (merge \<longrightarrow> (\<forall>seg\<in>set (butlast segs). seg \<noteq> []))"
proof -
  from assms obtain ds rest q q' where "path_chars merge ds ([], []) = Some q" "path_end q = Some q'"
    and out: "out = render_path q'"
    by (auto simp: normalize_path_def split: option.splits)
  moreover have "path_normal merge ([], [])" by (simp add: path_normal_def path_ok_def)
  ultimately have "path_normal merge q'" "snd q' \<noteq> [ch_dot]" "snd q' \<noteq> [ch_dot, ch_dot]"
    using path_chars_normal path_end_normal by blast+
  moreover obtain segs cur where q': "q' = (segs, cur)" by (cases q')
  ultimately show ?thesis
    using split_render [of segs cur] by (auto simp: out path_normal_def path_ok_def)
qed

section \<open>Results of \<open>ngx_http_parse_complex_uri\<close>\<close>

lemma cu_finish_uri [simp]: "r_uri (cu_finish s) = cu_u s"
  by (simp add: cu_finish_def Let_def split: option.split)

lemma cu_args_end_u [simp]: "cu_u (cu_args_end xs ue s) = cu_u s"
  by (simp add: cu_args_end_def split: option.split)

lemma parse_complex_uri_output:
  assumes "cu_loop merge xs ue (cu_init xs us r) = Some (e, s)"
  shows "\<exists>rc r'. ngx_http_parse_complex_uri xs us ue r merge = Some (rc, r') \<and>
    (case cu_output (e, s) of
       None \<Rightarrow> rc = NGX_HTTP_PARSE_INVALID_REQUEST
     | Some out \<Rightarrow> rc = NGX_OK \<and> r_uri r' = out)"
  using assms
  by (cases e) (auto simp: ngx_http_parse_complex_uri_def split: option.splits)

lemma parse_complex_uri_slash:
  assumes "us < ue" and "ue \<le> length xs" and "xs ! us = ch_slash" and "\<not> r_empty_path_in_uri r"
  shows "\<exists>rc r'. ngx_http_parse_complex_uri xs us ue r merge = Some (rc, r') \<and>
    (case normalize_path merge (segment (us + 1) ue xs) of
       None \<Rightarrow> rc = NGX_HTTP_PARSE_INVALID_REQUEST
     | Some out \<Rightarrow> rc = NGX_OK \<and> r_uri r' = out)"
proof -
  have "\<exists>s1. cu_step merge xs (cu_init xs us r) = Cont s1 \<and> cu_sim (us + 1) ([], []) s1
    \<and> cu_ch s1 = xs ! (us + 1)"
    using assms(3,4)
    by (auto simp: cu_step_def cu_init_def cu_usual_def cu_act_defs cu_sim_def Let_def
        render_path_def seg_state_def path_ok_def)
  then obtain s1 where s1: "cu_step merge xs (cu_init xs us r) = Cont s1"
    and sim: "cu_sim (us + 1) ([], []) s1" "cu_ch s1 = xs ! (us + 1)" by blast
  have "cu_loop merge xs ue (cu_init xs us r) = cu_loop merge xs ue s1"
    using assms(1) s1 by (intro cu_loop_Cont) (simp_all add: cu_init_def cu_next_def)
  with cu_loop_sim [OF sim refl assms(2)] obtain e s' where
    "cu_loop merge xs ue (cu_init xs us r) = Some (e, s')"
    and out: "cu_output (e, s') = normalize_from merge (segment (us + 1) ue xs) ([], [])" by metis
  moreover have "normalize_from merge (segment (us + 1) ue xs) ([], []) =
      normalize_path merge (segment (us + 1) ue xs)"
    by (simp add: normalize_from_def normalize_path_def)
  ultimately show ?thesis
    using parse_complex_uri_output [of merge xs ue us r e s'] by simp
qed

text \<open>An absolute URI without a path, \<open>http://host?args\<close>: the path is a slash.\<close>

lemma parse_complex_uri_empty:
  assumes "us < ue" and "xs ! us = ch_question" and "r_empty_path_in_uri r"
  shows "\<exists>r'. ngx_http_parse_complex_uri xs us ue r merge = Some (NGX_OK, r') \<and> r_uri r' = [ch_slash]"
proof -
  have "\<exists>s'. cu_step merge xs (cu_init xs us r) = Exit cu_args s' \<and> cu_u s' = [ch_slash]"
    using assms by (simp add: cu_step_def cu_init_def cu_usual_def cu_act_defs Let_def)
  then obtain s' where "cu_step merge xs (cu_init xs us r) = Exit cu_args s'" "cu_u s' = [ch_slash]"
    by blast
  moreover have "cu_p (cu_init xs us r) \<le> ue" using assms by (simp add: cu_init_def cu_next_def)
  ultimately show ?thesis
    using parse_complex_uri_output [of merge xs ue us r cu_args s'] by (simp add: cu_loop_Exit)
qed

section \<open>The copy stays inside its memory\<close>

text \<open>The turns of the loop as a step relation: \<open>cu_reach ... s0 s\<close> when it gets from \<open>s0\<close> to \<open>s\<close>.\<close>

inductive cu_reach :: "bool \<Rightarrow> byte list \<Rightarrow> nat \<Rightarrow> cu_config \<Rightarrow> cu_config \<Rightarrow> bool"
  for merge xs ue s0
where
  cu_reach_refl: "cu_reach merge xs ue s0 s0"
| cu_reach_step: "cu_reach merge xs ue s0 s \<Longrightarrow> cu_p s \<le> ue \<Longrightarrow> cu_step merge xs s = Cont s' \<Longrightarrow>
     cu_reach merge xs ue s0 s'"

text \<open>
  No more bytes are written than were read, and a raw \<open>?\<close> at \<open>a - 1\<close> is not passed.
\<close>

definition cu_cap :: "nat \<Rightarrow> nat \<Rightarrow> nat option \<Rightarrow> cu_config \<Rightarrow> bool" where
  "cu_cap us e0 args s \<longleftrightarrow>
     length (cu_u s) + us + 1 \<le> cu_p s + e0
     \<and> (case args of None \<Rightarrow> True | Some a \<Rightarrow> cu_p s < a \<or> cu_p s = a \<and> cu_ch s = ch_question)"

lemma cu_rewind_length: "cu_rewind u k = Some u' \<Longrightarrow> length u' \<le> k"
  by (induction k) (auto split: if_splits)

lemma cu_back_length: "cu_back u = Some u' \<Longrightarrow> length u' \<le> length u"
  unfolding cu_back_def using cu_rewind_length by fastforce

text \<open>One turn advances by one byte and writes at most one, or does neither.\<close>

lemma cu_step_progress:
  assumes "cu_step merge xs s = Cont s'"
  shows "cu_p s' = Suc (cu_p s) \<and> cu_ch s' = xs ! cu_p s \<and> length (cu_u s') \<le> Suc (length (cu_u s))
      \<and> cu_ch s \<noteq> ch_question
    \<or> cu_p s' = cu_p s \<and> cu_u s' = cu_u s \<and> cu_ch s \<noteq> ch_question"
proof (cases "cu_state s")
  case cu_sw_dot_dot
  with assms show ?thesis
    by (fastforce simp: cu_step_def cu_dot_dot_def cu_act_defs Let_def split: if_splits option.splits
        dest: cu_back_length)
qed (use assms in \<open>auto simp: cu_step_def cu_usual_def cu_slash_def cu_dot_def cu_quoted_def
       cu_quoted_second_def cu_act_defs Let_def byte_class lower_def split: if_splits\<close>)

lemma cu_cap_step:
  assumes "cu_cap us e0 args s" and "cu_step merge xs s = Cont s'"
    and "\<And>a. args = Some a \<Longrightarrow> 0 < a \<and> xs ! (a - 1) = ch_question"
  shows "cu_cap us e0 args s'"
proof (cases args)
  case None
  with cu_step_progress [OF assms(2)] assms(1) show ?thesis by (auto simp: cu_cap_def)
next
  case (Some a)
  have "Suc (cu_p s) = a \<Longrightarrow> xs ! cu_p s = ch_question" using assms(3) [OF Some] by auto
  with cu_step_progress [OF assms(2)] assms(1) Some show ?thesis
    by (cases "Suc (cu_p s) = a") (auto simp: cu_cap_def)
qed

lemma cu_reach_cap:
  assumes "cu_reach merge xs ue s0 s" and "cu_cap us e0 args s0"
    and "\<And>a. args = Some a \<Longrightarrow> 0 < a \<and> xs ! (a - 1) = ch_question"
  shows "cu_cap us e0 args s"
  using assms by induction (blast intro: cu_cap_step)+

lemma cu_reach_p: "cu_reach merge xs ue s0 s \<Longrightarrow> cu_p s0 \<le> Suc ue \<Longrightarrow> cu_p s \<le> Suc ue"
  by (induction rule: cu_reach.induct) (auto dest: cu_step_progress)

lemma cu_reach_alloc:
  assumes reach: "cu_reach merge xs ue (cu_init xs us r) s" and ue: "us < ue"
    and args: "\<And>a. r_args_start r = Some a \<Longrightarrow> us < a \<and> xs ! (a - 1) = ch_question"
  shows "length (cu_u s) \<le> request_uri_alloc us ue r"
proof -
  define e0 where "e0 = (if r_empty_path_in_uri r then 1 else 0 :: nat)"
  have "cu_cap us e0 (r_args_start r) (cu_init xs us r)"
  proof (cases "r_args_start r")
    case None
    then show ?thesis by (simp add: cu_cap_def cu_init_def cu_next_def e0_def)
  next
    case (Some a)
    then show ?thesis
      using args [OF Some] by (cases "a = Suc us") (auto simp: cu_cap_def cu_init_def cu_next_def e0_def)
  qed
  from cu_reach_cap [OF reach this] args have "cu_cap us e0 (r_args_start r) s"
    by fastforce
  moreover have "cu_p s \<le> Suc ue"
    by (rule cu_reach_p [OF reach]) (use ue in \<open>simp add: cu_init_def cu_next_def\<close>)
  ultimately show ?thesis
    by (auto simp: cu_cap_def e0_def request_uri_alloc_def request_uri_len_def split: option.splits)
qed

section \<open>URIs that are their own normal form\<close>

text \<open>The path from \<open>us\<close> up to \<open>p\<close> has been read as \<open>q\<close>, and the two are spelled alike.\<close>

definition plain_prefix :: "bool \<Rightarrow> byte list \<Rightarrow> nat \<Rightarrow> nat \<Rightarrow> path \<Rightarrow> bool" where
  "plain_prefix merge xs us p q \<longleftrightarrow>
     us < p \<and> p \<le> length xs
     \<and> path_chars merge (segment (us + 1) p xs) ([], []) = Some q
     \<and> render_path q = segment us p xs
     \<and> set (segment (us + 1) p xs) \<inter> {ch_question, ch_hash, ch_percent} = {}"

lemma path_chars_append:
  "path_chars merge (cs @ ds) q =
     (case path_chars merge cs q of None \<Rightarrow> None | Some q' \<Rightarrow> path_chars merge ds q')"
  by (induction merge cs q rule: path_chars.induct) (auto split: option.split)

lemma plain_prefix_start:
  "us < length xs \<Longrightarrow> xs ! us = ch_slash \<Longrightarrow> plain_prefix merge xs us (Suc us) ([], [])"
  by (simp add: plain_prefix_def render_path_def segment_Suc)

lemma plain_prefix_char:
  assumes "plain_prefix merge xs us p (segs, cur)" and "p < length xs"
    and "xs ! p \<notin> {ch_question, ch_hash, ch_percent}"
    and "xs ! p = ch_slash \<Longrightarrow> cur \<notin> {[], [ch_dot], [ch_dot, ch_dot]}"
  shows "plain_prefix merge xs us (Suc p)
    (if xs ! p = ch_slash then (segs @ [cur], []) else (segs, cur @ [xs ! p]))"
  using assms
  by (auto simp: plain_prefix_def segment_Suc path_chars_append path_char_def path_slash_def
      render_path_def)

text \<open>The three stages of a scan: behind a slash, inside a segment, and the whole path read.\<close>

definition scan_after :: "bool \<Rightarrow> byte list \<Rightarrow> nat \<Rightarrow> nat \<Rightarrow> bool" where
  "scan_after merge xs us p \<longleftrightarrow>
     (\<exists>segs cur. plain_prefix merge xs us p (segs, cur) \<and> set cur \<subseteq> {ch_plus})"

definition scan_check :: "bool \<Rightarrow> byte list \<Rightarrow> nat \<Rightarrow> nat \<Rightarrow> bool" where
  "scan_check merge xs us p \<longleftrightarrow>
     (\<exists>segs cur. plain_prefix merge xs us p (segs, cur) \<and> cur \<notin> {[], [ch_dot], [ch_dot, ch_dot]})"

definition scan_end :: "bool \<Rightarrow> byte list \<Rightarrow> nat \<Rightarrow> nat \<Rightarrow> bool" where
  "scan_end merge xs us p \<longleftrightarrow>
     (\<exists>segs cur. plain_prefix merge xs us p (segs, cur) \<and> cur \<noteq> [ch_dot] \<and> cur \<noteq> [ch_dot, ch_dot])"

lemma scan_ends:
  "scan_after merge xs us p \<Longrightarrow> scan_end merge xs us p"
  "scan_check merge xs us p \<Longrightarrow> scan_end merge xs us p"
  by (fastforce simp: scan_after_def scan_check_def scan_end_def)+

lemma scan_start: "us < length xs \<Longrightarrow> xs ! us = ch_slash \<Longrightarrow> scan_after merge xs us (Suc us)"
  using plain_prefix_start by (fastforce simp: scan_after_def)

lemma scan_after_char:
  assumes "scan_after merge xs us p" and "p < length xs"
    and "xs ! p \<notin> {ch_question, ch_hash, ch_percent, ch_slash, ch_dot}"
  shows "xs ! p \<noteq> ch_plus \<Longrightarrow> scan_check merge xs us (Suc p)"
    and "xs ! p = ch_plus \<Longrightarrow> scan_after merge xs us (Suc p)"
proof -
  from assms(1) obtain segs cur where "plain_prefix merge xs us p (segs, cur)" and cur: "set cur \<subseteq> {ch_plus}"
    by (auto simp: scan_after_def)
  from plain_prefix_char [OF this(1) assms(2)] assms(3)
  have "plain_prefix merge xs us (Suc p) (segs, cur @ [xs ! p])" by auto
  with cur assms(3) show "xs ! p \<noteq> ch_plus \<Longrightarrow> scan_check merge xs us (Suc p)"
    and "xs ! p = ch_plus \<Longrightarrow> scan_after merge xs us (Suc p)"
    by (fastforce simp: scan_check_def scan_after_def)+
qed

lemma scan_check_char:
  assumes "scan_check merge xs us p" and "p < length xs"
    and "xs ! p \<notin> {ch_question, ch_hash, ch_percent}"
  shows "xs ! p = ch_slash \<Longrightarrow> scan_after merge xs us (Suc p)"
    and "xs ! p \<noteq> ch_slash \<Longrightarrow> scan_check merge xs us (Suc p)"
proof -
  from assms(1) obtain segs cur where "plain_prefix merge xs us p (segs, cur)"
    and cur: "cur \<notin> {[], [ch_dot], [ch_dot, ch_dot]}" by (auto simp: scan_check_def)
  from plain_prefix_char [OF this(1) assms(2,3)] cur
  have "plain_prefix merge xs us (Suc p)
    (if xs ! p = ch_slash then (segs @ [cur], []) else (segs, cur @ [xs ! p]))" by auto
  with cur show "xs ! p = ch_slash \<Longrightarrow> scan_after merge xs us (Suc p)"
    and "xs ! p \<noteq> ch_slash \<Longrightarrow> scan_check merge xs us (Suc p)"
    by (fastforce simp: scan_check_def scan_after_def append_eq_Cons_conv)+
qed

lemma decode_plain:
  "set cs \<inter> {ch_question, ch_hash, ch_percent} = {} \<Longrightarrow> decode_path cs = Some (cs, [])"
  "set cs \<inter> {ch_question, ch_hash, ch_percent} = {} \<Longrightarrow>
   decode_path (cs @ ch_question # ds) = Some (cs, ch_question # ds)"
  by (induction cs) auto

lemma scan_end_normalize:
  assumes "scan_end merge xs us e" and "e = ue \<or> e < ue \<and> xs ! e = ch_question" and "ue \<le> length xs"
  shows "normalize_path merge (segment (us + 1) ue xs) = Some (segment us e xs)"
proof -
  from assms(1) obtain segs cur where pre: "plain_prefix merge xs us e (segs, cur)"
    and cur: "cur \<noteq> [ch_dot]" "cur \<noteq> [ch_dot, ch_dot]" by (auto simp: scan_end_def)
  have "\<exists>rest. decode_path (segment (us + 1) ue xs) = Some (segment (us + 1) e xs, rest)"
  proof (cases "e = ue")
    case True
    with pre show ?thesis by (auto simp: plain_prefix_def decode_plain)
  next
    case False
    with assms have "segment (us + 1) ue xs = segment (us + 1) e xs @ ch_question # segment (Suc e) ue xs"
      using segment_split [of "us + 1" e ue xs] segment_Cons [of e ue xs] pre by (simp add: plain_prefix_def)
    with pre show ?thesis by (auto simp: plain_prefix_def decode_plain)
  qed
  with pre cur show ?thesis by (auto simp: normalize_path_def plain_prefix_def path_end_def)
qed

section \<open>\<open>ngx_http_parse_uri\<close> recognises them\<close>

text \<open>
  As long as no flag is raised, the path up to the arguments is its own normal form.
\<close>

fun pu_scan :: "bool \<Rightarrow> nat \<Rightarrow> byte list \<Rightarrow> nat \<Rightarrow> pu_config \<Rightarrow> bool" where
  "pu_scan merge us xs p (st, r) =
     ((st = pu_sw_start \<longleftrightarrow> p = us) \<and> (us < p \<longrightarrow> xs ! us = ch_slash)
      \<and> us \<le> p \<and> \<not> r_empty_path_in_uri r
      \<and> (r_complex_uri r \<or> r_quoted_uri r \<or>
         (case st of
            pu_sw_start \<Rightarrow> r_args_start r = None
          | pu_sw_after_slash_in_uri \<Rightarrow> r_args_start r = None \<and> scan_after merge xs us p
          | pu_sw_check_uri \<Rightarrow> r_args_start r = None \<and> scan_check merge xs us p
          | pu_sw_uri \<Rightarrow> \<exists>e. r_args_start r = Some (e + 1) \<and> us < e \<and> e < p \<and> xs ! e = ch_question
              \<and> scan_end merge xs us e)))"

lemma scan_after_usual: "scan_after merge xs us p \<Longrightarrow> p < length xs \<Longrightarrow> is_usual (xs ! p) \<Longrightarrow> scan_check merge xs us (Suc p)"
  by (intro scan_after_char(1)) (auto simp: is_usual_iff)

lemma scan_after_plus: "scan_after merge xs us p \<Longrightarrow> p < length xs \<Longrightarrow> xs ! p = ch_plus \<Longrightarrow> scan_after merge xs us (Suc p)"
  by (intro scan_after_char(2)) auto

lemma scan_check_usual: "scan_check merge xs us p \<Longrightarrow> p < length xs \<Longrightarrow> is_usual (xs ! p) \<Longrightarrow> scan_check merge xs us (Suc p)"
  by (intro scan_check_char(2)) (auto simp: is_usual_iff)

lemma scan_check_special:
  "scan_check merge xs us p \<Longrightarrow> p < length xs \<Longrightarrow> xs ! p = ch_slash \<Longrightarrow> scan_after merge xs us (Suc p)"
  "scan_check merge xs us p \<Longrightarrow> p < length xs \<Longrightarrow> xs ! p = ch_dot \<or> xs ! p = ch_plus \<Longrightarrow>
   scan_check merge xs us (Suc p)"
  by (auto intro: scan_check_char)

lemma scan_lt: "scan_after merge xs us p \<Longrightarrow> us < p" "scan_check merge xs us p \<Longrightarrow> us < p"
  by (auto simp: scan_after_def scan_check_def plain_prefix_def)

lemma pu_scan_step:
  assumes "pu_scan merge us xs p s" and "p < length xs" and "pu_step xs p s = Cont s'"
  shows "pu_scan merge us xs (Suc p) s'"
proof -
  obtain st r where s: "s = (st, r)" by (cases s)
  show ?thesis
  proof (cases st)
    case pu_sw_start
    with assms show ?thesis
      by (auto simp: s pu_step_def Let_def pu_start_def scan_start split: if_splits)
  next
    case pu_sw_after_slash_in_uri
    with assms show ?thesis
      by (auto simp: s pu_step_def Let_def pu_after_slash_in_uri_def split: if_splits
          dest: scan_lt intro: scan_after_usual scan_after_char scan_after_plus scan_ends)
  next
    case pu_sw_check_uri
    with assms show ?thesis
      by (auto simp: s pu_step_def Let_def pu_check_uri_def split: if_splits
          dest: scan_lt intro: scan_check_usual scan_check_char scan_check_special scan_ends)
  next
    case pu_sw_uri
    with assms show ?thesis
      by (auto simp: s pu_step_def Let_def pu_uri_def split: if_splits)
  qed
qed

interpretation pu_scan: byte_machine_inv pu_step "pu_scan merge us" for merge us
  by unfold_locales (rule pu_scan_step)

lemma pu_step_error: "pu_step xs p s = Exit rc s' \<Longrightarrow> rc = NGX_ERROR"
  by (cases s; cases "fst s")
     (auto simp: pu_step_def pu_start_def pu_after_slash_in_uri_def pu_check_uri_def pu_uri_def
       Let_def split: if_splits)

lemma parse_uri_scan:
  assumes "ngx_http_parse_uri xs us ue r = (NGX_OK, r')" and "us < ue" and "ue \<le> length xs"
    and "r_args_start r = None" and "\<not> r_empty_path_in_uri r"
  shows "\<exists>st. pu_scan merge us (take ue xs) ue (st, r') \<and> st \<noteq> pu_sw_start"
proof -
  have inv: "pu_scan merge us (take ue xs) us (pu_sw_start, r)" using assms(4,5) by simp
  from assms(1) obtain st where "run pu_step (take ue xs) us (pu_sw_start, r) = Suspend (st, r')"
    by (auto simp: ngx_http_parse_uri_def split: outcome.splits dest!: run_Stop_Exit pu_step_error)
  from pu_scan.run_Suspend_inv [OF inv _ this] assms(2,3)
  have "pu_scan merge us (take ue xs) ue (st, r')" by simp
  with assms(2) show ?thesis by auto
qed

lemma request_uri_rest_uri [simp]: "r_uri (request_uri_rest xs us ue r) = r_uri r"
  by (simp add: request_uri_rest_def Let_def split: option.split)

text \<open>What \<open>ngx_http_process_request_uri\<close> is to deliver.\<close>

definition uri_processed ::
  "bool \<Rightarrow> byte list \<Rightarrow> nat \<Rightarrow> nat \<Rightarrow> (uri_verdict \<times> ngx_http_request) option \<Rightarrow> bool"
where
  "uri_processed merge xs us ue res \<longleftrightarrow>
     (case normalize_path merge (segment (us + 1) ue xs) of
        None \<Rightarrow> (\<exists>r'. res = Some (uri_finalized NGX_HTTP_BAD_REQUEST, r'))
      | Some path \<Rightarrow> (\<exists>r'. res = Some (uri_ok, r') \<and> r_uri r' = path))"

lemma process_complex:
  assumes "us < ue" and "ue \<le> length xs" and "xs ! us = ch_slash" and "\<not> r_empty_path_in_uri r"
    and "r_complex_uri r \<or> r_quoted_uri r"
  shows "uri_processed merge xs us ue (ngx_http_process_request_uri xs us ue r merge True)"
  using parse_complex_uri_slash [OF assms(1-4), of merge] assms(5)
  by (auto simp: uri_processed_def ngx_http_process_request_uri_def split: option.splits)

lemma process_plain:
  assumes "us < ue" and "ue \<le> length xs" and "scan_end merge xs us e"
    and "e = ue \<and> r_args_start r = None \<or> e < ue \<and> xs ! e = ch_question \<and> r_args_start r = Some (e + 1)"
    and "\<not> r_complex_uri r" and "\<not> r_quoted_uri r" and "\<not> r_empty_path_in_uri r"
  shows "uri_processed merge xs us ue (ngx_http_process_request_uri xs us ue r merge alloc_ok)"
proof -
  have "normalize_path merge (segment (us + 1) ue xs) = Some (segment us e xs)"
    using scan_end_normalize [OF assms(3) _ assms(2)] assms(4) by auto
  moreover have "us < e" using assms(3) by (auto simp: scan_end_def plain_prefix_def)
  ultimately show ?thesis
    using assms by (auto simp: uri_processed_def ngx_http_process_request_uri_def request_uri_len_def)
qed

lemma scan_take:
  assumes "scan_end merge (take ue xs) us e" and "ue \<le> length xs"
  shows "scan_end merge xs us e"
proof -
  have "e \<le> ue" using assms by (auto simp: scan_end_def plain_prefix_def)
  then show ?thesis using assms by (auto simp: scan_end_def plain_prefix_def segment_take)
qed

lemma parse_then_process:
  assumes "ngx_http_parse_uri xs us ue r = (NGX_OK, r')" and "us < ue" and "ue \<le> length xs"
    and "r_args_start r = None" and "\<not> r_empty_path_in_uri r"
  shows "uri_processed merge xs us ue (ngx_http_process_request_uri xs us ue r' merge True)"
proof -
  from parse_uri_scan [OF assms] obtain st where
    inv: "pu_scan merge us (take ue xs) ue (st, r')" and st: "st \<noteq> pu_sw_start" by blast
  show ?thesis
  proof (cases "r_complex_uri r' \<or> r_quoted_uri r'")
    case True
    then show ?thesis using inv assms(2,3) by (intro process_complex) auto
  next
    case False
    have "\<exists>e. scan_end merge (take ue xs) us e \<and> (e = ue \<and> r_args_start r' = None
        \<or> e < ue \<and> xs ! e = ch_question \<and> r_args_start r' = Some (e + 1))"
      using inv st False by (cases st) (auto intro: scan_ends)
    then show ?thesis
      using process_plain [OF assms(2,3) scan_take] False inv assms(3) by fastforce
  qed
qed

section \<open>Properties\<close>

text \<open>C2: \<open>ngx_http_parse_complex_uri\<close> terminates and computes the normal form: decoding, dot
  segments and slashes are handled in one pass over the bytes, with a write pointer that
  is moved back, and the outcome is that of first decoding the path and then resolving its
  segments with a stack. It answers \<open>NGX_HTTP_PARSE_INVALID_REQUEST\<close> exactly for a
  malformed escape, an escaped NUL, and a \<open>..\<close> that would leave the root.\<close>

theorem complex_uri_normalizes:
  assumes "us < ue" and "ue \<le> length xs" and "xs ! us = ch_slash" and "\<not> r_empty_path_in_uri r"
  shows "\<exists>rc r'. ngx_http_parse_complex_uri xs us ue r merge = Some (rc, r') \<and>
    (case normalize_path merge (segment (us + 1) ue xs) of
       None \<Rightarrow> rc = NGX_HTTP_PARSE_INVALID_REQUEST
     | Some path \<Rightarrow> rc = NGX_OK \<and> r_uri r' = path)"
  by (rule parse_complex_uri_slash [OF assms])

theorem complex_uri_normalizes_witness:
  "\<exists>r'. ngx_http_parse_complex_uri (bytes ''/a/%2e%2E/.//b%3f?x '') 0 18 fresh_request True =
     Some (NGX_OK, r') \<and> r_uri r' = bytes ''/b?''"
proof -
  let ?xs = "bytes ''/a/%2e%2E/.//b%3f?x ''"
  have "segment 1 18 ?xs = bytes ''a/%2e%2E/.//b%3f?'' "
    by code_simp
  moreover have "normalize_path True (bytes ''a/%2e%2E/.//b%3f?'') = Some (bytes ''/b?'')"
    by code_simp
  ultimately show ?thesis
    using complex_uri_normalizes [of 0 18 ?xs fresh_request True]
    by (simp del: bytes_simps) (simp add: bytes_def)
qed

text \<open>C12: No request gets out of the document root: when the rewritten URI is accepted, it starts
  with a slash, none of its segments is \<open>.\<close> or \<open>..\<close>, however they were spelled in the
  request, and with \<open>merge_slashes\<close> none but the last is empty.\<close>

theorem complex_uri_safe:
  assumes "ngx_http_parse_complex_uri xs us ue r merge = Some (NGX_OK, r')"
    and "us < ue" and "ue \<le> length xs" and "xs ! us = ch_slash" and "\<not> r_empty_path_in_uri r"
  shows "\<exists>segs. split_on ch_slash (r_uri r') = [] # segs \<and> segs \<noteq> []
    \<and> (\<forall>seg\<in>set segs. seg \<noteq> [ch_dot] \<and> seg \<noteq> [ch_dot, ch_dot])
    \<and> (merge \<longrightarrow> (\<forall>seg\<in>set (butlast segs). seg \<noteq> []))"
  using parse_complex_uri_slash [OF assms(2-5), of merge] assms(1)
  by (auto split: option.splits dest: normalize_path_normal)

theorem complex_uri_safe_witness:
  "\<exists>r' segs. ngx_http_parse_complex_uri (bytes ''/a/../b '') 0 7 fresh_request True = Some (NGX_OK, r')
   \<and> split_on ch_slash (r_uri r') = [] # segs \<and> [ch_dot, ch_dot] \<notin> set segs"
proof -
  let ?xs = "bytes ''/a/../b ''"
  have "segment 1 7 ?xs = bytes ''a/../b''" by code_simp
  moreover have "normalize_path True (bytes ''a/../b'') = Some (bytes ''/b'')" by code_simp
  ultimately have "\<exists>r'. ngx_http_parse_complex_uri ?xs 0 7 fresh_request True = Some (NGX_OK, r')"
    using parse_complex_uri_slash [of 0 7 ?xs fresh_request True]
    by (simp del: bytes_simps) (auto simp: bytes_def)
  then obtain r' where r': "ngx_http_parse_complex_uri ?xs 0 7 fresh_request True = Some (NGX_OK, r')"
    by blast
  from complex_uri_safe [OF this] show ?thesis using r' by auto
qed

text \<open>C17: The rewritten URI fits: at every turn of the copy loop, the bytes written so far are no
  more than \<open>ngx_http_process_request_uri\<close> has allocated, the length of the path in the
  request (plus one for the slash of an empty path). Needed of the caller is only that
  \<open>args_start\<close>, when set, points behind a question mark of the URI.\<close>

theorem complex_uri_in_bounds:
  assumes "cu_reach merge xs ue (cu_init xs us r) s" and "us < ue"
    and "\<And>a. r_args_start r = Some a \<Longrightarrow> us < a \<and> xs ! (a - 1) = ch_question"
  shows "length (cu_u s) \<le> request_uri_alloc us ue r"
  by (rule cu_reach_alloc [OF assms])

theorem complex_uri_in_bounds_witness:
  "\<exists>s. cu_reach False (bytes ''/%41?b '') 6 (cu_init (bytes ''/%41?b '') 0
       (fresh_request\<lparr>r_quoted_uri := True, r_args_start := Some 5\<rparr>)) s
     \<and> cu_p s = 2 \<and> length (cu_u s) \<le> 4"
proof -
  let ?xs = "bytes ''/%41?b ''" and ?r = "fresh_request\<lparr>r_quoted_uri := True, r_args_start := Some 5\<rparr>"
  let ?s0 = "cu_init ?xs 0 ?r"
  have "cu_step False ?xs ?s0 = Cont (cu_next ?xs (cu_put ch_slash (cu_goto cu_sw_slash ?s0)))"
    by (simp add: cu_step_def cu_usual_def cu_init_def cu_act_defs Let_def)
  then have reach: "cu_reach False ?xs 6 ?s0 (cu_next ?xs (cu_put ch_slash (cu_goto cu_sw_slash ?s0)))"
    by (intro cu_reach_step [OF cu_reach_refl]) (simp_all add: cu_init_def cu_next_def)
  from complex_uri_in_bounds [OF this] show ?thesis
    using reach
    by (intro exI [of _ "cu_next ?xs (cu_put ch_slash (cu_goto cu_sw_slash ?s0))"])
       (simp add: cu_init_def cu_act_defs request_uri_alloc_def request_uri_len_def)
qed

text \<open>C16: The two-stage treatment of a URI is right: whatever flags \<open>ngx_http_parse_uri\<close> raises
  on an acceptable URI, \<open>ngx_http_process_request_uri\<close> then sets \<open>r->uri\<close> to the normal
  form of the path, or finalizes the request with 400 when there is none. In particular,
  when no flag was raised and the URI is used as it stands in the buffer, up to the
  arguments, it is its own normal form.\<close>

theorem parse_uri_then_process:
  assumes "ngx_http_parse_uri xs us ue r = (NGX_OK, r')" and "us < ue" and "ue \<le> length xs"
    and "r_args_start r = None" and "\<not> r_empty_path_in_uri r"
  shows "uri_processed merge xs us ue (ngx_http_process_request_uri xs us ue r' merge True)"
  by (rule parse_then_process [OF assms])

theorem parse_uri_then_process_witness:
  "\<exists>r' r''. ngx_http_parse_uri (bytes ''/b?c '') 0 4 fresh_request = (NGX_OK, r')
   \<and> ngx_http_process_request_uri (bytes ''/b?c '') 0 4 r' True True = Some (uri_ok, r'')
   \<and> r_uri r'' = bytes ''/b''"
proof -
  let ?xs = "bytes ''/b?c ''"
  let ?r = "fresh_request\<lparr>r_args_start := Some 3\<rparr>"
  have step: "pu_step (take 4 ?xs) 0 (pu_sw_start, fresh_request) = Cont (pu_sw_after_slash_in_uri, fresh_request)"
    "pu_step (take 4 ?xs) (Suc 0) (pu_sw_after_slash_in_uri, fresh_request) = Cont (pu_sw_check_uri, fresh_request)"
    "pu_step (take 4 ?xs) (Suc (Suc 0)) (pu_sw_check_uri, fresh_request) = Cont (pu_sw_uri, ?r)"
    "pu_step (take 4 ?xs) (Suc (Suc (Suc 0))) (pu_sw_uri, ?r) = Cont (pu_sw_uri, ?r)"
    by (simp_all add: pu_step_def pu_start_def pu_after_slash_in_uri_def pu_check_uri_def pu_uri_def
        is_usual_iff Let_def)
  have p: "ngx_http_parse_uri ?xs 0 4 fresh_request = (NGX_OK, ?r)"
    using step by (simp add: ngx_http_parse_uri_def run_Cont)
  have n: "segment (0 + 1) 4 ?xs = bytes ''b?c''" "normalize_path True (bytes ''b?c'') = Some (bytes ''/b'')"
    by code_simp+
  have "uri_processed True ?xs 0 4 (ngx_http_process_request_uri ?xs 0 4 ?r True True)"
    by (rule parse_uri_then_process [OF p]) (simp_all add: bytes_def)
  with p show ?thesis unfolding uri_processed_def n by auto
qed

end
