(* ===== verification/Http_Chunked.thy ===== *)
theory Http_Chunked
  imports Http_Types
begin

text \<open>
  \<open>ngx_http_parse_chunked\<close>: the framing of a chunked body. The parser reads chunk sizes,
  extensions and the trailer; it stops with \<open>NGX_OK\<close> in front of chunk data, which the
  caller consumes, counting \<open>ctx->size\<close> down. \<open>max_off\<close> is \<open>NGX_MAX_OFF_T_VALUE\<close>, the
  largest \<open>off_t\<close>, which another file of the program defines. Sizes are unbounded
  integers here, and it is proved that none leaves the range of \<open>off_t\<close>.
\<close>

section \<open>States and exits\<close>

record ngx_http_chunked =
  ctx_state :: nat
  ctx_size :: int
  ctx_length :: int

datatype ck_state =
    ck_sw_chunk_start | ck_sw_chunk_size | ck_sw_chunk_extension
  | ck_sw_chunk_extension_almost_done | ck_sw_chunk_data | ck_sw_after_data
  | ck_sw_after_data_almost_done | ck_sw_last_chunk_extension
  | ck_sw_last_chunk_extension_almost_done | ck_sw_trailer | ck_sw_trailer_almost_done
  | ck_sw_trailer_header | ck_sw_trailer_header_almost_done

definition ck_states :: "ck_state list" where
  "ck_states =
     [ck_sw_chunk_start, ck_sw_chunk_size, ck_sw_chunk_extension,
      ck_sw_chunk_extension_almost_done, ck_sw_chunk_data, ck_sw_after_data,
      ck_sw_after_data_almost_done, ck_sw_last_chunk_extension,
      ck_sw_last_chunk_extension_almost_done, ck_sw_trailer, ck_sw_trailer_almost_done,
      ck_sw_trailer_header, ck_sw_trailer_header_almost_done]"

datatype ck_exit = ck_data | ck_done | ck_invalid

text \<open>The variable \<open>state\<close> and \<open>ctx->size\<close>.\<close>

type_synonym ck_config = "ck_state \<times> int"
type_synonym ck_result = "(ck_config, ck_exit) step"

section \<open>One definition per \<open>case\<close>\<close>

definition ck_chunk_start :: "byte \<Rightarrow> int \<Rightarrow> ck_result" where
  "ck_chunk_start ch sz =
     (if is_digit ch then Cont (ck_sw_chunk_size, int (digit_val ch))
      else if is_hex_alpha ch then Cont (ck_sw_chunk_size, int (hex_alpha_val ch))
      else Exit ck_invalid (ck_sw_chunk_start, sz))"

definition ck_chunk_size :: "int \<Rightarrow> byte \<Rightarrow> int \<Rightarrow> ck_result" where
  "ck_chunk_size max_off ch sz =
     (if sz > max_off div 16 then Exit ck_invalid (ck_sw_chunk_size, sz)
      else if is_digit ch then Cont (ck_sw_chunk_size, sz * 16 + int (digit_val ch))
      else if is_hex_alpha ch then Cont (ck_sw_chunk_size, sz * 16 + int (hex_alpha_val ch))
      else if sz = 0 then
        (if ch = CR then Cont (ck_sw_last_chunk_extension_almost_done, sz)
         else if ch = LF then Cont (ck_sw_trailer, sz)
         else if ch = ch_semicolon \<or> ch = ch_space \<or> ch = HT
         then Cont (ck_sw_last_chunk_extension, sz)
         else Exit ck_invalid (ck_sw_chunk_size, sz))
      else if ch = CR then Cont (ck_sw_chunk_extension_almost_done, sz)
      else if ch = LF then Cont (ck_sw_chunk_data, sz)
      else if ch = ch_semicolon \<or> ch = ch_space \<or> ch = HT
      then Cont (ck_sw_chunk_extension, sz)
      else Exit ck_invalid (ck_sw_chunk_size, sz))"

text \<open>
  The cases that look for CR and LF: \<open>ck_skip\<close> ignores other bytes, \<open>ck_line_end\<close>
  rejects them, \<open>ck_lf\<close> wants the LF behind a CR.
\<close>

definition ck_skip :: "ck_state \<Rightarrow> ck_state \<Rightarrow> ck_state \<Rightarrow> byte \<Rightarrow> int \<Rightarrow> ck_result" where
  "ck_skip st on_cr on_lf ch sz =
     (if ch = CR then Cont (on_cr, sz)
      else if ch = LF then Cont (on_lf, sz)
      else Cont (st, sz))"

definition ck_lf :: "ck_state \<Rightarrow> ck_state \<Rightarrow> byte \<Rightarrow> int \<Rightarrow> ck_result" where
  "ck_lf st nxt ch sz =
     (if ch = LF then Cont (nxt, sz) else Exit ck_invalid (st, sz))"

definition ck_after_data :: "byte \<Rightarrow> int \<Rightarrow> ck_result" where
  "ck_after_data ch sz =
     (if ch = CR then Cont (ck_sw_after_data_almost_done, sz)
      else if ch = LF then Cont (ck_sw_chunk_start, sz)
      else Exit ck_invalid (ck_sw_after_data, sz))"

definition ck_trailer :: "byte \<Rightarrow> int \<Rightarrow> ck_result" where
  "ck_trailer ch sz =
     (if ch = CR then Cont (ck_sw_trailer_almost_done, sz)
      else if ch = LF then Exit ck_done (ck_sw_trailer, sz)
      else Cont (ck_sw_trailer_header, sz))"

definition ck_trailer_almost_done :: "byte \<Rightarrow> int \<Rightarrow> ck_result" where
  "ck_trailer_almost_done ch sz =
     (if ch = LF then Exit ck_done (ck_sw_trailer_almost_done, sz)
      else Exit ck_invalid (ck_sw_trailer_almost_done, sz))"

definition ck_step :: "int \<Rightarrow> byte list \<Rightarrow> nat \<Rightarrow> ck_config \<Rightarrow> ck_result" where
  "ck_step max_off xs p c =
     (case c of (st, sz) \<Rightarrow>
        let ch = xs ! p in
        case st of
          ck_sw_chunk_start \<Rightarrow> ck_chunk_start ch sz
        | ck_sw_chunk_size \<Rightarrow> ck_chunk_size max_off ch sz
        | ck_sw_chunk_extension \<Rightarrow>
            ck_skip ck_sw_chunk_extension ck_sw_chunk_extension_almost_done ck_sw_chunk_data ch sz
        | ck_sw_chunk_extension_almost_done \<Rightarrow>
            ck_lf ck_sw_chunk_extension_almost_done ck_sw_chunk_data ch sz
        | ck_sw_chunk_data \<Rightarrow> Exit ck_data (ck_sw_chunk_data, sz)
        | ck_sw_after_data \<Rightarrow> ck_after_data ch sz
        | ck_sw_after_data_almost_done \<Rightarrow>
            ck_lf ck_sw_after_data_almost_done ck_sw_chunk_start ch sz
        | ck_sw_last_chunk_extension \<Rightarrow>
            ck_skip ck_sw_last_chunk_extension ck_sw_last_chunk_extension_almost_done ck_sw_trailer ch sz
        | ck_sw_last_chunk_extension_almost_done \<Rightarrow>
            ck_lf ck_sw_last_chunk_extension_almost_done ck_sw_trailer ch sz
        | ck_sw_trailer \<Rightarrow> ck_trailer ch sz
        | ck_sw_trailer_almost_done \<Rightarrow> ck_trailer_almost_done ch sz
        | ck_sw_trailer_header \<Rightarrow>
            ck_skip ck_sw_trailer_header ck_sw_trailer_header_almost_done ck_sw_trailer ch sz
        | ck_sw_trailer_header_almost_done \<Rightarrow>
            ck_lf ck_sw_trailer_header_almost_done ck_sw_trailer ch sz)"

section \<open>Entry and the code behind the loop\<close>

definition ck_enter :: "ngx_http_chunked \<Rightarrow> ck_config option" where
  "ck_enter ctx =
     map_option
       (\<lambda>st. (if st = ck_sw_chunk_data \<and> ctx_size ctx = 0 then ck_sw_after_data else st, ctx_size ctx))
       (enum_of ck_states (ctx_state ctx))"

text \<open>The second \<open>switch (state)\<close>: \<open>ctx->length\<close>, a lower bound on what is still to come.\<close>

definition ck_length :: "ck_state \<Rightarrow> int \<Rightarrow> int" where
  "ck_length st sz =
     (case st of
        ck_sw_chunk_start \<Rightarrow> 3
      | ck_sw_chunk_size \<Rightarrow> 1 + (if sz \<noteq> 0 then sz + 4 else 1)
      | ck_sw_chunk_extension \<Rightarrow> 1 + sz + 4
      | ck_sw_chunk_extension_almost_done \<Rightarrow> 1 + sz + 4
      | ck_sw_chunk_data \<Rightarrow> sz + 4
      | ck_sw_after_data \<Rightarrow> 4
      | ck_sw_after_data_almost_done \<Rightarrow> 4
      | ck_sw_last_chunk_extension \<Rightarrow> 2
      | ck_sw_last_chunk_extension_almost_done \<Rightarrow> 2
      | ck_sw_trailer \<Rightarrow> 1
      | ck_sw_trailer_almost_done \<Rightarrow> 1
      | ck_sw_trailer_header \<Rightarrow> 2
      | ck_sw_trailer_header_almost_done \<Rightarrow> 2)"

text \<open>The label \<open>data\<close>, reached with \<open>rc\<close> at position \<open>pos\<close>.\<close>

definition ck_at_data ::
  "int \<Rightarrow> ngx_rc \<Rightarrow> nat \<Rightarrow> ck_config \<Rightarrow> ngx_http_chunked \<Rightarrow> ngx_buf
   \<Rightarrow> ngx_rc \<times> ngx_http_chunked \<times> ngx_buf"
where
  "ck_at_data max_off rc pos c ctx b =
     (case c of (st, sz) \<Rightarrow>
        let ctx = ctx\<lparr>ctx_state := enum_code ck_states st, ctx_size := sz\<rparr>;
            b = b\<lparr>buf_pos := pos\<rparr>
        in if sz > max_off - 5 then (NGX_ERROR, ctx, b)
           else (rc, ctx\<lparr>ctx_length := ck_length st sz\<rparr>, b))"

definition ngx_http_parse_chunked ::
  "int \<Rightarrow> ngx_http_chunked \<Rightarrow> ngx_buf \<Rightarrow> ngx_rc \<times> ngx_http_chunked \<times> ngx_buf"
where
  "ngx_http_parse_chunked max_off ctx b =
     (case ck_enter ctx of
        None \<Rightarrow>
          (let b = b\<lparr>buf_pos := max (buf_pos b) (length (buf_data b))\<rparr> in
           if ctx_size ctx > max_off - 5 then (NGX_ERROR, ctx, b) else (NGX_AGAIN, ctx, b))
      | Some c \<Rightarrow>
          (case run (ck_step max_off) (buf_data b) (buf_pos b) c of
             Suspend c' \<Rightarrow>
               ck_at_data max_off NGX_AGAIN (max (buf_pos b) (length (buf_data b))) c' ctx b
           | Stop p ck_data c' \<Rightarrow> ck_at_data max_off NGX_OK p c' ctx b
           | Stop p ck_done c' \<Rightarrow>
               (NGX_DONE, ctx\<lparr>ctx_state := 0, ctx_size := snd c'\<rparr>, b\<lparr>buf_pos := p + 1\<rparr>)
           | Stop p ck_invalid c' \<Rightarrow> (NGX_ERROR, ctx\<lparr>ctx_size := snd c'\<rparr>, b)))"

section \<open>Sizes stay in range\<close>

lemmas ck_case_defs =
  ck_chunk_start_def ck_chunk_size_def ck_skip_def ck_lf_def ck_after_data_def ck_trailer_def
  ck_trailer_almost_done_def

text \<open>
  Outside \<open>sw_chunk_size\<close> a size is at most a sixteenth of the largest offset; inside it
  may have one more digit, which the next byte rejects.
\<close>

fun ck_wf :: "int \<Rightarrow> ck_config \<Rightarrow> bool" where
  "ck_wf max_off (st, sz) =
     (0 \<le> sz
      \<and> (if st = ck_sw_chunk_size then sz \<le> 16 * max 0 (max_off div 16) + 15
         else sz \<le> max 0 (max_off div 16))
      \<and> (st \<in> {ck_sw_chunk_extension, ck_sw_chunk_extension_almost_done, ck_sw_chunk_data} \<longrightarrow> sz \<noteq> 0))"

lemma ck_wf_step:
  assumes "ck_wf max_off s" and "ck_step max_off xs p s = Cont s'"
  shows "ck_wf max_off s'"
proof -
  obtain st sz where s: "s = (st, sz)" by (cases s)
  show ?thesis
    using assms digit_val_less [of "xs ! p"] hex_alpha_val_bounds [of "xs ! p"]
    by (cases st) (auto simp: s ck_step_def ck_case_defs Let_def split: if_splits)
qed

lemma ck_step_append: "p < length xs \<Longrightarrow> ck_step max_off (xs @ ys) p s = ck_step max_off xs p s"
  by (simp add: ck_step_def nth_append)

interpretation ck: byte_machine "ck_step max_off" for max_off
  by unfold_locales (rule ck_step_append)

interpretation ck_wf: byte_machine_inv "ck_step max_off" "\<lambda>_ _. ck_wf max_off" for max_off
  by unfold_locales (rule ck_wf_step)

lemma set_ck_states: "st \<in> set ck_states"
  by (cases st) (simp_all add: ck_states_def)

section \<open>Resuming\<close>

definition ck_ok :: "int \<Rightarrow> ngx_http_chunked \<Rightarrow> bool" where
  "ck_ok max_off ctx \<longleftrightarrow>
     6 \<le> max_off \<and> (case ck_enter ctx of None \<Rightarrow> False | Some c \<Rightarrow> ck_wf max_off c)"

text \<open>
  What a caller can rely on: after an error nothing of the context, and at the end of the
  body not \<open>ctx->length\<close>, which is only computed on the other ways out.
\<close>

definition ck_obs ::
  "ngx_rc \<times> ngx_http_chunked \<times> ngx_buf \<Rightarrow> ngx_rc \<times> ngx_http_chunked option \<times> ngx_buf"
where
  "ck_obs a =
     (case a of (rc, ctx, b) \<Rightarrow>
        if rc = NGX_ERROR then (rc, None, b\<lparr>buf_pos := 0\<rparr>)
        else if rc = NGX_DONE then (rc, Some (ctx\<lparr>ctx_length := 0\<rparr>), b)
        else (rc, Some ctx, b))"

lemma ck_enter_saved:
  "ck_wf max_off (st, sz) \<Longrightarrow>
   ck_enter (ctx\<lparr>ctx_state := enum_code ck_states st, ctx_size := sz, ctx_length := l\<rparr>) = Some (st, sz)"
  by (auto simp: ck_enter_def enum_of_code set_ck_states)

text \<open>The code behind the loop, for one run of it.\<close>

definition ck_leave ::
  "int \<Rightarrow> (ck_config, ck_exit) outcome \<Rightarrow> ngx_http_chunked \<Rightarrow> ngx_buf \<Rightarrow> ngx_rc \<times> ngx_http_chunked \<times> ngx_buf"
where
  "ck_leave max_off out ctx b =
     (case out of
        Suspend c' \<Rightarrow> ck_at_data max_off NGX_AGAIN (max (buf_pos b) (length (buf_data b))) c' ctx b
      | Stop p ck_data c' \<Rightarrow> ck_at_data max_off NGX_OK p c' ctx b
      | Stop p ck_done c' \<Rightarrow>
          (NGX_DONE, ctx\<lparr>ctx_state := 0, ctx_size := snd c'\<rparr>, b\<lparr>buf_pos := p + 1\<rparr>)
      | Stop p ck_invalid c' \<Rightarrow> (NGX_ERROR, ctx\<lparr>ctx_size := snd c'\<rparr>, b))"

lemma parse_chunked_Some:
  "ck_enter ctx = Some c \<Longrightarrow>
   ngx_http_parse_chunked max_off ctx b =
     ck_leave max_off (run (ck_step max_off) (buf_data b) (buf_pos b) c) ctx b"
  by (simp add: ngx_http_parse_chunked_def ck_leave_def split: outcome.split ck_exit.split)

lemma ck_leave_ctx:
  "buf_data b = buf_data b' \<Longrightarrow> max (buf_pos b) (length (buf_data b)) = max (buf_pos b') (length (buf_data b')) \<Longrightarrow>
   ck_obs (ck_leave max_off out (ctx\<lparr>ctx_state := n, ctx_size := m, ctx_length := l\<rparr>) b) =
   ck_obs (ck_leave max_off out ctx b')"
  by (cases b; cases b')
     (auto simp: ck_leave_def ck_obs_def ck_at_data_def Let_def split: outcome.split ck_exit.split prod.split)

lemma ck_too_big:
  assumes "ck_wf max_off (st, sz)" and "6 \<le> max_off" and "sz > max_off - 5"
  shows "ck_step max_off xs p (st, sz) = Exit ck_invalid (st, sz)"
proof -
  have "max_off div 16 \<le> max_off - 5" using assms(2) by simp
  with assms show ?thesis
    by (auto simp: ck_step_def ck_chunk_size_def split: if_splits)
qed

lemma ck_parse_append:
  assumes pos: "buf_pos b \<le> length (buf_data b)" and ok: "ck_ok max_off ctx"
    and parse: "ngx_http_parse_chunked max_off ctx b = (rc, ctx', b')"
  shows "ck_obs (ngx_http_parse_chunked max_off ctx (b\<lparr>buf_data := buf_data b @ ys\<rparr>)) =
    ck_obs (if rc = NGX_AGAIN then ngx_http_parse_chunked max_off ctx' (b'\<lparr>buf_data := buf_data b @ ys\<rparr>)
            else (rc, ctx', b'\<lparr>buf_data := buf_data b @ ys\<rparr>))"
proof (cases "ck_enter ctx")
  case None
  with ok show ?thesis by (simp add: ck_ok_def)
next
  case (Some c)
  let ?run = "run (ck_step max_off)" and ?b = "b\<lparr>buf_data := buf_data b @ ys\<rparr>"
  note app = ck.run_append [OF pos, of max_off ys c]
  have whole: "ngx_http_parse_chunked max_off ctx ?b = ck_leave max_off (?run (buf_data b @ ys) (buf_pos b) c) ctx ?b"
    using parse_chunked_Some [OF Some, of max_off ?b] by simp
  show ?thesis
  proof (cases "?run (buf_data b) (buf_pos b) c")
    case (Stop q e c')
    with app have "?run (buf_data b @ ys) (buf_pos b) c = Stop q e c'" by simp
    moreover have "(rc, ctx', b') = ck_leave max_off (Stop q e c') ctx b"
      using parse parse_chunked_Some [OF Some, of max_off b] Stop by simp
    ultimately show ?thesis
      unfolding whole
      by (cases e) (auto simp: ck_leave_def ck_at_data_def ck_obs_def Let_def split: prod.splits if_splits)
  next
    case (Suspend c')
    obtain st sz where c': "c' = (st, sz)" by (cases c')
    have "ck_wf max_off c" and max: "6 \<le> max_off" using ok Some by (simp_all add: ck_ok_def)
    then have wf: "ck_wf max_off (st, sz)"
      using ck_wf.run_Suspend_inv [OF _ pos Suspend] unfolding c' by blast
    have run: "?run (buf_data b @ ys) (buf_pos b) c = ?run (buf_data b @ ys) (length (buf_data b)) (st, sz)"
      using app Suspend c' by simp
    have leave: "(rc, ctx', b') = ck_leave max_off (Suspend (st, sz)) ctx b"
      using parse parse_chunked_Some [OF Some, of max_off b] Suspend c' by simp
    show ?thesis
    proof (cases "sz > max_off - 5")
      case True
      have "?run (buf_data b @ ys) (length (buf_data b)) (st, sz) \<in>
          {Suspend (st, sz), Stop (length (buf_data b)) ck_invalid (st, sz)}"
        using run_Exit [where step = "ck_step max_off" and s = "(st, sz)"] ck_too_big [OF wf max True]
        by (cases ys) auto
      with leave True show ?thesis
        unfolding whole run
        by (auto simp: ck_leave_def ck_at_data_def ck_obs_def Let_def)
    next
      case False
      then have again: "rc = NGX_AGAIN"
          "ctx' = ctx\<lparr>ctx_state := enum_code ck_states st, ctx_size := sz, ctx_length := ck_length st sz\<rparr>"
          "b' = b\<lparr>buf_pos := length (buf_data b)\<rparr>"
        using leave pos by (auto simp: ck_leave_def ck_at_data_def Let_def max_absorb2)
      have "ck_enter ctx' = Some (st, sz)" unfolding again(2) by (rule ck_enter_saved [OF wf])
      note parse_chunked_Some [OF this, of max_off "b'\<lparr>buf_data := buf_data b @ ys\<rparr>"]
      then show ?thesis
        unfolding whole run using pos
        by (simp add: again ck_leave_ctx [where b' = ?b] max_absorb2)
    qed
  qed
qed

lemma ck_parse_frame:
  assumes pos: "buf_pos b \<le> length (buf_data b)" and ok: "ck_ok max_off ctx"
    and parse: "ngx_http_parse_chunked max_off ctx b = (rc, ctx', b')"
  shows "buf_data b' = buf_data b \<and> buf_pos b' \<le> length (buf_data b') \<and> (rc = NGX_AGAIN \<longrightarrow> ck_ok max_off ctx')"
proof (cases "ck_enter ctx")
  case None
  with ok show ?thesis by (simp add: ck_ok_def)
next
  case (Some c)
  let ?out = "run (ck_step max_off) (buf_data b) (buf_pos b) c"
  have leave: "(rc, ctx', b') = ck_leave max_off ?out ctx b"
    using parse parse_chunked_Some [OF Some, of max_off b] by simp
  have wf: "ck_wf max_off c" and max: "6 \<le> max_off" using ok Some by (simp_all add: ck_ok_def)
  show ?thesis
  proof (cases ?out)
    case (Stop q e c')
    with run_Stop_bounds [OF Stop] leave pos show ?thesis
      by (cases e) (auto simp: ck_leave_def ck_at_data_def Let_def split: prod.splits if_splits)
  next
    case (Suspend c')
    obtain st sz where c': "c' = (st, sz)" by (cases c')
    from ck_wf.run_Suspend_inv [OF wf pos Suspend] c' have "ck_wf max_off (st, sz)" by simp
    from ck_enter_saved [OF this] this leave Suspend c' max pos show ?thesis
      by (auto simp: ck_leave_def ck_at_data_def ck_ok_def Let_def split: if_splits)
  qed
qed

interpretation ckp: resumable_parser "ngx_http_parse_chunked max_off" ck_obs "ck_ok max_off" for max_off
proof (unfold_locales, goal_cases)
  case (1 b c rc c' b' ys)
  then show ?case by (rule ck_parse_append)
next
  case (2 b c rc c' b')
  then show ?case by (rule ck_parse_frame)
qed

section \<open>Range of sizes and lengths\<close>

lemma ck_run_wf:
  assumes "ck_wf max_off c"
  shows "run (ck_step max_off) xs p c = Suspend c' \<Longrightarrow> ck_wf max_off c'"
    and "run (ck_step max_off) xs p c = Stop q e c' \<Longrightarrow> ck_wf max_off c'"
proof -
  show "ck_wf max_off c'" if "run (ck_step max_off) xs p c = Suspend c'"
    using that assms ck_wf.run_Suspend_inv [of max_off c p xs c'] by (cases "p \<le> length xs") auto
  assume "run (ck_step max_off) xs p c = Stop q e c'"
  from ck_wf.run_Stop_inv [OF assms this] obtain t where "ck_wf max_off t"
    and "ck_step max_off xs q t = Exit e c'" by blast
  then show "ck_wf max_off c'"
    by (cases t; cases "fst t")
       (auto simp: ck_step_def ck_case_defs Let_def simp del: ck_wf.simps split: if_splits)
qed

lemma ck_wf_range:
  assumes "ck_wf max_off (st, sz)" and "max_off mod 16 = 15" and "6 \<le> max_off"
  shows "0 \<le> sz \<and> sz \<le> max_off"
proof -
  have "16 * (max_off div 16) + 15 = max_off" using assms(2) by presburger
  moreover have "max_off div 16 \<le> max_off" using assms(3) by simp
  ultimately show ?thesis using assms(1,3) by (auto split: if_splits)
qed

lemma ck_length_range:
  assumes "ck_wf max_off (st, sz)" and "6 \<le> max_off" and "\<not> sz > max_off - 5"
  shows "0 < ck_length st sz \<and> ck_length st sz \<le> max_off"
  using assms by (cases st) (auto simp: ck_length_def split: if_splits)

lemma ck_parse_range:
  assumes "ck_ok max_off ctx" and "ngx_http_parse_chunked max_off ctx b = (rc, ctx', b')"
    and "max_off mod 16 = 15"
  shows "0 \<le> ctx_size ctx' \<and> ctx_size ctx' \<le> max_off \<and>
    (rc = NGX_AGAIN \<or> rc = NGX_OK \<longrightarrow> 0 < ctx_length ctx' \<and> ctx_length ctx' \<le> max_off)"
proof -
  from assms(1) obtain c where c: "ck_enter ctx = Some c" "ck_wf max_off c" and max: "6 \<le> max_off"
    by (auto simp: ck_ok_def split: option.splits)
  define out where "out = run (ck_step max_off) (buf_data b) (buf_pos b) c"
  have leave: "(rc, ctx', b') = ck_leave max_off out ctx b"
    using assms(2) parse_chunked_Some [OF c(1), of max_off b] by (simp add: out_def)
  obtain st sz where out: "out = Suspend (st, sz) \<or> (\<exists>q e. out = Stop q e (st, sz))"
    by (cases out) auto
  then have "ck_wf max_off (st, sz)"
    using ck_run_wf [OF c(2)] unfolding out_def by blast
  note range = ck_wf_range [OF this assms(3) max] ck_length_range [OF this max]
  from out leave range show ?thesis
    by (auto simp: ck_leave_def ck_at_data_def Let_def split: ck_exit.splits if_splits)
qed

section \<open>What \<open>ctx->length\<close> promises\<close>

text \<open>A byte shortens what is still to come by at most one.\<close>

lemma ck_length_step:
  assumes "ck_wf max_off (st, sz)" and "ck_step max_off xs p (st, sz) = Cont (st', sz')"
  shows "ck_length st sz \<le> ck_length st' sz' + 1"
  using assms
  by (cases st) (auto simp: ck_step_def ck_case_defs ck_length_def Let_def split: if_splits)

interpretation ck_len: byte_machine_inv "ck_step max_off"
  "\<lambda>xs p s. ck_wf max_off s \<and> l \<le> ck_length (fst s) (snd s) + int p" for max_off l
proof (unfold_locales, goal_cases)
  case (1 xs p s s')
  then show ?case
    using ck_wf_step [of max_off s xs p s'] ck_length_step [of max_off "fst s" "snd s" xs p "fst s'" "snd s'"]
    by simp
qed

lemma ck_step_done: "ck_step max_off xs p (st, sz) = Exit ck_done s' \<Longrightarrow> ck_length st sz = 1"
  by (cases st) (auto simp: ck_step_def ck_case_defs ck_length_def Let_def split: if_splits)

lemma ck_done_length:
  assumes "ck_enter ctx = Some (st, sz)" and "ck_wf max_off (st, sz)"
    and "ngx_http_parse_chunked max_off ctx b = (NGX_DONE, ctx', b')"
  shows "ck_length st sz \<le> int (buf_pos b') - int (buf_pos b)"
proof -
  from assms(3) obtain q c' where
    run: "run (ck_step max_off) (buf_data b) (buf_pos b) (st, sz) = Stop q ck_done c'"
    and b': "buf_pos b' = q + 1"
    by (auto simp: parse_chunked_Some [OF assms(1)] ck_leave_def ck_at_data_def Let_def
        split: outcome.splits ck_exit.splits prod.splits if_splits)
  have inv: "ck_wf max_off (st, sz) \<and>
      ck_length st sz + int (buf_pos b) \<le> ck_length (fst (st, sz)) (snd (st, sz)) + int (buf_pos b)"
    using assms(2) by (simp del: ck_wf.simps)
  from ck_len.run_Stop_inv [OF inv run] obtain t where "ck_length st sz + int (buf_pos b) \<le> ck_length (fst t) (snd t) + int q"
    and "ck_step max_off (buf_data b) q t = Exit ck_done c'" by blast
  with ck_step_done [of max_off "buf_data b" q "fst t" "snd t" c'] b' show ?thesis by simp
qed

section \<open>A body in canonical form is read back\<close>

definition hex_number :: "int \<Rightarrow> byte list \<Rightarrow> int" where
  "hex_number = foldl (\<lambda>n h. n * 16 + int (the (hex_value h)))"

lemma hex_number_simps [simp]:
  "hex_number n [] = n"
  "hex_number n (h # hs) = hex_number (n * 16 + int (the (hex_value h))) hs"
  by (simp_all add: hex_number_def)

lemma hex_number_le: "0 \<le> n \<Longrightarrow> n \<le> hex_number n hs"
proof (induction hs arbitrary: n)
  case (Cons h hs)
  from Cons.IH [of "n * 16 + int (the (hex_value h))"] Cons.prems show ?case by simp
qed simp

lemma hex_value_cases:
  "hex_value h \<noteq> None \<Longrightarrow>
   is_digit h \<and> the (hex_value h) = digit_val h \<or> \<not> is_digit h \<and> is_hex_alpha h \<and> the (hex_value h) = hex_alpha_val h"
  by (auto simp: hex_value_def split: if_splits)

lemma ck_run_digits:
  assumes "drop p xs = hs @ rest" and "\<forall>h\<in>set hs. hex_value h \<noteq> None"
    and "0 \<le> n" and "hex_number n hs \<le> max_off div 16"
  shows "run (ck_step max_off) xs p (ck_sw_chunk_size, n) =
    run (ck_step max_off) xs (p + length hs) (ck_sw_chunk_size, hex_number n hs)"
  using assms
proof (induction hs arbitrary: p n)
  case Nil
  then show ?case by simp
next
  case (Cons h hs)
  let ?n = "n * 16 + int (the (hex_value h))"
  from Cons.prems have d: "drop p xs = h # hs @ rest" by simp
  have "n \<le> max_off div 16"
    using hex_number_le [of n "h # hs"] Cons.prems(3,4) by simp
  then have "ck_step max_off xs p (ck_sw_chunk_size, n) = Cont (ck_sw_chunk_size, ?n)"
    using hex_value_cases [of h] Cons.prems(2) drop_Cons_at [OF d]
    by (auto simp: ck_step_def ck_chunk_size_def)
  with Cons.IH [OF drop_Cons_at(3) [OF d], of ?n] Cons.prems drop_Cons_at(2) [OF d] show ?case
    by (simp add: run_Cont)
qed

text \<open>From the first digit to the chunk data, or to the end of a last chunk without trailer.\<close>

lemma ck_run_size:
  assumes d: "drop p xs = hs @ CR # LF # rest" and hs: "hs \<noteq> []" "\<forall>h\<in>set hs. hex_value h \<noteq> None"
    and n: "hex_number 0 hs \<le> max_off div 16"
  shows "run (ck_step max_off) xs p (ck_sw_chunk_start, sz) =
    run (ck_step max_off) xs (p + length hs + 2)
      (if hex_number 0 hs = 0 then ck_sw_trailer else ck_sw_chunk_data, hex_number 0 hs)"
proof -
  obtain h hs' where h: "hs = h # hs'" using hs(1) by (cases hs) auto
  let ?n = "int (the (hex_value h))" and ?N = "hex_number 0 hs"
  have d0: "drop p xs = h # hs' @ CR # LF # rest" using d h by simp
  note at0 = drop_Cons_at [OF d0]
  have "ck_step max_off xs p (ck_sw_chunk_start, sz) = Cont (ck_sw_chunk_size, ?n)"
    using hex_value_cases [of h] hs(2) h at0 by (auto simp: ck_step_def ck_chunk_start_def)
  then have "run (ck_step max_off) xs p (ck_sw_chunk_start, sz) =
      run (ck_step max_off) xs (Suc p + length hs') (ck_sw_chunk_size, ?N)"
    using ck_run_digits [OF at0(3), of ?n max_off] hs(2) n h at0(2) by (simp add: run_Cont)
  moreover have d1: "drop (Suc p + length hs') xs = CR # LF # rest"
    by (rule drop_append_at [OF at0(3)])
  note at1 = drop_Cons_at [OF d1] drop_Cons_at [OF drop_Cons_at(3) [OF d1]]
  have "0 \<le> ?N" using hex_number_le [of 0 hs] by simp
  then have "ck_step max_off xs (Suc p + length hs') (ck_sw_chunk_size, ?N) =
      Cont (if ?N = 0 then ck_sw_last_chunk_extension_almost_done else ck_sw_chunk_extension_almost_done, ?N)"
    using at1 n by (simp add: ck_step_def ck_chunk_size_def byte_class lower_def)
  moreover have "ck_step max_off xs (Suc (Suc p + length hs'))
      (if ?N = 0 then ck_sw_last_chunk_extension_almost_done else ck_sw_chunk_extension_almost_done, ?N) =
      Cont (if ?N = 0 then ck_sw_trailer else ck_sw_chunk_data, ?N)"
    using at1 by (simp add: ck_step_def ck_lf_def)
  ultimately show ?thesis using at1 h by (simp add: run_Cont)
qed


text \<open>
  A client that keeps the contract: whenever the parser stops in front of data, it takes
  \<open>ctx->size\<close> bytes and counts the size down to nothing. It reads \<open>body\<close> from offset
  \<open>p\<close> on and finds the end of the body at \<open>e\<close>.
\<close>

inductive chunk_client :: "int \<Rightarrow> byte list \<Rightarrow> ngx_http_chunked \<Rightarrow> nat \<Rightarrow> byte list \<Rightarrow> nat \<Rightarrow> bool"
  for max_off xs
where
  client_done: "ngx_http_parse_chunked max_off ctx \<lparr>buf_data = xs, buf_pos = p\<rparr> = (NGX_DONE, ctx', b') \<Longrightarrow>
     chunk_client max_off xs ctx p [] (buf_pos b')"
| client_data: "ngx_http_parse_chunked max_off ctx \<lparr>buf_data = xs, buf_pos = p\<rparr> = (NGX_OK, ctx', b') \<Longrightarrow>
     int (buf_pos b') + ctx_size ctx' \<le> int (length xs) \<Longrightarrow>
     q = buf_pos b' + nat (ctx_size ctx') \<Longrightarrow>
     chunk_client max_off xs (ctx'\<lparr>ctx_size := 0\<rparr>) q body e \<Longrightarrow>
     chunk_client max_off xs ctx p (segment (buf_pos b') q xs @ body) e"

text \<open>Chunks with their sizes as spelled, and the body they make.\<close>

fun chunk_wf :: "int \<Rightarrow> byte list \<times> byte list \<Rightarrow> bool" where
  "chunk_wf max_off (hs, d) \<longleftrightarrow>
     hs \<noteq> [] \<and> (\<forall>h\<in>set hs. hex_value h \<noteq> None) \<and> d \<noteq> []
     \<and> hex_number 0 hs = int (length d) \<and> int (length d) \<le> max_off div 16"

definition encode_chunks :: "(byte list \<times> byte list) list \<Rightarrow> byte list" where
  "encode_chunks cs =
     concat (map (\<lambda>(hs, d). hs @ [CR, LF] @ d @ [CR, LF]) cs) @ [ch_0, CR, LF, CR, LF]"

definition ck_between :: "ck_config \<Rightarrow> bool" where
  "ck_between c \<longleftrightarrow> fst c = ck_sw_chunk_start \<or> fst c = ck_sw_after_data"

lemma ck_run_between:
  assumes "fst c = ck_sw_after_data" and "drop p xs = CR # LF # rest"
  shows "run (ck_step max_off) xs p c = run (ck_step max_off) xs (p + 2) (ck_sw_chunk_start, snd c)"
proof -
  note at = drop_Cons_at [OF assms(2)] drop_Cons_at [OF drop_Cons_at(3) [OF assms(2)]]
  have "ck_step max_off xs p c = Cont (ck_sw_after_data_almost_done, snd c)"
    "ck_step max_off xs (Suc p) (ck_sw_after_data_almost_done, snd c) = Cont (ck_sw_chunk_start, snd c)"
    using at assms(1) by (cases c; simp add: ck_step_def ck_after_data_def ck_lf_def)+
  then show ?thesis using at by (simp add: run_Cont)
qed

lemma ck_parse_chunk:
  assumes d: "drop p xs = pre @ hs @ CR # LF # d # rest" and c: "ck_enter ctx = Some c"
    and pre: "fst c = ck_sw_chunk_start \<and> pre = [] \<or> fst c = ck_sw_after_data \<and> pre = [CR, LF]"
    and hs: "hs \<noteq> []" "\<forall>h\<in>set hs. hex_value h \<noteq> None"
    and n: "0 < hex_number 0 hs" "hex_number 0 hs \<le> max_off div 16" and max: "6 \<le> max_off"
  defines "q \<equiv> p + length pre + length hs + 2"
  shows "ngx_http_parse_chunked max_off ctx \<lparr>buf_data = xs, buf_pos = p\<rparr> =
    (NGX_OK, \<lparr>ctx_state = enum_code ck_states ck_sw_chunk_data, ctx_size = hex_number 0 hs,
              ctx_length = hex_number 0 hs + 4\<rparr>, \<lparr>buf_data = xs, buf_pos = q\<rparr>)"
proof -
  have dp: "drop (p + length pre) xs = hs @ CR # LF # d # rest" by (rule drop_append_at [OF d])
  have "run (ck_step max_off) xs p c = run (ck_step max_off) xs (p + length pre) (ck_sw_chunk_start, snd c)"
    using pre ck_run_between [of c p xs "hs @ CR # LF # d # rest" max_off] d by (cases c) auto
  also have "\<dots> = run (ck_step max_off) xs q (ck_sw_chunk_data, hex_number 0 hs)"
    using ck_run_size [OF dp hs n(2), of "snd c"] n(1) by (simp add: q_def)
  also have "\<dots> = Stop q ck_data (ck_sw_chunk_data, hex_number 0 hs)"
  proof (rule run_Exit)
    show "q < length xs" using arg_cong [OF d, of length] by (simp add: q_def)
  qed (simp add: ck_step_def)
  finally have "run (ck_step max_off) xs p c = Stop q ck_data (ck_sw_chunk_data, hex_number 0 hs)" .
  moreover have "\<not> hex_number 0 hs > max_off - 5" using n(2) max by simp
  ultimately show ?thesis
    using parse_chunked_Some [OF c, of max_off "\<lparr>buf_data = xs, buf_pos = p\<rparr>"]
    by (simp add: ck_leave_def ck_at_data_def ck_length_def)
qed

lemma ck_parse_last:
  assumes d: "drop p xs = pre @ ch_0 # CR # LF # CR # LF # rest" and c: "ck_enter ctx = Some c"
    and pre: "fst c = ck_sw_chunk_start \<and> pre = [] \<or> fst c = ck_sw_after_data \<and> pre = [CR, LF]"
    and max: "0 \<le> max_off"
  shows "\<exists>ctx'. ngx_http_parse_chunked max_off ctx \<lparr>buf_data = xs, buf_pos = p\<rparr> =
    (NGX_DONE, ctx', \<lparr>buf_data = xs, buf_pos = p + length pre + 5\<rparr>)"
proof -
  have dp: "drop (p + length pre) xs = [ch_0] @ CR # LF # CR # LF # rest"
    using drop_append_at [OF d] by simp
  have z: "hex_value ch_0 = Some 0" by (simp add: hex_value_def byte_class digit_val_def)
  let ?q = "p + length pre + 3"
  have "run (ck_step max_off) xs p c = run (ck_step max_off) xs (p + length pre) (ck_sw_chunk_start, snd c)"
    using pre ck_run_between [of c p xs "ch_0 # CR # LF # CR # LF # rest" max_off] d by (cases c) auto
  also have "\<dots> = run (ck_step max_off) xs ?q (ck_sw_trailer, 0)"
    using ck_run_size [OF dp, of max_off "snd c"] z max by (simp add: numeral_3_eq_3)
  also have "\<dots> = Stop (Suc ?q) ck_done (ck_sw_trailer_almost_done, 0)"
  proof -
    have dq: "drop ?q xs = CR # LF # rest"
      using drop_append_at [of "p + length pre" xs "[ch_0, CR, LF]"] dp by (simp add: numeral_3_eq_3)
    note at = drop_Cons_at [OF dq] drop_Cons_at [OF drop_Cons_at(3) [OF dq]]
    have "ck_step max_off xs ?q (ck_sw_trailer, 0) = Cont (ck_sw_trailer_almost_done, 0)"
      "ck_step max_off xs (Suc ?q) (ck_sw_trailer_almost_done, 0) = Exit ck_done (ck_sw_trailer_almost_done, 0)"
      using at by (simp_all add: ck_step_def ck_trailer_def ck_trailer_almost_done_def)
    then show ?thesis using at run_Exit [of "Suc ?q" xs "ck_step max_off"] by (simp add: run_Cont)
  qed
  finally show ?thesis
    using parse_chunked_Some [OF c, of max_off "\<lparr>buf_data = xs, buf_pos = p\<rparr>"]
    by (simp add: ck_leave_def)
qed

lemma client_reads_chunks:
  assumes "\<forall>c\<in>set cs. chunk_wf max_off c" and "6 \<le> max_off"
    and "drop p xs = pre @ encode_chunks cs @ rest" and "ck_enter ctx = Some c"
    and "fst c = ck_sw_chunk_start \<and> pre = [] \<or> fst c = ck_sw_after_data \<and> pre = [CR, LF]"
  shows "chunk_client max_off xs ctx p (concat (map snd cs)) (p + length pre + length (encode_chunks cs))"
  using assms
proof (induction cs arbitrary: p pre ctx c)
  case Nil
  from ck_parse_last [of p xs pre rest ctx c max_off] Nil.prems obtain ctx' where
    "ngx_http_parse_chunked max_off ctx \<lparr>buf_data = xs, buf_pos = p\<rparr> =
      (NGX_DONE, ctx', \<lparr>buf_data = xs, buf_pos = p + length pre + 5\<rparr>)"
    by (auto simp: encode_chunks_def)
  from client_done [OF this] show ?case by (simp add: encode_chunks_def eval_nat_numeral)
next
  case (Cons x cs)
  obtain hs d where x: "x = (hs, d)" by (cases x)
  with Cons.prems(1) have wf: "hs \<noteq> []" "\<forall>h\<in>set hs. hex_value h \<noteq> None" "d \<noteq> []"
    "hex_number 0 hs = int (length d)" "int (length d) \<le> max_off div 16" by auto
  obtain d0 ds where ds: "d = d0 # ds" using wf(3) by (cases d) auto
  have enc: "encode_chunks (x # cs) = hs @ CR # LF # d @ CR # LF # encode_chunks cs"
    by (simp add: x encode_chunks_def)
  let ?q = "p + length pre + length hs + 2"
  let ?ctx = "\<lparr>ctx_state = enum_code ck_states ck_sw_chunk_data, ctx_size = hex_number 0 hs,
      ctx_length = hex_number 0 hs + 4\<rparr>"
  have d0: "drop p xs = pre @ hs @ CR # LF # d0 # ds @ CR # LF # encode_chunks cs @ rest"
    using Cons.prems(3) enc ds by simp
  have pos: "0 < hex_number 0 hs" "hex_number 0 hs \<le> max_off div 16" using wf ds by simp_all
  note parse = ck_parse_chunk [OF d0 Cons.prems(4,5) wf(1,2) pos Cons.prems(2)]
  have dq: "drop ?q xs = d @ [CR, LF] @ encode_chunks cs @ rest"
    using drop_append_at [of p xs "pre @ hs @ [CR, LF]"] d0 ds by (simp add: add.assoc)
  have dr: "drop (?q + length d) xs = [CR, LF] @ encode_chunks cs @ rest"
    by (rule drop_append_at [OF dq])
  have enter: "ck_enter (?ctx\<lparr>ctx_size := 0\<rparr>) = Some (ck_sw_after_data, 0)"
    by (simp add: ck_enter_def enum_of_code set_ck_states)
  have "chunk_client max_off xs (?ctx\<lparr>ctx_size := 0\<rparr>) (?q + length d) (concat (map snd cs))
      (?q + length d + length [CR, LF] + length (encode_chunks cs))"
    by (rule Cons.IH [OF _ Cons.prems(2) dr enter]) (use Cons.prems(1) in auto)
  moreover have "segment ?q (?q + length d) xs = d" using dq by (simp add: segment_def)
  moreover have "int ?q + hex_number 0 hs \<le> int (length xs)"
    using wf(4) arg_cong [OF dq, of length] by simp
  ultimately show ?case
    using client_data [OF parse, of "?q + length d"] wf(4)
    by (simp add: x enc [unfolded x] add.assoc)
qed

section \<open>The shortest way to the end\<close>

text \<open>No client finds the end of the body with fewer bytes than \<open>ctx->length\<close>.\<close>

lemma ck_data_length:
  assumes "ck_wf max_off (st, sz)" and "run (ck_step max_off) xs p (st, sz) = Stop q ck_data (st', sz')"
  shows "st' = ck_sw_chunk_data" "0 < sz'" "sz' \<le> max 0 (max_off div 16)" "ck_length st sz \<le> sz' + 4 + int q - int p"
proof -
  have inv: "ck_wf max_off (st, sz) \<and> ck_length st sz + int p \<le> ck_length (fst (st, sz)) (snd (st, sz)) + int p"
    using assms(1) by (simp del: ck_wf.simps)
  from ck_len.run_Stop_inv [OF inv assms(2)] obtain t where t: "ck_wf max_off t"
    "ck_length st sz + int p \<le> ck_length (fst t) (snd t) + int q" "ck_step max_off xs q t = Exit ck_data (st', sz')" by blast
  have "fst t = ck_sw_chunk_data \<and> st' = ck_sw_chunk_data \<and> sz' = snd t"
    using t(3) by (cases t; cases "fst t") (auto simp: ck_step_def ck_case_defs Let_def split: if_splits)
  then show "st' = ck_sw_chunk_data" "0 < sz'" "sz' \<le> max 0 (max_off div 16)" "ck_length st sz \<le> sz' + 4 + int q - int p"
    using t(1,2) by (cases t; auto simp: ck_length_def)+
qed

lemma parse_OK:
  assumes "ck_enter ctx = Some (st, sz)" and "ngx_http_parse_chunked max_off ctx b = (NGX_OK, ctx', b')"
  obtains q st' sz' where "run (ck_step max_off) (buf_data b) (buf_pos b) (st, sz) = Stop q ck_data (st', sz')" "buf_pos b' = q"
    "ctx' = ctx\<lparr>ctx_state := enum_code ck_states st', ctx_size := sz', ctx_length := ck_length st' sz'\<rparr>"
  using assms(2)
  by (auto simp: parse_chunked_Some [OF assms(1)] ck_leave_def ck_at_data_def Let_def
      split: outcome.splits ck_exit.splits prod.splits if_splits)

lemma client_length:
  assumes "chunk_client max_off xs ctx p body e" and "ck_enter ctx = Some (st, sz)" and "ck_wf max_off (st, sz)"
  shows "ck_length st sz \<le> int e - int p"
  using assms
proof (induction arbitrary: st sz rule: chunk_client.induct)
  case (client_done ctx p ctx' b')
  then show ?case using ck_done_length [OF client_done.prems client_done.hyps] by simp
next
  case (client_data ctx p ctx' b' q body e)
  obtain r st' sz' where r: "run (ck_step max_off) xs p (st, sz) = Stop r ck_data (st', sz')" "buf_pos b' = r"
    "ctx' = ctx\<lparr>ctx_state := enum_code ck_states st', ctx_size := sz', ctx_length := ck_length st' sz'\<rparr>"
    using parse_OK [OF client_data.prems(1) client_data.hyps(1)] by auto
  note d = ck_data_length [OF client_data.prems(2) r(1)]
  have "ck_enter (ctx'\<lparr>ctx_size := 0\<rparr>) = Some (ck_sw_after_data, 0)"
    using d(1) by (simp add: r(3) ck_enter_def enum_of_code set_ck_states)
  from client_data.IH [OF this] have "4 \<le> int e - int q" by (simp add: ck_length_def)
  moreover have "int q = int r + sz'" using client_data.hyps(3) d(2) by (simp add: r)
  ultimately show ?case using d(4) by linarith
qed

text \<open>The shortest continuation: the line end, as many bytes of data, and the last chunk with bare LFs.\<close>

definition short_data :: "int \<Rightarrow> byte list" where
  "short_data sz = replicate (nat sz) NUL @ [LF, ch_0, LF, LF]"

definition short_rest :: "ck_state \<Rightarrow> int \<Rightarrow> byte list" where
  "short_rest st sz =
     (case st of
        ck_sw_chunk_start \<Rightarrow> [ch_0, LF, LF]
      | ck_sw_chunk_size \<Rightarrow> LF # (if sz \<noteq> 0 then short_data sz else [LF])
      | ck_sw_chunk_extension \<Rightarrow> LF # short_data sz
      | ck_sw_chunk_extension_almost_done \<Rightarrow> LF # short_data sz
      | ck_sw_chunk_data \<Rightarrow> short_data sz
      | ck_sw_after_data \<Rightarrow> [LF, ch_0, LF, LF]
      | ck_sw_after_data_almost_done \<Rightarrow> [LF, ch_0, LF, LF]
      | ck_sw_last_chunk_extension \<Rightarrow> [LF, LF]
      | ck_sw_last_chunk_extension_almost_done \<Rightarrow> [LF, LF]
      | ck_sw_trailer \<Rightarrow> [LF]
      | ck_sw_trailer_almost_done \<Rightarrow> [LF]
      | ck_sw_trailer_header \<Rightarrow> [LF, LF]
      | ck_sw_trailer_header_almost_done \<Rightarrow> [LF, LF])"

lemma length_short_rest: "ck_wf max_off (st, sz) \<Longrightarrow> int (length (short_rest st sz)) = ck_length st sz"
  by (cases st) (auto simp: short_rest_def short_data_def ck_length_def)

lemma short_step:
  assumes "ck_wf max_off (st, sz)" "sz \<le> max_off div 16" "0 \<le> max_off"
    and "drop p xs = short_rest st sz" "st \<noteq> ck_sw_chunk_data" "st \<noteq> ck_sw_trailer" "st \<noteq> ck_sw_trailer_almost_done"
  shows "\<exists>st' sz'. ck_step max_off xs p (st, sz) = Cont (st', sz') \<and> drop (Suc p) xs = short_rest st' sz' \<and> sz' \<le> max_off div 16"
proof -
  obtain ch rest where d: "drop p xs = ch # rest" using assms(4,5) by (cases st) (auto simp: short_rest_def)
  note at = drop_Cons_at [OF d]
  show ?thesis
    using assms at d
    by (cases st)
      (auto simp: short_rest_def ck_step_def ck_case_defs ck_length_def byte_class lower_def digit_val_def hex_value_def Let_def split: if_splits)
qed

lemma short_run:
  assumes "ck_wf max_off (st, sz)" "sz \<le> max_off div 16" "0 \<le> max_off" "drop p xs = short_rest st sz"
  shows "(\<exists>q c. run (ck_step max_off) xs p (st, sz) = Stop q ck_done c \<and> q + 1 = length xs)
    \<or> (\<exists>q sz'. run (ck_step max_off) xs p (st, sz) = Stop q ck_data (ck_sw_chunk_data, sz') \<and> q < length xs \<and> p \<le> q
          \<and> drop q xs = short_data sz' \<and> sz' \<le> max_off div 16)"
  using assms
proof (induction "length xs - p" arbitrary: p st sz rule: less_induct)
  case less
  have ne: "p < length xs"
  proof (rule ccontr)
    assume "\<not> p < length xs"
    then have "short_rest st sz = []" using less.prems(4) by simp
    then show False by (cases st) (auto simp: short_rest_def short_data_def split: if_splits)
  qed
  consider (data) "st = ck_sw_chunk_data" | (last) "st = ck_sw_trailer \<or> st = ck_sw_trailer_almost_done"
    | (more) "st \<noteq> ck_sw_chunk_data" "st \<noteq> ck_sw_trailer" "st \<noteq> ck_sw_trailer_almost_done" by blast
  then show ?case
  proof cases
    case data
    then have "run (ck_step max_off) xs p (st, sz) = Stop p ck_data (ck_sw_chunk_data, sz)"
      using ne by (intro run_Exit) (simp_all add: ck_step_def)
    then show ?thesis using less.prems data ne by (simp add: short_rest_def)
  next
    case last
    then have d: "drop p xs = [LF]" using less.prems(4) by (auto simp: short_rest_def)
    have "\<exists>c. ck_step max_off xs p (st, sz) = Exit ck_done c"
      using last drop_Cons_at [OF d] by (auto simp: ck_step_def ck_trailer_def ck_trailer_almost_done_def)
    then obtain c where "ck_step max_off xs p (st, sz) = Exit ck_done c" by blast
    then have "run (ck_step max_off) xs p (st, sz) = Stop p ck_done c" using ne by (intro run_Exit)
    moreover have "p + 1 = length xs" using arg_cong [OF d, of length] ne by simp
    ultimately show ?thesis by blast
  next
    case more
    obtain st' sz' where step: "ck_step max_off xs p (st, sz) = Cont (st', sz')" "drop (Suc p) xs = short_rest st' sz'"
      "sz' \<le> max_off div 16" using short_step [OF less.prems more] by blast
    have "length xs - Suc p < length xs - p" using ne by simp
    from less.hyps [OF this ck_wf_step [OF less.prems(1) step(1)] step(3) less.prems(3) step(2)]
    show ?thesis using step(1) ne by (auto simp: run_Cont)
  qed
qed

lemma short_client:
  assumes "ck_enter ctx = Some (st, sz)" "ck_wf max_off (st, sz)" "sz \<le> max_off div 16" "6 \<le> max_off" "drop p xs = short_rest st sz"
  shows "\<exists>body. chunk_client max_off xs ctx p body (length xs)"
  using assms
proof (induction "length xs - p" arbitrary: p st sz ctx rule: less_induct)
  case less
  have max: "0 \<le> max_off" using less.prems(4) by simp
  let ?b = "\<lparr>buf_data = xs, buf_pos = p\<rparr>"
  note parse = parse_chunked_Some [OF less.prems(1), of max_off ?b]
  from short_run [OF less.prems(2,3) max less.prems(5)] show ?case
  proof (elim disjE exE conjE)
    fix q c assume "run (ck_step max_off) xs p (st, sz) = Stop q ck_done c" "q + 1 = length xs"
    then have "ngx_http_parse_chunked max_off ctx ?b =
        (NGX_DONE, ctx\<lparr>ctx_state := 0, ctx_size := snd c\<rparr>, \<lparr>buf_data = xs, buf_pos = length xs\<rparr>)"
      using parse by (simp add: ck_leave_def)
    from client_done [OF this] show ?thesis by auto
  next
    fix q sz' assume run: "run (ck_step max_off) xs p (st, sz) = Stop q ck_data (ck_sw_chunk_data, sz')"
      and q: "q < length xs" "p \<le> q" "drop q xs = short_data sz'" "sz' \<le> max_off div 16"
    let ?ctx = "ctx\<lparr>ctx_state := enum_code ck_states ck_sw_chunk_data, ctx_size := sz', ctx_length := sz' + 4\<rparr>"
    have sz': "0 < sz'" using ck_data_length(2) [OF less.prems(2) run] .
    have "\<not> sz' > max_off - 5" using q(4) less.prems(4) by simp
    then have ok: "ngx_http_parse_chunked max_off ctx ?b = (NGX_OK, ?ctx, \<lparr>buf_data = xs, buf_pos = q\<rparr>)"
      using parse run by (simp add: ck_leave_def ck_at_data_def ck_length_def)
    let ?q = "q + nat sz'"
    have len: "length xs - q = nat sz' + 4" using arg_cong [OF q(3), of length] by (simp add: short_data_def)
    have rest: "drop ?q xs = short_rest ck_sw_after_data 0"
      using drop_append_at [of q xs "replicate (nat sz') NUL"] q(3) by (simp add: short_data_def short_rest_def)
    have enter: "ck_enter (?ctx\<lparr>ctx_size := 0\<rparr>) = Some (ck_sw_after_data, 0)"
      by (simp add: ck_enter_def enum_of_code set_ck_states)
    have shorter: "length xs - ?q < length xs - p" using sz' q(1,2) len by linarith
    have "\<exists>body. chunk_client max_off xs (?ctx\<lparr>ctx_size := 0\<rparr>) ?q body (length xs)"
      by (rule less.hyps [OF shorter enter _ _ less.prems(4) rest]) (use max in \<open>simp_all add: pos_imp_zdiv_nonneg_iff\<close>)
    then obtain body where body: "chunk_client max_off xs (?ctx\<lparr>ctx_size := 0\<rparr>) ?q body (length xs)" by blast
    have "int q + sz' \<le> int (length xs)" using len sz' q(1) by linarith
    then show ?thesis using client_data [OF ok _ _ body] by auto
  qed
qed

text \<open>A size that is too large for another digit is refused with the next byte.\<close>

lemma too_large_client:
  assumes "ck_enter ctx = Some (st, sz)" "ck_wf max_off (st, sz)" "max_off div 16 < sz" "6 \<le> max_off"
  shows "\<not> chunk_client max_off xs ctx p body e"
proof
  have st: "st = ck_sw_chunk_size" using assms(2-4) by (auto split: if_splits)
  have run: "run (ck_step max_off) xs p (st, sz) \<in> {Suspend (st, sz), Stop p ck_invalid (st, sz)}" for p
    using run_Exit [of p xs "ck_step max_off" "(st, sz)"] assms(3) by (cases "p < length xs") (auto simp: st ck_step_def ck_chunk_size_def)
  have rc: "fst (ngx_http_parse_chunked max_off ctx \<lparr>buf_data = xs, buf_pos = p\<rparr>) \<in> {NGX_AGAIN, NGX_ERROR}" for p
    using run [of p] by (auto simp: parse_chunked_Some [OF assms(1)] ck_leave_def ck_at_data_def Let_def split: if_splits)
  assume "chunk_client max_off xs ctx p body e"
  then show False by (cases rule: chunk_client.cases) (use rc [of p] in simp_all)
qed

section \<open>Properties\<close>

definition fresh_chunked :: ngx_http_chunked where
  "fresh_chunked = \<lparr>ctx_state = 0, ctx_size = 0, ctx_length = 0\<rparr>"

lemma ck_enter_fresh: "ck_enter fresh_chunked = Some (ck_sw_chunk_start, 0)"
  by (simp add: fresh_chunked_def ck_enter_def enum_of_def ck_states_def)

lemma ck_ok_fresh: "6 \<le> max_off \<Longrightarrow> ck_ok max_off fresh_chunked"
  by (simp add: ck_ok_def ck_enter_fresh)

text \<open>A chunked body may be cut into pieces anywhere, inside a size, an extension, a line end
  or the trailer: calling \<open>ngx_http_parse_chunked\<close> again for each piece gives the same
  answer, context and position as one call on all of it, for every well-formed context.\<close>

theorem chunked_resumable:
  "buf_pos b \<le> length (buf_data b) \<Longrightarrow> ck_ok max_off ctx \<Longrightarrow>
   ck_obs (feed (ngx_http_parse_chunked max_off) ctx b fs) =
   ck_obs (ngx_http_parse_chunked max_off ctx (b\<lparr>buf_data := buf_data b @ concat fs\<rparr>))"
  by (rule ckp.feed_concat)

theorem chunked_resumable_witness:
  "ck_obs (feed (ngx_http_parse_chunked 9223372036854775807) fresh_chunked \<lparr>buf_data = [], buf_pos = 0\<rparr>
     [bytes ''1'', bytes ''f'' @ [CR], [LF], bytes ''data'']) =
   ck_obs (ngx_http_parse_chunked 9223372036854775807 fresh_chunked
     \<lparr>buf_data = bytes ''1f'' @ [CR, LF] @ bytes ''data'', buf_pos = 0\<rparr>)"
  using chunked_resumable [of "\<lparr>buf_data = [], buf_pos = 0\<rparr>" 9223372036854775807 fresh_chunked
      "[bytes ''1'', bytes ''f'' @ [CR], [LF], bytes ''data'']"]
  by (simp add: ck_ok_fresh del: feed.simps)

text \<open>C22: Chunk sizes cannot overflow: whatever bytes arrive, and wherever they end, the size stays
  between 0 and the largest \<open>off_t\<close>, and so does \<open>ctx->length\<close>, which adds up to five to
  it. The only assumption is that the largest \<open>off_t\<close> has the form \<open>2^k - 1\<close> with
  \<open>k \<ge> 4\<close>, expressed by its last hexadecimal digit.\<close>

theorem chunked_in_range:
  assumes "ck_ok max_off ctx" and "max_off mod 16 = 15"
    and "ngx_http_parse_chunked max_off ctx b = (rc, ctx', b')"
  shows "0 \<le> ctx_size ctx' \<and> ctx_size ctx' \<le> max_off \<and>
    (rc = NGX_AGAIN \<or> rc = NGX_OK \<longrightarrow> 0 < ctx_length ctx' \<and> ctx_length ctx' \<le> max_off)"
  by (rule ck_parse_range [OF assms(1,3,2)])

theorem chunked_in_range_witness:
  "\<exists>rc ctx' b'. ngx_http_parse_chunked 255 fresh_chunked \<lparr>buf_data = bytes ''fffff'', buf_pos = 0\<rparr> =
     (rc, ctx', b') \<and> ctx_size ctx' \<le> 255"
proof -
  obtain rc ctx' b' where "ngx_http_parse_chunked 255 fresh_chunked
      \<lparr>buf_data = bytes ''fffff'', buf_pos = 0\<rparr> = (rc, ctx', b')" by (cases "ngx_http_parse_chunked 255
        fresh_chunked \<lparr>buf_data = bytes ''fffff'', buf_pos = 0\<rparr>") auto
  from chunked_in_range [OF _ _ this] this show ?thesis by (auto simp: ck_ok_fresh)
qed

text \<open>C21: \<open>ctx->length\<close> is exact: when a call has answered \<open>NGX_AGAIN\<close> or \<open>NGX_OK\<close>, it is the smallest number
  of bytes with which a client that takes the data can come to the end of the body. None comes there
  with less, and there is a continuation of just that length, unless the size read so far is too
  large: then no continuation is accepted.\<close>

theorem chunked_length_promise:
  assumes "ck_ok max_off ctx0" and "ngx_http_parse_chunked max_off ctx0 b0 = (rc, ctx, b1)"
    and "rc = NGX_AGAIN \<or> rc = NGX_OK"
  shows "(\<forall>xs p body e. chunk_client max_off xs ctx p body e \<longrightarrow> ctx_length ctx \<le> int e - int p)
    \<and> (if ctx_size ctx \<le> max_off div 16
       then \<exists>xs body. chunk_client max_off xs ctx 0 body (length xs) \<and> int (length xs) = ctx_length ctx
       else \<forall>xs p body e. \<not> chunk_client max_off xs ctx p body e)"
proof -
  from assms(1) obtain c where c: "ck_enter ctx0 = Some c" "ck_wf max_off c" and max: "6 \<le> max_off"
    by (auto simp: ck_ok_def split: option.splits)
  let ?out = "run (ck_step max_off) (buf_data b0) (buf_pos b0) c"
  obtain st sz where out: "?out = Suspend (st, sz) \<or> (\<exists>q e. ?out = Stop q e (st, sz))"
    and ctx: "ctx = ctx0\<lparr>ctx_state := enum_code ck_states st, ctx_size := sz, ctx_length := ck_length st sz\<rparr>"
    using assms(2,3)
    by (auto simp: parse_chunked_Some [OF c(1)] ck_leave_def ck_at_data_def Let_def
        split: outcome.splits ck_exit.splits prod.splits if_splits)
  have wf: "ck_wf max_off (st, sz)" using out ck_run_wf [OF c(2)] by blast
  note enter = ck_enter_saved [OF wf, of "ck_length st sz" ctx0, folded ctx]
  have "\<exists>xs body. chunk_client max_off xs ctx 0 body (length xs) \<and> int (length xs) = ctx_length ctx" if "sz \<le> max_off div 16"
    using short_client [OF enter wf that max, of 0 "short_rest st sz"] length_short_rest [OF wf] by (auto simp: ctx)
  then show ?thesis
    using client_length [OF _ enter wf] too_large_client [OF enter wf _ max] by (auto simp: ctx)
qed

theorem chunked_length_promise_witness:
  "\<exists>ctx b1. ngx_http_parse_chunked 255 fresh_chunked \<lparr>buf_data = [0x33, LF], buf_pos = 0\<rparr> = (NGX_AGAIN, ctx, b1)
   \<and> ctx_length ctx = 7 \<and> (\<forall>xs body e. chunk_client 255 xs ctx 0 body e \<longrightarrow> 7 \<le> e)
   \<and> (\<exists>xs body. chunk_client 255 xs ctx 0 body (length xs) \<and> length xs = 7)"
proof -
  let ?ctx = "\<lparr>ctx_state = 4, ctx_size = 3, ctx_length = 7\<rparr>"
  have a: "ngx_http_parse_chunked 255 fresh_chunked \<lparr>buf_data = [0x33, LF], buf_pos = 0\<rparr> =
      (NGX_AGAIN, ?ctx, \<lparr>buf_data = [0x33, LF], buf_pos = 2\<rparr>)"
    unfolding parse_chunked_Some [OF ck_enter_fresh]
    by (simp add: ck_leave_def ck_at_data_def ck_length_def fresh_chunked_def enum_code_def ck_states_def
        run.simps ck_step_def ck_case_defs byte_class lower_def digit_val_def)
  from chunked_length_promise [OF ck_ok_fresh a] show ?thesis unfolding a by force
qed

text \<open>C11: A chunked body is read back: a client that takes \<open>ctx->size\<close> bytes whenever the parser
  stops in front of data receives exactly the concatenated chunks and finds the end of
  the body right behind the final line end, for any number of non-empty chunks, sizes
  spelled with hexadecimal digits of either case and any number of leading zeros.\<close>

theorem chunked_body_roundtrip:
  assumes "\<forall>c\<in>set cs. chunk_wf max_off c" and "6 \<le> max_off"
    and "drop p xs = encode_chunks cs @ rest"
  shows "chunk_client max_off xs fresh_chunked p (concat (map snd cs)) (p + length (encode_chunks cs))"
  using client_reads_chunks [of cs max_off p xs "[]" rest fresh_chunked "(ck_sw_chunk_start, 0)"] assms
  by (simp add: ck_enter_fresh)

theorem chunked_body_roundtrip_witness:
  "chunk_client 255 (encode_chunks [(bytes ''03'', bytes ''abc''), (bytes ''B'', bytes ''hello world'')])
     fresh_chunked 0 (bytes ''abchello world'')
     (length (encode_chunks [(bytes ''03'', bytes ''abc''), (bytes ''B'', bytes ''hello world'')]))"
  using chunked_body_roundtrip [of "[(bytes ''03'', bytes ''abc''), (bytes ''B'', bytes ''hello world'')]"
      255 0 "encode_chunks [(bytes ''03'', bytes ''abc''), (bytes ''B'', bytes ''hello world'')]" "[]"]
  by (simp add: hex_value_def byte_class lower_def digit_val_def hex_alpha_val_def)

end
