(* ===== verification/Http_Status_Line.thy ===== *)
theory Http_Status_Line
  imports Http_Types
begin

text \<open>
  \<open>ngx_http_parse_status_line\<close>: the first line of an upstream response,
  \<open>HTTP/x.y SP code [SP text] (CR LF | LF)\<close>. The parser works on the request, whose
  \<open>state\<close> and version fields it uses, and on an \<open>ngx_http_status_t\<close>.
\<close>

section \<open>States and exits\<close>

record ngx_http_status =
  status_http_version :: nat
  status_code :: nat
  status_count :: nat
  status_start :: ptr
  status_end :: ptr

datatype sl_state =
    sl_sw_start | sl_sw_H | sl_sw_HT | sl_sw_HTT | sl_sw_HTTP | sl_sw_first_major_digit
  | sl_sw_major_digit | sl_sw_first_minor_digit | sl_sw_minor_digit | sl_sw_status
  | sl_sw_space_after_status | sl_sw_status_text | sl_sw_almost_done

definition sl_states :: "sl_state list" where
  "sl_states =
     [sl_sw_start, sl_sw_H, sl_sw_HT, sl_sw_HTT, sl_sw_HTTP, sl_sw_first_major_digit,
      sl_sw_major_digit, sl_sw_first_minor_digit, sl_sw_minor_digit, sl_sw_status,
      sl_sw_space_after_status, sl_sw_status_text, sl_sw_almost_done]"

datatype sl_exit = sl_done | sl_error

type_synonym sl_context = "ngx_http_request \<times> ngx_http_status"
type_synonym sl_config = "sl_state \<times> ngx_http_request \<times> ngx_http_status"
type_synonym sl_result = "(sl_config, sl_exit) step"

section \<open>One definition per \<open>case\<close>\<close>

text \<open>\<open>sw_start\<close> to \<open>sw_HTTP\<close>: one expected byte, one next state.\<close>

definition sl_expect ::
  "sl_state \<Rightarrow> byte \<Rightarrow> sl_state \<Rightarrow> byte \<Rightarrow> ngx_http_request \<Rightarrow> ngx_http_status \<Rightarrow> sl_result"
where
  "sl_expect st want nxt ch r s =
     (if ch = want then Cont (nxt, r, s) else Exit sl_error (st, r, s))"

definition sl_first_major_digit :: "byte \<Rightarrow> ngx_http_request \<Rightarrow> ngx_http_status \<Rightarrow> sl_result" where
  "sl_first_major_digit ch r s =
     (if ch < ch_1 \<or> ch > ch_9 then Exit sl_error (sl_sw_first_major_digit, r, s)
      else Cont (sl_sw_major_digit, r\<lparr>r_http_major := ucast (ch - ch_0)\<rparr>, s))"

definition sl_major_digit :: "byte \<Rightarrow> ngx_http_request \<Rightarrow> ngx_http_status \<Rightarrow> sl_result" where
  "sl_major_digit ch r s =
     (if ch = ch_dot then Cont (sl_sw_first_minor_digit, r, s)
      else if ch < ch_0 \<or> ch > ch_9 then Exit sl_error (sl_sw_major_digit, r, s)
      else if r_http_major r > 99 then Exit sl_error (sl_sw_major_digit, r, s)
      else Cont (sl_sw_major_digit,
             r\<lparr>r_http_major := r_http_major r * 10 + ucast (ch - ch_0)\<rparr>, s))"

definition sl_first_minor_digit :: "byte \<Rightarrow> ngx_http_request \<Rightarrow> ngx_http_status \<Rightarrow> sl_result" where
  "sl_first_minor_digit ch r s =
     (if ch < ch_0 \<or> ch > ch_9 then Exit sl_error (sl_sw_first_minor_digit, r, s)
      else Cont (sl_sw_minor_digit, r\<lparr>r_http_minor := ucast (ch - ch_0)\<rparr>, s))"

definition sl_minor_digit :: "byte \<Rightarrow> ngx_http_request \<Rightarrow> ngx_http_status \<Rightarrow> sl_result" where
  "sl_minor_digit ch r s =
     (if ch = ch_space then Cont (sl_sw_status, r, s)
      else if ch < ch_0 \<or> ch > ch_9 then Exit sl_error (sl_sw_minor_digit, r, s)
      else if r_http_minor r > 99 then Exit sl_error (sl_sw_minor_digit, r, s)
      else Cont (sl_sw_minor_digit,
             r\<lparr>r_http_minor := r_http_minor r * 10 + ucast (ch - ch_0)\<rparr>, s))"

definition sl_status :: "nat \<Rightarrow> byte \<Rightarrow> ngx_http_request \<Rightarrow> ngx_http_status \<Rightarrow> sl_result" where
  "sl_status p ch r s =
     (if ch = ch_space then Cont (sl_sw_status, r, s)
      else if ch < ch_0 \<or> ch > ch_9 then Exit sl_error (sl_sw_status, r, s)
      else
        (let s = s\<lparr>status_code := status_code s * 10 + digit_val ch,
                   status_count := status_count s + 1\<rparr>
         in if status_count s = 3
            then Cont (sl_sw_space_after_status, r, s\<lparr>status_start := Some (p - 2)\<rparr>)
            else Cont (sl_sw_status, r, s)))"

definition sl_space_after_status :: "byte \<Rightarrow> ngx_http_request \<Rightarrow> ngx_http_status \<Rightarrow> sl_result" where
  "sl_space_after_status ch r s =
     (if ch = ch_space then Cont (sl_sw_status_text, r, s)
      else if ch = ch_dot then Cont (sl_sw_status_text, r, s)
      else if ch = CR then Cont (sl_sw_almost_done, r, s)
      else if ch = LF then Exit sl_done (sl_sw_space_after_status, r, s)
      else Exit sl_error (sl_sw_space_after_status, r, s))"

definition sl_status_text :: "byte \<Rightarrow> ngx_http_request \<Rightarrow> ngx_http_status \<Rightarrow> sl_result" where
  "sl_status_text ch r s =
     (if ch = CR then Cont (sl_sw_almost_done, r, s)
      else if ch = LF then Exit sl_done (sl_sw_status_text, r, s)
      else Cont (sl_sw_status_text, r, s))"

definition sl_almost_done :: "nat \<Rightarrow> byte \<Rightarrow> ngx_http_request \<Rightarrow> ngx_http_status \<Rightarrow> sl_result" where
  "sl_almost_done p ch r s =
     (let s = s\<lparr>status_end := Some (p - 1)\<rparr> in
      if ch = LF then Exit sl_done (sl_sw_almost_done, r, s)
      else Exit sl_error (sl_sw_almost_done, r, s))"

section \<open>The \<open>switch\<close>, the loop and the epilogue\<close>

definition sl_step :: "byte list \<Rightarrow> nat \<Rightarrow> sl_config \<Rightarrow> sl_result" where
  "sl_step xs p c =
     (case c of (st, r, s) \<Rightarrow>
        let ch = xs ! p in
        case st of
          sl_sw_start \<Rightarrow> sl_expect sl_sw_start ch_H sl_sw_H ch r s
        | sl_sw_H \<Rightarrow> sl_expect sl_sw_H ch_T sl_sw_HT ch r s
        | sl_sw_HT \<Rightarrow> sl_expect sl_sw_HT ch_T sl_sw_HTT ch r s
        | sl_sw_HTT \<Rightarrow> sl_expect sl_sw_HTT ch_P sl_sw_HTTP ch r s
        | sl_sw_HTTP \<Rightarrow> sl_expect sl_sw_HTTP ch_slash sl_sw_first_major_digit ch r s
        | sl_sw_first_major_digit \<Rightarrow> sl_first_major_digit ch r s
        | sl_sw_major_digit \<Rightarrow> sl_major_digit ch r s
        | sl_sw_first_minor_digit \<Rightarrow> sl_first_minor_digit ch r s
        | sl_sw_minor_digit \<Rightarrow> sl_minor_digit ch r s
        | sl_sw_status \<Rightarrow> sl_status p ch r s
        | sl_sw_space_after_status \<Rightarrow> sl_space_after_status ch r s
        | sl_sw_status_text \<Rightarrow> sl_status_text ch r s
        | sl_sw_almost_done \<Rightarrow> sl_almost_done p ch r s)"

definition sl_enter :: "sl_context \<Rightarrow> sl_config option" where
  "sl_enter c = map_option (\<lambda>st. (st, c)) (enum_of sl_states (r_state (fst c)))"

definition sl_save :: "sl_config \<Rightarrow> sl_context" where
  "sl_save c = (case c of (st, r, s) \<Rightarrow> (r\<lparr>r_state := enum_code sl_states st\<rparr>, s))"

text \<open>The code after the label \<open>done\<close>, and \<open>return NGX_ERROR\<close>.\<close>

definition sl_leave ::
  "nat \<Rightarrow> sl_exit \<Rightarrow> sl_config \<Rightarrow> ngx_buf \<Rightarrow> ngx_rc \<times> sl_context \<times> ngx_buf"
where
  "sl_leave p e c b =
     (case c of (st, r, s) \<Rightarrow>
        case e of
          sl_done \<Rightarrow>
            (let s = (if status_end s = None then s\<lparr>status_end := Some p\<rparr> else s);
                 s = s\<lparr>status_http_version := unat (r_http_major r) * 1000 + unat (r_http_minor r)\<rparr>
             in (NGX_OK, (r\<lparr>r_state := enum_code sl_states sl_sw_start\<rparr>, s), b\<lparr>buf_pos := p + 1\<rparr>))
        | sl_error \<Rightarrow> (NGX_ERROR, (r, s), b))"

definition ngx_http_parse_status_line ::
  "sl_context \<Rightarrow> ngx_buf \<Rightarrow> ngx_rc \<times> sl_context \<times> ngx_buf"
where
  "ngx_http_parse_status_line c b =
     (case sl_enter c of
        None \<Rightarrow> (NGX_AGAIN, c, b\<lparr>buf_pos := max (buf_pos b) (length (buf_data b))\<rparr>)
      | Some s \<Rightarrow>
          (case run sl_step (buf_data b) (buf_pos b) s of
             Suspend s' \<Rightarrow>
               (NGX_AGAIN, sl_save s', b\<lparr>buf_pos := max (buf_pos b) (length (buf_data b))\<rparr>)
           | Stop p e s' \<Rightarrow> sl_leave p e s' b))"

section \<open>The contracts of the machine\<close>

lemmas sl_case_defs =
  sl_expect_def sl_first_major_digit_def sl_major_digit_def sl_first_minor_digit_def
  sl_minor_digit_def sl_status_def sl_space_after_status_def sl_status_text_def
  sl_almost_done_def

lemma set_sl_states: "st \<in> set sl_states"
  by (cases st) (simp_all add: sl_states_def)

definition sl_set_state :: "nat \<Rightarrow> sl_config \<Rightarrow> sl_config" where
  "sl_set_state n = map_prod id (map_prod (\<lambda>r. r\<lparr>r_state := n\<rparr>) id)"

lemma sl_step_frame: "sl_step xs p (sl_set_state n c) = map_step (sl_set_state n) id (sl_step xs p c)"
proof (cases c)
  case (fields st r s)
  show ?thesis
    unfolding fields
    by (cases st) (simp_all add: sl_set_state_def sl_step_def sl_case_defs Let_def)
qed

definition sl_obs :: "ngx_rc \<times> sl_context \<times> ngx_buf \<Rightarrow> ngx_rc \<times> sl_context \<times> ngx_buf" where
  "sl_obs a =
     (case a of (rc, (r, s), b) \<Rightarrow>
        if rc = NGX_ERROR then (rc, (r\<lparr>r_state := 0\<rparr>, s), b\<lparr>buf_pos := 0\<rparr>) else (rc, (r, s), b))"

interpretation sl: suspendable_parser sl_step sl_enter sl_save sl_leave
  "\<lambda>t. sl_set_state (enum_code sl_states (fst t))" ngx_http_parse_status_line sl_obs
proof (unfold_locales, goal_cases)
  case (1 p xs ys s)
  then show ?case by (simp add: sl_step_def nth_append)
next
  case (2 r b)
  show ?case by (simp add: ngx_http_parse_status_line_def split: option.split outcome.split)
next
  case (3 s)
  show ?case
    by (cases s) (simp add: sl_enter_def sl_save_def sl_set_state_def enum_of_code set_sl_states)
next
  case (4 xs p t s)
  show ?case by (rule sl_step_frame)
next
  case (5 t s)
  show ?case by (cases s) (simp add: sl_save_def sl_set_state_def)
next
  case (6 xs q s e s' b)
  show ?case by (cases e; cases s') (simp_all add: sl_leave_def Let_def)
next
  case (7 xs q s e s' t b k)
  show ?case by (cases e; cases s') (simp_all add: sl_leave_def sl_obs_def sl_set_state_def Let_def)
next
  case (8 q e s' b ys)
  show ?case by (cases e; cases s') (simp_all add: sl_leave_def Let_def)
next
  case (9 q e s' b rc c' b')
  then show ?case by (cases e; cases s') (auto simp: sl_leave_def Let_def)
qed

section \<open>What a parsed status line guarantees\<close>

text \<open>
  The code so far: from \<open>q\<close> on there are digits and spaces only, and the digits spell the
  number.
\<close>

definition sl_code_at :: "byte list \<Rightarrow> nat \<Rightarrow> nat \<Rightarrow> ngx_http_status \<Rightarrow> bool" where
  "sl_code_at xs q p s \<longleftrightarrow>
     q \<le> p \<and> all_in xs q p (\<lambda>ch. is_digit ch \<or> ch = ch_space)
     \<and> status_count s = length (filter is_digit (segment q p xs))
     \<and> status_code s = decimal (filter is_digit (segment q p xs))"

fun sl_inv :: "byte list \<Rightarrow> nat \<Rightarrow> sl_config \<Rightarrow> bool" where
  "sl_inv xs p (st, r, s) =
     (status_end s = None \<and>
      (case st of
         sl_sw_major_digit \<Rightarrow> r_http_major r \<le> 999 \<and> status_count s = 0 \<and> status_code s = 0
       | sl_sw_first_minor_digit \<Rightarrow> r_http_major r \<le> 999 \<and> status_count s = 0 \<and> status_code s = 0
       | sl_sw_minor_digit \<Rightarrow>
           r_http_major r \<le> 999 \<and> r_http_minor r \<le> 999 \<and> status_count s = 0 \<and> status_code s = 0
       | sl_sw_status \<Rightarrow>
           r_http_major r \<le> 999 \<and> r_http_minor r \<le> 999 \<and> status_count s < 3
           \<and> (\<exists>q. sl_code_at xs q p s)
       | sl_sw_space_after_status \<Rightarrow>
           r_http_major r \<le> 999 \<and> r_http_minor r \<le> 999 \<and> status_count s = 3
           \<and> (\<exists>q b. status_start s = Some b \<and> sl_code_at xs q (b + 3) s \<and> b + 3 \<le> p)
       | sl_sw_status_text \<Rightarrow>
           r_http_major r \<le> 999 \<and> r_http_minor r \<le> 999 \<and> status_count s = 3
           \<and> (\<exists>q b. status_start s = Some b \<and> sl_code_at xs q (b + 3) s \<and> b + 3 \<le> p)
       | sl_sw_almost_done \<Rightarrow>
           r_http_major r \<le> 999 \<and> r_http_minor r \<le> 999 \<and> status_count s = 3
           \<and> (\<exists>q b. status_start s = Some b \<and> sl_code_at xs q (b + 3) s \<and> b + 3 < p)
       | _ \<Rightarrow> status_count s = 0 \<and> status_code s = 0))"

lemma ucast_digit_le_16:
  "\<not> (ch < ch_0 \<or> ch > ch_9) \<Longrightarrow> (ucast (ch - ch_0) :: 16 word) \<le> 9"
  by (auto simp: word_le_nat_alt not_less unat_digit)

lemma version_digit_le: "(m :: 16 word) \<le> 99 \<Longrightarrow> d \<le> 9 \<Longrightarrow> m * 10 + d \<le> 999"
  by (simp add: word_le_nat_alt unat_word_ariths)

lemma sl_code_space: "sl_code_at xs q p s \<Longrightarrow> p < length xs \<Longrightarrow> xs ! p = ch_space \<Longrightarrow> sl_code_at xs q (Suc p) s"
  by (simp add: sl_code_at_def segment_Suc byte_class)

lemma sl_code_digit:
  assumes "sl_code_at xs q p s" and "p < length xs" and "\<not> (xs ! p < ch_0 \<or> xs ! p > ch_9)"
  shows "sl_code_at xs q (Suc p)
    (s\<lparr>status_code := status_code s * 10 + digit_val (xs ! p), status_count := status_count s + 1\<rparr>)"
proof -
  have "is_digit (xs ! p)" using assms(3) by (simp add: is_digit_def not_less)
  then show ?thesis using assms(1,2) by (simp add: sl_code_at_def segment_Suc decimal_snoc)
qed

lemma sl_code_cong: "sl_code_at xs q p s \<Longrightarrow> status_count s' = status_count s \<Longrightarrow> status_code s' = status_code s \<Longrightarrow> sl_code_at xs q p s'"
  by (simp add: sl_code_at_def)

lemma sl_code_at_start: "status_count s = 0 \<Longrightarrow> status_code s = 0 \<Longrightarrow> sl_code_at xs p p s"
  by (simp add: sl_code_at_def decimal_def)

lemma sl_code_at_long:
  assumes "sl_code_at xs q p s" shows "status_count s \<le> p - q"
proof -
  have "length (filter is_digit (segment q p xs)) \<le> length (segment q p xs)"
    by (rule length_filter_le)
  also have "\<dots> \<le> p - q" by simp
  finally show ?thesis using assms by (simp add: sl_code_at_def)
qed

lemma sl_inv_status:
  assumes inv: "sl_inv xs p (sl_sw_status, r, s)" and p: "p < length xs"
    and step: "sl_step xs p (sl_sw_status, r, s) = Cont c'"
  shows "sl_inv xs (Suc p) c'"
proof -
  from inv obtain q where v: "r_http_major r \<le> 999" "r_http_minor r \<le> 999" "status_count s < 3"
    "status_end s = None" and q: "sl_code_at xs q p s" by auto
  show ?thesis
  proof (cases "xs ! p = ch_space")
    case True
    with step v sl_code_space [OF q p True] show ?thesis
      by (auto simp: sl_step_def sl_status_def)
  next
    case False
    let ?s = "s\<lparr>status_code := status_code s * 10 + digit_val (xs ! p), status_count := status_count s + 1\<rparr>"
    have dig: "\<not> (xs ! p < ch_0 \<or> xs ! p > ch_9)"
      using step False by (auto simp: sl_step_def sl_status_def split: if_splits)
    note q' = sl_code_digit [OF q p dig]
    show ?thesis
    proof (cases "status_count s + 1 = 3")
      case True
      then have c': "c' = (sl_sw_space_after_status, r, ?s\<lparr>status_start := Some (p - 2)\<rparr>)"
        using step False dig by (simp add: sl_step_def sl_status_def)
      have "2 \<le> p" using sl_code_at_long [OF q] True by simp
      then have "p - 2 + 3 = Suc p" by simp
      with q' have "sl_code_at xs q (p - 2 + 3) (?s\<lparr>status_start := Some (p - 2)\<rparr>)"
        by (auto intro: sl_code_cong)
      with v True \<open>p - 2 + 3 = Suc p\<close> show ?thesis unfolding c' by auto
    next
      case c: False
      then have "c' = (sl_sw_status, r, ?s)"
        using step False dig by (simp add: sl_step_def sl_status_def)
      with v q' c show ?thesis by auto
    qed
  qed
qed

lemma sl_inv_step:
  assumes "sl_inv xs p c" and "p < length xs" and "sl_step xs p c = Cont c'"
  shows "sl_inv xs (Suc p) c'"
proof -
  obtain st r s where c: "c = (st, r, s)" by (cases c)
  note dig = ucast_digit_le_16 [of "xs ! p"]
  have nine: "(ucast (xs ! p - ch_0) :: 16 word) \<le> 999" if "\<not> (xs ! p < ch_0 \<or> xs ! p > ch_9)"
    using dig [OF that] by (rule order_trans) simp
  have one: "\<not> (ch < ch_1 \<or> ch > ch_9) \<Longrightarrow> \<not> (ch < ch_0 \<or> ch > ch_9)" for ch :: byte
    by (auto simp: word_less_nat_alt)
  show ?thesis
  proof (cases st)
    case sl_sw_status
    with assms c show ?thesis by (blast intro: sl_inv_status)
  next
    case sl_sw_first_major_digit
    with assms nine one [of "xs ! p"] show ?thesis unfolding c
      by (auto simp: sl_step_def sl_first_major_digit_def Let_def split: if_splits)
  next
    case sl_sw_first_minor_digit
    with assms nine show ?thesis unfolding c
      by (auto simp: sl_step_def sl_first_minor_digit_def Let_def split: if_splits)
  next
    case sl_sw_major_digit
    with assms dig show ?thesis unfolding c
      by (auto simp: sl_step_def sl_major_digit_def Let_def not_less split: if_splits
          intro!: version_digit_le)
  next
    case sl_sw_minor_digit
    with assms dig sl_code_at_start [of s xs "Suc p"] show ?thesis unfolding c
      by (auto simp: sl_step_def sl_minor_digit_def Let_def not_less split: if_splits
          intro!: version_digit_le)
  qed (use assms c in \<open>auto simp: sl_step_def sl_expect_def sl_space_after_status_def
        sl_status_text_def sl_almost_done_def Let_def split: if_splits intro: le_SucI\<close>)
qed

interpretation sl_inv: byte_machine_inv sl_step sl_inv
  by unfold_locales (rule sl_inv_step)


lemma sl_step_done:
  assumes inv: "sl_inv xs p (st, r, s)" and step: "sl_step xs p (st, r, s) = Exit sl_done (st', r', s')"
  shows "xs ! p = LF \<and> r_http_major r' \<le> 999 \<and> r_http_minor r' \<le> 999 \<and> status_count s' = 3
    \<and> (\<exists>q b. status_start s' = Some b \<and> sl_code_at xs q (b + 3) s' \<and> b + 3 \<le> p
         \<and> (status_end s' = None \<or> status_end s' = Some (p - 1) \<and> b + 3 \<le> p - 1))"
proof (cases st)
  case sl_sw_almost_done
  with inv obtain q b where i: "r_http_major r \<le> 999" "r_http_minor r \<le> 999" "status_count s = 3"
    "status_start s = Some b" "sl_code_at xs q (b + 3) s" "b + 3 < p" by auto
  have s': "xs ! p = LF" "r' = r" "s' = s\<lparr>status_end := Some (p - 1)\<rparr>"
    using step sl_sw_almost_done by (auto simp: sl_step_def sl_almost_done_def Let_def split: if_splits)
  have "sl_code_at xs q (b + 3) s'" using i(5) by (rule sl_code_cong) (simp_all add: s')
  with i s' show ?thesis by auto
qed (use inv step in \<open>auto simp: sl_step_def sl_case_defs Let_def split: if_splits\<close>)

definition sl_fresh :: "sl_context \<Rightarrow> bool" where
  "sl_fresh c \<longleftrightarrow>
     r_state (fst c) = 0 \<and> status_code (snd c) = 0 \<and> status_count (snd c) = 0 \<and> status_end (snd c) = None"

lemma sl_parse_OK:
  assumes "ngx_http_parse_status_line c b = (NGX_OK, (r', s'), b')" and "sl_fresh c"
  shows "\<exists>q bg e. status_start s' = Some bg \<and> status_end s' = Some e
    \<and> q \<le> bg + 3 \<and> bg + 3 \<le> e \<and> e < buf_pos b' \<and> buf_pos b' \<le> length (buf_data b)
    \<and> buf_data b ! (buf_pos b' - 1) = LF
    \<and> (\<forall>ch\<in>set (segment q (bg + 3) (buf_data b)). is_digit ch \<or> ch = ch_space)
    \<and> (let ds = filter is_digit (segment q (bg + 3) (buf_data b)) in
         length ds = 3 \<and> status_code s' = decimal ds)
    \<and> (\<exists>major minor. major \<le> 999 \<and> minor \<le> 999 \<and> status_http_version s' = major * 1000 + minor)"
proof -
  let ?xs = "buf_data b"
  have enter: "sl_enter c = Some (sl_sw_start, c)"
    using assms(2) by (simp add: sl_enter_def sl_fresh_def enum_of_def sl_states_def)
  obtain p st r s where run: "run sl_step ?xs (buf_pos b) (sl_sw_start, c) = Stop p sl_done (st, r, s)"
    and leave: "sl_leave p sl_done (st, r, s) b = (NGX_OK, (r', s'), b')"
    using assms(1)
    by (auto simp: ngx_http_parse_status_line_def enter sl_leave_def Let_def
        split: outcome.splits sl_exit.splits prod.splits)
  have "sl_inv ?xs (buf_pos b) (sl_sw_start, c)"
    using assms(2) by (cases c) (simp add: sl_fresh_def)
  from sl_inv.run_Stop_inv [OF this run] obtain t where p: "p < length ?xs" and "sl_inv ?xs p t"
    and "sl_step ?xs p t = Exit sl_done (st, r, s)" by blast
  then have fin: "?xs ! p = LF \<and> r_http_major r \<le> 999 \<and> r_http_minor r \<le> 999 \<and> status_count s = 3
    \<and> (\<exists>q b. status_start s = Some b \<and> sl_code_at ?xs q (b + 3) s \<and> b + 3 \<le> p
         \<and> (status_end s = None \<or> status_end s = Some (p - 1) \<and> b + 3 \<le> p - 1))"
    by (cases t) (blast dest: sl_step_done)
  then obtain q bg where ptr: "status_start s = Some bg" "bg + 3 \<le> p"
      "status_end s = None \<or> status_end s = Some (p - 1) \<and> bg + 3 \<le> p - 1"
    and code: "sl_code_at ?xs q (bg + 3) s" by blast
  have "\<forall>ch\<in>set (segment q (bg + 3) ?xs). is_digit ch \<or> ch = ch_space"
    using code ptr(2) p by (simp add: sl_code_at_def flip: all_in_segment)
  moreover have "unat (r_http_major r) \<le> 999" "unat (r_http_minor r) \<le> 999"
    using fin by (simp_all add: word_le_nat_alt)
  moreover have "q \<le> bg + 3" "length (filter is_digit (segment q (bg + 3) ?xs)) = 3"
    "status_code s = decimal (filter is_digit (segment q (bg + 3) ?xs))"
    using code fin by (simp_all add: sl_code_at_def)
  moreover define e where "e = (case status_end s of None \<Rightarrow> p | Some e \<Rightarrow> e)"
  have s': "s' = s\<lparr>status_end := Some e,
      status_http_version := unat (r_http_major r) * 1000 + unat (r_http_minor r)\<rparr>"
    and b': "buf_pos b' = p + 1"
    using leave by (auto simp: sl_leave_def e_def Let_def split: option.splits)
  moreover have "bg + 3 \<le> e" "e < p + 1" using ptr by (auto simp: e_def)
  ultimately show ?thesis
    using ptr(1) p fin
    by (intro exI [of _ q] exI [of _ bg] exI [of _ e]) (simp add: Let_def, blast)
qed

lemma sl_feed_OK:
  assumes "feed ngx_http_parse_status_line c b fs = (NGX_OK, c', b')"
    and "buf_pos b \<le> length (buf_data b)"
  shows "ngx_http_parse_status_line c (b\<lparr>buf_data := buf_data b @ concat fs\<rparr>) = (NGX_OK, c', b')"
proof -
  obtain rc2 c2 b2 where eq: "ngx_http_parse_status_line c (b\<lparr>buf_data := buf_data b @ concat fs\<rparr>) = (rc2, c2, b2)"
    by (cases "ngx_http_parse_status_line c (b\<lparr>buf_data := buf_data b @ concat fs\<rparr>)") auto
  have "sl_obs (NGX_OK, c', b') = sl_obs (rc2, c2, b2)"
    using sl.feed_whole [OF assms(2), of c fs] unfolding assms(1) eq .
  then show ?thesis unfolding eq by (cases rc2; cases c'; cases c2) (simp_all add: sl_obs_def)
qed

section \<open>A canonical status line is parsed back\<close>

definition canonical_status :: "byte list \<Rightarrow> byte list \<Rightarrow> byte list" where
  "canonical_status ds reason = bytes ''HTTP/1.1 '' @ ds @ ch_space # reason @ [CR, LF]"

lemma sl_run_http11:
  assumes d: "drop p xs = bytes ''HTTP/1.1 '' @ rest"
  shows "run sl_step xs p (sl_sw_start, r, s) =
    run sl_step xs (p + 9) (sl_sw_status, r\<lparr>r_http_major := 1, r_http_minor := 1\<rparr>, s)"
proof -
  let ?r1 = "r\<lparr>r_http_major := 1\<rparr>" and ?r2 = "r\<lparr>r_http_major := 1, r_http_minor := 1\<rparr>"
  define f where "f i = [(sl_sw_start, r, s), (sl_sw_H, r, s), (sl_sw_HT, r, s), (sl_sw_HTT, r, s),
    (sl_sw_HTTP, r, s), (sl_sw_first_major_digit, r, s), (sl_sw_major_digit, ?r1, s),
    (sl_sw_first_minor_digit, ?r1, s), (sl_sw_minor_digit, ?r2, s), (sl_sw_status, ?r2, s)] ! i" for i
  have len: "p + 9 \<le> length xs"
    using arg_cong [OF d, of length] by simp
  have at: "xs ! (p + i) = (bytes ''HTTP/1.1 '' @ rest) ! i" for i
    using nth_drop [of p xs i] len d by simp
  have "sl_step xs (p + i) (f i) = Cont (f (Suc i))" if "i < 9" for i
  proof -
    from that consider "i = 0" | "i = 1" | "i = 2" | "i = 3" | "i = 4" | "i = 5" | "i = 6" | "i = 7" | "i = 8"
      by linarith
    then show ?thesis
      using at [of i] by cases (simp_all add: f_def sl_step_def sl_case_defs)
  qed
  from run_path [of p 9 xs sl_step f, OF len this] show ?thesis by (simp add: f_def)
qed

lemma sl_run_code:
  assumes d: "drop p xs = [d1, d2, d3] @ ch_space # rest" and dig: "\<forall>x\<in>{d1, d2, d3}. is_digit x"
    and s: "status_code s = 0" "status_count s = 0"
  shows "run sl_step xs p (sl_sw_status, r, s) =
    run sl_step xs (p + 4) (sl_sw_status_text, r,
      s\<lparr>status_code := decimal [d1, d2, d3], status_count := 3, status_start := Some p\<rparr>)"
proof -
  let ?s = "\<lambda>n c. s\<lparr>status_code := c, status_count := n\<rparr>"
  define f where "f i = [(sl_sw_status, r, s), (sl_sw_status, r, ?s 1 (decimal [d1])),
    (sl_sw_status, r, ?s 2 (decimal [d1, d2])),
    (sl_sw_space_after_status, r, ?s 3 (decimal [d1, d2, d3])\<lparr>status_start := Some p\<rparr>),
    (sl_sw_status_text, r, ?s 3 (decimal [d1, d2, d3])\<lparr>status_start := Some p\<rparr>)] ! i" for i
  have len: "p + 4 \<le> length xs" using arg_cong [OF d, of length] by simp
  have at: "xs ! (p + i) = ([d1, d2, d3] @ ch_space # rest) ! i" for i
    using nth_drop [of p xs i] len d by simp
  have no: "x \<noteq> ch_space" "\<not> x < ch_0" "\<not> ch_9 < x" if "is_digit x" for x
    using that by (auto simp: byte_class not_less)
  have "sl_step xs (p + i) (f i) = Cont (f (Suc i))" if "i < 4" for i
  proof -
    from that consider "i = 0" | "i = 1" | "i = 2" | "i = 3" by linarith
    then show ?thesis
      using at [of i] dig s no [of d1] no [of d2] no [of d3]
      by cases (simp_all add: f_def sl_step_def sl_status_def sl_space_after_status_def decimal_def Let_def
          numeral_2_eq_2)
  qed
  from run_path [of p 4 xs sl_step f, OF len this] show ?thesis by (simp add: f_def)
qed

lemma sl_run_text:
  assumes d: "drop p xs = reason @ CR # LF # rest" and "\<forall>ch\<in>set reason. ch \<noteq> CR \<and> ch \<noteq> LF"
  shows "run sl_step xs p (sl_sw_status_text, r, s) =
    Stop (p + length reason + 1) sl_done
      (sl_sw_almost_done, r, s\<lparr>status_end := Some (p + length reason)\<rparr>)"
proof -
  let ?q = "p + length reason"
  have all: "all_in xs p ?q (\<lambda>ch. ch \<noteq> CR \<and> ch \<noteq> LF)" using all_in_drop [OF assms] by simp
  note e = drop_append_at [OF d]
  note cr = drop_Cons_at [OF e] note lf = drop_Cons_at [OF cr(3)]
  have "run sl_step xs p (sl_sw_status_text, r, s) = run sl_step xs ?q (sl_sw_status_text, r, s)"
    using cr(2) by (intro run_block_same) (auto simp: sl_step_def sl_status_text_def dest: all_inD [OF all])
  also have "\<dots> = run sl_step xs (Suc ?q) (sl_sw_almost_done, r, s)"
    using cr by (intro run_Cont) (simp_all add: sl_step_def sl_status_text_def)
  also have "\<dots> = Stop (Suc ?q) sl_done (sl_sw_almost_done, r, s\<lparr>status_end := Some ?q\<rparr>)"
    using lf by (intro run_Exit) (simp_all add: sl_step_def sl_almost_done_def)
  finally show ?thesis by simp
qed

lemma sl_parse_canonical:
  assumes ds: "length ds = 3" "\<forall>d\<in>set ds. is_digit d"
    and reason: "\<forall>ch\<in>set reason. ch \<noteq> CR \<and> ch \<noteq> LF" and fresh: "sl_fresh (r, s)"
    and d: "drop (buf_pos b) (buf_data b) = canonical_status ds reason @ rest"
  shows "ngx_http_parse_status_line (r, s) b =
    (NGX_OK, (r\<lparr>r_http_major := 1, r_http_minor := 1\<rparr>,
       s\<lparr>status_code := decimal ds, status_count := 3, status_start := Some (buf_pos b + 9),
         status_end := Some (buf_pos b + 13 + length reason), status_http_version := 1001\<rparr>),
     b\<lparr>buf_pos := buf_pos b + 15 + length reason\<rparr>)"
proof -
  let ?p = "buf_pos b" and ?xs = "buf_data b"
  obtain d1 d2 d3 where ds3: "ds = [d1, d2, d3]"
    using ds(1) by (auto simp: numeral_3_eq_3 length_Suc_conv)
  have dh: "drop ?p ?xs = bytes ''HTTP/1.1 '' @ [d1, d2, d3] @ ch_space # reason @ CR # LF # rest"
    using d by (simp add: canonical_status_def ds3)
  have dc: "drop (?p + 9) ?xs = [d1, d2, d3] @ ch_space # reason @ CR # LF # rest"
    using drop_append_at [OF dh] by (simp add: eval_nat_numeral)
  have dt: "drop (?p + 13) ?xs = reason @ CR # LF # rest"
    using drop_append_at [of "?p + 9" ?xs "[d1, d2, d3, ch_space]" "reason @ CR # LF # rest"] dc by (simp add: add.commute)
  have enter: "sl_enter (r, s) = Some (sl_sw_start, r, s)"
    using fresh by (simp add: sl_enter_def sl_fresh_def enum_of_def sl_states_def)
  have z: "status_code s = 0" "status_count s = 0" "r_state r = 0" using fresh by (simp_all add: sl_fresh_def)
  have r0: "r\<lparr>r_http_major := 1, r_http_minor := 1, r_state := 0\<rparr> = r\<lparr>r_http_major := 1, r_http_minor := 1\<rparr>"
    using z(3) by simp
  show ?thesis
    using sl_run_text [OF dt reason] ds(2)
    by (simp add: ngx_http_parse_status_line_def enter sl_run_http11 [OF dh] sl_run_code [OF dc _ z(1,2)]
        ds3 sl_leave_def Let_def enum_code_def sl_states_def r0 add.assoc)
qed

section \<open>Properties\<close>

text \<open>A status line that arrives in pieces (each call of
  \<open>ngx_http_parse_status_line\<close> sees the bytes received so far, and is called again after
  \<open>NGX_AGAIN\<close>) is parsed as if it had arrived at once: same return code and, unless the
  line is refused, same request, same status structure and same position.\<close>

theorem status_line_resumable:
  assumes "buf_pos b \<le> length (buf_data b)"
  shows "sl_obs (feed ngx_http_parse_status_line c b frags) =
    sl_obs (ngx_http_parse_status_line c (b\<lparr>buf_data := buf_data b @ concat frags\<rparr>))"
  by (rule sl.feed_whole [OF assms])

definition no_status :: ngx_http_status where
  "no_status = \<lparr>status_http_version = 0, status_code = 0, status_count = 0, status_start = None, status_end = None\<rparr>"

lemma sl_fresh_request: "sl_fresh (fresh_request, no_status)"
  by (simp add: sl_fresh_def no_status_def)

theorem status_line_resumable_witness:
  "fst (feed ngx_http_parse_status_line (fresh_request, no_status) \<lparr>buf_data = bytes ''HTTP/1'', buf_pos = 0\<rparr>
     [bytes ''.1 20'', bytes ''0 OK'' @ [CR], [LF]]) = NGX_OK"
proof -
  let ?b = "\<lparr>buf_data = bytes ''HTTP/1'', buf_pos = 0\<rparr>" and ?c = "(fresh_request, no_status)"
    and ?f = "[bytes ''.1 20'', bytes ''0 OK'' @ [CR], [LF]]"
  have "fst (ngx_http_parse_status_line ?c (?b\<lparr>buf_data := buf_data ?b @ concat ?f\<rparr>)) = NGX_OK"
    by (subst sl_parse_canonical [of "bytes ''200''" "bytes ''OK''" fresh_request no_status _ "[]"])
       (simp_all add: canonical_status_def is_digit_def sl_fresh_request)
  moreover have "fst (sl_obs x) = fst x" for x by (cases x) (auto simp: sl_obs_def)
  ultimately show ?thesis
    using arg_cong [OF status_line_resumable [of ?b ?c ?f], of fst] by simp
qed

text \<open>C23: when a status line is accepted, in however many pieces it arrived, the code is
  the decimal number that the three digits before \<open>status->start + 3\<close> spell, with nothing
  but spaces between them; the text from \<open>status->start\<close> to \<open>status->end\<close> lies before
  the line feed that ends the line; and both version components are at most 999, so that
  \<open>http_version\<close> determines them.\<close>

theorem status_line_code:
  assumes "feed ngx_http_parse_status_line c b frags = (NGX_OK, (r', s'), b')"
    and "sl_fresh c" and "buf_pos b \<le> length (buf_data b)"
  defines "xs \<equiv> buf_data b @ concat frags"
  shows "\<exists>q bg e. status_start s' = Some bg \<and> status_end s' = Some e
    \<and> q \<le> bg + 3 \<and> bg + 3 \<le> e \<and> e < buf_pos b' \<and> buf_pos b' \<le> length xs
    \<and> xs ! (buf_pos b' - 1) = LF
    \<and> (\<forall>ch\<in>set (segment q (bg + 3) xs). is_digit ch \<or> ch = ch_space)
    \<and> (let ds = filter is_digit (segment q (bg + 3) xs) in length ds = 3 \<and> status_code s' = decimal ds)
    \<and> (\<exists>major minor. major \<le> 999 \<and> minor \<le> 999 \<and> status_http_version s' = major * 1000 + minor)"
  using sl_parse_OK [OF sl_feed_OK [OF assms(1,3)] assms(2)] by (simp add: xs_def)

theorem status_line_code_witness:
  "\<exists>s'. snd (fst (snd (feed ngx_http_parse_status_line (fresh_request, no_status)
      \<lparr>buf_data = canonical_status (bytes ''404'') (bytes ''Not Found''), buf_pos = 0\<rparr> []))) = s'
    \<and> (\<exists>bg e. status_start s' = Some bg \<and> status_end s' = Some e \<and> bg + 3 \<le> e)"
proof -
  let ?b = "\<lparr>buf_data = canonical_status (bytes ''404'') (bytes ''Not Found''), buf_pos = 0\<rparr>"
  have "ngx_http_parse_status_line (fresh_request, no_status) ?b = (NGX_OK,
      snd (ngx_http_parse_status_line (fresh_request, no_status) ?b))"
    by (subst (1 2) sl_parse_canonical [of "bytes ''404''" "bytes ''Not Found''" fresh_request no_status _ "[]"])
       (simp_all add: is_digit_def sl_fresh_request)
  then obtain r' s' b' where run: "feed ngx_http_parse_status_line (fresh_request, no_status) ?b [] =
      (NGX_OK, (r', s'), b')"
    by (metis feed.simps(1) prod.collapse)
  from status_line_code [OF run sl_fresh_request] run show ?thesis by auto
qed

text \<open>A well-formed status line \<open>HTTP/1.1 ddd reason CR LF\<close> is accepted and read back:
  the code is the number the three digits spell, \<open>status->start\<close> to \<open>status->end\<close> is
  exactly \<open>ddd reason\<close>, the version is 1001 and the buffer stands right after the line.\<close>

theorem status_line_canonical:
  assumes "length ds = 3" and "\<forall>d\<in>set ds. is_digit d"
    and "\<forall>ch\<in>set reason. ch \<noteq> CR \<and> ch \<noteq> LF" and "sl_fresh (r, s)"
    and "drop (buf_pos b) (buf_data b) = canonical_status ds reason @ rest"
  shows "\<exists>r' s'. ngx_http_parse_status_line (r, s) b =
      (NGX_OK, (r', s'), b\<lparr>buf_pos := buf_pos b + length (canonical_status ds reason)\<rparr>)
    \<and> status_code s' = decimal ds \<and> status_http_version s' = 1001
    \<and> segment (the (status_start s')) (the (status_end s')) (buf_data b) = ds @ ch_space # reason"
proof -
  have "drop (buf_pos b + 9) (buf_data b) = ds @ ch_space # reason @ CR # LF # rest"
    using drop_append_at [of "buf_pos b" "buf_data b" "bytes ''HTTP/1.1 ''"] assms(5)
    by (simp add: canonical_status_def eval_nat_numeral)
  then have "segment (buf_pos b + 9) (buf_pos b + 13 + length reason) (buf_data b) = ds @ ch_space # reason"
    using assms(1) by (simp add: segment_def)
  then show ?thesis
    using sl_parse_canonical [OF assms] assms(1) by (simp add: canonical_status_def)
qed

theorem status_line_canonical_witness:
  "\<exists>r' s'. ngx_http_parse_status_line (fresh_request, no_status)
      \<lparr>buf_data = canonical_status (bytes ''503'') (bytes ''Busy'') @ bytes ''Via'', buf_pos = 0\<rparr> =
      (NGX_OK, (r', s'), \<lparr>buf_data = canonical_status (bytes ''503'') (bytes ''Busy'') @ bytes ''Via'', buf_pos = 19\<rparr>)
    \<and> status_code s' = 503"
  using status_line_canonical [of "bytes ''503''" "bytes ''Busy''" fresh_request no_status
      "\<lparr>buf_data = canonical_status (bytes ''503'') (bytes ''Busy'') @ bytes ''Via'', buf_pos = 0\<rparr>" "bytes ''Via''",
      OF _ _ _ sl_fresh_request]
  by (auto simp: is_digit_def canonical_status_def decimal_def digit_val_def)

text \<open>
  Spaces between the digits of the code are skipped, so \<open>status->start = p - 2\<close> need not
  be the first digit.
\<close>

lemma status_start_after_spaces:
  "(case ngx_http_parse_status_line (fresh_request, no_status)
      \<lparr>buf_data = bytes ''HTTP/1.1 2 0 0'' @ [LF], buf_pos = 0\<rparr> of
     (rc, (r', s'), b') \<Rightarrow> rc = NGX_OK \<and> status_code s' = 200 \<and> status_start s' = Some 11)"
  by (simp add: ngx_http_parse_status_line_def run.simps [of sl_step] sl_step_def sl_case_defs sl_enter_def
      enum_of_def sl_states_def no_status_def Let_def digit_val_def sl_leave_def)

end
