(* ===== verification/Http_Args.thy ===== *)
theory Http_Args
  imports Http_Types
begin

text \<open>
  The functions at the end of \<open>ngx_http_parse.c\<close> that work on complete strings: the check
  of internal redirect targets (\<open>ngx_http_parse_unsafe_uri\<close>), the lookup of cookies and
  other comma or semicolon separated header values, and the lookup and splitting of query
  arguments. A string is the list of its bytes, and an address inside of it the rest of the
  string from there or an offset.

  \<open>ngx_path_separator\<close>, \<open>ngx_unescape_uri\<close>, \<open>ngx_pnalloc\<close>, \<open>ngx_strncasecmp\<close>,
  \<open>ngx_strlcasestrn\<close> and \<open>ngx_strlchr\<close> belong to the core of nginx and are parameters.
\<close>

section \<open>\<open>ngx_http_parse_unsafe_uri\<close>\<close>

record uri_lib =
  path_separator :: "byte \<Rightarrow> bool"
  unescape_uri :: "byte list \<Rightarrow> byte list"
  pnalloc :: "nat \<Rightarrow> bool"

text \<open>
  \<open>p[0] == '.' && p[1] == '.' && (only two bytes left || ngx_path_separator(p[2]))\<close>.
\<close>

fun dot_dot_at :: "(byte \<Rightarrow> bool) \<Rightarrow> byte list \<Rightarrow> bool" where
  "dot_dot_at sep (a # b # p) \<longleftrightarrow>
     a = ch_dot \<and> b = ch_dot \<and> (case p of [] \<Rightarrow> True | c # _ \<Rightarrow> sep c)"
| "dot_dot_at sep _ \<longleftrightarrow> False"

datatype uu_result = uu_unsafe | uu_scanned bool "byte list option"

text \<open>
  The first loop: whether there was a percent sign, and the arguments behind a question
  mark.
\<close>

fun uu_scan :: "(byte \<Rightarrow> bool) \<Rightarrow> byte list \<Rightarrow> bool \<Rightarrow> uu_result" where
  "uu_scan sep [] quoted = uu_scanned quoted None"
| "uu_scan sep (ch # p) quoted =
     (if ch = ch_percent then uu_scan sep p True
      else if is_usual ch then uu_scan sep p quoted
      else if ch = ch_question then uu_scanned quoted (Some p)
      else if ch = NUL then uu_unsafe
      else if sep ch \<and> 2 < length (ch # p) \<and> dot_dot_at sep p then uu_unsafe
      else uu_scan sep p quoted)"

text \<open>The second loop, over the unescaped URI.\<close>

fun uu_check :: "(byte \<Rightarrow> bool) \<Rightarrow> byte list \<Rightarrow> bool" where
  "uu_check sep [] \<longleftrightarrow> True"
| "uu_check sep (ch # p) \<longleftrightarrow>
     (if ch = NUL then False
      else if sep ch \<and> 2 < length (ch # p) \<and> dot_dot_at sep p then False
      else uu_check sep p)"

text \<open>\<open>uri\<close> and \<open>args\<close> are passed in and handed back, as the code leaves them.\<close>

definition ngx_http_parse_unsafe_uri ::
  "uri_lib \<Rightarrow> byte list \<Rightarrow> byte list \<Rightarrow> ngx_rc \<times> byte list \<times> byte list"
where
  "ngx_http_parse_unsafe_uri U uri args =
     (if uri = [] \<or> hd uri = ch_question then (NGX_ERROR, uri, args)
      else if dot_dot_at (path_separator U) uri then (NGX_ERROR, uri, args)
      else
        (case uu_scan (path_separator U) uri False of
           uu_unsafe \<Rightarrow> (NGX_ERROR, uri, args)
         | uu_scanned quoted query \<Rightarrow>
             (let (uri, args) =
                (case query of
                   None \<Rightarrow> (uri, args)
                 | Some p \<Rightarrow> (take (length uri - (length p + 1)) uri, p))
              in
                if quoted then
                  (if \<not> pnalloc U (length uri) then (NGX_ERROR, uri, args)
                   else
                     (let uri = unescape_uri U uri in
                      if dot_dot_at (path_separator U) uri then (NGX_ERROR, uri, args)
                      else if uu_check (path_separator U) uri then (NGX_OK, uri, args)
                      else (NGX_ERROR, uri, args)))
                else (NGX_OK, uri, args))))"

section \<open>Header values: \<open>ngx_http_parse_multi_header_lines\<close>, \<open>ngx_http_parse_set_cookie_lines\<close>\<close>

text \<open>
  \<open>strncasecmp s name n\<close> says whether \<open>ngx_strncasecmp\<close> returns 0 on the
  null-terminated string that starts with \<open>s\<close>.
\<close>

type_synonym strncasecmp = "byte list \<Rightarrow> byte list \<Rightarrow> nat \<Rightarrow> bool"

record ngx_table_elt =
  elt_key :: "byte list"
  elt_value :: "byte list"

abbreviation skip_spaces :: "byte list \<Rightarrow> byte list" where
  "skip_spaces s \<equiv> dropWhile (\<lambda>ch. ch = ch_space) s"

text \<open>The label \<open>skip\<close>: behind the next semicolon or comma, and the spaces there.\<close>

definition mh_skip :: "byte list \<Rightarrow> byte list" where
  "mh_skip s = skip_spaces (drop 1 (dropWhile (\<lambda>ch. ch \<noteq> ch_semicolon \<and> ch \<noteq> ch_comma) s))"

lemma mh_skip_Nil [simp]: "mh_skip [] = []"
  by (simp add: mh_skip_def)

lemma length_skip_spaces: "length (skip_spaces s) \<le> length s"
  by (rule length_dropWhile_le)

lemma length_mh_skip_le: "length (mh_skip s) \<le> length s - 1"
proof -
  let ?t = "dropWhile (\<lambda>ch. ch \<noteq> ch_semicolon \<and> ch \<noteq> ch_comma) s"
  have "length (mh_skip s) \<le> length (drop 1 ?t)"
    unfolding mh_skip_def by (rule length_skip_spaces)
  also have "\<dots> = length ?t - 1" by simp
  also have "\<dots> \<le> length s - 1" by (intro diff_le_mono length_dropWhile_le)
  finally show ?thesis .
qed

lemma mh_shorter:
  assumes "s \<noteq> []"
  shows "length (mh_skip s) < length s"
    and "length (mh_skip (skip_spaces (drop n s))) < length s"
    and "length (mh_skip (tl (skip_spaces (drop n s)))) < length s"
proof -
  have pos: "0 < length s" using assms by simp
  have le: "length (skip_spaces (drop n s)) \<le> length s"
    by (rule order_trans [OF length_skip_spaces]) simp
  show "length (mh_skip s) < length s" using length_mh_skip_le [of s] pos by linarith
  show "length (mh_skip (skip_spaces (drop n s))) < length s"
    using length_mh_skip_le [of "skip_spaces (drop n s)"] le pos by linarith
  show "length (mh_skip (tl (skip_spaces (drop n s)))) < length s"
    using length_mh_skip_le [of "tl (skip_spaces (drop n s))"] le pos length_tl [of "skip_spaces (drop n s)"] by linarith
qed

text \<open>
  The loop over one header value, from \<open>start\<close> on. \<open>wanted\<close> says whether the caller
  passed a \<open>value\<close> to be filled; the answer is \<open>None\<close> when the loop ends, and the value
  found (or \<open>None\<close> when none is wanted) when the function returns the header.
\<close>

function mh_scan :: "strncasecmp \<Rightarrow> byte list \<Rightarrow> bool \<Rightarrow> byte list \<Rightarrow> byte list option option" where
  "mh_scan cmp name wanted s =
     (if s = [] then None
      else if \<not> cmp s name (length name) then mh_scan cmp name wanted (mh_skip s)
      else
        (let s1 = skip_spaces (drop (length name) s) in
         if \<not> wanted then
           (if s1 = [] \<or> hd s1 = ch_comma then Some None
            else mh_scan cmp name wanted (mh_skip s1))
         else if s1 = [] then mh_scan cmp name wanted (mh_skip s1)
         else if hd s1 \<noteq> ch_equals then mh_scan cmp name wanted (mh_skip (tl s1))
         else Some (Some (takeWhile (\<lambda>ch. ch \<noteq> ch_semicolon) (skip_spaces (tl s1))))))"
  by pat_completeness auto
termination
  by (relation "measure (\<lambda>(cmp, name, wanted, s). length s)") (simp_all add: mh_shorter)

declare mh_scan.simps [simp del]

fun ngx_http_parse_multi_header_lines ::
  "strncasecmp \<Rightarrow> ngx_table_elt list \<Rightarrow> byte list \<Rightarrow> bool \<Rightarrow> (ngx_table_elt \<times> byte list option) option"
where
  "ngx_http_parse_multi_header_lines cmp [] name wanted = None"
| "ngx_http_parse_multi_header_lines cmp (h # hs) name wanted =
     (if length name > length (elt_value h)
      then ngx_http_parse_multi_header_lines cmp hs name wanted
      else
        (case mh_scan cmp name wanted (elt_value h) of
           None \<Rightarrow> ngx_http_parse_multi_header_lines cmp hs name wanted
         | Some v \<Rightarrow> Some (h, v)))"

fun ngx_http_parse_set_cookie_lines ::
  "strncasecmp \<Rightarrow> ngx_table_elt list \<Rightarrow> byte list \<Rightarrow> (ngx_table_elt \<times> byte list) option"
where
  "ngx_http_parse_set_cookie_lines cmp [] name = None"
| "ngx_http_parse_set_cookie_lines cmp (h # hs) name =
     (if length name \<ge> length (elt_value h) then ngx_http_parse_set_cookie_lines cmp hs name
      else if \<not> cmp (elt_value h) name (length name) then ngx_http_parse_set_cookie_lines cmp hs name
      else
        (let s1 = skip_spaces (drop (length name) (elt_value h)) in
         if s1 = [] \<or> hd s1 \<noteq> ch_equals then ngx_http_parse_set_cookie_lines cmp hs name
         else Some (h, takeWhile (\<lambda>ch. ch \<noteq> ch_semicolon) (skip_spaces (tl s1)))))"

section \<open>Arguments: \<open>ngx_http_arg\<close>, \<open>ngx_http_split_args\<close>\<close>

text \<open>
  \<open>strlcasestrn xs p last name n\<close> is what \<open>ngx_strlcasestrn(p, last, name, n)\<close> returns
  for offsets into \<open>xs\<close>, and \<open>strlchr xs p last c\<close> likewise; NULL is \<open>None\<close>.
\<close>

record search_lib =
  strlcasestrn :: "byte list \<Rightarrow> nat \<Rightarrow> nat \<Rightarrow> byte list \<Rightarrow> nat \<Rightarrow> ptr"
  strlchr :: "byte list \<Rightarrow> nat \<Rightarrow> nat \<Rightarrow> byte \<Rightarrow> ptr"

text \<open>
  The loop of \<open>ngx_http_arg\<close>. It may go round once per byte of the arguments, which is
  the fuel it is given; \<open>None\<close> stands for running out of it. The value found is an
  offset and a length.
\<close>

fun arg_loop :: "search_lib \<Rightarrow> byte list \<Rightarrow> byte list \<Rightarrow> nat \<Rightarrow> nat \<Rightarrow> (ngx_rc \<times> nat \<times> nat) option" where
  "arg_loop S args name p 0 = (if p < length args then None else Some (NGX_DECLINED, 0, 0))"
| "arg_loop S args name p (Suc k) =
     (if p < length args then
        (case strlcasestrn S args p (length args - 1) name (length name - 1) of
           None \<Rightarrow> Some (NGX_DECLINED, 0, 0)
         | Some p \<Rightarrow>
             if (p = 0 \<or> args ! (p - 1) = ch_amp) \<and> args ! (p + length name) = ch_equals
             then
               (let data = p + length name + 1;
                    e = (case strlchr S args p (length args) ch_amp of
                           None \<Rightarrow> length args
                         | Some e \<Rightarrow> e)
                in Some (NGX_OK, data, e - data))
             else arg_loop S args name (p + 1) k)
      else Some (NGX_DECLINED, 0, 0))"

definition ngx_http_arg :: "search_lib \<Rightarrow> byte list \<Rightarrow> byte list \<Rightarrow> (ngx_rc \<times> nat \<times> nat) option" where
  "ngx_http_arg S args name =
     (if args = [] then Some (NGX_DECLINED, 0, 0)
      else arg_loop S args name 0 (length args))"

text \<open>The new \<open>uri\<close> and the new \<open>args\<close>.\<close>

definition ngx_http_split_args :: "search_lib \<Rightarrow> byte list \<Rightarrow> byte list \<times> byte list" where
  "ngx_http_split_args S uri =
     (case strlchr S uri 0 (length uri) ch_question of
        Some p \<Rightarrow> (take p uri, drop (p + 1) uri)
      | None \<Rightarrow> (uri, []))"

section \<open>What an accepted redirect target looks like\<close>

abbreviation slash_sep :: "byte \<Rightarrow> bool" where "slash_sep \<equiv> (\<lambda>ch. ch = ch_slash)"

abbreviation dot_dot :: "byte list" where "dot_dot \<equiv> [ch_dot, ch_dot]"

lemma split_on_nonempty [simp]: "split_on c s \<noteq> []"
  by (cases s) auto

lemma split_on_slash_Cons: "split_on c (c # s) = [] # split_on c s"
  by simp

text \<open>The first segment, read off the front.\<close>

lemma dot_dot_at_iff: "dot_dot_at slash_sep s \<longleftrightarrow> hd (split_on ch_slash s) = dot_dot"
proof -
  consider "s = []" | a where "s = [a]" | a b where "s = [a, b]" | a b c t where "s = a # b # c # t"
    by (metis list.exhaust)
  then show ?thesis by cases auto
qed

text \<open>\<open>uu_check\<close> looks at every segment but the first.\<close>

lemma uu_check_iff: "uu_check slash_sep s \<longleftrightarrow> NUL \<notin> set s \<and> dot_dot \<notin> set (tl (split_on ch_slash s))"
proof (induction s)
  case (Cons ch p)
  have short: "dot_dot_at slash_sep p \<Longrightarrow> 2 < length (ch # p)"
    by (cases "(slash_sep, p)" rule: dot_dot_at.cases) auto
  have "set (split_on ch_slash p) = insert (hd (split_on ch_slash p)) (set (tl (split_on ch_slash p)))"
    by (cases "split_on ch_slash p") auto
  with Cons show ?case using short by (auto simp: dot_dot_at_iff)
qed simp

lemma split_on_segments:
  "set (split_on c p) = insert (hd (split_on c p)) (set (tl (split_on c p)))"
  "set (butlast (split_on c p)) =
     (if c \<in> set p then insert (hd (split_on c p)) (set (butlast (tl (split_on c p)))) else {})"
  "tl (split_on c p) = [] \<longleftrightarrow> c \<notin> set p"
proof -
  show "set (split_on c p) = insert (hd (split_on c p)) (set (tl (split_on c p)))"
    by (cases "split_on c p") auto
  show t: "tl (split_on c p) = [] \<longleftrightarrow> c \<notin> set p" by (induction p) auto
  show "set (butlast (split_on c p)) =
     (if c \<in> set p then insert (hd (split_on c p)) (set (butlast (tl (split_on c p)))) else {})"
    using t by (cases "split_on c p") (auto split: if_splits)
qed

lemma hd_split_on_append: "c \<in> set p \<Longrightarrow> hd (split_on c (p @ q)) = hd (split_on c p)"
  by (induction p) auto

text \<open>
  What \<open>uu_scan\<close> lets pass: \<open>pre\<close> is the path. Without a question mark no segment but
  the first can be two dots; with one, the last segment is not looked at.
\<close>

definition uu_path_ok :: "byte list \<Rightarrow> bool \<Rightarrow> bool" where
  "uu_path_ok pre query \<longleftrightarrow>
     NUL \<notin> set pre \<and> ch_question \<notin> set pre
     \<and> dot_dot \<notin> set ((if query then butlast else id) (tl (split_on ch_slash pre)))"

lemma uu_path_ok_other:
  "uu_path_ok pre query \<Longrightarrow> ch \<noteq> NUL \<Longrightarrow> ch \<noteq> ch_question \<Longrightarrow> ch \<noteq> ch_slash \<Longrightarrow> uu_path_ok (ch # pre) query"
  by (auto simp: uu_path_ok_def)

lemma uu_path_ok_slash:
  assumes "uu_path_ok pre query" and "\<not> dot_dot_at slash_sep (pre @ rest)" and "\<not> query \<longrightarrow> rest = []"
  shows "uu_path_ok (ch_slash # pre) query"
  using assms split_on_segments [of ch_slash pre] hd_split_on_append [of ch_slash pre rest]
  by (auto simp: uu_path_ok_def dot_dot_at_iff split: if_splits)

lemma uu_scan_quoted: "uu_scan sep s True \<noteq> uu_scanned False r"
  by (induction s) auto

lemma uu_scan_path:
  assumes "uu_scan slash_sep s False = uu_scanned False r"
  shows "\<exists>pre. (case r of None \<Rightarrow> s = pre | Some p \<Rightarrow> s = pre @ ch_question # p) \<and> uu_path_ok pre (r \<noteq> None)"
  using assms
proof (induction s)
  case Nil
  then show ?case by (auto simp: uu_path_ok_def)
next
  case (Cons ch p)
  have nz: "\<not> is_usual NUL" "\<not> is_usual ch_slash" "\<not> is_usual ch_question" by (simp_all add: is_usual_iff)
  have two: "dot_dot_at slash_sep p \<Longrightarrow> 1 < length p"
    by (cases "(slash_sep, p)" rule: dot_dot_at.cases) auto
  show ?case
  proof (cases "ch = ch_question")
    case True
    then show ?thesis using Cons.prems nz by (intro exI [of _ "[]"]) (auto simp: uu_path_ok_def)
  next
    case False
    have step: "uu_scan slash_sep p False = uu_scanned False r" and "ch \<noteq> NUL"
      and dd: "ch = ch_slash \<Longrightarrow> \<not> dot_dot_at slash_sep p"
      using Cons.prems False nz two by (auto simp: uu_scan_quoted split: if_splits)
    from Cons.IH [OF step] obtain pre where
      pre: "case r of None \<Rightarrow> p = pre | Some q \<Rightarrow> p = pre @ ch_question # q" "uu_path_ok pre (r \<noteq> None)" by blast
    obtain rest where rest: "p = pre @ rest" "r = None \<longrightarrow> rest = []"
      using pre(1) by (cases r) auto
    have "uu_path_ok (ch # pre) (r \<noteq> None)"
    proof (cases "ch = ch_slash")
      case True
      with dd rest pre(2) show ?thesis by (auto intro: uu_path_ok_slash)
    next
      case no: False
      from pre(2) \<open>ch \<noteq> NUL\<close> False no show ?thesis by (rule uu_path_ok_other)
    qed
    with pre(1) show ?thesis by (intro exI [of _ "ch # pre"]) (auto split: option.splits)
  qed
qed

lemma unsafe_uri_OK:
  assumes "ngx_http_parse_unsafe_uri U uri args = (NGX_OK, uri', args')" and "path_separator U = slash_sep"
  shows "NUL \<notin> set uri' \<and> dot_dot \<notin> set (butlast (split_on ch_slash uri'))
    \<and> (dot_dot \<in> set (split_on ch_slash uri') \<longrightarrow> uri = uri' @ ch_question # args')"
proof -
  note defs = ngx_http_parse_unsafe_uri_def assms(2) Let_def
  have start: "\<not> dot_dot_at slash_sep uri" using assms(1) by (auto simp: defs split: if_splits)
  obtain q r where scan: "uu_scan slash_sep uri False = uu_scanned q r"
    using assms(1) by (auto simp: defs split: if_splits uu_result.splits)
  show ?thesis
  proof (cases q)
    case True
    then have "\<not> dot_dot_at slash_sep uri'" "uu_check slash_sep uri'"
      using assms(1) scan by (auto simp: defs split: if_splits option.splits)
    then show ?thesis
      using split_on_segments [of ch_slash uri'] by (auto simp: uu_check_iff dot_dot_at_iff dest: in_set_butlastD)
  next
    case False
    then have "uu_scan slash_sep uri False = uu_scanned False r" using scan by simp
    from uu_scan_path [OF this] obtain pre where
      pre: "case r of None \<Rightarrow> uri = pre | Some p \<Rightarrow> uri = pre @ ch_question # p" "uu_path_ok pre (r \<noteq> None)"
      by blast
    have out: "uri' = pre" "r = Some p \<Longrightarrow> args' = p" for p
      using assms(1) scan False pre(1) by (auto simp: defs split: if_splits option.splits)
    have "hd (split_on ch_slash pre) \<noteq> dot_dot \<or> r \<noteq> None \<and> ch_slash \<notin> set pre"
      using start pre(1) hd_split_on_append [of ch_slash pre] by (auto simp: dot_dot_at_iff split: option.splits)
    with pre out show ?thesis
      using split_on_segments [of ch_slash pre]
      by (cases r) (auto simp: uu_path_ok_def dest: in_set_butlastD split: if_splits)
  qed
qed


section \<open>Looking up a cookie\<close>

text \<open>
  \<open>ngx_strncasecmp\<close> ignores case and stops at the end of the string.
\<close>

definition ci :: "byte \<Rightarrow> byte" where
  "ci ch = (if ch_A \<le> ch \<and> ch \<le> ch_Z then ch OR 0x20 else ch)"

definition ci_prefix :: "byte list \<Rightarrow> byte list \<Rightarrow> bool" where
  "ci_prefix name s \<longleftrightarrow> length name \<le> length s \<and> map ci (take (length name) s) = map ci name"

definition strncasecmp_ok :: "strncasecmp \<Rightarrow> bool" where
  "strncasecmp_ok cmp \<longleftrightarrow> (\<forall>s name. NUL \<notin> set name \<longrightarrow> (cmp s name (length name) \<longleftrightarrow> ci_prefix name s))"

text \<open>A cookie header: \<open>name=value\<close> pairs with a semicolon and a space between them.\<close>

fun encode_cookies :: "(byte list \<times> byte list) list \<Rightarrow> byte list" where
  "encode_cookies [] = []"
| "encode_cookies [(n, v)] = n @ ch_equals # v"
| "encode_cookies ((n, v) # ps) = n @ ch_equals # v @ ch_semicolon # ch_space # encode_cookies ps"

definition cookie_name_char :: "byte \<Rightarrow> bool" where
  "cookie_name_char ch \<longleftrightarrow> ch \<notin> {NUL, ch_space, ch_equals, ch_semicolon, ch_comma}"

definition cookie_value_char :: "byte \<Rightarrow> bool" where
  "cookie_value_char ch \<longleftrightarrow> ch \<notin> {ch_space, ch_semicolon, ch_comma}"

definition cookie_ok :: "byte list \<times> byte list \<Rightarrow> bool" where
  "cookie_ok c \<longleftrightarrow>
     fst c \<noteq> [] \<and> (\<forall>ch\<in>set (fst c). cookie_name_char ch) \<and> (\<forall>ch\<in>set (snd c). cookie_value_char ch)"

text \<open>The value of the first cookie of that name, in either case.\<close>

definition cookie_lookup :: "byte list \<Rightarrow> (byte list \<times> byte list) list \<Rightarrow> byte list option" where
  "cookie_lookup name ps = map_option snd (find (\<lambda>c. map ci (fst c) = map ci name) ps)"

lemma mh_skip_behind:
  assumes "\<forall>ch\<in>set u. ch \<noteq> ch_semicolon \<and> ch \<noteq> ch_comma"
  shows "mh_skip (u @ ch_semicolon # ch_space # s) = skip_spaces s" and "mh_skip u = []"
proof -
  have "dropWhile (\<lambda>ch. ch \<noteq> ch_semicolon \<and> ch \<noteq> ch_comma) u = []"
    using assms by (simp add: dropWhile_eq_Nil_conv)
  then show "mh_skip u = []" unfolding mh_skip_def by (simp only: drop_Nil dropWhile.simps)
  show "mh_skip (u @ ch_semicolon # ch_space # s) = skip_spaces s"
    using assms by (simp add: mh_skip_def dropWhile_append2)
qed

lemma encode_cookies_Cons:
  "encode_cookies ((n, v) # ps) =
    n @ ch_equals # v @ (if ps = [] then [] else ch_semicolon # ch_space # encode_cookies ps)"
  by (cases ps) auto

lemma skip_spaces_encode: "list_all cookie_ok ps \<Longrightarrow> skip_spaces (encode_cookies ps) = encode_cookies ps"
proof (cases ps)
  case (Cons c ps')
  moreover assume "list_all cookie_ok ps"
  ultimately show ?thesis
    by (cases c; cases "fst c") (auto simp: encode_cookies_Cons cookie_ok_def cookie_name_char_def)
qed simp

text \<open>
  Whatever part of a pair is left when the loop gives up on it, it goes on at the next one.
\<close>

lemma mh_skip_pair:
  assumes "list_all cookie_ok ps" and "\<forall>ch\<in>set u. ch \<noteq> ch_semicolon \<and> ch \<noteq> ch_comma"
  shows "mh_skip (u @ (if ps = [] then [] else ch_semicolon # ch_space # encode_cookies ps)) = encode_cookies ps"
  using assms by (auto simp: mh_skip_behind skip_spaces_encode)

lemma ci_equals: "ci ch = ci ch_equals \<longleftrightarrow> ch = ch_equals"
proof -
  have "\<forall>ch::byte. ci ch = ci ch_equals \<longleftrightarrow> ch = ch_equals" unfolding all_byte by code_simp
  then show ?thesis by blast
qed


lemma ci_prefix_pair:
  assumes "cookie_ok (n, v)" and "\<forall>ch\<in>set name. cookie_name_char ch"
    and "ci_prefix name (n @ ch_equals # t)"
  shows "length name \<le> length n" and "length name = length n \<longleftrightarrow> map ci n = map ci name"
proof -
  have m: "map ci (take (length name) (n @ ch_equals # t)) = map ci name"
    using assms(3) by (simp add: ci_prefix_def)
  show le: "length name \<le> length n"
  proof (rule ccontr)
    assume l: "\<not> length name \<le> length n"
    let ?s = "n @ ch_equals # t"
    have "ci (name ! length n) = map ci (take (length name) ?s) ! length n"
      using l unfolding m by simp
    also have "\<dots> = ci (?s ! length n)"
      using l by (subst nth_map) (simp_all del: take_append nth_append_length)
    also have "\<dots> = ci ch_equals" by simp
    finally have "name ! length n = ch_equals" by (simp only: ci_equals)
    then show False using l assms(2) by (auto simp: cookie_name_char_def)
  qed
  show "length name = length n \<longleftrightarrow> map ci n = map ci name"
    using m le by (auto dest: map_eq_imp_length_eq)
qed

lemma value_tail:
  assumes "cookie_ok (n, v)"
  shows "takeWhile (\<lambda>ch. ch \<noteq> ch_semicolon)
    (skip_spaces (v @ (if ps = [] then [] else ch_semicolon # ch_space # t))) = v"
proof -
  let ?t = "if ps = [] then [] else ch_semicolon # ch_space # t"
  have "skip_spaces (v @ ?t) = v @ ?t"
    using assms by (cases v) (auto simp: cookie_ok_def cookie_value_char_def)
  moreover have "takeWhile (\<lambda>ch. ch \<noteq> ch_semicolon) (v @ ?t) = v"
    using assms by (auto simp: cookie_ok_def cookie_value_char_def takeWhile_append2)
  ultimately show ?thesis by simp
qed

lemma mh_scan_cookies:
  assumes cmp: "strncasecmp_ok cmp" and name: "name \<noteq> []" "\<forall>ch\<in>set name. cookie_name_char ch"
  shows "list_all cookie_ok ps \<Longrightarrow>
    mh_scan cmp name True (encode_cookies ps) = map_option Some (cookie_lookup name ps)"
proof (induction ps)
  case Nil
  then show ?case by (subst mh_scan.simps) (simp add: cookie_lookup_def)
next
  case (Cons c ps)
  obtain n v where c: "c = (n, v)" by (cases c)
  define t where "t = (if ps = [] then [] else ch_semicolon # ch_space # encode_cookies ps)"
  have ok: "cookie_ok (n, v)" "list_all cookie_ok ps" using Cons.prems c by simp_all
  have s: "encode_cookies (c # ps) = n @ ch_equals # v @ t" by (simp add: c encode_cookies_Cons t_def)
  have cm: "cmp u name (length name) \<longleftrightarrow> ci_prefix name u" for u
    using cmp name(2) by (auto simp: strncasecmp_ok_def cookie_name_char_def)
  have skip: "mh_skip (u @ ch_equals # v @ t) = encode_cookies ps" if "set u \<subseteq> set n" for u
  proof -
    have "\<forall>ch\<in>set (u @ ch_equals # v). ch \<noteq> ch_semicolon \<and> ch \<noteq> ch_comma"
      using that ok(1) by (auto simp: cookie_ok_def cookie_name_char_def cookie_value_char_def)
    from mh_skip_pair [OF ok(2) this] show ?thesis by (simp add: t_def)
  qed
  have IH: "mh_scan cmp name True (encode_cookies ps) = map_option Some (cookie_lookup name ps)"
    by (rule Cons.IH [OF ok(2)])
  show ?case
  proof (cases "ci_prefix name (n @ ch_equals # v @ t)")
    case False
    have "map ci n \<noteq> map ci name"
    proof
      assume eq: "map ci n = map ci name"
      from arg_cong [OF this, of length] have "length name = length n" by simp
      with eq False show False by (simp add: ci_prefix_def)
    qed
    with False show ?thesis
      unfolding s by (subst mh_scan.simps) (simp add: cm skip IH c cookie_lookup_def)
  next
    case True
    note pair = ci_prefix_pair [OF ok(1) name(2) True]
    show ?thesis
    proof (cases "length name = length n")
      case eq: True
      then have s1: "skip_spaces (drop (length name) (n @ ch_equals # v @ t)) = ch_equals # v @ t" by simp
      have lookup: "cookie_lookup name (c # ps) = Some v" using eq pair(2) by (simp add: cookie_lookup_def c)
      have val: "takeWhile (\<lambda>ch. ch \<noteq> ch_semicolon) (skip_spaces (v @ t)) = v"
        unfolding t_def by (rule value_tail [OF ok(1)])
      show ?thesis
        unfolding s lookup
        by (subst mh_scan.simps) (use True in \<open>simp add: cm s1 val Let_def del: drop_append\<close>)
    next
      case ne: False
      with pair(1) obtain d u where u: "drop (length name) n = d # u" by (cases "drop (length name) n") auto
      have "d \<in> set n" "set u \<subseteq> set n" using u set_drop_subset [of "length name" n] by auto
      then have d: "d \<noteq> ch_space" "d \<noteq> ch_equals"
        using ok(1) by (auto simp: cookie_ok_def cookie_name_char_def)
      have "skip_spaces (drop (length name) (n @ ch_equals # v @ t)) = d # u @ ch_equals # v @ t"
        using u d pair(1) by simp
      with True ne pair(2) d show ?thesis
        unfolding s
        by (subst mh_scan.simps) (simp add: cm c cookie_lookup_def skip [OF \<open>set u \<subseteq> set n\<close>] IH)
    qed
  qed
qed

lemma cookie_lookup_length: "cookie_lookup name ps \<noteq> None \<Longrightarrow> length name \<le> length (encode_cookies ps)"
proof (induction ps)
  case (Cons c ps)
  obtain n v where c: "c = (n, v)" by (cases c)
  show ?case
  proof (cases "map ci n = map ci name")
    case True
    then have "length n = length name" by (rule map_eq_imp_length_eq)
    then show ?thesis by (simp add: c encode_cookies_Cons)
  next
    case False
    then have "cookie_lookup name ps \<noteq> None" using Cons.prems by (simp add: c cookie_lookup_def)
    then have "ps \<noteq> []" "length name \<le> length (encode_cookies ps)" using Cons.IH by (auto simp: cookie_lookup_def)
    then show ?thesis by (simp add: c encode_cookies_Cons)
  qed
qed (simp add: cookie_lookup_def)

text \<open>The header lines of a request, each with its cookies.\<close>

definition cookie_line :: "byte list \<times> (byte list \<times> byte list) list \<Rightarrow> ngx_table_elt" where
  "cookie_line l = \<lparr>elt_key = fst l, elt_value = encode_cookies (snd l)\<rparr>"

lemma elt_value_cookie_line [simp]: "elt_value (cookie_line l) = encode_cookies (snd l)"
  by (simp add: cookie_line_def)

section \<open>Looking up an argument\<close>

text \<open>
  What the two search functions promise: the first place in the given range, of the whole
  name in either case and of the character.
\<close>

definition search_lib_ok :: "search_lib \<Rightarrow> bool" where
  "search_lib_ok S \<longleftrightarrow>
     (\<forall>xs p last c. last \<le> length xs \<longrightarrow> strlchr S xs p last c = find (\<lambda>i. xs ! i = c) [p..<last])
     \<and> (\<forall>xs p last name. last \<le> length xs \<longrightarrow> name \<noteq> [] \<longrightarrow>
          strlcasestrn S xs p last name (length name - 1) =
            find (\<lambda>i. i + length name \<le> last \<and> ci_prefix name (drop i xs)) [p..<last])"

text \<open>The places at which an argument of that name starts.\<close>

definition arg_hit :: "byte list \<Rightarrow> byte list \<Rightarrow> nat \<Rightarrow> bool" where
  "arg_hit args name i \<longleftrightarrow>
     i + length name < length args \<and> ci_prefix name (drop i args)
     \<and> (i = 0 \<or> args ! (i - 1) = ch_amp) \<and> args ! (i + length name) = ch_equals"

definition arg_answer :: "byte list \<Rightarrow> byte list \<Rightarrow> nat option \<Rightarrow> ngx_rc \<times> nat \<times> nat" where
  "arg_answer args name hit =
     (case hit of
        None \<Rightarrow> (NGX_DECLINED, 0, 0)
      | Some i \<Rightarrow>
          let data = i + length name + 1;
              e = (case find (\<lambda>j. args ! j = ch_amp) [i..<length args] of None \<Rightarrow> length args | Some e \<Rightarrow> e)
          in (NGX_OK, data, e - data))"

lemma find_upt_from:
  assumes "find P [p..<n] = Some i"
  shows "p \<le> i" "i < n" "P i" and "\<And>j. p \<le> j \<Longrightarrow> j < i \<Longrightarrow> \<not> P j"
proof -
  obtain k where k: "k < length [p..<n]" "P ([p..<n] ! k)" "i = [p..<n] ! k" "\<forall>j<k. \<not> P ([p..<n] ! j)"
    using assms by (auto simp: find_Some_iff)
  then show "p \<le> i" "i < n" "P i" by auto
  fix j assume "p \<le> j" "j < i"
  then show "\<not> P j" using k(1,3) k(4) [rule_format, of "j - p"] by auto
qed

lemma find_upt_none: "find P [p..<n] = None \<longleftrightarrow> (\<forall>j. p \<le> j \<and> j < n \<longrightarrow> \<not> P j)"
  by (auto simp: find_None_iff)

lemma find_upt_here: "P p \<Longrightarrow> p < n \<Longrightarrow> find P [p..<n] = Some p"
  by (simp add: upt_conv_Cons)

lemma find_map_eq: "find P (map f xs) = map_option f (find (\<lambda>x. P (f x)) xs)"
  by (induction xs) auto

lemma upt_shift: "[k + i..<k + n] = map (\<lambda>j. k + j) [i..<n]"
  by (rule nth_equalityI) auto

lemma find_upt_skip:
  assumes "p \<le> q" and "\<And>j. p \<le> j \<Longrightarrow> j < q \<Longrightarrow> \<not> P j"
  shows "find P [p..<n] = find P [q..<n]"
  using assms
proof (induction "q - p" arbitrary: p)
  case (Suc d)
  then have "p < q" by simp
  with Suc show ?case by (cases "p < n") (auto simp: upt_rec [of p n])
qed simp

lemma arg_loop_least:
  assumes S: "search_lib_ok S" and "name \<noteq> []" and "length args - p \<le> k"
  shows "arg_loop S args name p k = Some (arg_answer args name (find (arg_hit args name) [p..<length args]))"
  using assms(3)
proof (induction k arbitrary: p)
  case 0
  then show ?case by (simp add: arg_answer_def)
next
  case (Suc k)
  let ?m = "\<lambda>i. i + length name \<le> length args - 1 \<and> ci_prefix name (drop i args)"
  show ?case
  proof (cases "p < length args")
    case False
    then show ?thesis by (simp add: arg_answer_def)
  next
    case True
    have find: "strlcasestrn S args p (length args - 1) name (length name - 1) = find ?m [p..<length args - 1]"
      using S assms(2) by (simp add: search_lib_ok_def)
    have hit: "arg_hit args name i \<Longrightarrow> ?m i \<and> i < length args - 1" for i
      using assms(2) by (cases name) (auto simp: arg_hit_def)
    show ?thesis
    proof (cases "find ?m [p..<length args - 1]")
      case None
      then have "find (arg_hit args name) [p..<length args] = None"
        using hit by (auto simp: find_upt_none)
      with None True find show ?thesis by (simp add: arg_answer_def)
    next
      case (Some i)
      note i = find_upt_from [OF Some]
      have skip: "find (arg_hit args name) [p..<length args] = find (arg_hit args name) [i..<length args]"
        using i hit by (intro find_upt_skip) auto
      have chr: "strlchr S args i (length args) ch_amp = find (\<lambda>j. args ! j = ch_amp) [i..<length args]"
        using S by (simp add: search_lib_ok_def)
      show ?thesis
      proof (cases "arg_hit args name i")
        case hit_i: True
        then have "find (arg_hit args name) [i..<length args] = Some i"
          using i(2) by (auto simp: upt_rec [of i])
        moreover have "(i = 0 \<or> args ! (i - 1) = ch_amp) \<and> args ! (i + length name) = ch_equals"
          using hit_i by (simp add: arg_hit_def)
        ultimately show ?thesis
          using True Some find skip by (simp add: arg_answer_def chr Let_def)
      next
        case no: False
        then have "find (arg_hit args name) [i..<length args] = find (arg_hit args name) [Suc i..<length args]"
          by (intro find_upt_skip) (auto simp: less_Suc_eq)
        moreover have "\<not> ((i = 0 \<or> args ! (i - 1) = ch_amp) \<and> args ! (i + length name) = ch_equals)"
          using no i(2,3) by (auto simp: arg_hit_def)
        moreover have "length args - Suc i \<le> k" using Suc.prems i(1,2) True by linarith
        ultimately show ?thesis
          using True Some find skip Suc.IH [of "Suc i"] by auto
      qed
    qed
  qed
qed

text \<open>Arguments \<open>name=value\<close> with an ampersand between them.\<close>

fun encode_args :: "(byte list \<times> byte list) list \<Rightarrow> byte list" where
  "encode_args [] = []"
| "encode_args [(n, v)] = n @ ch_equals # v"
| "encode_args ((n, v) # ps) = n @ ch_equals # v @ ch_amp # encode_args ps"

definition arg_ok :: "byte list \<times> byte list \<Rightarrow> bool" where
  "arg_ok a \<longleftrightarrow> ch_amp \<notin> set (fst a) \<and> ch_equals \<notin> set (fst a) \<and> ch_amp \<notin> set (snd a)"

lemma ci_amp: "ci ch = ci ch_amp \<longleftrightarrow> ch = ch_amp"
proof -
  have "\<forall>ch::byte. ci ch = ci ch_amp \<longleftrightarrow> ch = ch_amp" unfolding all_byte by code_simp
  then show ?thesis by blast
qed

text \<open>A name that does not hold \<open>c\<close> does not reach beyond it.\<close>

lemma ci_prefix_before:
  assumes "ci_prefix name (u @ c # t)" and "c \<notin> set name" and "\<And>ch. ci ch = ci c \<longleftrightarrow> ch = c"
  shows "length name \<le> length u" and "map ci (take (length name) u) = map ci name"
proof -
  let ?s = "u @ c # t"
  have m: "map ci (take (length name) ?s) = map ci name" using assms(1) by (simp add: ci_prefix_def)
  show le: "length name \<le> length u"
  proof (rule ccontr)
    assume l: "\<not> length name \<le> length u"
    have "ci (name ! length u) = map ci (take (length name) ?s) ! length u" using l unfolding m by simp
    also have "\<dots> = ci (?s ! length u)"
      using l by (subst nth_map) (simp_all del: take_append nth_append_length)
    also have "\<dots> = ci c" by simp
    finally have "name ! length u = c" using assms(3) by simp
    then show False using l assms(2) by (auto simp: in_set_conv_nth)
  qed
  with m show "map ci (take (length name) u) = map ci name" by simp
qed

lemma arg_hit_first:
  assumes "ch_amp \<notin> set n" "ch_equals \<notin> set n" "ch_amp \<notin> set name" "ch_equals \<notin> set name"
  shows "arg_hit (n @ ch_equals # t) name 0 \<longleftrightarrow> map ci n = map ci name"
proof
  assume hit: "arg_hit (n @ ch_equals # t) name 0"
  then have p: "ci_prefix name (n @ ch_equals # t)" and e: "(n @ ch_equals # t) ! length name = ch_equals"
    by (simp_all add: arg_hit_def)
  note b = ci_prefix_before [OF p assms(4) ci_equals]
  have "length name = length n"
  proof (rule ccontr)
    assume "length name \<noteq> length n"
    with b(1) have "n ! length name = ch_equals" and "length name < length n" using e by (auto simp: nth_append)
    then show False using assms(2) by (auto simp: in_set_conv_nth)
  qed
  with b(2) show "map ci n = map ci name" by simp
next
  assume m: "map ci n = map ci name"
  from arg_cong [OF this, of length] have "length name = length n" by simp
  with m show "arg_hit (n @ ch_equals # t) name 0" by (simp add: arg_hit_def ci_prefix_def)
qed

lemma arg_hit_later:
  assumes "ch_amp \<notin> set u"
  shows "0 < i \<Longrightarrow> i \<le> length u \<Longrightarrow> \<not> arg_hit (u @ ch_amp # t) name i"
    and "arg_hit (u @ ch_amp # t) name (length u + 1 + j) \<longleftrightarrow> arg_hit t name j"
proof -
  show "\<not> arg_hit (u @ ch_amp # t) name i" if "0 < i" "i \<le> length u"
  proof
    assume "arg_hit (u @ ch_amp # t) name i"
    then have "(u @ ch_amp # t) ! (i - 1) = ch_amp" using that by (auto simp: arg_hit_def)
    moreover have lt: "i - 1 < length u" using that by linarith
    ultimately have "u ! (i - 1) = ch_amp" by (simp add: nth_append)
    with lt show False using assms by (auto simp: in_set_conv_nth)
  qed
  show "arg_hit (u @ ch_amp # t) name (length u + 1 + j) \<longleftrightarrow> arg_hit t name j"
    by (cases j) (auto simp: arg_hit_def nth_append)
qed

lemma arg_hit_only:
  assumes "ch_amp \<notin> set u" and "arg_hit u name i"
  shows "i = 0"
proof (rule ccontr)
  assume "i \<noteq> 0"
  with assms(2) have "u ! (i - 1) = ch_amp" and "i - 1 < length u" by (auto simp: arg_hit_def)
  then show False using assms(1) by (auto simp: in_set_conv_nth)
qed

lemma find_hit_shift:
  assumes "ch_amp \<notin> set u" and "\<not> arg_hit (u @ ch_amp # t) name 0"
  shows "find (arg_hit (u @ ch_amp # t) name) [0..<length (u @ ch_amp # t)] =
    map_option (\<lambda>j. length u + 1 + j) (find (arg_hit t name) [0..<length t])"
proof -
  let ?a = "u @ ch_amp # t"
  have "find (arg_hit ?a name) [0..<length ?a] = find (arg_hit ?a name) [length u + 1..<length ?a]"
    by (rule find_upt_skip) (use assms arg_hit_later(1) [OF assms(1)] in \<open>auto simp: less_Suc_eq_le\<close>,
        metis gr0I)
  also have "\<dots> = find (arg_hit ?a name) (map (\<lambda>j. length u + 1 + j) [0..<length t])"
    using upt_shift [of "length u + 1" 0 "length t"] by (simp del: upt_Suc)
  also have "\<dots> = map_option (\<lambda>j. length u + 1 + j) (find (arg_hit t name) [0..<length t])"
    unfolding find_map_eq using arg_hit_later(2) [OF assms(1), of t name] by presburger
  finally show ?thesis .
qed

lemma encode_args_Cons:
  "encode_args ((n, v) # ps) = n @ ch_equals # v @ (if ps = [] then [] else ch_amp # encode_args ps)"
  by (cases ps) auto

lemma find_amp:
  assumes "ch_amp \<notin> set u"
  shows "find (\<lambda>j. (u @ ch_amp # t) ! j = ch_amp) [0..<length (u @ ch_amp # t)] = Some (length u)"
    and "find (\<lambda>j. u ! j = ch_amp) [0..<length u] = None"
proof -
  have no: "u ! j \<noteq> ch_amp" if "j < length u" for j using assms that by (auto simp: in_set_conv_nth)
  have "find (\<lambda>j. (u @ ch_amp # t) ! j = ch_amp) [0..<length (u @ ch_amp # t)] =
      find (\<lambda>j. (u @ ch_amp # t) ! j = ch_amp) [length u..<length (u @ ch_amp # t)]"
    using no by (intro find_upt_skip) (auto simp: nth_append)
  then show "find (\<lambda>j. (u @ ch_amp # t) ! j = ch_amp) [0..<length (u @ ch_amp # t)] = Some (length u)"
    by (simp add: find_upt_here del: upt_Suc)
  show "find (\<lambda>j. u ! j = ch_amp) [0..<length u] = None" using no by (auto simp: find_upt_none)
qed

text \<open>The bytes that an answer points to.\<close>

definition arg_value :: "byte list \<Rightarrow> ngx_rc \<times> nat \<times> nat \<Rightarrow> byte list option" where
  "arg_value args a = (case a of (rc, d, l) \<Rightarrow> if rc = NGX_OK then Some (segment d (d + l) args) else None)"

lemma arg_answer_first:
  assumes "ch_amp \<notin> set (n @ ch_equals # v)" and "length name = length n" and "t = [] \<or> hd t = ch_amp"
  shows "arg_value (n @ ch_equals # v @ t) (arg_answer (n @ ch_equals # v @ t) name (Some 0)) = Some v"
proof -
  let ?u = "n @ ch_equals # v"
  define xs where "xs = ?u @ t"
  define e where "e = (case find (\<lambda>j. xs ! j = ch_amp) [0..<length xs] of None \<Rightarrow> length xs | Some e \<Rightarrow> e)"
  have e: "e = length ?u"
  proof (cases t)
    case Nil
    then show ?thesis using find_amp(2) [OF assms(1)] by (simp add: e_def xs_def del: upt_Suc)
  next
    case (Cons c t')
    then have xs: "xs = ?u @ ch_amp # t'" using assms(3) by (simp add: xs_def)
    show ?thesis unfolding e_def xs find_amp(1) [OF assms(1)] by simp
  qed
  have "arg_answer xs name (Some 0) = (NGX_OK, length name + 1, e - (length name + 1))"
    by (simp add: arg_answer_def e_def Let_def del: upt_Suc)
  then have "arg_value xs (arg_answer xs name (Some 0)) = Some v"
    using assms(2) by (simp add: arg_value_def e segment_def xs_def)
  then show ?thesis by (simp add: xs_def)
qed

lemma arg_value_shift:
  "arg_value (u @ ch_amp # t) (arg_answer (u @ ch_amp # t) name (map_option (\<lambda>j. length u + 1 + j) h)) =
    arg_value t (arg_answer t name h)"
proof (cases h)
  case None
  then show ?thesis by (simp add: arg_answer_def arg_value_def)
next
  case (Some i)
  let ?a = "u @ ch_amp # t" and ?k = "length u + 1"
  have "find (\<lambda>j. ?a ! j = ch_amp) [?k + i..<length ?a] = find (\<lambda>j. ?a ! j = ch_amp) (map (\<lambda>j. ?k + j) [i..<length t])"
    using upt_shift [of ?k i "length t"] by (simp del: upt_Suc)
  also have "\<dots> = map_option (\<lambda>j. ?k + j) (find (\<lambda>j. t ! j = ch_amp) [i..<length t])"
  proof -
    have eq: "(\<lambda>j. ?a ! (?k + j) = ch_amp) = (\<lambda>j. t ! j = ch_amp)" by (simp add: fun_eq_iff nth_append)
    show ?thesis unfolding find_map_eq eq ..
  qed
  finally have "find (\<lambda>j. ?a ! j = ch_amp) [?k + i..<length ?a] =
    map_option (\<lambda>j. ?k + j) (find (\<lambda>j. t ! j = ch_amp) [i..<length t])" .
  with Some show ?thesis
    by (cases "find (\<lambda>j. t ! j = ch_amp) [i..<length t]")
       (auto simp: arg_answer_def arg_value_def Let_def segment_def add.assoc simp del: upt_Suc)
qed

lemma arg_encoded:
  assumes name: "name \<noteq> []" "ch_amp \<notin> set name" "ch_equals \<notin> set name"
  shows "list_all arg_ok ps \<Longrightarrow>
    arg_value (encode_args ps)
      (arg_answer (encode_args ps) name (find (arg_hit (encode_args ps) name) [0..<length (encode_args ps)])) =
    cookie_lookup name ps"
proof (induction ps)
  case Nil
  then show ?case by (simp add: arg_answer_def arg_value_def cookie_lookup_def)
next
  case (Cons c ps)
  obtain n v where c: "c = (n, v)" by (cases c)
  define t where "t = (if ps = [] then [] else ch_amp # encode_args ps)"
  have ok: "ch_amp \<notin> set n" "ch_equals \<notin> set n" "ch_amp \<notin> set v"
    using Cons.prems by (auto simp: c arg_ok_def)
  have s: "encode_args (c # ps) = n @ ch_equals # v @ t" by (simp add: c encode_args_Cons t_def)
  note hit = arg_hit_first [OF ok(1,2) name(2,3), of "v @ t"]
  show ?case
  proof (cases "map ci n = map ci name")
    case True
    then have "find (arg_hit (n @ ch_equals # v @ t) name) [0..<length (n @ ch_equals # v @ t)] = Some 0"
      using hit by (intro find_upt_here) simp_all
    moreover have "length name = length n" using arg_cong [OF True, of length] by simp
    ultimately show ?thesis
      unfolding s using True ok arg_answer_first [of n v name t]
      by (simp add: c cookie_lookup_def t_def)
  next
    case False
    show ?thesis
    proof (cases "ps = []")
      case nil: True
      have "\<not> arg_hit (n @ ch_equals # v) name i" for i
        using hit False nil ok arg_hit_only [of "n @ ch_equals # v" name i] by (auto simp: t_def)
      then have "find (arg_hit (encode_args (c # ps)) name) [0..<length (encode_args (c # ps))] = None"
        by (simp add: find_upt_none c nil del: upt_Suc)
      then show ?thesis
        using nil False unfolding arg_answer_def arg_value_def by (simp add: c cookie_lookup_def)
    next
      case False': False
      let ?u = "n @ ch_equals # v"
      have a: "encode_args (c # ps) = ?u @ ch_amp # encode_args ps" using False' by (simp add: s t_def)
      have no: "\<not> arg_hit (?u @ ch_amp # encode_args ps) name 0" using hit False False' by (simp add: t_def)
      have amp: "ch_amp \<notin> set ?u" using ok by simp
      show ?thesis
        unfolding a find_hit_shift [OF amp no] arg_value_shift
        using Cons False by (simp add: c cookie_lookup_def)
    qed
  qed
qed


section \<open>Functions that satisfy the hypotheses\<close>

definition unix_uri_lib :: uri_lib where
  "unix_uri_lib = \<lparr>path_separator = slash_sep, unescape_uri = (\<lambda>u. u), pnalloc = (\<lambda>_. True)\<rparr>"

definition ref_strncasecmp :: strncasecmp where
  "ref_strncasecmp s name n = ci_prefix (take n name) s"

lemma ref_strncasecmp_ok: "strncasecmp_ok ref_strncasecmp"
  by (simp add: strncasecmp_ok_def ref_strncasecmp_def)

definition ref_search_lib :: search_lib where
  "ref_search_lib =
     \<lparr>strlcasestrn = (\<lambda>xs p last name n.
        find (\<lambda>i. i + (n + 1) \<le> last \<and> ci_prefix (take (n + 1) name) (drop i xs)) [p..<last]),
      strlchr = (\<lambda>xs p last c. find (\<lambda>i. xs ! i = c) [p..<last])\<rparr>"

lemma ref_search_lib_ok: "search_lib_ok ref_search_lib"
  unfolding search_lib_ok_def
proof (intro conjI allI impI, goal_cases)
  case (1 xs p last c)
  show ?case by (simp add: ref_search_lib_def)
next
  case (2 xs p last name)
  then show ?case by (cases name) (simp_all add: ref_search_lib_def)
qed

section \<open>Properties\<close>

text \<open>C24: when \<open>ngx_http_parse_unsafe_uri\<close> accepts a redirect target, the URI it leaves has no
  null byte, and no segment of it that a slash follows is \<open>..\<close>; the last segment can be
  \<open>..\<close> only if the URI had no escapes and a question mark stood right behind it.\<close>

theorem unsafe_uri_safe:
  assumes "ngx_http_parse_unsafe_uri U uri args = (NGX_OK, uri', args')"
    and "path_separator U = (\<lambda>ch. ch = ch_slash)"
  shows "NUL \<notin> set uri' \<and> dot_dot \<notin> set (butlast (split_on ch_slash uri'))
    \<and> (dot_dot \<in> set (split_on ch_slash uri') \<longrightarrow> uri = uri' @ ch_question # args')"
  by (rule unsafe_uri_OK [OF assms])

theorem unsafe_uri_safe_witness:
  "\<exists>uri' args'. ngx_http_parse_unsafe_uri unix_uri_lib (bytes ''/a/%41/b?x=1'') [] = (NGX_OK, uri', args')
    \<and> dot_dot \<notin> set (butlast (split_on ch_slash uri'))"
proof -
  have "\<exists>uri' args'. ngx_http_parse_unsafe_uri unix_uri_lib (bytes ''/a/%41/b?x=1'') [] = (NGX_OK, uri', args')"
    by (simp add: ngx_http_parse_unsafe_uri_def unix_uri_lib_def is_usual_iff Let_def word_less_nat_alt)
  then obtain uri' args' where
    run: "ngx_http_parse_unsafe_uri unix_uri_lib (bytes ''/a/%41/b?x=1'') [] = (NGX_OK, uri', args')" by blast
  from run unsafe_uri_safe [OF run] show ?thesis by (auto simp: unix_uri_lib_def)
qed

text \<open>
  The exception is there: the check for \<open>/..\<close> compares the bytes left in the whole
  string, arguments included.
\<close>

lemma unsafe_uri_dot_dot_query:
  "ngx_http_parse_unsafe_uri unix_uri_lib (bytes ''/..?x'') [] = (NGX_OK, bytes ''/..'', bytes ''x'')"
  by (simp add: ngx_http_parse_unsafe_uri_def unix_uri_lib_def is_usual_iff Let_def word_less_nat_alt)

text \<open>C25: \<open>ngx_http_parse_multi_header_lines\<close> finds a cookie: in any number of header lines of the
  form \<open>n1=v1; n2=v2; ...\<close> (names and values without spaces, semicolons and commas) it returns the
  first line that has a cookie with that name in either case, and the value of the first such
  cookie in it; NULL when there is none in any line. A cookie whose name only starts with the name
  looked for is passed over. Lines of another form are not covered: see \<open>cookie_after_valueless\<close>.\<close>

theorem cookie_roundtrip:
  assumes "strncasecmp_ok cmp" and "name \<noteq> []" and "\<forall>ch\<in>set name. cookie_name_char ch"
    and "\<forall>l\<in>set ls. list_all cookie_ok (snd l)"
  shows "ngx_http_parse_multi_header_lines cmp (map cookie_line ls) name True =
    (case find (\<lambda>l. cookie_lookup name (snd l) \<noteq> None) ls of
       None \<Rightarrow> None
     | Some l \<Rightarrow> Some (cookie_line l, cookie_lookup name (snd l)))"
  using assms(4)
proof (induction ls)
  case (Cons l ls)
  have scan: "mh_scan cmp name True (encode_cookies (snd l)) = map_option Some (cookie_lookup name (snd l))"
    using mh_scan_cookies [OF assms(1-3)] Cons.prems by simp
  have IH: "ngx_http_parse_multi_header_lines cmp (map cookie_line ls) name True =
      (case find (\<lambda>l. cookie_lookup name (snd l) \<noteq> None) ls of
         None \<Rightarrow> None | Some l \<Rightarrow> Some (cookie_line l, cookie_lookup name (snd l)))"
    using Cons by simp
  show ?case
  proof (cases "cookie_lookup name (snd l)")
    case None
    then show ?thesis using scan IH by simp
  next
    case (Some v)
    then have "length name \<le> length (encode_cookies (snd l))" using cookie_lookup_length [of name "snd l"] by simp
    then show ?thesis using scan Some by simp
  qed
qed simp

theorem cookie_roundtrip_witness:
  "ngx_http_parse_multi_header_lines ref_strncasecmp
     [\<lparr>elt_key = bytes ''Cookie'', elt_value = bytes ''sid2=a; lang=en''\<rparr>,
      \<lparr>elt_key = bytes ''Cookie'', elt_value = bytes ''x=y; SID=b=c; sid=d''\<rparr>] (bytes ''sid'') True =
   Some (\<lparr>elt_key = bytes ''Cookie'', elt_value = bytes ''x=y; SID=b=c; sid=d''\<rparr>, Some (bytes ''b=c''))"
  using cookie_roundtrip [OF ref_strncasecmp_ok, of "bytes ''sid''"
      "[(bytes ''Cookie'', [(bytes ''sid2'', bytes ''a''), (bytes ''lang'', bytes ''en'')]),
        (bytes ''Cookie'', [(bytes ''x'', bytes ''y''), (bytes ''SID'', bytes ''b=c''), (bytes ''sid'', bytes ''d'')])]"]
  by (simp add: cookie_ok_def cookie_name_char_def cookie_value_char_def cookie_lookup_def cookie_line_def ci_def word_le_nat_alt)

text \<open>
  A name with no value right before a separator makes the search skip the pair behind that
  separator: \<open>*start++\<close> has consumed it.
\<close>

lemma cookie_after_valueless:
  "ngx_http_parse_multi_header_lines ref_strncasecmp
     [\<lparr>elt_key = [], elt_value = bytes ''sid; sid=d''\<rparr>] (bytes ''sid'') True = None"
  by (simp add: mh_scan.simps mh_skip_def ref_strncasecmp_def ci_prefix_def)

text \<open>\<open>ngx_http_arg\<close> always ends, and finds an argument: in
  \<open>n1=v1&n2=v2&...\<close> the bytes it points \<open>value\<close> to are the value of the first argument
  with that name in either case, and it answers \<open>NGX_DECLINED\<close> when there is none; the name
  inside of a value or at the end of another name is not taken for it.\<close>

theorem arg_roundtrip:
  assumes "search_lib_ok S" and "name \<noteq> []" and "ch_amp \<notin> set name" and "ch_equals \<notin> set name"
    and "list_all arg_ok ps"
  shows "\<exists>a. ngx_http_arg S (encode_args ps) name = Some a \<and> arg_value (encode_args ps) a = cookie_lookup name ps"
proof (cases "encode_args ps = []")
  case True
  then show ?thesis
    using arg_encoded [OF assms(2-5)] by (simp add: ngx_http_arg_def arg_answer_def)
next
  case False
  then show ?thesis
    using arg_loop_least [OF assms(1,2), of "encode_args ps" 0] arg_encoded [OF assms(2-5)]
    by (simp add: ngx_http_arg_def)
qed

theorem arg_roundtrip_witness:
  "\<exists>a. ngx_http_arg ref_search_lib (bytes ''xid=1&v=id=2&ID=3'') (bytes ''id'') = Some a
    \<and> arg_value (bytes ''xid=1&v=id=2&ID=3'') a = Some (bytes ''3'')"
  using arg_roundtrip [OF ref_search_lib_ok, of "bytes ''id''"
      "[(bytes ''xid'', bytes ''1''), (bytes ''v'', bytes ''id=2''), (bytes ''ID'', bytes ''3'')]"]
  by (simp add: arg_ok_def cookie_lookup_def ci_def word_le_nat_alt)

text \<open>\<open>ngx_http_split_args\<close> takes apart what was joined with a question mark: the URI up to
  the first one and everything behind it, further question marks included; a URI without one
  has no arguments.\<close>

theorem split_args_roundtrip:
  assumes "search_lib_ok S" and "ch_question \<notin> set uri"
  shows "ngx_http_split_args S (uri @ ch_question # args) = (uri, args) \<and> ngx_http_split_args S uri = (uri, [])"
proof -
  have no: "uri ! j \<noteq> ch_question" if "j < length uri" for j using assms(2) that by (auto simp: in_set_conv_nth)
  let ?x = "uri @ ch_question # args"
  have "find (\<lambda>i. ?x ! i = ch_question) [0..<length ?x] = find (\<lambda>i. ?x ! i = ch_question) [length uri..<length ?x]"
    using no by (intro find_upt_skip) (auto simp: nth_append)
  also have "\<dots> = Some (length uri)" by (rule find_upt_here) simp_all
  finally have "strlchr S ?x 0 (length ?x) ch_question = Some (length uri)"
    using assms(1) by (simp add: search_lib_ok_def del: upt_Suc)
  moreover have "strlchr S uri 0 (length uri) ch_question = None"
    using assms(1) no by (auto simp: search_lib_ok_def find_upt_none)
  ultimately show ?thesis by (simp add: ngx_http_split_args_def)
qed

theorem split_args_roundtrip_witness:
  "ngx_http_split_args ref_search_lib (bytes ''/p?a?b'') = (bytes ''/p'', bytes ''a?b'')"
  using split_args_roundtrip [OF ref_search_lib_ok, of "bytes ''/p''" "bytes ''a?b''"] by simp

end
