(* ===== verification/Resp_Parser.thy ===== *)
theory Resp_Parser
  imports Prelude
begin

text \<open>
  The RESP reply parser of Redis (\<open>resp_parser.c\<close>, \<open>resp_parser.h\<close>): one function
  per reply type and the dispatcher \<open>parseReply\<close>. The reply buffer is a list of bytes,
  a pointer into it an offset, and a call of one of the user's callbacks is a value of
  the datatype \<open>resp_event\<close> with the arguments it is called with: each function calls
  one callback, as its last act. What C leaves undefined is an explicit fault: the pointer
  \<open>strchr\<close> returned when there is no carriage return, the number that \<open>string2ll\<close>
  did not write, an access outside of the buffer.

  \<open>string2ll\<close>, \<open>strtod\<close> and \<open>MAX_LONG_DOUBLE_CHARS\<close> belong to other files and
  are the fields of \<open>resp_lib\<close>.

  The callbacks of aggregates have to go on parsing. \<open>read_reply\<close> is the client that
  \<open>resp_parser.c\<close> describes, with the number of nested calls bounded by fuel; the main
  property says that it reads back every reply and ends right behind it.
\<close>

section \<open>Types\<close>

datatype resp_fault = null_pointer | out_of_bounds | uninitialised

datatype resp_rc = C_OK | C_ERR

record 'd resp_lib =
  string2ll :: "byte list \<Rightarrow> int option"
  strtod :: "byte list \<Rightarrow> 'd"
  double_zero :: 'd
  max_long_double_chars :: nat

text \<open>The callbacks and their arguments, without the context \<open>p_ctx\<close> they all get.\<close>

datatype 'd resp_event =
    null_array_callback int nat
  | null_bulk_string_callback int nat
  | bulk_string_callback int nat int nat
  | error_callback int nat int nat
  | simple_str_callback int nat int nat
  | long_callback int int nat
  | array_callback nat int
  | set_callback nat int
  | map_callback nat int
  | bool_callback bool int nat
  | double_callback 'd int nat
  | big_number_callback int nat int nat
  | verbatim_string_callback int int nat int nat
  | attribute_callback nat int
  | null_callback int nat
  | error_no_callback bool

text \<open>
  What a call comes to: the callback called, the return code and \<open>curr_location\<close>. The
  flag of \<open>error_no_callback\<close> says whether \<open>callbacks.error\<close> was set, and hence called.
\<close>

type_synonym 'd resp_result = "resp_fault + 'd resp_event \<times> resp_rc \<times> int"

record ReplyParser =
  curr_location :: int
  has_error :: bool

section \<open>C library\<close>

text \<open>Conversion of a \<open>long long\<close> or a pointer difference to \<open>size_t\<close>.\<close>

definition size_t :: "int \<Rightarrow> nat" where
  "size_t n = nat (n mod 2 ^ 64)"

text \<open>
  \<open>strchr\<close> on the bytes from some address on: the offset of the first \<open>c\<close>, the null
  pointer when the string ends before.
\<close>

fun strchr :: "byte \<Rightarrow> byte list \<Rightarrow> resp_fault + nat option" where
  "strchr c [] = Inl out_of_bounds"
| "strchr c (x # xs) =
     (if x = c then Inr (Some 0)
      else if x = NUL then Inr None
      else map_sum id (map_option Suc) (strchr c xs))"

section \<open>The parse functions\<close>

text \<open>
  \<open>char *p = strchr(proto+1,'\r')\<close>. Every function goes on to compute \<open>p + 2\<close>, which
  the null pointer does not allow.
\<close>

definition find_cr :: "byte list \<Rightarrow> int \<Rightarrow> resp_fault + int" where
  "find_cr xs proto =
     (if proto + 1 < 0 then Inl out_of_bounds
      else
        (case strchr CR (drop (nat (proto + 1)) xs) of
           Inl f \<Rightarrow> Inl f
         | Inr None \<Rightarrow> Inl null_pointer
         | Inr (Some i) \<Rightarrow> Inr (proto + 1 + int i)))"

text \<open>The bytes from \<open>proto + 1\<close> to \<open>p\<close>.\<close>

definition line_text :: "byte list \<Rightarrow> int \<Rightarrow> int \<Rightarrow> byte list" where
  "line_text xs proto p = segment (nat (proto + 1)) (nat p) xs"

text \<open>\<open>string2ll(proto+1,p-proto-1,&val)\<close>, whose result is used whether it was set or not.\<close>

definition line_ll :: "'d resp_lib \<Rightarrow> byte list \<Rightarrow> int \<Rightarrow> int \<Rightarrow> resp_fault + int" where
  "line_ll L xs proto p =
     (case string2ll L (line_text xs proto p) of
        None \<Rightarrow> Inl uninitialised
      | Some n \<Rightarrow> Inr n)"

definition parseBulk :: "'d resp_lib \<Rightarrow> byte list \<Rightarrow> int \<Rightarrow> 'd resp_result" where
  "parseBulk L xs proto =
     (case find_cr xs proto of
        Inl f \<Rightarrow> Inl f
      | Inr p \<Rightarrow>
          let curr = p + 2 in
          (case line_ll L xs proto p of
             Inl f \<Rightarrow> Inl f
           | Inr bulklen \<Rightarrow>
               if bulklen = - 1
               then Inr (null_bulk_string_callback proto (size_t (curr - proto)), C_OK, curr)
               else
                 (let str = curr;
                      curr = curr + bulklen;
                      curr = curr + 2
                  in Inr (bulk_string_callback str (size_t bulklen) proto (size_t (curr - proto)),
                       C_OK, curr))))"

definition parseSimpleString :: "'d resp_lib \<Rightarrow> byte list \<Rightarrow> int \<Rightarrow> 'd resp_result" where
  "parseSimpleString L xs proto =
     (case find_cr xs proto of
        Inl f \<Rightarrow> Inl f
      | Inr p \<Rightarrow>
          let curr = p + 2 in
          Inr (simple_str_callback (proto + 1) (size_t (p - proto - 1)) proto (size_t (curr - proto)),
            C_OK, curr))"

definition parseError :: "'d resp_lib \<Rightarrow> byte list \<Rightarrow> int \<Rightarrow> 'd resp_result" where
  "parseError L xs proto =
     (case find_cr xs proto of
        Inl f \<Rightarrow> Inl f
      | Inr p \<Rightarrow>
          let curr = p + 2 in
          Inr (error_callback (proto + 1) (size_t (p - proto - 1)) proto (size_t (curr - proto)),
            C_OK, curr))"

definition parseLong :: "'d resp_lib \<Rightarrow> byte list \<Rightarrow> int \<Rightarrow> 'd resp_result" where
  "parseLong L xs proto =
     (case find_cr xs proto of
        Inl f \<Rightarrow> Inl f
      | Inr p \<Rightarrow>
          let curr = p + 2 in
          (case line_ll L xs proto p of
             Inl f \<Rightarrow> Inl f
           | Inr val \<Rightarrow> Inr (long_callback val proto (size_t (curr - proto)), C_OK, curr)))"

definition parseAttributes :: "'d resp_lib \<Rightarrow> byte list \<Rightarrow> int \<Rightarrow> 'd resp_result" where
  "parseAttributes L xs proto =
     (case find_cr xs proto of
        Inl f \<Rightarrow> Inl f
      | Inr p \<Rightarrow>
          (case line_ll L xs proto p of
             Inl f \<Rightarrow> Inl f
           | Inr len \<Rightarrow> Inr (attribute_callback (size_t len) proto, C_OK, p + 2)))"

definition parseVerbatimString :: "'d resp_lib \<Rightarrow> byte list \<Rightarrow> int \<Rightarrow> 'd resp_result" where
  "parseVerbatimString L xs proto =
     (case find_cr xs proto of
        Inl f \<Rightarrow> Inl f
      | Inr p \<Rightarrow>
          let curr = p + 2 in
          (case line_ll L xs proto p of
             Inl f \<Rightarrow> Inl f
           | Inr bulklen \<Rightarrow>
               let format = curr;
                   curr = curr + bulklen;
                   curr = curr + 2
               in Inr (verbatim_string_callback format (format + 4) (size_t (bulklen - 4)) proto
                         (size_t (curr - proto)),
                    C_OK, curr)))"

definition parseBigNumber :: "'d resp_lib \<Rightarrow> byte list \<Rightarrow> int \<Rightarrow> 'd resp_result" where
  "parseBigNumber L xs proto =
     (case find_cr xs proto of
        Inl f \<Rightarrow> Inl f
      | Inr p \<Rightarrow>
          let curr = p + 2 in
          Inr (big_number_callback (proto + 1) (size_t (p - proto - 1)) proto (size_t (curr - proto)),
            C_OK, curr))"

definition parseNull :: "'d resp_lib \<Rightarrow> byte list \<Rightarrow> int \<Rightarrow> 'd resp_result" where
  "parseNull L xs proto =
     (case find_cr xs proto of
        Inl f \<Rightarrow> Inl f
      | Inr p \<Rightarrow>
          let curr = p + 2 in
          Inr (null_callback proto (size_t (curr - proto)), C_OK, curr))"

definition parseDouble :: "'d resp_lib \<Rightarrow> byte list \<Rightarrow> int \<Rightarrow> 'd resp_result" where
  "parseDouble L xs proto =
     (case find_cr xs proto of
        Inl f \<Rightarrow> Inl f
      | Inr p \<Rightarrow>
          let curr = p + 2;
              len = size_t (p - proto - 1);
              d = (if len \<le> max_long_double_chars L
                   then strtod L (line_text xs proto p)
                   else double_zero L)
          in Inr (double_callback d proto (size_t (curr - proto)), C_OK, curr))"

definition parseBool :: "'d resp_lib \<Rightarrow> byte list \<Rightarrow> int \<Rightarrow> 'd resp_result" where
  "parseBool L xs proto =
     (case find_cr xs proto of
        Inl f \<Rightarrow> Inl f
      | Inr p \<Rightarrow>
          let curr = p + 2 in
          Inr (bool_callback (xs ! nat (proto + 1) = 0x74) proto (size_t (curr - proto)), C_OK, curr))"

definition parseArray :: "'d resp_lib \<Rightarrow> byte list \<Rightarrow> int \<Rightarrow> 'd resp_result" where
  "parseArray L xs proto =
     (case find_cr xs proto of
        Inl f \<Rightarrow> Inl f
      | Inr p \<Rightarrow>
          (case line_ll L xs proto p of
             Inl f \<Rightarrow> Inl f
           | Inr len \<Rightarrow>
               let curr = p + 2 in
               if len = - 1
               then Inr (null_array_callback proto (size_t (curr - proto)), C_OK, curr)
               else Inr (array_callback (size_t len) proto, C_OK, curr)))"

definition parseSet :: "'d resp_lib \<Rightarrow> byte list \<Rightarrow> int \<Rightarrow> 'd resp_result" where
  "parseSet L xs proto =
     (case find_cr xs proto of
        Inl f \<Rightarrow> Inl f
      | Inr p \<Rightarrow>
          (case line_ll L xs proto p of
             Inl f \<Rightarrow> Inl f
           | Inr len \<Rightarrow> Inr (set_callback (size_t len) proto, C_OK, p + 2)))"

definition parseMap :: "'d resp_lib \<Rightarrow> byte list \<Rightarrow> int \<Rightarrow> 'd resp_result" where
  "parseMap L xs proto =
     (case find_cr xs proto of
        Inl f \<Rightarrow> Inl f
      | Inr p \<Rightarrow>
          (case line_ll L xs proto p of
             Inl f \<Rightarrow> Inl f
           | Inr len \<Rightarrow> Inr (map_callback (size_t len) proto, C_OK, p + 2)))"

section \<open>The dispatcher\<close>

definition parseReply :: "'d resp_lib \<Rightarrow> byte list \<Rightarrow> ReplyParser \<Rightarrow> 'd resp_result" where
  "parseReply L xs parser =
     (let loc = curr_location parser in
      if loc < 0 \<or> loc \<ge> int (length xs) then Inl out_of_bounds
      else
        (let ch = xs ! nat loc in
         if ch = 0x24 then parseBulk L xs loc
         else if ch = ch_plus then parseSimpleString L xs loc
         else if ch = ch_minus then parseError L xs loc
         else if ch = ch_colon then parseLong L xs loc
         else if ch = 0x2a then parseArray L xs loc
         else if ch = ch_tilde then parseSet L xs loc
         else if ch = ch_percent then parseMap L xs loc
         else if ch = ch_hash then parseBool L xs loc
         else if ch = ch_comma then parseDouble L xs loc
         else if ch = ch_underscore then parseNull L xs loc
         else if ch = 0x28 then parseBigNumber L xs loc
         else if ch = ch_equals then parseVerbatimString L xs loc
         else if ch = 0x7c then parseAttributes L xs loc
         else Inr (error_no_callback (has_error parser), C_ERR, loc)))"

lemmas resp_parse_defs =
  parseBulk_def parseSimpleString_def parseError_def parseLong_def parseArray_def parseSet_def
  parseMap_def parseBool_def parseDouble_def parseNull_def parseBigNumber_def
  parseVerbatimString_def parseAttributes_def

section \<open>Replies and the client\<close>

text \<open>
  Replies as the protocol has them. Maps and attributes are lists of keys and values in
  turn. A double is a number for the client and its text in the protocol: the type
  parameter.
\<close>

datatype 'd reply =
    R_null_bulk
  | R_bulk "byte list"
  | R_simple "byte list"
  | R_error "byte list"
  | R_long int
  | R_null_array
  | R_array "'d reply list"
  | R_set "'d reply list"
  | R_map "'d reply list"
  | R_bool bool
  | R_double 'd
  | R_null
  | R_big "byte list"
  | R_verbatim "byte list" "byte list"
  | R_attribute "'d reply list" "'d reply"

text \<open>Decimal numbers as Redis prints them.\<close>

fun dec_nat :: "nat \<Rightarrow> byte list" where
  "dec_nat n = (if n < 10 then [ch_0 + of_nat n] else dec_nat (n div 10) @ [ch_0 + of_nat (n mod 10)])"

declare dec_nat.simps [simp del]

definition dec :: "int \<Rightarrow> byte list" where
  "dec n = (if n < 0 then ch_minus # dec_nat (nat (- n)) else dec_nat (nat n))"

abbreviation crlf :: "byte list" where "crlf \<equiv> [CR, LF]"

fun encode_reply :: "byte list reply \<Rightarrow> byte list" where
  "encode_reply R_null_bulk = 0x24 # dec (- 1) @ crlf"
| "encode_reply (R_bulk s) = 0x24 # dec (int (length s)) @ crlf @ s @ crlf"
| "encode_reply (R_simple s) = ch_plus # s @ crlf"
| "encode_reply (R_error s) = ch_minus # s @ crlf"
| "encode_reply (R_long n) = ch_colon # dec n @ crlf"
| "encode_reply R_null_array = 0x2a # dec (- 1) @ crlf"
| "encode_reply (R_array rs) = 0x2a # dec (int (length rs)) @ crlf @ concat (map encode_reply rs)"
| "encode_reply (R_set rs) = ch_tilde # dec (int (length rs)) @ crlf @ concat (map encode_reply rs)"
| "encode_reply (R_map rs) =
     ch_percent # dec (int (length rs div 2)) @ crlf @ concat (map encode_reply rs)"
| "encode_reply (R_bool b) = ch_hash # (if b then 0x74 else 0x66) # crlf"
| "encode_reply (R_double s) = ch_comma # s @ crlf"
| "encode_reply R_null = ch_underscore # crlf"
| "encode_reply (R_big s) = 0x28 # s @ crlf"
| "encode_reply (R_verbatim f s) =
     ch_equals # dec (int (length f + length s)) @ crlf @ f @ s @ crlf"
| "encode_reply (R_attribute rs r) =
     0x7c # dec (int (length rs div 2)) @ crlf @ concat (map encode_reply rs) @ encode_reply r"

text \<open>Text that a line can hold: no carriage return, which ends it, and no null byte.\<close>

definition line_ok :: "byte list \<Rightarrow> bool" where
  "line_ok s \<longleftrightarrow> CR \<notin> set s \<and> NUL \<notin> set s"

definition ll_ok :: "int \<Rightarrow> bool" where
  "ll_ok n \<longleftrightarrow> - (2 ^ 63) \<le> n \<and> n < 2 ^ 63"

fun reply_ok :: "nat \<Rightarrow> byte list reply \<Rightarrow> bool" where
  "reply_ok m (R_bulk s) \<longleftrightarrow> length s < 2 ^ 63"
| "reply_ok m (R_simple s) \<longleftrightarrow> line_ok s \<and> length s < 2 ^ 64"
| "reply_ok m (R_error s) \<longleftrightarrow> line_ok s \<and> length s < 2 ^ 64"
| "reply_ok m (R_long n) \<longleftrightarrow> ll_ok n"
| "reply_ok m (R_array rs) \<longleftrightarrow> length rs < 2 ^ 63 \<and> list_all (reply_ok m) rs"
| "reply_ok m (R_set rs) \<longleftrightarrow> length rs < 2 ^ 63 \<and> list_all (reply_ok m) rs"
| "reply_ok m (R_map rs) \<longleftrightarrow> even (length rs) \<and> length rs < 2 ^ 63 \<and> list_all (reply_ok m) rs"
| "reply_ok m (R_double s) \<longleftrightarrow> line_ok s \<and> length s \<le> m \<and> length s < 2 ^ 64"
| "reply_ok m (R_big s) \<longleftrightarrow> line_ok s \<and> length s < 2 ^ 64"
| "reply_ok m (R_verbatim f s) \<longleftrightarrow> length f = 4 \<and> length f + length s < 2 ^ 63"
| "reply_ok m (R_attribute rs r) \<longleftrightarrow>
     even (length rs) \<and> length rs < 2 ^ 63 \<and> list_all (reply_ok m) rs \<and> reply_ok m r"
| "reply_ok m _ \<longleftrightarrow> True"

text \<open>
  The client: it keeps what a callback hands it, and for an aggregate it calls
  \<open>parseReply\<close> once per element, twice per pair of a map, and once more for the reply
  an attribute belongs to.
\<close>

datatype client_error = parser_fault resp_fault | refused | out_of_fuel

definition fetch :: "byte list \<Rightarrow> int \<Rightarrow> nat \<Rightarrow> byte list" where
  "fetch xs str len = segment (nat str) (nat str + len) xs"

function read_reply :: "'d resp_lib \<Rightarrow> byte list \<Rightarrow> nat \<Rightarrow> int \<Rightarrow> client_error + 'd reply \<times> int"
  and read_n :: "'d resp_lib \<Rightarrow> byte list \<Rightarrow> nat \<Rightarrow> nat \<Rightarrow> int \<Rightarrow> client_error + 'd reply list \<times> int"
where
  "read_reply L xs 0 loc = Inl out_of_fuel"
| "read_reply L xs (Suc k) loc =
     (case parseReply L xs \<lparr>curr_location = loc, has_error = True\<rparr> of
        Inl f \<Rightarrow> Inl (parser_fault f)
      | Inr (ev, rc, loc) \<Rightarrow>
          (case ev of
             null_array_callback _ _ \<Rightarrow> Inr (R_null_array, loc)
           | null_bulk_string_callback _ _ \<Rightarrow> Inr (R_null_bulk, loc)
           | bulk_string_callback str len _ _ \<Rightarrow> Inr (R_bulk (fetch xs str len), loc)
           | error_callback str len _ _ \<Rightarrow> Inr (R_error (fetch xs str len), loc)
           | simple_str_callback str len _ _ \<Rightarrow> Inr (R_simple (fetch xs str len), loc)
           | long_callback val _ _ \<Rightarrow> Inr (R_long val, loc)
           | array_callback len _ \<Rightarrow> map_sum id (apfst R_array) (read_n L xs k len loc)
           | set_callback len _ \<Rightarrow> map_sum id (apfst R_set) (read_n L xs k len loc)
           | map_callback len _ \<Rightarrow> map_sum id (apfst R_map) (read_n L xs k (2 * len) loc)
           | bool_callback b _ _ \<Rightarrow> Inr (R_bool b, loc)
           | double_callback d _ _ \<Rightarrow> Inr (R_double d, loc)
           | big_number_callback str len _ _ \<Rightarrow> Inr (R_big (fetch xs str len), loc)
           | verbatim_string_callback format str len _ _ \<Rightarrow>
               Inr (R_verbatim (fetch xs format 4) (fetch xs str len), loc)
           | attribute_callback len _ \<Rightarrow>
               (case read_n L xs k (2 * len) loc of
                  Inl e \<Rightarrow> Inl e
                | Inr (rs, loc) \<Rightarrow> map_sum id (apfst (R_attribute rs)) (read_reply L xs k loc))
           | null_callback _ _ \<Rightarrow> Inr (R_null, loc)
           | error_no_callback _ \<Rightarrow> Inl refused))"
| "read_n L xs k 0 loc = Inr ([], loc)"
| "read_n L xs k (Suc n) loc =
     (case read_reply L xs k loc of
        Inl e \<Rightarrow> Inl e
      | Inr (r, loc) \<Rightarrow> map_sum id (apfst (Cons r)) (read_n L xs k n loc))"
  by pat_completeness auto
termination
  by (relation "inv_image (less_than <*lex*> less_than)
        (\<lambda>a. case a of Inl (L, xs, k, loc) \<Rightarrow> (k, 0) | Inr (L, xs, k, n, loc) \<Rightarrow> (k, Suc n))") auto

section \<open>Lines\<close>

lemma size_t_id: "0 \<le> n \<Longrightarrow> n < 2 ^ 64 \<Longrightarrow> size_t n = nat n"
  by (simp add: size_t_def)

lemma size_t_nat [simp]: "n < 2 ^ 64 \<Longrightarrow> size_t (int n) = n"
  by (simp add: size_t_id)

lemma strchr_line: "line_ok s \<Longrightarrow> strchr CR (s @ CR # rest) = Inr (Some (length s))"
  by (induction s) (auto simp: line_ok_def)

lemma line_found:
  assumes "drop p xs = c # s @ CR # rest" and "line_ok s"
  shows "find_cr xs (int p) = Inr (int (p + 1 + length s))"
    and "line_text xs (int p) (int (p + 1 + length s)) = s"
    and "drop (p + 2 + length s) xs = rest" and "xs ! p = c" and "p < length xs"
proof -
  note d = drop_Cons_at [OF assms(1)]
  have n: "nat (1 + int p) = Suc p" and n1: "nat (int p + 1) = Suc p" by simp_all
  have n2: "p + 1 + length s - Suc p = length s" by simp
  show "find_cr xs (int p) = Inr (int (p + 1 + length s))"
    using d(3) strchr_line [OF assms(2), of rest] by (simp add: find_cr_def n add.commute)
  show "line_text xs (int p) (int (p + 1 + length s)) = s"
    using d(3) n2 unfolding line_text_def segment_def nat_int by (simp add: n1)
  show "drop (p + 2 + length s) xs = rest"
    using drop_Cons_at(3) [OF drop_append_at [OF d(3)]] by (simp add: add.commute)
  show "xs ! p = c" "p < length xs" using d by simp_all
qed

lemma dec_nat_digits: "\<forall>d\<in>set (dec_nat n). is_digit d"
proof (induction n rule: dec_nat.induct)
  case (1 n)
  have dig: "is_digit (ch_0 + of_nat m)" if "m < 10" for m
  proof -
    have "m \<in> {0,1,2,3,4,5,6,7,8,9}" using that by auto
    then show ?thesis by (auto simp: is_digit_def)
  qed
  show ?case
  proof (cases "n < 10")
    case True
    then show ?thesis by (subst dec_nat.simps) (simp add: dig)
  next
    case False
    with 1 show ?thesis by (subst dec_nat.simps) (auto simp: dig)
  qed
qed

lemma dec_line_ok: "line_ok (dec n)"
  using dec_nat_digits [of "nat (- n)"] dec_nat_digits [of "nat n"]
  by (auto simp: line_ok_def dec_def is_digit_def)


section \<open>Reading back\<close>

text \<open>\<open>string2ll\<close> reads what Redis prints for a \<open>long long\<close>.\<close>

definition resp_lib_ok :: "'d resp_lib \<Rightarrow> bool" where
  "resp_lib_ok L \<longleftrightarrow> (\<forall>n. ll_ok n \<longrightarrow> string2ll L (dec n) = Some n)"

lemma string2ll_dec [simp]: "resp_lib_ok L \<Longrightarrow> ll_ok n \<Longrightarrow> string2ll L (dec n) = Some n"
  by (simp add: resp_lib_ok_def)

lemma line_ll_dec:
  assumes "resp_lib_ok L" and "ll_ok n" and "drop p xs = c # dec n @ CR # rest"
  shows "line_ll L xs (int p) (int (p + 1 + length (dec n))) = Inr n"
  unfolding line_ll_def line_found(2) [OF assms(3) dec_line_ok] using assms(1,2) by simp

lemma fetch_here: "drop q xs = s @ rest \<Longrightarrow> int q = str \<Longrightarrow> fetch xs str (length s) = s"
  by (auto simp: fetch_def segment_def)

text \<open>One reply: the line behind its first byte, and what is behind the line.\<close>

lemma parse_line:
  assumes "drop p xs = c # s @ CR # LF # rest" and "line_ok s"
  shows "find_cr xs (int p) = Inr (int (p + 1 + length s))" and "xs ! p = c" and "p < length xs"
    and "drop (p + 3 + length s) xs = rest" and "line_text xs (int p) (int (p + 1 + length s)) = s"
    and "fetch xs (int p + 1) (length s) = s"
proof -
  note l = line_found [OF assms]
  show "find_cr xs (int p) = Inr (int (p + 1 + length s))" "xs ! p = c" "p < length xs"
    "line_text xs (int p) (int (p + 1 + length s)) = s" by (fact l)+
  show "drop (p + 3 + length s) xs = rest"
    using drop_Cons_at(3) [OF l(3)] by (simp add: eval_nat_numeral)
  show "fetch xs (int p + 1) (length s) = s"
    using drop_Cons_at(3) [OF assms(1)] by (intro fetch_here [of "Suc p"]) auto
qed

lemma parseReply_at:
  fixes L :: "'d resp_lib" and h :: bool
  assumes "p < length xs"
  defines "r \<equiv> parseReply L xs \<lparr>curr_location = int p, has_error = h\<rparr>"
  shows "xs ! p = 0x24 \<Longrightarrow> r = parseBulk L xs (int p)"
    and "xs ! p = ch_plus \<Longrightarrow> r = parseSimpleString L xs (int p)"
    and "xs ! p = ch_minus \<Longrightarrow> r = parseError L xs (int p)"
    and "xs ! p = ch_colon \<Longrightarrow> r = parseLong L xs (int p)"
    and "xs ! p = 0x2a \<Longrightarrow> r = parseArray L xs (int p)"
    and "xs ! p = ch_tilde \<Longrightarrow> r = parseSet L xs (int p)"
    and "xs ! p = ch_percent \<Longrightarrow> r = parseMap L xs (int p)"
    and "xs ! p = ch_hash \<Longrightarrow> r = parseBool L xs (int p)"
    and "xs ! p = ch_comma \<Longrightarrow> r = parseDouble L xs (int p)"
    and "xs ! p = ch_underscore \<Longrightarrow> r = parseNull L xs (int p)"
    and "xs ! p = 0x28 \<Longrightarrow> r = parseBigNumber L xs (int p)"
    and "xs ! p = ch_equals \<Longrightarrow> r = parseVerbatimString L xs (int p)"
    and "xs ! p = 0x7c \<Longrightarrow> r = parseAttributes L xs (int p)"
  using assms(1) by (simp_all add: r_def parseReply_def)

lemmas parse_simps = parseReply_at resp_parse_defs Let_def ll_ok_def algebra_simps

text \<open>Wherever the encoding of \<open>t\<close> stands in the buffer, the client reads \<open>t\<close> there.\<close>

definition reads_back :: "'d resp_lib \<Rightarrow> byte list \<Rightarrow> byte list reply \<Rightarrow> bool" where
  "reads_back L xs t \<longleftrightarrow>
     (\<forall>p k rest. drop p xs = encode_reply t @ rest \<longrightarrow> length (encode_reply t) \<le> k \<longrightarrow>
        read_reply L xs k (int p) = Inr (map_reply (strtod L) t, int (p + length (encode_reply t))))"

lemma encode_reply_pos: "0 < length (encode_reply t)"
  by (cases t) simp_all

lemma reads_backI:
  assumes "\<And>p k rest. drop p xs = encode_reply t @ rest \<Longrightarrow> length (encode_reply t) \<le> Suc k \<Longrightarrow>
    read_reply L xs (Suc k) (int p) = Inr (map_reply (strtod L) t, int (p + length (encode_reply t)))"
  shows "reads_back L xs t"
  unfolding reads_back_def
proof (intro allI impI)
  fix p k rest
  assume d: "drop p xs = encode_reply t @ rest" and k: "length (encode_reply t) \<le> k"
  then obtain k' where k': "k = Suc k'" using encode_reply_pos [of t] by (cases k) auto
  show "read_reply L xs k (int p) = Inr (map_reply (strtod L) t, int (p + length (encode_reply t)))"
    unfolding k' by (rule assms [OF d k [unfolded k']])
qed

lemma reads_backD:
  "reads_back L xs t \<Longrightarrow> drop p xs = encode_reply t @ rest \<Longrightarrow> length (encode_reply t) \<le> k \<Longrightarrow>
   read_reply L xs k (int p) = Inr (map_reply (strtod L) t, int (p + length (encode_reply t)))"
  by (simp add: reads_back_def)

text \<open>Replies of one line of text.\<close>

lemma reads_simple: "reply_ok m (R_simple s) \<Longrightarrow> reads_back L xs (R_simple s)"
  using parse_line [where c = ch_plus and s = s and xs = xs]
  by (intro reads_backI) (simp add: parse_simps)

lemma reads_error: "reply_ok m (R_error s) \<Longrightarrow> reads_back L xs (R_error s)"
  using parse_line [where c = ch_minus and s = s and xs = xs]
  by (intro reads_backI) (simp add: parse_simps)

lemma reads_big: "reply_ok m (R_big s) \<Longrightarrow> reads_back L xs (R_big s)"
  using parse_line [where c = "0x28" and s = s and xs = xs]
  by (intro reads_backI) (simp add: parse_simps)

lemma reads_double: "reply_ok (max_long_double_chars L) (R_double s) \<Longrightarrow> reads_back L xs (R_double s)"
  using parse_line [where c = ch_comma and s = s and xs = xs]
  by (intro reads_backI) (simp add: parse_simps)

lemma reads_null: "reads_back L xs R_null"
  using parse_line [where c = ch_underscore and s = "[]" and xs = xs]
  by (intro reads_backI) (simp add: parse_simps line_ok_def)

lemma reads_bool: "reads_back L xs (R_bool b)"
proof (rule reads_backI)
  fix p k rest
  let ?t = "if b then 0x74 else 0x66 :: byte"
  assume "drop p xs = encode_reply (R_bool b) @ rest"
  then have d: "drop p xs = ch_hash # [?t] @ CR # LF # rest" by simp
  have lo: "line_ok [?t]" by (simp add: line_ok_def)
  have n: "nat (1 + int p) = Suc p" by simp
  have "xs ! Suc p = ?t" using drop_Cons_at(1) [OF drop_Cons_at(3) [OF d, simplified]] .
  then have "xs ! Suc p = 0x74 \<longleftrightarrow> b" by simp
  then show "read_reply L xs (Suc k) (int p) =
      Inr (map_reply (strtod L) (R_bool b), int (p + length (encode_reply (R_bool b))))"
    using parse_line(1-3) [OF d lo] by (simp add: parse_simps n)
qed

text \<open>Numbers and strings with a length.\<close>

lemma reads_long: "resp_lib_ok L \<Longrightarrow> reply_ok m (R_long n) \<Longrightarrow> reads_back L xs (R_long n)"
  using parse_line [where c = ch_colon and s = "dec n" and xs = xs, OF _ dec_line_ok]
    line_ll_dec [where L = L and n = n and xs = xs and c = ch_colon and rest = "LF # rest" for rest]
  by (intro reads_backI) (simp add: parse_simps)

lemma reads_null_bulk: "resp_lib_ok L \<Longrightarrow> reads_back L xs R_null_bulk"
  using parse_line [where c = "0x24" and s = "dec (- 1)" and xs = xs, OF _ dec_line_ok]
    line_ll_dec [where L = L and n = "- 1" and xs = xs and c = "0x24" and rest = "LF # rest" for rest]
  by (intro reads_backI) (simp add: parse_simps)

lemma reads_null_array: "resp_lib_ok L \<Longrightarrow> reads_back L xs R_null_array"
  using parse_line [where c = "0x2a" and s = "dec (- 1)" and xs = xs, OF _ dec_line_ok]
    line_ll_dec [where L = L and n = "- 1" and xs = xs and c = "0x2a" and rest = "LF # rest" for rest]
  by (intro reads_backI) (simp add: parse_simps)

lemma reads_bulk:
  assumes L: "resp_lib_ok L" and ok: "reply_ok m (R_bulk s)"
  shows "reads_back L xs (R_bulk s)"
proof (rule reads_backI)
  fix p k rest
  assume "drop p xs = encode_reply (R_bulk s) @ rest"
  then have d: "drop p xs = 0x24 # dec (int (length s)) @ CR # LF # s @ crlf @ rest" by simp
  note l = parse_line [OF d dec_line_ok]
  show "read_reply L xs (Suc k) (int p) =
      Inr (map_reply (strtod L) (R_bulk s), int (p + length (encode_reply (R_bulk s))))"
    using l line_ll_dec [OF L _ d] fetch_here [OF l(4) refl] ok by (simp add: parse_simps)
qed

lemma reads_verbatim:
  assumes L: "resp_lib_ok L" and ok: "reply_ok m (R_verbatim f s)"
  shows "reads_back L xs (R_verbatim f s)"
proof (rule reads_backI)
  fix p k rest
  let ?n = "dec (int (length f + length s))"
  assume "drop p xs = encode_reply (R_verbatim f s) @ rest"
  then have d: "drop p xs = ch_equals # ?n @ CR # LF # f @ s @ crlf @ rest" by simp
  note l = parse_line [OF d dec_line_ok]
  have "fetch xs (int (p + 3 + length ?n)) (length f) = f"
    "fetch xs (int (p + 3 + length ?n + length f)) (length s) = s"
    using fetch_here [OF l(4)] fetch_here [OF drop_append_at [OF l(4)]] by auto
  then show "read_reply L xs (Suc k) (int p) =
      Inr (map_reply (strtod L) (R_verbatim f s), int (p + length (encode_reply (R_verbatim f s))))"
    using l(1-3) line_ll_dec [OF L _ d] ok by (simp add: parse_simps)
qed

text \<open>Aggregates, whose elements can be read back.\<close>

lemma read_n_all:
  assumes "\<And>r. r \<in> set rs \<Longrightarrow> reads_back L xs r"
    and "drop p xs = concat (map encode_reply rs) @ rest"
    and "length (concat (map encode_reply rs)) \<le> k"
  shows "read_n L xs k (length rs) (int p) =
    Inr (map (map_reply (strtod L)) rs, int (p + length (concat (map encode_reply rs))))"
  using assms
proof (induction rs arbitrary: p)
  case (Cons r rs)
  have d: "drop p xs = encode_reply r @ concat (map encode_reply rs) @ rest" using Cons.prems(2) by simp
  have "read_reply L xs k (int p) = Inr (map_reply (strtod L) r, int (p + length (encode_reply r)))"
    using Cons.prems(3) by (intro reads_backD [OF Cons.prems(1) d]) simp_all
  moreover have "read_n L xs k (length rs) (int (p + length (encode_reply r))) =
      Inr (map (map_reply (strtod L)) rs,
        int (p + length (encode_reply r) + length (concat (map encode_reply rs))))"
    using Cons.prems(3) drop_append_at [OF d] by (intro Cons.IH Cons.prems(1)) auto
  ultimately show ?case by simp
qed simp

lemma read_elements:
  assumes "\<And>r. r \<in> set rs \<Longrightarrow> reads_back L xs r"
    and "drop p xs = c # s @ CR # LF # concat (map encode_reply rs) @ rest" and "line_ok s"
    and "length (concat (map encode_reply rs)) \<le> k"
  shows "read_n L xs k (length rs) (int (p + 3 + length s)) =
    Inr (map (map_reply (strtod L)) rs, int (p + 3 + length s + length (concat (map encode_reply rs))))"
  by (intro read_n_all [OF assms(1) parse_line(4) [OF assms(2,3)] assms(4)])

lemma reads_array:
  assumes L: "resp_lib_ok L" and ok: "reply_ok m (R_array rs)" and rs: "\<And>r. r \<in> set rs \<Longrightarrow> reads_back L xs r"
  shows "reads_back L xs (R_array rs)"
proof (rule reads_backI)
  fix p k rest
  assume "drop p xs = encode_reply (R_array rs) @ rest"
  then have d: "drop p xs = 0x2a # dec (int (length rs)) @ CR # LF # concat (map encode_reply rs) @ rest" by simp
  assume "length (encode_reply (R_array rs)) \<le> Suc k"
  then show "read_reply L xs (Suc k) (int p) =
      Inr (map_reply (strtod L) (R_array rs), int (p + length (encode_reply (R_array rs))))"
    using read_elements [OF rs d dec_line_ok, of k] parse_line(1-3) [OF d dec_line_ok] line_ll_dec [OF L _ d] ok
    by (simp add: parse_simps)
qed

lemma reads_set:
  assumes L: "resp_lib_ok L" and ok: "reply_ok m (R_set rs)" and rs: "\<And>r. r \<in> set rs \<Longrightarrow> reads_back L xs r"
  shows "reads_back L xs (R_set rs)"
proof (rule reads_backI)
  fix p k rest
  assume "drop p xs = encode_reply (R_set rs) @ rest"
  then have d: "drop p xs = ch_tilde # dec (int (length rs)) @ CR # LF # concat (map encode_reply rs) @ rest" by simp
  assume "length (encode_reply (R_set rs)) \<le> Suc k"
  then show "read_reply L xs (Suc k) (int p) =
      Inr (map_reply (strtod L) (R_set rs), int (p + length (encode_reply (R_set rs))))"
    using read_elements [OF rs d dec_line_ok, of k] parse_line(1-3) [OF d dec_line_ok] line_ll_dec [OF L _ d] ok
    by (simp add: parse_simps)
qed

lemma reads_map:
  assumes L: "resp_lib_ok L" and ok: "reply_ok m (R_map rs)" and rs: "\<And>r. r \<in> set rs \<Longrightarrow> reads_back L xs r"
  shows "reads_back L xs (R_map rs)"
proof (rule reads_backI)
  fix p k rest
  have h: "length rs div 2 < 2 ^ 63" using ok by (auto intro: le_less_trans [OF div_le_dividend])
  assume "drop p xs = encode_reply (R_map rs) @ rest"
  then have d: "drop p xs = ch_percent # dec (int (length rs div 2)) @ CR # LF # concat (map encode_reply rs) @ rest" by simp
  assume "length (encode_reply (R_map rs)) \<le> Suc k"
  then show "read_reply L xs (Suc k) (int p) =
      Inr (map_reply (strtod L) (R_map rs), int (p + length (encode_reply (R_map rs))))"
    using read_elements [OF rs d dec_line_ok, of k] parse_line(1-3) [OF d dec_line_ok] line_ll_dec [OF L _ d] ok h
    by (simp add: parse_simps)
qed

lemma reads_attribute:
  assumes L: "resp_lib_ok L" and ok: "reply_ok m (R_attribute rs r)"
    and rs: "\<And>r. r \<in> set rs \<Longrightarrow> reads_back L xs r" and r: "reads_back L xs r"
  shows "reads_back L xs (R_attribute rs r)"
proof (rule reads_backI)
  fix p k rest
  let ?e = "concat (map encode_reply rs)" and ?q = "p + 3 + length (dec (int (length rs div 2)))"
  have h: "length rs div 2 < 2 ^ 63" using ok by (auto intro: le_less_trans [OF div_le_dividend])
  assume "drop p xs = encode_reply (R_attribute rs r) @ rest"
  then have d: "drop p xs = 0x7c # dec (int (length rs div 2)) @ CR # LF # ?e @ encode_reply r @ rest" by simp
  assume k: "length (encode_reply (R_attribute rs r)) \<le> Suc k"
  have "read_reply L xs k (int (?q + length ?e)) =
      Inr (map_reply (strtod L) r, int (?q + length ?e + length (encode_reply r)))"
    using k by (intro reads_backD [OF r drop_append_at [OF parse_line(4) [OF d dec_line_ok]]]) simp
  with k show "read_reply L xs (Suc k) (int p) =
      Inr (map_reply (strtod L) (R_attribute rs r), int (p + length (encode_reply (R_attribute rs r))))"
    using read_elements [OF rs d dec_line_ok, of k] parse_line(1-3) [OF d dec_line_ok] line_ll_dec [OF L _ d] ok h
    by (simp add: parse_simps)
qed

lemmas reads_back_intros =
  reads_simple reads_error reads_big reads_double reads_null reads_bool reads_long reads_null_bulk
  reads_null_array reads_bulk reads_verbatim reads_array reads_set reads_map reads_attribute

lemma reads_back_all:
  assumes "resp_lib_ok L"
  shows "reply_ok (max_long_double_chars L) t \<Longrightarrow> reads_back L xs t"
  by (induction t) (auto intro: reads_back_intros assms simp: list_all_iff)

section \<open>A decimal reader\<close>

text \<open>A reader that satisfies the law of \<open>string2ll\<close> which the round trip relies on.\<close>

definition undec :: "byte list \<Rightarrow> int option" where
  "undec s =
     (if s \<noteq> [] \<and> hd s = ch_minus then Some (- int (decimal (tl s)))
      else if s \<noteq> [] \<and> (\<forall>d\<in>set s. is_digit d) then Some (int (decimal s))
      else None)"

lemma digit_val_of_nat: "m < 10 \<Longrightarrow> digit_val (ch_0 + of_nat m) = m"
  by (simp add: digit_val_def unat_of_nat)

lemma dec_nat_decimal [simp]: "decimal (dec_nat n) = n"
proof (induction n rule: dec_nat.induct)
  case (1 n)
  show ?case
  proof (cases "n < 10")
    case True
    then show ?thesis by (subst dec_nat.simps) (simp add: decimal_def digit_val_of_nat)
  next
    case False
    then have "decimal (dec_nat n) = decimal (dec_nat (n div 10)) * 10 + digit_val (ch_0 + of_nat (n mod 10))"
      by (subst dec_nat.simps) (simp add: decimal_snoc)
    with 1 False show ?thesis by (simp add: digit_val_of_nat)
  qed
qed

lemma dec_nat_nonempty [simp]: "dec_nat n \<noteq> []"
  by (subst dec_nat.simps) simp

lemma undec_dec: "undec (dec n) = Some n"
proof (cases "n < 0")
  case False
  have "hd (dec_nat (nat n)) \<noteq> ch_minus"
  proof
    assume "hd (dec_nat (nat n)) = ch_minus"
    then have "is_digit ch_minus" using dec_nat_digits [of "nat n"] hd_in_set [of "dec_nat (nat n)"] by auto
    then show False by (simp add: is_digit_def)
  qed
  with False show ?thesis using dec_nat_digits [of "nat n"] by (simp add: dec_def undec_def)
qed (simp add: dec_def undec_def)

definition text_lib :: "byte list resp_lib" where
  "text_lib = \<lparr>string2ll = undec, strtod = id, double_zero = [], max_long_double_chars = 5 * 1024\<rparr>"

lemma text_lib_ok: "resp_lib_ok text_lib"
  by (simp add: resp_lib_ok_def text_lib_def undec_dec)

section \<open>What one call consumes\<close>

text \<open>
  The lengths of bulk and verbatim strings: Redis writes no number below \<open>- 1\<close> there,
  and the parser relies on it.
\<close>

definition lengths_ok :: "'d resp_lib \<Rightarrow> byte list \<Rightarrow> bool" where
  "lengths_ok L xs \<longleftrightarrow>
     (\<forall>i<length xs. xs ! i \<in> {0x24, ch_equals} \<longrightarrow>
        (\<forall>p n. find_cr xs (int i) = Inr p \<longrightarrow> line_ll L xs (int i) p = Inr n \<longrightarrow> - 1 \<le> n))"

lemma find_cr_beyond: "find_cr xs proto = Inr p \<Longrightarrow> proto + 1 \<le> p"
  by (auto simp: find_cr_def split: if_splits sum.splits option.splits)

lemma parseReply_progress:
  assumes "parseReply L xs P = Inr (ev, C_OK, loc')" and "lengths_ok L xs"
  shows "curr_location P + 3 \<le> loc'"
proof -
  define i where "i = nat (curr_location P)"
  have i: "curr_location P = int i" "i < length xs"
    using assms(1) by (auto simp: parseReply_def Let_def i_def split: if_splits)
  have len: "int i \<le> 1 + (p + n)" if "find_cr xs (int i) = Inr p" "line_ll L xs (int i) p = Inr n"
      "xs ! i \<in> {0x24, ch_equals}" for p n
  proof -
    have "- 1 \<le> n" using assms(2) i that unfolding lengths_ok_def by blast
    with find_cr_beyond [OF that(1)] show ?thesis by simp
  qed
  show ?thesis
    using assms(1) i
    by (auto simp: parseReply_def resp_parse_defs Let_def split: if_splits sum.splits
        intro: len dest: find_cr_beyond)
qed

text \<open>The protocol blob a callback is handed: where it starts and how long it is.\<close>

fun event_proto :: "'d resp_event \<Rightarrow> (int \<times> nat option) option" where
  "event_proto (null_array_callback proto n) = Some (proto, Some n)"
| "event_proto (null_bulk_string_callback proto n) = Some (proto, Some n)"
| "event_proto (bulk_string_callback _ _ proto n) = Some (proto, Some n)"
| "event_proto (error_callback _ _ proto n) = Some (proto, Some n)"
| "event_proto (simple_str_callback _ _ proto n) = Some (proto, Some n)"
| "event_proto (long_callback _ proto n) = Some (proto, Some n)"
| "event_proto (array_callback _ proto) = Some (proto, None)"
| "event_proto (set_callback _ proto) = Some (proto, None)"
| "event_proto (map_callback _ proto) = Some (proto, None)"
| "event_proto (bool_callback _ proto n) = Some (proto, Some n)"
| "event_proto (double_callback _ proto n) = Some (proto, Some n)"
| "event_proto (big_number_callback _ _ proto n) = Some (proto, Some n)"
| "event_proto (verbatim_string_callback _ _ _ proto n) = Some (proto, Some n)"
| "event_proto (attribute_callback _ proto) = Some (proto, None)"
| "event_proto (null_callback proto n) = Some (proto, Some n)"
| "event_proto (error_no_callback _) = None"

definition resp_types :: "byte list" where
  "resp_types = bytes ''$+-:*~%#,_(=|''"

section \<open>The client ends\<close>

text \<open>A client that ends for another reason than fuel and does not go backwards.\<close>

definition ends_at :: "int \<Rightarrow> client_error + 'a \<times> int \<Rightarrow> bool" where
  "ends_at loc res \<longleftrightarrow> res \<noteq> Inl out_of_fuel \<and> (\<forall>r loc'. res = Inr (r, loc') \<longrightarrow> loc \<le> loc')"

lemma ends_at_simps [simp]:
  "ends_at loc (Inl e) \<longleftrightarrow> e \<noteq> out_of_fuel"
  "ends_at loc (Inr (r, loc')) \<longleftrightarrow> loc \<le> loc'"
  "ends_at loc (map_sum id (apfst f) res) \<longleftrightarrow> ends_at loc res"
  by (auto simp: ends_at_def) (cases res; auto)+

lemma ends_at_mono: "ends_at loc res \<Longrightarrow> loc0 \<le> loc \<Longrightarrow> ends_at loc0 res"
  by (force simp: ends_at_def)

lemma read_n_ends:
  assumes "\<And>loc. 0 \<le> loc \<Longrightarrow> int (length xs) < loc + int k \<Longrightarrow> ends_at loc (read_reply L xs k loc)"
  shows "0 \<le> loc \<Longrightarrow> int (length xs) < loc + int k \<Longrightarrow> ends_at loc (read_n L xs k n loc)"
proof (induction n arbitrary: loc)
  case (Suc n)
  show ?case
  proof (cases "read_reply L xs k loc")
    case (Inl e)
    with assms [OF Suc.prems] show ?thesis by simp
  next
    case (Inr res)
    then obtain r loc' where r: "read_reply L xs k loc = Inr (r, loc')" by (cases res) auto
    with assms [OF Suc.prems] have "loc \<le> loc'" by simp
    moreover from this have "ends_at loc' (read_n L xs k n loc')" using Suc by simp
    ultimately show ?thesis using r by (auto dest: ends_at_mono)
  qed
qed simp

lemma read_reply_ends:
  assumes ok: "lengths_ok L xs"
  shows "0 < k \<Longrightarrow> 0 \<le> loc \<Longrightarrow> int (length xs) < loc + int k \<Longrightarrow> ends_at loc (read_reply L xs k loc)"
proof (induction k arbitrary: loc)
  case (Suc k)
  let ?P = "\<lparr>curr_location = loc, has_error = True\<rparr>"
  show ?case
  proof (cases "parseReply L xs ?P")
    case (Inl f)
    then show ?thesis by simp
  next
    case (Inr res)
    then obtain ev rc loc' where e: "parseReply L xs ?P = Inr (ev, rc, loc')" by (cases res) auto
    show ?thesis
    proof (cases rc)
      case C_ERR
      with e show ?thesis
        by (auto simp: parseReply_def resp_parse_defs Let_def split: if_splits sum.splits)
    next
      case C_OK
      have adv: "loc + 3 \<le> loc'" using parseReply_progress [OF e [unfolded C_OK] ok] by simp
      have "loc < int (length xs)" using e by (auto simp: parseReply_def Let_def split: if_splits)
      then have "0 < k" using Suc.prems by simp
      have n: "ends_at loc (read_n L xs k n loc')" for n
        using read_n_ends [OF Suc.IH [OF \<open>0 < k\<close>], of loc' n] Suc.prems adv
        by (auto intro: ends_at_mono)
      have r: "ends_at loc (read_reply L xs k loc'')" if "read_n L xs k n loc' = Inr (rs, loc'')" for n rs loc''
      proof -
        have "loc' \<le> loc''"
          using read_n_ends [OF Suc.IH [OF \<open>0 < k\<close>], of loc' n] Suc.prems adv that by simp
        then show ?thesis
          using Suc.IH [OF \<open>0 < k\<close>, of loc''] Suc.prems adv by (auto intro: ends_at_mono)
      qed
      show ?thesis
      proof (cases ev)
        case (attribute_callback len proto)
        with e n [of "2 * len"] r [of "2 * len"] show ?thesis by (auto split: sum.splits)
      next
        case (error_no_callback b)
        with e C_OK show ?thesis
          by (auto simp: parseReply_def resp_parse_defs Let_def split: if_splits sum.splits)
      qed (use e adv n in simp_all)
    qed
  qed
qed simp

section \<open>Properties\<close>

text \<open>C10: every reply is read back: wherever the encoding of a reply stands in the buffer, and
  however deeply arrays, sets, maps and attributes are nested in it, the client that follows
  \<open>resp_parser.c\<close> builds that reply from the callbacks of \<open>parseReply\<close> and is left right
  behind the encoding; as many nested calls as there are bytes are enough.\<close>

theorem resp_roundtrip:
  assumes "resp_lib_ok L" and "reply_ok (max_long_double_chars L) t" and "length (encode_reply t) \<le> k"
  shows "read_reply L (pre @ encode_reply t @ post) k (int (length pre)) =
    Inr (map_reply (strtod L) t, int (length pre + length (encode_reply t)))"
  using reads_back_all [OF assms(1,2), of "pre @ encode_reply t @ post"] assms(3)
  by (intro reads_backD [where rest = post]) simp_all

theorem resp_roundtrip_witness:
  "\<exists>n. read_reply text_lib
      (encode_reply (R_array [R_bulk [CR, LF], R_long (- 7), R_map [R_bool True, R_double (bytes ''1.5'')]]) @ bytes ''+'') 100 0 =
      Inr (R_array [R_bulk [CR, LF], R_long (- 7), R_map [R_bool True, R_double (bytes ''1.5'')]], n)"
  using resp_roundtrip [OF text_lib_ok, of
      "R_array [R_bulk [CR, LF], R_long (- 7), R_map [R_bool True, R_double (bytes ''1.5'')]]" 100 "[]" "bytes ''+''"]
  by (auto simp: text_lib_def ll_ok_def line_ok_def dec_def dec_nat.simps)

text \<open>C26: as long as no bulk or verbatim string has a length below \<open>- 1\<close>, the client ends on
  every buffer, well-formed or not: no reply can be nested deeper than there are bytes left,
  and no part of the buffer is read twice.\<close>

theorem resp_client_ends:
  assumes "lengths_ok L xs" and "0 < k" and "0 \<le> loc" and "int (length xs) < loc + int k"
  shows "read_reply L xs k loc \<noteq> Inl out_of_fuel \<and>
    (\<forall>r loc'. read_reply L xs k loc = Inr (r, loc') \<longrightarrow> loc \<le> loc')"
  using read_reply_ends [OF assms] by (simp add: ends_at_def)

theorem resp_client_ends_witness:
  "read_reply text_lib (bytes ''*9'' @ crlf @ bytes ''_'' @ crlf) 8 0 \<noteq> Inl out_of_fuel"
proof -
  have "lengths_ok text_lib (bytes ''*9'' @ crlf @ bytes ''_'' @ crlf)"
    by (auto simp: lengths_ok_def less_Suc_eq nth_Cons split: nat.splits)
  from resp_client_ends [OF this, of 8 0] show ?thesis by simp
qed

text \<open>What a call of \<open>parseReply\<close> that returns \<open>C_OK\<close> hands to the callback as the
  protocol of the reply starts at \<open>curr_location\<close> and, where the callback gets a length, is
  exactly what the call consumes; and the call goes forward by three bytes at least.\<close>

theorem resp_blob:
  assumes "parseReply L xs P = Inr (ev, C_OK, loc')" and "lengths_ok L xs"
  shows "curr_location P + 3 \<le> loc' \<and>
    (\<exists>n. event_proto ev = Some (curr_location P, n) \<and>
       (n = None \<or> n = Some (size_t (loc' - curr_location P))))"
  using parseReply_progress [OF assms] assms(1)
  by (auto simp: parseReply_def resp_parse_defs Let_def split: if_splits sum.splits)

theorem resp_blob_witness:
  "\<exists>ev loc'. parseReply text_lib (bytes '':42'' @ crlf) \<lparr>curr_location = 0, has_error = False\<rparr> = Inr (ev, C_OK, loc')
    \<and> 3 \<le> loc'"
proof -
  let ?xs = "bytes '':42'' @ crlf"
  have ok: "lengths_ok text_lib ?xs"
    by (auto simp: lengths_ok_def less_Suc_eq nth_Cons split: nat.splits)
  have "\<exists>ev loc'. parseReply text_lib ?xs \<lparr>curr_location = 0, has_error = False\<rparr> = Inr (ev, C_OK, loc')"
    by (simp add: parseReply_def parseLong_def find_cr_def line_ll_def line_text_def segment_def
        text_lib_def undec_def is_digit_def Let_def)
  then obtain ev loc' where e: "parseReply text_lib ?xs \<lparr>curr_location = 0, has_error = False\<rparr> = Inr (ev, C_OK, loc')"
    by blast
  from e resp_blob [OF e ok] show ?thesis by auto
qed

text \<open>\<open>C_ERR\<close> is returned exactly for a byte that starts no reply; then the location is
  unchanged, and \<open>callbacks.error\<close> is called if it is set.\<close>

theorem resp_error:
  "parseReply L xs P = Inr (ev, C_ERR, loc') \<longleftrightarrow>
     0 \<le> curr_location P \<and> curr_location P < int (length xs)
     \<and> xs ! nat (curr_location P) \<notin> set resp_types
     \<and> loc' = curr_location P \<and> ev = error_no_callback (has_error P)"
  by (auto simp: parseReply_def resp_parse_defs Let_def resp_types_def split: if_splits sum.splits)

end
