(* ===== verification/Hpack_Int.thy ===== *)
theory Hpack_Int
  imports Prelude
begin

text \<open>
  The integers of HPACK as \<open>nghttp2_hd.c\<close> writes and reads them: a prefix of a few bits
  in a first byte whose other bits are taken, and continuation bytes of seven bits, the
  low ones first (\<open>count_encoded_length\<close>, \<open>encode_length\<close>, \<open>decode_length\<close>). The
  encoder works on \<open>size_t\<close>, a natural number here; the decoder on \<open>uint32_t\<close>, which
  is a word of 32 bits, so that its overflow checks mean something.
\<close>

section \<open>Encoding\<close>

text \<open>\<open>for (; n >= 128; n >>= 7, ++len)\<close>, and the byte behind the loop.\<close>

fun count_rest :: "nat \<Rightarrow> nat" where
  "count_rest n = (if n \<ge> 128 then count_rest (n div 128) + 1 else 1)"

declare count_rest.simps [simp del]

definition count_encoded_length :: "nat \<Rightarrow> nat \<Rightarrow> nat" where
  "count_encoded_length n prefix =
     (let k = 2 ^ prefix - 1 in
      if n < k then 1 else 1 + count_rest (n - k))"

fun encode_rest :: "nat \<Rightarrow> byte list" where
  "encode_rest n =
     (if n \<ge> 128 then (0x80 OR (of_nat n AND 0x7f)) # encode_rest (n div 128) else [of_nat n])"

declare encode_rest.simps [simp del]

text \<open>
  \<open>first\<close> is what \<open>*buf\<close> holds at the call; the bytes from \<open>buf\<close> on are the result,
  and their number the value the function returns.
\<close>

definition encode_length :: "byte \<Rightarrow> nat \<Rightarrow> nat \<Rightarrow> byte list" where
  "encode_length first n prefix =
     (let k = 2 ^ prefix - 1;
          first = first AND NOT (of_nat k)
      in if n < k then [first OR of_nat n]
         else (first OR of_nat k) # encode_rest (n - k))"

section \<open>Decoding\<close>

text \<open>
  What a call leaves: \<open>*res\<close>, \<open>*shift_ptr\<close>, \<open>*fin\<close> and the number of bytes read;
  \<open>DL_error\<close> for the return value \<open>-1\<close>, and \<open>DL_fault\<close> for reading \<open>*in\<close> when
  there is no byte.
\<close>

datatype dl_result = DL_ok "32 word" nat bool nat | DL_error | DL_fault

fun dl_loop :: "32 word \<Rightarrow> nat \<Rightarrow> byte list \<Rightarrow> nat \<Rightarrow> dl_result" where
  "dl_loop n shift [] count = DL_ok n shift False count"
| "dl_loop n shift (b # inp) count =
     (let add = ucast (b AND 0x7f) :: 32 word in
      if shift \<ge> 32 then DL_error
      else if drop_bit shift (- 1) < add then DL_error
      else
        (let add = push_bit shift add in
         if - 1 - add < n then DL_error
         else
           (let n = n + add in
            if b AND 0x80 = 0 then DL_ok n shift True (count + 1)
            else dl_loop n (shift + 7) inp (count + 1))))"

definition decode_length :: "32 word \<Rightarrow> nat \<Rightarrow> byte list \<Rightarrow> nat \<Rightarrow> dl_result" where
  "decode_length initial shift inp prefix =
     (let k = of_nat (2 ^ prefix - 1) :: byte in
      if initial = 0 then
        (case inp of
           [] \<Rightarrow> DL_fault
         | b # inp \<Rightarrow>
             if b AND k \<noteq> k then DL_ok (ucast (b AND k)) 0 True 1
             else if inp = [] then DL_ok (ucast k) 0 False 1
             else dl_loop (ucast k) shift inp 1)
      else dl_loop initial shift inp 0)"

section \<open>The number that continuation bytes stand for\<close>

fun rest_value :: "byte list \<Rightarrow> nat" where
  "rest_value [] = 0"
| "rest_value (b # bs) = unat (b AND 0x7f) + (if b AND 0x80 = 0 then 0 else 128 * rest_value bs)"

text \<open>The number of bytes that belong to it: up to the first one without the high bit.\<close>

fun rest_ends :: "byte list \<Rightarrow> nat option" where
  "rest_ends [] = None"
| "rest_ends (b # bs) = (if b AND 0x80 = 0 then Some 1 else map_option Suc (rest_ends bs))"

lemma low7: "unat ((b :: byte) AND 0x7f) = unat b mod 128"
proof -
  have "b AND 0x7f = take_bit 7 b" by (simp add: take_bit_eq_mask mask_eq_exp_minus_1)
  then show ?thesis by (simp add: take_bit_eq_mod unat_mod)
qed

lemma low7_less: "unat ((b :: byte) AND 0x7f) < 128"
  by (simp add: low7)

lemma unat_ucast_byte32 [simp]: "unat (ucast (b :: byte) :: 32 word) = unat b"
proof -
  have "unat b < 2 ^ 32" using unsigned_less [of b, where 'a = nat] by simp
  then show ?thesis by (simp add: unsigned_ucast_eq take_bit_nat_eq_self)
qed

text \<open>
  The checks in terms of numbers: they refuse exactly the shifts and sums that do not fit.
\<close>

lemma max_shifted: "unat (drop_bit shift (- 1 :: 32 word)) = 2 ^ (32 - shift) - 1"
proof -
  have "unat (drop_bit shift (- 1 :: 32 word)) = drop_bit shift (mask 32)"
    by (simp only: unsigned_drop_bit_eq unsigned_minus_1_eq_mask) simp
  then show ?thesis unfolding drop_bit_mask_eq by (simp only: mask_eq_exp_minus_1)
qed

lemma shift_too_big:
  assumes "shift < 32"
  shows "drop_bit shift (- 1) < (w :: 32 word) \<longleftrightarrow> unat w * 2 ^ shift \<ge> 2 ^ 32"
proof -
  have p: "(2::nat) ^ 32 = 2 ^ (32 - shift) * 2 ^ shift" using assms by (simp flip: power_add)
  have "drop_bit shift (- 1) < w \<longleftrightarrow> 2 ^ (32 - shift) - 1 < unat w"
    by (simp only: word_less_nat_alt max_shifted)
  also have "\<dots> \<longleftrightarrow> 2 ^ (32 - shift) \<le> unat w"
    using zero_less_power [of "2::nat" "32 - shift"] by linarith
  finally show ?thesis unfolding p by simp
qed

lemma unat_push: "unat (w :: 32 word) * 2 ^ s < 2 ^ 32 \<Longrightarrow> unat (push_bit s w) = unat w * 2 ^ s"
proof -
  have "unat (push_bit s w) = take_bit 32 (push_bit s (unat w))" by (simp add: unsigned_push_bit_eq)
  also assume "unat w * 2 ^ s < 2 ^ 32"
  then have "take_bit 32 (push_bit s (unat w)) = unat w * 2 ^ s"
    by (simp only: push_bit_eq_mult) (simp add: take_bit_nat_eq_self)
  finally show ?thesis .
qed

lemma sum_too_big: "- 1 - m < n \<longleftrightarrow> unat n + unat (m :: 32 word) \<ge> 2 ^ 32"
proof -
  have "unat (- 1 - m) = 2 ^ 32 - 1 - unat m" by (simp add: unat_sub unsigned_minus_1_eq_mask mask_eq_exp_minus_1)
  moreover have "unat m < 2 ^ 32" using unsigned_less [of m, where 'a = nat] by simp
  ultimately show ?thesis by (simp add: word_less_nat_alt) arith
qed


lemma word_nonneg_mod: "unat (of_nat n :: byte) = n mod 256"
  by (simp add: unat_of_nat)

text \<open>
  The loop reads a number that starts with \<open>n\<close> and goes on at \<open>2 ^ shift\<close>: it delivers
  the exact sum, or refuses.
\<close>

lemma dl_loop_value:
  assumes "dl_loop n shift bs c = DL_ok r s True c'"
  shows "unat r = unat n + rest_value bs * 2 ^ shift" and "rest_ends bs = Some (c' - c)" and "c < c'"
proof -
  have "unat r = unat n + rest_value bs * 2 ^ shift \<and> rest_ends bs = Some (c' - c) \<and> c < c'"
    using assms
  proof (induction bs arbitrary: n shift c)
    case (Cons b bs)
    let ?add = "push_bit shift (ucast (b AND 0x7f)) :: 32 word"
    have s: "shift < 32" and f1: "unat (b AND 0x7f) * 2 ^ shift < 2 ^ 32" and f2: "unat n + unat ?add < 2 ^ 32"
      using Cons.prems shift_too_big [of shift "ucast (b AND 0x7f)"] sum_too_big [of ?add n]
      by (auto simp: Let_def not_le split: if_splits)
    have add: "unat ?add = unat (b AND 0x7f) * 2 ^ shift" using f1 unat_push [of "ucast (b AND 0x7f)" shift] by simp
    have sum: "unat (n + ?add) = unat n + unat (b AND 0x7f) * 2 ^ shift"
      using f2 add by (simp add: unat_word_ariths)
    show ?case
    proof (cases "b AND 0x80 = 0")
      case True
      then show ?thesis using Cons.prems sum by (auto simp: Let_def split: if_splits)
    next
      case False
      then have "dl_loop (n + ?add) (shift + 7) bs (c + 1) = DL_ok r s True c'"
        using Cons.prems by (auto simp: Let_def split: if_splits)
      from Cons.IH [OF this] False show ?thesis
        by (auto simp: sum power_add algebra_simps)
    qed
  qed simp
  then show "unat r = unat n + rest_value bs * 2 ^ shift" "rest_ends bs = Some (c' - c)" "c < c'" by auto
qed

text \<open>Conversely, a number that fits and has at most as many bytes as shifts are allowed is read.\<close>

lemma dl_loop_reads:
  assumes "unat n + rest_value bs * 2 ^ shift < 2 ^ 32" and "rest_ends bs = Some e" and "shift + 7 * (e - 1) < 32"
  shows "\<exists>r s. dl_loop n shift (bs @ tail) c = DL_ok r s True (c + e)"
  using assms
proof (induction bs arbitrary: n shift c e)
  case (Cons b bs)
  let ?add = "push_bit shift (ucast (b AND 0x7f)) :: 32 word"
  have f1: "unat (b AND 0x7f) * 2 ^ shift < 2 ^ 32"
    using Cons.prems(1) by (auto simp: algebra_simps split: if_splits)
  have s: "shift < 32" using Cons.prems(3) by simp
  have add: "unat ?add = unat (b AND 0x7f) * 2 ^ shift" using f1 unat_push [of "ucast (b AND 0x7f)" shift] by simp
  have f2: "unat n + unat ?add < 2 ^ 32"
    using Cons.prems(1) by (auto simp: add algebra_simps split: if_splits)
  have sum: "unat (n + ?add) = unat n + unat (b AND 0x7f) * 2 ^ shift" using f2 add by (simp add: unat_word_ariths)
  have go: "dl_loop n shift ((b # bs) @ tail) c =
      (if b AND 0x80 = 0 then DL_ok (n + ?add) shift True (c + 1) else dl_loop (n + ?add) (shift + 7) (bs @ tail) (c + 1))"
    using s f1 f2 shift_too_big [OF s, of "ucast (b AND 0x7f)"] sum_too_big [of ?add n] by (auto simp: Let_def)
  show ?case
  proof (cases "b AND 0x80 = 0")
    case True
    then show ?thesis using Cons.prems(2) go by auto
  next
    case False
    with Cons.prems(2) obtain e' where e': "rest_ends bs = Some e'" "e = Suc e'" by auto
    have "0 < e'" using e'(1) by (cases bs) (auto split: if_splits)
    have "\<exists>r s. dl_loop (n + ?add) (shift + 7) (bs @ tail) (c + 1) = DL_ok r s True (c + 1 + e')"
      using Cons.prems(1,3) e' False \<open>0 < e'\<close>
      by (intro Cons.IH) (auto simp: sum power_add algebra_simps)
    then show ?thesis using go False e'(2) by simp
  qed
qed simp


section \<open>The encoder\<close>

lemma byte_or_80:
  "((0x80 :: byte) OR (of_nat n AND 0x7f)) AND 0x7f = of_nat n AND 0x7f"
  "((0x80 :: byte) OR (of_nat n AND 0x7f)) AND 0x80 \<noteq> 0"
proof -
  have a: "\<forall>b::byte. (0x80 OR (b AND 0x7f)) AND 0x7f = b AND 0x7f" unfolding all_byte by code_simp
  have b: "\<forall>b::byte. (0x80 OR (b AND 0x7f)) AND 0x80 \<noteq> 0" unfolding all_byte by code_simp
  show "((0x80 :: byte) OR (of_nat n AND 0x7f)) AND 0x7f = of_nat n AND 0x7f"
    "((0x80 :: byte) OR (of_nat n AND 0x7f)) AND 0x80 \<noteq> 0"
    using a b by blast+
qed

lemma small_byte:
  assumes "n < 128"
  shows "(of_nat n :: byte) AND 0x80 = 0" and "unat ((of_nat n :: byte) AND 0x7f) = n"
proof -
  have "\<forall>b::byte. unat b < 128 \<longrightarrow> b AND 0x80 = 0" unfolding all_byte by code_simp
  moreover have "unat (of_nat n :: byte) = n" using assms by (simp add: unat_of_nat)
  ultimately show "(of_nat n :: byte) AND 0x80 = 0" "unat ((of_nat n :: byte) AND 0x7f) = n"
    using assms by (auto simp: low7)
qed

lemma encode_rest_value: "rest_value (encode_rest n) = n" and encode_rest_ends: "rest_ends (encode_rest n) = Some (count_rest n)"
proof -
  have "rest_value (encode_rest n) = n \<and> rest_ends (encode_rest n) = Some (count_rest n)"
  proof (induction n rule: encode_rest.induct)
    case (1 n)
    show ?case
    proof (cases "n \<ge> 128")
      case True
      have "unat ((of_nat n :: byte) AND 0x7f) = n mod 128" by (simp add: low7 unat_of_nat mod_mod_cancel)
      with True 1 show ?thesis
        unfolding encode_rest.simps [of n] count_rest.simps [of n] by (simp add: byte_or_80)
    next
      case False
      then show ?thesis
        unfolding encode_rest.simps [of n] count_rest.simps [of n] by (simp add: small_byte)
    qed
  qed
  then show "rest_value (encode_rest n) = n" "rest_ends (encode_rest n) = Some (count_rest n)" by auto
qed

lemma length_encode_rest: "length (encode_rest n) = count_rest n"
proof (induction n rule: encode_rest.induct)
  case (1 n)
  then show ?case unfolding encode_rest.simps [of n] count_rest.simps [of n] by simp
qed

lemma count_rest_le: "n < 128 ^ m \<Longrightarrow> 0 < m \<Longrightarrow> count_rest n \<le> m"
proof (induction m arbitrary: n)
  case (Suc m)
  show ?case
  proof (cases "n \<ge> 128")
    case True
    then have "m \<noteq> 0" using Suc.prems(1) by (cases m) auto
    moreover have "n div 128 < 128 ^ m" using Suc.prems(1) by (simp add: less_mult_imp_div_less mult.commute)
    ultimately show ?thesis using Suc.IH [of "n div 128"] True by (simp add: count_rest.simps [of n])
  qed (simp add: count_rest.simps [of n])
qed simp

text \<open>The prefix and the bits around it.\<close>

lemma prefix_bits:
  fixes first :: byte
  assumes "prefix \<le> 8"
  defines "k \<equiv> (of_nat (2 ^ prefix - 1) :: byte)"
  shows "unat k = 2 ^ prefix - 1"
    and "n < 2 ^ prefix - 1 \<Longrightarrow> (first AND NOT k OR of_nat n) AND k = of_nat n"
    and "n < 2 ^ prefix - 1 \<Longrightarrow> (of_nat n :: byte) \<noteq> k"
    and "(first AND NOT k OR k) AND k = k"
proof -
  have k: "k = mask prefix" by (simp add: k_def mask_eq_exp_minus_1 of_nat_diff)
  have "(2::nat) ^ prefix \<le> 2 ^ 8" using assms(1) by (rule power_increasing) simp
  then have lt: "(2::nat) ^ prefix - 1 < 256" by simp
  then show u: "unat k = 2 ^ prefix - 1" unfolding k_def unat_of_nat by simp
  show "(first AND NOT k OR k) AND k = k" by (rule bit_word_eqI) (auto simp: bit_simps)
  assume n: "n < 2 ^ prefix - 1"
  have un: "unat (of_nat n :: byte) = n" using n lt by (simp add: unat_of_nat)
  show "(of_nat n :: byte) \<noteq> k" using un u n by auto
  have "(of_nat n :: byte) AND k = of_nat n"
  proof -
    have "take_bit prefix n = n" using n by (simp add: take_bit_nat_eq_self)
    then have "take_bit prefix (of_nat n :: byte) = of_nat n"
      using un by (simp add: word_unat_eq_iff unsigned_take_bit_eq)
    then show ?thesis by (simp add: k take_bit_eq_mask)
  qed
  then show "(first AND NOT k OR of_nat n) AND k = of_nat n"
    by (simp add: bit.conj_disj_distrib2 and.assoc)
qed


lemma rest_append:
  assumes "rest_ends bs \<noteq> None"
  shows "rest_value (bs @ tail) = rest_value bs"
  using assms by (induction bs) (auto split: if_splits)

section \<open>What the decoder refuses, and where it can be cut\<close>

text \<open>The number of bytes that belong to the number, if it is not over before.\<close>

definition rest_length :: "byte list \<Rightarrow> nat" where
  "rest_length bs = (case rest_ends bs of Some m \<Rightarrow> m | None \<Rightarrow> length bs)"

lemma rest_ends_pos: "rest_ends bs \<noteq> Some 0"
  by (cases bs) auto

lemma dl_loop_exact:
  "dl_loop n shift bs c =
     (if unat n + rest_value bs * 2 ^ shift < 2 ^ 32 \<and> (bs = [] \<or> shift + 7 * (rest_length bs - 1) < 32)
      then DL_ok (of_nat (unat n + rest_value bs * 2 ^ shift)) (shift + 7 * (rest_length bs - (if rest_ends bs = None then 0 else 1)))
             (rest_ends bs \<noteq> None) (c + rest_length bs)
      else DL_error)"
proof (induction bs arbitrary: n shift c)
  case Nil
  have "unat n < 2 ^ 32" using unsigned_less [of n, where 'a = nat] by simp
  then show ?case by (simp add: rest_length_def)
next
  case (Cons b bs)
  let ?add = "push_bit shift (ucast (b AND 0x7f)) :: 32 word"
  let ?v = "unat (b AND 0x7f) * 2 ^ shift"
  show ?case
  proof (cases "shift < 32 \<and> unat n + ?v < 2 ^ 32")
    case False
    have add: "unat ?add = ?v" if "?v < 2 ^ 32"
      using that unat_push [of "ucast (b AND 0x7f)" shift] by simp
    have "dl_loop n shift (b # bs) c = DL_error"
      using False add shift_too_big [of shift "ucast (b AND 0x7f)"] sum_too_big [of ?add n]
      by (auto simp: Let_def)
    moreover have "\<not> (unat n + rest_value (b # bs) * 2 ^ shift < 2 ^ 32 \<and> (b # bs = [] \<or> shift + 7 * (rest_length (b # bs) - 1) < 32))"
    proof
      assume fits: "unat n + rest_value (b # bs) * 2 ^ shift < 2 ^ 32 \<and> (b # bs = [] \<or> shift + 7 * (rest_length (b # bs) - 1) < 32)"
      have "unat n + ?v \<le> unat n + rest_value (b # bs) * 2 ^ shift" by (simp add: algebra_simps)
      also have "\<dots> < 2 ^ 32" using fits by (rule conjunct1)
      finally have "unat n + ?v < 2 ^ 32" .
      moreover have "shift < 32" using fits by auto
      ultimately show False using False by simp
    qed
    ultimately show ?thesis by (simp only: if_False)
  next
    case True
    then have add: "unat ?add = ?v" using unat_push [of "ucast (b AND 0x7f)" shift] by simp
    have sum: "unat (n + ?add) = unat n + ?v" using True add by (simp add: unat_word_ariths)
    have go: "dl_loop n shift (b # bs) c =
        (if b AND 0x80 = 0 then DL_ok (n + ?add) shift True (c + 1) else dl_loop (n + ?add) (shift + 7) bs (c + 1))"
      using True add shift_too_big [of shift "ucast (b AND 0x7f)"] sum_too_big [of ?add n] by (auto simp: Let_def)
    show ?thesis
    proof (cases "b AND 0x80 = 0")
      case last: True
      then have "n + ?add = of_nat (unat n + ?v)" using sum by (simp flip: sum)
      then show ?thesis using True last unfolding go by (simp add: rest_length_def)
    next
      case more: False
      have v: "rest_value (b # bs) * 2 ^ shift = ?v + rest_value bs * 2 ^ (shift + 7)"
        using more by (simp add: power_add algebra_simps)
      have ends: "rest_ends (b # bs) = map_option Suc (rest_ends bs)" "rest_length (b # bs) = Suc (rest_length bs)"
        using more by (simp_all add: rest_length_def split: option.split)
      have len: "bs = [] \<Longrightarrow> rest_length bs = 0" "bs \<noteq> [] \<Longrightarrow> 0 < rest_length bs" "rest_ends bs \<noteq> None \<Longrightarrow> 0 < rest_length bs"
        using rest_ends_pos [of bs] by (auto simp: rest_length_def split: option.split)
      have A: "unat (n + ?add) + rest_value bs * 2 ^ (shift + 7) = unat n + rest_value (b # bs) * 2 ^ shift"
        unfolding v sum by simp
      have B: "(bs = [] \<or> shift + 7 + 7 * (rest_length bs - 1) < 32) = (b # bs = [] \<or> shift + 7 * (rest_length (b # bs) - 1) < 32)"
        using len True unfolding ends by (cases "bs = []") auto
      have C: "shift + 7 + 7 * (rest_length bs - (if rest_ends bs = None then 0 else 1)) =
          shift + 7 * (rest_length (b # bs) - (if rest_ends (b # bs) = None then 0 else 1))"
        using len unfolding ends by auto
      have D: "(rest_ends bs \<noteq> None) = (rest_ends (b # bs) \<noteq> None)" "c + 1 + rest_length bs = c + rest_length (b # bs)"
        unfolding ends by auto
      show ?thesis unfolding go Cons.IH [of "n + ?add" "shift + 7" "c + 1"] A B C D using more by simp
    qed
  qed
qed

fun add_count :: "nat \<Rightarrow> dl_result \<Rightarrow> dl_result" where
  "add_count c (DL_ok n s f c') = DL_ok n s f (c + c')"
| "add_count c res = res"

lemma dl_loop_count: "dl_loop n shift bs c = add_count c (dl_loop n shift bs 0)"
proof -
  have "dl_loop n shift bs (c + d) = add_count c (dl_loop n shift bs d)" for d
  proof (induction bs arbitrary: n shift d)
    case (Cons b bs)
    show ?case using Cons.IH [of _ _ "Suc d"] by (simp add: Let_def)
  qed simp
  from this [of 0] show ?thesis by simp
qed

lemma decode_first:
  assumes "k = of_nat (2 ^ prefix - 1)"
  shows "decode_length 0 shift (b # bs) prefix =
      (if b AND k \<noteq> k then DL_ok (ucast (b AND k)) 0 True 1
       else if bs = [] then DL_ok (ucast k) 0 False 1 else dl_loop (ucast k) shift bs 1)"
  unfolding decode_length_def Let_def assms by simp

lemma dl_loop_append:
  assumes "n \<noteq> 0"
  shows "dl_loop n shift (bs @ ys) c =
    (case dl_loop n shift bs c of
       DL_ok r s False c' \<Rightarrow> add_count c' (decode_length r s ys prefix)
     | res \<Rightarrow> res)"
  using assms
proof (induction bs arbitrary: n shift c)
  case Nil
  then show ?case using dl_loop_count [of n shift ys c] by (simp add: decode_length_def)
next
  case (Cons b bs)
  let ?add = "push_bit shift (ucast (b AND 0x7f)) :: 32 word"
  have "\<not> - 1 - ?add < n \<Longrightarrow> n + ?add \<noteq> 0"
    using sum_too_big [of ?add n] Cons.prems by (auto simp: word_unat_eq_iff unat_word_ariths)
  with Cons.IH [of "n + ?add" "shift + 7" "c + 1"] show ?case by (simp add: Let_def)
qed

lemma decode_encode:
  assumes "n < 2 ^ 32" and "0 < prefix" and "prefix \<le> 8"
  shows "\<exists>s. decode_length 0 0 (encode_length first n prefix @ tail) prefix =
      DL_ok (of_nat n) s True (length (encode_length first n prefix))
    \<and> length (encode_length first n prefix) = count_encoded_length n prefix"
proof -
  let ?k = "2 ^ prefix - 1 :: nat" and ?kb = "of_nat (2 ^ prefix - 1) :: byte"
  note bits = prefix_bits [OF assms(3)]
  show ?thesis
  proof (cases "n < ?k")
    case True
    have "unat (ucast (of_nat n :: byte) :: 32 word) = n"
      using True bits(1) unsigned_less [of ?kb, where 'a = nat] by (simp add: unat_of_nat)
    then have "(ucast (of_nat n :: byte) :: 32 word) = of_nat n"
      using assms(1) by (simp add: word_unat_eq_iff unat_of_nat)
    then show ?thesis
      using True bits(2) [OF True, of first] bits(3) [OF True]
      by (simp add: encode_length_def decode_length_def count_encoded_length_def Let_def)
  next
    case False
    let ?r = "encode_rest (n - ?k)"
    have k: "unat (ucast ?kb :: 32 word) = ?k" using bits(1) by simp
    have "n - ?k < 128 ^ 5" using assms(1) by simp
    then have "count_rest (n - ?k) \<le> 5" by (rule count_rest_le) simp
    then have "\<exists>r s. dl_loop (ucast ?kb) 0 (?r @ tail) 1 = DL_ok r s True (1 + count_rest (n - ?k))"
      using assms(1) False k by (intro dl_loop_reads) (simp_all add: encode_rest_value encode_rest_ends)
    then obtain r s where run: "dl_loop (ucast ?kb) 0 (?r @ tail) 1 = DL_ok r s True (1 + count_rest (n - ?k))" by blast
    have "unat r = n"
      using dl_loop_value(1) [OF run] k False rest_append [of ?r tail]
      by (simp add: encode_rest_value encode_rest_ends)
    then have "r = of_nat n" using assms(1) by (simp add: word_unat_eq_iff unat_of_nat)
    moreover have "?r \<noteq> []" by (simp add: encode_rest.simps)
    ultimately show ?thesis
      using False run bits(4) [of first]
      by (simp add: encode_length_def decode_length_def count_encoded_length_def length_encode_rest Let_def)
  qed
qed

lemma length_encode_length [simp]: "length (encode_length first n prefix) = count_encoded_length n prefix"
  by (simp add: encode_length_def count_encoded_length_def length_encode_rest Let_def)

lemma count_encoded_length_le:
  assumes "n < 2 ^ 32"
  shows "count_encoded_length n prefix \<le> 6"
proof -
  have "count_rest (n - k) \<le> 5" for k
    by (rule count_rest_le) (use assms in simp_all)
  note this [of "2 ^ prefix - 1"]
  moreover have "count_encoded_length n prefix = 1 \<or> count_encoded_length n prefix = 1 + count_rest (n - (2 ^ prefix - 1))"
    by (simp only: count_encoded_length_def Let_def split: if_split) blast
  ultimately show ?thesis by linarith
qed

lemma count_encoded_length_pos: "0 < count_encoded_length n prefix"
  by (simp add: count_encoded_length_def Let_def)

text \<open>The first byte keeps the bits that are not of the prefix.\<close>

lemma encode_length_first:
  assumes "prefix \<le> 8"
  shows "\<exists>m bs. encode_length first n prefix = ((first AND NOT (of_nat (2 ^ prefix - 1))) OR m) # bs
    \<and> m \<le> of_nat (2 ^ prefix - 1) \<and> (0 < n \<longrightarrow> 0 < prefix \<longrightarrow> m \<noteq> 0)"
proof -
  note k = prefix_bits(1) [OF assms]
  show ?thesis
  proof (cases "n < 2 ^ prefix - 1")
    case True
    then have "unat (of_nat n :: byte) = n"
      using k unsigned_less [of "of_nat (2 ^ prefix - 1) :: byte", where 'a = nat] by (simp add: unat_of_nat)
    then show ?thesis
      using True k by (auto simp: encode_length_def Let_def word_le_nat_alt)
  next
    case False
    moreover have "0 < prefix \<longrightarrow> (of_nat (2 ^ prefix - 1) :: byte) \<noteq> 0"
      using k by (metis one_less_numeral_iff one_less_power semiring_norm(76) unsigned_0 zero_less_diff less_irrefl)
    ultimately show ?thesis
      by (auto simp: encode_length_def Let_def)
  qed
qed

section \<open>Properties\<close>

text \<open>Every number that fits into 32 bits is decoded from its encoding, whatever bits share
  the first byte and whatever bytes follow, and exactly the bytes of the encoding are
  consumed; \<open>count_encoded_length\<close>, which guards the buffer of 16 bytes, is the number of
  bytes \<open>encode_length\<close> writes.\<close>

theorem hpack_int_roundtrip:
  assumes "n < 2 ^ 32" and "0 < prefix" and "prefix \<le> 8"
  shows "\<exists>s. decode_length 0 0 (encode_length first n prefix @ tail) prefix =
      DL_ok (of_nat n) s True (length (encode_length first n prefix))
    \<and> length (encode_length first n prefix) = count_encoded_length n prefix"
  by (rule decode_encode [OF assms])

theorem hpack_int_roundtrip_witness:
  "\<exists>s. decode_length 0 0 (encode_length 0xe0 1337 5 @ [0xff]) 5 = DL_ok 1337 s True 3"
proof -
  have "encode_length 0xe0 1337 5 = [0xff, 0x9a, 0x0a]"
    by (simp add: encode_length_def encode_rest.simps Let_def)
  with hpack_int_roundtrip [of 1337 5 "0xe0" "[0xff]"] show ?thesis by auto
qed

text \<open>C28: what the decoder answers for any bytes. A prefix that is not all ones is the number. Otherwise
  the number is the prefix plus what the continuation bytes up to the first one without the high
  bit stand for: if that is below \<open>2 ^ 32\<close> and there are at most five of them, it is delivered
  with no wrap-around, finished exactly if that last byte is among the input, with the number of
  bytes read and, for the next call, the shift. Everything else is refused: numbers of more than 32
  bits, and also overlong encodings of small ones, with more than five continuation bytes.\<close>

theorem hpack_int_exact:
  fixes b :: byte and bs :: "byte list"
  assumes "0 < prefix" and "prefix \<le> 8"
  defines "k \<equiv> of_nat (2 ^ prefix - 1) :: byte"
  defines "n \<equiv> 2 ^ prefix - 1 + rest_value bs"
  shows "decode_length 0 0 (b # bs) prefix =
    (if b AND k \<noteq> k then DL_ok (ucast (b AND k)) 0 True 1
     else if n < 2 ^ 32 \<and> rest_length bs \<le> 5
     then DL_ok (of_nat n) (7 * (if rest_ends bs = None then rest_length bs else rest_length bs - 1))
            (rest_ends bs \<noteq> None) (1 + rest_length bs)
     else DL_error)"
proof -
  have k: "unat (ucast k :: 32 word) = 2 ^ prefix - 1" unfolding k_def using prefix_bits(1) [OF assms(2)] by simp
  note d = decode_first [OF k_def [THEN meta_eq_to_obj_eq], of 0 b bs]
  show ?thesis
  proof (cases "bs = []")
    case True
    have n: "n = unat (ucast k :: 32 word)" using k True by (simp add: n_def)
    then have "n < 2 ^ 32" using unsigned_less [of "ucast k :: 32 word", where 'a = nat] by simp
    moreover from this have "(of_nat n :: 32 word) = ucast k" using n by (simp add: word_unat_eq_iff unat_of_nat)
    ultimately show ?thesis using d True by (simp add: rest_length_def)
  next
    case False
    then have "(bs = [] \<or> 0 + 7 * (rest_length bs - 1) < 32) = (rest_length bs \<le> 5)" by auto
    then show ?thesis using False unfolding d dl_loop_exact k n_def by auto
  qed
qed

theorem hpack_int_exact_witness:
  "decode_length 0 0 [0xff, 0x9a, 0x0a, 0xff] 5 = DL_ok 1337 7 True 3 \<and>
   decode_length 0 0 [0x7f, 0x80, 0xff, 0xff, 0xff, 0x7f] 7 = DL_error \<and>
   decode_length 0 0 [0x7f, 0x80, 0x80, 0x80, 0x80, 0x80, 0x00] 7 = DL_error"
  using hpack_int_exact [of 5 "0xff" "[0x9a, 0x0a, 0xff]"] hpack_int_exact [of 7 "0x7f" "[0x80, 0xff, 0xff, 0xff, 0x7f]"]
    hpack_int_exact [of 7 "0x7f" "[0x80, 0x80, 0x80, 0x80, 0x80, 0x00]"]
  by (simp add: rest_length_def)

text \<open>An integer may be cut off anywhere: decoding the first part and going on from the
  result and the shift it left is decoding the whole, with the same number of bytes consumed
  altogether.\<close>

theorem hpack_int_resumable:
  assumes "0 < prefix" and "prefix \<le> 8" and "xs \<noteq> []" and "initial = 0 \<longrightarrow> shift = 0"
  shows "decode_length initial shift (xs @ ys) prefix =
    (case decode_length initial shift xs prefix of
       DL_ok n s False c \<Rightarrow> add_count c (decode_length n s ys prefix)
     | res \<Rightarrow> res)"
proof -
  define k where "k = (of_nat (2 ^ prefix - 1) :: byte)"
  have uk: "unat k = 2 ^ prefix - 1" unfolding k_def by (rule prefix_bits(1) [OF assms(2)])
  have "(2::nat) \<le> 2 ^ prefix" using assms(1) self_le_power [of 2 prefix] by simp
  then have nz: "(ucast k :: 32 word) \<noteq> 0" using uk by (auto simp: word_unat_eq_iff)
  show ?thesis
  proof (cases "initial = 0")
    case False
    then show ?thesis
      using dl_loop_append [OF False, of shift xs ys 0] by (simp add: decode_length_def)
  next
    case True
    obtain b bs where xs: "xs = b # bs" using assms(3) by (cases xs) auto
    show ?thesis
    proof (cases "b AND k = k")
      case False
      then show ?thesis using True xs decode_first [OF k_def] by simp
    next
      case pre: True
      show ?thesis
        using True pre xs assms(4) nz dl_loop_append [OF nz, of 0 bs ys 1] dl_loop_count [of "ucast k" 0 ys 1]
        by (auto simp: decode_first [OF k_def] decode_length_def [of "ucast k"])
    qed
  qed
qed

theorem hpack_int_resumable_witness:
  "decode_length 0 0 ([0x1f] @ [0x9a, 0x0a]) 5 = add_count 1 (decode_length 31 0 [0x9a, 0x0a] 5)"
  using hpack_int_resumable [of 5 "[0x1f]" 0 0 "[0x9a, 0x0a]"]
  by (simp add: decode_first [OF refl, where bs = "[]"])

end
