(* ===== verification/Hpack_Static.thy ===== *)
theory Hpack_Static
  imports Prelude
begin

text \<open>
  The names that \<open>nghttp2_hd.c\<close> knows in advance: the static table of HPACK, the tokens
  of \<open>nghttp2_hd.h\<close>, the search for the token of a name (\<open>lookup_token\<close>, one
  definition per length of the name, as its outer \<open>switch\<close> has them) and the hash of
  names (\<open>name_hash\<close>).
\<close>

section \<open>Tokens\<close>

abbreviation NGHTTP2_TOKEN__AUTHORITY :: int where "NGHTTP2_TOKEN__AUTHORITY \<equiv> 0"
abbreviation NGHTTP2_TOKEN__METHOD :: int where "NGHTTP2_TOKEN__METHOD \<equiv> 1"
abbreviation NGHTTP2_TOKEN__PATH :: int where "NGHTTP2_TOKEN__PATH \<equiv> 3"
abbreviation NGHTTP2_TOKEN__SCHEME :: int where "NGHTTP2_TOKEN__SCHEME \<equiv> 5"
abbreviation NGHTTP2_TOKEN__STATUS :: int where "NGHTTP2_TOKEN__STATUS \<equiv> 7"
abbreviation NGHTTP2_TOKEN_ACCEPT_CHARSET :: int where "NGHTTP2_TOKEN_ACCEPT_CHARSET \<equiv> 14"
abbreviation NGHTTP2_TOKEN_ACCEPT_ENCODING :: int where "NGHTTP2_TOKEN_ACCEPT_ENCODING \<equiv> 15"
abbreviation NGHTTP2_TOKEN_ACCEPT_LANGUAGE :: int where "NGHTTP2_TOKEN_ACCEPT_LANGUAGE \<equiv> 16"
abbreviation NGHTTP2_TOKEN_ACCEPT_RANGES :: int where "NGHTTP2_TOKEN_ACCEPT_RANGES \<equiv> 17"
abbreviation NGHTTP2_TOKEN_ACCEPT :: int where "NGHTTP2_TOKEN_ACCEPT \<equiv> 18"
abbreviation NGHTTP2_TOKEN_ACCESS_CONTROL_ALLOW_ORIGIN :: int where "NGHTTP2_TOKEN_ACCESS_CONTROL_ALLOW_ORIGIN \<equiv> 19"
abbreviation NGHTTP2_TOKEN_AGE :: int where "NGHTTP2_TOKEN_AGE \<equiv> 20"
abbreviation NGHTTP2_TOKEN_ALLOW :: int where "NGHTTP2_TOKEN_ALLOW \<equiv> 21"
abbreviation NGHTTP2_TOKEN_AUTHORIZATION :: int where "NGHTTP2_TOKEN_AUTHORIZATION \<equiv> 22"
abbreviation NGHTTP2_TOKEN_CACHE_CONTROL :: int where "NGHTTP2_TOKEN_CACHE_CONTROL \<equiv> 23"
abbreviation NGHTTP2_TOKEN_CONTENT_DISPOSITION :: int where "NGHTTP2_TOKEN_CONTENT_DISPOSITION \<equiv> 24"
abbreviation NGHTTP2_TOKEN_CONTENT_ENCODING :: int where "NGHTTP2_TOKEN_CONTENT_ENCODING \<equiv> 25"
abbreviation NGHTTP2_TOKEN_CONTENT_LANGUAGE :: int where "NGHTTP2_TOKEN_CONTENT_LANGUAGE \<equiv> 26"
abbreviation NGHTTP2_TOKEN_CONTENT_LENGTH :: int where "NGHTTP2_TOKEN_CONTENT_LENGTH \<equiv> 27"
abbreviation NGHTTP2_TOKEN_CONTENT_LOCATION :: int where "NGHTTP2_TOKEN_CONTENT_LOCATION \<equiv> 28"
abbreviation NGHTTP2_TOKEN_CONTENT_RANGE :: int where "NGHTTP2_TOKEN_CONTENT_RANGE \<equiv> 29"
abbreviation NGHTTP2_TOKEN_CONTENT_TYPE :: int where "NGHTTP2_TOKEN_CONTENT_TYPE \<equiv> 30"
abbreviation NGHTTP2_TOKEN_COOKIE :: int where "NGHTTP2_TOKEN_COOKIE \<equiv> 31"
abbreviation NGHTTP2_TOKEN_DATE :: int where "NGHTTP2_TOKEN_DATE \<equiv> 32"
abbreviation NGHTTP2_TOKEN_ETAG :: int where "NGHTTP2_TOKEN_ETAG \<equiv> 33"
abbreviation NGHTTP2_TOKEN_EXPECT :: int where "NGHTTP2_TOKEN_EXPECT \<equiv> 34"
abbreviation NGHTTP2_TOKEN_EXPIRES :: int where "NGHTTP2_TOKEN_EXPIRES \<equiv> 35"
abbreviation NGHTTP2_TOKEN_FROM :: int where "NGHTTP2_TOKEN_FROM \<equiv> 36"
abbreviation NGHTTP2_TOKEN_HOST :: int where "NGHTTP2_TOKEN_HOST \<equiv> 37"
abbreviation NGHTTP2_TOKEN_IF_MATCH :: int where "NGHTTP2_TOKEN_IF_MATCH \<equiv> 38"
abbreviation NGHTTP2_TOKEN_IF_MODIFIED_SINCE :: int where "NGHTTP2_TOKEN_IF_MODIFIED_SINCE \<equiv> 39"
abbreviation NGHTTP2_TOKEN_IF_NONE_MATCH :: int where "NGHTTP2_TOKEN_IF_NONE_MATCH \<equiv> 40"
abbreviation NGHTTP2_TOKEN_IF_RANGE :: int where "NGHTTP2_TOKEN_IF_RANGE \<equiv> 41"
abbreviation NGHTTP2_TOKEN_IF_UNMODIFIED_SINCE :: int where "NGHTTP2_TOKEN_IF_UNMODIFIED_SINCE \<equiv> 42"
abbreviation NGHTTP2_TOKEN_LAST_MODIFIED :: int where "NGHTTP2_TOKEN_LAST_MODIFIED \<equiv> 43"
abbreviation NGHTTP2_TOKEN_LINK :: int where "NGHTTP2_TOKEN_LINK \<equiv> 44"
abbreviation NGHTTP2_TOKEN_LOCATION :: int where "NGHTTP2_TOKEN_LOCATION \<equiv> 45"
abbreviation NGHTTP2_TOKEN_MAX_FORWARDS :: int where "NGHTTP2_TOKEN_MAX_FORWARDS \<equiv> 46"
abbreviation NGHTTP2_TOKEN_PROXY_AUTHENTICATE :: int where "NGHTTP2_TOKEN_PROXY_AUTHENTICATE \<equiv> 47"
abbreviation NGHTTP2_TOKEN_PROXY_AUTHORIZATION :: int where "NGHTTP2_TOKEN_PROXY_AUTHORIZATION \<equiv> 48"
abbreviation NGHTTP2_TOKEN_RANGE :: int where "NGHTTP2_TOKEN_RANGE \<equiv> 49"
abbreviation NGHTTP2_TOKEN_REFERER :: int where "NGHTTP2_TOKEN_REFERER \<equiv> 50"
abbreviation NGHTTP2_TOKEN_REFRESH :: int where "NGHTTP2_TOKEN_REFRESH \<equiv> 51"
abbreviation NGHTTP2_TOKEN_RETRY_AFTER :: int where "NGHTTP2_TOKEN_RETRY_AFTER \<equiv> 52"
abbreviation NGHTTP2_TOKEN_SERVER :: int where "NGHTTP2_TOKEN_SERVER \<equiv> 53"
abbreviation NGHTTP2_TOKEN_SET_COOKIE :: int where "NGHTTP2_TOKEN_SET_COOKIE \<equiv> 54"
abbreviation NGHTTP2_TOKEN_STRICT_TRANSPORT_SECURITY :: int where "NGHTTP2_TOKEN_STRICT_TRANSPORT_SECURITY \<equiv> 55"
abbreviation NGHTTP2_TOKEN_TRANSFER_ENCODING :: int where "NGHTTP2_TOKEN_TRANSFER_ENCODING \<equiv> 56"
abbreviation NGHTTP2_TOKEN_USER_AGENT :: int where "NGHTTP2_TOKEN_USER_AGENT \<equiv> 57"
abbreviation NGHTTP2_TOKEN_VARY :: int where "NGHTTP2_TOKEN_VARY \<equiv> 58"
abbreviation NGHTTP2_TOKEN_VIA :: int where "NGHTTP2_TOKEN_VIA \<equiv> 59"
abbreviation NGHTTP2_TOKEN_WWW_AUTHENTICATE :: int where "NGHTTP2_TOKEN_WWW_AUTHENTICATE \<equiv> 60"
abbreviation NGHTTP2_TOKEN_TE :: int where "NGHTTP2_TOKEN_TE \<equiv> 61"
abbreviation NGHTTP2_TOKEN_CONNECTION :: int where "NGHTTP2_TOKEN_CONNECTION \<equiv> 62"
abbreviation NGHTTP2_TOKEN_KEEP_ALIVE :: int where "NGHTTP2_TOKEN_KEEP_ALIVE \<equiv> 63"
abbreviation NGHTTP2_TOKEN_PROXY_CONNECTION :: int where "NGHTTP2_TOKEN_PROXY_CONNECTION \<equiv> 64"
abbreviation NGHTTP2_TOKEN_UPGRADE :: int where "NGHTTP2_TOKEN_UPGRADE \<equiv> 65"
abbreviation NGHTTP2_TOKEN__PROTOCOL :: int where "NGHTTP2_TOKEN__PROTOCOL \<equiv> 66"
abbreviation NGHTTP2_TOKEN_PRIORITY :: int where "NGHTTP2_TOKEN_PRIORITY \<equiv> 67"

section \<open>The static table\<close>

definition NGHTTP2_STATIC_TABLE_LENGTH :: nat where
  "NGHTTP2_STATIC_TABLE_LENGTH = 61"

record nghttp2_hd_static_entry =
  st_name :: "byte list"
  st_value :: "byte list"
  st_token :: int
  st_hash :: "32 word"

definition MAKE_STATIC_ENT :: "string \<Rightarrow> string \<Rightarrow> int \<Rightarrow> 32 word \<Rightarrow> nghttp2_hd_static_entry" where
  "MAKE_STATIC_ENT n v t h = \<lparr>st_name = bytes n, st_value = bytes v, st_token = t, st_hash = h\<rparr>"

definition static_table :: "nghttp2_hd_static_entry list" where
  "static_table =
    [MAKE_STATIC_ENT '':authority'' '''' 0 3153725150,
     MAKE_STATIC_ENT '':method'' ''GET'' 1 695666056,
     MAKE_STATIC_ENT '':method'' ''POST'' 1 695666056,
     MAKE_STATIC_ENT '':path'' ''/'' 3 3292848686,
     MAKE_STATIC_ENT '':path'' ''/index.html'' 3 3292848686,
     MAKE_STATIC_ENT '':scheme'' ''http'' 5 2510477674,
     MAKE_STATIC_ENT '':scheme'' ''https'' 5 2510477674,
     MAKE_STATIC_ENT '':status'' ''200'' 7 4000288983,
     MAKE_STATIC_ENT '':status'' ''204'' 7 4000288983,
     MAKE_STATIC_ENT '':status'' ''206'' 7 4000288983,
     MAKE_STATIC_ENT '':status'' ''304'' 7 4000288983,
     MAKE_STATIC_ENT '':status'' ''400'' 7 4000288983,
     MAKE_STATIC_ENT '':status'' ''404'' 7 4000288983,
     MAKE_STATIC_ENT '':status'' ''500'' 7 4000288983,
     MAKE_STATIC_ENT ''accept-charset'' '''' 14 3664010344,
     MAKE_STATIC_ENT ''accept-encoding'' ''gzip, deflate'' 15 3379649177,
     MAKE_STATIC_ENT ''accept-language'' '''' 16 1979086614,
     MAKE_STATIC_ENT ''accept-ranges'' '''' 17 1713753958,
     MAKE_STATIC_ENT ''accept'' '''' 18 136609321,
     MAKE_STATIC_ENT ''access-control-allow-origin'' '''' 19 2710797292,
     MAKE_STATIC_ENT ''age'' '''' 20 742476188,
     MAKE_STATIC_ENT ''allow'' '''' 21 2930878514,
     MAKE_STATIC_ENT ''authorization'' '''' 22 2436257726,
     MAKE_STATIC_ENT ''cache-control'' '''' 23 1355326669,
     MAKE_STATIC_ENT ''content-disposition'' '''' 24 3889184348,
     MAKE_STATIC_ENT ''content-encoding'' '''' 25 65203592,
     MAKE_STATIC_ENT ''content-language'' '''' 26 24973587,
     MAKE_STATIC_ENT ''content-length'' '''' 27 1308181789,
     MAKE_STATIC_ENT ''content-location'' '''' 28 2302364718,
     MAKE_STATIC_ENT ''content-range'' '''' 29 3555523146,
     MAKE_STATIC_ENT ''content-type'' '''' 30 4244048277,
     MAKE_STATIC_ENT ''cookie'' '''' 31 2007449791,
     MAKE_STATIC_ENT ''date'' '''' 32 3564297305,
     MAKE_STATIC_ENT ''etag'' '''' 33 113792960,
     MAKE_STATIC_ENT ''expect'' '''' 34 2530896728,
     MAKE_STATIC_ENT ''expires'' '''' 35 1049544579,
     MAKE_STATIC_ENT ''from'' '''' 36 2513272949,
     MAKE_STATIC_ENT ''host'' '''' 37 2952701295,
     MAKE_STATIC_ENT ''if-match'' '''' 38 3597694698,
     MAKE_STATIC_ENT ''if-modified-since'' '''' 39 2213050793,
     MAKE_STATIC_ENT ''if-none-match'' '''' 40 2536202615,
     MAKE_STATIC_ENT ''if-range'' '''' 41 2340978238,
     MAKE_STATIC_ENT ''if-unmodified-since'' '''' 42 3794814858,
     MAKE_STATIC_ENT ''last-modified'' '''' 43 3226950251,
     MAKE_STATIC_ENT ''link'' '''' 44 232457833,
     MAKE_STATIC_ENT ''location'' '''' 45 200649126,
     MAKE_STATIC_ENT ''max-forwards'' '''' 46 1826162134,
     MAKE_STATIC_ENT ''proxy-authenticate'' '''' 47 2709445359,
     MAKE_STATIC_ENT ''proxy-authorization'' '''' 48 2686392507,
     MAKE_STATIC_ENT ''range'' '''' 49 4208725202,
     MAKE_STATIC_ENT ''referer'' '''' 50 3969579366,
     MAKE_STATIC_ENT ''refresh'' '''' 51 3572655668,
     MAKE_STATIC_ENT ''retry-after'' '''' 52 3336180598,
     MAKE_STATIC_ENT ''server'' '''' 53 1085029842,
     MAKE_STATIC_ENT ''set-cookie'' '''' 54 1848371000,
     MAKE_STATIC_ENT ''strict-transport-security'' '''' 55 4138147361,
     MAKE_STATIC_ENT ''transfer-encoding'' '''' 56 3719590988,
     MAKE_STATIC_ENT ''user-agent'' '''' 57 606444526,
     MAKE_STATIC_ENT ''vary'' '''' 58 1085005381,
     MAKE_STATIC_ENT ''via'' '''' 59 1762798611,
     MAKE_STATIC_ENT ''www-authenticate'' '''' 60 779865858
    ]"

section \<open>Finding the token of a name\<close>

definition lookup_token_2 :: "byte list \<Rightarrow> int" where
  "lookup_token_2 name =
     (if name ! 1 = of_char CHR ''e'' then
        (if take 1 name = bytes ''t'' then NGHTTP2_TOKEN_TE else - 1)
      else - 1)"

definition lookup_token_3 :: "byte list \<Rightarrow> int" where
  "lookup_token_3 name =
     (if name ! 2 = of_char CHR ''a'' then
        (if take 2 name = bytes ''vi'' then NGHTTP2_TOKEN_VIA else - 1)
      else if name ! 2 = of_char CHR ''e'' then
        (if take 2 name = bytes ''ag'' then NGHTTP2_TOKEN_AGE else - 1)
      else - 1)"

definition lookup_token_4 :: "byte list \<Rightarrow> int" where
  "lookup_token_4 name =
     (if name ! 3 = of_char CHR ''e'' then
        (if take 3 name = bytes ''dat'' then NGHTTP2_TOKEN_DATE else - 1)
      else if name ! 3 = of_char CHR ''g'' then
        (if take 3 name = bytes ''eta'' then NGHTTP2_TOKEN_ETAG else - 1)
      else if name ! 3 = of_char CHR ''k'' then
        (if take 3 name = bytes ''lin'' then NGHTTP2_TOKEN_LINK else - 1)
      else if name ! 3 = of_char CHR ''m'' then
        (if take 3 name = bytes ''fro'' then NGHTTP2_TOKEN_FROM else - 1)
      else if name ! 3 = of_char CHR ''t'' then
        (if take 3 name = bytes ''hos'' then NGHTTP2_TOKEN_HOST else - 1)
      else if name ! 3 = of_char CHR ''y'' then
        (if take 3 name = bytes ''var'' then NGHTTP2_TOKEN_VARY else - 1)
      else - 1)"

definition lookup_token_5 :: "byte list \<Rightarrow> int" where
  "lookup_token_5 name =
     (if name ! 4 = of_char CHR ''e'' then
        (if take 4 name = bytes ''rang'' then NGHTTP2_TOKEN_RANGE else - 1)
      else if name ! 4 = of_char CHR ''h'' then
        (if take 4 name = bytes '':pat'' then NGHTTP2_TOKEN__PATH else - 1)
      else if name ! 4 = of_char CHR ''w'' then
        (if take 4 name = bytes ''allo'' then NGHTTP2_TOKEN_ALLOW else - 1)
      else - 1)"

definition lookup_token_6 :: "byte list \<Rightarrow> int" where
  "lookup_token_6 name =
     (if name ! 5 = of_char CHR ''e'' then
        (if take 5 name = bytes ''cooki'' then NGHTTP2_TOKEN_COOKIE else - 1)
      else if name ! 5 = of_char CHR ''r'' then
        (if take 5 name = bytes ''serve'' then NGHTTP2_TOKEN_SERVER else - 1)
      else if name ! 5 = of_char CHR ''t'' then
        (if take 5 name = bytes ''accep'' then NGHTTP2_TOKEN_ACCEPT
         else if take 5 name = bytes ''expec'' then NGHTTP2_TOKEN_EXPECT else - 1)
      else - 1)"

definition lookup_token_7 :: "byte list \<Rightarrow> int" where
  "lookup_token_7 name =
     (if name ! 6 = of_char CHR ''d'' then
        (if take 6 name = bytes '':metho'' then NGHTTP2_TOKEN__METHOD else - 1)
      else if name ! 6 = of_char CHR ''e'' then
        (if take 6 name = bytes '':schem'' then NGHTTP2_TOKEN__SCHEME
         else if take 6 name = bytes ''upgrad'' then NGHTTP2_TOKEN_UPGRADE else - 1)
      else if name ! 6 = of_char CHR ''h'' then
        (if take 6 name = bytes ''refres'' then NGHTTP2_TOKEN_REFRESH else - 1)
      else if name ! 6 = of_char CHR ''r'' then
        (if take 6 name = bytes ''refere'' then NGHTTP2_TOKEN_REFERER else - 1)
      else if name ! 6 = of_char CHR ''s'' then
        (if take 6 name = bytes '':statu'' then NGHTTP2_TOKEN__STATUS
         else if take 6 name = bytes ''expire'' then NGHTTP2_TOKEN_EXPIRES else - 1)
      else - 1)"

definition lookup_token_8 :: "byte list \<Rightarrow> int" where
  "lookup_token_8 name =
     (if name ! 7 = of_char CHR ''e'' then
        (if take 7 name = bytes ''if-rang'' then NGHTTP2_TOKEN_IF_RANGE else - 1)
      else if name ! 7 = of_char CHR ''h'' then
        (if take 7 name = bytes ''if-matc'' then NGHTTP2_TOKEN_IF_MATCH else - 1)
      else if name ! 7 = of_char CHR ''n'' then
        (if take 7 name = bytes ''locatio'' then NGHTTP2_TOKEN_LOCATION else - 1)
      else if name ! 7 = of_char CHR ''y'' then
        (if take 7 name = bytes ''priorit'' then NGHTTP2_TOKEN_PRIORITY else - 1)
      else - 1)"

definition lookup_token_9 :: "byte list \<Rightarrow> int" where
  "lookup_token_9 name =
     (if name ! 8 = of_char CHR ''l'' then
        (if take 8 name = bytes '':protoco'' then NGHTTP2_TOKEN__PROTOCOL else - 1)
      else - 1)"

definition lookup_token_10 :: "byte list \<Rightarrow> int" where
  "lookup_token_10 name =
     (if name ! 9 = of_char CHR ''e'' then
        (if take 9 name = bytes ''keep-aliv'' then NGHTTP2_TOKEN_KEEP_ALIVE
         else if take 9 name = bytes ''set-cooki'' then NGHTTP2_TOKEN_SET_COOKIE else - 1)
      else if name ! 9 = of_char CHR ''n'' then
        (if take 9 name = bytes ''connectio'' then NGHTTP2_TOKEN_CONNECTION else - 1)
      else if name ! 9 = of_char CHR ''t'' then
        (if take 9 name = bytes ''user-agen'' then NGHTTP2_TOKEN_USER_AGENT else - 1)
      else if name ! 9 = of_char CHR ''y'' then
        (if take 9 name = bytes '':authorit'' then NGHTTP2_TOKEN__AUTHORITY else - 1)
      else - 1)"

definition lookup_token_11 :: "byte list \<Rightarrow> int" where
  "lookup_token_11 name =
     (if name ! 10 = of_char CHR ''r'' then
        (if take 10 name = bytes ''retry-afte'' then NGHTTP2_TOKEN_RETRY_AFTER else - 1)
      else - 1)"

definition lookup_token_12 :: "byte list \<Rightarrow> int" where
  "lookup_token_12 name =
     (if name ! 11 = of_char CHR ''e'' then
        (if take 11 name = bytes ''content-typ'' then NGHTTP2_TOKEN_CONTENT_TYPE else - 1)
      else if name ! 11 = of_char CHR ''s'' then
        (if take 11 name = bytes ''max-forward'' then NGHTTP2_TOKEN_MAX_FORWARDS else - 1)
      else - 1)"

definition lookup_token_13 :: "byte list \<Rightarrow> int" where
  "lookup_token_13 name =
     (if name ! 12 = of_char CHR ''d'' then
        (if take 12 name = bytes ''last-modifie'' then NGHTTP2_TOKEN_LAST_MODIFIED else - 1)
      else if name ! 12 = of_char CHR ''e'' then
        (if take 12 name = bytes ''content-rang'' then NGHTTP2_TOKEN_CONTENT_RANGE else - 1)
      else if name ! 12 = of_char CHR ''h'' then
        (if take 12 name = bytes ''if-none-matc'' then NGHTTP2_TOKEN_IF_NONE_MATCH else - 1)
      else if name ! 12 = of_char CHR ''l'' then
        (if take 12 name = bytes ''cache-contro'' then NGHTTP2_TOKEN_CACHE_CONTROL else - 1)
      else if name ! 12 = of_char CHR ''n'' then
        (if take 12 name = bytes ''authorizatio'' then NGHTTP2_TOKEN_AUTHORIZATION else - 1)
      else if name ! 12 = of_char CHR ''s'' then
        (if take 12 name = bytes ''accept-range'' then NGHTTP2_TOKEN_ACCEPT_RANGES else - 1)
      else - 1)"

definition lookup_token_14 :: "byte list \<Rightarrow> int" where
  "lookup_token_14 name =
     (if name ! 13 = of_char CHR ''h'' then
        (if take 13 name = bytes ''content-lengt'' then NGHTTP2_TOKEN_CONTENT_LENGTH else - 1)
      else if name ! 13 = of_char CHR ''t'' then
        (if take 13 name = bytes ''accept-charse'' then NGHTTP2_TOKEN_ACCEPT_CHARSET else - 1)
      else - 1)"

definition lookup_token_15 :: "byte list \<Rightarrow> int" where
  "lookup_token_15 name =
     (if name ! 14 = of_char CHR ''e'' then
        (if take 14 name = bytes ''accept-languag'' then NGHTTP2_TOKEN_ACCEPT_LANGUAGE else - 1)
      else if name ! 14 = of_char CHR ''g'' then
        (if take 14 name = bytes ''accept-encodin'' then NGHTTP2_TOKEN_ACCEPT_ENCODING else - 1)
      else - 1)"

definition lookup_token_16 :: "byte list \<Rightarrow> int" where
  "lookup_token_16 name =
     (if name ! 15 = of_char CHR ''e'' then
        (if take 15 name = bytes ''content-languag'' then NGHTTP2_TOKEN_CONTENT_LANGUAGE
         else if take 15 name = bytes ''www-authenticat'' then NGHTTP2_TOKEN_WWW_AUTHENTICATE else - 1)
      else if name ! 15 = of_char CHR ''g'' then
        (if take 15 name = bytes ''content-encodin'' then NGHTTP2_TOKEN_CONTENT_ENCODING else - 1)
      else if name ! 15 = of_char CHR ''n'' then
        (if take 15 name = bytes ''content-locatio'' then NGHTTP2_TOKEN_CONTENT_LOCATION
         else if take 15 name = bytes ''proxy-connectio'' then NGHTTP2_TOKEN_PROXY_CONNECTION else - 1)
      else - 1)"

definition lookup_token_17 :: "byte list \<Rightarrow> int" where
  "lookup_token_17 name =
     (if name ! 16 = of_char CHR ''e'' then
        (if take 16 name = bytes ''if-modified-sinc'' then NGHTTP2_TOKEN_IF_MODIFIED_SINCE else - 1)
      else if name ! 16 = of_char CHR ''g'' then
        (if take 16 name = bytes ''transfer-encodin'' then NGHTTP2_TOKEN_TRANSFER_ENCODING else - 1)
      else - 1)"

definition lookup_token_18 :: "byte list \<Rightarrow> int" where
  "lookup_token_18 name =
     (if name ! 17 = of_char CHR ''e'' then
        (if take 17 name = bytes ''proxy-authenticat'' then NGHTTP2_TOKEN_PROXY_AUTHENTICATE else - 1)
      else - 1)"

definition lookup_token_19 :: "byte list \<Rightarrow> int" where
  "lookup_token_19 name =
     (if name ! 18 = of_char CHR ''e'' then
        (if take 18 name = bytes ''if-unmodified-sinc'' then NGHTTP2_TOKEN_IF_UNMODIFIED_SINCE else - 1)
      else if name ! 18 = of_char CHR ''n'' then
        (if take 18 name = bytes ''content-dispositio'' then NGHTTP2_TOKEN_CONTENT_DISPOSITION
         else if take 18 name = bytes ''proxy-authorizatio'' then NGHTTP2_TOKEN_PROXY_AUTHORIZATION else - 1)
      else - 1)"

definition lookup_token_25 :: "byte list \<Rightarrow> int" where
  "lookup_token_25 name =
     (if name ! 24 = of_char CHR ''y'' then
        (if take 24 name = bytes ''strict-transport-securit'' then NGHTTP2_TOKEN_STRICT_TRANSPORT_SECURITY else - 1)
      else - 1)"

definition lookup_token_27 :: "byte list \<Rightarrow> int" where
  "lookup_token_27 name =
     (if name ! 26 = of_char CHR ''n'' then
        (if take 26 name = bytes ''access-control-allow-origi'' then NGHTTP2_TOKEN_ACCESS_CONTROL_ALLOW_ORIGIN else - 1)
      else - 1)"

definition lookup_token :: "byte list \<Rightarrow> int" where
  "lookup_token name =
     (let namelen = length name in
      if namelen = 2 then lookup_token_2 name
      else if namelen = 3 then lookup_token_3 name
      else if namelen = 4 then lookup_token_4 name
      else if namelen = 5 then lookup_token_5 name
      else if namelen = 6 then lookup_token_6 name
      else if namelen = 7 then lookup_token_7 name
      else if namelen = 8 then lookup_token_8 name
      else if namelen = 9 then lookup_token_9 name
      else if namelen = 10 then lookup_token_10 name
      else if namelen = 11 then lookup_token_11 name
      else if namelen = 12 then lookup_token_12 name
      else if namelen = 13 then lookup_token_13 name
      else if namelen = 14 then lookup_token_14 name
      else if namelen = 15 then lookup_token_15 name
      else if namelen = 16 then lookup_token_16 name
      else if namelen = 17 then lookup_token_17 name
      else if namelen = 18 then lookup_token_18 name
      else if namelen = 19 then lookup_token_19 name
      else if namelen = 25 then lookup_token_25 name
      else if namelen = 27 then lookup_token_27 name
      else - 1)"

section \<open>The hash of a name\<close>

text \<open>32 bit FNV-1a, with the multiplication by the prime as shifts.\<close>

definition name_hash_step :: "32 word \<Rightarrow> byte \<Rightarrow> 32 word" where
  "name_hash_step h b =
     (let h = h XOR ucast b
      in h + (push_bit 1 h + push_bit 4 h + push_bit 7 h + push_bit 8 h + push_bit 24 h))"

definition name_hash :: "byte list \<Rightarrow> 32 word" where
  "name_hash name = foldl name_hash_step 2166136261 name"

section \<open>What the functions compute\<close>

text \<open>All the names there are tokens for: those of the static table, and a few more.\<close>

definition token_table :: "(byte list \<times> int) list" where
  "token_table =
     map (\<lambda>e. (st_name e, st_token e)) static_table @
     [(bytes ''te'', NGHTTP2_TOKEN_TE), (bytes ''connection'', NGHTTP2_TOKEN_CONNECTION),
      (bytes ''keep-alive'', NGHTTP2_TOKEN_KEEP_ALIVE),
      (bytes ''proxy-connection'', NGHTTP2_TOKEN_PROXY_CONNECTION),
      (bytes ''upgrade'', NGHTTP2_TOKEN_UPGRADE), (bytes '':protocol'', NGHTTP2_TOKEN__PROTOCOL),
      (bytes ''priority'', NGHTTP2_TOKEN_PRIORITY)]"

lemmas lookup_token_defs =
  lookup_token_2_def lookup_token_3_def lookup_token_4_def lookup_token_5_def lookup_token_6_def lookup_token_7_def lookup_token_8_def lookup_token_9_def lookup_token_10_def lookup_token_11_def lookup_token_12_def lookup_token_13_def lookup_token_14_def lookup_token_15_def lookup_token_16_def lookup_token_17_def lookup_token_18_def lookup_token_19_def lookup_token_25_def lookup_token_27_def

lemma token_table_found: "list_all (\<lambda>(name, t). t \<noteq> - 1 \<and> lookup_token name = t) token_table"
  by (simp add: token_table_def static_table_def MAKE_STATIC_ENT_def lookup_token_def lookup_token_defs)

text \<open>
  Conversely: a name with a token is one of these. The last byte is compared first, then
  those before it.
\<close>

lemma token_table_has:
  "(bytes ''te'', NGHTTP2_TOKEN_TE) \<in> set token_table"
  "(bytes ''via'', NGHTTP2_TOKEN_VIA) \<in> set token_table"
  "(bytes ''age'', NGHTTP2_TOKEN_AGE) \<in> set token_table"
  "(bytes ''date'', NGHTTP2_TOKEN_DATE) \<in> set token_table"
  "(bytes ''etag'', NGHTTP2_TOKEN_ETAG) \<in> set token_table"
  "(bytes ''link'', NGHTTP2_TOKEN_LINK) \<in> set token_table"
  "(bytes ''from'', NGHTTP2_TOKEN_FROM) \<in> set token_table"
  "(bytes ''host'', NGHTTP2_TOKEN_HOST) \<in> set token_table"
  "(bytes ''vary'', NGHTTP2_TOKEN_VARY) \<in> set token_table"
  "(bytes ''range'', NGHTTP2_TOKEN_RANGE) \<in> set token_table"
  "(bytes '':path'', NGHTTP2_TOKEN__PATH) \<in> set token_table"
  "(bytes ''allow'', NGHTTP2_TOKEN_ALLOW) \<in> set token_table"
  "(bytes ''cookie'', NGHTTP2_TOKEN_COOKIE) \<in> set token_table"
  "(bytes ''server'', NGHTTP2_TOKEN_SERVER) \<in> set token_table"
  "(bytes ''accept'', NGHTTP2_TOKEN_ACCEPT) \<in> set token_table"
  "(bytes ''expect'', NGHTTP2_TOKEN_EXPECT) \<in> set token_table"
  "(bytes '':method'', NGHTTP2_TOKEN__METHOD) \<in> set token_table"
  "(bytes '':scheme'', NGHTTP2_TOKEN__SCHEME) \<in> set token_table"
  "(bytes ''upgrade'', NGHTTP2_TOKEN_UPGRADE) \<in> set token_table"
  "(bytes ''refresh'', NGHTTP2_TOKEN_REFRESH) \<in> set token_table"
  "(bytes ''referer'', NGHTTP2_TOKEN_REFERER) \<in> set token_table"
  "(bytes '':status'', NGHTTP2_TOKEN__STATUS) \<in> set token_table"
  "(bytes ''expires'', NGHTTP2_TOKEN_EXPIRES) \<in> set token_table"
  "(bytes ''if-range'', NGHTTP2_TOKEN_IF_RANGE) \<in> set token_table"
  "(bytes ''if-match'', NGHTTP2_TOKEN_IF_MATCH) \<in> set token_table"
  "(bytes ''location'', NGHTTP2_TOKEN_LOCATION) \<in> set token_table"
  "(bytes ''priority'', NGHTTP2_TOKEN_PRIORITY) \<in> set token_table"
  "(bytes '':protocol'', NGHTTP2_TOKEN__PROTOCOL) \<in> set token_table"
  "(bytes ''keep-alive'', NGHTTP2_TOKEN_KEEP_ALIVE) \<in> set token_table"
  "(bytes ''set-cookie'', NGHTTP2_TOKEN_SET_COOKIE) \<in> set token_table"
  "(bytes ''connection'', NGHTTP2_TOKEN_CONNECTION) \<in> set token_table"
  "(bytes ''user-agent'', NGHTTP2_TOKEN_USER_AGENT) \<in> set token_table"
  "(bytes '':authority'', NGHTTP2_TOKEN__AUTHORITY) \<in> set token_table"
  "(bytes ''retry-after'', NGHTTP2_TOKEN_RETRY_AFTER) \<in> set token_table"
  "(bytes ''content-type'', NGHTTP2_TOKEN_CONTENT_TYPE) \<in> set token_table"
  "(bytes ''max-forwards'', NGHTTP2_TOKEN_MAX_FORWARDS) \<in> set token_table"
  "(bytes ''last-modified'', NGHTTP2_TOKEN_LAST_MODIFIED) \<in> set token_table"
  "(bytes ''content-range'', NGHTTP2_TOKEN_CONTENT_RANGE) \<in> set token_table"
  "(bytes ''if-none-match'', NGHTTP2_TOKEN_IF_NONE_MATCH) \<in> set token_table"
  "(bytes ''cache-control'', NGHTTP2_TOKEN_CACHE_CONTROL) \<in> set token_table"
  "(bytes ''authorization'', NGHTTP2_TOKEN_AUTHORIZATION) \<in> set token_table"
  "(bytes ''accept-ranges'', NGHTTP2_TOKEN_ACCEPT_RANGES) \<in> set token_table"
  "(bytes ''content-length'', NGHTTP2_TOKEN_CONTENT_LENGTH) \<in> set token_table"
  "(bytes ''accept-charset'', NGHTTP2_TOKEN_ACCEPT_CHARSET) \<in> set token_table"
  "(bytes ''accept-language'', NGHTTP2_TOKEN_ACCEPT_LANGUAGE) \<in> set token_table"
  "(bytes ''accept-encoding'', NGHTTP2_TOKEN_ACCEPT_ENCODING) \<in> set token_table"
  "(bytes ''content-language'', NGHTTP2_TOKEN_CONTENT_LANGUAGE) \<in> set token_table"
  "(bytes ''www-authenticate'', NGHTTP2_TOKEN_WWW_AUTHENTICATE) \<in> set token_table"
  "(bytes ''content-encoding'', NGHTTP2_TOKEN_CONTENT_ENCODING) \<in> set token_table"
  "(bytes ''content-location'', NGHTTP2_TOKEN_CONTENT_LOCATION) \<in> set token_table"
  "(bytes ''proxy-connection'', NGHTTP2_TOKEN_PROXY_CONNECTION) \<in> set token_table"
  "(bytes ''if-modified-since'', NGHTTP2_TOKEN_IF_MODIFIED_SINCE) \<in> set token_table"
  "(bytes ''transfer-encoding'', NGHTTP2_TOKEN_TRANSFER_ENCODING) \<in> set token_table"
  "(bytes ''proxy-authenticate'', NGHTTP2_TOKEN_PROXY_AUTHENTICATE) \<in> set token_table"
  "(bytes ''if-unmodified-since'', NGHTTP2_TOKEN_IF_UNMODIFIED_SINCE) \<in> set token_table"
  "(bytes ''content-disposition'', NGHTTP2_TOKEN_CONTENT_DISPOSITION) \<in> set token_table"
  "(bytes ''proxy-authorization'', NGHTTP2_TOKEN_PROXY_AUTHORIZATION) \<in> set token_table"
  "(bytes ''strict-transport-security'', NGHTTP2_TOKEN_STRICT_TRANSPORT_SECURITY) \<in> set token_table"
  "(bytes ''access-control-allow-origin'', NGHTTP2_TOKEN_ACCESS_CONTROL_ALLOW_ORIGIN) \<in> set token_table"
  by (simp_all only: token_table_def static_table_def MAKE_STATIC_ENT_def list.map append.simps
      nghttp2_hd_static_entry.select_convs list.set insert_iff simp_thms)

lemmas token_table_facts = token_table_has [simplified]

lemma lookup_token_2_known:
  "length p = 1 \<Longrightarrow> lookup_token_2 (p @ [c]) \<noteq> - 1 \<Longrightarrow>
   (p @ [c], lookup_token_2 (p @ [c])) \<in> set token_table"
  by (simp add: lookup_token_2_def nth_append split: if_splits) (simp_all add: token_table_facts)

lemma lookup_token_3_known:
  "length p = 2 \<Longrightarrow> lookup_token_3 (p @ [c]) \<noteq> - 1 \<Longrightarrow>
   (p @ [c], lookup_token_3 (p @ [c])) \<in> set token_table"
  by (simp add: lookup_token_3_def nth_append split: if_splits) (simp_all add: token_table_facts)

lemma lookup_token_4_known:
  "length p = 3 \<Longrightarrow> lookup_token_4 (p @ [c]) \<noteq> - 1 \<Longrightarrow>
   (p @ [c], lookup_token_4 (p @ [c])) \<in> set token_table"
  by (simp add: lookup_token_4_def nth_append split: if_splits) (simp_all add: token_table_facts)

lemma lookup_token_5_known:
  "length p = 4 \<Longrightarrow> lookup_token_5 (p @ [c]) \<noteq> - 1 \<Longrightarrow>
   (p @ [c], lookup_token_5 (p @ [c])) \<in> set token_table"
  by (simp add: lookup_token_5_def nth_append split: if_splits) (simp_all add: token_table_facts)

lemma lookup_token_6_known:
  "length p = 5 \<Longrightarrow> lookup_token_6 (p @ [c]) \<noteq> - 1 \<Longrightarrow>
   (p @ [c], lookup_token_6 (p @ [c])) \<in> set token_table"
  by (simp add: lookup_token_6_def nth_append split: if_splits) (simp_all add: token_table_facts)

lemma lookup_token_7_known:
  "length p = 6 \<Longrightarrow> lookup_token_7 (p @ [c]) \<noteq> - 1 \<Longrightarrow>
   (p @ [c], lookup_token_7 (p @ [c])) \<in> set token_table"
  by (simp add: lookup_token_7_def nth_append split: if_splits) (simp_all add: token_table_facts)

lemma lookup_token_8_known:
  "length p = 7 \<Longrightarrow> lookup_token_8 (p @ [c]) \<noteq> - 1 \<Longrightarrow>
   (p @ [c], lookup_token_8 (p @ [c])) \<in> set token_table"
  by (simp add: lookup_token_8_def nth_append split: if_splits) (simp_all add: token_table_facts)

lemma lookup_token_9_known:
  "length p = 8 \<Longrightarrow> lookup_token_9 (p @ [c]) \<noteq> - 1 \<Longrightarrow>
   (p @ [c], lookup_token_9 (p @ [c])) \<in> set token_table"
  by (simp add: lookup_token_9_def nth_append split: if_splits) (simp_all add: token_table_facts)

lemma lookup_token_10_known:
  "length p = 9 \<Longrightarrow> lookup_token_10 (p @ [c]) \<noteq> - 1 \<Longrightarrow>
   (p @ [c], lookup_token_10 (p @ [c])) \<in> set token_table"
  by (simp add: lookup_token_10_def nth_append split: if_splits) (simp_all add: token_table_facts)

lemma lookup_token_11_known:
  "length p = 10 \<Longrightarrow> lookup_token_11 (p @ [c]) \<noteq> - 1 \<Longrightarrow>
   (p @ [c], lookup_token_11 (p @ [c])) \<in> set token_table"
  by (simp add: lookup_token_11_def nth_append split: if_splits) (simp_all add: token_table_facts)

lemma lookup_token_12_known:
  "length p = 11 \<Longrightarrow> lookup_token_12 (p @ [c]) \<noteq> - 1 \<Longrightarrow>
   (p @ [c], lookup_token_12 (p @ [c])) \<in> set token_table"
  by (simp add: lookup_token_12_def nth_append split: if_splits) (simp_all add: token_table_facts)

lemma lookup_token_13_known:
  "length p = 12 \<Longrightarrow> lookup_token_13 (p @ [c]) \<noteq> - 1 \<Longrightarrow>
   (p @ [c], lookup_token_13 (p @ [c])) \<in> set token_table"
  by (simp add: lookup_token_13_def nth_append split: if_splits) (simp_all add: token_table_facts)

lemma lookup_token_14_known:
  "length p = 13 \<Longrightarrow> lookup_token_14 (p @ [c]) \<noteq> - 1 \<Longrightarrow>
   (p @ [c], lookup_token_14 (p @ [c])) \<in> set token_table"
  by (simp add: lookup_token_14_def nth_append split: if_splits) (simp_all add: token_table_facts)

lemma lookup_token_15_known:
  "length p = 14 \<Longrightarrow> lookup_token_15 (p @ [c]) \<noteq> - 1 \<Longrightarrow>
   (p @ [c], lookup_token_15 (p @ [c])) \<in> set token_table"
  by (simp add: lookup_token_15_def nth_append split: if_splits) (simp_all add: token_table_facts)

lemma lookup_token_16_known:
  "length p = 15 \<Longrightarrow> lookup_token_16 (p @ [c]) \<noteq> - 1 \<Longrightarrow>
   (p @ [c], lookup_token_16 (p @ [c])) \<in> set token_table"
  by (simp add: lookup_token_16_def nth_append split: if_splits) (simp_all add: token_table_facts)

lemma lookup_token_17_known:
  "length p = 16 \<Longrightarrow> lookup_token_17 (p @ [c]) \<noteq> - 1 \<Longrightarrow>
   (p @ [c], lookup_token_17 (p @ [c])) \<in> set token_table"
  by (simp add: lookup_token_17_def nth_append split: if_splits) (simp_all add: token_table_facts)

lemma lookup_token_18_known:
  "length p = 17 \<Longrightarrow> lookup_token_18 (p @ [c]) \<noteq> - 1 \<Longrightarrow>
   (p @ [c], lookup_token_18 (p @ [c])) \<in> set token_table"
  by (simp add: lookup_token_18_def nth_append split: if_splits) (simp_all add: token_table_facts)

lemma lookup_token_19_known:
  "length p = 18 \<Longrightarrow> lookup_token_19 (p @ [c]) \<noteq> - 1 \<Longrightarrow>
   (p @ [c], lookup_token_19 (p @ [c])) \<in> set token_table"
  by (simp add: lookup_token_19_def nth_append split: if_splits) (simp_all add: token_table_facts)

lemma lookup_token_25_known:
  "length p = 24 \<Longrightarrow> lookup_token_25 (p @ [c]) \<noteq> - 1 \<Longrightarrow>
   (p @ [c], lookup_token_25 (p @ [c])) \<in> set token_table"
  by (simp add: lookup_token_25_def nth_append split: if_splits) (simp_all add: token_table_facts)

lemma lookup_token_27_known:
  "length p = 26 \<Longrightarrow> lookup_token_27 (p @ [c]) \<noteq> - 1 \<Longrightarrow>
   (p @ [c], lookup_token_27 (p @ [c])) \<in> set token_table"
  by (simp add: lookup_token_27_def nth_append split: if_splits) (simp_all add: token_table_facts)

lemmas lookup_token_known =
  lookup_token_2_known lookup_token_3_known lookup_token_4_known lookup_token_5_known lookup_token_6_known lookup_token_7_known lookup_token_8_known lookup_token_9_known lookup_token_10_known lookup_token_11_known lookup_token_12_known lookup_token_13_known lookup_token_14_known lookup_token_15_known lookup_token_16_known lookup_token_17_known lookup_token_18_known lookup_token_19_known lookup_token_25_known lookup_token_27_known

lemma token_known:
  assumes "lookup_token name \<noteq> - 1"
  shows "(name, lookup_token name) \<in> set token_table"
proof (cases name rule: rev_cases)
  case Nil
  with assms show ?thesis by (simp add: lookup_token_def)
next
  case (snoc p c)
  have "length p = n \<Longrightarrow> length (p @ [c]) = Suc n" for n by simp
  with assms snoc show ?thesis
    using lookup_token_known [of p c] by (simp add: lookup_token_def Let_def split: if_splits)
qed

text \<open>The hash step is the multiplication by the FNV prime, and can be computed on integers.\<close>

definition hash_int :: "int \<Rightarrow> int \<Rightarrow> int" where
  "hash_int h b = ((h XOR b) * 16777619) mod 2 ^ 32"

lemma name_hash_step_mult: "name_hash_step h b = (h XOR ucast b) * 16777619"
  by (simp add: name_hash_step_def Let_def push_bit_eq_mult algebra_simps)

lemma name_hash_step_int: "uint (name_hash_step h b) = hash_int (uint h) (uint b)"
proof -
  have "uint b < 2 ^ 32" using unsigned_less [of b, where 'a = int] by simp
  then have "take_bit 32 (uint b) = uint b" by (simp add: take_bit_int_eq_self)
  then show ?thesis
    by (simp add: name_hash_step_mult hash_int_def uint_word_ariths unsigned_xor_eq unsigned_ucast_eq)
qed

lemma name_hash_int: "uint (foldl name_hash_step h name) = foldl hash_int (uint h) (map uint name)"
  by (induction name arbitrary: h) (simp_all add: name_hash_step_int)

lemma static_hashes_int:
  "list_all (\<lambda>e. foldl hash_int 2166136261 (map uint (st_name e)) = uint (st_hash e)) static_table"
  by code_simp

section \<open>The columns of the static table\<close>

lemma static_table_length [simp]: "length static_table = NGHTTP2_STATIC_TABLE_LENGTH"
  by (simp add: static_table_def NGHTTP2_STATIC_TABLE_LENGTH_def)

lemma static_hash: "e \<in> set static_table \<Longrightarrow> st_hash e = name_hash (st_name e)"
  using static_hashes_int name_hash_int [of 2166136261 "st_name e"]
  by (auto simp: list_all_iff name_hash_def word_uint_eq_iff)

lemma static_token: "e \<in> set static_table \<Longrightarrow> lookup_token (st_name e) = st_token e"
  using token_table_found by (auto simp: list_all_iff token_table_def)

text \<open>
  The token of an entry is its own index, or that of the entry before, which then has the
  same name.
\<close>

fun token_runs :: "nat \<Rightarrow> int \<Rightarrow> byte list \<Rightarrow> nghttp2_hd_static_entry list \<Rightarrow> bool" where
  "token_runs i t n [] \<longleftrightarrow> True"
| "token_runs i t n (e # es) \<longleftrightarrow>
     (st_token e = int i \<or> st_token e = t \<and> st_name e = n) \<and> token_runs (Suc i) (st_token e) (st_name e) es"

lemma token_runs_static: "token_runs 1 0 (bytes '':authority'') (tl static_table)"
  by (simp add: static_table_def MAKE_STATIC_ENT_def)

definition token_ok :: "nghttp2_hd_static_entry list \<Rightarrow> nat \<Rightarrow> bool" where
  "token_ok xs i \<longleftrightarrow> 0 \<le> st_token (xs ! i) \<and> nat (st_token (xs ! i)) \<le> i
     \<and> st_name (xs ! nat (st_token (xs ! i))) = st_name (xs ! i)"

lemma token_ok_append: "i < length xs \<Longrightarrow> token_ok (xs @ ys) i \<longleftrightarrow> token_ok xs i"
  by (auto simp: token_ok_def nth_append)

lemma token_runs_ok:
  assumes "token_runs (length xs) t n es" and "0 \<le> t" and "nat t < length xs" and "st_name (xs ! nat t) = n"
    and "\<forall>i<length xs. token_ok xs i"
  shows "\<forall>i<length (xs @ es). token_ok (xs @ es) i"
  using assms
proof (induction es arbitrary: xs t n)
  case (Cons e es)
  then have e: "st_token e = int (length xs) \<or> st_token e = t \<and> st_name e = n" by simp
  have ok: "token_ok (xs @ [e]) (length xs)" and n: "st_name ((xs @ [e]) ! nat (st_token e)) = st_name e"
    using e Cons.prems(2-4) by (auto simp: token_ok_def nth_append)
  have "\<forall>i<length (xs @ [e]). token_ok (xs @ [e]) i"
    using Cons.prems(5) ok by (auto simp: less_Suc_eq token_ok_append)
  with Cons.IH [of "xs @ [e]" "st_token e" "st_name e"] n e Cons.prems show ?case by auto
qed simp

lemma token_ok_static: "i < NGHTTP2_STATIC_TABLE_LENGTH \<Longrightarrow> token_ok static_table i"
proof -
  assume i: "i < NGHTTP2_STATIC_TABLE_LENGTH"
  have hd: "st_token (hd static_table) = 0" "st_name (hd static_table) = bytes '':authority''"
    by (simp_all add: static_table_def MAKE_STATIC_ENT_def)
  have eq: "[hd static_table] @ tl static_table = static_table"
    by (simp add: static_table_def)
  have "\<forall>i<length ([hd static_table] @ tl static_table). token_ok ([hd static_table] @ tl static_table) i"
    by (rule token_runs_ok [of _ 0 "bytes '':authority''"]) (use token_runs_static hd in \<open>simp_all add: token_ok_def\<close>)
  with i show ?thesis unfolding eq by simp
qed

lemma static_first:
  assumes "i < NGHTTP2_STATIC_TABLE_LENGTH"
  shows "0 \<le> st_token (static_table ! i)" and "nat (st_token (static_table ! i)) \<le> i"
    and "st_name (static_table ! nat (st_token (static_table ! i))) = st_name (static_table ! i)"
  using token_ok_static [OF assms] by (auto simp: token_ok_def)

text \<open>A token up to the last one of the static table is the index of an entry with the name.\<close>

lemma token_static:
  assumes "lookup_token name = t" and "0 \<le> t" and "t \<le> NGHTTP2_TOKEN_WWW_AUTHENTICATE"
  shows "nat t < NGHTTP2_STATIC_TABLE_LENGTH" and "st_name (static_table ! nat t) = name"
    and "st_token (static_table ! nat t) = t"
proof -
  have "(name, t) \<in> set token_table" using token_known [of name] assms by auto
  then obtain e where e: "e \<in> set static_table" "st_name e = name" "st_token e = t"
    using assms(3) by (auto simp: token_table_def)
  then obtain i where i: "i < NGHTTP2_STATIC_TABLE_LENGTH" "static_table ! i = e" by (auto simp: in_set_conv_nth)
  note f = static_first [OF i(1)]
  show lt: "nat t < NGHTTP2_STATIC_TABLE_LENGTH" using f(2) i e by simp
  show n: "st_name (static_table ! nat t) = name" using f(3) i e by simp
  have "static_table ! nat t \<in> set static_table" using lt by simp
  from static_token [OF this] show "st_token (static_table ! nat t) = t" using n assms(1) by simp
qed

text \<open>A token other than \<open>-1\<close> determines the name.\<close>

lemma token_inj:
  assumes "lookup_token a = lookup_token b" and "lookup_token a \<noteq> - 1"
  shows "a = b"
proof -
  have ab: "(a, lookup_token a) \<in> set token_table" "(b, lookup_token a) \<in> set token_table"
    using assms token_known [of a] token_known [of b] by auto
  show ?thesis
  proof (cases "lookup_token a \<le> NGHTTP2_TOKEN_WWW_AUTHENTICATE")
    case True
    have "0 \<le> st_token e" if "e \<in> set static_table" for e
      using that static_first(1) by (metis in_set_conv_nth static_table_length)
    then have "0 \<le> lookup_token a" using ab(1) by (auto simp: token_table_def)
    then show ?thesis using token_static(2) [of a] token_static(2) [of b] True assms by metis
  next
    case False
    have "st_token e \<le> 60" if e: "e \<in> set static_table" for e
    proof -
      obtain i where "i < NGHTTP2_STATIC_TABLE_LENGTH" "static_table ! i = e" using e by (auto simp: in_set_conv_nth)
      with static_first(2) [of i] show ?thesis by (simp add: NGHTTP2_STATIC_TABLE_LENGTH_def)
    qed
    with False ab show ?thesis by (fastforce simp: token_table_def)
  qed
qed

section \<open>Properties\<close>

text \<open>\<open>lookup_token\<close>, generated as nested comparisons of the length, the last byte and the
  bytes before it, is the lookup in a table: it returns a token other than \<open>-1\<close> exactly for
  the names of the static table and the seven further names that have tokens, and then the
  token of that name.\<close>

theorem lookup_token_correct:
  "t \<noteq> - 1 \<and> lookup_token name = t \<longleftrightarrow> (name, t) \<in> set token_table"
  using token_known [of name] token_table_found by (auto simp: list_all_iff)

text \<open>The columns of the static table agree with the functions that stand for them at run
  time: it has the declared length, and for each entry the token is what \<open>lookup_token\<close>
  finds for its name, the first entry with that name, and the hash is what \<open>name_hash\<close>
  computes. So an entry of a deflater's table is filed under the same bucket whether its name
  came from the static table or not.\<close>

theorem static_table_columns:
  "length static_table = NGHTTP2_STATIC_TABLE_LENGTH \<and>
   (\<forall>i<length static_table.
      let e = static_table ! i; j = nat (st_token e) in
      lookup_token (st_name e) = st_token e \<and> 0 \<le> st_token e \<and> j \<le> i
      \<and> st_name (static_table ! j) = st_name e
      \<and> st_hash e = name_hash (st_name e))"
  by (auto simp: Let_def static_token static_hash static_first)

theorem static_table_columns_witness:
  "lookup_token (bytes '':status'') = 7"
proof -
  have "8 < length static_table" "st_name (static_table ! 8) = bytes '':status''" "st_token (static_table ! 8) = 7"
    by (simp_all add: static_table_def MAKE_STATIC_ENT_def)
  with static_table_columns show ?thesis by (auto simp: Let_def)
qed

end
