(* ===== verification/Hpack_Ring.thy ===== *)
theory Hpack_Ring
  imports Prelude
begin

text \<open>
  The ring buffer that holds the dynamic table of HPACK (\<open>hd_ringbuf_*\<close> of
  \<open>nghttp2_hd.c\<close>). Its indices are \<open>size_t\<close>, words of 64 bits: \<open>push_front\<close>
  decrements \<open>first\<close> below zero and relies on the wrap-around. A slot that was never
  written is \<open>None\<close>.

  The users of the buffer see a list, newest entry first. The locale \<open>deque\<close> states what
  they rely on, and is interpreted on the ring buffer.
\<close>

section \<open>The interface\<close>

text \<open>
  Operations on an implementation that stands for a list: adding in front, which may fail,
  dropping the last element, reading by index, and the length.
\<close>

locale deque =
  fixes inv :: "'s \<Rightarrow> bool"
    and room :: "'s \<Rightarrow> bool"
    and elems :: "'s \<Rightarrow> 'a list"
    and front :: "'a \<Rightarrow> 's \<Rightarrow> 's option"
    and drop_last :: "'s \<Rightarrow> 's option"
    and get_at :: "'s \<Rightarrow> nat \<Rightarrow> 'a option"
    and len_of :: "'s \<Rightarrow> nat"
  assumes front_law: "inv s \<Longrightarrow> room s \<Longrightarrow> front x s = Some s' \<Longrightarrow> inv s' \<and> elems s' = x # elems s"
    and drop_law: "inv s \<Longrightarrow>
      (case drop_last s of
         None \<Rightarrow> elems s = []
       | Some s' \<Rightarrow> elems s \<noteq> [] \<and> inv s' \<and> elems s' = butlast (elems s))"
    and get_law: "inv s \<Longrightarrow> get_at s i = (if i < length (elems s) then Some (elems s ! i) else None)"
    and len_law: "inv s \<Longrightarrow> len_of s = length (elems s)"
begin

lemma drop_Some: "inv s \<Longrightarrow> elems s \<noteq> [] \<Longrightarrow> \<exists>s'. drop_last s = Some s' \<and> inv s' \<and> elems s' = butlast (elems s)"
  using drop_law [of s] by (auto split: option.splits)

lemma drop_None: "inv s \<Longrightarrow> elems s = [] \<Longrightarrow> drop_last s = None"
  using drop_law [of s] by (auto split: option.splits)

lemma get_last: "inv s \<Longrightarrow> elems s \<noteq> [] \<Longrightarrow> get_at s (len_of s - 1) = Some (last (elems s))"
  by (simp add: get_law len_law last_conv_nth)

end

section \<open>The ring buffer\<close>

record 'a nghttp2_hd_ringbuf =
  rb_buffer :: "'a option list"
  rb_mask :: "64 word"
  rb_first :: "64 word"
  rb_len :: nat

text \<open>
  \<open>for (size = 1; size < bufsize; size <<= 1)\<close>. The argument is far below \<open>2 ^ 63\<close>, so
  the shift does not overflow.
\<close>

function ring_size :: "nat \<Rightarrow> nat \<Rightarrow> nat" where
  "ring_size bufsize sz = (if 0 < sz \<and> sz < bufsize then ring_size bufsize (2 * sz) else sz)"
  by pat_completeness auto
termination
  by (relation "measure (\<lambda>(bufsize, sz). bufsize - sz)") auto

declare ring_size.simps [simp del]

text \<open>\<open>malloc\<close> says whether an array of that many slots can be allocated.\<close>

definition hd_ringbuf_init :: "(nat \<Rightarrow> bool) \<Rightarrow> nat \<Rightarrow> 'a nghttp2_hd_ringbuf option" where
  "hd_ringbuf_init malloc bufsize =
     (let sz = ring_size bufsize 1 in
      if \<not> malloc sz then None
      else Some \<lparr>rb_buffer = replicate sz None, rb_mask = of_nat sz - 1, rb_first = 0, rb_len = 0\<rparr>)"

text \<open>\<open>None\<close> when the assertion fails or the slot was never written.\<close>

definition hd_ringbuf_get :: "'a nghttp2_hd_ringbuf \<Rightarrow> nat \<Rightarrow> 'a option" where
  "hd_ringbuf_get r idx =
     (if idx < rb_len r
      then rb_buffer r ! unat ((rb_first r + of_nat idx) AND rb_mask r)
      else None)"

definition hd_ringbuf_reserve :: "(nat \<Rightarrow> bool) \<Rightarrow> 'a nghttp2_hd_ringbuf \<Rightarrow> nat \<Rightarrow> 'a nghttp2_hd_ringbuf option" where
  "hd_ringbuf_reserve malloc r bufsize =
     (if unat (rb_mask r + 1) \<ge> bufsize then Some r
      else
        (let sz = ring_size bufsize 1 in
         if \<not> malloc sz then None
         else
           Some (r\<lparr>rb_buffer := map (hd_ringbuf_get r) [0..<rb_len r] @ replicate (sz - rb_len r) None,
                   rb_mask := of_nat sz - 1,
                   rb_first := 0\<rparr>)))"

definition hd_ringbuf_push_front ::
  "(nat \<Rightarrow> bool) \<Rightarrow> 'a \<Rightarrow> 'a nghttp2_hd_ringbuf \<Rightarrow> 'a nghttp2_hd_ringbuf option"
where
  "hd_ringbuf_push_front malloc ent r =
     (case hd_ringbuf_reserve malloc r (rb_len r + 1) of
        None \<Rightarrow> None
      | Some r \<Rightarrow>
          let first = rb_first r - 1 in
          Some (r\<lparr>rb_first := first,
                  rb_buffer := (rb_buffer r)[unat (first AND rb_mask r) := Some ent],
                  rb_len := rb_len r + 1\<rparr>))"

definition hd_ringbuf_pop_back :: "'a nghttp2_hd_ringbuf \<Rightarrow> 'a nghttp2_hd_ringbuf option" where
  "hd_ringbuf_pop_back r = (if rb_len r > 0 then Some (r\<lparr>rb_len := rb_len r - 1\<rparr>) else None)"

section \<open>It stands for a list\<close>

definition rb_slot :: "'a nghttp2_hd_ringbuf \<Rightarrow> nat \<Rightarrow> nat" where
  "rb_slot r i = unat ((rb_first r + of_nat i) AND rb_mask r)"

definition rb_inv :: "'a nghttp2_hd_ringbuf \<Rightarrow> bool" where
  "rb_inv r \<longleftrightarrow>
     (\<exists>m<63. length (rb_buffer r) = 2 ^ m \<and> rb_mask r = mask m \<and> rb_len r \<le> 2 ^ m)
     \<and> (\<forall>i<rb_len r. rb_buffer r ! rb_slot r i \<noteq> None)"

definition rb_list :: "'a nghttp2_hd_ringbuf \<Rightarrow> 'a list" where
  "rb_list r = map (\<lambda>i. the (rb_buffer r ! rb_slot r i)) [0..<rb_len r]"

text \<open>The slot is the index modulo the size, in spite of the wrap-around at \<open>2 ^ 64\<close>.\<close>

lemma slot_mod:
  assumes "m \<le> 64"
  shows "unat ((f :: 64 word) AND mask m) = unat f mod 2 ^ m"
proof -
  have "f AND mask m = take_bit m f" by (simp add: take_bit_eq_mask)
  moreover have "unat (take_bit m f) = take_bit m (unat f)" by (rule unsigned_take_bit_eq)
  ultimately show ?thesis by (metis take_bit_eq_mod)
qed

lemma slot_add:
  assumes "m \<le> 64"
  shows "unat ((f + of_nat i :: 64 word) AND mask m) = (unat f + i) mod 2 ^ m"
proof -
  have "(2::nat) ^ m dvd 2 ^ 64" using assms by (rule le_imp_power_dvd)
  have "unat (f + of_nat i :: 64 word) mod 2 ^ m = ((unat f + i) mod 2 ^ 64) mod 2 ^ m"
    by (simp add: unat_word_ariths unat_of_nat mod_add_right_eq)
  also have "\<dots> = (unat f + i) mod 2 ^ m" using \<open>2 ^ m dvd 2 ^ 64\<close> by (rule mod_mod_cancel)
  finally show ?thesis by (simp add: slot_mod [OF assms])
qed

lemma rb_slot_mod:
  assumes "rb_mask r = mask m" and "m < 63"
  shows "rb_slot r i = (unat (rb_first r) + i) mod 2 ^ m"
  using slot_add [of m "rb_first r" i] assms by (simp add: rb_slot_def)

lemma mod_cancel_nat:
  assumes "(k + i) mod n = (k + j) mod (n :: nat)" and "i < n" and "j < n"
  shows "i = j"
proof -
  have "int n dvd int (k + i) - int (k + j)" using assms(1) by (metis mod_eq_dvd_iff zmod_int)
  then have "int i mod int n = int j mod int n" by (simp add: mod_eq_dvd_iff)
  with assms(2,3) show ?thesis by simp
qed

lemma rb_slot_inj:
  assumes "rb_mask r = mask m" and "m < 63" and "i < 2 ^ m" and "j < 2 ^ m"
  shows "rb_slot r i = rb_slot r j \<longleftrightarrow> i = j"
  using assms mod_cancel_nat [of "unat (rb_first r)" i "2 ^ m" j] by (auto simp: rb_slot_mod)

lemma ring_size_pow:
  "\<exists>k. ring_size b (2 ^ m) = 2 ^ k \<and> b \<le> 2 ^ k \<and> (m < k \<longrightarrow> 2 ^ (k - 1) < b)"
proof (induction "b - 2 ^ m" arbitrary: m rule: less_induct)
  case less
  show ?case
  proof (cases "(2::nat) ^ m < b")
    case True
    have "b - 2 ^ Suc m < b - 2 ^ m" using True by (simp add: diff_less_mono2)
    from less [OF this] obtain k where k: "ring_size b (2 ^ Suc m) = 2 ^ k" "b \<le> 2 ^ k"
      "Suc m < k \<longrightarrow> 2 ^ (k - 1) < b" by blast
    have "ring_size b (2 ^ m) = 2 ^ k" using True k(1) by (subst ring_size.simps) simp
    moreover have "2 ^ (k - 1) < b" if "m < k"
    proof (cases "Suc m < k")
      case False
      then have "k - 1 = m" using that by simp
      then show ?thesis using True by simp
    qed (use k(3) in simp)
    ultimately show ?thesis using k(2) by blast
  next
    case False
    then have "ring_size b (2 ^ m) = 2 ^ m" by (subst ring_size.simps) simp
    then show ?thesis using False by (intro exI [of _ m]) simp
  qed
qed

text \<open>The sizes a buffer gets: a power of two that holds \<open>b\<close> slots, below \<open>2 ^ 63\<close>.\<close>

lemma ring_size_bound:
  assumes "b \<le> 2 ^ 62"
  shows "\<exists>k<63. ring_size b 1 = 2 ^ k \<and> b \<le> 2 ^ k"
proof -
  obtain k where k: "ring_size b 1 = 2 ^ k" "b \<le> 2 ^ k" "0 < k \<longrightarrow> 2 ^ (k - 1) < b"
    using ring_size_pow [of b 0] by auto
  have "k < 63"
  proof (rule ccontr)
    assume "\<not> k < 63"
    then have "(2::nat) ^ 62 \<le> 2 ^ (k - 1)" by (intro power_increasing) auto
    with k(3) assms \<open>\<not> k < 63\<close> show False by simp
  qed
  with k show ?thesis by blast
qed

lemma mask_of_size: "of_nat (2 ^ k) - 1 = (mask k :: 64 word)"
  by (simp add: mask_eq_exp_minus_1)

lemma unat_mask_Suc:
  assumes "m < 64"
  shows "unat (mask m + 1 :: 64 word) = 2 ^ m"
proof -
  have "mask m + 1 = (2 ^ m :: 64 word)" by (simp add: mask_eq_exp_minus_1)
  moreover have "unat (of_nat (2 ^ m) :: 64 word) = 2 ^ m"
    using assms by (simp only: unsigned_of_nat) (simp add: take_bit_nat_eq_self)
  ultimately show ?thesis by simp
qed

lemma rb_slot_less:
  assumes "rb_mask r = mask m" and "m < 63"
  shows "rb_slot r i < 2 ^ m"
  using assms by (simp add: rb_slot_mod)

text \<open>A buffer of \<open>2 ^ k\<close> slots that starts at slot 0 and holds \<open>l\<close>.\<close>

lemma rb_fresh:
  assumes "length l \<le> 2 ^ k" and "k < 63"
    and r: "rb_buffer r = map Some l @ replicate (2 ^ k - length l) None" "rb_mask r = mask k"
      "rb_first r = 0" "rb_len r = length l"
  shows "rb_inv r" and "rb_list r = l"
proof -
  have slot: "rb_slot r i = i" if "i < length l" for i
    using that assms(1) r(3) rb_slot_mod [OF r(2) assms(2), of i] by simp
  then have at: "rb_buffer r ! rb_slot r i = Some (l ! i)" if "i < length l" for i
    using that r(1) by (simp add: nth_append)
  have "length (rb_buffer r) = 2 ^ k" using r(1) assms(1) by simp
  with at assms r show "rb_inv r" by (auto simp: rb_inv_def)
  show "rb_list r = l"
    by (rule nth_equalityI) (auto simp: rb_list_def r(4) at)
qed

lemma rb_get:
  assumes "rb_inv r"
  shows "hd_ringbuf_get r i = (if i < length (rb_list r) then Some (rb_list r ! i) else None)"
  using assms by (auto simp: hd_ringbuf_get_def rb_list_def rb_inv_def rb_slot_def)

lemma rb_init:
  assumes "hd_ringbuf_init malloc b = Some r" and "b \<le> 2 ^ 62"
  shows "rb_inv r" and "rb_list r = []"
proof -
  obtain k where "k < 63" and "ring_size b 1 = 2 ^ k" using ring_size_bound [OF assms(2)] by blast
  then have "r = \<lparr>rb_buffer = replicate (2 ^ k) None, rb_mask = mask k, rb_first = 0, rb_len = 0\<rparr>"
    using assms(1) mask_of_size by (auto simp: hd_ringbuf_init_def Let_def split: if_splits)
  with \<open>k < 63\<close> show "rb_inv r" and "rb_list r = []" using rb_fresh [of "[]" k r] by auto
qed

text \<open>Growing the buffer moves the entries and changes nothing for the user.\<close>

lemma rb_reserve:
  assumes "rb_inv r" and "hd_ringbuf_reserve malloc r b = Some r'" and "b \<le> 2 ^ 62" and "rb_len r < b"
  shows "rb_inv r' \<and> rb_list r' = rb_list r \<and> b \<le> length (rb_buffer r') \<and> rb_len r' = rb_len r"
proof -
  obtain m where m: "m < 63" "length (rb_buffer r) = 2 ^ m" "rb_mask r = mask m" "rb_len r \<le> 2 ^ m"
    using assms(1) by (auto simp: rb_inv_def)
  show ?thesis
  proof (cases "b \<le> 2 ^ m")
    case True
    then have "r' = r" using assms(2) m unat_mask_Suc [of m] by (simp add: hd_ringbuf_reserve_def)
    then show ?thesis using assms(1) True m by simp
  next
    case False
    obtain k where k: "k < 63" "ring_size b 1 = 2 ^ k" "b \<le> 2 ^ k" using ring_size_bound [OF assms(3)] by blast
    have len: "length (rb_list r) = rb_len r" by (simp add: rb_list_def)
    have "map (hd_ringbuf_get r) [0..<rb_len r] = map Some (rb_list r)"
      by (rule nth_equalityI) (simp_all add: len rb_get [OF assms(1)])
    then have r': "rb_buffer r' = map Some (rb_list r) @ replicate (2 ^ k - length (rb_list r)) None"
      "rb_mask r' = mask k" "rb_first r' = 0" "rb_len r' = length (rb_list r)"
      using assms(2) False k(2) m unat_mask_Suc [of m] mask_of_size [of k] len
      by (auto simp: hd_ringbuf_reserve_def Let_def split: if_splits)
    have "length (rb_list r) \<le> 2 ^ k" using k(3) assms(4) len by simp
    note rb_fresh [OF this k(1) r']
    then show ?thesis using r' len k(3) assms(4) by simp
  qed
qed

lemma rb_push:
  assumes "rb_inv r" and "rb_len r < 2 ^ 62" and "hd_ringbuf_push_front malloc x r = Some r'"
  shows "rb_inv r' \<and> rb_list r' = x # rb_list r"
proof -
  obtain q where q: "hd_ringbuf_reserve malloc r (rb_len r + 1) = Some q"
    and r': "r' = q\<lparr>rb_first := rb_first q - 1,
                   rb_buffer := (rb_buffer q)[unat ((rb_first q - 1) AND rb_mask q) := Some x],
                   rb_len := rb_len q + 1\<rparr>"
    using assms(3) by (auto simp: hd_ringbuf_push_front_def Let_def split: option.splits)
  have Q: "rb_inv q" "rb_list q = rb_list r" "rb_len r + 1 \<le> length (rb_buffer q)" "rb_len q = rb_len r"
    using rb_reserve [OF assms(1) q] assms(2) by auto
  obtain m where m: "m < 63" "length (rb_buffer q) = 2 ^ m" "rb_mask q = mask m"
    using Q(1) by (auto simp: rb_inv_def)
  have mask': "rb_mask r' = mask m" using r' m by simp
  have slot0: "rb_slot r' 0 = unat ((rb_first q - 1) AND rb_mask q)" using r' by (simp add: rb_slot_def)
  have slotS: "rb_slot r' (Suc i) = rb_slot q i" for i using r' by (simp add: rb_slot_def)
  have at0: "rb_buffer r' ! rb_slot r' 0 = Some x"
    using r' slot0 rb_slot_less [OF mask' m(1), of 0] m(2) by simp
  have atS: "rb_buffer r' ! rb_slot r' (Suc i) = rb_buffer q ! rb_slot q i" if "i < rb_len q" for i
  proof -
    have "Suc i < 2 ^ m" using that Q(3,4) m(2) by simp
    then have "rb_slot r' (Suc i) \<noteq> rb_slot r' 0" using rb_slot_inj [OF mask' m(1), of "Suc i" 0] by simp
    then show ?thesis using r' slot0 slotS by simp
  qed
  have "rb_inv r'"
    unfolding rb_inv_def
  proof (intro conjI exI [of _ m] allI impI)
    fix i assume "i < rb_len r'"
    with r' at0 atS Q(1) show "rb_buffer r' ! rb_slot r' i \<noteq> None"
      by (cases i) (auto simp: rb_inv_def)
  qed (use r' m Q(3,4) mask' in auto)
  moreover have "rb_list r' = x # rb_list q"
  proof (rule nth_equalityI)
    fix i assume "i < length (rb_list r')"
    with r' at0 atS show "rb_list r' ! i = (x # rb_list q) ! i"
      by (cases i) (auto simp: rb_list_def simp del: upt_Suc)
  qed (simp add: rb_list_def r')
  ultimately show ?thesis using Q(2) by simp
qed

lemma rb_pop:
  assumes "rb_inv r"
  shows "case hd_ringbuf_pop_back r of
           None \<Rightarrow> rb_list r = []
         | Some r' \<Rightarrow> rb_list r \<noteq> [] \<and> rb_inv r' \<and> rb_list r' = butlast (rb_list r)"
proof (cases "rb_len r")
  case 0
  then show ?thesis by (simp add: hd_ringbuf_pop_back_def rb_list_def)
next
  case (Suc n)
  then have "hd_ringbuf_pop_back r = Some (r\<lparr>rb_len := n\<rparr>)" by (simp add: hd_ringbuf_pop_back_def)
  moreover have "rb_inv (r\<lparr>rb_len := n\<rparr>)" using assms Suc by (auto simp: rb_inv_def rb_slot_def)
  moreover have "rb_list (r\<lparr>rb_len := n\<rparr>) = butlast (rb_list r)" using Suc by (simp add: rb_list_def rb_slot_def)
  ultimately show ?thesis using Suc by (simp add: rb_list_def)
qed

section \<open>The interface on the ring buffer\<close>

definition rb_room :: "'a nghttp2_hd_ringbuf \<Rightarrow> bool" where
  "rb_room r \<longleftrightarrow> rb_len r < 2 ^ 62"

interpretation rb: deque rb_inv rb_room rb_list "hd_ringbuf_push_front malloc" hd_ringbuf_pop_back hd_ringbuf_get rb_len
  for malloc
proof (unfold_locales, goal_cases)
  case (1 s x s')
  then show ?case unfolding rb_room_def by (intro rb_push)
next
  case (2 s)
  then show ?case by (rule rb_pop)
next
  case (3 s i)
  then show ?case by (rule rb_get)
next
  case (4 s)
  then show ?case by (simp add: rb_list_def)
qed

section \<open>Sequences of operations\<close>

text \<open>\<open>Some x\<close> adds \<open>x\<close> in front, \<open>None\<close> drops the last entry.\<close>

fun ring_ops :: "(nat \<Rightarrow> bool) \<Rightarrow> 'a option list \<Rightarrow> 'a nghttp2_hd_ringbuf \<Rightarrow> 'a nghttp2_hd_ringbuf option" where
  "ring_ops malloc [] r = Some r"
| "ring_ops malloc (Some x # xs) r = Option.bind (hd_ringbuf_push_front malloc x r) (ring_ops malloc xs)"
| "ring_ops malloc (None # xs) r = Option.bind (hd_ringbuf_pop_back r) (ring_ops malloc xs)"

fun list_ops :: "'a option list \<Rightarrow> 'a list \<Rightarrow> 'a list option" where
  "list_ops [] l = Some l"
| "list_ops (Some x # xs) l = list_ops xs (x # l)"
| "list_ops (None # xs) l = (if l = [] then None else list_ops xs (butlast l))"

lemma push_fails: "hd_ringbuf_push_front malloc x r = None \<Longrightarrow> \<exists>n. \<not> malloc n"
  by (auto simp: hd_ringbuf_push_front_def hd_ringbuf_reserve_def Let_def split: option.splits if_splits)

lemma ring_ops_list:
  assumes "rb_inv r" and "rb_len r + length xs < 2 ^ 62"
  shows "case ring_ops malloc xs r of
           None \<Rightarrow> list_ops xs (rb_list r) = None \<or> (\<exists>n. \<not> malloc n)
         | Some r' \<Rightarrow> rb_inv r' \<and> list_ops xs (rb_list r) = Some (rb_list r')"
  using assms
proof (induction xs arbitrary: r)
  case (Cons y xs)
  show ?case
  proof (cases y)
    case None
    show ?thesis
    proof (cases "rb_list r = []")
      case True
      then show ?thesis using None rb.drop_None [OF Cons.prems(1)] by simp
    next
      case False
      then obtain s where s: "hd_ringbuf_pop_back r = Some s" "rb_inv s" "rb_list s = butlast (rb_list r)"
        using rb.drop_Some [OF Cons.prems(1)] by blast
      have "rb_len s + length xs < 2 ^ 62"
        using s Cons.prems rb.len_law [of s] rb.len_law [of r] by simp
      with Cons.IH [OF s(2)] show ?thesis using None False s by (auto split: option.splits)
    qed
  next
    case (Some x)
    show ?thesis
    proof (cases "hd_ringbuf_push_front malloc x r")
      case None
      then show ?thesis using Some push_fails [OF None] by simp
    next
      case (Some s)
      have room: "rb_room r" using Cons.prems(2) by (simp add: rb_room_def)
      have s: "rb_inv s" "rb_list s = x # rb_list r" using rb.front_law [OF Cons.prems(1) room Some] by auto
      have "rb_len s + length xs < 2 ^ 62"
        using s Cons.prems rb.len_law [of s] rb.len_law [of r] by simp
      with Cons.IH [OF s(1)] show ?thesis using Some \<open>y = Some x\<close> s by (auto split: option.splits)
    qed
  qed
qed simp

text \<open>The ring buffer is a list: after any sequence of \<open>push_front\<close> and \<open>pop_back\<close> from a
  fresh buffer of any size, with however many reallocations and wrap-arounds of \<open>first\<close> that
  takes, every index reads the entry that the list of the entries, newest first, has there.
  The sequence fails only when an allocation fails or an entry is dropped from an empty buffer.\<close>

theorem ringbuf_is_list:
  assumes "hd_ringbuf_init malloc b = Some r" and "b \<le> 2 ^ 62" and "length xs < 2 ^ 62"
  shows "case ring_ops malloc xs r of
           None \<Rightarrow> list_ops xs [] = None \<or> (\<exists>n. \<not> malloc n)
         | Some r' \<Rightarrow> \<exists>l. list_ops xs [] = Some l \<and> rb_len r' = length l
             \<and> (\<forall>i. hd_ringbuf_get r' i = (if i < length l then Some (l ! i) else None))"
proof -
  note r = rb_init [OF assms(1,2)]
  have "rb_len r + length xs < 2 ^ 62" using rb.len_law [OF r(1)] r(2) assms(3) by simp
  from ring_ops_list [OF r(1) this, of malloc] r(2)
  show ?thesis by (auto split: option.splits simp: rb.len_law rb.get_law)
qed

theorem ringbuf_is_list_witness:
  "\<exists>r r'. hd_ringbuf_init (\<lambda>n. n \<le> 4) 1 = Some r
     \<and> ring_ops (\<lambda>n. n \<le> 4) [Some 1, Some 2, Some (3 :: int), None, Some 4] r = Some r'
     \<and> rb_len r' = 3 \<and> hd_ringbuf_get r' 2 = Some 2"
proof -
  define r :: "int nghttp2_hd_ringbuf" where "r = \<lparr>rb_buffer = [None], rb_mask = 0, rb_first = 0, rb_len = 0\<rparr>"
  have r: "hd_ringbuf_init (\<lambda>n. n \<le> 4) 1 = Some r"
    unfolding r_def by code_simp
  have "ring_ops (\<lambda>n. n \<le> 4) [Some 1, Some 2, Some 3, None, Some 4] r \<noteq> None"
    unfolding r_def by code_simp
  then show ?thesis
    using ringbuf_is_list [OF r, of "[Some 1, Some 2, Some 3, None, Some 4]"] r by auto
qed

end
