(* ===== verification/Hpack_Table.thy ===== *)
theory Hpack_Table
  imports Hpack_Static Hpack_Ring
begin

text \<open>
  The dynamic table of HPACK, common to the deflater and the inflater: the entries in their
  ring buffer with the accounting of their sizes, the hash map by which the deflater finds
  entries, adding an entry with the evictions it causes, shrinking the table, reading it by
  index and searching it.

  Reference counting of names and values and the release of memory have no place in the
  model: names and values are byte lists. An entry is compared by value where
  \<open>hd_map_remove\<close> compares pointers; the entries of a table differ in their sequence
  numbers, so that this is the same (\<open>ctx_distinct\<close>).
\<close>

section \<open>Data\<close>

record nghttp2_nv =
  nv_name :: "byte list"
  nv_value :: "byte list"
  nv_no_index :: bool

record nghttp2_hd_nv =
  hd_name :: "byte list"
  hd_value :: "byte list"
  hd_token :: int
  hd_no_index :: bool

record nghttp2_hd_entry =
  ent_nv :: nghttp2_hd_nv
  ent_seq :: "32 word"
  ent_hash :: "32 word"

record nghttp2_hd_context =
  hd_table :: "nghttp2_hd_entry nghttp2_hd_ringbuf"
  hd_table_bufsize :: nat
  hd_table_bufsize_max :: nat
  next_seq :: "32 word"
  bad :: bool

type_synonym nghttp2_hd_map = "nghttp2_hd_entry list list"

text \<open>
  The memory allocator is not part of the sources: it says whether it can give an array of
  so many pointers, an entry, and a buffer of so many bytes.
\<close>

record nghttp2_mem =
  mem_slots :: "nat \<Rightarrow> bool"
  mem_entry :: bool
  mem_rcbuf :: "nat \<Rightarrow> bool"

text \<open>The return codes of \<open>nghttp2_hd.c\<close>; \<open>HD_ASSERT\<close> is a failed assertion.\<close>

datatype hd_rv = HD_OK | NGHTTP2_ERR_NOMEM | NGHTTP2_ERR_HEADER_COMP | NGHTTP2_ERR_BUFFER_ERROR
  | NGHTTP2_ERR_INVALID_STATE | NGHTTP2_ERR_FRAME_SIZE_ERROR | HD_ASSERT

definition NGHTTP2_HD_ENTRY_OVERHEAD :: nat where
  "NGHTTP2_HD_ENTRY_OVERHEAD = 32"

definition HD_MAP_SIZE :: nat where
  "HD_MAP_SIZE = 128"

definition entry_room :: "nat \<Rightarrow> nat \<Rightarrow> nat" where
  "entry_room namelen valuelen = NGHTTP2_HD_ENTRY_OVERHEAD + namelen + valuelen"

definition hd_context_init :: "nghttp2_mem \<Rightarrow> nat \<Rightarrow> nghttp2_hd_context option" where
  "hd_context_init mem table_size =
     map_option
       (\<lambda>t. \<lparr>hd_table = t, hd_table_bufsize = 0, hd_table_bufsize_max = table_size, next_seq = 0, bad = False\<rparr>)
       (hd_ringbuf_init (mem_slots mem) (table_size div NGHTTP2_HD_ENTRY_OVERHEAD))"

section \<open>The hash map of the deflater\<close>

text \<open>A bucket is the list that the field \<open>next\<close> links.\<close>

definition hd_map_init :: nghttp2_hd_map where
  "hd_map_init = replicate HD_MAP_SIZE []"

definition hd_bucket :: "32 word \<Rightarrow> nat" where
  "hd_bucket hash = unat (hash AND (of_nat HD_MAP_SIZE - 1))"

definition hd_map_insert :: "nghttp2_hd_map \<Rightarrow> nghttp2_hd_entry \<Rightarrow> nghttp2_hd_map" where
  "hd_map_insert hdmap ent =
     (let b = hd_bucket (ent_hash ent) in hdmap[b := ent # hdmap ! b])"

definition name_eq :: "nghttp2_hd_nv \<Rightarrow> nghttp2_nv \<Rightarrow> bool" where
  "name_eq a b \<longleftrightarrow> length (hd_name a) = length (nv_name b) \<and> hd_name a = nv_name b"

definition value_eq :: "nghttp2_hd_nv \<Rightarrow> nghttp2_nv \<Rightarrow> bool" where
  "value_eq a b \<longleftrightarrow> length (hd_value a) = length (nv_value b) \<and> hd_value a = nv_value b"

fun hd_map_find_in ::
  "nghttp2_hd_entry list \<Rightarrow> nghttp2_nv \<Rightarrow> int \<Rightarrow> 32 word \<Rightarrow> bool \<Rightarrow> nghttp2_hd_entry option
   \<Rightarrow> nghttp2_hd_entry option \<times> bool"
where
  "hd_map_find_in [] nv token hash name_only res = (res, False)"
| "hd_map_find_in (p # ps) nv token hash name_only res =
     (if token \<noteq> hd_token (ent_nv p)
         \<or> token = - 1 \<and> (hash \<noteq> ent_hash p \<or> \<not> name_eq (ent_nv p) nv)
      then hd_map_find_in ps nv token hash name_only res
      else if res = None \<and> name_only then (Some p, False)
      else if value_eq (ent_nv p) nv then (Some p, True)
      else hd_map_find_in ps nv token hash name_only (if res = None then Some p else res))"

text \<open>The entry found and \<open>*exact_match\<close>.\<close>

definition hd_map_find ::
  "nghttp2_hd_map \<Rightarrow> nghttp2_nv \<Rightarrow> int \<Rightarrow> 32 word \<Rightarrow> bool \<Rightarrow> nghttp2_hd_entry option \<times> bool"
where
  "hd_map_find hdmap nv token hash name_only =
     hd_map_find_in (hdmap ! hd_bucket hash) nv token hash name_only None"

definition hd_map_remove :: "nghttp2_hd_map \<Rightarrow> nghttp2_hd_entry \<Rightarrow> nghttp2_hd_map" where
  "hd_map_remove hdmap ent =
     (let b = hd_bucket (ent_hash ent) in hdmap[b := remove1 ent (hdmap ! b)])"

section \<open>Adding and evicting\<close>

text \<open>
  The loop that makes room, of \<open>add_hd_table_incremental\<close> with the room of the new entry
  and of \<open>hd_context_shrink_table_size\<close> with none. The map is \<open>None\<close> for the inflater.
  \<open>None\<close> when an assertion of the ring buffer fails.
\<close>

function hd_evict ::
  "nat \<Rightarrow> nghttp2_hd_context \<Rightarrow> nghttp2_hd_map option \<Rightarrow> (nghttp2_hd_context \<times> nghttp2_hd_map option) option"
where
  "hd_evict room context hdmap =
     (if hd_table_bufsize context + room > hd_table_bufsize_max context \<and> rb_len (hd_table context) > 0 then
        (case hd_ringbuf_get (hd_table context) (rb_len (hd_table context) - 1) of
           None \<Rightarrow> None
         | Some ent \<Rightarrow>
             (case hd_ringbuf_pop_back (hd_table context) of
                None \<Rightarrow> None
              | Some t \<Rightarrow>
                  hd_evict room
                    (context\<lparr>hd_table_bufsize := hd_table_bufsize context
                               - entry_room (length (hd_name (ent_nv ent))) (length (hd_value (ent_nv ent))),
                             hd_table := t\<rparr>)
                    (map_option (\<lambda>m. hd_map_remove m ent) hdmap)))
      else Some (context, hdmap))"
  by pat_completeness auto
termination
  by (relation "measure (\<lambda>(room, context, hdmap). rb_len (hd_table context))")
    (auto simp: hd_ringbuf_pop_back_def split: if_splits)

declare hd_evict.simps [simp del]

definition add_hd_table_incremental ::
  "nghttp2_mem \<Rightarrow> nghttp2_hd_context \<Rightarrow> nghttp2_hd_nv \<Rightarrow> nghttp2_hd_map option \<Rightarrow> 32 word
   \<Rightarrow> hd_rv \<times> nghttp2_hd_context \<times> nghttp2_hd_map option"
where
  "add_hd_table_incremental mem context nv hdmap hash =
     (let room = entry_room (length (hd_name nv)) (length (hd_value nv)) in
      case hd_evict room context hdmap of
        None \<Rightarrow> (HD_ASSERT, context, hdmap)
      | Some (context, hdmap) \<Rightarrow>
          if room > hd_table_bufsize_max context then (HD_OK, context, hdmap)
          else if \<not> mem_entry mem then (NGHTTP2_ERR_NOMEM, context, hdmap)
          else
            (let new_ent = \<lparr>ent_nv = nv, ent_seq = next_seq context, ent_hash = hash\<rparr> in
             case hd_ringbuf_push_front (mem_slots mem) new_ent (hd_table context) of
               None \<Rightarrow> (NGHTTP2_ERR_NOMEM, context, hdmap)
             | Some t \<Rightarrow>
                 (HD_OK,
                  context\<lparr>hd_table := t,
                          next_seq := next_seq context + 1,
                          hd_table_bufsize := hd_table_bufsize context + room\<rparr>,
                  map_option (\<lambda>m. hd_map_insert m new_ent) hdmap)))"

definition hd_context_shrink_table_size ::
  "nghttp2_hd_context \<Rightarrow> nghttp2_hd_map option \<Rightarrow> (nghttp2_hd_context \<times> nghttp2_hd_map option) option"
where
  "hd_context_shrink_table_size context hdmap = hd_evict 0 context hdmap"

section \<open>Searching and reading\<close>

text \<open>\<open>index\<close>, which is \<open>-1\<close> when there is none, and \<open>name_value_match\<close>.\<close>

record search_result =
  res_index :: int
  res_match :: bool

function search_static_from :: "byte list \<Rightarrow> int \<Rightarrow> nat \<Rightarrow> search_result" where
  "search_static_from v token i =
     (if int i \<le> NGHTTP2_TOKEN_WWW_AUTHENTICATE \<and> st_token (static_table ! i) = token then
        if length (st_value (static_table ! i)) = length v \<and> st_value (static_table ! i) = v
        then \<lparr>res_index = int i, res_match = True\<rparr>
        else search_static_from v token (i + 1)
      else \<lparr>res_index = token, res_match = False\<rparr>)"
  by pat_completeness auto
termination
  by (relation "measure (\<lambda>(v, token, i). 61 - i)") auto

declare search_static_from.simps [simp del]

definition search_static_table :: "nghttp2_nv \<Rightarrow> int \<Rightarrow> bool \<Rightarrow> search_result" where
  "search_static_table nv token name_only =
     (if name_only then \<lparr>res_index = token, res_match = False\<rparr>
      else search_static_from (nv_value nv) token (nat token))"

datatype nghttp2_hd_indexing_mode =
  NGHTTP2_HD_WITH_INDEXING | NGHTTP2_HD_WITHOUT_INDEXING | NGHTTP2_HD_NEVER_INDEXING

definition search_hd_table ::
  "nghttp2_hd_context \<Rightarrow> nghttp2_nv \<Rightarrow> int \<Rightarrow> nghttp2_hd_indexing_mode \<Rightarrow> nghttp2_hd_map \<Rightarrow> 32 word
   \<Rightarrow> search_result"
where
  "search_hd_table context nv token indexing_mode hdmap hash =
     (let name_only = indexing_mode = NGHTTP2_HD_NEVER_INDEXING;
          (ent, exact_match) = hd_map_find hdmap nv token hash name_only
      in
      if \<not> exact_match \<and> token \<ge> 0 \<and> token \<le> NGHTTP2_TOKEN_WWW_AUTHENTICATE
      then search_static_table nv token name_only
      else
        (case ent of
           None \<Rightarrow> \<lparr>res_index = - 1, res_match = False\<rparr>
         | Some ent \<Rightarrow>
             \<lparr>res_index = uint (next_seq context - 1 - ent_seq ent + of_nat NGHTTP2_STATIC_TABLE_LENGTH),
              res_match = exact_match\<rparr>))"

definition INDEX_RANGE_VALID :: "nghttp2_hd_context \<Rightarrow> nat \<Rightarrow> bool" where
  "INDEX_RANGE_VALID context idx \<longleftrightarrow> idx < rb_len (hd_table context) + NGHTTP2_STATIC_TABLE_LENGTH"

definition get_max_index :: "nghttp2_hd_context \<Rightarrow> nat" where
  "get_max_index context = rb_len (hd_table context) + NGHTTP2_STATIC_TABLE_LENGTH"

text \<open>\<open>None\<close> when the assertion fails.\<close>

definition nghttp2_hd_table_get :: "nghttp2_hd_context \<Rightarrow> nat \<Rightarrow> nghttp2_hd_nv option" where
  "nghttp2_hd_table_get context idx =
     (if \<not> INDEX_RANGE_VALID context idx then None
      else if idx \<ge> NGHTTP2_STATIC_TABLE_LENGTH
      then map_option ent_nv (hd_ringbuf_get (hd_table context) (idx - NGHTTP2_STATIC_TABLE_LENGTH))
      else
        (let ent = static_table ! idx in
         Some \<lparr>hd_name = st_name ent, hd_value = st_value ent, hd_token = st_token ent, hd_no_index = False\<rparr>))"

text \<open>The field \<open>cnv\<close> of an entry repeats its name, value and flags.\<close>

definition cnv :: "nghttp2_hd_nv \<Rightarrow> nghttp2_nv" where
  "cnv nv = \<lparr>nv_name = hd_name nv, nv_value = hd_value nv, nv_no_index = hd_no_index nv\<rparr>"

definition nghttp2_hd_table_get2 :: "nghttp2_hd_context \<Rightarrow> nat \<Rightarrow> nghttp2_nv option" where
  "nghttp2_hd_table_get2 context idx =
     (if \<not> INDEX_RANGE_VALID context idx then None
      else if idx \<ge> NGHTTP2_STATIC_TABLE_LENGTH
      then map_option (\<lambda>ent. cnv (ent_nv ent)) (hd_ringbuf_get (hd_table context) (idx - NGHTTP2_STATIC_TABLE_LENGTH))
      else
        (let ent = static_table ! idx in
         Some \<lparr>nv_name = st_name ent, nv_value = st_value ent, nv_no_index = False\<rparr>))"

definition hd_get_table_entry :: "nghttp2_hd_context \<Rightarrow> nat \<Rightarrow> nghttp2_nv option" where
  "hd_get_table_entry context idx =
     (if idx = 0 then None
      else if \<not> INDEX_RANGE_VALID context (idx - 1) then None
      else nghttp2_hd_table_get2 context (idx - 1))"

section \<open>The dynamic table as a list\<close>

text \<open>
  The dynamic table of RFC 7541 is the list of its fields, newest first. A field takes the
  length of its name and its value and 32 more; evicting keeps the longest prefix that fits.
\<close>

type_synonym field = "byte list \<times> byte list"

definition field_room :: "field \<Rightarrow> nat" where
  "field_room f = 32 + length (fst f) + length (snd f)"

fun keep_by :: "('a \<Rightarrow> nat) \<Rightarrow> nat \<Rightarrow> 'a list \<Rightarrow> 'a list" where
  "keep_by room limit [] = []"
| "keep_by room limit (x # xs) =
     (if room x \<le> limit then x # keep_by room (limit - room x) xs else [])"

definition dyn_evict :: "nat \<Rightarrow> field list \<Rightarrow> field list" where
  "dyn_evict limit T = keep_by field_room limit T"

definition dyn_add :: "nat \<Rightarrow> field \<Rightarrow> field list \<Rightarrow> field list" where
  "dyn_add limit f T = (if field_room f \<le> limit then f # dyn_evict (limit - field_room f) T else [])"

lemma keep_by_all: "sum_list (map room xs) \<le> limit \<Longrightarrow> keep_by room limit xs = xs"
  by (induction xs arbitrary: limit) auto

lemma keep_by_snoc:
  "limit < sum_list (map room (xs @ [x])) \<Longrightarrow> keep_by room limit (xs @ [x]) = keep_by room limit xs"
  by (induction xs arbitrary: limit) auto

lemma keep_by_fits: "sum_list (map room (keep_by room limit xs)) \<le> limit"
proof (induction xs arbitrary: limit)
  case (Cons x xs)
  show ?case using Cons [of "limit - room x"] by auto
qed simp

lemma keep_by_map: "map g (keep_by (room \<circ> g) limit xs) = keep_by room limit (map g xs)"
  by (induction xs arbitrary: limit) auto

section \<open>The invariant\<close>

abbreviation ents :: "nghttp2_hd_context \<Rightarrow> nghttp2_hd_entry list" where
  "ents ctx \<equiv> rb_list (hd_table ctx)"

definition ent_field :: "nghttp2_hd_entry \<Rightarrow> field" where
  "ent_field e = (hd_name (ent_nv e), hd_value (ent_nv e))"

definition hd_dyn :: "nghttp2_hd_context \<Rightarrow> field list" where
  "hd_dyn ctx = map ent_field (ents ctx)"

text \<open>
  What holds also between a change of the maximum and the evictions that follow it: the
  accounting is exact, the sequence numbers count backwards from \<open>next_seq\<close>, and every
  entry has the token of its name.
\<close>

definition ctx_base :: "nghttp2_hd_context \<Rightarrow> bool" where
  "ctx_base ctx \<longleftrightarrow>
     rb_inv (hd_table ctx)
     \<and> hd_table_bufsize ctx = sum_list (map field_room (hd_dyn ctx))
     \<and> length (ents ctx) \<le> 2 ^ 27
     \<and> (\<forall>i<length (ents ctx). ent_seq (ents ctx ! i) = next_seq ctx - 1 - of_nat i)
     \<and> (\<forall>e\<in>set (ents ctx). hd_token (ent_nv e) = lookup_token (hd_name (ent_nv e)))"

definition ctx_inv :: "nghttp2_hd_context \<Rightarrow> bool" where
  "ctx_inv ctx \<longleftrightarrow>
     ctx_base ctx
     \<and> hd_table_bufsize ctx \<le> hd_table_bufsize_max ctx
     \<and> hd_table_bufsize_max ctx < 2 ^ 32"

text \<open>The buckets hold the entries of the table, newest first, filed by their hashes.\<close>

definition map_inv :: "nghttp2_hd_entry list \<Rightarrow> nghttp2_hd_map \<Rightarrow> bool" where
  "map_inv es hdmap \<longleftrightarrow>
     length hdmap = HD_MAP_SIZE
     \<and> (\<forall>b<HD_MAP_SIZE. hdmap ! b = filter (\<lambda>e. hd_bucket (ent_hash e) = b) es)"

definition opt_map_inv :: "nghttp2_hd_entry list \<Rightarrow> nghttp2_hd_map option \<Rightarrow> bool" where
  "opt_map_inv es hdmap \<longleftrightarrow> (case hdmap of None \<Rightarrow> True | Some m \<Rightarrow> map_inv es m)"

lemma length_hd_dyn [simp]: "length (hd_dyn ctx) = length (ents ctx)"
  by (simp add: hd_dyn_def)

lemma entry_room_field: "entry_room (length (hd_name (ent_nv e))) (length (hd_value (ent_nv e))) = field_room (ent_field e)"
  by (simp add: entry_room_def NGHTTP2_HD_ENTRY_OVERHEAD_def field_room_def ent_field_def)

lemma hd_bucket_less: "hd_bucket h < HD_MAP_SIZE"
proof -
  have "unat (h AND (127 :: 32 word)) \<le> 127" using word_and_le1 [of h 127] by (simp add: word_le_nat_alt)
  then show ?thesis by (simp add: hd_bucket_def HD_MAP_SIZE_def)
qed

text \<open>Every entry takes 32 bytes at least.\<close>

lemma dyn_count: "32 * length T \<le> sum_list (map field_room T)"
  by (induction T) (auto simp: field_room_def)

text \<open>The sequence numbers tell the entries of a table apart.\<close>

lemma ctx_distinct:
  assumes "ctx_base ctx"
  shows "distinct (ents ctx)"
proof (rule distinct_conv_nth [THEN iffD2], intro allI impI)
  fix i j assume ij: "i < length (ents ctx)" "j < length (ents ctx)" "i \<noteq> j"
  have "(of_nat i :: 32 word) \<noteq> of_nat j"
    using ij assms by (auto simp: ctx_base_def word_of_nat_eq_iff take_bit_nat_eq_self)
  moreover have "ent_seq (ents ctx ! k) = next_seq ctx - 1 - of_nat k" if "k < length (ents ctx)" for k
    using that assms by (simp add: ctx_base_def)
  ultimately show "ents ctx ! i \<noteq> ents ctx ! j" using ij by (metis diff_left_imp_eq)
qed

lemma remove1_filter_last:
  "distinct (xs @ [x]) \<Longrightarrow> P x \<Longrightarrow> remove1 x (filter P (xs @ [x])) = filter P xs"
  by (simp add: remove1_append)

lemma map_remove_last:
  assumes "map_inv (es @ [e]) m" and "distinct (es @ [e])"
  shows "map_inv es (hd_map_remove m e)"
  unfolding map_inv_def
proof (intro conjI allI impI)
  fix b assume b: "b < HD_MAP_SIZE"
  show "hd_map_remove m e ! b = filter (\<lambda>e. hd_bucket (ent_hash e) = b) es"
    using assms b hd_bucket_less [of "ent_hash e"]
      remove1_filter_last [of es e "\<lambda>x. hd_bucket (ent_hash x) = hd_bucket (ent_hash e)"]
    by (cases "b = hd_bucket (ent_hash e)") (auto simp: map_inv_def hd_map_remove_def Let_def)
qed (use assms in \<open>simp add: map_inv_def hd_map_remove_def Let_def\<close>)

lemma map_insert_front:
  assumes "map_inv es m"
  shows "map_inv (e # es) (hd_map_insert m e)"
  using assms hd_bucket_less [of "ent_hash e"]
  by (auto simp: map_inv_def hd_map_insert_def Let_def nth_list_update)

lemma map_init: "map_inv [] hd_map_init"
  by (simp add: map_inv_def hd_map_init_def)

section \<open>Evicting and adding\<close>

lemma hd_evict_stop:
  "hd_table_bufsize ctx + room \<le> hd_table_bufsize_max ctx \<or> rb_len (hd_table ctx) = 0
   \<Longrightarrow> hd_evict room ctx hdmap = Some (ctx, hdmap)"
  by (subst hd_evict.simps) auto

lemma butlast_snoc_conv: "xs \<noteq> [] \<Longrightarrow> \<exists>ys y. xs = ys @ [y]"
  by (metis append_butlast_last_id)

text \<open>One round of the loop drops the last entry.\<close>

lemma hd_evict_round:
  assumes "ctx_base ctx" and "opt_map_inv (ents ctx) hdmap" and "ents ctx = es @ [e]"
    and "hd_table_bufsize ctx + room > hd_table_bufsize_max ctx"
  obtains ctx' hdmap' where
    "hd_evict room ctx hdmap = hd_evict room ctx' hdmap'"
    "ctx_base ctx'" "opt_map_inv es hdmap'" "ents ctx' = es"
    "hd_table_bufsize_max ctx' = hd_table_bufsize_max ctx"
    "next_seq ctx' = next_seq ctx" "bad ctx' = bad ctx"
    "hdmap' = None \<longleftrightarrow> hdmap = None"
proof -
  have inv: "rb_inv (hd_table ctx)" using assms(1) by (simp add: ctx_base_def)
  have len: "rb_len (hd_table ctx) = Suc (length es)" using rb.len_law [OF inv] assms(3) by simp
  have get: "hd_ringbuf_get (hd_table ctx) (rb_len (hd_table ctx) - 1) = Some e"
    using rb.get_last [OF inv] assms(3) by simp
  obtain t where t: "hd_ringbuf_pop_back (hd_table ctx) = Some t" "rb_inv t" "rb_list t = es"
    using rb.drop_Some [OF inv] assms(3) by auto
  define c where "c = ctx\<lparr>hd_table_bufsize := hd_table_bufsize ctx - field_room (ent_field e), hd_table := t\<rparr>"
  define m where "m = map_option (\<lambda>m. hd_map_remove m e) hdmap"
  have "hd_evict room ctx hdmap = hd_evict room c m"
    using assms(4) len get t(1)
    by (subst hd_evict.simps) (simp add: c_def m_def entry_room_field)
  moreover have "ctx_base c"
    using assms(1,3) t by (auto simp: ctx_base_def c_def hd_dyn_def nth_append split: if_splits)
  moreover have "opt_map_inv es m"
    using assms(2,3) ctx_distinct [OF assms(1)] map_remove_last [of es e]
    by (auto simp: opt_map_inv_def m_def split: option.splits)
  ultimately show thesis using that [of c m] t(3) by (simp add: c_def m_def)
qed

text \<open>The loop leaves the longest prefix of the entries that fits beside the new one.\<close>

lemma hd_evict_keeps:
  assumes "ctx_base ctx" and "opt_map_inv (ents ctx) hdmap"
  shows "\<exists>ctx' hdmap'. hd_evict room ctx hdmap = Some (ctx', hdmap')
    \<and> ctx_base ctx' \<and> opt_map_inv (ents ctx') hdmap' \<and> (hdmap' = None \<longleftrightarrow> hdmap = None)
    \<and> hd_table_bufsize_max ctx' = hd_table_bufsize_max ctx
    \<and> next_seq ctx' = next_seq ctx \<and> bad ctx' = bad ctx \<and> set (ents ctx') \<subseteq> set (ents ctx)
    \<and> hd_dyn ctx' =
        (if room \<le> hd_table_bufsize_max ctx
         then dyn_evict (hd_table_bufsize_max ctx - room) (hd_dyn ctx) else [])"
  using assms
proof (induction "ents ctx" arbitrary: ctx hdmap rule: rev_induct)
  case Nil
  then have "rb_len (hd_table ctx) = 0" using rb.len_law [of "hd_table ctx"] by (simp add: ctx_base_def)
  then have "hd_evict room ctx hdmap = Some (ctx, hdmap)" by (intro hd_evict_stop) simp
  then show ?case using Nil by (auto simp: hd_dyn_def dyn_evict_def)
next
  case (snoc e es)
  have size: "hd_table_bufsize ctx = sum_list (map field_room (hd_dyn ctx))"
    using snoc.prems by (simp add: ctx_base_def)
  show ?case
  proof (cases "hd_table_bufsize ctx + room \<le> hd_table_bufsize_max ctx")
    case True
    then have "hd_evict room ctx hdmap = Some (ctx, hdmap)" by (intro hd_evict_stop) simp
    moreover have "dyn_evict (hd_table_bufsize_max ctx - room) (hd_dyn ctx) = hd_dyn ctx"
      unfolding dyn_evict_def by (rule keep_by_all) (use True size in simp)
    ultimately show ?thesis using snoc.prems True by auto
  next
    case False
    then obtain c m where c: "hd_evict room ctx hdmap = hd_evict room c m"
      "ctx_base c" "opt_map_inv es m" "ents c = es" "hd_table_bufsize_max c = hd_table_bufsize_max ctx"
      "next_seq c = next_seq ctx" "bad c = bad ctx" "m = None \<longleftrightarrow> hdmap = None"
      using hd_evict_round [OF snoc.prems snoc.hyps(2) [symmetric]] by (metis not_le)
    have dyn: "hd_dyn ctx = hd_dyn c @ [ent_field e]" using c(4) snoc.hyps(2) by (simp add: hd_dyn_def flip: snoc.hyps(2))
    have "dyn_evict (hd_table_bufsize_max ctx - room) (hd_dyn ctx)
        = dyn_evict (hd_table_bufsize_max ctx - room) (hd_dyn c)"
      if "room \<le> hd_table_bufsize_max ctx"
      unfolding dyn_evict_def dyn by (rule keep_by_snoc) (use False size dyn that in auto)
    moreover have "set (ents c) \<subseteq> set (ents ctx)" using c(4) by (auto simp flip: snoc.hyps(2))
    ultimately show ?thesis using snoc.hyps(1) [of c m] c by fastforce
  qed
qed

definition nv_field :: "nghttp2_hd_nv \<Rightarrow> field" where
  "nv_field nv = (hd_name nv, hd_value nv)"

lemma nv_room: "entry_room (length (hd_name nv)) (length (hd_value nv)) = field_room (nv_field nv)"
  by (simp add: entry_room_def NGHTTP2_HD_ENTRY_OVERHEAD_def field_room_def nv_field_def)

lemma room_pos: "32 \<le> field_room f"
  by (simp add: field_room_def)

text \<open>Putting a new entry in front of a table that has room for it.\<close>

lemma push_entry:
  assumes "ctx_base ctx" and "opt_map_inv (ents ctx) hdmap"
    and "hd_table_bufsize ctx + field_room (nv_field nv) \<le> hd_table_bufsize_max ctx"
    and "hd_table_bufsize_max ctx < 2 ^ 32"
    and "hd_token nv = lookup_token (hd_name nv)"
    and e: "e = \<lparr>ent_nv = nv, ent_seq = next_seq ctx, ent_hash = hash\<rparr>"
    and push: "hd_ringbuf_push_front slots e (hd_table ctx) = Some t"
    and ctx': "ctx' = ctx\<lparr>hd_table := t, next_seq := next_seq ctx + 1,
                      hd_table_bufsize := hd_table_bufsize ctx + field_room (nv_field nv)\<rparr>"
  shows "ctx_inv ctx' \<and> opt_map_inv (ents ctx') (map_option (\<lambda>m. hd_map_insert m e) hdmap)
    \<and> ents ctx' = e # ents ctx"
proof -
  have inv: "rb_inv (hd_table ctx)" using assms(1) by (simp add: ctx_base_def)
  have "32 * length (ents ctx) + 32 \<le> hd_table_bufsize_max ctx"
    using assms(1,3) dyn_count [of "hd_dyn ctx"] room_pos [of "nv_field nv"] by (simp add: ctx_base_def)
  with assms(4) have len: "Suc (length (ents ctx)) \<le> 2 ^ 27" by simp
  have "rb_room (hd_table ctx)" using len rb.len_law [OF inv] by (simp add: rb_room_def)
  from rb.front_law [OF inv this push] have t: "rb_inv t" "rb_list t = e # ents ctx" by auto
  have seq: "ent_seq ((e # ents ctx) ! i) = next_seq ctx - of_nat i" if "i < length (e # ents ctx)" for i
    using that assms(1) e by (cases i) (auto simp: ctx_base_def algebra_simps)
  have "ctx_base ctx'"
    using assms(1,5) e t len seq by (auto simp: ctx_base_def ctx' hd_dyn_def ent_field_def nv_field_def)
  then show ?thesis
    using assms(2,3,4) t map_insert_front
    by (auto simp: ctx_inv_def ctx' opt_map_inv_def split: option.splits)
qed

text \<open>
  Adding a field. The failures are those of the allocator; the tables stay well-formed in
  every case, and after success hold what the specification says.
\<close>

lemma add_hd_table_spec:
  assumes "ctx_inv ctx" and "opt_map_inv (ents ctx) hdmap"
    and "hd_token nv = lookup_token (hd_name nv)"
    and add: "add_hd_table_incremental mem ctx nv hdmap hash = (rv, ctx', hdmap')"
  shows "ctx_inv ctx' \<and> opt_map_inv (ents ctx') hdmap' \<and> (hdmap' = None \<longleftrightarrow> hdmap = None)
    \<and> hd_table_bufsize_max ctx' = hd_table_bufsize_max ctx \<and> bad ctx' = bad ctx
    \<and> (if rv = HD_OK then hd_dyn ctx' = dyn_add (hd_table_bufsize_max ctx) (nv_field nv) (hd_dyn ctx)
       else rv = NGHTTP2_ERR_NOMEM \<and> (\<not> mem_entry mem \<or> (\<exists>n. \<not> mem_slots mem n)))
    \<and> (\<forall>e\<in>set (ents ctx'). e \<in> set (ents ctx) \<or> ent_nv e = nv \<and> ent_hash e = hash)"
proof -
  let ?room = "field_room (nv_field nv)"
  have base: "ctx_base ctx" using assms(1) by (simp add: ctx_inv_def)
  obtain c m where ev: "hd_evict ?room ctx hdmap = Some (c, m)" and c: "ctx_base c" "opt_map_inv (ents c) m"
    "m = None \<longleftrightarrow> hdmap = None" "hd_table_bufsize_max c = hd_table_bufsize_max ctx" "bad c = bad ctx" "set (ents c) \<subseteq> set (ents ctx)"
    and dyn: "hd_dyn c = (if ?room \<le> hd_table_bufsize_max ctx
         then dyn_evict (hd_table_bufsize_max ctx - ?room) (hd_dyn ctx) else [])"
    using hd_evict_keeps [OF base assms(2), of ?room] by blast
  note add' = add [unfolded add_hd_table_incremental_def nv_room Let_def ev option.case prod.case]
  have fits: "hd_table_bufsize c + (if ?room \<le> hd_table_bufsize_max ctx then ?room else 0) \<le> hd_table_bufsize_max ctx"
    using c(1) dyn keep_by_fits [of field_room "hd_table_bufsize_max ctx - ?room" "hd_dyn ctx"]
    by (auto simp: ctx_base_def dyn_evict_def)
  with c(1,4) assms(1) have inv: "ctx_inv c" by (auto simp: ctx_inv_def split: if_splits)
  consider (big) "hd_table_bufsize_max ctx < ?room" | (no_entry) "?room \<le> hd_table_bufsize_max ctx" "\<not> mem_entry mem"
    | (ok) "?room \<le> hd_table_bufsize_max ctx" "mem_entry mem" by fastforce
  then show ?thesis
  proof cases
    case big
    with add' c inv dyn show ?thesis by (auto simp: dyn_add_def)
  next
    case no_entry
    with add' c inv dyn show ?thesis by auto
  next
    case ok
    define e where "e = \<lparr>ent_nv = nv, ent_seq = next_seq c, ent_hash = hash\<rparr>"
    show ?thesis
    proof (cases "hd_ringbuf_push_front (mem_slots mem) e (hd_table c)")
      case None
      with ok add' c inv push_fails [OF None] show ?thesis by (auto simp: e_def)
    next
      case (Some t)
      have r: "rv = HD_OK" "hdmap' = map_option (\<lambda>m. hd_map_insert m e) m"
        "ctx' = c\<lparr>hd_table := t, next_seq := next_seq c + 1, hd_table_bufsize := hd_table_bufsize c + ?room\<rparr>"
        using ok add' c(4) Some by (auto simp: e_def)
      have "hd_table_bufsize c + ?room \<le> hd_table_bufsize_max c" using fits ok c(4) by simp
      note p = push_entry [OF c(1,2) this _ assms(3) e_def Some r(3)]
      have "hd_table_bufsize_max c < 2 ^ 32" using inv by (simp add: ctx_inv_def)
      note p = p [OF this]
      then have "hd_dyn ctx' = nv_field nv # hd_dyn c" by (simp add: hd_dyn_def ent_field_def nv_field_def e_def)
      then show ?thesis using p r c ok dyn by (auto simp: dyn_add_def e_def)
    qed
  qed
qed

lemma shrink_spec:
  assumes "ctx_base ctx" and "opt_map_inv (ents ctx) hdmap" and "hd_table_bufsize_max ctx < 2 ^ 32"
  shows "\<exists>ctx' hdmap'. hd_context_shrink_table_size ctx hdmap = Some (ctx', hdmap')
    \<and> ctx_inv ctx' \<and> opt_map_inv (ents ctx') hdmap' \<and> (hdmap' = None \<longleftrightarrow> hdmap = None)
    \<and> hd_table_bufsize_max ctx' = hd_table_bufsize_max ctx \<and> bad ctx' = bad ctx
    \<and> set (ents ctx') \<subseteq> set (ents ctx)
    \<and> hd_dyn ctx' = dyn_evict (hd_table_bufsize_max ctx) (hd_dyn ctx)"
proof -
  obtain c m where c: "hd_evict 0 ctx hdmap = Some (c, m)" "ctx_base c" "opt_map_inv (ents c) m"
    "m = None \<longleftrightarrow> hdmap = None" "hd_table_bufsize_max c = hd_table_bufsize_max ctx" "bad c = bad ctx"
    "set (ents c) \<subseteq> set (ents ctx)" "hd_dyn c = dyn_evict (hd_table_bufsize_max ctx) (hd_dyn ctx)"
    using hd_evict_keeps [OF assms(1,2), of 0] by auto
  then have "hd_table_bufsize c \<le> hd_table_bufsize_max ctx"
    using keep_by_fits [of field_room "hd_table_bufsize_max ctx" "hd_dyn ctx"]
    by (simp add: ctx_base_def dyn_evict_def)
  with c assms(3) show ?thesis by (auto simp: hd_context_shrink_table_size_def ctx_inv_def)
qed

lemma context_init_spec:
  assumes "hd_context_init mem table_size = Some ctx" and "table_size < 2 ^ 32"
  shows "ctx_inv ctx" and "hd_dyn ctx = []" and "ents ctx = []" and "hd_table_bufsize_max ctx = table_size" and "\<not> bad ctx"
proof -
  obtain t where t: "hd_ringbuf_init (mem_slots mem) (table_size div NGHTTP2_HD_ENTRY_OVERHEAD) = Some t"
    and ctx: "ctx = \<lparr>hd_table = t, hd_table_bufsize = 0, hd_table_bufsize_max = table_size, next_seq = 0, bad = False\<rparr>"
    using assms(1) by (auto simp: hd_context_init_def)
  have "table_size div NGHTTP2_HD_ENTRY_OVERHEAD \<le> 2 ^ 62" using assms(2) by (simp add: NGHTTP2_HD_ENTRY_OVERHEAD_def)
  note rb = rb_init [OF t this]
  show "ctx_inv ctx" and "hd_dyn ctx = []" and "ents ctx = []" and "hd_table_bufsize_max ctx = table_size" and "\<not> bad ctx"
    using rb assms(2) by (auto simp: ctx ctx_inv_def ctx_base_def hd_dyn_def)
qed

section \<open>The address space\<close>

text \<open>The static table, followed by the dynamic table.\<close>

definition hpack_fields :: "nghttp2_hd_context \<Rightarrow> field list" where
  "hpack_fields ctx = map (\<lambda>e. (st_name e, st_value e)) static_table @ hd_dyn ctx"

lemma length_hpack_fields: "ctx_base ctx \<Longrightarrow> length (hpack_fields ctx) = get_max_index ctx"
  by (simp add: hpack_fields_def get_max_index_def ctx_base_def rb.len_law)

lemma table_get_spec:
  assumes "ctx_base ctx"
  shows "case nghttp2_hd_table_get ctx i of
           None \<Rightarrow> get_max_index ctx \<le> i
         | Some nv \<Rightarrow> i < get_max_index ctx \<and> nv_field nv = hpack_fields ctx ! i
             \<and> hd_token nv = lookup_token (hd_name nv)"
proof -
  have inv: "rb_inv (hd_table ctx)" using assms by (simp add: ctx_base_def)
  consider (out) "get_max_index ctx \<le> i" | (static) "i < NGHTTP2_STATIC_TABLE_LENGTH"
    | (dyn) j where "i = NGHTTP2_STATIC_TABLE_LENGTH + j" "j < length (ents ctx)"
    using rb.len_law [OF inv] by (force simp: get_max_index_def le_iff_add dest: leI)
  then show ?thesis
  proof cases
    case out
    then show ?thesis by (simp add: nghttp2_hd_table_get_def INDEX_RANGE_VALID_def get_max_index_def)
  next
    case static
    then show ?thesis
      by (simp add: nghttp2_hd_table_get_def INDEX_RANGE_VALID_def get_max_index_def Let_def nv_field_def
          hpack_fields_def nth_append static_token)
  next
    case dyn
    then show ?thesis
      using assms rb.len_law [OF inv] rb.get_law [OF inv, of j]
      by (simp add: nghttp2_hd_table_get_def INDEX_RANGE_VALID_def get_max_index_def nv_field_def
          hpack_fields_def nth_append hd_dyn_def ent_field_def ctx_base_def)
  qed
qed

lemma table_get_Some:
  assumes "ctx_base ctx" and "i < length (hpack_fields ctx)"
  obtains e where "nghttp2_hd_table_get ctx i = Some e" and "hd_name e = fst (hpack_fields ctx ! i)"
    and "hd_value e = snd (hpack_fields ctx ! i)" and "hd_token e = lookup_token (hd_name e)"
proof -
  obtain e where e: "nghttp2_hd_table_get ctx i = Some e" "nv_field e = hpack_fields ctx ! i" "hd_token e = lookup_token (hd_name e)"
    using table_get_spec [OF assms(1), of i] length_hpack_fields [OF assms(1)] assms(2) by (auto split: option.splits)
  with that show thesis by (metis nv_field_def fst_conv snd_conv)
qed

section \<open>Searching\<close>

text \<open>The hash under which \<open>deflate_nv\<close> files a name.\<close>

definition deflate_hash :: "byte list \<Rightarrow> 32 word" where
  "deflate_hash name =
     (let token = lookup_token name in
      if token = - 1 then name_hash name
      else if token \<le> NGHTTP2_TOKEN_WWW_AUTHENTICATE then st_hash (static_table ! nat token)
      else 0)"

definition hash_inv :: "nghttp2_hd_entry list \<Rightarrow> bool" where
  "hash_inv es \<longleftrightarrow> (\<forall>e\<in>set es. ent_hash e = deflate_hash (hd_name (ent_nv e)))"

definition ent_match :: "nghttp2_nv \<Rightarrow> int \<Rightarrow> 32 word \<Rightarrow> nghttp2_hd_entry \<Rightarrow> bool" where
  "ent_match nv token hash p \<longleftrightarrow>
     token = hd_token (ent_nv p) \<and> (token = - 1 \<longrightarrow> hash = ent_hash p \<and> name_eq (ent_nv p) nv)"

lemma find_in_sound:
  assumes "hd_map_find_in ps nv token hash name_only res = (r, exact)"
  shows "(exact \<longrightarrow> (\<exists>p\<in>set ps. r = Some p \<and> ent_match nv token hash p \<and> value_eq (ent_nv p) nv))
    \<and> (\<forall>p. r = Some p \<longrightarrow> res = Some p \<or> p \<in> set ps \<and> ent_match nv token hash p)
    \<and> (name_only \<longrightarrow> res = None \<longrightarrow> \<not> exact)"
  using assms
  by (induction ps arbitrary: res) (auto simp: ent_match_def split: if_splits)

lemma find_in_step:
  "hd_map_find_in (p # ps) nv token hash name_only res =
     (if \<not> ent_match nv token hash p then hd_map_find_in ps nv token hash name_only res
      else if res = None \<and> name_only then (Some p, False)
      else if value_eq (ent_nv p) nv then (Some p, True)
      else hd_map_find_in ps nv token hash name_only (if res = None then Some p else res))"
  by (auto simp: ent_match_def)

declare hd_map_find_in.simps(2) [simp del]

lemma find_in_complete:
  assumes "hd_map_find_in ps nv token hash name_only res = (r, exact)"
  shows "(r = None \<longrightarrow> res = None \<and> (\<forall>p\<in>set ps. \<not> ent_match nv token hash p))
    \<and> (\<not> name_only \<longrightarrow> \<not> exact \<longrightarrow> (\<forall>p\<in>set ps. ent_match nv token hash p \<longrightarrow> \<not> value_eq (ent_nv p) nv))"
  using assms
proof (induction ps arbitrary: res)
  case (Cons p ps)
  show ?case
  proof (cases "ent_match nv token hash p")
    case False
    with Cons.prems Cons.IH [of res] show ?thesis by (simp add: find_in_step)
  next
    case True
    with Cons.prems Cons.IH [of "if res = None then Some p else res"] show ?thesis
      by (auto simp: find_in_step split: if_splits)
  qed
qed simp

text \<open>Comparing the tokens, or the names where there is none, compares the names.\<close>

lemma ent_match_name:
  assumes "hd_token (ent_nv p) = lookup_token (hd_name (ent_nv p))"
    and "ent_hash p = deflate_hash (hd_name (ent_nv p))"
  shows "ent_match nv (lookup_token (nv_name nv)) (deflate_hash (nv_name nv)) p \<longleftrightarrow> hd_name (ent_nv p) = nv_name nv"
  using assms token_inj [of "hd_name (ent_nv p)" "nv_name nv"] by (auto simp: ent_match_def name_eq_def)

text \<open>What \<open>hd_map_find\<close> finds, in terms of all the entries of the table.\<close>

lemma map_find_spec:
  assumes "ctx_base ctx" and "map_inv (ents ctx) m" and "hash_inv (ents ctx)"
    and find: "hd_map_find m nv (lookup_token (nv_name nv)) (deflate_hash (nv_name nv)) name_only = (r, exact)"
  shows "(exact \<longrightarrow> (\<exists>p\<in>set (ents ctx). r = Some p \<and> ent_field p = (nv_name nv, nv_value nv)) \<and> \<not> name_only)
    \<and> (\<forall>p. r = Some p \<longrightarrow> p \<in> set (ents ctx) \<and> hd_name (ent_nv p) = nv_name nv)
    \<and> (r = None \<longrightarrow> (\<forall>p\<in>set (ents ctx). hd_name (ent_nv p) \<noteq> nv_name nv))
    \<and> (\<not> exact \<longrightarrow> \<not> name_only \<longrightarrow> (\<forall>p\<in>set (ents ctx). ent_field p \<noteq> (nv_name nv, nv_value nv)))"
proof -
  let ?h = "deflate_hash (nv_name nv)"
  have tok: "hd_token (ent_nv p) = lookup_token (hd_name (ent_nv p))" "ent_hash p = deflate_hash (hd_name (ent_nv p))"
    if "p \<in> set (ents ctx)" for p using that assms(1,3) by (auto simp: ctx_base_def hash_inv_def)
  have bucket: "m ! hd_bucket ?h = filter (\<lambda>e. hd_bucket (ent_hash e) = hd_bucket ?h) (ents ctx)"
    using assms(2) hd_bucket_less by (auto simp: map_inv_def)
  have in_bucket: "p \<in> set (m ! hd_bucket ?h)" if "p \<in> set (ents ctx)" "hd_name (ent_nv p) = nv_name nv" for p
    using that tok(2) [OF that(1)] by (simp add: bucket)
  have match: "ent_match nv (lookup_token (nv_name nv)) ?h p \<longleftrightarrow> hd_name (ent_nv p) = nv_name nv"
    if "p \<in> set (ents ctx)" for p using ent_match_name [OF tok [OF that]] .
  note f = find [unfolded hd_map_find_def]
  show ?thesis
    using find_in_sound [OF f] find_in_complete [OF f] in_bucket match
    by (auto simp: bucket value_eq_def ent_field_def)
qed

text \<open>In the static table the entries of a token stand side by side.\<close>

lemma token_runs_nth:
  "token_runs k t n es \<Longrightarrow> j < length es \<Longrightarrow>
   st_token (es ! j) = int (k + j) \<or> st_token (es ! j) = (if j = 0 then t else st_token (es ! (j - 1)))"
proof (induction es arbitrary: k t n j)
  case (Cons e es)
  show ?case
  proof (cases j)
    case 0
    then show ?thesis using Cons.prems(1) by auto
  next
    case (Suc i)
    then show ?thesis using Cons.IH [of "Suc k" "st_token e" "st_name e" i] Cons.prems by (cases i) auto
  qed
qed simp

lemma static_table_0: "st_token (static_table ! 0) = 0"
  by (simp add: static_table_def MAKE_STATIC_ENT_def)

lemma static_step:
  assumes "Suc i < NGHTTP2_STATIC_TABLE_LENGTH"
  shows "st_token (static_table ! Suc i) = int (Suc i) \<or> st_token (static_table ! Suc i) = st_token (static_table ! i)"
proof -
  have i: "i < length (tl static_table)" using assms by simp
  have tl: "tl static_table ! k = static_table ! Suc k" if "k \<le> i" for k
    by (rule nth_tl) (use that i in simp)
  note nth = token_runs_nth [OF token_runs_static i]
  show ?thesis
  proof (cases i)
    case 0
    show ?thesis using nth tl [of 0] static_table_0 unfolding 0 by auto
  next
    case (Suc k)
    show ?thesis using nth tl [of i] tl [of k] unfolding Suc by auto
  qed
qed

lemma static_run:
  assumes "i < NGHTTP2_STATIC_TABLE_LENGTH" and "st_token (static_table ! i) = t" and "nat t \<le> j" and "j \<le> i"
  shows "st_token (static_table ! j) = t"
  using assms(4,3,1,2)
proof (induction i rule: dec_induct)
  case (step i)
  then have "st_token (static_table ! Suc i) = int (Suc i) \<or> st_token (static_table ! Suc i) = st_token (static_table ! i)"
    by (intro static_step)
  moreover have "t \<noteq> int (Suc i)" using step.prems(1) step.hyps(1) by auto
  ultimately have "st_token (static_table ! i) = t" using step.prems(3) by metis
  moreover have "i < NGHTTP2_STATIC_TABLE_LENGTH" using step.prems(2) by simp
  ultimately show ?case using step.IH step.prems(1) by blast
qed

lemma search_static_from_spec:
  assumes "search_static_from v t i = r" and "0 \<le> t" and "nat t \<le> i"
  shows "if res_match r then nat t \<le> nat (res_index r) \<and> 0 \<le> res_index r \<and> nat (res_index r) < NGHTTP2_STATIC_TABLE_LENGTH
             \<and> st_token (static_table ! nat (res_index r)) = t \<and> st_value (static_table ! nat (res_index r)) = v
         else res_index r = t \<and>
           (\<forall>k\<ge>i. k < NGHTTP2_STATIC_TABLE_LENGTH \<longrightarrow> st_token (static_table ! k) = t \<longrightarrow> st_value (static_table ! k) \<noteq> v)"
  using assms
proof (induction v t i arbitrary: r rule: search_static_from.induct)
  case (1 v t i)
  show ?case
  proof (cases "int i \<le> NGHTTP2_TOKEN_WWW_AUTHENTICATE \<and> st_token (static_table ! i) = t")
    case False
    then have r: "r = \<lparr>res_index = t, res_match = False\<rparr>" using "1.prems"(1) by (subst (asm) search_static_from.simps) auto
    have "st_token (static_table ! k) \<noteq> t" if "k \<ge> i" "k < NGHTTP2_STATIC_TABLE_LENGTH" for k
      using that False static_run [of k t i] "1.prems"(3) by (auto simp: NGHTTP2_STATIC_TABLE_LENGTH_def)
    then show ?thesis using r by simp
  next
    case True
    show ?thesis
    proof (cases "st_value (static_table ! i) = v")
      case v: True
      then have "r = \<lparr>res_index = int i, res_match = True\<rparr>"
        using True "1.prems"(1) by (subst (asm) search_static_from.simps) auto
      then show ?thesis using True v "1.prems" by (simp add: NGHTTP2_STATIC_TABLE_LENGTH_def)
    next
      case v: False
      then have r: "search_static_from v t (i + 1) = r"
        using True "1.prems"(1) by (subst (asm) search_static_from.simps) auto
      have "k = i \<or> i + 1 \<le> k" if "i \<le> k" for k using that by auto
      with "1.IH" [OF True _ r] "1.prems" v show ?thesis by (auto split: if_splits)
    qed
  qed
qed

lemma uint_small: "j < 2 ^ 32 \<Longrightarrow> uint (of_nat j :: 32 word) = int j"
  by (simp add: unsigned_of_nat take_bit_nat_eq_self)

lemma seq_index:
  assumes "ctx_base ctx" and "j < length (ents ctx)"
  shows "uint (next_seq ctx - 1 - ent_seq (ents ctx ! j) + of_nat NGHTTP2_STATIC_TABLE_LENGTH)
    = int (NGHTTP2_STATIC_TABLE_LENGTH + j)"
proof -
  have "next_seq ctx - 1 - ent_seq (ents ctx ! j) + of_nat NGHTTP2_STATIC_TABLE_LENGTH
      = (of_nat (NGHTTP2_STATIC_TABLE_LENGTH + j) :: 32 word)"
    using assms by (simp add: ctx_base_def)
  moreover have "NGHTTP2_STATIC_TABLE_LENGTH + j < 2 ^ 32"
    using assms by (simp add: ctx_base_def NGHTTP2_STATIC_TABLE_LENGTH_def)
  ultimately show ?thesis by (simp only: uint_small)
qed

text \<open>A field is in the static part only if its name has a token of the static table.\<close>

lemma static_field_token:
  assumes "i < NGHTTP2_STATIC_TABLE_LENGTH" and "st_name (static_table ! i) = name"
  shows "lookup_token name = st_token (static_table ! i)"
    and "0 \<le> lookup_token name" and "lookup_token name \<le> NGHTTP2_TOKEN_WWW_AUTHENTICATE"
proof -
  show t: "lookup_token name = st_token (static_table ! i)" using assms static_token [of "static_table ! i"] by auto
  show "0 \<le> lookup_token name" "lookup_token name \<le> NGHTTP2_TOKEN_WWW_AUTHENTICATE"
    using static_first(1,2) [OF assms(1)] t assms(1) by (auto simp: NGHTTP2_STATIC_TABLE_LENGTH_def)
qed

lemma hpack_fields_nth:
  "i < NGHTTP2_STATIC_TABLE_LENGTH \<Longrightarrow> hpack_fields ctx ! i = (st_name (static_table ! i), st_value (static_table ! i))"
  "hpack_fields ctx ! (NGHTTP2_STATIC_TABLE_LENGTH + j) = hd_dyn ctx ! j"
  by (simp_all add: hpack_fields_def nth_append)

lemma set_hpack_fields:
  "f \<in> set (hpack_fields ctx) \<longleftrightarrow>
   (\<exists>i<NGHTTP2_STATIC_TABLE_LENGTH. f = (st_name (static_table ! i), st_value (static_table ! i)))
   \<or> (\<exists>p\<in>set (ents ctx). ent_field p = f)"
  by (auto simp: hpack_fields_def hd_dyn_def set_conv_nth [of static_table])

definition search_ok :: "field list \<Rightarrow> field \<Rightarrow> bool \<Rightarrow> search_result \<Rightarrow> bool" where
  "search_ok fs f name_only r \<longleftrightarrow>
     (if res_index r = - 1 then \<not> res_match r \<and> fst f \<notin> fst ` set fs
      else 0 \<le> res_index r \<and> nat (res_index r) < length fs
        \<and> fst (fs ! nat (res_index r)) = fst f
        \<and> (res_match r \<longrightarrow> fs ! nat (res_index r) = f))
     \<and> (res_match r \<longleftrightarrow> \<not> name_only \<and> f \<in> set fs)"

lemma search_static_ok:
  assumes "0 \<le> lookup_token (nv_name nv)" and "lookup_token (nv_name nv) \<le> NGHTTP2_TOKEN_WWW_AUTHENTICATE"
    and none: "\<not> name_only \<longrightarrow> (\<forall>p\<in>set (ents ctx). ent_field p \<noteq> (nv_name nv, nv_value nv))"
  shows "search_ok (hpack_fields ctx) (nv_name nv, nv_value nv) name_only
    (search_static_table nv (lookup_token (nv_name nv)) name_only)"
proof -
  let ?t = "lookup_token (nv_name nv)"
  note t = token_static [OF refl assms(1,2)]
  have len: "i < length (hpack_fields ctx)" if "i < NGHTTP2_STATIC_TABLE_LENGTH" for i
    using that by (simp add: hpack_fields_def)
  show ?thesis
  proof (cases name_only)
    case True
    then show ?thesis
      using assms(1) t len by (auto simp: search_ok_def search_static_table_def hpack_fields_nth)
  next
    case False
    define r where "r = search_static_from (nv_value nv) ?t (nat ?t)"
    note s = search_static_from_spec [OF r_def [symmetric] assms(1) order.refl]
    show ?thesis
    proof (cases "res_match r")
      case True
      let ?i = "nat (res_index r)"
      have i: "0 \<le> res_index r" "?i < NGHTTP2_STATIC_TABLE_LENGTH" "st_token (static_table ! ?i) = ?t"
        "st_value (static_table ! ?i) = nv_value nv" using s True by auto
      have "st_name (static_table ! ?i) = nv_name nv"
        using static_first(3) [OF i(2)] i(3) t(2) by simp
      then have f: "hpack_fields ctx ! ?i = (nv_name nv, nv_value nv)" using i by (simp add: hpack_fields_nth)
      then have "(nv_name nv, nv_value nv) \<in> set (hpack_fields ctx)" using len [OF i(2)] by (metis nth_mem)
      then show ?thesis using False True i(1) f len [OF i(2)]
        by (auto simp: search_ok_def search_static_table_def simp flip: r_def)
    next
      case nomatch: False
      have "(nv_name nv, nv_value nv) \<notin> set (hpack_fields ctx)"
      proof
        assume "(nv_name nv, nv_value nv) \<in> set (hpack_fields ctx)"
        then obtain i where i: "i < NGHTTP2_STATIC_TABLE_LENGTH" "st_name (static_table ! i) = nv_name nv"
          "st_value (static_table ! i) = nv_value nv"
          using none False by (auto simp: set_hpack_fields)
        have "st_token (static_table ! i) = ?t" using static_field_token(1) [OF i(1,2)] by simp
        moreover from this have "nat ?t \<le> i" using static_first(2) [OF i(1)] by simp
        ultimately show False using s nomatch i by auto
      qed
      moreover have "res_index r = ?t" using s nomatch by simp
      ultimately show ?thesis using False nomatch t len assms(1)
        by (auto simp: search_ok_def search_static_table_def hpack_fields_nth simp flip: r_def)
    qed
  qed
qed

lemma search_hd_table_ok:
  assumes "ctx_base ctx" and "map_inv (ents ctx) m" and "hash_inv (ents ctx)"
  shows "search_ok (hpack_fields ctx) (nv_name nv, nv_value nv) (mode = NGHTTP2_HD_NEVER_INDEXING)
    (search_hd_table ctx nv (lookup_token (nv_name nv)) mode m (deflate_hash (nv_name nv)))"
proof -
  let ?t = "lookup_token (nv_name nv)" and ?no = "mode = NGHTTP2_HD_NEVER_INDEXING" and ?f = "(nv_name nv, nv_value nv)"
  obtain r exact where find: "hd_map_find m nv ?t (deflate_hash (nv_name nv)) ?no = (r, exact)" by fastforce
  note s = map_find_spec [OF assms find]
  show ?thesis
  proof (cases "\<not> exact \<and> 0 \<le> ?t \<and> ?t \<le> NGHTTP2_TOKEN_WWW_AUTHENTICATE")
    case True
    then have "search_hd_table ctx nv ?t mode m (deflate_hash (nv_name nv)) = search_static_table nv ?t ?no"
      using find by (simp add: search_hd_table_def)
    moreover have "search_ok (hpack_fields ctx) ?f ?no (search_static_table nv ?t ?no)"
      by (rule search_static_ok) (use True s in auto)
    ultimately show ?thesis by simp
  next
    case False
    have not_static: "?f \<noteq> (st_name (static_table ! i), st_value (static_table ! i)) \<and> st_name (static_table ! i) \<noteq> nv_name nv"
      if "\<not> exact" "i < NGHTTP2_STATIC_TABLE_LENGTH" for i
      using static_field_token [OF that(2), of "nv_name nv"] False that(1) by auto
    show ?thesis
    proof (cases r)
      case None
      have "nv_name nv \<notin> fst ` set (hpack_fields ctx)"
      proof
        assume "nv_name nv \<in> fst ` set (hpack_fields ctx)"
        then show False
          using s None not_static by (auto simp: set_hpack_fields ent_field_def) metis+
      qed
      then show ?thesis
        using s None False find by (force simp: search_hd_table_def search_ok_def)
    next
      case (Some p)
      then obtain j where j: "j < length (ents ctx)" "ents ctx ! j = p" using s by (auto simp: in_set_conv_nth)
      have idx: "search_hd_table ctx nv ?t mode m (deflate_hash (nv_name nv))
          = \<lparr>res_index = int (NGHTTP2_STATIC_TABLE_LENGTH + j), res_match = exact\<rparr>"
        using False Some find seq_index [OF assms(1) j(1)] j(2) by (auto simp: search_hd_table_def)
      have at: "hpack_fields ctx ! (NGHTTP2_STATIC_TABLE_LENGTH + j) = ent_field p"
        using j by (simp add: hpack_fields_nth hd_dyn_def)
      have "?f \<in> set (hpack_fields ctx) \<longleftrightarrow> exact" if "\<not> ?no"
        using s that not_static by (auto simp: set_hpack_fields)
      then show ?thesis
        using idx at j s Some by (auto simp: search_ok_def hpack_fields_def ent_field_def nat_add_distrib)
    qed
  qed
qed

section \<open>Properties\<close>

text \<open>C13: adding a field to the dynamic table refines its definition in RFC 7541: entries are
  evicted from the old end until the new one fits, the new one comes first, and a field larger
  than the whole table leaves it empty. The accounted size, the sequence numbers, the ring
  buffer and the buckets of the hash map agree with the list afterwards, also when the
  allocator fails, which is the only failure there is: no assertion of the ring buffer fails
  and no slot is read that was not written.\<close>

theorem hd_table_add:
  assumes "ctx_inv ctx" and "opt_map_inv (ents ctx) hdmap"
    and "hd_token nv = lookup_token (hd_name nv)"
  shows "case add_hd_table_incremental mem ctx nv hdmap hash of
      (rv, ctx', hdmap') \<Rightarrow>
        ctx_inv ctx' \<and> opt_map_inv (ents ctx') hdmap'
        \<and> hd_table_bufsize_max ctx' = hd_table_bufsize_max ctx
        \<and> (if rv = HD_OK
           then hd_dyn ctx' = dyn_add (hd_table_bufsize_max ctx) (hd_name nv, hd_value nv) (hd_dyn ctx)
           else rv = NGHTTP2_ERR_NOMEM \<and> (\<not> mem_entry mem \<or> (\<exists>n. \<not> mem_slots mem n)))"
proof -
  obtain rv ctx' hdmap' where add: "add_hd_table_incremental mem ctx nv hdmap hash = (rv, ctx', hdmap')"
    by (metis prod_cases3)
  show ?thesis using add_hd_table_spec [OF assms add] add by (auto simp: nv_field_def split: if_splits)
qed

theorem hd_table_add_witness:
  "\<exists>ctx. hd_context_init \<lparr>mem_slots = \<lambda>_. True, mem_entry = True, mem_rcbuf = \<lambda>_. True\<rparr> 100 = Some ctx
     \<and> (case add_hd_table_incremental \<lparr>mem_slots = \<lambda>_. True, mem_entry = True, mem_rcbuf = \<lambda>_. True\<rparr> ctx
              \<lparr>hd_name = bytes ''te'', hd_value = bytes ''x'', hd_token = 61, hd_no_index = False\<rparr>
              (Some hd_map_init) 0 of
          (rv, ctx', hdmap') \<Rightarrow> rv = HD_OK \<and> hd_dyn ctx' = [(bytes ''te'', bytes ''x'')])"
proof -
  let ?mem = "\<lparr>mem_slots = \<lambda>_. True, mem_entry = True, mem_rcbuf = \<lambda>_. True\<rparr>"
  let ?nv = "\<lparr>hd_name = bytes ''te'', hd_value = bytes ''x'', hd_token = 61, hd_no_index = False\<rparr>"
  obtain ctx where ctx: "hd_context_init ?mem 100 = Some ctx"
    by (simp add: hd_context_init_def hd_ringbuf_init_def Let_def)
  note i = context_init_spec [OF ctx]
  have "hd_token ?nv = lookup_token (hd_name ?nv)"
    by (simp add: lookup_token_def lookup_token_defs)
  from hd_table_add [OF _ _ this, of ctx "Some hd_map_init" ?mem 0] i ctx
  show ?thesis
    by (auto simp: opt_map_inv_def map_init dyn_add_def dyn_evict_def field_room_def split: if_splits)
qed

text \<open>C27: the search of the deflater is exact: on a well-formed table \<open>search_hd_table\<close> reports a
  match of name and value if and only if the field is in the static or the dynamic table
  (and the value may be looked at), the index it reports then reads that field, otherwise it
  reads a field of that name, and \<open>-1\<close> means that no field has the name. This is through
  tokens, hashes, buckets and the difference of 32-bit sequence numbers.\<close>

theorem hd_search_exact:
  assumes "ctx_inv ctx" and "map_inv (ents ctx) m" and "hash_inv (ents ctx)"
    and "r = search_hd_table ctx nv (lookup_token (nv_name nv)) mode m (deflate_hash (nv_name nv))"
  shows "(res_match r \<longleftrightarrow> mode \<noteq> NGHTTP2_HD_NEVER_INDEXING \<and> (nv_name nv, nv_value nv) \<in> set (hpack_fields ctx))
    \<and> (if res_index r = - 1 then nv_name nv \<notin> fst ` set (hpack_fields ctx)
       else \<exists>hd. 0 \<le> res_index r \<and> nghttp2_hd_table_get ctx (nat (res_index r)) = Some hd
         \<and> hd_name hd = nv_name nv \<and> (res_match r \<longrightarrow> hd_value hd = nv_value nv))"
proof -
  have base: "ctx_base ctx" using assms(1) by (simp add: ctx_inv_def)
  have "search_ok (hpack_fields ctx) (nv_name nv, nv_value nv) (mode = NGHTTP2_HD_NEVER_INDEXING) r"
    unfolding assms(4) by (rule search_hd_table_ok [OF base assms(2,3)])
  then show ?thesis
    using table_get_spec [OF base, of "nat (res_index r)"] length_hpack_fields [OF base]
    by (auto simp: search_ok_def nv_field_def split: option.splits if_splits dest: arg_cong [of _ _ fst])
qed

theorem hd_search_exact_witness:
  "\<exists>ctx. hd_context_init \<lparr>mem_slots = \<lambda>_. True, mem_entry = True, mem_rcbuf = \<lambda>_. True\<rparr> 4096 = Some ctx
     \<and> res_match (search_hd_table ctx \<lparr>nv_name = bytes '':status'', nv_value = bytes ''404'', nv_no_index = False\<rparr>
         (lookup_token (bytes '':status'')) NGHTTP2_HD_WITH_INDEXING hd_map_init (deflate_hash (bytes '':status'')))"
proof -
  let ?nv = "\<lparr>nv_name = bytes '':status'', nv_value = bytes ''404'', nv_no_index = False\<rparr>"
  obtain ctx where ctx: "hd_context_init \<lparr>mem_slots = \<lambda>_. True, mem_entry = True, mem_rcbuf = \<lambda>_. True\<rparr> 4096 = Some ctx"
    by (simp add: hd_context_init_def hd_ringbuf_init_def Let_def)
  have "(bytes '':status'', bytes ''404'') = (st_name (static_table ! 12), st_value (static_table ! 12))"
    by (simp add: static_table_def MAKE_STATIC_ENT_def)
  then have "(bytes '':status'', bytes ''404'') \<in> set (hpack_fields ctx)"
    unfolding set_hpack_fields by (intro disjI1 exI [of _ 12]) (simp add: NGHTTP2_STATIC_TABLE_LENGTH_def)
  moreover have "ctx_inv ctx" "map_inv (ents ctx) hd_map_init" "hash_inv (ents ctx)"
    using context_init_spec [OF ctx] map_init by (auto simp: hash_inv_def)
  ultimately show ?thesis
    using hd_search_exact [OF _ _ _ refl, of ctx hd_map_init ?nv NGHTTP2_HD_WITH_INDEXING] ctx
    by auto
qed

end
