(* ===== verification/Hpack_Repr.thy ===== *)
theory Hpack_Repr
  imports Hpack_Int Hpack_Table
begin

text \<open>
  What HPACK (RFC 7541) says about header field representations, apart from any
  implementation: which field a representation stands for in a table, what it does to the
  table, and its bytes. The deflater is proved to emit representations of its fields, the
  inflater to act on the bytes of a representation as it is defined here.
\<close>

section \<open>Representations\<close>

text \<open>Indices count from 0: the one of the wire is larger by one.\<close>

datatype hpack_repr =
    Indexed nat
  | IndName nghttp2_hd_indexing_mode nat "byte list"
  | NewName nghttp2_hd_indexing_mode "byte list" "byte list"

fun repr_field :: "field list \<Rightarrow> hpack_repr \<Rightarrow> field option" where
  "repr_field fs (Indexed i) = (if i < length fs then Some (fs ! i) else None)"
| "repr_field fs (IndName mode i v) = (if i < length fs then Some (fst (fs ! i), v) else None)"
| "repr_field fs (NewName mode n v) = Some (n, v)"

fun repr_mode :: "hpack_repr \<Rightarrow> nghttp2_hd_indexing_mode option" where
  "repr_mode (Indexed i) = None"
| "repr_mode (IndName mode i v) = Some mode"
| "repr_mode (NewName mode n v) = Some mode"

definition repr_table :: "nat \<Rightarrow> hpack_repr \<Rightarrow> field \<Rightarrow> field list \<Rightarrow> field list" where
  "repr_table limit r f T =
     (if repr_mode r = Some NGHTTP2_HD_WITH_INDEXING then dyn_add limit f T else T)"

text \<open>\<open>huff\<close> is the Huffman code; a string is coded when that makes it shorter.\<close>

definition string_bytes :: "(byte list \<Rightarrow> byte list) \<Rightarrow> byte list \<Rightarrow> byte list" where
  "string_bytes huff s =
     (if length (huff s) < length s
      then encode_length 0x80 (length (huff s)) 7 @ huff s
      else encode_length 0 (length s) 7 @ s)"

fun mode_byte :: "nghttp2_hd_indexing_mode \<Rightarrow> byte" where
  "mode_byte NGHTTP2_HD_WITH_INDEXING = 0x40"
| "mode_byte NGHTTP2_HD_WITHOUT_INDEXING = 0"
| "mode_byte NGHTTP2_HD_NEVER_INDEXING = 0x10"

fun mode_prefix :: "nghttp2_hd_indexing_mode \<Rightarrow> nat" where
  "mode_prefix NGHTTP2_HD_WITH_INDEXING = 6"
| "mode_prefix NGHTTP2_HD_WITHOUT_INDEXING = 4"
| "mode_prefix NGHTTP2_HD_NEVER_INDEXING = 4"

fun repr_bytes :: "(byte list \<Rightarrow> byte list) \<Rightarrow> hpack_repr \<Rightarrow> byte list" where
  "repr_bytes huff (Indexed i) = encode_length 0x80 (i + 1) 7"
| "repr_bytes huff (IndName mode i v) = encode_length (mode_byte mode) (i + 1) (mode_prefix mode) @ string_bytes huff v"
| "repr_bytes huff (NewName mode n v) = mode_byte mode # string_bytes huff n @ string_bytes huff v"

text \<open>
  A header block: representations of the fields of a list, one after another, in the tables
  that the ones before leave.
\<close>

fun block_of :: "nat \<Rightarrow> field list \<Rightarrow> hpack_repr list \<Rightarrow> field list \<Rightarrow> bool" where
  "block_of limit T [] fs \<longleftrightarrow> fs = []"
| "block_of limit T (r # rs) fs \<longleftrightarrow>
     (case fs of
        [] \<Rightarrow> False
      | f # fs \<Rightarrow>
          repr_field (map (\<lambda>e. (st_name e, st_value e)) static_table @ T) r = Some f
          \<and> block_of limit (repr_table limit r f T) rs fs)"

fun block_table :: "nat \<Rightarrow> field list \<Rightarrow> hpack_repr list \<Rightarrow> field list \<Rightarrow> field list" where
  "block_table limit T [] fs = T"
| "block_table limit T (r # rs) fs = block_table limit (repr_table limit r (hd fs) T) rs (tl fs)"

section \<open>Lengths\<close>

lemma count_encoded_length_le5:
  assumes "n < 2 ^ 28"
  shows "count_encoded_length n prefix \<le> 5"
proof -
  have "count_rest (n - k) \<le> 4" for k
    by (rule count_rest_le) (use assms in simp_all)
  note this [of "2 ^ prefix - 1"]
  moreover have "count_encoded_length n prefix = 1 \<or> count_encoded_length n prefix = 1 + count_rest (n - (2 ^ prefix - 1))"
    by (simp only: count_encoded_length_def Let_def split: if_split) blast
  ultimately show ?thesis by linarith
qed

lemma string_bytes_length:
  assumes "length s < 2 ^ 28"
  shows "length (string_bytes huff s) \<le> 5 + length s"
proof -
  have "count_encoded_length n 7 \<le> 5" if "n \<le> length s" for n
    by (rule count_encoded_length_le5) (use that assms in simp)
  from this [of "length s"] this [of "length (huff s)"] show ?thesis by (auto simp: string_bytes_def)
qed

lemma repr_bytes_length:
  assumes "repr_field fs r = Some f" and "length fs < 2 ^ 32 - 1"
    and "length (fst f) < 2 ^ 28" and "length (snd f) < 2 ^ 28"
  shows "length (repr_bytes huff r) \<le> 12 + length (fst f) + length (snd f)"
proof (cases r)
  case (Indexed i)
  then have "count_encoded_length (i + 1) 7 \<le> 6"
    using assms by (intro count_encoded_length_le) (auto split: if_splits)
  then show ?thesis using Indexed by simp
next
  case (IndName mode i v)
  then have "count_encoded_length (i + 1) (mode_prefix mode) \<le> 6" and v: "snd f = v"
    using assms by (auto intro!: count_encoded_length_le split: if_splits)
  then show ?thesis using IndName string_bytes_length [of v huff] assms(4) by simp
next
  case (NewName mode n v)
  then show ?thesis
    using assms string_bytes_length [of v huff] string_bytes_length [of n huff]
    by auto
qed

text \<open>
  With longer strings a literal takes more than the twelve bytes beside its strings that
  \<open>nghttp2_hd_deflate_bound\<close> allows: the byte in front, and twice six for the lengths.
\<close>

lemma newname_exceeds_bound:
  assumes "length n = 2 ^ 28 + 127" and "length v = 2 ^ 28 + 127"
  shows "length (repr_bytes id (NewName mode n v)) = 13 + length n + length v"
proof -
  have "count_encoded_length (2 ^ 28 + 127) 7 = 6"
    by (simp add: count_encoded_length_def count_rest.simps)
  then show ?thesis using assms by (simp add: string_bytes_def)
qed

end
