(* ===== verification/Hpack_Inflate.thy ===== *)
theory Hpack_Inflate
  imports Hpack_Repr
begin

text \<open>
  The decompressor of HPACK: the state machine \<open>nghttp2_hd_inflate_hd_nv\<close> of
  \<open>nghttp2_hd.c\<close>, one definition per state, its loop, the functions that read integers and
  strings, the commit of a field, and the change of the table size.

  The Huffman decoder is not part of the sources and is a parameter. Writes beyond the
  memory of a string, reads beyond the input and indices out of the table are the result
  \<open>HD_ASSERT\<close>.
\<close>

section \<open>State\<close>

text \<open>
  \<open>nghttp2_hd_huff_decode_context_init\<close>; \<open>nghttp2_hd_huff_decode\<close> on a context, the
  input and \<open>fin\<close>, with the new context, the bytes it writes and the number of bytes it
  reads, or an error; \<open>nghttp2_hd_huff_decode_failure_state\<close>.
\<close>

record 'h huff_lib =
  huff_init :: 'h
  huff_decode :: "'h \<Rightarrow> byte list \<Rightarrow> bool \<Rightarrow> hd_rv + 'h \<times> byte list \<times> nat"
  huff_failure :: "'h \<Rightarrow> bool"

datatype nghttp2_hd_opcode =
    NGHTTP2_HD_OPCODE_NONE | NGHTTP2_HD_OPCODE_INDEXED | NGHTTP2_HD_OPCODE_NEWNAME
  | NGHTTP2_HD_OPCODE_INDNAME

datatype nghttp2_hd_inflate_state =
    NGHTTP2_HD_STATE_EXPECT_TABLE_SIZE | NGHTTP2_HD_STATE_INFLATE_START | NGHTTP2_HD_STATE_OPCODE
  | NGHTTP2_HD_STATE_READ_TABLE_SIZE | NGHTTP2_HD_STATE_READ_INDEX
  | NGHTTP2_HD_STATE_NEWNAME_CHECK_NAMELEN | NGHTTP2_HD_STATE_NEWNAME_READ_NAMELEN
  | NGHTTP2_HD_STATE_NEWNAME_READ_NAMEHUFF | NGHTTP2_HD_STATE_NEWNAME_READ_NAME
  | NGHTTP2_HD_STATE_CHECK_VALUELEN | NGHTTP2_HD_STATE_READ_VALUELEN
  | NGHTTP2_HD_STATE_READ_VALUEHUFF | NGHTTP2_HD_STATE_READ_VALUE

text \<open>A buffer that wraps a piece of memory: the bytes written to it and its size.\<close>

record hd_buf =
  hb_bytes :: "byte list"
  hb_size :: nat

text \<open>
  \<open>namercbuf\<close> and \<open>valuercbuf\<close> are the finished strings, \<open>None\<close> for \<open>NULL\<close> and
  while the string is being read into \<open>namebuf\<close> or \<open>valuebuf\<close>.
\<close>

record 'h nghttp2_hd_inflater =
  inf_ctx :: nghttp2_hd_context
  huff_decode_ctx :: 'h
  namebuf :: hd_buf
  valuebuf :: hd_buf
  namercbuf :: "byte list option"
  valuercbuf :: "byte list option"
  inf_left :: nat
  inf_index :: nat
  settings_hd_table_bufsize_max :: nat
  inf_min_hd_table_bufsize_max :: nat
  inf_shift :: nat
  inf_opcode :: nghttp2_hd_opcode
  inf_state :: nghttp2_hd_inflate_state
  huffman_encoded :: bool
  index_required :: bool
  no_index :: bool

definition HD_UINT32_MAX :: nat where
  "HD_UINT32_MAX = 2 ^ 32 - 1"

definition NGHTTP2_HD_MAX_NV :: nat where
  "NGHTTP2_HD_MAX_NV = 65536"

text \<open>\<open>table_size\<close> is \<open>NGHTTP2_HD_DEFAULT_MAX_BUFFER_SIZE\<close>.\<close>

definition nghttp2_hd_inflate_init :: "'h huff_lib \<Rightarrow> nghttp2_mem \<Rightarrow> nat \<Rightarrow> 'h nghttp2_hd_inflater option" where
  "nghttp2_hd_inflate_init L mem table_size =
     map_option
       (\<lambda>ctx. \<lparr>inf_ctx = ctx, huff_decode_ctx = huff_init L,
               namebuf = \<lparr>hb_bytes = [], hb_size = 0\<rparr>, valuebuf = \<lparr>hb_bytes = [], hb_size = 0\<rparr>,
               namercbuf = None, valuercbuf = None, inf_left = 0, inf_index = 0,
               settings_hd_table_bufsize_max = table_size,
               inf_min_hd_table_bufsize_max = HD_UINT32_MAX, inf_shift = 0,
               inf_opcode = NGHTTP2_HD_OPCODE_NONE, inf_state = NGHTTP2_HD_STATE_INFLATE_START,
               huffman_encoded = False, index_required = False, no_index = False\<rparr>)
       (hd_context_init mem table_size)"

definition nghttp2_hd_inflate_change_table_size ::
  "'h nghttp2_hd_inflater \<Rightarrow> nat \<Rightarrow> hd_rv \<times> 'h nghttp2_hd_inflater"
where
  "nghttp2_hd_inflate_change_table_size i settings_max_dynamic_table_size =
     (if inf_state i \<noteq> NGHTTP2_HD_STATE_EXPECT_TABLE_SIZE \<and> inf_state i \<noteq> NGHTTP2_HD_STATE_INFLATE_START
      then (NGHTTP2_ERR_INVALID_STATE, i)
      else
        (let i = i\<lparr>settings_hd_table_bufsize_max := settings_max_dynamic_table_size\<rparr> in
         if hd_table_bufsize_max (inf_ctx i) > settings_max_dynamic_table_size then
           (let i = i\<lparr>inf_state := NGHTTP2_HD_STATE_EXPECT_TABLE_SIZE,
                      inf_min_hd_table_bufsize_max := settings_max_dynamic_table_size,
                      inf_ctx := (inf_ctx i)\<lparr>hd_table_bufsize_max := settings_max_dynamic_table_size\<rparr>\<rparr>
            in
            case hd_context_shrink_table_size (inf_ctx i) None of
              None \<Rightarrow> (HD_ASSERT, i)
            | Some (ctx, _) \<Rightarrow> (HD_OK, i\<lparr>inf_ctx := ctx\<rparr>))
         else (HD_OK, i)))"

section \<open>Reading integers and strings\<close>

definition hd_inflate_set_huffman_encoded :: "byte \<Rightarrow> 'h nghttp2_hd_inflater \<Rightarrow> 'h nghttp2_hd_inflater" where
  "hd_inflate_set_huffman_encoded b i = i\<lparr>huffman_encoded := (b AND 0x80 \<noteq> 0)\<rparr>"

text \<open>The return code, \<open>*rfin\<close>, the number of bytes read and the inflater.\<close>

definition hd_inflate_read_len ::
  "'h nghttp2_hd_inflater \<Rightarrow> byte list \<Rightarrow> nat \<Rightarrow> nat \<Rightarrow> hd_rv \<times> bool \<times> nat \<times> 'h nghttp2_hd_inflater"
where
  "hd_inflate_read_len i inp prefix maxlen =
     (case decode_length (of_nat (inf_left i)) (inf_shift i) inp prefix of
        DL_fault \<Rightarrow> (HD_ASSERT, False, 0, i)
      | DL_error \<Rightarrow> (NGHTTP2_ERR_HEADER_COMP, False, 0, i\<lparr>inf_shift := 0\<rparr>)
      | DL_ok out shift fin n \<Rightarrow>
          if unat out > maxlen then (NGHTTP2_ERR_HEADER_COMP, fin, n, i\<lparr>inf_shift := shift\<rparr>)
          else (HD_OK, fin, n, i\<lparr>inf_shift := shift, inf_left := unat out\<rparr>))"

text \<open>The return code, the number of bytes read, the buffer and the inflater.\<close>

definition hd_inflate_read_huff ::
  "'h huff_lib \<Rightarrow> 'h nghttp2_hd_inflater \<Rightarrow> hd_buf \<Rightarrow> byte list \<Rightarrow> hd_rv \<times> nat \<times> hd_buf \<times> 'h nghttp2_hd_inflater"
where
  "hd_inflate_read_huff L i buf inp =
     (let fin = (length inp \<ge> inf_left i);
          inp = (if fin then take (inf_left i) inp else inp)
      in
      case huff_decode L (huff_decode_ctx i) inp fin of
        Inl rv \<Rightarrow> (rv, 0, buf, i)
      | Inr (h, out, readlen) \<Rightarrow>
          let i = i\<lparr>huff_decode_ctx := h\<rparr>;
              buf' = buf\<lparr>hb_bytes := hb_bytes buf @ out\<rparr>
          in
          if hb_size buf < length (hb_bytes buf') then (HD_ASSERT, 0, buf, i)
          else if huff_failure L h then (NGHTTP2_ERR_HEADER_COMP, 0, buf', i)
          else (HD_OK, readlen, buf', i\<lparr>inf_left := inf_left i - readlen\<rparr>))"

definition hd_inflate_read ::
  "'h nghttp2_hd_inflater \<Rightarrow> hd_buf \<Rightarrow> byte list \<Rightarrow> hd_rv \<times> nat \<times> hd_buf \<times> 'h nghttp2_hd_inflater"
where
  "hd_inflate_read i buf inp =
     (let len = min (length inp) (inf_left i);
          buf' = buf\<lparr>hb_bytes := hb_bytes buf @ take len inp\<rparr>
      in
      if hb_size buf < length (hb_bytes buf') then (HD_ASSERT, 0, buf, i)
      else (HD_OK, len, buf', i\<lparr>inf_left := inf_left i - len\<rparr>))"

text \<open>\<open>*buf.last = '\0'\<close> and the length of the string: the finished string.\<close>

definition hd_buf_finish :: "hd_buf \<Rightarrow> byte list option" where
  "hd_buf_finish buf = (if length (hb_bytes buf) < hb_size buf then Some (hb_bytes buf) else None)"

section \<open>Commits\<close>

definition emit_header :: "nghttp2_hd_nv \<Rightarrow> nghttp2_hd_nv" where
  "emit_header nv = nv"

definition hd_inflate_commit_indexed :: "'h nghttp2_hd_inflater \<Rightarrow> nghttp2_hd_nv option" where
  "hd_inflate_commit_indexed i = map_option emit_header (nghttp2_hd_table_get (inf_ctx i) (inf_index i))"

definition hd_inflate_commit_newname ::
  "nghttp2_mem \<Rightarrow> 'h nghttp2_hd_inflater \<Rightarrow> (hd_rv + nghttp2_hd_nv) \<times> 'h nghttp2_hd_inflater"
where
  "hd_inflate_commit_newname mem i =
     (case (namercbuf i, valuercbuf i) of
        (Some name, Some val) \<Rightarrow>
          let nv = \<lparr>hd_name = name, hd_value = val, hd_token = lookup_token name, hd_no_index = no_index i\<rparr> in
          (case if index_required i then add_hd_table_incremental mem (inf_ctx i) nv None 0
                else (HD_OK, inf_ctx i, None) of
             (rv, ctx, _) \<Rightarrow>
               let i = i\<lparr>inf_ctx := ctx\<rparr> in
               if rv \<noteq> HD_OK then (Inl rv, i)
               else (Inr (emit_header nv), i\<lparr>namercbuf := None, valuercbuf := None\<rparr>))
      | _ \<Rightarrow> (Inl HD_ASSERT, i))"

definition hd_inflate_commit_indname ::
  "nghttp2_mem \<Rightarrow> 'h nghttp2_hd_inflater \<Rightarrow> (hd_rv + nghttp2_hd_nv) \<times> 'h nghttp2_hd_inflater"
where
  "hd_inflate_commit_indname mem i =
     (case (nghttp2_hd_table_get (inf_ctx i) (inf_index i), valuercbuf i) of
        (Some nv, Some val) \<Rightarrow>
          let nv = nv\<lparr>hd_no_index := no_index i, hd_value := val\<rparr> in
          (case if index_required i then add_hd_table_incremental mem (inf_ctx i) nv None 0
                else (HD_OK, inf_ctx i, None) of
             (rv, ctx, _) \<Rightarrow>
               let i = i\<lparr>inf_ctx := ctx\<rparr> in
               if rv \<noteq> HD_OK then (Inl NGHTTP2_ERR_NOMEM, i)
               else (Inr (emit_header nv), i\<lparr>valuercbuf := None\<rparr>))
      | _ \<Rightarrow> (Inl HD_ASSERT, i))"

section \<open>The states\<close>

text \<open>
  One execution of the body of the loop: \<open>break\<close> with the rest of the input and \<open>busy\<close>,
  \<open>goto almost_ok\<close>, the return of a header field, \<open>goto fail\<close>.
\<close>

datatype 'h inf_res =
    Inf_break "'h nghttp2_hd_inflater" "byte list" bool
  | Inf_almost_ok "'h nghttp2_hd_inflater" "byte list"
  | Inf_emit nghttp2_hd_nv "'h nghttp2_hd_inflater" "byte list"
  | Inf_fail hd_rv "'h nghttp2_hd_inflater"

definition inf_first_byte :: "'h nghttp2_hd_inflater \<Rightarrow> byte list \<Rightarrow> 'h inf_res" where
  "inf_first_byte i inp =
     (case inp of
        [] \<Rightarrow> Inf_fail HD_ASSERT i
      | b # bs \<Rightarrow>
          if inf_state i = NGHTTP2_HD_STATE_EXPECT_TABLE_SIZE \<and> b AND 0xe0 \<noteq> 0x20
          then Inf_fail NGHTTP2_ERR_HEADER_COMP i
          else if b AND 0xe0 = 0x20 then
            if inf_state i = NGHTTP2_HD_STATE_OPCODE then Inf_fail NGHTTP2_ERR_HEADER_COMP i
            else Inf_break (i\<lparr>inf_opcode := NGHTTP2_HD_OPCODE_INDEXED,
                              inf_state := NGHTTP2_HD_STATE_READ_TABLE_SIZE,
                              inf_left := 0, inf_shift := 0\<rparr>) inp False
          else if b AND 0x80 \<noteq> 0 then
            Inf_break (i\<lparr>inf_opcode := NGHTTP2_HD_OPCODE_INDEXED,
                         inf_state := NGHTTP2_HD_STATE_READ_INDEX,
                         inf_left := 0, inf_shift := 0\<rparr>) inp False
          else
            (let i = i\<lparr>index_required := (b AND 0x40 \<noteq> 0), no_index := (b AND 0xf0 = 0x10),
                       inf_left := 0, inf_shift := 0\<rparr>
             in
             if b = 0x40 \<or> b = 0 \<or> b = 0x10 then
               Inf_break (i\<lparr>inf_opcode := NGHTTP2_HD_OPCODE_NEWNAME,
                            inf_state := NGHTTP2_HD_STATE_NEWNAME_CHECK_NAMELEN\<rparr>) bs False
             else
               Inf_break (i\<lparr>inf_opcode := NGHTTP2_HD_OPCODE_INDNAME,
                            inf_state := NGHTTP2_HD_STATE_READ_INDEX\<rparr>) inp False))"

definition inf_read_table_size :: "'h nghttp2_hd_inflater \<Rightarrow> byte list \<Rightarrow> 'h inf_res" where
  "inf_read_table_size i inp =
     (case hd_inflate_read_len i inp 5
             (min (inf_min_hd_table_bufsize_max i) (settings_hd_table_bufsize_max i)) of
        (rv, rfin, n, i) \<Rightarrow>
          if rv \<noteq> HD_OK then Inf_fail rv i
          else if \<not> rfin then Inf_almost_ok i (drop n inp)
          else
            (let i = i\<lparr>inf_min_hd_table_bufsize_max := HD_UINT32_MAX,
                       inf_ctx := (inf_ctx i)\<lparr>hd_table_bufsize_max := inf_left i\<rparr>\<rparr>
             in
             case hd_context_shrink_table_size (inf_ctx i) None of
               None \<Rightarrow> Inf_fail HD_ASSERT i
             | Some (ctx, _) \<Rightarrow>
                 Inf_break (i\<lparr>inf_ctx := ctx, inf_state := NGHTTP2_HD_STATE_INFLATE_START\<rparr>)
                   (drop n inp) False))"

definition inf_read_index :: "'h nghttp2_hd_inflater \<Rightarrow> byte list \<Rightarrow> 'h inf_res" where
  "inf_read_index i inp =
     (let prefixlen = (if inf_opcode i = NGHTTP2_HD_OPCODE_INDEXED then 7
                       else if index_required i then 6 else 4)
      in
      case hd_inflate_read_len i inp prefixlen (get_max_index (inf_ctx i)) of
        (rv, rfin, n, i) \<Rightarrow>
          if rv \<noteq> HD_OK then Inf_fail rv i
          else if \<not> rfin then Inf_almost_ok i (drop n inp)
          else if inf_left i = 0 then Inf_fail NGHTTP2_ERR_HEADER_COMP i
          else
            (let i = i\<lparr>inf_index := inf_left i - 1\<rparr> in
             if inf_opcode i = NGHTTP2_HD_OPCODE_INDEXED then
               (case hd_inflate_commit_indexed i of
                  None \<Rightarrow> Inf_fail HD_ASSERT i
                | Some nv \<Rightarrow> Inf_emit nv (i\<lparr>inf_state := NGHTTP2_HD_STATE_OPCODE\<rparr>) (drop n inp))
             else Inf_break (i\<lparr>inf_state := NGHTTP2_HD_STATE_CHECK_VALUELEN\<rparr>) (drop n inp) False))"

text \<open>\<open>nghttp2_rcbuf_new\<close> and \<open>nghttp2_buf_wrap_init\<close>; the size depends on the coding.\<close>

definition hd_new_buf :: "nghttp2_mem \<Rightarrow> 'h nghttp2_hd_inflater \<Rightarrow> hd_buf option" where
  "hd_new_buf mem i =
     (let sz = (if huffman_encoded i then inf_left i * 2 + 1 else inf_left i + 1) in
      if mem_rcbuf mem sz then Some \<lparr>hb_bytes = [], hb_size = sz\<rparr> else None)"

definition inf_read_namelen ::
  "'h huff_lib \<Rightarrow> nghttp2_mem \<Rightarrow> 'h nghttp2_hd_inflater \<Rightarrow> byte list \<Rightarrow> 'h inf_res"
where
  "inf_read_namelen L mem i inp =
     (case hd_inflate_read_len i inp 7 NGHTTP2_HD_MAX_NV of
        (rv, rfin, n, i) \<Rightarrow>
          if rv \<noteq> HD_OK then Inf_fail rv i
          else if \<not> rfin then Inf_almost_ok i (drop n inp)
          else
            (let i = (if huffman_encoded i
                      then i\<lparr>huff_decode_ctx := huff_init L, inf_state := NGHTTP2_HD_STATE_NEWNAME_READ_NAMEHUFF\<rparr>
                      else i\<lparr>inf_state := NGHTTP2_HD_STATE_NEWNAME_READ_NAME\<rparr>)
             in
             case hd_new_buf mem i of
               None \<Rightarrow> Inf_fail NGHTTP2_ERR_NOMEM i
             | Some buf \<Rightarrow> Inf_break (i\<lparr>namebuf := buf\<rparr>) (drop n inp) False))"

definition inf_check_namelen ::
  "'h huff_lib \<Rightarrow> nghttp2_mem \<Rightarrow> 'h nghttp2_hd_inflater \<Rightarrow> byte list \<Rightarrow> 'h inf_res"
where
  "inf_check_namelen L mem i inp =
     (case inp of
        [] \<Rightarrow> Inf_fail HD_ASSERT i
      | b # bs \<Rightarrow>
          inf_read_namelen L mem
            ((hd_inflate_set_huffman_encoded b i)
               \<lparr>inf_state := NGHTTP2_HD_STATE_NEWNAME_READ_NAMELEN, inf_left := 0, inf_shift := 0\<rparr>) inp)"

text \<open>Behind a piece of the name.\<close>

definition inf_name_read :: "hd_rv \<times> nat \<times> hd_buf \<times> 'h nghttp2_hd_inflater \<Rightarrow> byte list \<Rightarrow> 'h inf_res" where
  "inf_name_read r inp =
     (case r of
        (rv, n, buf, i) \<Rightarrow>
          let i = i\<lparr>namebuf := buf\<rparr> in
          if rv \<noteq> HD_OK then Inf_fail rv i
          else if inf_left i \<noteq> 0 then Inf_almost_ok i (drop n inp)
          else
            (case hd_buf_finish buf of
               None \<Rightarrow> Inf_fail HD_ASSERT i
             | Some name \<Rightarrow>
                 Inf_break (i\<lparr>namercbuf := Some name, inf_state := NGHTTP2_HD_STATE_CHECK_VALUELEN\<rparr>)
                   (drop n inp) False))"

definition inf_read_namehuff :: "'h huff_lib \<Rightarrow> 'h nghttp2_hd_inflater \<Rightarrow> byte list \<Rightarrow> 'h inf_res" where
  "inf_read_namehuff L i inp = inf_name_read (hd_inflate_read_huff L i (namebuf i) inp) inp"

definition inf_read_name :: "'h nghttp2_hd_inflater \<Rightarrow> byte list \<Rightarrow> 'h inf_res" where
  "inf_read_name i inp = inf_name_read (hd_inflate_read i (namebuf i) inp) inp"

definition inf_read_valuelen ::
  "'h huff_lib \<Rightarrow> nghttp2_mem \<Rightarrow> 'h nghttp2_hd_inflater \<Rightarrow> byte list \<Rightarrow> 'h inf_res"
where
  "inf_read_valuelen L mem i inp =
     (case hd_inflate_read_len i inp 7 NGHTTP2_HD_MAX_NV of
        (rv, rfin, n, i) \<Rightarrow>
          if rv \<noteq> HD_OK then Inf_fail rv i
          else if \<not> rfin then Inf_almost_ok i (drop n inp)
          else
            (let i = (if huffman_encoded i
                      then i\<lparr>huff_decode_ctx := huff_init L, inf_state := NGHTTP2_HD_STATE_READ_VALUEHUFF\<rparr>
                      else i\<lparr>inf_state := NGHTTP2_HD_STATE_READ_VALUE\<rparr>)
             in
             case hd_new_buf mem i of
               None \<Rightarrow> Inf_fail NGHTTP2_ERR_NOMEM i
             | Some buf \<Rightarrow> Inf_break (i\<lparr>valuebuf := buf\<rparr>) (drop n inp) True))"

definition inf_check_valuelen ::
  "'h huff_lib \<Rightarrow> nghttp2_mem \<Rightarrow> 'h nghttp2_hd_inflater \<Rightarrow> byte list \<Rightarrow> 'h inf_res"
where
  "inf_check_valuelen L mem i inp =
     (case inp of
        [] \<Rightarrow> Inf_fail HD_ASSERT i
      | b # bs \<Rightarrow>
          inf_read_valuelen L mem
            ((hd_inflate_set_huffman_encoded b i)
               \<lparr>inf_state := NGHTTP2_HD_STATE_READ_VALUELEN, inf_left := 0, inf_shift := 0\<rparr>) inp)"

text \<open>Behind a piece of the value.\<close>

definition inf_value_read ::
  "nghttp2_mem \<Rightarrow> hd_rv \<times> nat \<times> hd_buf \<times> 'h nghttp2_hd_inflater \<Rightarrow> byte list \<Rightarrow> 'h inf_res"
where
  "inf_value_read mem r inp =
     (case r of
        (rv, n, buf, i) \<Rightarrow>
          let i = i\<lparr>valuebuf := buf\<rparr> in
          if rv \<noteq> HD_OK then Inf_fail rv i
          else if inf_left i \<noteq> 0 then Inf_almost_ok i (drop n inp)
          else
            (case hd_buf_finish buf of
               None \<Rightarrow> Inf_fail HD_ASSERT i
             | Some val \<Rightarrow>
                 let i = i\<lparr>valuercbuf := Some val\<rparr> in
                 (case if inf_opcode i = NGHTTP2_HD_OPCODE_NEWNAME
                       then hd_inflate_commit_newname mem i else hd_inflate_commit_indname mem i of
                    (Inl rv, i) \<Rightarrow> Inf_fail rv i
                  | (Inr nv, i) \<Rightarrow> Inf_emit nv (i\<lparr>inf_state := NGHTTP2_HD_STATE_OPCODE\<rparr>) (drop n inp))))"

definition inf_read_valuehuff ::
  "'h huff_lib \<Rightarrow> nghttp2_mem \<Rightarrow> 'h nghttp2_hd_inflater \<Rightarrow> byte list \<Rightarrow> 'h inf_res"
where
  "inf_read_valuehuff L mem i inp = inf_value_read mem (hd_inflate_read_huff L i (valuebuf i) inp) inp"

definition inf_read_value :: "nghttp2_mem \<Rightarrow> 'h nghttp2_hd_inflater \<Rightarrow> byte list \<Rightarrow> 'h inf_res" where
  "inf_read_value mem i inp = inf_value_read mem (hd_inflate_read i (valuebuf i) inp) inp"

section \<open>The machine\<close>

definition inf_step ::
  "'h huff_lib \<Rightarrow> nghttp2_mem \<Rightarrow> 'h nghttp2_hd_inflater \<Rightarrow> byte list \<Rightarrow> 'h inf_res"
where
  "inf_step L mem i inp =
     (case inf_state i of
        NGHTTP2_HD_STATE_EXPECT_TABLE_SIZE \<Rightarrow> inf_first_byte i inp
      | NGHTTP2_HD_STATE_INFLATE_START \<Rightarrow> inf_first_byte i inp
      | NGHTTP2_HD_STATE_OPCODE \<Rightarrow> inf_first_byte i inp
      | NGHTTP2_HD_STATE_READ_TABLE_SIZE \<Rightarrow> inf_read_table_size i inp
      | NGHTTP2_HD_STATE_READ_INDEX \<Rightarrow> inf_read_index i inp
      | NGHTTP2_HD_STATE_NEWNAME_CHECK_NAMELEN \<Rightarrow> inf_check_namelen L mem i inp
      | NGHTTP2_HD_STATE_NEWNAME_READ_NAMELEN \<Rightarrow> inf_read_namelen L mem i inp
      | NGHTTP2_HD_STATE_NEWNAME_READ_NAMEHUFF \<Rightarrow> inf_read_namehuff L i inp
      | NGHTTP2_HD_STATE_NEWNAME_READ_NAME \<Rightarrow> inf_read_name i inp
      | NGHTTP2_HD_STATE_CHECK_VALUELEN \<Rightarrow> inf_check_valuelen L mem i inp
      | NGHTTP2_HD_STATE_READ_VALUELEN \<Rightarrow> inf_read_valuelen L mem i inp
      | NGHTTP2_HD_STATE_READ_VALUEHUFF \<Rightarrow> inf_read_valuehuff L mem i inp
      | NGHTTP2_HD_STATE_READ_VALUE \<Rightarrow> inf_read_value mem i inp)"

text \<open>
  The loop ends: a round reads input, or goes to a state in which the next one does.
\<close>

fun state_rank :: "nghttp2_hd_inflate_state \<Rightarrow> nat" where
  "state_rank NGHTTP2_HD_STATE_EXPECT_TABLE_SIZE = 1"
| "state_rank NGHTTP2_HD_STATE_INFLATE_START = 1"
| "state_rank NGHTTP2_HD_STATE_OPCODE = 1"
| "state_rank NGHTTP2_HD_STATE_NEWNAME_READ_NAMEHUFF = 1"
| "state_rank NGHTTP2_HD_STATE_NEWNAME_READ_NAME = 1"
| "state_rank _ = 0"

definition inf_measure :: "'h nghttp2_hd_inflater \<Rightarrow> byte list \<Rightarrow> nat" where
  "inf_measure i inp = 2 * length inp + state_rank (inf_state i)"

lemma dl_loop_consumes:
  "dl_loop n shift inp c = DL_ok r s fin m \<Longrightarrow> c \<le> m \<and> m \<le> c + length inp \<and> (fin \<longrightarrow> c < m)"
proof (induction inp arbitrary: n shift c)
  case (Cons b inp)
  then show ?case
    by (fastforce simp: Let_def split: if_splits)
qed simp

lemma decode_length_consumes:
  assumes "decode_length initial shift inp prefix = DL_ok r s fin m"
  shows "m \<le> length inp" and "fin \<Longrightarrow> 0 < m"
proof -
  have "m \<le> length inp \<and> (fin \<longrightarrow> 0 < m)"
    using assms dl_loop_consumes [of _ shift _ _ r s fin m]
    by (force simp: decode_length_def Let_def split: if_splits list.splits)
  then show "m \<le> length inp" and "fin \<Longrightarrow> 0 < m" by auto
qed

lemma read_len_consumes:
  assumes "hd_inflate_read_len i inp prefix maxlen = (HD_OK, fin, n, i')"
  shows "n \<le> length inp" and "fin \<Longrightarrow> 0 < n" and "inf_state i' = inf_state i"
  using assms decode_length_consumes [of "of_nat (inf_left i)" "inf_shift i" inp prefix]
  by (auto simp: hd_inflate_read_len_def split: dl_result.splits if_splits)

lemma rank_le: "state_rank s \<le> 1"
  by (cases s) auto

lemma drop_measure:
  assumes "0 < n" and "n \<le> length inp"
  shows "inf_measure i' (drop n inp) < inf_measure i inp"
  using assms rank_le [of "inf_state i'"] by (simp add: inf_measure_def)

lemma inf_step_progress:
  assumes "inf_step L mem i inp = Inf_break i' inp' busy"
  shows "inf_measure i' inp' < inf_measure i inp"
proof -
  have len: "inf_measure j (drop n inp) < inf_measure i inp"
    if "hd_inflate_read_len k inp prefix maxlen = (HD_OK, True, n, k')" for j k prefix maxlen n k'
    using read_len_consumes [OF that] by (intro drop_measure) auto
  have namelen: "inf_measure i' inp' < inf_measure i inp" if "inf_read_namelen L mem k inp = Inf_break i' inp' busy" for k
    using that len by (auto simp: inf_read_namelen_def Let_def split: prod.splits if_splits option.splits)
  have valuelen: "inf_measure i' inp' < inf_measure i inp" if "inf_read_valuelen L mem k inp = Inf_break i' inp' busy" for k
    using that len by (auto simp: inf_read_valuelen_def Let_def split: prod.splits if_splits option.splits)
  have name: "inf_measure i' inp' < inf_measure i inp"
    if "inf_name_read r inp = Inf_break i' inp' busy" "state_rank (inf_state i) = 1" for r
    using that by (auto simp: inf_name_read_def Let_def inf_measure_def split: prod.splits if_splits option.splits)
  have first: "inf_measure i' inp' < inf_measure i inp"
    if "inf_first_byte i inp = Inf_break i' inp' busy" "state_rank (inf_state i) = 1"
    using that by (auto simp: inf_first_byte_def Let_def inf_measure_def split: list.splits if_splits)
  show ?thesis
  proof (cases "inf_state i")
    case NGHTTP2_HD_STATE_EXPECT_TABLE_SIZE
    then show ?thesis using assms first by (simp add: inf_step_def)
  next
    case NGHTTP2_HD_STATE_INFLATE_START
    then show ?thesis using assms first by (simp add: inf_step_def)
  next
    case NGHTTP2_HD_STATE_OPCODE
    then show ?thesis using assms first by (simp add: inf_step_def)
  next
    case NGHTTP2_HD_STATE_READ_TABLE_SIZE
    then show ?thesis
      using assms len by (auto simp: inf_step_def inf_read_table_size_def Let_def split: prod.splits if_splits option.splits)
  next
    case NGHTTP2_HD_STATE_READ_INDEX
    then show ?thesis
      using assms len by (auto simp: inf_step_def inf_read_index_def Let_def split: prod.splits if_splits option.splits)
  next
    case NGHTTP2_HD_STATE_NEWNAME_CHECK_NAMELEN
    then show ?thesis using assms namelen by (auto simp: inf_step_def inf_check_namelen_def split: list.splits)
  next
    case NGHTTP2_HD_STATE_NEWNAME_READ_NAMELEN
    then show ?thesis using assms namelen by (simp add: inf_step_def)
  next
    case NGHTTP2_HD_STATE_NEWNAME_READ_NAMEHUFF
    then show ?thesis using assms name by (simp add: inf_step_def inf_read_namehuff_def)
  next
    case NGHTTP2_HD_STATE_NEWNAME_READ_NAME
    then show ?thesis using assms name by (simp add: inf_step_def inf_read_name_def)
  next
    case NGHTTP2_HD_STATE_CHECK_VALUELEN
    then show ?thesis using assms valuelen by (auto simp: inf_step_def inf_check_valuelen_def split: list.splits)
  next
    case NGHTTP2_HD_STATE_READ_VALUELEN
    then show ?thesis using assms valuelen by (simp add: inf_step_def)
  next
    case NGHTTP2_HD_STATE_READ_VALUEHUFF
    then show ?thesis using assms
      by (auto simp: inf_step_def inf_read_valuehuff_def inf_value_read_def Let_def split: prod.splits if_splits option.splits sum.splits)
  next
    case NGHTTP2_HD_STATE_READ_VALUE
    then show ?thesis using assms
      by (auto simp: inf_step_def inf_read_value_def inf_value_read_def Let_def split: prod.splits if_splits option.splits sum.splits)
  qed
qed

text \<open>\<open>for (; in != last || busy;)\<close>\<close>

function inf_loop ::
  "'h huff_lib \<Rightarrow> nghttp2_mem \<Rightarrow> 'h nghttp2_hd_inflater \<Rightarrow> byte list \<Rightarrow> bool \<Rightarrow> 'h inf_res"
where
  "inf_loop L mem i inp busy =
     (if inp \<noteq> [] \<or> busy then
        (case inf_step L mem i inp of
           Inf_break i' inp' busy' \<Rightarrow> inf_loop L mem i' inp' busy'
         | Inf_almost_ok i' inp' \<Rightarrow> Inf_almost_ok i' inp'
         | Inf_emit nv i' inp' \<Rightarrow> Inf_emit nv i' inp'
         | Inf_fail rv i' \<Rightarrow> Inf_fail rv i')
      else Inf_break i inp False)"
  by pat_completeness auto
termination
  by (relation "measure (\<lambda>(L, mem, i, inp, busy). inf_measure i inp)") (auto simp: inf_step_progress)

declare inf_loop.simps [simp del]

text \<open>
  A negative return code; or the number of bytes read, the field if one is emitted
  (\<open>NGHTTP2_HD_INFLATE_EMIT\<close>) and whether \<open>NGHTTP2_HD_INFLATE_FINAL\<close> is set.
\<close>

datatype inflate_rv = Inflate_error hd_rv | Inflate_ok nat "nghttp2_hd_nv option" bool

definition inf_fail :: "hd_rv \<Rightarrow> 'h nghttp2_hd_inflater \<Rightarrow> inflate_rv \<times> 'h nghttp2_hd_inflater" where
  "inf_fail rv i = (Inflate_error rv, i\<lparr>inf_ctx := (inf_ctx i)\<lparr>bad := True\<rparr>\<rparr>)"

definition nghttp2_hd_inflate_hd_nv ::
  "'h huff_lib \<Rightarrow> nghttp2_mem \<Rightarrow> 'h nghttp2_hd_inflater \<Rightarrow> byte list \<Rightarrow> bool
   \<Rightarrow> inflate_rv \<times> 'h nghttp2_hd_inflater"
where
  "nghttp2_hd_inflate_hd_nv L mem i inp in_final =
     (if bad (inf_ctx i) then (Inflate_error NGHTTP2_ERR_HEADER_COMP, i)
      else
        (case inf_loop L mem i inp False of
           Inf_break i rest busy \<Rightarrow>
             if in_final then
               if inf_state i \<noteq> NGHTTP2_HD_STATE_OPCODE \<and> inf_state i \<noteq> NGHTTP2_HD_STATE_INFLATE_START
               then inf_fail NGHTTP2_ERR_HEADER_COMP i
               else (Inflate_ok (length inp - length rest) None True, i)
             else (Inflate_ok (length inp - length rest) None False, i)
         | Inf_almost_ok i rest \<Rightarrow>
             if in_final then inf_fail NGHTTP2_ERR_HEADER_COMP i
             else (Inflate_ok (length inp - length rest) None False, i)
         | Inf_emit nv i rest \<Rightarrow> (Inflate_ok (length inp - length rest) (Some nv) False, i)
         | Inf_fail rv i \<Rightarrow> inf_fail rv i))"

text \<open>The public functions give the field as a \<open>nghttp2_nv\<close>.\<close>

datatype inflate_rv2 = Inflate2_error hd_rv | Inflate2_ok nat "nghttp2_nv option" bool

definition nghttp2_hd_inflate_hd2 ::
  "'h huff_lib \<Rightarrow> nghttp2_mem \<Rightarrow> 'h nghttp2_hd_inflater \<Rightarrow> byte list \<Rightarrow> bool
   \<Rightarrow> inflate_rv2 \<times> 'h nghttp2_hd_inflater"
where
  "nghttp2_hd_inflate_hd2 L mem i inp in_final =
     (case nghttp2_hd_inflate_hd_nv L mem i inp in_final of
        (Inflate_error rv, i) \<Rightarrow> (Inflate2_error rv, i)
      | (Inflate_ok n hd_nv final, i) \<Rightarrow>
          (Inflate2_ok n
             (map_option (\<lambda>h. \<lparr>nv_name = hd_name h, nv_value = hd_value h, nv_no_index = hd_no_index h\<rparr>) hd_nv)
             final, i))"

definition nghttp2_hd_inflate_hd ::
  "'h huff_lib \<Rightarrow> nghttp2_mem \<Rightarrow> 'h nghttp2_hd_inflater \<Rightarrow> byte list \<Rightarrow> bool
   \<Rightarrow> inflate_rv2 \<times> 'h nghttp2_hd_inflater"
where
  "nghttp2_hd_inflate_hd = nghttp2_hd_inflate_hd2"

definition nghttp2_hd_inflate_end_headers :: "'h nghttp2_hd_inflater \<Rightarrow> 'h nghttp2_hd_inflater" where
  "nghttp2_hd_inflate_end_headers i = i\<lparr>inf_state := NGHTTP2_HD_STATE_INFLATE_START\<rparr>"

section \<open>Safety\<close>

text \<open>
  What \<open>nghttp2_hd.h\<close> says of the Huffman decoder: it fails with two codes, and reads no
  more than it is given. A byte of input completes at most two symbols, since codes have
  five bits at least; the size of the memory for the result is computed from that.
\<close>

definition huff_contract :: "'h huff_lib \<Rightarrow> bool" where
  "huff_contract L \<longleftrightarrow>
     (\<forall>h xs fin. case huff_decode L h xs fin of
        Inl rv \<Rightarrow> rv = NGHTTP2_ERR_NOMEM \<or> rv = NGHTTP2_ERR_HEADER_COMP
      | Inr (h', out, n) \<Rightarrow> n \<le> length xs \<and> length out \<le> 2 * n)"

text \<open>The name of the field whose value is being read is known.\<close>

definition inf_named :: "'h nghttp2_hd_inflater \<Rightarrow> bool" where
  "inf_named i \<longleftrightarrow>
     (if inf_opcode i = NGHTTP2_HD_OPCODE_NEWNAME then namercbuf i \<noteq> None
      else inf_index i < get_max_index (inf_ctx i))"

text \<open>In each state, the memory of the string being read has room for what is to come.\<close>

definition inf_bufs :: "'h nghttp2_hd_inflater \<Rightarrow> bool" where
  "inf_bufs i \<longleftrightarrow>
     (case inf_state i of
        NGHTTP2_HD_STATE_READ_INDEX \<Rightarrow> inf_opcode i \<noteq> NGHTTP2_HD_OPCODE_NEWNAME
      | NGHTTP2_HD_STATE_NEWNAME_CHECK_NAMELEN \<Rightarrow> inf_opcode i = NGHTTP2_HD_OPCODE_NEWNAME
      | NGHTTP2_HD_STATE_NEWNAME_READ_NAMELEN \<Rightarrow> inf_opcode i = NGHTTP2_HD_OPCODE_NEWNAME
      | NGHTTP2_HD_STATE_NEWNAME_READ_NAMEHUFF \<Rightarrow>
          inf_opcode i = NGHTTP2_HD_OPCODE_NEWNAME
          \<and> length (hb_bytes (namebuf i)) + 2 * inf_left i < hb_size (namebuf i)
      | NGHTTP2_HD_STATE_NEWNAME_READ_NAME \<Rightarrow>
          inf_opcode i = NGHTTP2_HD_OPCODE_NEWNAME
          \<and> length (hb_bytes (namebuf i)) + inf_left i < hb_size (namebuf i)
      | NGHTTP2_HD_STATE_CHECK_VALUELEN \<Rightarrow> inf_named i
      | NGHTTP2_HD_STATE_READ_VALUELEN \<Rightarrow> inf_named i
      | NGHTTP2_HD_STATE_READ_VALUEHUFF \<Rightarrow>
          inf_named i \<and> length (hb_bytes (valuebuf i)) + 2 * inf_left i < hb_size (valuebuf i)
      | NGHTTP2_HD_STATE_READ_VALUE \<Rightarrow>
          inf_named i \<and> length (hb_bytes (valuebuf i)) + inf_left i < hb_size (valuebuf i)
      | _ \<Rightarrow> True)"

text \<open>The table is well-formed and no larger than the last setting allows.\<close>

definition inf_base :: "'h nghttp2_hd_inflater \<Rightarrow> bool" where
  "inf_base i \<longleftrightarrow>
     ctx_inv (inf_ctx i)
     \<and> hd_table_bufsize_max (inf_ctx i) \<le> settings_hd_table_bufsize_max i
     \<and> settings_hd_table_bufsize_max i < 2 ^ 32
     \<and> inf_min_hd_table_bufsize_max i < 2 ^ 32"

definition value_state :: "nghttp2_hd_inflate_state \<Rightarrow> bool" where
  "value_state s \<longleftrightarrow> s = NGHTTP2_HD_STATE_READ_VALUE \<or> s = NGHTTP2_HD_STATE_READ_VALUEHUFF"

text \<open>A result of a round that is as it should be.\<close>

fun inf_res_ok :: "'h inf_res \<Rightarrow> bool" where
  "inf_res_ok (Inf_break i inp busy) \<longleftrightarrow>
     inf_base i \<and> inf_bufs i \<and> \<not> bad (inf_ctx i) \<and> (busy \<longrightarrow> value_state (inf_state i))"
| "inf_res_ok (Inf_almost_ok i inp) \<longleftrightarrow> inf_base i \<and> inf_bufs i \<and> \<not> bad (inf_ctx i)"
| "inf_res_ok (Inf_emit nv i inp) \<longleftrightarrow>
     inf_base i \<and> inf_bufs i \<and> \<not> bad (inf_ctx i) \<and> hd_token nv = lookup_token (hd_name nv)"
| "inf_res_ok (Inf_fail rv i) \<longleftrightarrow> inf_base i \<and> rv \<noteq> HD_ASSERT \<and> rv \<noteq> HD_OK"

lemma decode_length_no_fault: "inp \<noteq> [] \<Longrightarrow> decode_length initial shift inp prefix \<noteq> DL_fault"
proof -
  have loop: "dl_loop n s xs c \<noteq> DL_fault" for n s xs c
    by (induction xs arbitrary: n s c) (auto simp: Let_def)
  assume "inp \<noteq> []"
  then show ?thesis using loop by (cases inp) (auto simp: decode_length_def Let_def)
qed

text \<open>Reading an integer changes nothing but \<open>left\<close> and \<open>shift\<close>.\<close>

lemma read_len_cases:
  assumes "inp \<noteq> []" and "hd_inflate_read_len i inp prefix maxlen = (rv, fin, n, i')"
  shows "(\<exists>s l. i' = i\<lparr>inf_shift := s, inf_left := l\<rparr> \<and> (rv = HD_OK \<longrightarrow> l \<le> maxlen))
    \<and> (rv = HD_OK \<or> rv = NGHTTP2_ERR_HEADER_COMP)"
proof -
  have same: "i\<lparr>inf_shift := s\<rparr> = i\<lparr>inf_shift := s, inf_left := inf_left i\<rparr>" for s by (cases i) simp
  show ?thesis
    using assms decode_length_no_fault [OF assms(1), of "of_nat (inf_left i)" "inf_shift i" prefix]
    by (auto simp: hd_inflate_read_len_def not_less split: dl_result.splits if_splits intro: same)
qed

lemma first_byte_ok:
  assumes "inf_base i" and "\<not> bad (inf_ctx i)" and "inp \<noteq> []"
  shows "inf_res_ok (inf_first_byte i inp)"
  using assms by (auto simp: inf_first_byte_def inf_base_def inf_bufs_def Let_def split: list.splits)

lemma read_table_size_ok:
  assumes "inf_base i" and "inf_bufs i" and "\<not> bad (inf_ctx i)" and "inp \<noteq> []" and st: "inf_state i = NGHTTP2_HD_STATE_READ_TABLE_SIZE"
  shows "inf_res_ok (inf_read_table_size i inp)"
proof -
  let ?lim = "min (inf_min_hd_table_bufsize_max i) (settings_hd_table_bufsize_max i)"
  obtain rv fin n i1 where r: "hd_inflate_read_len i inp 5 ?lim = (rv, fin, n, i1)" by (metis prod_cases4)
  obtain s l where i1: "i1 = i\<lparr>inf_shift := s, inf_left := l\<rparr>" and l: "rv = HD_OK \<longrightarrow> l \<le> ?lim"
    and rv: "rv = HD_OK \<or> rv = NGHTTP2_ERR_HEADER_COMP"
    using read_len_cases [OF assms(4) r] by blast
  show ?thesis
  proof (cases "rv = HD_OK \<and> fin")
    case False
    then show ?thesis
      using assms r i1 rv by (auto simp: inf_read_table_size_def inf_base_def inf_bufs_def)
  next
    case True
    let ?c = "(inf_ctx i)\<lparr>hd_table_bufsize_max := l\<rparr>"
    have "ctx_base ?c" "hd_table_bufsize_max ?c < 2 ^ 32" "opt_map_inv (ents ?c) None"
      using assms(1) l True by (auto simp: inf_base_def ctx_inv_def ctx_base_def hd_dyn_def opt_map_inv_def)
    from shrink_spec [OF this(1,3,2)] obtain c m where
      "hd_context_shrink_table_size ?c None = Some (c, m)" "ctx_inv c" "hd_table_bufsize_max c = l" "bad c = bad (inf_ctx i)"
      by auto
    then show ?thesis
      using True r i1 l assms(1,3)
      by (auto simp: inf_read_table_size_def Let_def inf_base_def inf_bufs_def HD_UINT32_MAX_def)
  qed
qed

lemma table_get_ok:
  assumes "ctx_inv ctx" and "k < get_max_index ctx"
  obtains nv where "nghttp2_hd_table_get ctx k = Some nv" and "hd_token nv = lookup_token (hd_name nv)"
proof -
  have base: "ctx_base ctx" using assms(1) by (simp add: ctx_inv_def)
  show thesis using table_get_Some [OF base, of k] assms(2) length_hpack_fields [OF base] that by metis
qed

lemma read_index_ok:
  assumes "inf_base i" and "inf_bufs i" and "\<not> bad (inf_ctx i)" and "inp \<noteq> []" and st: "inf_state i = NGHTTP2_HD_STATE_READ_INDEX"
  shows "inf_res_ok (inf_read_index i inp)"
proof -
  let ?p = "if inf_opcode i = NGHTTP2_HD_OPCODE_INDEXED then 7 else if index_required i then 6 else 4"
  obtain rv fin n i1 where r: "hd_inflate_read_len i inp ?p (get_max_index (inf_ctx i)) = (rv, fin, n, i1)" by (metis prod_cases4)
  obtain s l where i1: "i1 = i\<lparr>inf_shift := s, inf_left := l\<rparr>" and l: "rv = HD_OK \<longrightarrow> l \<le> get_max_index (inf_ctx i)"
    and rv: "rv = HD_OK \<or> rv = NGHTTP2_ERR_HEADER_COMP"
    using read_len_cases [OF assms(4) r] by blast
  have op: "inf_opcode i \<noteq> NGHTTP2_HD_OPCODE_NEWNAME" using assms(2) st by (simp add: inf_bufs_def)
  have eq: "inf_read_index i inp = (if rv \<noteq> HD_OK then Inf_fail rv i1
      else if \<not> fin then Inf_almost_ok i1 (drop n inp)
      else if l = 0 then Inf_fail NGHTTP2_ERR_HEADER_COMP i1
      else if inf_opcode i = NGHTTP2_HD_OPCODE_INDEXED then
        (case nghttp2_hd_table_get (inf_ctx i) (l - 1) of None \<Rightarrow> Inf_fail HD_ASSERT (i1\<lparr>inf_index := l - 1\<rparr>)
         | Some nv \<Rightarrow> Inf_emit nv (i1\<lparr>inf_index := l - 1, inf_state := NGHTTP2_HD_STATE_OPCODE\<rparr>) (drop n inp))
      else Inf_break (i1\<lparr>inf_index := l - 1, inf_state := NGHTTP2_HD_STATE_CHECK_VALUELEN\<rparr>) (drop n inp) False)"
    using r i1 by (cases "nghttp2_hd_table_get (inf_ctx i) (l - 1)")
      (simp_all add: inf_read_index_def Let_def hd_inflate_commit_indexed_def emit_header_def)
  show ?thesis
  proof (cases "rv = HD_OK \<and> fin \<and> l \<noteq> 0")
    case False
    then show ?thesis using assms rv i1 by (auto simp: eq inf_base_def inf_bufs_def)
  next
    case True
    then have "l - 1 < get_max_index (inf_ctx i)" using l by (cases l) auto
    then obtain nv where nv: "nghttp2_hd_table_get (inf_ctx i) (l - 1) = Some nv" "hd_token nv = lookup_token (hd_name nv)"
      using table_get_ok [of "inf_ctx i"] assms(1) by (auto simp: inf_base_def)
    with True show ?thesis
      using assms(1,3) op i1 \<open>l - 1 < _\<close> by (auto simp: eq inf_base_def inf_bufs_def inf_named_def)
  qed
qed

lemma read_namelen_ok:
  assumes "inf_base i" and "\<not> bad (inf_ctx i)" and "inp \<noteq> []"
    and st: "inf_state i = NGHTTP2_HD_STATE_NEWNAME_READ_NAMELEN" and op: "inf_opcode i = NGHTTP2_HD_OPCODE_NEWNAME"
  shows "inf_res_ok (inf_read_namelen L mem i inp)"
proof -
  obtain rv fin n i1 where r: "hd_inflate_read_len i inp 7 NGHTTP2_HD_MAX_NV = (rv, fin, n, i1)" by (metis prod_cases4)
  obtain s l where i1: "i1 = i\<lparr>inf_shift := s, inf_left := l\<rparr>" and rv: "rv = HD_OK \<or> rv = NGHTTP2_ERR_HEADER_COMP"
    using read_len_cases [OF assms(3) r] by blast
  show ?thesis
    using r rv i1 assms
    by (auto simp: inf_read_namelen_def hd_new_buf_def Let_def inf_base_def inf_bufs_def split: option.splits)
qed

lemma read_valuelen_ok:
  assumes "inf_base i" and "\<not> bad (inf_ctx i)" and "inp \<noteq> []"
    and st: "inf_state i = NGHTTP2_HD_STATE_READ_VALUELEN" and named: "inf_named i"
  shows "inf_res_ok (inf_read_valuelen L mem i inp)"
proof -
  obtain rv fin n i1 where r: "hd_inflate_read_len i inp 7 NGHTTP2_HD_MAX_NV = (rv, fin, n, i1)" by (metis prod_cases4)
  obtain s l where i1: "i1 = i\<lparr>inf_shift := s, inf_left := l\<rparr>" and rv: "rv = HD_OK \<or> rv = NGHTTP2_ERR_HEADER_COMP"
    using read_len_cases [OF assms(3) r] by blast
  show ?thesis
    using r rv i1 assms
    by (auto simp: inf_read_valuelen_def hd_new_buf_def Let_def inf_base_def inf_bufs_def inf_named_def value_state_def split: option.splits)
qed

lemma inf_same [simp]:
  "i\<lparr>huff_decode_ctx := huff_decode_ctx i\<rparr> = i"
  "i\<lparr>inf_left := inf_left i\<rparr> = i"
  "i\<lparr>huff_decode_ctx := huff_decode_ctx i, inf_left := l\<rparr> = i\<lparr>inf_left := l\<rparr>"
  "i\<lparr>huff_decode_ctx := h, inf_left := inf_left i\<rparr> = i\<lparr>huff_decode_ctx := h\<rparr>"
  by (cases i, simp)+

text \<open>Reading a piece of a string: \<open>k\<close> bytes may be written for each one that is read.\<close>

definition str_ok :: "nat \<Rightarrow> 'h nghttp2_hd_inflater \<Rightarrow> hd_rv \<times> nat \<times> hd_buf \<times> 'h nghttp2_hd_inflater \<Rightarrow> bool" where
  "str_ok k i r \<longleftrightarrow>
     (case r of (rv, n, buf, i') \<Rightarrow>
        rv \<noteq> HD_ASSERT \<and> i' = i\<lparr>huff_decode_ctx := huff_decode_ctx i', inf_left := inf_left i'\<rparr>
        \<and> (rv = HD_OK \<longrightarrow> length (hb_bytes buf) + k * inf_left i' < hb_size buf))"

lemma str_okE:
  assumes "str_ok k i (rv, n, buf, i')"
  obtains h l where "i' = i\<lparr>huff_decode_ctx := h, inf_left := l\<rparr>" and "rv \<noteq> HD_ASSERT"
    and "rv = HD_OK \<longrightarrow> length (hb_bytes buf) + k * l < hb_size buf"
proof -
  have "i' = i\<lparr>huff_decode_ctx := huff_decode_ctx i', inf_left := inf_left i'\<rparr>" and "rv \<noteq> HD_ASSERT"
    and "rv = HD_OK \<longrightarrow> length (hb_bytes buf) + k * inf_left i' < hb_size buf"
    using assms unfolding str_ok_def prod.case by blast+
  then show thesis by (rule that)
qed

lemma read_str_ok:
  assumes "length (hb_bytes buf) + inf_left i < hb_size buf"
  shows "str_ok 1 i (hd_inflate_read i buf inp)"
  using assms by (auto simp: str_ok_def hd_inflate_read_def Let_def)

lemma read_huff_ok:
  assumes "huff_contract L" and "length (hb_bytes buf) + 2 * inf_left i < hb_size buf"
  shows "str_ok 2 i (hd_inflate_read_huff L i buf inp)"
proof -
  let ?fin = "length inp \<ge> inf_left i"
  let ?inp = "if ?fin then take (inf_left i) inp else inp"
  have c: "case huff_decode L (huff_decode_ctx i) ?inp ?fin of
        Inl rv \<Rightarrow> rv = NGHTTP2_ERR_NOMEM \<or> rv = NGHTTP2_ERR_HEADER_COMP
      | Inr (h', out, n) \<Rightarrow> n \<le> length ?inp \<and> length out \<le> 2 * n"
    using assms(1) unfolding huff_contract_def by blast
  show ?thesis
  proof (cases "huff_decode L (huff_decode_ctx i) ?inp ?fin")
    case (Inl rv)
    then have "hd_inflate_read_huff L i buf inp = (rv, 0, buf, i)" by (simp add: hd_inflate_read_huff_def Let_def)
    then show ?thesis using c Inl by (auto simp: str_ok_def)
  next
    case (Inr r)
    obtain h out n where r: "r = (h, out, n)" by (metis prod_cases3)
    then have n: "n \<le> inf_left i" "length out \<le> 2 * n" using c Inr by (auto split: if_splits)
    then have fits: "length (hb_bytes buf) + length out + 2 * (inf_left i - n) < hb_size buf" using assms(2) by simp
    let ?b = "buf\<lparr>hb_bytes := hb_bytes buf @ out\<rparr>"
    have "hd_inflate_read_huff L i buf inp =
        (if huff_failure L h then (NGHTTP2_ERR_HEADER_COMP, 0, ?b, i\<lparr>huff_decode_ctx := h\<rparr>)
         else (HD_OK, n, ?b, i\<lparr>huff_decode_ctx := h, inf_left := inf_left i - n\<rparr>))"
      using Inr r fits by (simp add: hd_inflate_read_huff_def Let_def)
    then show ?thesis using fits by (auto simp: str_ok_def)
  qed
qed

lemma name_read_ok:
  assumes "inf_base i" and "\<not> bad (inf_ctx i)" and "str_ok k i r" and "0 < k"
    and st: "if k = 2 then inf_state i = NGHTTP2_HD_STATE_NEWNAME_READ_NAMEHUFF else k = 1 \<and> inf_state i = NGHTTP2_HD_STATE_NEWNAME_READ_NAME"
    and op: "inf_opcode i = NGHTTP2_HD_OPCODE_NEWNAME"
  shows "inf_res_ok (inf_name_read r inp)"
proof -
  obtain rv n buf i1 where r: "r = (rv, n, buf, i1)" by (metis prod_cases4)
  obtain h l where i1: "i1 = i\<lparr>huff_decode_ctx := h, inf_left := l\<rparr>" and rv: "rv \<noteq> HD_ASSERT"
    and room: "rv = HD_OK \<longrightarrow> length (hb_bytes buf) + k * l < hb_size buf"
    using assms(3) unfolding r by (rule str_okE)
  show ?thesis
    using assms(1,2,4,5,6) i1 rv room
    by (auto simp: r inf_name_read_def Let_def inf_base_def inf_bufs_def inf_named_def hd_buf_finish_def split: if_splits)
qed

lemma commit_add_ok:
  assumes "ctx_inv ctx" and "hd_token nv = lookup_token (hd_name nv)"
    and "(if req then add_hd_table_incremental mem ctx nv None 0 else (HD_OK, ctx, None)) = (rv, ctx', m)"
  shows "ctx_inv ctx' \<and> hd_table_bufsize_max ctx' = hd_table_bufsize_max ctx \<and> bad ctx' = bad ctx
    \<and> (rv = HD_OK \<or> rv = NGHTTP2_ERR_NOMEM)"
proof (cases req)
  case True
  have "opt_map_inv (ents ctx) None" by (simp add: opt_map_inv_def)
  from add_hd_table_spec [OF assms(1) this assms(2), of mem 0 rv ctx' m] assms(3) True
  show ?thesis by (auto split: if_splits)
qed (use assms in auto)

lemma commit_ok:
  assumes "inf_base i" and "\<not> bad (inf_ctx i)" and "inf_named i" and "valuercbuf i \<noteq> None"
    and "(if inf_opcode i = NGHTTP2_HD_OPCODE_NEWNAME then hd_inflate_commit_newname mem i else hd_inflate_commit_indname mem i) = (r, i')"
  shows "inf_base i' \<and> (case r of Inl rv \<Rightarrow> rv \<noteq> HD_ASSERT \<and> rv \<noteq> HD_OK
    | Inr nv \<Rightarrow> \<not> bad (inf_ctx i') \<and> hd_token nv = lookup_token (hd_name nv))"
proof -
  have ctx: "ctx_inv (inf_ctx i)" using assms(1) by (simp add: inf_base_def)
  obtain val where val: "valuercbuf i = Some val" using assms(4) by auto
  show ?thesis
  proof (cases "inf_opcode i = NGHTTP2_HD_OPCODE_NEWNAME")
    case True
    then obtain name where name: "namercbuf i = Some name" using assms(3) by (auto simp: inf_named_def)
    let ?nv = "\<lparr>hd_name = name, hd_value = val, hd_token = lookup_token name, hd_no_index = no_index i\<rparr>"
    obtain rv c m where a: "(if index_required i then add_hd_table_incremental mem (inf_ctx i) ?nv None 0 else (HD_OK, inf_ctx i, None)) = (rv, c, m)"
      by (metis prod_cases3)
    have "hd_token ?nv = lookup_token (hd_name ?nv)" by simp
    note c = commit_add_ok [OF ctx this a]
    have "hd_inflate_commit_newname mem i = (if rv \<noteq> HD_OK then (Inl rv, i\<lparr>inf_ctx := c\<rparr>)
        else (Inr ?nv, i\<lparr>inf_ctx := c, namercbuf := None, valuercbuf := None\<rparr>))"
      using a by (simp add: hd_inflate_commit_newname_def name val Let_def emit_header_def)
    then show ?thesis using assms(1,2,5) True c by (auto simp: inf_base_def split: if_splits)
  next
    case False
    then obtain e where e: "nghttp2_hd_table_get (inf_ctx i) (inf_index i) = Some e" "hd_token e = lookup_token (hd_name e)"
      using assms(3) table_get_ok [OF ctx] by (auto simp: inf_named_def)
    let ?nv = "e\<lparr>hd_no_index := no_index i, hd_value := val\<rparr>"
    obtain rv c m where a: "(if index_required i then add_hd_table_incremental mem (inf_ctx i) ?nv None 0 else (HD_OK, inf_ctx i, None)) = (rv, c, m)"
      by (metis prod_cases3)
    have tok: "hd_token ?nv = lookup_token (hd_name ?nv)" using e by simp
    note c = commit_add_ok [OF ctx tok a]
    have "hd_inflate_commit_indname mem i = (if rv \<noteq> HD_OK then (Inl NGHTTP2_ERR_NOMEM, i\<lparr>inf_ctx := c\<rparr>)
        else (Inr ?nv, i\<lparr>inf_ctx := c, valuercbuf := None\<rparr>))"
      using a by (simp add: hd_inflate_commit_indname_def e val Let_def emit_header_def)
    then show ?thesis using assms(1,2,5) False c tok by (auto simp: inf_base_def split: if_splits)
  qed
qed

lemma value_read_ok:
  assumes "inf_base i" and "\<not> bad (inf_ctx i)" and "str_ok k i r" and "0 < k"
    and st: "if k = 2 then inf_state i = NGHTTP2_HD_STATE_READ_VALUEHUFF else k = 1 \<and> inf_state i = NGHTTP2_HD_STATE_READ_VALUE"
    and named: "inf_named i"
  shows "inf_res_ok (inf_value_read mem r inp)"
proof -
  obtain rv n buf i1 where r: "r = (rv, n, buf, i1)" by (metis prod_cases4)
  obtain h l where i1: "i1 = i\<lparr>huff_decode_ctx := h, inf_left := l\<rparr>" and rv: "rv \<noteq> HD_ASSERT"
    and room: "rv = HD_OK \<longrightarrow> length (hb_bytes buf) + k * l < hb_size buf"
    using assms(3) unfolding r by (rule str_okE)
  show ?thesis
  proof (cases "rv = HD_OK \<and> l = 0")
    case False
    then show ?thesis
      using assms(1,2,4,5,6) i1 rv room
      by (auto simp: r inf_value_read_def Let_def inf_base_def inf_bufs_def inf_named_def split: if_splits)
  next
    case True
    let ?i = "i\<lparr>huff_decode_ctx := h, inf_left := l, valuebuf := buf, valuercbuf := Some (hb_bytes buf)\<rparr>"
    obtain res i2 where c: "(if inf_opcode ?i = NGHTTP2_HD_OPCODE_NEWNAME then hd_inflate_commit_newname mem ?i
        else hd_inflate_commit_indname mem ?i) = (res, i2)" by fastforce
    have "inf_base ?i" "\<not> bad (inf_ctx ?i)" "inf_named ?i" "valuercbuf ?i \<noteq> None"
      using assms(1,2) named by (auto simp: inf_base_def inf_named_def)
    note s = commit_ok [OF this c]
    have "inf_value_read mem r inp = (case res of Inl rv \<Rightarrow> Inf_fail rv i2
        | Inr nv \<Rightarrow> Inf_emit nv (i2\<lparr>inf_state := NGHTTP2_HD_STATE_OPCODE\<rparr>) (drop n inp))"
      using True room i1 c by (auto simp: r inf_value_read_def hd_buf_finish_def Let_def split: sum.splits)
    then show ?thesis using s by (auto simp: inf_base_def inf_bufs_def split: sum.splits)
  qed
qed

lemma inf_step_ok:
  assumes L: "huff_contract L" and base: "inf_base i" and bufs: "inf_bufs i" and nb: "\<not> bad (inf_ctx i)"
    and inp: "inp \<noteq> [] \<or> value_state (inf_state i)"
  shows "inf_res_ok (inf_step L mem i inp)"
proof (cases "inf_state i")
  case NGHTTP2_HD_STATE_EXPECT_TABLE_SIZE
  then show ?thesis using first_byte_ok [OF base nb] inp by (simp add: inf_step_def value_state_def)
next
  case NGHTTP2_HD_STATE_INFLATE_START
  then show ?thesis using first_byte_ok [OF base nb] inp by (simp add: inf_step_def value_state_def)
next
  case NGHTTP2_HD_STATE_OPCODE
  then show ?thesis using first_byte_ok [OF base nb] inp by (simp add: inf_step_def value_state_def)
next
  case NGHTTP2_HD_STATE_READ_TABLE_SIZE
  then show ?thesis using read_table_size_ok [OF base bufs nb] inp by (simp add: inf_step_def value_state_def)
next
  case NGHTTP2_HD_STATE_READ_INDEX
  then show ?thesis using read_index_ok [OF base bufs nb] inp by (simp add: inf_step_def value_state_def)
next
  case NGHTTP2_HD_STATE_NEWNAME_CHECK_NAMELEN
  then obtain b bs where "inp = b # bs" using inp by (cases inp) (auto simp: value_state_def)
  then show ?thesis
    using NGHTTP2_HD_STATE_NEWNAME_CHECK_NAMELEN base bufs nb
    by (auto simp: inf_step_def inf_check_namelen_def hd_inflate_set_huffman_encoded_def inf_base_def inf_bufs_def
        intro!: read_namelen_ok)
next
  case NGHTTP2_HD_STATE_NEWNAME_READ_NAMELEN
  then show ?thesis using read_namelen_ok [OF base nb] bufs inp by (simp add: inf_step_def value_state_def inf_bufs_def)
next
  case NGHTTP2_HD_STATE_NEWNAME_READ_NAMEHUFF
  then show ?thesis
    using name_read_ok [OF base nb read_huff_ok [OF L]] bufs by (simp add: inf_step_def inf_read_namehuff_def inf_bufs_def)
next
  case NGHTTP2_HD_STATE_NEWNAME_READ_NAME
  then show ?thesis
    using name_read_ok [OF base nb read_str_ok] bufs by (simp add: inf_step_def inf_read_name_def inf_bufs_def)
next
  case NGHTTP2_HD_STATE_CHECK_VALUELEN
  then obtain b bs where "inp = b # bs" using inp by (cases inp) (auto simp: value_state_def)
  then show ?thesis
    using NGHTTP2_HD_STATE_CHECK_VALUELEN base bufs nb
    by (auto simp: inf_step_def inf_check_valuelen_def hd_inflate_set_huffman_encoded_def inf_base_def inf_bufs_def inf_named_def
        intro!: read_valuelen_ok)
next
  case NGHTTP2_HD_STATE_READ_VALUELEN
  then show ?thesis using read_valuelen_ok [OF base nb] bufs inp by (simp add: inf_step_def value_state_def inf_bufs_def)
next
  case NGHTTP2_HD_STATE_READ_VALUEHUFF
  then show ?thesis
    using value_read_ok [OF base nb read_huff_ok [OF L]] bufs by (simp add: inf_step_def inf_read_valuehuff_def inf_bufs_def)
next
  case NGHTTP2_HD_STATE_READ_VALUE
  then show ?thesis
    using value_read_ok [OF base nb read_str_ok] bufs by (simp add: inf_step_def inf_read_value_def inf_bufs_def)
qed

lemma inf_loop_end [simp]: "inf_loop L mem i [] False = Inf_break i [] False"
  by (simp add: inf_loop.simps)

lemma inf_loop_break:
  "inf_step L mem i inp = Inf_break i' inp' busy' \<Longrightarrow> inp \<noteq> [] \<or> busy \<Longrightarrow>
   inf_loop L mem i inp busy = inf_loop L mem i' inp' busy'"
  by (subst inf_loop.simps) simp

lemma inf_loop_emit:
  "inf_step L mem i inp = Inf_emit nv i' inp' \<Longrightarrow> inp \<noteq> [] \<or> busy \<Longrightarrow>
   inf_loop L mem i inp busy = Inf_emit nv i' inp'"
  by (subst inf_loop.simps) simp

lemma inf_loop_ok:
  "huff_contract L \<Longrightarrow> inf_base i \<Longrightarrow> inf_bufs i \<Longrightarrow> \<not> bad (inf_ctx i) \<Longrightarrow> (busy \<longrightarrow> value_state (inf_state i)) \<Longrightarrow>
    inf_res_ok (inf_loop L mem i inp busy)"
proof (induction L mem i inp busy rule: inf_loop.induct)
  case (1 L mem i inp busy)
  show ?case
  proof (cases "inp \<noteq> [] \<or> busy")
    case True
    then have ok: "inf_res_ok (inf_step L mem i inp)"
      using "1.prems" by (intro inf_step_ok) auto
    show ?thesis
    proof (cases "inf_step L mem i inp")
      case (Inf_break i' inp' busy')
      then show ?thesis using "1.IH" [OF True Inf_break] "1.prems"(1) ok True by (simp add: inf_loop.simps [of L mem i inp busy])
    qed (use ok True in \<open>simp_all add: inf_loop.simps [of L mem i inp busy]\<close>)
  next
    case False
    then have "inf_loop L mem i inp busy = Inf_break i [] False" by simp
    then show ?thesis using "1.prems" by simp
  qed
qed

text \<open>
  The inflater between calls. After an error its context is marked, and nothing but the
  table matters any more.
\<close>

definition inf_inv :: "'h nghttp2_hd_inflater \<Rightarrow> bool" where
  "inf_inv i \<longleftrightarrow> inf_base i \<and> (bad (inf_ctx i) \<or> inf_bufs i)"

lemma inf_fail_inv: "inf_base i \<Longrightarrow> inf_fail rv i = (r, i') \<Longrightarrow> inf_inv i' \<and> bad (inf_ctx i')"
  by (auto simp: inf_fail_def inf_inv_def inf_base_def ctx_inv_def ctx_base_def hd_dyn_def)

lemma inflate_hd_nv_inv:
  assumes "huff_contract L" and "inf_inv i"
    and run: "nghttp2_hd_inflate_hd_nv L mem i inp in_final = (rv, i')"
  shows "inf_inv i' \<and> rv \<noteq> Inflate_error HD_ASSERT \<and> rv \<noteq> Inflate_error HD_OK
    \<and> (bad (inf_ctx i') \<longleftrightarrow> (\<exists>e. rv = Inflate_error e))"
proof (cases "bad (inf_ctx i)")
  case True
  then show ?thesis using assms by (auto simp: nghttp2_hd_inflate_hd_nv_def)
next
  case False
  have ok: "inf_res_ok (inf_loop L mem i inp False)"
    using assms(2) False by (intro inf_loop_ok [OF assms(1)]) (auto simp: inf_inv_def)
  show ?thesis
  proof (cases "inf_loop L mem i inp False")
    case (Inf_break j rest b)
    then show ?thesis
      using run ok False inf_fail_inv [of j NGHTTP2_ERR_HEADER_COMP]
      by (auto simp: nghttp2_hd_inflate_hd_nv_def inf_fail_def inf_inv_def split: if_splits)
  next
    case (Inf_almost_ok j rest)
    then show ?thesis
      using run ok False inf_fail_inv [of j NGHTTP2_ERR_HEADER_COMP]
      by (auto simp: nghttp2_hd_inflate_hd_nv_def inf_fail_def inf_inv_def split: if_splits)
  next
    case (Inf_emit nv j rest)
    then show ?thesis using run ok False by (auto simp: nghttp2_hd_inflate_hd_nv_def inf_inv_def)
  next
    case (Inf_fail e j)
    then show ?thesis
      using run ok False inf_fail_inv [of j e]
      by (auto simp: nghttp2_hd_inflate_hd_nv_def inf_fail_def)
  qed
qed

lemma inflate_init_inv:
  assumes "nghttp2_hd_inflate_init L mem table_size = Some i" and "table_size < 2 ^ 32"
  shows "inf_inv i" and "hd_dyn (inf_ctx i) = []" and "\<not> bad (inf_ctx i)" and "hd_table_bufsize_max (inf_ctx i) = table_size"
    and "settings_hd_table_bufsize_max i = table_size" and "inf_min_hd_table_bufsize_max i = HD_UINT32_MAX"
    and "inf_state i = NGHTTP2_HD_STATE_INFLATE_START"
  using assms context_init_spec [OF _ assms(2)]
  by (auto simp: nghttp2_hd_inflate_init_def inf_inv_def inf_base_def inf_bufs_def HD_UINT32_MAX_def)

lemma inflate_change_spec:
  assumes "inf_inv i" and "s < 2 ^ 32" and "nghttp2_hd_inflate_change_table_size i s = (rv, i')"
  shows "inf_inv i' \<and> rv \<noteq> HD_ASSERT \<and> bad (inf_ctx i') = bad (inf_ctx i)
    \<and> (rv \<noteq> HD_OK \<longrightarrow> i' = i)
    \<and> (inf_state i = NGHTTP2_HD_STATE_EXPECT_TABLE_SIZE \<or> inf_state i = NGHTTP2_HD_STATE_INFLATE_START \<longrightarrow>
        rv = HD_OK \<and> settings_hd_table_bufsize_max i' = s
        \<and> (if s < hd_table_bufsize_max (inf_ctx i)
           then inf_state i' = NGHTTP2_HD_STATE_EXPECT_TABLE_SIZE \<and> inf_min_hd_table_bufsize_max i' = s
             \<and> hd_table_bufsize_max (inf_ctx i') = s \<and> hd_dyn (inf_ctx i') = dyn_evict s (hd_dyn (inf_ctx i))
           else inf_state i' = inf_state i \<and> inf_min_hd_table_bufsize_max i' = inf_min_hd_table_bufsize_max i
             \<and> inf_ctx i' = inf_ctx i))"
proof (cases "inf_state i = NGHTTP2_HD_STATE_EXPECT_TABLE_SIZE \<or> inf_state i = NGHTTP2_HD_STATE_INFLATE_START")
  case False
  then show ?thesis using assms by (auto simp: nghttp2_hd_inflate_change_table_size_def)
next
  case True
  show ?thesis
  proof (cases "s < hd_table_bufsize_max (inf_ctx i)")
    case shrink: True
    let ?c = "(inf_ctx i)\<lparr>hd_table_bufsize_max := s\<rparr>"
    have "ctx_base ?c" "hd_table_bufsize_max ?c < 2 ^ 32" "opt_map_inv (ents ?c) None"
      using assms(1,2) by (auto simp: inf_inv_def inf_base_def ctx_inv_def ctx_base_def hd_dyn_def opt_map_inv_def)
    from shrink_spec [OF this(1,3,2)] obtain c m where
      "hd_context_shrink_table_size ?c None = Some (c, m)" "ctx_inv c" "hd_table_bufsize_max c = s"
      "bad c = bad (inf_ctx i)" "hd_dyn c = dyn_evict s (hd_dyn (inf_ctx i))"
      by (auto simp: hd_dyn_def)
    then show ?thesis
      using True shrink assms
      by (auto simp: nghttp2_hd_inflate_change_table_size_def Let_def inf_inv_def inf_base_def inf_bufs_def)
  next
    case noshrink: False
    then have i': "rv = HD_OK" "i' = i\<lparr>settings_hd_table_bufsize_max := s\<rparr>"
      using True assms(3) by (auto simp: nghttp2_hd_inflate_change_table_size_def Let_def)
    have "inf_bufs i'" using True i' by (auto simp: inf_bufs_def)
    then show ?thesis
      using True noshrink assms(1,2) i' by (auto simp: inf_inv_def inf_base_def)
  qed
qed

text \<open>
  The states that an inflater can be in: from its initialization by any sequence of calls,
  with any input, in any pieces, and with an allocator that may fail at any call.
\<close>

inductive inflater_reach :: "'h huff_lib \<Rightarrow> nat \<Rightarrow> 'h nghttp2_hd_inflater \<Rightarrow> bool"
  for L :: "'h huff_lib" and table_size :: nat
where
  init: "nghttp2_hd_inflate_init L mem table_size = Some i \<Longrightarrow> inflater_reach L table_size i"
| inflate: "inflater_reach L table_size i \<Longrightarrow> nghttp2_hd_inflate_hd_nv L mem i inp in_final = (rv, i')
    \<Longrightarrow> inflater_reach L table_size i'"
| end_headers: "inflater_reach L table_size i \<Longrightarrow> inflater_reach L table_size (nghttp2_hd_inflate_end_headers i)"
| change: "inflater_reach L table_size i \<Longrightarrow> s < 2 ^ 32 \<Longrightarrow> nghttp2_hd_inflate_change_table_size i s = (rv, i')
    \<Longrightarrow> inflater_reach L table_size i'"

lemma inflater_reach_inv:
  assumes "inflater_reach L table_size i" and "huff_contract L" and "table_size < 2 ^ 32"
  shows "inf_inv i"
  using assms(1)
proof (induction rule: inflater_reach.induct)
  case (init mem i)
  then show ?case using inflate_init_inv(1) assms(3) by blast
next
  case (inflate i mem inp in_final rv i')
  then show ?case using inflate_hd_nv_inv [OF assms(2)] by blast
next
  case (end_headers i)
  then show ?case
    by (auto simp: nghttp2_hd_inflate_end_headers_def inf_inv_def inf_base_def inf_bufs_def)
next
  case (change i s rv i')
  then show ?case using inflate_change_spec by blast
qed

section \<open>Properties\<close>

text \<open>C5: the inflater is safe on any input: whatever bytes it was fed before, in whatever pieces,
  with settings changed in between and an allocator that may fail, no call reads beyond its
  input, writes beyond the memory of a string, reads the table out of range or a slot of the
  ring buffer that holds no entry. The table never accounts for more than its maximum, and
  this not for more than the last setting. Once a call has failed, every later one does.\<close>

theorem inflate_safe:
  assumes "inflater_reach L table_size i" and "huff_contract L" and "table_size < 2 ^ 32"
  shows "case nghttp2_hd_inflate_hd_nv L mem i inp in_final of (rv, i') \<Rightarrow>
      rv \<noteq> Inflate_error HD_ASSERT
      \<and> hd_table_bufsize (inf_ctx i') = sum_list (map field_room (hd_dyn (inf_ctx i')))
      \<and> hd_table_bufsize (inf_ctx i') \<le> hd_table_bufsize_max (inf_ctx i')
      \<and> hd_table_bufsize_max (inf_ctx i') \<le> settings_hd_table_bufsize_max i'
      \<and> (if bad (inf_ctx i) then rv = Inflate_error NGHTTP2_ERR_HEADER_COMP
         else bad (inf_ctx i') \<longleftrightarrow> (\<exists>e. rv = Inflate_error e))"
proof -
  obtain rv i' where run: "nghttp2_hd_inflate_hd_nv L mem i inp in_final = (rv, i')" by fastforce
  have "bad (inf_ctx i) \<longrightarrow> rv = Inflate_error NGHTTP2_ERR_HEADER_COMP"
    using run by (auto simp: nghttp2_hd_inflate_hd_nv_def)
  with inflate_hd_nv_inv [OF assms(2) inflater_reach_inv [OF assms] run] run show ?thesis
    by (auto simp: inf_inv_def inf_base_def ctx_inv_def ctx_base_def)
qed

text \<open>A decoder that leaves the bytes as they are.\<close>

definition plain_huff :: "unit huff_lib" where
  "plain_huff = \<lparr>huff_init = (), huff_decode = \<lambda>h xs fin. Inr ((), xs, length xs), huff_failure = \<lambda>h. False\<rparr>"

lemma plain_huff_contract: "huff_contract plain_huff"
  by (simp add: huff_contract_def plain_huff_def)

definition inflate_mem :: nghttp2_mem where
  "inflate_mem = \<lparr>mem_slots = \<lambda>_. True, mem_entry = True, mem_rcbuf = \<lambda>_. True\<rparr>"

theorem inflate_safe_witness:
  "\<exists>i. nghttp2_hd_inflate_init plain_huff inflate_mem 4096 = Some i
     \<and> fst (nghttp2_hd_inflate_hd_nv plain_huff inflate_mem i [0xff, 0xff] True) \<noteq> Inflate_error HD_ASSERT"
proof -
  obtain i where i: "nghttp2_hd_inflate_init plain_huff inflate_mem 4096 = Some i"
    by (simp add: nghttp2_hd_inflate_init_def hd_context_init_def hd_ringbuf_init_def Let_def inflate_mem_def)
  from inflate_safe [OF inflater_reach.init [OF i] plain_huff_contract, of inflate_mem "[0xff, 0xff]" True] i
  show ?thesis by auto
qed

end
