(* ===== verification/Hpack_Deflate.thy ===== *)
theory Hpack_Deflate
  imports Hpack_Repr
begin

text \<open>
  The compressor of HPACK: the blocks it emits (\<open>emit_*\<close> of \<open>nghttp2_hd.c\<close>), the decision
  how to index a field, \<open>deflate_nv\<close> for one field and \<open>nghttp2_hd_deflate_hd_bufs\<close> for
  a header list, the change of the table size and the bound on the output.

  The output buffers \<open>nghttp2_bufs\<close> and the Huffman coder are not part of the sources. They
  are a parameter \<open>lib\<close> of the definitions, over an arbitrary type of buffers; what is
  relied on is stated as \<open>bufs_ok\<close>.
\<close>

section \<open>The library\<close>

text \<open>
  \<open>nghttp2_bufs_add\<close>, \<open>nghttp2_bufs_addb\<close>, \<open>nghttp2_hd_huff_encode_count\<close>,
  \<open>nghttp2_hd_huff_encode\<close>, \<open>nghttp2_bufs_wrap_init\<close> on a memory area of so many bytes
  and \<open>nghttp2_bufs_len\<close>.
\<close>

record 'b bufs_lib =
  bufs_add :: "'b \<Rightarrow> byte list \<Rightarrow> hd_rv \<times> 'b"
  bufs_addb :: "'b \<Rightarrow> byte \<Rightarrow> hd_rv \<times> 'b"
  huff_encode_count :: "byte list \<Rightarrow> nat"
  huff_encode :: "'b \<Rightarrow> byte list \<Rightarrow> hd_rv \<times> 'b"
  bufs_wrap_init :: "nat \<Rightarrow> hd_rv \<times> 'b"
  bufs_len :: "'b \<Rightarrow> nat"

section \<open>Blocks\<close>

text \<open>\<open>uint8_t sb[16]\<close>\<close>

definition sb_size :: nat where
  "sb_size = 16"

definition emit_table_size :: "'b bufs_lib \<Rightarrow> 'b \<Rightarrow> nat \<Rightarrow> hd_rv \<times> 'b" where
  "emit_table_size lib bufs table_size =
     (let blocklen = count_encoded_length table_size 5 in
      if sb_size < blocklen then (NGHTTP2_ERR_HEADER_COMP, bufs)
      else bufs_add lib bufs (take blocklen (encode_length 0x20 table_size 5)))"

definition emit_indexed_block :: "'b bufs_lib \<Rightarrow> 'b \<Rightarrow> nat \<Rightarrow> hd_rv \<times> 'b" where
  "emit_indexed_block lib bufs idx =
     (let blocklen = count_encoded_length (idx + 1) 7 in
      if sb_size < blocklen then (NGHTTP2_ERR_HEADER_COMP, bufs)
      else bufs_add lib bufs (take blocklen (encode_length 0x80 (idx + 1) 7)))"

definition emit_string :: "'b bufs_lib \<Rightarrow> 'b \<Rightarrow> byte list \<Rightarrow> hd_rv \<times> 'b" where
  "emit_string lib bufs str =
     (let len = length str;
          enclen = huff_encode_count lib str;
          huffman = enclen < len;
          enclen = (if huffman then enclen else len);
          blocklen = count_encoded_length enclen 7
      in
      if sb_size < blocklen then (NGHTTP2_ERR_HEADER_COMP, bufs)
      else
        (case bufs_add lib bufs (take blocklen (encode_length (if huffman then 0x80 else 0) enclen 7)) of
           (rv, bufs) \<Rightarrow>
             if rv \<noteq> HD_OK then (rv, bufs)
             else if huffman then huff_encode lib bufs str
             else bufs_add lib bufs str))"

definition pack_first_byte :: "nghttp2_hd_indexing_mode \<Rightarrow> byte" where
  "pack_first_byte indexing_mode =
     (case indexing_mode of
        NGHTTP2_HD_WITH_INDEXING \<Rightarrow> 0x40
      | NGHTTP2_HD_WITHOUT_INDEXING \<Rightarrow> 0
      | NGHTTP2_HD_NEVER_INDEXING \<Rightarrow> 0x10)"

definition emit_indname_block ::
  "'b bufs_lib \<Rightarrow> 'b \<Rightarrow> nat \<Rightarrow> nghttp2_nv \<Rightarrow> nghttp2_hd_indexing_mode \<Rightarrow> hd_rv \<times> 'b"
where
  "emit_indname_block lib bufs idx nv indexing_mode =
     (let prefixlen = (if indexing_mode = NGHTTP2_HD_WITH_INDEXING then 6 else 4);
          blocklen = count_encoded_length (idx + 1) prefixlen
      in
      if sb_size < blocklen then (NGHTTP2_ERR_HEADER_COMP, bufs)
      else
        (case bufs_add lib bufs (take blocklen (encode_length (pack_first_byte indexing_mode) (idx + 1) prefixlen)) of
           (rv, bufs) \<Rightarrow>
             if rv \<noteq> HD_OK then (rv, bufs) else emit_string lib bufs (nv_value nv)))"

definition emit_newname_block ::
  "'b bufs_lib \<Rightarrow> 'b \<Rightarrow> nghttp2_nv \<Rightarrow> nghttp2_hd_indexing_mode \<Rightarrow> hd_rv \<times> 'b"
where
  "emit_newname_block lib bufs nv indexing_mode =
     (case bufs_addb lib bufs (pack_first_byte indexing_mode) of
        (rv, bufs) \<Rightarrow>
          if rv \<noteq> HD_OK then (rv, bufs)
          else
            (case emit_string lib bufs (nv_name nv) of
               (rv, bufs) \<Rightarrow>
                 if rv \<noteq> HD_OK then (rv, bufs) else emit_string lib bufs (nv_value nv)))"

section \<open>The deflater\<close>

record nghttp2_hd_deflater =
  def_ctx :: nghttp2_hd_context
  def_map :: nghttp2_hd_map
  deflate_hd_table_bufsize_max :: nat
  def_min_hd_table_bufsize_max :: nat
  notify_table_size_change :: bool

definition UINT32_MAX :: nat where
  "UINT32_MAX = 2 ^ 32 - 1"

text \<open>\<open>table_size\<close> is \<open>NGHTTP2_HD_DEFAULT_MAX_BUFFER_SIZE\<close>.\<close>

definition nghttp2_hd_deflate_init2 :: "nghttp2_mem \<Rightarrow> nat \<Rightarrow> nat \<Rightarrow> nghttp2_hd_deflater option" where
  "nghttp2_hd_deflate_init2 mem table_size max_deflate_dynamic_table_size =
     (case hd_context_init mem table_size of
        None \<Rightarrow> None
      | Some ctx \<Rightarrow>
          let smaller = max_deflate_dynamic_table_size < table_size in
          Some \<lparr>def_ctx = (if smaller then ctx\<lparr>hd_table_bufsize_max := max_deflate_dynamic_table_size\<rparr> else ctx),
                def_map = hd_map_init,
                deflate_hd_table_bufsize_max = max_deflate_dynamic_table_size,
                def_min_hd_table_bufsize_max = UINT32_MAX,
                notify_table_size_change = smaller\<rparr>)"

definition nghttp2_hd_deflate_change_table_size ::
  "nghttp2_hd_deflater \<Rightarrow> nat \<Rightarrow> hd_rv \<times> nghttp2_hd_deflater"
where
  "nghttp2_hd_deflate_change_table_size d settings_max_dynamic_table_size =
     (let next_bufsize = min settings_max_dynamic_table_size (deflate_hd_table_bufsize_max d);
          d = d\<lparr>def_ctx := (def_ctx d)\<lparr>hd_table_bufsize_max := next_bufsize\<rparr>,
                def_min_hd_table_bufsize_max := min (def_min_hd_table_bufsize_max d) next_bufsize,
                notify_table_size_change := True\<rparr>
      in
      case hd_context_shrink_table_size (def_ctx d) (Some (def_map d)) of
        Some (ctx, Some m) \<Rightarrow> (HD_OK, d\<lparr>def_ctx := ctx, def_map := m\<rparr>)
      | _ \<Rightarrow> (HD_ASSERT, d))"

definition hd_deflate_decide_indexing ::
  "nghttp2_hd_deflater \<Rightarrow> nghttp2_nv \<Rightarrow> int \<Rightarrow> nghttp2_hd_indexing_mode"
where
  "hd_deflate_decide_indexing d nv token =
     (if token = NGHTTP2_TOKEN__PATH \<or> token = NGHTTP2_TOKEN_AGE
         \<or> token = NGHTTP2_TOKEN_CONTENT_LENGTH \<or> token = NGHTTP2_TOKEN_ETAG
         \<or> token = NGHTTP2_TOKEN_IF_MODIFIED_SINCE
         \<or> token = NGHTTP2_TOKEN_IF_NONE_MATCH \<or> token = NGHTTP2_TOKEN_LOCATION
         \<or> token = NGHTTP2_TOKEN_SET_COOKIE
         \<or> entry_room (length (nv_name nv)) (length (nv_value nv)) > hd_table_bufsize_max (def_ctx d) * 3 div 4
      then NGHTTP2_HD_WITHOUT_INDEXING
      else NGHTTP2_HD_WITH_INDEXING)"

text \<open>The indexing mode of a field, as \<open>deflate_nv\<close> chooses it.\<close>

definition deflate_mode :: "nghttp2_hd_deflater \<Rightarrow> nghttp2_nv \<Rightarrow> int \<Rightarrow> nghttp2_hd_indexing_mode" where
  "deflate_mode d nv token =
     (if token = NGHTTP2_TOKEN_AUTHORIZATION
         \<or> token = NGHTTP2_TOKEN_COOKIE \<and> length (nv_value nv) < 20
         \<or> nv_no_index nv
      then NGHTTP2_HD_NEVER_INDEXING
      else hd_deflate_decide_indexing d nv token)"

text \<open>
  Entering a field into the table: the name comes from the table when it is there, the value
  is copied. \<open>HD_ASSERT\<close> when the index is out of range.
\<close>

definition deflate_index ::
  "nghttp2_mem \<Rightarrow> nghttp2_hd_deflater \<Rightarrow> nghttp2_nv \<Rightarrow> int \<Rightarrow> int \<Rightarrow> 32 word \<Rightarrow> hd_rv \<times> nghttp2_hd_deflater"
where
  "deflate_index mem d nv token idx hash =
     (let name =
        (if idx \<noteq> - 1 then
           (case nghttp2_hd_table_get (def_ctx d) (nat idx) of None \<Rightarrow> Inl HD_ASSERT | Some e \<Rightarrow> Inr (hd_name e))
         else if mem_rcbuf mem (length (nv_name nv)) then Inr (nv_name nv)
         else Inl NGHTTP2_ERR_NOMEM)
      in
      case name of
        Inl rv \<Rightarrow> (rv, d)
      | Inr name \<Rightarrow>
          if \<not> mem_rcbuf mem (length (nv_value nv)) then (NGHTTP2_ERR_NOMEM, d)
          else
            (case add_hd_table_incremental mem (def_ctx d)
                    \<lparr>hd_name = name, hd_value = nv_value nv, hd_token = token, hd_no_index = False\<rparr>
                    (Some (def_map d)) hash of
               (rv, ctx, hdmap) \<Rightarrow>
                 let d = d\<lparr>def_ctx := ctx, def_map := (case hdmap of Some m \<Rightarrow> m | None \<Rightarrow> def_map d)\<rparr> in
                 if rv \<noteq> HD_OK then (NGHTTP2_ERR_HEADER_COMP, d) else (HD_OK, d)))"

definition deflate_nv ::
  "'b bufs_lib \<Rightarrow> nghttp2_mem \<Rightarrow> nghttp2_hd_deflater \<Rightarrow> 'b \<Rightarrow> nghttp2_nv
   \<Rightarrow> hd_rv \<times> nghttp2_hd_deflater \<times> 'b"
where
  "deflate_nv lib mem d bufs nv =
     (let token = lookup_token (nv_name nv);
          hash = deflate_hash (nv_name nv);
          indexing_mode = deflate_mode d nv token;
          res = search_hd_table (def_ctx d) nv token indexing_mode (def_map d) hash;
          idx = res_index res
      in
      if res_match res then
        (case emit_indexed_block lib bufs (nat idx) of (rv, bufs) \<Rightarrow> (rv, d, bufs))
      else
        (case if indexing_mode = NGHTTP2_HD_WITH_INDEXING then deflate_index mem d nv token idx hash
              else (HD_OK, d) of
           (rv, d) \<Rightarrow>
             if rv \<noteq> HD_OK then (rv, d, bufs)
             else
               (case if idx = - 1 then emit_newname_block lib bufs nv indexing_mode
                     else emit_indname_block lib bufs (nat idx) nv indexing_mode of
                  (rv, bufs) \<Rightarrow> (rv, d, bufs))))"

fun deflate_nvs ::
  "'b bufs_lib \<Rightarrow> nghttp2_mem \<Rightarrow> nghttp2_hd_deflater \<Rightarrow> 'b \<Rightarrow> nghttp2_nv list
   \<Rightarrow> hd_rv \<times> nghttp2_hd_deflater \<times> 'b"
where
  "deflate_nvs lib mem d bufs [] = (HD_OK, d, bufs)"
| "deflate_nvs lib mem d bufs (nv # nvs) =
     (case deflate_nv lib mem d bufs nv of
        (rv, d, bufs) \<Rightarrow>
          if rv \<noteq> HD_OK then (rv, d, bufs) else deflate_nvs lib mem d bufs nvs)"

text \<open>The dynamic table size updates in front of a header block.\<close>

definition deflate_notify ::
  "'b bufs_lib \<Rightarrow> nghttp2_hd_deflater \<Rightarrow> 'b \<Rightarrow> hd_rv \<times> nghttp2_hd_deflater \<times> 'b"
where
  "deflate_notify lib d bufs =
     (if notify_table_size_change d then
        (let min_hd_table_bufsize_max = def_min_hd_table_bufsize_max d;
             d = d\<lparr>notify_table_size_change := False, def_min_hd_table_bufsize_max := UINT32_MAX\<rparr>
         in
         case if hd_table_bufsize_max (def_ctx d) > min_hd_table_bufsize_max
              then emit_table_size lib bufs min_hd_table_bufsize_max
              else (HD_OK, bufs) of
           (rv, bufs) \<Rightarrow>
             if rv \<noteq> HD_OK then (rv, d, bufs)
             else
               (case emit_table_size lib bufs (hd_table_bufsize_max (def_ctx d)) of
                  (rv, bufs) \<Rightarrow> (rv, d, bufs)))
      else (HD_OK, d, bufs))"

definition nghttp2_hd_deflate_hd_bufs ::
  "'b bufs_lib \<Rightarrow> nghttp2_mem \<Rightarrow> nghttp2_hd_deflater \<Rightarrow> 'b \<Rightarrow> nghttp2_nv list
   \<Rightarrow> hd_rv \<times> nghttp2_hd_deflater \<times> 'b"
where
  "nghttp2_hd_deflate_hd_bufs lib mem d bufs nvs =
     (if bad (def_ctx d) then (NGHTTP2_ERR_HEADER_COMP, d, bufs)
      else
        (case
           (case deflate_notify lib d bufs of
              (rv, d, bufs) \<Rightarrow>
                if rv \<noteq> HD_OK then (rv, d, bufs) else deflate_nvs lib mem d bufs nvs) of
           (rv, d, bufs) \<Rightarrow>
             if rv = HD_OK then (rv, d, bufs)
             else (rv, d\<lparr>def_ctx := (def_ctx d)\<lparr>bad := True\<rparr>\<rparr>, bufs)))"

text \<open>The number of bytes written, or the error; \<open>NGHTTP2_ERR_INSUFF_BUFSIZE\<close> is \<open>None\<close>.\<close>

definition nghttp2_hd_deflate_hd ::
  "'b bufs_lib \<Rightarrow> nghttp2_mem \<Rightarrow> nghttp2_hd_deflater \<Rightarrow> nat \<Rightarrow> nghttp2_nv list
   \<Rightarrow> (hd_rv option + nat) \<times> nghttp2_hd_deflater"
where
  "nghttp2_hd_deflate_hd lib mem d buflen nvs =
     (case bufs_wrap_init lib buflen of
        (rv, bufs) \<Rightarrow>
          if rv \<noteq> HD_OK then (Inl (Some rv), d)
          else
            (case nghttp2_hd_deflate_hd_bufs lib mem d bufs nvs of
               (rv, d, bufs) \<Rightarrow>
                 if rv = NGHTTP2_ERR_BUFFER_ERROR then (Inl None, d)
                 else if rv \<noteq> HD_OK then (Inl (Some rv), d)
                 else (Inr (bufs_len lib bufs), d)))"

text \<open>The same with several pieces of memory, which \<open>nghttp2_bufs_wrap_init2\<close> makes buffers of.\<close>

definition nghttp2_hd_deflate_hd_vec ::
  "('v \<Rightarrow> hd_rv \<times> 'b) \<Rightarrow> 'b bufs_lib \<Rightarrow> nghttp2_mem \<Rightarrow> nghttp2_hd_deflater \<Rightarrow> 'v \<Rightarrow> nghttp2_nv list
   \<Rightarrow> (hd_rv option + nat) \<times> nghttp2_hd_deflater"
where
  "nghttp2_hd_deflate_hd_vec bufs_wrap_init2 lib mem d vec nvs =
     (case bufs_wrap_init2 vec of
        (rv, bufs) \<Rightarrow>
          if rv \<noteq> HD_OK then (Inl (Some rv), d)
          else
            (case nghttp2_hd_deflate_hd_bufs lib mem d bufs nvs of
               (rv, d, bufs) \<Rightarrow>
                 if rv = NGHTTP2_ERR_BUFFER_ERROR then (Inl None, d)
                 else if rv \<noteq> HD_OK then (Inl (Some rv), d)
                 else (Inr (bufs_len lib bufs), d)))"

definition nghttp2_hd_deflate_bound :: "nghttp2_nv list \<Rightarrow> nat" where
  "nghttp2_hd_deflate_bound nva =
     12 + 6 * 2 * length nva + sum_list (map (\<lambda>nv. length (nv_name nv) + length (nv_value nv)) nva)"

section \<open>What the library promises\<close>

text \<open>
  What is written to the buffers comes behind what they hold, if writing succeeds, and
  \<open>nghttp2_hd_huff_encode_count\<close> counts the bytes that \<open>nghttp2_hd_huff_encode\<close> writes.
\<close>

definition bufs_ok :: "'b bufs_lib \<Rightarrow> ('b \<Rightarrow> byte list) \<Rightarrow> (byte list \<Rightarrow> byte list) \<Rightarrow> bool" where
  "bufs_ok lib out huff \<longleftrightarrow>
     (\<forall>b xs b'. bufs_add lib b xs = (HD_OK, b') \<longrightarrow> out b' = out b @ xs)
     \<and> (\<forall>b x b'. bufs_addb lib b x = (HD_OK, b') \<longrightarrow> out b' = out b @ [x])
     \<and> (\<forall>b s b'. huff_encode lib b s = (HD_OK, b') \<longrightarrow> out b' = out b @ huff s)
     \<and> (\<forall>s. huff_encode_count lib s = length (huff s))"

lemma bufs_okD:
  assumes "bufs_ok lib out huff"
  shows "bufs_add lib b xs = (HD_OK, b') \<Longrightarrow> out b' = out b @ xs"
    and "bufs_addb lib b x = (HD_OK, b') \<Longrightarrow> out b' = out b @ [x]"
    and "huff_encode lib b s = (HD_OK, b') \<Longrightarrow> out b' = out b @ huff s"
    and "huff_encode_count lib s = length (huff s)"
  using assms by (simp_all add: bufs_ok_def)

section \<open>Blocks\<close>

lemma take_encode_length [simp]:
  "take (count_encoded_length n prefix) (encode_length first n prefix) = encode_length first n prefix"
  by (rule take_all) simp



lemma emit_table_size_out:
  assumes "bufs_ok lib out huff" and "emit_table_size lib b n = (HD_OK, b')"
  shows "out b' = out b @ encode_length 0x20 n 5"
  using assms(2) bufs_okD(1) [OF assms(1)] by (auto simp: emit_table_size_def Let_def split: if_splits)

lemma emit_indexed_out:
  assumes "bufs_ok lib out huff" and "emit_indexed_block lib b i = (HD_OK, b')"
  shows "out b' = out b @ repr_bytes huff (Indexed i)"
  using assms(2) bufs_okD(1) [OF assms(1)] by (auto simp: emit_indexed_block_def Let_def split: if_splits)

lemma emit_string_out:
  assumes "bufs_ok lib out huff" and "emit_string lib b s = (HD_OK, b')"
  shows "out b' = out b @ string_bytes huff s"
  using assms(2) bufs_okD [OF assms(1)]
  by (auto simp: emit_string_def string_bytes_def Let_def split: if_splits prod.splits)

lemma pack_first_byte_mode: "pack_first_byte mode = mode_byte mode"
  by (cases mode) (simp_all add: pack_first_byte_def)

lemma mode_prefix_conv: "(if mode = NGHTTP2_HD_WITH_INDEXING then 6 else 4) = mode_prefix mode"
  by (cases mode) simp_all

lemma emit_indname_out:
  assumes "bufs_ok lib out huff" and "emit_indname_block lib b i nv mode = (HD_OK, b')"
  shows "out b' = out b @ repr_bytes huff (IndName mode i (nv_value nv))"
  using assms(2) bufs_okD(1) [OF assms(1)] emit_string_out [OF assms(1)]
  by (auto simp: emit_indname_block_def mode_prefix_conv pack_first_byte_mode Let_def split: if_splits prod.splits)

lemma emit_newname_out:
  assumes "bufs_ok lib out huff" and "emit_newname_block lib b nv mode = (HD_OK, b')"
  shows "out b' = out b @ repr_bytes huff (NewName mode (nv_name nv) (nv_value nv))"
  using assms(2) bufs_okD(2) [OF assms(1)] emit_string_out [OF assms(1)]
  by (auto simp: emit_newname_block_def pack_first_byte_mode split: if_splits prod.splits)

section \<open>The invariant of the deflater\<close>

definition def_inv :: "nghttp2_hd_deflater \<Rightarrow> bool" where
  "def_inv d \<longleftrightarrow>
     ctx_inv (def_ctx d) \<and> map_inv (ents (def_ctx d)) (def_map d) \<and> hash_inv (ents (def_ctx d))
     \<and> def_min_hd_table_bufsize_max d < 2 ^ 32"

abbreviation def_dyn :: "nghttp2_hd_deflater \<Rightarrow> field list" where
  "def_dyn d \<equiv> hd_dyn (def_ctx d)"

abbreviation def_max :: "nghttp2_hd_deflater \<Rightarrow> nat" where
  "def_max d \<equiv> hd_table_bufsize_max (def_ctx d)"

text \<open>What compressing fields leaves alone.\<close>

definition def_frame :: "nghttp2_hd_deflater \<Rightarrow> nghttp2_hd_deflater \<Rightarrow> bool" where
  "def_frame d d' \<longleftrightarrow>
     def_max d' = def_max d \<and> bad (def_ctx d') = bad (def_ctx d)
     \<and> deflate_hd_table_bufsize_max d' = deflate_hd_table_bufsize_max d
     \<and> def_min_hd_table_bufsize_max d' = def_min_hd_table_bufsize_max d
     \<and> notify_table_size_change d' = notify_table_size_change d"

lemma def_frame_refl [simp]: "def_frame d d"
  by (simp add: def_frame_def)

lemma def_frame_trans: "def_frame d e \<Longrightarrow> def_frame e f \<Longrightarrow> def_frame d f"
  by (simp add: def_frame_def)

lemma deflate_index_spec:
  assumes inv: "def_inv d"
    and idx: "idx \<noteq> - 1 \<Longrightarrow> nat idx < length (hpack_fields (def_ctx d)) \<and> fst (hpack_fields (def_ctx d) ! nat idx) = nv_name nv"
    and run: "deflate_index mem d nv (lookup_token (nv_name nv)) idx (deflate_hash (nv_name nv)) = (rv, d')"
  shows "def_inv d' \<and> def_frame d d' \<and> rv \<noteq> HD_ASSERT
    \<and> (rv = HD_OK \<longrightarrow> def_dyn d' = dyn_add (def_max d) (nv_name nv, nv_value nv) (def_dyn d))"
proof -
  have base: "ctx_base (def_ctx d)" and ctx: "ctx_inv (def_ctx d)"
    and map: "opt_map_inv (ents (def_ctx d)) (Some (def_map d))"
    using inv by (auto simp: def_inv_def ctx_inv_def opt_map_inv_def)
  let ?nv = "\<lparr>hd_name = nv_name nv, hd_value = nv_value nv, hd_token = lookup_token (nv_name nv), hd_no_index = False\<rparr>"
  have get: "\<exists>e. nghttp2_hd_table_get (def_ctx d) (nat idx) = Some e \<and> hd_name e = nv_name nv" if "idx \<noteq> - 1"
    using idx [OF that] table_get_Some [OF base, of "nat idx"] by metis
  obtain r ctx' m where add: "add_hd_table_incremental mem (def_ctx d) ?nv (Some (def_map d)) (deflate_hash (nv_name nv)) = (r, ctx', m)"
    by (metis prod_cases3)
  have "hd_token ?nv = lookup_token (hd_name ?nv)" by simp
  note spec = add_hd_table_spec [OF ctx map this add]
  obtain m' where m: "m = Some m'" using spec by auto
  have inv': "def_inv (d\<lparr>def_ctx := ctx', def_map := m'\<rparr>)"
    using spec inv m by (auto simp: def_inv_def opt_map_inv_def hash_inv_def)
  have "(rv = HD_OK \<and> r = HD_OK \<and> d' = d\<lparr>def_ctx := ctx', def_map := m'\<rparr>)
      \<or> (rv \<noteq> HD_OK \<and> rv \<noteq> HD_ASSERT \<and> (d' = d \<or> d' = d\<lparr>def_ctx := ctx', def_map := m'\<rparr>))"
    using run get add m
    by (cases "idx = - 1") (auto simp: deflate_index_def Let_def split: if_splits option.splits)
  then show ?thesis
    using spec inv inv' by (auto simp: def_frame_def nv_field_def)
qed

text \<open>
  One field: the deflater emits a representation of it, and changes its table as the
  representation says. A field that is never to be indexed goes out as such.
\<close>

lemma deflate_nv_spec:
  assumes ok: "bufs_ok lib out huff" and inv: "def_inv d"
    and run: "deflate_nv lib mem d b nv = (rv, d', b')"
  shows "def_inv d' \<and> def_frame d d' \<and>
    (rv = HD_OK \<longrightarrow>
      (\<exists>r. repr_field (hpack_fields (def_ctx d)) r = Some (nv_name nv, nv_value nv)
         \<and> out b' = out b @ repr_bytes huff r
         \<and> def_dyn d' = repr_table (def_max d) r (nv_name nv, nv_value nv) (def_dyn d)
         \<and> (nv_no_index nv \<longrightarrow> repr_mode r = Some NGHTTP2_HD_NEVER_INDEXING)))"
proof -
  define mode where "mode = deflate_mode d nv (lookup_token (nv_name nv))"
  define res where "res = search_hd_table (def_ctx d) nv (lookup_token (nv_name nv)) mode (def_map d) (deflate_hash (nv_name nv))"
  have s: "search_ok (hpack_fields (def_ctx d)) (nv_name nv, nv_value nv) (mode = NGHTTP2_HD_NEVER_INDEXING) res"
    unfolding res_def by (rule search_hd_table_ok) (use inv in \<open>auto simp: def_inv_def ctx_inv_def\<close>)
  note run' = run [unfolded deflate_nv_def Let_def, folded mode_def, folded res_def]
  have never: "nv_no_index nv \<longrightarrow> mode = NGHTTP2_HD_NEVER_INDEXING" by (simp add: mode_def deflate_mode_def)
  show ?thesis
  proof (cases "res_match res")
    case True
    then have "d' = d" "emit_indexed_block lib b (nat (res_index res)) = (rv, b')"
      using run' by (auto split: prod.splits)
    moreover have "repr_field (hpack_fields (def_ctx d)) (Indexed (nat (res_index res))) = Some (nv_name nv, nv_value nv)"
      using s True by (auto simp: search_ok_def split: if_splits)
    moreover have "\<not> nv_no_index nv" using never s True by (auto simp: search_ok_def)
    ultimately show ?thesis
      using inv emit_indexed_out [OF ok, of b "nat (res_index res)" b']
      by (auto simp: repr_table_def intro!: exI [of _ "Indexed (nat (res_index res))"])
  next
    case False
    have idx: "nat (res_index res) < length (hpack_fields (def_ctx d)) \<and> fst (hpack_fields (def_ctx d) ! nat (res_index res)) = nv_name nv"
      if "res_index res \<noteq> - 1" using s that by (auto simp: search_ok_def)
    obtain rv1 d1 where i: "(if mode = NGHTTP2_HD_WITH_INDEXING
        then deflate_index mem d nv (lookup_token (nv_name nv)) (res_index res) (deflate_hash (nv_name nv)) else (HD_OK, d)) = (rv1, d1)"
      by fastforce
    have d1: "def_inv d1 \<and> def_frame d d1 \<and> (rv1 = HD_OK \<longrightarrow> def_dyn d1 =
        (if mode = NGHTTP2_HD_WITH_INDEXING then dyn_add (def_max d) (nv_name nv, nv_value nv) (def_dyn d) else def_dyn d))"
      using i inv deflate_index_spec [OF inv idx] by (auto split: if_splits)
    show ?thesis
    proof (cases "rv1 = HD_OK")
      case fail: False
      then have "d' = d1 \<and> rv = rv1" using run' False i by auto
      then show ?thesis using d1 fail by simp
    next
      case ok1: True
      let ?r = "if res_index res = - 1 then NewName mode (nv_name nv) (nv_value nv)
                else IndName mode (nat (res_index res)) (nv_value nv)"
      have d': "d' = d1" and emit: "(if res_index res = - 1 then emit_newname_block lib b nv mode
          else emit_indname_block lib b (nat (res_index res)) nv mode) = (rv, b')"
        using run' False i ok1 by (auto split: prod.splits)
      have "repr_field (hpack_fields (def_ctx d)) ?r = Some (nv_name nv, nv_value nv)" using idx by auto
      moreover have "out b' = out b @ repr_bytes huff ?r" if "rv = HD_OK"
        using emit that emit_newname_out [OF ok, of b nv mode b'] emit_indname_out [OF ok, of b "nat (res_index res)" nv mode b']
        by (auto split: if_splits)
      moreover have "repr_mode ?r = Some mode" by simp
      ultimately show ?thesis
        using d1 d' ok1 never by (auto simp: repr_table_def intro!: exI [of _ ?r])
    qed
  qed
qed

definition nv_pair :: "nghttp2_nv \<Rightarrow> field" where
  "nv_pair nv = (nv_name nv, nv_value nv)"

text \<open>Fields that are never to be indexed are sent as such.\<close>

definition respects_no_index :: "nghttp2_nv list \<Rightarrow> hpack_repr list \<Rightarrow> bool" where
  "respects_no_index nvs rs \<longleftrightarrow>
     list_all2 (\<lambda>nv r. nv_no_index nv \<longrightarrow> repr_mode r = Some NGHTTP2_HD_NEVER_INDEXING) nvs rs"

lemma deflate_nvs_spec:
  assumes "bufs_ok lib out huff" and "def_inv d"
    and "deflate_nvs lib mem d b nvs = (rv, d', b')"
  shows "def_inv d' \<and> def_frame d d' \<and>
    (rv = HD_OK \<longrightarrow>
      (\<exists>rs. block_of (def_max d) (def_dyn d) rs (map nv_pair nvs)
         \<and> out b' = out b @ concat (map (repr_bytes huff) rs)
         \<and> def_dyn d' = block_table (def_max d) (def_dyn d) rs (map nv_pair nvs)
         \<and> respects_no_index nvs rs))"
  using assms(2,3)
proof (induction nvs arbitrary: d b)
  case Nil
  then show ?case by (auto simp: respects_no_index_def intro!: exI [of _ "[]"])
next
  case (Cons nv nvs)
  obtain rv1 d1 b1 where 1: "deflate_nv lib mem d b nv = (rv1, d1, b1)" by (metis prod_cases3)
  note s1 = deflate_nv_spec [OF assms(1) Cons.prems(1) 1]
  show ?case
  proof (cases "rv1 = HD_OK")
    case False
    then show ?thesis using Cons.prems(2) 1 s1 by simp
  next
    case True
    then have rest: "deflate_nvs lib mem d1 b1 nvs = (rv, d', b')" using Cons.prems(2) 1 by simp
    have i1: "def_inv d1" "def_frame d d1" using s1 by auto
    note s2 = Cons.IH [OF i1(1) rest]
    have max: "def_max d1 = def_max d" using i1(2) by (simp add: def_frame_def)
    obtain r where r: "repr_field (hpack_fields (def_ctx d)) r = Some (nv_pair nv)" "out b1 = out b @ repr_bytes huff r"
      "def_dyn d1 = repr_table (def_max d) r (nv_pair nv) (def_dyn d)"
      "nv_no_index nv \<longrightarrow> repr_mode r = Some NGHTTP2_HD_NEVER_INDEXING"
      using s1 True by (auto simp: nv_pair_def)
    have "\<exists>rs. block_of (def_max d) (def_dyn d) rs (map nv_pair (nv # nvs))
         \<and> out b' = out b @ concat (map (repr_bytes huff) rs)
         \<and> def_dyn d' = block_table (def_max d) (def_dyn d) rs (map nv_pair (nv # nvs))
         \<and> respects_no_index (nv # nvs) rs" if ok: "rv = HD_OK"
    proof -
      obtain rs where "block_of (def_max d) (def_dyn d1) rs (map nv_pair nvs)"
        "out b' = out b1 @ concat (map (repr_bytes huff) rs)"
        "def_dyn d' = block_table (def_max d) (def_dyn d1) rs (map nv_pair nvs)" "respects_no_index nvs rs"
        using s2 ok max by auto
      then show ?thesis
        using r by (intro exI [of _ "r # rs"]) (auto simp: respects_no_index_def hpack_fields_def)
    qed
    then show ?thesis using s2 i1 def_frame_trans by blast
  qed
qed

section \<open>Size updates\<close>

text \<open>The updates that are due at the next header block.\<close>

definition due_sizes :: "nghttp2_hd_deflater \<Rightarrow> nat list" where
  "due_sizes d =
     (if notify_table_size_change d
      then (if def_min_hd_table_bufsize_max d < def_max d then [def_min_hd_table_bufsize_max d] else []) @ [def_max d]
      else [])"

definition size_bytes :: "nat list \<Rightarrow> byte list" where
  "size_bytes ns = concat (map (\<lambda>n. encode_length 0x20 n 5) ns)"

lemma deflate_notify_spec:
  assumes "bufs_ok lib out huff" and "def_inv d" and "deflate_notify lib d b = (rv, d', b')"
  shows "def_inv d' \<and> def_max d' = def_max d \<and> def_dyn d' = def_dyn d \<and> bad (def_ctx d') = bad (def_ctx d)
    \<and> deflate_hd_table_bufsize_max d' = deflate_hd_table_bufsize_max d \<and> \<not> notify_table_size_change d'
    \<and> (notify_table_size_change d \<longrightarrow> def_min_hd_table_bufsize_max d' = UINT32_MAX)
    \<and> (\<not> notify_table_size_change d \<longrightarrow> d' = d)
    \<and> (rv = HD_OK \<longrightarrow> out b' = out b @ size_bytes (due_sizes d))"
proof (cases "notify_table_size_change d")
  case False
  then show ?thesis using assms by (simp add: deflate_notify_def due_sizes_def size_bytes_def)
next
  case True
  let ?d = "d\<lparr>notify_table_size_change := False, def_min_hd_table_bufsize_max := UINT32_MAX\<rparr>"
  have inv: "def_inv ?d" using assms(2) by (simp add: def_inv_def UINT32_MAX_def)
  obtain rv1 b1 where 1: "(if def_max d > def_min_hd_table_bufsize_max d then emit_table_size lib b (def_min_hd_table_bufsize_max d)
      else (HD_OK, b)) = (rv1, b1)" by fastforce
  have d': "d' = ?d" and rv: "if rv1 = HD_OK then emit_table_size lib b1 (def_max d) = (rv, b') else rv = rv1"
    using assms(3) True 1 by (auto simp: deflate_notify_def Let_def split: if_splits prod.splits)
  have "out b' = out b @ size_bytes (due_sizes d)" if "rv = HD_OK"
  proof -
    have ok: "rv1 = HD_OK" "emit_table_size lib b1 (def_max d) = (HD_OK, b')" using rv that by (auto split: if_splits)
    show ?thesis
      using emit_table_size_out [OF assms(1) ok(2)] 1 ok(1) emit_table_size_out [OF assms(1), of b _ b1] True
      by (auto simp: due_sizes_def size_bytes_def split: if_splits)
  qed
  then show ?thesis using inv d' True by simp
qed

text \<open>A whole header block.\<close>

lemma deflate_hd_bufs_spec:
  assumes "bufs_ok lib out huff" and "def_inv d"
    and "nghttp2_hd_deflate_hd_bufs lib mem d b nvs = (rv, d', b')"
  shows "def_inv d' \<and> (bad (def_ctx d') \<longleftrightarrow> rv \<noteq> HD_OK) \<and> def_max d' = def_max d
    \<and> (rv = HD_OK \<longrightarrow> \<not> notify_table_size_change d' \<and>
      (\<exists>rs. block_of (def_max d) (def_dyn d) rs (map nv_pair nvs)
         \<and> out b' = out b @ size_bytes (due_sizes d) @ concat (map (repr_bytes huff) rs)
         \<and> def_dyn d' = block_table (def_max d) (def_dyn d) rs (map nv_pair nvs)
         \<and> respects_no_index nvs rs))"
proof (cases "bad (def_ctx d)")
  case True
  then show ?thesis using assms by (simp add: nghttp2_hd_deflate_hd_bufs_def)
next
  case False
  obtain rv1 d1 b1 where 1: "deflate_notify lib d b = (rv1, d1, b1)" by (metis prod_cases3)
  note s1 = deflate_notify_spec [OF assms(1,2) 1]
  have bad_inv: "def_inv (e\<lparr>def_ctx := (def_ctx e)\<lparr>bad := True\<rparr>\<rparr>)" if "def_inv e" for e
    using that by (simp add: def_inv_def ctx_inv_def ctx_base_def hd_dyn_def)
  show ?thesis
  proof (cases "rv1 = HD_OK")
    case fail: False
    then show ?thesis
      using assms(3) 1 False s1 bad_inv [of d1] by (auto simp: nghttp2_hd_deflate_hd_bufs_def)
  next
    case ok: True
    obtain rv2 d2 b2 where 2: "deflate_nvs lib mem d1 b1 nvs = (rv2, d2, b2)" by (metis prod_cases3)
    have "def_inv d1" using s1 by simp
    note s2 = deflate_nvs_spec [OF assms(1) this 2]
    have eq: "nghttp2_hd_deflate_hd_bufs lib mem d b nvs =
        (if rv2 = HD_OK then (rv2, d2, b2) else (rv2, d2\<lparr>def_ctx := (def_ctx d2)\<lparr>bad := True\<rparr>\<rparr>, b2))"
      using False 1 2 ok by (simp add: nghttp2_hd_deflate_hd_bufs_def)
    show ?thesis
    proof (cases "rv2 = HD_OK")
      case True
      then have "rv = HD_OK" "d' = d2" "b' = b2" using assms(3) eq by auto
      then show ?thesis using s1 s2 True ok False by (auto simp: def_frame_def)
    next
      case nok: False
      then have "rv = rv2" "d' = d2\<lparr>def_ctx := (def_ctx d2)\<lparr>bad := True\<rparr>\<rparr>" using assms(3) eq by auto
      then show ?thesis using s1 s2 nok bad_inv [of d2] by (auto simp: def_frame_def)
    qed
  qed
qed

lemma deflate_hd_bufs_frame:
  assumes "bufs_ok lib out huff" and "def_inv d"
    and "nghttp2_hd_deflate_hd_bufs lib mem d b nvs = (HD_OK, d', b')"
  shows "deflate_hd_table_bufsize_max d' = deflate_hd_table_bufsize_max d"
    and "def_min_hd_table_bufsize_max d' = (if notify_table_size_change d then UINT32_MAX else def_min_hd_table_bufsize_max d)"
proof -
  obtain rv1 d1 b1 where 1: "deflate_notify lib d b = (rv1, d1, b1)" by (metis prod_cases3)
  then have ok: "rv1 = HD_OK" "deflate_nvs lib mem d1 b1 nvs = (HD_OK, d', b')"
    using assms(3) by (auto simp: nghttp2_hd_deflate_hd_bufs_def split: prod.splits if_splits)
  note s1 = deflate_notify_spec [OF assms(1,2) 1]
  then have "def_inv d1" by simp
  from deflate_nvs_spec [OF assms(1) this ok(2)] s1
  show "deflate_hd_table_bufsize_max d' = deflate_hd_table_bufsize_max d"
    and "def_min_hd_table_bufsize_max d' = (if notify_table_size_change d then UINT32_MAX else def_min_hd_table_bufsize_max d)"
    by (auto simp: def_frame_def)
qed

lemma change_table_size_spec:
  assumes "def_inv d" and "min n (deflate_hd_table_bufsize_max d) < 2 ^ 32"
    and "nghttp2_hd_deflate_change_table_size d n = (rv, d')"
  shows "rv = HD_OK \<and> def_inv d' \<and> def_max d' = min n (deflate_hd_table_bufsize_max d) \<and> notify_table_size_change d'
    \<and> deflate_hd_table_bufsize_max d' = deflate_hd_table_bufsize_max d
    \<and> bad (def_ctx d') = bad (def_ctx d)
    \<and> def_min_hd_table_bufsize_max d' = min (def_min_hd_table_bufsize_max d) (def_max d')
    \<and> def_dyn d' = dyn_evict (def_max d') (def_dyn d)"
proof -
  let ?n = "min n (deflate_hd_table_bufsize_max d)"
  let ?c = "(def_ctx d)\<lparr>hd_table_bufsize_max := ?n\<rparr>"
  have "ctx_base ?c" "hd_table_bufsize_max ?c < 2 ^ 32" "opt_map_inv (ents ?c) (Some (def_map d))"
    using assms(1,2) by (auto simp: def_inv_def ctx_inv_def ctx_base_def hd_dyn_def opt_map_inv_def)
  from shrink_spec [OF this(1,3,2)] obtain c m where
    "hd_context_shrink_table_size ?c (Some (def_map d)) = Some (c, Some m)"
    "ctx_inv c" "map_inv (ents c) m" "hd_table_bufsize_max c = ?n" "bad c = bad (def_ctx d)"
    "set (ents c) \<subseteq> set (ents (def_ctx d))" "hd_dyn c = dyn_evict ?n (def_dyn d)"
    by (auto simp: opt_map_inv_def hd_dyn_def split: option.splits)
  then show ?thesis
    using assms(1,3) by (auto simp: nghttp2_hd_deflate_change_table_size_def Let_def def_inv_def hash_inv_def)
qed

section \<open>The bound\<close>

text \<open>Buffers with room for \<open>cap\<close> bytes: what fits is written.\<close>

definition bufs_room :: "'b bufs_lib \<Rightarrow> ('b \<Rightarrow> byte list) \<Rightarrow> (byte list \<Rightarrow> byte list) \<Rightarrow> nat \<Rightarrow> bool" where
  "bufs_room lib out huff cap \<longleftrightarrow>
     (\<forall>b xs. length (out b) + length xs \<le> cap \<longrightarrow> fst (bufs_add lib b xs) = HD_OK)
     \<and> (\<forall>b x. length (out b) + 1 \<le> cap \<longrightarrow> fst (bufs_addb lib b x) = HD_OK)
     \<and> (\<forall>b s. length (out b) + length (huff s) \<le> cap \<longrightarrow> fst (huff_encode lib b s) = HD_OK)"

lemma bufs_roomD:
  assumes "bufs_room lib out huff cap"
  shows "length (out b) + length xs \<le> cap \<Longrightarrow> fst (bufs_add lib b xs) = HD_OK"
    and "length (out b) + 1 \<le> cap \<Longrightarrow> fst (bufs_addb lib b x) = HD_OK"
    and "length (out b) + length (huff s) \<le> cap \<Longrightarrow> fst (huff_encode lib b s) = HD_OK"
  using assms by (auto simp: bufs_room_def)

lemma sb_fits:
  assumes "n < 2 ^ 32"
  shows "\<not> sb_size < count_encoded_length n prefix"
  using count_encoded_length_le [OF assms, of prefix] by (simp add: sb_size_def)

lemma emit_table_size_room:
  assumes "bufs_room lib out huff cap" and "n < 2 ^ 32"
    and "length (out b) + length (encode_length 0x20 n 5) \<le> cap"
  shows "fst (emit_table_size lib b n) = HD_OK"
  using assms bufs_roomD(1) [OF assms(1)] sb_fits [OF assms(2)] by (simp add: emit_table_size_def)

lemma emit_indexed_room:
  assumes "bufs_room lib out huff cap" and "i + 1 < 2 ^ 32"
    and "length (out b) + length (repr_bytes huff (Indexed i)) \<le> cap"
  shows "fst (emit_indexed_block lib b i) = HD_OK"
  using assms bufs_roomD(1) [OF assms(1)] sb_fits [OF assms(2)] by (simp add: emit_indexed_block_def)

lemma emit_string_room:
  assumes ok: "bufs_ok lib out huff" and room: "bufs_room lib out huff cap" and "length s < 2 ^ 32"
    and "length (out b) + length (string_bytes huff s) \<le> cap"
  shows "fst (emit_string lib b s) = HD_OK"
proof -
  let ?h = "length (huff s) < length s"
  let ?n = "if ?h then length (huff s) else length s"
  have "\<not> sb_size < count_encoded_length ?n 7" by (rule sb_fits) (use assms(3) in auto)
  moreover obtain b1 where b1: "bufs_add lib b (encode_length (if ?h then 0x80 else 0) ?n 7) = (HD_OK, b1)"
    using bufs_roomD(1) [OF room, of b "encode_length (if ?h then 0x80 else 0) ?n 7"] assms(4)
    by (cases "bufs_add lib b (encode_length (if ?h then 0x80 else 0) ?n 7)")
      (auto simp: string_bytes_def split: if_splits)
  moreover have "fst (if ?h then huff_encode lib b1 s else bufs_add lib b1 s) = HD_OK"
    using bufs_okD(1) [OF ok b1] bufs_roomD(1,3) [OF room, of b1] assms(4)
    by (auto simp: string_bytes_def split: if_splits)
  ultimately show ?thesis
    using bufs_okD(4) [OF ok] by (auto simp: emit_string_def Let_def split: if_splits)
qed

lemma emit_indname_room:
  assumes ok: "bufs_ok lib out huff" and room: "bufs_room lib out huff cap"
    and "i + 1 < 2 ^ 32" and "length (nv_value nv) < 2 ^ 32"
    and "length (out b) + length (repr_bytes huff (IndName mode i (nv_value nv))) \<le> cap"
  shows "fst (emit_indname_block lib b i nv mode) = HD_OK"
proof -
  obtain b1 where b1: "bufs_add lib b (encode_length (mode_byte mode) (i + 1) (mode_prefix mode)) = (HD_OK, b1)"
    using bufs_roomD(1) [OF room, of b "encode_length (mode_byte mode) (i + 1) (mode_prefix mode)"] assms(5)
    by (cases "bufs_add lib b (encode_length (mode_byte mode) (i + 1) (mode_prefix mode))") auto
  have "fst (emit_string lib b1 (nv_value nv)) = HD_OK"
    by (rule emit_string_room [OF ok room assms(4)]) (use bufs_okD(1) [OF ok b1] assms(5) in simp)
  then show ?thesis
    using b1 sb_fits [OF assms(3), of "mode_prefix mode"]
    by (simp add: emit_indname_block_def mode_prefix_conv pack_first_byte_mode Let_def)
qed

lemma emit_newname_room:
  assumes ok: "bufs_ok lib out huff" and room: "bufs_room lib out huff cap"
    and "length (nv_name nv) < 2 ^ 32" and "length (nv_value nv) < 2 ^ 32"
    and "length (out b) + length (repr_bytes huff (NewName mode (nv_name nv) (nv_value nv))) \<le> cap"
  shows "fst (emit_newname_block lib b nv mode) = HD_OK"
proof -
  obtain b1 where b1: "bufs_addb lib b (mode_byte mode) = (HD_OK, b1)"
    using bufs_roomD(2) [OF room, of b "mode_byte mode"] assms(5)
    by (cases "bufs_addb lib b (mode_byte mode)") auto
  have o1: "out b1 = out b @ [mode_byte mode]" by (rule bufs_okD(2) [OF ok b1])
  have "fst (emit_string lib b1 (nv_name nv)) = HD_OK"
    by (rule emit_string_room [OF ok room assms(3)]) (use o1 assms(5) in simp)
  then obtain b2 where b2: "emit_string lib b1 (nv_name nv) = (HD_OK, b2)"
    by (cases "emit_string lib b1 (nv_name nv)") auto
  have "fst (emit_string lib b2 (nv_value nv)) = HD_OK"
    by (rule emit_string_room [OF ok room assms(4)]) (use o1 emit_string_out [OF ok b2] assms(5) in simp)
  then show ?thesis
    using b1 b2 by (simp add: emit_newname_block_def pack_first_byte_mode)
qed

text \<open>An allocator that does not fail.\<close>

definition mem_ok :: "nghttp2_mem \<Rightarrow> bool" where
  "mem_ok mem \<longleftrightarrow> mem_entry mem \<and> (\<forall>n. mem_slots mem n) \<and> (\<forall>n. mem_rcbuf mem n)"

lemma deflate_index_succeeds:
  assumes inv: "def_inv d" and mem: "mem_ok mem"
    and idx: "idx \<noteq> - 1 \<Longrightarrow> nat idx < length (hpack_fields (def_ctx d)) \<and> fst (hpack_fields (def_ctx d) ! nat idx) = nv_name nv"
  shows "fst (deflate_index mem d nv (lookup_token (nv_name nv)) idx (deflate_hash (nv_name nv))) = HD_OK"
proof -
  have base: "ctx_base (def_ctx d)" and ctx: "ctx_inv (def_ctx d)"
    and map: "opt_map_inv (ents (def_ctx d)) (Some (def_map d))"
    using inv by (auto simp: def_inv_def ctx_inv_def opt_map_inv_def)
  let ?nv = "\<lparr>hd_name = nv_name nv, hd_value = nv_value nv, hd_token = lookup_token (nv_name nv), hd_no_index = False\<rparr>"
  have get: "\<exists>e. nghttp2_hd_table_get (def_ctx d) (nat idx) = Some e \<and> hd_name e = nv_name nv" if "idx \<noteq> - 1"
    using idx [OF that] table_get_Some [OF base, of "nat idx"] by metis
  obtain r ctx' m where add: "add_hd_table_incremental mem (def_ctx d) ?nv (Some (def_map d)) (deflate_hash (nv_name nv)) = (r, ctx', m)"
    by (metis prod_cases3)
  have "r = HD_OK"
    using add_hd_table_spec [OF ctx map _ add] mem by (auto simp: mem_ok_def split: if_splits)
  then show ?thesis
    using get add mem by (cases "idx = - 1") (auto simp: deflate_index_def Let_def mem_ok_def split: option.splits)
qed

lemma hpack_fields_bound:
  assumes "ctx_inv ctx"
  shows "length (hpack_fields ctx) < 2 ^ 32 - 1"
  using assms by (simp add: hpack_fields_def ctx_inv_def ctx_base_def NGHTTP2_STATIC_TABLE_LENGTH_def)

lemma deflate_nv_room:
  assumes ok: "bufs_ok lib out huff" and room: "bufs_room lib out huff cap" and mem: "mem_ok mem" and inv: "def_inv d"
    and len: "length (nv_name nv) < 2 ^ 28" "length (nv_value nv) < 2 ^ 28"
    and cap: "length (out b) + 12 + length (nv_name nv) + length (nv_value nv) \<le> cap"
  shows "fst (deflate_nv lib mem d b nv) = HD_OK"
proof -
  define mode where "mode = deflate_mode d nv (lookup_token (nv_name nv))"
  define res where "res = search_hd_table (def_ctx d) nv (lookup_token (nv_name nv)) mode (def_map d) (deflate_hash (nv_name nv))"
  let ?i = "nat (res_index res)" and ?fs = "hpack_fields (def_ctx d)"
  have s: "search_ok ?fs (nv_name nv, nv_value nv) (mode = NGHTTP2_HD_NEVER_INDEXING) res"
    unfolding res_def by (rule search_hd_table_ok) (use inv in \<open>auto simp: def_inv_def ctx_inv_def\<close>)
  have fs: "length ?fs < 2 ^ 32 - 1" using inv hpack_fields_bound by (simp add: def_inv_def)
  have idx: "?i < length ?fs \<and> fst (?fs ! ?i) = nv_name nv" if "res_index res \<noteq> - 1"
    using s that by (auto simp: search_ok_def)
  have fits: "length (out b) + length (repr_bytes huff r) \<le> cap" if "repr_field ?fs r = Some (nv_name nv, nv_value nv)" for r
    using repr_bytes_length [OF that fs, of huff] len cap by simp
  show ?thesis
  proof (cases "res_match res")
    case True
    then have r: "repr_field ?fs (Indexed ?i) = Some (nv_name nv, nv_value nv)"
      using s by (auto simp: search_ok_def split: if_splits)
    then have "?i + 1 < 2 ^ 32" using fs by (simp split: if_splits)
    then have "fst (emit_indexed_block lib b ?i) = HD_OK"
      using fits [OF r] by (intro emit_indexed_room [OF room])
    then show ?thesis using True by (auto simp: deflate_nv_def Let_def simp flip: mode_def res_def split: prod.splits)
  next
    case False
    have i: "fst (if mode = NGHTTP2_HD_WITH_INDEXING
        then deflate_index mem d nv (lookup_token (nv_name nv)) (res_index res) (deflate_hash (nv_name nv)) else (HD_OK, d)) = HD_OK"
      using deflate_index_succeeds [OF inv mem idx] by simp
    have e: "fst (if res_index res = - 1 then emit_newname_block lib b nv mode else emit_indname_block lib b ?i nv mode) = HD_OK"
    proof (cases "res_index res = - 1")
      case True
      then show ?thesis
        using len fits [of "NewName mode (nv_name nv) (nv_value nv)"] by (simp add: emit_newname_room [OF ok room])
    next
      case ind: False
      have "fst (emit_indname_block lib b ?i nv mode) = HD_OK"
        by (rule emit_indname_room [OF ok room]) (use ind idx fs len fits [of "IndName mode ?i (nv_value nv)"] in auto)
      then show ?thesis using ind by simp
    qed
    show ?thesis
      unfolding deflate_nv_def Let_def mode_def [symmetric] res_def [symmetric]
      using False i e by (simp only: if_False split_beta fst_conv simp_thms)
  qed
qed

lemma deflate_nvs_room:
  assumes ok: "bufs_ok lib out huff" and room: "bufs_room lib out huff cap" and mem: "mem_ok mem"
  shows "def_inv d \<Longrightarrow> \<forall>nv\<in>set nvs. length (nv_name nv) < 2 ^ 28 \<and> length (nv_value nv) < 2 ^ 28 \<Longrightarrow>
    length (out b) + 12 * length nvs + sum_list (map (\<lambda>nv. length (nv_name nv) + length (nv_value nv)) nvs) \<le> cap \<Longrightarrow>
    \<exists>d' b'. deflate_nvs lib mem d b nvs = (HD_OK, d', b')
      \<and> length (out b') \<le> length (out b) + 12 * length nvs + sum_list (map (\<lambda>nv. length (nv_name nv) + length (nv_value nv)) nvs)"
proof (induction nvs arbitrary: d b)
  case (Cons nv nvs)
  have len: "length (nv_name nv) < 2 ^ 28" "length (nv_value nv) < 2 ^ 28" using Cons.prems(2) by auto
  have "fst (deflate_nv lib mem d b nv) = HD_OK"
    by (rule deflate_nv_room [OF ok room mem Cons.prems(1) len]) (use Cons.prems(3) in simp)
  then obtain d1 b1 where 1: "deflate_nv lib mem d b nv = (HD_OK, d1, b1)" by (cases "deflate_nv lib mem d b nv") auto
  obtain r where inv1: "def_inv d1" and r: "repr_field (hpack_fields (def_ctx d)) r = Some (nv_name nv, nv_value nv)"
    "out b1 = out b @ repr_bytes huff r"
    using deflate_nv_spec [OF ok Cons.prems(1) 1] by auto
  have "length (hpack_fields (def_ctx d)) < 2 ^ 32 - 1"
    using Cons.prems(1) hpack_fields_bound by (simp add: def_inv_def)
  from repr_bytes_length [OF r(1) this, of huff] len
  have le: "length (out b1) \<le> length (out b) + 12 + length (nv_name nv) + length (nv_value nv)" using r(2) by simp
  obtain d2 b2 where "deflate_nvs lib mem d1 b1 nvs = (HD_OK, d2, b2)"
    "length (out b2) \<le> length (out b1) + 12 * length nvs + sum_list (map (\<lambda>nv. length (nv_name nv) + length (nv_value nv)) nvs)"
    using Cons.IH [OF inv1, of b1] Cons.prems le by auto
  then show ?case using 1 le by auto
qed simp

lemma deflate_notify_room:
  assumes ok: "bufs_ok lib out huff" and room: "bufs_room lib out huff cap" and inv: "def_inv d"
    and cap: "length (out b) + 12 \<le> cap"
  shows "fst (deflate_notify lib d b) = HD_OK"
proof (cases "notify_table_size_change d")
  case True
  let ?m = "def_min_hd_table_bufsize_max d"
  have lt: "?m < 2 ^ 32" "def_max d < 2 ^ 32" using inv by (auto simp: def_inv_def ctx_inv_def)
  note six = count_encoded_length_le [OF lt(1), of 5] count_encoded_length_le [OF lt(2), of 5]
  have "fst (emit_table_size lib b ?m) = HD_OK"
    by (rule emit_table_size_room [OF room lt(1)]) (use cap six in simp)
  then have "fst (if def_max d > ?m then emit_table_size lib b ?m else (HD_OK, b)) = HD_OK" by simp
  then obtain b1 where 1: "(if def_max d > ?m then emit_table_size lib b ?m else (HD_OK, b)) = (HD_OK, b1)"
    by (metis prod.collapse)
  have "length (out b1) \<le> length (out b) + 6"
    using 1 emit_table_size_out [OF ok, of b ?m b1] six by (auto split: if_splits)
  then have "fst (emit_table_size lib b1 (def_max d)) = HD_OK"
    using cap six by (intro emit_table_size_room [OF room lt(2)]) simp
  then show ?thesis using True 1 by (auto simp: deflate_notify_def Let_def split: prod.splits)
qed (simp add: deflate_notify_def)

lemma size_bytes_length: "\<forall>n\<in>set ns. n < 2 ^ 32 \<Longrightarrow> length (size_bytes ns) \<le> 6 * length ns"
proof (induction ns)
  case (Cons n ns)
  then show ?case using count_encoded_length_le [of n 5] by (auto simp: size_bytes_def)
qed (simp add: size_bytes_def)

lemma due_sizes_bounds: "def_inv d \<Longrightarrow> length (due_sizes d) \<le> 2 \<and> (\<forall>n\<in>set (due_sizes d). n < 2 ^ 32)"
  by (auto simp: due_sizes_def def_inv_def ctx_inv_def)

lemma deflate_init_inv:
  assumes "nghttp2_hd_deflate_init2 mem table_size n = Some d" and "table_size < 2 ^ 32"
  shows "def_inv d" and "def_dyn d = []" and "\<not> bad (def_ctx d)" and "def_max d = min table_size n"
    and "deflate_hd_table_bufsize_max d = n" and "def_min_hd_table_bufsize_max d = UINT32_MAX"
    and "notify_table_size_change d \<longleftrightarrow> n < table_size"
proof -
  obtain ctx where ctx: "hd_context_init mem table_size = Some ctx"
    and d: "d = \<lparr>def_ctx = (if n < table_size then ctx\<lparr>hd_table_bufsize_max := n\<rparr> else ctx), def_map = hd_map_init,
      deflate_hd_table_bufsize_max = n, def_min_hd_table_bufsize_max = UINT32_MAX, notify_table_size_change = (n < table_size)\<rparr>"
    using assms(1) by (auto simp: nghttp2_hd_deflate_init2_def Let_def split: option.splits)
  note i = context_init_spec [OF ctx assms(2)]
  have "hd_table_bufsize ctx = 0" using i(1,2) by (simp add: ctx_inv_def ctx_base_def)
  then show "def_inv d" and "def_dyn d = []" and "\<not> bad (def_ctx d)" and "def_max d = min table_size n"
    and "deflate_hd_table_bufsize_max d = n" and "def_min_hd_table_bufsize_max d = UINT32_MAX"
    and "notify_table_size_change d \<longleftrightarrow> n < table_size"
    using i map_init by (auto simp: d def_inv_def ctx_inv_def ctx_base_def hash_inv_def hd_dyn_def UINT32_MAX_def)
qed

lemma deflate_hd_bufs_room:
  assumes "bufs_ok lib out huff" and "bufs_room lib out huff (length (out b) + nghttp2_hd_deflate_bound nvs)"
    and "mem_ok mem" and "def_inv d" and "\<not> bad (def_ctx d)"
    and "\<forall>nv\<in>set nvs. length (nv_name nv) < 2 ^ 28 \<and> length (nv_value nv) < 2 ^ 28"
  shows "\<exists>d' b'. nghttp2_hd_deflate_hd_bufs lib mem d b nvs = (HD_OK, d', b')
    \<and> length (out b') \<le> length (out b) + nghttp2_hd_deflate_bound nvs"
proof -
  let ?s = "sum_list (map (\<lambda>nv. length (nv_name nv) + length (nv_value nv)) nvs)"
  have "fst (deflate_notify lib d b) = HD_OK"
    by (rule deflate_notify_room [OF assms(1,2,4)]) (simp add: nghttp2_hd_deflate_bound_def)
  then obtain d1 b1 where 1: "deflate_notify lib d b = (HD_OK, d1, b1)" by (cases "deflate_notify lib d b") auto
  have s1: "def_inv d1" "out b1 = out b @ size_bytes (due_sizes d)"
    using deflate_notify_spec [OF assms(1,4) 1] by auto
  have le: "length (out b1) \<le> length (out b) + 12"
    using s1(2) size_bytes_length [of "due_sizes d"] due_sizes_bounds [OF assms(4)] by simp
  then have "length (out b1) + 12 * length nvs + ?s \<le> length (out b) + nghttp2_hd_deflate_bound nvs"
    by (simp add: nghttp2_hd_deflate_bound_def)
  from deflate_nvs_room [OF assms(1,2,3) s1(1) assms(6) this]
  obtain d2 b2 where "deflate_nvs lib mem d1 b1 nvs = (HD_OK, d2, b2)"
    "length (out b2) \<le> length (out b1) + 12 * length nvs + ?s" by blast
  then show ?thesis
    using 1 assms(5) le by (auto simp: nghttp2_hd_deflate_hd_bufs_def nghttp2_hd_deflate_bound_def)
qed

section \<open>Properties\<close>

text \<open>C29: the bound on the compressed size is one: when the buffers have room for
  \<open>nghttp2_hd_deflate_bound\<close> more bytes and the allocator does not fail, compressing a header
  list succeeds, pending table size updates included, and writes no more than that. The names
  and values are shorter than 256 MiB; \<open>newname_exceeds_bound\<close> shows why.\<close>

theorem deflate_within_bound:
  assumes "bufs_ok lib out huff" and "bufs_room lib out huff (length (out b) + nghttp2_hd_deflate_bound nvs)"
    and "mem_ok mem" and "def_inv d" and "\<not> bad (def_ctx d)"
    and "\<forall>nv\<in>set nvs. length (nv_name nv) < 2 ^ 28 \<and> length (nv_value nv) < 2 ^ 28"
  shows "\<exists>d' b'. nghttp2_hd_deflate_hd_bufs lib mem d b nvs = (HD_OK, d', b')
    \<and> length (out b') \<le> length (out b) + nghttp2_hd_deflate_bound nvs"
  using assms by (rule deflate_hd_bufs_room)

text \<open>Buffers that are byte lists, and a Huffman coder that does not change anything.\<close>

definition list_bufs :: "byte list bufs_lib" where
  "list_bufs =
     \<lparr>bufs_add = \<lambda>b xs. (HD_OK, b @ xs), bufs_addb = \<lambda>b x. (HD_OK, b @ [x]),
      huff_encode_count = length, huff_encode = \<lambda>b s. (HD_OK, b @ s),
      bufs_wrap_init = \<lambda>n. (HD_OK, []), bufs_len = length\<rparr>"

definition all_mem :: nghttp2_mem where
  "all_mem = \<lparr>mem_slots = \<lambda>_. True, mem_entry = True, mem_rcbuf = \<lambda>_. True\<rparr>"

lemma list_bufs_ok: "bufs_ok list_bufs id id" and list_bufs_room: "bufs_room list_bufs id id cap"
  by (auto simp: bufs_ok_def bufs_room_def list_bufs_def)

lemma all_mem_ok: "mem_ok all_mem"
  by (simp add: mem_ok_def all_mem_def)

lemma deflate_init_ex: "\<exists>d. nghttp2_hd_deflate_init2 all_mem 4096 n = Some d"
  by (simp add: nghttp2_hd_deflate_init2_def hd_context_init_def hd_ringbuf_init_def Let_def all_mem_def)

theorem deflate_within_bound_witness:
  "\<exists>d d' b'. nghttp2_hd_deflate_init2 all_mem 4096 100 = Some d
     \<and> nghttp2_hd_deflate_hd_bufs list_bufs all_mem d [] [\<lparr>nv_name = bytes ''te'', nv_value = bytes ''trailers'', nv_no_index = False\<rparr>]
         = (HD_OK, d', b')
     \<and> length b' \<le> 34"
proof -
  let ?nv = "\<lparr>nv_name = bytes ''te'', nv_value = bytes ''trailers'', nv_no_index = False\<rparr>"
  obtain d where d: "nghttp2_hd_deflate_init2 all_mem 4096 100 = Some d" using deflate_init_ex by blast
  have i: "def_inv d" "\<not> bad (def_ctx d)" using deflate_init_inv [OF d] by simp_all
  have "\<forall>nv\<in>set [?nv]. length (nv_name nv) < 2 ^ 28 \<and> length (nv_value nv) < 2 ^ 28" by simp
  from deflate_within_bound [OF list_bufs_ok list_bufs_room all_mem_ok i this, of "[]"]
  show ?thesis using d by (auto simp: nghttp2_hd_deflate_bound_def)
qed

end
