(* ===== verification/Hpack_Inflate_Repr.thy ===== *)
theory Hpack_Inflate_Repr
  imports Hpack_Inflate Hpack_Deflate
begin

text \<open>
  The inflater implements the representations of \<open>Hpack_Repr\<close>: given the bytes of an
  integer, a string, a field representation or a table size update, in front of any other
  bytes, its loop returns the field that they stand for and leaves the table that the
  specification says.
\<close>

text \<open>Decoding undoes the code, when a coded string is given in one piece.\<close>

definition huff_decodes :: "'h huff_lib \<Rightarrow> (byte list \<Rightarrow> byte list) \<Rightarrow> bool" where
  "huff_decodes L huff \<longleftrightarrow>
     (\<forall>s. \<exists>h. huff_decode L (huff_init L) (huff s) True = Inr (h, s, length (huff s)) \<and> \<not> huff_failure L h)"

section \<open>Integers and strings\<close>

lemma encode_length_ne [simp]: "encode_length first n prefix \<noteq> []"
  using count_encoded_length_pos [of n prefix] length_encode_length [of first n prefix] by (metis length_0_conv less_irrefl)

lemma drop_encode [simp]: "drop (count_encoded_length n prefix) (encode_length first n prefix @ tail) = tail"
  by (metis append_eq_conv_conj length_encode_length)

lemma read_len_encode:
  assumes "n < 2 ^ 32" and "0 < prefix" and "prefix \<le> 8" and "n \<le> maxlen" and "inf_left i = 0" and "inf_shift i = 0"
  obtains s where "hd_inflate_read_len i (encode_length first n prefix @ tail) prefix maxlen
    = (HD_OK, True, count_encoded_length n prefix, i\<lparr>inf_shift := s, inf_left := n\<rparr>)"
proof -
  obtain s where "decode_length 0 0 (encode_length first n prefix @ tail) prefix = DL_ok (of_nat n) s True (count_encoded_length n prefix)"
    using decode_encode [OF assms(1-3), of first tail] by auto
  moreover have "unat (of_nat n :: 32 word) = n" using assms(1) by (simp add: unat_of_nat)
  ultimately show thesis using that [of s] assms(4-6) by (simp add: hd_inflate_read_len_def)
qed

text \<open>How the first byte of a block is recognized.\<close>

lemma first_byte_facts:
  fixes m :: byte
  shows "m \<le> 0x1f \<Longrightarrow> ((0x20 AND NOT 0x1f) OR m) AND 0xe0 = 0x20"
    and "m \<le> 0x7f \<Longrightarrow> ((0x80 AND NOT 0x7f) OR m) AND 0xe0 \<noteq> 0x20"
    and "m \<le> 0x7f \<Longrightarrow> ((0x80 AND NOT 0x7f) OR m) AND 0x80 \<noteq> 0"
    and "m \<le> 0x7f \<Longrightarrow> ((0 AND NOT 0x7f) OR m) AND 0x80 = 0"
proof -
  have "\<forall>m::byte. m \<le> 0x1f \<longrightarrow> ((0x20 AND NOT 0x1f) OR m) AND 0xe0 = 0x20" unfolding all_byte by code_simp
  then show "m \<le> 0x1f \<Longrightarrow> ((0x20 AND NOT 0x1f) OR m) AND 0xe0 = 0x20" by blast
  have "\<forall>m::byte. m \<le> 0x7f \<longrightarrow> ((0x80 AND NOT 0x7f) OR m) AND 0xe0 \<noteq> 0x20" unfolding all_byte by code_simp
  then show "m \<le> 0x7f \<Longrightarrow> ((0x80 AND NOT 0x7f) OR m) AND 0xe0 \<noteq> 0x20" by blast
  have "\<forall>m::byte. m \<le> 0x7f \<longrightarrow> ((0x80 AND NOT 0x7f) OR m) AND 0x80 \<noteq> 0" unfolding all_byte by code_simp
  then show "m \<le> 0x7f \<Longrightarrow> ((0x80 AND NOT 0x7f) OR m) AND 0x80 \<noteq> 0" by blast
  have "\<forall>m::byte. m \<le> 0x7f \<longrightarrow> ((0 AND NOT 0x7f) OR m) AND 0x80 = 0" unfolding all_byte by code_simp
  then show "m \<le> 0x7f \<Longrightarrow> ((0 AND NOT 0x7f) OR m) AND 0x80 = 0" by blast
qed

lemma mode_byte_facts:
  fixes m :: byte
  assumes "m \<le> of_nat (2 ^ mode_prefix mode - 1)" and "m \<noteq> 0"
  defines "b \<equiv> (mode_byte mode AND NOT (of_nat (2 ^ mode_prefix mode - 1))) OR m"
  shows "b AND 0xe0 \<noteq> 0x20 \<and> b AND 0x80 = 0 \<and> b \<noteq> 0x40 \<and> b \<noteq> 0 \<and> b \<noteq> 0x10
    \<and> (b AND 0x40 \<noteq> 0 \<longleftrightarrow> mode = NGHTTP2_HD_WITH_INDEXING) \<and> (b AND 0xf0 = 0x10 \<longleftrightarrow> mode = NGHTTP2_HD_NEVER_INDEXING)"
proof -
  have w: "\<forall>m::byte. m \<le> 0x3f \<longrightarrow> m \<noteq> 0 \<longrightarrow> (let b = (0x40 AND NOT 0x3f) OR m in b AND 0xe0 \<noteq> 0x20 \<and> b AND 0x80 = 0
     \<and> b \<noteq> 0x40 \<and> b \<noteq> 0 \<and> b \<noteq> 0x10 \<and> b AND 0x40 \<noteq> 0 \<and> b AND 0xf0 \<noteq> 0x10)" unfolding all_byte by code_simp
  have o: "\<forall>m::byte. m \<le> 0xf \<longrightarrow> m \<noteq> 0 \<longrightarrow> (let b = (0 AND NOT 0xf) OR m in b AND 0xe0 \<noteq> 0x20 \<and> b AND 0x80 = 0
     \<and> b \<noteq> 0x40 \<and> b \<noteq> 0 \<and> b \<noteq> 0x10 \<and> b AND 0x40 = 0 \<and> b AND 0xf0 \<noteq> 0x10)" unfolding all_byte by code_simp
  have n: "\<forall>m::byte. m \<le> 0xf \<longrightarrow> m \<noteq> 0 \<longrightarrow> (let b = (0x10 AND NOT 0xf) OR m in b AND 0xe0 \<noteq> 0x20 \<and> b AND 0x80 = 0
     \<and> b \<noteq> 0x40 \<and> b \<noteq> 0 \<and> b \<noteq> 0x10 \<and> b AND 0x40 = 0 \<and> b AND 0xf0 = 0x10)" unfolding all_byte by code_simp
  show ?thesis
  proof (cases mode)
    case NGHTTP2_HD_WITH_INDEXING
    then show ?thesis using assms w by (simp add: Let_def)
  next
    case NGHTTP2_HD_WITHOUT_INDEXING
    then show ?thesis using assms o by (simp add: Let_def)
  next
    case NGHTTP2_HD_NEVER_INDEXING
    then show ?thesis using assms n by (simp add: Let_def)
  qed
qed

text \<open>The bytes behind the length of a string.\<close>

definition str_huff :: "(byte list \<Rightarrow> byte list) \<Rightarrow> byte list \<Rightarrow> bool" where
  "str_huff huff s \<longleftrightarrow> length (huff s) < length s"

definition str_body :: "(byte list \<Rightarrow> byte list) \<Rightarrow> byte list \<Rightarrow> byte list" where
  "str_body huff s = (if str_huff huff s then huff s else s)"

lemma string_bytes_body:
  "string_bytes huff s = encode_length (if str_huff huff s then 0x80 else 0) (length (str_body huff s)) 7 @ str_body huff s"
  by (simp add: string_bytes_def str_body_def str_huff_def)

text \<open>What reading strings leaves alone.\<close>

definition inf_frame :: "'h nghttp2_hd_inflater \<Rightarrow> 'h nghttp2_hd_inflater \<Rightarrow> bool" where
  "inf_frame i j \<longleftrightarrow>
     inf_ctx j = inf_ctx i \<and> inf_index j = inf_index i \<and> inf_opcode j = inf_opcode i
     \<and> settings_hd_table_bufsize_max j = settings_hd_table_bufsize_max i
     \<and> inf_min_hd_table_bufsize_max j = inf_min_hd_table_bufsize_max i
     \<and> index_required j = index_required i \<and> no_index j = no_index i"

lemma string_first:
  assumes "string_bytes huff s @ tail = b # bs"
  shows "b AND 0x80 \<noteq> 0 \<longleftrightarrow> str_huff huff s"
proof -
  let ?f = "if str_huff huff s then 0x80 else 0 :: byte"
  obtain m cs where "encode_length ?f (length (str_body huff s)) 7 = ((?f AND NOT (of_nat (2 ^ 7 - 1))) OR m) # cs"
    and "m \<le> of_nat (2 ^ 7 - 1)"
    using encode_length_first [of 7 ?f "length (str_body huff s)"] by auto
  then show ?thesis
    using assms first_byte_facts(3,4) [of m] by (auto simp: string_bytes_body split: if_splits)
qed

text \<open>The body is read into a buffer of the size that was chosen for it.\<close>

lemma read_body:
  assumes L: "huff_contract L" "huff_decodes L huff"
    and "inf_left i = length (str_body huff s)" and "str_huff huff s \<Longrightarrow> huff_decode_ctx i = huff_init L"
    and buf: "buf = \<lparr>hb_bytes = [], hb_size = (if str_huff huff s then length (str_body huff s) * 2 + 1 else length (str_body huff s) + 1)\<rparr>"
  obtains h where "(if str_huff huff s then hd_inflate_read_huff L i buf (str_body huff s @ tail)
      else hd_inflate_read i buf (str_body huff s @ tail))
    = (HD_OK, length (str_body huff s), buf\<lparr>hb_bytes := s\<rparr>, i\<lparr>huff_decode_ctx := h, inf_left := 0\<rparr>)"
    and "hd_buf_finish (buf\<lparr>hb_bytes := s\<rparr>) = Some s"
proof (cases "str_huff huff s")
  case True
  then have b: "str_body huff s = huff s" by (simp add: str_body_def)
  obtain h where h: "huff_decode L (huff_init L) (huff s) True = Inr (h, s, length (huff s))" "\<not> huff_failure L h"
    using L(2) unfolding huff_decodes_def by blast
  have "length s \<le> 2 * length (huff s)"
    using L(1) h(1) unfolding huff_contract_def by (metis (mono_tags, lifting) case_prod_conv sum.case(2))
  then show thesis
    using that [of h] True h assms(3,4) buf by (simp add: b hd_inflate_read_huff_def Let_def hd_buf_finish_def)
next
  case False
  then show thesis
    using that [of "huff_decode_ctx i"] assms(3) buf
    by (simp add: str_body_def hd_inflate_read_def Let_def hd_buf_finish_def)
qed

text \<open>A value, and the commit of its field.\<close>

lemma inflate_value:
  assumes L: "huff_contract L" "huff_decodes L huff" and mem: "mem_ok mem"
    and st: "inf_state i = NGHTTP2_HD_STATE_CHECK_VALUELEN"
    and len: "length (str_body huff v) \<le> NGHTTP2_HD_MAX_NV"
  shows "\<exists>j. inf_frame i j \<and> namercbuf j = namercbuf i \<and> valuercbuf j = Some v \<and>
    inf_loop L mem i (string_bytes huff v @ tail) False =
      (case if inf_opcode j = NGHTTP2_HD_OPCODE_NEWNAME then hd_inflate_commit_newname mem j else hd_inflate_commit_indname mem j of
         (Inl rv, k) \<Rightarrow> Inf_fail rv k
       | (Inr nv, k) \<Rightarrow> Inf_emit nv (k\<lparr>inf_state := NGHTTP2_HD_STATE_OPCODE\<rparr>) tail)"
proof -
  let ?n = "length (str_body huff v)" and ?h = "str_huff huff v"
  let ?inp = "string_bytes huff v @ tail" and ?rest = "str_body huff v @ tail"
  obtain b bs where inp: "?inp = b # bs" by (cases ?inp) (auto simp: string_bytes_body)
  define i0 where "i0 = (hd_inflate_set_huffman_encoded b i)\<lparr>inf_state := NGHTTP2_HD_STATE_READ_VALUELEN, inf_left := 0, inf_shift := 0\<rparr>"
  have i0: "huffman_encoded i0 \<longleftrightarrow> ?h" "inf_left i0 = 0" "inf_shift i0 = 0"
    using string_first [OF inp] by (simp_all add: i0_def hd_inflate_set_huffman_encoded_def)
  have "?n < 2 ^ 32" using len by (simp add: NGHTTP2_HD_MAX_NV_def)
  then obtain s where s: "hd_inflate_read_len i0 ?inp 7 NGHTTP2_HD_MAX_NV
      = (HD_OK, True, count_encoded_length ?n 7, i0\<lparr>inf_shift := s, inf_left := ?n\<rparr>)"
    using read_len_encode [of ?n 7 NGHTTP2_HD_MAX_NV i0 "if ?h then 0x80 else 0" ?rest] len i0(2,3)
    by (auto simp: string_bytes_body)
  define buf where "buf = \<lparr>hb_bytes = ([] :: byte list), hb_size = (if ?h then ?n * 2 + 1 else ?n + 1)\<rparr>"
  define i1 where "i1 = (if ?h then i0\<lparr>inf_shift := s, inf_left := ?n, huff_decode_ctx := huff_init L, inf_state := NGHTTP2_HD_STATE_READ_VALUEHUFF\<rparr>
      else i0\<lparr>inf_shift := s, inf_left := ?n, inf_state := NGHTTP2_HD_STATE_READ_VALUE\<rparr>)\<lparr>valuebuf := buf\<rparr>"
  have "inf_read_valuelen L mem i0 ?inp = Inf_break i1 ?rest True"
    using mem i0(1) unfolding inf_read_valuelen_def s
    by (auto simp: i1_def buf_def hd_new_buf_def mem_ok_def Let_def string_bytes_body)
  then have step1: "inf_step L mem i ?inp = Inf_break i1 ?rest True"
    using st inp by (simp add: inf_step_def inf_check_valuelen_def i0_def)
  have "inf_left i1 = ?n" "?h \<Longrightarrow> huff_decode_ctx i1 = huff_init L" by (simp_all add: i1_def)
  from read_body [OF L this buf_def, of tail] obtain h where
    r: "(if ?h then hd_inflate_read_huff L i1 buf ?rest else hd_inflate_read i1 buf ?rest)
      = (HD_OK, ?n, buf\<lparr>hb_bytes := v\<rparr>, i1\<lparr>huff_decode_ctx := h, inf_left := 0\<rparr>)"
    and fin: "hd_buf_finish (buf\<lparr>hb_bytes := v\<rparr>) = Some v" by blast
  define j where "j = i1\<lparr>huff_decode_ctx := h, inf_left := 0, valuebuf := buf\<lparr>hb_bytes := v\<rparr>, valuercbuf := Some v\<rparr>"
  have rest_drop: "drop ?n ?rest = tail" by simp
  have "inf_step L mem i1 ?rest = inf_value_read mem
      (if ?h then hd_inflate_read_huff L i1 buf ?rest else hd_inflate_read i1 buf ?rest) ?rest"
    by (simp add: inf_step_def inf_read_valuehuff_def inf_read_value_def i1_def)
  then have step2: "inf_step L mem i1 ?rest =
      (case if inf_opcode j = NGHTTP2_HD_OPCODE_NEWNAME then hd_inflate_commit_newname mem j else hd_inflate_commit_indname mem j of
         (Inl rv, k) \<Rightarrow> Inf_fail rv k
       | (Inr nv, k) \<Rightarrow> Inf_emit nv (k\<lparr>inf_state := NGHTTP2_HD_STATE_OPCODE\<rparr>) tail)"
    unfolding r inf_value_read_def prod.case rest_drop by (simp add: fin j_def Let_def)
  have "inf_loop L mem i ?inp False = inf_loop L mem i1 ?rest True"
    using inf_loop_break [OF step1] by (simp add: string_bytes_body)
  also have "\<dots> = inf_step L mem i1 ?rest"
    by (subst inf_loop.simps) (simp add: step2 split: prod.splits sum.splits)
  finally have "inf_loop L mem i ?inp False = inf_step L mem i1 ?rest" .
  moreover have "inf_frame i j \<and> namercbuf j = namercbuf i \<and> valuercbuf j = Some v"
    by (simp add: inf_frame_def j_def i1_def i0_def hd_inflate_set_huffman_encoded_def)
  ultimately show ?thesis using step2 by auto
qed

text \<open>A name, in front of a value.\<close>

lemma inflate_name:
  assumes L: "huff_contract L" "huff_decodes L huff" and mem: "mem_ok mem"
    and st: "inf_state i = NGHTTP2_HD_STATE_NEWNAME_CHECK_NAMELEN"
    and len: "length (str_body huff s) \<le> NGHTTP2_HD_MAX_NV" and tail: "tail \<noteq> []"
  shows "\<exists>j. inf_frame i j \<and> namercbuf j = Some s \<and> inf_state j = NGHTTP2_HD_STATE_CHECK_VALUELEN \<and>
    inf_loop L mem i (string_bytes huff s @ tail) False = inf_loop L mem j tail False"
proof -
  let ?n = "length (str_body huff s)" and ?h = "str_huff huff s"
  let ?inp = "string_bytes huff s @ tail" and ?rest = "str_body huff s @ tail"
  obtain b bs where inp: "?inp = b # bs" by (cases ?inp) (auto simp: string_bytes_body)
  define i0 where "i0 = (hd_inflate_set_huffman_encoded b i)\<lparr>inf_state := NGHTTP2_HD_STATE_NEWNAME_READ_NAMELEN, inf_left := 0, inf_shift := 0\<rparr>"
  have i0: "huffman_encoded i0 \<longleftrightarrow> ?h" "inf_left i0 = 0" "inf_shift i0 = 0"
    using string_first [OF inp] by (simp_all add: i0_def hd_inflate_set_huffman_encoded_def)
  have "?n < 2 ^ 32" using len by (simp add: NGHTTP2_HD_MAX_NV_def)
  then obtain sh where sh: "hd_inflate_read_len i0 ?inp 7 NGHTTP2_HD_MAX_NV
      = (HD_OK, True, count_encoded_length ?n 7, i0\<lparr>inf_shift := sh, inf_left := ?n\<rparr>)"
    using read_len_encode [of ?n 7 NGHTTP2_HD_MAX_NV i0 "if ?h then 0x80 else 0" ?rest] len i0(2,3)
    by (auto simp: string_bytes_body)
  define buf where "buf = \<lparr>hb_bytes = ([] :: byte list), hb_size = (if ?h then ?n * 2 + 1 else ?n + 1)\<rparr>"
  define i1 where "i1 = (if ?h then i0\<lparr>inf_shift := sh, inf_left := ?n, huff_decode_ctx := huff_init L, inf_state := NGHTTP2_HD_STATE_NEWNAME_READ_NAMEHUFF\<rparr>
      else i0\<lparr>inf_shift := sh, inf_left := ?n, inf_state := NGHTTP2_HD_STATE_NEWNAME_READ_NAME\<rparr>)\<lparr>namebuf := buf\<rparr>"
  have "inf_read_namelen L mem i0 ?inp = Inf_break i1 ?rest False"
    using mem i0(1) unfolding inf_read_namelen_def sh
    by (auto simp: i1_def buf_def hd_new_buf_def mem_ok_def Let_def string_bytes_body)
  then have step1: "inf_step L mem i ?inp = Inf_break i1 ?rest False"
    using st inp by (simp add: inf_step_def inf_check_namelen_def i0_def)
  have "inf_left i1 = ?n" "?h \<Longrightarrow> huff_decode_ctx i1 = huff_init L" by (simp_all add: i1_def)
  from read_body [OF L this buf_def, of tail] obtain h where
    r: "(if ?h then hd_inflate_read_huff L i1 buf ?rest else hd_inflate_read i1 buf ?rest)
      = (HD_OK, ?n, buf\<lparr>hb_bytes := s\<rparr>, i1\<lparr>huff_decode_ctx := h, inf_left := 0\<rparr>)"
    and fin: "hd_buf_finish (buf\<lparr>hb_bytes := s\<rparr>) = Some s" by blast
  define j where "j = i1\<lparr>huff_decode_ctx := h, inf_left := 0, namebuf := buf\<lparr>hb_bytes := s\<rparr>, namercbuf := Some s,
      inf_state := NGHTTP2_HD_STATE_CHECK_VALUELEN\<rparr>"
  have "inf_step L mem i1 ?rest = inf_name_read
      (if ?h then hd_inflate_read_huff L i1 buf ?rest else hd_inflate_read i1 buf ?rest) ?rest"
    by (simp add: inf_step_def inf_read_namehuff_def inf_read_name_def i1_def)
  then have step2: "inf_step L mem i1 ?rest = Inf_break j tail False"
    unfolding r by (simp add: inf_name_read_def fin j_def Let_def)
  have "inf_loop L mem i ?inp False = inf_loop L mem j tail False"
    using inf_loop_break [OF step1, of False] inf_loop_break [OF step2, of False] tail by (simp add: string_bytes_body)
  moreover have "inf_frame i j \<and> namercbuf j = Some s \<and> inf_state j = NGHTTP2_HD_STATE_CHECK_VALUELEN"
    by (simp add: inf_frame_def j_def i1_def i0_def hd_inflate_set_huffman_encoded_def)
  ultimately show ?thesis by blast
qed

section \<open>Representations\<close>

lemma commit_add_dyn:
  assumes "ctx_inv ctx" and "hd_token nv = lookup_token (hd_name nv)" and "mem_ok mem"
  obtains c m where "(if req then add_hd_table_incremental mem ctx nv None 0 else (HD_OK, ctx, None)) = (HD_OK, c, m)"
    and "ctx_inv c" and "hd_table_bufsize_max c = hd_table_bufsize_max ctx" and "bad c = bad ctx"
    and "hd_dyn c = (if req then dyn_add (hd_table_bufsize_max ctx) (nv_field nv) (hd_dyn ctx) else hd_dyn ctx)"
proof (cases req)
  case True
  obtain rv c m where a: "add_hd_table_incremental mem ctx nv None 0 = (rv, c, m)" by (metis prod_cases3)
  have "opt_map_inv (ents ctx) None" by (simp add: opt_map_inv_def)
  from add_hd_table_spec [OF assms(1) this assms(2) a] assms(3) have "rv = HD_OK" by (auto simp: mem_ok_def split: if_splits)
  with add_hd_table_spec [OF assms(1) \<open>opt_map_inv (ents ctx) None\<close> assms(2) a] a True that show thesis by auto
qed (use that [of ctx None] assms in auto)

text \<open>The state after a field.\<close>

definition inf_after :: "'h nghttp2_hd_inflater \<Rightarrow> field list \<Rightarrow> 'h nghttp2_hd_inflater \<Rightarrow> bool" where
  "inf_after i T j \<longleftrightarrow>
     inf_base j \<and> \<not> bad (inf_ctx j) \<and> inf_state j = NGHTTP2_HD_STATE_OPCODE \<and> hd_dyn (inf_ctx j) = T
     \<and> hd_table_bufsize_max (inf_ctx j) = hd_table_bufsize_max (inf_ctx i)
     \<and> settings_hd_table_bufsize_max j = settings_hd_table_bufsize_max i
     \<and> inf_min_hd_table_bufsize_max j = inf_min_hd_table_bufsize_max i"

lemma commit_newname_emits:
  assumes "inf_base j" and "\<not> bad (inf_ctx j)" and "mem_ok mem" and "namercbuf j = Some n" and "valuercbuf j = Some v"
  shows "\<exists>nv k. hd_inflate_commit_newname mem j = (Inr nv, k) \<and> nv_field nv = (n, v) \<and> hd_no_index nv = no_index j
    \<and> inf_after j (if index_required j then dyn_add (hd_table_bufsize_max (inf_ctx j)) (n, v) (hd_dyn (inf_ctx j)) else hd_dyn (inf_ctx j))
        (k\<lparr>inf_state := NGHTTP2_HD_STATE_OPCODE\<rparr>)"
proof -
  let ?nv = "\<lparr>hd_name = n, hd_value = v, hd_token = lookup_token n, hd_no_index = no_index j\<rparr>"
  have "ctx_inv (inf_ctx j)" "hd_token ?nv = lookup_token (hd_name ?nv)" using assms(1) by (auto simp: inf_base_def)
  from commit_add_dyn [OF this assms(3), of "index_required j"] obtain c m where
    "(if index_required j then add_hd_table_incremental mem (inf_ctx j) ?nv None 0 else (HD_OK, inf_ctx j, None)) = (HD_OK, c, m)"
    "ctx_inv c" "hd_table_bufsize_max c = hd_table_bufsize_max (inf_ctx j)" "bad c = bad (inf_ctx j)"
    "hd_dyn c = (if index_required j then dyn_add (hd_table_bufsize_max (inf_ctx j)) (nv_field ?nv) (hd_dyn (inf_ctx j)) else hd_dyn (inf_ctx j))"
    by metis
  then show ?thesis
    using assms by (auto simp: hd_inflate_commit_newname_def Let_def emit_header_def nv_field_def inf_after_def inf_base_def)
qed

lemma commit_indname_emits:
  assumes "inf_base j" and "\<not> bad (inf_ctx j)" and "mem_ok mem" and "inf_index j < length (hpack_fields (inf_ctx j))"
    and "n = fst (hpack_fields (inf_ctx j) ! inf_index j)" and "valuercbuf j = Some v"
  shows "\<exists>nv k. hd_inflate_commit_indname mem j = (Inr nv, k) \<and> nv_field nv = (n, v) \<and> hd_no_index nv = no_index j
    \<and> inf_after j (if index_required j then dyn_add (hd_table_bufsize_max (inf_ctx j)) (n, v) (hd_dyn (inf_ctx j)) else hd_dyn (inf_ctx j))
        (k\<lparr>inf_state := NGHTTP2_HD_STATE_OPCODE\<rparr>)"
proof -
  have ctx: "ctx_inv (inf_ctx j)" "ctx_base (inf_ctx j)" using assms(1) by (auto simp: inf_base_def ctx_inv_def)
  obtain e where e: "nghttp2_hd_table_get (inf_ctx j) (inf_index j) = Some e" "hd_name e = n" "hd_token e = lookup_token (hd_name e)"
    using table_get_Some [OF ctx(2) assms(4)] assms(5) by metis
  let ?nv = "e\<lparr>hd_no_index := no_index j, hd_value := v\<rparr>"
  have "hd_token ?nv = lookup_token (hd_name ?nv)" using e by simp
  from commit_add_dyn [OF ctx(1) this assms(3), of "index_required j"] obtain c m where
    "(if index_required j then add_hd_table_incremental mem (inf_ctx j) ?nv None 0 else (HD_OK, inf_ctx j, None)) = (HD_OK, c, m)"
    "ctx_inv c" "hd_table_bufsize_max c = hd_table_bufsize_max (inf_ctx j)" "bad c = bad (inf_ctx j)"
    "hd_dyn c = (if index_required j then dyn_add (hd_table_bufsize_max (inf_ctx j)) (nv_field ?nv) (hd_dyn (inf_ctx j)) else hd_dyn (inf_ctx j))"
    by metis
  then show ?thesis
    using assms e by (auto simp: hd_inflate_commit_indname_def Let_def emit_header_def nv_field_def inf_after_def inf_base_def)
qed

lemma inf_frame_facts:
  assumes "inf_frame i j"
  shows "inf_base i \<Longrightarrow> inf_base j" and "inf_ctx j = inf_ctx i" and "inf_opcode j = inf_opcode i"
    and "inf_index j = inf_index i" and "index_required j = index_required i" and "no_index j = no_index i"
    and "inf_after j T k \<longleftrightarrow> inf_after i T k"
  using assms by (auto simp: inf_frame_def inf_base_def inf_after_def)

text \<open>The strings of a representation are not longer than the inflater accepts.\<close>

fun repr_short :: "(byte list \<Rightarrow> byte list) \<Rightarrow> hpack_repr \<Rightarrow> bool" where
  "repr_short huff (Indexed i) \<longleftrightarrow> True"
| "repr_short huff (IndName mode i v) \<longleftrightarrow> length (str_body huff v) \<le> NGHTTP2_HD_MAX_NV"
| "repr_short huff (NewName mode n v) \<longleftrightarrow>
     length (str_body huff n) \<le> NGHTTP2_HD_MAX_NV \<and> length (str_body huff v) \<le> NGHTTP2_HD_MAX_NV"

definition emits :: "'h nghttp2_hd_inflater \<Rightarrow> hpack_repr \<Rightarrow> field \<Rightarrow> byte list \<Rightarrow> 'h inf_res \<Rightarrow> bool" where
  "emits i r f tail res \<longleftrightarrow>
     (\<exists>nv j. res = Inf_emit nv j tail \<and> nv_field nv = f
        \<and> (\<forall>mode. repr_mode r = Some mode \<longrightarrow> hd_no_index nv = (mode = NGHTTP2_HD_NEVER_INDEXING))
        \<and> inf_after i (repr_table (hd_table_bufsize_max (inf_ctx i)) r f (hd_dyn (inf_ctx i))) j)"

text \<open>A value whose name is known.\<close>

lemma inflate_value_emits:
  assumes L: "huff_contract L" "huff_decodes L huff" and mem: "mem_ok mem"
    and base: "inf_base i" and nb: "\<not> bad (inf_ctx i)"
    and st: "inf_state i = NGHTTP2_HD_STATE_CHECK_VALUELEN"
    and len: "length (str_body huff v) \<le> NGHTTP2_HD_MAX_NV"
    and name: "if inf_opcode i = NGHTTP2_HD_OPCODE_NEWNAME then namercbuf i = Some n
      else inf_index i < length (hpack_fields (inf_ctx i)) \<and> n = fst (hpack_fields (inf_ctx i) ! inf_index i)"
    and r: "repr_mode r = Some mode" "index_required i \<longleftrightarrow> mode = NGHTTP2_HD_WITH_INDEXING" "no_index i \<longleftrightarrow> mode = NGHTTP2_HD_NEVER_INDEXING"
  shows "emits i r (n, v) tail (inf_loop L mem i (string_bytes huff v @ tail) False)"
proof -
  obtain j where j: "inf_frame i j" "namercbuf j = namercbuf i" "valuercbuf j = Some v"
    and loop: "inf_loop L mem i (string_bytes huff v @ tail) False =
      (case if inf_opcode j = NGHTTP2_HD_OPCODE_NEWNAME then hd_inflate_commit_newname mem j else hd_inflate_commit_indname mem j of
         (Inl rv, k) \<Rightarrow> Inf_fail rv k
       | (Inr nv, k) \<Rightarrow> Inf_emit nv (k\<lparr>inf_state := NGHTTP2_HD_STATE_OPCODE\<rparr>) tail)"
    using inflate_value [OF L mem st len, of tail] by blast
  note f = inf_frame_facts [OF j(1)]
  have "\<exists>nv k. (if inf_opcode j = NGHTTP2_HD_OPCODE_NEWNAME then hd_inflate_commit_newname mem j else hd_inflate_commit_indname mem j) = (Inr nv, k)
      \<and> nv_field nv = (n, v) \<and> hd_no_index nv = no_index j
      \<and> inf_after j (if index_required j then dyn_add (hd_table_bufsize_max (inf_ctx j)) (n, v) (hd_dyn (inf_ctx j)) else hd_dyn (inf_ctx j))
        (k\<lparr>inf_state := NGHTTP2_HD_STATE_OPCODE\<rparr>)"
    using commit_newname_emits [OF f(1) [OF base] _ mem, of n v] commit_indname_emits [OF f(1) [OF base] _ mem, of n v] name nb f j
    by auto
  then obtain nv k where k: "(if inf_opcode j = NGHTTP2_HD_OPCODE_NEWNAME then hd_inflate_commit_newname mem j else hd_inflate_commit_indname mem j) = (Inr nv, k)"
      "nv_field nv = (n, v)" "hd_no_index nv = no_index j"
      "inf_after i (if index_required i then dyn_add (hd_table_bufsize_max (inf_ctx i)) (n, v) (hd_dyn (inf_ctx i)) else hd_dyn (inf_ctx i))
        (k\<lparr>inf_state := NGHTTP2_HD_STATE_OPCODE\<rparr>)"
    using f by auto
  have "inf_loop L mem i (string_bytes huff v @ tail) False = Inf_emit nv (k\<lparr>inf_state := NGHTTP2_HD_STATE_OPCODE\<rparr>) tail"
    unfolding loop k(1) by simp
  moreover have "repr_table (hd_table_bufsize_max (inf_ctx i)) r (n, v) (hd_dyn (inf_ctx i))
      = (if index_required i then dyn_add (hd_table_bufsize_max (inf_ctx i)) (n, v) (hd_dyn (inf_ctx i)) else hd_dyn (inf_ctx i))"
    using r by (simp add: repr_table_def)
  ultimately show ?thesis unfolding emits_def using k r f(6) by auto
qed

definition at_field :: "'h nghttp2_hd_inflater \<Rightarrow> bool" where
  "at_field i \<longleftrightarrow> inf_state i = NGHTTP2_HD_STATE_INFLATE_START \<or> inf_state i = NGHTTP2_HD_STATE_OPCODE"

lemma at_field_step: "at_field i \<Longrightarrow> inf_step L mem i inp = inf_first_byte i inp"
  by (auto simp: at_field_def inf_step_def)

lemma inflate_indexed:
  assumes base: "inf_base i" and nb: "\<not> bad (inf_ctx i)" and st: "at_field i"
    and k: "k < length (hpack_fields (inf_ctx i))" and f: "f = hpack_fields (inf_ctx i) ! k"
  shows "emits i (Indexed k) f tail (inf_loop L mem i (repr_bytes huff (Indexed k) @ tail) False)"
proof -
  have ctx: "ctx_base (inf_ctx i)" "ctx_inv (inf_ctx i)" using base by (auto simp: inf_base_def ctx_inv_def)
  let ?inp = "encode_length 0x80 (k + 1) 7 @ tail"
  obtain m bs where e: "encode_length 0x80 (k + 1) 7 = ((0x80 AND NOT (0x7f :: byte)) OR m) # bs" "m \<le> 0x7f"
    using encode_length_first [of 7 "0x80" "k + 1"] by auto
  define i1 where "i1 = i\<lparr>inf_opcode := NGHTTP2_HD_OPCODE_INDEXED, inf_state := NGHTTP2_HD_STATE_READ_INDEX, inf_left := 0, inf_shift := 0\<rparr>"
  have step1: "inf_step L mem i ?inp = Inf_break i1 ?inp False"
    unfolding at_field_step [OF st] using e first_byte_facts(2,3) [OF e(2)] st
    by (auto simp: inf_first_byte_def i1_def at_field_def)
  have max: "k + 1 \<le> get_max_index (inf_ctx i)" using k length_hpack_fields [OF ctx(1)] by simp
  have "k + 1 < 2 ^ 32" using k hpack_fields_bound [OF ctx(2)] by simp
  then obtain s where s: "hd_inflate_read_len i1 ?inp 7 (get_max_index (inf_ctx i))
      = (HD_OK, True, count_encoded_length (k + 1) 7, i1\<lparr>inf_shift := s, inf_left := k + 1\<rparr>)"
    using read_len_encode [of "k + 1" 7 "get_max_index (inf_ctx i)" i1 "0x80" tail] max by (auto simp: i1_def)
  obtain nv where nv: "nghttp2_hd_table_get (inf_ctx i) k = Some nv" "nv_field nv = f"
    using table_get_Some [OF ctx(1) k] f by (metis nv_field_def prod.collapse)
  define j where "j = i1\<lparr>inf_shift := s, inf_left := k + 1, inf_index := k, inf_state := NGHTTP2_HD_STATE_OPCODE\<rparr>"
  have ri: "inf_step L mem i1 ?inp = inf_read_index i1 ?inp" by (simp add: inf_step_def i1_def)
  have p: "(if inf_opcode i1 = NGHTTP2_HD_OPCODE_INDEXED then 7 else if index_required i1 then 6 else 4) = (7 :: nat)"
    "inf_ctx i1 = inf_ctx i" "inf_opcode i1 = NGHTTP2_HD_OPCODE_INDEXED" by (simp_all add: i1_def)
  have step2: "inf_step L mem i1 ?inp = Inf_emit nv j tail"
    unfolding ri inf_read_index_def Let_def p(1,2) s prod.case
    by (simp add: hd_inflate_commit_indexed_def p nv j_def emit_header_def drop_encode [where n = "k + 1", simplified])
  have "inf_loop L mem i (repr_bytes huff (Indexed k) @ tail) False = Inf_emit nv j tail"
    using inf_loop_break [OF step1, of False] inf_loop_emit [OF step2, of False] by simp
  moreover have "inf_after i (hd_dyn (inf_ctx i)) j"
    using base nb by (simp add: inf_after_def j_def i1_def inf_base_def)
  ultimately show ?thesis unfolding emits_def using nv by (auto simp: repr_table_def)
qed

lemma emits_frame:
  assumes "emits j r f tail res" and "inf_ctx j = inf_ctx i"
    and "settings_hd_table_bufsize_max j = settings_hd_table_bufsize_max i"
    and "inf_min_hd_table_bufsize_max j = inf_min_hd_table_bufsize_max i"
  shows "emits i r f tail res"
  using assms by (auto simp: emits_def inf_after_def)

lemma inflate_indname:
  assumes L: "huff_contract L" "huff_decodes L huff" and mem: "mem_ok mem"
    and base: "inf_base i" and nb: "\<not> bad (inf_ctx i)" and st: "at_field i"
    and k: "k < length (hpack_fields (inf_ctx i))" and n: "n = fst (hpack_fields (inf_ctx i) ! k)"
    and len: "length (str_body huff v) \<le> NGHTTP2_HD_MAX_NV"
  shows "emits i (IndName mode k v) (n, v) tail (inf_loop L mem i (repr_bytes huff (IndName mode k v) @ tail) False)"
proof -
  have ctx: "ctx_base (inf_ctx i)" "ctx_inv (inf_ctx i)" using base by (auto simp: inf_base_def ctx_inv_def)
  let ?rest = "string_bytes huff v @ tail"
  let ?inp = "encode_length (mode_byte mode) (k + 1) (mode_prefix mode) @ ?rest"
  have pfx: "0 < mode_prefix mode" "mode_prefix mode \<le> 8" by (cases mode; simp)+
  obtain m bs where e: "encode_length (mode_byte mode) (k + 1) (mode_prefix mode)
      = ((mode_byte mode AND NOT (of_nat (2 ^ mode_prefix mode - 1))) OR m) # bs"
    and m: "m \<le> of_nat (2 ^ mode_prefix mode - 1)" "m \<noteq> 0"
    using encode_length_first [OF pfx(2), of "mode_byte mode" "k + 1"] pfx(1) by auto
  define i1 where "i1 = i\<lparr>index_required := (mode = NGHTTP2_HD_WITH_INDEXING), no_index := (mode = NGHTTP2_HD_NEVER_INDEXING),
      inf_left := 0, inf_shift := 0, inf_opcode := NGHTTP2_HD_OPCODE_INDNAME, inf_state := NGHTTP2_HD_STATE_READ_INDEX\<rparr>"
  define b where "b = (mode_byte mode AND NOT (of_nat (2 ^ mode_prefix mode - 1))) OR m"
  note facts = mode_byte_facts [OF m, folded b_def]
  have step1: "inf_step L mem i ?inp = Inf_break i1 ?inp False"
    unfolding at_field_step [OF st] e [folded b_def] inf_first_byte_def append_Cons list.case Let_def
    using facts st by (auto simp: i1_def at_field_def)
  have max: "k + 1 \<le> get_max_index (inf_ctx i)" using k length_hpack_fields [OF ctx(1)] by simp
  have "k + 1 < 2 ^ 32" using k hpack_fields_bound [OF ctx(2)] by simp
  then obtain s where s: "hd_inflate_read_len i1 ?inp (mode_prefix mode) (get_max_index (inf_ctx i))
      = (HD_OK, True, count_encoded_length (k + 1) (mode_prefix mode), i1\<lparr>inf_shift := s, inf_left := k + 1\<rparr>)"
    using read_len_encode [of "k + 1" "mode_prefix mode" "get_max_index (inf_ctx i)" i1 "mode_byte mode" ?rest] max pfx
    by (auto simp: i1_def)
  define j where "j = i1\<lparr>inf_shift := s, inf_left := k + 1, inf_index := k, inf_state := NGHTTP2_HD_STATE_CHECK_VALUELEN\<rparr>"
  have ri: "inf_step L mem i1 ?inp = inf_read_index i1 ?inp" by (simp add: inf_step_def i1_def)
  have p: "(if inf_opcode i1 = NGHTTP2_HD_OPCODE_INDEXED then 7 else if index_required i1 then 6 else 4) = mode_prefix mode"
    "inf_ctx i1 = inf_ctx i" by (cases mode; simp add: i1_def)+
  have step2: "inf_step L mem i1 ?inp = Inf_break j ?rest False"
    unfolding ri inf_read_index_def Let_def p s prod.case by (simp add: j_def i1_def drop_encode [where n = "k + 1", simplified])
  have "inf_loop L mem i (repr_bytes huff (IndName mode k v) @ tail) False = inf_loop L mem j ?rest False"
    using inf_loop_break [OF step1, of False] inf_loop_break [OF step2, of False] by simp
  moreover have "emits j (IndName mode k v) (n, v) tail (inf_loop L mem j ?rest False)"
    by (rule inflate_value_emits [OF L mem _ _ _ len, where mode = mode])
      (use base nb k n in \<open>simp_all add: j_def i1_def inf_base_def\<close>)
  ultimately show ?thesis by (auto intro: emits_frame simp: j_def i1_def)
qed

lemma string_bytes_ne [simp]: "string_bytes huff s \<noteq> []"
  by (simp add: string_bytes_body)

lemma inflate_newname:
  assumes L: "huff_contract L" "huff_decodes L huff" and mem: "mem_ok mem"
    and base: "inf_base i" and nb: "\<not> bad (inf_ctx i)" and st: "at_field i"
    and len: "length (str_body huff n) \<le> NGHTTP2_HD_MAX_NV" "length (str_body huff v) \<le> NGHTTP2_HD_MAX_NV"
  shows "emits i (NewName mode n v) (n, v) tail (inf_loop L mem i (repr_bytes huff (NewName mode n v) @ tail) False)"
proof -
  let ?rest = "string_bytes huff n @ string_bytes huff v @ tail"
  define i1 where "i1 = i\<lparr>index_required := (mode = NGHTTP2_HD_WITH_INDEXING), no_index := (mode = NGHTTP2_HD_NEVER_INDEXING),
      inf_left := 0, inf_shift := 0, inf_opcode := NGHTTP2_HD_OPCODE_NEWNAME, inf_state := NGHTTP2_HD_STATE_NEWNAME_CHECK_NAMELEN\<rparr>"
  have step1: "inf_step L mem i (mode_byte mode # ?rest) = Inf_break i1 ?rest False"
    unfolding at_field_step [OF st] using st
    by (cases mode) (auto simp: inf_first_byte_def i1_def at_field_def Let_def)
  have "inf_state i1 = NGHTTP2_HD_STATE_NEWNAME_CHECK_NAMELEN" "string_bytes huff v @ tail \<noteq> []" by (simp_all add: i1_def)
  from inflate_name [OF L mem this(1) len(1) this(2)] obtain j where j: "inf_frame i1 j" "namercbuf j = Some n"
    "inf_state j = NGHTTP2_HD_STATE_CHECK_VALUELEN"
    "inf_loop L mem i1 ?rest False = inf_loop L mem j (string_bytes huff v @ tail) False" by auto
  have "inf_loop L mem i (repr_bytes huff (NewName mode n v) @ tail) False = inf_loop L mem j (string_bytes huff v @ tail) False"
    using inf_loop_break [OF step1, of False] j(4) by simp
  moreover have "emits j (NewName mode n v) (n, v) tail (inf_loop L mem j (string_bytes huff v @ tail) False)"
    by (rule inflate_value_emits [OF L mem _ _ j(3) len(2), where mode = mode])
      (use base nb j in \<open>simp_all add: inf_frame_def i1_def inf_base_def\<close>)
  ultimately show ?thesis using j(1) by (auto intro: emits_frame simp: i1_def inf_frame_def)
qed

text \<open>All of them.\<close>

lemma inflate_repr:
  assumes L: "huff_contract L" "huff_decodes L huff" and mem: "mem_ok mem"
    and i: "inf_base i" "\<not> bad (inf_ctx i)" "at_field i"
    and r: "repr_field (hpack_fields (inf_ctx i)) r = Some f" "repr_short huff r"
  shows "emits i r f tail (inf_loop L mem i (repr_bytes huff r @ tail) False)"
proof (cases r)
  case (Indexed k)
  then show ?thesis using r inflate_indexed [OF i, of k f tail L mem huff] by (auto split: if_splits)
next
  case (IndName mode k v)
  then show ?thesis using r inflate_indname [OF L mem i, of k _ v mode tail] by (auto split: if_splits)
next
  case (NewName mode n v)
  then show ?thesis using r inflate_newname [OF L mem i, of n v mode tail] by auto
qed

text \<open>A dynamic table size update, which may be the first thing in a header block.\<close>

lemma inflate_size:
  assumes i: "inf_base i" "\<not> bad (inf_ctx i)"
    and st: "inf_state i = NGHTTP2_HD_STATE_INFLATE_START \<or> inf_state i = NGHTTP2_HD_STATE_EXPECT_TABLE_SIZE"
    and n: "n \<le> inf_min_hd_table_bufsize_max i" "n \<le> settings_hd_table_bufsize_max i"
  obtains j where "inf_loop L mem i (encode_length 0x20 n 5 @ tail) False = inf_loop L mem j tail False"
    and "inf_base j" and "\<not> bad (inf_ctx j)" and "inf_state j = NGHTTP2_HD_STATE_INFLATE_START"
    and "hd_dyn (inf_ctx j) = dyn_evict n (hd_dyn (inf_ctx i))" and "hd_table_bufsize_max (inf_ctx j) = n"
    and "settings_hd_table_bufsize_max j = settings_hd_table_bufsize_max i" and "inf_min_hd_table_bufsize_max j = HD_UINT32_MAX"
proof -
  let ?inp = "encode_length 0x20 n 5 @ tail"
  obtain m bs where e: "encode_length 0x20 n 5 = ((0x20 AND NOT (0x1f :: byte)) OR m) # bs" "m \<le> 0x1f"
    using encode_length_first [of 5 "0x20" n] by auto
  define i1 where "i1 = i\<lparr>inf_opcode := NGHTTP2_HD_OPCODE_INDEXED, inf_state := NGHTTP2_HD_STATE_READ_TABLE_SIZE, inf_left := 0, inf_shift := 0\<rparr>"
  have "inf_step L mem i ?inp = inf_first_byte i ?inp" using st by (auto simp: inf_step_def)
  then have step1: "inf_step L mem i ?inp = Inf_break i1 ?inp False"
    using e first_byte_facts(1) [OF e(2)] st by (auto simp: inf_first_byte_def i1_def)
  have lt: "n < 2 ^ 32" using n i(1) by (simp add: inf_base_def)
  let ?lim = "min (inf_min_hd_table_bufsize_max i) (settings_hd_table_bufsize_max i)"
  obtain s where s: "hd_inflate_read_len i1 ?inp 5 ?lim
      = (HD_OK, True, count_encoded_length n 5, i1\<lparr>inf_shift := s, inf_left := n\<rparr>)"
    using read_len_encode [of n 5 ?lim i1 "0x20" tail] lt n by (auto simp: i1_def)
  let ?c = "(inf_ctx i)\<lparr>hd_table_bufsize_max := n\<rparr>"
  have "ctx_base ?c" "hd_table_bufsize_max ?c < 2 ^ 32" "opt_map_inv (ents ?c) None"
    using i lt by (auto simp: inf_base_def ctx_inv_def ctx_base_def hd_dyn_def opt_map_inv_def)
  from shrink_spec [OF this(1,3,2)] obtain c mm where
    c: "hd_context_shrink_table_size ?c None = Some (c, mm)" "ctx_inv c" "hd_table_bufsize_max c = n"
    "bad c = bad (inf_ctx i)" "hd_dyn c = dyn_evict n (hd_dyn (inf_ctx i))"
    by (auto simp: hd_dyn_def)
  define j where "j = i1\<lparr>inf_shift := s, inf_left := n, inf_min_hd_table_bufsize_max := HD_UINT32_MAX, inf_ctx := c,
      inf_state := NGHTTP2_HD_STATE_INFLATE_START\<rparr>"
  have rt: "inf_step L mem i1 ?inp = inf_read_table_size i1 ?inp" by (simp add: inf_step_def i1_def)
  have p: "inf_min_hd_table_bufsize_max i1 = inf_min_hd_table_bufsize_max i"
    "settings_hd_table_bufsize_max i1 = settings_hd_table_bufsize_max i" by (simp_all add: i1_def)
  have step2: "inf_step L mem i1 ?inp = Inf_break j tail False"
    unfolding rt inf_read_table_size_def p s by (simp add: Let_def i1_def j_def c)
  have "inf_loop L mem i ?inp False = inf_loop L mem j tail False"
    using inf_loop_break [OF step1, of False] inf_loop_break [OF step2, of False] by simp
  then show thesis
    using that [of j] i c n by (simp add: j_def i1_def inf_base_def HD_UINT32_MAX_def)
qed

end
