(* ===== verification/Hpack_Roundtrip.thy ===== *)
theory Hpack_Roundtrip
  imports Hpack_Inflate_Repr
begin

text \<open>
  The composition of the deflater and the inflater: header blocks, the agreement between the
  two ends of a connection, and how blocks and changes of the table size keep it.
\<close>

section \<open>Header blocks\<close>

text \<open>
  A user of the inflater that has a complete header block, with the loop that
  \<open>inflate_header_block\<close> of \<open>nghttp2_session.c\<close> runs: it calls the inflater on the rest
  of the block, collects the fields, and ends the block when told so. Every call that does
  not end the block reads input, so that one more call than there are bytes is enough.
\<close>

fun inflate_block ::
  "'h huff_lib \<Rightarrow> nghttp2_mem \<Rightarrow> nat \<Rightarrow> 'h nghttp2_hd_inflater \<Rightarrow> byte list
   \<Rightarrow> (nghttp2_nv list \<times> 'h nghttp2_hd_inflater) option"
where
  "inflate_block L mem 0 i inp = None"
| "inflate_block L mem (Suc fuel) i inp =
     (case nghttp2_hd_inflate_hd2 L mem i inp True of
        (Inflate2_error rv, i) \<Rightarrow> None
      | (Inflate2_ok n nv final, i) \<Rightarrow>
          if final then Some ([], nghttp2_hd_inflate_end_headers i)
          else map_option (apfst (\<lambda>nvs. case nv of None \<Rightarrow> nvs | Some nv \<Rightarrow> nv # nvs))
                 (inflate_block L mem fuel i (drop n inp)))"

definition reprs_bytes :: "(byte list \<Rightarrow> byte list) \<Rightarrow> hpack_repr list \<Rightarrow> byte list" where
  "reprs_bytes huff rs = concat (map (repr_bytes huff) rs)"

lemma repr_bytes_ne [simp]: "repr_bytes huff r \<noteq> []"
  by (cases r) auto

lemma length_reprs_bytes: "length rs \<le> length (reprs_bytes huff rs)"
proof (induction rs)
  case (Cons r rs)
  obtain b bs where "repr_bytes huff r = b # bs" by (cases "repr_bytes huff r") auto
  then show ?case using Cons by (simp add: reprs_bytes_def)
qed (simp add: reprs_bytes_def)

text \<open>The state after a block.\<close>

definition inf_idle :: "'h nghttp2_hd_inflater \<Rightarrow> field list \<Rightarrow> 'h nghttp2_hd_inflater \<Rightarrow> bool" where
  "inf_idle i T j \<longleftrightarrow>
     inf_base j \<and> \<not> bad (inf_ctx j) \<and> inf_state j = NGHTTP2_HD_STATE_INFLATE_START \<and> hd_dyn (inf_ctx j) = T
     \<and> hd_table_bufsize_max (inf_ctx j) = hd_table_bufsize_max (inf_ctx i)
     \<and> settings_hd_table_bufsize_max j = settings_hd_table_bufsize_max i
     \<and> inf_min_hd_table_bufsize_max j = inf_min_hd_table_bufsize_max i"

definition never_marked :: "hpack_repr list \<Rightarrow> nghttp2_nv list \<Rightarrow> bool" where
  "never_marked rs nvs \<longleftrightarrow> list_all2 (\<lambda>r nv. repr_mode r = Some NGHTTP2_HD_NEVER_INDEXING \<longrightarrow> nv_no_index nv) rs nvs"

text \<open>
  The bytes of a block are read as its representations say. The inflater is at the start of
  the block, or at a state \<open>i\<close> from which what comes in front of it, \<open>pre\<close>, leads there.
\<close>

lemma inflate_reprs:
  assumes L: "huff_contract L" "huff_decodes L huff" and mem: "mem_ok mem"
  shows "\<not> bad (inf_ctx i) \<Longrightarrow> inf_base j \<Longrightarrow> \<not> bad (inf_ctx j) \<Longrightarrow> at_field j
    \<Longrightarrow> inf_loop L mem i (pre @ reprs_bytes huff rs) False = inf_loop L mem j (reprs_bytes huff rs) False
    \<Longrightarrow> block_of (hd_table_bufsize_max (inf_ctx j)) (hd_dyn (inf_ctx j)) rs fs
    \<Longrightarrow> list_all (repr_short huff) rs \<Longrightarrow> length rs < fuel
    \<Longrightarrow> \<exists>nvs k. inflate_block L mem fuel i (pre @ reprs_bytes huff rs) = Some (nvs, k)
      \<and> map nv_pair nvs = fs \<and> never_marked rs nvs
      \<and> inf_idle j (block_table (hd_table_bufsize_max (inf_ctx j)) (hd_dyn (inf_ctx j)) rs fs) k"
proof (induction rs arbitrary: i j pre fs fuel)
  case Nil
  obtain n where fuel: "fuel = Suc n" using Nil.prems(8) by (cases fuel) auto
  have "nghttp2_hd_inflate_hd2 L mem i pre True = (Inflate2_ok (length pre) None True, j)"
    using Nil.prems by (auto simp: nghttp2_hd_inflate_hd2_def nghttp2_hd_inflate_hd_nv_def reprs_bytes_def at_field_def)
  then show ?case
    using Nil.prems by (auto simp: fuel reprs_bytes_def never_marked_def inf_idle_def nghttp2_hd_inflate_end_headers_def inf_base_def)
next
  case (Cons r rs)
  obtain n where fuel: "fuel = Suc n" "length rs < n" using Cons.prems(8) by (cases fuel) auto
  let ?max = "hd_table_bufsize_max (inf_ctx j)" and ?tail = "reprs_bytes huff rs"
  obtain f fs' where fs: "fs = f # fs'" "repr_field (hpack_fields (inf_ctx j)) r = Some f"
    "block_of ?max (repr_table ?max r f (hd_dyn (inf_ctx j))) rs fs'"
    using Cons.prems(6) by (auto simp: hpack_fields_def split: list.splits)
  have short: "repr_short huff r" "list_all (repr_short huff) rs" using Cons.prems(7) by auto
  from inflate_repr [OF L mem Cons.prems(2-4) fs(2) short(1), of ?tail] obtain nv k where
    k: "inf_loop L mem j (repr_bytes huff r @ ?tail) False = Inf_emit nv k ?tail" "nv_field nv = f"
    "repr_mode r = Some NGHTTP2_HD_NEVER_INDEXING \<Longrightarrow> hd_no_index nv"
    "inf_after j (repr_table ?max r f (hd_dyn (inf_ctx j))) k"
    unfolding emits_def by blast
  let ?inp = "pre @ repr_bytes huff r @ ?tail"
  let ?nv = "\<lparr>nv_name = hd_name nv, nv_value = hd_value nv, nv_no_index = hd_no_index nv\<rparr>"
  have run: "nghttp2_hd_inflate_hd2 L mem i ?inp True = (Inflate2_ok (length pre + length (repr_bytes huff r)) (Some ?nv) False, k)"
    using Cons.prems(1,5) k(1) by (simp add: nghttp2_hd_inflate_hd2_def nghttp2_hd_inflate_hd_nv_def reprs_bytes_def)
  have k': "inf_base k" "\<not> bad (inf_ctx k)" "at_field k" "hd_table_bufsize_max (inf_ctx k) = ?max"
    "hd_dyn (inf_ctx k) = repr_table ?max r f (hd_dyn (inf_ctx j))"
    using k(4) by (auto simp: inf_after_def at_field_def)
  from Cons.IH [OF k'(2) k'(1-3), of "[]" fs' n] short(2) fs(3) fuel(2) k'(4,5) obtain nvs l where
    l: "inflate_block L mem n k ?tail = Some (nvs, l)" "map nv_pair nvs = fs'" "never_marked rs nvs"
    "inf_idle k (block_table ?max (repr_table ?max r f (hd_dyn (inf_ctx j))) rs fs') l"
    by auto
  have "inflate_block L mem fuel i ?inp = Some (?nv # nvs, l)" using run l(1) by (simp add: fuel)
  moreover have "never_marked (r # rs) (?nv # nvs)" using l(3) k(3) by (simp add: never_marked_def)
  moreover have "inf_idle j (block_table ?max (hd_dyn (inf_ctx j)) (r # rs) fs) l"
    using l(4) k(4) by (simp add: fs(1) inf_idle_def inf_after_def)
  ultimately show ?case using k(2) l(2) fs(1) by (auto simp: reprs_bytes_def nv_pair_def nv_field_def)
qed

text \<open>Short strings, as fields and as representations.\<close>

definition field_short :: "(byte list \<Rightarrow> byte list) \<Rightarrow> field \<Rightarrow> bool" where
  "field_short huff f \<longleftrightarrow>
     length (str_body huff (fst f)) \<le> NGHTTP2_HD_MAX_NV \<and> length (str_body huff (snd f)) \<le> NGHTTP2_HD_MAX_NV"

lemma repr_field_short: "repr_field fs r = Some f \<Longrightarrow> field_short huff f \<Longrightarrow> repr_short huff r"
  by (cases r) (auto simp: field_short_def split: if_splits)

lemma block_short: "block_of limit T rs fs \<Longrightarrow> list_all (field_short huff) fs \<Longrightarrow> list_all (repr_short huff) rs"
proof (induction rs arbitrary: T fs)
  case (Cons r rs)
  then show ?case by (auto intro: repr_field_short split: list.splits)
qed simp

lemma block_length: "block_of limit T rs fs \<Longrightarrow> length rs = length fs"
  by (induction rs arbitrary: T fs) (auto split: list.splits)

section \<open>Size changes\<close>

lemma keep_by_keep_by: "keep_by room a (keep_by room b xs) = keep_by room (min a b) xs"
proof (induction xs arbitrary: a b)
  case (Cons x xs)
  show ?case using Cons [of "a - room x" "b - room x"] by (auto simp: min_def split: if_splits)
qed simp

lemma dyn_evict_evict: "dyn_evict a (dyn_evict b T) = dyn_evict (min a b) T"
  by (simp add: dyn_evict_def keep_by_keep_by)

lemma dyn_evict_all: "ctx_inv ctx \<Longrightarrow> hd_table_bufsize_max ctx \<le> n \<Longrightarrow> dyn_evict n (hd_dyn ctx) = hd_dyn ctx"
  unfolding dyn_evict_def by (rule keep_by_all) (auto simp: ctx_inv_def ctx_base_def)

section \<open>Two ends of a connection\<close>

text \<open>
  A deflater and the inflater of its peer agree: on the table, except for what the updates
  that are due will evict, and the updates are ones that the inflater accepts.
\<close>

definition due_min :: "nghttp2_hd_deflater \<Rightarrow> nat" where
  "due_min d = min (def_min_hd_table_bufsize_max d) (def_max d)"

definition hd_sync :: "nghttp2_hd_deflater \<Rightarrow> 'h nghttp2_hd_inflater \<Rightarrow> bool" where
  "hd_sync d i \<longleftrightarrow>
     def_inv d \<and> inf_base i \<and> \<not> bad (def_ctx d) \<and> \<not> bad (inf_ctx i)
     \<and> def_max d \<le> settings_hd_table_bufsize_max i \<and> def_max d \<le> deflate_hd_table_bufsize_max d
     \<and> (if notify_table_size_change d
        then (inf_state i = NGHTTP2_HD_STATE_INFLATE_START \<or> inf_state i = NGHTTP2_HD_STATE_EXPECT_TABLE_SIZE)
          \<and> due_min d \<le> inf_min_hd_table_bufsize_max i
          \<and> def_dyn d = dyn_evict (due_min d) (hd_dyn (inf_ctx i))
          \<and> (def_min_hd_table_bufsize_max d \<le> def_max d \<or> def_max d = deflate_hd_table_bufsize_max d)
        else inf_state i = NGHTTP2_HD_STATE_INFLATE_START
          \<and> def_min_hd_table_bufsize_max d = UINT32_MAX \<and> inf_min_hd_table_bufsize_max i = HD_UINT32_MAX
          \<and> def_dyn d = hd_dyn (inf_ctx i) \<and> def_max d = hd_table_bufsize_max (inf_ctx i))"

lemma init_sync:
  assumes "nghttp2_hd_deflate_init2 mem table_size n = Some d" and "nghttp2_hd_inflate_init L mem' table_size = Some i"
    and "table_size < 2 ^ 32"
  shows "hd_sync d i"
  using deflate_init_inv [OF assms(1,3)] inflate_init_inv [OF assms(2,3)] assms(3)
  by (auto simp: hd_sync_def inf_inv_def due_min_def HD_UINT32_MAX_def UINT32_MAX_def dyn_evict_def)

lemma change_sync:
  assumes "hd_sync d i" and "s < 2 ^ 32"
    and "nghttp2_hd_deflate_change_table_size d s = (rv, d')" and "nghttp2_hd_inflate_change_table_size i s = (rv', i')"
  shows "rv = HD_OK \<and> rv' = HD_OK \<and> hd_sync d' i'"
proof -
  let ?next = "min s (deflate_hd_table_bufsize_max d)"
  have inv: "def_inv d" "inf_inv i" and st: "inf_state i = NGHTTP2_HD_STATE_EXPECT_TABLE_SIZE \<or> inf_state i = NGHTTP2_HD_STATE_INFLATE_START"
    using assms(1) by (auto simp: hd_sync_def inf_inv_def inf_bufs_def split: if_splits)
  have lt: "?next < 2 ^ 32" using assms(2) by simp
  note d = change_table_size_spec [OF inv(1) lt assms(3)] and i = inflate_change_spec [OF inv(2) assms(2,4)]
  have due': "due_min d' = min (def_min_hd_table_bufsize_max d) ?next" using d by (simp add: due_min_def)
  have dyn: "def_dyn d' = dyn_evict (due_min d') (hd_dyn (inf_ctx i)) \<and> due_min d' \<le> inf_min_hd_table_bufsize_max i"
  proof (cases "notify_table_size_change d")
    case True
    then have "def_dyn d' = dyn_evict (min ?next (due_min d)) (hd_dyn (inf_ctx i))" "due_min d \<le> inf_min_hd_table_bufsize_max i"
      using d assms(1) by (auto simp: hd_sync_def dyn_evict_evict)
    moreover have "min ?next (due_min d) = due_min d'"
      using True assms(1) unfolding due' by (auto simp: hd_sync_def due_min_def)
    ultimately show ?thesis by (metis min.cobounded2 order_trans)
  next
    case False
    then have "due_min d' = def_max d'" "inf_min_hd_table_bufsize_max i = HD_UINT32_MAX" "def_dyn d = hd_dyn (inf_ctx i)"
      using d due' lt assms(1) by (auto simp: hd_sync_def UINT32_MAX_def)
    then show ?thesis using d lt by (simp add: HD_UINT32_MAX_def)
  qed
  have "def_dyn d' = dyn_evict (due_min d') (hd_dyn (inf_ctx i')) \<and> due_min d' \<le> inf_min_hd_table_bufsize_max i'"
  proof (cases "s < hd_table_bufsize_max (inf_ctx i)")
    case True
    have "min (due_min d') s = due_min d'" unfolding due' by simp
    then show ?thesis using True i st dyn due' by (auto simp: dyn_evict_evict)
  qed (use i st dyn in auto)
  then show ?thesis using d i st assms(1) inv by (auto simp: hd_sync_def inf_inv_def split: if_splits)
qed

text \<open>The updates in front of a block bring the inflater to the table of the deflater.\<close>

lemma inflate_due_sizes:
  assumes "hd_sync d i"
  obtains j where "inf_loop L mem i (size_bytes (due_sizes d) @ tail) False = inf_loop L mem j tail False"
    and "inf_base j" and "\<not> bad (inf_ctx j)" and "inf_state j = NGHTTP2_HD_STATE_INFLATE_START"
    and "hd_dyn (inf_ctx j) = def_dyn d" and "hd_table_bufsize_max (inf_ctx j) = def_max d"
    and "settings_hd_table_bufsize_max j = settings_hd_table_bufsize_max i" and "inf_min_hd_table_bufsize_max j = HD_UINT32_MAX"
proof (cases "notify_table_size_change d")
  case False
  then show thesis using that [of i] assms by (auto simp: hd_sync_def due_sizes_def size_bytes_def)
next
  case notify: True
  let ?m = "def_min_hd_table_bufsize_max d"
  have i: "inf_base i" "\<not> bad (inf_ctx i)"
    "inf_state i = NGHTTP2_HD_STATE_INFLATE_START \<or> inf_state i = NGHTTP2_HD_STATE_EXPECT_TABLE_SIZE"
    "due_min d \<le> inf_min_hd_table_bufsize_max i" "def_max d \<le> settings_hd_table_bufsize_max i"
    "def_dyn d = dyn_evict (due_min d) (hd_dyn (inf_ctx i))" and lt: "def_max d < 2 ^ 32"
    using assms(1) notify by (auto simp: hd_sync_def def_inv_def ctx_inv_def)
  show thesis
  proof (cases "?m < def_max d")
    case False
    then have due: "due_sizes d = [def_max d]" "due_min d = def_max d" using notify by (auto simp: due_sizes_def due_min_def)
    obtain j where "inf_loop L mem i (encode_length 0x20 (def_max d) 5 @ tail) False = inf_loop L mem j tail False"
      "inf_base j" "\<not> bad (inf_ctx j)" "inf_state j = NGHTTP2_HD_STATE_INFLATE_START"
      "hd_dyn (inf_ctx j) = dyn_evict (def_max d) (hd_dyn (inf_ctx i))" "hd_table_bufsize_max (inf_ctx j) = def_max d"
      "settings_hd_table_bufsize_max j = settings_hd_table_bufsize_max i" "inf_min_hd_table_bufsize_max j = HD_UINT32_MAX"
      using inflate_size [OF i(1-3), of "def_max d" L mem tail] i(4,5) due(2) by auto
    then show thesis using that [of j] due i(6) by (simp add: size_bytes_def)
  next
    case True
    then have due: "due_sizes d = [?m, def_max d]" "due_min d = ?m" using notify by (auto simp: due_sizes_def due_min_def)
    let ?tail = "encode_length 0x20 (def_max d) 5 @ tail"
    obtain j where j: "inf_loop L mem i (encode_length 0x20 ?m 5 @ ?tail) False = inf_loop L mem j ?tail False"
      "inf_base j" "\<not> bad (inf_ctx j)" "inf_state j = NGHTTP2_HD_STATE_INFLATE_START"
      "hd_dyn (inf_ctx j) = dyn_evict ?m (hd_dyn (inf_ctx i))" 
      "settings_hd_table_bufsize_max j = settings_hd_table_bufsize_max i" "inf_min_hd_table_bufsize_max j = HD_UINT32_MAX"
      using inflate_size [OF i(1-3), of ?m L mem ?tail] i(4,5) due(2) True by auto
    have "inf_state j = NGHTTP2_HD_STATE_INFLATE_START \<or> inf_state j = NGHTTP2_HD_STATE_EXPECT_TABLE_SIZE" using j(4) by simp
    moreover have "def_max d \<le> inf_min_hd_table_bufsize_max j" "def_max d \<le> settings_hd_table_bufsize_max j"
      using j(6,7) lt i(5) by (simp_all add: HD_UINT32_MAX_def)
    ultimately obtain k where "inf_loop L mem j ?tail False = inf_loop L mem k tail False"
      "inf_base k" "\<not> bad (inf_ctx k)" "inf_state k = NGHTTP2_HD_STATE_INFLATE_START"
      "hd_dyn (inf_ctx k) = dyn_evict (def_max d) (hd_dyn (inf_ctx j))" "hd_table_bufsize_max (inf_ctx k) = def_max d"
      "settings_hd_table_bufsize_max k = settings_hd_table_bufsize_max j" "inf_min_hd_table_bufsize_max k = HD_UINT32_MAX"
      using inflate_size [OF j(2,3), of "def_max d" L mem tail] by auto
    then show thesis using that [of k] due i(6) j True by (simp add: size_bytes_def dyn_evict_evict min_def)
  qed
qed

text \<open>A block from one end to the other.\<close>

lemma block_sync:
  assumes ok: "bufs_ok lib out huff" "huff_contract L" "huff_decodes L huff" "mem_ok mem'"
    and sync: "hd_sync d i" and short: "list_all (field_short huff) (map nv_pair nvs)"
    and run: "nghttp2_hd_deflate_hd_bufs lib mem d b nvs = (HD_OK, d', b')"
  obtains bs hs i' where "out b' = out b @ bs" and "inflate_block L mem' (Suc (length bs)) i bs = Some (hs, i')"
    and "map nv_pair hs = map nv_pair nvs" and "list_all2 (\<lambda>nv h. nv_no_index nv \<longrightarrow> nv_no_index h) nvs hs"
    and "hd_sync d' i'" and "\<not> notify_table_size_change d'"
proof -
  have inv: "def_inv d" using sync by (simp add: hd_sync_def)
  note spec = deflate_hd_bufs_spec [OF ok(1) inv run]
  obtain rs where rs: "block_of (def_max d) (def_dyn d) rs (map nv_pair nvs)"
    "out b' = out b @ size_bytes (due_sizes d) @ reprs_bytes huff rs"
    "def_dyn d' = block_table (def_max d) (def_dyn d) rs (map nv_pair nvs)" "respects_no_index nvs rs"
    using spec by (auto simp: reprs_bytes_def)
  let ?pre = "size_bytes (due_sizes d)" and ?bs = "size_bytes (due_sizes d) @ reprs_bytes huff rs"
  obtain j where j: "inf_loop L mem' i ?bs False = inf_loop L mem' j (reprs_bytes huff rs) False"
    "inf_base j" "\<not> bad (inf_ctx j)" "inf_state j = NGHTTP2_HD_STATE_INFLATE_START"
    "hd_dyn (inf_ctx j) = def_dyn d" "hd_table_bufsize_max (inf_ctx j) = def_max d"
    "settings_hd_table_bufsize_max j = settings_hd_table_bufsize_max i" "inf_min_hd_table_bufsize_max j = HD_UINT32_MAX"
    using inflate_due_sizes [OF sync] by blast
  have pre: "\<not> bad (inf_ctx i)" "at_field j" using sync j(4) by (auto simp: hd_sync_def at_field_def)
  have "length rs < Suc (length ?bs)" using length_reprs_bytes [of rs huff] by simp
  from inflate_reprs [OF ok(2-4) pre(1) j(2,3) pre(2) j(1), unfolded j(5,6), OF rs(1) block_short [OF rs(1) short] this]
  obtain hs k where k: "inflate_block L mem' (Suc (length ?bs)) i ?bs = Some (hs, k)" "map nv_pair hs = map nv_pair nvs"
    "never_marked rs hs" "inf_idle j (block_table (def_max d) (def_dyn d) rs (map nv_pair nvs)) k"
    by blast
  have "list_all2 (\<lambda>nv h. nv_no_index nv \<longrightarrow> nv_no_index h) nvs hs"
    using rs(4) k(3) unfolding respects_no_index_def never_marked_def by (rule list_all2_trans [rotated]) auto
  moreover have "hd_sync d' k"
    using spec k(4) rs(3) j sync deflate_hd_bufs_frame [OF ok(1) inv run] by (simp add: hd_sync_def inf_idle_def)
  ultimately show thesis using that [of ?bs hs k] k spec rs(2) by blast
qed

text \<open>
  The pairs of states of a deflater and the inflater of its peer: initialized with the same
  table size, then header blocks are sent, and new settings take effect at both, in any
  order. The deflater may be given a limit of its own.
\<close>

inductive hpack_pair ::
  "'b bufs_lib \<Rightarrow> ('b \<Rightarrow> byte list) \<Rightarrow> (byte list \<Rightarrow> byte list) \<Rightarrow> 'h huff_lib
   \<Rightarrow> nghttp2_hd_deflater \<Rightarrow> 'h nghttp2_hd_inflater \<Rightarrow> bool"
  for lib :: "'b bufs_lib" and out :: "'b \<Rightarrow> byte list" and huff :: "byte list \<Rightarrow> byte list" and L :: "'h huff_lib"
where
  init: "nghttp2_hd_deflate_init2 mem table_size n = Some d \<Longrightarrow> nghttp2_hd_inflate_init L mem' table_size = Some i
    \<Longrightarrow> table_size < 2 ^ 32 \<Longrightarrow> hpack_pair lib out huff L d i"
| settings: "hpack_pair lib out huff L d i \<Longrightarrow> s < 2 ^ 32 \<Longrightarrow> nghttp2_hd_deflate_change_table_size d s = (rv, d')
    \<Longrightarrow> nghttp2_hd_inflate_change_table_size i s = (rv', i') \<Longrightarrow> hpack_pair lib out huff L d' i'"
| block: "hpack_pair lib out huff L d i \<Longrightarrow> nghttp2_hd_deflate_hd_bufs lib mem d b nvs = (HD_OK, d', b')
    \<Longrightarrow> list_all (field_short huff) (map nv_pair nvs) \<Longrightarrow> out b' = out b @ bs \<Longrightarrow> mem_ok mem'
    \<Longrightarrow> inflate_block L mem' (Suc (length bs)) i bs = Some (hs, i') \<Longrightarrow> hpack_pair lib out huff L d' i'"

lemma hpack_pair_sync:
  assumes "hpack_pair lib out huff L d i" and "bufs_ok lib out huff" and "huff_contract L" and "huff_decodes L huff"
  shows "hd_sync d i"
  using assms(1)
proof (induction rule: hpack_pair.induct)
  case init
  then show ?case by (rule init_sync)
next
  case settings
  then show ?case using change_sync by blast
next
  case (block d i mem b nvs d' b' bs mem' hs i')
  obtain bs' hs' j where "out b' = out b @ bs'" "inflate_block L mem' (Suc (length bs')) i bs' = Some (hs', j)" "hd_sync d' j"
    by (rule block_sync [OF assms(2-4) block.hyps(5) block.IH block.hyps(3,2)])
  then show ?case using block.hyps by simp
qed

lemma short_fields:
  assumes "\<forall>nv\<in>set nvs. length (nv_name nv) \<le> 65536 \<and> length (nv_value nv) \<le> 65536"
  shows "list_all (field_short huff) (map nv_pair nvs)"
  using assms by (force simp: list_all_iff field_short_def str_body_def str_huff_def nv_pair_def NGHTTP2_HD_MAX_NV_def)

lemma hpack_pair_step:
  assumes ok: "bufs_ok lib out huff" "huff_contract L" "huff_decodes L huff" "mem_ok mem'"
    and pair: "hpack_pair lib out huff L d i" and short: "list_all (field_short huff) (map nv_pair nvs)"
    and run: "nghttp2_hd_deflate_hd_bufs lib mem d b nvs = (HD_OK, d', b')"
  obtains bs hs i' where "out b' = out b @ bs" and "inflate_block L mem' (Suc (length bs)) i bs = Some (hs, i')"
    and "map nv_pair hs = map nv_pair nvs" and "list_all2 (\<lambda>nv h. nv_no_index nv \<longrightarrow> nv_no_index h) nvs hs"
    and "hd_sync d' i'" and "\<not> notify_table_size_change d'" and "hpack_pair lib out huff L d' i'"
proof -
  obtain bs hs i' where *: "out b' = out b @ bs" "inflate_block L mem' (Suc (length bs)) i bs = Some (hs, i')"
    "map nv_pair hs = map nv_pair nvs" "list_all2 (\<lambda>nv h. nv_no_index nv \<longrightarrow> nv_no_index h) nvs hs"
    "hd_sync d' i'" "\<not> notify_table_size_change d'"
    by (rule block_sync [OF ok hpack_pair_sync [OF pair ok(1-3)] short run])
  with that hpack_pair.block [OF pair run short *(1) ok(4) *(2)] show thesis by blast
qed

section \<open>Properties\<close>

text \<open>C1: what the deflater compresses, the inflater of its peer decompresses: whatever was sent
  and whatever settings took effect before, when a header list is compressed the bytes that are
  written decompress to the same names and values in the same order, fields marked as never to
  be indexed are still marked, and the dynamic tables of both ends, and their sizes, are equal
  again. The names and values are not longer than the 64 KiB the inflater accepts.\<close>

theorem hpack_roundtrip:
  assumes "bufs_ok lib out huff" and "huff_contract L" and "huff_decodes L huff" and "mem_ok mem'"
    and "hpack_pair lib out huff L d i"
    and "\<forall>nv\<in>set nvs. length (nv_name nv) \<le> 65536 \<and> length (nv_value nv) \<le> 65536"
    and "nghttp2_hd_deflate_hd_bufs lib mem d b nvs = (HD_OK, d', b')"
  shows "\<exists>bs hs i'. out b' = out b @ bs \<and> inflate_block L mem' (Suc (length bs)) i bs = Some (hs, i')
    \<and> map (\<lambda>nv. (nv_name nv, nv_value nv)) hs = map (\<lambda>nv. (nv_name nv, nv_value nv)) nvs
    \<and> list_all2 (\<lambda>nv h. nv_no_index nv \<longrightarrow> nv_no_index h) nvs hs
    \<and> hd_dyn (inf_ctx i') = hd_dyn (def_ctx d')
    \<and> hd_table_bufsize_max (inf_ctx i') = hd_table_bufsize_max (def_ctx d')
    \<and> hpack_pair lib out huff L d' i'"
proof -
  obtain bs hs i' where "out b' = out b @ bs" "inflate_block L mem' (Suc (length bs)) i bs = Some (hs, i')"
    "map nv_pair hs = map nv_pair nvs" "list_all2 (\<lambda>nv h. nv_no_index nv \<longrightarrow> nv_no_index h) nvs hs"
    "hd_sync d' i'" "\<not> notify_table_size_change d'" "hpack_pair lib out huff L d' i'"
    by (rule hpack_pair_step [OF assms(1-5) short_fields [OF assms(6)] assms(7)])
  then show ?thesis by (auto simp: hd_sync_def nv_pair_def cong: map_cong)
qed

lemma plain_huff_decodes: "huff_decodes plain_huff id"
  by (simp add: huff_decodes_def plain_huff_def)

theorem hpack_roundtrip_witness:
  "\<exists>d i d' b' hs i'. nghttp2_hd_deflate_init2 all_mem 4096 100 = Some d \<and> nghttp2_hd_inflate_init plain_huff all_mem 4096 = Some i
     \<and> nghttp2_hd_deflate_hd_bufs list_bufs all_mem d [] [\<lparr>nv_name = bytes ''te'', nv_value = bytes ''trailers'', nv_no_index = False\<rparr>]
         = (HD_OK, d', b')
     \<and> inflate_block plain_huff all_mem (Suc (length b')) i b' = Some (hs, i')
     \<and> map (\<lambda>nv. (nv_name nv, nv_value nv)) hs = [(bytes ''te'', bytes ''trailers'')]"
proof -
  let ?nvs = "[\<lparr>nv_name = bytes ''te'', nv_value = bytes ''trailers'', nv_no_index = False\<rparr>]"
  obtain d where d: "nghttp2_hd_deflate_init2 all_mem 4096 100 = Some d" using deflate_init_ex by blast
  obtain i where i: "nghttp2_hd_inflate_init plain_huff all_mem 4096 = Some i"
    by (simp add: nghttp2_hd_inflate_init_def hd_context_init_def hd_ringbuf_init_def Let_def all_mem_def)
  have pair: "hpack_pair list_bufs id id plain_huff d i" by (rule hpack_pair.init [OF d i]) simp
  have short: "\<forall>nv\<in>set ?nvs. length (nv_name nv) \<le> 65536 \<and> length (nv_value nv) \<le> 65536" by simp
  have "fst (nghttp2_hd_deflate_hd_bufs list_bufs all_mem d [] ?nvs) = HD_OK"
    using deflate_hd_bufs_room [OF list_bufs_ok list_bufs_room all_mem_ok deflate_init_inv(1,3) [OF d], of ?nvs "[]"] by auto
  then obtain d' b' where "nghttp2_hd_deflate_hd_bufs list_bufs all_mem d [] ?nvs = (HD_OK, d', b')"
    by (cases "nghttp2_hd_deflate_hd_bufs list_bufs all_mem d [] ?nvs") auto
  from hpack_roundtrip [OF list_bufs_ok plain_huff_contract plain_huff_decodes all_mem_ok pair short this] this d i
  show ?thesis by auto
qed

end
