(* ===== verification/Http2_Frame.thy ===== *)
theory Http2_Frame
  imports Hpack_Roundtrip "HOL-Library.Monad_Syntax"
begin

text \<open>
  The frames of HTTP/2, \<open>nghttp2_frame.c\<close>: frame headers, the initialization, packing and unpacking
  of every frame type, header blocks in HEADERS, PUSH_PROMISE and CONTINUATION frames, padding, and
  the functions on settings and name/value pairs of that file. The functions that release memory
  have no counterpart.

  Frames are packed into a chain of buffers, which is modelled with its memory and positions. The
  functions of other files that are called are the fields of \<open>frame_lib\<close>, and those on chains of
  buffers the fields of \<open>bufs_lib\<close>.
\<close>

section \<open>Constants\<close>

text \<open>The values of \<open>nghttp2.h\<close> and \<open>nghttp2_frame.h\<close>, which are those of RFC 9113, 7838, 8336 and 9218.\<close>

abbreviation NGHTTP2_DATA :: byte where "NGHTTP2_DATA \<equiv> 0"
abbreviation NGHTTP2_HEADERS :: byte where "NGHTTP2_HEADERS \<equiv> 1"
abbreviation NGHTTP2_PRIORITY :: byte where "NGHTTP2_PRIORITY \<equiv> 2"
abbreviation NGHTTP2_RST_STREAM :: byte where "NGHTTP2_RST_STREAM \<equiv> 3"
abbreviation NGHTTP2_SETTINGS :: byte where "NGHTTP2_SETTINGS \<equiv> 4"
abbreviation NGHTTP2_PUSH_PROMISE :: byte where "NGHTTP2_PUSH_PROMISE \<equiv> 5"
abbreviation NGHTTP2_PING :: byte where "NGHTTP2_PING \<equiv> 6"
abbreviation NGHTTP2_GOAWAY :: byte where "NGHTTP2_GOAWAY \<equiv> 7"
abbreviation NGHTTP2_WINDOW_UPDATE :: byte where "NGHTTP2_WINDOW_UPDATE \<equiv> 8"
abbreviation NGHTTP2_CONTINUATION :: byte where "NGHTTP2_CONTINUATION \<equiv> 9"
abbreviation NGHTTP2_ALTSVC :: byte where "NGHTTP2_ALTSVC \<equiv> 0xa"
abbreviation NGHTTP2_ORIGIN :: byte where "NGHTTP2_ORIGIN \<equiv> 0xc"
abbreviation NGHTTP2_PRIORITY_UPDATE :: byte where "NGHTTP2_PRIORITY_UPDATE \<equiv> 0x10"

abbreviation NGHTTP2_FLAG_NONE :: byte where "NGHTTP2_FLAG_NONE \<equiv> 0"
abbreviation NGHTTP2_FLAG_END_HEADERS :: byte where "NGHTTP2_FLAG_END_HEADERS \<equiv> 4"
abbreviation NGHTTP2_FLAG_PADDED :: byte where "NGHTTP2_FLAG_PADDED \<equiv> 8"
abbreviation NGHTTP2_FLAG_PRIORITY :: byte where "NGHTTP2_FLAG_PRIORITY \<equiv> 0x20"

abbreviation NGHTTP2_FRAME_HDLEN :: nat where "NGHTTP2_FRAME_HDLEN \<equiv> 9"
abbreviation NGHTTP2_PRIORITY_SPECLEN :: nat where "NGHTTP2_PRIORITY_SPECLEN \<equiv> 5"
abbreviation NGHTTP2_FRAME_SETTINGS_ENTRY_LENGTH :: nat where "NGHTTP2_FRAME_SETTINGS_ENTRY_LENGTH \<equiv> 6"
abbreviation NGHTTP2_STREAM_ID_MASK :: "32 word" where "NGHTTP2_STREAM_ID_MASK \<equiv> 0x7fffffff"
abbreviation NGHTTP2_WINDOW_SIZE_INCREMENT_MASK :: "32 word" where "NGHTTP2_WINDOW_SIZE_INCREMENT_MASK \<equiv> 0x7fffffff"

section \<open>Buffers and the library\<close>

text \<open>
  A buffer is a piece of memory with the positions \<open>pos\<close> and \<open>last\<close>, between which its
  contents are. \<open>nghttp2_bufs\<close> is a chain of them: \<open>head\<close> is the first, \<open>cur\<close> the one
  that is being written.
\<close>

record nghttp2_buf =
  bf_mem :: "byte list"
  bf_pos :: nat
  bf_last :: nat

record nghttp2_bufs =
  bufs_chain :: "nghttp2_buf list"
  bufs_cur :: nat

record nghttp2_priority_spec =
  ps_stream_id :: "32 word"
  ps_weight :: int
  ps_exclusive :: bool

text \<open>
  The functions of \<open>nghttp2_helper.c\<close>, \<open>nghttp2_buf.c\<close> and \<open>nghttp2_priority_spec.c\<close>:
  the bytes that \<open>nghttp2_put_uint16be\<close> and \<open>nghttp2_put_uint32be\<close> store, what
  \<open>nghttp2_get_uint16\<close> and \<open>nghttp2_get_uint32\<close> read from so many bytes, the bytes that
  \<open>nghttp2_cpymem\<close> stores, the length and the free memory of a buffer, the two functions that
  set a priority, \<open>nghttp2_downcase\<close>; and \<open>sizeof (nghttp2_origin_entry)\<close>.
\<close>

record frame_lib =
  fl_put_uint16be :: "16 word \<Rightarrow> byte list"
  fl_put_uint32be :: "32 word \<Rightarrow> byte list"
  fl_get_uint16 :: "byte list \<Rightarrow> 16 word"
  fl_get_uint32 :: "byte list \<Rightarrow> 32 word"
  fl_cpymem :: "byte list \<Rightarrow> byte list"
  fl_buf_len :: "nghttp2_buf \<Rightarrow> nat"
  fl_buf_avail :: "nghttp2_buf \<Rightarrow> nat"
  fl_priority_spec_init :: "32 word \<Rightarrow> int \<Rightarrow> bool \<Rightarrow> nghttp2_priority_spec"
  fl_priority_spec_default :: nghttp2_priority_spec
  fl_downcase :: "byte list \<Rightarrow> byte list"
  fl_sizeof_origin_entry :: nat

text \<open>
  Access to the memory of a buffer. A failed assertion, an access out of bounds and a position
  before the memory are \<open>None\<close>, in these and in all definitions below.
\<close>

definition buf_put :: "nat \<Rightarrow> byte list \<Rightarrow> nghttp2_buf \<Rightarrow> nghttp2_buf option" where
  "buf_put off xs b =
     (if off + length xs \<le> length (bf_mem b)
      then Some (b\<lparr>bf_mem := take off (bf_mem b) @ xs @ drop (off + length xs) (bf_mem b)\<rparr>)
      else None)"

definition buf_append :: "byte list \<Rightarrow> nghttp2_buf \<Rightarrow> nghttp2_buf option" where
  "buf_append xs b =
     map_option (\<lambda>b. b\<lparr>bf_last := bf_last b + length xs\<rparr>) (buf_put (bf_last b) xs b)"

definition buf_retreat :: "nat \<Rightarrow> nghttp2_buf \<Rightarrow> nghttp2_buf option" where
  "buf_retreat n b = (if n \<le> bf_pos b then Some (b\<lparr>bf_pos := bf_pos b - n\<rparr>) else None)"

definition on_head :: "(nghttp2_buf \<Rightarrow> nghttp2_buf option) \<Rightarrow> nghttp2_bufs \<Rightarrow> nghttp2_bufs option" where
  "on_head f bufs =
     (case bufs_chain bufs of
        [] \<Rightarrow> None
      | b # bs \<Rightarrow> map_option (\<lambda>b. bufs\<lparr>bufs_chain := b # bs\<rparr>) (f b))"

definition bufs_head :: "nghttp2_bufs \<Rightarrow> nghttp2_buf option" where
  "bufs_head bufs = (case bufs_chain bufs of [] \<Rightarrow> None | b # bs \<Rightarrow> Some b)"

section \<open>Frame headers\<close>

record nghttp2_frame_hd =
  fh_length :: nat
  fh_type :: byte
  fh_flags :: byte
  fh_stream_id :: "32 word"
  fh_reserved :: byte

definition nghttp2_frame_pack_frame_hd ::
  "frame_lib \<Rightarrow> nat \<Rightarrow> nghttp2_frame_hd \<Rightarrow> nghttp2_buf \<Rightarrow> nghttp2_buf option"
where
  "nghttp2_frame_pack_frame_hd L off fhd buf =
     do {
       buf \<leftarrow> buf_put off (fl_put_uint32be L (of_nat (fh_length fhd * 256))) buf;
       buf \<leftarrow> buf_put (off + 3) [fh_type fhd] buf;
       buf \<leftarrow> buf_put (off + 4) [fh_flags fhd] buf;
       buf_put (off + 5) (fl_put_uint32be L (fh_stream_id fhd)) buf
     }"

definition nghttp2_frame_unpack_frame_hd :: "frame_lib \<Rightarrow> byte list \<Rightarrow> nghttp2_frame_hd option" where
  "nghttp2_frame_unpack_frame_hd L buf =
     (if length buf < NGHTTP2_FRAME_HDLEN then None
      else Some \<lparr>fh_length = unat (drop_bit 8 (fl_get_uint32 L (take 4 buf))),
                 fh_type = buf ! 3, fh_flags = buf ! 4,
                 fh_stream_id = fl_get_uint32 L (take 4 (drop 5 buf)) AND NGHTTP2_STREAM_ID_MASK,
                 fh_reserved = 0\<rparr>)"

definition nghttp2_frame_hd_init :: "nat \<Rightarrow> byte \<Rightarrow> byte \<Rightarrow> 32 word \<Rightarrow> nghttp2_frame_hd" where
  "nghttp2_frame_hd_init len type flags stream_id =
     \<lparr>fh_length = len, fh_type = type, fh_flags = flags, fh_stream_id = stream_id, fh_reserved = 0\<rparr>"

text \<open>\<open>buf->pos -= NGHTTP2_FRAME_HDLEN\<close> and the frame header there.\<close>

definition put_frame_hd :: "frame_lib \<Rightarrow> nghttp2_frame_hd \<Rightarrow> nghttp2_buf \<Rightarrow> nghttp2_buf option" where
  "put_frame_hd L fhd buf =
     do {
       buf \<leftarrow> buf_retreat NGHTTP2_FRAME_HDLEN buf;
       nghttp2_frame_pack_frame_hd L (bf_pos buf) fhd buf
     }"

section \<open>Frames\<close>

text \<open>\<open>nva\<close> and \<open>nvlen\<close> are a list, and so are the other arrays.\<close>

datatype nghttp2_headers_category =
    NGHTTP2_HCAT_REQUEST | NGHTTP2_HCAT_RESPONSE | NGHTTP2_HCAT_PUSH_RESPONSE | NGHTTP2_HCAT_HEADERS

record nghttp2_headers =
  hf_hd :: nghttp2_frame_hd
  hf_padlen :: nat
  hf_pri_spec :: nghttp2_priority_spec
  hf_nva :: "nghttp2_nv list"
  hf_cat :: nghttp2_headers_category

record nghttp2_priority =
  pf_hd :: nghttp2_frame_hd
  pf_pri_spec :: nghttp2_priority_spec

record nghttp2_rst_stream =
  rf_hd :: nghttp2_frame_hd
  rf_error_code :: "32 word"

record nghttp2_settings_entry =
  se_settings_id :: int
  se_value :: "32 word"

record nghttp2_settings =
  sf_hd :: nghttp2_frame_hd
  sf_iv :: "nghttp2_settings_entry list"

record nghttp2_push_promise =
  ppf_hd :: nghttp2_frame_hd
  ppf_padlen :: nat
  ppf_nva :: "nghttp2_nv list"
  ppf_promised_stream_id :: "32 word"
  ppf_reserved :: byte

record nghttp2_ping =
  pif_hd :: nghttp2_frame_hd
  pif_opaque_data :: "byte list"

record nghttp2_goaway =
  gf_hd :: nghttp2_frame_hd
  gf_last_stream_id :: "32 word"
  gf_error_code :: "32 word"
  gf_opaque_data :: "byte list"
  gf_reserved :: byte

record nghttp2_window_update =
  wf_hd :: nghttp2_frame_hd
  wf_window_size_increment :: "32 word"
  wf_reserved :: byte

record nghttp2_data =
  df_hd :: nghttp2_frame_hd
  df_padlen :: nat

record 'p nghttp2_extension =
  xf_hd :: nghttp2_frame_hd
  xf_payload :: 'p

record nghttp2_ext_altsvc =
  av_origin :: "byte list"
  av_field_value :: "byte list"

record nghttp2_ext_origin =
  og_ov :: "byte list list"

record nghttp2_ext_priority_update =
  pu_stream_id :: "32 word"
  pu_field_value :: "byte list"

subsection \<open>Initialization\<close>

definition nghttp2_frame_headers_init ::
  "frame_lib \<Rightarrow> byte \<Rightarrow> 32 word \<Rightarrow> nghttp2_headers_category \<Rightarrow> nghttp2_priority_spec option
   \<Rightarrow> nghttp2_nv list \<Rightarrow> nghttp2_headers"
where
  "nghttp2_frame_headers_init L flags stream_id cat pri_spec nva =
     \<lparr>hf_hd = nghttp2_frame_hd_init 0 NGHTTP2_HEADERS flags stream_id, hf_padlen = 0,
      hf_pri_spec = (case pri_spec of Some p \<Rightarrow> p | None \<Rightarrow> fl_priority_spec_default L),
      hf_nva = nva, hf_cat = cat\<rparr>"

definition nghttp2_frame_priority_init :: "32 word \<Rightarrow> nghttp2_priority_spec \<Rightarrow> nghttp2_priority" where
  "nghttp2_frame_priority_init stream_id pri_spec =
     \<lparr>pf_hd = nghttp2_frame_hd_init NGHTTP2_PRIORITY_SPECLEN NGHTTP2_PRIORITY NGHTTP2_FLAG_NONE stream_id,
      pf_pri_spec = pri_spec\<rparr>"

definition nghttp2_frame_rst_stream_init :: "32 word \<Rightarrow> 32 word \<Rightarrow> nghttp2_rst_stream" where
  "nghttp2_frame_rst_stream_init stream_id error_code =
     \<lparr>rf_hd = nghttp2_frame_hd_init 4 NGHTTP2_RST_STREAM NGHTTP2_FLAG_NONE stream_id,
      rf_error_code = error_code\<rparr>"

definition nghttp2_frame_settings_init :: "byte \<Rightarrow> nghttp2_settings_entry list \<Rightarrow> nghttp2_settings" where
  "nghttp2_frame_settings_init flags iv =
     \<lparr>sf_hd = nghttp2_frame_hd_init (length iv * NGHTTP2_FRAME_SETTINGS_ENTRY_LENGTH) NGHTTP2_SETTINGS flags 0,
      sf_iv = iv\<rparr>"

definition nghttp2_frame_push_promise_init ::
  "byte \<Rightarrow> 32 word \<Rightarrow> 32 word \<Rightarrow> nghttp2_nv list \<Rightarrow> nghttp2_push_promise"
where
  "nghttp2_frame_push_promise_init flags stream_id promised_stream_id nva =
     \<lparr>ppf_hd = nghttp2_frame_hd_init 0 NGHTTP2_PUSH_PROMISE flags stream_id, ppf_padlen = 0, ppf_nva = nva,
      ppf_promised_stream_id = promised_stream_id, ppf_reserved = 0\<rparr>"

text \<open>The array of eight bytes, copied or zero.\<close>

definition nghttp2_frame_ping_init :: "byte \<Rightarrow> byte list option \<Rightarrow> nghttp2_ping" where
  "nghttp2_frame_ping_init flags opaque_data =
     \<lparr>pif_hd = nghttp2_frame_hd_init 8 NGHTTP2_PING flags 0,
      pif_opaque_data = (case opaque_data of Some xs \<Rightarrow> take 8 xs | None \<Rightarrow> replicate 8 0)\<rparr>"

definition nghttp2_frame_goaway_init :: "32 word \<Rightarrow> 32 word \<Rightarrow> byte list \<Rightarrow> nghttp2_goaway" where
  "nghttp2_frame_goaway_init last_stream_id error_code opaque_data =
     \<lparr>gf_hd = nghttp2_frame_hd_init (8 + length opaque_data) NGHTTP2_GOAWAY NGHTTP2_FLAG_NONE 0,
      gf_last_stream_id = last_stream_id, gf_error_code = error_code, gf_opaque_data = opaque_data,
      gf_reserved = 0\<rparr>"

definition nghttp2_frame_window_update_init :: "byte \<Rightarrow> 32 word \<Rightarrow> 32 word \<Rightarrow> nghttp2_window_update" where
  "nghttp2_frame_window_update_init flags stream_id window_size_increment =
     \<lparr>wf_hd = nghttp2_frame_hd_init 4 NGHTTP2_WINDOW_UPDATE flags stream_id,
      wf_window_size_increment = window_size_increment, wf_reserved = 0\<rparr>"

definition nghttp2_frame_trail_padlen :: "nghttp2_frame_hd \<Rightarrow> nat \<Rightarrow> nat" where
  "nghttp2_frame_trail_padlen fhd padlen =
     (if padlen = 0 then 0 else padlen - (if fh_flags fhd AND NGHTTP2_FLAG_PADDED \<noteq> 0 then 1 else 0))"

definition nghttp2_frame_data_init :: "byte \<Rightarrow> 32 word \<Rightarrow> nghttp2_data" where
  "nghttp2_frame_data_init flags stream_id =
     \<lparr>df_hd = nghttp2_frame_hd_init 0 NGHTTP2_DATA flags stream_id, df_padlen = 0\<rparr>"

definition nghttp2_frame_extension_init :: "byte \<Rightarrow> byte \<Rightarrow> 32 word \<Rightarrow> 'p \<Rightarrow> 'p nghttp2_extension" where
  "nghttp2_frame_extension_init type flags stream_id payload =
     \<lparr>xf_hd = nghttp2_frame_hd_init 0 type flags stream_id, xf_payload = payload\<rparr>"

definition nghttp2_frame_altsvc_init ::
  "32 word \<Rightarrow> byte list \<Rightarrow> byte list \<Rightarrow> nghttp2_ext_altsvc nghttp2_extension"
where
  "nghttp2_frame_altsvc_init stream_id origin field_value =
     \<lparr>xf_hd = nghttp2_frame_hd_init (2 + length origin + length field_value) NGHTTP2_ALTSVC NGHTTP2_FLAG_NONE stream_id,
      xf_payload = \<lparr>av_origin = origin, av_field_value = field_value\<rparr>\<rparr>"

fun origin_payloadlen :: "byte list list \<Rightarrow> nat" where
  "origin_payloadlen [] = 0"
| "origin_payloadlen (x # ov) = 2 + length x + origin_payloadlen ov"

definition nghttp2_frame_origin_init :: "byte list list \<Rightarrow> nghttp2_ext_origin nghttp2_extension" where
  "nghttp2_frame_origin_init ov =
     \<lparr>xf_hd = nghttp2_frame_hd_init (origin_payloadlen ov) NGHTTP2_ORIGIN NGHTTP2_FLAG_NONE 0,
      xf_payload = \<lparr>og_ov = ov\<rparr>\<rparr>"

definition nghttp2_frame_priority_update_init ::
  "32 word \<Rightarrow> byte list \<Rightarrow> nghttp2_ext_priority_update nghttp2_extension"
where
  "nghttp2_frame_priority_update_init stream_id field_value =
     \<lparr>xf_hd = nghttp2_frame_hd_init (4 + length field_value) NGHTTP2_PRIORITY_UPDATE NGHTTP2_FLAG_NONE 0,
      xf_payload = \<lparr>pu_stream_id = stream_id, pu_field_value = field_value\<rparr>\<rparr>"

section \<open>HEADERS\<close>

definition nghttp2_frame_priority_len :: "byte \<Rightarrow> nat" where
  "nghttp2_frame_priority_len flags =
     (if flags AND NGHTTP2_FLAG_PRIORITY \<noteq> 0 then NGHTTP2_PRIORITY_SPECLEN else 0)"

definition nghttp2_frame_headers_payload_nv_offset :: "nghttp2_headers \<Rightarrow> nat" where
  "nghttp2_frame_headers_payload_nv_offset frame = nghttp2_frame_priority_len (fh_flags (hf_hd frame))"

text \<open>
  The CONTINUATION frames: \<open>n\<close> is the number of buffers from \<open>ci\<close> to \<open>bufs->cur\<close>, the
  last of which gets the flag.
\<close>

fun pack_continuations :: "frame_lib \<Rightarrow> nghttp2_frame_hd \<Rightarrow> nat \<Rightarrow> nghttp2_buf list \<Rightarrow> nghttp2_buf list option" where
  "pack_continuations L fhd n [] = None"
| "pack_continuations L fhd n (buf # bufs) =
     (if n = 0 then
        do {
          buf \<leftarrow> put_frame_hd L (fhd\<lparr>fh_length := fl_buf_len L buf, fh_flags := NGHTTP2_FLAG_END_HEADERS\<rparr>) buf;
          Some (buf # bufs)
        }
      else
        do {
          buf \<leftarrow> put_frame_hd L (fhd\<lparr>fh_length := fl_buf_len L buf\<rparr>) buf;
          bufs \<leftarrow> pack_continuations L fhd (n - 1) bufs;
          Some (buf # bufs)
        })"

definition frame_pack_headers_shared :: "frame_lib \<Rightarrow> nghttp2_bufs \<Rightarrow> nghttp2_frame_hd \<Rightarrow> nghttp2_bufs option" where
  "frame_pack_headers_shared L bufs frame_hd =
     (case bufs_chain bufs of
        [] \<Rightarrow> None
      | buf # rest \<Rightarrow>
          let fhd = frame_hd\<lparr>fh_length := fl_buf_len L buf\<rparr>;
              fhd = (if bufs_cur bufs \<noteq> 0 then fhd\<lparr>fh_flags := fh_flags fhd AND NOT NGHTTP2_FLAG_END_HEADERS\<rparr> else fhd)
          in
          do {
            buf \<leftarrow> put_frame_hd L fhd buf;
            rest \<leftarrow>
              (if bufs_cur bufs \<noteq> 0
               then pack_continuations L (fhd\<lparr>fh_type := NGHTTP2_CONTINUATION, fh_flags := NGHTTP2_FLAG_NONE\<rparr>)
                      (bufs_cur bufs - 1) rest
               else Some rest);
            Some (bufs\<lparr>bufs_chain := buf # rest\<rparr>)
          })"

definition nghttp2_frame_pack_priority_spec ::
  "frame_lib \<Rightarrow> nat \<Rightarrow> nghttp2_priority_spec \<Rightarrow> nghttp2_buf \<Rightarrow> nghttp2_buf option"
where
  "nghttp2_frame_pack_priority_spec L off pri_spec buf =
     do {
       buf \<leftarrow> buf_put off (fl_put_uint32be L (ps_stream_id pri_spec)) buf;
       buf \<leftarrow> (if ps_exclusive pri_spec then buf_put off [bf_mem buf ! off OR 0x80] buf else Some buf);
       buf_put (off + 4) [word_of_int (ps_weight pri_spec - 1)] buf
     }"

definition nghttp2_frame_unpack_priority_spec :: "frame_lib \<Rightarrow> byte list \<Rightarrow> nghttp2_priority_spec option" where
  "nghttp2_frame_unpack_priority_spec L payload =
     (if length payload < NGHTTP2_PRIORITY_SPECLEN then None
      else
        (let dep_stream_id = fl_get_uint32 L (take 4 payload) AND NGHTTP2_STREAM_ID_MASK;
             exclusive = (payload ! 0 AND 0x80 \<noteq> 0);
             weight = uint (payload ! 4) + 1
         in
         Some (fl_priority_spec_init L dep_stream_id weight exclusive)))"

text \<open>
  The bytes of the header block start behind the priority, for which room is left first and
  which is written last. \<open>buf\<close> stays the head of the chain while the deflater goes on to
  other buffers.
\<close>

definition bufs_skip :: "nat \<Rightarrow> nghttp2_bufs \<Rightarrow> nghttp2_bufs option" where
  "bufs_skip n = on_head (\<lambda>buf. Some (buf\<lparr>bf_pos := bf_pos buf + n, bf_last := bf_pos buf + n\<rparr>))"

definition nghttp2_frame_pack_headers ::
  "frame_lib \<Rightarrow> nghttp2_bufs bufs_lib \<Rightarrow> nghttp2_mem \<Rightarrow> nghttp2_bufs \<Rightarrow> nghttp2_headers \<Rightarrow> nghttp2_hd_deflater
   \<Rightarrow> (hd_rv \<times> nghttp2_bufs \<times> nghttp2_headers \<times> nghttp2_hd_deflater) option"
where
  "nghttp2_frame_pack_headers L lib mem bufs frame deflater =
     (if bufs_cur bufs \<noteq> 0 then None
      else
        (let nv_offset = nghttp2_frame_headers_payload_nv_offset frame in
         do {
           bufs \<leftarrow> bufs_skip nv_offset bufs;
           case nghttp2_hd_deflate_hd_bufs lib mem deflater bufs (hf_nva frame) of
             (rv, deflater, bufs) \<Rightarrow>
               let rv = (if rv = NGHTTP2_ERR_BUFFER_ERROR then NGHTTP2_ERR_HEADER_COMP else rv) in
               do {
                 bufs \<leftarrow> on_head (buf_retreat nv_offset) bufs;
                 if rv \<noteq> HD_OK then Some (rv, bufs, frame, deflater)
                 else
                   do {
                     bufs \<leftarrow>
                       (if fh_flags (hf_hd frame) AND NGHTTP2_FLAG_PRIORITY \<noteq> 0
                        then on_head (\<lambda>buf. nghttp2_frame_pack_priority_spec L (bf_pos buf) (hf_pri_spec frame) buf) bufs
                        else Some bufs);
                     let frame = frame\<lparr>hf_padlen := 0, hf_hd := (hf_hd frame)\<lparr>fh_length := bufs_len lib bufs\<rparr>\<rparr>;
                     bufs \<leftarrow> frame_pack_headers_shared L bufs (hf_hd frame);
                     Some (HD_OK, bufs, frame, deflater)
                   }
               }
         }))"

definition nghttp2_frame_unpack_headers_payload ::
  "frame_lib \<Rightarrow> nghttp2_headers \<Rightarrow> byte list \<Rightarrow> nghttp2_headers option"
where
  "nghttp2_frame_unpack_headers_payload L frame payload =
     map_option (\<lambda>p. frame\<lparr>hf_pri_spec := p, hf_nva := []\<rparr>)
       (if fh_flags (hf_hd frame) AND NGHTTP2_FLAG_PRIORITY \<noteq> 0
        then nghttp2_frame_unpack_priority_spec L payload
        else Some (fl_priority_spec_default L))"

section \<open>Frames of a fixed shape\<close>

definition nghttp2_frame_pack_priority ::
  "frame_lib \<Rightarrow> nghttp2_bufs \<Rightarrow> nghttp2_priority \<Rightarrow> nghttp2_bufs option"
where
  "nghttp2_frame_pack_priority L bufs frame =
     (if bufs_cur bufs \<noteq> 0 then None
      else
        on_head (\<lambda>buf.
          if fl_buf_avail L buf < NGHTTP2_PRIORITY_SPECLEN then None
          else
            do {
              buf \<leftarrow> put_frame_hd L (pf_hd frame) buf;
              buf \<leftarrow> nghttp2_frame_pack_priority_spec L (bf_last buf) (pf_pri_spec frame) buf;
              Some (buf\<lparr>bf_last := bf_last buf + NGHTTP2_PRIORITY_SPECLEN\<rparr>)
            }) bufs)"

definition nghttp2_frame_unpack_priority_payload ::
  "frame_lib \<Rightarrow> nghttp2_priority \<Rightarrow> byte list \<Rightarrow> nghttp2_priority option"
where
  "nghttp2_frame_unpack_priority_payload L frame payload =
     map_option (\<lambda>p. frame\<lparr>pf_pri_spec := p\<rparr>) (nghttp2_frame_unpack_priority_spec L payload)"

definition nghttp2_frame_pack_rst_stream ::
  "frame_lib \<Rightarrow> nghttp2_bufs \<Rightarrow> nghttp2_rst_stream \<Rightarrow> nghttp2_bufs option"
where
  "nghttp2_frame_pack_rst_stream L bufs frame =
     (if bufs_cur bufs \<noteq> 0 then None
      else
        on_head (\<lambda>buf.
          if fl_buf_avail L buf < 4 then None
          else
            do {
              buf \<leftarrow> put_frame_hd L (rf_hd frame) buf;
              buf_append (fl_put_uint32be L (rf_error_code frame)) buf
            }) bufs)"

definition nghttp2_frame_unpack_rst_stream_payload ::
  "frame_lib \<Rightarrow> nghttp2_rst_stream \<Rightarrow> byte list \<Rightarrow> nghttp2_rst_stream option"
where
  "nghttp2_frame_unpack_rst_stream_payload L frame payload =
     (if length payload < 4 then None
      else Some (frame\<lparr>rf_error_code := fl_get_uint32 L (take 4 payload)\<rparr>))"

text \<open>The loop of \<open>nghttp2_frame_pack_settings_payload\<close>, which writes from \<open>off\<close> on.\<close>

fun nghttp2_frame_pack_settings_payload ::
  "frame_lib \<Rightarrow> nat \<Rightarrow> nghttp2_settings_entry list \<Rightarrow> nghttp2_buf \<Rightarrow> nghttp2_buf option"
where
  "nghttp2_frame_pack_settings_payload L off [] buf = Some buf"
| "nghttp2_frame_pack_settings_payload L off (e # iv) buf =
     do {
       buf \<leftarrow> buf_put off (fl_put_uint16be L (word_of_int (se_settings_id e))) buf;
       buf \<leftarrow> buf_put (off + 2) (fl_put_uint32be L (se_value e)) buf;
       nghttp2_frame_pack_settings_payload L (off + NGHTTP2_FRAME_SETTINGS_ENTRY_LENGTH) iv buf
     }"

definition nghttp2_frame_pack_settings ::
  "frame_lib \<Rightarrow> nghttp2_bufs \<Rightarrow> nghttp2_settings \<Rightarrow> (hd_rv \<times> nghttp2_bufs) option"
where
  "nghttp2_frame_pack_settings L bufs frame =
     (if bufs_cur bufs \<noteq> 0 then None
      else
        do {
          buf \<leftarrow> bufs_head bufs;
          if fl_buf_avail L buf < fh_length (sf_hd frame) then Some (NGHTTP2_ERR_FRAME_SIZE_ERROR, bufs)
          else
            do {
              bufs \<leftarrow> on_head (\<lambda>buf.
                do {
                  buf \<leftarrow> put_frame_hd L (sf_hd frame) buf;
                  buf \<leftarrow> nghttp2_frame_pack_settings_payload L (bf_last buf) (sf_iv frame) buf;
                  Some (buf\<lparr>bf_last := bf_last buf + NGHTTP2_FRAME_SETTINGS_ENTRY_LENGTH * length (sf_iv frame)\<rparr>)
                }) bufs;
              Some (HD_OK, bufs)
            }
        })"

definition nghttp2_frame_unpack_settings_payload ::
  "nghttp2_settings \<Rightarrow> nghttp2_settings_entry list \<Rightarrow> nghttp2_settings"
where
  "nghttp2_frame_unpack_settings_payload frame iv = frame\<lparr>sf_iv := iv\<rparr>"

definition nghttp2_frame_unpack_settings_entry :: "frame_lib \<Rightarrow> byte list \<Rightarrow> nghttp2_settings_entry option" where
  "nghttp2_frame_unpack_settings_entry L payload =
     (if length payload < NGHTTP2_FRAME_SETTINGS_ENTRY_LENGTH then None
      else Some \<lparr>se_settings_id = uint (fl_get_uint16 L (take 2 payload)),
                 se_value = fl_get_uint32 L (take 4 (drop 2 payload))\<rparr>)"

text \<open>\<open>for (i = 0; i < *niv_ptr; ++i)\<close>, from \<open>i\<close> on with \<open>n\<close> entries to go.\<close>

fun unpack_settings_entries :: "frame_lib \<Rightarrow> nat \<Rightarrow> nat \<Rightarrow> byte list \<Rightarrow> nghttp2_settings_entry list option" where
  "unpack_settings_entries L i 0 payload = Some []"
| "unpack_settings_entries L i (Suc n) payload =
     do {
       e \<leftarrow> nghttp2_frame_unpack_settings_entry L (drop (i * NGHTTP2_FRAME_SETTINGS_ENTRY_LENGTH) payload);
       iv \<leftarrow> unpack_settings_entries L (i + 1) n payload;
       Some (e # iv)
     }"

text \<open>\<open>malloc\<close> says whether there is memory for so many entries, or bytes.\<close>

definition nghttp2_frame_unpack_settings_payload2 ::
  "frame_lib \<Rightarrow> (nat \<Rightarrow> bool) \<Rightarrow> byte list \<Rightarrow> (hd_rv \<times> nghttp2_settings_entry list) option"
where
  "nghttp2_frame_unpack_settings_payload2 L malloc payload =
     (let niv = length payload div NGHTTP2_FRAME_SETTINGS_ENTRY_LENGTH in
      if niv = 0 then Some (HD_OK, [])
      else if \<not> malloc niv then Some (NGHTTP2_ERR_NOMEM, [])
      else map_option (\<lambda>iv. (HD_OK, iv)) (unpack_settings_entries L 0 niv payload))"

definition nghttp2_frame_pack_push_promise ::
  "frame_lib \<Rightarrow> nghttp2_bufs bufs_lib \<Rightarrow> nghttp2_mem \<Rightarrow> nghttp2_bufs \<Rightarrow> nghttp2_push_promise \<Rightarrow> nghttp2_hd_deflater
   \<Rightarrow> (hd_rv \<times> nghttp2_bufs \<times> nghttp2_push_promise \<times> nghttp2_hd_deflater) option"
where
  "nghttp2_frame_pack_push_promise L lib mem bufs frame deflater =
     (if bufs_cur bufs \<noteq> 0 then None
      else
        do {
          bufs \<leftarrow> bufs_skip 4 bufs;
          case nghttp2_hd_deflate_hd_bufs lib mem deflater bufs (ppf_nva frame) of
            (rv, deflater, bufs) \<Rightarrow>
              let rv = (if rv = NGHTTP2_ERR_BUFFER_ERROR then NGHTTP2_ERR_HEADER_COMP else rv) in
              do {
                bufs \<leftarrow> on_head (buf_retreat 4) bufs;
                if rv \<noteq> HD_OK then Some (rv, bufs, frame, deflater)
                else
                  do {
                    bufs \<leftarrow> on_head (\<lambda>buf. buf_put (bf_pos buf) (fl_put_uint32be L (ppf_promised_stream_id frame)) buf) bufs;
                    let frame = frame\<lparr>ppf_padlen := 0, ppf_hd := (ppf_hd frame)\<lparr>fh_length := bufs_len lib bufs\<rparr>\<rparr>;
                    bufs \<leftarrow> frame_pack_headers_shared L bufs (ppf_hd frame);
                    Some (HD_OK, bufs, frame, deflater)
                  }
              }
        })"

definition nghttp2_frame_unpack_push_promise_payload ::
  "frame_lib \<Rightarrow> nghttp2_push_promise \<Rightarrow> byte list \<Rightarrow> nghttp2_push_promise option"
where
  "nghttp2_frame_unpack_push_promise_payload L frame payload =
     (if length payload < 4 then None
      else Some (frame\<lparr>ppf_promised_stream_id := fl_get_uint32 L (take 4 payload) AND NGHTTP2_STREAM_ID_MASK,
                       ppf_nva := []\<rparr>))"

definition nghttp2_frame_pack_ping :: "frame_lib \<Rightarrow> nghttp2_bufs \<Rightarrow> nghttp2_ping \<Rightarrow> nghttp2_bufs option" where
  "nghttp2_frame_pack_ping L bufs frame =
     (if bufs_cur bufs \<noteq> 0 then None
      else
        on_head (\<lambda>buf.
          if fl_buf_avail L buf < 8 then None
          else
            do {
              buf \<leftarrow> put_frame_hd L (pif_hd frame) buf;
              buf_append (fl_cpymem L (pif_opaque_data frame)) buf
            }) bufs)"

definition nghttp2_frame_unpack_ping_payload :: "nghttp2_ping \<Rightarrow> byte list \<Rightarrow> nghttp2_ping option" where
  "nghttp2_frame_unpack_ping_payload frame payload =
     (if length payload < 8 then None else Some (frame\<lparr>pif_opaque_data := take 8 payload\<rparr>))"

definition nghttp2_frame_pack_goaway ::
  "frame_lib \<Rightarrow> nghttp2_bufs bufs_lib \<Rightarrow> nghttp2_bufs \<Rightarrow> nghttp2_goaway \<Rightarrow> (hd_rv \<times> nghttp2_bufs) option"
where
  "nghttp2_frame_pack_goaway L lib bufs frame =
     (if bufs_cur bufs \<noteq> 0 then None
      else
        do {
          bufs \<leftarrow> on_head (\<lambda>buf.
            do {
              buf \<leftarrow> put_frame_hd L (gf_hd frame) buf;
              buf \<leftarrow> buf_append (fl_put_uint32be L (gf_last_stream_id frame)) buf;
              buf_append (fl_put_uint32be L (gf_error_code frame)) buf
            }) bufs;
          case bufs_add lib bufs (gf_opaque_data frame) of
            (rv, bufs) \<Rightarrow>
              if rv = NGHTTP2_ERR_BUFFER_ERROR then Some (NGHTTP2_ERR_FRAME_SIZE_ERROR, bufs)
              else Some (rv, bufs)
        })"

definition nghttp2_frame_unpack_goaway_payload ::
  "frame_lib \<Rightarrow> nghttp2_goaway \<Rightarrow> byte list \<Rightarrow> byte list \<Rightarrow> nghttp2_goaway option"
where
  "nghttp2_frame_unpack_goaway_payload L frame payload var_gift_payload =
     (if length payload < 8 then None
      else Some (frame\<lparr>gf_last_stream_id := fl_get_uint32 L (take 4 payload) AND NGHTTP2_STREAM_ID_MASK,
                       gf_error_code := fl_get_uint32 L (take 4 (drop 4 payload)),
                       gf_opaque_data := var_gift_payload\<rparr>))"

definition nghttp2_frame_unpack_goaway_payload2 ::
  "frame_lib \<Rightarrow> (nat \<Rightarrow> bool) \<Rightarrow> nghttp2_goaway \<Rightarrow> byte list \<Rightarrow> (hd_rv \<times> nghttp2_goaway) option"
where
  "nghttp2_frame_unpack_goaway_payload2 L malloc frame payload =
     (let var_gift_payloadlen = (if length payload > 8 then length payload - 8 else 0) in
      if var_gift_payloadlen = 0
      then map_option (\<lambda>f. (HD_OK, f)) (nghttp2_frame_unpack_goaway_payload L frame payload [])
      else if \<not> malloc var_gift_payloadlen then Some (NGHTTP2_ERR_NOMEM, frame)
      else map_option (\<lambda>f. (HD_OK, f)) (nghttp2_frame_unpack_goaway_payload L frame payload (drop 8 payload)))"

definition nghttp2_frame_pack_window_update ::
  "frame_lib \<Rightarrow> nghttp2_bufs \<Rightarrow> nghttp2_window_update \<Rightarrow> nghttp2_bufs option"
where
  "nghttp2_frame_pack_window_update L bufs frame =
     (if bufs_cur bufs \<noteq> 0 then None
      else
        on_head (\<lambda>buf.
          if fl_buf_avail L buf < 4 then None
          else
            do {
              buf \<leftarrow> put_frame_hd L (wf_hd frame) buf;
              buf_append (fl_put_uint32be L (wf_window_size_increment frame)) buf
            }) bufs)"

definition nghttp2_frame_unpack_window_update_payload ::
  "frame_lib \<Rightarrow> nghttp2_window_update \<Rightarrow> byte list \<Rightarrow> nghttp2_window_update option"
where
  "nghttp2_frame_unpack_window_update_payload L frame payload =
     (if length payload < 4 then None
      else Some (frame\<lparr>wf_window_size_increment :=
                   fl_get_uint32 L (take 4 payload) AND NGHTTP2_WINDOW_SIZE_INCREMENT_MASK\<rparr>))"

section \<open>Extension frames\<close>

text \<open>The two calls of \<open>nghttp2_bufs_add\<close> have to succeed.\<close>

definition nghttp2_frame_pack_altsvc ::
  "frame_lib \<Rightarrow> nghttp2_bufs bufs_lib \<Rightarrow> nghttp2_bufs \<Rightarrow> nghttp2_ext_altsvc nghttp2_extension \<Rightarrow> nghttp2_bufs option"
where
  "nghttp2_frame_pack_altsvc L lib bufs frame =
     (let altsvc = xf_payload frame in
      do {
        bufs \<leftarrow> on_head (\<lambda>buf.
          if fl_buf_avail L buf < 2 + length (av_origin altsvc) + length (av_field_value altsvc) then None
          else
            do {
              buf \<leftarrow> put_frame_hd L (xf_hd frame) buf;
              buf_append (fl_put_uint16be L (of_nat (length (av_origin altsvc)))) buf
            }) bufs;
        case bufs_add lib bufs (av_origin altsvc) of
          (rv, bufs) \<Rightarrow>
            if rv \<noteq> HD_OK then None
            else
              (case bufs_add lib bufs (av_field_value altsvc) of
                 (rv, bufs) \<Rightarrow> if rv \<noteq> HD_OK then None else Some bufs)
      })"

text \<open>
  \<open>None\<close> when the origin would reach beyond the payload, so that the length of the field value
  would be negative.
\<close>

definition nghttp2_frame_unpack_altsvc_payload ::
  "nghttp2_ext_altsvc nghttp2_extension \<Rightarrow> nat \<Rightarrow> byte list \<Rightarrow> nghttp2_ext_altsvc nghttp2_extension option"
where
  "nghttp2_frame_unpack_altsvc_payload frame origin_len payload =
     (if length payload < origin_len then None
      else Some (frame\<lparr>xf_payload := \<lparr>av_origin = take origin_len payload, av_field_value = drop origin_len payload\<rparr>\<rparr>))"

text \<open>\<open>Inl\<close> is \<open>NGHTTP2_FRAME_SIZE_ERROR\<close>, which is not one of the negative codes of the library.\<close>

definition nghttp2_frame_unpack_altsvc_payload2 ::
  "frame_lib \<Rightarrow> (nat \<Rightarrow> bool) \<Rightarrow> nghttp2_ext_altsvc nghttp2_extension \<Rightarrow> byte list
   \<Rightarrow> (unit + hd_rv \<times> nghttp2_ext_altsvc nghttp2_extension) option"
where
  "nghttp2_frame_unpack_altsvc_payload2 L malloc frame payload =
     (if length payload < 2 then Some (Inl ())
      else
        (let origin_len = unat (fl_get_uint16 L (take 2 payload)) in
         if \<not> malloc (length payload - 2) then Some (Inr (NGHTTP2_ERR_NOMEM, frame))
         else map_option (\<lambda>f. Inr (HD_OK, f))
                (nghttp2_frame_unpack_altsvc_payload frame origin_len (drop 2 payload))))"

fun pack_origins :: "frame_lib \<Rightarrow> byte list list \<Rightarrow> nghttp2_buf \<Rightarrow> nghttp2_buf option" where
  "pack_origins L [] buf = Some buf"
| "pack_origins L (x # ov) buf =
     do {
       buf \<leftarrow> buf_append (fl_put_uint16be L (of_nat (length x))) buf;
       buf \<leftarrow> buf_append (fl_cpymem L x) buf;
       pack_origins L ov buf
     }"

definition nghttp2_frame_pack_origin ::
  "frame_lib \<Rightarrow> nghttp2_bufs \<Rightarrow> nghttp2_ext_origin nghttp2_extension \<Rightarrow> (hd_rv \<times> nghttp2_bufs) option"
where
  "nghttp2_frame_pack_origin L bufs frame =
     do {
       buf \<leftarrow> bufs_head bufs;
       if fl_buf_avail L buf < fh_length (xf_hd frame) then Some (NGHTTP2_ERR_FRAME_SIZE_ERROR, bufs)
       else
         do {
           bufs \<leftarrow> on_head (\<lambda>buf.
             do {
               buf \<leftarrow> put_frame_hd L (xf_hd frame) buf;
               buf \<leftarrow> pack_origins L (og_ov (xf_payload frame)) buf;
               if fl_buf_len L buf \<noteq> NGHTTP2_FRAME_HDLEN + fh_length (xf_hd frame) then None else Some buf
             }) bufs;
           Some (HD_OK, bufs)
         }
     }"

text \<open>
  The first loop of \<open>nghttp2_frame_unpack_origin_payload\<close> checks the payload and computes
  \<open>nov\<close> and \<open>len\<close>; \<open>None\<close> is \<open>NGHTTP2_ERR_FRAME_SIZE_ERROR\<close>.
\<close>

function origin_scan :: "frame_lib \<Rightarrow> byte list \<Rightarrow> nat \<Rightarrow> nat \<Rightarrow> (nat \<times> nat) option" where
  "origin_scan L p nov len =
     (if p = [] then Some (nov, len)
      else if length p < 2 then None
      else
        (let originlen = unat (fl_get_uint16 L (take 2 p));
             p = drop 2 p
         in
         if originlen = 0 then origin_scan L p nov len
         else if originlen > length p then None
         else origin_scan L (drop originlen p) (nov + 1) (len + (originlen + 1))))"
  by pat_completeness auto
termination
  by (relation "measure (\<lambda>(L, p, nov, len). length p)") (auto simp: Suc_le_eq)

text \<open>
  The second loop copies: \<open>dst\<close> is the offset in the allocated memory of \<open>memlen\<close> bytes, where
  each origin is followed by a null byte. \<open>None\<close> is an access out of bounds.
\<close>

function origin_fill :: "frame_lib \<Rightarrow> nat \<Rightarrow> byte list \<Rightarrow> nat \<Rightarrow> byte list list option" where
  "origin_fill L memlen p dst =
     (if p = [] then Some []
      else if length p < 2 then None
      else
        (let originlen = unat (fl_get_uint16 L (take 2 p));
             p = drop 2 p
         in
         if originlen = 0 then origin_fill L memlen p dst
         else if originlen > length p \<or> dst + originlen + 1 > memlen then None
         else
           map_option (\<lambda>ov. fl_cpymem L (take originlen p) # ov)
             (origin_fill L memlen (drop originlen p) (dst + originlen + 1))))"
  by pat_completeness auto
termination
  by (relation "measure (\<lambda>(L, memlen, p, dst). length p)") (auto simp: Suc_le_eq)

declare origin_scan.simps [simp del] origin_fill.simps [simp del]

definition nghttp2_frame_unpack_origin_payload ::
  "frame_lib \<Rightarrow> (nat \<Rightarrow> bool) \<Rightarrow> nghttp2_ext_origin nghttp2_extension \<Rightarrow> byte list
   \<Rightarrow> (hd_rv \<times> nghttp2_ext_origin nghttp2_extension) option"
where
  "nghttp2_frame_unpack_origin_payload L malloc frame payload =
     (case origin_scan L payload 0 0 of
        None \<Rightarrow> Some (NGHTTP2_ERR_FRAME_SIZE_ERROR, frame)
      | Some (nov, len) \<Rightarrow>
          if nov = 0 then Some (HD_OK, frame\<lparr>xf_payload := \<lparr>og_ov = []\<rparr>\<rparr>)
          else
            (let entries = nov * fl_sizeof_origin_entry L;
                 len = len + entries
             in
             if \<not> malloc len then Some (NGHTTP2_ERR_NOMEM, frame)
             else
               (case origin_fill L len payload entries of
                  None \<Rightarrow> None
                | Some ov \<Rightarrow>
                    if length ov > nov then None
                    else Some (HD_OK, frame\<lparr>xf_payload := \<lparr>og_ov = ov\<rparr>\<rparr>))))"

definition nghttp2_frame_pack_priority_update ::
  "frame_lib \<Rightarrow> nghttp2_bufs bufs_lib \<Rightarrow> nghttp2_bufs \<Rightarrow> nghttp2_ext_priority_update nghttp2_extension
   \<Rightarrow> nghttp2_bufs option"
where
  "nghttp2_frame_pack_priority_update L lib bufs frame =
     (let priority_update = xf_payload frame in
      do {
        bufs \<leftarrow> on_head (\<lambda>buf.
          if fl_buf_avail L buf < 4 + length (pu_field_value priority_update) then None
          else
            do {
              buf \<leftarrow> put_frame_hd L (xf_hd frame) buf;
              buf_append (fl_put_uint32be L (pu_stream_id priority_update)) buf
            }) bufs;
        case bufs_add lib bufs (pu_field_value priority_update) of
          (rv, bufs) \<Rightarrow> if rv \<noteq> HD_OK then None else Some bufs
      })"

definition nghttp2_frame_unpack_priority_update_payload ::
  "frame_lib \<Rightarrow> nghttp2_ext_priority_update nghttp2_extension \<Rightarrow> byte list
   \<Rightarrow> nghttp2_ext_priority_update nghttp2_extension option"
where
  "nghttp2_frame_unpack_priority_update_payload L frame payload =
     (if length payload < 4 then None
      else Some (frame\<lparr>xf_payload := \<lparr>pu_stream_id = fl_get_uint32 L (take 4 payload) AND NGHTTP2_STREAM_ID_MASK,
                                      pu_field_value = drop 4 payload\<rparr>\<rparr>))"

section \<open>Settings and name/value pairs\<close>

definition nghttp2_frame_iv_copy :: "(nat \<Rightarrow> bool) \<Rightarrow> nghttp2_settings_entry list \<Rightarrow> nghttp2_settings_entry list option" where
  "nghttp2_frame_iv_copy malloc iv =
     (if length iv = 0 then None else if \<not> malloc (length iv) then None else Some iv)"

text \<open>A comparison of \<open>memcmp\<close>: negative, zero or positive.\<close>

fun c_memcmp :: "byte list \<Rightarrow> byte list \<Rightarrow> int" where
  "c_memcmp (x # xs) (y # ys) = (if x < y then - 1 else if y < x then 1 else c_memcmp xs ys)"
| "c_memcmp _ _ = 0"

definition nghttp2_nv_equal :: "nghttp2_nv \<Rightarrow> nghttp2_nv \<Rightarrow> bool" where
  "nghttp2_nv_equal a b =
     (if length (nv_name a) \<noteq> length (nv_name b) \<or> length (nv_value a) \<noteq> length (nv_value b) then False
      else if c_memcmp (nv_name a) (nv_name b) \<noteq> 0 then False
      else if c_memcmp (nv_value a) (nv_value b) \<noteq> 0 then False
      else True)"

definition bytes_compar :: "byte list \<Rightarrow> byte list \<Rightarrow> int" where
  "bytes_compar a b =
     (if length a = length b then c_memcmp a b
      else if length a < length b then
        (let rv = c_memcmp a (take (length a) b) in if rv = 0 then - 1 else rv)
      else
        (let rv = c_memcmp (take (length b) a) b in if rv = 0 then 1 else rv))"

definition nghttp2_nv_compare_name :: "nghttp2_nv \<Rightarrow> nghttp2_nv \<Rightarrow> int" where
  "nghttp2_nv_compare_name lhs rhs = bytes_compar (nv_name lhs) (nv_name rhs)"

definition nv_compar :: "nghttp2_nv \<Rightarrow> nghttp2_nv \<Rightarrow> int" where
  "nv_compar a b =
     (let rv = bytes_compar (nv_name a) (nv_name b) in
      if rv = 0 then bytes_compar (nv_value a) (nv_value b) else rv)"

text \<open>\<open>qsort\<close> of the C library.\<close>

definition nghttp2_nv_array_sort ::
  "((nghttp2_nv \<Rightarrow> nghttp2_nv \<Rightarrow> int) \<Rightarrow> nghttp2_nv list \<Rightarrow> nghttp2_nv list) \<Rightarrow> nghttp2_nv list \<Rightarrow> nghttp2_nv list"
where
  "nghttp2_nv_array_sort qsort nva = qsort nv_compar nva"

abbreviation NGHTTP2_SETTINGS_HEADER_TABLE_SIZE :: int where "NGHTTP2_SETTINGS_HEADER_TABLE_SIZE \<equiv> 1"
abbreviation NGHTTP2_SETTINGS_ENABLE_PUSH :: int where "NGHTTP2_SETTINGS_ENABLE_PUSH \<equiv> 2"
abbreviation NGHTTP2_SETTINGS_INITIAL_WINDOW_SIZE :: int where "NGHTTP2_SETTINGS_INITIAL_WINDOW_SIZE \<equiv> 4"
abbreviation NGHTTP2_SETTINGS_MAX_FRAME_SIZE :: int where "NGHTTP2_SETTINGS_MAX_FRAME_SIZE \<equiv> 5"
abbreviation NGHTTP2_SETTINGS_ENABLE_CONNECT_PROTOCOL :: int where "NGHTTP2_SETTINGS_ENABLE_CONNECT_PROTOCOL \<equiv> 8"
abbreviation NGHTTP2_SETTINGS_NO_RFC7540_PRIORITIES :: int where "NGHTTP2_SETTINGS_NO_RFC7540_PRIORITIES \<equiv> 9"
abbreviation NGHTTP2_MAX_WINDOW_SIZE :: "32 word" where "NGHTTP2_MAX_WINDOW_SIZE \<equiv> 0x7fffffff"
abbreviation NGHTTP2_MAX_FRAME_SIZE_MIN :: "32 word" where "NGHTTP2_MAX_FRAME_SIZE_MIN \<equiv> 0x4000"
abbreviation NGHTTP2_MAX_FRAME_SIZE_MAX :: "32 word" where "NGHTTP2_MAX_FRAME_SIZE_MAX \<equiv> 0xffffff"

fun nghttp2_iv_check :: "nghttp2_settings_entry list \<Rightarrow> bool" where
  "nghttp2_iv_check [] = True"
| "nghttp2_iv_check (e # iv) =
     (if se_settings_id e = NGHTTP2_SETTINGS_ENABLE_PUSH \<and> se_value e \<noteq> 0 \<and> se_value e \<noteq> 1 then False
      else if se_settings_id e = NGHTTP2_SETTINGS_INITIAL_WINDOW_SIZE \<and> se_value e > NGHTTP2_MAX_WINDOW_SIZE then False
      else if se_settings_id e = NGHTTP2_SETTINGS_MAX_FRAME_SIZE
              \<and> (se_value e < NGHTTP2_MAX_FRAME_SIZE_MIN \<or> se_value e > NGHTTP2_MAX_FRAME_SIZE_MAX) then False
      else if se_settings_id e = NGHTTP2_SETTINGS_ENABLE_CONNECT_PROTOCOL \<and> se_value e \<noteq> 0 \<and> se_value e \<noteq> 1 then False
      else if se_settings_id e = NGHTTP2_SETTINGS_NO_RFC7540_PRIORITIES \<and> se_value e \<noteq> 0 \<and> se_value e \<noteq> 1 then False
      else nghttp2_iv_check iv)"

text \<open>
  Copying name/value pairs into one block of memory: the flags say whether the name or the value
  is copied, and then each is followed by a null byte.
\<close>

abbreviation NGHTTP2_NV_FLAG_NO_COPY_NAME :: byte where "NGHTTP2_NV_FLAG_NO_COPY_NAME \<equiv> 2"
abbreviation NGHTTP2_NV_FLAG_NO_COPY_VALUE :: byte where "NGHTTP2_NV_FLAG_NO_COPY_VALUE \<equiv> 4"

record nva_entry =
  ne_name :: "byte list"
  ne_value :: "byte list"
  ne_flags :: byte

fun nva_buflen :: "nva_entry list \<Rightarrow> nat" where
  "nva_buflen [] = 0"
| "nva_buflen (e # nva) =
     (if ne_flags e AND NGHTTP2_NV_FLAG_NO_COPY_NAME = 0 then length (ne_name e) + 1 else 0)
     + (if ne_flags e AND NGHTTP2_NV_FLAG_NO_COPY_VALUE = 0 then length (ne_value e) + 1 else 0)
     + nva_buflen nva"

text \<open>\<open>data\<close> is the offset behind the copied structures; \<open>None\<close> is a write behind the block.\<close>

fun nva_copy :: "frame_lib \<Rightarrow> nat \<Rightarrow> nat \<Rightarrow> nva_entry list \<Rightarrow> nva_entry list option" where
  "nva_copy L buflen data [] = Some []"
| "nva_copy L buflen data (e # nva) =
     do {
       (name, data) \<leftarrow>
         (if ne_flags e AND NGHTTP2_NV_FLAG_NO_COPY_NAME \<noteq> 0 then Some (ne_name e, data)
          else if data + length (ne_name e) + 1 \<le> buflen then Some (fl_downcase L (ne_name e), data + length (ne_name e) + 1)
          else None);
       (val, data) \<leftarrow>
         (if ne_flags e AND NGHTTP2_NV_FLAG_NO_COPY_VALUE \<noteq> 0 then Some (ne_value e, data)
          else if data + length (ne_value e) + 1 \<le> buflen then Some (ne_value e, data + length (ne_value e) + 1)
          else None);
       rest \<leftarrow> nva_copy L buflen data nva;
       Some (\<lparr>ne_name = name, ne_value = val, ne_flags = ne_flags e\<rparr> # rest)
     }"

text \<open>\<open>malloc\<close> is asked for so many structures and so many bytes behind them.\<close>

definition nghttp2_nv_array_copy ::
  "frame_lib \<Rightarrow> (nat \<Rightarrow> nat \<Rightarrow> bool) \<Rightarrow> nva_entry list \<Rightarrow> (hd_rv \<times> nva_entry list) option"
where
  "nghttp2_nv_array_copy L malloc nva =
     (if length nva = 0 then Some (HD_OK, [])
      else
        (let buflen = nva_buflen nva in
         if \<not> malloc (length nva) buflen then Some (NGHTTP2_ERR_NOMEM, [])
         else map_option (\<lambda>p. (HD_OK, p)) (nva_copy L buflen 0 nva)))"

section \<open>Padding\<close>

definition frame_set_pad :: "frame_lib \<Rightarrow> nat \<Rightarrow> bool \<Rightarrow> nghttp2_buf \<Rightarrow> nghttp2_buf option" where
  "frame_set_pad L padlen framehd_only buf =
     (if length (bf_mem buf) < bf_pos buf + NGHTTP2_FRAME_HDLEN then None
      else
        do {
          let moved = take NGHTTP2_FRAME_HDLEN (drop (bf_pos buf) (bf_mem buf));
          buf \<leftarrow> buf_retreat 1 buf;
          buf \<leftarrow> buf_put (bf_pos buf) moved buf;
          buf \<leftarrow> buf_put (bf_pos buf + 4) [bf_mem buf ! (bf_pos buf + 4) OR NGHTTP2_FLAG_PADDED] buf;
          let newlen = unat (drop_bit 8 (fl_get_uint32 L (take 4 (drop (bf_pos buf) (bf_mem buf))))) + padlen;
          buf \<leftarrow> buf_put (bf_pos buf)
            (fl_put_uint32be L (of_nat (newlen * 256 + unat (bf_mem buf ! (bf_pos buf + 3))))) buf;
          if framehd_only then Some buf
          else
            do {
              let trail_padlen = padlen - 1;
              buf \<leftarrow> buf_put (bf_pos buf + NGHTTP2_FRAME_HDLEN) [of_nat trail_padlen] buf;
              buf_append (replicate trail_padlen 0) buf
            }
        })"

definition nghttp2_frame_add_pad ::
  "frame_lib \<Rightarrow> nghttp2_bufs \<Rightarrow> nghttp2_frame_hd \<Rightarrow> nat \<Rightarrow> bool \<Rightarrow> (nghttp2_bufs \<times> nghttp2_frame_hd) option"
where
  "nghttp2_frame_add_pad L bufs fhd padlen framehd_only =
     (if padlen = 0 then Some (bufs, fhd)
      else
        do {
          bufs \<leftarrow> on_head (\<lambda>buf.
            if fl_buf_avail L buf < padlen - 1 then None else frame_set_pad L padlen framehd_only buf) bufs;
          Some (bufs, fhd\<lparr>fh_length := fh_length fhd + padlen, fh_flags := fh_flags fhd OR NGHTTP2_FLAG_PADDED\<rparr>)
        })"

end
