(* ===== verification/Http2_Frame_Wire.thy ===== *)
theory Http2_Frame_Wire
  imports Http2_Frame
begin

text \<open>
  What frames look like on the wire: the library in network byte order, buffers as what is before,
  in and behind their contents, the bytes of each frame type and that they are read back, padding,
  and the functions on settings and name/value pairs.
\<close>

section \<open>What the library promises\<close>

text \<open>Network byte order.\<close>

definition be16 :: "16 word \<Rightarrow> byte list" where
  "be16 w = [ucast (drop_bit 8 w), ucast w]"

definition be32 :: "32 word \<Rightarrow> byte list" where
  "be32 w = [ucast (drop_bit 24 w), ucast (drop_bit 16 w), ucast (drop_bit 8 w), ucast w]"

definition of_be16 :: "byte \<Rightarrow> byte \<Rightarrow> 16 word" where
  "of_be16 a b = push_bit 8 (ucast a) OR ucast b"

definition of_be32 :: "byte \<Rightarrow> byte \<Rightarrow> byte \<Rightarrow> byte \<Rightarrow> 32 word" where
  "of_be32 a b c d = push_bit 24 (ucast a) OR push_bit 16 (ucast b) OR push_bit 8 (ucast c) OR ucast d"

definition frame_lib_ok :: "frame_lib \<Rightarrow> bool" where
  "frame_lib_ok L \<longleftrightarrow>
     (\<forall>w. fl_put_uint16be L w = be16 w) \<and> (\<forall>w. fl_put_uint32be L w = be32 w)
     \<and> (\<forall>a b. fl_get_uint16 L [a, b] = of_be16 a b) \<and> (\<forall>a b c d. fl_get_uint32 L [a, b, c, d] = of_be32 a b c d)
     \<and> (\<forall>xs. fl_cpymem L xs = xs)
     \<and> (\<forall>b. fl_buf_len L b = bf_last b - bf_pos b) \<and> (\<forall>b. fl_buf_avail L b = length (bf_mem b) - bf_last b)
     \<and> (\<forall>s w e. fl_priority_spec_init L s w e = \<lparr>ps_stream_id = s, ps_weight = w, ps_exclusive = e\<rparr>)"

lemma frame_lib_okD:
  assumes "frame_lib_ok L"
  shows "fl_put_uint16be L w16 = be16 w16" and "fl_put_uint32be L w32 = be32 w32"
    and "fl_get_uint16 L [a, b] = of_be16 a b" and "fl_get_uint32 L [a, b, c, d] = of_be32 a b c d"
    and "fl_cpymem L xs = xs"
    and "fl_buf_len L buf = bf_last buf - bf_pos buf" and "fl_buf_avail L buf = length (bf_mem buf) - bf_last buf"
    and "fl_priority_spec_init L s w e = \<lparr>ps_stream_id = s, ps_weight = w, ps_exclusive = e\<rparr>"
  using assms by (auto simp: frame_lib_ok_def)

lemma length_be [simp]: "length (be16 w) = 2" "length (be32 v) = 4"
  by (simp_all add: be16_def be32_def)

lemma be16_inverse: "of_be16 (ucast (drop_bit 8 w)) (ucast w) = w"
  by (rule bit_word_eqI) (auto simp: of_be16_def bit_or_iff bit_push_bit_iff bit_unsigned_iff bit_drop_bit_eq)

lemma byte_bit: "bit (a :: byte) n \<Longrightarrow> n < 8"
  using bit_imp_le_length [of a n] by simp

lemma bit_of_be32:
  "bit (of_be32 a b c d) n \<longleftrightarrow>
     (if n < 8 then bit d n else if n < 16 then bit c (n - 8) else if n < 24 then bit b (n - 16) else bit a (n - 24))"
  using byte_bit [of a "n - 24"] byte_bit [of b "n - 16"] byte_bit [of c "n - 8"] byte_bit [of d n]
  by (auto simp: of_be32_def bit_or_iff bit_push_bit_iff bit_unsigned_iff)

lemma be32_inverse:
  "of_be32 (ucast (drop_bit 24 w)) (ucast (drop_bit 16 w)) (ucast (drop_bit 8 w)) (ucast w) = w"
proof (rule bit_word_eqI)
  fix n assume "n < LENGTH(32)"
  then consider "n < 8" | "8 \<le> n" "n < 16" | "16 \<le> n" "n < 24" | "24 \<le> n" "n < 32" by fastforce
  then show "bit (of_be32 (ucast (drop_bit 24 w)) (ucast (drop_bit 16 w)) (ucast (drop_bit 8 w)) (ucast w)) n = bit w n"
    by cases (auto simp: bit_of_be32 bit_unsigned_iff bit_drop_bit_eq)
qed

lemma of_be32_low: "drop_bit 8 (of_be32 a b c d) = drop_bit 8 (of_be32 a b c e)"
  by (rule bit_word_eqI) (auto simp: bit_drop_bit_eq bit_of_be32)

lemma of_be32_top:
  "of_be32 (a OR 0x80) b c d AND 0x7fffffff = of_be32 a b c d AND 0x7fffffff"
  "a AND 0x80 \<noteq> 0 \<longleftrightarrow> bit (of_be32 a b c d) 31"
proof -
  have bit7: "bit (0x80 :: int) n \<longleftrightarrow> n = 7" for n
    using bit_exp_iff [where ?'a = int, of 7 n] by auto
  have mask: "0x7fffffff = (mask 31 :: 32 word)" by (simp add: mask_eq_exp_minus_1)
  show "of_be32 (a OR 0x80) b c d AND 0x7fffffff = of_be32 a b c d AND 0x7fffffff"
    unfolding mask
    by (rule bit_word_eqI) (auto simp: bit_of_be32 bit_or_iff bit_and_iff bit_mask_iff bit7)
  have "a AND 0x80 \<noteq> 0 \<longleftrightarrow> bit a 7" by (simp add: bit_iff_and_push_bit_not_eq_0)
  then show "a AND 0x80 \<noteq> 0 \<longleftrightarrow> bit (of_be32 a b c d) 31" by (simp add: bit_of_be32)
qed

section \<open>Buffers\<close>

text \<open>A buffer as what is before, in and behind its contents.\<close>

definition mk_buf :: "byte list \<Rightarrow> byte list \<Rightarrow> byte list \<Rightarrow> nghttp2_buf" where
  "mk_buf pre xs post = \<lparr>bf_mem = pre @ xs @ post, bf_pos = length pre, bf_last = length pre + length xs\<rparr>"

lemma mk_buf_sel [simp]:
  "bf_mem (mk_buf pre xs post) = pre @ xs @ post" "bf_pos (mk_buf pre xs post) = length pre"
  "bf_last (mk_buf pre xs post) = length pre + length xs"
  by (simp_all add: mk_buf_def)

lemma buf_append_mk [simp]:
  "length ys \<le> length post \<Longrightarrow> buf_append ys (mk_buf pre xs post) = Some (mk_buf pre (xs @ ys) (drop (length ys) post))"
  by (simp add: buf_append_def buf_put_def mk_buf_def)

lemma buf_put_inside:
  assumes "off = length pre + length us" and "length vs = length ws"
  shows "buf_put off ws (mk_buf pre (us @ vs @ zs) post) = Some (mk_buf pre (us @ ws @ zs) post)"
  using assms by (simp add: buf_put_def mk_buf_def)

lemma buf_retreat_mk:
  "n \<le> length pre \<Longrightarrow> buf_retreat n (mk_buf pre xs post) = Some (mk_buf (take (length pre - n) pre) (drop (length pre - n) pre @ xs) post)"
  by (simp add: buf_retreat_def mk_buf_def)

definition hd_bytes :: "nghttp2_frame_hd \<Rightarrow> byte list" where
  "hd_bytes fhd = take 3 (be32 (of_nat (fh_length fhd * 256))) @ [fh_type fhd, fh_flags fhd] @ be32 (fh_stream_id fhd)"

lemma length_hd_bytes [simp]: "length (hd_bytes fhd) = 9"
  by (simp add: hd_bytes_def)

lemma pack_frame_hd_mk:
  assumes "frame_lib_ok L" and "length us = 9"
  shows "nghttp2_frame_pack_frame_hd L (length pre) fhd (mk_buf pre (us @ xs) post) = Some (mk_buf pre (hd_bytes fhd @ xs) post)"
proof -
  obtain u0 u1 u2 u3 u4 u5 u6 u7 u8 where us: "us = [u0, u1, u2, u3, u4, u5, u6, u7, u8]"
    using assms(2) by (auto simp: length_Suc_conv numeral_eq_Suc)
  show ?thesis
    using assms(1)
    by (simp add: nghttp2_frame_pack_frame_hd_def frame_lib_okD us be32_def hd_bytes_def buf_put_def mk_buf_def)
qed

lemma put_frame_hd_mk:
  assumes "frame_lib_ok L" and "9 \<le> length pre"
  shows "put_frame_hd L fhd (mk_buf pre xs post) = Some (mk_buf (take (length pre - 9) pre) (hd_bytes fhd @ xs) post)"
  using pack_frame_hd_mk [OF assms(1), of "drop (length pre - 9) pre" "take (length pre - 9) pre"] assms(2)
  by (simp add: put_frame_hd_def buf_retreat_mk)

lemma unpack_frame_hd_bytes:
  assumes "frame_lib_ok L" and "fh_length fhd < 2 ^ 24" and "fh_stream_id fhd AND NGHTTP2_STREAM_ID_MASK = fh_stream_id fhd"
    and "fh_reserved fhd = 0"
  shows "nghttp2_frame_unpack_frame_hd L (hd_bytes fhd @ rest) = Some fhd"
proof -
  let ?w = "of_nat (fh_length fhd * 256) :: 32 word"
  have "unat ?w = fh_length fhd * 256" by (subst unat_of_nat) (use assms(2) in simp)
  then have "unat (drop_bit 8 ?w) = fh_length fhd" by (simp add: drop_bit_eq_div unat_div)
  then have len: "unat (drop_bit 8 (of_be32 (ucast (drop_bit 24 ?w)) (ucast (drop_bit 16 ?w)) (ucast (drop_bit 8 ?w)) d)) = fh_length fhd" for d
    by (metis be32_inverse of_be32_low)
  show ?thesis
    using assms len
    by (simp add: nghttp2_frame_unpack_frame_hd_def hd_bytes_def be32_def frame_lib_okD be32_inverse numeral_3_eq_3)
qed

section \<open>Control frames\<close>

definition pri_bytes :: "nghttp2_priority_spec \<Rightarrow> byte list" where
  "pri_bytes p =
     (let b = be32 (ps_stream_id p) in
      (if ps_exclusive p then b[0 := b ! 0 OR 0x80] else b) @ [word_of_int (ps_weight p - 1)])"

lemma length_pri_bytes [simp]: "length (pri_bytes p) = 5"
  by (simp add: pri_bytes_def Let_def)

text \<open>The priority is written into five bytes, inside of the contents of a buffer or behind them.\<close>

lemma pack_priority_spec_inside:
  assumes "frame_lib_ok L" and "length us = 5"
  shows "nghttp2_frame_pack_priority_spec L (length pre) p (mk_buf pre (us @ xs) post) = Some (mk_buf pre (pri_bytes p @ xs) post)"
proof -
  obtain u0 u1 u2 u3 u4 where us: "us = [u0, u1, u2, u3, u4]"
    using assms(2) by (auto simp: length_Suc_conv numeral_eq_Suc)
  show ?thesis
    using assms(1)
    by (simp add: nghttp2_frame_pack_priority_spec_def frame_lib_okD us be32_def pri_bytes_def buf_put_def mk_buf_def nth_append Let_def)
qed

lemma pack_priority_spec_behind:
  assumes "frame_lib_ok L" and "5 \<le> length post"
  shows "map_option (\<lambda>b. b\<lparr>bf_last := bf_last b + 5\<rparr>)
      (nghttp2_frame_pack_priority_spec L (length pre + length xs) p (mk_buf pre xs post))
    = Some (mk_buf pre (xs @ pri_bytes p) (drop 5 post))"
proof -
  obtain u0 u1 u2 u3 u4 rest where post: "post = u0 # u1 # u2 # u3 # u4 # rest"
    using assms(2) by (auto simp: Suc_le_length_iff numeral_eq_Suc)
  show ?thesis
    using assms(1)
    by (simp add: nghttp2_frame_pack_priority_spec_def frame_lib_okD post be32_def pri_bytes_def buf_put_def mk_buf_def nth_append Let_def)
qed

definition pri_ok :: "nghttp2_priority_spec \<Rightarrow> bool" where
  "pri_ok p \<longleftrightarrow> ps_stream_id p AND NGHTTP2_STREAM_ID_MASK = ps_stream_id p \<and> 1 \<le> ps_weight p \<and> ps_weight p \<le> 256"

lemma unpack_priority_spec_bytes:
  assumes "frame_lib_ok L" and "pri_ok p"
  shows "nghttp2_frame_unpack_priority_spec L (pri_bytes p @ rest) = Some p"
proof -
  let ?s = "ps_stream_id p"
  let ?a = "ucast (drop_bit 24 ?s) :: byte" and ?b = "ucast (drop_bit 16 ?s) :: byte" and ?c = "ucast (drop_bit 8 ?s) :: byte"
  have be: "of_be32 ?a ?b ?c (ucast ?s) = ?s" by (rule be32_inverse)
  have masked: "?s AND NGHTTP2_STREAM_ID_MASK = ?s" using assms(2) by (simp add: pri_ok_def)
  have "0x7fffffff = (mask 31 :: 32 word)" by (simp add: mask_eq_exp_minus_1)
  then have "\<not> bit ?s 31" using masked by (metis bit_and_iff bit_mask_iff less_irrefl)
  then have top: "?a AND 0x80 = 0" using of_be32_top(2) [of ?a ?b ?c "ucast ?s"] be by simp
  have top': "(?a OR 0x80) AND 0x80 \<noteq> 0"
  proof
    assume "(?a OR 0x80) AND 0x80 = 0"
    moreover have "(?a OR 0x80) AND 0x80 = 0x80" by (rule bit_word_eqI) (auto simp: bit_and_iff bit_or_iff)
    ultimately show False by simp
  qed
  define wb :: byte where "wb = word_of_int (ps_weight p - 1)"
  have "uint wb = ps_weight p - 1"
    unfolding wb_def by (subst uint_word_of_int) (use assms(2) in \<open>simp add: pri_ok_def\<close>)
  then have w: "uint wb + 1 = ps_weight p" by simp
  have "nghttp2_frame_unpack_priority_spec L (pri_bytes p @ rest)
      = Some \<lparr>ps_stream_id = ?s, ps_weight = ps_weight p, ps_exclusive = ps_exclusive p\<rparr>"
    unfolding pri_bytes_def wb_def [symmetric]
    using assms(1) be masked top top' w of_be32_top(1) [of ?a ?b ?c "ucast ?s"]
    by (cases "ps_exclusive p") (simp_all add: nghttp2_frame_unpack_priority_spec_def be32_def frame_lib_okD Let_def)
  then show ?thesis by simp
qed

text \<open>
  The state in which frames are packed: nothing is written yet, and there is room for the frame
  header in front of \<open>pos\<close>. What packing a frame of some payload does to it.
\<close>

definition ready_bufs :: "byte list \<Rightarrow> byte list \<Rightarrow> nghttp2_buf list \<Rightarrow> nghttp2_bufs" where
  "ready_bufs pre post bs = \<lparr>bufs_chain = mk_buf pre [] post # bs, bufs_cur = 0\<rparr>"

definition packed_bufs :: "nghttp2_frame_hd \<Rightarrow> byte list \<Rightarrow> byte list \<Rightarrow> byte list \<Rightarrow> nghttp2_buf list \<Rightarrow> nghttp2_bufs" where
  "packed_bufs fhd payload pre post bs =
     \<lparr>bufs_chain = mk_buf (take (length pre - 9) pre) (hd_bytes fhd @ payload) (drop (length payload) post) # bs,
      bufs_cur = 0\<rparr>"

text \<open>\<open>nghttp2_bufs_add\<close> appends what fits into the current buffer.\<close>

definition bufs_add_ok :: "nghttp2_bufs bufs_lib \<Rightarrow> bool" where
  "bufs_add_ok lib \<longleftrightarrow>
     (\<forall>pre xs post bs ys. length ys \<le> length post \<longrightarrow>
        bufs_add lib \<lparr>bufs_chain = mk_buf pre xs post # bs, bufs_cur = 0\<rparr> ys
        = (HD_OK, \<lparr>bufs_chain = mk_buf pre (xs @ ys) (drop (length ys) post) # bs, bufs_cur = 0\<rparr>))"

lemma bufs_add_okD:
  "bufs_add_ok lib \<Longrightarrow> length ys \<le> length post \<Longrightarrow>
     bufs_add lib \<lparr>bufs_chain = mk_buf pre xs post # bs, bufs_cur = 0\<rparr> ys
     = (HD_OK, \<lparr>bufs_chain = mk_buf pre (xs @ ys) (drop (length ys) post) # bs, bufs_cur = 0\<rparr>)"
  by (simp add: bufs_add_ok_def)

lemma on_head_cons [simp]:
  "on_head f \<lparr>bufs_chain = b # bs, bufs_cur = c\<rparr> = map_option (\<lambda>b. \<lparr>bufs_chain = b # bs, bufs_cur = c\<rparr>) (f b)"
  by (simp add: on_head_def)

named_theorems pack_frame \<open>how packing a frame changes the buffers\<close>

lemma pack_priority_mk [pack_frame]:
  assumes "frame_lib_ok L" and "9 \<le> length pre" and "5 \<le> length post"
  shows "nghttp2_frame_pack_priority L (ready_bufs pre post bs) f
    = Some (packed_bufs (pf_hd f) (pri_bytes (pf_pri_spec f)) pre post bs)"
proof -
  let ?b = "mk_buf (take (length pre - 9) pre) (hd_bytes (pf_hd f)) post"
  from pack_priority_spec_behind [OF assms(1,3), of "take (length pre - 9) pre" "hd_bytes (pf_hd f)" "pf_pri_spec f"]
  obtain b where "nghttp2_frame_pack_priority_spec L (bf_last ?b) (pf_pri_spec f) ?b = Some b"
    "b\<lparr>bf_last := bf_last b + 5\<rparr> = mk_buf (take (length pre - 9) pre) (hd_bytes (pf_hd f) @ pri_bytes (pf_pri_spec f)) (drop 5 post)"
    by auto
  then show ?thesis
    using assms by (simp add: nghttp2_frame_pack_priority_def ready_bufs_def packed_bufs_def put_frame_hd_mk frame_lib_okD)
qed

lemma pack_rst_stream_mk [pack_frame]:
  assumes "frame_lib_ok L" and "9 \<le> length pre" and "4 \<le> length post"
  shows "nghttp2_frame_pack_rst_stream L (ready_bufs pre post bs) f
    = Some (packed_bufs (rf_hd f) (be32 (rf_error_code f)) pre post bs)"
  using assms by (simp add: nghttp2_frame_pack_rst_stream_def ready_bufs_def packed_bufs_def put_frame_hd_mk frame_lib_okD)

lemma pack_ping_mk [pack_frame]:
  assumes "frame_lib_ok L" and "9 \<le> length pre" and "8 \<le> length post" and "length (pif_opaque_data f) = 8"
  shows "nghttp2_frame_pack_ping L (ready_bufs pre post bs) f = Some (packed_bufs (pif_hd f) (pif_opaque_data f) pre post bs)"
  using assms by (simp add: nghttp2_frame_pack_ping_def ready_bufs_def packed_bufs_def put_frame_hd_mk frame_lib_okD)

lemma pack_goaway_mk [pack_frame]:
  assumes "frame_lib_ok L" and "bufs_add_ok lib" and "9 \<le> length pre" and "8 + length (gf_opaque_data f) \<le> length post"
  shows "nghttp2_frame_pack_goaway L lib (ready_bufs pre post bs) f
    = Some (HD_OK, packed_bufs (gf_hd f) (be32 (gf_last_stream_id f) @ be32 (gf_error_code f) @ gf_opaque_data f) pre post bs)"
  using assms
  by (simp add: nghttp2_frame_pack_goaway_def ready_bufs_def packed_bufs_def put_frame_hd_mk frame_lib_okD bufs_add_okD ac_simps)

lemma pack_window_update_mk [pack_frame]:
  assumes "frame_lib_ok L" and "9 \<le> length pre" and "4 \<le> length post"
  shows "nghttp2_frame_pack_window_update L (ready_bufs pre post bs) f
    = Some (packed_bufs (wf_hd f) (be32 (wf_window_size_increment f)) pre post bs)"
  using assms by (simp add: nghttp2_frame_pack_window_update_def ready_bufs_def packed_bufs_def put_frame_hd_mk frame_lib_okD)

lemma pack_altsvc_mk [pack_frame]:
  assumes "frame_lib_ok L" and "bufs_add_ok lib" and "9 \<le> length pre"
    and "2 + length (av_origin (xf_payload f)) + length (av_field_value (xf_payload f)) \<le> length post"
  shows "nghttp2_frame_pack_altsvc L lib (ready_bufs pre post bs) f
    = Some (packed_bufs (xf_hd f) (be16 (of_nat (length (av_origin (xf_payload f)))) @ av_origin (xf_payload f) @ av_field_value (xf_payload f))
        pre post bs)"
  using assms
  by (simp add: nghttp2_frame_pack_altsvc_def ready_bufs_def packed_bufs_def put_frame_hd_mk frame_lib_okD bufs_add_okD Let_def ac_simps)

lemma pack_priority_update_mk [pack_frame]:
  assumes "frame_lib_ok L" and "bufs_add_ok lib" and "9 \<le> length pre"
    and "4 + length (pu_field_value (xf_payload f)) \<le> length post"
  shows "nghttp2_frame_pack_priority_update L lib (ready_bufs pre post bs) f
    = Some (packed_bufs (xf_hd f) (be32 (pu_stream_id (xf_payload f)) @ pu_field_value (xf_payload f)) pre post bs)"
  using assms
  by (simp add: nghttp2_frame_pack_priority_update_def ready_bufs_def packed_bufs_def put_frame_hd_mk frame_lib_okD bufs_add_okD Let_def ac_simps)

text \<open>The frames with arrays.\<close>

definition iv_bytes :: "nghttp2_settings_entry list \<Rightarrow> byte list" where
  "iv_bytes iv = concat (map (\<lambda>e. be16 (word_of_int (se_settings_id e)) @ be32 (se_value e)) iv)"

lemma iv_bytes_simps [simp]:
  "iv_bytes [] = []" "iv_bytes (e # iv) = be16 (word_of_int (se_settings_id e)) @ be32 (se_value e) @ iv_bytes iv"
  by (simp_all add: iv_bytes_def)

lemma length_iv_bytes [simp]: "length (iv_bytes iv) = 6 * length iv"
  by (induction iv) auto

lemma buf_put_behind:
  assumes "length ys \<le> length post"
  shows "buf_put (length pre + length xs) ys (mk_buf pre xs post) = Some (mk_buf pre xs (ys @ drop (length ys) post))"
  using assms by (simp add: buf_put_def mk_buf_def)

lemma pack_settings_payload_mk:
  assumes "frame_lib_ok L"
  shows "6 * length iv \<le> length post \<Longrightarrow> off = length pre + length xs + length zs \<Longrightarrow>
    nghttp2_frame_pack_settings_payload L off iv (mk_buf pre xs (zs @ post)) = Some (mk_buf pre xs (zs @ iv_bytes iv @ drop (6 * length iv) post))"
proof (induction iv arbitrary: off zs post)
  case (Cons e iv)
  obtain u0 u1 u2 u3 u4 u5 rest where post: "post = u0 # u1 # u2 # u3 # u4 # u5 # rest"
    using Cons.prems(1) by (auto simp: Suc_le_length_iff numeral_eq_Suc)
  let ?z = "zs @ be16 (word_of_int (se_settings_id e)) @ be32 (se_value e)"
  have "nghttp2_frame_pack_settings_payload L (off + 6) iv (mk_buf pre xs (?z @ rest))
      = Some (mk_buf pre xs (?z @ iv_bytes iv @ drop (6 * length iv) rest))"
    by (rule Cons.IH) (use Cons.prems in \<open>simp_all add: post\<close>)
  moreover have "drop (6 * length (e # iv)) post = drop (6 * length iv) rest"
    using drop_drop [of "6 * length iv" 6 post] by (simp add: post add.commute)
  ultimately show ?case
    using assms Cons.prems(2) by (simp add: frame_lib_okD post buf_put_def mk_buf_def be16_def be32_def)
qed simp

lemma mk_buf_extend: "(mk_buf pre xs (ys @ post))\<lparr>bf_last := length pre + length xs + length ys\<rparr> = mk_buf pre (xs @ ys) post"
  by (simp add: mk_buf_def)

lemma pack_settings_mk [pack_frame]:
  assumes "frame_lib_ok L" and "9 \<le> length pre" and "6 * length (sf_iv f) \<le> length post"
    and "fh_length (sf_hd f) = 6 * length (sf_iv f)"
  shows "nghttp2_frame_pack_settings L (ready_bufs pre post bs) f = Some (HD_OK, packed_bufs (sf_hd f) (iv_bytes (sf_iv f)) pre post bs)"
  using assms pack_settings_payload_mk [OF assms(1), of "sf_iv f" post _ "take (length pre - 9) pre" "hd_bytes (sf_hd f)" "[]"]
    mk_buf_extend [of "take (length pre - 9) pre" "hd_bytes (sf_hd f)" "iv_bytes (sf_iv f)" "drop (6 * length (sf_iv f)) post"]
  by (simp add: nghttp2_frame_pack_settings_def ready_bufs_def packed_bufs_def put_frame_hd_mk frame_lib_okD bufs_head_def)

definition origin_bytes :: "byte list list \<Rightarrow> byte list" where
  "origin_bytes ov = concat (map (\<lambda>x. be16 (of_nat (length x)) @ x) ov)"

lemma origin_bytes_simps [simp]:
  "origin_bytes [] = []" "origin_bytes (x # ov) = be16 (of_nat (length x)) @ x @ origin_bytes ov"
  by (simp_all add: origin_bytes_def)

lemma length_origin_bytes [simp]: "length (origin_bytes ov) = origin_payloadlen ov"
  by (induction ov) auto

lemma pack_origins_mk:
  assumes "frame_lib_ok L"
  shows "origin_payloadlen ov \<le> length post \<Longrightarrow>
    pack_origins L ov (mk_buf pre xs post) = Some (mk_buf pre (xs @ origin_bytes ov) (drop (origin_payloadlen ov) post))"
  using assms by (induction ov arbitrary: xs post) (simp_all add: frame_lib_okD add.assoc add.commute)

lemma pack_origin_mk [pack_frame]:
  assumes "frame_lib_ok L" and "9 \<le> length pre" and "origin_payloadlen (og_ov (xf_payload f)) \<le> length post"
    and "fh_length (xf_hd f) = origin_payloadlen (og_ov (xf_payload f))"
  shows "nghttp2_frame_pack_origin L (ready_bufs pre post bs) f
    = Some (HD_OK, packed_bufs (xf_hd f) (origin_bytes (og_ov (xf_payload f))) pre post bs)"
  using assms pack_origins_mk [OF assms(1,3)]
  by (simp add: nghttp2_frame_pack_origin_def ready_bufs_def packed_bufs_def put_frame_hd_mk frame_lib_okD bufs_head_def)

text \<open>Reading what was written.\<close>

lemma get_be [simp]:
  assumes "frame_lib_ok L"
  shows "fl_get_uint32 L (be32 w) = w" and "fl_get_uint16 L (be16 v) = v"
  using assms by (simp_all add: be32_def be16_def frame_lib_okD be32_inverse be16_inverse)

definition entry_ok :: "nghttp2_settings_entry \<Rightarrow> bool" where
  "entry_ok e \<longleftrightarrow> 0 \<le> se_settings_id e \<and> se_settings_id e < 2 ^ 16"

lemma unpack_settings_entry_bytes:
  assumes "frame_lib_ok L" and "entry_ok e"
  shows "nghttp2_frame_unpack_settings_entry L (be16 (word_of_int (se_settings_id e)) @ be32 (se_value e) @ rest) = Some e"
proof -
  have "uint (word_of_int (se_settings_id e) :: 16 word) = se_settings_id e"
    by (subst uint_word_of_int) (use assms(2) in \<open>simp add: entry_ok_def\<close>)
  then show ?thesis using assms(1) by (simp add: nghttp2_frame_unpack_settings_entry_def)
qed

lemma unpack_settings_entries_bytes:
  assumes "frame_lib_ok L"
  shows "list_all entry_ok iv \<Longrightarrow> drop (i * 6) payload = iv_bytes iv \<Longrightarrow> unpack_settings_entries L i (length iv) payload = Some iv"
proof (induction iv arbitrary: i)
  case (Cons e iv)
  have "drop ((i + 1) * 6) payload = drop 6 (drop (i * 6) payload)" by (simp add: drop_drop)
  then have "drop ((i + 1) * 6) payload = iv_bytes iv" using Cons.prems(2) by simp
  then have "unpack_settings_entries L (i + 1) (length iv) payload = Some iv" using Cons by simp
  then show ?case using Cons.prems unpack_settings_entry_bytes [OF assms, of e "iv_bytes iv"] by simp
qed simp

text \<open>
  The origins of a payload, read in one pass; entries of length zero are skipped. The two passes
  of \<open>nghttp2_frame_unpack_origin_payload\<close> compute this, and stay in bounds.
\<close>

function origins_of :: "frame_lib \<Rightarrow> byte list \<Rightarrow> byte list list option" where
  "origins_of L p =
     (if p = [] then Some []
      else if length p < 2 then None
      else
        (let n = unat (fl_get_uint16 L (take 2 p)); p = drop 2 p in
         if n = 0 then origins_of L p
         else if n > length p then None
         else map_option ((#) (take n p)) (origins_of L (drop n p))))"
  by pat_completeness auto
termination
  by (relation "measure (\<lambda>(L, p). length p)") (auto simp: Suc_le_eq)

declare origins_of.simps [simp del]

definition origins_mem :: "byte list list \<Rightarrow> nat" where
  "origins_mem ov = sum_list (map (\<lambda>x. length x + 1) ov)"

lemma origin_scan_eq:
  "origin_scan L p nov len = map_option (\<lambda>ov. (nov + length ov, len + origins_mem ov)) (origins_of L p)"
proof (induction L p arbitrary: nov len rule: origins_of.induct)
  case (1 L p)
  let ?n = "unat (fl_get_uint16 L (take 2 p))" and ?p = "drop 2 p"
  show ?case
  proof (cases "p = [] \<or> length p < 2")
    case True
    then show ?thesis
      by (auto simp: origin_scan.simps [of L p] origins_of.simps [of L p] origin_scan.simps [of L "[]"] origins_of.simps [of L "[]"] origins_mem_def)
  next
    case False
    note IH = "1.IH" [of ?n ?p]
    show ?thesis
      unfolding origin_scan.simps [of L p nov len] origins_of.simps [of L p] Let_def
      using False IH by (cases "origins_of L (drop ?n ?p)") (auto simp: origins_mem_def)
  qed
qed

lemma origin_fill_eq:
  assumes "frame_lib_ok L"
  shows "origins_of L p = Some ov \<Longrightarrow> dst + origins_mem ov \<le> memlen \<Longrightarrow> origin_fill L memlen p dst = Some ov"
  using assms
proof (induction L p arbitrary: ov dst rule: origins_of.induct)
  case (1 L p)
  let ?n = "unat (fl_get_uint16 L (take 2 p))" and ?p = "drop 2 p"
  show ?case
  proof (cases "p = []")
    case True
    then show ?thesis using "1.prems" by (simp add: origin_fill.simps [of L memlen "[]"] origins_of.simps [of L "[]"])
  next
    case False
    then have two: "\<not> length p < 2" using "1.prems"(1) by (auto simp: origins_of.simps [of L p])
    show ?thesis
    proof (cases "?n = 0")
      case True
      then have "origins_of L ?p = Some ov" using "1.prems"(1) False two by (simp add: origins_of.simps [of L p] Let_def)
      then show ?thesis
        using "1.IH"(1) [OF False two refl refl True] "1.prems"(2,3) False two True by (simp add: origin_fill.simps [of L memlen p] Let_def)
    next
      case nz: False
      then obtain ov' where ov': "?n \<le> length ?p" "origins_of L (drop ?n ?p) = Some ov'" "ov = take ?n ?p # ov'"
        using "1.prems"(1) False two by (auto simp: origins_of.simps [of L p] Let_def split: if_splits)
      then have "dst + ?n + 1 + origins_mem ov' \<le> memlen" using "1.prems"(2) by (simp add: origins_mem_def)
      then show ?thesis
        using "1.IH"(2) [OF False two refl refl nz, of ov' "dst + ?n + 1"] ov' "1.prems"(3) False two nz
        by (simp add: origin_fill.simps [of L memlen p] Let_def frame_lib_okD)
    qed
  qed
qed

lemma unpack_origin_payload_eq:
  assumes "frame_lib_ok L"
  shows "nghttp2_frame_unpack_origin_payload L malloc f payload =
    (case origins_of L payload of
       None \<Rightarrow> Some (NGHTTP2_ERR_FRAME_SIZE_ERROR, f)
     | Some ov \<Rightarrow>
         if ov = [] \<or> malloc (origins_mem ov + length ov * fl_sizeof_origin_entry L)
         then Some (HD_OK, f\<lparr>xf_payload := \<lparr>og_ov = ov\<rparr>\<rparr>)
         else Some (NGHTTP2_ERR_NOMEM, f))"
proof (cases "origins_of L payload")
  case (Some ov)
  let ?e = "length ov * fl_sizeof_origin_entry L"
  have "origin_fill L (origins_mem ov + ?e) payload ?e = Some ov"
    by (rule origin_fill_eq [OF assms Some]) simp
  then show ?thesis
    by (auto simp: nghttp2_frame_unpack_origin_payload_def origin_scan_eq Some Let_def)
qed (simp add: nghttp2_frame_unpack_origin_payload_def origin_scan_eq)

lemma origins_of_bytes:
  assumes "frame_lib_ok L"
  shows "\<forall>x\<in>set ov. x \<noteq> [] \<and> length x < 2 ^ 16 \<Longrightarrow> origins_of L (origin_bytes ov) = Some ov"
proof (induction ov)
  case Nil
  then show ?case by (simp add: origins_of.simps)
next
  case (Cons x ov)
  let ?p = "origin_bytes (x # ov)"
  have n: "unat (fl_get_uint16 L (take 2 ?p)) = length x"
    using assms Cons.prems by (simp add: unat_of_nat)
  have "?p \<noteq> []" "\<not> length ?p < 2" by (auto simp: be16_def)
  then show ?case
    unfolding origins_of.simps [of L ?p] n Let_def using Cons by simp
qed

section \<open>Any control frame\<close>

text \<open>
  The frames but HEADERS and PUSH_PROMISE, which need a deflater, and DATA, whose payload the
  session writes. Packing and unpacking choose the function by the type, as the session does.
\<close>

datatype http2_frame =
    F_priority nghttp2_priority
  | F_rst_stream nghttp2_rst_stream
  | F_settings nghttp2_settings
  | F_ping nghttp2_ping
  | F_goaway nghttp2_goaway
  | F_window_update nghttp2_window_update
  | F_altsvc "nghttp2_ext_altsvc nghttp2_extension"
  | F_origin "nghttp2_ext_origin nghttp2_extension"
  | F_priority_update "nghttp2_ext_priority_update nghttp2_extension"

fun frame_hd :: "http2_frame \<Rightarrow> nghttp2_frame_hd" where
  "frame_hd (F_priority f) = pf_hd f"
| "frame_hd (F_rst_stream f) = rf_hd f"
| "frame_hd (F_settings f) = sf_hd f"
| "frame_hd (F_ping f) = pif_hd f"
| "frame_hd (F_goaway f) = gf_hd f"
| "frame_hd (F_window_update f) = wf_hd f"
| "frame_hd (F_altsvc f) = xf_hd f"
| "frame_hd (F_origin f) = xf_hd f"
| "frame_hd (F_priority_update f) = xf_hd f"

fun pack_frame :: "frame_lib \<Rightarrow> nghttp2_bufs bufs_lib \<Rightarrow> nghttp2_bufs \<Rightarrow> http2_frame \<Rightarrow> (hd_rv \<times> nghttp2_bufs) option" where
  "pack_frame L lib bufs (F_priority f) = map_option (Pair HD_OK) (nghttp2_frame_pack_priority L bufs f)"
| "pack_frame L lib bufs (F_rst_stream f) = map_option (Pair HD_OK) (nghttp2_frame_pack_rst_stream L bufs f)"
| "pack_frame L lib bufs (F_settings f) = nghttp2_frame_pack_settings L bufs f"
| "pack_frame L lib bufs (F_ping f) = map_option (Pair HD_OK) (nghttp2_frame_pack_ping L bufs f)"
| "pack_frame L lib bufs (F_goaway f) = nghttp2_frame_pack_goaway L lib bufs f"
| "pack_frame L lib bufs (F_window_update f) = map_option (Pair HD_OK) (nghttp2_frame_pack_window_update L bufs f)"
| "pack_frame L lib bufs (F_altsvc f) = map_option (Pair HD_OK) (nghttp2_frame_pack_altsvc L lib bufs f)"
| "pack_frame L lib bufs (F_origin f) = nghttp2_frame_pack_origin L bufs f"
| "pack_frame L lib bufs (F_priority_update f) = map_option (Pair HD_OK) (nghttp2_frame_pack_priority_update L lib bufs f)"

definition unpack_payload :: "frame_lib \<Rightarrow> (nat \<Rightarrow> bool) \<Rightarrow> nghttp2_frame_hd \<Rightarrow> byte list \<Rightarrow> http2_frame option" where
  "unpack_payload L malloc fhd payload =
     (if fh_type fhd = NGHTTP2_PRIORITY then
        map_option F_priority
          (nghttp2_frame_unpack_priority_payload L \<lparr>pf_hd = fhd, pf_pri_spec = fl_priority_spec_default L\<rparr> payload)
      else if fh_type fhd = NGHTTP2_RST_STREAM then
        map_option F_rst_stream (nghttp2_frame_unpack_rst_stream_payload L \<lparr>rf_hd = fhd, rf_error_code = 0\<rparr> payload)
      else if fh_type fhd = NGHTTP2_SETTINGS then
        (case nghttp2_frame_unpack_settings_payload2 L malloc payload of
           Some (HD_OK, iv) \<Rightarrow> Some (F_settings (nghttp2_frame_unpack_settings_payload \<lparr>sf_hd = fhd, sf_iv = []\<rparr> iv))
         | _ \<Rightarrow> None)
      else if fh_type fhd = NGHTTP2_PING then
        map_option F_ping (nghttp2_frame_unpack_ping_payload \<lparr>pif_hd = fhd, pif_opaque_data = []\<rparr> payload)
      else if fh_type fhd = NGHTTP2_GOAWAY then
        (case nghttp2_frame_unpack_goaway_payload2 L malloc
                \<lparr>gf_hd = fhd, gf_last_stream_id = 0, gf_error_code = 0, gf_opaque_data = [], gf_reserved = 0\<rparr> payload of
           Some (HD_OK, f) \<Rightarrow> Some (F_goaway f)
         | _ \<Rightarrow> None)
      else if fh_type fhd = NGHTTP2_WINDOW_UPDATE then
        map_option F_window_update
          (nghttp2_frame_unpack_window_update_payload L \<lparr>wf_hd = fhd, wf_window_size_increment = 0, wf_reserved = 0\<rparr> payload)
      else if fh_type fhd = NGHTTP2_ALTSVC then
        (case nghttp2_frame_unpack_altsvc_payload2 L malloc
                \<lparr>xf_hd = fhd, xf_payload = \<lparr>av_origin = [], av_field_value = []\<rparr>\<rparr> payload of
           Some (Inr (HD_OK, f)) \<Rightarrow> Some (F_altsvc f)
         | _ \<Rightarrow> None)
      else if fh_type fhd = NGHTTP2_ORIGIN then
        (case nghttp2_frame_unpack_origin_payload L malloc \<lparr>xf_hd = fhd, xf_payload = \<lparr>og_ov = []\<rparr>\<rparr> payload of
           Some (HD_OK, f) \<Rightarrow> Some (F_origin f)
         | _ \<Rightarrow> None)
      else if fh_type fhd = NGHTTP2_PRIORITY_UPDATE then
        map_option F_priority_update
          (nghttp2_frame_unpack_priority_update_payload L
             \<lparr>xf_hd = fhd, xf_payload = \<lparr>pu_stream_id = 0, pu_field_value = []\<rparr>\<rparr> payload)
      else None)"

text \<open>A frame at the start of some bytes, and the bytes behind it.\<close>

definition split_frame :: "frame_lib \<Rightarrow> byte list \<Rightarrow> (nghttp2_frame_hd \<times> byte list \<times> byte list) option" where
  "split_frame L bs =
     do {
       fhd \<leftarrow> nghttp2_frame_unpack_frame_hd L bs;
       let payload = take (fh_length fhd) (drop NGHTTP2_FRAME_HDLEN bs);
       if length payload < fh_length fhd then None
       else Some (fhd, payload, drop (NGHTTP2_FRAME_HDLEN + fh_length fhd) bs)
     }"

definition unpack_frame :: "frame_lib \<Rightarrow> (nat \<Rightarrow> bool) \<Rightarrow> byte list \<Rightarrow> (http2_frame \<times> byte list) option" where
  "unpack_frame L malloc bs =
     do {
       (fhd, payload, rest) \<leftarrow> split_frame L bs;
       f \<leftarrow> unpack_payload L malloc fhd payload;
       Some (f, rest)
     }"

text \<open>Frames that are initialized with values in range.\<close>

abbreviation id_ok :: "32 word \<Rightarrow> bool" where
  "id_ok s \<equiv> s AND NGHTTP2_STREAM_ID_MASK = s"

inductive frame_made :: "http2_frame \<Rightarrow> bool" where
  priority: "id_ok s \<Longrightarrow> pri_ok p \<Longrightarrow> frame_made (F_priority (nghttp2_frame_priority_init s p))"
| rst_stream: "id_ok s \<Longrightarrow> frame_made (F_rst_stream (nghttp2_frame_rst_stream_init s c))"
| settings: "list_all entry_ok iv \<Longrightarrow> frame_made (F_settings (nghttp2_frame_settings_init fl iv))"
| ping: "length xs = 8 \<Longrightarrow> frame_made (F_ping (nghttp2_frame_ping_init fl (Some xs)))"
| ping_zero: "frame_made (F_ping (nghttp2_frame_ping_init fl None))"
| goaway: "id_ok s \<Longrightarrow> frame_made (F_goaway (nghttp2_frame_goaway_init s c xs))"
| window_update: "id_ok s \<Longrightarrow> id_ok n \<Longrightarrow> frame_made (F_window_update (nghttp2_frame_window_update_init fl s n))"
| altsvc: "id_ok s \<Longrightarrow> length xs < 2 ^ 16 \<Longrightarrow> frame_made (F_altsvc (nghttp2_frame_altsvc_init s xs ys))"
| origin: "\<forall>x\<in>set ov. x \<noteq> [] \<and> length x < 2 ^ 16 \<Longrightarrow> frame_made (F_origin (nghttp2_frame_origin_init ov))"
| priority_update: "id_ok s \<Longrightarrow> frame_made (F_priority_update (nghttp2_frame_priority_update_init s xs))"

text \<open>The payload of a frame.\<close>

fun payload_of :: "http2_frame \<Rightarrow> byte list" where
  "payload_of (F_priority f) = pri_bytes (pf_pri_spec f)"
| "payload_of (F_rst_stream f) = be32 (rf_error_code f)"
| "payload_of (F_settings f) = iv_bytes (sf_iv f)"
| "payload_of (F_ping f) = pif_opaque_data f"
| "payload_of (F_goaway f) = be32 (gf_last_stream_id f) @ be32 (gf_error_code f) @ gf_opaque_data f"
| "payload_of (F_window_update f) = be32 (wf_window_size_increment f)"
| "payload_of (F_altsvc f) =
     be16 (of_nat (length (av_origin (xf_payload f)))) @ av_origin (xf_payload f) @ av_field_value (xf_payload f)"
| "payload_of (F_origin f) = origin_bytes (og_ov (xf_payload f))"
| "payload_of (F_priority_update f) = be32 (pu_stream_id (xf_payload f)) @ pu_field_value (xf_payload f)"

lemmas frame_inits = nghttp2_frame_priority_init_def nghttp2_frame_rst_stream_init_def nghttp2_frame_settings_init_def
  nghttp2_frame_ping_init_def nghttp2_frame_goaway_init_def nghttp2_frame_window_update_init_def
  nghttp2_frame_altsvc_init_def nghttp2_frame_origin_init_def nghttp2_frame_priority_update_init_def nghttp2_frame_hd_init_def

lemma made_length: "frame_made f \<Longrightarrow> fh_length (frame_hd f) = length (payload_of f)"
  by (induction rule: frame_made.induct) (simp_all add: frame_inits)

lemma made_hd: "frame_made f \<Longrightarrow> id_ok (fh_stream_id (frame_hd f)) \<and> fh_reserved (frame_hd f) = 0"
  by (induction rule: frame_made.induct) (simp_all add: frame_inits)

lemma pack_frame_made:
  assumes "frame_lib_ok L" and "bufs_add_ok lib" and "9 \<le> length pre"
  shows "frame_made f \<Longrightarrow> length (payload_of f) \<le> length post \<Longrightarrow>
    pack_frame L lib (ready_bufs pre post bs) f = Some (HD_OK, packed_bufs (frame_hd f) (payload_of f) pre post bs)"
  by (induction rule: frame_made.induct) (use assms in \<open>simp_all add: frame_inits pack_frame\<close>)

lemma unpack_payload_made:
  assumes "frame_lib_ok L" and "\<And>n. malloc n"
  shows "frame_made f \<Longrightarrow> unpack_payload L malloc (frame_hd f) (payload_of f) = Some f"
proof (induction rule: frame_made.induct)
  case (priority s p)
  then show ?case
    using unpack_priority_spec_bytes [OF assms(1), of p "[]"]
    by (simp add: frame_inits unpack_payload_def nghttp2_frame_unpack_priority_payload_def)
next
  case (rst_stream s c)
  then show ?case using assms by (simp add: frame_inits unpack_payload_def nghttp2_frame_unpack_rst_stream_payload_def)
next
  case (settings iv fl)
  then show ?case
    using assms unpack_settings_entries_bytes [OF assms(1), of iv 0 "iv_bytes iv"]
    by (auto simp: frame_inits unpack_payload_def nghttp2_frame_unpack_settings_payload2_def nghttp2_frame_unpack_settings_payload_def Let_def)
next
  case (ping xs fl)
  then show ?case by (simp add: frame_inits unpack_payload_def nghttp2_frame_unpack_ping_payload_def)
next
  case (ping_zero fl)
  then show ?case by (simp add: frame_inits unpack_payload_def nghttp2_frame_unpack_ping_payload_def)
next
  case (goaway s c xs)
  then show ?case
    using assms by (simp add: frame_inits unpack_payload_def nghttp2_frame_unpack_goaway_payload2_def nghttp2_frame_unpack_goaway_payload_def Let_def)
next
  case (window_update s n fl)
  then show ?case using assms by (simp add: frame_inits unpack_payload_def nghttp2_frame_unpack_window_update_payload_def)
next
  case (altsvc s xs ys)
  then show ?case
    using assms
    by (simp add: frame_inits unpack_payload_def nghttp2_frame_unpack_altsvc_payload2_def nghttp2_frame_unpack_altsvc_payload_def Let_def unat_of_nat)
next
  case (origin ov)
  then show ?case
    using assms by (simp add: frame_inits unpack_payload_def unpack_origin_payload_eq origins_of_bytes)
next
  case (priority_update s xs)
  then show ?case using assms by (simp add: frame_inits unpack_payload_def nghttp2_frame_unpack_priority_update_payload_def)
qed

lemma split_frame_bytes:
  assumes "frame_lib_ok L" and "fh_length fhd = length payload" and "length payload < 2 ^ 24" and "id_ok (fh_stream_id fhd)"
    and "fh_reserved fhd = 0"
  shows "split_frame L (hd_bytes fhd @ payload @ rest) = Some (fhd, payload, rest)"
  using assms by (simp add: split_frame_def unpack_frame_hd_bytes)

text \<open>What the buffers hold.\<close>

definition buf_bytes :: "nghttp2_buf \<Rightarrow> byte list" where
  "buf_bytes b = take (bf_last b - bf_pos b) (drop (bf_pos b) (bf_mem b))"

definition bufs_bytes :: "nghttp2_bufs \<Rightarrow> byte list" where
  "bufs_bytes bufs = concat (map buf_bytes (take (bufs_cur bufs + 1) (bufs_chain bufs)))"

lemma buf_bytes_mk [simp]: "buf_bytes (mk_buf pre xs post) = xs"
  by (simp add: buf_bytes_def)

lemma packed_bytes [simp]: "bufs_bytes (packed_bufs fhd payload pre post bs) = hd_bytes fhd @ payload"
  by (simp add: bufs_bytes_def packed_bufs_def)


section \<open>Padding\<close>

lemma padded_bits:
  fixes fl :: byte
  shows "(fl OR NGHTTP2_FLAG_PADDED) AND NGHTTP2_FLAG_PADDED \<noteq> 0"
proof -
  have "bit (8 :: byte) 3" by simp
  then have "bit ((fl OR 8) AND 8) 3" unfolding bit_and_iff bit_or_iff by blast
  then show ?thesis by (metis bit_0_eq bot_apply bot_bool_def)
qed

text \<open>The frame header with the length and the flag of a padded frame.\<close>

definition padded_hd :: "nghttp2_frame_hd \<Rightarrow> nat \<Rightarrow> nghttp2_frame_hd" where
  "padded_hd fhd padlen = fhd\<lparr>fh_length := fh_length fhd + padlen, fh_flags := fh_flags fhd OR NGHTTP2_FLAG_PADDED\<rparr>"

lemma be32_low:
  assumes "n < 2 ^ 24"
  shows "be32 (of_nat (n * 256 + unat t)) = take 3 (be32 (of_nat (n * 256))) @ [t]"
proof -
  let ?v = "of_nat (n * 256 + unat t) :: 32 word" and ?w = "of_nat (n * 256) :: 32 word"
  have t: "unat t < 256" using unsigned_less [of t] by simp
  have v: "unat ?v = n * 256 + unat t" by (subst unat_of_nat) (use assms t in simp)
  moreover have "unat ?w = n * 256" by (subst unat_of_nat) (use assms in simp)
  ultimately have "unat (drop_bit 8 ?v) = unat (drop_bit 8 ?w)" using t by (simp add: drop_bit_eq_div unat_div)
  then have 8: "drop_bit 8 ?v = drop_bit 8 ?w" by (rule word_unat_eq_iff [THEN iffD2])
  have 16: "drop_bit 16 ?v = drop_bit 16 ?w" and 24: "drop_bit 24 ?v = drop_bit 24 ?w"
    using arg_cong [OF 8, of "drop_bit 8"] arg_cong [OF 8, of "drop_bit 16"] by (simp_all only: drop_bit_drop_bit) simp_all
  have "unat (ucast ?v :: byte) = unat ?v mod 2 ^ LENGTH(8)" by (simp only: unsigned_ucast_eq take_bit_eq_mod)
  then have "unat (ucast ?v :: byte) = unat t" unfolding v using t by simp
  then have low: "(ucast ?v :: byte) = t" by (rule word_unat_eq_iff [THEN iffD2])
  show ?thesis unfolding be32_def low 8 16 24 by simp
qed

lemma frame_set_pad_mk:
  assumes L: "frame_lib_ok L" and len: "fh_length fhd + padlen < 2 ^ 24" and pre: "pre \<noteq> []"
    and pad: "0 < padlen" "padlen - 1 \<le> length post"
  shows "frame_set_pad L padlen only (mk_buf pre (hd_bytes fhd @ xs) post) =
    Some (if only then mk_buf (butlast pre) (hd_bytes (padded_hd fhd padlen) @ last (hd_bytes fhd) # xs) post
          else mk_buf (butlast pre) (hd_bytes (padded_hd fhd padlen) @ of_nat (padlen - 1) # xs @ replicate (padlen - 1) 0)
                 (drop (padlen - 1) post))"
proof -
  obtain p l where p: "pre = p @ [l]" using pre by (metis append_butlast_last_id)
  obtain a b c where abc: "take 3 (be32 (of_nat (fh_length fhd * 256))) = [a, b, c]" by (simp add: be32_def)
  obtain s0 s1 s2 s3 where s: "be32 (fh_stream_id fhd) = [s0, s1, s2, s3]" by (simp add: be32_def)
  have h: "hd_bytes fhd = [a, b, c, fh_type fhd, fh_flags fhd, s0, s1, s2, s3]" unfolding hd_bytes_def abc s by simp
  have n: "unat (drop_bit 8 (of_be32 a b c (fh_type fhd))) = fh_length fhd"
  proof -
    let ?w = "of_nat (fh_length fhd * 256) :: 32 word"
    have "unat ?w = fh_length fhd * 256" by (subst unat_of_nat) (use len in simp)
    then have "unat (drop_bit 8 ?w) = fh_length fhd" by (simp add: drop_bit_eq_div unat_div)
    moreover have "be32 ?w = [a, b, c, ucast ?w]" using abc by (simp add: be32_def)
    ultimately show ?thesis using be32_inverse [of ?w] of_be32_low [of a b c "fh_type fhd" "ucast ?w"] by (simp add: be32_def)
  qed
  let ?n = "fh_length fhd + padlen"
  obtain a' b' c' where abc': "take 3 (be32 (of_nat (?n * 256))) = [a', b', c']" by (simp add: be32_def)
  have h': "hd_bytes (padded_hd fhd padlen) = [a', b', c', fh_type fhd, fh_flags fhd OR NGHTTP2_FLAG_PADDED, s0, s1, s2, s3]"
    unfolding hd_bytes_def using abc' by (simp add: padded_hd_def s)
  have put: "fl_put_uint32be L (of_nat (?n * 256 + unat (fh_type fhd))) = [a', b', c', fh_type fhd]"
    using L be32_low [OF len, of "fh_type fhd"] abc' by (simp add: frame_lib_okD)
  let ?H = "[a, b, c, fh_type fhd, fh_flags fhd, s0, s1, s2, s3]"
  let ?F = "[a, b, c, fh_type fhd, fh_flags fhd OR NGHTTP2_FLAG_PADDED, s0, s1, s2, s3]"
  let ?P = "[a', b', c', fh_type fhd, fh_flags fhd OR NGHTTP2_FLAG_PADDED, s0, s1, s2, s3]"
  have 1: "buf_retreat 1 (mk_buf pre (?H @ xs) post) = Some (mk_buf p (l # ?H @ xs) post)"
    by (simp add: p buf_retreat_def mk_buf_def)
  have 2: "buf_put (length p) ?H (mk_buf p (l # ?H @ xs) post) = Some (mk_buf p (?H @ s3 # xs) post)"
    by (simp add: buf_put_def mk_buf_def)
  have 3: "buf_put (length p + 4) [fh_flags fhd OR NGHTTP2_FLAG_PADDED] (mk_buf p (?H @ s3 # xs) post) = Some (mk_buf p (?F @ s3 # xs) post)"
    by (simp add: buf_put_def mk_buf_def)
  have 4: "buf_put (length p) [a', b', c', fh_type fhd] (mk_buf p (?F @ s3 # xs) post) = Some (mk_buf p (?P @ s3 # xs) post)"
    by (simp add: buf_put_def mk_buf_def)
  have 5: "buf_put (length p + 9) [x] (mk_buf p (?P @ s3 # xs) post) = Some (mk_buf p (?P @ x # xs) post)" for x
    by (simp add: buf_put_def mk_buf_def)
  have 6: "buf_append (replicate (padlen - 1) 0) (mk_buf p (?P @ x # xs) post)
      = Some (mk_buf p (?P @ x # xs @ replicate (padlen - 1) 0) (drop (padlen - 1) post))" for x
    using pad(2) by simp
  have mem: "take 9 (drop (length pre) (pre @ (?H @ xs) @ post)) = ?H" "(p @ (?H @ s3 # xs) @ post) ! (length p + 4) = fh_flags fhd"
    "take 4 (drop (length p) (p @ (?F @ s3 # xs) @ post)) = [a, b, c, fh_type fhd]"
    "(p @ (?F @ s3 # xs) @ post) ! (length p + 3) = fh_type fhd" "\<not> length (pre @ (?H @ xs) @ post) < length pre + 9"
    by (simp_all add: nth_append)
  have g: "fl_get_uint32 L [a, b, c, fh_type fhd] = of_be32 a b c (fh_type fhd)" using L by (simp add: frame_lib_okD)
  have bp: "butlast pre = p" "last ?H = s3" by (simp_all add: p)
  show ?thesis
    unfolding h h' frame_set_pad_def mk_buf_sel mem Let_def bp
    by (simp only: 1 2 3 4 5 6 mem mk_buf_sel g n put bind.bind_lunit if_False split: if_split) simp
qed

section \<open>Settings and name/value pairs\<close>

lemma c_memcmp_zero: "length a = length b \<Longrightarrow> c_memcmp a b = 0 \<longleftrightarrow> a = b"
  by (induction a b rule: c_memcmp.induct) auto

lemma nv_equal_iff: "nghttp2_nv_equal a b \<longleftrightarrow> nv_name a = nv_name b \<and> nv_value a = nv_value b"
  using c_memcmp_zero by (auto simp: nghttp2_nv_equal_def)

text \<open>The comparison of byte strings is the lexicographic one.\<close>

lemma bytes_compar_nil: "bytes_compar [] b = (if b = [] then 0 else - 1)" "bytes_compar a [] = (if a = [] then 0 else 1)"
  by (cases a; auto simp: bytes_compar_def)+

lemma bytes_compar_cons:
  "bytes_compar (x # a) (y # b) = (if x < y then - 1 else if y < x then 1 else bytes_compar a b)"
  by (auto simp: bytes_compar_def Let_def)

lemma bytes_compar_less: "bytes_compar a b < 0 \<longleftrightarrow> (a, b) \<in> lexord {(x, y). x < y}"
proof (induction a arbitrary: b)
  case Nil
  show ?case by (cases b) (auto simp: bytes_compar_nil)
next
  case (Cons x a)
  show ?case using Cons by (cases b) (auto simp: bytes_compar_nil bytes_compar_cons)
qed

lemma bytes_compar_zero: "bytes_compar a b = 0 \<longleftrightarrow> a = b"
proof (induction a arbitrary: b)
  case Nil
  show ?case by (cases b) (auto simp: bytes_compar_nil)
next
  case (Cons x a)
  show ?case using Cons by (cases b) (auto simp: bytes_compar_nil bytes_compar_cons)
qed

lemma nv_compar_zero: "nv_compar a b = 0 \<longleftrightarrow> nghttp2_nv_equal a b"
  by (auto simp: nv_compar_def Let_def bytes_compar_zero nv_equal_iff)

text \<open>The settings that are accepted.\<close>

lemma iv_check_iff:
  "nghttp2_iv_check iv \<longleftrightarrow>
     (\<forall>e\<in>set iv.
        (se_settings_id e \<in> {NGHTTP2_SETTINGS_ENABLE_PUSH, NGHTTP2_SETTINGS_ENABLE_CONNECT_PROTOCOL, NGHTTP2_SETTINGS_NO_RFC7540_PRIORITIES}
           \<longrightarrow> se_value e \<in> {0, 1})
        \<and> (se_settings_id e = NGHTTP2_SETTINGS_INITIAL_WINDOW_SIZE \<longrightarrow> se_value e \<le> 0x7fffffff)
        \<and> (se_settings_id e = NGHTTP2_SETTINGS_MAX_FRAME_SIZE \<longrightarrow> 0x4000 \<le> se_value e \<and> se_value e \<le> 0xffffff))"
  by (induction iv) (auto simp: not_less not_le)

text \<open>The copy of name/value pairs fits the memory that is allocated for it.\<close>

lemma nva_copy_fits:
  "data + nva_buflen nva \<le> buflen \<Longrightarrow>
     nva_copy L buflen data nva =
       Some (map (\<lambda>e. \<lparr>ne_name = (if ne_flags e AND NGHTTP2_NV_FLAG_NO_COPY_NAME \<noteq> 0 then ne_name e else fl_downcase L (ne_name e)),
                       ne_value = ne_value e, ne_flags = ne_flags e\<rparr>) nva)"
  by (induction nva arbitrary: data) auto

lemma nv_array_copy_spec:
  "nghttp2_nv_array_copy L malloc nva =
     Some (if nva = [] \<or> malloc (length nva) (nva_buflen nva)
           then (HD_OK, map (\<lambda>e. \<lparr>ne_name = (if ne_flags e AND NGHTTP2_NV_FLAG_NO_COPY_NAME \<noteq> 0 then ne_name e else fl_downcase L (ne_name e)),
                                   ne_value = ne_value e, ne_flags = ne_flags e\<rparr>) nva)
           else (NGHTTP2_ERR_NOMEM, []))"
  using nva_copy_fits [of 0 nva "nva_buflen nva" L] by (auto simp: nghttp2_nv_array_copy_def Let_def)

text \<open>
  \<open>nghttp2_frame_unpack_altsvc_payload2\<close> does not compare the length of the origin with the rest
  of the payload: a payload of two bytes can claim an origin of any length.
\<close>

lemma altsvc_payload2_overrun:
  assumes "frame_lib_ok L" and "malloc 0"
  shows "nghttp2_frame_unpack_altsvc_payload2 L malloc f [0, 1] = None"
proof -
  have "of_be16 0 1 = 1" by (simp add: of_be16_def)
  then show ?thesis
    using assms by (simp add: nghttp2_frame_unpack_altsvc_payload2_def nghttp2_frame_unpack_altsvc_payload_def frame_lib_okD Let_def)
qed

end
