(* ===== verification/Http2_Frame_Headers.thy ===== *)
theory Http2_Frame_Headers
  imports Http2_Frame_Wire
begin

text \<open>
  Header blocks in frames: what packing HEADERS and PUSH_PROMISE does to the chain of buffers that
  the deflater leaves, how the frames are read, and the round trips of all frames.
\<close>

section \<open>Header blocks in frames\<close>

text \<open>A relation between buffers that the library functions keep is kept by the deflater.\<close>

definition bufs_rel :: "'b bufs_lib \<Rightarrow> ('b \<Rightarrow> 'b \<Rightarrow> bool) \<Rightarrow> bool" where
  "bufs_rel lib R \<longleftrightarrow>
     (\<forall>b. R b b) \<and> (\<forall>a b c. R a b \<longrightarrow> R b c \<longrightarrow> R a c)
     \<and> (\<forall>b xs. R b (snd (bufs_add lib b xs))) \<and> (\<forall>b x. R b (snd (bufs_addb lib b x)))
     \<and> (\<forall>b s. R b (snd (huff_encode lib b s)))"

lemma bufs_relD:
  assumes "bufs_rel lib R"
  shows "R b b" and "R a b \<Longrightarrow> R b c \<Longrightarrow> R a c" and "bufs_add lib b xs = (rv, b') \<Longrightarrow> R b b'"
    and "bufs_addb lib b x = (rv, b') \<Longrightarrow> R b b'" and "huff_encode lib b s = (rv, b') \<Longrightarrow> R b b'"
proof -
  have 1: "\<And>b. R b b" and 2: "\<And>a b c. R a b \<Longrightarrow> R b c \<Longrightarrow> R a c" and 3: "\<And>b xs. R b (snd (bufs_add lib b xs))"
    and 4: "\<And>b x. R b (snd (bufs_addb lib b x))" and 5: "\<And>b s. R b (snd (huff_encode lib b s))"
    using assms unfolding bufs_rel_def by blast+
  show "R b b" by (rule 1)
  show "R a b \<Longrightarrow> R b c \<Longrightarrow> R a c" by (rule 2)
  show "bufs_add lib b xs = (rv, b') \<Longrightarrow> R b b'" using 3 [of b xs] by simp
  show "bufs_addb lib b x = (rv, b') \<Longrightarrow> R b b'" using 4 [of b x] by simp
  show "huff_encode lib b s = (rv, b') \<Longrightarrow> R b b'" using 5 [of b s] by simp
qed

lemma emit_rel:
  assumes "bufs_rel lib R"
  shows "emit_table_size lib b n = (rv, b') \<Longrightarrow> R b b'" and "emit_indexed_block lib b i = (rv, b') \<Longrightarrow> R b b'"
    and "emit_string lib b s = (rv, b') \<Longrightarrow> R b b'" and "emit_indname_block lib b i nv mode = (rv, b') \<Longrightarrow> R b b'"
    and "emit_newname_block lib b nv mode = (rv, b') \<Longrightarrow> R b b'"
proof -
  note R = bufs_relD [OF assms]
  show "emit_table_size lib b n = (rv, b') \<Longrightarrow> R b b'" and "emit_indexed_block lib b i = (rv, b') \<Longrightarrow> R b b'"
    by (auto simp: emit_table_size_def emit_indexed_block_def Let_def intro: R split: if_splits)
  have str: "R b b'" if "emit_string lib b s = (rv, b')" for b b' s rv
    using that by (auto simp: emit_string_def Let_def intro: R split: if_splits prod.splits)
  then show "emit_string lib b s = (rv, b') \<Longrightarrow> R b b'" .
  show "emit_indname_block lib b i nv mode = (rv, b') \<Longrightarrow> R b b'"
    by (auto simp: emit_indname_block_def Let_def intro: R str split: if_splits prod.splits)
  show "emit_newname_block lib b nv mode = (rv, b') \<Longrightarrow> R b b'"
    by (auto simp: emit_newname_block_def intro: R str split: if_splits prod.splits) (meson R str)+
qed

lemma deflate_nv_rel:
  assumes "bufs_rel lib R" and "deflate_nv lib mem d b nv = (rv, d', b')"
  shows "R b b'"
  using assms(2) bufs_relD(1) [OF assms(1), of b]
  by (auto simp: deflate_nv_def Let_def dest!: emit_rel(2,4,5) [OF assms(1)] split: if_splits prod.splits)

lemma deflate_nvs_rel:
  assumes "bufs_rel lib R"
  shows "deflate_nvs lib mem d b nvs = (rv, d', b') \<Longrightarrow> R b b'"
proof (induction nvs arbitrary: d b)
  case (Cons nv nvs)
  then show ?case
    using deflate_nv_rel [OF assms, of mem d b nv] bufs_relD(2) [OF assms]
    by (auto split: prod.splits if_splits)
qed (simp add: bufs_relD(1) [OF assms])

lemma deflate_hd_bufs_rel:
  assumes "bufs_rel lib R" and "nghttp2_hd_deflate_hd_bufs lib mem d b nvs = (rv, d', b')"
  shows "R b b'"
proof -
  have "R b b1" if "deflate_notify lib d b = (rv1, d1, b1)" for rv1 d1 b1
    using that bufs_relD(1,2) [OF assms(1)]
    by (auto simp: deflate_notify_def Let_def dest!: emit_rel(1) [OF assms(1)] split: if_splits prod.splits)
  then show ?thesis
    using assms(2) bufs_relD(1,2) [OF assms(1)]
    by (auto simp: nghttp2_hd_deflate_hd_bufs_def dest!: deflate_nvs_rel [OF assms(1)] split: if_splits prod.splits)
qed

text \<open>
  Buffers in which frames can be packed: the contents are in the memory, all but the first have
  room for a frame header in front, and none is larger than a frame may be. The library keeps
  this, and does not move the start of the first.
\<close>

definition buf_wf :: "nghttp2_buf \<Rightarrow> bool" where
  "buf_wf b \<longleftrightarrow> bf_pos b \<le> bf_last b \<and> bf_last b \<le> length (bf_mem b) \<and> length (bf_mem b) < 2 ^ 24"

definition bufs_wf :: "nghttp2_bufs \<Rightarrow> bool" where
  "bufs_wf bufs \<longleftrightarrow>
     bufs_cur bufs < length (bufs_chain bufs) \<and> list_all buf_wf (bufs_chain bufs)
     \<and> list_all (\<lambda>b. NGHTTP2_FRAME_HDLEN \<le> bf_pos b) (tl (bufs_chain bufs))"

definition bufs_keep :: "nghttp2_bufs \<Rightarrow> nghttp2_bufs \<Rightarrow> bool" where
  "bufs_keep b b' \<longleftrightarrow>
     (bufs_wf b \<longrightarrow> bufs_wf b' \<and> bf_pos (hd (bufs_chain b')) = bf_pos (hd (bufs_chain b)))"

lemma buf_wf_view:
  assumes "buf_wf b"
  obtains pre xs post where "b = mk_buf pre xs post"
proof
  have "length (buf_bytes b) = bf_last b - bf_pos b" using assms by (auto simp: buf_wf_def buf_bytes_def)
  then show "b = mk_buf (take (bf_pos b) (bf_mem b)) (buf_bytes b) (drop (bf_last b) (bf_mem b))"
    using assms append_take_drop_id [of "bf_last b - bf_pos b" "drop (bf_pos b) (bf_mem b)"]
    by (cases b) (simp add: buf_wf_def mk_buf_def buf_bytes_def)
qed

lemma buf_wf_mk: "buf_wf (mk_buf pre xs post) \<longleftrightarrow> length pre + length xs + length post < 2 ^ 24"
  by (simp add: buf_wf_def add.assoc)

text \<open>The bytes of CONTINUATION frames.\<close>

fun cont_bytes :: "nghttp2_frame_hd \<Rightarrow> byte list list \<Rightarrow> byte list" where
  "cont_bytes fhd [] = []"
| "cont_bytes fhd [xs] = hd_bytes (fhd\<lparr>fh_length := length xs, fh_flags := NGHTTP2_FLAG_END_HEADERS\<rparr>) @ xs"
| "cont_bytes fhd (xs # ys # zs) = hd_bytes (fhd\<lparr>fh_length := length xs\<rparr>) @ xs @ cont_bytes fhd (ys # zs)"

lemma pack_continuations_bytes:
  assumes "frame_lib_ok L"
  shows "n < length bs \<Longrightarrow> list_all buf_wf bs \<Longrightarrow> list_all (\<lambda>b. 9 \<le> bf_pos b) bs \<Longrightarrow>
    \<exists>bs'. pack_continuations L fhd n bs = Some bs' \<and> length bs' = length bs
      \<and> concat (map buf_bytes (take (n + 1) bs')) = cont_bytes fhd (map buf_bytes (take (n + 1) bs))"
proof (induction bs arbitrary: n)
  case (Cons b bs)
  obtain pre xs post where b: "b = mk_buf pre xs post" by (rule buf_wf_view [of b]) (use Cons.prems(2) in simp_all)
  have pre: "9 \<le> length pre" using Cons.prems(3) b by simp
  have len: "fl_buf_len L b = length xs" using assms by (simp add: b frame_lib_okD)
  note put = put_frame_hd_mk [OF assms pre, of _ xs post]
  show ?case
  proof (cases n)
    case 0
    then show ?thesis by (simp add: len) (simp add: b put)
  next
    case (Suc m)
    then obtain bs' where bs': "pack_continuations L fhd m bs = Some bs'" "length bs' = length bs"
      "concat (map buf_bytes (take (m + 1) bs')) = cont_bytes fhd (map buf_bytes (take (m + 1) bs))"
      using Cons.IH [of m] Cons.prems by auto
    obtain c cs where "bs = c # cs" using Cons.prems(1) Suc by (cases bs) auto
    then show ?thesis using bs' Suc by (simp add: len) (simp add: b put)
  qed
qed simp

text \<open>Reading them: the header block of a HEADERS or PUSH_PROMISE frame and what continues it.\<close>

fun read_continuations :: "frame_lib \<Rightarrow> nat \<Rightarrow> 32 word \<Rightarrow> byte list \<Rightarrow> (byte list \<times> byte list) option" where
  "read_continuations L 0 s bs = None"
| "read_continuations L (Suc fuel) s bs =
     do {
       (fhd, payload, rest) \<leftarrow> split_frame L bs;
       if fh_type fhd \<noteq> NGHTTP2_CONTINUATION \<or> fh_stream_id fhd \<noteq> s then None
       else if fh_flags fhd AND NGHTTP2_FLAG_END_HEADERS \<noteq> 0 then Some (payload, rest)
       else
         do {
           (more, rest) \<leftarrow> read_continuations L fuel s rest;
           Some (payload @ more, rest)
         }
     }"

definition read_header_block :: "frame_lib \<Rightarrow> byte list \<Rightarrow> (nghttp2_frame_hd \<times> byte list \<times> byte list) option" where
  "read_header_block L bs =
     do {
       (fhd, payload, rest) \<leftarrow> split_frame L bs;
       if fh_flags fhd AND NGHTTP2_FLAG_END_HEADERS \<noteq> 0 then Some (fhd, payload, rest)
       else
         do {
           (more, rest) \<leftarrow> read_continuations L (length rest) (fh_stream_id fhd) rest;
           Some (fhd, payload @ more, rest)
         }
     }"

lemma read_continuations_bytes:
  assumes "frame_lib_ok L" and "fh_type fhd = NGHTTP2_CONTINUATION" and "fh_flags fhd = 0" and "id_ok (fh_stream_id fhd)"
    and "fh_reserved fhd = 0"
  shows "xss \<noteq> [] \<Longrightarrow> list_all (\<lambda>xs. length xs < 2 ^ 24) xss \<Longrightarrow> length xss \<le> fuel \<Longrightarrow>
    read_continuations L fuel (fh_stream_id fhd) (cont_bytes fhd xss @ rest) = Some (concat xss, rest)"
proof (induction xss arbitrary: fuel rule: induct_list012)
  case (2 xs)
  let ?h = "fhd\<lparr>fh_length := length xs, fh_flags := NGHTTP2_FLAG_END_HEADERS\<rparr>"
  have "split_frame L (hd_bytes ?h @ xs @ rest) = Some (?h, xs, rest)"
    by (rule split_frame_bytes) (use assms 2 in simp_all)
  then show ?case using 2 assms by (cases fuel) simp_all
next
  case (3 xs ys zs)
  let ?h = "fhd\<lparr>fh_length := length xs\<rparr>"
  have "split_frame L (hd_bytes ?h @ xs @ cont_bytes fhd (ys # zs) @ rest) = Some (?h, xs, cont_bytes fhd (ys # zs) @ rest)"
    by (rule split_frame_bytes) (use assms 3 in simp_all)
  moreover obtain n where "fuel = Suc n" "length (ys # zs) \<le> n" using 3 by (cases fuel) auto
  ultimately show ?case using 3 assms by simp
qed simp

lemma end_headers_bits:
  fixes fl :: byte
  shows "(fl AND NOT NGHTTP2_FLAG_END_HEADERS) AND NGHTTP2_FLAG_END_HEADERS = 0"
    and "fl AND NGHTTP2_FLAG_END_HEADERS \<noteq> 0 \<Longrightarrow> (fl AND NOT NGHTTP2_FLAG_END_HEADERS) OR NGHTTP2_FLAG_END_HEADERS = fl"
    and "fl AND NGHTTP2_FLAG_END_HEADERS \<noteq> 0 \<Longrightarrow> fl OR NGHTTP2_FLAG_END_HEADERS = fl"
    and "(fl AND NOT NGHTTP2_FLAG_END_HEADERS) AND NGHTTP2_FLAG_PRIORITY = fl AND NGHTTP2_FLAG_PRIORITY"
proof -
  have 4: "bit (4 :: byte) n \<longleftrightarrow> n = 2" for n
    using bit_exp_iff [where ?'a = byte, of 2 n] by auto
  have 20: "bit (0x20 :: byte) n \<longleftrightarrow> n = 5" for n
    using bit_exp_iff [where ?'a = byte, of 5 n] by auto
  note bits = bit_and_iff bit_or_iff bit_not_iff 4 20
  show "(fl AND NOT NGHTTP2_FLAG_END_HEADERS) AND NGHTTP2_FLAG_END_HEADERS = 0"
    by (rule bit_word_eqI) (simp only: bits bit_0_eq bot_apply bot_bool_def; blast)
  show "(fl AND NOT NGHTTP2_FLAG_END_HEADERS) AND NGHTTP2_FLAG_PRIORITY = fl AND NGHTTP2_FLAG_PRIORITY"
    by (rule bit_word_eqI) (simp only: bits; auto)
  assume "fl AND NGHTTP2_FLAG_END_HEADERS \<noteq> 0"
  then obtain n where "bit (fl AND 4) n" by (metis bit_word_eqI bit_0_eq bot_apply bot_bool_def)
  then have "bit fl n \<and> n = 2" unfolding bit_and_iff 4 .
  then have fl: "bit fl 2" by blast
  show "(fl AND NOT NGHTTP2_FLAG_END_HEADERS) OR NGHTTP2_FLAG_END_HEADERS = fl"
    by (rule bit_word_eqI) (simp only: bits; use fl in auto)
  show "fl OR NGHTTP2_FLAG_END_HEADERS = fl"
    by (rule bit_word_eqI) (simp only: bits; use fl in auto)
qed

lemma length_cont_bytes: "length xss \<le> length (cont_bytes fhd xss)"
  by (induction xss rule: induct_list012) auto

text \<open>The frame header that is sent first.\<close>

definition first_hd :: "nghttp2_frame_hd \<Rightarrow> nat \<Rightarrow> byte list \<Rightarrow> nghttp2_frame_hd" where
  "first_hd fhd cur xs =
     fhd\<lparr>fh_length := length xs,
         fh_flags := (if cur = 0 then fh_flags fhd else fh_flags fhd AND NOT NGHTTP2_FLAG_END_HEADERS)\<rparr>"

lemma pack_shared_bytes:
  assumes L: "frame_lib_ok L" and pre: "9 \<le> length pre" and cur: "cur \<le> length bs"
    and bs: "list_all buf_wf bs" "list_all (\<lambda>b. 9 \<le> bf_pos b) bs"
  shows "\<exists>bufs'. frame_pack_headers_shared L \<lparr>bufs_chain = mk_buf pre xs post # bs, bufs_cur = cur\<rparr> fhd = Some bufs'
    \<and> bufs_bytes bufs' = hd_bytes (first_hd fhd cur xs) @ xs
        @ cont_bytes ((first_hd fhd cur xs)\<lparr>fh_type := NGHTTP2_CONTINUATION, fh_flags := 0\<rparr>) (map buf_bytes (take cur bs))"
proof (cases "cur = 0")
  case True
  then show ?thesis
    using L pre by (simp add: frame_pack_headers_shared_def put_frame_hd_mk frame_lib_okD first_hd_def bufs_bytes_def Let_def)
next
  case False
  let ?h = "first_hd fhd cur xs"
  let ?c = "?h\<lparr>fh_type := NGHTTP2_CONTINUATION, fh_flags := 0\<rparr>"
  have "cur - 1 < length bs" using cur False by simp
  from pack_continuations_bytes [OF L this bs, of ?c] False obtain bs' where
    bs': "pack_continuations L ?c (cur - 1) bs = Some bs'" "length bs' = length bs"
    "concat (map buf_bytes (take cur bs')) = cont_bytes ?c (map buf_bytes (take cur bs))" by auto
  have "frame_pack_headers_shared L \<lparr>bufs_chain = mk_buf pre xs post # bs, bufs_cur = cur\<rparr> fhd
      = Some \<lparr>bufs_chain = mk_buf (take (length pre - 9) pre) (hd_bytes ?h @ xs) post # bs', bufs_cur = cur\<rparr>"
    using L pre False bs'(1)
    by (simp add: frame_pack_headers_shared_def put_frame_hd_mk frame_lib_okD first_hd_def Let_def)
  then show ?thesis using bs'(3) by (simp add: bufs_bytes_def)
qed

lemma read_shared:
  assumes L: "frame_lib_ok L" and fhd: "id_ok (fh_stream_id fhd)" "fh_reserved fhd = 0" "fh_flags fhd AND NGHTTP2_FLAG_END_HEADERS \<noteq> 0"
    and len: "length xs < 2 ^ 24" "list_all (\<lambda>ys. length ys < 2 ^ 24) yss"
  shows "read_header_block L (hd_bytes (first_hd fhd (length yss) xs) @ xs
      @ cont_bytes ((first_hd fhd (length yss) xs)\<lparr>fh_type := NGHTTP2_CONTINUATION, fh_flags := 0\<rparr>) yss @ rest)
    = Some (first_hd fhd (length yss) xs, xs @ concat yss, rest)"
proof -
  let ?h = "first_hd fhd (length yss) xs"
  let ?c = "?h\<lparr>fh_type := NGHTTP2_CONTINUATION, fh_flags := 0\<rparr>"
  have split: "split_frame L (hd_bytes ?h @ xs @ cont_bytes ?c yss @ rest) = Some (?h, xs, cont_bytes ?c yss @ rest)"
    by (rule split_frame_bytes) (use assms in \<open>simp_all add: first_hd_def\<close>)
  show ?thesis
  proof (cases "yss = []")
    case True
    then show ?thesis using split fhd(3) by (simp add: read_header_block_def first_hd_def)
  next
    case False
    have fuel: "length yss \<le> length (cont_bytes ?c yss @ rest)" using length_cont_bytes [of yss ?c] by simp
    have "read_continuations L (length (cont_bytes ?c yss @ rest)) (fh_stream_id ?c) (cont_bytes ?c yss @ rest) = Some (concat yss, rest)"
      by (rule read_continuations_bytes [OF L _ _ _ _ False len(2) fuel]) (use fhd in \<open>simp_all add: first_hd_def\<close>)
    moreover have "fh_flags ?h = fh_flags fhd AND NOT NGHTTP2_FLAG_END_HEADERS" using False by (simp add: first_hd_def)
    then have "fh_flags ?h AND NGHTTP2_FLAG_END_HEADERS = 0" by (simp only: end_headers_bits(1))
    ultimately show ?thesis using split by (simp add: read_header_block_def first_hd_def)
  qed
qed

text \<open>
  The buffers before and after the deflater, with the room of \<open>n\<close> bytes that is left for what
  comes in front of the header block.
\<close>

lemma bufs_skip_ready:
  assumes "n \<le> length post"
  shows "bufs_skip n (ready_bufs pre post bs) = Some \<lparr>bufs_chain = mk_buf (pre @ take n post) [] (drop n post) # bs, bufs_cur = 0\<rparr>"
  using assms by (simp add: bufs_skip_def ready_bufs_def mk_buf_def min_def)

lemma deflated_view:
  assumes rel: "bufs_rel lib bufs_keep" and wf: "bufs_wf (ready_bufs pre post bs)" and n: "n \<le> length post"
    and run: "nghttp2_hd_deflate_hd_bufs lib mem d \<lparr>bufs_chain = mk_buf (pre @ take n post) [] (drop n post) # bs, bufs_cur = 0\<rparr> nvs
      = (rv, d', b')"
  obtains pre' us xs post' bs' cur where "b' = \<lparr>bufs_chain = mk_buf (pre' @ us) xs post' # bs', bufs_cur = cur\<rparr>"
    and "length pre' = length pre" and "length us = n" and "cur \<le> length bs'" and "list_all buf_wf bs'"
    and "list_all (\<lambda>b. 9 \<le> bf_pos b) bs'" and "length us + length xs < 2 ^ 24"
proof -
  let ?b = "\<lparr>bufs_chain = mk_buf (pre @ take n post) [] (drop n post) # bs, bufs_cur = 0\<rparr>"
  have "bufs_wf ?b" using wf n by (auto simp: bufs_wf_def ready_bufs_def buf_wf_mk)
  with deflate_hd_bufs_rel [OF rel run] have w: "bufs_wf b'" "bf_pos (hd (bufs_chain b')) = length pre + n"
    using n by (auto simp: bufs_keep_def min_def)
  then obtain c bs' where c: "bufs_chain b' = c # bs'" by (cases "bufs_chain b'") (auto simp: bufs_wf_def)
  then have "buf_wf c" using w(1) by (simp add: bufs_wf_def)
  then obtain p xs post' where v: "c = mk_buf p xs post'" by (rule buf_wf_view)
  then have p: "length p = length pre + n" using w(2) c by simp
  show thesis
  proof (rule that [of "take (length pre) p" "drop (length pre) p" xs post' bs' "bufs_cur b'"])
    show "b' = \<lparr>bufs_chain = mk_buf (take (length pre) p @ drop (length pre) p) xs post' # bs', bufs_cur = bufs_cur b'\<rparr>"
      using c v by (cases b') simp
    show "length (drop (length pre) p) + length xs < 2 ^ 24" using \<open>buf_wf c\<close> v p by (simp add: buf_wf_mk)
  qed (use w(1) c p in \<open>auto simp: bufs_wf_def\<close>)
qed

text \<open>The common part of HEADERS and PUSH_PROMISE: \<open>pfx\<close> is written in front of the header block.\<close>

lemma pack_block_reads:
  assumes L: "frame_lib_ok L" and fhd: "id_ok (fh_stream_id fhd)" "fh_reserved fhd = 0" "fh_flags fhd AND NGHTTP2_FLAG_END_HEADERS \<noteq> 0"
    and pre: "9 \<le> length pre" and cur: "cur \<le> length bs" and bs: "list_all buf_wf bs" "list_all (\<lambda>b. 9 \<le> bf_pos b) bs"
    and len: "length pfx + length xs < 2 ^ 24"
  shows "\<exists>bufs' h. frame_pack_headers_shared L \<lparr>bufs_chain = mk_buf pre (pfx @ xs) post # bs, bufs_cur = cur\<rparr> fhd = Some bufs'
    \<and> (\<forall>rest. read_header_block L (bufs_bytes bufs' @ rest)
        = Some (h, pfx @ bufs_bytes \<lparr>bufs_chain = mk_buf pre' xs post' # bs, bufs_cur = cur\<rparr>, rest))
    \<and> fh_type h = fh_type fhd \<and> fh_stream_id h = fh_stream_id fhd \<and> fh_reserved h = 0
    \<and> fh_flags h OR NGHTTP2_FLAG_END_HEADERS = fh_flags fhd
    \<and> fh_flags h AND NGHTTP2_FLAG_PRIORITY = fh_flags fhd AND NGHTTP2_FLAG_PRIORITY"
proof -
  let ?yss = "map buf_bytes (take cur bs)"
  have yss: "length ?yss = cur" using cur by simp
  have "list_all (\<lambda>ys. length ys < 2 ^ 24) ?yss"
    using bs(1) by (auto simp: list_all_iff buf_wf_def buf_bytes_def dest!: in_set_takeD)
  note r = read_shared [OF L fhd _ this, unfolded yss, of "pfx @ xs"]
  have h: "fh_flags (first_hd fhd cur (pfx @ xs)) = fh_flags fhd \<or>
      fh_flags (first_hd fhd cur (pfx @ xs)) = fh_flags fhd AND NOT NGHTTP2_FLAG_END_HEADERS"
    by (simp add: first_hd_def)
  obtain bufs' where "frame_pack_headers_shared L \<lparr>bufs_chain = mk_buf pre (pfx @ xs) post # bs, bufs_cur = cur\<rparr> fhd = Some bufs'"
    "bufs_bytes bufs' = hd_bytes (first_hd fhd cur (pfx @ xs)) @ (pfx @ xs)
      @ cont_bytes ((first_hd fhd cur (pfx @ xs))\<lparr>fh_type := NGHTTP2_CONTINUATION, fh_flags := 0\<rparr>) ?yss"
    using pack_shared_bytes [OF L pre cur bs] by blast
  moreover have "read_header_block L (bufs_bytes bufs' @ rest)
      = Some (first_hd fhd cur (pfx @ xs), pfx @ bufs_bytes \<lparr>bufs_chain = mk_buf pre' xs post' # bs, bufs_cur = cur\<rparr>, rest)" for rest
    using r [of rest] len calculation(2) by (simp add: bufs_bytes_def)
  moreover have "fh_flags (first_hd fhd cur (pfx @ xs)) OR NGHTTP2_FLAG_END_HEADERS = fh_flags fhd"
    using h end_headers_bits(2,3) [OF fhd(3)] by metis
  moreover have "fh_flags (first_hd fhd cur (pfx @ xs)) AND NGHTTP2_FLAG_PRIORITY = fh_flags fhd AND NGHTTP2_FLAG_PRIORITY"
    using h end_headers_bits(4) [of "fh_flags fhd"] by metis
  ultimately show ?thesis using fhd(2) by (auto simp: first_hd_def intro!: exI [of _ "first_hd fhd cur (pfx @ xs)"])
qed

lemma headers_packed:
  assumes L: "frame_lib_ok L" and rel: "bufs_rel lib bufs_keep" and wf: "bufs_wf (ready_bufs pre post bs)"
    and pre: "9 \<le> length pre" and post: "5 \<le> length post"
    and s: "id_ok s" and flags: "flags AND NGHTTP2_FLAG_END_HEADERS \<noteq> 0"
    and hd: "fh_type (hf_hd f) = NGHTTP2_HEADERS" "fh_flags (hf_hd f) = flags" "fh_stream_id (hf_hd f) = s" "fh_reserved (hf_hd f) = 0"
  defines "n \<equiv> nghttp2_frame_priority_len flags"
  shows "\<exists>b rv d' b'. bufs_skip n (ready_bufs pre post bs) = Some b \<and> bufs_bytes b = []
    \<and> nghttp2_hd_deflate_hd_bufs lib mem d b (hf_nva f) = (rv, d', b')
    \<and> (if rv = HD_OK
       then \<exists>bufs' f' h. nghttp2_frame_pack_headers L lib mem (ready_bufs pre post bs) f d = Some (HD_OK, bufs', f', d')
         \<and> (\<forall>rest. read_header_block L (bufs_bytes bufs' @ rest)
              = Some (h, (if flags AND NGHTTP2_FLAG_PRIORITY \<noteq> 0 then pri_bytes (hf_pri_spec f) else []) @ bufs_bytes b', rest))
         \<and> fh_type h = NGHTTP2_HEADERS \<and> fh_stream_id h = s \<and> fh_flags h OR NGHTTP2_FLAG_END_HEADERS = flags
         \<and> fh_flags h AND NGHTTP2_FLAG_PRIORITY = flags AND NGHTTP2_FLAG_PRIORITY
       else \<exists>bufs' rv'. rv' \<noteq> HD_OK \<and> nghttp2_frame_pack_headers L lib mem (ready_bufs pre post bs) f d = Some (rv', bufs', f, d'))"
proof -
  have n: "n = (if flags AND NGHTTP2_FLAG_PRIORITY \<noteq> 0 then 5 else 0)" "n \<le> length post"
    using post by (auto simp: n_def nghttp2_frame_priority_len_def)
  define b where "b = \<lparr>bufs_chain = mk_buf (pre @ take n post) [] (drop n post) # bs, bufs_cur = 0\<rparr>"
  have skip: "bufs_skip n (ready_bufs pre post bs) = Some b" unfolding b_def by (rule bufs_skip_ready [OF n(2)])
  have "bufs_bytes b = []" by (simp add: b_def bufs_bytes_def)
  obtain rv d' b' where run: "nghttp2_hd_deflate_hd_bufs lib mem d b (hf_nva f) = (rv, d', b')" by (metis prod_cases3)
  obtain pre' us xs post' bs' cur where v: "b' = \<lparr>bufs_chain = mk_buf (pre' @ us) xs post' # bs', bufs_cur = cur\<rparr>"
    and len: "length pre' = length pre" "length us = n" "length us + length xs < 2 ^ 24"
    and w: "cur \<le> length bs'" "list_all buf_wf bs'" "list_all (\<lambda>b. 9 \<le> bf_pos b) bs'"
    by (rule deflated_view [OF rel wf n(2) run [unfolded b_def]])
  define pfx where "pfx = (if flags AND NGHTTP2_FLAG_PRIORITY \<noteq> 0 then pri_bytes (hf_pri_spec f) else [])"
  define b1 where "b1 = \<lparr>bufs_chain = mk_buf pre' (us @ xs) post' # bs', bufs_cur = cur\<rparr>"
  define b2 where "b2 = \<lparr>bufs_chain = mk_buf pre' (pfx @ xs) post' # bs', bufs_cur = cur\<rparr>"
  have retreat: "on_head (buf_retreat n) b' = Some b1" using len by (simp add: v b1_def buf_retreat_mk)
  have wr: "(if flags AND NGHTTP2_FLAG_PRIORITY \<noteq> 0
      then on_head (\<lambda>buf. nghttp2_frame_pack_priority_spec L (bf_pos buf) (hf_pri_spec f) buf) b1 else Some b1) = Some b2"
    using len(2) n(1) pack_priority_spec_inside [OF L, of us pre' "hf_pri_spec f" xs post'] by (auto simp: b1_def b2_def pfx_def)
  define fhd where "fhd = (hf_hd f)\<lparr>fh_length := bufs_len lib b2\<rparr>"
  have fhd: "id_ok (fh_stream_id fhd)" "fh_reserved fhd = 0" "fh_flags fhd AND NGHTTP2_FLAG_END_HEADERS \<noteq> 0"
    using s flags hd by (simp_all add: fhd_def)
  have pfx: "length pfx + length xs < 2 ^ 24" "9 \<le> length pre'" using len n(1) pre by (auto simp: pfx_def)
  from pack_block_reads [OF L fhd pfx(2) w pfx(1), of post' "pre' @ us" post'] obtain bufs' h where
    sh: "frame_pack_headers_shared L b2 fhd = Some bufs'"
    and h: "\<forall>rest. read_header_block L (bufs_bytes bufs' @ rest) = Some (h, pfx @ bufs_bytes b', rest)"
    "fh_type h = NGHTTP2_HEADERS" "fh_stream_id h = s" "fh_flags h OR NGHTTP2_FLAG_END_HEADERS = flags"
    "fh_flags h AND NGHTTP2_FLAG_PRIORITY = flags AND NGHTTP2_FLAG_PRIORITY"
    unfolding b2_def [symmetric] v [symmetric] using hd by (auto simp: fhd_def)
  have cur0: "bufs_cur (ready_bufs pre post bs) = 0" by (simp add: ready_bufs_def)
  have off: "nghttp2_frame_headers_payload_nv_offset f = n" using hd(2) by (simp add: nghttp2_frame_headers_payload_nv_offset_def n_def)
  have eq: "nghttp2_frame_pack_headers L lib mem (ready_bufs pre post bs) f d =
      (let rv' = (if rv = NGHTTP2_ERR_BUFFER_ERROR then NGHTTP2_ERR_HEADER_COMP else rv) in
       if rv' \<noteq> HD_OK then Some (rv', b1, f, d')
       else Some (HD_OK, bufs', f\<lparr>hf_padlen := 0, hf_hd := fhd\<rparr>, d'))"
    unfolding nghttp2_frame_pack_headers_def off Let_def hd(2) using cur0 skip run retreat wr sh fhd_def by (simp add: b2_def)
  show ?thesis
    using skip \<open>bufs_bytes b = []\<close> run eq h unfolding pfx_def [symmetric] by (auto simp: Let_def)
qed

lemma push_promise_packed:
  assumes L: "frame_lib_ok L" and rel: "bufs_rel lib bufs_keep" and wf: "bufs_wf (ready_bufs pre post bs)"
    and pre: "9 \<le> length pre" and post: "4 \<le> length post"
    and s: "id_ok s" and flags: "flags AND NGHTTP2_FLAG_END_HEADERS \<noteq> 0"
    and hd: "fh_type (ppf_hd f) = NGHTTP2_PUSH_PROMISE" "fh_flags (ppf_hd f) = flags" "fh_stream_id (ppf_hd f) = s" "fh_reserved (ppf_hd f) = 0"
  shows "\<exists>b rv d' b'. bufs_skip 4 (ready_bufs pre post bs) = Some b \<and> bufs_bytes b = []
    \<and> nghttp2_hd_deflate_hd_bufs lib mem d b (ppf_nva f) = (rv, d', b')
    \<and> (if rv = HD_OK
       then \<exists>bufs' f' h. nghttp2_frame_pack_push_promise L lib mem (ready_bufs pre post bs) f d = Some (HD_OK, bufs', f', d')
         \<and> (\<forall>rest. read_header_block L (bufs_bytes bufs' @ rest) = Some (h, be32 (ppf_promised_stream_id f) @ bufs_bytes b', rest))
         \<and> fh_type h = NGHTTP2_PUSH_PROMISE \<and> fh_stream_id h = s \<and> fh_flags h OR NGHTTP2_FLAG_END_HEADERS = flags
       else \<exists>bufs' rv'. rv' \<noteq> HD_OK \<and> nghttp2_frame_pack_push_promise L lib mem (ready_bufs pre post bs) f d = Some (rv', bufs', f, d'))"
proof -
  define b where "b = \<lparr>bufs_chain = mk_buf (pre @ take 4 post) [] (drop 4 post) # bs, bufs_cur = 0\<rparr>"
  have skip: "bufs_skip 4 (ready_bufs pre post bs) = Some b" unfolding b_def by (rule bufs_skip_ready [OF post])
  have "bufs_bytes b = []" by (simp add: b_def bufs_bytes_def)
  obtain rv d' b' where run: "nghttp2_hd_deflate_hd_bufs lib mem d b (ppf_nva f) = (rv, d', b')" by (metis prod_cases3)
  obtain pre' us xs post' bs' cur where v: "b' = \<lparr>bufs_chain = mk_buf (pre' @ us) xs post' # bs', bufs_cur = cur\<rparr>"
    and len: "length pre' = length pre" "length us = 4" "length us + length xs < 2 ^ 24"
    and w: "cur \<le> length bs'" "list_all buf_wf bs'" "list_all (\<lambda>b. 9 \<le> bf_pos b) bs'"
    by (rule deflated_view [OF rel wf post run [unfolded b_def]])
  define pfx where "pfx = be32 (ppf_promised_stream_id f)"
  define b1 where "b1 = \<lparr>bufs_chain = mk_buf pre' (us @ xs) post' # bs', bufs_cur = cur\<rparr>"
  define b2 where "b2 = \<lparr>bufs_chain = mk_buf pre' (pfx @ xs) post' # bs', bufs_cur = cur\<rparr>"
  have retreat: "on_head (buf_retreat 4) b' = Some b1" using len by (simp add: v b1_def buf_retreat_mk)
  have wr: "on_head (\<lambda>buf. buf_put (bf_pos buf) (fl_put_uint32be L (ppf_promised_stream_id f)) buf) b1 = Some b2"
    using len(2) buf_put_inside [of "length pre'" pre' "[]" us pfx xs post'] L by (simp add: b1_def b2_def pfx_def frame_lib_okD)
  define fhd where "fhd = (ppf_hd f)\<lparr>fh_length := bufs_len lib b2\<rparr>"
  have fhd: "id_ok (fh_stream_id fhd)" "fh_reserved fhd = 0" "fh_flags fhd AND NGHTTP2_FLAG_END_HEADERS \<noteq> 0"
    using s flags hd by (simp_all add: fhd_def)
  have pfx: "length pfx + length xs < 2 ^ 24" "9 \<le> length pre'" using len pre by (auto simp: pfx_def)
  from pack_block_reads [OF L fhd pfx(2) w pfx(1), of post' "pre' @ us" post'] obtain bufs' h where
    sh: "frame_pack_headers_shared L b2 fhd = Some bufs'"
    and h: "\<forall>rest. read_header_block L (bufs_bytes bufs' @ rest) = Some (h, pfx @ bufs_bytes b', rest)"
    "fh_type h = NGHTTP2_PUSH_PROMISE" "fh_stream_id h = s" "fh_flags h OR NGHTTP2_FLAG_END_HEADERS = flags"
    unfolding b2_def [symmetric] v [symmetric] using hd by (auto simp: fhd_def)
  have eq: "nghttp2_frame_pack_push_promise L lib mem (ready_bufs pre post bs) f d =
      (let rv' = (if rv = NGHTTP2_ERR_BUFFER_ERROR then NGHTTP2_ERR_HEADER_COMP else rv) in
       if rv' \<noteq> HD_OK then Some (rv', b1, f, d')
       else Some (HD_OK, bufs', f\<lparr>ppf_padlen := 0, ppf_hd := fhd\<rparr>, d'))"
    unfolding nghttp2_frame_pack_push_promise_def Let_def
    using skip run retreat wr sh fhd_def by (simp add: b2_def ready_bufs_def)
  show ?thesis
    using skip \<open>bufs_bytes b = []\<close> run eq h unfolding pfx_def [symmetric] by (auto simp: Let_def)
qed


section \<open>An instance of the library\<close>

text \<open>
  Buffers that are filled byte by byte: the current one, and when that is full the next of the
  chain if it is empty, or a new one behind it.
\<close>

definition buf_room :: "nghttp2_buf \<Rightarrow> bool" where
  "buf_room b \<longleftrightarrow> bf_pos b \<le> bf_last b \<and> bf_last b < length (bf_mem b)"

definition buf_addb :: "byte \<Rightarrow> nghttp2_buf \<Rightarrow> nghttp2_buf" where
  "buf_addb x b = b\<lparr>bf_mem := (bf_mem b)[bf_last b := x], bf_last := bf_last b + 1\<rparr>"

definition chain_addb :: "nghttp2_bufs \<Rightarrow> byte \<Rightarrow> hd_rv \<times> nghttp2_bufs" where
  "chain_addb bufs x =
     (let cs = bufs_chain bufs; cur = bufs_cur bufs in
      if cur < length cs \<and> buf_room (cs ! cur) then (HD_OK, bufs\<lparr>bufs_chain := cs[cur := buf_addb x (cs ! cur)]\<rparr>)
      else if cur + 1 < length cs \<and> buf_room (cs ! (cur + 1)) \<and> bf_pos (cs ! (cur + 1)) = bf_last (cs ! (cur + 1))
      then (HD_OK, bufs\<lparr>bufs_chain := cs[cur + 1 := buf_addb x (cs ! (cur + 1))], bufs_cur := cur + 1\<rparr>)
      else (HD_OK, bufs\<lparr>bufs_chain := take (cur + 1) cs @ [mk_buf (replicate 10 0) [x] (replicate 20 0)],
                        bufs_cur := length (take (cur + 1) cs)\<rparr>))"

fun chain_add :: "nghttp2_bufs \<Rightarrow> byte list \<Rightarrow> hd_rv \<times> nghttp2_bufs" where
  "chain_add bufs [] = (HD_OK, bufs)"
| "chain_add bufs (x # xs) =
     (case chain_addb bufs x of (rv, bufs) \<Rightarrow> if rv = HD_OK then chain_add bufs xs else (rv, bufs))"

definition chain_bufs :: "nghttp2_bufs bufs_lib" where
  "chain_bufs =
     \<lparr>bufs_add = chain_add, bufs_addb = chain_addb, huff_encode_count = length, huff_encode = chain_add,
      bufs_wrap_init = (\<lambda>n. (HD_OK, \<lparr>bufs_chain = [mk_buf [] [] (replicate n 0)], bufs_cur = 0\<rparr>)),
      bufs_len = (\<lambda>b. length (bufs_bytes b))\<rparr>"

lemma buf_room_bytes:
  assumes "buf_room b"
  shows "buf_bytes (buf_addb x b) = buf_bytes b @ [x]"
  using assms
  by (auto simp: buf_room_def buf_bytes_def buf_addb_def Suc_diff_le take_Suc_conv_app_nth drop_update_swap)

lemma take_min_cur: "take (Suc (min (min (length cs) (Suc n)) n)) cs = take (Suc n) cs"
  by (cases "n < length cs") (auto simp: min_def)

lemma chain_addb_bytes:
  assumes "chain_addb bufs x = (HD_OK, bufs')"
  shows "bufs_bytes bufs' = bufs_bytes bufs @ [x]"
  using assms
  by (auto simp: chain_addb_def Let_def bufs_bytes_def take_Suc_conv_app_nth buf_room_bytes buf_bytes_def [of "_ ! _"] take_min_cur
      split: if_splits)

lemma chain_add_bytes: "chain_add bufs xs = (HD_OK, bufs') \<Longrightarrow> bufs_bytes bufs' = bufs_bytes bufs @ xs"
  by (induction xs arbitrary: bufs) (auto simp: chain_addb_bytes split: prod.splits if_splits)

lemma chain_bufs_ok: "bufs_ok chain_bufs bufs_bytes id"
  by (auto simp: bufs_ok_def chain_bufs_def chain_add_bytes chain_addb_bytes)

lemma buf_addb_wf: "buf_room b \<Longrightarrow> buf_wf b \<Longrightarrow> buf_wf (buf_addb x b)" and buf_addb_pos: "bf_pos (buf_addb x b) = bf_pos b"
  by (auto simp: buf_room_def buf_wf_def buf_addb_def)

lemma bufs_keep_refl: "bufs_keep b b" and bufs_keep_trans: "bufs_keep a b \<Longrightarrow> bufs_keep b c \<Longrightarrow> bufs_keep a c"
  by (auto simp: bufs_keep_def)

lemma list_all_update: "list_all P cs \<Longrightarrow> P c \<Longrightarrow> list_all P (cs[i := c])"
  by (auto simp: list_all_iff dest!: set_update_subset_insert [THEN subsetD])

lemma chain_update_wf:
  assumes "bufs_wf bufs" and "i < length (bufs_chain bufs)" and "buf_room (bufs_chain bufs ! i)"
  shows "bufs_wf (bufs\<lparr>bufs_chain := (bufs_chain bufs)[i := buf_addb x (bufs_chain bufs ! i)], bufs_cur := i\<rparr>)"
    and "bf_pos (hd ((bufs_chain bufs)[i := buf_addb x (bufs_chain bufs ! i)])) = bf_pos (hd (bufs_chain bufs))"
proof -
  obtain c cs where cs: "bufs_chain bufs = c # cs" using assms(2) by (cases "bufs_chain bufs") auto
  have "buf_wf (bufs_chain bufs ! i)" using assms(1,2) by (simp add: bufs_wf_def list_all_length)
  then show "bufs_wf (bufs\<lparr>bufs_chain := (bufs_chain bufs)[i := buf_addb x (bufs_chain bufs ! i)], bufs_cur := i\<rparr>)"
  proof (cases i)
    case (Suc j)
    then have "9 \<le> bf_pos (cs ! j)" using assms(1,2) by (simp add: bufs_wf_def cs list_all_length)
    then show ?thesis
      using Suc assms \<open>buf_wf (bufs_chain bufs ! i)\<close> buf_addb_wf [OF assms(3)]
      by (auto simp: bufs_wf_def cs buf_addb_pos intro!: list_all_update)
  qed (use assms buf_addb_wf [OF assms(3)] in \<open>auto simp: bufs_wf_def cs\<close>)
  show "bf_pos (hd ((bufs_chain bufs)[i := buf_addb x (bufs_chain bufs ! i)])) = bf_pos (hd (bufs_chain bufs))"
    by (cases i) (simp_all add: cs buf_addb_pos)
qed

lemma chain_extend_wf:
  assumes "bufs_wf bufs"
  defines "cs \<equiv> take (bufs_cur bufs + 1) (bufs_chain bufs)"
  shows "bufs_wf (bufs\<lparr>bufs_chain := cs @ [mk_buf (replicate 10 0) [x] (replicate 20 0)], bufs_cur := length cs\<rparr>)"
    and "bf_pos (hd (cs @ [mk_buf (replicate 10 0) [x] (replicate 20 0)])) = bf_pos (hd (bufs_chain bufs))"
proof -
  obtain c bs where b: "bufs_chain bufs = c # bs" using assms(1) by (cases "bufs_chain bufs") (auto simp: bufs_wf_def)
  then have cs: "cs = c # take (bufs_cur bufs) bs" by (simp add: cs_def)
  have "list_all P (take n bs)" if "list_all P bs" for P n using that by (auto simp: list_all_iff dest: in_set_takeD)
  then show "bufs_wf (bufs\<lparr>bufs_chain := cs @ [mk_buf (replicate 10 0) [x] (replicate 20 0)], bufs_cur := length cs\<rparr>)"
    using assms(1) by (simp add: bufs_wf_def b cs buf_wf_mk)
  show "bf_pos (hd (cs @ [mk_buf (replicate 10 0) [x] (replicate 20 0)])) = bf_pos (hd (bufs_chain bufs))"
    by (simp add: b cs)
qed

lemma chain_addb_keep: "bufs_keep bufs (snd (chain_addb bufs x))"
  using chain_update_wf [of bufs "bufs_cur bufs" x] chain_update_wf [of bufs "bufs_cur bufs + 1" x] chain_extend_wf [of bufs x]
  by (auto simp: bufs_keep_def chain_addb_def Let_def)

lemma chain_add_keep: "bufs_keep bufs (snd (chain_add bufs xs))"
proof (induction xs arbitrary: bufs)
  case (Cons x xs)
  show ?case
    using chain_addb_keep [of bufs x] Cons [of "snd (chain_addb bufs x)"] bufs_keep_trans by (auto split: prod.splits)
qed (simp add: bufs_keep_refl)

lemma chain_bufs_rel: "bufs_rel chain_bufs bufs_keep"
  unfolding bufs_rel_def
  using bufs_keep_refl bufs_keep_trans chain_addb_keep chain_add_keep by (auto simp: chain_bufs_def)

lemma chain_add_head:
  "length ys \<le> length post \<Longrightarrow> chain_add \<lparr>bufs_chain = mk_buf pre xs post # bs, bufs_cur = 0\<rparr> ys
   = (HD_OK, \<lparr>bufs_chain = mk_buf pre (xs @ ys) (drop (length ys) post) # bs, bufs_cur = 0\<rparr>)"
proof (induction ys arbitrary: xs post)
  case (Cons y ys)
  then obtain z post' where post: "post = z # post'" by (cases post) auto
  have "chain_addb \<lparr>bufs_chain = mk_buf pre xs post # bs, bufs_cur = 0\<rparr> y
      = (HD_OK, \<lparr>bufs_chain = mk_buf pre (xs @ [y]) post' # bs, bufs_cur = 0\<rparr>)"
    by (simp add: chain_addb_def buf_room_def buf_addb_def post mk_buf_def list_update_append)
  then show ?case using Cons by (simp add: post)
qed simp

lemma chain_add_succeeds: "fst (chain_addb bufs x) = HD_OK" "fst (chain_add bufs xs) = HD_OK"
proof -
  show a: "fst (chain_addb bufs x) = HD_OK" for bufs x by (simp add: chain_addb_def Let_def)
  show "fst (chain_add bufs xs) = HD_OK"
  proof (induction xs arbitrary: bufs)
    case (Cons y xs)
    then show ?case using a [of bufs y] by (cases "chain_addb bufs y") simp
  qed simp
qed

lemma chain_bufs_room: "bufs_room chain_bufs bufs_bytes id cap"
  by (simp add: bufs_room_def chain_bufs_def chain_add_succeeds)

lemma chain_deflates:
  assumes "nghttp2_hd_deflate_init2 all_mem 4096 100 = Some d" and "\<forall>nv\<in>set nvs. length (nv_name nv) < 2 ^ 28 \<and> length (nv_value nv) < 2 ^ 28"
  shows "fst (nghttp2_hd_deflate_hd_bufs chain_bufs all_mem d b nvs) = HD_OK"
  using deflate_hd_bufs_room [OF chain_bufs_ok chain_bufs_room all_mem_ok deflate_init_inv(1,3) [OF assms(1)] assms(2), of b] by auto

lemma chain_bufs_add_ok: "bufs_add_ok chain_bufs"
  by (simp add: bufs_add_ok_def chain_bufs_def chain_add_head)

text \<open>A library with these properties.\<close>

definition be_lib :: frame_lib where
  "be_lib =
     \<lparr>fl_put_uint16be = be16, fl_put_uint32be = be32,
      fl_get_uint16 = (\<lambda>xs. of_be16 (xs ! 0) (xs ! 1)),
      fl_get_uint32 = (\<lambda>xs. of_be32 (xs ! 0) (xs ! 1) (xs ! 2) (xs ! 3)),
      fl_cpymem = (\<lambda>xs. xs), fl_buf_len = (\<lambda>b. bf_last b - bf_pos b),
      fl_buf_avail = (\<lambda>b. length (bf_mem b) - bf_last b),
      fl_priority_spec_init = (\<lambda>s w e. \<lparr>ps_stream_id = s, ps_weight = w, ps_exclusive = e\<rparr>),
      fl_priority_spec_default = \<lparr>ps_stream_id = 0, ps_weight = 16, ps_exclusive = False\<rparr>,
      fl_downcase = map (\<lambda>b. if 65 \<le> b \<and> b \<le> 90 then b + 32 else b),
      fl_sizeof_origin_entry = 16\<rparr>"

lemma be_lib_ok: "frame_lib_ok be_lib"
  by (simp add: frame_lib_ok_def be_lib_def)

section \<open>Properties\<close>

text \<open>C14: every frame that has no header block (PRIORITY, RST_STREAM, SETTINGS, PING, GOAWAY, WINDOW_UPDATE,
  ALTSVC, ORIGIN, PRIORITY_UPDATE) survives the wire: initialized with values in range and packed into
  buffers with room for it, it is unpacked from the bytes of the buffers, whatever follows them, as
  the same frame with the bytes that followed. Stream identifiers, weights, settings and increments
  keep their values, and arrays and variable parts their contents.\<close>

theorem frame_roundtrip:
  assumes "frame_lib_ok L" and "bufs_add_ok lib" and "\<forall>n. malloc n"
    and "frame_made f" and "fh_length (frame_hd f) < 2 ^ 24"
    and "9 \<le> length pre" and "fh_length (frame_hd f) \<le> length post"
  shows "\<exists>bufs. pack_frame L lib \<lparr>bufs_chain = mk_buf pre [] post # bs, bufs_cur = 0\<rparr> f = Some (HD_OK, bufs)
    \<and> unpack_frame L malloc (bufs_bytes bufs @ rest) = Some (f, rest)"
proof -
  have "pack_frame L lib (ready_bufs pre post bs) f = Some (HD_OK, packed_bufs (frame_hd f) (payload_of f) pre post bs)"
    using pack_frame_made assms(1,2,4,6,7) made_length by metis
  moreover have "split_frame L ((hd_bytes (frame_hd f) @ payload_of f) @ rest) = Some (frame_hd f, payload_of f, rest)"
    using split_frame_bytes [OF assms(1) made_length [OF assms(4)]] made_length [OF assms(4)] made_hd [OF assms(4)] assms(5) by simp
  moreover have "unpack_payload L malloc (frame_hd f) (payload_of f) = Some f"
    using unpack_payload_made assms(1,3,4) by blast
  ultimately show ?thesis by (simp add: ready_bufs_def unpack_frame_def)
qed

theorem frame_roundtrip_witness:
  "\<exists>bufs. pack_frame be_lib chain_bufs \<lparr>bufs_chain = [mk_buf (replicate 10 0) [] (replicate 20 0)], bufs_cur = 0\<rparr>
       (F_goaway (nghttp2_frame_goaway_init 5 2 (bytes ''bye''))) = Some (HD_OK, bufs)
     \<and> unpack_frame be_lib (\<lambda>_. True) (bufs_bytes bufs @ [7]) = Some (F_goaway (nghttp2_frame_goaway_init 5 2 (bytes ''bye'')), [7])"
proof -
  let ?f = "F_goaway (nghttp2_frame_goaway_init 5 2 (bytes ''bye''))"
  have made: "frame_made ?f" by (rule frame_made.goaway) simp
  show ?thesis
    by (rule frame_roundtrip [OF be_lib_ok chain_bufs_add_ok _ made]) (simp_all add: frame_inits)
qed

text \<open>C7: a HEADERS frame carries its header list to the peer: packing it violates no assertion
  and writes nothing out of bounds, and when it succeeds the bytes, whatever follows them, are read
  as a HEADERS frame of the same stream with its CONTINUATION frames, of which exactly the last has
  END_HEADERS. The payload is the priority, if the flag says so, and a header block that the
  inflater of the peer decompresses to the same fields; both ends agree again.\<close>

theorem headers_roundtrip:
  assumes lib: "frame_lib_ok L" "bufs_ok lib bufs_bytes huff" "bufs_rel lib bufs_keep" "huff_contract H" "huff_decodes H huff" "mem_ok mem'"
    and bufs: "bufs_wf \<lparr>bufs_chain = mk_buf pre [] post # bs, bufs_cur = 0\<rparr>" "9 \<le> length pre" "5 \<le> length post"
    and frame: "id_ok s" "flags AND NGHTTP2_FLAG_END_HEADERS \<noteq> 0" "flags AND NGHTTP2_FLAG_PRIORITY \<noteq> 0 \<longrightarrow> pri_ok p"
    and nva: "\<forall>nv\<in>set nva. length (nv_name nv) \<le> 65536 \<and> length (nv_value nv) \<le> 65536"
    and pair: "hpack_pair lib bufs_bytes huff H d i"
  shows "\<exists>rv bufs' f' d'.
    nghttp2_frame_pack_headers L lib mem \<lparr>bufs_chain = mk_buf pre [] post # bs, bufs_cur = 0\<rparr>
      (nghttp2_frame_headers_init L flags s cat (Some p) nva) d = Some (rv, bufs', f', d')
    \<and> (rv = HD_OK \<longrightarrow> (\<exists>h payload g block hs i'.
        (\<forall>rest. read_header_block L (bufs_bytes bufs' @ rest) = Some (h, payload, rest))
        \<and> fh_type h = NGHTTP2_HEADERS \<and> fh_stream_id h = s \<and> fh_flags h OR NGHTTP2_FLAG_END_HEADERS = flags
        \<and> nghttp2_frame_unpack_headers_payload L
            \<lparr>hf_hd = h, hf_padlen = 0, hf_pri_spec = fl_priority_spec_default L, hf_nva = [], hf_cat = cat\<rparr> payload = Some g
        \<and> (flags AND NGHTTP2_FLAG_PRIORITY \<noteq> 0 \<longrightarrow> hf_pri_spec g = p)
        \<and> block = drop (nghttp2_frame_headers_payload_nv_offset g) payload
        \<and> inflate_block H mem' (Suc (length block)) i block = Some (hs, i')
        \<and> map (\<lambda>nv. (nv_name nv, nv_value nv)) hs = map (\<lambda>nv. (nv_name nv, nv_value nv)) nva
        \<and> hpack_pair lib bufs_bytes huff H d' i'))"
proof -
  let ?f = "nghttp2_frame_headers_init L flags s cat (Some p) nva"
  have f: "fh_type (hf_hd ?f) = NGHTTP2_HEADERS" "fh_flags (hf_hd ?f) = flags" "fh_stream_id (hf_hd ?f) = s" "fh_reserved (hf_hd ?f) = 0"
    "hf_nva ?f = nva" "hf_pri_spec ?f = p"
    by (simp_all add: nghttp2_frame_headers_init_def nghttp2_frame_hd_init_def)
  note ready = ready_bufs_def [symmetric]
  obtain b rv d' b' where b: "bufs_bytes b = []" and run: "nghttp2_hd_deflate_hd_bufs lib mem d b nva = (rv, d', b')"
    and packed: "if rv = HD_OK
       then \<exists>bufs' f' h. nghttp2_frame_pack_headers L lib mem (ready_bufs pre post bs) ?f d = Some (HD_OK, bufs', f', d')
         \<and> (\<forall>rest. read_header_block L (bufs_bytes bufs' @ rest)
              = Some (h, (if flags AND NGHTTP2_FLAG_PRIORITY \<noteq> 0 then pri_bytes p else []) @ bufs_bytes b', rest))
         \<and> fh_type h = NGHTTP2_HEADERS \<and> fh_stream_id h = s \<and> fh_flags h OR NGHTTP2_FLAG_END_HEADERS = flags
         \<and> fh_flags h AND NGHTTP2_FLAG_PRIORITY = flags AND NGHTTP2_FLAG_PRIORITY
       else \<exists>bufs' rv'. rv' \<noteq> HD_OK \<and> nghttp2_frame_pack_headers L lib mem (ready_bufs pre post bs) ?f d = Some (rv', bufs', ?f, d')"
    using headers_packed [OF lib(1,3) bufs(1) [unfolded ready] bufs(2,3) frame(1,2) f(1-4), of mem d] unfolding f(5,6) by blast
  show ?thesis
  proof (cases "rv = HD_OK")
    case False
    then show ?thesis unfolding ready using packed by auto
  next
    case True
    let ?pfx = "if flags AND NGHTTP2_FLAG_PRIORITY \<noteq> 0 then pri_bytes p else []"
    obtain bufs' f' h where h: "nghttp2_frame_pack_headers L lib mem (ready_bufs pre post bs) ?f d = Some (HD_OK, bufs', f', d')"
      "\<forall>rest. read_header_block L (bufs_bytes bufs' @ rest) = Some (h, ?pfx @ bufs_bytes b', rest)"
      "fh_type h = NGHTTP2_HEADERS" "fh_stream_id h = s" "fh_flags h OR NGHTTP2_FLAG_END_HEADERS = flags"
      "fh_flags h AND NGHTTP2_FLAG_PRIORITY = flags AND NGHTTP2_FLAG_PRIORITY"
      using packed True by auto
    let ?g = "\<lparr>hf_hd = h, hf_padlen = 0, hf_pri_spec = fl_priority_spec_default L, hf_nva = [], hf_cat = cat\<rparr>"
    have "\<exists>g. nghttp2_frame_unpack_headers_payload L ?g (?pfx @ bufs_bytes b') = Some g \<and> hf_hd g = h
        \<and> (flags AND NGHTTP2_FLAG_PRIORITY \<noteq> 0 \<longrightarrow> hf_pri_spec g = p)"
      using unpack_priority_spec_bytes [OF lib(1), of p "bufs_bytes b'"] frame(3) h(6)
      by (cases "flags AND NGHTTP2_FLAG_PRIORITY = 0") (simp_all add: nghttp2_frame_unpack_headers_payload_def)
    then obtain g where g: "nghttp2_frame_unpack_headers_payload L ?g (?pfx @ bufs_bytes b') = Some g" "hf_hd g = h"
        "flags AND NGHTTP2_FLAG_PRIORITY \<noteq> 0 \<longrightarrow> hf_pri_spec g = p" by blast
    have off: "bufs_bytes b' = drop (nghttp2_frame_headers_payload_nv_offset g) (?pfx @ bufs_bytes b')"
      using g(2) h(6) by (simp add: nghttp2_frame_headers_payload_nv_offset_def nghttp2_frame_priority_len_def)
    obtain bs' hs i' where "bufs_bytes b' = bufs_bytes b @ bs'" "inflate_block H mem' (Suc (length bs')) i bs' = Some (hs, i')"
      "map nv_pair hs = map nv_pair nva" and pair': "hpack_pair lib bufs_bytes huff H d' i'"
      by (rule hpack_pair_step [OF lib(2,4-6) pair short_fields [OF nva] run [unfolded True]])
    then have i': "inflate_block H mem' (Suc (length (bufs_bytes b'))) i (bufs_bytes b') = Some (hs, i')"
      "map (\<lambda>nv. (nv_name nv, nv_value nv)) hs = map (\<lambda>nv. (nv_name nv, nv_value nv)) nva"
      using b by (simp_all add: nv_pair_def [abs_def])
    show ?thesis
      unfolding ready
      by (intro exI [of _ HD_OK] exI [of _ bufs'] exI [of _ f'] exI [of _ d'] exI [of _ h] exI [of _ "?pfx @ bufs_bytes b'"]
          exI [of _ g] exI [of _ "bufs_bytes b'"] exI [of _ hs] exI [of _ i'] conjI impI h(1-5) g(1) off i' pair' g(3) [rule_format])
  qed
qed

lemma chain_pair:
  obtains d i where "nghttp2_hd_deflate_init2 all_mem 4096 100 = Some d" and "nghttp2_hd_inflate_init plain_huff all_mem 4096 = Some i"
    and "hpack_pair chain_bufs bufs_bytes id plain_huff d i"
proof -
  obtain d where d: "nghttp2_hd_deflate_init2 all_mem 4096 100 = Some d" using deflate_init_ex by blast
  obtain i where i: "nghttp2_hd_inflate_init plain_huff all_mem 4096 = Some i"
    by (simp add: nghttp2_hd_inflate_init_def hd_context_init_def hd_ringbuf_init_def Let_def all_mem_def)
  have "hpack_pair chain_bufs bufs_bytes id plain_huff d i" by (rule hpack_pair.init [OF d i]) simp
  then show thesis using that d i by blast
qed

theorem headers_roundtrip_witness:
  "\<exists>d bufs' f' d' h payload rest. nghttp2_hd_deflate_init2 all_mem 4096 100 = Some d
     \<and> nghttp2_frame_pack_headers be_lib chain_bufs all_mem
         \<lparr>bufs_chain = [mk_buf (replicate 10 0) [] (replicate 8 0), mk_buf (replicate 10 0) [] (replicate 20 0)], bufs_cur = 0\<rparr>
         (nghttp2_frame_headers_init be_lib 0x24 3 NGHTTP2_HCAT_REQUEST (Some \<lparr>ps_stream_id = 1, ps_weight = 7, ps_exclusive = True\<rparr>)
            [\<lparr>nv_name = bytes ''te'', nv_value = bytes ''trailers'', nv_no_index = False\<rparr>]) d = Some (HD_OK, bufs', f', d')
     \<and> read_header_block be_lib (bufs_bytes bufs' @ [7]) = Some (h, payload, rest) \<and> fh_type h = NGHTTP2_HEADERS \<and> rest = [7]"
proof -
  let ?p = "\<lparr>ps_stream_id = 1, ps_weight = 7, ps_exclusive = True\<rparr>"
  let ?nva = "[\<lparr>nv_name = bytes ''te'', nv_value = bytes ''trailers'', nv_no_index = False\<rparr>]"
  let ?f = "nghttp2_frame_headers_init be_lib 0x24 3 NGHTTP2_HCAT_REQUEST (Some ?p) ?nva"
  let ?bs = "[mk_buf (replicate 10 0) [] (replicate 20 0)]"
  obtain d i where d: "nghttp2_hd_deflate_init2 all_mem 4096 100 = Some d" and pair: "hpack_pair chain_bufs bufs_bytes id plain_huff d i"
    by (rule chain_pair)
  have wf: "bufs_wf \<lparr>bufs_chain = mk_buf (replicate 10 0) [] (replicate 8 0) # ?bs, bufs_cur = 0\<rparr>"
    by (simp add: bufs_wf_def buf_wf_mk)
  have ids: "id_ok 3" "(0x24 :: byte) AND NGHTTP2_FLAG_END_HEADERS \<noteq> 0" by simp_all
  have hd: "fh_type (hf_hd ?f) = NGHTTP2_HEADERS" "fh_flags (hf_hd ?f) = 0x24" "fh_stream_id (hf_hd ?f) = 3" "fh_reserved (hf_hd ?f) = 0"
    "hf_nva ?f = ?nva" by (simp_all add: nghttp2_frame_headers_init_def nghttp2_frame_hd_init_def)
  have deflates: "fst (nghttp2_hd_deflate_hd_bufs chain_bufs all_mem d b ?nva) = HD_OK" for b by (rule chain_deflates [OF d]) simp
  have ok: "\<exists>bufs' f' d'. nghttp2_frame_pack_headers be_lib chain_bufs all_mem
      \<lparr>bufs_chain = mk_buf (replicate 10 0) [] (replicate 8 0) # ?bs, bufs_cur = 0\<rparr> ?f d = Some (HD_OK, bufs', f', d')"
  proof -
    note packed = headers_packed [OF be_lib_ok chain_bufs_rel wf [folded ready_bufs_def] _ _ ids hd(1-4), of all_mem d, unfolded hd(5)]
    have "9 \<le> length (replicate 10 (0 :: byte))" "5 \<le> length (replicate 8 (0 :: byte))" "4 \<le> length (replicate 8 (0 :: byte))" by simp_all
    from packed [OF this(1,2)] obtain b rv d' b' where r: "nghttp2_hd_deflate_hd_bufs chain_bufs all_mem d b ?nva = (rv, d', b')"
      "rv = HD_OK \<Longrightarrow> \<exists>bufs' f'. nghttp2_frame_pack_headers be_lib chain_bufs all_mem
         (ready_bufs (replicate 10 0) (replicate 8 0) ?bs) ?f d = Some (HD_OK, bufs', f', d')"
      by (auto split: if_splits)
    have "rv = HD_OK" using deflates [of b] unfolding r(1) by simp
    then show ?thesis using r(2) unfolding ready_bufs_def by blast
  qed
  from headers_roundtrip [OF be_lib_ok chain_bufs_ok chain_bufs_rel plain_huff_contract plain_huff_decodes all_mem_ok wf _ _ ids _ _ pair,
      of ?p ?nva all_mem NGHTTP2_HCAT_REQUEST]
  obtain rv bufs' f' d' where r: "nghttp2_frame_pack_headers be_lib chain_bufs all_mem
      \<lparr>bufs_chain = mk_buf (replicate 10 0) [] (replicate 8 0) # ?bs, bufs_cur = 0\<rparr> ?f d = Some (rv, bufs', f', d')"
    "rv = HD_OK \<longrightarrow> (\<exists>h payload. (\<forall>rest. read_header_block be_lib (bufs_bytes bufs' @ rest) = Some (h, payload, rest)) \<and> fh_type h = NGHTTP2_HEADERS)"
    by (simp add: pri_ok_def) blast
  then have "rv = HD_OK" using ok by auto
  then show ?thesis using d r by blast
qed

text \<open>C15: a PUSH_PROMISE frame carries the promised stream and its header list to the peer: packing it
  violates no assertion and writes nothing out of bounds, and when it succeeds the bytes, whatever
  follows them, are read as a PUSH_PROMISE frame of the same stream with its CONTINUATION frames.
  \<open>nghttp2_frame_unpack_push_promise_payload\<close> finds the promised stream in its payload, and the
  inflater of the peer decompresses what is behind it to the same fields; both ends agree again.\<close>

theorem push_promise_roundtrip:
  assumes lib: "frame_lib_ok L" "bufs_ok lib bufs_bytes huff" "bufs_rel lib bufs_keep" "huff_contract H" "huff_decodes H huff" "mem_ok mem'"
    and bufs: "bufs_wf \<lparr>bufs_chain = mk_buf pre [] post # bs, bufs_cur = 0\<rparr>" "9 \<le> length pre" "4 \<le> length post"
    and frame: "id_ok s" "flags AND NGHTTP2_FLAG_END_HEADERS \<noteq> 0" "id_ok promised"
    and nva: "\<forall>nv\<in>set nva. length (nv_name nv) \<le> 65536 \<and> length (nv_value nv) \<le> 65536"
    and pair: "hpack_pair lib bufs_bytes huff H d i"
  shows "\<exists>rv bufs' f' d'.
    nghttp2_frame_pack_push_promise L lib mem \<lparr>bufs_chain = mk_buf pre [] post # bs, bufs_cur = 0\<rparr>
      (nghttp2_frame_push_promise_init flags s promised nva) d = Some (rv, bufs', f', d')
    \<and> (rv = HD_OK \<longrightarrow> (\<exists>h payload g hs i'.
        (\<forall>rest. read_header_block L (bufs_bytes bufs' @ rest) = Some (h, payload, rest))
        \<and> fh_type h = NGHTTP2_PUSH_PROMISE \<and> fh_stream_id h = s \<and> fh_flags h OR NGHTTP2_FLAG_END_HEADERS = flags
        \<and> nghttp2_frame_unpack_push_promise_payload L
            \<lparr>ppf_hd = h, ppf_padlen = 0, ppf_nva = [], ppf_promised_stream_id = 0, ppf_reserved = 0\<rparr> payload = Some g
        \<and> ppf_promised_stream_id g = promised
        \<and> inflate_block H mem' (Suc (length (drop 4 payload))) i (drop 4 payload) = Some (hs, i')
        \<and> map (\<lambda>nv. (nv_name nv, nv_value nv)) hs = map (\<lambda>nv. (nv_name nv, nv_value nv)) nva
        \<and> hpack_pair lib bufs_bytes huff H d' i'))"
proof -
  let ?f = "nghttp2_frame_push_promise_init flags s promised nva"
  have f: "fh_type (ppf_hd ?f) = NGHTTP2_PUSH_PROMISE" "fh_flags (ppf_hd ?f) = flags" "fh_stream_id (ppf_hd ?f) = s"
    "fh_reserved (ppf_hd ?f) = 0" "ppf_nva ?f = nva" "ppf_promised_stream_id ?f = promised"
    by (simp_all add: nghttp2_frame_push_promise_init_def nghttp2_frame_hd_init_def)
  note ready = ready_bufs_def [symmetric]
  obtain b rv d' b' where b: "bufs_bytes b = []" and run: "nghttp2_hd_deflate_hd_bufs lib mem d b nva = (rv, d', b')"
    and packed: "if rv = HD_OK
       then \<exists>bufs' f' h. nghttp2_frame_pack_push_promise L lib mem (ready_bufs pre post bs) ?f d = Some (HD_OK, bufs', f', d')
         \<and> (\<forall>rest. read_header_block L (bufs_bytes bufs' @ rest) = Some (h, be32 promised @ bufs_bytes b', rest))
         \<and> fh_type h = NGHTTP2_PUSH_PROMISE \<and> fh_stream_id h = s \<and> fh_flags h OR NGHTTP2_FLAG_END_HEADERS = flags
       else \<exists>bufs' rv'. rv' \<noteq> HD_OK \<and> nghttp2_frame_pack_push_promise L lib mem (ready_bufs pre post bs) ?f d = Some (rv', bufs', ?f, d')"
    using push_promise_packed [OF lib(1,3) bufs(1) [unfolded ready] bufs(2,3) frame(1,2) f(1-4), of mem d] unfolding f(5,6) by blast
  show ?thesis
  proof (cases "rv = HD_OK")
    case False
    then show ?thesis unfolding ready using packed by auto
  next
    case True
    obtain bufs' f' h where h: "nghttp2_frame_pack_push_promise L lib mem (ready_bufs pre post bs) ?f d = Some (HD_OK, bufs', f', d')"
      "\<forall>rest. read_header_block L (bufs_bytes bufs' @ rest) = Some (h, be32 promised @ bufs_bytes b', rest)"
      "fh_type h = NGHTTP2_PUSH_PROMISE" "fh_stream_id h = s" "fh_flags h OR NGHTTP2_FLAG_END_HEADERS = flags"
      using packed True by auto
    let ?g = "\<lparr>ppf_hd = h, ppf_padlen = 0, ppf_nva = [], ppf_promised_stream_id = 0, ppf_reserved = 0\<rparr>"
    have "fl_get_uint32 L (take 4 (be32 promised @ bufs_bytes b')) AND NGHTTP2_STREAM_ID_MASK = promised"
      using lib(1) frame(3) by (simp add: frame_lib_okD)
    then obtain g where g: "nghttp2_frame_unpack_push_promise_payload L ?g (be32 promised @ bufs_bytes b') = Some g"
      "ppf_promised_stream_id g = promised"
      by (simp add: nghttp2_frame_unpack_push_promise_payload_def)
    obtain bs' hs i' where "bufs_bytes b' = bufs_bytes b @ bs'" "inflate_block H mem' (Suc (length bs')) i bs' = Some (hs, i')"
      "map nv_pair hs = map nv_pair nva" and pair': "hpack_pair lib bufs_bytes huff H d' i'"
      by (rule hpack_pair_step [OF lib(2,4-6) pair short_fields [OF nva] run [unfolded True]])
    then have i': "inflate_block H mem' (Suc (length (drop 4 (be32 promised @ bufs_bytes b')))) i (drop 4 (be32 promised @ bufs_bytes b')) = Some (hs, i')"
      "map (\<lambda>nv. (nv_name nv, nv_value nv)) hs = map (\<lambda>nv. (nv_name nv, nv_value nv)) nva"
      using b by (simp_all add: nv_pair_def [abs_def])
    show ?thesis
      unfolding ready
      by (intro exI [of _ HD_OK] exI [of _ bufs'] exI [of _ f'] exI [of _ d'] exI [of _ h] exI [of _ "be32 promised @ bufs_bytes b'"]
          exI [of _ g] exI [of _ hs] exI [of _ i'] conjI impI h g i' pair')
  qed
qed

theorem push_promise_roundtrip_witness:
  "\<exists>d bufs' f' d' h payload g. nghttp2_hd_deflate_init2 all_mem 4096 100 = Some d
     \<and> nghttp2_frame_pack_push_promise be_lib chain_bufs all_mem
         \<lparr>bufs_chain = [mk_buf (replicate 10 0) [] (replicate 8 0)], bufs_cur = 0\<rparr>
         (nghttp2_frame_push_promise_init 4 3 8
            [\<lparr>nv_name = bytes ''te'', nv_value = bytes ''trailers'', nv_no_index = False\<rparr>]) d = Some (HD_OK, bufs', f', d')
     \<and> read_header_block be_lib (bufs_bytes bufs' @ [7]) = Some (h, payload, [7])
     \<and> nghttp2_frame_unpack_push_promise_payload be_lib
         \<lparr>ppf_hd = h, ppf_padlen = 0, ppf_nva = [], ppf_promised_stream_id = 0, ppf_reserved = 0\<rparr> payload = Some g
     \<and> ppf_promised_stream_id g = 8"
proof -
  let ?nva = "[\<lparr>nv_name = bytes ''te'', nv_value = bytes ''trailers'', nv_no_index = False\<rparr>]"
  let ?f = "nghttp2_frame_push_promise_init 4 3 8 ?nva"
  let ?bufs = "\<lparr>bufs_chain = [mk_buf (replicate 10 0) [] (replicate 8 0)], bufs_cur = 0\<rparr>"
  obtain d i where d: "nghttp2_hd_deflate_init2 all_mem 4096 100 = Some d" and pair: "hpack_pair chain_bufs bufs_bytes id plain_huff d i"
    by (rule chain_pair)
  have wf: "bufs_wf ?bufs" by (simp add: bufs_wf_def buf_wf_mk)
  have ids: "id_ok 3" "(4 :: byte) AND NGHTTP2_FLAG_END_HEADERS \<noteq> 0" by simp_all
  have hd: "fh_type (ppf_hd ?f) = NGHTTP2_PUSH_PROMISE" "fh_flags (ppf_hd ?f) = 4" "fh_stream_id (ppf_hd ?f) = 3" "fh_reserved (ppf_hd ?f) = 0"
    "ppf_nva ?f = ?nva" by (simp_all add: nghttp2_frame_push_promise_init_def nghttp2_frame_hd_init_def)
  have deflates: "fst (nghttp2_hd_deflate_hd_bufs chain_bufs all_mem d b ?nva) = HD_OK" for b by (rule chain_deflates [OF d]) simp
  have ok: "\<exists>bufs' f' d'. nghttp2_frame_pack_push_promise be_lib chain_bufs all_mem ?bufs ?f d = Some (HD_OK, bufs', f', d')"
  proof -
    note packed = push_promise_packed [OF be_lib_ok chain_bufs_rel wf [folded ready_bufs_def] _ _ ids hd(1-4), of all_mem d, unfolded hd(5)]
    have "9 \<le> length (replicate 10 (0 :: byte))" "5 \<le> length (replicate 8 (0 :: byte))" "4 \<le> length (replicate 8 (0 :: byte))" by simp_all
    from packed [OF this(1,3)] obtain b rv d' b' where r: "nghttp2_hd_deflate_hd_bufs chain_bufs all_mem d b ?nva = (rv, d', b')"
      "rv = HD_OK \<Longrightarrow> \<exists>bufs' f'. nghttp2_frame_pack_push_promise be_lib chain_bufs all_mem
         (ready_bufs (replicate 10 0) (replicate 8 0) []) ?f d = Some (HD_OK, bufs', f', d')"
      by (auto split: if_splits)
    have "rv = HD_OK" using deflates [of b] unfolding r(1) by simp
    then show ?thesis using r(2) unfolding ready_bufs_def by blast
  qed
  from push_promise_roundtrip [OF be_lib_ok chain_bufs_ok chain_bufs_rel plain_huff_contract plain_huff_decodes all_mem_ok wf _ _ ids _ _ pair,
      of 8 ?nva all_mem]
  obtain rv bufs' f' d' where r: "nghttp2_frame_pack_push_promise be_lib chain_bufs all_mem ?bufs ?f d = Some (rv, bufs', f', d')"
    "rv = HD_OK \<longrightarrow> (\<exists>h payload g. (\<forall>rest. read_header_block be_lib (bufs_bytes bufs' @ rest) = Some (h, payload, rest))
       \<and> nghttp2_frame_unpack_push_promise_payload be_lib
         \<lparr>ppf_hd = h, ppf_padlen = 0, ppf_nva = [], ppf_promised_stream_id = 0, ppf_reserved = 0\<rparr> payload = Some g
       \<and> ppf_promised_stream_id g = 8)"
    by simp blast
  then have "rv = HD_OK" using ok by auto
  then show ?thesis using d r by blast
qed

text \<open>C30: padding hides behind the frame: with room for it, adding \<open>padlen\<close> bytes to a packed frame
  gives bytes that are read as one frame, with the length and the flag of a padded frame, whose
  payload starts with the length of the padding and ends with zeros; what is between them, as
  \<open>nghttp2_frame_trail_padlen\<close> tells the receiver, is the payload. The frame header that the caller
  keeps is updated to the one that is sent. This is for frames whose payload is in the buffer
  (\<open>framehd_only\<close> is not set).\<close>

theorem add_pad_roundtrip:
  assumes "frame_lib_ok L" and "fh_length fhd = length payload" and "length payload + padlen < 2 ^ 24"
    and "id_ok (fh_stream_id fhd)" and "fh_reserved fhd = 0"
    and "0 < padlen" and "padlen \<le> 256" and "pre \<noteq> []" and "padlen - 1 \<le> length post"
  shows "\<exists>bufs' fhd' payload'.
    nghttp2_frame_add_pad L \<lparr>bufs_chain = mk_buf pre (hd_bytes fhd @ payload) post # bs, bufs_cur = 0\<rparr> fhd padlen False = Some (bufs', fhd')
    \<and> split_frame L (bufs_bytes bufs' @ rest) = Some (fhd', payload', rest)
    \<and> fh_type fhd' = fh_type fhd \<and> fh_stream_id fhd' = fh_stream_id fhd \<and> fh_flags fhd' = fh_flags fhd OR NGHTTP2_FLAG_PADDED
    \<and> unat (payload' ! 0) + 1 = padlen
    \<and> take (length payload' - 1 - nghttp2_frame_trail_padlen fhd' padlen) (drop 1 payload') = payload
    \<and> drop (length payload' - nghttp2_frame_trail_padlen fhd' padlen) payload' = replicate (padlen - 1) 0"
proof -
  define pb :: byte where "pb = of_nat (padlen - 1)"
  let ?p = "pb # payload @ replicate (padlen - 1) 0"
  have pad: "nghttp2_frame_add_pad L \<lparr>bufs_chain = mk_buf pre (hd_bytes fhd @ payload) post # bs, bufs_cur = 0\<rparr> fhd padlen False
      = Some (\<lparr>bufs_chain = mk_buf (butlast pre) (hd_bytes (padded_hd fhd padlen) @ ?p) (drop (padlen - 1) post) # bs, bufs_cur = 0\<rparr>,
              padded_hd fhd padlen)"
    using frame_set_pad_mk [OF assms(1), of fhd padlen pre post False payload, folded pb_def] assms
    by (simp add: nghttp2_frame_add_pad_def frame_lib_okD padded_hd_def)
  have "split_frame L (hd_bytes (padded_hd fhd padlen) @ ?p @ rest) = Some (padded_hd fhd padlen, ?p, rest)"
    by (rule split_frame_bytes) (use assms in \<open>simp_all add: padded_hd_def\<close>)
  moreover have "unat pb + 1 = padlen"
    unfolding pb_def by (subst unat_of_nat) (use assms in simp)
  moreover have "nghttp2_frame_trail_padlen (padded_hd fhd padlen) padlen = padlen - 1"
    using assms(6) padded_bits by (simp add: nghttp2_frame_trail_padlen_def padded_hd_def)
  ultimately show ?thesis using pad by (simp add: bufs_bytes_def padded_hd_def)
qed

theorem add_pad_roundtrip_witness:
  "\<exists>bufs' fhd' payload'.
    nghttp2_frame_add_pad be_lib \<lparr>bufs_chain = [mk_buf [0] (hd_bytes (nghttp2_frame_hd_init 2 0 1 3) @ [65, 66]) [0, 0, 0]], bufs_cur = 0\<rparr>
      (nghttp2_frame_hd_init 2 0 1 3) 4 False = Some (bufs', fhd')
    \<and> split_frame be_lib (bufs_bytes bufs') = Some (fhd', payload', [])
    \<and> take (length payload' - 1 - nghttp2_frame_trail_padlen fhd' 4) (drop 1 payload') = [65, 66]"
  using add_pad_roundtrip [OF be_lib_ok, of "nghttp2_frame_hd_init 2 0 1 3" "[65, 66]" 4 "[0]" "[0, 0, 0]" "[]" "[]"]
  by (auto simp: nghttp2_frame_hd_init_def)

end
