(* ===== verification/Lwip_Ip4_Addr.thy ===== *)
theory Lwip_Ip4_Addr
  imports Prelude "HOL-Library.Monad_Syntax"
begin

text \<open>
  IPv4 addresses of lwIP (\<open>core/ipv4/ip4_addr.c\<close>): broadcast addresses, netmasks and the text
  form in both directions. Addresses are words of 32 bits in network byte order, that is in the
  order in which they lie in memory.
\<close>

section \<open>What the file takes from \<open>def.h\<close>, \<open>ip4_addr.h\<close> and \<open>netif.h\<close>\<close>

text \<open>
  Character classes and byte order are in headers that are not in the repository.
  \<open>lp_mem\<close> are the bytes of a word in memory, what \<open>(u8_t *)&s_addr\<close> points to.
\<close>

record lwip_port =
  lp_isdigit :: "byte \<Rightarrow> bool"
  lp_isxdigit :: "byte \<Rightarrow> bool"
  lp_islower :: "byte \<Rightarrow> bool"
  lp_isspace :: "byte \<Rightarrow> bool"
  lp_htonl :: "32 word \<Rightarrow> 32 word"
  lp_mem :: "32 word \<Rightarrow> byte list"
  IPADDR_NONE :: "32 word"
  IPADDR_ANY :: "32 word"
  IPADDR_BROADCAST :: "32 word"
  IP4ADDR_STRLEN_MAX :: int
  ip4_addr_netcmp :: "32 word \<Rightarrow> 32 word \<Rightarrow> 32 word \<Rightarrow> bool"

definition be_bytes :: "32 word \<Rightarrow> byte list" where
  "be_bytes w = [ucast (drop_bit 24 w), ucast (drop_bit 16 w), ucast (drop_bit 8 w), ucast w]"

definition port_ok :: "lwip_port \<Rightarrow> bool" where
  "port_ok L \<longleftrightarrow>
     (\<forall>c. lp_isdigit L c \<longleftrightarrow> ch_0 \<le> c \<and> c \<le> ch_9)
     \<and> (\<forall>c. lp_isxdigit L c \<longleftrightarrow> ch_0 \<le> c \<and> c \<le> ch_9 \<or> ch_a \<le> c \<and> c \<le> ch_f \<or> ch_A \<le> c \<and> c \<le> 0x46)
     \<and> (\<forall>c. lp_islower L c \<longleftrightarrow> ch_a \<le> c \<and> c \<le> ch_z)
     \<and> (\<forall>c. lp_isspace L c \<longleftrightarrow> c = ch_space \<or> (HT \<le> c \<and> c \<le> CR))
     \<and> (\<forall>w. lp_htonl L (lp_htonl L w) = w)
     \<and> lp_htonl L 0 = 0
     \<and> (\<forall>w. lp_mem L (lp_htonl L w) = be_bytes w)
     \<and> IPADDR_NONE L = 0xffffffff \<and> IPADDR_ANY L = 0 \<and> IPADDR_BROADCAST L = 0xffffffff \<and> IP4ADDR_STRLEN_MAX L = 16
     \<and> (\<forall>a b m. ip4_addr_netcmp L a b m \<longleftrightarrow> a AND m = b AND m)"

text \<open>The fields of \<open>struct netif\<close> that IPv4 and ARP read.\<close>

record netif =
  ip_addr :: "32 word"
  netmask :: "32 word"
  gw :: "32 word"
  hwaddr :: "byte list"
  hwaddr_len :: nat
  nif_flags :: byte
  num :: nat

definition NETIF_FLAG_BROADCAST :: byte where "NETIF_FLAG_BROADCAST = 0x02"
definition NETIF_FLAG_ETHARP :: byte where "NETIF_FLAG_ETHARP = 0x08"

section \<open>Broadcast addresses and netmasks\<close>

definition ip4_addr_isbroadcast_u32 :: "lwip_port \<Rightarrow> 32 word \<Rightarrow> netif \<Rightarrow> bool" where
  "ip4_addr_isbroadcast_u32 L addr n =
     (if NOT addr = IPADDR_ANY L \<or> addr = IPADDR_ANY L then True
      else if nif_flags n AND NETIF_FLAG_BROADCAST = 0 then False
      else if addr = ip_addr n then False
      else if ip4_addr_netcmp L addr (ip_addr n) (netmask n)
              \<and> addr AND NOT (netmask n) = IPADDR_BROADCAST L AND NOT (netmask n) then True
      else False)"

text \<open>The two loops of \<open>ip4_addr_netmask_valid\<close>: the first zero, then no one after it.\<close>

function netmask_first_zero :: "32 word \<Rightarrow> 32 word \<Rightarrow> 32 word" where
  "netmask_first_zero nm bit1 =
     (if bit1 = 0 then bit1 else if nm AND bit1 = 0 then bit1 else netmask_first_zero nm (drop_bit 1 bit1))"
  by pat_completeness auto
termination
  by (relation "measure (\<lambda>(nm, bit1). unat bit1)")
    (auto simp: drop_bit_eq_div unat_div unat_gt_0)

function netmask_no_one :: "32 word \<Rightarrow> 32 word \<Rightarrow> bool" where
  "netmask_no_one nm bit1 =
     (if bit1 = 0 then True else if nm AND bit1 \<noteq> 0 then False else netmask_no_one nm (drop_bit 1 bit1))"
  by pat_completeness auto
termination
  by (relation "measure (\<lambda>(nm, bit1). unat bit1)")
    (auto simp: drop_bit_eq_div unat_div unat_gt_0)

declare netmask_first_zero.simps [simp del] netmask_no_one.simps [simp del]

definition ip4_addr_netmask_valid :: "lwip_port \<Rightarrow> 32 word \<Rightarrow> bool" where
  "ip4_addr_netmask_valid L nm =
     (let nm_hostorder = lp_htonl L nm;
          first = netmask_first_zero nm_hostorder (push_bit 31 1)
      in netmask_no_one nm_hostorder first)"

section \<open>Text to address\<close>

text \<open>\<open>*cp\<close> for a string that ends with its list: the terminating null byte is not in it.\<close>

definition at_cp :: "byte list \<Rightarrow> byte" where
  "at_cp s = (case s of [] \<Rightarrow> NUL | c # _ \<Rightarrow> c)"

fun ip4_digits :: "lwip_port \<Rightarrow> nat \<Rightarrow> 32 word \<Rightarrow> byte list \<Rightarrow> 32 word \<times> byte list" where
  "ip4_digits L base val [] = (val, [])"
| "ip4_digits L base val (c # cp) =
     (if lp_isdigit L c then
        if base = 8 \<and> (ucast (c - ch_0) :: 32 word) \<ge> 8 then (val, c # cp)
        else ip4_digits L base (val * of_nat base + ucast (c - ch_0)) cp
      else if base = 16 \<and> lp_isxdigit L c then
        ip4_digits L base (push_bit 4 val OR ucast (c + 10 - (if lp_islower L c then ch_a else ch_A))) cp
      else (val, c # cp))"

definition ip4_number :: "lwip_port \<Rightarrow> byte list \<Rightarrow> (32 word \<times> byte list) option" where
  "ip4_number L cp =
     (if \<not> lp_isdigit L (at_cp cp) then None
      else if at_cp cp = ch_0 then
        (let cp = tl cp in
         if at_cp cp = 0x78 \<or> at_cp cp = 0x58 then Some (ip4_digits L 16 0 (tl cp))
         else Some (ip4_digits L 8 0 cp))
      else Some (ip4_digits L 10 0 cp))"

function ip4_parts ::
  "lwip_port \<Rightarrow> 32 word list \<Rightarrow> byte list \<Rightarrow> (32 word list \<times> 32 word \<times> byte list) option"
where
  "ip4_parts L parts cp =
     (case ip4_number L cp of
        None \<Rightarrow> None
      | Some (val, cp) \<Rightarrow>
          if at_cp cp = ch_dot then
            if length parts \<ge> 3 then None else ip4_parts L (parts @ [val]) (tl cp)
          else Some (parts, val, cp))"
  by pat_completeness auto
termination by (relation "measure (\<lambda>(L, parts, cp). 4 - length parts)") auto

declare ip4_parts.simps [simp del]

text \<open>The \<open>switch\<close> on the number of parts.\<close>

definition ip4_concoct :: "32 word list \<Rightarrow> 32 word \<Rightarrow> 32 word option" where
  "ip4_concoct parts val =
     (case parts of
        [] \<Rightarrow> Some val
      | [p0] \<Rightarrow>
          if val > 0xffffff then None
          else if p0 > 0xff then None
          else Some (val OR push_bit 24 p0)
      | [p0, p1] \<Rightarrow>
          if val > 0xffff then None
          else if p0 > 0xff \<or> p1 > 0xff then None
          else Some (val OR (push_bit 24 p0 OR push_bit 16 p1))
      | [p0, p1, p2] \<Rightarrow>
          if val > 0xff then None
          else if p0 > 0xff \<or> p1 > 0xff \<or> p2 > 0xff then None
          else Some (val OR (push_bit 24 p0 OR push_bit 16 p1 OR push_bit 8 p2))
      | _ \<Rightarrow> None)"

text \<open>\<open>None\<close> is the result 0, \<open>Some\<close> the result 1 with the address that is stored.\<close>

definition ip4addr_aton :: "lwip_port \<Rightarrow> byte list \<Rightarrow> 32 word option" where
  "ip4addr_aton L cp =
     (case ip4_parts L [] cp of
        None \<Rightarrow> None
      | Some (parts, val, cp) \<Rightarrow>
          if at_cp cp \<noteq> NUL \<and> \<not> lp_isspace L (at_cp cp) then None
          else map_option (lp_htonl L) (ip4_concoct parts val))"

definition ipaddr_addr :: "lwip_port \<Rightarrow> byte list \<Rightarrow> 32 word" where
  "ipaddr_addr L cp = (case ip4addr_aton L cp of Some val \<Rightarrow> val | None \<Rightarrow> IPADDR_NONE L)"

section \<open>Address to text\<close>

lemma unat_numeral_10: "unat (10 :: byte) = 10"
  by simp

text \<open>The digits of a byte in \<open>inv\<close>, the last first. The array has room for three.\<close>

function ip4_inv :: "byte \<Rightarrow> byte list" where
  "ip4_inv ap =
     (let rem = ap mod 10; ap = ap div 10; inv = ch_0 + rem in
      if ap \<noteq> 0 then inv # ip4_inv ap else [inv])"
  by pat_completeness auto
termination
proof (relation "measure unat")
  fix ap rem q inv :: byte
  assume "q = ap div 10" and "q \<noteq> 0"
  then have "0 < unat ap div 10" by (metis unat_div unat_gt_0 unat_numeral_10)
  then show "(q, ap) \<in> measure unat" using \<open>q = ap div 10\<close> by (simp add: unat_div)
qed simp

declare ip4_inv.simps [simp del]

text \<open>\<open>if (len++ >= buflen) return NULL; *rp++ = c\<close>: the list is what lies in \<open>buf\<close>, its length
  is \<open>len\<close>.\<close>

definition ntoa_put :: "int \<Rightarrow> byte \<Rightarrow> byte list \<Rightarrow> byte list option" where
  "ntoa_put buflen c buf = (if int (length buf) \<ge> buflen then None else Some (buf @ [c]))"

fun ntoa_puts :: "int \<Rightarrow> byte list \<Rightarrow> byte list \<Rightarrow> byte list option" where
  "ntoa_puts buflen [] buf = Some buf"
| "ntoa_puts buflen (c # cs) buf = do { buf \<leftarrow> ntoa_put buflen c buf; ntoa_puts buflen cs buf }"

fun ip4_ntoa_loop :: "int \<Rightarrow> byte list \<Rightarrow> byte list \<Rightarrow> byte list option" where
  "ip4_ntoa_loop buflen [] buf = Some buf"
| "ip4_ntoa_loop buflen (ap # aps) buf =
     do {
       buf \<leftarrow> ntoa_puts buflen (rev (ip4_inv ap)) buf;
       buf \<leftarrow> ntoa_put buflen ch_dot buf;
       ip4_ntoa_loop buflen aps buf
     }"

text \<open>\<open>None\<close> is \<open>NULL\<close>; otherwise the bytes of the buffer, the null byte over the last dot.\<close>

definition ip4addr_ntoa_r :: "lwip_port \<Rightarrow> 32 word \<Rightarrow> int \<Rightarrow> byte list option" where
  "ip4addr_ntoa_r L addr buflen =
     do {
       buf \<leftarrow> ip4_ntoa_loop buflen (lp_mem L addr) [];
       Some (buf[length buf - 1 := NUL])
     }"

definition ip4addr_ntoa :: "lwip_port \<Rightarrow> 32 word \<Rightarrow> byte list option" where
  "ip4addr_ntoa L addr = ip4addr_ntoa_r L addr (IP4ADDR_STRLEN_MAX L)"

section \<open>Two ports\<close>

text \<open>A machine that stores the low byte first, and one that stores the high byte first.\<close>

definition swap32 :: "32 word \<Rightarrow> 32 word" where
  "swap32 w =
     push_bit 24 (take_bit 8 w) OR push_bit 16 (take_bit 8 (drop_bit 8 w))
     OR push_bit 8 (take_bit 8 (drop_bit 16 w)) OR drop_bit 24 w"

definition be_port :: lwip_port where
  "be_port =
     \<lparr>lp_isdigit = (\<lambda>c. ch_0 \<le> c \<and> c \<le> ch_9),
      lp_isxdigit = (\<lambda>c. ch_0 \<le> c \<and> c \<le> ch_9 \<or> ch_a \<le> c \<and> c \<le> ch_f \<or> ch_A \<le> c \<and> c \<le> 0x46),
      lp_islower = (\<lambda>c. ch_a \<le> c \<and> c \<le> ch_z),
      lp_isspace = (\<lambda>c. c = ch_space \<or> (HT \<le> c \<and> c \<le> CR)),
      lp_htonl = (\<lambda>w. w), lp_mem = be_bytes,
      IPADDR_NONE = 0xffffffff, IPADDR_ANY = 0, IPADDR_BROADCAST = 0xffffffff, IP4ADDR_STRLEN_MAX = 16,
      ip4_addr_netcmp = (\<lambda>a b m. a AND m = b AND m)\<rparr>"

definition le_port :: lwip_port where
  "le_port = be_port\<lparr>lp_htonl := swap32, lp_mem := rev \<circ> be_bytes\<rparr>"

section \<open>The ports meet their contract\<close>

lemma bit_swap32:
  "n < 32 \<Longrightarrow> bit (swap32 w) n =
     bit w (if n < 8 then n + 24 else if n < 16 then n + 8 else if n < 24 then n - 8 else n - 24)"
  unfolding swap32_def by (auto simp: bit_simps algebra_simps dest: bit_imp_le_length)

lemma swap32_swap32: "swap32 (swap32 w) = w"
  by (rule bit_word_eqI) (auto simp: bit_swap32)

lemma swap32_bytes: "rev (be_bytes (swap32 w)) = be_bytes w"
  unfolding be_bytes_def by (auto intro!: bit_word_eqI simp: bit_simps bit_swap32 algebra_simps)

lemma be_port_ok: "port_ok be_port"
  by (simp add: port_ok_def be_port_def)

lemma le_port_ok: "port_ok le_port"
  using swap32_swap32 by (simp add: port_ok_def be_port_def le_port_def swap32_bytes swap32_def [of 0])

section \<open>Netmasks\<close>

lemma drop_push_1: "k < 31 \<Longrightarrow> drop_bit (Suc 0) (2 * 2 ^ k :: 32 word) = 2 ^ k"
proof -
  assume "k < 31"
  then have "drop_bit (Suc 0) (push_bit (Suc k) 1 :: 32 word) = push_bit k 1"
    by (intro bit_word_eqI) (auto simp: bit_simps)
  then show ?thesis by (simp add: push_bit_of_1)
qed

lemma push_1_nonzero: "k < 32 \<Longrightarrow> push_bit k (1 :: 32 word) \<noteq> 0"
  by (simp add: push_bit_of_1)

lemma netmask_no_one_iff:
  "k < 32 \<Longrightarrow> netmask_no_one nm (push_bit k 1) \<longleftrightarrow> (\<forall>j\<le>k. \<not> bit nm j)"
proof (induction k)
  case 0
  then show ?case
    using push_1_nonzero [of 0] and_push_bit_1 [of nm 0]
    by (subst netmask_no_one.simps) (auto simp: netmask_no_one.simps)
next
  case (Suc k)
  then show ?case
    using push_1_nonzero [of "Suc k"] and_push_bit_1 [of nm "Suc k"]
    by (subst netmask_no_one.simps) (auto simp: drop_push_1 le_Suc_eq)
qed

lemma netmask_loops_iff:
  "k < 32 \<Longrightarrow> netmask_no_one nm (netmask_first_zero nm (push_bit k 1))
     \<longleftrightarrow> (\<exists>n\<le>Suc k. \<forall>j\<le>k. bit nm j \<longleftrightarrow> n \<le> j)"
proof (induction k)
  case 0
  have "(\<exists>n\<le>Suc 0. \<forall>j\<le>0. bit nm j \<longleftrightarrow> n \<le> j)" by (cases "bit nm 0") auto
  then show ?case
    using push_1_nonzero [of 0] and_push_bit_1 [of nm 0] netmask_no_one_iff [of 0 nm]
    by (subst netmask_first_zero.simps) (auto simp: netmask_no_one.simps netmask_first_zero.simps)
next
  case (Suc k)
  show ?case
  proof (cases "bit nm (Suc k)")
    case True
    then have "netmask_first_zero nm (push_bit (Suc k) 1) = netmask_first_zero nm (push_bit k 1)"
      using Suc.prems push_1_nonzero [of "Suc k"] and_push_bit_1 [of nm "Suc k"]
      by (subst netmask_first_zero.simps) (simp add: drop_push_1)
    moreover have "(\<exists>n\<le>Suc k. \<forall>j\<le>k. bit nm j \<longleftrightarrow> n \<le> j) \<longleftrightarrow> (\<exists>n\<le>Suc (Suc k). \<forall>j\<le>Suc k. bit nm j \<longleftrightarrow> n \<le> j)"
      using True by (metis le_SucE le_SucI le_refl not_less_eq_eq)
    ultimately show ?thesis using Suc by simp
  next
    case False
    then have "netmask_first_zero nm (push_bit (Suc k) 1) = push_bit (Suc k) 1"
      using Suc.prems push_1_nonzero [of "Suc k"] and_push_bit_1 [of nm "Suc k"]
      by (subst netmask_first_zero.simps) simp
    moreover have "(\<forall>j\<le>Suc k. \<not> bit nm j) \<longleftrightarrow> (\<exists>n\<le>Suc (Suc k). \<forall>j\<le>Suc k. bit nm j \<longleftrightarrow> n \<le> j)"
    proof
      assume "\<forall>j\<le>Suc k. \<not> bit nm j"
      then show "\<exists>n\<le>Suc (Suc k). \<forall>j\<le>Suc k. bit nm j \<longleftrightarrow> n \<le> j"
        by (intro exI [of _ "Suc (Suc k)"]) auto
    next
      assume "\<exists>n\<le>Suc (Suc k). \<forall>j\<le>Suc k. bit nm j \<longleftrightarrow> n \<le> j"
      then obtain n where n: "\<forall>j\<le>Suc k. bit nm j \<longleftrightarrow> n \<le> j" by blast
      then have "\<not> n \<le> Suc k" using False by blast
      then show "\<forall>j\<le>Suc k. \<not> bit nm j" using n by (auto dest: le_trans)
    qed
    ultimately show ?thesis using Suc.prems netmask_no_one_iff [of "Suc k" nm] by simp
  qed
qed

section \<open>Text of a byte\<close>

lemma port_digit: "port_ok L \<Longrightarrow> lp_isdigit L c \<longleftrightarrow> ch_0 \<le> c \<and> c \<le> ch_9"
  by (simp add: port_ok_def)

lemma dec_digit: "(d :: byte) < 10 \<Longrightarrow> ch_0 \<le> ch_0 + d \<and> ch_0 + d \<le> ch_9"
  by (simp add: word_le_nat_alt word_less_nat_alt unat_word_ariths)

lemma ip4_digits_Cons:
  "port_ok L \<Longrightarrow> d < 10 \<Longrightarrow> ip4_digits L 10 v ((ch_0 + d) # s) = ip4_digits L 10 (v * 10 + ucast d) s"
  using dec_digit [of d] by (simp add: port_digit)

lemma mod10_less: "(b :: byte) mod 10 < 10"
  by (simp add: word_less_nat_alt unat_mod)

lemma unat_div_mod10: "unat (b div 10 :: byte) * 10 + unat (b mod 10) = unat b"
  by (simp add: unat_div unat_mod)

lemma ucast_div_mod10: "ucast (b div 10 :: byte) * 10 + ucast (b mod 10) = (ucast b :: 32 word)"
  using arg_cong [OF unat_div_mod10 [of b], of "of_nat :: nat \<Rightarrow> 32 word"]
  by (simp only: of_nat_add of_nat_mult of_nat_numeral of_nat_unat)

lemma ip4_digits_inv:
  "port_ok L \<Longrightarrow> \<exists>m. \<forall>v s. ip4_digits L 10 v (rev (ip4_inv b) @ s) = ip4_digits L 10 (v * m + ucast b) s"
proof (induction b rule: ip4_inv.induct)
  case (1 b)
  show ?case
  proof (cases "b div 10 = 0")
    case True
    then have "b mod 10 = b" by (metis add_0 mult_zero_left word_mod_div_equality)
    then have "b < 10" by (metis mod10_less)
    moreover have "ip4_inv b = [ch_0 + b]"
      using True \<open>b mod 10 = b\<close> by (subst ip4_inv.simps) simp
    ultimately show ?thesis using 1(2) by (intro exI [of _ 10]) (simp add: ip4_digits_Cons del: ip4_digits.simps)
  next
    case False
    then obtain m where m: "\<forall>v s. ip4_digits L 10 v (rev (ip4_inv (b div 10)) @ s)
        = ip4_digits L 10 (v * m + ucast (b div 10)) s"
      using 1(1) [OF refl refl refl] 1(2) by blast
    have "ip4_inv b = (ch_0 + b mod 10) # ip4_inv (b div 10)"
      using False by (subst ip4_inv.simps) simp
    then have "\<forall>v s. ip4_digits L 10 v (rev (ip4_inv b) @ s)
        = ip4_digits L 10 (v * (m * 10) + ucast b) s"
      using m 1(2) mod10_less [of b]
      by (simp add: ip4_digits_Cons ucast_div_mod10 [of b, symmetric] algebra_simps del: ip4_digits.simps)
    then show ?thesis by blast
  qed
qed

text \<open>The first digit is a zero only for zero.\<close>

lemma inv_Cons: "b div 10 \<noteq> 0 \<Longrightarrow> ip4_inv b = (ch_0 + b mod 10) # ip4_inv (b div 10)"
  by (subst ip4_inv.simps) simp

lemma inv_single: "b div 10 = 0 \<Longrightarrow> ip4_inv b = [ch_0 + b] \<and> b < 10"
  using mod10_less [of b] word_mod_div_equality [of b 10] by (subst ip4_inv.simps) simp

lemma inv_nonempty: "ip4_inv b \<noteq> []"
  by (cases "b div 10 = 0") (simp_all add: inv_Cons inv_single)

lemma last_inv: "last (ip4_inv b) = ch_0 \<longleftrightarrow> b = 0"
proof (induction b rule: ip4_inv.induct)
  case (1 b)
  then show ?case
    using inv_nonempty by (cases "b div 10 = 0") (auto simp: inv_Cons inv_single)
qed

lemma length_inv: "unat b < 10 ^ Suc k \<Longrightarrow> length (ip4_inv b) \<le> Suc k"
proof (induction k arbitrary: b)
  case 0
  then have "unat (b div 10) = 0" by (simp add: unat_div)
  then have "b div 10 = 0" by (simp only: unsigned_eq_0_iff)
  then show ?case by (simp add: inv_single)
next
  case (Suc k)
  then have "unat (b div 10) < 10 ^ Suc k" by (simp add: unat_div less_mult_imp_div_less)
  then show ?case using Suc.IH [of "b div 10"] by (cases "b div 10 = 0") (simp_all add: inv_Cons inv_single)
qed

lemma length_inv_3: "length (ip4_inv b) \<le> 3"
  using length_inv [of b 2] unsigned_less [of b, where 'a = nat] by simp

lemma inv_digits: "c \<in> set (ip4_inv b) \<Longrightarrow> ch_0 \<le> c \<and> c \<le> ch_9"
proof (induction b rule: ip4_inv.induct)
  case (1 b)
  then show ?case
    using dec_digit [OF mod10_less [of b]]
    by (subst (asm) (2) ip4_inv.simps) (auto simp: Let_def split: if_splits)
qed


section \<open>Printing\<close>

lemma ntoa_puts_fits:
  "int (length buf + length cs) \<le> buflen \<Longrightarrow> ntoa_puts buflen cs buf = Some (buf @ cs)"
  by (induction cs arbitrary: buf) (auto simp: ntoa_put_def)

definition dotted :: "byte list \<Rightarrow> byte list" where
  "dotted bs = concat (map (\<lambda>b. rev (ip4_inv b) @ [ch_dot]) bs)"

lemma ip4_ntoa_loop_fits:
  "int (length buf + length (dotted bs)) \<le> buflen \<Longrightarrow> ip4_ntoa_loop buflen bs buf = Some (buf @ dotted bs)"
proof (induction bs arbitrary: buf)
  case (Cons b bs)
  then show ?case
    by (simp add: dotted_def ntoa_puts_fits ntoa_put_def)
qed (simp add: dotted_def)

lemma length_dotted: "length (dotted bs) \<le> 4 * length bs"
proof (induction bs)
  case (Cons b bs)
  then show ?case using length_inv_3 [of b] by (simp add: dotted_def)
qed (simp add: dotted_def)

definition ip4_text :: "32 word \<Rightarrow> byte list" where
  "ip4_text w =
     rev (ip4_inv (ucast (drop_bit 24 w))) @ ch_dot # rev (ip4_inv (ucast (drop_bit 16 w))) @ ch_dot
       # rev (ip4_inv (ucast (drop_bit 8 w))) @ ch_dot # rev (ip4_inv (ucast w))"

lemma dotted_be_bytes: "dotted (be_bytes w) = ip4_text w @ [ch_dot]"
  by (simp add: dotted_def be_bytes_def ip4_text_def)

lemma length_ip4_text: "length (ip4_text w) \<le> 15"
  using length_dotted [of "be_bytes w"] unfolding dotted_be_bytes by (simp add: be_bytes_def)

lemma ip4addr_ntoa_r_text:
  assumes "port_ok L" and "int (length (ip4_text (lp_htonl L addr))) < buflen"
  shows "ip4addr_ntoa_r L addr buflen = Some (ip4_text (lp_htonl L addr) @ [NUL])"
proof -
  have "lp_mem L (lp_htonl L (lp_htonl L addr)) = be_bytes (lp_htonl L addr)" "lp_htonl L (lp_htonl L addr) = addr"
    using assms(1) unfolding port_ok_def by blast+
  then show ?thesis
    using assms(2) ip4_ntoa_loop_fits [of "[]" "be_bytes (lp_htonl L addr)" buflen]
    by (simp add: ip4addr_ntoa_r_def dotted_be_bytes)
qed

section \<open>Reading\<close>

lemma ip4_digits_stop: "port_ok L \<Longrightarrow> s = [] \<or> hd s = ch_dot \<Longrightarrow> base \<in> {8, 10} \<Longrightarrow> ip4_digits L base v s = (v, s)"
  by (cases s) (auto simp: port_digit)

lemma ip4_number_inv:
  assumes "port_ok L" and "s = [] \<or> hd s = ch_dot"
  shows "ip4_number L (rev (ip4_inv b) @ s) = Some (ucast b, s)"
proof -
  obtain c cs where c: "rev (ip4_inv b) = c # cs" using inv_nonempty [of b] by (cases "rev (ip4_inv b)") auto
  then have last: "c = last (ip4_inv b)" by (metis hd_rev list.sel(1))
  have dig: "lp_isdigit L c" using c inv_digits [of c b] assms(1) by (metis list.set_intros(1) port_digit set_rev)
  show ?thesis
  proof (cases "b = 0")
    case True
    then have "rev (ip4_inv b) = [ch_0]" by (subst ip4_inv.simps) simp
    moreover have "at_cp s \<noteq> 0x78" "at_cp s \<noteq> 0x58" using assms(2) by (auto simp: at_cp_def split: list.split)
    ultimately show ?thesis
      using True dig c assms ip4_digits_stop [of L s 8 0] by (simp add: ip4_number_def at_cp_def)
  next
    case False
    then have "c \<noteq> ch_0" using last last_inv by simp
    moreover obtain m where "ip4_digits L 10 0 ((c # cs) @ s) = ip4_digits L 10 (0 * m + ucast b) s"
      using ip4_digits_inv [OF assms(1), of b] c by metis
    ultimately show ?thesis
      using dig c assms ip4_digits_stop [of L s 10 "ucast b"] by (simp add: ip4_number_def at_cp_def)
  qed
qed

lemma ip4_parts_text:
  "port_ok L \<Longrightarrow> ip4_parts L [] (ip4_text w) =
     Some ([ucast (ucast (drop_bit 24 w) :: byte), ucast (ucast (drop_bit 16 w) :: byte), ucast (ucast (drop_bit 8 w) :: byte)],
           ucast (ucast w :: byte), [])"
  using ip4_number_inv [of L "[]"]
  by (simp add: ip4_text_def ip4_parts.simps ip4_number_inv at_cp_def)

lemma ip4_concoct_bytes:
  "ip4_concoct [ucast (ucast (drop_bit 24 w) :: byte), ucast (ucast (drop_bit 16 w) :: byte), ucast (ucast (drop_bit 8 w) :: byte)]
     (ucast (ucast w :: byte)) = Some (w :: 32 word)"
proof -
  have le: "ucast (b :: byte) \<le> (0xff :: 32 word)" for b
    using unsigned_less [of b, where 'a = nat] by (simp add: word_le_nat_alt unsigned_ucast_eq take_bit_nat_eq_self)
  have "ucast (ucast w :: byte) OR (push_bit 24 (ucast (ucast (drop_bit 24 w) :: byte))
      OR push_bit 16 (ucast (ucast (drop_bit 16 w) :: byte)) OR push_bit 8 (ucast (ucast (drop_bit 8 w) :: byte))) = w" (is "?l = w")
  proof (rule bit_word_eqI)
    fix n assume "n < LENGTH(32)"
    then show "bit ?l n = bit w n"
      by (cases "n < 24") (auto simp: bit_simps)
  qed
  then show ?thesis using le by (simp add: ip4_concoct_def not_less)
qed

lemma ip4addr_aton_text: "port_ok L \<Longrightarrow> ip4addr_aton L (ip4_text w) = Some (lp_htonl L w)"
  by (simp add: ip4addr_aton_def ip4_parts_text ip4_concoct_bytes at_cp_def)


text \<open>C37: an IPv4 address that is printed is read back, on every port and in every buffer that has
  the documented size; the text is a string of at most 15 characters.\<close>

theorem ip4_text_roundtrip:
  assumes "port_ok L" and "IP4ADDR_STRLEN_MAX L \<le> buflen"
  shows "\<exists>s. ip4addr_ntoa_r L addr buflen = Some (s @ [NUL]) \<and> length s \<le> 15 \<and> NUL \<notin> set s
    \<and> ip4addr_aton L s = Some addr \<and> ipaddr_addr L s = addr"
proof (intro exI conjI)
  let ?s = "ip4_text (lp_htonl L addr)"
  have htonl: "lp_htonl L (lp_htonl L addr) = addr" and "IP4ADDR_STRLEN_MAX L = 16"
    using assms(1) unfolding port_ok_def by blast+
  then show "ip4addr_ntoa_r L addr buflen = Some (?s @ [NUL])"
    using ip4addr_ntoa_r_text [OF assms(1)] assms(2) length_ip4_text [of "lp_htonl L addr"] by simp
  show "length ?s \<le> 15" by (rule length_ip4_text)
  show "NUL \<notin> set ?s" using inv_digits [of NUL] by (auto simp: ip4_text_def)
  show "ip4addr_aton L ?s = Some addr" and "ipaddr_addr L ?s = addr"
    using ip4addr_aton_text [OF assms(1), of "lp_htonl L addr"] htonl by (simp_all add: ipaddr_addr_def)
qed

theorem ip4_text_roundtrip_witness:
  "\<exists>s. ip4addr_ntoa_r le_port 0x0100007f 16 = Some (s @ [NUL]) \<and> length s \<le> 15 \<and> NUL \<notin> set s
    \<and> ip4addr_aton le_port s = Some 0x0100007f \<and> ipaddr_addr le_port s = 0x0100007f"
  by (rule ip4_text_roundtrip [OF le_port_ok]) (simp add: le_port_def be_port_def)

text \<open>A netmask is accepted exactly when it is a row of ones followed by zeros, in the order of
  the host; every such mask of a prefix of 0 to 32 bits is.\<close>

theorem netmask_valid_exact:
  "ip4_addr_netmask_valid L nm \<longleftrightarrow> (\<exists>n\<le>32. lp_htonl L nm = NOT (mask n))"
proof -
  have "(\<forall>j\<le>31. bit (lp_htonl L nm) j \<longleftrightarrow> n \<le> j) \<longleftrightarrow> lp_htonl L nm = NOT (mask n)" for n
    by (auto simp: bit_eq_iff bit_simps)
  then show ?thesis
    using netmask_loops_iff [of 31 "lp_htonl L nm"] by (simp add: ip4_addr_netmask_valid_def Let_def)
qed

text \<open>A part wraps around in 32 bits, and \<open>0x\<close> needs no digit.\<close>

lemma ip4addr_aton_wraps: "ip4addr_aton be_port (bytes ''1.2.3.4294967300'') = Some 0x01020304"
  by code_simp

lemma ip4addr_aton_no_digit: "ip4addr_aton be_port (bytes ''0x.0x.0x.0x'') = Some 0"
  by code_simp

end
