(* ===== verification/Lwip_Ip6_Addr.thy ===== *)
theory Lwip_Ip6_Addr
  imports Lwip_Ip4_Addr
begin

text \<open>
  The text form of IPv6 addresses of lwIP (\<open>core/ipv6/ip6_addr.c\<close>), in both directions.
  An address is the array \<open>addr[4]\<close> of words in network byte order. What the code does outside
  of an array is \<open>None\<close> here; it is proved not to happen. \<open>LWIP_IPV4\<close> is an argument.
\<close>

section \<open>Text to address\<close>

text \<open>The first loop counts colons down from 8: the blocks that \<open>::\<close> stands for. The result is
  \<open>None\<close> for \<open>return 0\<close>, otherwise \<open>zero_blocks\<close> and \<open>check_ipv4_mapped\<close>.\<close>

fun ip6_count :: "bool \<Rightarrow> lwip_port \<Rightarrow> 32 word \<Rightarrow> byte list \<Rightarrow> (32 word \<times> bool) option" where
  "ip6_count ipv4 L zero_blocks [] = Some (zero_blocks, False)"
| "ip6_count ipv4 L zero_blocks (c # s) =
     (if c = NUL then Some (zero_blocks, False)
      else if c = ch_colon then ip6_count ipv4 L (zero_blocks - 1) s
      else if ipv4 \<and> c = ch_dot then
        if zero_blocks = 5 \<or> zero_blocks = 2 then Some (zero_blocks - 1, True) else None
      else if \<not> lp_isxdigit L c then Some (zero_blocks, False)
      else ip6_count ipv4 L zero_blocks s)"

text \<open>The local variables of the second loop, with the array that \<open>addr\<close> points to, \<open>None\<close>
  for a null pointer.\<close>

record ip6_vars =
  i6_addr :: "32 word list option"
  addr_index :: nat
  zero_blocks :: "32 word"
  current_block_index :: nat
  current_block_value :: "32 word"

definition addr_put :: "nat \<Rightarrow> 32 word \<Rightarrow> 32 word list \<Rightarrow> 32 word list option" where
  "addr_put i w addr = (if i < length addr then Some (addr[i := w]) else None)"

definition addr_get :: "nat \<Rightarrow> 32 word list \<Rightarrow> 32 word option" where
  "addr_get i addr = (if i < length addr then Some (addr ! i) else None)"

text \<open>\<open>addr->addr[addr_index++] |= current_block_value\<close> or
  \<open>addr->addr[addr_index] = current_block_value << 16\<close>, when \<open>addr\<close> is not null.\<close>

definition ip6_store :: "ip6_vars \<Rightarrow> ip6_vars option" where
  "ip6_store v =
     (case i6_addr v of
        None \<Rightarrow> Some v
      | Some addr \<Rightarrow>
          if odd (current_block_index v) then
            do {
              w \<leftarrow> addr_get (addr_index v) addr;
              addr \<leftarrow> addr_put (addr_index v) (w OR current_block_value v) addr;
              Some (v\<lparr>i6_addr := Some addr, addr_index := addr_index v + 1\<rparr>)
            }
          else
            do {
              addr \<leftarrow> addr_put (addr_index v) (push_bit 16 (current_block_value v)) addr;
              Some (v\<lparr>i6_addr := Some addr\<rparr>)
            })"

text \<open>One round of the loop that sets the zeros of \<open>::\<close>, and the loop. The flag is true for
  \<open>return 0\<close>.\<close>

definition ip6_zero :: "ip6_vars \<Rightarrow> ip6_vars option" where
  "ip6_zero v =
     do {
       let v = v\<lparr>zero_blocks := zero_blocks v - 1\<rparr>;
       v \<leftarrow> (if odd (current_block_index v) then Some (v\<lparr>addr_index := addr_index v + 1\<rparr>)
            else
              (case i6_addr v of
                 None \<Rightarrow> Some v
               | Some addr \<Rightarrow> do { addr \<leftarrow> addr_put (addr_index v) 0 addr; Some (v\<lparr>i6_addr := Some addr\<rparr>) }));
       Some (v\<lparr>current_block_index := current_block_index v + 1\<rparr>)
     }"

lemma ip6_zero_count: "ip6_zero v = Some v' \<Longrightarrow> zero_blocks v' = zero_blocks v - 1"
  by (auto simp: ip6_zero_def Let_def bind_eq_Some_conv split: if_splits option.splits)

function ip6_zeros :: "ip6_vars \<Rightarrow> (bool \<times> ip6_vars) option" where
  "ip6_zeros v =
     (if zero_blocks v > 0 then
        (case ip6_zero v of
           None \<Rightarrow> None
         | Some v \<Rightarrow> if current_block_index v > 7 then Some (True, v) else ip6_zeros v)
      else Some (False, v))"
  by pat_completeness auto
termination
proof (relation "measure (\<lambda>v. unat (zero_blocks v))")
  fix v v'
  assume "0 < zero_blocks v" and "ip6_zero v = Some v'"
  then show "(v', v) \<in> measure (\<lambda>v. unat (zero_blocks v))"
    by (simp add: ip6_zero_count unat_minus_one word_less_nat_alt unat_gt_0)
qed simp

declare ip6_zeros.simps [simp del]

text \<open>How the second loop ends: \<open>return\<close> with a value, the jump to
  \<open>fix_byte_order_and_return\<close>, or the end of the text.\<close>

datatype ip6_end = Ip6_return bool "32 word list option" | Ip6_fix ip6_vars | Ip6_done ip6_vars

text \<open>A colon: the block before it is stored, then an IPv4 address may follow, or a second colon.
  \<open>s\<close> is what follows the colon; the result is an end, or the variables and the rest.\<close>

definition ip6_colon ::
  "bool \<Rightarrow> lwip_port \<Rightarrow> ip6_vars \<Rightarrow> byte list \<Rightarrow> (ip6_end + ip6_vars \<times> byte list) option"
where
  "ip6_colon check_ipv4_mapped L v s =
     do {
       v \<leftarrow> ip6_store v;
       let v = v\<lparr>current_block_index := current_block_index v + 1\<rparr>;
       case (if check_ipv4_mapped \<and> current_block_index v = 6 then ip4addr_aton L s else None) of
         Some ip4 \<Rightarrow>
           (case i6_addr v of
              None \<Rightarrow> Some (Inl (Ip6_return True None))
            | Some addr \<Rightarrow>
                do {
                  addr \<leftarrow> addr_put 3 (lp_htonl L ip4) addr;
                  Some (Inl (Ip6_fix (v\<lparr>i6_addr := Some addr, current_block_index := current_block_index v + 1\<rparr>)))
                })
       | None \<Rightarrow>
           do {
             let v = v\<lparr>current_block_value := 0\<rparr>;
             if current_block_index v > 7 then Some (Inl (Ip6_return False (i6_addr v)))
             else if at_cp s = ch_colon then
               if at_cp (tl s) = ch_colon then Some (Inl (Ip6_return False (i6_addr v)))
               else
                 do {
                   (stop, v) \<leftarrow> ip6_zeros v;
                   Some (if stop then Inl (Ip6_return False (i6_addr v)) else Inr (v, tl s))
                 }
             else Some (Inr (v, s))
           }
     }"

lemma ip6_colon_shorter: "ip6_colon chk L v s = Some (Inr (v', s')) \<Longrightarrow> length s' \<le> length s"
  by (auto simp: ip6_colon_def Let_def bind_eq_Some_conv split: option.splits if_splits)

definition ip6_xdigit :: "lwip_port \<Rightarrow> byte \<Rightarrow> 32 word" where
  "ip6_xdigit L c =
     (if lp_isdigit L c then ucast (c - ch_0)
      else 10 + ucast (if lp_islower L c then c - ch_a else c - ch_A))"

function ip6_blocks :: "bool \<Rightarrow> lwip_port \<Rightarrow> ip6_vars \<Rightarrow> byte list \<Rightarrow> ip6_end option" where
  "ip6_blocks check_ipv4_mapped L v [] = Some (Ip6_done v)"
| "ip6_blocks check_ipv4_mapped L v (c # s) =
     (if c = NUL then Some (Ip6_done v)
      else if c = ch_colon then
        (case ip6_colon check_ipv4_mapped L v s of
           None \<Rightarrow> None
         | Some (Inl e) \<Rightarrow> Some e
         | Some (Inr (v, s)) \<Rightarrow> ip6_blocks check_ipv4_mapped L v s)
      else if lp_isxdigit L c then
        ip6_blocks check_ipv4_mapped L
          (v\<lparr>current_block_value := push_bit 4 (current_block_value v) + ip6_xdigit L c\<rparr>) s
      else Some (Ip6_done v))"
  by pat_completeness auto
termination
  by (relation "measure (\<lambda>(chk, L, v, s). length s)") (auto dest: ip6_colon_shorter)

text \<open>The end of the function, from \<open>fix_byte_order_and_return\<close> on.\<close>

definition ip6_finish :: "lwip_port \<Rightarrow> ip6_vars \<Rightarrow> bool \<times> 32 word list option" where
  "ip6_finish L v = (current_block_index v = 7, map_option (map (lp_htonl L)) (i6_addr v))"

definition ip6addr_aton ::
  "bool \<Rightarrow> lwip_port \<Rightarrow> byte list \<Rightarrow> 32 word list option \<Rightarrow> (bool \<times> 32 word list option) option"
where
  "ip6addr_aton ipv4 L cp addr =
     (case ip6_count ipv4 L 8 cp of
        None \<Rightarrow> Some (False, addr)
      | Some (zb, check_ipv4_mapped) \<Rightarrow>
          (case ip6_blocks check_ipv4_mapped L
                  \<lparr>i6_addr = addr, addr_index = 0, zero_blocks = zb,
                   current_block_index = 0, current_block_value = 0\<rparr> cp of
             None \<Rightarrow> None
           | Some (Ip6_return ret addr) \<Rightarrow> Some (ret, addr)
           | Some (Ip6_fix v) \<Rightarrow> Some (ip6_finish L v)
           | Some (Ip6_done v) \<Rightarrow> do { v \<leftarrow> ip6_store v; Some (ip6_finish L v) }))"

section \<open>Address to text\<close>

definition lwip_xchar :: "32 word \<Rightarrow> byte" where
  "lwip_xchar i = (if i < 10 then ch_0 + ucast i else ch_A + ucast i - 10)"

text \<open>How printing may end: a store beyond the buffer, \<open>NULL\<close>, or going on with what has been
  written. \<open>buf[i++] = c; if (i >= buflen) return NULL;\<close>\<close>

datatype 'a ntoa6 = Ntoa_oob | Ntoa_null | Ntoa 'a

fun ntoa_bind :: "'a ntoa6 \<Rightarrow> ('a \<Rightarrow> 'b ntoa6) \<Rightarrow> 'b ntoa6" where
  "ntoa_bind Ntoa_oob f = Ntoa_oob"
| "ntoa_bind Ntoa_null f = Ntoa_null"
| "ntoa_bind (Ntoa x) f = f x"

definition ntoa6_put :: "int \<Rightarrow> byte \<Rightarrow> byte list \<Rightarrow> byte list ntoa6" where
  "ntoa6_put buflen c buf =
     (if int (length buf) \<ge> buflen then Ntoa_oob
      else if int (length buf) + 1 \<ge> buflen then Ntoa_null
      else Ntoa (buf @ [c]))"

text \<open>A block of 16 bits. \<open>addr\<close> are the four words and the one that lies behind them in memory,
  which is read when the last block is a single zero. The zone of an address is left out.\<close>

definition ip6_block :: "lwip_port \<Rightarrow> 32 word list \<Rightarrow> nat \<Rightarrow> 32 word" where
  "ip6_block L addr n =
     (let w = lp_htonl L (addr ! (n div 2)) in (if even n then drop_bit 16 w else w) AND 0xffff)"

text \<open>The digits of a block; leading zeros are left out but for the last digit.\<close>

definition ntoa6_digit :: "int \<Rightarrow> 32 word \<Rightarrow> nat \<Rightarrow> bool \<times> byte list \<Rightarrow> (bool \<times> byte list) ntoa6" where
  "ntoa6_digit buflen w sh st =
     (case st of (zero_flag, buf) \<Rightarrow>
        (let d = drop_bit sh (w AND push_bit sh 0xf) in
         if w AND push_bit sh 0xf = 0 \<and> zero_flag then Ntoa (zero_flag, buf)
         else ntoa_bind (ntoa6_put buflen (lwip_xchar d) buf) (\<lambda>buf. Ntoa (False, buf))))"

definition ntoa6_hex :: "int \<Rightarrow> 32 word \<Rightarrow> byte list \<Rightarrow> byte list ntoa6" where
  "ntoa6_hex buflen w buf =
     ntoa_bind (ntoa6_digit buflen w 12 (True, buf)) (\<lambda>st.
     ntoa_bind (ntoa6_digit buflen w 8 st) (\<lambda>st.
     ntoa_bind (ntoa6_digit buflen w 4 st) (\<lambda>(zero_flag, buf).
     ntoa6_put buflen (lwip_xchar (w AND 0xf)) buf)))"

text \<open>The loop over the blocks; \<open>empty_block_flag\<close> is 0 before, 1 in and 2 after the chain of zeros
  that is left out.\<close>

function ntoa6_loop :: "lwip_port \<Rightarrow> 32 word list \<Rightarrow> int \<Rightarrow> nat \<Rightarrow> nat \<Rightarrow> byte list \<Rightarrow> byte list ntoa6" where
  "ntoa6_loop L addr buflen n empty_block_flag buf =
     (if n < 8 then
        (let current_block_value = ip6_block L addr n;
             render = (\<lambda>empty_block_flag.
               ntoa_bind (if n > 0 then ntoa6_put buflen ch_colon buf else Ntoa buf) (\<lambda>buf.
               ntoa_bind (ntoa6_hex buflen current_block_value buf) (\<lambda>buf.
               ntoa6_loop L addr buflen (n + 1) empty_block_flag buf)))
         in
         if current_block_value = 0 then
           if n = 7 \<and> empty_block_flag = 1 then ntoa6_put buflen ch_colon buf
           else if empty_block_flag = 0 then
             if ip6_block L addr (n + 1) = 0 then
               ntoa_bind (ntoa6_put buflen ch_colon buf) (\<lambda>buf. ntoa6_loop L addr buflen (n + 1) 1 buf)
             else render empty_block_flag
           else if empty_block_flag = 1 then ntoa6_loop L addr buflen (n + 1) empty_block_flag buf
           else render empty_block_flag
         else render (if empty_block_flag = 1 then 2 else empty_block_flag))
      else Ntoa buf)"
  by pat_completeness auto
termination by (relation "measure (\<lambda>(L, addr, buflen, n, flag, buf). 8 - n)") auto

declare ntoa6_loop.simps [simp del]

definition ip6_addr_isipv4mappedipv6 :: "lwip_port \<Rightarrow> 32 word list \<Rightarrow> bool" where
  "ip6_addr_isipv4mappedipv6 L addr \<longleftrightarrow> addr ! 0 = 0 \<and> addr ! 1 = 0 \<and> addr ! 2 = lp_htonl L 0x0000ffff"

definition IP4MAPPED_HEADER :: "byte list" where "IP4MAPPED_HEADER = bytes ''::FFFF:''"

text \<open>The bytes of the buffer up to the null byte. \<open>sizeof\<close> counts the null byte of the header.\<close>

definition ip6addr_ntoa_r :: "bool \<Rightarrow> lwip_port \<Rightarrow> 32 word list \<Rightarrow> int \<Rightarrow> byte list ntoa6" where
  "ip6addr_ntoa_r ipv4 L addr buflen =
     (if ipv4 \<and> ip6_addr_isipv4mappedipv6 L addr then
        if buflen < int (length IP4MAPPED_HEADER) + 1 then Ntoa_null
        else
          (case ip4addr_ntoa_r L (addr ! 3) (buflen - int (length IP4MAPPED_HEADER)) of
             None \<Rightarrow> Ntoa_null
           | Some buf_ip4 \<Rightarrow> Ntoa (IP4MAPPED_HEADER @ buf_ip4))
      else ntoa_bind (ntoa6_loop L addr buflen 0 0 []) (\<lambda>buf.
             if int (length buf) \<ge> buflen then Ntoa_oob else Ntoa (buf @ [NUL])))"

definition ip6addr_ntoa :: "bool \<Rightarrow> lwip_port \<Rightarrow> 32 word list \<Rightarrow> byte list ntoa6" where
  "ip6addr_ntoa ipv4 L addr = ip6addr_ntoa_r ipv4 L addr 40"

section \<open>Nothing is written beyond the array\<close>

definition ip6_ok :: "ip6_vars \<Rightarrow> bool" where
  "ip6_ok v \<longleftrightarrow> current_block_index v \<le> 7
     \<and> (\<forall>addr. i6_addr v = Some addr \<longrightarrow> length addr = 4 \<and> addr_index v = current_block_index v div 2)"

lemma ip6_store_ok:
  assumes "ip6_ok v"
  shows "\<exists>v'. ip6_store v = Some v' \<and> current_block_index v' = current_block_index v
    \<and> (\<forall>addr. i6_addr v' = Some addr \<longrightarrow> length addr = 4 \<and> addr_index v' = (current_block_index v + 1) div 2)"
proof (cases "i6_addr v")
  case None
  then show ?thesis by (simp add: ip6_store_def)
next
  case (Some addr)
  then have "length addr = 4" "addr_index v = current_block_index v div 2" "addr_index v < 4"
    using assms by (auto simp: ip6_ok_def)
  then show ?thesis
    using Some by (cases "odd (current_block_index v)") (simp_all add: ip6_store_def addr_get_def addr_put_def)
qed

lemma ip6_zero_ok:
  assumes "ip6_ok v"
  shows "\<exists>v'. ip6_zero v = Some v' \<and> (current_block_index v' \<le> 7 \<longrightarrow> ip6_ok v')"
proof (cases "i6_addr v")
  case None
  then show ?thesis
    using assms by (cases "odd (current_block_index v)") (simp_all add: ip6_zero_def ip6_ok_def)
next
  case (Some addr)
  then have "length addr = 4" "addr_index v = current_block_index v div 2" "addr_index v < 4"
    using assms by (auto simp: ip6_ok_def)
  then show ?thesis
    using Some by (cases "odd (current_block_index v)") (simp_all add: ip6_zero_def ip6_ok_def addr_put_def)
qed

lemma ip6_zeros_ok: "ip6_ok v \<Longrightarrow> \<exists>stop v'. ip6_zeros v = Some (stop, v') \<and> (\<not> stop \<longrightarrow> ip6_ok v')"
proof (induction v rule: ip6_zeros.induct)
  case (1 v)
  obtain v' where v': "ip6_zero v = Some v'" "current_block_index v' \<le> 7 \<longrightarrow> ip6_ok v'"
    using ip6_zero_ok [OF 1(2)] by blast
  show ?case
  proof (cases "zero_blocks v > 0 \<and> current_block_index v' \<le> 7")
    case True
    then show ?thesis
      using 1(1) [of v'] v' by (subst ip6_zeros.simps) simp
  next
    case False
    then show ?thesis using 1(2) v' by (subst ip6_zeros.simps) auto
  qed
qed

lemma ip6_colon_ok:
  assumes "ip6_ok v"
  shows "\<exists>r. ip6_colon chk L v s = Some r
    \<and> (\<forall>v' s'. r = Inr (v', s') \<longrightarrow> ip6_ok v') \<and> (\<forall>v'. r \<noteq> Inl (Ip6_done v'))"
proof -
  obtain v1 where v1: "ip6_store v = Some v1" "current_block_index v1 = current_block_index v"
    "\<And>addr. i6_addr v1 = Some addr \<Longrightarrow> length addr = 4 \<and> addr_index v1 = (current_block_index v + 1) div 2"
    using ip6_store_ok [OF assms] by blast
  let ?v2 = "v1\<lparr>current_block_index := current_block_index v1 + 1\<rparr>"
  let ?v3 = "?v2\<lparr>current_block_value := 0\<rparr>"
  have ok3: "\<not> current_block_index ?v3 > 7 \<Longrightarrow> ip6_ok ?v3" using v1 by (simp add: ip6_ok_def)
  show ?thesis
  proof (cases "if chk \<and> current_block_index ?v2 = 6 then ip4addr_aton L s else None")
    case (Some ip4)
    then show ?thesis
      using v1 by (cases "i6_addr v1") (auto simp: ip6_colon_def addr_put_def split: if_splits)
  next
    case None
    show ?thesis
    proof (cases "current_block_index ?v3 > 7")
      case True
      then show ?thesis using None v1(1) by (auto simp: ip6_colon_def split: if_splits)
    next
      case False
      then obtain stop v4 where "ip6_zeros ?v3 = Some (stop, v4)" "\<not> stop \<longrightarrow> ip6_ok v4"
        using ip6_zeros_ok [OF ok3] by blast
      then show ?thesis
        using None v1(1) ok3 False by (auto simp: ip6_colon_def Let_def split: if_splits)
    qed
  qed
qed

lemma ip6_blocks_ok:
  "ip6_ok v \<Longrightarrow> \<exists>e. ip6_blocks chk L v s = Some e \<and> (\<forall>v'. e = Ip6_done v' \<longrightarrow> ip6_ok v')"
proof (induction chk L v s rule: ip6_blocks.induct)
  case (2 chk L v c s)
  show ?case
  proof (cases "c \<noteq> NUL \<and> c = ch_colon")
    case True
    then obtain r where r: "ip6_colon chk L v s = Some r" "\<forall>v' s'. r = Inr (v', s') \<longrightarrow> ip6_ok v'" "\<forall>v'. r \<noteq> Inl (Ip6_done v')"
      using ip6_colon_ok [OF 2(3)] by blast
    show ?thesis
    proof (cases r)
      case (Inl e)
      then show ?thesis using True r by auto
    next
      case (Inr p)
      obtain v' s' where p: "p = (v', s')" by fastforce
      have "ip6_ok v'" using r(2) Inr p by blast
      then have "\<exists>e. ip6_blocks chk L v' s' = Some e \<and> (\<forall>v''. e = Ip6_done v'' \<longrightarrow> ip6_ok v'')"
        using 2(1) [OF _ _ r(1) Inr] True p by blast
      then show ?thesis using True r(1) Inr p by simp
    qed
  next
    case False
    have "ip6_ok (v\<lparr>current_block_value := push_bit 4 (current_block_value v) + ip6_xdigit L c\<rparr>)"
      using 2(3) by (simp add: ip6_ok_def)
    then show ?thesis using 2(2,3) False by auto
  qed
qed simp

text \<open>C36: \<open>ip6addr_aton\<close> stays within the four words of the address on every string, whether
  it is accepted or not, and also when there is no address to store to.\<close>

theorem ip6addr_aton_in_bounds:
  assumes "\<forall>a. addr = Some a \<longrightarrow> length a = 4"
  shows "\<exists>ret addr'. ip6addr_aton ipv4 L cp addr = Some (ret, addr')"
proof (cases "ip6_count ipv4 L 8 cp")
  case (Some r)
  obtain zb chk where r: "r = (zb, chk)" by fastforce
  let ?v = "\<lparr>i6_addr = addr, addr_index = 0, zero_blocks = zb, current_block_index = 0, current_block_value = 0\<rparr>"
  have "ip6_ok ?v" using assms by (simp add: ip6_ok_def)
  then obtain e where e: "ip6_blocks chk L ?v cp = Some e" "\<forall>v'. e = Ip6_done v' \<longrightarrow> ip6_ok v'"
    using ip6_blocks_ok by blast
  show ?thesis
  proof (cases e)
    case (Ip6_done v')
    then obtain v'' where "ip6_store v' = Some v''" using e(2) ip6_store_ok by blast
    then show ?thesis using Some r e Ip6_done by (simp add: ip6addr_aton_def ip6_finish_def)
  qed (use Some r e in \<open>auto simp: ip6addr_aton_def ip6_finish_def\<close>)
qed (auto simp: ip6addr_aton_def)

theorem ip6addr_aton_in_bounds_witness:
  "\<exists>ret addr'. ip6addr_aton True be_port (bytes ''1:2:3:4:5:6:7:8:9:a::'') (Some [0, 0, 0, 0]) = Some (ret, addr')"
  by (rule ip6addr_aton_in_bounds) simp

section \<open>Hexadecimal digits\<close>

text \<open>The text of a block: four digits without leading zeros, at least one.\<close>

definition nibble :: "32 word \<Rightarrow> nat \<Rightarrow> 32 word" where
  "nibble w sh = drop_bit sh w AND 0xf"

definition hex_nibbles :: "32 word \<Rightarrow> 32 word list" where
  "hex_nibbles w =
     dropWhile (\<lambda>d. d = 0) [nibble w 12, nibble w 8, nibble w 4] @ [nibble w 0]"

definition hex_text :: "32 word \<Rightarrow> byte list" where
  "hex_text w = map lwip_xchar (hex_nibbles w)"

lemma and_push_nibble: "drop_bit sh (w AND push_bit sh 0xf) = nibble w sh" if "sh \<le> 28"
  using that unfolding nibble_def by (intro bit_word_eqI) (auto simp: bit_simps dest: bit_imp_le_length)

lemma and_push_zero: "w AND push_bit sh 0xf = 0 \<longleftrightarrow> nibble w sh = 0" if "sh \<le> 28"
proof
  assume "nibble w sh = 0"
  then have "drop_bit sh (w AND push_bit sh 0xf) = 0" using and_push_nibble [OF that] by simp
  moreover have "push_bit sh (drop_bit sh (w AND push_bit sh 0xf)) = w AND push_bit sh 0xf"
    by (rule bit_word_eqI) (auto simp: bit_simps)
  ultimately show "w AND push_bit sh 0xf = 0" by simp
qed (use and_push_nibble [OF that, of w] in simp)

lemma nibble_less: "nibble w sh < 16"
proof -
  have "nibble w sh = take_bit 4 (drop_bit sh w)"
    by (simp add: nibble_def take_bit_eq_mask mask_eq_exp_minus_1)
  then show ?thesis by (simp add: word_less_nat_alt take_bit_eq_mod unat_mod)
qed

lemma hex_nibbles_less: "d \<in> set (hex_nibbles w) \<Longrightarrow> d < 16"
  by (auto simp: hex_nibbles_def nibble_less split: if_splits)

lemma length_hex_text: "0 < length (hex_text w) \<and> length (hex_text w) \<le> 4"
  by (simp add: hex_text_def hex_nibbles_def)

lemma unat_nibble: "unat (nibble w sh) = unat w div 2 ^ sh mod 16"
proof -
  have "nibble w sh = take_bit 4 (drop_bit sh w)"
    by (simp add: nibble_def take_bit_eq_mask mask_eq_exp_minus_1)
  then show ?thesis
    by (simp only: unsigned_take_bit_eq unat_drop_bit_eq) (simp add: take_bit_eq_mod drop_bit_eq_div)
qed

definition hex_fold :: "32 word \<Rightarrow> 32 word list \<Rightarrow> 32 word" where
  "hex_fold = foldl (\<lambda>v d. push_bit 4 v + d)"

lemma hex_fold_dropWhile: "hex_fold 0 (dropWhile (\<lambda>d. d = 0) ds @ es) = hex_fold 0 (ds @ es)"
  by (induction ds) (auto simp: hex_fold_def)

lemma hex_fold_nibbles: "w < 0x10000 \<Longrightarrow> hex_fold 0 (hex_nibbles w) = w"
proof -
  assume "w < 0x10000"
  then have n: "unat w < 65536" by (simp add: word_less_nat_alt)
  let ?n = "unat w"
  have "((?n div 2 ^ 12 mod 16 * 16 + ?n div 2 ^ 8 mod 16) * 16 + ?n div 2 ^ 4 mod 16) * 16 + ?n div 2 ^ 0 mod 16 = ?n"
  proof -
    have "?n div 4096 mod 16 = ?n div 4096" using n by simp
    moreover have "?n div 4096 * 16 + ?n div 256 mod 16 = ?n div 256"
      using div_mult_mod_eq [of "?n div 256" 16] by (simp add: div_mult2_eq [symmetric])
    moreover have "?n div 256 * 16 + ?n div 16 mod 16 = ?n div 16"
      using div_mult_mod_eq [of "?n div 16" 16] by (simp add: div_mult2_eq [symmetric])
    ultimately show ?thesis by simp
  qed
  then have "((unat (nibble w 12) * 16 + unat (nibble w 8)) * 16 + unat (nibble w 4)) * 16 + unat (nibble w 0) = ?n"
    by (simp only: unat_nibble)
  from arg_cong [OF this, of "of_nat :: nat \<Rightarrow> 32 word"]
  have "((nibble w 12 * 16 + nibble w 8) * 16 + nibble w 4) * 16 + nibble w 0 = w"
    by (simp only: of_nat_add of_nat_mult of_nat_numeral of_nat_unat ucast_id)
  then have "hex_fold 0 [nibble w 12, nibble w 8, nibble w 4, nibble w 0] = w"
    by (simp add: hex_fold_def push_bit_eq_mult algebra_simps)
  then show ?thesis
    unfolding hex_nibbles_def hex_fold_dropWhile by simp
qed

lemma xchar_props:
  assumes "port_ok L" and "d < 16"
  shows "lp_isxdigit L (lwip_xchar d)" "ip6_xdigit L (lwip_xchar d) = d"
    "lwip_xchar d \<noteq> NUL" "lwip_xchar d \<noteq> ch_colon" "lwip_xchar d \<noteq> ch_dot"
proof -
  have cls: "\<And>c. lp_isdigit L c \<longleftrightarrow> ch_0 \<le> c \<and> c \<le> ch_9"
    "\<And>c. lp_isxdigit L c \<longleftrightarrow> ch_0 \<le> c \<and> c \<le> ch_9 \<or> ch_a \<le> c \<and> c \<le> ch_f \<or> ch_A \<le> c \<and> c \<le> 0x46"
    "\<And>c. lp_islower L c \<longleftrightarrow> ch_a \<le> c \<and> c \<le> ch_z"
    using assms(1) by (simp_all add: port_ok_def)
  have "d = of_nat (unat d)" "unat d \<in> set [0..<16]" using assms(2) by (simp_all add: word_less_nat_alt)
  then have "d \<in> of_nat ` set [0..<16]" by blast
  then have "d = 0 \<or> d = 1 \<or> d = 2 \<or> d = 3 \<or> d = 4 \<or> d = 5 \<or> d = 6 \<or> d = 7 \<or> d = 8 \<or> d = 9
      \<or> d = 10 \<or> d = 11 \<or> d = 12 \<or> d = 13 \<or> d = 14 \<or> d = 15"
    by (simp add: upt_rec)
  then show "lp_isxdigit L (lwip_xchar d)" "ip6_xdigit L (lwip_xchar d) = d"
    "lwip_xchar d \<noteq> NUL" "lwip_xchar d \<noteq> ch_colon" "lwip_xchar d \<noteq> ch_dot"
    using cls by (elim disjE; simp add: lwip_xchar_def ip6_xdigit_def)+
qed

lemma ip6_blocks_digits:
  "port_ok L \<Longrightarrow> \<forall>d\<in>set ds. d < 16 \<Longrightarrow> ip6_blocks chk L v (map lwip_xchar ds @ s)
     = ip6_blocks chk L (v\<lparr>current_block_value := hex_fold (current_block_value v) ds\<rparr>) s"
proof (induction ds arbitrary: v)
  case (Cons d ds)
  then show ?case using xchar_props [of L d] by (simp add: hex_fold_def)
qed (simp add: hex_fold_def)

lemma ip6_blocks_hex:
  assumes "port_ok L" "w < 0x10000" "current_block_value v = 0"
  shows "ip6_blocks chk L v (hex_text w @ s) = ip6_blocks chk L (v\<lparr>current_block_value := w\<rparr>) s"
  using ip6_blocks_digits [OF assms(1), of "hex_nibbles w"] hex_nibbles_less hex_fold_nibbles [OF assms(2)] assms(3)
  by (simp add: hex_text_def)

section \<open>Reading blocks\<close>

text \<open>\<open>ip6_holds v bs\<close>: the blocks \<open>bs\<close> are stored, two to a word, the next one comes after them.\<close>

definition ip6_holds :: "ip6_vars \<Rightarrow> 32 word list \<Rightarrow> bool" where
  "ip6_holds v bs \<longleftrightarrow> current_block_index v = length bs \<and> addr_index v = length bs div 2
     \<and> (\<exists>addr. i6_addr v = Some addr \<and> length addr = 4
         \<and> (\<forall>k < length bs div 2. addr ! k = push_bit 16 (bs ! (2 * k)) OR bs ! (2 * k + 1))
         \<and> (odd (length bs) \<longrightarrow> addr ! (length bs div 2) = push_bit 16 (last bs)))"

lemma nth_snoc_even: "2 * k + 1 < length bs \<Longrightarrow> (bs @ [b]) ! (2 * k) = bs ! (2 * k)"
  by (simp add: nth_append)

lemma ip6_holds_next:
  assumes "ip6_holds v bs" and "length bs < 8"
    and "v' = v\<lparr>i6_addr := Some addr', addr_index := (length bs + 1) div 2, current_block_index := length bs + 1,
                zero_blocks := z, current_block_value := c\<rparr>"
    and "\<And>addr. i6_addr v = Some addr \<Longrightarrow> addr' = addr[length bs div 2 :=
           (if odd (length bs) then addr ! (length bs div 2) OR b else push_bit 16 b)]"
  shows "ip6_holds v' (bs @ [b])"
proof -
  obtain addr where addr: "i6_addr v = Some addr" "length addr = 4"
    "\<forall>k < length bs div 2. addr ! k = push_bit 16 (bs ! (2 * k)) OR bs ! (2 * k + 1)"
    "odd (length bs) \<longrightarrow> addr ! (length bs div 2) = push_bit 16 (last bs)"
    using assms(1) unfolding ip6_holds_def by blast
  have addr': "addr' = addr[length bs div 2 :=
           (if odd (length bs) then addr ! (length bs div 2) OR b else push_bit 16 b)]"
    by (rule assms(4) [OF addr(1)])
  have less: "length bs div 2 < 4" using assms(2) by simp
  have "addr' ! k = push_bit 16 ((bs @ [b]) ! (2 * k)) OR (bs @ [b]) ! (2 * k + 1)"
    if "k < length (bs @ [b]) div 2" for k
  proof (cases "k < length bs div 2")
    case True
    then have "2 * k + 1 < length bs" by simp
    then show ?thesis using True addr(3) by (simp add: addr' nth_append)
  next
    case False
    then have k: "odd (length bs)" "k = length bs div 2" using that by auto
    then have "2 * k = length bs - 1" "bs \<noteq> []" by auto
    then show ?thesis using k addr(2,4) less by (simp add: addr' nth_append last_conv_nth)
  qed
  moreover have "odd (length (bs @ [b])) \<longrightarrow> addr' ! (length (bs @ [b]) div 2) = push_bit 16 (last (bs @ [b]))"
    using addr(2) less by (simp add: addr')
  moreover have "length addr' = 4" using addr(2) addr' by simp
  ultimately show ?thesis by (simp add: ip6_holds_def assms(3))
qed

lemma ip6_store_holds:
  assumes "ip6_holds v bs" and "length bs < 8"
  obtains v' where "ip6_store v = Some v'" "zero_blocks v' = zero_blocks v"
    "current_block_index v' = length bs"
    "ip6_holds (v'\<lparr>current_block_index := length bs + 1\<rparr>) (bs @ [current_block_value v])"
proof -
  obtain addr where addr: "i6_addr v = Some addr" "length addr = 4" "addr_index v = length bs div 2"
      "current_block_index v = length bs"
    using assms(1) unfolding ip6_holds_def by blast
  let ?w = "if odd (length bs) then addr ! (length bs div 2) OR current_block_value v else push_bit 16 (current_block_value v)"
  let ?v = "v\<lparr>i6_addr := Some (addr[length bs div 2 := ?w]), addr_index := (length bs + 1) div 2\<rparr>"
  have "length bs div 2 < 4" using assms(2) by simp
  then have "ip6_store v = Some ?v"
    using addr by (cases "odd (length bs)") (simp_all add: ip6_store_def addr_get_def addr_put_def)
  moreover have "ip6_holds (?v\<lparr>current_block_index := length bs + 1\<rparr>) (bs @ [current_block_value v])"
    by (rule ip6_holds_next [OF assms, where addr' = "addr[length bs div 2 := ?w]" and z = "zero_blocks v" and c = "current_block_value v"])
      (simp_all add: addr)
  ultimately show ?thesis using that [of ?v] addr(4) by simp
qed

lemma ip6_zero_holds:
  assumes "ip6_holds v bs" and "length bs < 8"
  obtains v' where "ip6_zero v = Some v'" "zero_blocks v' = zero_blocks v - 1"
    "current_block_value v' = current_block_value v" "ip6_holds v' (bs @ [0])"
proof -
  obtain addr where addr: "i6_addr v = Some addr" "length addr = 4" "addr_index v = length bs div 2"
      "current_block_index v = length bs"
    using assms(1) unfolding ip6_holds_def by blast
  let ?w = "if odd (length bs) then addr ! (length bs div 2) OR 0 else push_bit 16 0"
  let ?v = "v\<lparr>i6_addr := Some (addr[length bs div 2 := ?w]), addr_index := (length bs + 1) div 2,
              current_block_index := length bs + 1, zero_blocks := zero_blocks v - 1\<rparr>"
  have "length bs div 2 < 4" using assms(2) by simp
  then have "ip6_zero v = Some ?v"
    using addr by (cases "odd (length bs)") (simp_all add: ip6_zero_def addr_put_def)
  moreover have "ip6_holds ?v (bs @ [0])"
    by (rule ip6_holds_next [OF assms, where addr' = "addr[length bs div 2 := ?w]" and z = "zero_blocks v - 1" and c = "current_block_value v"])
      (simp_all add: addr)
  ultimately show ?thesis using that [of ?v] by simp
qed

lemma ip6_zeros_holds:
  "ip6_holds v bs \<Longrightarrow> length bs + unat (zero_blocks v) \<le> 7 \<Longrightarrow>
   \<exists>v'. ip6_zeros v = Some (False, v') \<and> current_block_value v' = current_block_value v
      \<and> ip6_holds v' (bs @ replicate (unat (zero_blocks v)) 0)"
proof (induction "unat (zero_blocks v)" arbitrary: v bs)
  case 0
  then have "zero_blocks v = 0" by (metis unsigned_eq_0_iff)
  then show ?case using 0 by (subst ip6_zeros.simps) simp
next
  case (Suc n)
  then have pos: "zero_blocks v > 0" by (metis unat_gt_0 word_neq_0_conv zero_less_Suc)
  obtain v' where v': "ip6_zero v = Some v'" "zero_blocks v' = zero_blocks v - 1"
    "current_block_value v' = current_block_value v" "ip6_holds v' (bs @ [0])"
    using ip6_zero_holds [OF Suc.prems(1)] Suc.prems(2) Suc.hyps(2) by force
  have n: "unat (zero_blocks v') = n"
    using v'(2) Suc.hyps(2) pos by (simp add: unat_minus_one)
  have "current_block_index v' \<le> 7"
    using v'(4) Suc.prems(2) Suc.hyps(2) by (simp add: ip6_holds_def)
  then have "ip6_zeros v = ip6_zeros v'" using pos v'(1) by (subst ip6_zeros.simps) simp
  moreover have "\<exists>v''. ip6_zeros v' = Some (False, v'') \<and> current_block_value v'' = current_block_value v'
      \<and> ip6_holds v'' ((bs @ [0]) @ replicate n 0)"
    using Suc.hyps(1) [of v' "bs @ [0]"] n v'(4) Suc.prems(2) Suc.hyps(2) by simp
  ultimately show ?case
    using v'(3) Suc.hyps(2) [symmetric] by (simp add: replicate_append_same)
qed

text \<open>A colon that is followed by something else, and one that is followed by a second one.\<close>

lemma ip6_colon_single:
  assumes "ip6_holds v bs" and "length bs < 7" and "at_cp s \<noteq> ch_colon" and "\<not> chk \<or> length bs + 1 \<noteq> 6"
  obtains v' where "ip6_colon chk L v s = Some (Inr (v', s))" "zero_blocks v' = zero_blocks v"
    "current_block_value v' = 0" "ip6_holds v' (bs @ [current_block_value v])"
proof -
  have "length bs < 8" using assms(2) by simp
  then obtain v1 where v1: "ip6_store v = Some v1" "zero_blocks v1 = zero_blocks v" "current_block_index v1 = length bs"
    "ip6_holds (v1\<lparr>current_block_index := length bs + 1\<rparr>) (bs @ [current_block_value v])"
    using ip6_store_holds [OF assms(1)] by metis
  show ?thesis
    by (rule that [of "v1\<lparr>current_block_index := length bs + 1, current_block_value := 0\<rparr>"])
      (use assms v1 in \<open>auto simp: ip6_colon_def Let_def ip6_holds_def\<close>)
qed

lemma ip6_colon_double:
  assumes "ip6_holds v bs" and "length bs + 1 + unat (zero_blocks v) \<le> 7" and "at_cp s \<noteq> ch_colon"
    and "\<not> chk \<or> length bs + 1 \<noteq> 6"
  obtains v' where "ip6_colon chk L v (ch_colon # s) = Some (Inr (v', s))" "current_block_value v' = 0"
    "ip6_holds v' (bs @ current_block_value v # replicate (unat (zero_blocks v)) 0)"
proof -
  have "length bs < 8" using assms(2) by simp
  then obtain v1 where v1: "ip6_store v = Some v1" "zero_blocks v1 = zero_blocks v" "current_block_index v1 = length bs"
    "ip6_holds (v1\<lparr>current_block_index := length bs + 1\<rparr>) (bs @ [current_block_value v])"
    using ip6_store_holds [OF assms(1)] by metis
  let ?v2 = "v1\<lparr>current_block_index := length bs + 1, current_block_value := 0\<rparr>"
  have "ip6_holds ?v2 (bs @ [current_block_value v])" using v1(4) by (simp add: ip6_holds_def)
  then obtain v' where v': "ip6_zeros ?v2 = Some (False, v')" "current_block_value v' = 0"
     "ip6_holds v' ((bs @ [current_block_value v]) @ replicate (unat (zero_blocks v)) 0)"
    using ip6_zeros_holds [of ?v2 "bs @ [current_block_value v]"] assms(2) v1(2) by auto
  show ?thesis
  proof (rule that [of v'])
    show "ip6_colon chk L v (ch_colon # s) = Some (Inr (v', s))"
      using assms v1 v'(1) by (auto simp: ip6_colon_def Let_def at_cp_def)
  qed (use v' in simp_all)
qed

text \<open>\<open>ip6_reads\<close>: reading goes on to the end of the text and stores the eight blocks.\<close>

definition ip6_words :: "32 word list \<Rightarrow> 32 word list" where
  "ip6_words bs = map (\<lambda>k. push_bit 16 (bs ! (2 * k)) OR bs ! (2 * k + 1)) [0..<4]"

definition ip6_reads :: "lwip_port \<Rightarrow> ip6_vars \<Rightarrow> byte list \<Rightarrow> 32 word list \<Rightarrow> bool" where
  "ip6_reads L v s bs \<longleftrightarrow> (\<exists>v' v''. ip6_blocks False L v s = Some (Ip6_done v') \<and> ip6_store v' = Some v''
     \<and> current_block_index v'' = 7 \<and> i6_addr v'' = Some (ip6_words bs))"

lemma holds_words: "ip6_holds v bs \<Longrightarrow> length bs = 8 \<Longrightarrow> i6_addr v = Some (ip6_words bs)"
  by (auto simp: ip6_holds_def ip6_words_def intro!: nth_equalityI)

lemma reads_end: "ip6_holds v cs \<Longrightarrow> length cs = 7 \<Longrightarrow> ip6_reads L v [] (cs @ [current_block_value v])"
proof -
  assume "ip6_holds v cs" and len: "length cs = 7"
  then obtain v' where "ip6_store v = Some v'" "current_block_index v' = length cs"
    "ip6_holds (v'\<lparr>current_block_index := length cs + 1\<rparr>) (cs @ [current_block_value v])"
    using ip6_store_holds [of v cs] by force
  then show ?thesis using holds_words len by (fastforce simp: ip6_reads_def)
qed

lemma reads_colon: "ip6_colon False L v s = Some (Inr (v', s')) \<Longrightarrow> ip6_reads L v' s' bs \<Longrightarrow> ip6_reads L v (ch_colon # s) bs"
  by (simp add: ip6_reads_def)

lemma reads_hex:
  assumes "port_ok L" "w < 0x10000" "current_block_value v = 0" "ip6_reads L (v\<lparr>current_block_value := w\<rparr>) s bs"
  shows "ip6_reads L v (hex_text w @ s) bs"
  using assms(4) by (simp add: ip6_reads_def ip6_blocks_hex [OF assms(1-3)])

lemma hex_text_at: "port_ok L \<Longrightarrow> at_cp (hex_text w @ s) \<noteq> ch_colon \<and> lp_isxdigit L (at_cp (hex_text w @ s))"
proof -
  assume L: "port_ok L"
  obtain d ds where d: "hex_nibbles w = d # ds" by (cases "hex_nibbles w") (auto simp: hex_nibbles_def)
  then have "d < 16" using hex_nibbles_less [of d w] by simp
  then show ?thesis using xchar_props [OF L, of d] d by (simp add: hex_text_def at_cp_def)
qed

lemma holds_value [simp]: "ip6_holds (v\<lparr>current_block_value := c\<rparr>) bs = ip6_holds v bs"
  by (simp add: ip6_holds_def)

lemma reads_block:
  assumes "port_ok L" "b < 0x10000" "ip6_holds v cs" "length cs < 7"
    and "\<And>v'. ip6_holds v' (cs @ [current_block_value v]) \<Longrightarrow> current_block_value v' = b
           \<Longrightarrow> zero_blocks v' = zero_blocks v \<Longrightarrow> ip6_reads L v' s bs"
  shows "ip6_reads L v (ch_colon # hex_text b @ s) bs"
proof -
  obtain v' where v': "ip6_colon False L v (hex_text b @ s) = Some (Inr (v', hex_text b @ s))"
    "zero_blocks v' = zero_blocks v" "current_block_value v' = 0" "ip6_holds v' (cs @ [current_block_value v])"
    using ip6_colon_single [OF assms(3,4), of "hex_text b @ s" False L] hex_text_at [OF assms(1)] by blast
  have "ip6_reads L (v'\<lparr>current_block_value := b\<rparr>) s bs" using assms(5) v' by simp
  then show ?thesis using reads_colon [OF v'(1)] reads_hex [OF assms(1,2) v'(3)] by blast
qed

text \<open>The blocks after the gap, each with a colon in front.\<close>

definition colon_text :: "32 word list \<Rightarrow> byte list" where
  "colon_text bs = concat (map (\<lambda>b. ch_colon # hex_text b) bs)"

lemma reads_colon_text:
  "port_ok L \<Longrightarrow> \<forall>d\<in>set ds. d < 0x10000 \<Longrightarrow> ip6_holds v cs \<Longrightarrow> length cs + 1 + length ds = 8
   \<Longrightarrow> ip6_reads L v (colon_text ds) (cs @ current_block_value v # ds)"
proof (induction ds arbitrary: v cs)
  case Nil
  then show ?case using reads_end [of v cs L] by (simp add: colon_text_def)
next
  case (Cons d ds)
  have "ip6_reads L v' (colon_text ds) (cs @ current_block_value v # d # ds)"
    if "ip6_holds v' (cs @ [current_block_value v])" "current_block_value v' = d" for v'
    using Cons.IH [OF Cons.prems(1) _ that(1)] Cons.prems that(2) by simp
  then show ?case
    using reads_block [OF Cons.prems(1) _ Cons.prems(3), of d "colon_text ds" "cs @ current_block_value v # d # ds"] Cons.prems(2,4)
    by (simp add: colon_text_def)
qed

text \<open>What follows the first colon of a gap: a second colon and the blocks behind the zeros.\<close>

definition gap_text :: "32 word list \<Rightarrow> byte list" where
  "gap_text bs = (if \<forall>b\<in>set bs. b = 0 then [ch_colon] else colon_text (dropWhile (\<lambda>b. b = 0) bs))"

definition colons :: "byte list \<Rightarrow> nat" where
  "colons s = count_list s ch_colon"

lemma colons_simps [simp]:
  "colons [] = 0" "colons (ch_colon # s) = Suc (colons s)" "colons (s @ t) = colons s + colons t"
  by (simp_all add: colons_def)

lemma colons_hex: "colons (hex_text b) = 0"
proof -
  have "ch_colon \<notin> set (hex_text b)"
    using xchar_props(4) [OF be_port_ok] hex_nibbles_less [of _ b] by (force simp: hex_text_def)
  then show ?thesis by (simp add: colons_def count_list_0_iff)
qed

lemma colons_colon_text: "colons (colon_text bs) = length bs"
  by (induction bs) (simp_all add: colon_text_def colons_hex)

lemma reads_gap:
  assumes "port_ok L" "\<forall>b\<in>set bs. b < 0x10000" "ip6_holds v cs" "length cs + 2 + length bs = 8"
    and "unat (zero_blocks v) + length cs + 1 + colons (gap_text bs) = 8"
  shows "ip6_reads L v (ch_colon # gap_text bs) (cs @ current_block_value v # 0 # bs)"
proof (cases "\<forall>b\<in>set bs. b = 0")
  case True
  then have bs: "bs = replicate (length bs) 0" by (simp add: replicate_eqI)
  have n: "unat (zero_blocks v) = length bs" using assms(4,5) True by (simp add: gap_text_def)
  have "\<exists>v'. ip6_colon False L v [ch_colon] = Some (Inr (v', [])) \<and> current_block_value v' = 0
    \<and> ip6_holds v' (cs @ current_block_value v # bs)"
    using ip6_colon_double [OF assms(3), of "[]" False L] n assms(4) bs by (fastforce simp: at_cp_def)
  then obtain v' where v': "ip6_colon False L v [ch_colon] = Some (Inr (v', []))" "current_block_value v' = 0"
    "ip6_holds v' (cs @ current_block_value v # bs)"
    by blast
  have "ip6_reads L v' [] ((cs @ current_block_value v # bs) @ [0])"
    using reads_end [OF v'(3)] assms(4) v'(2) by simp
  moreover have "bs @ [0] = 0 # bs" using bs by (metis replicate_append_same)
  ultimately show ?thesis
    using reads_colon [OF v'(1)] True by (simp add: gap_text_def)
next
  case False
  define k where "k = length (takeWhile (\<lambda>b. b = 0) bs)"
  obtain c ds where cds: "dropWhile (\<lambda>b. b = 0) bs = c # ds"
    using False by (cases "dropWhile (\<lambda>b. b = 0) bs") (simp_all add: dropWhile_eq_Nil_conv)
  have "takeWhile (\<lambda>b. b = 0) bs = replicate k 0"
    unfolding k_def by (rule replicate_eqI [OF refl]) (blast dest: set_takeWhileD)
  then have bs: "bs = replicate k 0 @ c # ds" using cds by (metis takeWhile_dropWhile_id)
  have gt: "gap_text bs = ch_colon # hex_text c @ colon_text ds"
    unfolding gap_text_def if_not_P [OF False] cds by (simp add: colon_text_def)
  have n: "unat (zero_blocks v) = Suc k"
    using assms(4,5) bs gt by (simp add: colons_hex colons_colon_text)
  obtain v' where v': "ip6_colon False L v (ch_colon # hex_text c @ colon_text ds) = Some (Inr (v', hex_text c @ colon_text ds))"
    "current_block_value v' = 0" "ip6_holds v' (cs @ current_block_value v # replicate (Suc k) 0)"
    using ip6_colon_double [OF assms(3), of "hex_text c @ colon_text ds" False L] hex_text_at [OF assms(1)] n assms(4) bs
    by auto
  have "ip6_reads L (v'\<lparr>current_block_value := c\<rparr>) (colon_text ds) ((cs @ current_block_value v # replicate (Suc k) 0) @ c # ds)"
    using reads_colon_text [OF assms(1), of ds "v'\<lparr>current_block_value := c\<rparr>" "cs @ current_block_value v # replicate (Suc k) 0"] v'(3) assms(2,4) bs by simp
  then show ?thesis
    using reads_colon [OF v'(1)] reads_hex [OF assms(1) _ v'(2)] assms(2) bs gt by simp
qed

section \<open>Printing blocks\<close>

lemma ntoa6_put_fits: "int (length buf) + 1 < buflen \<Longrightarrow> ntoa6_put buflen c buf = Ntoa (buf @ [c])"
  by (simp add: ntoa6_put_def)

lemma ntoa6_digit_fits:
  assumes "sh \<le> 28" and "int (length buf) + 1 < buflen"
  shows "ntoa6_digit buflen w sh (z, buf) =
    (if nibble w sh = 0 \<and> z then Ntoa (z, buf) else Ntoa (False, buf @ [lwip_xchar (nibble w sh)]))"
  unfolding ntoa6_digit_def Let_def prod.case and_push_nibble [OF assms(1)] and_push_zero [OF assms(1)]
  using assms(2) by (simp add: ntoa6_put_fits)

lemma ntoa6_hex_fits:
  assumes "int (length buf) + 4 < buflen"
  shows "ntoa6_hex buflen w buf = Ntoa (buf @ hex_text w)"
proof -
  have "w AND 0xf = nibble w 0" by (simp add: nibble_def)
  then show ?thesis
    using assms unfolding ntoa6_hex_def hex_text_def hex_nibbles_def
    by (auto simp: ntoa6_digit_fits ntoa6_put_fits)
qed

text \<open>The text from block \<open>n\<close> on, before a gap. \<open>z\<close> is what is read behind the last block.\<close>

fun plain_text :: "bool \<Rightarrow> 32 word \<Rightarrow> 32 word list \<Rightarrow> byte list" where
  "plain_text sep z [] = []"
| "plain_text sep z (b # bs) =
     (if b = 0 \<and> (case bs of [] \<Rightarrow> z | b' # _ \<Rightarrow> b') = 0
      then ch_colon # (if bs = [] then [] else gap_text bs)
      else (if sep then [ch_colon] else []) @ hex_text b @ plain_text True z bs)"

definition blocks_from :: "lwip_port \<Rightarrow> 32 word list \<Rightarrow> nat \<Rightarrow> 32 word list" where
  "blocks_from L addr n = map (ip6_block L addr) [n..<8]"

lemma blocks_from_Cons: "n < 8 \<Longrightarrow> blocks_from L addr n = ip6_block L addr n # blocks_from L addr (n + 1)"
  by (simp add: blocks_from_def upt_conv_Cons)

lemma blocks_from_8 [simp]: "blocks_from L addr 8 = []"
  by (simp add: blocks_from_def)

text \<open>A block with its colon takes at most five bytes, the first one four.\<close>

definition fits :: "nat \<Rightarrow> byte list \<Rightarrow> bool" where
  "fits n buf \<longleftrightarrow> length buf + (if n = 0 then 0 else 1) \<le> 5 * n"

lemma fits_block:
  assumes "fits n buf" "n < 8" "40 \<le> buflen"
  shows "ntoa_bind (if n > 0 then ntoa6_put buflen ch_colon buf else Ntoa buf) (\<lambda>buf. ntoa6_hex buflen w buf)
     = Ntoa (buf @ (if n > 0 then [ch_colon] else []) @ hex_text w)"
    and "fits (n + 1) (buf @ (if n > 0 then [ch_colon] else []) @ hex_text w)"
    and "ntoa6_put buflen ch_colon buf = Ntoa (buf @ [ch_colon])" and "fits (n + 1) (buf @ [ch_colon])" and "fits (n + 1) buf"
  using assms length_hex_text [of w] by (auto simp: fits_def ntoa6_put_fits ntoa6_hex_fits split: if_splits)

lemma ntoa_bind_assoc: "ntoa_bind (ntoa_bind m f) g = ntoa_bind m (\<lambda>x. ntoa_bind (f x) g)"
  by (cases m) simp_all

lemma ntoa6_loop_render:
  assumes "fits n buf" "n < 8" "40 \<le> buflen"
    and "b = ip6_block L addr n" "b \<noteq> 0 \<or> (flag = 0 \<and> ip6_block L addr (n + 1) \<noteq> 0) \<or> flag = 2"
    and "flag' = (if b \<noteq> 0 \<and> flag = 1 then 2 else flag)"
  shows "ntoa6_loop L addr buflen n flag buf =
     ntoa6_loop L addr buflen (n + 1) flag' (buf @ (if n > 0 then [ch_colon] else []) @ hex_text b)"
proof -
  have "ntoa6_loop L addr buflen n flag buf =
      ntoa_bind (ntoa_bind (if n > 0 then ntoa6_put buflen ch_colon buf else Ntoa buf) (\<lambda>buf. ntoa6_hex buflen b buf))
        (ntoa6_loop L addr buflen (n + 1) flag')"
    unfolding ntoa_bind_assoc using assms(2,4,5,6) by (subst ntoa6_loop.simps) (auto simp: Let_def)
  then show ?thesis unfolding fits_block(1) [OF assms(1-3)] by simp
qed

lemma ntoa6_loop_after:
  "n \<le> 8 \<Longrightarrow> 0 < n \<Longrightarrow> fits n buf \<Longrightarrow> 40 \<le> buflen \<Longrightarrow>
   ntoa6_loop L addr buflen n 2 buf = Ntoa (buf @ colon_text (blocks_from L addr n))"
proof (induction "8 - n" arbitrary: n buf)
  case 0
  then show ?case by (subst ntoa6_loop.simps) (simp add: colon_text_def)
next
  case (Suc m)
  then have n: "n < 8" by simp
  show ?case
    using ntoa6_loop_render [OF Suc.prems(3) n Suc.prems(4) refl, where flag = 2 and flag' = 2] fits_block(2) [OF Suc.prems(3) n Suc.prems(4)]
      Suc.hyps(1) [of "n + 1"] Suc.hyps(2) Suc.prems n
    by (simp add: blocks_from_Cons colon_text_def)
qed

lemma ntoa6_loop_gap:
  "n \<le> 7 \<Longrightarrow> 0 < n \<Longrightarrow> fits n buf \<Longrightarrow> 40 \<le> buflen \<Longrightarrow>
   ntoa6_loop L addr buflen n 1 buf = Ntoa (buf @ gap_text (blocks_from L addr n))"
proof (induction "7 - n" arbitrary: n buf)
  case 0
  then have n: "n = 7" by simp
  show ?case
  proof (cases "ip6_block L addr 7 = 0")
    case True
    then show ?thesis
      using 0 n fits_block(3) [of 7 buf buflen] by (subst ntoa6_loop.simps) (simp add: gap_text_def blocks_from_Cons)
  next
    case False
    then show ?thesis
      using 0 n ntoa6_loop_render [where n = 7 and flag = 1 and flag' = 2] fits_block(2) [of 7 buf buflen]
        ntoa6_loop_after [of 8 _ buflen L addr]
      by (simp add: gap_text_def blocks_from_Cons colon_text_def)
  qed
next
  case (Suc m)
  then have n: "n < 7" by simp
  show ?case
  proof (cases "ip6_block L addr n = 0")
    case True
    then have "ntoa6_loop L addr buflen n 1 buf = ntoa6_loop L addr buflen (n + 1) 1 buf"
      using n by (subst ntoa6_loop.simps) simp
    then show ?thesis
      using Suc.hyps(1) [of "n + 1" buf] Suc.hyps(2) Suc.prems n fits_block(5) [of n buf buflen] True
      by (simp add: blocks_from_Cons gap_text_def)
  next
    case False
    then show ?thesis
      using Suc.prems n ntoa6_loop_render [where n = n and flag = 1 and flag' = 2] fits_block(2) [of n buf buflen]
        ntoa6_loop_after [of "n + 1" _ buflen L addr]
      by (simp add: gap_text_def blocks_from_Cons colon_text_def)
  qed
qed

lemma ntoa6_loop_plain:
  "n \<le> 8 \<Longrightarrow> fits n buf \<Longrightarrow> 40 \<le> buflen \<Longrightarrow>
   ntoa6_loop L addr buflen n 0 buf = Ntoa (buf @ plain_text (0 < n) (ip6_block L addr 8) (blocks_from L addr n))"
proof (induction "8 - n" arbitrary: n buf)
  case 0
  then show ?case by (subst ntoa6_loop.simps) simp
next
  case (Suc m)
  then have n: "n < 8" by simp
  let ?next = "ip6_block L addr (n + 1)"
  have nxt: "(case blocks_from L addr (n + 1) of [] \<Rightarrow> ip6_block L addr 8 | b' # _ \<Rightarrow> b') = ?next"
    using n by (cases "n = 7") (simp_all add: blocks_from_Cons)
  show ?case
  proof (cases "ip6_block L addr n = 0 \<and> ?next = 0")
    case True
    have step: "ntoa6_loop L addr buflen n 0 buf = ntoa6_loop L addr buflen (n + 1) 1 (buf @ [ch_colon])"
      using True n fits_block(3) [OF Suc.prems(2) n Suc.prems(3)] by (subst ntoa6_loop.simps) simp
    show ?thesis
    proof (cases "n = 7")
      case True7: True
      have "ntoa6_loop L addr buflen 8 1 (buf @ [ch_colon]) = Ntoa (buf @ [ch_colon])"
        by (subst ntoa6_loop.simps) simp
      then show ?thesis using step True True7 nxt by (simp add: blocks_from_Cons)
    next
      case False
      then show ?thesis
        using step True nxt n ntoa6_loop_gap [of "n + 1" "buf @ [ch_colon]" buflen L addr] fits_block(4) [OF Suc.prems(2) n Suc.prems(3)] Suc.prems(3)
        by (simp add: blocks_from_Cons)
    qed
  next
    case False
    have "ntoa6_loop L addr buflen n 0 buf
        = ntoa6_loop L addr buflen (n + 1) 0 (buf @ (if n > 0 then [ch_colon] else []) @ hex_text (ip6_block L addr n))"
      using False by (intro ntoa6_loop_render [OF Suc.prems(2) n Suc.prems(3) refl]) auto
    also have "\<dots> = Ntoa ((buf @ (if n > 0 then [ch_colon] else []) @ hex_text (ip6_block L addr n))
        @ plain_text (0 < n + 1) (ip6_block L addr 8) (blocks_from L addr (n + 1)))"
      using Suc.hyps(2) n fits_block(2) [OF Suc.prems(2) n Suc.prems(3)] by (intro Suc.hyps(1)) (auto simp: Suc.prems(3))
    also have "\<dots> = Ntoa (buf @ plain_text (0 < n) (ip6_block L addr 8) (blocks_from L addr n))"
      unfolding blocks_from_Cons [OF n] using False nxt by (cases "ip6_block L addr n = 0") (simp_all del: blocks_from_8)
    finally show ?thesis .
  qed
qed

section \<open>Reading what was printed\<close>

lemma colons_gap: "bs \<noteq> [] \<Longrightarrow> colons (gap_text bs) \<le> length bs"
  using length_dropWhile_le [of "\<lambda>b. b = 0" bs] by (cases bs) (auto simp: gap_text_def colons_colon_text)

lemma colons_plain: "colons (plain_text sep z bs) \<le> length bs"
proof (induction sep z bs rule: plain_text.induct)
  case (2 sep z b bs)
  show ?case
  proof (cases "b = 0 \<and> (case bs of [] \<Rightarrow> z | b' # _ \<Rightarrow> b') = 0")
    case True
    then show ?thesis using colons_gap [of bs] by simp
  next
    case False
    then have "colons (plain_text True z bs) \<le> length bs" using 2 by blast
    moreover have "plain_text sep z (b # bs) = (if sep then [ch_colon] else []) @ hex_text b @ plain_text True z bs"
      unfolding plain_text.simps(2) if_not_P [OF False] by simp
    ultimately show ?thesis by (simp add: colons_hex del: plain_text.simps)
  qed
qed simp

lemma reads_plain:
  "port_ok L \<Longrightarrow> \<forall>b\<in>set bs. b < 0x10000 \<Longrightarrow> ip6_holds v cs \<Longrightarrow> length cs + 1 + length bs = 8 \<Longrightarrow>
   unat (zero_blocks v) + length cs + colons (plain_text True z bs) = 8 \<Longrightarrow>
   ip6_reads L v (plain_text True z bs) (cs @ current_block_value v # bs)"
proof (induction bs arbitrary: v cs)
  case Nil
  then show ?case using reads_end [of v cs L] by simp
next
  case (Cons b bs)
  let ?next = "case bs of [] \<Rightarrow> z | b' # _ \<Rightarrow> b'"
  show ?case
  proof (cases "b = 0 \<and> ?next = 0")
    case gap: True
    show ?thesis
    proof (cases "bs = []")
      case True
      have "length cs < 7" using Cons.prems(4) True by simp
      then obtain v' where v': "ip6_colon False L v [] = Some (Inr (v', []))"
        "current_block_value v' = 0" "ip6_holds v' (cs @ [current_block_value v])"
        using ip6_colon_single [OF Cons.prems(3), of "[]" False L] by (auto simp: at_cp_def)
      then have "ip6_reads L v' [] (cs @ [current_block_value v, 0])"
        using reads_end [OF v'(3)] Cons.prems(4) True by simp
      then show ?thesis using reads_colon [OF v'(1)] True gap by simp
    next
      case False
      have "plain_text True z (b # bs) = ch_colon # gap_text bs" using gap False by simp
      then show ?thesis
        using reads_gap [OF Cons.prems(1) _ Cons.prems(3), of bs] Cons.prems gap by simp
    qed
  next
    case False
    then have pt: "plain_text True z (b # bs) = ch_colon # hex_text b @ plain_text True z bs"
      by (cases "b = 0") simp_all
    show ?thesis unfolding pt
    proof (rule reads_block [OF Cons.prems(1) _ Cons.prems(3)])
      fix v' assume v': "ip6_holds v' (cs @ [current_block_value v])" "current_block_value v' = b"
        "zero_blocks v' = zero_blocks v"
      have "unat (zero_blocks v') + length (cs @ [current_block_value v]) + colons (plain_text True z bs) = 8"
        using Cons.prems(5) v'(3) unfolding pt by (simp add: colons_hex)
      then show "ip6_reads L v' (plain_text True z bs) (cs @ current_block_value v # b # bs)"
        using Cons.IH [OF Cons.prems(1) _ v'(1)] Cons.prems v'(2) by simp
    qed (use Cons.prems in simp_all)
  qed
qed

lemma reads_text:
  assumes "port_ok L" "\<forall>b\<in>set bs. b < 0x10000" "length bs = 8" "length addr = 4"
    and "zero_blocks v = 8 - of_nat (colons (plain_text False z bs))"
    and "v = \<lparr>i6_addr = Some addr, addr_index = 0, zero_blocks = zb, current_block_index = 0, current_block_value = 0\<rparr>"
  shows "ip6_reads L v (plain_text False z bs) bs"
proof -
  have v: "ip6_holds v []" "current_block_value v = 0" using assms(4,6) by (simp_all add: ip6_holds_def)
  let ?c = "colons (plain_text False z bs)"
  have "?c \<le> 8" using colons_plain [of False z bs] assms(3) by simp
  have "zero_blocks v = of_nat (8 - ?c)" using assms(5) \<open>?c \<le> 8\<close> by (simp add: of_nat_diff)
  moreover have "unat (of_nat (8 - ?c) :: 32 word) = 8 - ?c" by (subst unat_of_nat) simp
  ultimately have zb: "unat (zero_blocks v) + ?c = 8" using \<open>?c \<le> 8\<close> by simp
  obtain b c bs' where bs: "bs = b # c # bs'" using assms(3) by (cases bs; cases "tl bs") auto
  show ?thesis
  proof (cases "b = 0 \<and> c = 0")
    case True
    have "bs' \<noteq> []" using bs assms(3) by auto
    then have pt: "plain_text False z bs = ch_colon # gap_text bs'"
      using True bs by (simp add: gap_text_def)
    have "ip6_reads L v (ch_colon # gap_text bs') ([] @ current_block_value v # 0 # bs')"
      by (rule reads_gap [OF assms(1) _ v(1)]) (use assms(2,3) bs zb pt in simp_all)
    then show ?thesis unfolding pt using v(2) True bs by simp
  next
    case False
    then have pt: "plain_text False z bs = hex_text b @ plain_text True z (c # bs')"
      using bs by (cases "b = 0") (simp_all del: plain_text.simps(2) add: plain_text.simps(2) [of False])
    let ?v = "v\<lparr>current_block_value := b\<rparr>"
    have "ip6_reads L ?v (plain_text True z (c # bs')) ([] @ current_block_value ?v # c # bs')"
      by (rule reads_plain [OF assms(1)]) (use assms(2,3) v(1) bs zb pt in \<open>simp_all add: colons_hex del: plain_text.simps\<close>)
    then show ?thesis unfolding pt
      using reads_hex [OF assms(1) _ v(2)] assms(2) bs by simp
  qed
qed

lemma ip6_count_text:
  assumes "port_ok L"
  shows "\<forall>c\<in>set s. c = ch_colon \<or> (lp_isxdigit L c) \<Longrightarrow>
    ip6_count ipv4 L zb s = Some (zb - of_nat (colons s), False)"
proof (induction s arbitrary: zb)
  case (Cons c s)
  have "\<not> lp_isxdigit L NUL" "\<not> lp_isxdigit L ch_colon" "\<not> lp_isxdigit L ch_dot"
    using assms by (simp_all add: port_ok_def)
  moreover have "ch_colon \<noteq> NUL" by simp
  ultimately show ?case
    using Cons by (cases "c = ch_colon") (auto simp: colons_def diff_diff_eq add.commute)
qed simp

lemma hex_text_xdigits: "port_ok L \<Longrightarrow> c \<in> set (hex_text w) \<Longrightarrow> lp_isxdigit L c"
  using xchar_props(1) hex_nibbles_less by (auto simp: hex_text_def)

lemma plain_text_chars:
  "port_ok L \<Longrightarrow> c \<in> set (plain_text sep z bs) \<Longrightarrow> c = ch_colon \<or> lp_isxdigit L c"
proof (induction sep z bs rule: plain_text.induct)
  case (2 sep z b bs)
  have "d = ch_colon \<or> lp_isxdigit L d" if "d \<in> set (gap_text bs)" for d
    using that hex_text_xdigits [OF 2(2)] by (auto simp: gap_text_def colon_text_def split: if_splits)
  then show ?case using 2 hex_text_xdigits [OF 2(2)] by (auto split: if_splits)
qed simp

lemma ip6_block_less: "ip6_block L addr n < 0x10000"
proof -
  have "w AND 0xffff < (0x10000 :: 32 word)" for w
  proof -
    have "w AND 0xffff = take_bit 16 w" by (simp add: take_bit_eq_mask mask_eq_exp_minus_1)
    then show ?thesis by (simp add: word_less_nat_alt take_bit_eq_mod unat_mod)
  qed
  then show ?thesis by (simp add: ip6_block_def Let_def)
qed

lemma ip6_words_blocks:
  assumes "length addr = 4"
  shows "ip6_words (blocks_from L (addr @ [z]) 0) = map (lp_htonl L) addr"
proof (rule nth_equalityI)
  fix k assume "k < length (ip6_words (blocks_from L (addr @ [z]) 0))"
  then have k: "k < 4" by (simp add: ip6_words_def)
  have join: "push_bit 16 (drop_bit 16 w AND 0xffff) OR (w AND 0xffff) = w" for w :: "32 word"
  proof -
    have low: "w AND 0xffff = take_bit 16 w" for w :: "32 word"
      by (simp add: take_bit_eq_mask mask_eq_exp_minus_1)
    show ?thesis unfolding low
    proof (rule bit_word_eqI)
      fix n assume "n < LENGTH(32)"
      then show "bit (push_bit 16 (take_bit 16 (drop_bit 16 w)) OR take_bit 16 w) n = bit w n"
        by (cases "n < 16") (auto simp: bit_simps)
    qed
  qed
  have "blocks_from L (addr @ [z]) 0 ! (2 * k) = drop_bit 16 (lp_htonl L (addr ! k)) AND 0xffff"
    "blocks_from L (addr @ [z]) 0 ! (2 * k + 1) = lp_htonl L (addr ! k) AND 0xffff"
    using k assms by (simp_all add: blocks_from_def ip6_block_def nth_append)
  then show "ip6_words (blocks_from L (addr @ [z]) 0) ! k = map (lp_htonl L) addr ! k"
    using k assms join by (simp add: ip6_words_def)
qed (simp add: ip6_words_def assms)

lemma length_colon_text: "length (colon_text bs) \<le> 5 * length bs"
proof (induction bs)
  case (Cons b bs)
  then show ?case using length_hex_text [of b] by (simp add: colon_text_def)
qed (simp add: colon_text_def)

lemma length_gap_text: "bs \<noteq> [] \<Longrightarrow> length (gap_text bs) \<le> 5 * length bs"
  using length_colon_text [of "dropWhile (\<lambda>b. b = 0) bs"] length_dropWhile_le [of "\<lambda>b. b = 0" bs]
  by (cases bs) (auto simp: gap_text_def)

lemma length_plain_text: "length (plain_text sep z bs) + (if sep \<or> bs = [] then 0 else 1) \<le> 5 * length bs"
proof (induction sep z bs rule: plain_text.induct)
  case (2 sep z b bs)
  show ?case
  proof (cases "b = 0 \<and> (case bs of [] \<Rightarrow> z | b' # _ \<Rightarrow> b') = 0")
    case True
    then show ?thesis using length_gap_text [of bs] by (cases "bs = []") simp_all
  next
    case False
    then have "length (plain_text True z bs) \<le> 5 * length bs" using 2 by simp
    moreover have "plain_text sep z (b # bs) = (if sep then [ch_colon] else []) @ hex_text b @ plain_text True z bs"
      unfolding plain_text.simps(2) if_not_P [OF False] by simp
    ultimately show ?thesis using length_hex_text [of b] by (simp del: plain_text.simps)
  qed
qed simp

text \<open>The form with blocks only.\<close>

lemma ip6_hex_roundtrip:
  assumes L: "port_ok L" and addr: "length addr = 4" "length addr0 = 4" and buflen: "40 \<le> buflen"
    and plain: "\<not> (ipv4 \<and> ip6_addr_isipv4mappedipv6 L (addr @ [z]))"
  shows "\<exists>s. ip6addr_ntoa_r ipv4 L (addr @ [z]) buflen = Ntoa (s @ [NUL]) \<and> length s < 40 \<and> NUL \<notin> set s
    \<and> ip6addr_aton ipv4 L s (Some addr0) = Some (True, Some addr)"
proof -
  let ?bs = "blocks_from L (addr @ [z]) 0"
  let ?s = "plain_text False (ip6_block L (addr @ [z]) 8) ?bs"
  have len: "length ?bs = 8" by (simp add: blocks_from_def)
  then have short: "length ?s < 40"
    using length_plain_text [of False "ip6_block L (addr @ [z]) 8" ?bs] by (auto split: if_splits)
  have "ntoa6_loop L (addr @ [z]) buflen 0 0 [] = Ntoa ?s"
    using ntoa6_loop_plain [of 0 "[]" buflen L "addr @ [z]"] buflen by (simp add: fits_def)
  then have print: "ip6addr_ntoa_r ipv4 L (addr @ [z]) buflen = Ntoa (?s @ [NUL])"
    unfolding ip6addr_ntoa_r_def if_not_P [OF plain] using short buflen by simp
  have chars: "\<forall>c\<in>set ?s. c = ch_colon \<or> lp_isxdigit L c" using plain_text_chars [OF L] by blast
  have "\<not> lp_isxdigit L NUL" using L by (simp add: port_ok_def)
  moreover have "ch_colon \<noteq> NUL" by simp
  ultimately have nul: "NUL \<notin> set ?s" using chars by metis
  let ?zb = "8 - of_nat (colons ?s) :: 32 word"
  let ?v = "\<lparr>i6_addr = Some addr0, addr_index = 0, zero_blocks = ?zb, current_block_index = 0, current_block_value = 0\<rparr>"
  have "ip6_reads L ?v ?s ?bs"
    by (rule reads_text [OF L _ len addr(2) _ refl]) (auto simp: blocks_from_def ip6_block_less)
  then obtain v' v'' where v: "ip6_blocks False L ?v ?s = Some (Ip6_done v')" "ip6_store v' = Some v''"
     "current_block_index v'' = 7" "i6_addr v'' = Some (ip6_words ?bs)"
    unfolding ip6_reads_def by blast
  have "map (lp_htonl L) (ip6_words ?bs) = addr"
    unfolding ip6_words_blocks [OF addr(1)] using L by (simp add: port_ok_def o_def)
  then have "ip6addr_aton ipv4 L ?s (Some addr0) = Some (True, Some addr)"
    unfolding ip6addr_aton_def ip6_count_text [OF L chars] using v by (simp add: ip6_finish_def)
  then show ?thesis using print short nul by blast
qed

section \<open>Addresses that hold an IPv4 address\<close>

lemma ip6_count_digits:
  assumes "port_ok L"
  shows "\<forall>c\<in>set ds. ch_0 \<le> c \<and> c \<le> ch_9 \<Longrightarrow> ip6_count ipv4 L zb (ds @ s) = ip6_count ipv4 L zb s"
proof (induction ds)
  case (Cons c ds)
  then have "lp_isxdigit L c" using assms by (simp add: port_ok_def)
  moreover have "c \<noteq> NUL" "c \<noteq> ch_colon" "c \<noteq> ch_dot" using Cons.prems by auto
  ultimately show ?case using Cons by simp
qed simp

lemma mapped_text: "IP4MAPPED_HEADER = ch_colon # ch_colon # hex_text 0xffff @ [ch_colon]"
  unfolding IP4MAPPED_HEADER_def hex_text_def hex_nibbles_def nibble_def by code_simp

lemma ip6_count_mapped:
  assumes "port_ok L"
  shows "ip6_count True L 8 (IP4MAPPED_HEADER @ ip4_text w) = Some (4, True)"
proof -
  obtain t where t: "ip4_text w = rev (ip4_inv (ucast (drop_bit 24 w))) @ ch_dot # t" by (simp add: ip4_text_def)
  have "\<forall>c\<in>set (rev (ip4_inv (ucast (drop_bit 24 w)))). ch_0 \<le> c \<and> c \<le> ch_9" using inv_digits by simp
  then have "ip6_count True L 5 (ip4_text w) = Some (4, True)"
    unfolding t ip6_count_digits [OF assms \<open>\<forall>c\<in>_. _\<close>] by simp
  moreover have "lp_isxdigit L 0x46" using assms by (simp add: port_ok_def)
  ultimately show ?thesis by (simp add: IP4MAPPED_HEADER_def)
qed

lemma ip6_mapped_reads:
  assumes L: "port_ok L" and "length addr0 = 4"
  shows "ip6addr_aton True L (IP4MAPPED_HEADER @ ip4_text w) (Some addr0)
     = Some (True, Some (map (lp_htonl L) [0, 0, 0xffff, w]))"
proof -
  let ?v = "\<lparr>i6_addr = Some addr0, addr_index = 0, zero_blocks = 4, current_block_index = 0, current_block_value = 0\<rparr>"
  let ?rest = "hex_text 0xffff @ ch_colon # ip4_text w"
  have "ip6_holds ?v []" using assms(2) by (simp add: ip6_holds_def)
  moreover have "replicate (unat (zero_blocks ?v)) (0 :: 32 word) = [0, 0, 0, 0]" by code_simp
  ultimately obtain v1 where v1: "ip6_colon True L ?v (ch_colon # ?rest) = Some (Inr (v1, ?rest))"
    "current_block_value v1 = 0" "ip6_holds v1 [0, 0, 0, 0, 0]"
    using ip6_colon_double [of ?v "[]" ?rest True L] hex_text_at [OF L, of "0xffff"] by auto
  let ?v2 = "v1\<lparr>current_block_value := 0xffff\<rparr>"
  have "ip6_holds ?v2 [0, 0, 0, 0, 0]" "length [0, 0, 0, 0, 0 :: 32 word] < 8" using v1(3) by simp_all
  then obtain v3 where "ip6_store ?v2 = Some v3" "current_block_index v3 = length [0, 0, 0, 0, 0 :: 32 word]"
    "ip6_holds (v3\<lparr>current_block_index := length [0, 0, 0, 0, 0 :: 32 word] + 1\<rparr>) ([0, 0, 0, 0, 0] @ [current_block_value ?v2])"
    by (rule ip6_store_holds)
  then have v3: "ip6_store ?v2 = Some v3" "current_block_index v3 = 5"
    "ip6_holds (v3\<lparr>current_block_index := 6\<rparr>) [0, 0, 0, 0, 0, 0xffff]"
    by (simp_all add: eval_nat_numeral)
  then obtain addr where addr: "i6_addr v3 = Some addr" "length addr = 4"
     "\<forall>k<3. addr ! k = push_bit 16 ([0, 0, 0, 0, 0, 0xffff] ! (2 * k)) OR [0, 0, 0, 0, 0, 0xffff] ! (2 * k + 1)"
    by (auto simp: ip6_holds_def)
  have "addr ! 0 = 0" "addr ! 1 = 0" "addr ! 2 = 0xffff" using addr(3) by simp_all
  then have words: "addr[3 := w] = [0, 0, 0xffff, w]"
    using addr(2) by (intro nth_equalityI) (auto simp: less_Suc_eq numeral_eq_Suc)
  have "ip4addr_aton L (ip4_text w) = Some (lp_htonl L w)" and inv: "\<And>x. lp_htonl L (lp_htonl L x) = x"
    using ip4addr_aton_text [OF L] L by (simp_all add: port_ok_def)
  then have "ip6_colon True L ?v2 (ip4_text w) =
      Some (Inl (Ip6_fix (v3\<lparr>i6_addr := Some [0, 0, 0xffff, w], current_block_index := 7\<rparr>)))"
    using v3(1,2) addr(1,2) words by (simp add: ip6_colon_def addr_put_def)
  moreover have "ip6_blocks True L v1 ?rest = ip6_blocks True L ?v2 (ch_colon # ip4_text w)"
    by (rule ip6_blocks_hex [OF L _ v1(2)]) simp
  ultimately have "ip6_blocks True L ?v (IP4MAPPED_HEADER @ ip4_text w) =
      Some (Ip6_fix (v3\<lparr>i6_addr := Some [0, 0, 0xffff, w], current_block_index := 7\<rparr>))"
    using v1(1) by (simp add: mapped_text)
  then show ?thesis
    unfolding ip6addr_aton_def ip6_count_mapped [OF L] by (simp add: ip6_finish_def)
qed

lemma ip6_mapped_roundtrip:
  assumes L: "port_ok L" and addr: "length addr = 4" "length addr0 = 4" and buflen: "40 \<le> buflen"
    and mapped: "ip6_addr_isipv4mappedipv6 L (addr @ [z])"
  shows "\<exists>s. ip6addr_ntoa_r True L (addr @ [z]) buflen = Ntoa (s @ [NUL]) \<and> length s < 40 \<and> NUL \<notin> set s
    \<and> ip6addr_aton True L s (Some addr0) = Some (True, Some addr)"
proof -
  let ?w = "lp_htonl L (addr ! 3)"
  let ?s = "IP4MAPPED_HEADER @ ip4_text ?w"
  have hdr: "length IP4MAPPED_HEADER = 7" by (simp add: IP4MAPPED_HEADER_def)
  have short: "length (ip4_text ?w) \<le> 15" by (rule length_ip4_text)
  then have "ip4addr_ntoa_r L (addr ! 3) (buflen - 7) = Some (ip4_text ?w @ [NUL])"
    using ip4addr_ntoa_r_text [OF L] buflen by simp
  then have print: "ip6addr_ntoa_r True L (addr @ [z]) buflen = Ntoa (?s @ [NUL])"
    using mapped buflen addr(1) hdr by (simp add: ip6addr_ntoa_r_def nth_append)
  have inv: "\<And>x. lp_htonl L (lp_htonl L x) = x" "lp_htonl L 0 = 0" using L by (simp_all add: port_ok_def)
  have "addr = map (lp_htonl L) [0, 0, 0xffff, ?w]"
    using mapped addr(1) inv
    by (intro nth_equalityI) (auto simp: ip6_addr_isipv4mappedipv6_def nth_append less_Suc_eq numeral_eq_Suc)
  then have "ip6addr_aton True L ?s (Some addr0) = Some (True, Some addr)"
    using ip6_mapped_reads [OF L addr(2), of ?w] by simp
  moreover have "NUL \<notin> set ?s"
    using inv_digits [of NUL] by (auto simp: IP4MAPPED_HEADER_def ip4_text_def)
  moreover have "length ?s < 40" using short hdr by simp
  ultimately show ?thesis using print by blast
qed

text \<open>C35: an IPv6 address that is printed is read back, with and without IPv4, whatever lies
  behind the address in memory and whatever the array held into which it is read. The buffer
  that \<open>ip6addr_ntoa\<close> uses is large enough for every address.\<close>

theorem ip6_text_roundtrip:
  assumes "port_ok L" and "length addr = 4" and "length addr0 = 4" and "40 \<le> buflen"
  shows "\<exists>s. ip6addr_ntoa_r ipv4 L (addr @ [z]) buflen = Ntoa (s @ [NUL]) \<and> length s < 40 \<and> NUL \<notin> set s
    \<and> ip6addr_aton ipv4 L s (Some addr0) = Some (True, Some addr)"
proof (cases "ipv4 \<and> ip6_addr_isipv4mappedipv6 L (addr @ [z])")
  case True
  then show ?thesis using ip6_mapped_roundtrip [OF assms, of z] by simp
next
  case False
  then show ?thesis by (rule ip6_hex_roundtrip [OF assms])
qed

theorem ip6_text_roundtrip_witness:
  "\<exists>s. ip6addr_ntoa_r True le_port ([0xb80d0120, 0, 0, 0x01000000] @ [7]) 40 = Ntoa (s @ [NUL]) \<and> length s < 40
    \<and> NUL \<notin> set s
    \<and> ip6addr_aton True le_port s (Some [1, 2, 3, 4]) = Some (True, Some [0xb80d0120, 0, 0, 0x01000000])"
  by (rule ip6_text_roundtrip [OF le_port_ok]) simp_all

text \<open>A last block that is a single zero is printed from the memory behind the address, and a
  block of more than four digits runs into the block before it.\<close>

lemma ip6_ntoa_reads_behind:
  "ip6addr_ntoa True be_port [0x10001, 0x10001, 0x10001, 0x10000, 0] = Ntoa (bytes ''1:1:1:1:1:1:1:'' @ [NUL])"
  "ip6addr_ntoa True be_port [0x10001, 0x10001, 0x10001, 0x10000, 0x10000] = Ntoa (bytes ''1:1:1:1:1:1:1:0'' @ [NUL])"
  by code_simp+

lemma ip6_aton_long_block:
  "ip6addr_aton True be_port (bytes ''1:23456::'') (Some [0, 0, 0, 0]) = Some (True, Some [0x00033456, 0, 0, 0])"
  by code_simp

end
