(* ===== verification/Lwip_Ethernet.thy ===== *)
theory Lwip_Ethernet
  imports Lwip_Ip4_Addr
begin

text \<open>
  Sending Ethernet frames in lwIP (\<open>netif/ethernet.c\<close>, \<open>ethernet_output\<close>), and what this layer
  and ARP share: packet buffers, the configuration of the stack and the functions of files
  that are not in the repository, and the trace of what happens outside of the tables.

  Pointers to packet buffers and to network interfaces are numbers. An assertion that fails and
  an access out of bounds are \<open>None\<close>.
\<close>

section \<open>Packets, results, effects\<close>

type_synonym ip4_addr = "32 word"
type_synonym eth_addr = "byte list"
type_synonym netif_ptr = nat

text \<open>A packet buffer with its chain: \<open>len\<close>, \<open>tot_len\<close> and \<open>PBUF_NEEDS_COPY\<close> of every member, and
  the bytes of the packet, from \<open>payload\<close> on.\<close>

record pbuf_seg =
  seg_len :: nat
  seg_tot_len :: nat
  seg_needs_copy :: bool

record pbuf =
  pb_ptr :: nat
  pb_chain :: "pbuf_seg list"
  pb_bytes :: "byte list"

text \<open>A buffer that was received: the bytes of its first member, the index of the interface, 0 for
  \<open>NETIF_NO_INDEX\<close>, and the flags for link-layer multicast and broadcast.\<close>

datatype pbuf_flag = PBUF_FLAG_LLMCAST | PBUF_FLAG_LLBCAST

record rx_pbuf =
  rx_ptr :: nat
  rx_bytes :: "byte list"
  rx_if_idx :: nat
  rx_flags :: "pbuf_flag list"

datatype err_t = ERR_OK | ERR_MEM | ERR_BUF | ERR_RTE | ERR_ARG | ERR_VAL | ERR_IF | ERR_USE

text \<open>Effects, in the order in which they happen: a frame handed to \<open>netif->linkoutput\<close>, references
  to packet buffers that are taken (\<open>pbuf_ref\<close>, \<open>pbuf_clone\<close>, \<open>pbuf_alloc\<close>) and given back
  (\<open>pbuf_free\<close>), and calls of other modules. A received buffer that is handed to another module
  is that module's to release.\<close>

datatype effect =
    Link_output netif_ptr "byte list"
  | Pbuf_ref nat
  | Pbuf_new nat
  | Pbuf_free nat
  | Autoip_arp_reply netif_ptr "byte list"
  | Dhcp_arp_reply netif_ptr ip4_addr
  | Ip4_input rx_pbuf netif_ptr
  | Ip6_input rx_pbuf netif_ptr
  | Pppoe_disc_input netif_ptr rx_pbuf
  | Pppoe_data_input netif_ptr rx_pbuf
  | Unknown_eth_protocol rx_pbuf netif_ptr

section \<open>Configuration and environment\<close>

text \<open>
  The options of \<open>lwipopts.h\<close> under their names; a hook that is not defined is \<open>None\<close>. The
  functions of other files may answer differently each time: their answer is a function of the
  effects so far. \<open>VLAN_CHECK\<close> stands for whichever of the three ways to check a VLAN tag is
  configured (\<open>LWIP_HOOK_VLAN_CHECK\<close>, \<open>ETHARP_VLAN_CHECK_FN\<close>, \<open>ETHARP_VLAN_CHECK\<close>).
\<close>

record lwip_env =
  port :: lwip_port
  nif :: "netif_ptr \<Rightarrow> netif"
  ETH_PAD :: "byte list"
  ETHTYPE_IP :: "16 word"
  ETHTYPE_ARP :: "16 word"
  ETHTYPE_VLAN :: "16 word"
  ETHTYPE_IPV6 :: "16 word"
  ETHTYPE_PPPOEDISC :: "16 word"
  ETHTYPE_PPPOE :: "16 word"
  ETHARP_SUPPORT_VLAN :: bool
  LWIP_HOOK_VLAN_SET :: "(netif_ptr \<Rightarrow> nat \<Rightarrow> eth_addr \<Rightarrow> eth_addr \<Rightarrow> 16 word \<Rightarrow> int) option"
  VLAN_CHECK :: "(netif_ptr \<Rightarrow> byte list \<Rightarrow> bool) option"
  LWIP_ARP_FILTER_NETIF_FN :: "(rx_pbuf \<Rightarrow> netif_ptr \<Rightarrow> 16 word \<Rightarrow> netif_ptr) option"
  LWIP_HOOK_UNKNOWN_ETH_PROTOCOL :: "(rx_pbuf \<Rightarrow> netif_ptr \<Rightarrow> bool) option"
  LWIP_IPV4 :: bool
  LWIP_ARP :: bool
  LWIP_IPV6 :: bool
  PPPOE_SUPPORT :: bool
  ARP_TABLE_SIZE :: nat
  ARP_MAXAGE :: nat
  LWIP_ND6_NUM_DESTINATIONS :: nat
  ARP_QUEUEING :: bool
  ARP_QUEUE_LEN :: nat
  ETHARP_SUPPORT_STATIC_ENTRIES :: bool
  ETHARP_TABLE_MATCH_NETIF :: bool
  LWIP_NETIF_HWADDRHINT :: bool
  LWIP_AUTOIP :: bool
  DHCP_DOES_ARP_CHECK :: bool
  LWIP_HOOK_ETHARP_GET_GW :: "(netif_ptr \<Rightarrow> ip4_addr \<Rightarrow> ip4_addr option) option"
  LWIP_DEBUG :: bool
  ip4_addr_cmp :: "ip4_addr \<Rightarrow> ip4_addr \<Rightarrow> bool"
  ip4_addr_isany :: "ip4_addr \<Rightarrow> bool"
  ip4_addr_ismulticast :: "ip4_addr \<Rightarrow> bool"
  ip4_addr_islinklocal :: "ip4_addr \<Rightarrow> bool"
  ip4_addr_isbroadcast :: "ip4_addr \<Rightarrow> netif \<Rightarrow> bool"
  ip4_load :: "byte list \<Rightarrow> ip4_addr"
  ip4_route :: "ip4_addr \<Rightarrow> netif_ptr option"
  pbuf_add_header :: "effect list \<Rightarrow> bool"
  pbuf_remove_header :: "effect list \<Rightarrow> bool"
  linkoutput :: "effect list \<Rightarrow> err_t"
  pbuf_alloc :: "effect list \<Rightarrow> nat option"
  pbuf_clone :: "effect list \<Rightarrow> pbuf \<Rightarrow> pbuf option"
  memp_malloc :: "effect list \<Rightarrow> bool"

definition ETH_HWADDR_LEN :: nat where "ETH_HWADDR_LEN = 6"
definition SIZEOF_VLAN_HDR :: nat where "SIZEOF_VLAN_HDR = 4"

definition SIZEOF_ETH_HDR :: "lwip_env \<Rightarrow> nat" where "SIZEOF_ETH_HDR E = 14 + length (ETH_PAD E)"

definition ethbroadcast :: eth_addr where "ethbroadcast = [0xff, 0xff, 0xff, 0xff, 0xff, 0xff]"
definition ethzero :: eth_addr where "ethzero = [0, 0, 0, 0, 0, 0]"

text \<open>What is relied on of the address macros: \<open>ip4_load\<close> reads an address from memory.\<close>

definition env_ok :: "lwip_env \<Rightarrow> bool" where
  "env_ok E \<longleftrightarrow> port_ok (port E)
     \<and> (\<forall>a b. ip4_addr_cmp E a b \<longleftrightarrow> a = b)
     \<and> (\<forall>a. ip4_addr_isany E a \<longleftrightarrow> a = IPADDR_ANY (port E))
     \<and> (\<forall>a n. ip4_addr_isbroadcast E a n \<longleftrightarrow> ip4_addr_isbroadcast_u32 (port E) a n)
     \<and> (\<forall>a. ip4_load E (lp_mem (port E) a) = a \<and> length (lp_mem (port E) a) = 4)
     \<and> distinct [ETHTYPE_IP E, ETHTYPE_ARP E, ETHTYPE_VLAN E, ETHTYPE_IPV6 E, ETHTYPE_PPPOEDISC E, ETHTYPE_PPPOE E]"

section \<open>\<open>ethernet_output\<close>\<close>

text \<open>A field of 16 bits in network byte order, after \<open>lwip_htons\<close>.\<close>

definition be16 :: "16 word \<Rightarrow> byte list" where
  "be16 w = [ucast (drop_bit 8 w), ucast w]"

definition load_be16 :: "byte list \<Rightarrow> 16 word" where
  "load_be16 b = push_bit 8 (ucast (b ! 0)) OR ucast (b ! 1)"

definition eth_hdr_bytes :: "lwip_env \<Rightarrow> eth_addr \<Rightarrow> eth_addr \<Rightarrow> 16 word \<Rightarrow> byte list" where
  "eth_hdr_bytes E dst src eth_type = ETH_PAD E @ dst @ src @ be16 eth_type"

text \<open>The result is the error code and the effects; the header is put in front of the packet.\<close>

definition ethernet_output ::
  "lwip_env \<Rightarrow> netif_ptr \<Rightarrow> nat \<Rightarrow> byte list \<Rightarrow> eth_addr \<Rightarrow> eth_addr \<Rightarrow> 16 word \<Rightarrow> effect list
   \<Rightarrow> (err_t \<times> effect list) option"
where
  "ethernet_output E n p payload src dst eth_type tr =
     (let vlan_prio_vid =
            (case LWIP_HOOK_VLAN_SET E of
               Some hook \<Rightarrow> if ETHARP_SUPPORT_VLAN E then hook n p src dst eth_type else -1
             | None \<Rightarrow> -1)
      in
      if vlan_prio_vid \<ge> 0 \<and> vlan_prio_vid > 0xffff then None
      else if \<not> pbuf_add_header E tr then Some (ERR_BUF, tr)
      else if hwaddr_len (nif E n) \<noteq> ETH_HWADDR_LEN then None
      else
        (let hdr = (if vlan_prio_vid \<ge> 0
                    then eth_hdr_bytes E dst src (ETHTYPE_VLAN E) @ be16 (word_of_int vlan_prio_vid) @ be16 eth_type
                    else eth_hdr_bytes E dst src eth_type)
         in Some (linkoutput E tr, tr @ [Link_output n (hdr @ payload)])))"

end
