(* ===== verification/Lwip_Udp.thy ===== *)
theory Lwip_Udp
  imports Lwip_Ethernet
begin

text \<open>
  UDP in lwIP (\<open>core/udp.c\<close>), function by function: local ports, the list of control blocks, input
  with its search for the receiver, and output. Control blocks and packet buffers are numbers;
  \<open>pcb_at\<close> is the memory of the control blocks. The callback of a control block is an effect: it is
  not modelled that it calls back into UDP. Null pointers as arguments, statistics and SNMP are left
  out.
\<close>

section \<open>State\<close>

text \<open>A protocol control block. The type \<open>'ip\<close> is \<open>ip_addr_t\<close>, which is in a header that is not in the
  repository. \<open>IP_PCB\<close> has the addresses, the interface, the options, \<open>tos\<close> and \<open>ttl\<close>. A callback with its
  argument is a number.\<close>

record 'ip udp_pcb =
  local_ip :: 'ip
  remote_ip :: 'ip
  netif_idx :: nat
  SOF_BROADCAST :: bool
  SOF_REUSEADDR :: bool
  pcb_tos :: byte
  pcb_ttl :: byte
  pcb_flags :: byte
  local_port :: "16 word"
  remote_port :: "16 word"
  mcast_ip4 :: ip4_addr
  mcast_ifindex :: nat
  mcast_ttl :: byte
  chksum_len_tx :: "16 word"
  recv :: "nat option"

definition UDP_FLAGS_NOCHKSUM :: byte where "UDP_FLAGS_NOCHKSUM = 0x01"
definition UDP_FLAGS_UDPLITE :: byte where "UDP_FLAGS_UDPLITE = 0x02"
definition UDP_FLAGS_CONNECTED :: byte where "UDP_FLAGS_CONNECTED = 0x04"
definition UDP_FLAGS_MULTICAST_LOOP :: byte where "UDP_FLAGS_MULTICAST_LOOP = 0x08"
definition UDP_HLEN :: nat where "UDP_HLEN = 8"
definition IP_PROTO_UDP :: byte where "IP_PROTO_UDP = 17"
definition IP_PROTO_UDPLITE :: byte where "IP_PROTO_UDPLITE = 136"
definition NETIF_NO_INDEX :: nat where "NETIF_NO_INDEX = 0"
definition NETIF_CHECKSUM_GEN_UDP :: "16 word" where "NETIF_CHECKSUM_GEN_UDP = 0x0002"
definition NETIF_CHECKSUM_CHECK_UDP :: "16 word" where "NETIF_CHECKSUM_CHECK_UDP = 0x0200"
definition UDP_LOCAL_PORT_RANGE_START :: "16 word" where "UDP_LOCAL_PORT_RANGE_START = 0xc000"
definition UDP_LOCAL_PORT_RANGE_END :: "16 word" where "UDP_LOCAL_PORT_RANGE_END = 0xffff"

text \<open>Effects: a datagram handed to the callback of a control block, which has to free it; packet buffers
  that are made, chained and freed; the ICMP message; and what is handed to IP.\<close>

datatype 'ip udp_effect =
    Udp_recv nat nat nat "byte list" 'ip "16 word"
  | Udp_pbuf_new nat
  | Udp_pbuf_chain nat nat
  | Udp_pbuf_free nat
  | Icmp_port_unreach bool nat
  | Ip_output nat "byte list" bool 'ip 'ip byte byte byte netif_ptr

text \<open>\<open>udp_pcbs\<close> is the list of the pointers, in the order of \<open>next\<close>.\<close>

record 'ip udp =
  udp_port :: "16 word"
  udp_pcbs :: "nat list"
  pcb_at :: "nat \<Rightarrow> 'ip udp_pcb"
  udp_trace :: "'ip udp_effect list"

text \<open>The packet that is processed (\<open>ip_data\<close>), and packet buffers: the length of the first member
  and the bytes of the chain.\<close>

record 'ip ip_globals =
  current_netif :: netif_ptr
  current_input_netif :: netif_ptr
  ip_current_src_addr :: 'ip
  ip_current_dest_addr :: 'ip
  ip_current_is_v6 :: bool
  ip_current_header_proto :: byte

record udp_pbuf =
  up_ptr :: nat
  up_len :: nat
  up_bytes :: "byte list"

text \<open>Options, and what is in files that are not in the repository: the operations of \<open>ip_addr_t\<close>, routing,
  checksums and packet buffers. \<open>store16\<close> and \<open>load16\<close> are a field of 16 bits in memory.\<close>

record 'ip udp_env =
  stack :: lwip_env
  SO_REUSE :: bool
  SO_REUSE_RXTOALL :: bool
  IP_SOF_BROADCAST :: bool
  IP_SOF_BROADCAST_RECV :: bool
  LWIP_MULTICAST_TX_OPTIONS :: bool
  LWIP_UDPLITE :: bool
  LWIP_ICMP :: bool
  LWIP_ICMP6 :: bool
  LWIP_IPV6_SCOPES :: bool
  CHECKSUM_CHECK_UDP :: bool
  CHECKSUM_GEN_UDP :: bool
  LWIP_CHECKSUM_ON_COPY :: bool
  LWIP_CHECKSUM_CTRL_PER_NETIF :: bool
  LWIP_RAND :: "(unit \<Rightarrow> 32 word) option"
  UDP_TTL :: byte
  chksum_flags :: "netif_ptr \<Rightarrow> 16 word"
  store16 :: "16 word \<Rightarrow> byte list"
  load16 :: "byte list \<Rightarrow> 16 word"
  IP_IS_ANY_TYPE_VAL :: "'ip \<Rightarrow> bool"
  IP_IS_V4 :: "'ip \<Rightarrow> bool"
  IP_IS_V6 :: "'ip \<Rightarrow> bool"
  IP_GET_TYPE :: "'ip \<Rightarrow> nat"
  IPADDR_TYPE_ANY :: nat
  IP_ADDR_PCB_VERSION_MATCH_EXACT :: "'ip \<Rightarrow> 'ip \<Rightarrow> bool"
  IP_ADDR_PCB_VERSION_MATCH :: "'ip \<Rightarrow> 'ip \<Rightarrow> bool"
  ip_addr_isany :: "'ip \<Rightarrow> bool"
  ip_addr_cmp :: "'ip \<Rightarrow> 'ip \<Rightarrow> bool"
  ip_addr_ismulticast :: "'ip \<Rightarrow> bool"
  ip_addr_isbroadcast :: "'ip \<Rightarrow> netif_ptr \<Rightarrow> bool"
  ip_2_ip4 :: "'ip \<Rightarrow> ip4_addr"
  ip6_addr_isany :: "'ip \<Rightarrow> bool"
  ip6_addr_ismulticast :: "'ip \<Rightarrow> bool"
  ip6_addr_lacks_zone :: "'ip \<Rightarrow> bool"
  ip6_addr_select_zone :: "'ip \<Rightarrow> 'ip \<Rightarrow> 'ip"
  IP4_ADDR_ANY :: 'ip
  IP_ANY_TYPE :: 'ip
  IP_ZERO :: 'ip
  ip_addr_any :: "bool \<Rightarrow> 'ip"
  IP_SET_TYPE :: "nat \<Rightarrow> 'ip \<Rightarrow> 'ip"
  netif_ip_addr4 :: "netif_ptr \<Rightarrow> 'ip"
  netif_get_ip6_addr_match :: "netif_ptr \<Rightarrow> 'ip \<Rightarrow> int"
  netif_get_by_index :: "nat \<Rightarrow> netif_ptr option"
  ip6_select_source_address :: "netif_ptr \<Rightarrow> 'ip \<Rightarrow> 'ip option"
  ip_route :: "'ip \<Rightarrow> 'ip \<Rightarrow> netif_ptr option"
  ip4_route_src :: "ip4_addr \<Rightarrow> ip4_addr \<Rightarrow> netif_ptr option"
  ip_chksum_pseudo :: "byte list \<Rightarrow> byte \<Rightarrow> 'ip \<Rightarrow> 'ip \<Rightarrow> 16 word"
  ip_chksum_pseudo_partial :: "byte list \<Rightarrow> byte \<Rightarrow> 16 word \<Rightarrow> 'ip \<Rightarrow> 'ip \<Rightarrow> 16 word"
  FOLD_U32T :: "32 word \<Rightarrow> 16 word"
  udp_add_header :: "'ip udp_effect list \<Rightarrow> bool"
  udp_remove_header :: "'ip udp_effect list \<Rightarrow> bool"
  udp_pbuf_alloc :: "'ip udp_effect list \<Rightarrow> nat option"
  udp_pbuf_clone :: "'ip udp_effect list \<Rightarrow> nat option"
  ip_output_if_src :: "'ip udp_effect list \<Rightarrow> err_t"

definition netif_get_index :: "'ip udp_env \<Rightarrow> netif_ptr \<Rightarrow> nat" where
  "netif_get_index U n = (num (nif (stack U) n) + 1) mod 256"

definition checksum_enabled :: "'ip udp_env \<Rightarrow> netif_ptr \<Rightarrow> 16 word \<Rightarrow> bool" where
  "checksum_enabled U n chksumflag \<longleftrightarrow> (LWIP_CHECKSUM_CTRL_PER_NETIF U \<longrightarrow> chksum_flags U n AND chksumflag \<noteq> 0)"

definition udp_emit :: "'ip udp_effect list \<Rightarrow> 'ip udp \<Rightarrow> 'ip udp" where
  "udp_emit evs st = st\<lparr>udp_trace := udp_trace st @ evs\<rparr>"

definition set_pcb :: "nat \<Rightarrow> 'ip udp_pcb \<Rightarrow> 'ip udp \<Rightarrow> 'ip udp" where
  "set_pcb p b st = st\<lparr>pcb_at := (pcb_at st)(p := b)\<rparr>"

section \<open>Ports\<close>

definition UDP_ENSURE_LOCAL_PORT_RANGE :: "32 word \<Rightarrow> 16 word" where
  "UDP_ENSURE_LOCAL_PORT_RANGE lport = ucast ((lport AND ucast (NOT UDP_LOCAL_PORT_RANGE_START)) + ucast UDP_LOCAL_PORT_RANGE_START)"

definition udp_init :: "'ip udp_env \<Rightarrow> 'ip udp \<Rightarrow> 'ip udp" where
  "udp_init U st =
     (case LWIP_RAND U of
        None \<Rightarrow> st
      | Some rand \<Rightarrow> st\<lparr>udp_port := UDP_ENSURE_LOCAL_PORT_RANGE (rand ())\<rparr>)"

text \<open>The loop of \<open>udp_new_port\<close>, with \<open>n\<close> and \<open>udp_port\<close>; the result is the lport and the new \<open>udp_port\<close>.\<close>

lemma new_port_decreases: "\<not> 0x3fff < n + 1 \<Longrightarrow> unat (0x3ffe - n) < unat (0x3fff - (n :: 16 word))"
proof -
  assume "\<not> 0x3fff < n + 1"
  then have "0x3fff - n \<noteq> 0" by auto
  then have "unat (0x3fff - n - 1) < unat (0x3fff - n)"
    using unat_minus_one [of "0x3fff - n"] unat_gt_0 [of "0x3fff - n"] by linarith
  moreover have "0x3fff - n - 1 = 0x3ffe - n" by simp
  ultimately show ?thesis by metis
qed

function new_port_loop :: "16 word list \<Rightarrow> 16 word \<Rightarrow> 16 word \<Rightarrow> 16 word \<times> 16 word" where
  "new_port_loop ports n lport =
     (let lport = (if lport = UDP_LOCAL_PORT_RANGE_END then UDP_LOCAL_PORT_RANGE_START else lport + 1) in
      if lport \<in> set ports then
        (let n = n + 1 in
         if n > UDP_LOCAL_PORT_RANGE_END - UDP_LOCAL_PORT_RANGE_START then (0, lport)
         else new_port_loop ports n lport)
      else (lport, lport))"
  by pat_completeness auto
termination
  by (relation "measure (\<lambda>(ports, n, lport). unat (0x3fff - n))")
    (auto simp: UDP_LOCAL_PORT_RANGE_END_def UDP_LOCAL_PORT_RANGE_START_def intro: new_port_decreases)

declare new_port_loop.simps [simp del]

definition udp_new_port :: "'ip udp \<Rightarrow> 16 word \<times> 'ip udp" where
  "udp_new_port st =
     (case new_port_loop (map (\<lambda>p. local_port (pcb_at st p)) (udp_pcbs st)) 0 (udp_port st) of
        (lport, lst) \<Rightarrow> (lport, st\<lparr>udp_port := lst\<rparr>))"

section \<open>Input\<close>

definition udp_input_local_match ::
  "'ip udp_env \<Rightarrow> 'ip ip_globals \<Rightarrow> 'ip udp_pcb \<Rightarrow> netif_ptr \<Rightarrow> bool \<Rightarrow> bool"
where
  "udp_input_local_match U D b inp broadcast =
     (let L = port (stack U); dest = ip_current_dest_addr D in
      if netif_idx b \<noteq> NETIF_NO_INDEX \<and> netif_idx b \<noteq> netif_get_index U (current_input_netif D) then False
      else if IP_IS_ANY_TYPE_VAL U (local_ip b) then
        \<not> (LWIP_IPV4 (stack U) \<and> IP_SOF_BROADCAST_RECV U \<and> broadcast \<and> \<not> SOF_BROADCAST b)
      else if IP_ADDR_PCB_VERSION_MATCH_EXACT U (local_ip b) dest then
        if LWIP_IPV4 (stack U) \<and> broadcast then
          (IP_SOF_BROADCAST_RECV U \<longrightarrow> SOF_BROADCAST b)
          \<and> (ip4_addr_isany (stack U) (ip_2_ip4 U (local_ip b))
             \<or> ip_2_ip4 U dest = IPADDR_BROADCAST L
             \<or> ip4_addr_netcmp L (ip_2_ip4 U (local_ip b)) (ip_2_ip4 U dest) (netmask (nif (stack U) inp)))
        else ip_addr_isany U (local_ip b) \<or> ip_addr_cmp U (local_ip b) dest
      else False)"

text \<open>The unconnected control block to fall back on, after the matching control block \<open>p\<close> was seen.\<close>

definition udp_uncon ::
  "'ip udp_env \<Rightarrow> 'ip ip_globals \<Rightarrow> netif_ptr \<Rightarrow> bool \<Rightarrow> (nat \<Rightarrow> 'ip udp_pcb) \<Rightarrow> nat option \<Rightarrow> nat \<Rightarrow> nat option"
where
  "udp_uncon U D inp broadcast mem uncon_pcb p =
     (if pcb_flags (mem p) AND UDP_FLAGS_CONNECTED = 0 then
        (case uncon_pcb of
           None \<Rightarrow> Some p
         | Some u \<Rightarrow>
             if LWIP_IPV4 (stack U) \<and> broadcast \<and> ip_2_ip4 U (ip_current_dest_addr D) = IPADDR_BROADCAST (port (stack U)) then
               if \<not> IP_IS_V4 U (local_ip (mem u))
                  \<or> \<not> ip4_addr_cmp (stack U) (ip_2_ip4 U (local_ip (mem u))) (ip_addr (nif (stack U) inp)) then
                 if IP_IS_V4 U (local_ip (mem p))
                    \<and> ip4_addr_cmp (stack U) (ip_2_ip4 U (local_ip (mem p))) (ip_addr (nif (stack U) inp))
                 then Some p else Some u
               else Some u
             else if SO_REUSE U \<and> \<not> ip_addr_isany U (local_ip (mem p)) then Some p
             else Some u)
      else uncon_pcb)"

definition udp_remote_match :: "'ip udp_env \<Rightarrow> 'ip ip_globals \<Rightarrow> 16 word \<Rightarrow> 'ip udp_pcb \<Rightarrow> bool" where
  "udp_remote_match U D src b \<longleftrightarrow> remote_port b = src
     \<and> (ip_addr_isany U (remote_ip b) \<or> ip_addr_cmp U (remote_ip b) (ip_current_src_addr D))"

text \<open>The search: \<open>pre\<close> are the control blocks before, the last of them is \<open>prev\<close>. The result is the fully
  matching control block, the list, in which it has been moved to the front, and \<open>uncon_pcb\<close>.\<close>

fun udp_search ::
  "'ip udp_env \<Rightarrow> 'ip ip_globals \<Rightarrow> netif_ptr \<Rightarrow> bool \<Rightarrow> (nat \<Rightarrow> 'ip udp_pcb) \<Rightarrow> 16 word \<Rightarrow> 16 word
   \<Rightarrow> nat list \<Rightarrow> nat option \<Rightarrow> nat list \<Rightarrow> nat option \<times> nat list \<times> nat option"
where
  "udp_search U D inp broadcast mem src dest pre uncon_pcb [] = (None, pre, uncon_pcb)"
| "udp_search U D inp broadcast mem src dest pre uncon_pcb (p # ps) =
     (if local_port (mem p) = dest \<and> udp_input_local_match U D (mem p) inp broadcast then
        (let uncon_pcb = udp_uncon U D inp broadcast mem uncon_pcb p in
         if udp_remote_match U D src (mem p) then (Some p, p # pre @ ps, uncon_pcb)
         else udp_search U D inp broadcast mem src dest (pre @ [p]) uncon_pcb ps)
      else udp_search U D inp broadcast mem src dest (pre @ [p]) uncon_pcb ps)"

definition udp_for_us :: "'ip udp_env \<Rightarrow> 'ip ip_globals \<Rightarrow> netif_ptr \<Rightarrow> nat option \<Rightarrow> bool" where
  "udp_for_us U D inp pcb =
     (if pcb \<noteq> None then True
      else if LWIP_IPV6 (stack U) \<and> ip_current_is_v6 D then netif_get_ip6_addr_match U inp (ip_current_dest_addr D) \<ge> 0
      else if LWIP_IPV4 (stack U) \<and> \<not> ip_current_is_v6 D
      then ip4_addr_cmp (stack U) (ip_addr (nif (stack U) inp)) (ip_2_ip4 U (ip_current_dest_addr D))
      else False)"

text \<open>The header in the byte order of the host, and the checksum as it lies in memory.\<close>

record udp_hdr =
  hdr_src :: "16 word"
  hdr_dest :: "16 word"
  hdr_len :: "16 word"
  hdr_chksum :: "16 word"

definition load_udp_hdr :: "'ip udp_env \<Rightarrow> byte list \<Rightarrow> udp_hdr" where
  "load_udp_hdr U b = \<lparr>hdr_src = load_be16 b, hdr_dest = load_be16 (drop 2 b), hdr_len = load_be16 (drop 4 b),
     hdr_chksum = load16 U (take 2 (drop 6 b))\<rparr>"

definition udp_hdr_bytes :: "'ip udp_env \<Rightarrow> udp_hdr \<Rightarrow> byte list" where
  "udp_hdr_bytes U h = be16 (hdr_src h) @ be16 (hdr_dest h) @ be16 (hdr_len h) @ store16 U (hdr_chksum h)"

text \<open>True for the jump to \<open>chkerr\<close>.\<close>

definition udp_chkerr :: "'ip udp_env \<Rightarrow> 'ip ip_globals \<Rightarrow> netif_ptr \<Rightarrow> byte list \<Rightarrow> bool" where
  "udp_chkerr U D inp b =
     (let h = load_udp_hdr U b; src = ip_current_src_addr D; dest = ip_current_dest_addr D in
      if CHECKSUM_CHECK_UDP U \<and> checksum_enabled U inp NETIF_CHECKSUM_CHECK_UDP then
        if LWIP_UDPLITE U \<and> ip_current_header_proto D = IP_PROTO_UDPLITE then
          if unat (hdr_len h) < UDP_HLEN \<and> hdr_len h \<noteq> 0 then True
          else
            (let chklen = (if hdr_len h = 0 then of_nat (length b) else hdr_len h) in
             ip_chksum_pseudo_partial U b IP_PROTO_UDPLITE chklen src dest \<noteq> 0)
        else hdr_chksum h \<noteq> 0 \<and> ip_chksum_pseudo U b IP_PROTO_UDP src dest \<noteq> 0
      else False)"

text \<open>Copies for all the other matching control blocks.\<close>

fun udp_rxtoall ::
  "'ip udp_env \<Rightarrow> 'ip ip_globals \<Rightarrow> netif_ptr \<Rightarrow> bool \<Rightarrow> 16 word \<Rightarrow> 16 word \<Rightarrow> nat \<Rightarrow> byte list \<Rightarrow> nat list \<Rightarrow> 'ip udp \<Rightarrow> 'ip udp"
where
  "udp_rxtoall U D inp broadcast src dest pcb payload [] st = st"
| "udp_rxtoall U D inp broadcast src dest pcb payload (m # ms) st =
     udp_rxtoall U D inp broadcast src dest pcb payload ms
       (if m \<noteq> pcb \<and> local_port (pcb_at st m) = dest \<and> udp_input_local_match U D (pcb_at st m) inp broadcast then
          (case recv (pcb_at st m) of
             None \<Rightarrow> st
           | Some cb \<Rightarrow>
               (case udp_pbuf_clone U (udp_trace st) of
                  None \<Rightarrow> st
                | Some q \<Rightarrow> udp_emit [Udp_pbuf_new q, Udp_recv cb m q payload (ip_current_src_addr D) src] st))
        else st)"

definition udp_deliver ::
  "'ip udp_env \<Rightarrow> 'ip ip_globals \<Rightarrow> netif_ptr \<Rightarrow> bool \<Rightarrow> 16 word \<Rightarrow> 16 word \<Rightarrow> nat \<Rightarrow> nat \<Rightarrow> byte list \<Rightarrow> 'ip udp \<Rightarrow> 'ip udp"
where
  "udp_deliver U D inp broadcast src dest pcb p payload st =
     (let st = (if SO_REUSE U \<and> SO_REUSE_RXTOALL U \<and> SOF_REUSEADDR (pcb_at st pcb)
                   \<and> (broadcast \<or> ip_addr_ismulticast U (ip_current_dest_addr D))
                then udp_rxtoall U D inp broadcast src dest pcb payload (udp_pcbs st) st else st)
      in
      case recv (pcb_at st pcb) of
        Some cb \<Rightarrow> udp_emit [Udp_recv cb pcb p payload (ip_current_src_addr D) src] st
      | None \<Rightarrow> udp_emit [Udp_pbuf_free p] st)"

text \<open>\<open>None\<close> is the assertion that the header can be removed.\<close>

definition udp_input :: "'ip udp_env \<Rightarrow> 'ip ip_globals \<Rightarrow> udp_pbuf \<Rightarrow> netif_ptr \<Rightarrow> 'ip udp \<Rightarrow> 'ip udp option" where
  "udp_input U D p inp st =
     (let free = udp_emit [Udp_pbuf_free (up_ptr p)] in
      if up_len p < UDP_HLEN then Some (free st)
      else
        (let broadcast = ip_addr_isbroadcast U (ip_current_dest_addr D) (current_netif D);
             h = load_udp_hdr U (up_bytes p)
         in
         case udp_search U D inp broadcast (pcb_at st) (hdr_src h) (hdr_dest h) [] None (udp_pcbs st) of
           (full, pcbs, uncon_pcb) \<Rightarrow>
             (let st = st\<lparr>udp_pcbs := pcbs\<rparr>; pcb = (if full \<noteq> None then full else uncon_pcb) in
              if \<not> udp_for_us U D inp pcb then Some (free st)
              else if udp_chkerr U D inp (up_bytes p) then Some (free st)
              else if \<not> udp_remove_header U (udp_trace st) then None
              else
                (case pcb of
                   Some c \<Rightarrow> Some (udp_deliver U D inp broadcast (hdr_src h) (hdr_dest h) c (up_ptr p) (drop UDP_HLEN (up_bytes p)) st)
                 | None \<Rightarrow>
                     Some (free (if (LWIP_ICMP U \<or> LWIP_ICMP6 U) \<and> \<not> broadcast \<and> \<not> ip_addr_ismulticast U (ip_current_dest_addr D)
                                 then udp_emit [Icmp_port_unreach (ip_current_is_v6 D) (up_ptr p)] st else st))))))"

section \<open>Control blocks\<close>

text \<open>Is the port taken by the control block \<open>ib\<close>? \<open>b\<close> is the one to be bound.\<close>

definition bind_conflict :: "'ip udp_env \<Rightarrow> 'ip udp_pcb \<Rightarrow> 'ip \<Rightarrow> 16 word \<Rightarrow> 'ip udp_pcb \<Rightarrow> bool" where
  "bind_conflict U b ipaddr lport ib \<longleftrightarrow>
     (SO_REUSE U \<longrightarrow> \<not> SOF_REUSEADDR b \<or> \<not> SOF_REUSEADDR ib)
     \<and> local_port ib = lport
     \<and> (IP_GET_TYPE U (local_ip ib) = IP_GET_TYPE U ipaddr
          \<and> (ip_addr_cmp U (local_ip ib) ipaddr \<or> ip_addr_isany U ipaddr \<or> ip_addr_isany U (local_ip ib))
        \<or> IP_GET_TYPE U (local_ip ib) = IPADDR_TYPE_ANY U
        \<or> IP_GET_TYPE U ipaddr = IPADDR_TYPE_ANY U)"

definition bind_finish :: "nat \<Rightarrow> 'ip \<Rightarrow> 16 word \<Rightarrow> 'ip udp \<Rightarrow> 'ip udp" where
  "bind_finish pcb ipaddr lport st =
     (let rebind = (pcb \<in> set (udp_pcbs st));
          st = set_pcb pcb ((pcb_at st pcb)\<lparr>local_ip := ipaddr, local_port := lport\<rparr>) st
      in if rebind then st else st\<lparr>udp_pcbs := pcb # udp_pcbs st\<rparr>)"

definition udp_bind :: "'ip udp_env \<Rightarrow> nat \<Rightarrow> 'ip option \<Rightarrow> 16 word \<Rightarrow> 'ip udp \<Rightarrow> err_t \<times> 'ip udp" where
  "udp_bind U pcb ipaddr lport st =
     (case (case ipaddr of Some a \<Rightarrow> Some a | None \<Rightarrow> if LWIP_IPV4 (stack U) then Some (IP4_ADDR_ANY U) else None) of
        None \<Rightarrow> (ERR_ARG, st)
      | Some ipaddr \<Rightarrow>
          (let ipaddr = (if LWIP_IPV6 (stack U) \<and> LWIP_IPV6_SCOPES U \<and> IP_IS_V6 U ipaddr \<and> ip6_addr_lacks_zone U ipaddr
                         then ip6_addr_select_zone U ipaddr ipaddr else ipaddr)
           in
           if lport = 0 then
             (case udp_new_port st of
                (lport, st) \<Rightarrow> if lport = 0 then (ERR_USE, st) else (ERR_OK, bind_finish pcb ipaddr lport st))
           else if \<exists>i\<in>set (udp_pcbs st). pcb \<noteq> i \<and> bind_conflict U (pcb_at st pcb) ipaddr lport (pcb_at st i)
           then (ERR_USE, st)
           else (ERR_OK, bind_finish pcb ipaddr lport st)))"

definition udp_bind_netif :: "'ip udp_env \<Rightarrow> nat \<Rightarrow> netif_ptr option \<Rightarrow> 'ip udp \<Rightarrow> 'ip udp" where
  "udp_bind_netif U pcb n st =
     set_pcb pcb ((pcb_at st pcb)\<lparr>netif_idx := (case n of Some n \<Rightarrow> netif_get_index U n | None \<Rightarrow> NETIF_NO_INDEX)\<rparr>) st"

definition udp_connect :: "'ip udp_env \<Rightarrow> nat \<Rightarrow> 'ip \<Rightarrow> 16 word \<Rightarrow> 'ip udp \<Rightarrow> err_t \<times> 'ip udp" where
  "udp_connect U pcb ipaddr rport st =
     (case (if local_port (pcb_at st pcb) = 0
            then udp_bind U pcb (Some (local_ip (pcb_at st pcb))) (local_port (pcb_at st pcb)) st else (ERR_OK, st)) of
        (err, st) \<Rightarrow>
          if err \<noteq> ERR_OK then (err, st)
          else
            (let b = pcb_at st pcb;
                 remote = (if LWIP_IPV6 (stack U) \<and> LWIP_IPV6_SCOPES U \<and> IP_IS_V6 U ipaddr \<and> ip6_addr_lacks_zone U ipaddr
                           then ip6_addr_select_zone U ipaddr (local_ip b) else ipaddr);
                 st = set_pcb pcb (b\<lparr>remote_ip := remote, remote_port := rport,
                                     pcb_flags := pcb_flags b OR UDP_FLAGS_CONNECTED\<rparr>) st
             in (ERR_OK, if pcb \<in> set (udp_pcbs st) then st else st\<lparr>udp_pcbs := pcb # udp_pcbs st\<rparr>)))"

definition udp_disconnect :: "'ip udp_env \<Rightarrow> nat \<Rightarrow> 'ip udp \<Rightarrow> 'ip udp" where
  "udp_disconnect U pcb st =
     (let b = pcb_at st pcb;
          remote = (if LWIP_IPV4 (stack U) \<and> LWIP_IPV6 (stack U) \<and> IP_IS_ANY_TYPE_VAL U (local_ip b)
                    then IP_ANY_TYPE U else ip_addr_any U (IP_IS_V6 U (remote_ip b)))
      in set_pcb pcb (b\<lparr>remote_ip := remote, remote_port := 0, netif_idx := NETIF_NO_INDEX,
                        pcb_flags := pcb_flags b AND NOT UDP_FLAGS_CONNECTED\<rparr>) st)"

definition udp_recv :: "nat \<Rightarrow> nat option \<Rightarrow> 'ip udp \<Rightarrow> 'ip udp" where
  "udp_recv pcb callback st = set_pcb pcb ((pcb_at st pcb)\<lparr>recv := callback\<rparr>) st"

text \<open>The first control block, or the one behind the first whose \<open>next\<close> it is.\<close>

definition udp_remove :: "nat \<Rightarrow> 'ip udp \<Rightarrow> 'ip udp" where
  "udp_remove pcb st = st\<lparr>udp_pcbs := remove1 pcb (udp_pcbs st)\<rparr>"

text \<open>\<open>ptr\<close> is what \<open>memp_malloc\<close> returns.\<close>

definition udp_new :: "'ip udp_env \<Rightarrow> nat option \<Rightarrow> 'ip udp \<Rightarrow> nat option \<times> 'ip udp" where
  "udp_new U ptr st =
     (case ptr of
        None \<Rightarrow> (None, st)
      | Some pcb \<Rightarrow>
          (Some pcb, set_pcb pcb
             \<lparr>local_ip = IP_ZERO U, remote_ip = IP_ZERO U, netif_idx = 0, SOF_BROADCAST = False, SOF_REUSEADDR = False,
              pcb_tos = 0, pcb_ttl = UDP_TTL U, pcb_flags = 0, local_port = 0, remote_port = 0, mcast_ip4 = 0,
              mcast_ifindex = 0, mcast_ttl = (if LWIP_MULTICAST_TX_OPTIONS U then UDP_TTL U else 0),
              chksum_len_tx = 0, recv = None\<rparr> st))"

definition udp_new_ip_type :: "'ip udp_env \<Rightarrow> nat \<Rightarrow> nat option \<Rightarrow> 'ip udp \<Rightarrow> nat option \<times> 'ip udp" where
  "udp_new_ip_type U type ptr st =
     (case udp_new U ptr st of
        (None, st) \<Rightarrow> (None, st)
      | (Some pcb, st) \<Rightarrow>
          (Some pcb,
           if LWIP_IPV4 (stack U) \<and> LWIP_IPV6 (stack U)
           then set_pcb pcb ((pcb_at st pcb)\<lparr>local_ip := IP_SET_TYPE U type (local_ip (pcb_at st pcb)),
                                            remote_ip := IP_SET_TYPE U type (remote_ip (pcb_at st pcb))\<rparr>) st
           else st))"

fun addr_changed_loop :: "'ip udp_env \<Rightarrow> 'ip \<Rightarrow> 'ip \<Rightarrow> nat list \<Rightarrow> 'ip udp \<Rightarrow> 'ip udp" where
  "addr_changed_loop U old_addr new_addr [] st = st"
| "addr_changed_loop U old_addr new_addr (p # ps) st =
     addr_changed_loop U old_addr new_addr ps
       (if ip_addr_cmp U (local_ip (pcb_at st p)) old_addr
        then set_pcb p ((pcb_at st p)\<lparr>local_ip := new_addr\<rparr>) st else st)"

definition udp_netif_ip_addr_changed :: "'ip udp_env \<Rightarrow> 'ip \<Rightarrow> 'ip \<Rightarrow> 'ip udp \<Rightarrow> 'ip udp" where
  "udp_netif_ip_addr_changed U old_addr new_addr st =
     (if \<not> ip_addr_isany U old_addr \<and> \<not> ip_addr_isany U new_addr
      then addr_changed_loop U old_addr new_addr (udp_pcbs st) st else st)"

section \<open>Output\<close>

text \<open>The checksum and the length field of a datagram whose bytes, with an empty checksum, are \<open>b\<close>.\<close>

definition chksum_nonzero :: "16 word \<Rightarrow> 16 word" where
  "chksum_nonzero c = (if c = 0 then 0xffff else c)"

definition add_have_chksum :: "'ip udp_env \<Rightarrow> 16 word \<Rightarrow> 16 word \<Rightarrow> 16 word" where
  "add_have_chksum U c chksum = FOLD_U32T U (ucast c + ucast (NOT chksum))"

definition udplite_chklen :: "'ip udp_pcb \<Rightarrow> nat \<Rightarrow> 16 word \<times> 16 word" where
  "udplite_chklen b tot_len =
     (let chklen = chksum_len_tx b in
      if unat chklen < UDP_HLEN \<or> unat chklen > tot_len then (0, of_nat tot_len) else (chklen, chklen))"

definition udp_header ::
  "'ip udp_env \<Rightarrow> 'ip udp_pcb \<Rightarrow> byte list \<Rightarrow> 'ip \<Rightarrow> 16 word \<Rightarrow> netif_ptr \<Rightarrow> bool \<Rightarrow> 16 word \<Rightarrow> 'ip \<Rightarrow> udp_hdr \<times> byte"
where
  "udp_header U b payload dst_ip dst_port n have_chksum chksum src_ip =
     (let tot_len = UDP_HLEN + length payload;
          have_chksum = (LWIP_CHECKSUM_ON_COPY U \<and> have_chksum);
          gen = (CHECKSUM_GEN_UDP U \<and> checksum_enabled U n NETIF_CHECKSUM_GEN_UDP);
          h = \<lparr>hdr_src = local_port b, hdr_dest = dst_port, hdr_len = 0, hdr_chksum = 0\<rparr>
      in
      if LWIP_UDPLITE U \<and> pcb_flags b AND UDP_FLAGS_UDPLITE \<noteq> 0 then
        (case udplite_chklen b tot_len of
           (chklen_hdr, chklen) \<Rightarrow>
             (let h = h\<lparr>hdr_len := chklen_hdr\<rparr>;
                  q = udp_hdr_bytes U h @ payload;
                  c = ip_chksum_pseudo_partial U q IP_PROTO_UDPLITE (if have_chksum then of_nat UDP_HLEN else chklen) src_ip dst_ip;
                  c = (if have_chksum then add_have_chksum U c chksum else c)
              in (if gen then h\<lparr>hdr_chksum := chksum_nonzero c\<rparr> else h, IP_PROTO_UDPLITE)))
      else
        (let h = h\<lparr>hdr_len := of_nat tot_len\<rparr>;
             q = udp_hdr_bytes U h @ payload;
             c = (if have_chksum
                  then add_have_chksum U (ip_chksum_pseudo_partial U q IP_PROTO_UDP (of_nat UDP_HLEN) src_ip dst_ip) chksum
                  else ip_chksum_pseudo U q IP_PROTO_UDP src_ip dst_ip)
         in (if gen \<and> (IP_IS_V6 U dst_ip \<or> pcb_flags b AND UDP_FLAGS_NOCHKSUM = 0)
             then h\<lparr>hdr_chksum := chksum_nonzero c\<rparr> else h, IP_PROTO_UDP)))"

text \<open>The datagram goes to IP, in \<open>p\<close> itself or behind a new buffer for the header.\<close>

definition udp_output ::
  "'ip udp_env \<Rightarrow> nat \<Rightarrow> udp_pbuf \<Rightarrow> 'ip \<Rightarrow> 16 word \<Rightarrow> netif_ptr \<Rightarrow> bool \<Rightarrow> 16 word \<Rightarrow> 'ip \<Rightarrow> nat \<Rightarrow> 'ip udp \<Rightarrow> err_t \<times> 'ip udp"
where
  "udp_output U pcb p dst_ip dst_port n have_chksum chksum src_ip q st =
     (let b = pcb_at st pcb;
          mcast = (LWIP_MULTICAST_TX_OPTIONS U \<and> ip_addr_ismulticast U dst_ip);
          ttl = (if mcast then mcast_ttl b else pcb_ttl b)
      in
      case udp_header U b (up_bytes p) dst_ip dst_port n have_chksum chksum src_ip of
        (h, ip_proto) \<Rightarrow>
          (ip_output_if_src U (udp_trace st),
           udp_emit [Ip_output q (udp_hdr_bytes U h @ up_bytes p)
             (mcast \<and> pcb_flags b AND UDP_FLAGS_MULTICAST_LOOP \<noteq> 0) src_ip dst_ip ttl (pcb_tos b) ip_proto n] st))"

definition udp_sendto_if_src_chksum ::
  "'ip udp_env \<Rightarrow> nat \<Rightarrow> udp_pbuf \<Rightarrow> 'ip \<Rightarrow> 16 word \<Rightarrow> netif_ptr \<Rightarrow> bool \<Rightarrow> 16 word \<Rightarrow> 'ip \<Rightarrow> 'ip udp \<Rightarrow> err_t \<times> 'ip udp"
where
  "udp_sendto_if_src_chksum U pcb p dst_ip dst_port n have_chksum chksum src_ip st =
     (let b = pcb_at st pcb; tot_len = (of_nat (length (up_bytes p)) :: 16 word) in
      if \<not> IP_ADDR_PCB_VERSION_MATCH U (local_ip b) src_ip \<or> \<not> IP_ADDR_PCB_VERSION_MATCH U (local_ip b) dst_ip then (ERR_VAL, st)
      else if LWIP_IPV4 (stack U) \<and> IP_SOF_BROADCAST U \<and> \<not> SOF_BROADCAST b
              \<and> (LWIP_IPV6 (stack U) \<longrightarrow> IP_IS_V4 U dst_ip) \<and> ip_addr_isbroadcast U dst_ip n then (ERR_VAL, st)
      else
        (case (if local_port b = 0 then udp_bind U pcb (Some (local_ip b)) (local_port b) st else (ERR_OK, st)) of
           (err, st) \<Rightarrow>
             if err \<noteq> ERR_OK then (err, st)
             else if tot_len + of_nat UDP_HLEN < tot_len then (ERR_MEM, st)
             else if udp_add_header U (udp_trace st)
             then udp_output U pcb p dst_ip dst_port n have_chksum chksum src_ip (up_ptr p) st
             else
               (case udp_pbuf_alloc U (udp_trace st) of
                  None \<Rightarrow> (ERR_MEM, st)
                | Some q \<Rightarrow>
                    (let st = udp_emit (Udp_pbuf_new q # (if tot_len \<noteq> 0 then [Udp_pbuf_chain q (up_ptr p)] else [])) st in
                     case udp_output U pcb p dst_ip dst_port n have_chksum chksum src_ip q st of
                       (err, st) \<Rightarrow> (err, udp_emit [Udp_pbuf_free q] st)))))"

definition udp_sendto_if_src ::
  "'ip udp_env \<Rightarrow> nat \<Rightarrow> udp_pbuf \<Rightarrow> 'ip \<Rightarrow> 16 word \<Rightarrow> netif_ptr \<Rightarrow> 'ip \<Rightarrow> 'ip udp \<Rightarrow> err_t \<times> 'ip udp"
where
  "udp_sendto_if_src U pcb p dst_ip dst_port n src_ip st =
     udp_sendto_if_src_chksum U pcb p dst_ip dst_port n False 0 src_ip st"

text \<open>The source address, \<open>None\<close> for \<open>ERR_RTE\<close>.\<close>

definition udp_source :: "'ip udp_env \<Rightarrow> 'ip udp_pcb \<Rightarrow> 'ip \<Rightarrow> netif_ptr \<Rightarrow> 'ip option" where
  "udp_source U b dst_ip n =
     (if LWIP_IPV6 (stack U) \<and> IP_IS_V6 U dst_ip then
        if ip6_addr_isany U (local_ip b) \<or> ip6_addr_ismulticast U (local_ip b) then ip6_select_source_address U n dst_ip
        else if netif_get_ip6_addr_match U n (local_ip b) < 0 then None
        else Some (local_ip b)
      else if ip4_addr_isany (stack U) (ip_2_ip4 U (local_ip b)) \<or> ip4_addr_ismulticast (stack U) (ip_2_ip4 U (local_ip b))
      then Some (netif_ip_addr4 U n)
      else if \<not> ip4_addr_cmp (stack U) (ip_2_ip4 U (local_ip b)) (ip_addr (nif (stack U) n)) then None
      else Some (local_ip b))"

definition udp_sendto_if_chksum ::
  "'ip udp_env \<Rightarrow> nat \<Rightarrow> udp_pbuf \<Rightarrow> 'ip \<Rightarrow> 16 word \<Rightarrow> netif_ptr \<Rightarrow> bool \<Rightarrow> 16 word \<Rightarrow> 'ip udp \<Rightarrow> err_t \<times> 'ip udp"
where
  "udp_sendto_if_chksum U pcb p dst_ip dst_port n have_chksum chksum st =
     (let b = pcb_at st pcb in
      if \<not> IP_ADDR_PCB_VERSION_MATCH U (local_ip b) dst_ip then (ERR_VAL, st)
      else
        (case udp_source U b dst_ip n of
           None \<Rightarrow> (ERR_RTE, st)
         | Some src_ip \<Rightarrow> udp_sendto_if_src_chksum U pcb p dst_ip dst_port n have_chksum chksum src_ip st))"

definition udp_sendto_if ::
  "'ip udp_env \<Rightarrow> nat \<Rightarrow> udp_pbuf \<Rightarrow> 'ip \<Rightarrow> 16 word \<Rightarrow> netif_ptr \<Rightarrow> 'ip udp \<Rightarrow> err_t \<times> 'ip udp"
where
  "udp_sendto_if U pcb p dst_ip dst_port n st = udp_sendto_if_chksum U pcb p dst_ip dst_port n False 0 st"

text \<open>The interface for a destination.\<close>

definition udp_netif :: "'ip udp_env \<Rightarrow> 'ip udp_pcb \<Rightarrow> 'ip \<Rightarrow> netif_ptr option" where
  "udp_netif U b dst_ip =
     (if netif_idx b \<noteq> NETIF_NO_INDEX then netif_get_by_index U (netif_idx b)
      else
        (let n = (if LWIP_MULTICAST_TX_OPTIONS U \<and> ip_addr_ismulticast U dst_ip then
                    if mcast_ifindex b \<noteq> NETIF_NO_INDEX then netif_get_by_index U (mcast_ifindex b)
                    else if LWIP_IPV4 (stack U) \<and> (LWIP_IPV6 (stack U) \<longrightarrow> IP_IS_V4 U dst_ip)
                            \<and> \<not> ip4_addr_isany (stack U) (mcast_ip4 b)
                            \<and> \<not> ip4_addr_cmp (stack U) (mcast_ip4 b) (IPADDR_BROADCAST (port (stack U)))
                    then ip4_route_src U (ip_2_ip4 U (local_ip b)) (mcast_ip4 b)
                    else None
                  else None)
         in case n of Some n \<Rightarrow> Some n | None \<Rightarrow> ip_route U (local_ip b) dst_ip))"

definition udp_sendto_chksum ::
  "'ip udp_env \<Rightarrow> nat \<Rightarrow> udp_pbuf \<Rightarrow> 'ip \<Rightarrow> 16 word \<Rightarrow> bool \<Rightarrow> 16 word \<Rightarrow> 'ip udp \<Rightarrow> err_t \<times> 'ip udp"
where
  "udp_sendto_chksum U pcb p dst_ip dst_port have_chksum chksum st =
     (if \<not> IP_ADDR_PCB_VERSION_MATCH U (local_ip (pcb_at st pcb)) dst_ip then (ERR_VAL, st)
      else
        (case udp_netif U (pcb_at st pcb) dst_ip of
           None \<Rightarrow> (ERR_RTE, st)
         | Some n \<Rightarrow> udp_sendto_if_chksum U pcb p dst_ip dst_port n have_chksum chksum st))"

definition udp_sendto :: "'ip udp_env \<Rightarrow> nat \<Rightarrow> udp_pbuf \<Rightarrow> 'ip \<Rightarrow> 16 word \<Rightarrow> 'ip udp \<Rightarrow> err_t \<times> 'ip udp" where
  "udp_sendto U pcb p dst_ip dst_port st = udp_sendto_chksum U pcb p dst_ip dst_port False 0 st"

definition udp_send_chksum :: "'ip udp_env \<Rightarrow> nat \<Rightarrow> udp_pbuf \<Rightarrow> bool \<Rightarrow> 16 word \<Rightarrow> 'ip udp \<Rightarrow> err_t \<times> 'ip udp" where
  "udp_send_chksum U pcb p have_chksum chksum st =
     (let b = pcb_at st pcb in
      if IP_IS_ANY_TYPE_VAL U (remote_ip b) then (ERR_VAL, st)
      else udp_sendto_chksum U pcb p (remote_ip b) (remote_port b) have_chksum chksum st)"

definition udp_send :: "'ip udp_env \<Rightarrow> nat \<Rightarrow> udp_pbuf \<Rightarrow> 'ip udp \<Rightarrow> err_t \<times> 'ip udp" where
  "udp_send U pcb p st =
     (let b = pcb_at st pcb in
      if IP_IS_ANY_TYPE_VAL U (remote_ip b) then (ERR_VAL, st)
      else udp_sendto U pcb p (remote_ip b) (remote_port b) st)"

end
