(* ===== verification/Op_Machine.thy ===== *)
theory Op_Machine
  imports Main
begin

text \<open>
  Histories of operations on a state. A machine whose operations succeed from good states and lead
  to good states runs through; what each of them adds to a quantity adds up. ARP and UDP are
  instances, with references to packet buffers as the quantity.
\<close>

fun run_ops :: "('op \<Rightarrow> 's \<Rightarrow> 's option) \<Rightarrow> 'op list \<Rightarrow> 's \<Rightarrow> 's option" where
  "run_ops step [] s = Some s"
| "run_ops step (op # ops) s = (case step op s of None \<Rightarrow> None | Some s \<Rightarrow> run_ops step ops s)"

text \<open>Every operation may be called in the state in which it is.\<close>

fun ops_valid :: "('op \<Rightarrow> 's \<Rightarrow> 's option) \<Rightarrow> ('op \<Rightarrow> 's \<Rightarrow> bool) \<Rightarrow> 'op list \<Rightarrow> 's \<Rightarrow> bool" where
  "ops_valid step valid [] s = True"
| "ops_valid step valid (op # ops) s =
     (valid op s \<and> (case step op s of None \<Rightarrow> True | Some s \<Rightarrow> ops_valid step valid ops s))"

lemma ops_valid_always: "\<forall>op\<in>set ops. P op \<Longrightarrow> ops_valid step (\<lambda>op s. P op) ops s"
  by (induction ops arbitrary: s) (auto split: option.split)

locale conserving_machine =
  fixes step :: "'op \<Rightarrow> 's \<Rightarrow> 's option"
    and valid :: "'op \<Rightarrow> 's \<Rightarrow> bool"
    and inv :: "'s \<Rightarrow> bool"
    and quantity :: "'s \<Rightarrow> 'k \<Rightarrow> int"
    and income :: "'op \<Rightarrow> 'k \<Rightarrow> int"
  assumes step_conserves: "inv s \<Longrightarrow> valid op s \<Longrightarrow>
    \<exists>s'. step op s = Some s' \<and> inv s' \<and> (\<forall>k. quantity s' k = quantity s k - income op k)"
begin

lemma run_conserves:
  "inv s \<Longrightarrow> ops_valid step valid ops s \<Longrightarrow>
   \<exists>s'. run_ops step ops s = Some s' \<and> inv s' \<and> (\<forall>k. quantity s' k = quantity s k - (\<Sum>op\<leftarrow>ops. income op k))"
proof (induction ops arbitrary: s)
  case (Cons op ops)
  then obtain s1 where s1: "step op s = Some s1" "inv s1" "\<forall>k. quantity s1 k = quantity s k - income op k"
    using step_conserves [of s op] by auto
  then obtain s' where "run_ops step ops s1 = Some s'" "inv s'"
    "\<forall>k. quantity s' k = quantity s1 k - (\<Sum>op\<leftarrow>ops. income op k)"
    using Cons.IH [of s1] Cons.prems by auto
  then show ?case using s1 by auto
qed simp

lemma run_invariant: "inv s \<Longrightarrow> ops_valid step valid ops s \<Longrightarrow> \<exists>s'. run_ops step ops s = Some s' \<and> inv s'"
  using run_conserves by blast

end

end
