(* ===== verification/Lwip_Udp_Thms.thy ===== *)
theory Lwip_Udp_Thms
  imports Lwip_Udp Op_Machine "HOL-Library.Multiset"
begin

text \<open>
  UDP: the port that is chosen is free, and one is found if there is one; which control block gets a
  datagram; and what every operation keeps: the list of control blocks never has two that are bound
  to the same address and port, and packet buffers are not lost. Histories of operations are an
  instance of \<open>conserving_machine\<close>.
\<close>

section \<open>Ports\<close>

text \<open>The ports of the range, counted around it.\<close>

definition nth_port :: "nat \<Rightarrow> 16 word" where
  "nth_port k = UDP_LOCAL_PORT_RANGE_START + of_nat (k mod 0x4000)"

lemma unat_nth_port: "unat (nth_port k) = 0xc000 + k mod 0x4000"
proof -
  have "k mod 0x4000 < 0x4000" by simp
  then show ?thesis by (simp add: nth_port_def UDP_LOCAL_PORT_RANGE_START_def unat_word_ariths unat_of_nat)
qed

lemma nth_port_range: "UDP_LOCAL_PORT_RANGE_START \<le> nth_port k" "nth_port k \<noteq> 0"
proof -
  show "UDP_LOCAL_PORT_RANGE_START \<le> nth_port k"
    by (simp add: word_le_nat_alt unat_nth_port UDP_LOCAL_PORT_RANGE_START_def)
  show "nth_port k \<noteq> 0" using unat_nth_port [of k] by auto
qed

lemma port_is_nth: "UDP_LOCAL_PORT_RANGE_START \<le> q \<Longrightarrow> \<exists>k<0x4000. q = nth_port k"
proof -
  assume "UDP_LOCAL_PORT_RANGE_START \<le> q"
  then have "0xc000 \<le> unat q" "unat q < 0x10000"
    using unsigned_less [of q] by (simp_all add: word_le_nat_alt UDP_LOCAL_PORT_RANGE_START_def)
  then have "unat q - 0xc000 < 0x4000" "unat (nth_port (unat q - 0xc000)) = unat q"
    by (simp_all add: unat_nth_port)
  then show ?thesis by (metis word_unat_eq_iff)
qed

lemma next_nth_port:
  "(if nth_port k = UDP_LOCAL_PORT_RANGE_END then UDP_LOCAL_PORT_RANGE_START else nth_port k + 1) = nth_port (Suc k)"
proof (cases "k mod 0x4000 = 0x3fff")
  case True
  then have "nth_port k = UDP_LOCAL_PORT_RANGE_END" "Suc k mod 0x4000 = 0"
    by (simp_all add: nth_port_def UDP_LOCAL_PORT_RANGE_START_def UDP_LOCAL_PORT_RANGE_END_def mod_Suc)
  then show ?thesis by (simp add: nth_port_def)
next
  case False
  then have "unat (nth_port k) \<noteq> unat (UDP_LOCAL_PORT_RANGE_END)"
    by (simp add: unat_nth_port UDP_LOCAL_PORT_RANGE_END_def)
  then have "nth_port k \<noteq> UDP_LOCAL_PORT_RANGE_END" by auto
  moreover have "Suc k mod 0x4000 = Suc (k mod 0x4000)" using False by (simp add: mod_Suc)
  ultimately show ?thesis by (simp add: nth_port_def)
qed

lemma new_port_loop_exact:
  "m \<le> 0x3fff \<Longrightarrow> \<forall>j\<in>{1..m}. nth_port (k + j) \<in> set ports \<Longrightarrow>
   \<exists>i. snd (new_port_loop ports (of_nat m) (nth_port (k + m))) = nth_port i \<and>
     (if \<forall>q\<ge>UDP_LOCAL_PORT_RANGE_START. q \<in> set ports then fst (new_port_loop ports (of_nat m) (nth_port (k + m))) = 0
      else fst (new_port_loop ports (of_nat m) (nth_port (k + m))) = nth_port i \<and> nth_port i \<notin> set ports)"
proof (induction "0x3fff - m" arbitrary: m rule: less_induct)
  case less
  let ?q = "nth_port (k + Suc m)"
  have n: "(of_nat m + 1 > (0xffff - 0xc000 :: 16 word)) = (m = 0x3fff)"
    using less.prems(1) by (auto simp: word_less_nat_alt unat_word_ariths unat_of_nat)
  have unfold: "new_port_loop ports (of_nat m) (nth_port (k + m)) =
      (if ?q \<in> set ports then if m = 0x3fff then (0, ?q) else new_port_loop ports (of_nat (Suc m)) ?q else (?q, ?q))"
    using next_nth_port [of "k + m"] n
    by (subst new_port_loop.simps) (simp add: Let_def UDP_LOCAL_PORT_RANGE_END_def UDP_LOCAL_PORT_RANGE_START_def add.commute)
  show ?case
  proof (cases "?q \<in> set ports")
    case False
    then show ?thesis using unfold nth_port_range [of "k + Suc m"] by auto
  next
    case True
    then have seen: "\<forall>j\<in>{1..Suc m}. nth_port (k + j) \<in> set ports"
      using less.prems(2) by (auto simp: le_Suc_eq)
    show ?thesis
    proof (cases "m = 0x3fff")
      case all: True
      have "q \<in> set ports" if q: "UDP_LOCAL_PORT_RANGE_START \<le> q" for q
      proof -
        obtain i where i: "i < 0x4000" "q = nth_port i" using port_is_nth [OF q] by blast
        define t where "t = i + 0x4000 - k mod 0x4000 - 1"
        define j where "j = t mod 0x4000 + 1"
        have "(k + j) mod 0x4000 = (k mod 0x4000 + t + 1) mod 0x4000"
          unfolding j_def by (metis add.assoc mod_add_left_eq mod_add_right_eq)
        also have "k mod 0x4000 + t + 1 = i + 0x4000"
          using mod_less_divisor [of 0x4000] unfolding t_def by (simp add: Suc_le_eq trans_less_add2)
        finally have "(k + j) mod 0x4000 = i" using i(1) by simp
        then have "q = nth_port (k + j)" using i by (simp add: nth_port_def)
        moreover have "j \<in> {1..Suc m}" using all by (simp add: j_def Suc_le_eq)
        ultimately show ?thesis using seen by blast
      qed
      then show ?thesis using unfold True all by auto
    next
      case False
      then have "new_port_loop ports (of_nat m) (nth_port (k + m)) = new_port_loop ports (of_nat (Suc m)) ?q"
        using unfold True by simp
      moreover have "0x3fff - Suc m < 0x3fff - m" "Suc m \<le> 0x3fff" using False less.prems(1) by simp_all
      ultimately show ?thesis using less.hyps [of "Suc m"] seen by presburger
    qed
  qed
qed

lemma new_port_exact:
  assumes "UDP_LOCAL_PORT_RANGE_START \<le> udp_port st"
  shows "case udp_new_port st of (lport, st') \<Rightarrow> UDP_LOCAL_PORT_RANGE_START \<le> udp_port st' \<and> st' = st\<lparr>udp_port := udp_port st'\<rparr>
    \<and> (if \<forall>q\<ge>UDP_LOCAL_PORT_RANGE_START. q \<in> (\<lambda>p. local_port (pcb_at st p)) ` set (udp_pcbs st) then lport = 0
       else lport = udp_port st' \<and> lport \<noteq> 0 \<and> lport \<notin> (\<lambda>p. local_port (pcb_at st p)) ` set (udp_pcbs st))"
proof -
  obtain k where k: "udp_port st = nth_port k" using port_is_nth [OF assms] by blast
  let ?ports = "map (\<lambda>p. local_port (pcb_at st p)) (udp_pcbs st)"
  define full where "full \<longleftrightarrow> (\<forall>q\<ge>UDP_LOCAL_PORT_RANGE_START. q \<in> (\<lambda>p. local_port (pcb_at st p)) ` set (udp_pcbs st))"
  obtain i where i: "snd (new_port_loop ?ports 0 (nth_port k)) = nth_port i"
    "if full then fst (new_port_loop ?ports 0 (nth_port k)) = 0
     else fst (new_port_loop ?ports 0 (nth_port k)) = nth_port i \<and> nth_port i \<notin> set ?ports"
    using new_port_loop_exact [of 0 k ?ports] unfolding full_def by (auto cong: if_cong)
  then have r: "new_port_loop ?ports 0 (udp_port st) = (if full then 0 else nth_port i, nth_port i)"
    unfolding k prod_eq_iff by (cases full) simp_all
  show ?thesis
    using i(2) nth_port_range [of i] unfolding udp_new_port_def r full_def [symmetric] by (cases full) simp_all
qed

section \<open>The search\<close>

definition udp_matches :: "'ip udp_env \<Rightarrow> 'ip ip_globals \<Rightarrow> netif_ptr \<Rightarrow> bool \<Rightarrow> 16 word \<Rightarrow> 'ip udp_pcb \<Rightarrow> bool" where
  "udp_matches U D inp broadcast dest b \<longleftrightarrow> local_port b = dest \<and> udp_input_local_match U D b inp broadcast"

definition udp_full_match :: "'ip udp_env \<Rightarrow> 'ip ip_globals \<Rightarrow> netif_ptr \<Rightarrow> bool \<Rightarrow> 16 word \<Rightarrow> 16 word \<Rightarrow> 'ip udp_pcb \<Rightarrow> bool" where
  "udp_full_match U D inp broadcast src dest b \<longleftrightarrow> udp_matches U D inp broadcast dest b \<and> udp_remote_match U D src b"

definition unconnected :: "'ip udp_pcb \<Rightarrow> bool" where
  "unconnected b \<longleftrightarrow> pcb_flags b AND UDP_FLAGS_CONNECTED = 0"

text \<open>The control block that gets a datagram: the first that matches with its remote end; otherwise an
  unconnected one that matches.\<close>

definition udp_receiver ::
  "'ip udp_env \<Rightarrow> 'ip ip_globals \<Rightarrow> netif_ptr \<Rightarrow> bool \<Rightarrow> (nat \<Rightarrow> 'ip udp_pcb) \<Rightarrow> 16 word \<Rightarrow> 16 word \<Rightarrow> nat list \<Rightarrow> nat option"
where
  "udp_receiver U D inp broadcast mem src dest ps =
     (case find (\<lambda>p. udp_full_match U D inp broadcast src dest (mem p)) ps of
        Some p \<Rightarrow> Some p
      | None \<Rightarrow> foldl (udp_uncon U D inp broadcast mem) None
                  (filter (\<lambda>p. udp_matches U D inp broadcast dest (mem p)) ps))"

lemma search_exact:
  "udp_search U D inp bc mem src dest pre u ps = (full, l, u') \<Longrightarrow>
   full = find (\<lambda>p. udp_full_match U D inp bc src dest (mem p)) ps
   \<and> (full = None \<longrightarrow> l = pre @ ps \<and> u' = foldl (udp_uncon U D inp bc mem) u (filter (\<lambda>p. udp_matches U D inp bc dest (mem p)) ps))
   \<and> (\<forall>p. full = Some p \<longrightarrow> (\<exists>ps1 ps2. ps = ps1 @ p # ps2 \<and> l = p # pre @ ps1 @ ps2))"
proof (induction ps arbitrary: pre u)
  case (Cons q ps)
  show ?case
  proof (cases "udp_full_match U D inp bc src dest (mem q)")
    case True
    then have "full = Some q" "l = q # pre @ [] @ ps"
      using Cons.prems by (auto simp: udp_full_match_def udp_matches_def Let_def)
    then show ?thesis using True by fastforce
  next
    case False
    let ?u = "if udp_matches U D inp bc dest (mem q) then udp_uncon U D inp bc mem u q else u"
    have "udp_search U D inp bc mem src dest (pre @ [q]) ?u ps = (full, l, u')"
      using Cons.prems False by (auto simp: udp_full_match_def udp_matches_def Let_def split: if_splits)
    then have IH: "full = find (\<lambda>p. udp_full_match U D inp bc src dest (mem p)) ps
      \<and> (full = None \<longrightarrow> l = (pre @ [q]) @ ps \<and> u' = foldl (udp_uncon U D inp bc mem) ?u (filter (\<lambda>p. udp_matches U D inp bc dest (mem p)) ps))
      \<and> (\<forall>p. full = Some p \<longrightarrow> (\<exists>ps1 ps2. ps = ps1 @ p # ps2 \<and> l = p # (pre @ [q]) @ ps1 @ ps2))"
      by (rule Cons.IH)
    have "\<exists>ps1 ps2. q # ps = ps1 @ p # ps2 \<and> l = p # pre @ ps1 @ ps2" if p: "full = Some p" for p
    proof -
      obtain ps1 ps2 where "ps = ps1 @ p # ps2" "l = p # (pre @ [q]) @ ps1 @ ps2" using IH p by blast
      then show ?thesis by (intro exI [of _ "q # ps1"] exI [of _ ps2]) simp
    qed
    then show ?thesis using IH False by simp
  qed
qed simp

lemma search_receiver:
  assumes "udp_search U D inp bc mem src dest [] None ps = (full, l, u)"
  shows "(if full \<noteq> None then full else u) = udp_receiver U D inp bc mem src dest ps" "mset l = mset ps"
    "\<forall>p. full = Some p \<longrightarrow> hd l = p"
proof -
  note ex = search_exact [OF assms]
  have find: "find (\<lambda>p. udp_full_match U D inp bc src dest (mem p)) ps = full" using ex by (elim conjE) (rule sym)
  have "(if full \<noteq> None then full else u) = udp_receiver U D inp bc mem src dest ps \<and> mset l = mset ps
      \<and> (\<forall>p. full = Some p \<longrightarrow> hd l = p)"
  proof (cases full)
    case None
    then have "l = ps" "u = foldl (udp_uncon U D inp bc mem) None (filter (\<lambda>p. udp_matches U D inp bc dest (mem p)) ps)"
      using ex by (elim conjE, simp)+
    then show ?thesis unfolding udp_receiver_def find using None by simp
  next
    case (Some p)
    then obtain ps1 ps2 where "ps = ps1 @ p # ps2" "l = p # [] @ ps1 @ ps2" using ex by blast
    then show ?thesis unfolding udp_receiver_def find using Some by simp
  qed
  then show "(if full \<noteq> None then full else u) = udp_receiver U D inp bc mem src dest ps" "mset l = mset ps"
    "\<forall>p. full = Some p \<longrightarrow> hd l = p" by blast+
qed

lemma uncon_choice: "udp_uncon U D inp bc mem u p \<in> {u, if unconnected (mem p) then Some p else u}"
  by (auto simp: udp_uncon_def unconnected_def split: option.split)

lemma uncon_fold:
  "(foldl (udp_uncon U D inp bc mem) u ps = None \<longleftrightarrow> u = None \<and> (\<forall>p\<in>set ps. \<not> unconnected (mem p)))
   \<and> (\<forall>c. foldl (udp_uncon U D inp bc mem) u ps = Some c \<longrightarrow> u = Some c \<or> c \<in> set ps \<and> unconnected (mem c))"
proof (induction ps arbitrary: u)
  case (Cons p ps)
  have "udp_uncon U D inp bc mem u p = None \<longleftrightarrow> u = None \<and> \<not> unconnected (mem p)"
    by (auto simp: udp_uncon_def unconnected_def split: option.split)
  then show ?case using Cons.IH [of "udp_uncon U D inp bc mem u p"] uncon_choice [of U D inp bc mem u p]
    by (auto split: if_splits)
qed simp

text \<open>What is known of the receiver.\<close>

lemma receiver_facts:
  "case udp_receiver U D inp bc mem src dest ps of
     Some c \<Rightarrow> c \<in> set ps \<and> udp_matches U D inp bc dest (mem c)
       \<and> (if \<exists>p\<in>set ps. udp_full_match U D inp bc src dest (mem p) then udp_full_match U D inp bc src dest (mem c)
          else unconnected (mem c))
   | None \<Rightarrow> \<forall>p\<in>set ps. udp_matches U D inp bc dest (mem p) \<longrightarrow> \<not> unconnected (mem p) \<and> \<not> udp_remote_match U D src (mem p)"
proof (cases "find (\<lambda>p. udp_full_match U D inp bc src dest (mem p)) ps")
  case None
  let ?f = "foldl (udp_uncon U D inp bc mem) None (filter (\<lambda>p. udp_matches U D inp bc dest (mem p)) ps)"
  have r: "udp_receiver U D inp bc mem src dest ps = ?f" using None by (simp add: udp_receiver_def)
  have no: "\<forall>p\<in>set ps. \<not> udp_full_match U D inp bc src dest (mem p)" using None by (simp add: find_None_iff)
  note fold = uncon_fold [of U D inp bc mem None "filter (\<lambda>p. udp_matches U D inp bc dest (mem p)) ps"]
  show ?thesis
  proof (cases ?f)
    case None
    then have "\<forall>p\<in>set (filter (\<lambda>p. udp_matches U D inp bc dest (mem p)) ps). \<not> unconnected (mem p)" using fold by blast
    then show ?thesis unfolding r None option.case using no by (auto simp: udp_full_match_def)
  next
    case (Some c)
    then have "c \<in> set ps" "udp_matches U D inp bc dest (mem c)" "unconnected (mem c)"
      using fold [THEN conjunct2, rule_format, OF Some] by simp_all
    then show ?thesis unfolding r using Some no by simp
  qed
next
  case (Some p)
  then have "p \<in> set ps" "udp_full_match U D inp bc src dest (mem p)" by (auto simp: find_Some_iff)
  then show ?thesis using Some by (auto simp: udp_receiver_def udp_full_match_def)
qed

lemma uncon_first:
  "\<not> SO_REUSE U \<Longrightarrow> \<not> (bc \<and> ip_2_ip4 U (ip_current_dest_addr D) = IPADDR_BROADCAST (port (stack U))) \<Longrightarrow>
   foldl (udp_uncon U D inp bc mem) u ps = (if u \<noteq> None then u else find (\<lambda>p. unconnected (mem p)) ps)"
proof (induction ps arbitrary: u)
  case (Cons p ps)
  have "udp_uncon U D inp bc mem u p = (if u \<noteq> None then u else if unconnected (mem p) then Some p else None)"
    using Cons.prems by (auto simp: udp_uncon_def unconnected_def split: option.split)
  then show ?case using Cons by simp
qed simp

section \<open>Bindings\<close>

text \<open>What is relied on: comparing addresses is symmetric, and the header that was read can be removed.\<close>

definition udp_ok :: "'ip udp_env \<Rightarrow> bool" where
  "udp_ok U \<longleftrightarrow> (\<forall>a b. ip_addr_cmp U a b = ip_addr_cmp U b a) \<and> (\<forall>tr. udp_remove_header U tr)"

definition pcbs_conflict :: "'ip udp_env \<Rightarrow> 'ip udp_pcb \<Rightarrow> 'ip udp_pcb \<Rightarrow> bool" where
  "pcbs_conflict U b c = bind_conflict U b (local_ip b) (local_port b) c"

definition udp_inv :: "'ip udp_env \<Rightarrow> 'ip udp \<Rightarrow> bool" where
  "udp_inv U st \<longleftrightarrow> distinct (udp_pcbs st) \<and> UDP_LOCAL_PORT_RANGE_START \<le> udp_port st
     \<and> (\<forall>p\<in>set (udp_pcbs st). local_port (pcb_at st p) \<noteq> 0)
     \<and> (\<forall>p\<in>set (udp_pcbs st). \<forall>q\<in>set (udp_pcbs st). p \<noteq> q \<longrightarrow> \<not> pcbs_conflict U (pcb_at st p) (pcb_at st q))"

definition binding :: "'ip udp_pcb \<Rightarrow> 'ip \<times> 16 word \<times> bool" where
  "binding b = (local_ip b, local_port b, SOF_REUSEADDR b)"

lemma conflict_binding: "binding b = binding b' \<Longrightarrow> binding c = binding c' \<Longrightarrow> pcbs_conflict U b c = pcbs_conflict U b' c'"
  by (simp add: binding_def pcbs_conflict_def bind_conflict_def)

lemma conflict_sym: "udp_ok U \<Longrightarrow> pcbs_conflict U b c = pcbs_conflict U c b"
  by (auto simp: pcbs_conflict_def bind_conflict_def udp_ok_def)

text \<open>Steps that change no binding of the list.\<close>

definition same_bindings :: "'ip udp \<Rightarrow> 'ip udp \<Rightarrow> bool" where
  "same_bindings st st' \<longleftrightarrow> distinct (udp_pcbs st') \<and> set (udp_pcbs st') \<subseteq> set (udp_pcbs st) \<and> UDP_LOCAL_PORT_RANGE_START \<le> udp_port st'
     \<and> (\<forall>p\<in>set (udp_pcbs st'). binding (pcb_at st' p) = binding (pcb_at st p))"

lemma inv_same_bindings: "udp_inv U st \<Longrightarrow> same_bindings st st' \<Longrightarrow> udp_inv U st'"
proof -
  assume inv: "udp_inv U st" and same: "same_bindings st st'"
  have p: "p \<in> set (udp_pcbs st)" "binding (pcb_at st' p) = binding (pcb_at st p)" if "p \<in> set (udp_pcbs st')" for p
    using same that by (auto simp: same_bindings_def)
  have "local_port (pcb_at st' p) \<noteq> 0" if "p \<in> set (udp_pcbs st')" for p
    using inv p [OF that] by (simp add: udp_inv_def binding_def)
  moreover have "\<not> pcbs_conflict U (pcb_at st' p) (pcb_at st' q)" if "p \<in> set (udp_pcbs st')" "q \<in> set (udp_pcbs st')" "p \<noteq> q" for p q
    using inv p [OF that(1)] p [OF that(2)] conflict_binding [of "pcb_at st' p" "pcb_at st p" "pcb_at st' q" "pcb_at st q" U] that(3)
    by (simp add: udp_inv_def)
  ultimately show ?thesis using same by (simp add: udp_inv_def same_bindings_def)
qed

lemma same_bindings_refl: "udp_inv U st \<Longrightarrow> same_bindings st st"
  by (simp add: same_bindings_def udp_inv_def)

lemma set_pcb_simps [simp]:
  "udp_pcbs (set_pcb p b st) = udp_pcbs st" "udp_port (set_pcb p b st) = udp_port st" "udp_trace (set_pcb p b st) = udp_trace st"
  "pcb_at (set_pcb p b st) = (pcb_at st)(p := b)"
  by (simp_all add: set_pcb_def)

lemma emit_simps [simp]:
  "udp_pcbs (udp_emit evs st) = udp_pcbs st" "udp_port (udp_emit evs st) = udp_port st" "udp_trace (udp_emit evs st) = udp_trace st @ evs"
  "pcb_at (udp_emit evs st) = pcb_at st"
  by (simp_all add: udp_emit_def)

lemma inv_set_pcb: "udp_inv U st \<Longrightarrow> binding b = binding (pcb_at st p) \<or> p \<notin> set (udp_pcbs st) \<Longrightarrow> udp_inv U (set_pcb p b st)"
  by (rule inv_same_bindings) (auto simp: same_bindings_def udp_inv_def)

lemma inv_emit [simp]: "udp_inv U (udp_emit evs st) = udp_inv U st"
  by (simp add: udp_inv_def)

text \<open>Binding.\<close>

lemma bind_finish_inv:
  assumes "udp_ok U" "udp_inv U st" "lport \<noteq> 0"
    and free: "\<forall>i\<in>set (udp_pcbs st). pcb \<noteq> i \<longrightarrow> \<not> bind_conflict U (pcb_at st pcb) ipaddr lport (pcb_at st i)"
  shows "udp_inv U (bind_finish pcb ipaddr lport st)"
    and "local_port (pcb_at (bind_finish pcb ipaddr lport st) pcb) = lport"
proof -
  let ?b = "(pcb_at st pcb)\<lparr>local_ip := ipaddr, local_port := lport\<rparr>"
  let ?st = "bind_finish pcb ipaddr lport st"
  have st: "udp_pcbs ?st = (if pcb \<in> set (udp_pcbs st) then udp_pcbs st else pcb # udp_pcbs st)"
    "pcb_at ?st = (pcb_at st)(pcb := ?b)" "udp_port ?st = udp_port st"
    by (simp_all add: bind_finish_def Let_def)
  have new: "\<not> pcbs_conflict U ?b (pcb_at st i)" "\<not> pcbs_conflict U (pcb_at st i) ?b" if "i \<in> set (udp_pcbs st)" "i \<noteq> pcb" for i
  proof -
    show "\<not> pcbs_conflict U ?b (pcb_at st i)" using free that by (simp add: pcbs_conflict_def bind_conflict_def)
    then show "\<not> pcbs_conflict U (pcb_at st i) ?b" using conflict_sym [OF assms(1)] by blast
  qed
  then show "udp_inv U ?st" using assms(2,3) st unfolding udp_inv_def by auto
  show "local_port (pcb_at ?st pcb) = lport" by (simp add: st)
qed

lemma bind_inv:
  assumes U: "udp_ok U" and inv: "udp_inv U st" and r: "udp_bind U pcb ipaddr lport st = (err, st')"
  shows "udp_inv U st'" "err = ERR_OK \<longrightarrow> pcb \<in> set (udp_pcbs st') \<and> local_port (pcb_at st' pcb) \<noteq> 0" "udp_trace st' = udp_trace st"
proof -
  have range: "UDP_LOCAL_PORT_RANGE_START \<le> udp_port st" using inv by (simp add: udp_inv_def)
  obtain q st1 where q: "udp_new_port st = (q, st1)" by fastforce
  note port = new_port_exact [OF range, unfolded q prod.case]
  have st1: "udp_inv U st1" "udp_pcbs st1 = udp_pcbs st" "pcb_at st1 = pcb_at st" "udp_trace st1 = udp_trace st"
  proof -
    have e: "st1 = st\<lparr>udp_port := udp_port st1\<rparr>" using port by simp
    show "udp_pcbs st1 = udp_pcbs st" "pcb_at st1 = pcb_at st" "udp_trace st1 = udp_trace st" by (subst e, simp)+
    then show "udp_inv U st1" using inv port by (simp add: udp_inv_def)
  qed
  have fresh: "\<not> bind_conflict U b a q (pcb_at st1 i)" if "q \<noteq> 0" "i \<in> set (udp_pcbs st1)" for b a i
  proof -
    have "q \<notin> (\<lambda>p. local_port (pcb_at st p)) ` set (udp_pcbs st)" using port that(1) by metis
    then have "local_port (pcb_at st1 i) \<noteq> q" using that(2) st1 by auto
    then show ?thesis by (simp add: bind_conflict_def)
  qed
  have fin: "udp_inv U s'" "e = ERR_OK \<longrightarrow> pcb \<in> set (udp_pcbs s') \<and> local_port (pcb_at s' pcb) \<noteq> 0" "udp_trace s' = udp_trace st"
    if s: "udp_inv U s" "udp_trace s = udp_trace st" "l \<noteq> 0" and eq: "(e, s') = (ERR_OK, bind_finish pcb a l s)"
      and free: "\<forall>i\<in>set (udp_pcbs s). pcb \<noteq> i \<longrightarrow> \<not> bind_conflict U (pcb_at s pcb) a l (pcb_at s i)" for a l s e s'
    using bind_finish_inv [OF U s(1) s(3) free] eq s by (simp_all add: bind_finish_def Let_def)
  define a where "a = (case ipaddr of None \<Rightarrow> IP4_ADDR_ANY U | Some a \<Rightarrow> a)"
  define z where "z = (if LWIP_IPV6 (stack U) \<and> LWIP_IPV6_SCOPES U \<and> IP_IS_V6 U a \<and> ip6_addr_lacks_zone U a then ip6_addr_select_zone U a a else a)"
  have "udp_inv U st' \<and> (err = ERR_OK \<longrightarrow> pcb \<in> set (udp_pcbs st') \<and> local_port (pcb_at st' pcb) \<noteq> 0) \<and> udp_trace st' = udp_trace st"
  proof (cases "ipaddr = None \<and> \<not> LWIP_IPV4 (stack U)")
    case True
    then show ?thesis using r inv by (simp add: udp_bind_def)
  next
    case False
    then have some: "(case ipaddr of Some a \<Rightarrow> Some a | None \<Rightarrow> if LWIP_IPV4 (stack U) then Some (IP4_ADDR_ANY U) else None) = Some a"
      by (cases ipaddr) (simp_all add: a_def)
    note body = r [unfolded udp_bind_def some option.case Let_def, folded z_def]
    show ?thesis
    proof (cases "lport = 0")
      case zero: True
      show ?thesis
      proof (cases "q = 0")
        case True
        then show ?thesis using body False zero q st1 by simp
      next
        case q0: False
        then have "(err, st') = (ERR_OK, bind_finish pcb z q st1)" using body False zero q by simp
        moreover have "\<forall>i\<in>set (udp_pcbs st1). pcb \<noteq> i \<longrightarrow> \<not> bind_conflict U (pcb_at st1 pcb) z q (pcb_at st1 i)"
          using fresh [OF q0] by simp
        ultimately show ?thesis by (intro conjI fin [OF st1(1,4) q0])
      qed
    next
      case lport: False
      show ?thesis
      proof (cases "\<exists>i\<in>set (udp_pcbs st). pcb \<noteq> i \<and> bind_conflict U (pcb_at st pcb) z lport (pcb_at st i)")
        case True
        then show ?thesis using body False lport inv by simp
      next
        case free: False
        have "(err, st') = (ERR_OK, bind_finish pcb z lport st)"
          using body unfolding if_not_P [OF lport] if_not_P [OF free] by (rule sym)
        moreover have "\<forall>i\<in>set (udp_pcbs st). pcb \<noteq> i \<longrightarrow> \<not> bind_conflict U (pcb_at st pcb) z lport (pcb_at st i)"
          using free by blast
        ultimately show ?thesis by (intro conjI fin [OF inv refl lport])
      qed
    qed
  qed
  then show "udp_inv U st'" "err = ERR_OK \<longrightarrow> pcb \<in> set (udp_pcbs st') \<and> local_port (pcb_at st' pcb) \<noteq> 0" "udp_trace st' = udp_trace st"
    by simp_all
qed

text \<open>An operation on one control block changes no other and takes none out of the list.\<close>

definition touches :: "nat \<Rightarrow> 'ip udp \<Rightarrow> 'ip udp \<Rightarrow> bool" where
  "touches pcb st st' \<longleftrightarrow> set (udp_pcbs st) \<subseteq> set (udp_pcbs st') \<and> set (udp_pcbs st') \<subseteq> insert pcb (set (udp_pcbs st))
     \<and> (\<forall>i. i \<noteq> pcb \<longrightarrow> pcb_at st' i = pcb_at st i)
     \<and> (pcb \<in> set (udp_pcbs st') \<or> local_port (pcb_at st' pcb) = local_port (pcb_at st pcb))"

lemma touches_refl [simp]: "touches pcb st st"
  by (auto simp: touches_def)

lemma touches_trans: "touches pcb st st1 \<Longrightarrow> touches pcb st1 st2 \<Longrightarrow> touches pcb st st2"
  unfolding touches_def by (elim conjE, intro conjI) (blast, blast, simp, metis subsetD)

lemma touches_emit [simp]: "touches pcb st (udp_emit evs st') = touches pcb st st'"
  by (simp add: touches_def)

lemma touches_set_pcb [simp]:
  "pcb \<in> set (udp_pcbs st) \<or> local_port b = local_port (pcb_at st pcb) \<Longrightarrow> touches pcb st (set_pcb pcb b st)"
  by (auto simp: touches_def)

lemma bind_touches: "touches pcb st (snd (udp_bind U pcb ipaddr lport st))"
proof -
  have fin: "touches pcb s (bind_finish pcb a l s)" for a l and s :: "'a udp"
    by (auto simp: touches_def bind_finish_def Let_def)
  have port: "touches pcb st s" "touches pcb st (bind_finish pcb a l s)" if "udp_new_port st = (q, s)" for q s a l
  proof -
    show "touches pcb st s" using that by (auto simp: udp_new_port_def touches_def split: prod.splits)
    then show "touches pcb st (bind_finish pcb a l s)" using fin touches_trans by blast
  qed
  show ?thesis
    by (simp add: udp_bind_def Let_def fin port split: option.split prod.split)
qed

section \<open>The operations\<close>

text \<open>References to packet buffers that UDP takes: those it allocates, less those it frees or hands to a callback.\<close>

fun udp_taken1 :: "'ip udp_effect \<Rightarrow> nat \<Rightarrow> int" where
  "udp_taken1 (Udp_pbuf_new q) k = (if k = q then 1 else 0)"
| "udp_taken1 (Udp_pbuf_free q) k = (if k = q then -1 else 0)"
| "udp_taken1 (Udp_recv cb m q payload a src) k = (if k = q then -1 else 0)"
| "udp_taken1 ev k = 0"

definition udp_taken :: "'ip udp \<Rightarrow> nat \<Rightarrow> int" where
  "udp_taken st k = (\<Sum>ev\<leftarrow>udp_trace st. udp_taken1 ev k)"

lemma taken_simps [simp]:
  "udp_taken (set_pcb p b st) k = udp_taken st k" "udp_taken (st\<lparr>udp_pcbs := ps\<rparr>) k = udp_taken st k"
  "udp_taken (udp_emit evs st) k = udp_taken st k + (\<Sum>ev\<leftarrow>evs. udp_taken1 ev k)"
  by (simp_all add: udp_taken_def)

text \<open>What every operation on the control block \<open>pcb\<close> keeps.\<close>

definition pcb_step :: "'ip udp_env \<Rightarrow> nat \<Rightarrow> 'ip udp \<Rightarrow> 'ip udp \<Rightarrow> bool" where
  "pcb_step U pcb st st' \<longleftrightarrow> udp_inv U st' \<and> touches pcb st st' \<and> udp_taken st' = udp_taken st"

lemma pcb_step_refl: "udp_inv U st \<Longrightarrow> pcb_step U pcb st st"
  by (simp add: pcb_step_def)

lemma pcb_step_trans: "pcb_step U pcb st st1 \<Longrightarrow> pcb_step U pcb st1 st2 \<Longrightarrow> pcb_step U pcb st st2"
  unfolding pcb_step_def using touches_trans by metis

lemma set_pcb_step: "udp_inv U st \<Longrightarrow> binding b = binding (pcb_at st pcb) \<Longrightarrow> pcb_step U pcb st (set_pcb pcb b st)"
  by (simp add: pcb_step_def inv_set_pcb fun_eq_iff binding_def)

lemma bind_step:
  assumes "udp_ok U" "udp_inv U st" "udp_bind U pcb ipaddr lport st = (err, st')"
  shows "pcb_step U pcb st st'" "err = ERR_OK \<Longrightarrow> pcb \<in> set (udp_pcbs st')"
  using bind_inv [OF assms] bind_touches [of pcb st U ipaddr lport] assms(3)
  by (simp_all add: pcb_step_def udp_taken_def fun_eq_iff)

text \<open>A control block without a port is bound to one first.\<close>

lemma ensure_bound:
  assumes "udp_ok U" "udp_inv U st" "local_port (pcb_at st pcb) = 0 \<or> pcb \<in> set (udp_pcbs st)"
    and "(if local_port (pcb_at st pcb) = 0 then udp_bind U pcb a l st else (ERR_OK, st)) = (err, st')"
  shows "pcb_step U pcb st st'" "err = ERR_OK \<Longrightarrow> pcb \<in> set (udp_pcbs st')"
  using bind_step [OF assms(1,2)] pcb_step_refl [OF assms(2)] assms(3,4) by (auto split: if_splits)

lemma connect_step:
  assumes "udp_ok U" "udp_inv U st" "local_port (pcb_at st pcb) = 0 \<or> pcb \<in> set (udp_pcbs st)"
  shows "pcb_step U pcb st (snd (udp_connect U pcb ipaddr rport st))"
proof -
  obtain err st1 where b: "(if local_port (pcb_at st pcb) = 0
      then udp_bind U pcb (Some (local_ip (pcb_at st pcb))) (local_port (pcb_at st pcb)) st else (ERR_OK, st)) = (err, st1)"
    by fastforce
  note e = ensure_bound [OF assms b]
  show ?thesis
  proof (cases "err = ERR_OK")
    case True
    have "pcb_step U pcb st1 (set_pcb pcb ((pcb_at st1 pcb)\<lparr>remote_ip := r, remote_port := rport, pcb_flags := f\<rparr>) st1)" for r f
      using e(1) by (intro set_pcb_step) (simp_all add: pcb_step_def binding_def)
    then show ?thesis using pcb_step_trans [OF e(1)] e(2) True unfolding udp_connect_def b by (simp add: Let_def)
  next
    case False
    then show ?thesis using e(1) unfolding udp_connect_def b by simp
  qed
qed

lemma output_step:
  assumes "udp_inv U st"
  shows "pcb_step U pcb st (snd (udp_output U pcb p dst_ip dst_port n hc c src_ip q st))"
  using assms by (simp add: udp_output_def Let_def pcb_step_def fun_eq_iff split: prod.split)

lemma send_step:
  assumes "udp_ok U" "udp_inv U st" "local_port (pcb_at st pcb) = 0 \<or> pcb \<in> set (udp_pcbs st)"
  shows "pcb_step U pcb st (snd (udp_sendto_if_src_chksum U pcb p dst_ip dst_port n hc c src_ip st))"
proof -
  obtain err st1 where b: "(if local_port (pcb_at st pcb) = 0
      then udp_bind U pcb (Some (local_ip (pcb_at st pcb))) (local_port (pcb_at st pcb)) st else (ERR_OK, st)) = (err, st1)"
    by fastforce
  note e = ensure_bound(1) [OF assms b]
  have inv: "udp_inv U st1" using e by (simp add: pcb_step_def)
  note here = pcb_step_refl [OF assms(2), of pcb]
  have direct: "pcb_step U pcb st (snd (udp_output U pcb p dst_ip dst_port n hc c src_ip q st1))" for q
    by (rule pcb_step_trans [OF e output_step [OF inv]])
  have behind: "pcb_step U pcb st (udp_emit [Udp_pbuf_free q] st2)"
    if o: "udp_output U pcb p dst_ip dst_port n hc c src_ip q
        (udp_emit (Udp_pbuf_new q # (if long then [Udp_pbuf_chain q (up_ptr p)] else [])) st1) = (err2, st2)" for q long err2 st2
  proof -
    let ?st = "udp_emit (Udp_pbuf_new q # (if long then [Udp_pbuf_chain q (up_ptr p)] else [])) st1"
    have "pcb_step U pcb ?st st2" using output_step [of U ?st pcb p dst_ip dst_port n hc c src_ip q] inv o by simp
    then show ?thesis using e touches_trans [of pcb st st1 st2]
      by (auto simp: pcb_step_def fun_eq_iff touches_def [of pcb "udp_emit _ _"] touches_def [of pcb st1])
  qed
  show ?thesis
    unfolding udp_sendto_if_src_chksum_def Let_def b
    by (simp add: here e direct behind [where long = True, simplified] behind [where long = False, simplified]
        split: option.split prod.split)
qed

lemma sends_step:
  assumes "udp_ok U" "udp_inv U st" "local_port (pcb_at st pcb) = 0 \<or> pcb \<in> set (udp_pcbs st)"
  shows "pcb_step U pcb st (snd (udp_sendto_if_chksum U pcb p dst_ip dst_port n hc c st))"
    and "pcb_step U pcb st (snd (udp_sendto_chksum U pcb p dst_ip dst_port hc c st))"
    and "pcb_step U pcb st (snd (udp_send_chksum U pcb p hc c st))"
proof -
  note here = pcb_step_refl [OF assms(2), of pcb]
  have a: "pcb_step U pcb st (snd (udp_sendto_if_chksum U pcb p dst_ip dst_port n hc c st))" for dst_ip dst_port n
    by (simp add: udp_sendto_if_chksum_def Let_def here send_step [OF assms] split: option.split)
  have b: "pcb_step U pcb st (snd (udp_sendto_chksum U pcb p dst_ip dst_port hc c st))" for dst_ip dst_port
    by (simp add: udp_sendto_chksum_def here a split: option.split)
  show "pcb_step U pcb st (snd (udp_sendto_if_chksum U pcb p dst_ip dst_port n hc c st))"
    "pcb_step U pcb st (snd (udp_sendto_chksum U pcb p dst_ip dst_port hc c st))" by (rule a b)+
  show "pcb_step U pcb st (snd (udp_send_chksum U pcb p hc c st))" by (simp add: udp_send_chksum_def Let_def here b)
qed

text \<open>Input changes the order of the list only, and accounts for the datagram.\<close>

lemma rxtoall_keeps:
  "udp_rxtoall U D inp bc src dest pcb payload ms st = st' \<Longrightarrow>
   udp_pcbs st' = udp_pcbs st \<and> udp_port st' = udp_port st \<and> pcb_at st' = pcb_at st \<and> udp_taken st' = udp_taken st"
proof (induction ms arbitrary: st)
  case (Cons m ms)
  define st1 where "st1 = (if m \<noteq> pcb \<and> local_port (pcb_at st m) = dest \<and> udp_input_local_match U D (pcb_at st m) inp bc then
          (case recv (pcb_at st m) of
             None \<Rightarrow> st
           | Some cb \<Rightarrow>
               (case udp_pbuf_clone U (udp_trace st) of
                  None \<Rightarrow> st
                | Some q \<Rightarrow> udp_emit [Udp_pbuf_new q, Udp_recv cb m q payload (ip_current_src_addr D) src] st))
        else st)"
  have "udp_pcbs st1 = udp_pcbs st \<and> udp_port st1 = udp_port st \<and> pcb_at st1 = pcb_at st \<and> udp_taken st1 = udp_taken st"
    by (simp add: st1_def fun_eq_iff split: option.split)
  then show ?case using Cons.IH [of st1] Cons.prems by (simp add: st1_def [symmetric])
qed simp

lemma deliver_keeps:
  assumes "udp_deliver U D inp bc src dest pcb p payload st = st'"
  shows "udp_pcbs st' = udp_pcbs st \<and> udp_port st' = udp_port st \<and> pcb_at st' = pcb_at st
    \<and> (\<forall>k. udp_taken st' k = udp_taken st k - (if k = p then 1 else 0))"
proof -
  define st1 where "st1 = (if SO_REUSE U \<and> SO_REUSE_RXTOALL U \<and> SOF_REUSEADDR (pcb_at st pcb)
                   \<and> (bc \<or> ip_addr_ismulticast U (ip_current_dest_addr D))
                then udp_rxtoall U D inp bc src dest pcb payload (udp_pcbs st) st else st)"
  have "udp_pcbs st1 = udp_pcbs st \<and> udp_port st1 = udp_port st \<and> pcb_at st1 = pcb_at st \<and> udp_taken st1 = udp_taken st"
    by (simp add: st1_def rxtoall_keeps [OF refl])
  then show ?thesis using assms unfolding udp_deliver_def Let_def st1_def [symmetric] by (cases "recv (pcb_at st1 pcb)") auto
qed

lemma input_keeps:
  assumes "udp_ok U"
  shows "\<exists>st'. udp_input U D p inp st = Some st' \<and> mset (udp_pcbs st') = mset (udp_pcbs st) \<and> udp_port st' = udp_port st
    \<and> pcb_at st' = pcb_at st \<and> (\<forall>k. udp_taken st' k = udp_taken st k - (if k = up_ptr p then 1 else 0))"
proof (cases "up_len p < UDP_HLEN")
  case True
  then show ?thesis by (simp add: udp_input_def)
next
  case False
  let ?h = "load_udp_hdr U (up_bytes p)"
  let ?bc = "ip_addr_isbroadcast U (ip_current_dest_addr D) (current_netif D)"
  obtain full l u where s: "udp_search U D inp ?bc (pcb_at st) (hdr_src ?h) (hdr_dest ?h) [] None (udp_pcbs st) = (full, l, u)"
    by (metis prod.exhaust)
  define pcb where "pcb = (if full \<noteq> None then full else u)"
  have rm: "udp_remove_header U tr" for tr using assms by (simp add: udp_ok_def)
  note unfold = udp_input_def [of U D p inp st, unfolded Let_def if_not_P [OF False] s prod.case pcb_def [symmetric]]
  have "\<exists>st'. udp_input U D p inp st = Some st' \<and> udp_pcbs st' = l \<and> udp_port st' = udp_port st
    \<and> pcb_at st' = pcb_at st \<and> (\<forall>k. udp_taken st' k = udp_taken st k - (if k = up_ptr p then 1 else 0))"
  proof (cases pcb)
    case None
    show ?thesis unfolding unfold None by (simp add: rm)
  next
    case (Some c)
    show ?thesis unfolding unfold Some using deliver_keeps [OF refl, of U D inp ?bc "hdr_src ?h" "hdr_dest ?h" c "up_ptr p"]
      by (simp add: rm)
  qed
  then show ?thesis using search_receiver(2) [OF s] by blast
qed

lemma addr_changed_exact:
  "distinct ps \<Longrightarrow>
   udp_pcbs (addr_changed_loop U old new ps st) = udp_pcbs st \<and> udp_port (addr_changed_loop U old new ps st) = udp_port st
   \<and> udp_trace (addr_changed_loop U old new ps st) = udp_trace st
   \<and> pcb_at (addr_changed_loop U old new ps st) =
       (\<lambda>p. if p \<in> set ps \<and> ip_addr_cmp U (local_ip (pcb_at st p)) old then (pcb_at st p)\<lparr>local_ip := new\<rparr> else pcb_at st p)"
proof (induction ps arbitrary: st)
  case (Cons p ps)
  let ?st = "if ip_addr_cmp U (local_ip (pcb_at st p)) old then set_pcb p ((pcb_at st p)\<lparr>local_ip := new\<rparr>) st else st"
  have p: "p \<notin> set ps" "distinct ps" using Cons.prems by simp_all
  show ?case using Cons.IH [OF p(2), of ?st] p(1) by (auto simp: fun_eq_iff)
qed simp

section \<open>Histories\<close>

text \<open>The calls of the interface, with what the allocator returns for a new control block; \<open>Some c\<close> for the
  variants with a checksum. \<open>Op_udp_options\<close> is the application that sets the options of a control block.\<close>

datatype 'ip udp_op =
    Op_udp_new "nat option" "nat option"
  | Op_udp_options nat bool bool
  | Op_udp_remove nat
  | Op_udp_bind nat "'ip option" "16 word"
  | Op_udp_bind_netif nat "netif_ptr option"
  | Op_udp_connect nat 'ip "16 word"
  | Op_udp_disconnect nat
  | Op_udp_recv nat "nat option"
  | Op_udp_send nat udp_pbuf "16 word option"
  | Op_udp_sendto nat udp_pbuf 'ip "16 word" "16 word option"
  | Op_udp_sendto_if nat udp_pbuf 'ip "16 word" netif_ptr "16 word option"
  | Op_udp_sendto_if_src nat udp_pbuf 'ip "16 word" netif_ptr 'ip "16 word option"
  | Op_udp_input "'ip ip_globals" udp_pbuf netif_ptr

text \<open>The control blocks that are allocated, and the state.\<close>

type_synonym 'ip udp_world = "nat set \<times> 'ip udp"

fun udp_op_pcb :: "'ip udp_op \<Rightarrow> nat option" where
  "udp_op_pcb (Op_udp_new ptr type) = None"
| "udp_op_pcb (Op_udp_options pcb reuse broadcast) = Some pcb"
| "udp_op_pcb (Op_udp_remove pcb) = Some pcb"
| "udp_op_pcb (Op_udp_bind pcb ipaddr lport) = Some pcb"
| "udp_op_pcb (Op_udp_bind_netif pcb n) = Some pcb"
| "udp_op_pcb (Op_udp_connect pcb ipaddr rport) = Some pcb"
| "udp_op_pcb (Op_udp_disconnect pcb) = Some pcb"
| "udp_op_pcb (Op_udp_recv pcb callback) = Some pcb"
| "udp_op_pcb (Op_udp_send pcb p c) = Some pcb"
| "udp_op_pcb (Op_udp_sendto pcb p dst dport c) = Some pcb"
| "udp_op_pcb (Op_udp_sendto_if pcb p dst dport n c) = Some pcb"
| "udp_op_pcb (Op_udp_sendto_if_src pcb p dst dport n src c) = Some pcb"
| "udp_op_pcb (Op_udp_input D p inp) = None"

fun udp_pcb_op :: "'ip udp_env \<Rightarrow> 'ip udp_op \<Rightarrow> 'ip udp \<Rightarrow> 'ip udp" where
  "udp_pcb_op U (Op_udp_options pcb reuse broadcast) st =
     set_pcb pcb ((pcb_at st pcb)\<lparr>SOF_REUSEADDR := reuse, SOF_BROADCAST := broadcast\<rparr>) st"
| "udp_pcb_op U (Op_udp_bind pcb ipaddr lport) st = snd (udp_bind U pcb ipaddr lport st)"
| "udp_pcb_op U (Op_udp_bind_netif pcb n) st = udp_bind_netif U pcb n st"
| "udp_pcb_op U (Op_udp_connect pcb ipaddr rport) st = snd (udp_connect U pcb ipaddr rport st)"
| "udp_pcb_op U (Op_udp_disconnect pcb) st = udp_disconnect U pcb st"
| "udp_pcb_op U (Op_udp_recv pcb callback) st = udp_recv pcb callback st"
| "udp_pcb_op U (Op_udp_send pcb p c) st =
     snd (case c of None \<Rightarrow> udp_send U pcb p st | Some c \<Rightarrow> udp_send_chksum U pcb p True c st)"
| "udp_pcb_op U (Op_udp_sendto pcb p dst dport c) st =
     snd (case c of None \<Rightarrow> udp_sendto U pcb p dst dport st | Some c \<Rightarrow> udp_sendto_chksum U pcb p dst dport True c st)"
| "udp_pcb_op U (Op_udp_sendto_if pcb p dst dport n c) st =
     snd (case c of None \<Rightarrow> udp_sendto_if U pcb p dst dport n st | Some c \<Rightarrow> udp_sendto_if_chksum U pcb p dst dport n True c st)"
| "udp_pcb_op U (Op_udp_sendto_if_src pcb p dst dport n src c) st =
     snd (case c of None \<Rightarrow> udp_sendto_if_src U pcb p dst dport n src st
        | Some c \<Rightarrow> udp_sendto_if_src_chksum U pcb p dst dport n True c src st)"
| "udp_pcb_op U op st = st"

fun udp_op_step :: "'ip udp_env \<Rightarrow> 'ip udp_op \<Rightarrow> 'ip udp_world \<Rightarrow> 'ip udp_world option" where
  "udp_op_step U (Op_udp_new ptr type) (live, st) =
     (case (case type of None \<Rightarrow> udp_new U ptr st | Some t \<Rightarrow> udp_new_ip_type U t ptr st) of
        (None, st) \<Rightarrow> Some (live, st)
      | (Some pcb, st) \<Rightarrow> Some (insert pcb live, st))"
| "udp_op_step U (Op_udp_remove pcb) (live, st) = Some (live - {pcb}, udp_remove pcb st)"
| "udp_op_step U (Op_udp_input D p inp) (live, st) =
     (case udp_input U D p inp st of None \<Rightarrow> None | Some st \<Rightarrow> Some (live, st))"
| "udp_op_step U op (live, st) = Some (live, udp_pcb_op U op st)"

text \<open>A call is for an allocated control block, a new one was not allocated, and \<open>SOF_REUSEADDR\<close> is set
  before the control block is bound.\<close>

fun udp_op_valid :: "'ip udp_op \<Rightarrow> 'ip udp_world \<Rightarrow> bool" where
  "udp_op_valid (Op_udp_new ptr type) (live, st) \<longleftrightarrow> (case ptr of None \<Rightarrow> True | Some pcb \<Rightarrow> pcb \<notin> live)"
| "udp_op_valid (Op_udp_options pcb reuse broadcast) (live, st) \<longleftrightarrow>
     pcb \<in> live \<and> (local_port (pcb_at st pcb) = 0 \<or> SOF_REUSEADDR (pcb_at st pcb) = reuse)"
| "udp_op_valid op (live, st) \<longleftrightarrow> (case udp_op_pcb op of None \<Rightarrow> True | Some pcb \<Rightarrow> pcb \<in> live)"

fun udp_income :: "'ip udp_op \<Rightarrow> nat \<Rightarrow> int" where
  "udp_income (Op_udp_input D p inp) k = (if k = up_ptr p then 1 else 0)"
| "udp_income op k = 0"

fun udp_good :: "'ip udp_env \<Rightarrow> 'ip udp_world \<Rightarrow> bool" where
  "udp_good U (live, st) \<longleftrightarrow> udp_inv U st \<and> set (udp_pcbs st) \<subseteq> live
     \<and> (\<forall>p\<in>live. p \<notin> set (udp_pcbs st) \<longrightarrow> local_port (pcb_at st p) = 0)"

lemma pcb_step_good: "udp_good U (live, st) \<Longrightarrow> pcb \<in> live \<Longrightarrow> pcb_step U pcb st st' \<Longrightarrow> udp_good U (live, st')"
proof -
  assume good: "udp_good U (live, st)" and pcb: "pcb \<in> live" and step: "pcb_step U pcb st st'"
  have t: "set (udp_pcbs st) \<subseteq> set (udp_pcbs st')" "set (udp_pcbs st') \<subseteq> insert pcb (set (udp_pcbs st))"
    "\<And>i. i \<noteq> pcb \<Longrightarrow> pcb_at st' i = pcb_at st i"
    "pcb \<in> set (udp_pcbs st') \<or> local_port (pcb_at st' pcb) = local_port (pcb_at st pcb)"
    using step by (simp_all add: pcb_step_def touches_def)
  have "local_port (pcb_at st' p) = 0" if "p \<in> live" "p \<notin> set (udp_pcbs st')" for p
  proof -
    have "local_port (pcb_at st' p) = local_port (pcb_at st p)" using t(3) [of p] t(4) that(2) by (cases "p = pcb") auto
    moreover have "p \<notin> set (udp_pcbs st)" using t(1) that(2) by blast
    ultimately show ?thesis using good that(1) by simp
  qed
  moreover have "set (udp_pcbs st') \<subseteq> live" using t(2) good pcb by auto
  ultimately show ?thesis using step by (simp add: pcb_step_def)
qed

lemma send_variants:
  "udp_send U pcb p st = udp_send_chksum U pcb p False 0 st"
  "udp_sendto U pcb p dst dport st = udp_sendto_chksum U pcb p dst dport False 0 st"
  "udp_sendto_if U pcb p dst dport n st = udp_sendto_if_chksum U pcb p dst dport n False 0 st"
  "udp_sendto_if_src U pcb p dst dport n src st = udp_sendto_if_src_chksum U pcb p dst dport n False 0 src st"
  by (simp_all add: udp_send_def udp_send_chksum_def udp_sendto_def udp_sendto_if_def udp_sendto_if_src_def Let_def)

lemma pcb_op_step:
  assumes U: "udp_ok U" and good: "udp_good U (live, st)" and valid: "udp_op_valid op (live, st)" and pcb: "udp_op_pcb op = Some pcb"
  shows "pcb_step U pcb st (udp_pcb_op U op st)" "pcb \<in> live"
proof -
  show live: "pcb \<in> live" using valid pcb by (cases op) simp_all
  have inv: "udp_inv U st" and b: "local_port (pcb_at st pcb) = 0 \<or> pcb \<in> set (udp_pcbs st)" using good live by auto
  note steps = connect_step [OF U inv b] send_step [OF U inv b] sends_step [OF U inv b]
  show "pcb_step U pcb st (udp_pcb_op U op st)"
  proof (cases op)
    case (Op_udp_options pcb' reuse broadcast)
    then have [simp]: "pcb' = pcb" using pcb by simp
    show ?thesis
    proof (cases "local_port (pcb_at st pcb) = 0")
      case True
      then have "pcb \<notin> set (udp_pcbs st)" using inv by (auto simp: udp_inv_def)
      then show ?thesis using inv unfolding Op_udp_options by (simp add: pcb_step_def fun_eq_iff inv_set_pcb)
    next
      case False
      then show ?thesis using valid inv unfolding Op_udp_options by (auto intro!: set_pcb_step simp: binding_def)
    qed
  next
    case (Op_udp_bind pcb' ipaddr lport)
    then have "pcb' = pcb" using pcb by simp
    then show ?thesis using bind_step(1) [OF U inv, of pcb ipaddr lport] unfolding Op_udp_bind
      by (metis prod.collapse udp_pcb_op.simps(2))
  qed (use pcb inv in \<open>auto simp: steps send_variants udp_bind_netif_def udp_disconnect_def udp_recv_def Let_def binding_def
      pcb_step_refl intro!: set_pcb_step split: option.split\<close>)
qed

lemma new_good:
  assumes good: "udp_good U (live, st)" and fresh: "case ptr of None \<Rightarrow> True | Some pcb \<Rightarrow> pcb \<notin> live"
    and r: "(case type of None \<Rightarrow> udp_new U ptr st | Some t \<Rightarrow> udp_new_ip_type U t ptr st) = (res, st')"
  shows "udp_good U (case res of None \<Rightarrow> live | Some pcb \<Rightarrow> insert pcb live, st')" "udp_taken st' = udp_taken st"
proof -
  have set: "udp_good U (insert pcb live, set_pcb pcb b st)" if "pcb \<notin> live" "local_port b = 0" for pcb b
  proof -
    have "pcb \<notin> set (udp_pcbs st)" using good that(1) by auto
    then show ?thesis using good that by (auto simp: inv_set_pcb)
  qed
  have twice: "set_pcb p b' (set_pcb p b s) = set_pcb p b' s" for p b b' and s :: "'a udp" by (simp add: set_pcb_def)
  have "udp_good U (case res of None \<Rightarrow> live | Some pcb \<Rightarrow> insert pcb live, st') \<and> udp_taken st' = udp_taken st"
  proof (cases ptr)
    case None
    then show ?thesis using r good by (auto simp: udp_new_def udp_new_ip_type_def split: option.splits)
  next
    case (Some pcb)
    define b where "b = \<lparr>local_ip = IP_ZERO U, remote_ip = IP_ZERO U, netif_idx = 0, SOF_BROADCAST = False, SOF_REUSEADDR = False,
              pcb_tos = 0, pcb_ttl = UDP_TTL U, pcb_flags = 0, local_port = 0, remote_port = 0, mcast_ip4 = 0,
              mcast_ifindex = 0, mcast_ttl = (if LWIP_MULTICAST_TX_OPTIONS U then UDP_TTL U else 0),
              chksum_len_tx = 0, recv = None\<rparr>"
    define b' where "b' = (case type of None \<Rightarrow> b | Some t \<Rightarrow> if LWIP_IPV4 (stack U) \<and> LWIP_IPV6 (stack U)
        then b\<lparr>local_ip := IP_SET_TYPE U t (local_ip b), remote_ip := IP_SET_TYPE U t (remote_ip b)\<rparr> else b)"
    have "udp_new U ptr st = (Some pcb, set_pcb pcb b st)" unfolding udp_new_def Some b_def by simp
    then have e: "res = Some pcb" "st' = set_pcb pcb b' st"
      using r by (auto simp: udp_new_ip_type_def b'_def twice split: option.splits if_splits)
    have "local_port b' = 0" by (simp add: b'_def b_def split: option.split)
    then show ?thesis unfolding e using set fresh Some by (simp add: fun_eq_iff)
  qed
  then show "udp_good U (case res of None \<Rightarrow> live | Some pcb \<Rightarrow> insert pcb live, st')" "udp_taken st' = udp_taken st"
    by (rule conjunct1, rule conjunct2)
qed

lemma remove_good: "udp_good U (live, st) \<Longrightarrow> udp_good U (live - {pcb}, udp_remove pcb st)"
proof -
  assume good: "udp_good U (live, st)"
  then have d: "distinct (udp_pcbs st)" by (simp add: udp_inv_def)
  then have s: "set (udp_pcbs (udp_remove pcb st)) = set (udp_pcbs st) - {pcb}" by (simp add: udp_remove_def)
  have "same_bindings st (udp_remove pcb st)"
    unfolding same_bindings_def s using good d by (auto simp: udp_remove_def udp_inv_def)
  then have "udp_inv U (udp_remove pcb st)" using good by (auto intro: inv_same_bindings)
  moreover have "pcb_at (udp_remove pcb st) = pcb_at st" by (simp add: udp_remove_def)
  ultimately show ?thesis using good s by auto
qed

lemma input_good:
  assumes "udp_ok U" "udp_good U (live, st)"
  shows "\<exists>st'. udp_input U D p inp st = Some st' \<and> udp_good U (live, st')
    \<and> (\<forall>k. udp_taken st' k = udp_taken st k - (if k = up_ptr p then 1 else 0))"
proof -
  obtain st' where st': "udp_input U D p inp st = Some st'" "mset (udp_pcbs st') = mset (udp_pcbs st)"
    "udp_port st' = udp_port st" "pcb_at st' = pcb_at st"
    "\<forall>k. udp_taken st' k = udp_taken st k - (if k = up_ptr p then 1 else 0)"
    using input_keeps [OF assms(1)] by blast
  have s: "set (udp_pcbs st') = set (udp_pcbs st)" "distinct (udp_pcbs st') = distinct (udp_pcbs st)"
    using st'(2) by (metis set_mset_mset) (metis mset_eq_imp_distinct_iff st'(2))
  have "udp_good U (live, st')" using assms(2) s st'(3,4) by (simp add: udp_inv_def)
  then show ?thesis using st' by blast
qed

lemma udp_op_conserves:
  assumes U: "udp_ok U" and good: "udp_good U s" and valid: "udp_op_valid op s"
  shows "\<exists>s'. udp_op_step U op s = Some s' \<and> udp_good U s' \<and> (\<forall>k. udp_taken (snd s') k = udp_taken (snd s) k - udp_income op k)"
proof -
  obtain live st where s: "s = (live, st)" by fastforce
  show ?thesis
  proof (cases "udp_op_pcb op")
    case None
    then consider (new) ptr type where "op = Op_udp_new ptr type" | (inp) D p n where "op = Op_udp_input D p n"
      by (cases op) auto
    then show ?thesis
    proof cases
      case new
      obtain res st' where r: "(case type of None \<Rightarrow> udp_new U ptr st | Some t \<Rightarrow> udp_new_ip_type U t ptr st) = (res, st')"
        by fastforce
      have "case ptr of None \<Rightarrow> True | Some pcb \<Rightarrow> pcb \<notin> live" using valid unfolding s new by simp
      note g = new_good [OF good [unfolded s] this r]
      show ?thesis
      proof (cases res)
        case None
        then show ?thesis using g unfolding s new udp_op_step.simps r by (simp del: udp_good.simps)
      next
        case (Some pcb)
        then show ?thesis using g unfolding s new udp_op_step.simps r by (simp del: udp_good.simps)
      qed
    next
      case inp
      obtain st' where "udp_input U D p n st = Some st'" "udp_good U (live, st')"
        "\<forall>k. udp_taken st' k = udp_taken st k - (if k = up_ptr p then 1 else 0)"
        using input_good [OF U good [unfolded s]] by blast
      then show ?thesis unfolding s inp by (simp del: udp_good.simps)
    qed
  next
    case (Some pcb)
    note step = pcb_op_step [OF U good [unfolded s] valid [unfolded s] Some]
    show ?thesis
    proof (cases "\<exists>p. op = Op_udp_remove p")
      case True
      then obtain p where p: "op = Op_udp_remove p" by blast
      show ?thesis using remove_good [OF good [unfolded s]] unfolding s p by (auto simp: udp_remove_def)
    next
      case False
      then have e: "udp_op_step U op (live, st) = Some (live, udp_pcb_op U op st)" "udp_income op = (\<lambda>k. 0)"
        using Some by (cases op; simp add: fun_eq_iff)+
      then show ?thesis using pcb_step_good [OF good [unfolded s] step(2,1)] step(1) unfolding s by (simp add: pcb_step_def)
    qed
  qed
qed

text \<open>Before the first call: no control block, and \<open>udp_init\<close> has chosen a port to start from.\<close>

definition udp_start :: "'ip udp_env \<Rightarrow> (nat \<Rightarrow> 'ip udp_pcb) \<Rightarrow> 'ip udp_world" where
  "udp_start U mem = ({}, udp_init U \<lparr>udp_port = UDP_LOCAL_PORT_RANGE_START, udp_pcbs = [], pcb_at = mem, udp_trace = []\<rparr>)"

lemma ensure_range: "UDP_LOCAL_PORT_RANGE_START \<le> UDP_ENSURE_LOCAL_PORT_RANGE x"
proof -
  have "x AND 0x3fff \<le> 0x3fff" by (rule word_and_le1)
  then have "unat ((x AND 0x3fff) + 0xc000) = unat (x AND 0x3fff) + 0xc000"
    by (simp add: unat_word_ariths word_le_nat_alt)
  moreover have "unat (x AND 0x3fff) \<le> 0x3fff" using \<open>x AND 0x3fff \<le> 0x3fff\<close> by (simp add: word_le_nat_alt)
  ultimately show ?thesis
    by (simp add: UDP_ENSURE_LOCAL_PORT_RANGE_def UDP_LOCAL_PORT_RANGE_START_def word_le_nat_alt unsigned_ucast_eq take_bit_nat_eq_self)
qed

lemma start_good: "udp_good U (udp_start U mem)" "udp_taken (snd (udp_start U mem)) k = 0"
  by (simp_all add: udp_start_def udp_init_def udp_inv_def ensure_range udp_taken_def split: option.split)

text \<open>UDP as a machine that conserves references; what it needs of the stack is in the invariant.\<close>

interpretation udp_machine: conserving_machine "udp_op_step U" udp_op_valid "\<lambda>s. udp_ok U \<and> udp_good U s"
  "\<lambda>s. udp_taken (snd s)" udp_income for U :: "'ip udp_env"
  by unfold_locales (use udp_op_conserves in blast)

end
