(* ===== verification/Lwip_Etharp.thy ===== *)
theory Lwip_Etharp
  imports Lwip_Ethernet
begin

text \<open>
  The ARP cache of lwIP (\<open>core/ipv4/etharp.c\<close>), function by function. The state is the table,
  the cached index (\<open>etharp_cached_entry\<close>, or with \<open>LWIP_NETIF_HWADDRHINT\<close> the hint of each
  interface) and the trace of effects. Statistics, SNMP and debug output are left out.
\<close>

section \<open>State\<close>

datatype etharp_state =
    ETHARP_STATE_EMPTY
  | ETHARP_STATE_PENDING
  | ETHARP_STATE_STABLE
  | ETHARP_STATE_STABLE_REREQUESTING_1
  | ETHARP_STATE_STABLE_REREQUESTING_2
  | ETHARP_STATE_STATIC

text \<open>\<open>state >= ETHARP_STATE_STABLE\<close>\<close>

definition ge_stable :: "etharp_state \<Rightarrow> bool" where
  "ge_stable s \<longleftrightarrow> s \<noteq> ETHARP_STATE_EMPTY \<and> s \<noteq> ETHARP_STATE_PENDING"

text \<open>The queue is a list; without \<open>ARP_QUEUEING\<close> it is the single packet \<open>q\<close> or nothing.\<close>

record etharp_entry =
  ae_q :: "pbuf list"
  ae_ipaddr :: ip4_addr
  ae_netif :: "netif_ptr option"
  ae_ethaddr :: eth_addr
  ae_ctime :: "16 word"
  ae_state :: etharp_state

record arp =
  arp_table :: "etharp_entry list"
  etharp_cached_entry :: nat
  addr_hint :: "netif_ptr \<Rightarrow> nat option"
  trace :: "effect list"

definition etharp_init :: "lwip_env \<Rightarrow> (netif_ptr \<Rightarrow> nat option) \<Rightarrow> arp" where
  "etharp_init E hints =
     \<lparr>arp_table = replicate (ARP_TABLE_SIZE E)
        \<lparr>ae_q = [], ae_ipaddr = 0, ae_netif = None, ae_ethaddr = ethzero, ae_ctime = 0, ae_state = ETHARP_STATE_EMPTY\<rparr>,
      etharp_cached_entry = 0, addr_hint = hints, trace = []\<rparr>"

definition ARP_MAXPENDING :: nat where "ARP_MAXPENDING = 5"

definition ARP_AGE_REREQUEST_USED_UNICAST :: "lwip_env \<Rightarrow> int" where
  "ARP_AGE_REREQUEST_USED_UNICAST E = int (ARP_MAXAGE E) - 30"

definition ARP_AGE_REREQUEST_USED_BROADCAST :: "lwip_env \<Rightarrow> int" where
  "ARP_AGE_REREQUEST_USED_BROADCAST E = int (ARP_MAXAGE E) - 15"

definition ETHARP_FLAG_TRY_HARD :: byte where "ETHARP_FLAG_TRY_HARD = 1"
definition ETHARP_FLAG_FIND_ONLY :: byte where "ETHARP_FLAG_FIND_ONLY = 2"
definition ETHARP_FLAG_STATIC_ENTRY :: byte where "ETHARP_FLAG_STATIC_ENTRY = 4"

text \<open>The index of an entry has 8 or 16 bits.\<close>

definition NETIF_ADDR_IDX_MAX :: "lwip_env \<Rightarrow> nat" where
  "NETIF_ADDR_IDX_MAX E =
     (if (LWIP_IPV4 E \<and> LWIP_ARP E \<and> ARP_TABLE_SIZE E > 0x7f) \<or> (LWIP_IPV6 E \<and> LWIP_ND6_NUM_DESTINATIONS E > 0x7f)
      then 0x7fff else 0x7f)"

definition set_entry :: "nat \<Rightarrow> etharp_entry \<Rightarrow> arp \<Rightarrow> arp" where
  "set_entry i e st = st\<lparr>arp_table := (arp_table st)[i := e]\<rparr>"

definition emit :: "effect list \<Rightarrow> arp \<Rightarrow> arp" where
  "emit evs st = st\<lparr>trace := trace st @ evs\<rparr>"

text \<open>\<open>ETHARP_SET_ADDRHINT\<close>\<close>

definition ETHARP_SET_ADDRHINT :: "lwip_env \<Rightarrow> netif_ptr \<Rightarrow> nat \<Rightarrow> arp \<Rightarrow> arp" where
  "ETHARP_SET_ADDRHINT E n i st =
     (if LWIP_NETIF_HWADDRHINT E then
        if addr_hint st n \<noteq> None then st\<lparr>addr_hint := (addr_hint st)(n := Some i)\<rparr> else st
      else st\<lparr>etharp_cached_entry := i\<rparr>)"

definition eth_out ::
  "lwip_env \<Rightarrow> netif_ptr \<Rightarrow> nat \<Rightarrow> byte list \<Rightarrow> eth_addr \<Rightarrow> eth_addr \<Rightarrow> 16 word \<Rightarrow> arp \<Rightarrow> (err_t \<times> arp) option"
where
  "eth_out E n p payload src dst eth_type st =
     map_option (\<lambda>(err, tr). (err, st\<lparr>trace := tr\<rparr>)) (ethernet_output E n p payload src dst eth_type (trace st))"

section \<open>ARP packets\<close>

text \<open>The fields in the byte order of the host; \<open>etharp_hdr_bytes\<close> is the packed structure.\<close>

record etharp_hdr =
  hwtype :: "16 word"
  proto :: "16 word"
  hwlen :: byte
  protolen :: byte
  opcode :: "16 word"
  shwaddr :: eth_addr
  sipaddr :: ip4_addr
  dhwaddr :: eth_addr
  dipaddr :: ip4_addr

definition SIZEOF_ETHARP_HDR :: nat where "SIZEOF_ETHARP_HDR = 28"
definition LWIP_IANA_HWTYPE_ETHERNET :: "16 word" where "LWIP_IANA_HWTYPE_ETHERNET = 1"
definition ARP_REQUEST :: "16 word" where "ARP_REQUEST = 1"
definition ARP_REPLY :: "16 word" where "ARP_REPLY = 2"

definition etharp_hdr_bytes :: "lwip_env \<Rightarrow> etharp_hdr \<Rightarrow> byte list" where
  "etharp_hdr_bytes E h =
     be16 (hwtype h) @ be16 (proto h) @ [hwlen h, protolen h] @ be16 (opcode h)
     @ shwaddr h @ lp_mem (port E) (sipaddr h) @ dhwaddr h @ lp_mem (port E) (dipaddr h)"

definition load_etharp_hdr :: "lwip_env \<Rightarrow> byte list \<Rightarrow> etharp_hdr option" where
  "load_etharp_hdr E b =
     (if length b < SIZEOF_ETHARP_HDR then None
      else Some \<lparr>hwtype = load_be16 b, proto = load_be16 (drop 2 b), hwlen = b ! 4, protolen = b ! 5,
                 opcode = load_be16 (drop 6 b), shwaddr = take 6 (drop 8 b), sipaddr = ip4_load E (take 4 (drop 14 b)),
                 dhwaddr = take 6 (drop 18 b), dipaddr = ip4_load E (take 4 (drop 24 b))\<rparr>)"

definition etharp_raw ::
  "lwip_env \<Rightarrow> netif_ptr \<Rightarrow> eth_addr \<Rightarrow> eth_addr \<Rightarrow> eth_addr \<Rightarrow> ip4_addr \<Rightarrow> eth_addr \<Rightarrow> ip4_addr \<Rightarrow> 16 word
   \<Rightarrow> arp \<Rightarrow> (err_t \<times> arp) option"
where
  "etharp_raw E n ethsrc_addr ethdst_addr hwsrc_addr ipsrc_addr hwdst_addr ipdst_addr op st =
     (case pbuf_alloc E (trace st) of
        None \<Rightarrow> Some (ERR_MEM, st)
      | Some p \<Rightarrow>
          if hwaddr_len (nif E n) \<noteq> ETH_HWADDR_LEN then None
          else
            do {
              let st = emit [Pbuf_new p] st;
              let hdr = \<lparr>hwtype = LWIP_IANA_HWTYPE_ETHERNET, proto = ETHTYPE_IP E, hwlen = of_nat ETH_HWADDR_LEN,
                         protolen = 4, opcode = op, shwaddr = hwsrc_addr, sipaddr = ipsrc_addr,
                         dhwaddr = hwdst_addr, dipaddr = ipdst_addr\<rparr>;
              let dst = (if LWIP_AUTOIP E \<and> ip4_addr_islinklocal E ipsrc_addr then ethbroadcast else ethdst_addr);
              (err, st) \<leftarrow> eth_out E n p (etharp_hdr_bytes E hdr) ethsrc_addr dst (ETHTYPE_ARP E) st;
              Some (ERR_OK, emit [Pbuf_free p] st)
            })"

definition etharp_request_dst :: "lwip_env \<Rightarrow> netif_ptr \<Rightarrow> ip4_addr \<Rightarrow> eth_addr \<Rightarrow> arp \<Rightarrow> (err_t \<times> arp) option" where
  "etharp_request_dst E n ipaddr hw_dst_addr st =
     etharp_raw E n (hwaddr (nif E n)) hw_dst_addr (hwaddr (nif E n)) (ip_addr (nif E n)) ethzero ipaddr ARP_REQUEST st"

definition etharp_request :: "lwip_env \<Rightarrow> netif_ptr \<Rightarrow> ip4_addr \<Rightarrow> arp \<Rightarrow> (err_t \<times> arp) option" where
  "etharp_request E n ipaddr st = etharp_request_dst E n ipaddr ethbroadcast st"

section \<open>The timer\<close>

definition etharp_free_entry :: "lwip_env \<Rightarrow> nat \<Rightarrow> arp \<Rightarrow> arp" where
  "etharp_free_entry E i st =
     (let e = arp_table st ! i;
          st = emit (map (\<lambda>p. Pbuf_free (pb_ptr p)) (ae_q e)) st;
          e = e\<lparr>ae_q := [], ae_state := ETHARP_STATE_EMPTY\<rparr>;
          e = (if LWIP_DEBUG E
               then e\<lparr>ae_ctime := 0, ae_netif := None, ae_ipaddr := 0, ae_ethaddr := ethzero\<rparr> else e)
      in set_entry i e st)"

definition tmr_entry :: "lwip_env \<Rightarrow> nat \<Rightarrow> arp \<Rightarrow> arp option" where
  "tmr_entry E i st =
     (let e = arp_table st ! i in
      if ae_state e \<noteq> ETHARP_STATE_EMPTY
         \<and> (ETHARP_SUPPORT_STATIC_ENTRIES E \<longrightarrow> ae_state e \<noteq> ETHARP_STATE_STATIC) then
        (let e = e\<lparr>ae_ctime := ae_ctime e + 1\<rparr>; st = set_entry i e st in
         if unat (ae_ctime e) \<ge> ARP_MAXAGE E
            \<or> (ae_state e = ETHARP_STATE_PENDING \<and> unat (ae_ctime e) \<ge> ARP_MAXPENDING)
         then Some (etharp_free_entry E i st)
         else if ae_state e = ETHARP_STATE_STABLE_REREQUESTING_1
         then Some (set_entry i (e\<lparr>ae_state := ETHARP_STATE_STABLE_REREQUESTING_2\<rparr>) st)
         else if ae_state e = ETHARP_STATE_STABLE_REREQUESTING_2
         then Some (set_entry i (e\<lparr>ae_state := ETHARP_STATE_STABLE\<rparr>) st)
         else if ae_state e = ETHARP_STATE_PENDING then
           (case ae_netif e of
              None \<Rightarrow> None
            | Some n \<Rightarrow> map_option snd (etharp_request E n (ae_ipaddr e) st))
         else Some st)
      else Some st)"

fun tmr_loop :: "lwip_env \<Rightarrow> nat list \<Rightarrow> arp \<Rightarrow> arp option" where
  "tmr_loop E [] st = Some st"
| "tmr_loop E (i # is) st = do { st \<leftarrow> tmr_entry E i st; tmr_loop E is st }"

definition etharp_tmr :: "lwip_env \<Rightarrow> arp \<Rightarrow> arp option" where
  "etharp_tmr E st = tmr_loop E [0..<ARP_TABLE_SIZE E] st"

section \<open>Finding or making an entry\<close>

record find_vars =
  fv_empty :: nat
  old_pending :: nat
  old_stable :: nat
  old_queue :: nat
  age_queue :: "16 word"
  age_pending :: "16 word"
  age_stable :: "16 word"

text \<open>The entry \<open>e\<close> at index \<open>i\<close> is not empty and does not match: is it a candidate?\<close>

definition find_candidate :: "lwip_env \<Rightarrow> nat \<Rightarrow> etharp_entry \<Rightarrow> find_vars \<Rightarrow> find_vars" where
  "find_candidate E i e v =
     (if ae_state e = ETHARP_STATE_PENDING then
        if ae_q e \<noteq> [] then
          if ae_ctime e \<ge> age_queue v then v\<lparr>old_queue := i, age_queue := ae_ctime e\<rparr> else v
        else
          if ae_ctime e \<ge> age_pending v then v\<lparr>old_pending := i, age_pending := ae_ctime e\<rparr> else v
      else if ETHARP_SUPPORT_STATIC_ENTRIES E \<longrightarrow> ae_state e \<noteq> ETHARP_STATE_STATIC then
        if ae_ctime e \<ge> age_stable v then v\<lparr>old_stable := i, age_stable := ae_ctime e\<rparr> else v
      else v)"

definition entry_matches :: "lwip_env \<Rightarrow> ip4_addr \<Rightarrow> netif_ptr option \<Rightarrow> etharp_entry \<Rightarrow> bool" where
  "entry_matches E ipaddr n e \<longleftrightarrow> ip4_addr_cmp E ipaddr (ae_ipaddr e)
     \<and> (ETHARP_TABLE_MATCH_NETIF E \<longrightarrow> n = None \<or> n = ae_netif e)"

fun find_scan ::
  "lwip_env \<Rightarrow> ip4_addr \<Rightarrow> netif_ptr option \<Rightarrow> nat \<Rightarrow> etharp_entry list \<Rightarrow> find_vars \<Rightarrow> nat + find_vars"
where
  "find_scan E ipaddr n i [] v = Inr v"
| "find_scan E ipaddr n i (e # es) v =
     (if fv_empty v = ARP_TABLE_SIZE E \<and> ae_state e = ETHARP_STATE_EMPTY
      then find_scan E ipaddr n (i + 1) es (v\<lparr>fv_empty := i\<rparr>)
      else if ae_state e \<noteq> ETHARP_STATE_EMPTY then
        if entry_matches E ipaddr n e then Inl i
        else find_scan E ipaddr n (i + 1) es (find_candidate E i e v)
      else find_scan E ipaddr n (i + 1) es v)"

text \<open>The choice of an entry to recycle, \<open>None\<close> for no candidate; the boolean is the
  assertion that a stable entry has no queue.\<close>

definition find_recycle :: "lwip_env \<Rightarrow> arp \<Rightarrow> find_vars \<Rightarrow> (nat \<times> bool) option" where
  "find_recycle E st v =
     (if old_stable v < ARP_TABLE_SIZE E then Some (old_stable v, ae_q (arp_table st ! old_stable v) = [])
      else if old_pending v < ARP_TABLE_SIZE E then Some (old_pending v, True)
      else if old_queue v < ARP_TABLE_SIZE E then Some (old_queue v, True)
      else None)"

definition find_init :: "lwip_env \<Rightarrow> find_vars" where
  "find_init E =
     \<lparr>fv_empty = ARP_TABLE_SIZE E, old_pending = ARP_TABLE_SIZE E, old_stable = ARP_TABLE_SIZE E,
      old_queue = ARP_TABLE_SIZE E, age_queue = 0, age_pending = 0, age_stable = 0\<rparr>"

text \<open>The new entry, after the assertions that its index is in range and that it is empty.\<close>

definition create_entry :: "lwip_env \<Rightarrow> ip4_addr \<Rightarrow> netif_ptr option \<Rightarrow> nat \<Rightarrow> arp \<Rightarrow> arp" where
  "create_entry E ipaddr n i st =
     (let e = (arp_table st ! i)\<lparr>ae_ipaddr := ipaddr, ae_ctime := 0\<rparr>;
          e = (if ETHARP_TABLE_MATCH_NETIF E then e\<lparr>ae_netif := n\<rparr> else e)
      in set_entry i e st)"

definition find_create :: "lwip_env \<Rightarrow> ip4_addr \<Rightarrow> netif_ptr option \<Rightarrow> nat \<Rightarrow> arp \<Rightarrow> (nat option \<times> arp) option" where
  "find_create E ipaddr n i st =
     (if \<not> i < ARP_TABLE_SIZE E \<or> ae_state (arp_table st ! i) \<noteq> ETHARP_STATE_EMPTY then None
      else Some (Some i, create_entry E ipaddr n i st))"

text \<open>\<open>ERR_MEM\<close> is \<open>None\<close> as an index.\<close>

definition etharp_find_entry ::
  "lwip_env \<Rightarrow> ip4_addr \<Rightarrow> byte \<Rightarrow> netif_ptr option \<Rightarrow> arp \<Rightarrow> (nat option \<times> arp) option"
where
  "etharp_find_entry E ipaddr flags n st =
     (case find_scan E ipaddr n 0 (arp_table st) (find_init E) of
        Inl i \<Rightarrow> Some (Some i, st)
      | Inr v \<Rightarrow>
          if flags AND ETHARP_FLAG_FIND_ONLY \<noteq> 0
             \<or> (fv_empty v = ARP_TABLE_SIZE E \<and> flags AND ETHARP_FLAG_TRY_HARD = 0) then Some (None, st)
          else if fv_empty v < ARP_TABLE_SIZE E then find_create E ipaddr n (fv_empty v) st
          else
            (case find_recycle E st v of
               None \<Rightarrow> Some (None, st)
             | Some (i, q_null) \<Rightarrow>
                 if \<not> q_null then None else find_create E ipaddr n i (etharp_free_entry E i st)))"

section \<open>Updating the table\<close>

text \<open>The loop that sends the queued packets and frees them.\<close>

fun send_queue :: "lwip_env \<Rightarrow> netif_ptr \<Rightarrow> eth_addr \<Rightarrow> pbuf list \<Rightarrow> arp \<Rightarrow> arp option" where
  "send_queue E n ethaddr [] st = Some st"
| "send_queue E n ethaddr (p # q) st =
     do {
       (err, st) \<leftarrow> eth_out E n (pb_ptr p) (pb_bytes p) (hwaddr (nif E n)) ethaddr (ETHTYPE_IP E) st;
       send_queue E n ethaddr q (emit [Pbuf_free (pb_ptr p)] st)
     }"

definition etharp_update_arp_entry ::
  "lwip_env \<Rightarrow> netif_ptr \<Rightarrow> ip4_addr \<Rightarrow> eth_addr \<Rightarrow> byte \<Rightarrow> arp \<Rightarrow> (err_t \<times> arp) option"
where
  "etharp_update_arp_entry E n ipaddr ethaddr flags st =
     (if hwaddr_len (nif E n) \<noteq> ETH_HWADDR_LEN then None
      else if ip4_addr_isany E ipaddr \<or> ip4_addr_isbroadcast E ipaddr (nif E n) \<or> ip4_addr_ismulticast E ipaddr
      then Some (ERR_ARG, st)
      else
        (case etharp_find_entry E ipaddr flags (Some n) st of
           None \<Rightarrow> None
         | Some (None, st) \<Rightarrow> Some (ERR_MEM, st)
         | Some (Some i, st) \<Rightarrow>
             (let e = arp_table st ! i;
                  static = (ETHARP_SUPPORT_STATIC_ENTRIES E \<and> flags AND ETHARP_FLAG_STATIC_ENTRY \<noteq> 0)
              in
              if \<not> static \<and> ETHARP_SUPPORT_STATIC_ENTRIES E \<and> ae_state e = ETHARP_STATE_STATIC then Some (ERR_VAL, st)
              else
                (let q = ae_q e;
                     e = e\<lparr>ae_state := (if static then ETHARP_STATE_STATIC else ETHARP_STATE_STABLE),
                           ae_netif := Some n, ae_ethaddr := take ETH_HWADDR_LEN ethaddr, ae_ctime := 0, ae_q := []\<rparr>
                 in
                 case send_queue E n ethaddr q (set_entry i e st) of
                   None \<Rightarrow> None
                 | Some st \<Rightarrow> Some (ERR_OK, st)))))"

definition etharp_add_static_entry :: "lwip_env \<Rightarrow> ip4_addr \<Rightarrow> eth_addr \<Rightarrow> arp \<Rightarrow> (err_t \<times> arp) option" where
  "etharp_add_static_entry E ipaddr ethaddr st =
     (case ip4_route E ipaddr of
        None \<Rightarrow> Some (ERR_RTE, st)
      | Some n \<Rightarrow> etharp_update_arp_entry E n ipaddr ethaddr (ETHARP_FLAG_TRY_HARD OR ETHARP_FLAG_STATIC_ENTRY) st)"

definition etharp_remove_static_entry :: "lwip_env \<Rightarrow> ip4_addr \<Rightarrow> arp \<Rightarrow> (err_t \<times> arp) option" where
  "etharp_remove_static_entry E ipaddr st =
     (case etharp_find_entry E ipaddr ETHARP_FLAG_FIND_ONLY None st of
        None \<Rightarrow> None
      | Some (None, st) \<Rightarrow> Some (ERR_MEM, st)
      | Some (Some i, st) \<Rightarrow>
          if ae_state (arp_table st ! i) \<noteq> ETHARP_STATE_STATIC then Some (ERR_ARG, st)
          else Some (ERR_OK, etharp_free_entry E i st))"

fun cleanup_loop :: "lwip_env \<Rightarrow> netif_ptr \<Rightarrow> nat list \<Rightarrow> arp \<Rightarrow> arp" where
  "cleanup_loop E n [] st = st"
| "cleanup_loop E n (i # is) st =
     cleanup_loop E n is
       (if ae_state (arp_table st ! i) \<noteq> ETHARP_STATE_EMPTY \<and> ae_netif (arp_table st ! i) = Some n
        then etharp_free_entry E i st else st)"

definition etharp_cleanup_netif :: "lwip_env \<Rightarrow> netif_ptr \<Rightarrow> arp \<Rightarrow> arp" where
  "etharp_cleanup_netif E n st = cleanup_loop E n [0..<ARP_TABLE_SIZE E] st"

text \<open>The index of a stable entry with its addresses, \<open>None\<close> for -1.\<close>

definition etharp_find_addr ::
  "lwip_env \<Rightarrow> netif_ptr option \<Rightarrow> ip4_addr \<Rightarrow> arp \<Rightarrow> (nat \<times> eth_addr \<times> ip4_addr) option option"
where
  "etharp_find_addr E n ipaddr st =
     (case etharp_find_entry E ipaddr ETHARP_FLAG_FIND_ONLY n st of
        None \<Rightarrow> None
      | Some (Some i, st) \<Rightarrow>
          Some (if ge_stable (ae_state (arp_table st ! i))
                then Some (i, ae_ethaddr (arp_table st ! i), ae_ipaddr (arp_table st ! i)) else None)
      | Some (None, st) \<Rightarrow> Some None)"

definition etharp_get_entry ::
  "lwip_env \<Rightarrow> nat \<Rightarrow> arp \<Rightarrow> (ip4_addr \<times> netif_ptr option \<times> eth_addr) option"
where
  "etharp_get_entry E i st =
     (if i < ARP_TABLE_SIZE E \<and> ge_stable (ae_state (arp_table st ! i))
      then Some (ae_ipaddr (arp_table st ! i), ae_netif (arp_table st ! i), ae_ethaddr (arp_table st ! i))
      else None)"

section \<open>Input\<close>

text \<open>\<open>p\<close> is the buffer, \<open>b\<close> its bytes behind the Ethernet header.\<close>

definition etharp_input :: "lwip_env \<Rightarrow> nat \<Rightarrow> byte list \<Rightarrow> netif_ptr \<Rightarrow> arp \<Rightarrow> arp option" where
  "etharp_input E p b n st =
     (case load_etharp_hdr E b of
        None \<Rightarrow> None
      | Some hdr \<Rightarrow>
          if hwtype hdr \<noteq> LWIP_IANA_HWTYPE_ETHERNET \<or> hwlen hdr \<noteq> of_nat ETH_HWADDR_LEN
             \<or> protolen hdr \<noteq> 4 \<or> proto hdr \<noteq> ETHTYPE_IP E
          then Some (emit [Pbuf_free p] st)
          else
            do {
              let st = (if LWIP_AUTOIP E then emit [Autoip_arp_reply n b] st else st);
              let for_us = (\<not> ip4_addr_isany E (ip_addr (nif E n)) \<and> ip4_addr_cmp E (dipaddr hdr) (ip_addr (nif E n)));
              (err, st) \<leftarrow> etharp_update_arp_entry E n (sipaddr hdr) (shwaddr hdr)
                             (if for_us then ETHARP_FLAG_TRY_HARD else ETHARP_FLAG_FIND_ONLY) st;
              st \<leftarrow> (if opcode hdr = ARP_REQUEST then
                       if for_us
                       then map_option snd (etharp_raw E n (hwaddr (nif E n)) (shwaddr hdr) (hwaddr (nif E n))
                              (ip_addr (nif E n)) (shwaddr hdr) (sipaddr hdr) ARP_REPLY st)
                       else Some st
                     else if opcode hdr = ARP_REPLY then
                       Some (if DHCP_DOES_ARP_CHECK E then emit [Dhcp_arp_reply n (sipaddr hdr)] st else st)
                     else Some st);
              Some (emit [Pbuf_free p] st)
            })"

section \<open>Output\<close>

definition etharp_output_to_arp_index :: "lwip_env \<Rightarrow> netif_ptr \<Rightarrow> pbuf \<Rightarrow> nat \<Rightarrow> arp \<Rightarrow> (err_t \<times> arp) option" where
  "etharp_output_to_arp_index E n q arp_idx st =
     (let e = arp_table st ! arp_idx in
      if \<not> ge_stable (ae_state e) then None
      else
        do {
          st \<leftarrow> (if ae_state e = ETHARP_STATE_STABLE then
                   if int (unat (ae_ctime e)) \<ge> ARP_AGE_REREQUEST_USED_BROADCAST E then
                     map_option (\<lambda>(err, st). if err = ERR_OK
                         then set_entry arp_idx (e\<lparr>ae_state := ETHARP_STATE_STABLE_REREQUESTING_1\<rparr>) st else st)
                       (etharp_request E n (ae_ipaddr e) st)
                   else if int (unat (ae_ctime e)) \<ge> ARP_AGE_REREQUEST_USED_UNICAST E then
                     map_option (\<lambda>(err, st). if err = ERR_OK
                         then set_entry arp_idx (e\<lparr>ae_state := ETHARP_STATE_STABLE_REREQUESTING_1\<rparr>) st else st)
                       (etharp_request_dst E n (ae_ipaddr e) (ae_ethaddr e) st)
                   else Some st
                 else Some st);
          eth_out E n (pb_ptr q) (pb_bytes q) (hwaddr (nif E n)) (ae_ethaddr e) (ETHTYPE_IP E) st
        })"

text \<open>The loop over the chain of \<open>q\<close>: does it have to be copied? It may not be a queue of packets.\<close>

fun copy_needed :: "pbuf_seg list \<Rightarrow> bool option" where
  "copy_needed [] = Some False"
| "copy_needed (s # ss) =
     (if \<not> (seg_len s \<noteq> seg_tot_len s \<or> ss = []) then None
      else if seg_needs_copy s then Some True
      else copy_needed ss)"

text \<open>Queueing of the packet \<open>p\<close>, for which a reference has been taken, on entry \<open>i\<close>.\<close>

definition query_enqueue :: "lwip_env \<Rightarrow> nat \<Rightarrow> pbuf \<Rightarrow> arp \<Rightarrow> err_t \<times> arp" where
  "query_enqueue E i p st =
     (let e = arp_table st ! i in
      if ARP_QUEUEING E then
        if memp_malloc E (trace st) then
          (let qlen = length (ae_q e); q = ae_q e @ [p] in
           if ARP_QUEUE_LEN E \<noteq> 0 \<and> qlen \<ge> ARP_QUEUE_LEN E
           then (ERR_OK, emit [Pbuf_free (pb_ptr (hd q))] (set_entry i (e\<lparr>ae_q := tl q\<rparr>) st))
           else (ERR_OK, set_entry i (e\<lparr>ae_q := q\<rparr>) st))
        else (ERR_MEM, emit [Pbuf_free (pb_ptr p)] st)
      else
        (ERR_OK, set_entry i (e\<lparr>ae_q := [p]\<rparr>) (emit (map (\<lambda>p. Pbuf_free (pb_ptr p)) (ae_q e)) st)))"

definition query_pending :: "lwip_env \<Rightarrow> nat \<Rightarrow> pbuf \<Rightarrow> arp \<Rightarrow> (err_t \<times> arp) option" where
  "query_pending E i q st =
     (case copy_needed (pb_chain q) of
        None \<Rightarrow> None
      | Some True \<Rightarrow>
          (case pbuf_clone E (trace st) q of
             None \<Rightarrow> Some (ERR_MEM, st)
           | Some p \<Rightarrow> Some (query_enqueue E i p (emit [Pbuf_new (pb_ptr p)] st)))
      | Some False \<Rightarrow> Some (query_enqueue E i q (emit [Pbuf_ref (pb_ptr q)] st)))"

text \<open>A fresh entry is marked as pending; then a request is sent for a fresh entry, or when there is
  no packet; then the packet is sent or queued.\<close>

definition query_mark :: "netif_ptr \<Rightarrow> nat \<Rightarrow> arp \<Rightarrow> arp" where
  "query_mark n i st =
     (if ae_state (arp_table st ! i) = ETHARP_STATE_EMPTY
      then set_entry i ((arp_table st ! i)\<lparr>ae_state := ETHARP_STATE_PENDING, ae_netif := Some n\<rparr>) st
      else st)"

definition query_request ::
  "lwip_env \<Rightarrow> netif_ptr \<Rightarrow> ip4_addr \<Rightarrow> nat \<Rightarrow> bool \<Rightarrow> pbuf option \<Rightarrow> arp \<Rightarrow> (err_t \<times> arp) option"
where
  "query_request E n ipaddr i is_new_entry q st =
     (if is_new_entry \<or> q = None then
        (case etharp_request E n ipaddr st of
           None \<Rightarrow> None
         | Some (result, st) \<Rightarrow>
             Some (result,
               if result = ERR_OK \<and> ae_state (arp_table st ! i) = ETHARP_STATE_PENDING \<and> \<not> is_new_entry
               then set_entry i ((arp_table st ! i)\<lparr>ae_ctime := 0\<rparr>) st else st))
      else Some (ERR_MEM, st))"

definition query_deliver ::
  "lwip_env \<Rightarrow> netif_ptr \<Rightarrow> nat \<Rightarrow> pbuf option \<Rightarrow> err_t \<Rightarrow> arp \<Rightarrow> (err_t \<times> arp) option"
where
  "query_deliver E n i q result st =
     (case q of
        None \<Rightarrow> Some (result, st)
      | Some q \<Rightarrow>
          if ge_stable (ae_state (arp_table st ! i))
          then eth_out E n (pb_ptr q) (pb_bytes q) (hwaddr (nif E n)) (ae_ethaddr (arp_table st ! i))
                 (ETHTYPE_IP E) (ETHARP_SET_ADDRHINT E n i st)
          else if ae_state (arp_table st ! i) = ETHARP_STATE_PENDING
          then query_pending E i q st
          else Some (result, st))"

definition etharp_query :: "lwip_env \<Rightarrow> netif_ptr \<Rightarrow> ip4_addr \<Rightarrow> pbuf option \<Rightarrow> arp \<Rightarrow> (err_t \<times> arp) option" where
  "etharp_query E n ipaddr q st =
     (if ip4_addr_isbroadcast E ipaddr (nif E n) \<or> ip4_addr_ismulticast E ipaddr \<or> ip4_addr_isany E ipaddr
      then Some (ERR_ARG, st)
      else
        (case etharp_find_entry E ipaddr ETHARP_FLAG_TRY_HARD (Some n) st of
           None \<Rightarrow> None
         | Some (None, st) \<Rightarrow> Some (ERR_MEM, st)
         | Some (Some i, st) \<Rightarrow>
             if \<not> i < NETIF_ADDR_IDX_MAX E then None
             else
             (let is_new_entry = (ae_state (arp_table st ! i) = ETHARP_STATE_EMPTY) in
              case query_request E n ipaddr i is_new_entry q (query_mark n i st) of
                None \<Rightarrow> None
              | Some (result, st) \<Rightarrow> query_deliver E n i q result st)))"

definition output_usable :: "lwip_env \<Rightarrow> netif_ptr \<Rightarrow> ip4_addr \<Rightarrow> etharp_entry \<Rightarrow> bool" where
  "output_usable E n dst_addr e \<longleftrightarrow> ge_stable (ae_state e)
     \<and> (ETHARP_TABLE_MATCH_NETIF E \<longrightarrow> ae_netif e = Some n) \<and> ip4_addr_cmp E dst_addr (ae_ipaddr e)"

text \<open>The index in the cache, \<open>Some None\<close> when it is not used, \<open>None\<close> when it is out of bounds.\<close>

definition output_cached :: "lwip_env \<Rightarrow> netif_ptr \<Rightarrow> ip4_addr \<Rightarrow> arp \<Rightarrow> nat option option" where
  "output_cached E n dst_addr st =
     (if LWIP_NETIF_HWADDRHINT E then
        Some (case addr_hint st n of
                None \<Rightarrow> None
              | Some i \<Rightarrow> if i < ARP_TABLE_SIZE E \<and> output_usable E n dst_addr (arp_table st ! i) then Some i else None)
      else if \<not> etharp_cached_entry st < ARP_TABLE_SIZE E then None
      else Some (if output_usable E n dst_addr (arp_table st ! etharp_cached_entry st)
                 then Some (etharp_cached_entry st) else None))"

fun output_search :: "lwip_env \<Rightarrow> netif_ptr \<Rightarrow> ip4_addr \<Rightarrow> nat \<Rightarrow> etharp_entry list \<Rightarrow> nat option" where
  "output_search E n dst_addr i [] = None"
| "output_search E n dst_addr i (e # es) =
     (if output_usable E n dst_addr e then Some i else output_search E n dst_addr (i + 1) es)"

text \<open>The destination of a unicast packet: itself, or the gateway; \<open>None\<close> for no route.\<close>

definition output_next_hop :: "lwip_env \<Rightarrow> netif_ptr \<Rightarrow> pbuf \<Rightarrow> ip4_addr \<Rightarrow> ip4_addr option" where
  "output_next_hop E n q ipaddr =
     (if \<not> ip4_addr_netcmp (port E) ipaddr (ip_addr (nif E n)) (netmask (nif E n)) \<and> \<not> ip4_addr_islinklocal E ipaddr
         \<and> \<not> (LWIP_AUTOIP E \<and> ip4_addr_islinklocal E (ip4_load E (take 4 (drop 12 (pb_bytes q)))))
      then
        (case (case LWIP_HOOK_ETHARP_GET_GW E of None \<Rightarrow> None | Some hook \<Rightarrow> hook n ipaddr) of
           Some dst_addr \<Rightarrow> Some dst_addr
         | None \<Rightarrow> if \<not> ip4_addr_isany E (gw (nif E n)) then Some (gw (nif E n)) else None)
      else Some ipaddr)"

definition etharp_output :: "lwip_env \<Rightarrow> netif_ptr \<Rightarrow> pbuf \<Rightarrow> ip4_addr \<Rightarrow> arp \<Rightarrow> (err_t \<times> arp) option" where
  "etharp_output E n q ipaddr st =
     (if ip4_addr_isbroadcast E ipaddr (nif E n)
      then eth_out E n (pb_ptr q) (pb_bytes q) (hwaddr (nif E n)) ethbroadcast (ETHTYPE_IP E) st
      else if ip4_addr_ismulticast E ipaddr then
        (let a = lp_mem (port E) ipaddr in
         eth_out E n (pb_ptr q) (pb_bytes q) (hwaddr (nif E n))
           [0x01, 0x00, 0x5e, a ! 1 AND 0x7f, a ! 2, a ! 3] (ETHTYPE_IP E) st)
      else
        (case output_next_hop E n q ipaddr of
           None \<Rightarrow> Some (ERR_RTE, st)
         | Some dst_addr \<Rightarrow>
             (case output_cached E n dst_addr st of
                None \<Rightarrow> None
              | Some (Some i) \<Rightarrow> etharp_output_to_arp_index E n q i st
              | Some None \<Rightarrow>
                  (case output_search E n dst_addr 0 (arp_table st) of
                     Some i \<Rightarrow> etharp_output_to_arp_index E n q i (ETHARP_SET_ADDRHINT E n i st)
                   | None \<Rightarrow> etharp_query E n dst_addr (Some q) st))))"


section \<open>\<open>ethernet_input\<close>\<close>

text \<open>The flags for a destination address whose group bit is set.\<close>

definition llflags :: "lwip_env \<Rightarrow> eth_addr \<Rightarrow> pbuf_flag list" where
  "llflags E dest =
     (if dest ! 0 AND 1 \<noteq> 0 then
        if dest ! 0 = 0x01 then
          if LWIP_IPV4 E \<and> dest ! 1 = 0x00 \<and> dest ! 2 = 0x5e then [PBUF_FLAG_LLMCAST] else []
        else if LWIP_IPV6 E \<and> dest ! 0 = 0x33 \<and> dest ! 1 = 0x33 then [PBUF_FLAG_LLMCAST]
        else if dest = ethbroadcast then [PBUF_FLAG_LLBCAST]
        else []
      else [])"

text \<open>The \<open>switch\<close> on the type; \<open>off\<close> is \<open>next_hdr_offset\<close>.\<close>

definition ethernet_dispatch :: "lwip_env \<Rightarrow> 16 word \<Rightarrow> nat \<Rightarrow> rx_pbuf \<Rightarrow> netif_ptr \<Rightarrow> arp \<Rightarrow> arp option" where
  "ethernet_dispatch E type off p n st =
     (let free_and_return = Some (emit [Pbuf_free (rx_ptr p)] st);
          removed = pbuf_remove_header E (trace st);
          p' = p\<lparr>rx_bytes := drop off (rx_bytes p)\<rparr>
      in
      if LWIP_IPV4 E \<and> LWIP_ARP E \<and> type = ETHTYPE_IP E then
        if nif_flags (nif E n) AND NETIF_FLAG_ETHARP = 0 then free_and_return
        else if \<not> removed then free_and_return
        else Some (emit [Ip4_input p' n] st)
      else if LWIP_IPV4 E \<and> LWIP_ARP E \<and> type = ETHTYPE_ARP E then
        if nif_flags (nif E n) AND NETIF_FLAG_ETHARP = 0 then free_and_return
        else if \<not> removed then free_and_return
        else etharp_input E (rx_ptr p) (rx_bytes p') n st
      else if PPPOE_SUPPORT E \<and> type = ETHTYPE_PPPOEDISC E then Some (emit [Pppoe_disc_input n p] st)
      else if PPPOE_SUPPORT E \<and> type = ETHTYPE_PPPOE E then Some (emit [Pppoe_data_input n p] st)
      else if LWIP_IPV6 E \<and> type = ETHTYPE_IPV6 E then
        if length (rx_bytes p) < off \<or> \<not> removed then free_and_return
        else Some (emit [Ip6_input p' n] st)
      else
        (case LWIP_HOOK_UNKNOWN_ETH_PROTOCOL E of
           Some hook \<Rightarrow> if hook p n then Some (emit [Unknown_eth_protocol p n] st) else free_and_return
         | None \<Rightarrow> free_and_return))"

definition ethernet_input :: "lwip_env \<Rightarrow> rx_pbuf \<Rightarrow> netif_ptr \<Rightarrow> arp \<Rightarrow> arp option" where
  "ethernet_input E p n st =
     (let b = rx_bytes p; hlen = SIZEOF_ETH_HDR E; free_and_return = Some (emit [Pbuf_free (rx_ptr p)] st) in
      if length b \<le> hlen then free_and_return
      else
        (let p = (if rx_if_idx p = 0 then p\<lparr>rx_if_idx := (num (nif E n) + 1) mod 256\<rparr> else p);
             dest = take ETH_HWADDR_LEN (drop (length (ETH_PAD E)) b);
             type = load_be16 (drop (length (ETH_PAD E) + 12) b);
             vlan = (ETHARP_SUPPORT_VLAN E \<and> type = ETHTYPE_VLAN E)
         in
         if vlan \<and> length b \<le> hlen + SIZEOF_VLAN_HDR then free_and_return
         else if vlan \<and> (case VLAN_CHECK E of Some check \<Rightarrow> \<not> check n b | None \<Rightarrow> False) then free_and_return
         else
           (let off = (if vlan then hlen + SIZEOF_VLAN_HDR else hlen);
                type = (if vlan then load_be16 (drop (hlen + 2) b) else type);
                n = (case LWIP_ARP_FILTER_NETIF_FN E of Some fn \<Rightarrow> fn p n type | None \<Rightarrow> n);
                p = p\<lparr>rx_flags := rx_flags p @ llflags E dest\<rparr>
            in ethernet_dispatch E type off p n st)))"

end
