(* ===== verification/Lwip_Etharp_Inv.thy ===== *)
theory Lwip_Etharp_Inv
  imports Lwip_Etharp Op_Machine
begin

text \<open>
  The invariant of the ARP cache: the table has its size, no two entries are for the same address,
  packets wait on pending entries only and fit the queue, ages are below their limits, and the
  cached index is in the table. Every operation keeps it, fails no assertion, gives back the
  references it takes but for those of the queues, and leaves the static entries alone that it
  is not about. The histories at the end are an instance of a machine that conserves a quantity.
\<close>

section \<open>What is assumed of the stack\<close>

text \<open>The options are in the range that the headers demand, the interfaces are Ethernet interfaces,
  and a VLAN hook returns what the assertion asks for.\<close>

definition stack_ok :: "lwip_env \<Rightarrow> bool" where
  "stack_ok E \<longleftrightarrow> env_ok E \<and> 0 < ARP_TABLE_SIZE E \<and> ARP_TABLE_SIZE E \<le> NETIF_ADDR_IDX_MAX E \<and> 0 < ARP_MAXAGE E \<and> ARP_MAXAGE E < 2 ^ 16
     \<and> (\<forall>n. hwaddr_len (nif E n) = ETH_HWADDR_LEN)
     \<and> (\<forall>hook n p s d t. LWIP_HOOK_VLAN_SET E = Some hook \<longrightarrow> hook n p s d t \<le> 0xffff)"

section \<open>Counting references\<close>

text \<open>References to the buffer \<open>p\<close> that were taken, less those that were given back or handed to
  another module.\<close>

fun balance1 :: "nat \<Rightarrow> effect \<Rightarrow> int" where
  "balance1 p (Pbuf_ref q) = (if p = q then 1 else 0)"
| "balance1 p (Pbuf_new q) = (if p = q then 1 else 0)"
| "balance1 p (Pbuf_free q) = (if p = q then -1 else 0)"
| "balance1 p (Ip4_input b n) = (if p = rx_ptr b then -1 else 0)"
| "balance1 p (Ip6_input b n) = (if p = rx_ptr b then -1 else 0)"
| "balance1 p (Pppoe_disc_input n b) = (if p = rx_ptr b then -1 else 0)"
| "balance1 p (Pppoe_data_input n b) = (if p = rx_ptr b then -1 else 0)"
| "balance1 p (Unknown_eth_protocol b n) = (if p = rx_ptr b then -1 else 0)"
| "balance1 p (Link_output n b) = 0"
| "balance1 p (Autoip_arp_reply n b) = 0"
| "balance1 p (Dhcp_arp_reply n a) = 0"

definition balance :: "effect list \<Rightarrow> nat \<Rightarrow> int" where
  "balance tr p = sum_list (map (balance1 p) tr)"

lemma balance_simps [simp]:
  "balance [] p = 0" "balance (ev # tr) p = balance1 p ev + balance tr p"
  "balance (tr @ tr') p = balance tr p + balance tr' p"
  by (simp_all add: balance_def)

definition queued :: "nat \<Rightarrow> pbuf list \<Rightarrow> int" where
  "queued p q = int (count_list (map pb_ptr q) p)"

lemma queued_simps [simp]:
  "queued p [] = 0" "queued p (b # q) = (if p = pb_ptr b then 1 else 0) + queued p q"
  "queued p (q @ q') = queued p q + queued p q'"
  by (simp_all add: queued_def)

lemma balance_free_queue: "balance (map (\<lambda>b. Pbuf_free (pb_ptr b)) q) p = - queued p q"
  by (induction q) auto

text \<open>References that the queues of the table hold.\<close>

definition held :: "arp \<Rightarrow> nat \<Rightarrow> int" where
  "held st p = sum_list (map (\<lambda>e. queued p (ae_q e)) (arp_table st))"

lemma sum_update_int: "i < length xs \<Longrightarrow> sum_list (xs[i := x]) = sum_list xs - xs ! i + (x :: int)"
  by (induction xs arbitrary: i) (auto simp: nth_Cons split: nat.split)

lemma held_set_entry:
  assumes "i < length (arp_table st)"
  shows "held (set_entry i e st) p = held st p - queued p (ae_q (arp_table st ! i)) + queued p (ae_q e)"
  using assms by (simp add: held_def set_entry_def map_update sum_update_int)

lemma held_emit [simp]: "held (emit evs st) = held st"
  by (simp add: held_def emit_def fun_eq_iff)

section \<open>The invariant of the table\<close>

definition entry_key :: "lwip_env \<Rightarrow> etharp_entry \<Rightarrow> ip4_addr \<times> netif_ptr option" where
  "entry_key E e = (ae_ipaddr e, if ETHARP_TABLE_MATCH_NETIF E then ae_netif e else None)"

definition queue_fits :: "lwip_env \<Rightarrow> pbuf list \<Rightarrow> bool" where
  "queue_fits E q \<longleftrightarrow> (if ARP_QUEUEING E then ARP_QUEUE_LEN E \<noteq> 0 \<longrightarrow> length q \<le> ARP_QUEUE_LEN E else length q \<le> 1)"

definition entry_ok :: "lwip_env \<Rightarrow> etharp_entry \<Rightarrow> bool" where
  "entry_ok E e \<longleftrightarrow> (ae_q e \<noteq> [] \<longrightarrow> ae_state e = ETHARP_STATE_PENDING) \<and> queue_fits E (ae_q e)
     \<and> (ae_state e = ETHARP_STATE_PENDING \<longrightarrow> ae_netif e \<noteq> None \<and> unat (ae_ctime e) < ARP_MAXPENDING)
     \<and> (ae_state e \<noteq> ETHARP_STATE_EMPTY \<longrightarrow> unat (ae_ctime e) < ARP_MAXAGE E)
     \<and> (ae_state e = ETHARP_STATE_STATIC \<longrightarrow> ETHARP_SUPPORT_STATIC_ENTRIES E)"

definition nonempty :: "etharp_entry \<Rightarrow> bool" where
  "nonempty e \<longleftrightarrow> ae_state e \<noteq> ETHARP_STATE_EMPTY"

definition table_unique :: "lwip_env \<Rightarrow> etharp_entry list \<Rightarrow> bool" where
  "table_unique E t \<longleftrightarrow> (\<forall>i<length t. \<forall>j<length t. i \<noteq> j \<longrightarrow> nonempty (t ! i) \<longrightarrow> nonempty (t ! j)
     \<longrightarrow> entry_key E (t ! i) \<noteq> entry_key E (t ! j))"

definition arp_inv :: "lwip_env \<Rightarrow> arp \<Rightarrow> bool" where
  "arp_inv E st \<longleftrightarrow> length (arp_table st) = ARP_TABLE_SIZE E \<and> (\<forall>i<ARP_TABLE_SIZE E. entry_ok E (arp_table st ! i))
     \<and> table_unique E (arp_table st) \<and> etharp_cached_entry st < ARP_TABLE_SIZE E"

text \<open>A step keeps the invariant, takes and gives back references as the queues grow and shrink, but
  for \<open>d p\<close> references that it gives back for its caller, and leaves static entries alone unless
  \<open>X\<close> holds of them.\<close>

definition arp_step :: "lwip_env \<Rightarrow> (etharp_entry \<Rightarrow> bool) \<Rightarrow> (nat \<Rightarrow> int) \<Rightarrow> arp \<Rightarrow> arp \<Rightarrow> bool" where
  "arp_step E X d st st' \<longleftrightarrow> arp_inv E st'
     \<and> (\<forall>p. balance (trace st') p + d p - held st' p = balance (trace st) p - held st p)
     \<and> (\<forall>i<ARP_TABLE_SIZE E. ae_state (arp_table st ! i) = ETHARP_STATE_STATIC \<and> \<not> X (arp_table st ! i)
          \<longrightarrow> arp_table st' ! i = arp_table st ! i)"

lemma arp_step_refl: "arp_inv E st \<Longrightarrow> arp_step E X (\<lambda>p. 0) st st"
  by (simp add: arp_step_def)

lemma arp_step_trans:
  assumes "arp_step E X d st st'" and "arp_step E X d' st' st''"
  shows "arp_step E X (\<lambda>p. d p + d' p) st st''"
  unfolding arp_step_def
proof (intro conjI allI impI)
  show "arp_inv E st''" using assms(2) by (simp add: arp_step_def)
next
  fix p
  have "balance (trace st'') p + d' p - held st'' p = balance (trace st') p - held st' p"
    "balance (trace st') p + d p - held st' p = balance (trace st) p - held st p"
    using assms by (simp_all add: arp_step_def)
  then show "balance (trace st'') p + (d p + d' p) - held st'' p = balance (trace st) p - held st p" by simp
next
  fix i assume "i < ARP_TABLE_SIZE E"
    and "ae_state (arp_table st ! i) = ETHARP_STATE_STATIC \<and> \<not> X (arp_table st ! i)"
  then show "arp_table st'' ! i = arp_table st ! i" using assms by (simp add: arp_step_def)
qed

lemma arp_step_trans0:
  "arp_step E X (\<lambda>p. 0) st st' \<Longrightarrow> arp_step E X d st' st'' \<Longrightarrow> arp_step E X d st st''"
  using arp_step_trans [of E X "\<lambda>p. 0" st st' d] by simp

lemma arp_stepD: "arp_step E X d st st' \<Longrightarrow> arp_inv E st'"
  by (simp add: arp_step_def)

lemma arp_step_emit:
  "arp_inv E st \<Longrightarrow> \<forall>p. balance evs p = - d p \<Longrightarrow> arp_step E X d st (emit evs st)"
  by (simp add: arp_step_def arp_inv_def) (simp add: emit_def)

lemma arp_inv_emit [simp]: "arp_inv E (emit evs st) = arp_inv E st"
  by (simp add: arp_inv_def emit_def)

lemma arp_inv_entry: "arp_inv E st \<Longrightarrow> i < ARP_TABLE_SIZE E \<Longrightarrow> entry_ok E (arp_table st ! i)"
  by (simp add: arp_inv_def)

text \<open>Writing an entry: its key may not be in use elsewhere, unless it is the old one.\<close>

definition key_free :: "lwip_env \<Rightarrow> arp \<Rightarrow> nat \<Rightarrow> ip4_addr \<times> netif_ptr option \<Rightarrow> bool" where
  "key_free E st i k \<longleftrightarrow> (\<forall>j<ARP_TABLE_SIZE E. j \<noteq> i \<longrightarrow> nonempty (arp_table st ! j) \<longrightarrow> entry_key E (arp_table st ! j) \<noteq> k)"

lemma key_free_old: "arp_inv E st \<Longrightarrow> i < ARP_TABLE_SIZE E \<Longrightarrow> nonempty (arp_table st ! i) \<Longrightarrow>
    key_free E st i (entry_key E (arp_table st ! i))"
  by (auto simp: arp_inv_def table_unique_def key_free_def)

lemma arp_inv_set_entry:
  assumes "arp_inv E st" "i < ARP_TABLE_SIZE E" "entry_ok E e" "nonempty e \<longrightarrow> key_free E st i (entry_key E e)"
  shows "arp_inv E (set_entry i e st)"
  using assms unfolding arp_inv_def table_unique_def set_entry_def key_free_def
  by (auto simp: nth_list_update)

lemma arp_step_set_entry:
  assumes "arp_inv E st" "i < ARP_TABLE_SIZE E" "entry_ok E e" "nonempty e \<longrightarrow> key_free E st i (entry_key E e)"
    and "ae_state (arp_table st ! i) = ETHARP_STATE_STATIC \<longrightarrow> X (arp_table st ! i)"
    and "\<forall>p. balance evs p = queued p (ae_q e) - queued p (ae_q (arp_table st ! i)) - d p"
  shows "arp_step E X d st (set_entry i e (emit evs st))"
proof -
  have "arp_inv E (set_entry i e (emit evs st))"
    using assms(1-4) by (intro arp_inv_set_entry) (simp_all add: key_free_def emit_def arp_inv_def)
  moreover have "i < length (arp_table (emit evs st))" using assms(1,2) by (simp add: arp_inv_def emit_def)
  ultimately show ?thesis
    using assms(5,6) by (auto simp: arp_step_def held_set_entry) (auto simp: set_entry_def emit_def nth_list_update)
qed

section \<open>Sending\<close>

text \<open>Sending only adds effects, and gives back what it takes.\<close>

definition sends :: "(err_t \<times> arp) option \<Rightarrow> arp \<Rightarrow> bool" where
  "sends r st \<longleftrightarrow> (\<exists>err evs. r = Some (err, emit evs st) \<and> (\<forall>p. balance evs p = 0))"

lemma eth_out_sends: "stack_ok E \<Longrightarrow> sends (eth_out E n p b src dst ty st) st"
proof -
  assume E: "stack_ok E"
  let ?vid = "case LWIP_HOOK_VLAN_SET E of
      Some hook \<Rightarrow> if ETHARP_SUPPORT_VLAN E then hook n p src dst ty else -1 | None \<Rightarrow> -1"
  have "?vid \<le> 0xffff" using E by (auto simp: stack_ok_def split: option.split)
  moreover have "hwaddr_len (nif E n) = ETH_HWADDR_LEN" using E by (simp add: stack_ok_def)
  ultimately obtain err evs where "ethernet_output E n p b src dst ty (trace st) = Some (err, trace st @ evs)"
    and "\<forall>p. balance evs p = 0"
    unfolding ethernet_output_def Let_def by (cases "pbuf_add_header E (trace st)") (auto simp del: append_assoc)
  then show ?thesis by (auto simp: sends_def eth_out_def emit_def)
qed

lemma etharp_raw_sends: "stack_ok E \<Longrightarrow> sends (etharp_raw E n es ed hs is hdst ipd op st) st"
proof -
  assume E: "stack_ok E"
  show ?thesis
  proof (cases "pbuf_alloc E (trace st)")
    case None
    then show ?thesis by (auto simp: etharp_raw_def sends_def emit_def intro!: exI [of _ "[]"])
  next
    case (Some p)
    let ?hdr = "\<lparr>hwtype = LWIP_IANA_HWTYPE_ETHERNET, proto = ETHTYPE_IP E, hwlen = of_nat ETH_HWADDR_LEN,
                 protolen = 4, opcode = op, shwaddr = hs, sipaddr = is, dhwaddr = hdst, dipaddr = ipd\<rparr>"
    let ?dst = "if LWIP_AUTOIP E \<and> ip4_addr_islinklocal E is then ethbroadcast else ed"
    obtain err evs where evs: "eth_out E n p (etharp_hdr_bytes E ?hdr) es ?dst (ETHTYPE_ARP E) (emit [Pbuf_new p] st)
        = Some (err, emit evs (emit [Pbuf_new p] st))" "\<forall>p. balance evs p = 0"
      using eth_out_sends [OF E] unfolding sends_def by blast
    have "hwaddr_len (nif E n) = ETH_HWADDR_LEN" using E by (simp add: stack_ok_def)
    then have "etharp_raw E n es ed hs is hdst ipd op st
        = Some (ERR_OK, emit [Pbuf_free p] (emit evs (emit [Pbuf_new p] st)))"
      using Some evs(1) by (simp add: etharp_raw_def Let_def)
    also have "\<dots> = Some (ERR_OK, emit (Pbuf_new p # evs @ [Pbuf_free p]) st)" by (simp add: emit_def)
    finally show ?thesis using evs(2) unfolding sends_def by force
  qed
qed

lemma etharp_request_sends:
  "stack_ok E \<Longrightarrow> sends (etharp_request_dst E n ip hw st) st" "stack_ok E \<Longrightarrow> sends (etharp_request E n ip st) st"
  by (simp_all add: etharp_request_def etharp_request_dst_def etharp_raw_sends)

lemma sendsE:
  assumes "sends r st" and "arp_inv E st"
  obtains err evs where "r = Some (err, emit evs st)" "\<forall>p. balance evs p = 0"
    and "\<And>X. arp_step E X (\<lambda>p. 0) st (emit evs st)"
  using assms arp_step_emit [of E st _ "\<lambda>p. 0"] unfolding sends_def by auto

section \<open>Freeing and finding entries\<close>

lemma free_entry_step:
  assumes "arp_inv E st" "i < ARP_TABLE_SIZE E" "ae_state (arp_table st ! i) = ETHARP_STATE_STATIC \<longrightarrow> X (arp_table st ! i)"
  shows "arp_step E X (\<lambda>p. 0) st (etharp_free_entry E i st)"
proof -
  have "queue_fits E []" by (simp add: queue_fits_def)
  then show ?thesis
    unfolding etharp_free_entry_def Let_def
    by (intro arp_step_set_entry [OF assms(1,2)])
      (simp_all add: entry_ok_def nonempty_def balance_free_queue assms(3))
qed

lemma free_entry_nth:
  assumes "arp_inv E st" "i < ARP_TABLE_SIZE E"
  shows "ae_state (arp_table (etharp_free_entry E i st) ! i) = ETHARP_STATE_EMPTY"
    and "ae_q (arp_table (etharp_free_entry E i st) ! i) = []"
    and "j \<noteq> i \<Longrightarrow> arp_table (etharp_free_entry E i st) ! j = arp_table st ! j"
    and "length (arp_table (etharp_free_entry E i st)) = ARP_TABLE_SIZE E"
  using assms by (simp_all add: etharp_free_entry_def Let_def set_entry_def emit_def arp_inv_def)

text \<open>The candidates of the scan. A class of entries has no candidate as long as none was seen, then
  the oldest of them.\<close>

definition class_stable :: "lwip_env \<Rightarrow> etharp_entry \<Rightarrow> bool" where
  "class_stable E e \<longleftrightarrow> ge_stable (ae_state e) \<and> (ETHARP_SUPPORT_STATIC_ENTRIES E \<longrightarrow> ae_state e \<noteq> ETHARP_STATE_STATIC)"

definition class_pending :: "etharp_entry \<Rightarrow> bool" where
  "class_pending e \<longleftrightarrow> ae_state e = ETHARP_STATE_PENDING \<and> ae_q e = []"

definition class_queue :: "etharp_entry \<Rightarrow> bool" where
  "class_queue e \<longleftrightarrow> ae_state e = ETHARP_STATE_PENDING \<and> ae_q e \<noteq> []"

definition oldest :: "nat \<Rightarrow> (etharp_entry \<Rightarrow> bool) \<Rightarrow> etharp_entry list \<Rightarrow> nat \<Rightarrow> 16 word \<Rightarrow> bool" where
  "oldest sz P es k age \<longleftrightarrow>
     (if k = sz then (\<forall>e\<in>set es. \<not> P e) \<and> age = 0
      else k < length es \<and> P (es ! k) \<and> age = ae_ctime (es ! k) \<and> (\<forall>e\<in>set es. P e \<longrightarrow> ae_ctime e \<le> age))"

lemma oldest_skip: "oldest sz P es k age \<Longrightarrow> \<not> P e \<Longrightarrow> oldest sz P (es @ [e]) k age"
  by (auto simp: oldest_def nth_append)

lemma oldest_younger:
  assumes "oldest sz P es k age" and "\<not> ae_ctime e \<ge> age"
  shows "oldest sz P (es @ [e]) k age"
proof -
  have "k \<noteq> sz" using assms by (auto simp: oldest_def)
  then show ?thesis using assms by (auto simp: oldest_def nth_append)
qed

lemma oldest_take:
  assumes "oldest sz P es k age" and "P e" and "ae_ctime e \<ge> age" and "length es < sz"
  shows "oldest sz P (es @ [e]) (length es) (ae_ctime e)"
  using assms by (auto simp: oldest_def split: if_splits intro: order_trans)

definition find_ok :: "lwip_env \<Rightarrow> etharp_entry list \<Rightarrow> find_vars \<Rightarrow> bool" where
  "find_ok E es v \<longleftrightarrow>
     (if fv_empty v = ARP_TABLE_SIZE E then \<forall>e\<in>set es. nonempty e
      else fv_empty v < length es \<and> \<not> nonempty (es ! fv_empty v) \<and> (\<forall>j<fv_empty v. nonempty (es ! j)))
     \<and> oldest (ARP_TABLE_SIZE E) (class_stable E) es (old_stable v) (age_stable v)
     \<and> oldest (ARP_TABLE_SIZE E) class_pending es (old_pending v) (age_pending v)
     \<and> oldest (ARP_TABLE_SIZE E) class_queue es (old_queue v) (age_queue v)"

lemma find_candidate_ok:
  assumes "find_ok E es v" "length es < ARP_TABLE_SIZE E" "nonempty e"
  shows "find_ok E (es @ [e]) (find_candidate E (length es) e v)"
proof -
  consider (queue) "class_queue e" "\<not> class_pending e" "\<not> class_stable E e"
    | (pending) "\<not> class_queue e" "class_pending e" "\<not> class_stable E e"
    | (stable) "\<not> class_queue e" "\<not> class_pending e" "class_stable E e" "ae_state e \<noteq> ETHARP_STATE_PENDING"
    | (static) "\<not> class_queue e" "\<not> class_pending e" "\<not> class_stable E e" "ae_state e \<noteq> ETHARP_STATE_PENDING"
    by (cases "ae_state e = ETHARP_STATE_PENDING"; cases "ae_q e = []"; cases "class_stable E e")
      (auto simp: class_queue_def class_pending_def class_stable_def ge_stable_def)
  then show ?thesis
  proof cases
    case queue
    then show ?thesis
      using assms oldest_skip oldest_younger [of _ class_queue es] oldest_take [of _ class_queue es]
      by (auto simp: find_ok_def find_candidate_def class_queue_def nth_append)
  next
    case pending
    then show ?thesis
      using assms oldest_skip oldest_younger [of _ class_pending es] oldest_take [of _ class_pending es]
      by (auto simp: find_ok_def find_candidate_def class_pending_def nth_append)
  next
    case stable
    then have "ETHARP_SUPPORT_STATIC_ENTRIES E \<longrightarrow> ae_state e \<noteq> ETHARP_STATE_STATIC" by (simp add: class_stable_def)
    then show ?thesis
      using assms stable oldest_skip oldest_younger [of _ "class_stable E" es] oldest_take [of _ "class_stable E" es]
      by (auto simp: find_ok_def find_candidate_def nth_append)
  next
    case static
    then have "\<not> (ETHARP_SUPPORT_STATIC_ENTRIES E \<longrightarrow> ae_state e \<noteq> ETHARP_STATE_STATIC)"
      using assms(3) by (auto simp: class_stable_def ge_stable_def nonempty_def)
    then show ?thesis
      using assms static oldest_skip by (auto simp: find_ok_def find_candidate_def nth_append)
  qed
qed

lemma find_ok_empty:
  "find_ok E es v \<Longrightarrow> \<not> nonempty e \<Longrightarrow> length es < ARP_TABLE_SIZE E \<Longrightarrow> fv_empty v = ARP_TABLE_SIZE E
   \<Longrightarrow> find_ok E (es @ [e]) (v\<lparr>fv_empty := length es\<rparr>)"
  "find_ok E es v \<Longrightarrow> \<not> nonempty e \<Longrightarrow> fv_empty v \<noteq> ARP_TABLE_SIZE E \<Longrightarrow> find_ok E (es @ [e]) v"
  by (auto simp: find_ok_def nth_append nonempty_def class_stable_def class_pending_def class_queue_def ge_stable_def
      intro!: oldest_skip)

lemma find_scan_ok:
  "find_ok E pre v \<Longrightarrow> length pre + length es = ARP_TABLE_SIZE E \<Longrightarrow> \<forall>e\<in>set pre. nonempty e \<longrightarrow> \<not> entry_matches E ip n e \<Longrightarrow>
   (case find_scan E ip n (length pre) es v of
      Inl i \<Rightarrow> i < ARP_TABLE_SIZE E \<and> nonempty ((pre @ es) ! i) \<and> entry_matches E ip n ((pre @ es) ! i)
    | Inr v' \<Rightarrow> find_ok E (pre @ es) v' \<and> (\<forall>e\<in>set (pre @ es). nonempty e \<longrightarrow> \<not> entry_matches E ip n e))"
proof (induction es arbitrary: pre v)
  case (Cons e es)
  let ?IH = "\<lambda>w. case find_scan E ip n (Suc (length pre)) es w of
      Inl i \<Rightarrow> i < ARP_TABLE_SIZE E \<and> nonempty ((pre @ e # es) ! i) \<and> entry_matches E ip n ((pre @ e # es) ! i)
    | Inr v' \<Rightarrow> find_ok E (pre @ e # es) v' \<and> (\<forall>e\<in>set (pre @ e # es). nonempty e \<longrightarrow> \<not> entry_matches E ip n e)"
  have len: "length pre < ARP_TABLE_SIZE E" using Cons.prems(2) by simp
  have IH: "?IH w" if "find_ok E (pre @ [e]) w" "nonempty e \<longrightarrow> \<not> entry_matches E ip n e" for w
    using Cons.IH [of "pre @ [e]" w, unfolded append_assoc append.simps] that Cons.prems(2,3) by auto
  show ?case
  proof (cases "nonempty e")
    case True
    show ?thesis
    proof (cases "entry_matches E ip n e")
      case m: True
      then show ?thesis using True len by (simp add: nonempty_def)
    next
      case False
      then show ?thesis
        using True IH [OF find_candidate_ok [OF Cons.prems(1) len True]] unfolding find_scan.simps nonempty_def by simp
    qed
  next
    case False
    then show ?thesis
      using IH [of "v\<lparr>fv_empty := length pre\<rparr>"] IH [of v] find_ok_empty [OF Cons.prems(1) False] len
      by (cases "fv_empty v = ARP_TABLE_SIZE E") (simp_all add: nonempty_def)
  qed
qed simp

text \<open>The entry that is used for a new address: the first empty one; without one, in this order the
  oldest stable entry, the oldest pending entry without packets, the oldest pending entry.\<close>

definition least_important :: "lwip_env \<Rightarrow> etharp_entry list \<Rightarrow> nat \<Rightarrow> bool" where
  "least_important E t i \<longleftrightarrow> i < length t \<and>
     (if \<exists>e\<in>set t. \<not> nonempty e then \<not> nonempty (t ! i) \<and> (\<forall>j<i. nonempty (t ! j))
      else if \<exists>e\<in>set t. class_stable E e then class_stable E (t ! i) \<and> (\<forall>e\<in>set t. class_stable E e \<longrightarrow> ae_ctime e \<le> ae_ctime (t ! i))
      else if \<exists>e\<in>set t. class_pending e then class_pending (t ! i) \<and> (\<forall>e\<in>set t. class_pending e \<longrightarrow> ae_ctime e \<le> ae_ctime (t ! i))
      else class_queue (t ! i) \<and> (\<forall>e\<in>set t. class_queue e \<longrightarrow> ae_ctime e \<le> ae_ctime (t ! i)))"

definition new_entry :: "lwip_env \<Rightarrow> ip4_addr \<Rightarrow> netif_ptr option \<Rightarrow> etharp_entry \<Rightarrow> bool" where
  "new_entry E ip n e \<longleftrightarrow> ae_state e = ETHARP_STATE_EMPTY \<and> ae_q e = [] \<and> ae_ipaddr e = ip \<and> ae_ctime e = 0
     \<and> (ETHARP_TABLE_MATCH_NETIF E \<longrightarrow> ae_netif e = n)"

lemma find_ok_init: "find_ok E [] (find_init E)"
  by (simp add: find_ok_def find_init_def oldest_def)

lemma create_entry_step:
  assumes "arp_inv E st" "i < ARP_TABLE_SIZE E" "ae_state (arp_table st ! i) = ETHARP_STATE_EMPTY"
  shows "arp_step E X (\<lambda>p. 0) st (create_entry E ip n i st)"
    and "new_entry E ip n (arp_table (create_entry E ip n i st) ! i)"
    and "j \<noteq> i \<Longrightarrow> arp_table (create_entry E ip n i st) ! j = arp_table st ! j"
proof -
  have ok: "entry_ok E (arp_table st ! i)" "i < length (arp_table st)" using assms by (simp_all add: arp_inv_def)
  then have q: "ae_q (arp_table st ! i) = []" using assms(3) by (auto simp: entry_ok_def)
  define e where "e = arp_table (create_entry E ip n i st) ! i"
  have e: "create_entry E ip n i st = set_entry i e (emit [] st)" and "ae_q e = []" "ae_state e = ETHARP_STATE_EMPTY"
    using ok(2) q assms(3) unfolding e_def by (simp_all add: create_entry_def Let_def set_entry_def emit_def)
  then show "arp_step E X (\<lambda>p. 0) st (create_entry E ip n i st)"
    unfolding e using q assms(3) ok(1)
    by (intro arp_step_set_entry [OF assms(1,2)]) (simp_all add: entry_ok_def nonempty_def queue_fits_def)
  show "new_entry E ip n (arp_table (create_entry E ip n i st) ! i)"
    using ok(2) q assms(3) by (simp add: create_entry_def Let_def set_entry_def new_entry_def)
  show "j \<noteq> i \<Longrightarrow> arp_table (create_entry E ip n i st) ! j = arp_table st ! j"
    by (simp add: create_entry_def Let_def set_entry_def)
qed


text \<open>The three ways in which \<open>etharp_find_entry\<close> ends; no assertion fails.\<close>

lemma find_recycle_ok:
  assumes "arp_inv E st" "find_ok E (arp_table st) v" "fv_empty v = ARP_TABLE_SIZE E" "find_recycle E st v = Some (i, q)"
  shows "q" "i < ARP_TABLE_SIZE E" "ae_state (arp_table st ! i) \<noteq> ETHARP_STATE_STATIC" "least_important E (arp_table st) i"
proof -
  have ok: "\<And>i. i < ARP_TABLE_SIZE E \<Longrightarrow> entry_ok E (arp_table st ! i)" and len: "length (arp_table st) = ARP_TABLE_SIZE E"
    using assms(1) by (simp_all add: arp_inv_def)
  note o = assms(2) [unfolded find_ok_def oldest_def] assms(3)
  consider (stable) "old_stable v < ARP_TABLE_SIZE E" "i = old_stable v" "q = (ae_q (arp_table st ! i) = [])"
    | (pending) "\<not> old_stable v < ARP_TABLE_SIZE E" "old_pending v < ARP_TABLE_SIZE E" "i = old_pending v" "q"
    | (queue) "\<not> old_stable v < ARP_TABLE_SIZE E" "\<not> old_pending v < ARP_TABLE_SIZE E" "old_queue v < ARP_TABLE_SIZE E"
        "i = old_queue v" "q"
    using assms(4) by (auto simp: find_recycle_def split: if_splits)
  then have "q \<and> i < ARP_TABLE_SIZE E \<and> ae_state (arp_table st ! i) \<noteq> ETHARP_STATE_STATIC
      \<and> least_important E (arp_table st) i"
  proof cases
    case stable
    then have c: "class_stable E (arp_table st ! i)" "arp_table st ! i \<in> set (arp_table st)"
      "\<forall>e\<in>set (arp_table st). class_stable E e \<longrightarrow> ae_ctime e \<le> ae_ctime (arp_table st ! i)" using o len by auto
    then have "q" "ae_state (arp_table st ! i) \<noteq> ETHARP_STATE_STATIC"
      using ok [of i] stable by (auto simp: entry_ok_def class_stable_def ge_stable_def)
    moreover have "least_important E (arp_table st) i"
      using c o stable len unfolding least_important_def by auto
    ultimately show ?thesis using stable by simp
  next
    case pending
    then have c: "class_pending (arp_table st ! i)" "arp_table st ! i \<in> set (arp_table st)"
      "\<forall>e\<in>set (arp_table st). class_pending e \<longrightarrow> ae_ctime e \<le> ae_ctime (arp_table st ! i)"
      "\<forall>e\<in>set (arp_table st). \<not> class_stable E e" using o len by (auto split: if_splits)
    then have "least_important E (arp_table st) i"
      using o pending len unfolding least_important_def by auto
    then show ?thesis using pending c by (simp add: class_pending_def)
  next
    case queue
    then have c: "class_queue (arp_table st ! i)" 
      "\<forall>e\<in>set (arp_table st). class_queue e \<longrightarrow> ae_ctime e \<le> ae_ctime (arp_table st ! i)"
      "\<forall>e\<in>set (arp_table st). \<not> class_stable E e" "\<forall>e\<in>set (arp_table st). \<not> class_pending e"
      using o len by (auto split: if_splits)
    then have "least_important E (arp_table st) i"
      using o queue len unfolding least_important_def by auto
    then show ?thesis using queue c by (simp add: class_queue_def)
  qed
  then show "q" "i < ARP_TABLE_SIZE E" "ae_state (arp_table st ! i) \<noteq> ETHARP_STATE_STATIC" "least_important E (arp_table st) i"
    by blast+
qed

definition created :: "lwip_env \<Rightarrow> ip4_addr \<Rightarrow> netif_ptr option \<Rightarrow> arp \<Rightarrow> nat \<Rightarrow> arp \<Rightarrow> bool" where
  "created E ip n st i st' \<longleftrightarrow> i < ARP_TABLE_SIZE E \<and> new_entry E ip n (arp_table st' ! i)
     \<and> least_important E (arp_table st) i \<and> (\<forall>j. j \<noteq> i \<longrightarrow> arp_table st' ! j = arp_table st ! j)
     \<and> (\<forall>e\<in>set (arp_table st). nonempty e \<longrightarrow> \<not> entry_matches E ip n e)"

lemma find_entry_cases:
  assumes inv: "arp_inv E st"
  obtains (found) i where "etharp_find_entry E ip flags n st = Some (Some i, st)" "i < ARP_TABLE_SIZE E"
      "nonempty (arp_table st ! i)" "entry_matches E ip n (arp_table st ! i)"
    | (none) "etharp_find_entry E ip flags n st = Some (None, st)"
      "\<forall>e\<in>set (arp_table st). nonempty e \<longrightarrow> \<not> entry_matches E ip n e"
      "flags AND ETHARP_FLAG_FIND_ONLY \<noteq> 0 \<or> (\<forall>e\<in>set (arp_table st). nonempty e)"
      "flags AND ETHARP_FLAG_FIND_ONLY \<noteq> 0 \<or> flags AND ETHARP_FLAG_TRY_HARD = 0
        \<or> (\<forall>e\<in>set (arp_table st). ae_state e = ETHARP_STATE_STATIC)"
    | (created) i st' where "etharp_find_entry E ip flags n st = Some (Some i, st')" "created E ip n st i st'"
      "\<And>X. arp_step E X (\<lambda>p. 0) st st'" "flags AND ETHARP_FLAG_FIND_ONLY = 0"
proof -
  have len: "length (arp_table st) = ARP_TABLE_SIZE E" using inv by (simp add: arp_inv_def)
  note scan = find_scan_ok [OF find_ok_init, where E = E and es = "arp_table st" and ip = ip and n = n, simplified, OF len]
  show ?thesis
  proof (cases "find_scan E ip n 0 (arp_table st) (find_init E)")
    case (Inl i)
    then show ?thesis using found [of i] scan by (simp add: etharp_find_entry_def)
  next
    case (Inr v)
    then have v: "find_ok E (arp_table st) v" "\<forall>e\<in>set (arp_table st). nonempty e \<longrightarrow> \<not> entry_matches E ip n e"
      using scan by simp_all
    show ?thesis
    proof (cases "flags AND ETHARP_FLAG_FIND_ONLY \<noteq> 0 \<or> (fv_empty v = ARP_TABLE_SIZE E \<and> flags AND ETHARP_FLAG_TRY_HARD = 0)")
      case True
      then have "flags AND ETHARP_FLAG_FIND_ONLY \<noteq> 0 \<or> (\<forall>e\<in>set (arp_table st). nonempty e)"
        using v(1) by (auto simp: find_ok_def)
      then show ?thesis using none Inr True v(2) by (simp add: etharp_find_entry_def)
    next
      case False
      then have fo: "flags AND ETHARP_FLAG_FIND_ONLY = 0" by simp
      show ?thesis
      proof (cases "fv_empty v = ARP_TABLE_SIZE E")
        case full: True
        show ?thesis
        proof (cases "find_recycle E st v")
          case None
          then have "\<forall>e\<in>set (arp_table st). \<not> class_stable E e \<and> \<not> class_pending e \<and> \<not> class_queue e \<and> nonempty e"
            using v(1) full len by (auto simp: find_ok_def oldest_def find_recycle_def split: if_splits)
          then have "\<forall>e\<in>set (arp_table st). nonempty e" "\<forall>e\<in>set (arp_table st). ae_state e = ETHARP_STATE_STATIC"
            by (auto simp: class_stable_def class_pending_def class_queue_def ge_stable_def nonempty_def)
          then show ?thesis using none Inr False full None v(2) by (simp add: etharp_find_entry_def)
        next
          case (Some r)
          obtain i q where r: "r = (i, q)" by fastforce
          note rec = find_recycle_ok [OF inv v(1) full Some [unfolded r]]
          let ?st = "etharp_free_entry E i st"
          have step: "arp_step E X (\<lambda>p. 0) st ?st" for X by (rule free_entry_step [OF inv rec(2)]) (simp add: rec(3))
          note free = free_entry_nth [OF inv rec(2)]
          note new = create_entry_step [OF arp_stepD [OF step] rec(2) free(1)]
          have "etharp_find_entry E ip flags n st = Some (Some i, create_entry E ip n i ?st)"
            using Inr False full Some r rec(1,2) free(1) by (simp add: etharp_find_entry_def find_create_def)
          moreover have "created E ip n st i (create_entry E ip n i ?st)"
            using rec(2,4) new(2,3) free(3) v(2) by (simp add: created_def)
          ultimately show ?thesis using created arp_step_trans0 [OF step new(1)] fo by blast
        qed
      next
        case False
        then have e: "fv_empty v < ARP_TABLE_SIZE E" "ae_state (arp_table st ! fv_empty v) = ETHARP_STATE_EMPTY"
          "least_important E (arp_table st) (fv_empty v)"
          using v(1) len by (auto simp: find_ok_def nonempty_def least_important_def)
        note new = create_entry_step [OF inv e(1,2)]
        have "etharp_find_entry E ip flags n st = Some (Some (fv_empty v), create_entry E ip n (fv_empty v) st)"
          using Inr fo False e(1,2) by (simp add: etharp_find_entry_def find_create_def)
        moreover have "created E ip n st (fv_empty v) (create_entry E ip n (fv_empty v) st)"
          using e new(2,3) v(2) by (simp add: created_def)
        ultimately show ?thesis using created new(1) fo by blast
      qed
    qed
  qed
qed

lemma created_key_free:
  assumes "env_ok E" "arp_inv E st" "created E ip (Some n) st i st'"
  shows "key_free E st' i (ip, if ETHARP_TABLE_MATCH_NETIF E then Some n else None)"
  unfolding key_free_def
proof (intro allI impI)
  fix j assume j: "j < ARP_TABLE_SIZE E" "j \<noteq> i" "nonempty (arp_table st' ! j)"
  then have "arp_table st' ! j = arp_table st ! j" using assms(3) by (simp add: created_def)
  moreover from this have "\<not> entry_matches E ip (Some n) (arp_table st ! j)"
    using assms(2,3) j unfolding created_def arp_inv_def by (metis nth_mem)
  ultimately show "entry_key E (arp_table st' ! j) \<noteq> (ip, if ETHARP_TABLE_MATCH_NETIF E then Some n else None)"
    using assms(1) by (auto simp: entry_matches_def entry_key_def env_ok_def)
qed

lemma match_key:
  "env_ok E \<Longrightarrow> entry_matches E ip (Some n) e \<Longrightarrow> entry_key E e = (ip, if ETHARP_TABLE_MATCH_NETIF E then Some n else None)"
  by (auto simp: entry_matches_def entry_key_def env_ok_def)

text \<open>In both of the cases that give an index, the entry may be filled in for the address.\<close>

lemma find_entry_usable:
  assumes "env_ok E" "arp_inv E st" "etharp_find_entry E ip flags (Some n) st = Some (Some i, st')"
  shows "i < ARP_TABLE_SIZE E" "arp_inv E st'" "arp_step E X (\<lambda>p. 0) st st'" "ae_ipaddr (arp_table st' ! i) = ip"
    "key_free E st' i (ip, if ETHARP_TABLE_MATCH_NETIF E then Some n else None)"
    "ETHARP_TABLE_MATCH_NETIF E \<longrightarrow> ae_netif (arp_table st' ! i) = Some n"
    "flags AND ETHARP_FLAG_FIND_ONLY \<noteq> 0 \<longrightarrow> st' = st \<and> nonempty (arp_table st ! i)"
proof -
  have "i < ARP_TABLE_SIZE E \<and> arp_step E X (\<lambda>p. 0) st st' \<and> ae_ipaddr (arp_table st' ! i) = ip
    \<and> key_free E st' i (ip, if ETHARP_TABLE_MATCH_NETIF E then Some n else None)
    \<and> (ETHARP_TABLE_MATCH_NETIF E \<longrightarrow> ae_netif (arp_table st' ! i) = Some n)
    \<and> (flags AND ETHARP_FLAG_FIND_ONLY \<noteq> 0 \<longrightarrow> st' = st \<and> nonempty (arp_table st ! i))"
    using assms(2)
  proof (cases rule: find_entry_cases [where ip = ip and flags = flags and n = "Some n"])
    case (found j)
    then have "j = i" "st' = st" using assms(3) by simp_all
    then show ?thesis
      using found(2-4) key_free_old [OF assms(2) found(2,3)] match_key [OF assms(1)] arp_step_refl [OF assms(2)] assms(1)
      by (auto simp: entry_matches_def env_ok_def)
  next
    case none
    then show ?thesis using assms(3) by simp
  next
    case (created j st'')
    then have "j = i" "st'' = st'" using assms(3) by simp_all
    then show ?thesis
      using created created_key_free [OF assms(1,2)] by (auto simp: created_def new_entry_def)
  qed
  then show "i < ARP_TABLE_SIZE E" "arp_inv E st'" "arp_step E X (\<lambda>p. 0) st st'" "ae_ipaddr (arp_table st' ! i) = ip"
    "key_free E st' i (ip, if ETHARP_TABLE_MATCH_NETIF E then Some n else None)"
    "ETHARP_TABLE_MATCH_NETIF E \<longrightarrow> ae_netif (arp_table st' ! i) = Some n"
    "flags AND ETHARP_FLAG_FIND_ONLY \<noteq> 0 \<longrightarrow> st' = st \<and> nonempty (arp_table st ! i)"
    using arp_stepD by blast+
qed

lemma find_entry_total: "arp_inv E st \<Longrightarrow> \<exists>r st'. etharp_find_entry E ip flags n st = Some (r, st') \<and> (r = None \<longrightarrow> st' = st)"
  by (rule find_entry_cases [of E st ip flags n]) auto

section \<open>Every operation is a step\<close>

definition op_ok :: "lwip_env \<Rightarrow> (etharp_entry \<Rightarrow> bool) \<Rightarrow> (nat \<Rightarrow> int) \<Rightarrow> (err_t \<times> arp) option \<Rightarrow> arp \<Rightarrow> bool" where
  "op_ok E X d r st \<longleftrightarrow> (\<exists>err st'. r = Some (err, st') \<and> arp_step E X d st st')"

lemma op_okI: "r = Some (err, st') \<Longrightarrow> arp_step E X d st st' \<Longrightarrow> op_ok E X d r st"
  by (auto simp: op_ok_def)

lemma op_ok_refl: "arp_inv E st \<Longrightarrow> op_ok E X (\<lambda>p. 0) (Some (err, st)) st"
  by (auto simp: op_ok_def intro: arp_step_refl)

lemma op_ok_after: "arp_step E X (\<lambda>p. 0) st st' \<Longrightarrow> op_ok E X d r st' \<Longrightarrow> op_ok E X d r st"
  by (auto simp: op_ok_def dest: arp_step_trans0)

lemma op_ok_sends: "sends r st \<Longrightarrow> arp_inv E st \<Longrightarrow> op_ok E X (\<lambda>p. 0) r st"
  by (erule sendsE) (auto simp: op_ok_def)

lemma stack_env: "stack_ok E \<Longrightarrow> env_ok E" "stack_ok E \<Longrightarrow> hwaddr_len (nif E n) = ETH_HWADDR_LEN"
  "stack_ok E \<Longrightarrow> 0 < ARP_MAXAGE E" "stack_ok E \<Longrightarrow> ARP_MAXAGE E < 65536"
  "stack_ok E \<Longrightarrow> i < ARP_TABLE_SIZE E \<Longrightarrow> i < NETIF_ADDR_IDX_MAX E"
  by (simp_all add: stack_ok_def)

lemma emit_set_entry: "emit evs (set_entry i e st) = set_entry i e (emit evs st)"
  by (simp add: emit_def set_entry_def)

lemma emit_emit [simp]: "emit evs (emit evs' st) = emit (evs' @ evs) st"
  by (simp add: emit_def)

lemma emit_Nil [simp]: "emit [] st = st"
  by (simp add: emit_def)

lemma table_emit [simp]: "arp_table (emit evs st) = arp_table st"
  by (simp add: emit_def)

lemma nth_set_entry: "arp_inv E st \<Longrightarrow> i < ARP_TABLE_SIZE E \<Longrightarrow> arp_table (set_entry i e st) ! i = e"
  by (simp add: set_entry_def arp_inv_def)

subsection \<open>Updates\<close>

lemma send_queue_emits:
  "stack_ok E \<Longrightarrow> \<exists>evs. send_queue E n eth q st = Some (emit evs st) \<and> (\<forall>p. balance evs p = - queued p q)"
proof (induction q arbitrary: st)
  case Nil
  then show ?case by (intro exI [of _ "[]"]) simp
next
  case (Cons b q)
  obtain err evs where evs: "eth_out E n (pb_ptr b) (pb_bytes b) (hwaddr (nif E n)) eth (ETHTYPE_IP E) st = Some (err, emit evs st)"
    "\<forall>p. balance evs p = 0"
    using eth_out_sends [OF Cons.prems] unfolding sends_def by blast
  obtain evs' where evs': "send_queue E n eth q (emit (evs @ [Pbuf_free (pb_ptr b)]) st)
      = Some (emit evs' (emit (evs @ [Pbuf_free (pb_ptr b)]) st))" "\<forall>p. balance evs' p = - queued p q"
    using Cons.IH [OF Cons.prems] by blast
  show ?case
    using evs evs' by (intro exI [of _ "evs @ Pbuf_free (pb_ptr b) # evs'"]) auto
qed

lemma update_ok:
  assumes E: "stack_ok E" and inv: "arp_inv E st"
  shows "op_ok E (\<lambda>e. flags AND ETHARP_FLAG_STATIC_ENTRY \<noteq> 0 \<and> ae_ipaddr e = ip) (\<lambda>p. 0)
    (etharp_update_arp_entry E n ip eth flags st) st" (is "op_ok E ?X _ ?r st")
proof (cases "ip4_addr_isany E ip \<or> ip4_addr_isbroadcast E ip (nif E n) \<or> ip4_addr_ismulticast E ip")
  case True
  then show ?thesis using stack_env(2) [OF E] inv by (auto simp: etharp_update_arp_entry_def intro: op_ok_refl)
next
  case False
  obtain r st1 where find: "etharp_find_entry E ip flags (Some n) st = Some (r, st1)" "r = None \<longrightarrow> st1 = st"
    using find_entry_total [OF inv] by blast
  show ?thesis
  proof (cases r)
    case None
    then have "?r = Some (ERR_MEM, st)" using False find stack_env(2) [OF E] by (simp add: etharp_update_arp_entry_def)
    then show ?thesis using op_ok_refl [OF inv] by simp
  next
    case (Some i)
    note use = find_entry_usable [OF stack_env(1) [OF E] inv find(1) [unfolded Some]]
    let ?e = "arp_table st1 ! i"
    let ?static = "ETHARP_SUPPORT_STATIC_ENTRIES E \<and> flags AND ETHARP_FLAG_STATIC_ENTRY \<noteq> 0"
    show ?thesis
    proof (cases "\<not> ?static \<and> ETHARP_SUPPORT_STATIC_ENTRIES E \<and> ae_state ?e = ETHARP_STATE_STATIC")
      case True
      then have "?r = Some (ERR_VAL, st1)"
        using False find Some stack_env(2) [OF E] by (simp add: etharp_update_arp_entry_def)
      then show ?thesis using use(3) by (auto intro: op_okI)
    next
      case go: False
      let ?e' = "?e\<lparr>ae_state := (if ?static then ETHARP_STATE_STATIC else ETHARP_STATE_STABLE),
          ae_netif := Some n, ae_ethaddr := take ETH_HWADDR_LEN eth, ae_ctime := 0, ae_q := []\<rparr>"
      obtain evs where evs: "send_queue E n eth (ae_q ?e) (set_entry i ?e' st1) = Some (emit evs (set_entry i ?e' st1))"
        "\<forall>p. balance evs p = - queued p (ae_q ?e)"
        using send_queue_emits [OF E] by blast
      have r: "?r = Some (ERR_OK, set_entry i ?e' (emit evs st1))"
        using False find Some stack_env(2) [OF E] go evs(1)
        by (simp add: etharp_update_arp_entry_def Let_def emit_set_entry)
      have "arp_step E ?X (\<lambda>p. 0) st1 (set_entry i ?e' (emit evs st1))"
      proof (rule arp_step_set_entry [OF use(2,1)])
        show "entry_ok E ?e'" using stack_env(3) [OF E] by (simp add: entry_ok_def queue_fits_def)
        have "entry_key E ?e' = (ip, if ETHARP_TABLE_MATCH_NETIF E then Some n else None)"
          using use(4) by (simp add: entry_key_def)
        then show "nonempty ?e' \<longrightarrow> key_free E st1 i (entry_key E ?e')" by (simp only: use(5) simp_thms)
        show "ae_state ?e = ETHARP_STATE_STATIC \<longrightarrow> ?X ?e"
          using go use(4) arp_inv_entry [OF use(2,1)] by (auto simp: entry_ok_def)
      qed (simp add: evs(2))
      then show ?thesis using r use(3) by (intro op_ok_after [OF use(3)] op_okI)
    qed
  qed
qed

lemma free_loop_ok:
  assumes "\<And>i st. i \<in> set is \<Longrightarrow> arp_inv E st \<Longrightarrow> arp_step E X (\<lambda>p. 0) st (f i st)"
  shows "arp_inv E st \<Longrightarrow> arp_step E X (\<lambda>p. 0) st (fold f is st)"
  using assms
proof (induction "is" arbitrary: st)
  case (Cons i "is")
  then have fi: "arp_step E X (\<lambda>p. 0) st (f i st)" by simp
  have "arp_step E X (\<lambda>p. 0) (f i st) (fold f is (f i st))"
    using Cons.IH [OF arp_stepD [OF fi]] Cons.prems(2) by simp
  then show ?case using arp_step_trans0 [OF fi] by simp
qed (simp add: arp_step_refl)

lemma cleanup_loop_fold:
  "cleanup_loop E n is st = fold (\<lambda>i st. if ae_state (arp_table st ! i) \<noteq> ETHARP_STATE_EMPTY \<and> ae_netif (arp_table st ! i) = Some n
     then etharp_free_entry E i st else st) is st"
  by (induction "is" arbitrary: st) simp_all

lemma cleanup_ok: "arp_inv E st \<Longrightarrow> arp_step E (\<lambda>e. ae_netif e = Some n) (\<lambda>p. 0) st (etharp_cleanup_netif E n st)"
  unfolding etharp_cleanup_netif_def cleanup_loop_fold
  by (rule free_loop_ok) (auto intro: free_entry_step arp_step_refl)

lemma remove_static_ok:
  assumes "env_ok E" "arp_inv E st"
  shows "op_ok E (\<lambda>e. ae_ipaddr e = ip) (\<lambda>p. 0) (etharp_remove_static_entry E ip st) st"
  using assms(2)
proof (cases rule: find_entry_cases [where ip = ip and flags = ETHARP_FLAG_FIND_ONLY and n = None])
  case (found i)
  then have "ae_ipaddr (arp_table st ! i) = ip" using assms(1) by (auto simp: entry_matches_def env_ok_def)
  then have "arp_step E (\<lambda>e. ae_ipaddr e = ip) (\<lambda>p. 0) st (etharp_free_entry E i st)"
    by (intro free_entry_step [OF assms(2) found(2)]) simp
  then show ?thesis using found(1) op_ok_refl [OF assms(2)] by (auto simp: etharp_remove_static_entry_def intro: op_okI)
next
  case none
  then show ?thesis using op_ok_refl [OF assms(2)] by (simp add: etharp_remove_static_entry_def)
qed (simp add: ETHARP_FLAG_FIND_ONLY_def)

lemma add_static_ok:
  "stack_ok E \<Longrightarrow> arp_inv E st \<Longrightarrow> op_ok E (\<lambda>e. ae_ipaddr e = ip) (\<lambda>p. 0) (etharp_add_static_entry E ip eth st) st"
proof -
  assume E: "stack_ok E" and inv: "arp_inv E st"
  have fl: "(ETHARP_FLAG_TRY_HARD OR ETHARP_FLAG_STATIC_ENTRY) AND ETHARP_FLAG_STATIC_ENTRY \<noteq> 0"
    by (simp add: ETHARP_FLAG_TRY_HARD_def ETHARP_FLAG_STATIC_ENTRY_def)
  show ?thesis
    using update_ok [OF E inv, of "ETHARP_FLAG_TRY_HARD OR ETHARP_FLAG_STATIC_ENTRY" ip _ eth] fl op_ok_refl [OF inv]
    by (auto simp: etharp_add_static_entry_def split: option.split)
qed

subsection \<open>The timer\<close>

lemma unat_ctime_Suc: "stack_ok E \<Longrightarrow> unat (c :: 16 word) < ARP_MAXAGE E \<Longrightarrow> unat (c + 1) = unat c + 1"
  using stack_env(4) [of E] by (simp add: unat_word_ariths)

lemma tmr_entry_ok:
  assumes E: "stack_ok E" and inv: "arp_inv E st" and i: "i < ARP_TABLE_SIZE E"
  shows "\<exists>st'. tmr_entry E i st = Some st' \<and> arp_step E X (\<lambda>p. 0) st st'"
proof -
  let ?e = "arp_table st ! i"
  let ?e1 = "?e\<lparr>ae_ctime := ae_ctime ?e + 1\<rparr>"
  have ok: "entry_ok E ?e" using arp_inv_entry [OF inv i] .
  show ?thesis
  proof (cases "ae_state ?e = ETHARP_STATE_EMPTY \<or> ae_state ?e = ETHARP_STATE_STATIC")
    case True
    then have "tmr_entry E i st = Some st" using ok by (auto simp: tmr_entry_def Let_def entry_ok_def)
    then show ?thesis using arp_step_refl [OF inv] by simp
  next
    case False
    have len: "i < length (arp_table st)" using inv i by (simp add: arp_inv_def)
    have c: "unat (ae_ctime ?e + 1) = unat (ae_ctime ?e) + 1"
      using ok False unat_ctime_Suc [OF E] by (simp add: entry_ok_def)
    have kf: "key_free E st i (entry_key E (?e1\<lparr>ae_state := s\<rparr>))" for s
    proof -
      have "entry_key E (?e1\<lparr>ae_state := s\<rparr>) = entry_key E ?e" by (simp add: entry_key_def)
      then show ?thesis using key_free_old [OF inv i] False by (simp add: nonempty_def)
    qed
    have set_set: "set_entry i a (set_entry i b st) = set_entry i a (emit [] st)" for a b by (simp add: set_entry_def)
    show ?thesis
    proof (cases "unat (ae_ctime ?e1) \<ge> ARP_MAXAGE E \<or> (ae_state ?e = ETHARP_STATE_PENDING \<and> unat (ae_ctime ?e1) \<ge> ARP_MAXPENDING)")
      case True
      then have "tmr_entry E i st = Some (etharp_free_entry E i (set_entry i ?e1 st))"
        using False by (simp add: tmr_entry_def Let_def)
      moreover have "arp_step E X (\<lambda>p. 0) st (etharp_free_entry E i (set_entry i ?e1 st))"
      proof -
        define e2 where "e2 = arp_table (etharp_free_entry E i (set_entry i ?e1 st)) ! i"
        have "etharp_free_entry E i (set_entry i ?e1 st) = set_entry i e2 (emit (map (\<lambda>b. Pbuf_free (pb_ptr b)) (ae_q ?e)) st)"
          and e2: "ae_q e2 = []" "ae_state e2 = ETHARP_STATE_EMPTY"
          using len by (simp_all add: e2_def etharp_free_entry_def Let_def set_entry_def emit_def)
        then show ?thesis
          using False e2 by (simp only:) (intro arp_step_set_entry [OF inv i],
            simp_all add: entry_ok_def queue_fits_def nonempty_def balance_free_queue)
      qed
      ultimately show ?thesis by simp
    next
      case young: False
      have ok1: "entry_ok E (?e1\<lparr>ae_state := s\<rparr>)" if "s = ae_state ?e \<or> ae_state ?e \<noteq> ETHARP_STATE_PENDING \<and> ge_stable s \<and> s \<noteq> ETHARP_STATE_STATIC" for s
        using that ok young False by (auto simp: entry_ok_def ge_stable_def)
      have step: "arp_step E X (\<lambda>p. 0) st (set_entry i (?e1\<lparr>ae_state := s\<rparr>) (emit [] st))"
        if "s = ae_state ?e \<or> ae_state ?e \<noteq> ETHARP_STATE_PENDING \<and> ge_stable s \<and> s \<noteq> ETHARP_STATE_STATIC" for s
        using kf ok1 [OF that] False by (intro arp_step_set_entry [OF inv i]) simp_all
      have same: "?e1\<lparr>ae_state := ae_state ?e\<rparr> = ?e1" by simp
      show ?thesis
      proof (cases "ae_state ?e = ETHARP_STATE_PENDING")
        case True
        then obtain n where n: "ae_netif ?e = Some n" using ok by (auto simp: entry_ok_def)
        have s1: "arp_step E X (\<lambda>p. 0) st (set_entry i ?e1 st)" using step [of "ae_state ?e"] same by simp
        obtain err evs where "etharp_request E n (ae_ipaddr ?e) (set_entry i ?e1 st) = Some (err, emit evs (set_entry i ?e1 st))"
          "arp_step E X (\<lambda>p. 0) (set_entry i ?e1 st) (emit evs (set_entry i ?e1 st))"
          using sendsE [OF etharp_request_sends(2) [OF E] arp_stepD [OF s1]] by metis
        then show ?thesis
          using True young n arp_step_trans0 [OF s1] by (simp add: tmr_entry_def Let_def)
      next
        case np: False
        let ?s = "if ae_state ?e = ETHARP_STATE_STABLE_REREQUESTING_1 then ETHARP_STATE_STABLE_REREQUESTING_2
                  else if ae_state ?e = ETHARP_STATE_STABLE_REREQUESTING_2 then ETHARP_STATE_STABLE else ae_state ?e"
        have "tmr_entry E i st = Some (set_entry i (?e1\<lparr>ae_state := ?s\<rparr>) (emit [] st))"
          using False young np by (simp add: tmr_entry_def Let_def set_set)
        then show ?thesis using step [of ?s] np False by (auto simp: ge_stable_def)
      qed
    qed
  qed
qed

lemma tmr_loop_ok:
  "stack_ok E \<Longrightarrow> arp_inv E st \<Longrightarrow> \<forall>i\<in>set is. i < ARP_TABLE_SIZE E \<Longrightarrow>
   \<exists>st'. tmr_loop E is st = Some st' \<and> arp_step E X (\<lambda>p. 0) st st'"
proof (induction "is" arbitrary: st)
  case (Cons i "is")
  then obtain st1 where st1: "tmr_entry E i st = Some st1" "arp_step E X (\<lambda>p. 0) st st1"
    using tmr_entry_ok [of E st i X] by auto
  then obtain st' where "tmr_loop E is st1 = Some st'" "arp_step E X (\<lambda>p. 0) st1 st'"
    using Cons arp_stepD by (metis list.set_intros(2))
  then show ?case using st1 arp_step_trans0 by fastforce
qed (simp add: arp_step_refl)

lemma tmr_ok: "stack_ok E \<Longrightarrow> arp_inv E st \<Longrightarrow> \<exists>st'. etharp_tmr E st = Some st' \<and> arp_step E X (\<lambda>p. 0) st st'"
  unfolding etharp_tmr_def by (rule tmr_loop_ok) auto

subsection \<open>Queries and output\<close>

lemma hint_step: "arp_inv E st \<Longrightarrow> i < ARP_TABLE_SIZE E \<Longrightarrow> arp_step E X (\<lambda>p. 0) st (ETHARP_SET_ADDRHINT E n i st)"
  by (simp add: arp_step_def arp_inv_def ETHARP_SET_ADDRHINT_def held_def)

lemma hint_table [simp]: "arp_table (ETHARP_SET_ADDRHINT E n i st) = arp_table st"
  by (simp add: ETHARP_SET_ADDRHINT_def)

lemma eth_out_ok: "stack_ok E \<Longrightarrow> arp_inv E st \<Longrightarrow> op_ok E X (\<lambda>p. 0) (eth_out E n p b src dst ty st) st"
  by (intro op_ok_sends eth_out_sends)

lemma enqueue_ok:
  assumes inv: "arp_inv E st" and i: "i < ARP_TABLE_SIZE E" and p: "ae_state (arp_table st ! i) = ETHARP_STATE_PENDING"
    and evs: "\<forall>q. balance evs q = (if q = pb_ptr b then 1 else 0)"
  shows "op_ok E X (\<lambda>p. 0) (Some (query_enqueue E i b (emit evs st))) st"
proof -
  let ?e = "arp_table st ! i"
  have ok: "entry_ok E ?e" by (rule arp_inv_entry [OF inv i])
  have set_q: "arp_step E X (\<lambda>p. 0) st (set_entry i (?e\<lparr>ae_q := q\<rparr>) (emit evs' st))"
    if "queue_fits E q" "\<forall>p. balance evs' p = queued p q - queued p (ae_q ?e)" for q evs'
  proof (rule arp_step_set_entry [OF inv i])
    show "entry_ok E (?e\<lparr>ae_q := q\<rparr>)" using ok p that(1) by (simp add: entry_ok_def)
    have "entry_key E (?e\<lparr>ae_q := q\<rparr>) = entry_key E ?e" by (simp add: entry_key_def)
    then show "nonempty (?e\<lparr>ae_q := q\<rparr>) \<longrightarrow> key_free E st i (entry_key E (?e\<lparr>ae_q := q\<rparr>))"
      using key_free_old [OF inv i] p by (simp add: nonempty_def)
  qed (use that p in simp_all)
  have fits: "queue_fits E (ae_q ?e)" using ok by (simp add: entry_ok_def)
  show ?thesis
  proof (cases "ARP_QUEUEING E")
    case q: True
    show ?thesis
    proof (cases "memp_malloc E (trace (emit evs st))")
      case m: True
      show ?thesis
      proof (cases "ARP_QUEUE_LEN E \<noteq> 0 \<and> length (ae_q ?e) \<ge> ARP_QUEUE_LEN E")
        case True
        then have "length (tl (ae_q ?e @ [b])) \<le> ARP_QUEUE_LEN E" using fits q by (simp add: queue_fits_def)
        moreover have "queued p' (tl (ae_q ?e @ [b])) = queued p' (ae_q ?e) + (if p' = pb_ptr b then 1 else 0)
            - (if p' = pb_ptr (hd (ae_q ?e @ [b])) then 1 else 0)" for p'
          by (cases "ae_q ?e") auto
        ultimately have "arp_step E X (\<lambda>p. 0) st (set_entry i (?e\<lparr>ae_q := tl (ae_q ?e @ [b])\<rparr>)
            (emit (evs @ [Pbuf_free (pb_ptr (hd (ae_q ?e @ [b])))]) st))"
          using evs q by (intro set_q) (auto simp: queue_fits_def)
        moreover have "query_enqueue E i b (emit evs st) = (ERR_OK, set_entry i (?e\<lparr>ae_q := tl (ae_q ?e @ [b])\<rparr>)
            (emit (evs @ [Pbuf_free (pb_ptr (hd (ae_q ?e @ [b])))]) st))"
          using q m True by (simp add: query_enqueue_def Let_def emit_set_entry)
        ultimately show ?thesis by (auto intro: op_okI)
      next
        case False
        then have "arp_step E X (\<lambda>p. 0) st (set_entry i (?e\<lparr>ae_q := ae_q ?e @ [b]\<rparr>) (emit evs st))"
          using evs q by (intro set_q) (auto simp: queue_fits_def)
        moreover have "query_enqueue E i b (emit evs st) = (ERR_OK, set_entry i (?e\<lparr>ae_q := ae_q ?e @ [b]\<rparr>) (emit evs st))"
          using q m False by (auto simp: query_enqueue_def Let_def)
        ultimately show ?thesis by (auto intro: op_okI)
      qed
    next
      case False
      then have "query_enqueue E i b (emit evs st) = (ERR_MEM, emit (evs @ [Pbuf_free (pb_ptr b)]) st)"
        using q by (simp add: query_enqueue_def Let_def)
      moreover have "arp_step E X (\<lambda>p. 0) st (emit (evs @ [Pbuf_free (pb_ptr b)]) st)"
        using evs by (intro arp_step_emit [OF inv]) simp
      ultimately show ?thesis by (auto intro: op_okI)
    qed
  next
    case False
    have "arp_step E X (\<lambda>p. 0) st (set_entry i (?e\<lparr>ae_q := [b]\<rparr>)
        (emit (evs @ map (\<lambda>b. Pbuf_free (pb_ptr b)) (ae_q ?e)) st))"
      using evs False by (intro set_q) (auto simp: queue_fits_def balance_free_queue)
    moreover have "query_enqueue E i b (emit evs st) = (ERR_OK, set_entry i (?e\<lparr>ae_q := [b]\<rparr>)
        (emit (evs @ map (\<lambda>b. Pbuf_free (pb_ptr b)) (ae_q ?e)) st))"
      using False by (simp add: query_enqueue_def Let_def)
    ultimately show ?thesis by (auto intro: op_okI)
  qed
qed

text \<open>A packet is a chain that is not a queue of packets.\<close>

definition single_packet :: "pbuf \<Rightarrow> bool" where
  "single_packet q \<longleftrightarrow> (\<forall>i<length (pb_chain q). seg_len (pb_chain q ! i) \<noteq> seg_tot_len (pb_chain q ! i) \<or> i = length (pb_chain q) - 1)"

lemma copy_needed_total: "single_packet q \<Longrightarrow> copy_needed (pb_chain q) \<noteq> None"
  unfolding single_packet_def
proof (induction "pb_chain q" arbitrary: q rule: copy_needed.induct)
  case (2 s ss)
  have "seg_len s \<noteq> seg_tot_len s \<or> ss = []" using 2(3) [rule_format, of 0] 2(2) [symmetric] by auto
  moreover have "\<forall>i<length ss. seg_len (ss ! i) \<noteq> seg_tot_len (ss ! i) \<or> i = length ss - 1"
  proof (intro allI impI)
    fix i assume "i < length ss"
    then show "seg_len (ss ! i) \<noteq> seg_tot_len (ss ! i) \<or> i = length ss - 1"
      using 2(3) [rule_format, of "Suc i"] 2(2) [symmetric] by auto
  qed
  ultimately show ?case
    using 2(1) [of "q\<lparr>pb_chain := ss\<rparr>"] 2(2) [symmetric] by auto
qed simp

lemma query_pending_ok:
  assumes "arp_inv E st" "i < ARP_TABLE_SIZE E" "ae_state (arp_table st ! i) = ETHARP_STATE_PENDING" "single_packet q"
  shows "op_ok E X (\<lambda>p. 0) (query_pending E i q st) st"
proof (cases "copy_needed (pb_chain q)")
  case None
  then show ?thesis using copy_needed_total [OF assms(4)] by simp
next
  case (Some c)
  show ?thesis
  proof (cases c)
    case True
    then show ?thesis
      using Some enqueue_ok [OF assms(1-3), where X = X] op_ok_refl [OF assms(1)]
      by (auto simp: query_pending_def split: option.split)
  next
    case False
    then show ?thesis
      using Some enqueue_ok [OF assms(1-3), of "[Pbuf_ref (pb_ptr q)]" q X] by (simp add: query_pending_def)
  qed
qed

lemma query_mark_step:
  assumes E: "stack_ok E" and inv: "arp_inv E st"
    and find: "etharp_find_entry E ip ETHARP_FLAG_TRY_HARD (Some n) st = Some (Some i, st1)"
  shows "arp_step E X (\<lambda>p. 0) st (query_mark n i st1)"
proof -
  note use = find_entry_usable [OF stack_env(1) [OF E] inv find]
  let ?e = "arp_table st1 ! i"
  let ?e2 = "?e\<lparr>ae_state := ETHARP_STATE_PENDING, ae_netif := Some n\<rparr>"
  show ?thesis
  proof (cases "ae_state ?e = ETHARP_STATE_EMPTY")
    case True
    have "ae_ctime ?e = 0"
      using inv
    proof (cases rule: find_entry_cases [where ip = ip and flags = ETHARP_FLAG_TRY_HARD and n = "Some n"])
      case (created j st')
      then show ?thesis using find by (simp add: created_def new_entry_def)
    qed (use find True in \<open>auto simp: nonempty_def\<close>)
    moreover have "ae_q ?e = []" using arp_inv_entry [OF use(2,1)] True by (auto simp: entry_ok_def)
    ultimately have ok: "entry_ok E ?e2"
      using stack_env(3) [OF E] by (simp add: entry_ok_def queue_fits_def ARP_MAXPENDING_def)
    have "entry_key E ?e2 = (ip, if ETHARP_TABLE_MATCH_NETIF E then Some n else None)"
      using use(4) by (simp add: entry_key_def)
    then have kf: "key_free E st1 i (entry_key E ?e2)" by (simp only: use(5))
    have "arp_step E X (\<lambda>p. 0) st1 (set_entry i ?e2 (emit [] st1))"
      using ok kf True by (intro arp_step_set_entry [OF use(2,1)]) simp_all
    then show ?thesis using True arp_step_trans0 [OF use(3)] by (simp add: query_mark_def)
  qed (use use(3) in \<open>simp add: query_mark_def\<close>)
qed

lemma query_request_ok:
  assumes E: "stack_ok E" and inv: "arp_inv E st" and i: "i < ARP_TABLE_SIZE E"
  shows "op_ok E X (\<lambda>p. 0) (query_request E n ip i new q st) st"
proof (cases "new \<or> q = None")
  case True
  obtain err evs where req: "etharp_request E n ip st = Some (err, emit evs st)" "\<And>X. arp_step E X (\<lambda>p. 0) st (emit evs st)"
    using sendsE [OF etharp_request_sends(2) [OF E] inv] by metis
  show ?thesis
  proof (cases "err = ERR_OK \<and> ae_state (arp_table st ! i) = ETHARP_STATE_PENDING \<and> \<not> new")
    case reset: True
    let ?e = "(arp_table st ! i)\<lparr>ae_ctime := 0\<rparr>"
    have "entry_ok E ?e"
      using arp_inv_entry [OF inv i] stack_env(3) [OF E] by (simp add: entry_ok_def ARP_MAXPENDING_def)
    moreover have "entry_key E ?e = entry_key E (arp_table st ! i)" by (simp add: entry_key_def)
    then have "nonempty ?e \<longrightarrow> key_free E (emit evs st) i (entry_key E ?e)"
      using key_free_old [OF inv i] reset by (simp add: nonempty_def key_free_def)
    ultimately have "arp_step E X (\<lambda>p. 0) (emit evs st) (set_entry i ?e (emit [] (emit evs st)))"
      using reset by (intro arp_step_set_entry [OF arp_stepD [OF req(2)] i]) simp_all
    then have "arp_step E X (\<lambda>p. 0) st (set_entry i ?e (emit evs st))"
      using arp_step_trans0 [OF req(2)] by simp
    moreover have "query_request E n ip i new q st = Some (err, set_entry i ?e (emit evs st))"
      using True reset req(1) by (simp add: query_request_def)
    ultimately show ?thesis by (auto intro: op_okI)
  next
    case False
    then have "query_request E n ip i new q st = Some (err, emit evs st)"
      using True req(1) by (auto simp: query_request_def)
    then show ?thesis using req(2) by (auto intro: op_okI)
  qed
next
  case False
  then show ?thesis using op_ok_refl [OF inv] by (auto simp: query_request_def)
qed

lemma query_deliver_ok:
  assumes E: "stack_ok E" and inv: "arp_inv E st" and i: "i < ARP_TABLE_SIZE E" and q: "\<forall>b. q = Some b \<longrightarrow> single_packet b"
  shows "op_ok E X (\<lambda>p. 0) (query_deliver E n i q res st) st"
proof (cases q)
  case None
  then show ?thesis using op_ok_refl [OF inv] by (simp add: query_deliver_def)
next
  case (Some b)
  note hint = hint_step [OF inv i]
  show ?thesis
    using Some q query_pending_ok [OF inv i, of b X] op_ok_refl [OF inv] op_ok_after [OF hint eth_out_ok [OF E arp_stepD [OF hint]]]
    by (simp add: query_deliver_def)
qed

lemma query_ok:
  assumes E: "stack_ok E" and inv: "arp_inv E st" and q: "\<forall>b. q = Some b \<longrightarrow> single_packet b"
  shows "op_ok E X (\<lambda>p. 0) (etharp_query E n ip q st) st"
proof (cases "ip4_addr_isbroadcast E ip (nif E n) \<or> ip4_addr_ismulticast E ip \<or> ip4_addr_isany E ip")
  case True
  then show ?thesis using op_ok_refl [OF inv] by (simp add: etharp_query_def)
next
  case uni: False
  obtain r st1 where find: "etharp_find_entry E ip ETHARP_FLAG_TRY_HARD (Some n) st = Some (r, st1)" "r = None \<longrightarrow> st1 = st"
    using find_entry_total [OF inv] by blast
  show ?thesis
  proof (cases r)
    case None
    then show ?thesis using uni find op_ok_refl [OF inv] by (simp add: etharp_query_def)
  next
    case (Some i)
    note i = find_entry_usable(1) [OF stack_env(1) [OF E] inv find(1) [unfolded Some]]
    let ?st2 = "query_mark n i st1"
    have step2: "arp_step E X (\<lambda>p. 0) st ?st2" by (rule query_mark_step [OF E inv find(1) [unfolded Some]])
    obtain res st3 where st3: "query_request E n ip i (ae_state (arp_table st1 ! i) = ETHARP_STATE_EMPTY) q ?st2 = Some (res, st3)"
      "arp_step E X (\<lambda>p. 0) ?st2 st3"
      using query_request_ok [OF E arp_stepD [OF step2] i] unfolding op_ok_def by blast
    have "etharp_query E n ip q st = query_deliver E n i q res st3"
      using uni find(1) Some st3(1) stack_env(5) [OF E i] by (simp add: etharp_query_def Let_def)
    then show ?thesis
      using op_ok_after [OF step2 op_ok_after [OF st3(2) query_deliver_ok [OF E arp_stepD [OF st3(2)] i q]]] by simp
  qed
qed

lemma to_index_ok:
  assumes E: "stack_ok E" and inv: "arp_inv E st" and i: "i < ARP_TABLE_SIZE E" and stable: "ge_stable (ae_state (arp_table st ! i))"
  shows "op_ok E X (\<lambda>p. 0) (etharp_output_to_arp_index E n q i st) st"
proof -
  let ?e = "arp_table st ! i"
  let ?e1 = "?e\<lparr>ae_state := ETHARP_STATE_STABLE_REREQUESTING_1\<rparr>"
  let ?mark = "map_option (\<lambda>(err, st). if err = ERR_OK then set_entry i ?e1 st else st)"
  have re: "\<exists>st'. ?mark r = Some st' \<and> arp_step E X (\<lambda>p. 0) st st'"
    if r: "sends r st" and s: "ae_state ?e = ETHARP_STATE_STABLE" for r
  proof -
    obtain err evs where evs: "r = Some (err, emit evs st)" "\<forall>p. balance evs p = 0" "\<And>X. arp_step E X (\<lambda>p. 0) st (emit evs st)"
      using sendsE [OF r inv] by metis
    have "entry_ok E ?e1" using arp_inv_entry [OF inv i] s by (auto simp: entry_ok_def)
    moreover have "entry_key E ?e1 = entry_key E ?e" by (simp add: entry_key_def)
    then have "nonempty ?e1 \<longrightarrow> key_free E st i (entry_key E ?e1)"
      using key_free_old [OF inv i] s by (simp add: nonempty_def)
    ultimately have "arp_step E X (\<lambda>p. 0) st (set_entry i ?e1 (emit evs st))"
      using s evs(2) by (intro arp_step_set_entry [OF inv i]) simp_all
    then show ?thesis using evs by simp
  qed
  let ?m = "if ae_state ?e = ETHARP_STATE_STABLE then
       if int (unat (ae_ctime ?e)) \<ge> ARP_AGE_REREQUEST_USED_BROADCAST E then ?mark (etharp_request E n (ae_ipaddr ?e) st)
       else if int (unat (ae_ctime ?e)) \<ge> ARP_AGE_REREQUEST_USED_UNICAST E
       then ?mark (etharp_request_dst E n (ae_ipaddr ?e) (ae_ethaddr ?e) st)
       else Some st
     else Some st"
  have "\<exists>st'. ?m = Some st' \<and> arp_step E X (\<lambda>p. 0) st st'"
    using re [OF etharp_request_sends(1) [OF E]] re [OF etharp_request_sends(2) [OF E]] arp_step_refl [OF inv] by auto
  then obtain st' where st': "?m = Some st'" "arp_step E X (\<lambda>p. 0) st st'" by blast
  have "etharp_output_to_arp_index E n q i st = eth_out E n (pb_ptr q) (pb_bytes q) (hwaddr (nif E n)) (ae_ethaddr ?e) (ETHTYPE_IP E) st'"
    using stable st'(1) unfolding etharp_output_to_arp_index_def Let_def by simp
  then show ?thesis using op_ok_after [OF st'(2) eth_out_ok [OF E arp_stepD [OF st'(2)]]] by simp
qed

lemma output_search_ok:
  "output_search E n dst k es = Some i \<Longrightarrow> k \<le> i \<and> i < k + length es \<and> output_usable E n dst (es ! (i - k))"
proof (induction es arbitrary: k)
  case (Cons e es)
  show ?case
  proof (cases "output_usable E n dst e")
    case False
    then have "output_search E n dst (k + 1) es = Some i" using Cons.prems by simp
    then show ?thesis using Cons.IH [of "k + 1"] by (auto simp: nth_Cons')
  qed (use Cons.prems in simp)
qed simp

lemma output_ok:
  assumes E: "stack_ok E" and inv: "arp_inv E st" and q: "single_packet q"
  shows "op_ok E X (\<lambda>p. 0) (etharp_output E n q ip st) st"
proof (cases "output_next_hop E n q ip")
  case None
  then show ?thesis
    using eth_out_ok [OF E inv] op_ok_refl [OF inv] by (auto simp: etharp_output_def Let_def)
next
  case (Some dst)
  have len: "length (arp_table st) = ARP_TABLE_SIZE E" "etharp_cached_entry st < ARP_TABLE_SIZE E"
    using inv by (simp_all add: arp_inv_def)
  have idx: "op_ok E X (\<lambda>p. 0) (etharp_output_to_arp_index E n q i st') st'"
    if "i < ARP_TABLE_SIZE E" "output_usable E n dst (arp_table st' ! i)" "arp_inv E st'" for i st'
    using to_index_ok [OF E that(3,1)] that(2) by (simp add: output_usable_def)
  have "\<exists>c. output_cached E n dst st = Some c \<and> (\<forall>i. c = Some i \<longrightarrow> i < ARP_TABLE_SIZE E \<and> output_usable E n dst (arp_table st ! i))"
    using len(2) by (cases "LWIP_NETIF_HWADDRHINT E"; cases "addr_hint st n") (simp_all add: output_cached_def)
  then obtain c where c: "output_cached E n dst st = Some c" "\<forall>i. c = Some i \<longrightarrow> i < ARP_TABLE_SIZE E \<and> output_usable E n dst (arp_table st ! i)"
    by blast
  have "op_ok E X (\<lambda>p. 0) (case c of Some i \<Rightarrow> etharp_output_to_arp_index E n q i st
      | None \<Rightarrow> (case output_search E n dst 0 (arp_table st) of
                   Some i \<Rightarrow> etharp_output_to_arp_index E n q i (ETHARP_SET_ADDRHINT E n i st)
                 | None \<Rightarrow> etharp_query E n dst (Some q) st)) st"
  proof (cases c)
    case None
    show ?thesis
    proof (cases "output_search E n dst 0 (arp_table st)")
      case (Some i)
      then have i: "i < ARP_TABLE_SIZE E" "output_usable E n dst (arp_table st ! i)"
        using output_search_ok [OF Some] len by simp_all
      note hint = hint_step [OF inv i(1)]
      show ?thesis using None Some op_ok_after [OF hint idx [OF i(1) _ arp_stepD [OF hint]]] i(2) by simp
    qed (use None query_ok [OF E inv] q in simp)
  qed (use c(2) idx [OF _ _ inv] in simp)
  then show ?thesis
    using Some c(1) eth_out_ok [OF E inv] by (auto simp: etharp_output_def Let_def split: option.split)
qed

subsection \<open>Input\<close>

definition given_back :: "nat \<Rightarrow> nat \<Rightarrow> int" where
  "given_back ptr p = (if p = ptr then 1 else 0)"

lemma arp_step_free:
  "arp_step E X (\<lambda>p. 0) st st' \<Longrightarrow> arp_step E X (given_back ptr) st (emit [Pbuf_free ptr] st')"
  using arp_step_emit [OF arp_stepD, of E X "\<lambda>p. 0" st st' "[Pbuf_free ptr]" "given_back ptr"]
  by (auto simp: given_back_def intro: arp_step_trans0)

lemma input_ok:
  assumes E: "stack_ok E" and inv: "arp_inv E st" and len: "SIZEOF_ETHARP_HDR \<le> length b"
  shows "\<exists>st'. etharp_input E ptr b n st = Some st' \<and> arp_step E X (given_back ptr) st st'"
proof -
  obtain h where h: "load_etharp_hdr E b = Some h" using len by (simp add: load_etharp_hdr_def)
  show ?thesis
  proof (cases "hwtype h \<noteq> LWIP_IANA_HWTYPE_ETHERNET \<or> hwlen h \<noteq> of_nat ETH_HWADDR_LEN \<or> protolen h \<noteq> 4 \<or> proto h \<noteq> ETHTYPE_IP E")
    case True
    then show ?thesis using h arp_step_free [OF arp_step_refl [OF inv]] by (simp add: etharp_input_def)
  next
    case False
    define st1 where "st1 = (if LWIP_AUTOIP E then emit [Autoip_arp_reply n b] st else st)"
    have s1: "arp_step E X (\<lambda>p. 0) st st1"
      using arp_step_emit [OF inv] arp_step_refl [OF inv] by (simp add: st1_def)
    define us where "us = (\<not> ip4_addr_isany E (ip_addr (nif E n)) \<and> ip4_addr_cmp E (dipaddr h) (ip_addr (nif E n)))"
    let ?flags = "if us then ETHARP_FLAG_TRY_HARD else ETHARP_FLAG_FIND_ONLY"
    have fl: "?flags AND ETHARP_FLAG_STATIC_ENTRY = 0"
      by (simp add: ETHARP_FLAG_TRY_HARD_def ETHARP_FLAG_FIND_ONLY_def ETHARP_FLAG_STATIC_ENTRY_def)
    obtain err st2 where st2: "etharp_update_arp_entry E n (sipaddr h) (shwaddr h) ?flags st1 = Some (err, st2)"
      "arp_step E (\<lambda>e. False) (\<lambda>p. 0) st1 st2"
      using update_ok [OF E arp_stepD [OF s1], where flags = ?flags and ip = "sipaddr h" and n = n and eth = "shwaddr h"] fl
      unfolding op_ok_def by auto
    have s2: "arp_step E X (\<lambda>p. 0) st1 st2" using st2(2) by (simp add: arp_step_def)
    obtain e evs where raw: "etharp_raw E n (hwaddr (nif E n)) (shwaddr h) (hwaddr (nif E n)) (ip_addr (nif E n)) (shwaddr h)
        (sipaddr h) ARP_REPLY st2 = Some (e, emit evs st2)" "\<And>X. arp_step E X (\<lambda>p. 0) st2 (emit evs st2)"
      using sendsE [OF etharp_raw_sends [OF E] arp_stepD [OF s2]] by metis
    define st3 where "st3 = (if opcode h = ARP_REQUEST then if us then emit evs st2 else st2
        else if opcode h = ARP_REPLY then if DHCP_DOES_ARP_CHECK E then emit [Dhcp_arp_reply n (sipaddr h)] st2 else st2
        else st2)"
    have s3: "arp_step E X (\<lambda>p. 0) st2 st3"
      using raw(2) arp_step_refl [OF arp_stepD [OF s2]] arp_step_emit [OF arp_stepD [OF s2]] by (simp add: st3_def)
    have "ARP_REPLY \<noteq> ARP_REQUEST" by (simp add: ARP_REPLY_def ARP_REQUEST_def)
    then have "etharp_input E ptr b n st = Some (emit [Pbuf_free ptr] st3)"
      using h False st2(1) raw(1) unfolding etharp_input_def st1_def us_def st3_def Let_def by simp
    then show ?thesis using arp_step_free [OF arp_step_trans0 [OF s1 arp_step_trans0 [OF s2 s3]]] by blast
  qed
qed

lemma dispatch_ok:
  assumes E: "stack_ok E" and inv: "arp_inv E st"
    and long: "type = ETHTYPE_ARP E \<longrightarrow> SIZEOF_ETHARP_HDR \<le> length (drop off (rx_bytes p))"
  shows "\<exists>st'. ethernet_dispatch E type off p n st = Some st' \<and> arp_step E X (given_back (rx_ptr p)) st st'"
proof -
  have hand: "arp_step E X (given_back (rx_ptr p)) st (emit [ev] st)" if "\<forall>q. balance1 q ev = - given_back (rx_ptr p) q" for ev
    using that by (intro arp_step_emit [OF inv]) simp
  then show ?thesis
    using input_ok [OF E inv, of "drop off (rx_bytes p)" "rx_ptr p" n X] long
    unfolding ethernet_dispatch_def Let_def by (auto simp: given_back_def split: option.split)
qed

text \<open>Frames may have any length, those that are dropped as too short included. Only an ARP frame has to
  have the length of an ARP packet behind its Ethernet header.\<close>

definition rx_ok :: "lwip_env \<Rightarrow> rx_pbuf \<Rightarrow> bool" where
  "rx_ok E p \<longleftrightarrow>
     (let b = rx_bytes p;
          type = load_be16 (drop (length (ETH_PAD E) + 12) b);
          vlan = (ETHARP_SUPPORT_VLAN E \<and> type = ETHTYPE_VLAN E);
          off = (if vlan then SIZEOF_ETH_HDR E + SIZEOF_VLAN_HDR else SIZEOF_ETH_HDR E);
          type = (if vlan then load_be16 (drop (SIZEOF_ETH_HDR E + 2) b) else type)
      in off < length b \<and> type = ETHTYPE_ARP E \<longrightarrow> off + SIZEOF_ETHARP_HDR \<le> length b)"

lemma ethernet_input_ok:
  assumes E: "stack_ok E" and inv: "arp_inv E st" and rx: "rx_ok E p"
  shows "\<exists>st'. ethernet_input E p n st = Some st' \<and> arp_step E X (given_back (rx_ptr p)) st st'"
proof -
  have free: "arp_step E X (given_back (rx_ptr p)) st (emit [Pbuf_free (rx_ptr p)] st)"
    by (rule arp_step_free [OF arp_step_refl [OF inv]])
  define b where "b = rx_bytes p"
  define p1 where "p1 = (if rx_if_idx p = 0 then p\<lparr>rx_if_idx := (num (nif E n) + 1) mod 256\<rparr> else p)"
  define type where "type = load_be16 (drop (length (ETH_PAD E) + 12) b)"
  define vlan where "vlan \<longleftrightarrow> ETHARP_SUPPORT_VLAN E \<and> type = ETHTYPE_VLAN E"
  define off where "off = (if vlan then SIZEOF_ETH_HDR E + SIZEOF_VLAN_HDR else SIZEOF_ETH_HDR E)"
  define type' where "type' = (if vlan then load_be16 (drop (SIZEOF_ETH_HDR E + 2) b) else type)"
  have p1: "rx_bytes p1 = b" "rx_ptr p1 = rx_ptr p" by (simp_all add: p1_def b_def)
  have disp: "\<exists>st'. ethernet_dispatch E type' off (p1\<lparr>rx_flags := fl\<rparr>) n' st = Some st' \<and> arp_step E X (given_back (rx_ptr p)) st st'"
    if "off < length b" for fl n'
  proof -
    have "type' = ETHTYPE_ARP E \<longrightarrow> off + SIZEOF_ETHARP_HDR \<le> length b"
      using rx that unfolding rx_ok_def Let_def b_def [symmetric] type_def [symmetric] vlan_def [symmetric]
        off_def [symmetric] type'_def [symmetric] by blast
    then have "type' = ETHTYPE_ARP E \<longrightarrow> SIZEOF_ETHARP_HDR \<le> length (drop off (rx_bytes (p1\<lparr>rx_flags := fl\<rparr>)))"
      by (auto simp: p1)
    from dispatch_ok [OF E inv this, of n' X] show ?thesis by (simp add: p1)
  qed
  show ?thesis
    unfolding ethernet_input_def Let_def b_def [symmetric] p1_def [symmetric] type_def [symmetric] vlan_def [symmetric]
      off_def [symmetric] type'_def [symmetric]
    using free disp by (auto simp: off_def split: if_splits)
qed

section \<open>Histories\<close>

text \<open>The operations of the module, with what a caller has to respect.\<close>

datatype arp_op =
    Op_tmr
  | Op_input rx_pbuf netif_ptr
  | Op_output netif_ptr pbuf ip4_addr
  | Op_query netif_ptr ip4_addr "pbuf option"
  | Op_request netif_ptr ip4_addr
  | Op_add_static ip4_addr eth_addr
  | Op_remove_static ip4_addr
  | Op_cleanup netif_ptr

fun arp_do :: "lwip_env \<Rightarrow> arp_op \<Rightarrow> arp \<Rightarrow> arp option" where
  "arp_do E Op_tmr st = etharp_tmr E st"
| "arp_do E (Op_input p n) st = ethernet_input E p n st"
| "arp_do E (Op_output n q ip) st = map_option snd (etharp_output E n q ip st)"
| "arp_do E (Op_query n ip q) st = map_option snd (etharp_query E n ip q st)"
| "arp_do E (Op_request n ip) st = map_option snd (etharp_request E n ip st)"
| "arp_do E (Op_add_static ip eth) st = map_option snd (etharp_add_static_entry E ip eth st)"
| "arp_do E (Op_remove_static ip) st = map_option snd (etharp_remove_static_entry E ip st)"
| "arp_do E (Op_cleanup n) st = Some (etharp_cleanup_netif E n st)"

fun op_valid :: "lwip_env \<Rightarrow> arp_op \<Rightarrow> bool" where
  "op_valid E (Op_input p n) = rx_ok E p"
| "op_valid E (Op_output n q ip) = single_packet q"
| "op_valid E (Op_query n ip q) = (case q of None \<Rightarrow> True | Some q \<Rightarrow> single_packet q)"
| "op_valid E _ = True"

text \<open>The reference that comes with a received buffer, and the static entries that an operation may
  change.\<close>

fun op_received :: "arp_op \<Rightarrow> nat \<Rightarrow> int" where
  "op_received (Op_input p n) = given_back (rx_ptr p)"
| "op_received _ = (\<lambda>p. 0)"

fun op_touches :: "arp_op \<Rightarrow> etharp_entry \<Rightarrow> bool" where
  "op_touches (Op_add_static ip eth) e = (ae_ipaddr e = ip)"
| "op_touches (Op_remove_static ip) e = (ae_ipaddr e = ip)"
| "op_touches (Op_cleanup n) e = (ae_netif e = Some n)"
| "op_touches _ e = False"

lemma op_touches_fun [simp]:
  "op_touches Op_tmr = (\<lambda>e. False)" "op_touches (Op_input p n) = (\<lambda>e. False)"
  "op_touches (Op_output n q ip) = (\<lambda>e. False)" "op_touches (Op_query n ip q') = (\<lambda>e. False)"
  "op_touches (Op_request n ip) = (\<lambda>e. False)" "op_touches (Op_add_static ip eth) = (\<lambda>e. ae_ipaddr e = ip)"
  "op_touches (Op_remove_static ip) = (\<lambda>e. ae_ipaddr e = ip)" "op_touches (Op_cleanup n) = (\<lambda>e. ae_netif e = Some n)"
  by (simp_all add: fun_eq_iff)

lemma op_ok_do: "op_ok E X d r st \<Longrightarrow> \<exists>st'. map_option snd r = Some st' \<and> arp_step E X d st st'"
  by (auto simp: op_ok_def)

lemma arp_do_step:
  assumes "stack_ok E" "arp_inv E st" "op_valid E op"
  shows "\<exists>st'. arp_do E op st = Some st' \<and> arp_step E (op_touches op) (op_received op) st st'"
proof (cases op)
  case Op_tmr
  then show ?thesis using tmr_ok [OF assms(1,2)] by simp
next
  case (Op_input p n)
  then show ?thesis using ethernet_input_ok [OF assms(1,2)] assms(3) by simp
next
  case (Op_output n q ip)
  then show ?thesis using op_ok_do [OF output_ok [OF assms(1,2)]] assms(3) by simp
next
  case (Op_query n ip q)
  then show ?thesis using op_ok_do [OF query_ok [OF assms(1,2), of q]] assms(3) by (simp split: option.splits)
next
  case (Op_request n ip)
  then show ?thesis using op_ok_do [OF op_ok_sends [OF etharp_request_sends(2) [OF assms(1)] assms(2)]] by simp
next
  case (Op_add_static ip eth)
  then show ?thesis using op_ok_do [OF add_static_ok [OF assms(1,2)], of ip eth] by simp
next
  case (Op_remove_static ip)
  then show ?thesis using op_ok_do [OF remove_static_ok [OF stack_env(1) [OF assms(1)] assms(2)], of ip] by simp
next
  case (Op_cleanup n)
  then show ?thesis using cleanup_ok [OF assms(2), of n] by simp
qed

text \<open>For the ARP cache the quantity is what the trace owes to the queues.\<close>

interpretation arp_machine: conserving_machine "arp_do E" "\<lambda>op st. op_valid E op" "\<lambda>st. stack_ok E \<and> arp_inv E st"
    "\<lambda>st p. balance (trace st) p - held st p" op_received for E
proof
  fix st op assume "stack_ok E \<and> arp_inv E st" "op_valid E op"
  then obtain st' where "arp_do E op st = Some st'" "arp_step E (op_touches op) (op_received op) st st'"
    using arp_do_step by blast
  then show "\<exists>st'. arp_do E op st = Some st' \<and> (stack_ok E \<and> arp_inv E st')
      \<and> (\<forall>p. balance (trace st') p - held st' p = balance (trace st) p - held st p - op_received op p)"
    using \<open>stack_ok E \<and> arp_inv E st\<close> by (auto simp: arp_step_def algebra_simps)
qed

lemma arp_inv_init: "stack_ok E \<Longrightarrow> arp_inv E (etharp_init E hints)"
  by (simp add: arp_inv_def etharp_init_def stack_ok_def entry_ok_def queue_fits_def table_unique_def nonempty_def)

lemma held_init: "held (etharp_init E hints) p = 0"
  by (simp add: held_def etharp_init_def sum_list_replicate)

end
