(* ===== verification/Lwip_Etharp_Resolve.thy ===== *)
theory Lwip_Etharp_Resolve
  imports Lwip_Etharp_Inv
begin

text \<open>
  What the ARP cache does over time and between hosts. The timer as a function on entries and the
  time after which an entry is gone; frames as another host reads them, which may have the other
  byte order; how a query on one host, the answer of another and its arrival resolve an address;
  and the properties of ARP, with a network of hosts as their instance.
\<close>

section \<open>What a tick does to the table\<close>

definition age_limit :: "lwip_env \<Rightarrow> etharp_entry \<Rightarrow> nat" where
  "age_limit E e = (if ae_state e = ETHARP_STATE_PENDING then min ARP_MAXPENDING (ARP_MAXAGE E) else ARP_MAXAGE E)"

definition aging :: "lwip_env \<Rightarrow> etharp_entry \<Rightarrow> bool" where
  "aging E e \<longleftrightarrow> ae_state e \<noteq> ETHARP_STATE_EMPTY \<and> (ETHARP_SUPPORT_STATIC_ENTRIES E \<longrightarrow> ae_state e \<noteq> ETHARP_STATE_STATIC)"

definition next_state :: "etharp_state \<Rightarrow> etharp_state" where
  "next_state s = (if s = ETHARP_STATE_STABLE_REREQUESTING_1 then ETHARP_STATE_STABLE_REREQUESTING_2
     else if s = ETHARP_STATE_STABLE_REREQUESTING_2 then ETHARP_STATE_STABLE else s)"

definition emptied :: "lwip_env \<Rightarrow> etharp_entry \<Rightarrow> etharp_entry" where
  "emptied E e = (let e = e\<lparr>ae_q := [], ae_state := ETHARP_STATE_EMPTY\<rparr> in
     if LWIP_DEBUG E then e\<lparr>ae_ctime := 0, ae_netif := None, ae_ipaddr := 0, ae_ethaddr := ethzero\<rparr> else e)"

definition aged :: "lwip_env \<Rightarrow> etharp_entry \<Rightarrow> etharp_entry" where
  "aged E e =
     (if \<not> aging E e then e
      else if age_limit E e \<le> unat (ae_ctime e + 1) then emptied E (e\<lparr>ae_ctime := ae_ctime e + 1\<rparr>)
      else e\<lparr>ae_ctime := ae_ctime e + 1, ae_state := next_state (ae_state e)\<rparr>)"

lemma free_entry_table:
  "arp_table (etharp_free_entry E i st) = (arp_table st)[i := emptied E (arp_table st ! i)]"
  by (simp add: etharp_free_entry_def emptied_def Let_def set_entry_def emit_def)

lemma sends_table: "sends r st \<Longrightarrow> \<exists>err st'. r = Some (err, st') \<and> arp_table st' = arp_table st"
  by (auto simp: sends_def)

lemma tmr_entry_table:
  assumes E: "stack_ok E" and inv: "arp_inv E st" and i: "i < ARP_TABLE_SIZE E" and r: "tmr_entry E i st = Some st'"
  shows "arp_table st' = (arp_table st)[i := aged E (arp_table st ! i)]"
proof -
  let ?e = "arp_table st ! i"
  let ?e1 = "?e\<lparr>ae_ctime := ae_ctime ?e + 1\<rparr>"
  have len: "i < length (arp_table st)" using inv i by (simp add: arp_inv_def)
  consider (still) "\<not> aging E ?e" | (old) "aging E ?e" "age_limit E ?e \<le> unat (ae_ctime ?e + 1)"
    | (pending) "aging E ?e" "\<not> age_limit E ?e \<le> unat (ae_ctime ?e + 1)" "ae_state ?e = ETHARP_STATE_PENDING"
    | (other) "aging E ?e" "\<not> age_limit E ?e \<le> unat (ae_ctime ?e + 1)" "ae_state ?e \<noteq> ETHARP_STATE_PENDING"
    by blast
  then show ?thesis
  proof cases
    case still
    then have "tmr_entry E i st = Some st" by (simp only: tmr_entry_def Let_def aging_def if_False)
    then show ?thesis using r still by (simp add: aged_def)
  next
    case old
    then have "unat (ae_ctime ?e1) \<ge> ARP_MAXAGE E \<or> (ae_state ?e1 = ETHARP_STATE_PENDING \<and> unat (ae_ctime ?e1) \<ge> ARP_MAXPENDING)"
      by (auto simp: age_limit_def split: if_splits)
    then have "tmr_entry E i st = Some (etharp_free_entry E i (set_entry i ?e1 st))"
      using old(1) unfolding tmr_entry_def Let_def aging_def [symmetric] by (simp only: if_True simp_thms)
    then show ?thesis using r old len by (simp add: aged_def free_entry_table set_entry_def)
  next
    case pending
    then obtain n where n: "ae_netif ?e = Some n" using arp_inv_entry [OF inv i] by (auto simp: entry_ok_def)
    obtain err st1 where st1: "etharp_request E n (ae_ipaddr ?e) (set_entry i ?e1 st) = Some (err, st1)"
      "arp_table st1 = arp_table (set_entry i ?e1 st)"
      using sends_table [OF etharp_request_sends(2) [OF E]] by metis
    have "\<not> ARP_MAXAGE E \<le> unat (ae_ctime ?e + 1)" "\<not> ARP_MAXPENDING \<le> unat (ae_ctime ?e + 1)"
      using pending by (simp_all add: age_limit_def)
    then have "tmr_entry E i st = Some st1" using pending(3) n st1(1) by (simp add: tmr_entry_def Let_def)
    moreover have "aged E ?e = ?e1" using pending by (simp add: aged_def next_state_def)
    ultimately show ?thesis using r st1(2) by (simp add: set_entry_def)
  next
    case other
    then show ?thesis
      using r by (auto simp: tmr_entry_def Let_def aged_def next_state_def age_limit_def aging_def set_entry_def)
  qed
qed

lemma tmr_loop_table:
  assumes "stack_ok E"
  shows "arp_inv E st \<Longrightarrow> k \<le> ARP_TABLE_SIZE E \<Longrightarrow> tmr_loop E [k..<ARP_TABLE_SIZE E] st = Some st' \<Longrightarrow>
    arp_table st' = take k (arp_table st) @ map (aged E) (drop k (arp_table st))"
proof (induction "ARP_TABLE_SIZE E - k" arbitrary: k st)
  case 0
  then show ?case by (simp add: arp_inv_def)
next
  case (Suc m)
  then have k: "k < ARP_TABLE_SIZE E" and len: "length (arp_table st) = ARP_TABLE_SIZE E" by (auto simp: arp_inv_def)
  obtain st1 where st1: "tmr_entry E k st = Some st1" "arp_inv E st1"
    using tmr_entry_ok [OF assms Suc.prems(1) k] arp_stepD by blast
  have rest: "tmr_loop E [Suc k..<ARP_TABLE_SIZE E] st1 = Some st'" using Suc.prems(3) k st1(1) by (simp add: upt_rec [of k])
  have "arp_table st1 = (arp_table st)[k := aged E (arp_table st ! k)]"
    by (rule tmr_entry_table [OF assms Suc.prems(1) k st1(1)])
  then show ?case
    using Suc.hyps(1) [OF _ st1(2) _ rest] Suc.hyps(2) k len
    by (simp add: take_Suc_conv_app_nth Cons_nth_drop_Suc [symmetric])
qed

lemma tmr_table: "stack_ok E \<Longrightarrow> arp_inv E st \<Longrightarrow> etharp_tmr E st = Some st' \<Longrightarrow> arp_table st' = map (aged E) (arp_table st)"
  using tmr_loop_table [of E st 0 st'] by (simp add: etharp_tmr_def)

lemma ticks_table:
  "stack_ok E \<Longrightarrow> arp_inv E st \<Longrightarrow>
   \<exists>st'. run_ops (arp_do E) (replicate k Op_tmr) st = Some st' \<and> arp_table st' = map (aged E ^^ k) (arp_table st)"
proof (induction k arbitrary: st)
  case (Suc k)
  then obtain st1 where st1: "etharp_tmr E st = Some st1" "arp_inv E st1" using tmr_ok arp_stepD by blast
  then have "arp_table st1 = map (aged E) (arp_table st)" using tmr_table Suc.prems by blast
  moreover obtain st' where "run_ops (arp_do E) (replicate k Op_tmr) st1 = Some st'" "arp_table st' = map (aged E ^^ k) (arp_table st1)"
    using Suc.IH [OF Suc.prems(1) st1(2)] by blast
  ultimately show ?case using st1(1) by (simp add: funpow_swap1)
qed simp

lemma aged_empty: "ae_state e = ETHARP_STATE_EMPTY \<Longrightarrow> (aged E ^^ k) e = e"
  by (induction k) (simp_all add: aged_def aging_def)

lemma aged_static: "ae_state e = ETHARP_STATE_STATIC \<Longrightarrow> ETHARP_SUPPORT_STATIC_ENTRIES E \<Longrightarrow> (aged E ^^ k) e = e"
  by (induction k) (simp_all add: aged_def aging_def)

lemma aged_pow:
  assumes "stack_ok E"
  shows "aging E e \<Longrightarrow> unat (ae_ctime e) < age_limit E e \<Longrightarrow>
    (if age_limit E e \<le> unat (ae_ctime e) + k then ae_state ((aged E ^^ k) e) = ETHARP_STATE_EMPTY
     else ae_state ((aged E ^^ k) e) \<noteq> ETHARP_STATE_EMPTY \<and> ae_ipaddr ((aged E ^^ k) e) = ae_ipaddr e
          \<and> ae_ethaddr ((aged E ^^ k) e) = ae_ethaddr e \<and> unat (ae_ctime ((aged E ^^ k) e)) = unat (ae_ctime e) + k)"
proof (induction k arbitrary: e)
  case 0
  then show ?case by (simp add: aging_def)
next
  case (Suc k)
  have "age_limit E e \<le> ARP_MAXAGE E" by (simp add: age_limit_def)
  then have c: "unat (ae_ctime e + 1) = unat (ae_ctime e) + 1" using Suc.prems(2) unat_ctime_Suc [OF assms] by simp
  show ?case
  proof (cases "age_limit E e \<le> unat (ae_ctime e + 1)")
    case True
    then have "ae_state (aged E e) = ETHARP_STATE_EMPTY" using Suc.prems by (simp add: aged_def emptied_def Let_def)
    then show ?thesis using aged_empty [where e = "aged E e"] True c by (simp add: funpow_swap1)
  next
    case False
    let ?e = "e\<lparr>ae_ctime := ae_ctime e + 1, ae_state := next_state (ae_state e)\<rparr>"
    have "aged E e = ?e" using Suc.prems False by (simp add: aged_def)
    moreover have "aging E ?e" "age_limit E ?e = age_limit E e"
      using Suc.prems(1) by (auto simp: aging_def age_limit_def next_state_def)
    ultimately show ?thesis using Suc.IH [of ?e] False c by (simp add: funpow_swap1)
  qed
qed

section \<open>Frames on the wire\<close>

lemma load_be16_be16: "load_be16 (be16 w @ xs) = w"
  unfolding load_be16_def be16_def by (rule bit_word_eqI) (auto simp: bit_simps nth_append)

lemma length_be16 [simp]: "length (be16 w) = 2"
  by (simp add: be16_def)

text \<open>An address in the byte order of another host.\<close>

definition rehost :: "lwip_env \<Rightarrow> lwip_env \<Rightarrow> ip4_addr \<Rightarrow> ip4_addr" where
  "rehost E E' a = lp_htonl (port E') (lp_htonl (port E) a)"

lemma env_port:
  "env_ok E \<Longrightarrow> lp_htonl (port E) (lp_htonl (port E) a) = a" "env_ok E \<Longrightarrow> lp_mem (port E) (lp_htonl (port E) a) = be_bytes a"
  "env_ok E \<Longrightarrow> ip4_load E (lp_mem (port E) a) = a"
  by (simp_all add: env_ok_def port_ok_def)

lemma rehost_mem: "env_ok E \<Longrightarrow> env_ok E' \<Longrightarrow> lp_mem (port E') (rehost E E' a) = lp_mem (port E) a"
  using env_port(2) [of E "lp_htonl (port E) a"] by (simp add: rehost_def env_port)

lemma rehost_load: "env_ok E \<Longrightarrow> env_ok E' \<Longrightarrow> ip4_load E' (lp_mem (port E) a) = rehost E E' a"
  using rehost_mem [of E E' a] env_port(3) [of E' "rehost E E' a"] by simp

lemma rehost_back: "env_ok E \<Longrightarrow> env_ok E' \<Longrightarrow> rehost E' E (rehost E E' a) = a"
  by (simp add: rehost_def env_ok_def port_ok_def)

lemma length_mem: "env_ok E \<Longrightarrow> length (lp_mem (port E) a) = 4"
  by (simp add: env_ok_def)

text \<open>What another host reads from an ARP packet.\<close>

definition hdr_at :: "lwip_env \<Rightarrow> lwip_env \<Rightarrow> etharp_hdr \<Rightarrow> etharp_hdr" where
  "hdr_at E E' h = h\<lparr>sipaddr := rehost E E' (sipaddr h), dipaddr := rehost E E' (dipaddr h)\<rparr>"

definition hdr_ok :: "etharp_hdr \<Rightarrow> bool" where
  "hdr_ok h \<longleftrightarrow> length (shwaddr h) = ETH_HWADDR_LEN \<and> length (dhwaddr h) = ETH_HWADDR_LEN"

lemma hdr_length: "env_ok E \<Longrightarrow> hdr_ok h \<Longrightarrow> length (etharp_hdr_bytes E h) = SIZEOF_ETHARP_HDR"
  by (simp add: etharp_hdr_bytes_def hdr_ok_def length_mem ETH_HWADDR_LEN_def SIZEOF_ETHARP_HDR_def)

lemma drop_two: "drop 2 (be16 w @ xs) = xs" "drop (Suc (Suc n)) (be16 w @ xs) = drop n xs"
  by (simp_all add: be16_def)

lemma hdr_roundtrip:
  assumes E: "env_ok E" "env_ok E'" and h: "hdr_ok h"
  shows "load_etharp_hdr E' (etharp_hdr_bytes E h @ rest) = Some (hdr_at E E' h)"
proof -
  let ?b = "etharp_hdr_bytes E h @ rest"
  let ?s = "lp_mem (port E) (sipaddr h)" and ?d = "lp_mem (port E) (dipaddr h)"
  have len: "length ?s = 4" "length ?d = 4" using E(1) by (simp_all add: length_mem)
  have hw: "length (shwaddr h) = 6" "length (dhwaddr h) = 6" using h by (simp_all add: hdr_ok_def ETH_HWADDR_LEN_def)
  have d8: "drop 8 ?b = shwaddr h @ ?s @ dhwaddr h @ ?d @ rest"
    by (simp add: etharp_hdr_bytes_def be16_def eval_nat_numeral)
  have "drop (6 + 8) ?b = ?s @ dhwaddr h @ ?d @ rest" unfolding drop_drop [symmetric] d8 using hw(1) by simp
  then have d14: "drop 14 ?b = ?s @ dhwaddr h @ ?d @ rest" by simp
  have "drop (4 + 14) ?b = dhwaddr h @ ?d @ rest" unfolding drop_drop [symmetric] d14 using len(1) by simp
  then have d18: "drop 18 ?b = dhwaddr h @ ?d @ rest" by simp
  have "drop (6 + 18) ?b = ?d @ rest" unfolding drop_drop [symmetric] d18 using hw(2) by simp
  then have d24: "drop 24 ?b = ?d @ rest" by simp
  have f: "load_be16 ?b = hwtype h" "load_be16 (drop 2 ?b) = proto h" "?b ! 4 = hwlen h" "?b ! 5 = protolen h"
    "load_be16 (drop 6 ?b) = opcode h"
    using load_be16_be16 [of "hwtype h"] load_be16_be16 [of "proto h"] load_be16_be16 [of "opcode h"]
    by (simp_all add: etharp_hdr_bytes_def be16_def eval_nat_numeral)
  have "\<not> length ?b < SIZEOF_ETHARP_HDR" using hdr_length [OF E(1) h] by simp
  then show ?thesis
    using f d8 d14 d18 d24 hw len rehost_load [OF E]
    by (simp add: load_etharp_hdr_def hdr_at_def)
qed

text \<open>An interface that works: buffers are there, and the frame goes out as it is.\<close>

definition link_up :: "lwip_env \<Rightarrow> netif_ptr \<Rightarrow> bool" where
  "link_up E n \<longleftrightarrow> stack_ok E \<and> LWIP_IPV4 E \<and> LWIP_ARP E \<and> \<not> LWIP_AUTOIP E
     \<and> LWIP_HOOK_VLAN_SET E = None \<and> LWIP_ARP_FILTER_NETIF_FN E = None
     \<and> nif_flags (nif E n) AND NETIF_FLAG_ETHARP \<noteq> 0 \<and> length (hwaddr (nif E n)) = ETH_HWADDR_LEN
     \<and> (\<forall>tr. pbuf_alloc E tr \<noteq> None \<and> pbuf_add_header E tr \<and> pbuf_remove_header E tr \<and> memp_malloc E tr)"

lemma link_upD:
  assumes "link_up E n"
  shows "stack_ok E" "env_ok E" "length (hwaddr (nif E n)) = ETH_HWADDR_LEN"
  using assms by (simp_all add: link_up_def stack_ok_def)

lemma eth_out_exact:
  "link_up E n \<Longrightarrow> eth_out E n p b src dst ty st =
     Some (linkoutput E (trace st), emit [Link_output n (eth_hdr_bytes E dst src ty @ b)] st)"
  by (simp add: link_up_def stack_ok_def eth_out_def ethernet_output_def emit_def)

definition arp_frame :: "lwip_env \<Rightarrow> eth_addr \<Rightarrow> eth_addr \<Rightarrow> 16 word \<Rightarrow> eth_addr \<Rightarrow> ip4_addr \<Rightarrow> eth_addr \<Rightarrow> ip4_addr \<Rightarrow> byte list" where
  "arp_frame E src dst op shw sip dhw dip = eth_hdr_bytes E dst src (ETHTYPE_ARP E) @
     etharp_hdr_bytes E \<lparr>hwtype = LWIP_IANA_HWTYPE_ETHERNET, proto = ETHTYPE_IP E, hwlen = of_nat ETH_HWADDR_LEN,
       protolen = 4, opcode = op, shwaddr = shw, sipaddr = sip, dhwaddr = dhw, dipaddr = dip\<rparr>"

lemma etharp_raw_exact:
  assumes "link_up E n"
  shows "\<exists>p. etharp_raw E n src dst shw sip dhw dip op st =
     Some (ERR_OK, emit [Pbuf_new p, Link_output n (arp_frame E src dst op shw sip dhw dip), Pbuf_free p] st)"
proof -
  obtain p where "pbuf_alloc E (trace st) = Some p" using assms unfolding link_up_def by blast
  then show ?thesis
    using assms stack_env(2) [OF link_upD(1) [OF assms]] eth_out_exact [OF assms]
    by (intro exI [of _ p]) (simp add: etharp_raw_def Let_def link_up_def arp_frame_def)
qed

fun sent_packets :: "lwip_env \<Rightarrow> netif_ptr \<Rightarrow> eth_addr \<Rightarrow> pbuf list \<Rightarrow> effect list" where
  "sent_packets E n dst [] = []"
| "sent_packets E n dst (p # q) =
     Link_output n (eth_hdr_bytes E dst (hwaddr (nif E n)) (ETHTYPE_IP E) @ pb_bytes p) # Pbuf_free (pb_ptr p)
     # sent_packets E n dst q"

lemma send_queue_exact: "link_up E n \<Longrightarrow> send_queue E n dst q st = Some (emit (sent_packets E n dst q) st)"
  by (induction q arbitrary: st) (simp_all add: eth_out_exact)

text \<open>A frame that was sent by one host arrives at another: the padding in front of it is the
  receiver's, and there may be padding behind it.\<close>

definition arrives :: "lwip_env \<Rightarrow> byte list \<Rightarrow> lwip_env \<Rightarrow> rx_pbuf \<Rightarrow> bool" where
  "arrives E F E' p \<longleftrightarrow> length (ETH_PAD E') \<le> length (rx_bytes p)
     \<and> (\<exists>rest. drop (length (ETH_PAD E')) (rx_bytes p) = drop (length (ETH_PAD E)) F @ rest)"

text \<open>The hosts use the same numbers on the wire.\<close>

definition same_wire :: "lwip_env \<Rightarrow> lwip_env \<Rightarrow> bool" where
  "same_wire E E' \<longleftrightarrow> ETHTYPE_ARP E' = ETHTYPE_ARP E \<and> ETHTYPE_IP E' = ETHTYPE_IP E"

lemma arp_frame_arrives:
  assumes up: "link_up E' n" and E: "env_ok E" and wire: "same_wire E E'"
    and len: "length src = ETH_HWADDR_LEN" "length dst = ETH_HWADDR_LEN" and h: "length shw = ETH_HWADDR_LEN" "length dhw = ETH_HWADDR_LEN"
    and arr: "arrives E (arp_frame E src dst op shw sip dhw dip) E' p"
  shows "\<exists>b. ethernet_input E' p n st = etharp_input E' (rx_ptr p) b n st
     \<and> load_etharp_hdr E' b = Some \<lparr>hwtype = LWIP_IANA_HWTYPE_ETHERNET, proto = ETHTYPE_IP E', hwlen = of_nat ETH_HWADDR_LEN,
       protolen = 4, opcode = op, shwaddr = shw, sipaddr = rehost E E' sip, dhwaddr = dhw, dipaddr = rehost E E' dip\<rparr>"
proof -
  let ?h = "\<lparr>hwtype = LWIP_IANA_HWTYPE_ETHERNET, proto = ETHTYPE_IP E, hwlen = of_nat ETH_HWADDR_LEN,
       protolen = 4, opcode = op, shwaddr = shw, sipaddr = sip, dhwaddr = dhw, dipaddr = dip\<rparr>"
  let ?pad = "length (ETH_PAD E')"
  obtain rest where rest: "drop ?pad (rx_bytes p) = dst @ src @ be16 (ETHTYPE_ARP E') @ etharp_hdr_bytes E ?h @ rest"
    using arr wire by (auto simp: arrives_def arp_frame_def eth_hdr_bytes_def same_wire_def)
  let ?b = "etharp_hdr_bytes E ?h @ rest"
  have six: "length dst = 6" "length src = 6" using len by (simp_all add: ETH_HWADDR_LEN_def)
  have "drop (12 + ?pad) (rx_bytes p) = be16 (ETHTYPE_ARP E') @ ?b"
    unfolding drop_drop [symmetric] rest using six by simp
  then have d12: "drop (?pad + 12) (rx_bytes p) = be16 (ETHTYPE_ARP E') @ ?b" by (simp add: add.commute)
  have "drop (14 + ?pad) (rx_bytes p) = ?b" unfolding drop_drop [symmetric] rest using six by (simp add: drop_two)
  then have d14: "drop (SIZEOF_ETH_HDR E') (rx_bytes p) = ?b" by (simp add: SIZEOF_ETH_HDR_def)
  have "hdr_ok ?h" using h by (simp add: hdr_ok_def)
  note hdr = hdr_roundtrip [OF E link_upD(2) [OF up] this] hdr_length [OF E this]
  have "?b \<noteq> []" using hdr(2) by (auto simp: SIZEOF_ETHARP_HDR_def)
  then have long: "\<not> length (rx_bytes p) \<le> SIZEOF_ETH_HDR E'" using d14 by fastforce
  have types: "ETHTYPE_ARP E' \<noteq> ETHTYPE_VLAN E'" "ETHTYPE_ARP E' \<noteq> ETHTYPE_IP E'"
    using link_upD(2) [OF up] by (auto simp: env_ok_def)
  have ty: "load_be16 (drop (?pad + 12) (rx_bytes p)) = ETHTYPE_ARP E'" unfolding d12 by (rule load_be16_be16)
  have "ethernet_input E' p n st = etharp_input E' (rx_ptr p) ?b n st"
    using up long types ty d14 by (simp add: ethernet_input_def Let_def ethernet_dispatch_def link_up_def)
  moreover have "load_etharp_hdr E' ?b = Some \<lparr>hwtype = LWIP_IANA_HWTYPE_ETHERNET, proto = ETHTYPE_IP E', hwlen = of_nat ETH_HWADDR_LEN,
       protolen = 4, opcode = op, shwaddr = shw, sipaddr = rehost E E' sip, dhwaddr = dhw, dipaddr = rehost E E' dip\<rparr>"
    using hdr(1) wire by (simp add: hdr_at_def same_wire_def)
  ultimately show ?thesis by blast
qed

section \<open>Resolving an address\<close>

definition unicast :: "lwip_env \<Rightarrow> netif_ptr \<Rightarrow> ip4_addr \<Rightarrow> bool" where
  "unicast E n ip \<longleftrightarrow> \<not> ip4_addr_isany E ip \<and> \<not> ip4_addr_isbroadcast E ip (nif E n) \<and> \<not> ip4_addr_ismulticast E ip"

lemma find_entry_unique:
  assumes "env_ok E" "arp_inv E st" "i < ARP_TABLE_SIZE E" "nonempty (arp_table st ! i)" "entry_matches E ip (Some n) (arp_table st ! i)"
  shows "etharp_find_entry E ip flags (Some n) st = Some (Some i, st)"
  using assms(2)
proof (cases rule: find_entry_cases [where ip = ip and flags = flags and n = "Some n"])
  case (found j)
  then have "entry_key E (arp_table st ! j) = entry_key E (arp_table st ! i)"
    using match_key [OF assms(1)] assms(5) by metis
  then have "i = j"
    using assms(2-4) found(2,3) unfolding arp_inv_def table_unique_def by metis
  then show ?thesis using found(1) by simp
next
  case none
  then show ?thesis using assms(2-5) unfolding arp_inv_def by (metis nth_mem)
next
  case (created j st')
  then show ?thesis using assms(2-5) unfolding arp_inv_def created_def by (metis nth_mem)
qed

text \<open>The reply: the packets that wait go out in their order, and the entry is stable.\<close>

lemma update_delivers:
  assumes up: "link_up E n" and inv: "arp_inv E st" and i: "i < ARP_TABLE_SIZE E" and uni: "unicast E n ip"
    and e: "nonempty (arp_table st ! i)" "ae_state (arp_table st ! i) \<noteq> ETHARP_STATE_STATIC" "entry_matches E ip (Some n) (arp_table st ! i)"
    and fl: "flags AND ETHARP_FLAG_STATIC_ENTRY = 0" and hw: "length hw = ETH_HWADDR_LEN"
  shows "etharp_update_arp_entry E n ip hw flags st = Some (ERR_OK, emit (sent_packets E n hw (ae_q (arp_table st ! i)))
     (set_entry i ((arp_table st ! i)\<lparr>ae_state := ETHARP_STATE_STABLE, ae_netif := Some n, ae_ethaddr := hw, ae_ctime := 0, ae_q := []\<rparr>) st))"
  using uni e(2) fl hw stack_env(2) [OF link_upD(1) [OF up]] send_queue_exact [OF up]
    find_entry_unique [OF link_upD(2) [OF up] inv i e(1,3)]
  by (simp add: etharp_update_arp_entry_def unicast_def Let_def)

lemma find_addr_stable:
  assumes "env_ok E" "arp_inv E st" "i < ARP_TABLE_SIZE E" "ge_stable (ae_state (arp_table st ! i))" "entry_matches E ip (Some n) (arp_table st ! i)"
  shows "etharp_find_addr E (Some n) ip st = Some (Some (i, ae_ethaddr (arp_table st ! i), ip))"
proof -
  have "nonempty (arp_table st ! i)" using assms(4) by (simp add: ge_stable_def nonempty_def)
  moreover have "ae_ipaddr (arp_table st ! i) = ip" using assms(1,5) by (auto simp: entry_matches_def env_ok_def)
  ultimately show ?thesis
    using find_entry_unique [OF assms(1-3) _ assms(5)] assms(4) by (simp add: etharp_find_addr_def)
qed

lemma input_update:
  assumes "link_up E n" "load_etharp_hdr E b = Some h" "hwtype h = LWIP_IANA_HWTYPE_ETHERNET" "hwlen h = of_nat ETH_HWADDR_LEN"
    "protolen h = 4" "proto h = ETHTYPE_IP E"
    "etharp_update_arp_entry E n (sipaddr h) (shwaddr h) (if \<not> ip4_addr_isany E (ip_addr (nif E n)) \<and> dipaddr h = ip_addr (nif E n)
       then ETHARP_FLAG_TRY_HARD else ETHARP_FLAG_FIND_ONLY) st = Some (err, st1)"
  shows "opcode h = ARP_REPLY \<Longrightarrow> etharp_input E p b n st =
      Some (emit ((if DHCP_DOES_ARP_CHECK E then [Dhcp_arp_reply n (sipaddr h)] else []) @ [Pbuf_free p]) st1)"
    and "opcode h = ARP_REQUEST \<Longrightarrow> \<not> ip4_addr_isany E (ip_addr (nif E n)) \<Longrightarrow> dipaddr h = ip_addr (nif E n) \<Longrightarrow>
      etharp_input E p b n st = map_option (\<lambda>(err, st). emit [Pbuf_free p] st) (etharp_raw E n (hwaddr (nif E n)) (shwaddr h)
        (hwaddr (nif E n)) (ip_addr (nif E n)) (shwaddr h) (sipaddr h) ARP_REPLY st1)"
proof -
  have cmp: "ip4_addr_cmp E = (=)" and auto: "\<not> LWIP_AUTOIP E" and ne: "ARP_REPLY \<noteq> ARP_REQUEST"
    using link_upD(2) [OF assms(1)] assms(1) by (auto simp: env_ok_def link_up_def ARP_REPLY_def ARP_REQUEST_def fun_eq_iff)
  show "opcode h = ARP_REPLY \<Longrightarrow> etharp_input E p b n st =
      Some (emit ((if DHCP_DOES_ARP_CHECK E then [Dhcp_arp_reply n (sipaddr h)] else []) @ [Pbuf_free p]) st1)"
    using assms(2-7) auto ne unfolding etharp_input_def cmp Let_def by simp
  assume *: "opcode h = ARP_REQUEST" "\<not> ip4_addr_isany E (ip_addr (nif E n))" "dipaddr h = ip_addr (nif E n)"
  show "etharp_input E p b n st = map_option (\<lambda>(err, st). emit [Pbuf_free p] st) (etharp_raw E n (hwaddr (nif E n)) (shwaddr h)
        (hwaddr (nif E n)) (ip_addr (nif E n)) (shwaddr h) (sipaddr h) ARP_REPLY st1)"
    using assms(2-7) auto ne * unfolding etharp_input_def cmp Let_def
    by (cases "etharp_raw E n (hwaddr (nif E n)) (shwaddr h) (hwaddr (nif E n)) (ip_addr (nif E n)) (shwaddr h) (sipaddr h) ARP_REPLY st1")
      auto
qed

lemma reply_delivers:
  assumes up: "link_up E n" and E': "env_ok E'" and wire: "same_wire E' E" and inv: "arp_inv E st"
    and i: "i < ARP_TABLE_SIZE E" and uni: "unicast E n ip"
    and e: "nonempty (arp_table st ! i)" "ae_state (arp_table st ! i) \<noteq> ETHARP_STATE_STATIC" "entry_matches E ip (Some n) (arp_table st ! i)"
    and hw: "length hw = ETH_HWADDR_LEN" and sip: "rehost E' E sip = ip"
    and arr: "arrives E' (arp_frame E' hw (hwaddr (nif E n)) ARP_REPLY hw sip (hwaddr (nif E n)) dip) E r"
  shows "\<exists>st' evs. ethernet_input E r n st = Some st' \<and> trace st' = trace st @ sent_packets E n hw (ae_q (arp_table st ! i)) @ evs
     \<and> (\<forall>m F. Link_output m F \<notin> set evs) \<and> etharp_find_addr E (Some n) ip st' = Some (Some (i, hw, ip))"
proof -
  let ?e = "(arp_table st ! i)\<lparr>ae_state := ETHARP_STATE_STABLE, ae_netif := Some n, ae_ethaddr := hw, ae_ctime := 0, ae_q := []\<rparr>"
  define st1 where "st1 = emit (sent_packets E n hw (ae_q (arp_table st ! i))) (set_entry i ?e st)"
  define evs where "evs = (if DHCP_DOES_ARP_CHECK E then [Dhcp_arp_reply n ip] else []) @ [Pbuf_free (rx_ptr r)]"
  let ?fl = "\<lambda>c. if c then ETHARP_FLAG_TRY_HARD else ETHARP_FLAG_FIND_ONLY"
  have fl: "?fl c AND ETHARP_FLAG_STATIC_ENTRY = 0" for c
    by (simp add: ETHARP_FLAG_TRY_HARD_def ETHARP_FLAG_FIND_ONLY_def ETHARP_FLAG_STATIC_ENTRY_def)
  have upd: "etharp_update_arp_entry E n ip hw (?fl c) st = Some (ERR_OK, st1)" for c
    unfolding st1_def by (rule update_delivers [OF up inv i uni e fl hw])
  have inv1: "arp_inv E st1"
    using update_ok [OF link_upD(1) [OF up] inv, of "?fl True" ip n hw] upd [of True] unfolding op_ok_def by (auto dest: arp_stepD)
  obtain b where b: "ethernet_input E r n st = etharp_input E (rx_ptr r) b n st"
    "load_etharp_hdr E b = Some \<lparr>hwtype = LWIP_IANA_HWTYPE_ETHERNET, proto = ETHTYPE_IP E, hwlen = of_nat ETH_HWADDR_LEN,
       protolen = 4, opcode = ARP_REPLY, shwaddr = hw, sipaddr = ip, dhwaddr = hwaddr (nif E n), dipaddr = rehost E' E dip\<rparr>"
    using arp_frame_arrives [OF up E' wire hw link_upD(3) [OF up] hw link_upD(3) [OF up] arr, of st] sip by blast
  have "ethernet_input E r n st = Some (emit evs st1)"
    unfolding b(1) evs_def using input_update(1) [OF up b(2), of st ERR_OK st1] upd by simp
  moreover have "arp_table (emit evs st1) ! i = ?e" using nth_set_entry [OF inv i] by (simp add: st1_def)
  moreover from this have "entry_matches E ip (Some n) (arp_table (emit evs st1) ! i)" using e(3) by (simp add: entry_matches_def)
  ultimately have "ethernet_input E r n st = Some (emit evs st1)" "etharp_find_addr E (Some n) ip (emit evs st1) = Some (Some (i, hw, ip))"
    using find_addr_stable [OF link_upD(2) [OF up], of "emit evs st1" i ip n] inv1 i by (simp_all add: ge_stable_def)
  moreover have "trace (emit evs st1) = trace st @ sent_packets E n hw (ae_q (arp_table st ! i)) @ evs"
    by (simp add: st1_def emit_def set_entry_def)
  moreover have "\<forall>m F. Link_output m F \<notin> set evs" by (auto simp: evs_def)
  ultimately show ?thesis by blast
qed

text \<open>The request: whoever has the address answers it, whatever is in its table.\<close>

lemma request_answered:
  assumes up: "link_up E n" and E': "env_ok E'" and wire: "same_wire E' E" and inv: "arp_inv E st"
    and own: "\<not> ip4_addr_isany E (ip_addr (nif E n))" "rehost E' E ip = ip_addr (nif E n)" and hw: "length hw = ETH_HWADDR_LEN"
    and arr: "arrives E' (arp_frame E' hw ethbroadcast ARP_REQUEST hw sip ethzero ip) E r"
  shows "\<exists>st' tr p. ethernet_input E r n st = Some st' \<and> trace st' = tr @
     [Pbuf_new p, Link_output n (arp_frame E (hwaddr (nif E n)) hw ARP_REPLY (hwaddr (nif E n)) (ip_addr (nif E n)) hw (rehost E' E sip)),
      Pbuf_free p, Pbuf_free (rx_ptr r)]"
proof -
  have len: "length ethbroadcast = ETH_HWADDR_LEN" "length ethzero = ETH_HWADDR_LEN"
    by (simp_all add: ethbroadcast_def ethzero_def ETH_HWADDR_LEN_def)
  obtain b where b: "ethernet_input E r n st = etharp_input E (rx_ptr r) b n st"
    "load_etharp_hdr E b = Some \<lparr>hwtype = LWIP_IANA_HWTYPE_ETHERNET, proto = ETHTYPE_IP E, hwlen = of_nat ETH_HWADDR_LEN,
       protolen = 4, opcode = ARP_REQUEST, shwaddr = hw, sipaddr = rehost E' E sip, dhwaddr = ethzero, dipaddr = ip_addr (nif E n)\<rparr>"
    using arp_frame_arrives [OF up E' wire hw len(1) hw len(2) arr, of st] own(2) by auto
  obtain err st1 where st1: "etharp_update_arp_entry E n (rehost E' E sip) hw ETHARP_FLAG_TRY_HARD st = Some (err, st1)"
    using update_ok [OF link_upD(1) [OF up] inv] unfolding op_ok_def by blast
  obtain p where "etharp_raw E n (hwaddr (nif E n)) hw (hwaddr (nif E n)) (ip_addr (nif E n)) hw (rehost E' E sip) ARP_REPLY st1 =
     Some (ERR_OK, emit [Pbuf_new p, Link_output n (arp_frame E (hwaddr (nif E n)) hw ARP_REPLY (hwaddr (nif E n)) (ip_addr (nif E n)) hw
       (rehost E' E sip)), Pbuf_free p] st1)"
    using etharp_raw_exact [OF up] by blast
  then show ?thesis
    using input_update(2) [OF up b(2), of st err st1] st1 own(1) unfolding b(1) by (simp add: emit_def)
qed

lemma rehost_zero: "env_ok E \<Longrightarrow> env_ok E' \<Longrightarrow> rehost E E' a = 0 \<Longrightarrow> a = 0"
proof -
  assume E: "env_ok E" "env_ok E'" and "rehost E E' a = 0"
  moreover have "rehost E' E 0 = 0" using E by (simp add: rehost_def env_ok_def port_ok_def)
  ultimately show ?thesis using rehost_back [OF E, of a] by simp
qed

text \<open>The query for an address that is not in the table: a request is broadcast, and the packet waits.\<close>

lemma query_requests:
  assumes up: "link_up E n" and inv: "arp_inv E st" and uni: "unicast E n ip"
    and new: "\<forall>e\<in>set (arp_table st). nonempty e \<longrightarrow> \<not> entry_matches E ip (Some n) e"
    and room: "\<exists>e\<in>set (arp_table st). ae_state e \<noteq> ETHARP_STATE_STATIC"
    and q: "copy_needed (pb_chain q) = Some False"
  shows "\<exists>st' i tr p. etharp_query E n ip (Some q) st = Some (ERR_OK, st') \<and> i < ARP_TABLE_SIZE E
     \<and> ae_state (arp_table st' ! i) = ETHARP_STATE_PENDING \<and> entry_matches E ip (Some n) (arp_table st' ! i) \<and> ae_q (arp_table st' ! i) = [q]
     \<and> trace st' = tr @ [Pbuf_new p, Link_output n (arp_frame E (hwaddr (nif E n)) ethbroadcast ARP_REQUEST
         (hwaddr (nif E n)) (ip_addr (nif E n)) ethzero ip), Pbuf_free p, Pbuf_ref (pb_ptr q)]"
  using inv
proof (cases rule: find_entry_cases [where ip = ip and flags = ETHARP_FLAG_TRY_HARD and n = "Some n"])
  case (found i)
  then show ?thesis using new inv unfolding arp_inv_def by (metis nth_mem)
next
  case none
  then show ?thesis using room by (auto simp: ETHARP_FLAG_TRY_HARD_def ETHARP_FLAG_FIND_ONLY_def)
next
  case (created i st1)
  let ?e = "arp_table st1 ! i"
  let ?e2 = "?e\<lparr>ae_state := ETHARP_STATE_PENDING, ae_netif := Some n\<rparr>"
  have e: "ae_state ?e = ETHARP_STATE_EMPTY" "ae_q ?e = []" "ae_ipaddr ?e = ip" and i: "i < ARP_TABLE_SIZE E"
    using created(2) by (simp_all add: created_def new_entry_def)
  have inv1: "arp_inv E st1" using created(3) arp_stepD by blast
  let ?F = "Link_output n (arp_frame E (hwaddr (nif E n)) ethbroadcast ARP_REQUEST (hwaddr (nif E n)) (ip_addr (nif E n)) ethzero ip)"
  obtain p where p: "etharp_request E n ip (set_entry i ?e2 st1) = Some (ERR_OK, emit [Pbuf_new p, ?F, Pbuf_free p] (set_entry i ?e2 st1))"
    using etharp_raw_exact [OF up] unfolding etharp_request_def etharp_request_dst_def by blast
  define st3 where "st3 = emit [Pbuf_new p, ?F, Pbuf_free p] (set_entry i ?e2 st1)"
  have t3: "arp_table st3 ! i = ?e2" using nth_set_entry [OF inv1 i] by (simp add: st3_def)
  have malloc: "memp_malloc E tr" for tr using up by (simp add: link_up_def)
  have "etharp_query E n ip (Some q) st = query_deliver E n i (Some q) ERR_OK st3"
    using created(1) uni e(1) p st3_def stack_env(5) [OF link_upD(1) [OF up] i] by (simp add: etharp_query_def unicast_def query_mark_def query_request_def)
  also have "\<dots> = Some (query_enqueue E i q (emit [Pbuf_ref (pb_ptr q)] st3))"
    using t3 q by (simp add: query_deliver_def query_pending_def ge_stable_def)
  also have "\<dots> = Some (ERR_OK, set_entry i (?e2\<lparr>ae_q := [q]\<rparr>) (emit [Pbuf_ref (pb_ptr q)] st3))"
    using t3 e(2) malloc by (auto simp: query_enqueue_def Let_def)
  finally have "etharp_query E n ip (Some q) st = Some (ERR_OK, set_entry i (?e2\<lparr>ae_q := [q]\<rparr>) (emit [Pbuf_ref (pb_ptr q)] st3))"
    (is "_ = Some (ERR_OK, ?st')") .
  moreover have "i < length (arp_table st3)" using i inv1 by (simp add: st3_def set_entry_def arp_inv_def)
  then have "arp_table ?st' ! i = ?e2\<lparr>ae_q := [q]\<rparr>" by (simp add: set_entry_def)
  moreover have "entry_matches E ip (Some n) (?e2\<lparr>ae_q := [q]\<rparr>)"
    using e(3) link_upD(2) [OF up] by (simp add: entry_matches_def env_ok_def)
  moreover have "trace ?st' = trace st1 @ [Pbuf_new p, ?F, Pbuf_free p, Pbuf_ref (pb_ptr q)]"
    by (simp add: st3_def set_entry_def emit_def)
  ultimately show ?thesis using i by (intro exI [of _ ?st'] exI [of _ i] exI [of _ "trace st1"] exI [of _ p]) simp
qed

section \<open>A network of hosts of either byte order\<close>

definition be_word :: "byte list \<Rightarrow> 32 word" where
  "be_word b = push_bit 24 (ucast (b ! 0)) OR push_bit 16 (ucast (b ! 1)) OR push_bit 8 (ucast (b ! 2)) OR ucast (b ! 3)"

lemma be_word_bytes: "be_word (be_bytes w) = w"
proof (rule bit_word_eqI)
  fix n assume "n < LENGTH(32)"
  then consider "n < 8" | "8 \<le> n" "n < 16" | "16 \<le> n" "n < 24" | "24 \<le> n" "n < 32" by fastforce
  then show "bit (be_word (be_bytes w)) n = bit w n"
    by cases (auto simp: be_word_def be_bytes_def bit_simps less_diff_conv2)
qed

definition lan_netif :: "lwip_port \<Rightarrow> netif_ptr \<Rightarrow> netif" where
  "lan_netif L n = \<lparr>ip_addr = lp_htonl L (0x0a000001 + of_nat n), netmask = lp_htonl L 0xffffff00, gw = lp_htonl L 0x0a0000fe,
     hwaddr = [2, 0, 0, 0, 0, of_nat n + 1], hwaddr_len = 6, nif_flags = 0x0a, num = n\<rparr>"

definition lan_env :: "lwip_port \<Rightarrow> lwip_env" where
  "lan_env L = \<lparr>port = L, nif = lan_netif L, ETH_PAD = [], ETHTYPE_IP = 0x0800, ETHTYPE_ARP = 0x0806, ETHTYPE_VLAN = 0x8100,
     ETHTYPE_IPV6 = 0x86dd, ETHTYPE_PPPOEDISC = 0x8863, ETHTYPE_PPPOE = 0x8864, ETHARP_SUPPORT_VLAN = False,
     LWIP_HOOK_VLAN_SET = None, VLAN_CHECK = None, LWIP_ARP_FILTER_NETIF_FN = None, LWIP_HOOK_UNKNOWN_ETH_PROTOCOL = None,
     LWIP_IPV4 = True, LWIP_ARP = True, LWIP_IPV6 = True, PPPOE_SUPPORT = False, ARP_TABLE_SIZE = 2, ARP_MAXAGE = 300, LWIP_ND6_NUM_DESTINATIONS = 10,
     ARP_QUEUEING = True, ARP_QUEUE_LEN = 3, ETHARP_SUPPORT_STATIC_ENTRIES = True, ETHARP_TABLE_MATCH_NETIF = True,
     LWIP_NETIF_HWADDRHINT = False, LWIP_AUTOIP = False, DHCP_DOES_ARP_CHECK = False, LWIP_HOOK_ETHARP_GET_GW = None,
     LWIP_DEBUG = False, ip4_addr_cmp = (=), ip4_addr_isany = (\<lambda>a. a = IPADDR_ANY L),
     ip4_addr_ismulticast = (\<lambda>a. drop_bit 28 (lp_htonl L a) = 0xe),
     ip4_addr_islinklocal = (\<lambda>a. drop_bit 16 (lp_htonl L a) = 0xa9fe), ip4_addr_isbroadcast = ip4_addr_isbroadcast_u32 L,
     ip4_load = (\<lambda>b. lp_htonl L (be_word b)), ip4_route = (\<lambda>a. Some 0), pbuf_add_header = (\<lambda>tr. True),
     pbuf_remove_header = (\<lambda>tr. True), linkoutput = (\<lambda>tr. ERR_OK), pbuf_alloc = (\<lambda>tr. Some (length tr)),
     pbuf_clone = (\<lambda>tr p. None), memp_malloc = (\<lambda>tr. True)\<rparr>"

lemma port_mem: "port_ok L \<Longrightarrow> lp_mem L a = be_bytes (lp_htonl L a)"
  unfolding port_ok_def by metis

lemma lan_ok: "port_ok L \<Longrightarrow> link_up (lan_env L) n"
proof -
  assume L: "port_ok L"
  then have "lp_htonl L (lp_htonl L a) = a" for a by (simp add: port_ok_def)
  then have "env_ok (lan_env L)"
    using L by (simp add: env_ok_def lan_env_def port_mem be_word_bytes) (simp add: be_bytes_def)
  then show ?thesis
    by (simp add: link_up_def stack_ok_def NETIF_ADDR_IDX_MAX_def lan_env_def lan_netif_def ETH_HWADDR_LEN_def NETIF_FLAG_ETHARP_def)
qed


section \<open>Properties\<close>

lemma run_static:
  assumes "stack_ok E" "i < ARP_TABLE_SIZE E"
  shows "arp_inv E st \<Longrightarrow> ae_state (arp_table st ! i) = ETHARP_STATE_STATIC \<Longrightarrow>
    \<forall>op\<in>set ops. op_valid E op \<and> \<not> op_touches op (arp_table st ! i) \<Longrightarrow>
    \<exists>st'. run_ops (arp_do E) ops st = Some st' \<and> arp_table st' ! i = arp_table st ! i"
proof (induction ops arbitrary: st)
  case (Cons op ops)
  obtain st1 where "arp_do E op st = Some st1" "arp_step E (op_touches op) (op_received op) st st1"
    using arp_do_step [OF assms(1) Cons.prems(1)] Cons.prems(3) by (meson list.set_intros(1))
  then have st1: "arp_do E op st = Some st1" "arp_inv E st1" "arp_table st1 ! i = arp_table st ! i"
    using Cons.prems(2,3) assms(2) by (simp_all add: arp_step_def)
  then show ?case using Cons.IH [of st1] Cons.prems by simp
qed simp

lemma trace_init: "trace (etharp_init E hints) = []"
  by (simp add: etharp_init_def)


definition lan_packet :: pbuf where
  "lan_packet = \<lparr>pb_ptr = 7, pb_chain = [\<lparr>seg_len = 20, seg_tot_len = 20, seg_needs_copy = False\<rparr>], pb_bytes = replicate 20 0x45\<rparr>"

lemma lan_packet_single: "single_packet lan_packet" "copy_needed (pb_chain lan_packet) = Some False"
  by (simp_all add: lan_packet_def single_packet_def)


text \<open>C3: references to packet buffers are neither lost nor given back twice: at any time what was
  taken and received, less what was given back and handed on, is what the queues of the table
  hold. Frames may have any length, those that are dropped included, but an ARP frame not less than
  that of an ARP packet, and what is handed over for sending is one packet, as the code asserts.\<close>

theorem arp_references:
  assumes "stack_ok E" and "\<forall>op\<in>set ops. op_valid E op"
  shows "\<exists>st. run_ops (arp_do E) ops (etharp_init E hints) = Some st
    \<and> (\<forall>p. balance (trace st) p + (\<Sum>op\<leftarrow>ops. op_received op p) = held st p)"
proof -
  obtain st where st: "run_ops (arp_do E) ops (etharp_init E hints) = Some st"
    "\<forall>p. balance (trace st) p - held st p = balance (trace (etharp_init E hints)) p - held (etharp_init E hints) p
      - (\<Sum>op\<leftarrow>ops. op_received op p)"
    using arp_machine.run_conserves [OF conjI [OF assms(1) arp_inv_init [OF assms(1)]] ops_valid_always [OF assms(2)]] by blast
  have "balance (trace st) p + (\<Sum>op\<leftarrow>ops. op_received op p) = held st p" for p
    using st(2) [rule_format, of p] by (simp add: held_init trace_init)
  then show ?thesis using st(1) by blast
qed

theorem arp_references_witness:
  "\<exists>st. run_ops (arp_do (lan_env be_port))
      [Op_query 0 0x0a000002 (Some lan_packet), Op_input \<lparr>rx_ptr = 3, rx_bytes = replicate 9 0, rx_if_idx = 0, rx_flags = []\<rparr> 0]
      (etharp_init (lan_env be_port) (\<lambda>n. None)) = Some st
    \<and> (\<forall>p. balance (trace st) p + (\<Sum>op\<leftarrow>[Op_query 0 0x0a000002 (Some lan_packet),
         Op_input \<lparr>rx_ptr = 3, rx_bytes = replicate 9 0, rx_if_idx = 0, rx_flags = []\<rparr> 0]. op_received op p) = held st p)"
  by (rule arp_references [OF link_upD(1) [OF lan_ok [OF be_port_ok]]])
    (simp add: lan_packet_single rx_ok_def SIZEOF_ETH_HDR_def SIZEOF_VLAN_HDR_def SIZEOF_ETHARP_HDR_def lan_env_def)

text \<open>C32: a static entry stays as it is, whatever is sent, received, or times out, until it is set
  again, removed, or its interface goes down; under the conditions of \<open>op_valid\<close> on short ARP frames
  and on packets to be sent.\<close>

theorem arp_static_kept:
  assumes "stack_ok E" and "arp_inv E st" and "i < ARP_TABLE_SIZE E" and "ae_state (arp_table st ! i) = ETHARP_STATE_STATIC"
    and "\<forall>op\<in>set ops. op_valid E op \<and> \<not> op_touches op (arp_table st ! i)"
  shows "\<exists>st'. run_ops (arp_do E) ops st = Some st' \<and> arp_table st' ! i = arp_table st ! i"
  by (rule run_static [OF assms(1,3,2,4,5)])

definition lan_entry :: "etharp_state \<Rightarrow> ip4_addr \<Rightarrow> 16 word \<Rightarrow> etharp_entry" where
  "lan_entry s ip c = \<lparr>ae_q = [], ae_ipaddr = ip, ae_netif = Some 0, ae_ethaddr = [2, 0, 0, 0, 0, 2], ae_ctime = c, ae_state = s\<rparr>"

definition lan_cache :: arp where
  "lan_cache = (etharp_init (lan_env be_port) (\<lambda>n. None))\<lparr>arp_table :=
     [lan_entry ETHARP_STATE_STATIC 0x0a000002 0, lan_entry ETHARP_STATE_STABLE 0x0a000003 10]\<rparr>"

lemma All_less_2: "(\<forall>i<(2::nat). P i) \<longleftrightarrow> P 0 \<and> P 1" "(\<forall>i<Suc (Suc 0). P i) \<longleftrightarrow> P 0 \<and> P (Suc 0)"
  by (auto simp: less_Suc_eq numeral_2_eq_2)

lemma lan_cache_inv: "arp_inv (lan_env be_port) lan_cache"
  by (simp add: arp_inv_def lan_cache_def lan_entry_def lan_env_def etharp_init_def table_unique_def All_less_2 entry_ok_def
      queue_fits_def nonempty_def entry_key_def)

theorem arp_static_kept_witness:
  "\<exists>st'. run_ops (arp_do (lan_env be_port)) [Op_tmr, Op_query 0 0x0a000002 (Some lan_packet), Op_remove_static 0x0a000003] lan_cache
      = Some st' \<and> arp_table st' ! 0 = arp_table lan_cache ! 0"
proof (rule arp_static_kept [OF link_upD(1) [OF lan_ok [OF be_port_ok]] lan_cache_inv])
  show "0 < ARP_TABLE_SIZE (lan_env be_port)" by (simp add: lan_env_def)
  show "ae_state (arp_table lan_cache ! 0) = ETHARP_STATE_STATIC" by (simp add: lan_cache_def lan_entry_def)
  show "\<forall>op\<in>set [Op_tmr, Op_query 0 0x0a000002 (Some lan_packet), Op_remove_static 0x0a000003].
      op_valid (lan_env be_port) op \<and> \<not> op_touches op (arp_table lan_cache ! 0)"
    by (simp add: lan_packet_single lan_cache_def lan_entry_def)
qed

text \<open>C33: the entry for an address. If there is one it is found; otherwise the least important entry is
  used: an empty one if there is one, else the oldest stable one, else the oldest pending one on
  which no packet waits, else the oldest pending one. Only if all are static there is none.\<close>

theorem find_entry_policy:
  assumes "arp_inv E st"
  shows "case etharp_find_entry E ip ETHARP_FLAG_TRY_HARD n st of
      None \<Rightarrow> False
    | Some (None, st') \<Rightarrow> st' = st \<and> (\<forall>e\<in>set (arp_table st). ae_state e = ETHARP_STATE_STATIC \<and> \<not> entry_matches E ip n e)
    | Some (Some i, st') \<Rightarrow> i < ARP_TABLE_SIZE E \<and>
        (if \<exists>e\<in>set (arp_table st). nonempty e \<and> entry_matches E ip n e
         then st' = st \<and> nonempty (arp_table st ! i) \<and> entry_matches E ip n (arp_table st ! i)
         else least_important E (arp_table st) i \<and> new_entry E ip n (arp_table st' ! i)
           \<and> (\<forall>j. j \<noteq> i \<longrightarrow> arp_table st' ! j = arp_table st ! j))"
  using assms
proof (cases rule: find_entry_cases [where ip = ip and flags = ETHARP_FLAG_TRY_HARD and n = n])
  case (found i)
  then have "arp_table st ! i \<in> set (arp_table st)" using assms by (simp add: arp_inv_def)
  then show ?thesis using found by auto
next
  case none
  then show ?thesis by (auto simp: ETHARP_FLAG_TRY_HARD_def ETHARP_FLAG_FIND_ONLY_def nonempty_def)
next
  case (created i st')
  then have "\<not> (\<exists>e\<in>set (arp_table st). nonempty e \<and> entry_matches E ip n e)" by (auto simp: created_def)
  then show ?thesis using created(1,2) by (auto simp: created_def)
qed


theorem find_entry_policy_witness:
  "case etharp_find_entry (lan_env be_port) 0x0a000004 ETHARP_FLAG_TRY_HARD (Some 0) lan_cache of
      None \<Rightarrow> False
    | Some (None, st') \<Rightarrow> st' = lan_cache \<and> (\<forall>e\<in>set (arp_table lan_cache). ae_state e = ETHARP_STATE_STATIC
        \<and> \<not> entry_matches (lan_env be_port) 0x0a000004 (Some 0) e)
    | Some (Some i, st') \<Rightarrow> i < ARP_TABLE_SIZE (lan_env be_port) \<and>
        (if \<exists>e\<in>set (arp_table lan_cache). nonempty e \<and> entry_matches (lan_env be_port) 0x0a000004 (Some 0) e
         then st' = lan_cache \<and> nonempty (arp_table lan_cache ! i) \<and> entry_matches (lan_env be_port) 0x0a000004 (Some 0) (arp_table lan_cache ! i)
         else least_important (lan_env be_port) (arp_table lan_cache) i \<and> new_entry (lan_env be_port) 0x0a000004 (Some 0) (arp_table st' ! i)
           \<and> (\<forall>j. j \<noteq> i \<longrightarrow> arp_table st' ! j = arp_table lan_cache ! j))"
  by (rule find_entry_policy [OF lan_cache_inv])

text \<open>C34: entries expire. After \<open>k\<close> ticks of the timer an entry that is not static is gone exactly
  if its age and \<open>k\<close> reach \<open>ARP_MAXAGE\<close>, or \<open>ARP_MAXPENDING\<close> for a pending entry; until then it
  keeps its addresses.\<close>

theorem arp_expires:
  assumes "stack_ok E" and "arp_inv E st"
  shows "\<exists>st'. run_ops (arp_do E) (replicate k Op_tmr) st = Some st' \<and>
    (\<forall>i<ARP_TABLE_SIZE E. let e = arp_table st ! i; e' = arp_table st' ! i in
       if ae_state e = ETHARP_STATE_STATIC then e' = e
       else if ae_state e = ETHARP_STATE_EMPTY \<or> age_limit E e \<le> unat (ae_ctime e) + k then ae_state e' = ETHARP_STATE_EMPTY
       else ae_state e' \<noteq> ETHARP_STATE_EMPTY \<and> ae_ipaddr e' = ae_ipaddr e \<and> ae_ethaddr e' = ae_ethaddr e
            \<and> unat (ae_ctime e') = unat (ae_ctime e) + k)"
proof -
  obtain st' where st': "run_ops (arp_do E) (replicate k Op_tmr) st = Some st'" "arp_table st' = map (aged E ^^ k) (arp_table st)"
    using ticks_table [OF assms] by blast
  have len: "length (arp_table st) = ARP_TABLE_SIZE E" using assms(2) by (simp add: arp_inv_def)
  have "let e = arp_table st ! i; e' = arp_table st' ! i in
       if ae_state e = ETHARP_STATE_STATIC then e' = e
       else if ae_state e = ETHARP_STATE_EMPTY \<or> age_limit E e \<le> unat (ae_ctime e) + k then ae_state e' = ETHARP_STATE_EMPTY
       else ae_state e' \<noteq> ETHARP_STATE_EMPTY \<and> ae_ipaddr e' = ae_ipaddr e \<and> ae_ethaddr e' = ae_ethaddr e
            \<and> unat (ae_ctime e') = unat (ae_ctime e) + k" if i: "i < ARP_TABLE_SIZE E" for i
  proof -
    let ?e = "arp_table st ! i"
    have e': "arp_table st' ! i = (aged E ^^ k) ?e" using st'(2) i len by simp
    have ok: "entry_ok E ?e" by (rule arp_inv_entry [OF assms(2) i])
    consider "ae_state ?e = ETHARP_STATE_STATIC" | "ae_state ?e = ETHARP_STATE_EMPTY"
      | "ae_state ?e \<noteq> ETHARP_STATE_STATIC" "ae_state ?e \<noteq> ETHARP_STATE_EMPTY" by blast
    then show ?thesis
    proof cases
      case 1
      then show ?thesis using e' ok aged_static [of ?e E k] by (simp add: entry_ok_def)
    next
      case 2
      then show ?thesis using e' aged_empty [of ?e] by simp
    next
      case 3
      then show ?thesis
        using e' aged_pow [OF assms(1), of ?e k] ok by (simp add: Let_def aging_def entry_ok_def age_limit_def split: if_splits)
    qed
  qed
  then show ?thesis using st'(1) by blast
qed

theorem arp_expires_witness:
  "\<exists>st'. run_ops (arp_do (lan_env be_port)) (replicate 290 Op_tmr) lan_cache = Some st' \<and>
    (\<forall>i<ARP_TABLE_SIZE (lan_env be_port). let e = arp_table lan_cache ! i; e' = arp_table st' ! i in
       if ae_state e = ETHARP_STATE_STATIC then e' = e
       else if ae_state e = ETHARP_STATE_EMPTY \<or> age_limit (lan_env be_port) e \<le> unat (ae_ctime e) + 290 then ae_state e' = ETHARP_STATE_EMPTY
       else ae_state e' \<noteq> ETHARP_STATE_EMPTY \<and> ae_ipaddr e' = ae_ipaddr e \<and> ae_ethaddr e' = ae_ethaddr e
            \<and> unat (ae_ctime e') = unat (ae_ctime e) + 290)"
  by (rule arp_expires [OF link_upD(1) [OF lan_ok [OF be_port_ok]] lan_cache_inv])

text \<open>C4: an address is resolved. A query for an address that is not in the table of host A broadcasts
  a request and keeps the packet. If that frame arrives at the host B that has the address, B sends
  a reply, whatever its table holds and even if its byte order is another. If the reply arrives at A,
  the packet goes to the hardware address of B, and the table of A knows it.\<close>

theorem arp_resolves:
  assumes A: "link_up EA a" "arp_inv EA stA" and B: "link_up EB b" "arp_inv EB stB" and wire: "same_wire EA EB"
    and ip: "unicast EA a ip" "rehost EA EB ip = ip_addr (nif EB b)"
    and new: "\<forall>e\<in>set (arp_table stA). nonempty e \<longrightarrow> \<not> entry_matches EA ip (Some a) e"
    and room: "\<exists>e\<in>set (arp_table stA). ae_state e \<noteq> ETHARP_STATE_STATIC"
    and q: "single_packet q" "copy_needed (pb_chain q) = Some False"
  shows "\<exists>stA1 tr1 p1 F1. etharp_query EA a ip (Some q) stA = Some (ERR_OK, stA1)
     \<and> trace stA1 = tr1 @ [Pbuf_new p1, Link_output a F1, Pbuf_free p1, Pbuf_ref (pb_ptr q)]
     \<and> (\<forall>r1. arrives EA F1 EB r1 \<longrightarrow> (\<exists>stB1 tr2 p2 F2. ethernet_input EB r1 b stB = Some stB1
          \<and> trace stB1 = tr2 @ [Pbuf_new p2, Link_output b F2, Pbuf_free p2, Pbuf_free (rx_ptr r1)]
          \<and> (\<forall>r2. arrives EB F2 EA r2 \<longrightarrow> (\<exists>stA2 i evs. ethernet_input EA r2 a stA1 = Some stA2
               \<and> trace stA2 = trace stA1 @
                   [Link_output a (eth_hdr_bytes EA (hwaddr (nif EB b)) (hwaddr (nif EA a)) (ETHTYPE_IP EA) @ pb_bytes q),
                    Pbuf_free (pb_ptr q)] @ evs
               \<and> (\<forall>n F. Link_output n F \<notin> set evs)
               \<and> etharp_find_addr EA (Some a) ip stA2 = Some (Some (i, hwaddr (nif EB b), ip))))))"
proof -
  note envA = link_upD(2) [OF A(1)] and envB = link_upD(2) [OF B(1)]
  note hwA = link_upD(3) [OF A(1)] and hwB = link_upD(3) [OF B(1)]
  have wire': "same_wire EB EA" using wire by (simp add: same_wire_def)
  let ?F1 = "arp_frame EA (hwaddr (nif EA a)) ethbroadcast ARP_REQUEST (hwaddr (nif EA a)) (ip_addr (nif EA a)) ethzero ip"
  obtain stA1 i tr1 p1 where one: "etharp_query EA a ip (Some q) stA = Some (ERR_OK, stA1)" "i < ARP_TABLE_SIZE EA"
    "ae_state (arp_table stA1 ! i) = ETHARP_STATE_PENDING" "entry_matches EA ip (Some a) (arp_table stA1 ! i)" "ae_q (arp_table stA1 ! i) = [q]"
    "trace stA1 = tr1 @ [Pbuf_new p1, Link_output a ?F1, Pbuf_free p1, Pbuf_ref (pb_ptr q)]"
    using query_requests [OF A ip(1) new room q(2)] by blast
  have invA1: "arp_inv EA stA1"
    using query_ok [OF link_upD(1) [OF A(1)] A(2), of "Some q" "\<lambda>e. False" a ip] q(1) one(1) unfolding op_ok_def by (auto dest: arp_stepD)
  have own: "\<not> ip4_addr_isany EB (ip_addr (nif EB b))"
    using ip envA envB rehost_zero [OF envA envB] by (auto simp: unicast_def env_ok_def port_ok_def)
  have ipB: "rehost EB EA (ip_addr (nif EB b)) = ip" using rehost_back [OF envA envB, of ip] ip(2) by simp
  show ?thesis
  proof (rule exI [of _ stA1], rule exI [of _ tr1], rule exI [of _ p1], rule exI [of _ ?F1], intro conjI allI impI one(1,6))
    fix r1 assume r1: "arrives EA ?F1 EB r1"
    let ?F2 = "arp_frame EB (hwaddr (nif EB b)) (hwaddr (nif EA a)) ARP_REPLY (hwaddr (nif EB b)) (ip_addr (nif EB b))
      (hwaddr (nif EA a)) (rehost EA EB (ip_addr (nif EA a)))"
    obtain stB1 tr2 p2 where two: "ethernet_input EB r1 b stB = Some stB1"
      "trace stB1 = tr2 @ [Pbuf_new p2, Link_output b ?F2, Pbuf_free p2, Pbuf_free (rx_ptr r1)]"
      using request_answered [OF B(1) envA wire B(2) own ip(2) hwA r1] by blast
    have "\<exists>stA2 evs. ethernet_input EA r2 a stA1 = Some stA2 \<and> trace stA2 = trace stA1 @ sent_packets EA a (hwaddr (nif EB b)) [q] @ evs
        \<and> (\<forall>n F. Link_output n F \<notin> set evs) \<and> etharp_find_addr EA (Some a) ip stA2 = Some (Some (i, hwaddr (nif EB b), ip))"
      if r2: "arrives EB ?F2 EA r2" for r2
      using reply_delivers [OF A(1) envB wire' invA1 one(2) ip(1) _ _ one(4) hwB ipB r2] one(3,5) by (simp add: nonempty_def)
    then show "\<exists>stB1 tr2 p2 F2. ethernet_input EB r1 b stB = Some stB1
          \<and> trace stB1 = tr2 @ [Pbuf_new p2, Link_output b F2, Pbuf_free p2, Pbuf_free (rx_ptr r1)]
          \<and> (\<forall>r2. arrives EB F2 EA r2 \<longrightarrow> (\<exists>stA2 i evs. ethernet_input EA r2 a stA1 = Some stA2
               \<and> trace stA2 = trace stA1 @
                   [Link_output a (eth_hdr_bytes EA (hwaddr (nif EB b)) (hwaddr (nif EA a)) (ETHTYPE_IP EA) @ pb_bytes q),
                    Pbuf_free (pb_ptr q)] @ evs
               \<and> (\<forall>n F. Link_output n F \<notin> set evs)
               \<and> etharp_find_addr EA (Some a) ip stA2 = Some (Some (i, hwaddr (nif EB b), ip))))"
      using two by - (rule exI [of _ stB1], rule exI [of _ tr2], rule exI [of _ p2], rule exI [of _ ?F2], fastforce)
  qed
qed


theorem arp_resolves_witness:
  "\<exists>stA1 tr1 p1 F1. etharp_query (lan_env be_port) 0 0x0a000002 (Some lan_packet) (etharp_init (lan_env be_port) (\<lambda>n. None)) = Some (ERR_OK, stA1)
     \<and> trace stA1 = tr1 @ [Pbuf_new p1, Link_output 0 F1, Pbuf_free p1, Pbuf_ref (pb_ptr lan_packet)]
     \<and> (\<forall>r1. arrives (lan_env be_port) F1 (lan_env le_port) r1 \<longrightarrow> (\<exists>stB1 tr2 p2 F2.
          ethernet_input (lan_env le_port) r1 1 (etharp_init (lan_env le_port) (\<lambda>n. None)) = Some stB1
          \<and> trace stB1 = tr2 @ [Pbuf_new p2, Link_output 1 F2, Pbuf_free p2, Pbuf_free (rx_ptr r1)]
          \<and> (\<forall>r2. arrives (lan_env le_port) F2 (lan_env be_port) r2 \<longrightarrow> (\<exists>stA2 i evs. ethernet_input (lan_env be_port) r2 0 stA1 = Some stA2
               \<and> trace stA2 = trace stA1 @
                   [Link_output 0 (eth_hdr_bytes (lan_env be_port) (hwaddr (nif (lan_env le_port) 1)) (hwaddr (nif (lan_env be_port) 0))
                      (ETHTYPE_IP (lan_env be_port)) @ pb_bytes lan_packet), Pbuf_free (pb_ptr lan_packet)] @ evs
               \<and> (\<forall>n F. Link_output n F \<notin> set evs)
               \<and> etharp_find_addr (lan_env be_port) (Some 0) 0x0a000002 stA2 = Some (Some (i, hwaddr (nif (lan_env le_port) 1), 0x0a000002))))))"
proof (rule arp_resolves [OF lan_ok [OF be_port_ok] arp_inv_init lan_ok [OF le_port_ok] arp_inv_init])
  show "stack_ok (lan_env be_port)" "stack_ok (lan_env le_port)"
    using link_upD(1) [OF lan_ok] be_port_ok le_port_ok by blast+
  show "same_wire (lan_env be_port) (lan_env le_port)" by (simp add: same_wire_def lan_env_def)
  show "unicast (lan_env be_port) 0 0x0a000002"
    by (simp add: unicast_def lan_env_def lan_netif_def ip4_addr_isbroadcast_u32_def be_port_def NETIF_FLAG_BROADCAST_def)
  show "rehost (lan_env be_port) (lan_env le_port) 0x0a000002 = ip_addr (nif (lan_env le_port) 1)"
    by (simp add: rehost_def lan_env_def lan_netif_def be_port_def le_port_def)
qed (simp_all add: etharp_init_def nonempty_def lan_env_def lan_packet_single)

text \<open>The header of an ARP packet is read before its length is looked at: a frame that is longer than
  its Ethernet header but shorter than an ARP packet is read beyond its end.\<close>

lemma etharp_input_short:
  "ethernet_input (lan_env be_port) \<lparr>rx_ptr = 1, rx_bytes = replicate 6 0xff @ [2, 0, 0, 0, 0, 2] @ [0x08, 0x06] @ [0x00],
     rx_if_idx = 0, rx_flags = []\<rparr> 0 (etharp_init (lan_env be_port) (\<lambda>n. None)) = None"
  by code_simp

end
