(* ===== verification/Lwip_Udp_Roundtrip.thy ===== *)
theory Lwip_Udp_Roundtrip
  imports Lwip_Udp_Thms Lwip_Etharp_Resolve
begin

text \<open>
  UDP, continued: what input does with a datagram, what sending emits, and that both fit together:
  what is sent to a control block of another host arrives there. A host on a LAN with the checksum of
  RFC 1071 shows that what is relied on can hold. At the end the properties.
\<close>


section \<open>What input does with a datagram\<close>

definition rx_to_all :: "'ip udp_env \<Rightarrow> 'ip ip_globals \<Rightarrow> bool \<Rightarrow> 'ip udp_pcb \<Rightarrow> bool" where
  "rx_to_all U D broadcast b \<longleftrightarrow> SO_REUSE U \<and> SO_REUSE_RXTOALL U \<and> SOF_REUSEADDR b
     \<and> (broadcast \<or> ip_addr_ismulticast U (ip_current_dest_addr D))"

text \<open>A copy that was made for a control block and handed to it.\<close>

definition copy_for :: "'ip ip_globals \<Rightarrow> (nat \<Rightarrow> 'ip udp_pcb) \<Rightarrow> 16 word \<Rightarrow> byte list \<Rightarrow> nat \<Rightarrow> 'ip udp_effect list \<Rightarrow> bool" where
  "copy_for D mem src payload m evs \<longleftrightarrow> (\<exists>q cb. recv (mem m) = Some cb
     \<and> evs = [Udp_pbuf_new q, Udp_recv cb m q payload (ip_current_src_addr D) src])"

lemma rxtoall_copies:
  "\<exists>evss. udp_rxtoall U D inp bc src dest pcb payload ms st = udp_emit (concat evss) st
     \<and> (\<forall>evs\<in>set evss. \<exists>m\<in>set ms. m \<noteq> pcb \<and> udp_matches U D inp bc dest (pcb_at st m) \<and> copy_for D (pcb_at st) src payload m evs)"
proof (induction ms arbitrary: st)
  case Nil
  show ?case by (rule exI [of _ "[]"]) (simp add: udp_emit_def)
next
  case (Cons m ms)
  define st1 where "st1 = (if m \<noteq> pcb \<and> local_port (pcb_at st m) = dest \<and> udp_input_local_match U D (pcb_at st m) inp bc then
          (case recv (pcb_at st m) of
             None \<Rightarrow> st
           | Some cb \<Rightarrow>
               (case udp_pbuf_clone U (udp_trace st) of
                  None \<Rightarrow> st
                | Some q \<Rightarrow> udp_emit [Udp_pbuf_new q, Udp_recv cb m q payload (ip_current_src_addr D) src] st))
        else st)"
  have "\<exists>evss. st1 = udp_emit (concat evss) st
      \<and> (\<forall>evs\<in>set evss. m \<noteq> pcb \<and> udp_matches U D inp bc dest (pcb_at st m) \<and> copy_for D (pcb_at st) src payload m evs)"
  proof (cases "st1 = st")
    case True
    then show ?thesis by (intro exI [of _ "[]"]) (simp add: udp_emit_def)
  next
    case False
    then obtain cb q where c: "m \<noteq> pcb \<and> local_port (pcb_at st m) = dest \<and> udp_input_local_match U D (pcb_at st m) inp bc"
      "recv (pcb_at st m) = Some cb" "st1 = udp_emit [Udp_pbuf_new q, Udp_recv cb m q payload (ip_current_src_addr D) src] st"
      by (auto simp: st1_def split: if_splits option.splits)
    show ?thesis
      by (rule exI [of _ "[[Udp_pbuf_new q, Udp_recv cb m q payload (ip_current_src_addr D) src]]"])
        (use c in \<open>auto simp: copy_for_def udp_matches_def\<close>)
  qed
  then obtain evss1 where 1: "st1 = udp_emit (concat evss1) st"
    "\<forall>evs\<in>set evss1. m \<noteq> pcb \<and> udp_matches U D inp bc dest (pcb_at st m) \<and> copy_for D (pcb_at st) src payload m evs" by blast
  obtain evss2 where 2: "udp_rxtoall U D inp bc src dest pcb payload ms st1 = udp_emit (concat evss2) st1"
    "\<forall>evs\<in>set evss2. \<exists>m\<in>set ms. m \<noteq> pcb \<and> udp_matches U D inp bc dest (pcb_at st1 m) \<and> copy_for D (pcb_at st1) src payload m evs"
    using Cons.IH by blast
  have "udp_rxtoall U D inp bc src dest pcb payload (m # ms) st = udp_emit (concat (evss1 @ evss2)) st"
    using 1(1) 2(1) by (simp add: st1_def [symmetric])
  moreover have "pcb_at st1 = pcb_at st" by (simp add: 1(1))
  ultimately show ?case using 1(2) 2(2) by (intro exI [of _ "evss1 @ evss2"]) auto
qed

text \<open>The effects of delivering a datagram to the control block \<open>c\<close>.\<close>

lemma deliver_effects:
  "\<exists>evss. udp_deliver U D inp bc src dest c p payload st =
      udp_emit (concat evss @ [case recv (pcb_at st c) of Some cb \<Rightarrow> Udp_recv cb c p payload (ip_current_src_addr D) src
                        | None \<Rightarrow> Udp_pbuf_free p]) st
    \<and> (\<not> rx_to_all U D bc (pcb_at st c) \<longrightarrow> evss = [])
    \<and> (\<forall>evs\<in>set evss. \<exists>m\<in>set (udp_pcbs st). m \<noteq> c \<and> udp_matches U D inp bc dest (pcb_at st m) \<and> copy_for D (pcb_at st) src payload m evs)"
proof (cases "rx_to_all U D bc (pcb_at st c)")
  case True
  obtain evss where e: "udp_rxtoall U D inp bc src dest c payload (udp_pcbs st) st = udp_emit (concat evss) st"
    "\<forall>evs\<in>set evss. \<exists>m\<in>set (udp_pcbs st). m \<noteq> c \<and> udp_matches U D inp bc dest (pcb_at st m) \<and> copy_for D (pcb_at st) src payload m evs"
    using rxtoall_copies by blast
  have "udp_deliver U D inp bc src dest c p payload st =
      udp_emit (concat evss @ [case recv (pcb_at st c) of Some cb \<Rightarrow> Udp_recv cb c p payload (ip_current_src_addr D) src
                        | None \<Rightarrow> Udp_pbuf_free p]) st"
    using True e(1) by (simp add: udp_deliver_def rx_to_all_def split: option.split)
  then show ?thesis using e(2) True by blast
next
  case False
  then have "udp_deliver U D inp bc src dest c p payload st =
      udp_emit [case recv (pcb_at st c) of Some cb \<Rightarrow> Udp_recv cb c p payload (ip_current_src_addr D) src
                        | None \<Rightarrow> Udp_pbuf_free p] st"
    by (auto simp: udp_deliver_def rx_to_all_def Let_def split: option.split)
  then show ?thesis by (intro exI [of _ "[]"]) simp
qed

lemma input_effects:
  assumes U: "udp_ok U" and len: "UDP_HLEN \<le> up_len p" and chk: "\<not> udp_chkerr U D inp (up_bytes p)"
  defines "h \<equiv> load_udp_hdr U (up_bytes p)"
  defines "bc \<equiv> ip_addr_isbroadcast U (ip_current_dest_addr D) (current_netif D)"
  shows "\<exists>ps evs. mset ps = mset (udp_pcbs st) \<and> udp_input U D p inp st = Some (udp_emit evs (st\<lparr>udp_pcbs := ps\<rparr>))
    \<and> (case udp_receiver U D inp bc (pcb_at st) (hdr_src h) (hdr_dest h) (udp_pcbs st) of
         Some c \<Rightarrow>
           \<exists>evss. evs = concat evss @ [case recv (pcb_at st c) of
                 Some cb \<Rightarrow> Udp_recv cb c (up_ptr p) (drop UDP_HLEN (up_bytes p)) (ip_current_src_addr D) (hdr_src h)
               | None \<Rightarrow> Udp_pbuf_free (up_ptr p)]
             \<and> (\<not> rx_to_all U D bc (pcb_at st c) \<longrightarrow> evss = [])
             \<and> (\<forall>e\<in>set evss. \<exists>m\<in>set (udp_pcbs st). m \<noteq> c \<and> udp_matches U D inp bc (hdr_dest h) (pcb_at st m)
                   \<and> copy_for D (pcb_at st) (hdr_src h) (drop UDP_HLEN (up_bytes p)) m e)
       | None \<Rightarrow>
           evs = (if udp_for_us U D inp None \<and> (LWIP_ICMP U \<or> LWIP_ICMP6 U) \<and> \<not> bc \<and> \<not> ip_addr_ismulticast U (ip_current_dest_addr D)
                  then [Icmp_port_unreach (ip_current_is_v6 D) (up_ptr p)] else []) @ [Udp_pbuf_free (up_ptr p)])"
proof -
  obtain full l u where s: "udp_search U D inp bc (pcb_at st) (hdr_src h) (hdr_dest h) [] None (udp_pcbs st) = (full, l, u)"
    by (metis prod.exhaust)
  note r = search_receiver [OF s]
  have set: "set l = set (udp_pcbs st)" using r(2) by (metis set_mset_mset)
  have rm: "udp_remove_header U tr" for tr using U by (simp add: udp_ok_def)
  have long: "\<not> up_len p < UDP_HLEN" using len by simp
  note unfold = udp_input_def [of U D p inp st, unfolded Let_def if_not_P [OF long] bc_def [symmetric] h_def [symmetric] s prod.case r(1)]
  show ?thesis
  proof (cases "udp_receiver U D inp bc (pcb_at st) (hdr_src h) (hdr_dest h) (udp_pcbs st)")
    case None
    show ?thesis unfolding unfold None
      using r(2) chk rm
      by (intro exI [of _ l] exI [of _ "(if udp_for_us U D inp None \<and> (LWIP_ICMP U \<or> LWIP_ICMP6 U) \<and> \<not> bc \<and> \<not> ip_addr_ismulticast U (ip_current_dest_addr D)
          then [Icmp_port_unreach (ip_current_is_v6 D) (up_ptr p)] else []) @ [Udp_pbuf_free (up_ptr p)]"])
        (auto simp: udp_emit_def)
  next
    case (Some c)
    have "udp_for_us U D inp (Some c)" by (simp add: udp_for_us_def)
    then have "udp_input U D p inp st = Some (udp_deliver U D inp bc (hdr_src h) (hdr_dest h) c (up_ptr p) (drop UDP_HLEN (up_bytes p)) (st\<lparr>udp_pcbs := l\<rparr>))"
      unfolding unfold Some using chk rm by simp
    with deliver_effects [of U D inp bc "hdr_src h" "hdr_dest h" c "up_ptr p" "drop UDP_HLEN (up_bytes p)" "st\<lparr>udp_pcbs := l\<rparr>"] Some r(2) set
    show ?thesis by (intro exI [of _ l]) auto
  qed
qed

section \<open>From host to host\<close>

text \<open>What is relied on between the sender \<open>U\<close> and the receiver \<open>V\<close> of a datagram: a field of 16 bits has
  two bytes, an empty checksum is read as empty, and the Internet checksum, written into the empty
  field, makes the checksum of the whole zero.\<close>

definition udp_wire_ok :: "'ip udp_env \<Rightarrow> 'ip udp_env \<Rightarrow> bool" where
  "udp_wire_ok U V \<longleftrightarrow> (\<forall>c. length (store16 U c) = 2) \<and> load16 V (store16 U 0) = 0
     \<and> (\<forall>h payload src dst. ip_chksum_pseudo V (udp_hdr_bytes U (h\<lparr>hdr_chksum := chksum_nonzero
            (ip_chksum_pseudo U (udp_hdr_bytes U (h\<lparr>hdr_chksum := 0\<rparr>) @ payload) IP_PROTO_UDP src dst)\<rparr>) @ payload)
          IP_PROTO_UDP src dst = 0)"

lemma load_hdr_bytes:
  assumes "udp_wire_ok U V"
  shows "load_udp_hdr V (udp_hdr_bytes U h @ payload) = h\<lparr>hdr_chksum := load16 V (store16 U (hdr_chksum h))\<rparr>"
    and "drop UDP_HLEN (udp_hdr_bytes U h @ payload) = payload"
proof -
  have len: "length (store16 U c) = 2" for c using assms by (simp add: udp_wire_ok_def)
  show "load_udp_hdr V (udp_hdr_bytes U h @ payload) = h\<lparr>hdr_chksum := load16 V (store16 U (hdr_chksum h))\<rparr>"
    by (simp add: load_udp_hdr_def udp_hdr_bytes_def load_be16_be16 len)
  show "drop UDP_HLEN (udp_hdr_bytes U h @ payload) = payload"
    by (simp add: udp_hdr_bytes_def UDP_HLEN_def len)
qed

text \<open>The header that is written for plain UDP, and that its checksum is accepted.\<close>

lemma header_accepted:
  assumes wire: "udp_wire_ok U V" and plain: "LWIP_UDPLITE U \<longrightarrow> pcb_flags b AND UDP_FLAGS_UDPLITE = 0"
    and D: "ip_current_src_addr D = src" "ip_current_dest_addr D = dst" "ip_current_header_proto D = IP_PROTO_UDP"
  obtains h where "udp_header U b payload dst dport n False 0 src = (h, IP_PROTO_UDP)"
    "hdr_src h = local_port b" "hdr_dest h = dport" "hdr_len h = of_nat (UDP_HLEN + length payload)"
    "\<not> udp_chkerr V D inp (udp_hdr_bytes U h @ payload)"
proof -
  define h0 where "h0 = \<lparr>hdr_src = local_port b, hdr_dest = dport, hdr_len = of_nat (UDP_HLEN + length payload), hdr_chksum = 0\<rparr>"
  define c where "c = ip_chksum_pseudo U (udp_hdr_bytes U h0 @ payload) IP_PROTO_UDP src dst"
  define gen where "gen \<longleftrightarrow> (CHECKSUM_GEN_UDP U \<and> checksum_enabled U n NETIF_CHECKSUM_GEN_UDP)
    \<and> (IP_IS_V6 U dst \<or> pcb_flags b AND UDP_FLAGS_NOCHKSUM = 0)"
  define h where "h = (if gen then h0\<lparr>hdr_chksum := chksum_nonzero c\<rparr> else h0)"
  have not_lite: "\<not> (LWIP_UDPLITE U \<and> pcb_flags b AND UDP_FLAGS_UDPLITE \<noteq> 0)" using plain by blast
  have head: "udp_header U b payload dst dport n False 0 src = (h, IP_PROTO_UDP)"
    unfolding udp_header_def Let_def if_not_P [OF not_lite] h_def gen_def c_def h0_def by auto
  have proto: "ip_current_header_proto D \<noteq> IP_PROTO_UDPLITE" using D(3) by (simp add: IP_PROTO_UDP_def IP_PROTO_UDPLITE_def)
  have h0: "h0\<lparr>hdr_chksum := 0\<rparr> = h0" by (simp add: h0_def)
  have sum: "ip_chksum_pseudo V (udp_hdr_bytes U (h0\<lparr>hdr_chksum := chksum_nonzero c\<rparr>) @ payload) IP_PROTO_UDP src dst = 0"
    using wire unfolding udp_wire_ok_def c_def by (metis h0)
  have "\<not> udp_chkerr V D inp (udp_hdr_bytes U h @ payload)"
  proof (cases gen)
    case True
    then show ?thesis using sum proto D by (simp add: udp_chkerr_def Let_def h_def)
  next
    case False
    have "load16 V (store16 U 0) = 0" using wire by (simp add: udp_wire_ok_def)
    then have "hdr_chksum (load_udp_hdr V (udp_hdr_bytes U h @ payload)) = 0"
      using False by (simp add: load_hdr_bytes [OF wire] h_def h0_def)
    then show ?thesis using proto by (simp add: udp_chkerr_def Let_def)
  qed
  moreover have "hdr_src h = local_port b" "hdr_dest h = dport" "hdr_len h = of_nat (UDP_HLEN + length payload)" by (simp_all add: h_def h0_def)
  ultimately show thesis using that head by blast
qed

text \<open>A bound control block sends.\<close>

lemma send_effects:
  assumes bound: "local_port (pcb_at st pcb) \<noteq> 0"
    and match: "IP_ADDR_PCB_VERSION_MATCH U (local_ip (pcb_at st pcb)) src" "IP_ADDR_PCB_VERSION_MATCH U (local_ip (pcb_at st pcb)) dst"
    and bcast: "IP_SOF_BROADCAST U \<longrightarrow> SOF_BROADCAST (pcb_at st pcb) \<or> \<not> ip_addr_isbroadcast U dst n"
    and len: "UDP_HLEN + length (up_bytes p) < 2 ^ 16"
    and mem: "udp_add_header U (udp_trace st) \<or> udp_pbuf_alloc U (udp_trace st) \<noteq> None"
    and head: "udp_header U (pcb_at st pcb) (up_bytes p) dst dport n False 0 src = (h, pr)"
  shows "\<exists>err pre post q loop ttl tos. udp_sendto_if_src U pcb p dst dport n src st =
    (err, udp_emit (pre @ Ip_output q (udp_hdr_bytes U h @ up_bytes p) loop src dst ttl tos pr n # post) st)
    \<and> set pre \<subseteq> {Udp_pbuf_new q, Udp_pbuf_chain q (up_ptr p)} \<and> set post \<subseteq> {Udp_pbuf_free q}
    \<and> err = ip_output_if_src U (udp_trace st @ pre)"
proof -
  have "unat (of_nat (length (up_bytes p)) + of_nat UDP_HLEN :: 16 word) = length (up_bytes p) + UDP_HLEN"
    "unat (of_nat (length (up_bytes p)) :: 16 word) = length (up_bytes p)"
    using len by (simp_all add: unat_word_ariths unat_of_nat UDP_HLEN_def)
  then have fits: "\<not> (of_nat (length (up_bytes p)) + of_nat UDP_HLEN :: 16 word) < of_nat (length (up_bytes p))"
    by (simp add: word_less_nat_alt)
  have out: "\<exists>loop ttl tos. udp_output U pcb p dst dport n False 0 src q s =
      (ip_output_if_src U (udp_trace s), udp_emit [Ip_output q (udp_hdr_bytes U h @ up_bytes p) loop src dst ttl tos pr n] s)"
    if "pcb_at s = pcb_at st" for q and s :: "'a udp"
    using head that by (simp add: udp_output_def Let_def) blast
  have go: "udp_sendto_if_src U pcb p dst dport n src st =
      (if udp_add_header U (udp_trace st) then udp_output U pcb p dst dport n False 0 src (up_ptr p) st
       else (case udp_pbuf_alloc U (udp_trace st) of
          None \<Rightarrow> (ERR_MEM, st)
        | Some q \<Rightarrow>
            (case udp_output U pcb p dst dport n False 0 src q
                (udp_emit (Udp_pbuf_new q # (if (of_nat (length (up_bytes p)) :: 16 word) \<noteq> 0 then [Udp_pbuf_chain q (up_ptr p)] else [])) st) of
               (err, st) \<Rightarrow> (err, udp_emit [Udp_pbuf_free q] st))))"
    unfolding udp_sendto_if_src_def udp_sendto_if_src_chksum_def Let_def
    using bound match bcast fits by (auto split: option.split)
  show ?thesis
  proof (cases "udp_add_header U (udp_trace st)")
    case True
    obtain loop ttl tos where "udp_output U pcb p dst dport n False 0 src (up_ptr p) st =
        (ip_output_if_src U (udp_trace st @ []), udp_emit ([] @ Ip_output (up_ptr p) (udp_hdr_bytes U h @ up_bytes p) loop src dst ttl tos pr n # []) st)"
      using out [of st "up_ptr p"] by auto
    moreover have "set [] \<subseteq> X" for X :: "'a udp_effect set" by simp
    ultimately show ?thesis unfolding go if_P [OF True] by blast
  next
    case False
    then obtain q where q: "udp_pbuf_alloc U (udp_trace st) = Some q" using mem by auto
    define evs where "evs = Udp_pbuf_new q # (if (of_nat (length (up_bytes p)) :: 16 word) \<noteq> 0 then [Udp_pbuf_chain q (up_ptr p)] else [] :: 'a udp_effect list)"
    obtain loop ttl tos where o: "udp_output U pcb p dst dport n False 0 src q (udp_emit evs st) =
        (ip_output_if_src U (udp_trace st @ evs), udp_emit [Ip_output q (udp_hdr_bytes U h @ up_bytes p) loop src dst ttl tos pr n] (udp_emit evs st))"
      using out [of "udp_emit evs st" q] by (auto simp: udp_emit_def)
    have "udp_sendto_if_src U pcb p dst dport n src st =
        (ip_output_if_src U (udp_trace st @ evs), udp_emit (evs @ Ip_output q (udp_hdr_bytes U h @ up_bytes p) loop src dst ttl tos pr n # [Udp_pbuf_free q]) st)"
      unfolding go if_not_P [OF False] q option.case evs_def [symmetric] o prod.case by (simp add: udp_emit_def)
    moreover have "set evs \<subseteq> {Udp_pbuf_new q, Udp_pbuf_chain q (up_ptr p)}" "set [Udp_pbuf_free q] \<subseteq> {Udp_pbuf_free q}"
      by (auto simp: evs_def)
    ultimately show ?thesis by blast
  qed
qed

section \<open>An instance\<close>

text \<open>The Internet checksum (RFC 1071), on the words of the bytes in network byte order.\<close>

fun wsum :: "byte list \<Rightarrow> nat" where
  "wsum [] = 0"
| "wsum [a] = unat a * 256"
| "wsum (a # b # xs) = unat a * 256 + unat b + wsum xs"

definition fold16 :: "nat \<Rightarrow> nat" where
  "fold16 n = (if n = 0 then 0 else (n - 1) mod 0xffff + 1)"

definition inet_chksum :: "byte list \<Rightarrow> 16 word" where
  "inet_chksum xs = of_nat (0xffff - fold16 (wsum xs))"

definition pseudo_header :: "byte list \<Rightarrow> byte \<Rightarrow> ip4_addr \<Rightarrow> ip4_addr \<Rightarrow> byte list" where
  "pseudo_header q pr src dst = be_bytes src @ be_bytes dst @ [0, pr] @ be16 (of_nat (length q))"

definition lan_udp :: "ip4_addr udp_env" where
  "lan_udp = \<lparr>stack = lan_env be_port, SO_REUSE = True, SO_REUSE_RXTOALL = True, IP_SOF_BROADCAST = True, IP_SOF_BROADCAST_RECV = False,
     LWIP_MULTICAST_TX_OPTIONS = True, LWIP_UDPLITE = True, LWIP_ICMP = True, LWIP_ICMP6 = False, LWIP_IPV6_SCOPES = False,
     CHECKSUM_CHECK_UDP = True, CHECKSUM_GEN_UDP = True, LWIP_CHECKSUM_ON_COPY = False, LWIP_CHECKSUM_CTRL_PER_NETIF = False,
     LWIP_RAND = Some (\<lambda>_. 0x12345), UDP_TTL = 255, chksum_flags = (\<lambda>n. 0xffff), store16 = be16, load16 = load_be16,
     IP_IS_ANY_TYPE_VAL = (\<lambda>a. False), IP_IS_V4 = (\<lambda>a. True), IP_IS_V6 = (\<lambda>a. False), IP_GET_TYPE = (\<lambda>a. 0), IPADDR_TYPE_ANY = 46,
     IP_ADDR_PCB_VERSION_MATCH_EXACT = (\<lambda>a b. True), IP_ADDR_PCB_VERSION_MATCH = (\<lambda>a b. True),
     ip_addr_isany = (\<lambda>a. a = 0), ip_addr_cmp = (=), ip_addr_ismulticast = (\<lambda>a. drop_bit 28 a = 0xe),
     ip_addr_isbroadcast = (\<lambda>a n. a = 0xffffffff), ip_2_ip4 = (\<lambda>a. a), ip6_addr_isany = (\<lambda>a. False), ip6_addr_ismulticast = (\<lambda>a. False),
     ip6_addr_lacks_zone = (\<lambda>a. False), ip6_addr_select_zone = (\<lambda>a b. a), IP4_ADDR_ANY = 0, IP_ANY_TYPE = 0, IP_ZERO = 0,
     ip_addr_any = (\<lambda>v6. 0), IP_SET_TYPE = (\<lambda>t a. a), netif_ip_addr4 = (\<lambda>n. ip_addr (lan_netif be_port n)),
     netif_get_ip6_addr_match = (\<lambda>n a. -1), netif_get_by_index = (\<lambda>i. if i = 0 then None else Some (i - 1)),
     ip6_select_source_address = (\<lambda>n a. None), ip_route = (\<lambda>src dst. Some 0), ip4_route_src = (\<lambda>src dst. Some 0),
     ip_chksum_pseudo = (\<lambda>q pr src dst. inet_chksum (pseudo_header q pr src dst @ q)),
     ip_chksum_pseudo_partial = (\<lambda>q pr len src dst. inet_chksum (pseudo_header q pr src dst @ take (unat len) q)),
     FOLD_U32T = (\<lambda>w. of_nat (fold16 (unat w))), udp_add_header = (\<lambda>tr. True), udp_remove_header = (\<lambda>tr. True),
     udp_pbuf_alloc = (\<lambda>tr. Some (length tr)), udp_pbuf_clone = (\<lambda>tr. None), ip_output_if_src = (\<lambda>tr. ERR_OK)\<rparr>"

lemma wsum_append: "even (length xs) \<Longrightarrow> wsum (xs @ ys) = wsum xs + wsum ys"
  by (induction xs rule: wsum.induct) auto

lemma wsum_be16: "wsum (be16 w) = unat w"
proof -
  have "unat (ucast (drop_bit 8 w) :: byte) = unat w div 256"
    using unsigned_less [of w, where 'a = nat]
    by (simp add: unsigned_ucast_eq unsigned_drop_bit_eq drop_bit_eq_div take_bit_eq_mod unat_div)
  moreover have "unat (ucast w :: byte) = unat w mod 256" by (simp add: unsigned_ucast_eq take_bit_eq_mod)
  ultimately show ?thesis by (simp add: be16_def)
qed

lemma fold16_complement:
  assumes "c = (if fold16 s = 0xffff then 0xffff else 0xffff - fold16 s)"
  shows "fold16 (s + c) = 0xffff"
proof (cases "s = 0")
  case False
  define k where "k = (s - 1) div 0xffff"
  define r where "r = (s - 1) mod 0xffff"
  have s: "s = k * 0xffff + r + 1" "r < 0xffff" using False by (simp_all add: k_def r_def)
  have f: "fold16 s = r + 1" using False by (simp add: fold16_def r_def)
  have "\<exists>j. s + c - 1 = 0xfffe + j * 0xffff"
  proof (cases "r + 1 = 0xffff")
    case True
    then show ?thesis using s f assms by (intro exI [of _ "k + 1"]) simp
  next
    case False
    then show ?thesis using s f assms by (intro exI [of _ k]) simp
  qed
  then obtain j where "s + c - 1 = 0xfffe + j * 0xffff" by blast
  then show ?thesis using False by (simp add: fold16_def)
qed (use assms in \<open>simp add: fold16_def\<close>)

lemma lan_udp_ok: "udp_ok lan_udp"
  by (auto simp: udp_ok_def lan_udp_def)

lemma lan_udp_wire: "udp_wire_ok lan_udp lan_udp"
proof -
  have "inet_chksum (pseudo_header q pr src dst @ q) = 0"
    if q: "q = ports @ be16 (chksum_nonzero (inet_chksum (pseudo_header q0 pr src dst @ q0))) @ payload"
      and q0: "q0 = ports @ be16 0 @ payload" and even: "even (length ports)" for q q0 ports payload pr src dst
  proof -
    have P: "pseudo_header q pr src dst = pseudo_header q0 pr src dst" by (simp add: q q0 pseudo_header_def)
    define s where "s = wsum (pseudo_header q0 pr src dst @ q0)"
    define c where "c = chksum_nonzero (inet_chksum (pseudo_header q0 pr src dst @ q0))"
    have len: "even (length (pseudo_header q0 pr src dst))" by (simp add: pseudo_header_def be_bytes_def)
    have "(s - 1) mod 0xffff < 0xffff" by simp
    then have "fold16 s \<le> 0xffff" unfolding fold16_def by (auto simp del: mod_less_divisor)
    define k where "k = 0xffff - fold16 s"
    have "k < 2 ^ 16" "k = 0 \<longleftrightarrow> fold16 s = 0xffff" using \<open>fold16 s \<le> 0xffff\<close> by (auto simp: k_def)
    then have k: "unat (of_nat k :: 16 word) = k" "(of_nat k :: 16 word) = 0 \<longleftrightarrow> fold16 s = 0xffff"
      by (simp_all add: unat_of_nat word_unat_eq_iff)
    have "c = chksum_nonzero (of_nat k)" by (simp only: c_def inet_chksum_def s_def [symmetric] k_def)
    then have "unat c = (if fold16 s = 0xffff then 0xffff else k)" using k by (simp add: chksum_nonzero_def)
    then have "unat c = (if fold16 s = 0xffff then 0xffff else 0xffff - fold16 s)" by (simp only: k_def)
    moreover have "wsum (pseudo_header q pr src dst @ q) = s + unat c"
      unfolding P using len even by (simp add: s_def q q0 wsum_append wsum_be16 c_def [unfolded q0])
    ultimately show ?thesis using fold16_complement [of "unat c" s] by (simp add: inet_chksum_def)
  qed
  note sum = this [where ports = "be16 a @ be16 b @ be16 l" for a b l, OF _ refl]
  have "load_be16 (be16 0) = 0" using load_be16_be16 [of 0 "[]"] by simp
  then show ?thesis using sum by (simp add: udp_wire_ok_def lan_udp_def udp_hdr_bytes_def)
qed

section \<open>Properties\<close>

text \<open>C40: the port that \<open>udp_new_port\<close> chooses is in the range of dynamic ports and used by no control
  block, and one is found whenever there is one: it answers 0 exactly if all ports of the range are
  taken. Nothing but the port counter changes, which stays in the range.\<close>

theorem udp_new_port_exact:
  assumes "UDP_LOCAL_PORT_RANGE_START \<le> udp_port st" and "udp_new_port st = (lport, st')"
  shows "st' = st\<lparr>udp_port := udp_port st'\<rparr> \<and> UDP_LOCAL_PORT_RANGE_START \<le> udp_port st'
    \<and> (if \<forall>q\<ge>UDP_LOCAL_PORT_RANGE_START. \<exists>p\<in>set (udp_pcbs st). local_port (pcb_at st p) = q then lport = 0
       else UDP_LOCAL_PORT_RANGE_START \<le> lport \<and> (\<forall>p\<in>set (udp_pcbs st). local_port (pcb_at st p) \<noteq> lport))"
proof -
  note e = new_port_exact [OF assms(1), unfolded assms(2) prod.case]
  define full where "full \<longleftrightarrow> (\<forall>q\<ge>UDP_LOCAL_PORT_RANGE_START. q \<in> (\<lambda>p. local_port (pcb_at st p)) ` set (udp_pcbs st))"
  have "full \<longleftrightarrow> (\<forall>q\<ge>UDP_LOCAL_PORT_RANGE_START. \<exists>p\<in>set (udp_pcbs st). local_port (pcb_at st p) = q)"
    unfolding full_def by (auto simp: image_iff)
  then show ?thesis using e unfolding full_def [symmetric] by (cases full) (auto simp: image_iff)
qed

definition blank_pcb :: "ip4_addr udp_pcb" where
  "blank_pcb = \<lparr>local_ip = 0, remote_ip = 0, netif_idx = 0, SOF_BROADCAST = False, SOF_REUSEADDR = False, pcb_tos = 0, pcb_ttl = 255,
     pcb_flags = 0, local_port = 0, remote_port = 0, mcast_ip4 = 0, mcast_ifindex = 0, mcast_ttl = 0, chksum_len_tx = 0, recv = None\<rparr>"

text \<open>A host with one control block, number 1, at the given address and port.\<close>

definition lan_host :: "ip4_addr \<Rightarrow> 16 word \<Rightarrow> ip4_addr udp" where
  "lan_host a q = \<lparr>udp_port = 0xffff, udp_pcbs = [1],
     pcb_at = (\<lambda>p. blank_pcb)(1 := blank_pcb\<lparr>local_ip := a, local_port := q, recv := Some 4\<rparr>), udp_trace = []\<rparr>"

theorem udp_new_port_exact_witness:
  "\<exists>st'. udp_new_port (lan_host 0x0a000001 0xc000) = (0xc001, st') \<and> UDP_LOCAL_PORT_RANGE_START \<le> udp_port st'"
proof -
  have r: "udp_new_port (lan_host 0x0a000001 0xc000) = (0xc001, (lan_host 0x0a000001 0xc000)\<lparr>udp_port := 0xc001\<rparr>)"
    by (simp add: udp_new_port_def lan_host_def new_port_loop.simps UDP_LOCAL_PORT_RANGE_START_def UDP_LOCAL_PORT_RANGE_END_def)
  have "UDP_LOCAL_PORT_RANGE_START \<le> udp_port (lan_host 0x0a000001 0xc000)" by (simp add: lan_host_def UDP_LOCAL_PORT_RANGE_START_def)
  from udp_new_port_exact [OF this r] show ?thesis using r by blast
qed


definition lan_ops :: "ip4_addr udp_op list" where
  "lan_ops = [Op_udp_new (Some 1) None, Op_udp_bind 1 None 53, Op_udp_recv 1 (Some 4), Op_udp_new (Some 2) (Some 0),
     Op_udp_bind 2 (Some 0x0a000001) 53, Op_udp_connect 2 0x0a000002 7,
     Op_udp_input \<lparr>current_netif = 0, current_input_netif = 0, ip_current_src_addr = 0x0a000002, ip_current_dest_addr = 0x0a000001,
         ip_current_is_v6 = False, ip_current_header_proto = 17\<rparr>
       \<lparr>up_ptr = 20, up_len = 9, up_bytes = [0, 9, 0, 53, 0, 9, 0, 0, 65]\<rparr> 0,
     Op_udp_sendto 2 \<lparr>up_ptr = 21, up_len = 2, up_bytes = [66, 67]\<rparr> 0x0a000002 7 None, Op_udp_remove 1]"

text \<open>Without changes of options, which calls are valid depends on the allocated control blocks only.\<close>

fun live_after :: "'ip udp_op \<Rightarrow> nat set \<Rightarrow> nat set" where
  "live_after (Op_udp_new (Some p) type) live = insert p live"
| "live_after (Op_udp_remove p) live = live - {p}"
| "live_after op live = live"

fun live_valid :: "'ip udp_op \<Rightarrow> nat set \<Rightarrow> bool" where
  "live_valid (Op_udp_new ptr type) live = (case ptr of None \<Rightarrow> True | Some p \<Rightarrow> p \<notin> live)"
| "live_valid (Op_udp_options p reuse broadcast) live = False"
| "live_valid op live = (case udp_op_pcb op of None \<Rightarrow> True | Some p \<Rightarrow> p \<in> live)"

fun ops_live :: "'ip udp_op list \<Rightarrow> nat set \<Rightarrow> bool" where
  "ops_live [] live = True"
| "ops_live (op # ops) live = (live_valid op live \<and> ops_live ops (live_after op live))"

lemma ops_live_valid: "ops_live ops live \<Longrightarrow> ops_valid (udp_op_step U) udp_op_valid ops (live, st)"
proof (induction ops arbitrary: live st)
  case (Cons op ops)
  have "udp_op_valid op (live, st)" using Cons.prems by (cases op) simp_all
  moreover have "\<exists>st'. s = (live_after op live, st')" if "udp_op_step U op (live, st) = Some s" for s
    using that Cons.prems
    by (cases op) (auto simp: udp_new_def udp_new_ip_type_def split: option.splits prod.splits)
  ultimately show ?case using Cons by (auto split: option.split)
qed simp

lemma lan_ops_valid: "ops_valid (udp_op_step lan_udp) udp_op_valid lan_ops (udp_start lan_udp (\<lambda>p. blank_pcb))"
  unfolding udp_start_def by (rule ops_live_valid) (simp add: lan_ops_def)


text \<open>C38: packet buffers are neither lost nor freed twice: over any such history every buffer that was
  received has been freed or handed to a callback exactly once, and so has every buffer that UDP has
  allocated itself.\<close>

theorem udp_references:
  assumes "udp_ok U" and "ops_valid (udp_op_step U) udp_op_valid ops (udp_start U mem)"
  shows "\<exists>live st. run_ops (udp_op_step U) ops (udp_start U mem) = Some (live, st)
    \<and> (\<forall>k. udp_taken st k + (\<Sum>op\<leftarrow>ops. udp_income op k) = 0)"
proof -
  obtain s where s: "run_ops (udp_op_step U) ops (udp_start U mem) = Some s"
    "\<forall>k. udp_taken (snd s) k = udp_taken (snd (udp_start U mem)) k - (\<Sum>op\<leftarrow>ops. udp_income op k)"
    using udp_machine.run_conserves [OF conjI [OF assms(1) start_good(1)] assms(2)] by blast
  obtain live st where "s = (live, st)" by fastforce
  then show ?thesis using s by (simp add: start_good(2))
qed

theorem udp_references_witness:
  "\<exists>live st. run_ops (udp_op_step lan_udp) lan_ops (udp_start lan_udp (\<lambda>p. blank_pcb)) = Some (live, st)
    \<and> udp_taken st 20 = - 1 \<and> udp_taken st 21 = 0"
proof -
  obtain live st where r: "run_ops (udp_op_step lan_udp) lan_ops (udp_start lan_udp (\<lambda>p. blank_pcb)) = Some (live, st)"
    "\<forall>k. udp_taken st k + (\<Sum>op\<leftarrow>lan_ops. udp_income op k) = 0" using udp_references [OF lan_udp_ok lan_ops_valid] by blast
  then show ?thesis using r(2) [rule_format, of 20] r(2) [rule_format, of 21] by (simp add: lan_ops_def)
qed


definition lan_datagram :: "ip4_addr \<Rightarrow> ip4_addr \<Rightarrow> ip4_addr ip_globals" where
  "lan_datagram src dst = \<lparr>current_netif = 1, current_input_netif = 1, ip_current_src_addr = src, ip_current_dest_addr = dst,
     ip_current_is_v6 = False, ip_current_header_proto = 17\<rparr>"

definition lan_udp_pbuf :: "byte list \<Rightarrow> udp_pbuf" where
  "lan_udp_pbuf b = \<lparr>up_ptr = 20, up_len = length b, up_bytes = b\<rparr>"

lemma lan_receiver:
  assumes "a = 0 \<or> a = dst" and "dst \<noteq> 0xffffffff"
  shows "udp_receiver lan_udp (lan_datagram src dst) 1 False (pcb_at (lan_host a q)) sport q (udp_pcbs (lan_host a q)) = Some 1"
  using assms
  by (auto simp: udp_receiver_def udp_full_match_def udp_matches_def udp_input_local_match_def udp_remote_match_def udp_uncon_def
      lan_udp_def lan_datagram_def lan_host_def blank_pcb_def NETIF_NO_INDEX_def Let_def)


text \<open>C8: a datagram arrives: a bound control block that sends to an address and port emits, on every way
  through the code, exactly one datagram to IP, from its port and the given source address, with the
  right length in its header, touches no other buffer than its own and returns what IP returns; and a
  host that gets these bytes accepts them, checksum included, and hands exactly the payload, with the
  address and port of the sender, to the control block that \<open>udp_receiver\<close> names. For plain UDP, in
  16 bits of length, and with a receiver that has a callback and no copies to make.\<close>

theorem udp_roundtrip:
  assumes wire: "udp_wire_ok U V" "udp_ok V" "LWIP_UDPLITE U \<longrightarrow> pcb_flags (pcb_at st pcb) AND UDP_FLAGS_UDPLITE = 0"
    and sender: "local_port (pcb_at st pcb) \<noteq> 0"
      "IP_ADDR_PCB_VERSION_MATCH U (local_ip (pcb_at st pcb)) src" "IP_ADDR_PCB_VERSION_MATCH U (local_ip (pcb_at st pcb)) dst"
      "IP_SOF_BROADCAST U \<longrightarrow> SOF_BROADCAST (pcb_at st pcb) \<or> \<not> ip_addr_isbroadcast U dst n"
      "UDP_HLEN + length (up_bytes p) < 2 ^ 16" "udp_add_header U (udp_trace st) \<or> udp_pbuf_alloc U (udp_trace st) \<noteq> None"
    and D: "ip_current_src_addr D = src" "ip_current_dest_addr D = dst" "ip_current_header_proto D = IP_PROTO_UDP"
    and receiver: "udp_receiver V D inp (ip_addr_isbroadcast V dst (current_netif D)) (pcb_at st2) (local_port (pcb_at st pcb)) dport
        (udp_pcbs st2) = Some c" "recv (pcb_at st2 c) = Some cb"
      "\<not> rx_to_all V D (ip_addr_isbroadcast V dst (current_netif D)) (pcb_at st2 c)"
  shows "\<exists>err pre post q datagram loop ttl tos.
    udp_sendto_if_src U pcb p dst dport n src st = (err, udp_emit (pre @ Ip_output q datagram loop src dst ttl tos IP_PROTO_UDP n # post) st)
    \<and> set pre \<subseteq> {Udp_pbuf_new q, Udp_pbuf_chain q (up_ptr p)} \<and> set post \<subseteq> {Udp_pbuf_free q}
    \<and> err = ip_output_if_src U (udp_trace st @ pre)
    \<and> hdr_len (load_udp_hdr V datagram) = of_nat (UDP_HLEN + length (up_bytes p))
    \<and> (\<forall>p2. up_bytes p2 = datagram \<and> UDP_HLEN \<le> up_len p2 \<longrightarrow>
         (\<exists>ps. mset ps = mset (udp_pcbs st2) \<and> udp_input V D p2 inp st2 =
            Some (udp_emit [Udp_recv cb c (up_ptr p2) (up_bytes p) src (local_port (pcb_at st pcb))] (st2\<lparr>udp_pcbs := ps\<rparr>))))"
proof -
  obtain h where h: "udp_header U (pcb_at st pcb) (up_bytes p) dst dport n False 0 src = (h, IP_PROTO_UDP)"
    "hdr_src h = local_port (pcb_at st pcb)" "hdr_dest h = dport" "hdr_len h = of_nat (UDP_HLEN + length (up_bytes p))"
    "\<not> udp_chkerr V D inp (udp_hdr_bytes U h @ up_bytes p)"
    by (rule header_accepted [OF wire(1,3) D])
  have "\<exists>ps. mset ps = mset (udp_pcbs st2) \<and> udp_input V D p2 inp st2 =
      Some (udp_emit [Udp_recv cb c (up_ptr p2) (up_bytes p) src (local_port (pcb_at st pcb))] (st2\<lparr>udp_pcbs := ps\<rparr>))"
    if p2: "up_bytes p2 = udp_hdr_bytes U h @ up_bytes p" "UDP_HLEN \<le> up_len p2" for p2
  proof -
    have ok: "\<not> udp_chkerr V D inp (up_bytes p2)" using h(5) by (simp add: p2(1))
    have l: "hdr_src (load_udp_hdr V (up_bytes p2)) = local_port (pcb_at st pcb)" "hdr_dest (load_udp_hdr V (up_bytes p2)) = dport"
      using h(2,3) by (simp_all add: p2(1) load_hdr_bytes [OF wire(1)])
    have payload: "drop UDP_HLEN (up_bytes p2) = up_bytes p" unfolding p2(1) by (rule load_hdr_bytes(2) [OF wire(1)])
    show ?thesis
      using input_effects [OF wire(2) p2(2) ok, of st2] receiver unfolding l payload D by (auto simp: D)
  qed
  moreover have "hdr_len (load_udp_hdr V (udp_hdr_bytes U h @ up_bytes p)) = of_nat (UDP_HLEN + length (up_bytes p))"
    using h(4) by (simp add: load_hdr_bytes(1) [OF wire(1)])
  ultimately show ?thesis using send_effects [OF sender h(1)] by blast
qed

theorem udp_roundtrip_witness:
  "\<exists>err pre post q datagram loop ttl tos.
    udp_sendto_if_src lan_udp 1 (lan_udp_pbuf [66, 67, 68]) 0x0a000002 53 0 0x0a000001 (lan_host 0x0a000001 5000) =
      (err, udp_emit (pre @ Ip_output q datagram loop 0x0a000001 0x0a000002 ttl tos IP_PROTO_UDP 0 # post) (lan_host 0x0a000001 5000))
    \<and> set pre \<subseteq> {Udp_pbuf_new q, Udp_pbuf_chain q 20} \<and> set post \<subseteq> {Udp_pbuf_free q}
    \<and> err = ip_output_if_src lan_udp (udp_trace (lan_host 0x0a000001 5000) @ pre)
    \<and> hdr_len (load_udp_hdr lan_udp datagram) = 11
    \<and> (\<forall>p2. up_bytes p2 = datagram \<and> UDP_HLEN \<le> up_len p2 \<longrightarrow>
         (\<exists>ps. mset ps = mset (udp_pcbs (lan_host 0 53)) \<and> udp_input lan_udp (lan_datagram 0x0a000001 0x0a000002) p2 1 (lan_host 0 53) =
            Some (udp_emit [Udp_recv 4 1 (up_ptr p2) [66, 67, 68] 0x0a000001 5000] ((lan_host 0 53)\<lparr>udp_pcbs := ps\<rparr>))))"
proof -
  let ?A = "lan_host 0x0a000001 5000" and ?B = "lan_host 0 53" and ?D = "lan_datagram 0x0a000001 0x0a000002" and ?p = "lan_udp_pbuf [66, 67, 68]"
  have A: "local_port (pcb_at ?A 1) = 5000" "pcb_flags (pcb_at ?A 1) = 0" "recv (pcb_at ?B 1) = Some 4" "SOF_REUSEADDR (pcb_at ?B 1) = False"
    by (simp_all add: lan_host_def blank_pcb_def)
  have bc: "ip_addr_isbroadcast lan_udp 0x0a000002 m = False" for m by (simp add: lan_udp_def)
  have r: "udp_receiver lan_udp ?D 1 (ip_addr_isbroadcast lan_udp 0x0a000002 (current_netif ?D)) (pcb_at ?B)
      (local_port (pcb_at ?A 1)) 53 (udp_pcbs ?B) = Some 1"
    unfolding bc A by (rule lan_receiver) simp_all
  have "\<exists>err pre post q datagram loop ttl tos.
    udp_sendto_if_src lan_udp 1 ?p 0x0a000002 53 0 0x0a000001 ?A =
      (err, udp_emit (pre @ Ip_output q datagram loop 0x0a000001 0x0a000002 ttl tos IP_PROTO_UDP 0 # post) ?A)
    \<and> set pre \<subseteq> {Udp_pbuf_new q, Udp_pbuf_chain q (up_ptr ?p)} \<and> set post \<subseteq> {Udp_pbuf_free q}
    \<and> err = ip_output_if_src lan_udp (udp_trace ?A @ pre)
    \<and> hdr_len (load_udp_hdr lan_udp datagram) = of_nat (UDP_HLEN + length (up_bytes ?p))
    \<and> (\<forall>p2. up_bytes p2 = datagram \<and> UDP_HLEN \<le> up_len p2 \<longrightarrow>
         (\<exists>ps. mset ps = mset (udp_pcbs ?B) \<and> udp_input lan_udp ?D p2 1 ?B =
            Some (udp_emit [Udp_recv 4 1 (up_ptr p2) (up_bytes ?p) 0x0a000001 (local_port (pcb_at ?A 1))] (?B\<lparr>udp_pcbs := ps\<rparr>))))"
    by (rule udp_roundtrip [OF lan_udp_wire lan_udp_ok _ _ _ _ _ _ _ _ _ _ r])
      (simp_all add: A [simplified] rx_to_all_def bc, simp_all add: lan_udp_def lan_datagram_def IP_PROTO_UDP_def lan_udp_pbuf_def UDP_HLEN_def)
  moreover have "up_bytes ?p = [66, 67, 68]" "up_ptr ?p = 20" "of_nat (UDP_HLEN + length [66 :: byte, 67, 68]) = (11 :: 16 word)"
    by (simp_all add: lan_udp_pbuf_def UDP_HLEN_def)
  ultimately show ?thesis unfolding A by (simp only:)
qed

end
