(* ===== verification/Spec2Isabelle.thy ===== *)
theory Spec2Isabelle
  imports Http_Request_Line Http_Header_Line Http_Uri Http_Chunked Http_Status_Line Http_Args Resp_Parser
    Http2_Frame_Headers Lwip_Ip6_Addr Lwip_Udp_Roundtrip
begin

text \<open>
  The repository collects implementations of network protocols, one directory per protocol
  with excerpts of a well-known program. This development verifies the parts of them that are
  written in C and carry protocol logic of their own: the HTTP/1.1 parsers of nginx, the
  RESP reply parser of Redis, of nghttp2 the frames of HTTP/2 and HPACK, its header
  compression, and of lwIP the addresses of IPv4 and IPv6, Ethernet, ARP and UDP. The four programs
  do not call each other; within each of them the theories compose as the code does.

  \<^bold>\<open>Conventions.\<close> A byte is a word of 8 bits, a buffer a list of bytes, a pointer into it an
  offset, \<open>NULL\<close> is \<open>None\<close>. Integers have the width of the code where it matters: the
  minor version of HTTP is a word of 16 bits, the HPACK decoder works on 32, the ring buffer
  on 64; elsewhere they are numbers and it is proved that they stay in range. Return codes
  are constructors of a datatype, and what C leaves undefined (an access out of bounds, an
  assertion that fails) is an error value of its own, which is proved not to occur. Functions
  of files that are not in the repository (the allocator, output buffers, the Huffman code,
  hash macros, number parsing) are parameters, usually the fields of a record, and what is
  relied on of them is a named predicate.

  \<^bold>\<open>Shared theories.\<close> \<open>Prelude\<close>: bytes, character classes, C enumerations kept in integers,
  lists and words. \<open>Byte_Machine\<close>: the loop over a buffer whose body is a \<open>switch\<close> on a
  state (\<open>run\<close>), and the locales for what such a body promises; parsing in pieces, and
  invariants of the loop, are proved there once and instantiated by an interpretation for
  each parser. \<open>Op_Machine\<close>: histories of operations on a state, with the locale
  \<open>conserving_machine\<close> for operations that keep an invariant and account for a quantity.

  \<^bold>\<open>HTTP/1.1\<close> (\<open>http1-1/.../ngx_http_parse.c\<close>, \<open>ngx_http_request.c\<close>). \<open>Http_Types\<close> has
  the parsing fields of \<open>ngx_http_request_t\<close>. Each parser has one definition per label of
  its \<open>switch\<close>:
  \<^item> \<open>Http_Request_Line\<close>, \<open>ngx_http_parse_request_line\<close>: resumable at every byte, pointers
    ordered and set, the method found is the one named, versions in range, canonical lines
    taken apart exactly, both variants of the comparison macros equal;
  \<^item> \<open>Http_Header_Line\<close>, \<open>ngx_http_parse_header_line\<close>: resumable, the shape of an accepted
    line, hash and lower-case name, canonical lines;
  \<^item> \<open>Http_Uri\<close>, \<open>ngx_http_parse_uri\<close>, \<open>ngx_http_parse_complex_uri\<close> and
    \<open>ngx_http_process_request_uri\<close>: the rewritten URI is the decoded path with its dot
    segments resolved, has none left, fits the memory allocated for it;
  \<^item> \<open>Http_Chunked\<close>, \<open>ngx_http_parse_chunked\<close>: round trip of a body, no overflow of
    \<open>off_t\<close>, \<open>ctx->length\<close> is the length of the shortest continuation, resumable;
  \<^item> \<open>Http_Status_Line\<close>, \<open>ngx_http_parse_status_line\<close>;
  \<^item> \<open>Http_Args\<close>, the remaining functions of the file: redirect targets, cookies, arguments.

  \<^bold>\<open>RESP\<close> (\<open>custom-protocol/.../resp_parser.c\<close>). \<open>Resp_Parser\<close>: every reply type, with the
  calls of the user's functions as values. The client that the file describes is a function
  with fuel; it is proved that it reads back every reply, and that fuel equal to the length of
  the buffer is enough.

  \<^bold>\<open>HPACK\<close> (\<open>http2/.../nghttp2_hd.c\<close>, \<open>nghttp2_hd.h\<close>).
  \<^item> \<open>Hpack_Int\<close>: \<open>encode_length\<close> and \<open>decode_length\<close> are inverse; the answer of the decoder for any
    bytes, which accepts what fits 32 bits and five continuation bytes, in pieces as at once;
  \<^item> \<open>Hpack_Static\<close>: the static table, \<open>lookup_token\<close> length by length, \<open>name_hash\<close>;
  \<^item> \<open>Hpack_Ring\<close>: the ring buffer implements the locale \<open>deque\<close>, a list;
  \<^item> \<open>Hpack_Table\<close>: the dynamic table with its hash map, on top of that locale. Adding and
    shrinking are the insertion and eviction of RFC 7541 on a list of fields, and searching
    finds a field exactly when it is there;
  \<^item> \<open>Hpack_Repr\<close>: a specification of header field representations after RFC 7541;
  \<^item> \<open>Hpack_Deflate\<close>: the compressor emits representations of its fields, within
    \<open>nghttp2_hd_deflate_bound\<close>;
  \<^item> \<open>Hpack_Inflate\<close>: the decompressor, one definition per state. The loop is total: every
    round consumes input or goes to a state that does. It is safe on any input;
  \<^item> \<open>Hpack_Inflate_Repr\<close>: it acts on the bytes of a representation as specified;
  \<^item> \<open>Hpack_Roundtrip\<close>: the two ends of a connection, over any sequence of header blocks and
    settings. The client loop has fuel, one more than there are bytes.

  \<^bold>\<open>HTTP/2 frames\<close> (\<open>http2/.../nghttp2_frame.c\<close>). A buffer is a block of memory with the
  offsets \<open>pos\<close> and \<open>last\<close>; writing outside of the block is \<open>None\<close>. The byte order
  functions and the chain of buffers are parameters (\<open>frame_lib\<close>, \<open>bufs_lib\<close>), and instances that
  do what their documentation says show that what is assumed of them can be met.
  \<^item> \<open>Http2_Frame\<close>: the functions of the file, in its order, the assertions included;
  \<^item> \<open>Http2_Frame_Wire\<close>: what each of the packing functions leaves between \<open>pos\<close> and
    \<open>last\<close>, as a list of bytes, and what unpacking reads from it;
  \<^item> \<open>Http2_Frame_Headers\<close>: every frame without a header block, HEADERS and PUSH_PROMISE with
    their CONTINUATION frames (on top of the compressor and decompressor of HPACK) and padding are
    read back as they were packed.

  \<^bold>\<open>lwIP\<close> (\<open>ipv4-ipv6/.../ip4_addr.c\<close>, \<open>ip6_addr.c\<close>, \<open>arp-ndp/.../ethernet.c\<close>, \<open>etharp.c\<close>,
  \<open>udp/.../udp.c\<close>).
  An address is a word in network byte order; character classes and the byte order of the
  machine are a record \<open>lwip_port\<close>, of which \<open>be_port\<close> and \<open>le_port\<close> are instances. The options of
  the build, the hooks and the functions of packet buffers are a record \<open>lwip_env\<close>; what happens
  outside of the tables (frames sent, buffers taken, given back and handed on) is a trace. A failed
  assertion is \<open>None\<close>.
  \<^item> \<open>Lwip_Ip4_Addr\<close>: broadcast addresses, netmasks (accepted exactly if they are one), and the
    text form, which is read back;
  \<^item> \<open>Lwip_Ip6_Addr\<close>: the text form of IPv6 addresses, with \<open>::\<close> and mapped IPv4 addresses. It is
    read back, and no text makes the parser write outside of the address;
  \<^item> \<open>Lwip_Ethernet\<close>: packet buffers, the environment and \<open>ethernet_output\<close>;
  \<^item> \<open>Lwip_Etharp\<close>: every function of \<open>etharp.c\<close>, and \<open>ethernet_input\<close>, which calls it;
  \<^item> \<open>Lwip_Etharp_Inv\<close>: the invariant of the ARP table, which every operation keeps, and the balance
    of references to packet buffers; histories of operations are an instance of the locale
    \<open>conserving_machine\<close>. Frames may have any length, but an ARP frame has to be as long as an ARP
    packet: the code reads beyond the end of a shorter one (\<open>etharp_input_short\<close>);
  \<^item> \<open>Lwip_Etharp_Resolve\<close>: the policy for new entries, when entries expire, static entries, and how two
    hosts, of the same or of different byte order, resolve an address;
  \<^item> \<open>Lwip_Udp\<close>: every function of \<open>udp.c\<close>. The memory of the control blocks is a function, their list
    a list of numbers; \<open>ip_addr_t\<close>, routing, checksums and packet buffers are a record \<open>udp_env\<close>, and
    calls of the callbacks are effects;
  \<^item> \<open>Lwip_Udp_Thms\<close>: the loop that looks for a port ends and finds a free one; which control block gets
    a datagram; the invariant of the list of control blocks and the balance of packet buffers, with
    histories as another instance of \<open>conserving_machine\<close>. \<open>udp_netif_ip_addr_changed\<close> is not part of
    the histories, since it can bind two control blocks alike;
  \<^item> \<open>Lwip_Udp_Roundtrip\<close>: the effects of input and output, and the way of a datagram from host to host.

  \<^bold>\<open>Not modelled.\<close> Of nginx the connection handling, configuration, phases and filters, which
  work on pools, chains and events of its core; of nghttp2 sessions and streams; of lwIP
  IP itself, ICMP, TCP, neighbour discovery, DHCP, DNS and the list of interfaces, which
  work on chains of packet buffers, control blocks and timers of files that are not in the
  repository; unbound, FRRouting and Open vSwitch, whose files rest on
  libraries that are not in the repository; event loops, io_uring and RDMA, which are system
  calls and memory shared with a kernel or a device; TLS, QUIC and RPC, which are written in
  other languages. Of the parts that are modelled, the release of memory has no counterpart but for the
  packet buffers of ARP and UDP, and statistics and debug output are left out.
\<close>

end
